(* ===== verification/JsPrelude.thy ===== *)
theory JsPrelude
  imports Complex_Main "HOL-Library.Char_ord" "HOL-Library.List_Lexorder" "HOL-Library.Multiset"
begin

text \<open>
  Shared vocabulary of the development: the pieces of the JavaScript language the program is
  written in, each with the lemmas its users share.
  \<^item> strings (\<open>split\<close> at one character, \<open>join\<close>, the order \<open><\<close> of strings, which is the
    lexicographic order of code units);
  \<^item> first-occurrence de-duplication, the contents of \<open>new Set(xs)\<close> in insertion order;
  \<^item> \<open>Array.prototype.sort\<close> with a comparator, a stable sort, and the contract of comparators
    as the locale \<open>comparator\<close>;
  \<^item> plain objects (\<open>Record<string, V>\<close>) as association lists in property enumeration order.
  Strings are lists of code units; the model has the code units 0 to 255 (type \<open>char\<close>).
\<close>

named_theorems obj_simps "lookup, keys and distinctness of object operations"
named_theorems list_simps "generic list facts the components share"

section \<open>Strings\<close>

fun split_on :: "char \<Rightarrow> string \<Rightarrow> string list" where
  "split_on c [] = [[]]"
| "split_on c (x # xs) =
     (if x = c then [] # split_on c xs
      else (case split_on c xs of [] \<Rightarrow> [[x]] | s # ss \<Rightarrow> (x # s) # ss))"

fun join :: "string \<Rightarrow> string list \<Rightarrow> string" where
  "join sep [] = []"
| "join sep [s] = s"
| "join sep (s # t # ss) = s @ sep @ join sep (t # ss)"

definition str_includes :: "string \<Rightarrow> string \<Rightarrow> bool" where
  "str_includes hay needle \<longleftrightarrow> (\<exists>i \<in> set [0..<Suc (length hay)]. take (length needle) (drop i hay) = needle)"

definition starts_with :: "string \<Rightarrow> string \<Rightarrow> bool" where
  "starts_with s p \<longleftrightarrow> take (length p) s = p"

definition ends_with :: "string \<Rightarrow> string \<Rightarrow> bool" where
  "ends_with s p \<longleftrightarrow> length p \<le> length s \<and> drop (length s - length p) s = p"

definition is_js_space :: "char \<Rightarrow> bool" where
  "is_js_space c \<longleftrightarrow> of_char c \<in> {9, 10, 11, 12, 13, 32, 160 :: nat}"

definition js_trim :: "string \<Rightarrow> string" where
  "js_trim s = rev (dropWhile is_js_space (rev (dropWhile is_js_space s)))"

definition lower_char :: "char \<Rightarrow> char" where
  "lower_char c =
     (let n = (of_char c :: nat)
      in if 65 \<le> n \<and> n \<le> 90 \<or> 192 \<le> n \<and> n \<le> 222 \<and> n \<noteq> 215 then char_of (n + 32) else c)"

definition to_lower :: "string \<Rightarrow> string" where
  "to_lower = map lower_char"

definition digit_char :: "nat \<Rightarrow> char" where
  "digit_char n = char_of (48 + n)"

definition is_digit :: "char \<Rightarrow> bool" where
  "is_digit c \<longleftrightarrow> 48 \<le> (of_char c :: nat) \<and> (of_char c :: nat) \<le> 57"

definition digit_val :: "char \<Rightarrow> nat" where
  "digit_val c = of_char c - 48"

text \<open>The decimal digits of a number that is not negative.\<close>

function int_dec :: "int \<Rightarrow> string" where
  "int_dec n = (if n < 10 then [digit_char (nat n)] else int_dec (n div 10) @ [digit_char (nat (n mod 10))])"
  by auto
termination
  by (relation "measure nat") auto

declare int_dec.simps [simp del]

definition nat_str :: "nat \<Rightarrow> string" where
  "nat_str n = int_dec (int n)"

definition int_str :: "int \<Rightarrow> string" where
  "int_str i = (if i < 0 then CHR ''-'' # int_dec (- i) else int_dec i)"

definition digits_val :: "string \<Rightarrow> int" where
  "digits_val s = foldl (\<lambda>a c. 10 * a + int (digit_val c)) 0 s"

lemma split_on_not_Nil [simp]: "split_on c s \<noteq> []"
  by (induction s) (auto split: list.splits)

lemma split_on_pieces: "p \<in> set (split_on c s) \<Longrightarrow> c \<notin> set p"
proof (induction s arbitrary: p)
  case Nil
  then show ?case by simp
next
  case (Cons x xs)
  then show ?case by (auto split: list.splits if_splits)
qed

lemma join_Cons: "ss \<noteq> [] \<Longrightarrow> join sep (s # ss) = s @ sep @ join sep ss"
  by (cases ss) auto

lemma join_split_on [simp]: "join [c] (split_on c s) = s"
proof (induction s)
  case Nil
  then show ?case by simp
next
  case (Cons x xs)
  show ?case
  proof (cases "x = c")
    case True
    with Cons.IH show ?thesis by (simp add: join_Cons)
  next
    case False
    obtain t ts where ts: "split_on c xs = t # ts"
      using split_on_not_Nil [of c xs] by (cases "split_on c xs") auto
    with Cons.IH False show ?thesis by (cases ts) auto
  qed
qed

lemma split_on_append:
  "c \<notin> set s \<Longrightarrow> split_on c (s @ c # t) = s # split_on c t"
  by (induction s) auto

lemma split_on_single: "c \<notin> set s \<Longrightarrow> split_on c s = [s]"
  by (induction s) auto

lemma split_on_join:
  "ss \<noteq> [] \<Longrightarrow> \<forall>s \<in> set ss. c \<notin> set s \<Longrightarrow> split_on c (join [c] ss) = ss"
proof (induction ss)
  case Nil
  then show ?case by simp
next
  case (Cons s ss)
  then show ?case
    by (cases ss) (simp_all add: split_on_single split_on_append)
qed

lemma append_sep_inj:
  assumes "c \<notin> set a" "c \<notin> set b" "a @ c # x = b @ c # y"
  shows "a = b \<and> x = y"
  using assms
proof (induction a arbitrary: b)
  case Nil
  then show ?case by (cases b) auto
next
  case (Cons z a)
  then show ?case by (cases b) auto
qed

section \<open>First-occurrence de-duplication: new Set\<close>

fun uniq :: "'a list \<Rightarrow> 'a list" where
  "uniq [] = []"
| "uniq (x # xs) = x # filter (\<lambda>y. y \<noteq> x) (uniq xs)"

lemma set_uniq [simp]: "set (uniq xs) = set xs"
  by (induction xs) auto

lemma distinct_uniq [simp]: "distinct (uniq xs)"
  by (induction xs) auto

lemma uniq_id: "distinct xs \<Longrightarrow> uniq xs = xs"
  by (induction xs) (auto simp: filter_id_conv)

lemma uniq_Nil_iff [simp]: "uniq xs = [] \<longleftrightarrow> xs = []"
  by (cases xs) auto

lemma length_uniq: "length (uniq xs) = card (set xs)"
  by (metis distinct_card distinct_uniq set_uniq)

section \<open>Array.prototype.sort with a comparator\<close>

text \<open>
  A comparator returns a negative number, zero or a positive number. \<open>sort\<close> is stable
  (ECMA-262 since ES2019): the model is the insertion sort that keeps equal elements in
  their order.
\<close>

fun js_insert :: "('a \<Rightarrow> 'a \<Rightarrow> int) \<Rightarrow> 'a \<Rightarrow> 'a list \<Rightarrow> 'a list" where
  "js_insert cmp x [] = [x]"
| "js_insert cmp x (y # ys) = (if cmp x y \<le> 0 then x # y # ys else y # js_insert cmp x ys)"

definition js_sort :: "('a \<Rightarrow> 'a \<Rightarrow> int) \<Rightarrow> 'a list \<Rightarrow> 'a list" where
  "js_sort cmp xs = foldr (js_insert cmp) xs []"

lemma js_sort_simps [simp]:
  "js_sort cmp [] = []"
  "js_sort cmp (x # xs) = js_insert cmp x (js_sort cmp xs)"
  by (simp_all add: js_sort_def)

lemma mset_js_insert [simp]: "mset (js_insert cmp x xs) = add_mset x (mset xs)"
  by (induction xs) auto

lemma mset_js_sort [simp]: "mset (js_sort cmp xs) = mset xs"
  by (induction xs) auto

lemma set_js_sort [simp]: "set (js_sort cmp xs) = set xs"
  by (metis mset_js_sort set_mset_mset)

lemma length_js_sort [simp]: "length (js_sort cmp xs) = length xs"
  by (metis mset_js_sort size_mset)

lemma distinct_js_sort [simp]: "distinct (js_sort cmp xs) = distinct xs"
  by (metis mset_js_sort mset_eq_imp_distinct_iff)

lemma distinct_map_js_sort [simp]: "distinct (map f (js_sort cmp xs)) = distinct (map f xs)"
  by (metis mset_js_sort mset_eq_imp_distinct_iff mset_map)

lemma js_insert_map:
  "js_insert cmp (f x) (map f xs) = map f (js_insert (\<lambda>a b. cmp (f a) (f b)) x xs)"
  by (induction xs) auto

lemma js_sort_map: "js_sort cmp (map f xs) = map f (js_sort (\<lambda>a b. cmp (f a) (f b)) xs)"
  by (induction xs) (auto simp: js_insert_map)

lemma js_insert_cong:
  "(\<And>y. y \<in> set ys \<Longrightarrow> c1 x y = c2 x y) \<Longrightarrow> js_insert c1 x ys = js_insert c2 x ys"
  by (induction ys) auto

lemma js_sort_cong:
  "(\<And>a b. a \<in> set xs \<Longrightarrow> b \<in> set xs \<Longrightarrow> c1 a b = c2 a b) \<Longrightarrow> js_sort c1 xs = js_sort c2 xs"
proof (induction xs)
  case Nil
  then show ?case by simp
next
  case (Cons x xs)
  have "js_sort c1 xs = js_sort c2 xs" using Cons by simp
  then show ?case
    by (simp, intro js_insert_cong) (simp add: Cons.prems)
qed

text \<open>The contract every comparator of the program has to meet.\<close>

locale comparator =
  fixes cmp :: "'a \<Rightarrow> 'a \<Rightarrow> int"
  assumes cmp_swap: "sgn (cmp a b) = - sgn (cmp b a)"
    and cmp_trans: "cmp a b \<le> 0 \<Longrightarrow> cmp b c \<le> 0 \<Longrightarrow> cmp a c \<le> 0"
begin

lemma cmp_refl [simp]: "cmp a a = 0"
  using cmp_swap [of a a] by (simp add: sgn_if split: if_splits)

lemma cmp_flip: "\<not> cmp a b \<le> 0 \<Longrightarrow> cmp b a \<le> 0"
  using cmp_swap [of a b] by (simp add: sgn_if split: if_splits)

lemma cmp_zero_sym: "cmp a b = 0 \<longleftrightarrow> cmp b a = 0"
  using cmp_swap [of a b] by (simp add: sgn_if split: if_splits)

lemma cmp_antisym: "cmp a b \<le> 0 \<Longrightarrow> cmp b a \<le> 0 \<Longrightarrow> cmp a b = 0"
  using cmp_swap [of a b] by (simp add: sgn_if split: if_splits)

lemma sorted_js_insert:
  "sorted_wrt (\<lambda>a b. cmp a b \<le> 0) xs \<Longrightarrow> sorted_wrt (\<lambda>a b. cmp a b \<le> 0) (js_insert cmp x xs)"
proof (induction xs)
  case Nil
  then show ?case by simp
next
  case (Cons y ys)
  have mem: "set (js_insert cmp x ys) = insert x (set ys)"
    by (metis mset_js_insert set_mset_add_mset_insert set_mset_mset)
  show ?case
  proof (cases "cmp x y \<le> 0")
    case True
    with Cons.prems show ?thesis by (auto intro: cmp_trans)
  next
    case False
    with Cons.prems Cons.IH mem show ?thesis by (auto dest: cmp_flip)
  qed
qed

lemma sorted_js_sort: "sorted_wrt (\<lambda>a b. cmp a b \<le> 0) (js_sort cmp xs)"
  by (induction xs) (auto simp: sorted_js_insert)

lemma js_sort_id: "sorted_wrt (\<lambda>a b. cmp a b \<le> 0) xs \<Longrightarrow> js_sort cmp xs = xs"
proof (induction xs)
  case Nil
  then show ?case by simp
next
  case (Cons x xs)
  then show ?case by (cases xs) auto
qed

lemma sorted_unique:
  assumes "sorted_wrt (\<lambda>a b. cmp a b \<le> 0) xs" "sorted_wrt (\<lambda>a b. cmp a b \<le> 0) ys"
    and "mset xs = mset ys"
    and "\<forall>a \<in> set xs. \<forall>b \<in> set xs. cmp a b = 0 \<longrightarrow> a = b"
  shows "xs = ys"
  using assms
proof (induction xs arbitrary: ys)
  case Nil
  then show ?case by simp
next
  case (Cons x xs)
  from Cons.prems(3) obtain y ys' where ys: "ys = y # ys'" by (cases ys) auto
  have sets: "set (x # xs) = set ys" using Cons.prems(3) by (metis set_mset_mset)
  have "cmp x y \<le> 0" using Cons.prems(1) sets ys by (cases "x = y") auto
  moreover have "cmp y x \<le> 0" using Cons.prems(2) sets ys by (cases "x = y") auto
  ultimately have "cmp x y = 0" by (rule cmp_antisym)
  with Cons.prems(4) sets ys have "x = y" by auto
  with Cons ys show ?case by auto
qed

text \<open>
  The result depends on the elements alone, not on the order they arrive in, as soon as
  distinct elements never compare as equal.
\<close>

lemma js_sort_order_free:
  assumes "mset xs = mset ys" and "\<forall>a \<in> set xs. \<forall>b \<in> set xs. cmp a b = 0 \<longrightarrow> a = b"
  shows "js_sort cmp xs = js_sort cmp ys"
  by (rule sorted_unique [OF sorted_js_sort sorted_js_sort]) (use assms in auto)

lemma js_sort_filter: "js_sort cmp (filter P xs) = filter P (js_sort cmp xs)"
proof (induction xs)
  case Nil
  then show ?case by simp
next
  case (Cons x xs)
  have "sorted_wrt (\<lambda>a b. cmp a b \<le> 0) ys \<Longrightarrow>
      filter P (js_insert cmp x ys) = (if P x then js_insert cmp x (filter P ys) else filter P ys)" for ys
  proof (induction ys)
    case Nil
    then show ?case by simp
  next
    case (Cons y ys)
    show ?case
    proof (cases "cmp x y \<le> 0")
      case True
      have "js_insert cmp x (filter P ys) = x # filter P ys"
      proof (cases "filter P ys")
        case Nil
        then show ?thesis by simp
      next
        case (Cons z zs)
        then have "z \<in> set ys" by (metis filter_eq_ConsD in_set_conv_decomp)
        with Cons.prems True have "cmp x z \<le> 0" by (auto intro: cmp_trans)
        with Cons show ?thesis by simp
      qed
      with True show ?thesis by auto
    next
      case False
      with Cons show ?thesis by auto
    qed
  qed
  with Cons.IH sorted_js_sort [of xs] show ?case by auto
qed

end

definition lex_cmp :: "('a \<Rightarrow> 'a \<Rightarrow> int) \<Rightarrow> ('a \<Rightarrow> 'a \<Rightarrow> int) \<Rightarrow> 'a \<Rightarrow> 'a \<Rightarrow> int" where
  "lex_cmp c1 c2 a b = (if c1 a b \<noteq> 0 then c1 a b else c2 a b)"

definition key_cmp :: "('a \<Rightarrow> 'b) \<Rightarrow> ('b \<Rightarrow> 'b \<Rightarrow> int) \<Rightarrow> 'a \<Rightarrow> 'a \<Rightarrow> int" where
  "key_cmp f c a b = c (f a) (f b)"

definition cmp_int :: "int \<Rightarrow> int \<Rightarrow> int" where
  "cmp_int a b = a - b"

definition cmp_str :: "string \<Rightarrow> string \<Rightarrow> int" where
  "cmp_str a b = (if a < b then -1 else if a > b then 1 else 0)"

lemma comparator_key:
  assumes "comparator c"
  shows "comparator (key_cmp f c)"
proof
  fix a b d
  show "sgn (key_cmp f c a b) = - sgn (key_cmp f c b a)"
    unfolding key_cmp_def by (rule comparator.cmp_swap [OF assms])
  show "key_cmp f c a b \<le> 0 \<Longrightarrow> key_cmp f c b d \<le> 0 \<Longrightarrow> key_cmp f c a d \<le> 0"
    unfolding key_cmp_def by (rule comparator.cmp_trans [OF assms])
qed

lemma comparator_rev:
  assumes "comparator c"
  shows "comparator (\<lambda>a b. c b a)"
proof
  fix a b d
  show "sgn (c b a) = - sgn (c a b)" by (rule comparator.cmp_swap [OF assms])
  show "c b a \<le> 0 \<Longrightarrow> c d b \<le> 0 \<Longrightarrow> c d a \<le> 0"
    by (rule comparator.cmp_trans [OF assms])
qed

lemma comparator_lex:
  assumes "comparator c1" "comparator c2"
  shows "comparator (lex_cmp c1 c2)"
proof
  fix a b c
  show "sgn (lex_cmp c1 c2 a b) = - sgn (lex_cmp c1 c2 b a)"
    using comparator.cmp_swap [OF assms(1), of a b] comparator.cmp_swap [OF assms(2), of a b]
      comparator.cmp_zero_sym [OF assms(1), of a b]
    by (simp add: lex_cmp_def)
  assume ab: "lex_cmp c1 c2 a b \<le> 0" and bc: "lex_cmp c1 c2 b c \<le> 0"
  from ab bc have "c1 a b \<le> 0" "c1 b c \<le> 0" by (auto simp: lex_cmp_def split: if_splits)
  then have ac: "c1 a c \<le> 0" by (rule comparator.cmp_trans [OF assms(1)])
  show "lex_cmp c1 c2 a c \<le> 0"
  proof (cases "c1 a c = 0")
    case False
    with ac show ?thesis by (simp add: lex_cmp_def)
  next
    case True
    then have "c1 c a \<le> 0" using comparator.cmp_zero_sym [OF assms(1), of a c] by simp
    from \<open>c1 c a \<le> 0\<close> \<open>c1 a b \<le> 0\<close> have "c1 c b \<le> 0"
      by (rule comparator.cmp_trans [OF assms(1)])
    with \<open>c1 b c \<le> 0\<close> have "c1 b c = 0" by (rule comparator.cmp_antisym [OF assms(1)])
    moreover from \<open>c1 b c \<le> 0\<close> \<open>c1 c a \<le> 0\<close> have "c1 b a \<le> 0"
      by (rule comparator.cmp_trans [OF assms(1)])
    with \<open>c1 a b \<le> 0\<close> have "c1 a b = 0" by (rule comparator.cmp_antisym [OF assms(1)])
    ultimately have "c2 a b \<le> 0" "c2 b c \<le> 0" using ab bc by (simp_all add: lex_cmp_def)
    then have "c2 a c \<le> 0" by (rule comparator.cmp_trans [OF assms(2)])
    with True show ?thesis by (simp add: lex_cmp_def)
  qed
qed

interpretation cmp_int: comparator cmp_int
  by unfold_locales (auto simp: cmp_int_def sgn_if)

interpretation cmp_str: comparator cmp_str
  by unfold_locales (auto simp: cmp_str_def split: if_splits)

lemma cmp_int_zero [simp]: "cmp_int a b = 0 \<longleftrightarrow> a = b"
  by (simp add: cmp_int_def)

lemma cmp_str_zero [simp]: "cmp_str a b = 0 \<longleftrightarrow> a = b"
  by (auto simp: cmp_str_def)

section \<open>Loops that can throw\<close>

fun fold_err :: "('s \<Rightarrow> 'a \<Rightarrow> 'e + 's) \<Rightarrow> 's \<Rightarrow> 'a list \<Rightarrow> 'e + 's" where
  "fold_err f s [] = Inr s"
| "fold_err f s (x # xs) = (case f s x of Inl e \<Rightarrow> Inl e | Inr s' \<Rightarrow> fold_err f s' xs)"

definition bind_err :: "'e + 'a \<Rightarrow> ('a \<Rightarrow> 'e + 'b) \<Rightarrow> 'e + 'b" where
  "bind_err r f = (case r of Inl e \<Rightarrow> Inl e | Inr x \<Rightarrow> f x)"

lemma bind_err_simps [simp]:
  "bind_err (Inl e) f = Inl e"
  "bind_err (Inr x) f = f x"
  by (simp_all add: bind_err_def)

lemma bind_err_Inr: "bind_err r f = Inr y \<longleftrightarrow> (\<exists>x. r = Inr x \<and> f x = Inr y)"
  by (cases r) auto

lemma fold_err_append:
  "fold_err f s (xs @ ys) = bind_err (fold_err f s xs) (\<lambda>s'. fold_err f s' ys)"
  by (induction xs arbitrary: s) (auto split: sum.splits)

lemma fold_err_invariant:
  assumes "fold_err f s xs = Inr s'" and "I s []"
    and "\<And>t t' seen x. I t seen \<Longrightarrow> x \<in> set xs \<Longrightarrow> f t x = Inr t' \<Longrightarrow> I t' (seen @ [x])"
  shows "I s' xs"
proof -
  have "fold_err f t ys = Inr s' \<Longrightarrow> I t seen \<Longrightarrow> set ys \<subseteq> set xs \<Longrightarrow> I s' (seen @ ys)" for t seen ys
  proof (induction ys arbitrary: t seen)
    case Nil
    then show ?case by simp
  next
    case (Cons y ys)
    then obtain t' where "f t y = Inr t'" "fold_err f t' ys = Inr s'" by (auto split: sum.splits)
    with Cons.IH [of t' "seen @ [y]"] Cons.prems assms(3) [of t "seen" y t'] show ?case by simp
  qed
  from this [of s xs "[]"] assms(1,2) show ?thesis by simp
qed

lemma fold_err_total:
  "(\<And>t x. x \<in> set xs \<Longrightarrow> \<exists>t'. f t x = Inr t') \<Longrightarrow> \<exists>s'. fold_err f s xs = Inr s'"
proof (induction xs arbitrary: s)
  case Nil
  then show ?case by simp
next
  case (Cons x xs)
  from Cons.prems [of x s] obtain t where "f s x = Inr t" by auto
  moreover have "\<exists>s'. fold_err f t xs = Inr s'" by (rule Cons.IH) (use Cons.prems in auto)
  ultimately show ?case by auto
qed

section \<open>Plain objects\<close>

text \<open>
  An object used as a record is the list of its own properties in enumeration order:
  array-index keys first, ascending, then the others in insertion order. Writing an existing
  key keeps its place; writing a new array-index key files it among the array-index keys.
\<close>

type_synonym 'v obj = "(string \<times> 'v) list"

definition array_index :: "string \<Rightarrow> nat option" where
  "array_index k =
     (if k \<noteq> [] \<and> list_all is_digit k \<and> int_dec (digits_val k) = k \<and> digits_val k < 2 ^ 32 - 1
      then Some (nat (digits_val k)) else None)"

definition index_before :: "string \<Rightarrow> string \<Rightarrow> bool" where
  "index_before k k' =
     (case array_index k of
        None \<Rightarrow> False
      | Some i \<Rightarrow> (case array_index k' of None \<Rightarrow> True | Some j \<Rightarrow> i < j))"

abbreviation keys :: "'v obj \<Rightarrow> string list" where
  "keys o1 \<equiv> map fst o1"

abbreviation oget :: "'v obj \<Rightarrow> string \<Rightarrow> 'v option" where
  "oget o1 k \<equiv> map_of o1 k"

fun oput_new :: "string \<Rightarrow> 'v \<Rightarrow> 'v obj \<Rightarrow> 'v obj" where
  "oput_new k v [] = [(k, v)]"
| "oput_new k v ((k', v') # o1) =
     (if index_before k k' then (k, v) # (k', v') # o1 else (k', v') # oput_new k v o1)"

definition oset :: "string \<Rightarrow> 'v \<Rightarrow> 'v obj \<Rightarrow> 'v obj" where
  "oset k v o1 =
     (if k \<in> set (keys o1) then map (\<lambda>(k', v'). (k', if k' = k then v else v')) o1
      else oput_new k v o1)"

definition odel :: "string \<Rightarrow> 'v obj \<Rightarrow> 'v obj" where
  "odel k o1 = filter (\<lambda>(k', _). k' \<noteq> k) o1"

definition from_entries :: "(string \<times> 'v) list \<Rightarrow> 'v obj" where
  "from_entries es = foldl (\<lambda>o1 (k, v). oset k v o1) [] es"

lemma map_of_map_snd_if:
  "map_of (map (\<lambda>(k', v'). (k', if k' = k then v else v')) o1) =
     (\<lambda>x. if x = k \<and> map_of o1 k \<noteq> None then Some v else map_of o1 x)"
  by (induction o1) (auto simp: fun_eq_iff)

lemma keys_map_snd_if [simp]:
  "map fst (map (\<lambda>(k', v'). (k', if k' = k then v else v')) o1) = map fst o1"
  by (induction o1) auto

lemma oput_new_lookup: "k \<notin> set (keys o1) \<Longrightarrow> oget (oput_new k v o1) = (oget o1)(k \<mapsto> v)"
  by (induction o1) (auto simp: fun_eq_iff)

lemma oput_new_keys: "fst ` set (oput_new k v o1) = insert k (fst ` set o1)"
proof (induction o1)
  case Nil
  then show ?case by simp
next
  case (Cons e o1)
  then show ?case by (cases e) (auto simp: insert_commute)
qed

lemma oput_new_distinct:
  "k \<notin> set (keys o1) \<Longrightarrow> distinct (keys o1) \<Longrightarrow> distinct (keys (oput_new k v o1))"
proof (induction o1)
  case Nil
  then show ?case by simp
next
  case (Cons e o1)
  have "fst e \<notin> fst ` set (oput_new k v o1)"
    using Cons.prems by (simp only: oput_new_keys) auto
  with Cons show ?case by (cases e) auto
qed

lemma fst_map_snd_if:
  "fst ` set (map (\<lambda>(k', v'). (k', if k' = k then v else v')) o1) = fst ` set o1"
  using keys_map_snd_if [of k v o1] by (metis set_map)

lemma oget_oset [simp, obj_simps]: "oget (oset k v o1) = (oget o1)(k \<mapsto> v)"
proof (cases "k \<in> set (keys o1)")
  case True
  then have "oget o1 k \<noteq> None" by (simp add: map_of_eq_None_iff)
  with True show ?thesis by (auto simp: oset_def map_of_map_snd_if fun_eq_iff)
next
  case False
  then show ?thesis by (auto simp: oset_def oput_new_lookup fun_eq_iff)
qed

lemma fst_oset [simp]: "fst ` set (oset k v o1) = insert k (fst ` set o1)"
proof (cases "k \<in> fst ` set o1")
  case True
  then have "k \<in> set (keys o1)" by simp
  then show ?thesis
    unfolding oset_def by (simp only: if_True fst_map_snd_if) (use True in auto)
next
  case False
  then show ?thesis by (simp add: oset_def oput_new_keys)
qed

lemma keys_oset [simp, obj_simps]: "set (keys (oset k v o1)) = insert k (set (keys o1))"
  by simp

lemma distinct_oset [simp, obj_simps]: "distinct (keys o1) \<Longrightarrow> distinct (keys (oset k v o1))"
  by (cases "k \<in> set (keys o1)") (simp_all add: oset_def oput_new_distinct del: map_map)

lemma oget_odel [simp, obj_simps]: "oget (odel k o1) = (oget o1)(k := None)"
  by (induction o1) (auto simp: odel_def fun_eq_iff)

lemma keys_odel [simp, obj_simps]: "set (keys (odel k o1)) = set (keys o1) - {k}"
  by (auto simp: odel_def)

lemma distinct_odel [simp, obj_simps]: "distinct (keys o1) \<Longrightarrow> distinct (keys (odel k o1))"
  by (induction o1) (auto simp: odel_def)

lemma foldl_oset_lookup:
  "oget (foldl (\<lambda>o1 (k, v). oset k v o1) o0 es) = oget o0 ++ map_of (rev es)"
  by (induction es arbitrary: o0) (auto simp: fun_eq_iff map_add_def split: option.splits)

lemma foldl_oset_keys:
  "fst ` set (foldl (\<lambda>o1 (k, v). oset k v o1) o0 es) = fst ` set o0 \<union> fst ` set es"
proof (induction es arbitrary: o0)
  case Nil
  then show ?case by simp
next
  case (Cons e es)
  then show ?case by (cases e) (simp only: foldl_Cons case_prod_conv fst_oset, auto)
qed

lemma foldl_oset_distinct:
  "distinct (keys o0) \<Longrightarrow> distinct (keys (foldl (\<lambda>o1 (k, v). oset k v o1) o0 es))"
  by (induction es arbitrary: o0) auto

lemma from_entries_lookup [simp]: "oget (from_entries es) = map_of (rev es)"
  by (simp add: from_entries_def foldl_oset_lookup)

lemma from_entries_keys [simp]: "fst ` set (from_entries es) = fst ` set es"
  by (simp add: from_entries_def foldl_oset_keys)

lemma from_entries_distinct [simp]: "distinct (keys (from_entries es))"
  by (simp add: from_entries_def foldl_oset_distinct)

lemma map_of_rev_distinct: "distinct (map fst es) \<Longrightarrow> map_of (rev es) = map_of es"
  by (metis map_of_inject_set distinct_rev rev_map set_rev)

lemma map_of_map_snd: "map_of (map (\<lambda>(k, v). (k, f v)) o1) = map_option f \<circ> map_of o1"
  by (induction o1) (auto simp: fun_eq_iff)

text \<open>
  The enumeration order as an invariant: no key comes after one it is filed before.
\<close>

definition index_sorted :: "'v obj \<Rightarrow> bool" where
  "index_sorted o1 \<longleftrightarrow> sorted_wrt (\<lambda>a b. \<not> index_before (fst b) (fst a)) o1"

lemma index_before_irrefl [simp]: "\<not> index_before k k"
  by (simp add: index_before_def split: option.splits)

lemma index_before_weak: "index_before a c \<Longrightarrow> index_before a b \<or> index_before b c"
  by (auto simp: index_before_def split: option.splits)

lemma index_before_asym: "index_before a b \<Longrightarrow> \<not> index_before b a"
  by (auto simp: index_before_def split: option.splits)

lemma oput_new_set: "set (oput_new k v o1) = insert (k, v) (set o1)"
proof (induction o1)
  case Nil
  then show ?case by simp
next
  case (Cons e o1)
  then show ?case by (cases e) auto
qed

lemma index_sorted_oput_new: "index_sorted o1 \<Longrightarrow> index_sorted (oput_new k v o1)"
proof (induction o1)
  case Nil
  then show ?case by (simp add: index_sorted_def)
next
  case (Cons e o1)
  obtain k' v' where e: "e = (k', v')" by (cases e)
  have rest: "index_sorted o1" using Cons.prems by (simp add: index_sorted_def)
  show ?case
  proof (cases "index_before k k'")
    case True
    have "\<not> index_before (fst x) k" if "x \<in> set o1" for x
    proof
      assume "index_before (fst x) k"
      with True index_before_weak [of "fst x" k k'] index_before_weak [of k k' "fst x"] index_before_asym
      have "index_before (fst x) k'" by blast
      with Cons.prems that e show False by (auto simp: index_sorted_def)
    qed
    with True Cons.prems e index_before_asym [OF True] show ?thesis by (auto simp: index_sorted_def)
  next
    case False
    with Cons.IH [OF rest] Cons.prems e show ?thesis by (auto simp: index_sorted_def oput_new_set)
  qed
qed

lemma index_sorted_oset: "index_sorted o1 \<Longrightarrow> index_sorted (oset k v o1)"
proof (cases "k \<in> set (keys o1)")
  case True
  assume "index_sorted o1"
  with True show ?thesis
    by (simp add: oset_def index_sorted_def sorted_wrt_map case_prod_unfold)
next
  case False
  assume "index_sorted o1"
  with False show ?thesis by (simp add: oset_def index_sorted_oput_new)
qed

lemma index_sorted_from_entries: "index_sorted (from_entries es)"
proof -
  have "index_sorted o0 \<Longrightarrow> index_sorted (foldl (\<lambda>o1 (k, v). oset k v o1) o0 es)" for o0 :: "'a obj"
    by (induction es arbitrary: o0) (auto simp: index_sorted_oset)
  then show ?thesis by (simp add: from_entries_def index_sorted_def)
qed

lemma oput_new_first:
  assumes "\<forall>e \<in> set o1. index_before k (fst e)"
  shows "oput_new k v o1 = (k, v) # o1"
proof (cases o1)
  case (Cons e es)
  with assms show ?thesis by (cases e) simp
qed simp

lemma odel_oput_new:
  assumes "index_sorted o1" "k \<noteq> c"
  shows "odel c (oput_new k v o1) = oput_new k v (odel c o1)"
  using assms(1)
proof (induction o1)
  case Nil
  then show ?case using assms(2) by (simp add: odel_def)
next
  case (Cons e o1)
  obtain k' v' where e: "e = (k', v')" by (cases e)
  have rest: "index_sorted o1" using Cons.prems by (simp add: index_sorted_def)
  show ?case
  proof (cases "index_before k k'")
    case True
    have "index_before k (fst x)" if "x \<in> set o1" for x
      using True Cons.prems that e index_before_weak [of k k' "fst x"] by (auto simp: index_sorted_def)
    then have "oput_new k v (odel c (e # o1)) = (k, v) # odel c (e # o1)"
      using True e by (intro oput_new_first) (auto simp: odel_def)
    with True e assms(2) show ?thesis by (simp add: odel_def)
  next
    case False
    with Cons.IH [OF rest] e show ?thesis by (auto simp: odel_def)
  qed
qed

lemma odel_oset:
  assumes "index_sorted o1"
  shows "odel c (oset k v o1) = (if k = c then odel c o1 else oset k v (odel c o1))"
proof (cases "k \<in> set (keys o1)")
  case True
  have "k \<in> set (keys (odel c o1))" if "k \<noteq> c" using True that by (simp only: keys_odel) simp
  moreover have "odel c (map (\<lambda>(k', v'). (k', if k' = k then v else v')) o1) =
      map (\<lambda>(k', v'). (k', if k' = k then v else v')) (odel c o1)"
    by (induction o1) (auto simp: odel_def)
  moreover have "map (\<lambda>(k', v'). (k', if k' = c then v else v')) (odel c o1) = odel c o1"
    by (intro map_idI) (auto simp: odel_def)
  ultimately show ?thesis using True by (auto simp: oset_def simp del: set_map)
next
  case False
  show ?thesis
  proof (cases "k = c")
    case True
    have "odel c (oput_new c v o1) = odel c o1" for o1 :: "'a obj"
    proof (induction o1)
      case Nil
      then show ?case by (simp add: odel_def)
    next
      case (Cons e o1)
      then show ?case by (cases e) (auto simp: odel_def)
    qed
    with True False show ?thesis by (simp add: oset_def)
  next
    case False
    have "k \<notin> set (keys (odel c o1))" using \<open>k \<notin> set (keys o1)\<close> by (simp only: keys_odel) simp
    with False \<open>k \<notin> set (keys o1)\<close> assms show ?thesis by (simp add: oset_def odel_oput_new)
  qed
qed

lemma from_entries_snoc: "from_entries (es @ [(k, v)]) = oset k v (from_entries es)"
  by (simp add: from_entries_def)

lemma from_entries_filter: "from_entries (filter (\<lambda>(k, _). k \<noteq> c) es) = odel c (from_entries es)"
proof (induction es rule: rev_induct)
  case Nil
  then show ?case by (simp add: from_entries_def odel_def)
next
  case (snoc e es)
  obtain k v where "e = (k, v)" by (cases e)
  with snoc show ?case by (simp add: from_entries_snoc odel_oset [OF index_sorted_from_entries])
qed

lemma oput_new_map:
  "oput_new k (h k v) (map (\<lambda>(k, v). (k, h k v)) o1) = map (\<lambda>(k, v). (k, h k v)) (oput_new k v o1)"
  by (induction o1) auto

lemma oset_map: "oset k (h k v) (map (\<lambda>(k, v). (k, h k v)) o1) = map (\<lambda>(k, v). (k, h k v)) (oset k v o1)"
proof -
  have "map fst (map (\<lambda>(k, v). (k, h k v)) o1) = map fst o1" by auto
  then show ?thesis by (auto simp: oset_def oput_new_map simp del: map_map) auto
qed

lemma from_entries_map:
  "from_entries (map (\<lambda>(k, v). (k, h k v)) es) = map (\<lambda>(k, v). (k, h k v)) (from_entries es)"
proof (induction es rule: rev_induct)
  case Nil
  then show ?case by (simp add: from_entries_def)
next
  case (snoc e es)
  obtain k v where "e = (k, v)" by (cases e)
  with snoc show ?case by (simp add: from_entries_snoc oset_map)
qed

lemma from_entries_update:
  assumes "c \<in> fst ` set es"
  shows "from_entries (map (\<lambda>(k, v). (k, if k = c then p else v)) es) = oset c p (from_entries es)"
proof -
  have "c \<in> set (keys (from_entries es))" using assms by simp
  then show ?thesis by (simp only: from_entries_map [where h = "\<lambda>k v. if k = c then p else v"] oset_def if_True)
qed

lemma uniq_append_new: "distinct xs \<Longrightarrow> uniq (xs @ [y]) = (if y \<in> set xs then xs else xs @ [y])"
  by (induction xs) (auto simp: filter_id_conv uniq_id)

lemma list_ex_not_image: "\<not> list_ex (\<lambda>g. f g = k) xs \<Longrightarrow> k \<notin> f ` set xs"
  by (auto simp: list_ex_iff)

end
