(* ===== verification/JsValue.thy ===== *)
theory JsValue
  imports JsPrelude
begin

text \<open>
  JavaScript values as the program handles them.
  \<^item> A number is the rational value of a finite double. \<open>num_str\<close> is
    \<open>Number::toString\<close> (the shortest decimal that reads back as the same double),
    \<open>parse_number\<close> is \<open>Number(text)\<close> with the non-finite results as \<^const>\<open>None\<close>.
  \<^item> \<open>jsval\<close> has the JSON values, the property lists in enumeration order, and the two
    kinds of value a property read can inherit from a prototype: built-in functions
    (\<open>JNative\<close>, with their source text) and the prototype objects themselves (\<open>JProto\<close>).
    \<open>undefined\<close> is \<^const>\<open>None\<close>.
  \<^item> \<open>js_get\<close> is the property read \<open>value[key]\<close>, prototype chain included.
\<close>

section \<open>Numbers\<close>

definition pow2 :: "int \<Rightarrow> rat" where
  "pow2 e = (if 0 \<le> e then 2 ^ nat e else 1 / 2 ^ nat (- e))"

definition pow10 :: "int \<Rightarrow> rat" where
  "pow10 e = (if 0 \<le> e then 10 ^ nat e else 1 / 10 ^ nat (- e))"

function int_len :: "int \<Rightarrow> int \<Rightarrow> nat" where
  "int_len b n = (if n \<le> 0 \<or> b \<le> 1 then 0 else Suc (int_len b (n div b)))"
  by auto
termination
  by (relation "measure (\<lambda>(b, n). nat n)") (auto simp: int_div_less_self)

declare int_len.simps [simp del]

text \<open>The integer \<open>e\<close> with \<open>b^e \<le> x < b^(e+1)\<close>, for a positive rational.\<close>

definition rat_log :: "int \<Rightarrow> (int \<Rightarrow> rat) \<Rightarrow> rat \<Rightarrow> int" where
  "rat_log b pw x =
     (let (p, q) = quotient_of x;
          e = int (int_len b p) - int (int_len b q)
      in if pw e \<le> x then e else e - 1)"

definition round_half_even :: "rat \<Rightarrow> int" where
  "round_half_even x =
     (let f = \<lfloor>x\<rfloor>; d = x - of_int f
      in if d < 1 / 2 then f else if 1 / 2 < d then f + 1 else if even f then f else f + 1)"

text \<open>Rounding to the nearest double, ties to even; \<^const>\<open>None\<close> when the result is infinite.\<close>

definition to_double :: "rat \<Rightarrow> rat option" where
  "to_double x =
     (if x = 0 then Some 0
      else let a = \<bar>x\<bar>;
               e = max (rat_log 2 pow2 a - 52) (- 1074);
               y = of_int (round_half_even (a / pow2 e)) * pow2 e
           in if y \<ge> 2 ^ 1024 then None else Some (sgn x * y))"

text \<open>The pair of the digits and the exponent \<open>n\<close> of \<open>Number::toString\<close>, for a positive double.\<close>

definition decimal_candidates :: "rat \<Rightarrow> nat \<Rightarrow> (int \<times> int) list" where
  "decimal_candidates x k =
     (let n = rat_log 10 pow10 x + 1;
          s = \<lfloor>x * pow10 (int k - n)\<rfloor>;
          fits = filter (\<lambda>(s, n). to_double (of_int s * pow10 (n - int k)) = Some x)
                   [(s, n), if s + 1 = 10 ^ k then (10 ^ (k - 1), n + 1) else (s + 1, n)]
      in js_sort (\<lambda>(s, n) (t, m). if \<bar>of_int s * pow10 (n - int k) - x\<bar> \<le> \<bar>of_int t * pow10 (m - int k) - x\<bar>
                                  then 0 else 1) fits)"

fun shortest_from :: "nat \<Rightarrow> rat \<Rightarrow> nat \<Rightarrow> int \<times> nat \<times> int" where
  "shortest_from 0 x k = (0, 1, 1)"
| "shortest_from (Suc fuel) x k =
     (case decimal_candidates x k of
        [] \<Rightarrow> shortest_from fuel x (Suc k)
      | (s, n) # _ \<Rightarrow> (s, k, n))"

definition format_decimal :: "int \<Rightarrow> nat \<Rightarrow> int \<Rightarrow> string" where
  "format_decimal s k n =
     (let ds = int_dec s; e = n - 1;
          expo = (if 0 \<le> e then ''e+'' @ nat_str (nat e) else ''e-'' @ nat_str (nat (- e)))
      in if int k \<le> n \<and> n \<le> 21 then ds @ replicate (nat (n - int k)) CHR ''0''
         else if 0 < n \<and> n \<le> 21 then take (nat n) ds @ CHR ''.'' # drop (nat n) ds
         else if - 6 < n \<and> n \<le> 0 then ''0.'' @ replicate (nat (- n)) CHR ''0'' @ ds
         else if k = 1 then ds @ expo
         else take 1 ds @ CHR ''.'' # drop 1 ds @ expo)"

definition num_str :: "rat \<Rightarrow> string" where
  "num_str x =
     (if x = 0 then ''0''
      else let (s, k, n) = shortest_from 17 \<bar>x\<bar> 1
           in (if x < 0 then CHR ''-'' # format_decimal s k n else format_decimal s k n))"

text \<open>\<open>Number(text)\<close>: a decimal literal with optional sign, fraction and exponent, a
  \<open>0x\<close>, \<open>0o\<close> or \<open>0b\<close> literal, or nothing at all, between white space.\<close>

definition parse_exponent :: "string \<Rightarrow> int option" where
  "parse_exponent s =
     (case s of
        [] \<Rightarrow> Some 0
      | c # r \<Rightarrow>
          if c \<noteq> CHR ''e'' \<and> c \<noteq> CHR ''E'' then None
          else let (neg, ds) = (case r of
                       d # r' \<Rightarrow> if d = CHR ''-'' then (True, r') else if d = CHR ''+'' then (False, r') else (False, r)
                     | [] \<Rightarrow> (False, []))
               in if ds \<noteq> [] \<and> list_all is_digit ds
                  then Some (if neg then - digits_val ds else digits_val ds) else None)"

definition parse_unsigned :: "string \<Rightarrow> rat option" where
  "parse_unsigned s =
     (let ip = takeWhile is_digit s; r = dropWhile is_digit s;
          (fp, r') = (case r of
              c # r1 \<Rightarrow> if c = CHR ''.'' then (takeWhile is_digit r1, dropWhile is_digit r1) else ([], r)
            | [] \<Rightarrow> ([], []))
      in if ip = [] \<and> fp = [] then None
         else map_option (\<lambda>e. of_int (digits_val (ip @ fp)) * pow10 (e - int (length fp))) (parse_exponent r'))"

definition hex_val :: "char \<Rightarrow> int option" where
  "hex_val c =
     (let n = int (of_char c :: nat)
      in if 48 \<le> n \<and> n \<le> 57 then Some (n - 48)
         else if 97 \<le> n \<and> n \<le> 102 then Some (n - 87)
         else if 65 \<le> n \<and> n \<le> 70 then Some (n - 55) else None)"

fun parse_radix :: "int \<Rightarrow> int \<Rightarrow> string \<Rightarrow> int option" where
  "parse_radix b acc [] = Some acc"
| "parse_radix b acc (c # cs) =
     (case hex_val c of None \<Rightarrow> None
      | Some d \<Rightarrow> if d < b then parse_radix b (b * acc + d) cs else None)"

definition radix_of :: "char \<Rightarrow> int option" where
  "radix_of c = (if c = CHR ''x'' \<or> c = CHR ''X'' then Some 16
                 else if c = CHR ''o'' \<or> c = CHR ''O'' then Some 8
                 else if c = CHR ''b'' \<or> c = CHR ''B'' then Some 2 else None)"

definition parse_number :: "string \<Rightarrow> rat option" where
  "parse_number text =
     (let s = js_trim text
      in if s = [] then Some 0
         else Option.bind
           (case s of
              c # d # r \<Rightarrow>
                if c = CHR ''0'' \<and> radix_of d \<noteq> None
                then (if r = [] then None else map_option of_int (parse_radix (the (radix_of d)) 0 r))
                else if c = CHR ''-'' then map_option uminus (parse_unsigned (d # r))
                else if c = CHR ''+'' then parse_unsigned (d # r)
                else parse_unsigned s
            | _ \<Rightarrow> parse_unsigned s)
           to_double)"

section \<open>Values and property reads\<close>

datatype jsval =
    JNull
  | JBool bool
  | JNum rat
  | JStr string
  | JArr "jsval list"
  | JObj "(string \<times> jsval) list"
  | JNative string
  | JProto string

definition native :: "string \<Rightarrow> jsval" where
  "native f = JNative (''function '' @ f @ ''() { [native code] }'')"

definition object_proto_functions :: "string list" where
  "object_proto_functions =
     [''__defineGetter__'', ''__defineSetter__'', ''hasOwnProperty'', ''__lookupGetter__'',
      ''__lookupSetter__'', ''isPrototypeOf'', ''propertyIsEnumerable'', ''toString'',
      ''valueOf'', ''toLocaleString'']"

definition array_proto_functions :: "string list" where
  "array_proto_functions =
     [''at'', ''concat'', ''copyWithin'', ''fill'', ''find'', ''findIndex'', ''findLast'',
      ''findLastIndex'', ''lastIndexOf'', ''pop'', ''push'', ''reverse'', ''shift'', ''unshift'',
      ''slice'', ''sort'', ''splice'', ''includes'', ''indexOf'', ''join'', ''keys'', ''entries'',
      ''values'', ''forEach'', ''filter'', ''flat'', ''flatMap'', ''map'', ''every'', ''some'',
      ''reduce'', ''reduceRight'', ''toReversed'', ''toSorted'', ''toSpliced'', ''with'',
      ''toString'', ''toLocaleString'']"

text \<open>Every name a plain object answers to without owning it.\<close>

definition inherited_names :: "string list" where
  "inherited_names = ''constructor'' # ''__proto__'' # object_proto_functions"

definition object_proto_get :: "string \<Rightarrow> jsval option" where
  "object_proto_get k =
     (if k = ''constructor'' then Some (native ''Object'')
      else if k \<in> set object_proto_functions then Some (native k) else None)"

definition array_proto_get :: "string \<Rightarrow> jsval option" where
  "array_proto_get k =
     (if k = ''constructor'' then Some (native ''Array'')
      else if k = ''length'' then Some (JNum 0)
      else if k \<in> set array_proto_functions then Some (native k) else object_proto_get k)"

fun js_get :: "jsval \<Rightarrow> string \<Rightarrow> jsval option" where
  "js_get (JObj o1) k =
     (case oget o1 k of
        Some v \<Rightarrow> Some v
      | None \<Rightarrow> if k = ''__proto__'' then Some (JProto ''Object'') else object_proto_get k)"
| "js_get (JArr vs) k =
     (if k = ''length'' then Some (JNum (of_nat (length vs)))
      else if k = ''__proto__'' then Some (JProto ''Array'')
      else case array_index k of
             Some i \<Rightarrow> if i < length vs then Some (vs ! i) else None
           | None \<Rightarrow> array_proto_get k)"
| "js_get (JProto p) k =
     (if p = ''Array''
      then (if k = ''__proto__'' then Some (JProto ''Object'') else array_proto_get k)
      else (if k = ''__proto__'' then Some JNull else object_proto_get k))"
| "js_get _ k = None"

text \<open>\<open>typeof v === 'object'\<close>, which JavaScript also answers for \<open>null\<close>.\<close>

fun is_object :: "jsval \<Rightarrow> bool" where
  "is_object JNull = True"
| "is_object (JArr _) = True"
| "is_object (JObj _) = True"
| "is_object (JProto _) = True"
| "is_object _ = False"

fun is_array :: "jsval \<Rightarrow> bool" where
  "is_array (JArr _) = True"
| "is_array _ = False"

text \<open>\<open>String(v)\<close>. Arrays join their elements, with \<open>null\<close> as nothing.\<close>

fun js_string :: "jsval \<Rightarrow> string" where
  "js_string JNull = ''null''"
| "js_string (JBool b) = (if b then ''true'' else ''false'')"
| "js_string (JNum n) = num_str n"
| "js_string (JStr s) = s"
| "js_string (JArr vs) = join '','' (map (\<lambda>v. if v = JNull then [] else js_string v) vs)"
| "js_string (JObj _) = ''[object Object]''"
| "js_string (JNative src) = src"
| "js_string (JProto p) = (if p = ''Array'' then [] else ''[object Object]'')"

text \<open>
  The values JSON can carry: no inherited value, and every object with distinct keys.
\<close>

fun json_value :: "jsval \<Rightarrow> bool" where
  "json_value (JArr vs) = list_all json_value vs"
| "json_value (JObj o1) = (distinct (keys o1) \<and> list_all (\<lambda>(_, v). json_value v) o1)"
| "json_value (JNative _) = False"
| "json_value (JProto _) = False"
| "json_value _ = True"

text \<open>
  A size that counts every value once, for recursions through arrays and objects.
\<close>

fun vsize :: "jsval \<Rightarrow> nat" where
  "vsize (JArr vs) = Suc (sum_list (map vsize vs))"
| "vsize (JObj o1) = Suc (sum_list (map (\<lambda>(_, v). vsize v) o1))"
| "vsize _ = 1"

lemma vsize_arr: "v \<in> set vs \<Longrightarrow> vsize v < vsize (JArr vs)"
  by (simp add: le_imp_less_Suc member_le_sum_list)

lemma vsize_obj: "(k, v) \<in> set o1 \<Longrightarrow> vsize v < vsize (JObj o1)"
proof -
  assume "(k, v) \<in> set o1"
  then have "vsize v \<in> set (map (\<lambda>(_, v). vsize v) o1)" by force
  then have "vsize v \<le> sum_list (map (\<lambda>(_, v). vsize v) o1)" using member_le_sum_list by blast
  then show ?thesis by simp
qed

lemma vsize_oget: "oget o1 k = Some v \<Longrightarrow> vsize v < vsize (JObj o1)"
  by (metis map_of_SomeD vsize_obj)

lemma json_value_oget: "json_value (JObj o1) \<Longrightarrow> oget o1 k = Some v \<Longrightarrow> json_value v"
  by (auto simp: list_all_iff dest: map_of_SomeD)

lemma inherited_object_get:
  "oget o1 k = None \<Longrightarrow> (js_get (JObj o1) k \<noteq> None) = (k \<in> set inherited_names)"
  by (auto simp: inherited_names_def object_proto_get_def)

section \<open>Values up to the order of keys\<close>

text \<open>
  \<open>canon\<close> puts the keys of every object, at every depth, in ascending order. Two JSON values
  are the same value for a reader that ignores key order when their canonical forms are equal.
\<close>

fun canon :: "jsval \<Rightarrow> jsval" where
  "canon (JArr vs) = JArr (map canon vs)"
| "canon (JObj o1) = JObj (sort_key fst (map (\<lambda>(k, v). (k, canon v)) o1))"
| "canon v = v"

lemma sort_fst_eq_iff:
  assumes "distinct (map fst xs)" "distinct (map fst ys)"
  shows "sort_key fst xs = sort_key fst ys \<longleftrightarrow> map_of xs = map_of ys"
proof
  assume "sort_key fst xs = sort_key fst ys"
  then have "set xs = set ys" by (metis set_sort)
  then show "map_of xs = map_of ys" using assms by (simp add: map_of_inject_set)
next
  assume "map_of xs = map_of ys"
  then have sets: "set xs = set ys" using assms by (simp add: map_of_inject_set)
  have "mset xs = mset ys"
    using sets assms by (simp add: set_eq_iff_mset_eq_distinct distinct_map)
  then show "sort_key fst xs = sort_key fst ys"
    by (intro sort_key_inj_key_eq) (use assms sets in \<open>auto simp: distinct_map\<close>)
qed

lemma keys_canon [simp]: "map fst (map (\<lambda>(k, v). (k, f v)) o1) = map fst o1"
  by (induction o1) auto

lemma canon_obj_eq_iff:
  assumes "distinct (keys a)" "distinct (keys b)"
  shows "canon (JObj a) = canon (JObj b) \<longleftrightarrow>
    (\<forall>k. map_option canon (oget a k) = map_option canon (oget b k))"
  using assms by (simp add: sort_fst_eq_iff map_of_map_snd fun_eq_iff del: map_map)

lemma sort_keys_eq_iff:
  fixes a b :: "'v obj"
  assumes "distinct (keys a)" "distinct (keys b)"
  shows "sort (keys a) = sort (keys b) \<longleftrightarrow> fst ` set a = fst ` set b"
proof
  assume "sort (keys a) = sort (keys b)"
  then show "fst ` set a = fst ` set b" by (metis set_map set_sort)
next
  assume "fst ` set a = fst ` set b"
  then have "set (keys a) = set (keys b)" by simp
  with assms have "mset (keys a) = mset (keys b)" by (metis set_eq_iff_mset_eq_distinct)
  then show "sort (keys a) = sort (keys b)" by (metis sorted_list_of_multiset_mset)
qed

lemma canon_eq_shape:
  "canon a = canon b \<Longrightarrow>
     (case a of
        JArr xs \<Rightarrow> \<exists>ys. b = JArr ys \<and> map canon xs = map canon ys
      | JObj xs \<Rightarrow> \<exists>ys. b = JObj ys
      | _ \<Rightarrow> b = a)"
  by (cases a; cases b) auto

end
