(* ===== verification/RuleEvaluator.thy ===== *)
theory RuleEvaluator
  imports JsValue
begin

text \<open>
  \<open>apps/api/src/materialization/pure/rule-evaluator.ts\<close> and the rule types of
  \<open>packages/contracts/src/enc.ts\<close>: which groups match a node, in merge order.
  Two parts of the JavaScript runtime are parameters: \<open>re\<close>, which compiles a pattern
  (\<^const>\<open>None\<close> when \<open>new RegExp\<close> throws) into its \<open>test\<close>, and \<open>lc\<close>, the order
  \<open>localeCompare\<close> gives two ids.
\<close>

section \<open>Data\<close>

datatype rule_operator =
  EQUALS | NOT_EQUALS | MATCHES_REGEX | NOT_MATCHES_REGEX | IN_LIST | NOT_IN_LIST
  | GREATER_THAN | LESS_THAN | EXISTS | NOT_EXISTS

datatype match_strategy = ALL_RULES | ANY_RULE | PINNED

record node_rule =
  factPath :: string
  operator :: rule_operator
  rule_value :: "jsval option"

record evaluable_group =
  eg_id :: string
  eg_name :: string
  eg_rank :: int
  eg_strategy :: match_strategy
  eg_isEnabled :: bool
  eg_rules :: "node_rule list"
  eg_pinnedCertnames :: "string list"

record evaluable_node =
  en_certname :: string
  en_facts :: "jsval obj"

record evaluated_rule =
  er_factPath :: string
  er_operator :: rule_operator
  er_expected :: "jsval option"
  er_actual :: "jsval option"
  er_factMissing :: bool
  er_matched :: bool

record group_match_explanation =
  gme_groupId :: string
  gme_strategy :: match_strategy
  gme_rules :: "evaluated_rule list"

type_synonym regexp = "string \<Rightarrow> (string \<Rightarrow> bool) option"

section \<open>Rules\<close>

fun resolve_segments :: "jsval \<Rightarrow> string list \<Rightarrow> jsval option" where
  "resolve_segments current [] = Some current"
| "resolve_segments current (segment # rest) =
     (if current = JNull \<or> \<not> is_object current then None
      else (case js_get current segment of
              None \<Rightarrow> None
            | Some v \<Rightarrow> resolve_segments v rest))"

definition resolveFactPath :: "jsval obj \<Rightarrow> string \<Rightarrow> jsval option" where
  "resolveFactPath facts path =
     (if length path = 0 then None else resolve_segments (JObj facts) (split_on CHR ''.'' path))"

definition looseScalarEquals :: "jsval option \<Rightarrow> jsval option \<Rightarrow> bool" where
  "looseScalarEquals actual expected =
     (case (actual, expected) of
        (Some a, Some e) \<Rightarrow>
          if a = JNull \<or> e = JNull then a = e
          else if is_object a \<or> is_object e then False
          else js_string a = js_string e
      | _ \<Rightarrow> False)"

definition matchesRegex :: "regexp \<Rightarrow> jsval option \<Rightarrow> jsval option \<Rightarrow> bool" where
  "matchesRegex re actual expected =
     (case actual of
        None \<Rightarrow> False
      | Some a \<Rightarrow>
          if a = JNull then False
          else (case expected of
                  Some (JStr pat) \<Rightarrow>
                    if is_object a then False
                    else (case re pat of None \<Rightarrow> False | Some test \<Rightarrow> test (js_string a))
                | _ \<Rightarrow> False))"

definition toNumber :: "jsval option \<Rightarrow> rat option" where
  "toNumber v =
     (case v of
        Some (JNum n) \<Rightarrow> Some n
      | Some (JStr s) \<Rightarrow> if js_trim s \<noteq> [] then parse_number s else None
      | _ \<Rightarrow> None)"

definition compareNumeric :: "jsval option \<Rightarrow> jsval option \<Rightarrow> (rat \<Rightarrow> rat \<Rightarrow> bool) \<Rightarrow> bool" where
  "compareNumeric actual expected compare =
     (case (toNumber actual, toNumber expected) of
        (Some a, Some b) \<Rightarrow> compare a b
      | _ \<Rightarrow> False)"

fun some_element :: "jsval option \<Rightarrow> (jsval \<Rightarrow> bool) \<Rightarrow> bool option" where
  "some_element (Some (JArr es)) p = Some (list_ex p es)"
| "some_element _ p = None"

fun applyOperator :: "regexp \<Rightarrow> rule_operator \<Rightarrow> jsval option \<Rightarrow> jsval option \<Rightarrow> bool" where
  "applyOperator re EXISTS actual expected = (actual \<noteq> None)"
| "applyOperator re NOT_EXISTS actual expected = (actual = None)"
| "applyOperator re EQUALS actual expected = looseScalarEquals actual expected"
| "applyOperator re NOT_EQUALS actual expected =
     (actual \<noteq> None \<and> \<not> looseScalarEquals actual expected)"
| "applyOperator re MATCHES_REGEX actual expected = matchesRegex re actual expected"
| "applyOperator re NOT_MATCHES_REGEX actual expected =
     (actual \<noteq> None \<and> \<not> matchesRegex re actual expected)"
| "applyOperator re IN_LIST actual expected =
     (some_element expected (\<lambda>e. looseScalarEquals actual (Some e)) = Some True)"
| "applyOperator re NOT_IN_LIST actual expected =
     (actual \<noteq> None \<and> some_element expected (\<lambda>e. looseScalarEquals actual (Some e)) = Some False)"
| "applyOperator re GREATER_THAN actual expected = compareNumeric actual expected (\<lambda>a b. a > b)"
| "applyOperator re LESS_THAN actual expected = compareNumeric actual expected (\<lambda>a b. a < b)"

definition evaluateRule :: "regexp \<Rightarrow> jsval obj \<Rightarrow> node_rule \<Rightarrow> bool" where
  "evaluateRule re facts rule =
     applyOperator re (operator rule) (resolveFactPath facts (factPath rule)) (rule_value rule)"

section \<open>Groups\<close>

definition groupMatches :: "regexp \<Rightarrow> evaluable_node \<Rightarrow> evaluable_group \<Rightarrow> bool" where
  "groupMatches re node grp =
     (if \<not> eg_isEnabled grp then False
      else (case eg_strategy grp of
              PINNED \<Rightarrow> en_certname node \<in> set (eg_pinnedCertnames grp)
            | ALL_RULES \<Rightarrow>
                length (eg_rules grp) > 0 \<and> list_all (evaluateRule re (en_facts node)) (eg_rules grp)
            | ANY_RULE \<Rightarrow>
                length (eg_rules grp) > 0 \<and> list_ex (evaluateRule re (en_facts node)) (eg_rules grp)))"

definition mergeOrder :: "(string \<Rightarrow> string \<Rightarrow> int) \<Rightarrow> evaluable_group \<Rightarrow> evaluable_group \<Rightarrow> int" where
  "mergeOrder lc a b = (if eg_rank a \<noteq> eg_rank b then eg_rank a - eg_rank b else lc (eg_id a) (eg_id b))"

definition matchGroups ::
  "regexp \<Rightarrow> (string \<Rightarrow> string \<Rightarrow> int) \<Rightarrow> evaluable_node \<Rightarrow> evaluable_group list \<Rightarrow> evaluable_group list" where
  "matchGroups re lc node groups = js_sort (mergeOrder lc) (filter (groupMatches re node) groups)"

definition explainRule :: "regexp \<Rightarrow> evaluable_node \<Rightarrow> node_rule \<Rightarrow> evaluated_rule" where
  "explainRule re node rule =
     (let actual = resolveFactPath (en_facts node) (factPath rule)
      in \<lparr> er_factPath = factPath rule,
           er_operator = operator rule,
           er_expected = rule_value rule,
           er_actual = actual,
           er_factMissing = (actual = None),
           er_matched = evaluateRule re (en_facts node) rule \<rparr>)"

definition explainMatch :: "regexp \<Rightarrow> evaluable_node \<Rightarrow> evaluable_group \<Rightarrow> group_match_explanation" where
  "explainMatch re node grp =
     (if eg_strategy grp = PINNED
      then \<lparr> gme_groupId = eg_id grp, gme_strategy = eg_strategy grp, gme_rules = [] \<rparr>
      else \<lparr> gme_groupId = eg_id grp, gme_strategy = eg_strategy grp,
             gme_rules = map (explainRule re node) (eg_rules grp) \<rparr>)"

section \<open>Lemmas\<close>

lemma comparator_mergeOrder:
  assumes "comparator lc"
  shows "comparator (mergeOrder lc)"
proof -
  have "mergeOrder lc = lex_cmp (key_cmp eg_rank cmp_int) (key_cmp eg_id lc)"
    by (auto simp: fun_eq_iff mergeOrder_def lex_cmp_def key_cmp_def cmp_int_def)
  then show ?thesis
    by (simp add: comparator_lex comparator_key cmp_int.comparator_axioms assms)
qed

interpretation merge_order: comparator "mergeOrder cmp_str"
  by (rule comparator_mergeOrder) (rule cmp_str.comparator_axioms)

lemma mergeOrder_zero:
  assumes "mergeOrder lc a b = 0"
  shows "eg_rank a = eg_rank b \<and> lc (eg_id a) (eg_id b) = 0"
  using assms by (simp add: mergeOrder_def split: if_splits)

lemma matchGroups_mset [simp]:
  "mset (matchGroups re lc node groups) = mset (filter (groupMatches re node) groups)"
  by (simp add: matchGroups_def)

lemma matchGroups_set [simp]:
  "set (matchGroups re lc node groups) = {g \<in> set groups. groupMatches re node g}"
  by (simp add: matchGroups_def)

lemma matchGroups_ids_distinct:
  "distinct (map eg_id groups) \<Longrightarrow> distinct (map eg_id (matchGroups re lc node groups))"
  by (simp add: matchGroups_def distinct_map_filter)

lemma groupMatches_disabled [simp]: "\<not> eg_isEnabled g \<Longrightarrow> \<not> groupMatches re node g"
  by (simp add: groupMatches_def)

lemma groupMatches_no_rules:
  "eg_strategy g \<noteq> PINNED \<Longrightarrow> eg_rules g = [] \<Longrightarrow> \<not> groupMatches re node g"
  by (cases "eg_strategy g") (simp_all add: groupMatches_def)

lemma some_element_NotArr:
  "\<nexists>es. expected = Some (JArr es) \<Longrightarrow> some_element expected p = None"
  by (cases "(expected, p)" rule: some_element.cases) auto

lemma er_matched_explainRule [simp]:
  "er_matched (explainRule re node r) = evaluateRule re (en_facts node) r"
  by (simp add: explainRule_def Let_def)

lemma resolve_segments_unowned:
  assumes "oget facts seg = None"
  shows "(resolve_segments (JObj facts) [seg] \<noteq> None) = (seg \<in> set inherited_names)"
  using inherited_object_get [OF assms] by (cases "js_get (JObj facts) seg") simp_all

section \<open>Properties\<close>

text \<open>
  The result of \<open>matchGroups\<close> does not depend on the order the database returned the
  groups in: any permutation of the same groups gives the same list, as soon as group ids are
  unique and \<open>localeCompare\<close> orders them without a tie.
\<close>

theorem matchGroups_order_free:
  assumes "comparator lc"
    and "distinct (map eg_id groups)"
    and "\<forall>a \<in> set groups. \<forall>b \<in> set groups. lc (eg_id a) (eg_id b) = 0 \<longrightarrow> eg_id a = eg_id b"
    and "mset groups' = mset groups"
  shows "matchGroups re lc node groups' = matchGroups re lc node groups"
  unfolding matchGroups_def
proof (rule comparator.js_sort_order_free [OF comparator_mergeOrder [OF assms(1)]])
  have sets: "set groups' = set groups" using assms(4) by (metis set_mset_mset)
  show "mset (filter (groupMatches re node) groups') = mset (filter (groupMatches re node) groups)"
    using assms(4) by simp
  show "\<forall>a \<in> set (filter (groupMatches re node) groups'). \<forall>b \<in> set (filter (groupMatches re node) groups').
      mergeOrder lc a b = 0 \<longrightarrow> a = b"
    using assms(2,3) sets by (auto dest!: mergeOrder_zero simp: distinct_map inj_on_def)
qed

definition demo_group :: "string \<Rightarrow> int \<Rightarrow> evaluable_group" where
  "demo_group i r =
     \<lparr> eg_id = i, eg_name = ''grp '' @ i, eg_rank = r, eg_strategy = ANY_RULE, eg_isEnabled = True,
       eg_rules = [\<lparr> factPath = ''os.family'', operator = EQUALS, rule_value = Some (JStr ''Debian'') \<rparr>],
       eg_pinnedCertnames = [] \<rparr>"

definition demo_node :: evaluable_node where
  "demo_node =
     \<lparr> en_certname = ''web01'', en_facts = [(''os'', JObj [(''family'', JStr ''Debian'')])] \<rparr>"

theorem matchGroups_order_free_witness:
  "matchGroups (\<lambda>_. None) cmp_str demo_node [demo_group ''b'' 2, demo_group ''a'' 2, demo_group ''c'' 1] =
   matchGroups (\<lambda>_. None) cmp_str demo_node [demo_group ''a'' 2, demo_group ''c'' 1, demo_group ''b'' 2]
   \<and> map eg_id (matchGroups (\<lambda>_. None) cmp_str demo_node
        [demo_group ''a'' 2, demo_group ''c'' 1, demo_group ''b'' 2]) = [''c'', ''a'', ''b'']"
proof
  show "matchGroups (\<lambda>_. None) cmp_str demo_node [demo_group ''b'' 2, demo_group ''a'' 2, demo_group ''c'' 1] =
   matchGroups (\<lambda>_. None) cmp_str demo_node [demo_group ''a'' 2, demo_group ''c'' 1, demo_group ''b'' 2]"
    by (rule matchGroups_order_free) (auto simp: cmp_str.comparator_axioms demo_group_def)
  show "map eg_id (matchGroups (\<lambda>_. None) cmp_str demo_node
        [demo_group ''a'' 2, demo_group ''c'' 1, demo_group ''b'' 2]) = [''c'', ''a'', ''b'']"
    by code_simp
qed

text \<open>
  What the rules say, apart from how the code decides it: the value a path leads to, property by property; two scalars that are written the same;
  a number, or a text that reads as one; and for each operator when a rule holds of a node's facts.
\<close>

inductive leads_to :: "jsval \<Rightarrow> string list \<Rightarrow> jsval \<Rightarrow> bool" where
  here: "leads_to v [] v"
| property: "v \<noteq> JNull \<Longrightarrow> is_object v \<Longrightarrow> js_get v segment = Some u \<Longrightarrow> leads_to u rest w \<Longrightarrow> leads_to v (segment # rest) w"

definition fact_at :: "jsval obj \<Rightarrow> string \<Rightarrow> jsval \<Rightarrow> bool" where
  "fact_at facts path v \<longleftrightarrow> path \<noteq> [] \<and> leads_to (JObj facts) (split_on CHR ''.'' path) v"

definition same_scalar :: "jsval \<Rightarrow> jsval \<Rightarrow> bool" where
  "same_scalar a e \<longleftrightarrow> a = JNull \<and> e = JNull \<or> \<not> is_object a \<and> \<not> is_object e \<and> js_string a = js_string e"

definition reads_as :: "jsval \<Rightarrow> rat \<Rightarrow> bool" where
  "reads_as v n \<longleftrightarrow> v = JNum n \<or> (\<exists>s. v = JStr s \<and> js_trim s \<noteq> [] \<and> parse_number s = Some n)"

definition is_matched :: "regexp \<Rightarrow> jsval \<Rightarrow> jsval option \<Rightarrow> bool" where
  "is_matched re a expected \<longleftrightarrow> \<not> is_object a \<and> (\<exists>pat test. expected = Some (JStr pat) \<and> re pat = Some test \<and> test (js_string a))"

definition rule_holds :: "regexp \<Rightarrow> jsval obj \<Rightarrow> node_rule \<Rightarrow> bool" where
  "rule_holds re facts r \<longleftrightarrow>
     (let fact = fact_at facts (factPath r); expected = rule_value r
      in case operator r of
        EXISTS \<Rightarrow> \<exists>a. fact a
      | NOT_EXISTS \<Rightarrow> \<not> (\<exists>a. fact a)
      | EQUALS \<Rightarrow> \<exists>a e. fact a \<and> expected = Some e \<and> same_scalar a e
      | NOT_EQUALS \<Rightarrow> \<exists>a. fact a \<and> \<not> (\<exists>e. expected = Some e \<and> same_scalar a e)
      | MATCHES_REGEX \<Rightarrow> \<exists>a. fact a \<and> is_matched re a expected
      | NOT_MATCHES_REGEX \<Rightarrow> \<exists>a. fact a \<and> \<not> is_matched re a expected
      | IN_LIST \<Rightarrow> \<exists>a es. fact a \<and> expected = Some (JArr es) \<and> (\<exists>e \<in> set es. same_scalar a e)
      | NOT_IN_LIST \<Rightarrow> \<exists>a es. fact a \<and> expected = Some (JArr es) \<and> \<not> (\<exists>e \<in> set es. same_scalar a e)
      | GREATER_THAN \<Rightarrow> \<exists>a e m n. fact a \<and> expected = Some e \<and> reads_as a m \<and> reads_as e n \<and> m > n
      | LESS_THAN \<Rightarrow> \<exists>a e m n. fact a \<and> expected = Some e \<and> reads_as a m \<and> reads_as e n \<and> m < n)"

definition applies_to :: "regexp \<Rightarrow> evaluable_node \<Rightarrow> evaluable_group \<Rightarrow> bool" where
  "applies_to re node g \<longleftrightarrow>
     eg_isEnabled g \<and>
     (eg_strategy g = PINNED \<and> en_certname node \<in> set (eg_pinnedCertnames g)
      \<or> eg_strategy g = ALL_RULES \<and> eg_rules g \<noteq> [] \<and> (\<forall>r \<in> set (eg_rules g). rule_holds re (en_facts node) r)
      \<or> eg_strategy g = ANY_RULE \<and> (\<exists>r \<in> set (eg_rules g). rule_holds re (en_facts node) r))"

lemma leads_to_iff: "leads_to v path w \<longleftrightarrow> resolve_segments v path = Some w"
proof
  show "leads_to v path w \<Longrightarrow> resolve_segments v path = Some w" by (induction rule: leads_to.induct) simp_all
  show "resolve_segments v path = Some w \<Longrightarrow> leads_to v path w"
    by (induction v path rule: resolve_segments.induct) (auto intro: leads_to.intros split: if_splits option.splits)
qed

lemma fact_at_iff: "fact_at facts path v \<longleftrightarrow> resolveFactPath facts path = Some v"
  by (auto simp: fact_at_def resolveFactPath_def leads_to_iff)

lemma same_scalar_iff: "looseScalarEquals (Some a) (Some e) \<longleftrightarrow> same_scalar a e"
  by (auto simp: looseScalarEquals_def same_scalar_def)

lemma loose_iff: "looseScalarEquals (Some a) expected \<longleftrightarrow> (\<exists>e. expected = Some e \<and> same_scalar a e)"
  by (cases expected) (simp_all add: same_scalar_iff looseScalarEquals_def [of _ None])

lemma loose_missing [simp]: "\<not> looseScalarEquals None e" "\<not> looseScalarEquals a None"
  by (simp_all add: looseScalarEquals_def split: option.split)

lemma reads_as_iff: "reads_as v n \<longleftrightarrow> toNumber (Some v) = Some n"
  by (cases v) (auto simp: reads_as_def toNumber_def)

lemma compareNumeric_iff:
  "compareNumeric (Some a) expected P \<longleftrightarrow> (\<exists>e m n. expected = Some e \<and> reads_as a m \<and> reads_as e n \<and> P m n)"
  by (cases expected) (auto simp: compareNumeric_def reads_as_iff toNumber_def split: option.splits)

lemma compareNumeric_missing [simp]: "\<not> compareNumeric None expected P"
  by (simp add: compareNumeric_def toNumber_def)

lemma matchesRegex_iff: "matchesRegex re (Some a) expected \<longleftrightarrow> is_matched re a expected"
  by (cases a) (auto simp: matchesRegex_def is_matched_def split: option.splits jsval.splits)

lemma some_element_iff: "some_element expected p = Some b \<longleftrightarrow> (\<exists>es. expected = Some (JArr es) \<and> b = list_ex p es)"
  by (cases "(expected, p)" rule: some_element.cases) auto

lemma evaluateRule_holds: "evaluateRule re facts r \<longleftrightarrow> rule_holds re facts r"
proof (cases "resolveFactPath facts (factPath r)")
  case None
  then show ?thesis by (cases "operator r") (simp_all add: evaluateRule_def rule_holds_def fact_at_iff matchesRegex_def some_element_iff list_ex_iff)
next
  case (Some a)
  then have fact: "fact_at facts (factPath r) v \<longleftrightarrow> v = a" for v by (auto simp: fact_at_iff)
  show ?thesis unfolding evaluateRule_def Some rule_holds_def Let_def fact
    by (cases "operator r") (auto simp: matchesRegex_iff some_element_iff list_ex_iff compareNumeric_iff loose_iff)
qed

lemma groupMatches_applies: "groupMatches re node g \<longleftrightarrow> applies_to re node g"
  by (cases "eg_strategy g") (auto simp: groupMatches_def applies_to_def evaluateRule_holds list_all_iff list_ex_iff)

text \<open>
  C16. \<open>matchGroups\<close> returns exactly the groups that apply to the node, each as often as it was
  given: the enabled ones that are pinned to it, all of whose rules (at least one) hold of its facts, or one of whose rules holds, as their strategy says.
  They come in the order of their ranks, and of their ids within one rank. That is the whole order: a group's parent
  has no say in it, unlike what ADR-0009 and the schema say of children.
\<close>

theorem matchGroups_functional:
  assumes "comparator lc"
  shows "mset (matchGroups re lc node groups) = mset (filter (applies_to re node) groups)
    \<and> sorted_wrt (\<lambda>a b. eg_rank a < eg_rank b \<or> eg_rank a = eg_rank b \<and> lc (eg_id a) (eg_id b) \<le> 0)
         (matchGroups re lc node groups)"
proof (intro conjI)
  show "mset (matchGroups re lc node groups) = mset (filter (applies_to re node) groups)"
    unfolding groupMatches_applies [abs_def, symmetric] by simp
  have "sorted_wrt (\<lambda>a b. mergeOrder lc a b \<le> 0) (matchGroups re lc node groups)"
    unfolding matchGroups_def by (rule comparator.sorted_js_sort [OF comparator_mergeOrder [OF assms]])
  then show "sorted_wrt (\<lambda>a b. eg_rank a < eg_rank b \<or> eg_rank a = eg_rank b \<and> lc (eg_id a) (eg_id b) \<le> 0)
         (matchGroups re lc node groups)"
    by (rule sorted_wrt_mono_rel [rotated]) (auto simp: mergeOrder_def split: if_splits)
qed

theorem matchGroups_functional_witness:
  "sorted_wrt (\<lambda>a b. eg_rank a < eg_rank b \<or> eg_rank a = eg_rank b \<and> cmp_str (eg_id a) (eg_id b) \<le> 0)
     (matchGroups (\<lambda>_. None) cmp_str demo_node [demo_group ''b'' 2, demo_group ''c'' 1])
   \<and> set (matchGroups (\<lambda>_. None) cmp_str demo_node [demo_group ''b'' 2, demo_group ''c'' 1]) = {demo_group ''b'' 2, demo_group ''c'' 1}"
proof -
  let ?gs = "[demo_group ''b'' 2, demo_group ''c'' 1]"
  note ok = matchGroups_functional [of cmp_str "\<lambda>_. None" demo_node ?gs, OF cmp_str.comparator_axioms]
  have "groupMatches (\<lambda>_. None) demo_node (demo_group ''b'' 2)" "groupMatches (\<lambda>_. None) demo_node (demo_group ''c'' 1)" by code_simp+
  then have "filter (applies_to (\<lambda>_. None) demo_node) ?gs = ?gs" unfolding groupMatches_applies by simp
  with ok have "mset (matchGroups (\<lambda>_. None) cmp_str demo_node ?gs) = mset ?gs" by simp
  then have "set (matchGroups (\<lambda>_. None) cmp_str demo_node ?gs) = set ?gs" by (metis set_mset_mset)
  with ok show ?thesis by simp
qed

text \<open>
  \<open>explainMatch\<close> never disagrees with the verdict: for an enabled group with rules, the
  \<open>matched\<close> flags it reports, combined by the grp's strategy, are \<open>groupMatches\<close>, every rule
  is reported in its place, and \<open>factMissing\<close> says that the rule had no fact to judge.
\<close>

theorem explainMatch_agrees:
  assumes "eg_isEnabled g" "eg_strategy g \<noteq> PINNED"
  shows "groupMatches re node g =
      (let flags = map er_matched (gme_rules (explainMatch re node g))
       in flags \<noteq> [] \<and> (if eg_strategy g = ALL_RULES then list_all id flags else list_ex id flags))
    \<and> map er_factPath (gme_rules (explainMatch re node g)) = map factPath (eg_rules g)
    \<and> (\<forall>e \<in> set (gme_rules (explainMatch re node g)).
         er_factMissing e = (resolveFactPath (en_facts node) (er_factPath e) = None)
         \<and> (er_factMissing e \<longrightarrow> er_matched e \<longrightarrow> er_operator e = NOT_EXISTS))"
proof (intro conjI)
  show "groupMatches re node g =
      (let flags = map er_matched (gme_rules (explainMatch re node g))
       in flags \<noteq> [] \<and> (if eg_strategy g = ALL_RULES then list_all id flags else list_ex id flags))"
    using assms by (cases "eg_strategy g")
      (simp_all add: groupMatches_def explainMatch_def Let_def list_all_iff list_ex_iff)
  show "map er_factPath (gme_rules (explainMatch re node g)) = map factPath (eg_rules g)"
    using assms by (simp add: explainMatch_def explainRule_def Let_def)
  have missing: "resolveFactPath (en_facts node) (factPath r) = None \<Longrightarrow> evaluateRule re (en_facts node) r \<Longrightarrow>
      operator r = NOT_EXISTS" for r
    by (cases "operator r")
      (auto simp: evaluateRule_def looseScalarEquals_def matchesRegex_def compareNumeric_def toNumber_def
        list_ex_iff elim: some_element.elims)
  show "\<forall>e \<in> set (gme_rules (explainMatch re node g)).
         er_factMissing e = (resolveFactPath (en_facts node) (er_factPath e) = None)
         \<and> (er_factMissing e \<longrightarrow> er_matched e \<longrightarrow> er_operator e = NOT_EXISTS)"
    using assms missing by (auto simp: explainMatch_def explainRule_def Let_def)
qed

theorem explainMatch_agrees_witness:
  "groupMatches (\<lambda>_. None) demo_node (demo_group ''a'' 1) =
     (let flags = map er_matched (gme_rules (explainMatch (\<lambda>_. None) demo_node (demo_group ''a'' 1)))
      in flags \<noteq> [] \<and> (if eg_strategy (demo_group ''a'' 1) = ALL_RULES then list_all id flags
                       else list_ex id flags))"
  using explainMatch_agrees [of "demo_group ''a'' 1" "\<lambda>_. None" demo_node] by (simp add: demo_group_def)

text \<open>
  The negated operators are the complements of the plain ones on the facts a node has, and
  never match a fact it does not have; \<open>IN\<close> and \<open>NOT_IN\<close> are complements only for a rule whose
  value is a list, and neither matches otherwise. \<open>EXISTS\<close> and \<open>NOT_EXISTS\<close> are complements.
\<close>

theorem evaluateRule_negations:
  shows "applyOperator re NOT_EXISTS actual expected = (\<not> applyOperator re EXISTS actual expected)
    \<and> applyOperator re NOT_EQUALS actual expected =
        (actual \<noteq> None \<and> \<not> applyOperator re EQUALS actual expected)
    \<and> applyOperator re NOT_MATCHES_REGEX actual expected =
        (actual \<noteq> None \<and> \<not> applyOperator re MATCHES_REGEX actual expected)
    \<and> (applyOperator re NOT_IN_LIST actual (Some (JArr es)) =
        (actual \<noteq> None \<and> \<not> applyOperator re IN_LIST actual (Some (JArr es))))
    \<and> \<not> (applyOperator re IN_LIST actual expected \<and> applyOperator re NOT_IN_LIST actual expected)
    \<and> \<not> (applyOperator re GREATER_THAN actual expected \<and> applyOperator re LESS_THAN actual expected)"
  by (auto simp: compareNumeric_def split: option.splits)

text \<open>
  A fact path of one segment that the node's facts do not have resolves all the same when
  the segment is a name every JavaScript object inherits, so an \<open>EXISTS\<close> rule on, say,
  \<open>constructor\<close> matches every node and \<open>NOT_EXISTS\<close> none.
\<close>

theorem exists_on_inherited_name:
  assumes "oget facts seg = None" "CHR ''.'' \<notin> set seg" "seg \<noteq> []" "operator r = EXISTS" "factPath r = seg"
  shows "evaluateRule re facts r = (seg \<in> set inherited_names)"
proof -
  have "resolveFactPath facts (factPath r) = resolve_segments (JObj facts) [seg]"
    using assms by (simp add: resolveFactPath_def split_on_single del: resolve_segments.simps)
  then show ?thesis
    using resolve_segments_unowned [OF assms(1)] assms(4)
    by (simp add: evaluateRule_def del: resolve_segments.simps)
qed

theorem exists_on_inherited_name_witness:
  "evaluateRule (\<lambda>_. None) [] \<lparr> factPath = ''constructor'', operator = EXISTS, rule_value = None \<rparr>"
  by (subst exists_on_inherited_name [of _ "''constructor''"]) (auto simp: inherited_names_def)

end
