(* ===== verification/ClassMerger.thy ===== *)
theory ClassMerger
  imports JsValue
begin

text \<open>
  \<open>apps/api/src/materialization/pure/class-merger.ts\<close> and the document and attribution types
  of \<open>packages/contracts/src/enc.ts\<close>: the reduction of the matched groups, in merge order, to
  the one document Puppet accepts.
  \<open>mergeGroups\<close> threads one state through the loops of the source; an iteration that throws is
  \<open>Inl\<close>. The provenance maps of the source are partial maps.
\<close>

section \<open>Data\<close>

record mergeable_group =
  mg_id :: string
  mg_name :: string
  mg_environment :: "string option"
  mg_classes :: "(jsval obj) obj"
  mg_parameters :: "jsval obj"

record enc_document =
  doc_classes :: "(jsval obj) obj"
  doc_parameters :: "jsval obj"
  doc_environment :: "string option"

record provenance =
  pv_groupId :: string
  pv_groupName :: string
  pv_value :: jsval

record key_attribution =
  ka_groupId :: string
  ka_overridden :: "(string \<times> jsval) list"

record merge_attribution =
  att_classes :: "(string list) obj"
  att_classParameters :: "key_attribution obj"
  att_parameters :: "key_attribution obj"
  att_environment :: "key_attribution option"

datatype conflict_kind = CLASS_PARAMETER | TOP_SCOPE_PARAMETER | ENVIRONMENT

record classification_conflict =
  cc_kind :: conflict_kind
  cc_key :: string
  winningGroupId :: string
  winningGroupName :: string
  winningValue :: jsval
  losingGroupId :: string
  losingGroupName :: string
  losingValue :: jsval

record merge_result =
  mr_document :: enc_document
  mr_conflicts :: "classification_conflict list"
  mr_appliedGroupIds :: "string list"
  mr_attribution :: merge_attribution

datatype merge_error = TypeError string

text \<open>The variables of \<open>mergeGroups\<close>.\<close>

record merge_state =
  ms_classes :: "(jsval obj) obj"
  ms_parameters :: "jsval obj"
  ms_environment :: "string option"
  ms_conflicts :: "classification_conflict list"
  ms_attribution :: merge_attribution
  ms_classParamProvenance :: "string \<Rightarrow> provenance option"
  ms_paramProvenance :: "string \<Rightarrow> provenance option"
  ms_environmentProvenance :: "provenance option"

section \<open>Structural equality\<close>

text \<open>
  \<open>a === b\<close> compares references for arrays and objects; a value shared by reference is equal
  to itself structurally as well, so the model compares structure alone.
\<close>

function valuesEqual :: "jsval \<Rightarrow> jsval \<Rightarrow> bool" where
  "valuesEqual a b =
     (case (a, b) of
        (JArr xs, JArr ys) \<Rightarrow>
          length xs = length ys \<and> list_all (\<lambda>(x, y). valuesEqual x y) (zip xs ys)
      | (JObj xs, JObj ys) \<Rightarrow>
          (let aKeys = sort (keys xs); bKeys = sort (keys ys)
           in length aKeys = length bKeys \<and> aKeys = bKeys \<and>
              list_all (\<lambda>k. case (oget xs k, oget ys k) of
                               (Some x, Some y) \<Rightarrow> valuesEqual x y
                             | (u, w) \<Rightarrow> u = w) aKeys)
      | _ \<Rightarrow> a = b)"
  by auto
termination
proof (relation "measure (\<lambda>(a, b). vsize a)", goal_cases)
  case 1
  then show ?case by simp
next
  case (2 a b p xs ys q x y)
  then show ?case by (auto dest!: set_zip_leftD intro: vsize_arr)
next
  case (3 a b p xs ys aKeys bKeys k q x y)
  then show ?case by (auto simp del: vsize.simps intro!: vsize_oget)
qed

declare valuesEqual.simps [simp del]

lemma valuesEqual_arr:
  "valuesEqual (JArr xs) (JArr ys) = list_all2 valuesEqual xs ys"
  by (auto simp: valuesEqual.simps list_all2_iff list_all_iff)

lemma valuesEqual_obj_unfold:
  "valuesEqual (JObj xs) (JObj ys) =
     (sort (keys xs) = sort (keys ys) \<and>
      (\<forall>k \<in> fst ` set xs. case (oget xs k, oget ys k) of
         (Some x, Some y) \<Rightarrow> valuesEqual x y | (u, w) \<Rightarrow> u = w))"
  by (subst valuesEqual.simps) (auto simp: Let_def list_all_iff simp del: length_sort)

lemma valuesEqual_obj:
  assumes "distinct (keys xs)" "distinct (keys ys)"
  shows "valuesEqual (JObj xs) (JObj ys) =
    (\<forall>k. case (oget xs k, oget ys k) of (Some x, Some y) \<Rightarrow> valuesEqual x y | (u, w) \<Rightarrow> u = w)"
proof
  assume l: "valuesEqual (JObj xs) (JObj ys)"
  then have "sort (keys xs) = sort (keys ys)" by (simp only: valuesEqual_obj_unfold)
  then have "fst ` set xs = fst ` set ys" by (simp only: sort_keys_eq_iff [OF assms])
  then have dom: "oget xs k = None \<longleftrightarrow> oget ys k = None" for k by (simp add: map_of_eq_None_iff)
  show "\<forall>k. case (oget xs k, oget ys k) of (Some x, Some y) \<Rightarrow> valuesEqual x y | (u, w) \<Rightarrow> u = w"
  proof
    fix k
    show "case (oget xs k, oget ys k) of (Some x, Some y) \<Rightarrow> valuesEqual x y | (u, w) \<Rightarrow> u = w"
    proof (cases "oget xs k")
      case None
      with dom [of k] show ?thesis by simp
    next
      case (Some x)
      then have "k \<in> fst ` set xs" by (force dest: map_of_SomeD)
      with l show ?thesis by (simp only: valuesEqual_obj_unfold)
    qed
  qed
next
  assume r: "\<forall>k. case (oget xs k, oget ys k) of (Some x, Some y) \<Rightarrow> valuesEqual x y | (u, w) \<Rightarrow> u = w"
  then have "oget xs k = None \<longleftrightarrow> oget ys k = None" for k by (auto split: option.splits dest!: spec [of _ k])
  then have "fst ` set xs = fst ` set ys" by (auto simp: map_of_eq_None_iff set_eq_iff)
  then have "sort (keys xs) = sort (keys ys)" by (simp only: sort_keys_eq_iff [OF assms])
  with r show "valuesEqual (JObj xs) (JObj ys)"
    unfolding valuesEqual_obj_unfold by blast
qed

text \<open>On JSON values, \<open>valuesEqual\<close> is equality up to the order of object keys.\<close>

lemma valuesEqual_canon:
  "json_value a \<Longrightarrow> json_value b \<Longrightarrow> valuesEqual a b = (canon a = canon b)"
proof (induction a arbitrary: b rule: measure_induct_rule [of vsize])
  case (less a)
  show ?case
  proof (cases a)
    case (JArr xs)
    show ?thesis
    proof (cases b)
      case (JArr ys)
      have "valuesEqual x y = (canon x = canon y)" if "x \<in> set xs" "y \<in> set ys" for x y
      proof (rule less.IH)
        show "vsize x < vsize a" using that(1) \<open>a = JArr xs\<close> vsize_arr by blast
        show "json_value x" "json_value y" using less.prems that JArr \<open>a = JArr xs\<close> by (simp_all add: list_all_iff)
      qed
      then have "list_all2 valuesEqual xs ys = list_all2 (\<lambda>x y. canon x = canon y) xs ys"
        by (intro list.rel_cong refl)
      then show ?thesis
        using JArr \<open>a = JArr xs\<close> by (auto simp: valuesEqual_arr list_all2_conv_all_nth list_eq_iff_nth_eq)
    qed (use JArr in \<open>auto simp: valuesEqual.simps\<close>)
  next
    case (JObj xs)
    show ?thesis
    proof (cases b)
      case (JObj ys)
      have dist: "distinct (keys xs)" "distinct (keys ys)"
        using less.prems JObj \<open>a = JObj xs\<close> by auto
      have "valuesEqual x y = (canon x = canon y)" if "oget xs k = Some x" "oget ys k = Some y" for k x y
        using less that JObj \<open>a = JObj xs\<close> vsize_oget json_value_oget by blast
      then have "(case (oget xs k, oget ys k) of (Some x, Some y) \<Rightarrow> valuesEqual x y | (u, w) \<Rightarrow> u = w) =
          (map_option canon (oget xs k) = map_option canon (oget ys k))" for k
        by (auto split: option.splits)
      then show ?thesis
        using JObj \<open>a = JObj xs\<close> by (simp only: valuesEqual_obj [OF dist] canon_obj_eq_iff [OF dist])
    qed (use JObj in \<open>auto simp: valuesEqual.simps\<close>)
  qed (cases b; auto simp: valuesEqual.simps)+
qed

section \<open>The merge\<close>

definition beat :: "key_attribution option \<Rightarrow> string \<Rightarrow> provenance option \<Rightarrow> key_attribution" where
  "beat existing groupId previous =
     (let overridden = (case existing of None \<Rightarrow> [] | Some e \<Rightarrow> ka_overridden e)
      in \<lparr> ka_groupId = groupId,
           ka_overridden = (case previous of
                              None \<Rightarrow> overridden
                            | Some p \<Rightarrow> overridden @ [(pv_groupId p, pv_value p)]) \<rparr>)"

definition conflict_entry ::
  "conflict_kind \<Rightarrow> string \<Rightarrow> mergeable_group \<Rightarrow> jsval \<Rightarrow> provenance \<Rightarrow> classification_conflict" where
  "conflict_entry kind key g v previous =
     \<lparr> cc_kind = kind, cc_key = key,
       winningGroupId = mg_id g, winningGroupName = mg_name g, winningValue = v,
       losingGroupId = pv_groupId previous, losingGroupName = pv_groupName previous,
       losingValue = pv_value previous \<rparr>"

text \<open>
  \<open>if (previous !== undefined && !valuesEqual(...)) conflicts.push(...)\<close>, the check the loops
  over class parameters and over parameters share.
\<close>

definition note_conflict ::
  "conflict_kind \<Rightarrow> string \<Rightarrow> mergeable_group \<Rightarrow> jsval \<Rightarrow> provenance option
   \<Rightarrow> classification_conflict list \<Rightarrow> classification_conflict list" where
  "note_conflict kind key g v previous conflicts =
     (case previous of
        None \<Rightarrow> conflicts
      | Some p \<Rightarrow> if \<not> valuesEqual (pv_value p) v then conflicts @ [conflict_entry kind key g v p]
                  else conflicts)"

definition provenance_of :: "mergeable_group \<Rightarrow> jsval \<Rightarrow> provenance" where
  "provenance_of g v = \<lparr> pv_groupId = mg_id g, pv_groupName = mg_name g, pv_value = v \<rparr>"

text \<open>
  \<open>object[key] = value\<close> on a plain object: the one name that does not become a property is
  \<open>__proto__\<close>, which replaces the prototype (or does nothing, for a primitive value).
\<close>

definition assign :: "string \<Rightarrow> 'v \<Rightarrow> 'v obj \<Rightarrow> 'v obj" where
  "assign k v o1 = (if k = ''__proto__'' then o1 else oset k v o1)"

definition merge_class_param ::
  "mergeable_group \<Rightarrow> string \<Rightarrow> merge_state \<Rightarrow> string \<times> jsval \<Rightarrow> merge_state" where
  "merge_class_param g className st = (\<lambda>(paramKey, v).
     (let provenanceKey = className @ ''.'' @ paramKey;
          previous = ms_classParamProvenance st provenanceKey;
          target = (case oget (ms_classes st) className of None \<Rightarrow> [] | Some t \<Rightarrow> t);
          att = ms_attribution st
      in st \<lparr> ms_conflicts := note_conflict CLASS_PARAMETER provenanceKey g v previous (ms_conflicts st),
              ms_classes := oset className (assign paramKey v target) (ms_classes st),
              ms_attribution := att \<lparr> att_classParameters :=
                 oset provenanceKey (beat (oget (att_classParameters att) provenanceKey) (mg_id g) previous)
                   (att_classParameters att) \<rparr>,
              ms_classParamProvenance :=
                 (ms_classParamProvenance st)(provenanceKey \<mapsto> provenance_of g v) \<rparr>))"

text \<open>
  \<open>classes[className] ??= {}\<close> and \<open>attribution.classes[className] ??= []\<close> find an inherited
  value, not \<open>undefined\<close>, for a class named like a member of \<open>Object.prototype\<close>; none of those
  values has an \<open>includes\<close> method.
\<close>

definition merge_class ::
  "mergeable_group \<Rightarrow> merge_state \<Rightarrow> string \<times> jsval obj \<Rightarrow> merge_error + merge_state" where
  "merge_class g st = (\<lambda>(className, params).
     (if className \<in> set inherited_names \<and> oget (ms_classes st) className = None
      then Inl (TypeError ''includedBy.includes is not a function'')
      else
        let classes = (case oget (ms_classes st) className of
                         None \<Rightarrow> oset className [] (ms_classes st)
                       | Some _ \<Rightarrow> ms_classes st);
            att = ms_attribution st;
            includedBy = (case oget (att_classes att) className of None \<Rightarrow> [] | Some ids \<Rightarrow> ids);
            includedBy' = (if mg_id g \<notin> set includedBy then includedBy @ [mg_id g] else includedBy)
        in Inr (foldl (merge_class_param g className)
                  (st \<lparr> ms_classes := classes,
                        ms_attribution := att \<lparr> att_classes := oset className includedBy' (att_classes att) \<rparr> \<rparr>)
                  params)))"

definition merge_param :: "mergeable_group \<Rightarrow> merge_state \<Rightarrow> string \<times> jsval \<Rightarrow> merge_state" where
  "merge_param g st = (\<lambda>(key, v).
     (let previous = ms_paramProvenance st key;
          att = ms_attribution st
      in st \<lparr> ms_conflicts := note_conflict TOP_SCOPE_PARAMETER key g v previous (ms_conflicts st),
              ms_parameters := assign key v (ms_parameters st),
              ms_attribution := att \<lparr> att_parameters :=
                 assign key (beat (oget (att_parameters att) key) (mg_id g) previous) (att_parameters att) \<rparr>,
              ms_paramProvenance := (ms_paramProvenance st)(key \<mapsto> provenance_of g v) \<rparr>))"

definition merge_environment :: "mergeable_group \<Rightarrow> merge_state \<Rightarrow> merge_state" where
  "merge_environment g st =
     (case mg_environment g of
        None \<Rightarrow> st
      | Some env \<Rightarrow>
          if env = [] then st
          else
            let previous = ms_environmentProvenance st; att = ms_attribution st
            in st \<lparr> ms_conflicts :=
                      (case previous of
                         None \<Rightarrow> ms_conflicts st
                       | Some p \<Rightarrow> if pv_value p \<noteq> JStr env
                                    then ms_conflicts st @ [conflict_entry ENVIRONMENT ''environment'' g (JStr env) p]
                                    else ms_conflicts st),
                    ms_environment := Some env,
                    ms_attribution := att \<lparr> att_environment :=
                       Some (beat (att_environment att) (mg_id g) previous) \<rparr>,
                    ms_environmentProvenance := Some (provenance_of g (JStr env)) \<rparr>)"

definition merge_group :: "merge_state \<Rightarrow> mergeable_group \<Rightarrow> merge_error + merge_state" where
  "merge_group st g =
     bind_err (fold_err (merge_class g) st (mg_classes g))
       (\<lambda>st1. Inr (merge_environment g (foldl (merge_param g) st1 (mg_parameters g))))"

definition merge_init :: merge_state where
  "merge_init =
     \<lparr> ms_classes = [], ms_parameters = [], ms_environment = None, ms_conflicts = [],
       ms_attribution = \<lparr> att_classes = [], att_classParameters = [], att_parameters = [],
                          att_environment = None \<rparr>,
       ms_classParamProvenance = (\<lambda>_. None), ms_paramProvenance = (\<lambda>_. None),
       ms_environmentProvenance = None \<rparr>"

definition mergeGroups :: "mergeable_group list \<Rightarrow> merge_error + merge_result" where
  "mergeGroups groups =
     bind_err (fold_err merge_group merge_init groups)
       (\<lambda>st. Inr \<lparr> mr_document = \<lparr> doc_classes = ms_classes st, doc_parameters = ms_parameters st,
                                  doc_environment = ms_environment st \<rparr>,
                   mr_conflicts = ms_conflicts st,
                   mr_appliedGroupIds = map mg_id groups,
                   mr_attribution = ms_attribution st \<rparr>)"

section \<open>What the groups write\<close>

text \<open>
  The abstract view of a merge: the list of the writes of all groups, each to a slot of the
  document. Every part of the result is a function of the writes to one slot.
\<close>

datatype slot = ClassParam string string | TopScope string | EnvironmentSlot

fun slot_kind :: "slot \<Rightarrow> conflict_kind" where
  "slot_kind (ClassParam c k) = CLASS_PARAMETER"
| "slot_kind (TopScope k) = TOP_SCOPE_PARAMETER"
| "slot_kind EnvironmentSlot = ENVIRONMENT"

fun slot_key :: "slot \<Rightarrow> string" where
  "slot_key (ClassParam c k) = c @ ''.'' @ k"
| "slot_key (TopScope k) = k"
| "slot_key EnvironmentSlot = ''environment''"

definition at_key :: "conflict_kind \<Rightarrow> string \<Rightarrow> slot \<Rightarrow> bool" where
  "at_key kind key s \<longleftrightarrow> slot_kind s = kind \<and> slot_key s = key"

definition class_writes :: "mergeable_group \<Rightarrow> string \<times> jsval obj \<Rightarrow> (slot \<times> provenance) list" where
  "class_writes g = (\<lambda>(c, ps). map (\<lambda>(k, v). (ClassParam c k, provenance_of g v)) ps)"

definition param_writes :: "mergeable_group \<Rightarrow> (slot \<times> provenance) list" where
  "param_writes g = map (\<lambda>(k, v). (TopScope k, provenance_of g v)) (mg_parameters g)"

definition environment_writes :: "mergeable_group \<Rightarrow> (slot \<times> provenance) list" where
  "environment_writes g =
     (case mg_environment g of
        None \<Rightarrow> []
      | Some env \<Rightarrow> if env = [] then [] else [(EnvironmentSlot, provenance_of g (JStr env))])"

definition group_writes :: "mergeable_group \<Rightarrow> (slot \<times> provenance) list" where
  "group_writes g = concat (map (class_writes g) (mg_classes g)) @ param_writes g @ environment_writes g"

definition setters :: "(slot \<Rightarrow> bool) \<Rightarrow> (slot \<times> provenance) list \<Rightarrow> provenance list" where
  "setters P ws = map snd (filter (\<lambda>w. P (fst w)) ws)"

definition last_of :: "'a list \<Rightarrow> 'a option" where
  "last_of xs = (if xs = [] then None else Some (last xs))"

fun overrides :: "provenance list \<Rightarrow> (provenance \<times> provenance) list" where
  "overrides (p # q # ps) =
     (if valuesEqual (pv_value p) (pv_value q) then overrides (q # ps) else (p, q) # overrides (q # ps))"
| "overrides _ = []"

definition attribution_of :: "provenance list \<Rightarrow> key_attribution option" where
  "attribution_of ps =
     (if ps = [] then None
      else Some \<lparr> ka_groupId = pv_groupId (last ps),
                  ka_overridden = map (\<lambda>p. (pv_groupId p, pv_value p)) (butlast ps) \<rparr>)"

definition conflict_of :: "conflict_kind \<Rightarrow> string \<Rightarrow> provenance \<times> provenance \<Rightarrow> classification_conflict" where
  "conflict_of kind key = (\<lambda>(p, q).
     \<lparr> cc_kind = kind, cc_key = key,
       winningGroupId = pv_groupId q, winningGroupName = pv_groupName q, winningValue = pv_value q,
       losingGroupId = pv_groupId p, losingGroupName = pv_groupName p, losingValue = pv_value p \<rparr>)"

definition class_get :: "(jsval obj) obj \<Rightarrow> string \<Rightarrow> string \<Rightarrow> jsval option" where
  "class_get classes c k = (case oget classes c of None \<Rightarrow> None | Some ps \<Rightarrow> oget ps k)"

lemma setters_snoc [simp]:
  "setters P (ws @ [(s, p)]) = (if P s then setters P ws @ [p] else setters P ws)"
  by (simp add: setters_def)

lemma setters_Nil [simp]: "setters P [] = []"
  by (simp add: setters_def)

lemma last_of_simps [simp]: "last_of [] = None" "last_of (xs @ [x]) = Some x"
  by (simp_all add: last_of_def)

lemma overrides_snoc:
  "overrides (ps @ [q]) =
     overrides ps @ (case last_of ps of
                       None \<Rightarrow> []
                     | Some p \<Rightarrow> if valuesEqual (pv_value p) (pv_value q) then [] else [(p, q)])"
  by (induction ps rule: overrides.induct) (auto simp: last_of_def)

lemma attribution_of_Nil [simp]: "attribution_of [] = None"
  by (simp add: attribution_of_def)

lemma attribution_of_snoc [simp]:
  "attribution_of (ps @ [p]) = Some (beat (attribution_of ps) (pv_groupId p) (last_of ps))"
  by (cases ps rule: rev_cases) (simp_all add: attribution_of_def beat_def butlast_append)

lemma valuesEqual_str [simp]: "valuesEqual (JStr a) (JStr b) = (a = b)"
  by (simp add: valuesEqual.simps)

lemma provenance_of_sel [simp]:
  "pv_value (provenance_of g v) = v" "pv_groupId (provenance_of g v) = mg_id g"
  by (simp_all add: provenance_of_def)

lemma conflict_entry_of: "conflict_entry kind key g v p = conflict_of kind key (p, provenance_of g v)"
  by (simp add: conflict_entry_def conflict_of_def provenance_of_def)

lemma conflict_of_sel [simp]: "cc_kind (conflict_of kind key pq) = kind" "cc_key (conflict_of kind key pq) = key"
  by (cases pq; simp add: conflict_of_def)+

lemma oget_assign: "oget (assign k v o1) k' = (if k' = k \<and> k \<noteq> ''__proto__'' then Some v else oget o1 k')"
  by (simp add: assign_def)

section \<open>The invariant of the loops\<close>

definition conflicts_at :: "conflict_kind \<Rightarrow> string \<Rightarrow> classification_conflict list \<Rightarrow> classification_conflict list" where
  "conflicts_at kind key cs = filter (\<lambda>c. cc_kind c = kind \<and> cc_key c = key) cs"

text \<open>The part of the invariant about provenance, conflicts and attribution.\<close>

definition history_inv :: "(slot \<times> provenance) list \<Rightarrow> merge_state \<Rightarrow> bool" where
  "history_inv ws st \<longleftrightarrow>
     (\<forall>k. ms_classParamProvenance st k = last_of (setters (at_key CLASS_PARAMETER k) ws)) \<and>
     (\<forall>k. ms_paramProvenance st k = last_of (setters (at_key TOP_SCOPE_PARAMETER k) ws)) \<and>
     ms_environmentProvenance st = last_of (setters (at_key ENVIRONMENT ''environment'') ws) \<and>
     (\<forall>p \<in> set (setters (at_key ENVIRONMENT ''environment'') ws). \<exists>e. pv_value p = JStr e) \<and>
     (\<forall>kind key. conflicts_at kind key (ms_conflicts st) =
        map (conflict_of kind key) (overrides (setters (at_key kind key) ws))) \<and>
     (\<forall>k. oget (att_classParameters (ms_attribution st)) k =
        attribution_of (setters (at_key CLASS_PARAMETER k) ws)) \<and>
     (\<forall>k. k \<noteq> ''__proto__'' \<longrightarrow> oget (att_parameters (ms_attribution st)) k =
        attribution_of (setters (at_key TOP_SCOPE_PARAMETER k) ws)) \<and>
     att_environment (ms_attribution st) = attribution_of (setters (at_key ENVIRONMENT ''environment'') ws)"

text \<open>The part about the document.\<close>

definition document_inv :: "(slot \<times> provenance) list \<Rightarrow> merge_state \<Rightarrow> bool" where
  "document_inv ws st \<longleftrightarrow>
     (\<forall>c k. k \<noteq> ''__proto__'' \<longrightarrow> class_get (ms_classes st) c k =
        map_option pv_value (last_of (setters (\<lambda>s. s = ClassParam c k) ws))) \<and>
     (\<forall>k. k \<noteq> ''__proto__'' \<longrightarrow> oget (ms_parameters st) k =
        map_option pv_value (last_of (setters (\<lambda>s. s = TopScope k) ws))) \<and>
     map_option JStr (ms_environment st) =
        map_option pv_value (last_of (setters (\<lambda>s. s = EnvironmentSlot) ws))"

lemma conflicts_at_note:
  "conflicts_at kind key (note_conflict kind' key' g v previous cs) =
     conflicts_at kind key cs @
       (if kind = kind' \<and> key = key'
        then (case previous of None \<Rightarrow> []
              | Some p \<Rightarrow> if valuesEqual (pv_value p) v then [] else [conflict_of kind key (p, provenance_of g v)])
        else [])"
  by (auto simp: conflicts_at_def note_conflict_def conflict_entry_of split: option.splits)

lemma at_key_simps [simp]:
  "at_key kind key (ClassParam c k) = (kind = CLASS_PARAMETER \<and> c @ ''.'' @ k = key)"
  "at_key kind key (TopScope k) = (kind = TOP_SCOPE_PARAMETER \<and> k = key)"
  "at_key kind key EnvironmentSlot = (kind = ENVIRONMENT \<and> key = ''environment'')"
  by (auto simp: at_key_def)

lemma history_class_param:
  assumes "history_inv ws st"
  shows "history_inv (ws @ [(ClassParam c k, provenance_of g v)]) (merge_class_param g c st (k, v))"
  using assms
  by (auto simp: history_inv_def merge_class_param_def Let_def conflicts_at_note overrides_snoc split: option.splits)

lemma history_param:
  assumes "history_inv ws st"
  shows "history_inv (ws @ [(TopScope k, provenance_of g v)]) (merge_param g st (k, v))"
  using assms
  by (auto simp: history_inv_def merge_param_def Let_def conflicts_at_note overrides_snoc oget_assign
      split: option.splits)

lemma class_get_assign:
  "class_get (oset c (assign k v (case oget classes c of None \<Rightarrow> [] | Some t \<Rightarrow> t)) classes) c' k' =
     (if c' = c \<and> k' = k \<and> k \<noteq> ''__proto__'' then Some v else class_get classes c' k')"
  by (auto simp: class_get_def oget_assign split: option.splits)

lemma document_class_param:
  assumes "document_inv ws st"
  shows "document_inv (ws @ [(ClassParam c k, provenance_of g v)]) (merge_class_param g c st (k, v))"
  using assms
  by (auto simp: document_inv_def merge_class_param_def Let_def class_get_assign)

lemma document_param:
  assumes "document_inv ws st"
  shows "document_inv (ws @ [(TopScope k, provenance_of g v)]) (merge_param g st (k, v))"
  using assms
  by (auto simp: document_inv_def merge_param_def Let_def oget_assign)


lemma note_conflict_environment:
  assumes "\<forall>p. previous = Some p \<longrightarrow> (\<exists>e. pv_value p = JStr e)"
  shows "(case previous of
            None \<Rightarrow> cs
          | Some p \<Rightarrow> if pv_value p \<noteq> JStr env then cs @ [conflict_entry kind key g (JStr env) p] else cs) =
         note_conflict kind key g (JStr env) previous cs"
  using assms by (auto simp: note_conflict_def split: option.splits)

lemma last_of_in_set: "last_of xs = Some x \<Longrightarrow> x \<in> set xs"
  by (auto simp: last_of_def split: if_splits)

lemma history_environment:
  assumes "history_inv ws st"
  shows "history_inv (ws @ environment_writes g) (merge_environment g st)"
proof -
  have str: "\<forall>p. ms_environmentProvenance st = Some p \<longrightarrow> (\<exists>e. pv_value p = JStr e)"
    using assms by (auto simp: history_inv_def dest: last_of_in_set)
  show ?thesis
  proof (cases "\<exists>env. mg_environment g = Some env \<and> env \<noteq> []")
    case True
    then obtain env where env: "mg_environment g = Some env" "env \<noteq> []" by auto
    have "merge_environment g st =
       st \<lparr> ms_conflicts := note_conflict ENVIRONMENT ''environment'' g (JStr env)
              (ms_environmentProvenance st) (ms_conflicts st),
            ms_environment := Some env,
            ms_attribution := (ms_attribution st) \<lparr> att_environment :=
               Some (beat (att_environment (ms_attribution st)) (mg_id g) (ms_environmentProvenance st)) \<rparr>,
            ms_environmentProvenance := Some (provenance_of g (JStr env)) \<rparr>"
      using env by (simp add: merge_environment_def Let_def note_conflict_environment [OF str])
    with assms env show ?thesis
      by (auto simp: history_inv_def environment_writes_def conflicts_at_note overrides_snoc split: option.splits)
  next
    case False
    with assms show ?thesis
      by (auto simp: merge_environment_def environment_writes_def split: option.splits)
  qed
qed

lemma document_environment:
  assumes "document_inv ws st"
  shows "document_inv (ws @ environment_writes g) (merge_environment g st)"
  using assms
  by (auto simp: document_inv_def merge_environment_def environment_writes_def Let_def split: option.splits)

lemma fold_params_inv:
  assumes "history_inv ws st" "document_inv ws st"
  shows "history_inv (ws @ map (\<lambda>(k, v). (TopScope k, provenance_of g v)) ps) (foldl (merge_param g) st ps)
    \<and> document_inv (ws @ map (\<lambda>(k, v). (TopScope k, provenance_of g v)) ps) (foldl (merge_param g) st ps)"
  using assms
proof (induction ps arbitrary: ws st)
  case Nil
  then show ?case by simp
next
  case (Cons e ps)
  obtain k v where e: "e = (k, v)" by (cases e)
  from Cons.IH [OF history_param [OF Cons.prems(1)] document_param [OF Cons.prems(2)], of k g v]
  show ?case by (simp add: e)
qed

lemma fold_class_params_inv:
  assumes "history_inv ws st" "document_inv ws st"
  shows "history_inv (ws @ class_writes g (c, ps)) (foldl (merge_class_param g c) st ps)
    \<and> document_inv (ws @ class_writes g (c, ps)) (foldl (merge_class_param g c) st ps)"
  using assms
proof (induction ps arbitrary: ws st)
  case Nil
  then show ?case by (simp add: class_writes_def)
next
  case (Cons e ps)
  obtain k v where e: "e = (k, v)" by (cases e)
  from Cons.IH [OF history_class_param [OF Cons.prems(1)] document_class_param [OF Cons.prems(2)], of c k g v]
  show ?case by (simp add: e class_writes_def)
qed

text \<open>Which classes the document has, and which groups each one is attributed to.\<close>

definition inclusion_inv :: "(string \<times> string) list \<Rightarrow> merge_state \<Rightarrow> bool" where
  "inclusion_inv incl st \<longleftrightarrow>
     fst ` set (ms_classes st) = fst ` set incl \<and>
     (\<forall>c. oget (att_classes (ms_attribution st)) c =
        (let ids = uniq (map snd (filter (\<lambda>(c', _). c' = c) incl)) in if ids = [] then None else Some ids)) \<and>
     fst ` set incl \<inter> set inherited_names = {}"

lemma uniq_snoc: "uniq (xs @ [x]) = (if x \<in> set xs then uniq xs else uniq xs @ [x])"
  by (induction xs) auto

lemma inclusion_class_params:
  assumes "inclusion_inv incl st" "c \<in> fst ` set incl"
  shows "inclusion_inv incl (foldl (merge_class_param g c) st ps)"
  using assms
proof (induction ps arbitrary: st)
  case Nil
  then show ?case by simp
next
  case (Cons e ps)
  obtain k v where e: "e = (k, v)" by (cases e)
  have "inclusion_inv incl (merge_class_param g c st (k, v))"
    using Cons.prems by (auto simp: inclusion_inv_def merge_class_param_def Let_def)
  with Cons show ?case by (simp add: e)
qed

lemma inclusion_param: "inclusion_inv incl st \<Longrightarrow> inclusion_inv incl (merge_param g st e)"
  by (cases e) (simp add: inclusion_inv_def merge_param_def Let_def)

lemma inclusion_params: "inclusion_inv incl st \<Longrightarrow> inclusion_inv incl (foldl (merge_param g) st ps)"
  by (induction ps arbitrary: st) (simp_all add: inclusion_param)

lemma inclusion_environment: "inclusion_inv incl st \<Longrightarrow> inclusion_inv incl (merge_environment g st)"
  by (auto simp: inclusion_inv_def merge_environment_def Let_def split: option.splits)


lemma merge_class_Inr:
  assumes "merge_class g st (c, ps) = Inr st'"
  shows "c \<notin> set inherited_names \<or> oget (ms_classes st) c \<noteq> None"
  using assms by (auto simp: merge_class_def split: if_splits)

lemma merge_class_inv:
  assumes step: "merge_class g st (c, ps) = Inr st'"
    and inv: "history_inv ws st" "document_inv ws st" "inclusion_inv incl st"
  shows "history_inv (ws @ class_writes g (c, ps)) st' \<and> document_inv (ws @ class_writes g (c, ps)) st'
    \<and> inclusion_inv (incl @ [(c, mg_id g)]) st'"
proof -
  have fresh: "c \<notin> set inherited_names"
  proof
    assume c: "c \<in> set inherited_names"
    with merge_class_Inr [OF step] have "c \<in> fst ` set (ms_classes st)"
      by (simp add: map_of_eq_None_iff)
    with c inv(3) show False by (auto simp: inclusion_inv_def)
  qed
  define classes where "classes = (case oget (ms_classes st) c of None \<Rightarrow> oset c [] (ms_classes st)
                                   | Some _ \<Rightarrow> ms_classes st)"
  define ids where "ids = (case oget (att_classes (ms_attribution st)) c of None \<Rightarrow> [] | Some ids \<Rightarrow> ids)"
  define att where "att = (ms_attribution st) \<lparr> att_classes :=
     oset c (if mg_id g \<notin> set ids then ids @ [mg_id g] else ids) (att_classes (ms_attribution st)) \<rparr>"
  define st1 where "st1 = st \<lparr> ms_classes := classes, ms_attribution := att \<rparr>"
  have st': "st' = foldl (merge_class_param g c) st1 ps"
    using step fresh unfolding merge_class_def Let_def st1_def att_def classes_def ids_def
    by (simp only: case_prod_conv simp_thms if_False sum.inject)
  have "history_inv ws st1" using inv(1) by (simp add: history_inv_def st1_def att_def)
  moreover have "class_get classes c' k = class_get (ms_classes st) c' k" for c' k
    by (auto simp: classes_def class_get_def split: option.splits)
  then have "document_inv ws st1" using inv(2) by (simp add: document_inv_def st1_def)
  moreover have "inclusion_inv (incl @ [(c, mg_id g)]) st1"
  proof -
    have "fst ` set classes = insert c (fst ` set (ms_classes st))"
    proof (cases "oget (ms_classes st) c")
      case None
      then show ?thesis by (simp add: classes_def)
    next
      case (Some t)
      then have "c \<in> fst ` set (ms_classes st)" by (metis map_of_eq_None_iff option.distinct(1))
      with Some show ?thesis by (simp add: classes_def insert_absorb)
    qed
    moreover have "ids = uniq (map snd (filter (\<lambda>(c', _). c' = c) incl))"
      using inv(3) by (auto simp: inclusion_inv_def ids_def Let_def)
    ultimately show ?thesis
      using inv(3) fresh by (simp add: inclusion_inv_def st1_def att_def Let_def uniq_snoc)
  qed
  moreover have "c \<in> fst ` set (incl @ [(c, mg_id g)])" by simp
  ultimately show ?thesis
    using fold_class_params_inv [of ws st1 g c ps] inclusion_class_params [of "incl @ [(c, mg_id g)]" st1 c g ps]
    by (simp add: st')
qed

definition group_inclusions :: "mergeable_group \<Rightarrow> (string \<times> string) list" where
  "group_inclusions g = map (\<lambda>(c, _). (c, mg_id g)) (mg_classes g)"

lemma merge_group_inv:
  assumes step: "merge_group st g = Inr st'"
    and inv: "history_inv ws st" "document_inv ws st" "inclusion_inv incl st"
  shows "history_inv (ws @ group_writes g) st' \<and> document_inv (ws @ group_writes g) st'
    \<and> inclusion_inv (incl @ group_inclusions g) st'"
proof -
  from step obtain st1 where st1: "fold_err (merge_class g) st (mg_classes g) = Inr st1"
    and st': "st' = merge_environment g (foldl (merge_param g) st1 (mg_parameters g))"
    by (auto simp: merge_group_def bind_err_Inr)
  have inv1: "history_inv (ws @ concat (map (class_writes g) (mg_classes g))) st1
      \<and> document_inv (ws @ concat (map (class_writes g) (mg_classes g))) st1
      \<and> inclusion_inv (incl @ group_inclusions g) st1"
    unfolding group_inclusions_def
  proof (rule fold_err_invariant [OF st1, where I = "\<lambda>st es. history_inv (ws @ concat (map (class_writes g) es)) st
      \<and> document_inv (ws @ concat (map (class_writes g) es)) st
      \<and> inclusion_inv (incl @ map (\<lambda>(c, _). (c, mg_id g)) es) st"], goal_cases)
    case 1
    with inv show ?case by simp
  next
    case (2 t t' seen x)
    obtain c ps where x: "x = (c, ps)" by (cases x)
    from 2 have step: "merge_class g t (c, ps) = Inr t'" by (simp add: x)
    from 2 merge_class_inv [OF step, of "ws @ concat (map (class_writes g) seen)" "incl @ map (\<lambda>(c, _). (c, mg_id g)) seen"]
    show ?case by (simp add: x)
  qed
  then show ?thesis
    using fold_params_inv [of _ st1 g "mg_parameters g"]
    by (simp add: st' group_writes_def param_writes_def history_environment document_environment
        inclusion_environment inclusion_params del: append_assoc add: append_assoc [symmetric])
qed

definition all_writes :: "mergeable_group list \<Rightarrow> (slot \<times> provenance) list" where
  "all_writes groups = concat (map group_writes groups)"

definition all_inclusions :: "mergeable_group list \<Rightarrow> (string \<times> string) list" where
  "all_inclusions groups = concat (map group_inclusions groups)"

lemma merge_fold_inv:
  assumes "fold_err merge_group merge_init groups = Inr st"
  shows "history_inv (all_writes groups) st \<and> document_inv (all_writes groups) st
    \<and> inclusion_inv (all_inclusions groups) st"
proof (rule fold_err_invariant [OF assms, where I = "\<lambda>st gs. history_inv (all_writes gs) st
    \<and> document_inv (all_writes gs) st \<and> inclusion_inv (all_inclusions gs) st"], goal_cases)
  case 1
  show ?case
    by (simp add: history_inv_def document_inv_def inclusion_inv_def merge_init_def all_writes_def
        all_inclusions_def conflicts_at_def class_get_def)
next
  case (2 t t' seen g)
  from 2 merge_group_inv [OF 2(3), of "all_writes seen" "all_inclusions seen"]
  show ?case by (simp add: all_writes_def all_inclusions_def)
qed

lemma mergeGroups_Inr:
  assumes "mergeGroups groups = Inr r"
  obtains st where "fold_err merge_group merge_init groups = Inr st"
    and "r = \<lparr> mr_document = \<lparr> doc_classes = ms_classes st, doc_parameters = ms_parameters st,
                                  doc_environment = ms_environment st \<rparr>,
                   mr_conflicts = ms_conflicts st,
                   mr_appliedGroupIds = map mg_id groups,
                   mr_attribution = ms_attribution st \<rparr>"
  using assms by (auto simp: mergeGroups_def bind_err_Inr)

lemma all_inclusions_classes:
  "fst ` set (all_inclusions groups) = (\<Union>g \<in> set groups. fst ` set (mg_classes g))"
  by (force simp: all_inclusions_def group_inclusions_def)

lemma merge_class_total:
  "c \<notin> set inherited_names \<Longrightarrow> \<exists>st'. merge_class g st (c, ps) = Inr st'"
  by (simp add: merge_class_def Let_def)

lemma mergeGroups_total:
  assumes "\<forall>g \<in> set groups. fst ` set (mg_classes g) \<inter> set inherited_names = {}"
  shows "\<exists>r. mergeGroups groups = Inr r"
proof -
  have "\<exists>st'. merge_group st g = Inr st'" if "g \<in> set groups" for st g
  proof -
    have "\<exists>st'. fold_err (merge_class g) st (mg_classes g) = Inr st'"
    proof (rule fold_err_total)
      fix t e
      assume "e \<in> set (mg_classes g)"
      then have "fst e \<notin> set inherited_names" using assms that by auto
      then show "\<exists>t'. merge_class g t e = Inr t'"
        using merge_class_total [of "fst e" g t "snd e"] by simp
    qed
    then show ?thesis by (auto simp: merge_group_def)
  qed
  then have "\<exists>st. fold_err merge_group merge_init groups = Inr st" by (rule fold_err_total)
  then show ?thesis by (auto simp: mergeGroups_def)
qed

lemmas merge_result_selectors = merge_result.simps enc_document.simps

section \<open>Properties\<close>

text \<open>
  C15. The merged document, in full: every class any group names is included; a class parameter,
  a top-scope parameter and the environment have the value of the last group that sets them, and
  no group that leaves the environment empty clears it; nothing else is in the document. (The
  name \<open>__proto__\<close> cannot be set by assignment.)
\<close>

theorem mergeGroups_document:
  assumes "mergeGroups groups = Inr r"
  shows "fst ` set (doc_classes (mr_document r)) = (\<Union>g \<in> set groups. fst ` set (mg_classes g))
    \<and> (\<forall>c k. k \<noteq> ''__proto__'' \<longrightarrow> class_get (doc_classes (mr_document r)) c k =
         map_option pv_value (last_of (setters (\<lambda>s. s = ClassParam c k) (all_writes groups))))
    \<and> (\<forall>k. k \<noteq> ''__proto__'' \<longrightarrow> oget (doc_parameters (mr_document r)) k =
         map_option pv_value (last_of (setters (\<lambda>s. s = TopScope k) (all_writes groups))))
    \<and> map_option JStr (doc_environment (mr_document r)) =
         map_option pv_value (last_of (setters (\<lambda>s. s = EnvironmentSlot) (all_writes groups)))
    \<and> mr_appliedGroupIds r = map mg_id groups"
proof -
  from assms obtain st where st: "fold_err merge_group merge_init groups = Inr st"
    and r: "r = \<lparr> mr_document = \<lparr> doc_classes = ms_classes st, doc_parameters = ms_parameters st,
                                  doc_environment = ms_environment st \<rparr>,
                   mr_conflicts = ms_conflicts st, mr_appliedGroupIds = map mg_id groups,
                   mr_attribution = ms_attribution st \<rparr>"
    by (rule mergeGroups_Inr)
  from merge_fold_inv [OF st] show ?thesis
    by (simp add: r document_inv_def inclusion_inv_def all_inclusions_classes)
qed

definition demo_mergeable :: "string \<Rightarrow> string option \<Rightarrow> int \<Rightarrow> mergeable_group" where
  "demo_mergeable i env port =
     \<lparr> mg_id = i, mg_name = ''group '' @ i, mg_environment = env,
       mg_classes = [(''profile::web'', [(''port'', JNum (of_int port))])],
       mg_parameters = [(''role'', JStr ''web'')] \<rparr>"

theorem mergeGroups_document_witness:
  "\<exists>r. mergeGroups [demo_mergeable ''a'' (Some ''production'') 80, demo_mergeable ''b'' None 8080] = Inr r
     \<and> class_get (doc_classes (mr_document r)) ''profile::web'' ''port'' = Some (JNum 8080)
     \<and> doc_environment (mr_document r) = Some ''production''"
proof -
  let ?gs = "[demo_mergeable ''a'' (Some ''production'') 80, demo_mergeable ''b'' None 8080]"
  obtain r where r: "mergeGroups ?gs = Inr r"
    using mergeGroups_total [of ?gs] by (auto simp: demo_mergeable_def inherited_names_def object_proto_functions_def)
  from mergeGroups_document [OF r]
  have "class_get (doc_classes (mr_document r)) ''profile::web'' ''port'' = Some (JNum 8080)"
    "map_option JStr (doc_environment (mr_document r)) = Some (JStr ''production'')"
    by (simp_all add: all_writes_def group_writes_def class_writes_def param_writes_def environment_writes_def
        demo_mergeable_def setters_def last_of_def)
  with r show ?thesis by auto
qed

text \<open>
  C33. The conflicts and the attribution name the right groups. For every key, the conflicts
  reported are exactly the consecutive writes to it whose values differ, with the later group
  winning; the attribution names the group that wrote the key last and lists every group it
  overrode, in merge order, equal values included; a class is attributed to the groups that name
  it, each once, in merge order.
\<close>

theorem mergeGroups_attribution:
  assumes "mergeGroups groups = Inr r"
  shows "conflicts_at kind key (mr_conflicts r) =
           map (conflict_of kind key) (overrides (setters (at_key kind key) (all_writes groups)))
    \<and> oget (att_classParameters (mr_attribution r)) key =
        attribution_of (setters (at_key CLASS_PARAMETER key) (all_writes groups))
    \<and> (key \<noteq> ''__proto__'' \<longrightarrow> oget (att_parameters (mr_attribution r)) key =
        attribution_of (setters (at_key TOP_SCOPE_PARAMETER key) (all_writes groups)))
    \<and> att_environment (mr_attribution r) =
        attribution_of (setters (at_key ENVIRONMENT ''environment'') (all_writes groups))
    \<and> oget (att_classes (mr_attribution r)) key =
        (let ids = uniq [mg_id g. g \<leftarrow> groups, (c, _) \<leftarrow> mg_classes g, c = key]
         in if ids = [] then None else Some ids)"
proof -
  from assms obtain st where st: "fold_err merge_group merge_init groups = Inr st"
    and r: "r = \<lparr> mr_document = \<lparr> doc_classes = ms_classes st, doc_parameters = ms_parameters st,
                                  doc_environment = ms_environment st \<rparr>,
                   mr_conflicts = ms_conflicts st, mr_appliedGroupIds = map mg_id groups,
                   mr_attribution = ms_attribution st \<rparr>"
    by (rule mergeGroups_Inr)
  have per_group: "map snd (filter (\<lambda>(c', _). c' = key) (map (\<lambda>(c, _). (c, i)) es)) =
      concat (map (\<lambda>(c, _). if c = key then [i] else []) es)" for i :: string and es :: "(string \<times> jsval obj) list"
    by (induction es) auto
  have incl: "map snd (filter (\<lambda>(c', _). c' = key) (all_inclusions groups)) =
      [mg_id g. g \<leftarrow> groups, (c, _) \<leftarrow> mg_classes g, c = key]"
    by (induction groups) (simp_all add: all_inclusions_def group_inclusions_def per_group)
  from merge_fold_inv [OF st] show ?thesis
    by (simp add: r history_inv_def inclusion_inv_def incl [symmetric])
qed

theorem mergeGroups_attribution_witness:
  "\<exists>r. mergeGroups [demo_mergeable ''a'' None 80, demo_mergeable ''b'' None 8080] = Inr r
     \<and> map (\<lambda>c. (losingGroupId c, winningGroupId c))
         (conflicts_at CLASS_PARAMETER ''profile::web.port'' (mr_conflicts r)) = [(''a'', ''b'')]
     \<and> oget (att_classes (mr_attribution r)) ''profile::web'' = Some [''a'', ''b'']"
proof -
  let ?gs = "[demo_mergeable ''a'' None 80, demo_mergeable ''b'' None 8080]"
  obtain r where r: "mergeGroups ?gs = Inr r"
    using mergeGroups_total [of ?gs] by (auto simp: demo_mergeable_def inherited_names_def object_proto_functions_def)
  from mergeGroups_attribution [OF r, of CLASS_PARAMETER "''profile::web.port''"]
    mergeGroups_attribution [OF r, of CLASS_PARAMETER "''profile::web''"]
  show ?thesis using r
    by (simp add: all_writes_def group_writes_def class_writes_def param_writes_def environment_writes_def
        demo_mergeable_def setters_def conflict_of_def provenance_of_def valuesEqual.simps)
qed

text \<open>
  \<open>mergeGroups\<close> fails exactly when some group names a class that every JavaScript object
  inherits a property for, and then with a \<open>TypeError\<close>. Of those names only \<open>constructor\<close> is a
  valid Puppet class name.
\<close>

lemma mergeGroups_throws_iff:
  "(\<exists>e. mergeGroups groups = Inl e) \<longleftrightarrow>
     (\<exists>g \<in> set groups. \<exists>c \<in> fst ` set (mg_classes g). c \<in> set inherited_names)"
proof
  assume "\<exists>e. mergeGroups groups = Inl e"
  then have "\<not> (\<exists>r. mergeGroups groups = Inr r)" by auto
  with mergeGroups_total [of groups]
  show "\<exists>g \<in> set groups. \<exists>c \<in> fst ` set (mg_classes g). c \<in> set inherited_names" by blast
next
  assume bad: "\<exists>g \<in> set groups. \<exists>c \<in> fst ` set (mg_classes g). c \<in> set inherited_names"
  show "\<exists>e. mergeGroups groups = Inl e"
  proof (cases "mergeGroups groups")
    case (Inl e)
    then show ?thesis by simp
  next
    case (Inr r)
    from mergeGroups_Inr [OF Inr] obtain st where "fold_err merge_group merge_init groups = Inr st" by blast
    from merge_fold_inv [OF this]
    have "(\<Union>g \<in> set groups. fst ` set (mg_classes g)) \<inter> set inherited_names = {}"
      by (simp add: inclusion_inv_def all_inclusions_classes)
    with bad show ?thesis by blast
  qed
qed

end
