(* ===== verification/EncRenderer.thy ===== *)
theory EncRenderer
  imports ClassMerger
begin

text \<open>
  \<open>apps/api/src/materialization/pure/enc-yaml-renderer.ts\<close>: the document as YAML text with its
  hash, or an \<open>InvalidEncDocumentError\<close>. The \<open>yaml\<close> package and SHA-256 are parameters:
  \<open>stringify\<close> (with the options of \<open>YAML_OPTIONS\<close>), \<open>parse\<close> (\<open>Inl\<close> when it throws, with the
  message) and \<open>sha256\<close> (the hexadecimal digest).
\<close>

section \<open>Class names\<close>

text \<open>\<open>PUPPET_CLASS_NAME\<close>: \<open>/^[a-z][a-z0-9_]*(::[a-z][a-z0-9_]*)*$/\<close>.\<close>

definition is_lower :: "char \<Rightarrow> bool" where
  "is_lower c \<longleftrightarrow> 97 \<le> (of_char c :: nat) \<and> (of_char c :: nat) \<le> 122"

fun puppet_name_start :: "string \<Rightarrow> bool" and puppet_name_rest :: "string \<Rightarrow> bool" where
  "puppet_name_start [] = False"
| "puppet_name_start (c # cs) = (is_lower c \<and> puppet_name_rest cs)"
| "puppet_name_rest [] = True"
| "puppet_name_rest (c # cs) =
     (if c = CHR '':'' then (case cs of [] \<Rightarrow> False | d # ds \<Rightarrow> d = CHR '':'' \<and> puppet_name_start ds)
      else (is_lower c \<or> is_digit c \<or> c = CHR ''_'') \<and> puppet_name_rest cs)"

definition PUPPET_CLASS_NAME :: "string \<Rightarrow> bool" where
  "PUPPET_CLASS_NAME s = puppet_name_start s"

section \<open>Rendering\<close>

datatype invalid_enc_document =
    InvalidClassName string
  | ParseBackFailed string
  | RoundTripFailed

record rendered_enc =
  re_yaml :: string
  re_contentHash :: string

text \<open>
  \<open>sortRecord\<close>, and what its loop does with each value. The loop over the sorted keys writes
  into a fresh object; values inside arrays are left as they are.
\<close>

function sort_value :: "jsval \<Rightarrow> jsval" where
  "sort_value v =
     (case v of
        JObj o1 \<Rightarrow>
          JObj (foldl (\<lambda>out k. case oget o1 k of
                                 None \<Rightarrow> out
                               | Some w \<Rightarrow> assign k (sort_value w) out)
                  [] (sort (keys o1)))
      | _ \<Rightarrow> v)"
  by auto
termination
proof (relation "measure vsize", goal_cases)
  case 1
  then show ?case by simp
next
  case (2 v o1 k out w)
  then show ?case by (auto simp del: vsize.simps intro!: vsize_oget)
qed

declare sort_value.simps [simp del]

definition sortRecord :: "jsval obj \<Rightarrow> jsval obj" where
  "sortRecord input =
     foldl (\<lambda>out k. case oget input k of
                      None \<Rightarrow> out
                    | Some v \<Rightarrow> assign k (sort_value v) out)
       [] (sort (keys input))"

function deepEquals :: "jsval \<Rightarrow> jsval \<Rightarrow> bool" where
  "deepEquals a b =
     (case (a, b) of
        (JArr xs, JArr ys) \<Rightarrow>
          length xs = length ys \<and> list_all (\<lambda>(x, y). deepEquals x y) (zip xs ys)
      | (JObj xs, JObj ys) \<Rightarrow>
          (let aKeys = sort (keys xs); bKeys = sort (keys ys)
           in length aKeys = length bKeys \<and> aKeys = bKeys \<and>
              list_all (\<lambda>k. case (oget xs k, oget ys k) of
                               (Some x, Some y) \<Rightarrow> deepEquals x y
                             | (u, w) \<Rightarrow> u = w) aKeys)
      | _ \<Rightarrow> a = b)"
  by auto
termination
proof (relation "measure (\<lambda>(a, b). vsize a)", goal_cases)
  case 1
  then show ?case by simp
next
  case (2 a b p xs ys q x y)
  then show ?case by (auto dest!: set_zip_leftD intro: vsize_arr)
next
  case (3 a b p xs ys aKeys bKeys k q x y)
  then show ?case by (auto simp del: vsize.simps intro!: vsize_oget)
qed

declare deepEquals.simps [simp del]

definition find_invalid_class :: "string list \<Rightarrow> string option" where
  "find_invalid_class names = List.find (\<lambda>c. \<not> PUPPET_CLASS_NAME c) names"

definition assertValidClassNames :: "enc_document \<Rightarrow> invalid_enc_document + unit" where
  "assertValidClassNames document =
     (case find_invalid_class (keys (doc_classes document)) of
        None \<Rightarrow> Inr ()
      | Some className \<Rightarrow> Inl (InvalidClassName className))"

definition assertRoundTrips ::
  "(string \<Rightarrow> string + jsval) \<Rightarrow> string \<Rightarrow> jsval \<Rightarrow> invalid_enc_document + unit" where
  "assertRoundTrips parse yaml expected =
     (case parse yaml of
        Inl message \<Rightarrow> Inl (ParseBackFailed message)
      | Inr reparsed \<Rightarrow> if \<not> deepEquals reparsed expected then Inl RoundTripFailed else Inr ())"

definition enc_payload :: "enc_document \<Rightarrow> jsval" where
  "enc_payload document =
     JObj ([(''classes'', JObj (sortRecord (map (\<lambda>(c, ps). (c, JObj ps)) (doc_classes document)))),
            (''parameters'', JObj (sortRecord (doc_parameters document)))]
           @ (case doc_environment document of None \<Rightarrow> [] | Some e \<Rightarrow> [(''environment'', JStr e)]))"

definition newline :: string where
  "newline = [char_of (10 :: nat)]"

definition enc_header :: string where
  "enc_header = ''---'' @ newline
     @ ''# Managed by NexusPuppet. Do not edit by hand; changes are overwritten.'' @ newline"

definition renderEncDocument ::
  "(jsval \<Rightarrow> string) \<Rightarrow> (string \<Rightarrow> string + jsval) \<Rightarrow> (string \<Rightarrow> string) \<Rightarrow> enc_document
   \<Rightarrow> invalid_enc_document + rendered_enc" where
  "renderEncDocument stringify parse sha256 document =
     bind_err (assertValidClassNames document) (\<lambda>_.
       let payload = enc_payload document;
           body = stringify payload;
           yaml = enc_header @ body
       in bind_err (assertRoundTrips parse yaml payload)
            (\<lambda>_. Inr \<lparr> re_yaml = yaml, re_contentHash = sha256 yaml \<rparr>))"

definition renderDefaultDocument ::
  "(jsval \<Rightarrow> string) \<Rightarrow> (string \<Rightarrow> string + jsval) \<Rightarrow> (string \<Rightarrow> string) \<Rightarrow> string option
   \<Rightarrow> invalid_enc_document + rendered_enc" where
  "renderDefaultDocument stringify parse sha256 environment =
     renderEncDocument stringify parse sha256
       \<lparr> doc_classes = [], doc_parameters = [], doc_environment = environment \<rparr>"

section \<open>Lemmas\<close>

lemma deepEquals_obj_unfold:
  "deepEquals (JObj xs) (JObj ys) =
     (sort (keys xs) = sort (keys ys) \<and>
      (\<forall>k \<in> fst ` set xs. case (oget xs k, oget ys k) of
         (Some x, Some y) \<Rightarrow> deepEquals x y | (u, w) \<Rightarrow> u = w))"
  by (subst deepEquals.simps) (auto simp: Let_def list_all_iff simp del: length_sort)

lemma deepEquals_arr:
  "deepEquals (JArr xs) (JArr ys) = list_all2 deepEquals xs ys"
  by (subst deepEquals.simps) (auto simp: list_all2_iff list_all_iff)

lemma deepEquals_valuesEqual: "deepEquals a b = valuesEqual a b"
proof (induction a arbitrary: b rule: measure_induct_rule [of vsize])
  case (less a)
  consider (arr) xs ys where "a = JArr xs" "b = JArr ys" | (obj) xs ys where "a = JObj xs" "b = JObj ys"
    | (other) "\<nexists>xs ys. a = JArr xs \<and> b = JArr ys" "\<nexists>xs ys. a = JObj xs \<and> b = JObj ys" by blast
  then show ?case
  proof cases
    case arr
    have "list_all2 deepEquals xs ys = list_all2 valuesEqual xs ys"
      by (intro list.rel_cong refl less.IH) (simp only: arr(1) vsize_arr)
    then show ?thesis by (simp only: arr deepEquals_arr valuesEqual_arr)
  next
    case obj
    have "deepEquals x y = valuesEqual x y" if "oget xs k = Some x" for k x y
      using less.IH [of x y] vsize_oget [OF that] obj by blast
    then have "(case (oget xs k, oget ys k) of (Some x, Some y) \<Rightarrow> deepEquals x y | (u, w) \<Rightarrow> u = w) =
        (case (oget xs k, oget ys k) of (Some x, Some y) \<Rightarrow> valuesEqual x y | (u, w) \<Rightarrow> u = w)" for k
      by (auto split: option.splits)
    then show ?thesis by (simp only: obj deepEquals_obj_unfold valuesEqual_obj_unfold)
  next
    case other
    then show ?thesis
      by (subst deepEquals.simps, subst valuesEqual.simps) (cases a; cases b; simp)
  qed
qed

lemma deepEquals_canon: "json_value a \<Longrightarrow> json_value b \<Longrightarrow> deepEquals a b = (canon a = canon b)"
  by (simp add: deepEquals_valuesEqual valuesEqual_canon)

lemma find_invalid_class_None: "find_invalid_class names = None \<longleftrightarrow> list_all PUPPET_CLASS_NAME names"
  by (auto simp: find_invalid_class_def find_None_iff list_all_iff)

text \<open>A record with sorted keys is rebuilt from its lookup alone.\<close>

definition sorted_copy :: "(string \<Rightarrow> jsval option) \<Rightarrow> string list \<Rightarrow> jsval obj" where
  "sorted_copy look ks =
     foldl (\<lambda>out k. case look k of None \<Rightarrow> out | Some v \<Rightarrow> assign k v out) [] ks"

lemma sortRecord_copy:
  "sortRecord input = sorted_copy (\<lambda>k. map_option sort_value (oget input k)) (sort (keys input))"
proof -
  have "(\<lambda>out k. case oget input k of None \<Rightarrow> out | Some v \<Rightarrow> assign k (sort_value v) out) =
    (\<lambda>out k. case map_option sort_value (oget input k) of None \<Rightarrow> out | Some v \<Rightarrow> assign k v out)"
    by (simp add: fun_eq_iff split: option.splits)
  then show ?thesis by (simp add: sortRecord_def sorted_copy_def)
qed

lemma sort_value_obj [simp]: "sort_value (JObj o1) = JObj (sortRecord o1)"
  by (subst sort_value.simps) (simp add: sortRecord_def)

lemma sort_value_other [simp]:
  "sort_value JNull = JNull" "sort_value (JBool b) = JBool b" "sort_value (JNum n) = JNum n"
  "sort_value (JStr s) = JStr s" "sort_value (JArr vs) = JArr vs"
  "sort_value (JNative f) = JNative f" "sort_value (JProto p) = JProto p"
  by (subst sort_value.simps; simp)+

lemma foldl_assign_lookup:
  "oget (foldl (\<lambda>out k. case look k of None \<Rightarrow> out | Some v \<Rightarrow> assign k v out) o0 ks) k =
     (if k \<in> set ks \<and> look k \<noteq> None \<and> k \<noteq> ''__proto__'' then look k else oget o0 k)"
  by (induction ks arbitrary: o0) (auto simp: oget_assign split: option.splits)

lemma distinct_assign: "distinct (keys o1) \<Longrightarrow> distinct (keys (assign k v o1))"
  by (simp add: assign_def)

lemma foldl_assign_distinct:
  "distinct (keys o0) \<Longrightarrow>
     distinct (keys (foldl (\<lambda>out k. case look k of None \<Rightarrow> out | Some v \<Rightarrow> assign k v out) o0 ks))"
  by (induction ks arbitrary: o0) (auto simp: distinct_assign split: option.splits)

lemma sortRecord_distinct [simp]: "distinct (keys (sortRecord input))"
  unfolding sortRecord_copy sorted_copy_def by (rule foldl_assign_distinct) simp

lemma sortRecord_lookup:
  "oget (sortRecord input) k = (if k = ''__proto__'' then None else map_option sort_value (oget input k))"
proof (cases "oget input k")
  case None
  then show ?thesis unfolding sortRecord_copy sorted_copy_def by (subst foldl_assign_lookup) simp
next
  case (Some v)
  then have "k \<in> set (sort (keys input))" by (force dest: map_of_SomeD)
  with Some show ?thesis unfolding sortRecord_copy sorted_copy_def by (subst foldl_assign_lookup) simp
qed

lemma json_obj_iff:
  "json_value (JObj o1) \<longleftrightarrow> distinct (keys o1) \<and> (\<forall>k v. oget o1 k = Some v \<longrightarrow> json_value v)"
  by (auto simp: list_all_iff dest: map_of_SomeD)

lemma json_sort_value: "json_value v \<Longrightarrow> json_value (sort_value v)"
proof (induction v rule: measure_induct_rule [of vsize])
  case (less v)
  show ?case
  proof (cases v)
    case (JObj o1)
    have "json_value (sort_value w)" if "oget o1 k = Some w" for k w
      using less.IH [of w] less.prems that JObj vsize_oget json_value_oget by blast
    then show ?thesis
      using JObj by (auto simp: json_obj_iff sortRecord_lookup split: if_splits simp del: json_value.simps)
  qed (use less.prems in simp_all)
qed

lemma canon_sort_value:
  "json_value a \<Longrightarrow> json_value b \<Longrightarrow> canon a = canon b \<Longrightarrow> canon (sort_value a) = canon (sort_value b)"
proof (induction a arbitrary: b rule: measure_induct_rule [of vsize])
  case (less a)
  show ?case
  proof (cases "\<exists>xs ys. a = JObj xs \<and> b = JObj ys")
    case True
    then obtain xs ys where a: "a = JObj xs" and b: "b = JObj ys" by auto
    have dist: "distinct (keys xs)" "distinct (keys ys)" using less.prems a b by auto
    have eq: "map_option canon (oget xs k) = map_option canon (oget ys k)" for k
      using less.prems(3) by (simp only: a b canon_obj_eq_iff [OF dist])
    have "map_option canon (oget (sortRecord xs) k) = map_option canon (oget (sortRecord ys) k)" for k
    proof (cases "oget xs k")
      case None
      with eq [of k] show ?thesis by (simp add: sortRecord_lookup)
    next
      case (Some x)
      with eq [of k] obtain y where y: "oget ys k = Some y" "canon x = canon y"
        by (cases "oget ys k") auto
      have "canon (sort_value x) = canon (sort_value y)"
        by (rule less.IH) (use Some y less.prems a b vsize_oget json_value_oget in blast)+
      with Some y show ?thesis by (simp add: sortRecord_lookup)
    qed
    then show ?thesis by (simp only: a b sort_value_obj canon_obj_eq_iff [OF sortRecord_distinct sortRecord_distinct] simp_thms)
  next
    case False
    with less.prems(3) show ?thesis by (cases a; cases b) auto
  qed
qed

fun no_proto_key :: "jsval \<Rightarrow> bool" where
  "no_proto_key (JObj o1) = list_all (\<lambda>(k, v). k \<noteq> ''__proto__'' \<and> no_proto_key v) o1"
| "no_proto_key _ = True"

lemma canon_sort_value_id:
  "json_value v \<Longrightarrow> no_proto_key v \<Longrightarrow> canon (sort_value v) = canon v"
proof (induction v rule: measure_induct_rule [of vsize])
  case (less v)
  show ?case
  proof (cases v)
    case (JObj o1)
    have dist: "distinct (keys o1)" using less.prems JObj by simp
    have "map_option canon (oget (sortRecord o1) k) = map_option canon (oget o1 k)" for k
    proof (cases "oget o1 k")
      case None
      then show ?thesis by (simp add: sortRecord_lookup)
    next
      case (Some w)
      then have kw: "(k, w) \<in> set o1" by (rule map_of_SomeD)
      then have "k \<noteq> ''__proto__''" "no_proto_key w" using less.prems(2) JObj by (auto simp: list_all_iff)
      moreover have "canon (sort_value w) = canon w"
        by (rule less.IH) (use kw Some less.prems(1) JObj vsize_obj json_value_oget \<open>no_proto_key w\<close> in blast)+
      ultimately show ?thesis using Some by (simp add: sortRecord_lookup)
    qed
    then show ?thesis by (simp only: JObj sort_value_obj canon_obj_eq_iff [OF sortRecord_distinct dist] simp_thms)
  qed simp_all
qed

text \<open>A document as one value, the way a reader of the file sees it.\<close>

definition doc_value :: "enc_document \<Rightarrow> jsval" where
  "doc_value document =
     JObj ([(''classes'', JObj (map (\<lambda>(c, ps). (c, JObj ps)) (doc_classes document))),
            (''parameters'', JObj (doc_parameters document))]
           @ (case doc_environment document of None \<Rightarrow> [] | Some e \<Rightarrow> [(''environment'', JStr e)]))"

lemma json_doc_value:
  "json_value (doc_value d) \<longleftrightarrow>
     json_value (JObj (map (\<lambda>(c, ps). (c, JObj ps)) (doc_classes d))) \<and> json_value (JObj (doc_parameters d))"
  unfolding doc_value_def by (cases "doc_environment d") (simp_all del: map_map)

lemma canon_doc:
  assumes "distinct (keys cs)" "distinct (keys cs')" "distinct (keys ps)" "distinct (keys ps')"
  shows "canon (JObj ([(''classes'', JObj cs), (''parameters'', JObj ps)]
              @ (case e of None \<Rightarrow> [] | Some e \<Rightarrow> [(''environment'', JStr e)]))) =
         canon (JObj ([(''classes'', JObj cs'), (''parameters'', JObj ps')]
              @ (case e' of None \<Rightarrow> [] | Some e \<Rightarrow> [(''environment'', JStr e)])))
     \<longleftrightarrow> canon (JObj cs) = canon (JObj cs') \<and> canon (JObj ps) = canon (JObj ps') \<and> e = e'"
    (is "canon (JObj (?l @ ?le)) = canon (JObj (?r @ ?re)) \<longleftrightarrow> ?rhs")
proof -
  have dist: "distinct (keys (?l @ ?le))" "distinct (keys (?r @ ?re))" by (auto split: option.splits)
  have look: "oget (?l @ ?le) = [''classes'' \<mapsto> JObj cs, ''parameters'' \<mapsto> JObj ps](''environment'' := map_option JStr e)"
    "oget (?r @ ?re) = [''classes'' \<mapsto> JObj cs', ''parameters'' \<mapsto> JObj ps'](''environment'' := map_option JStr e')"
    by (auto simp: fun_eq_iff split: option.splits)
  show ?thesis
  proof
    assume "canon (JObj (?l @ ?le)) = canon (JObj (?r @ ?re))"
    then have k: "map_option canon (oget (?l @ ?le) k) = map_option canon (oget (?r @ ?re) k)" for k
      by (simp only: canon_obj_eq_iff [OF dist])
    from k [of "''classes''"] k [of "''parameters''"] k [of "''environment''"] show ?rhs
      unfolding look by (cases e; cases e'; simp del: canon.simps(2))
  next
    assume ?rhs
    then show "canon (JObj (?l @ ?le)) = canon (JObj (?r @ ?re))"
      unfolding canon_obj_eq_iff [OF dist] look by (simp del: canon.simps(2))
  qed
qed

lemma json_payload: "json_value (doc_value d) \<Longrightarrow> json_value (enc_payload d)"
  using json_sort_value [of "JObj (map (\<lambda>(c, ps). (c, JObj ps)) (doc_classes d))"]
    json_sort_value [of "JObj (doc_parameters d)"]
  unfolding json_doc_value enc_payload_def
  by (cases "doc_environment d") (simp_all del: map_map)

lemma canon_payload:
  assumes "json_value (doc_value d)" "no_proto_key (doc_value d)"
  shows "canon (enc_payload d) = canon (doc_value d)"
proof -
  let ?cs = "map (\<lambda>(c, ps). (c, JObj ps)) (doc_classes d)" and ?ps = "doc_parameters d"
  have json: "json_value (JObj ?cs)" "json_value (JObj ?ps)" using assms(1) by (simp_all only: json_doc_value)
  have "no_proto_key (JObj ?cs)" "no_proto_key (JObj ?ps)" using assms(2) by (simp_all add: doc_value_def)
  with json have "canon (JObj (sortRecord ?cs)) = canon (JObj ?cs)" "canon (JObj (sortRecord ?ps)) = canon (JObj ?ps)"
    using canon_sort_value_id [of "JObj ?cs"] canon_sort_value_id [of "JObj ?ps"] by (simp_all only: sort_value_obj)
  moreover have "distinct (keys ?cs)" "distinct (keys ?ps)" using json by (simp_all only: json_obj_iff)
  ultimately show ?thesis
    unfolding enc_payload_def doc_value_def by (subst canon_doc) (simp_all only: sortRecord_distinct simp_thms)
qed

lemma canon_payload_cong:
  assumes "json_value (doc_value d)" "json_value (doc_value d')" "canon (doc_value d) = canon (doc_value d')"
  shows "canon (enc_payload d) = canon (enc_payload d')"
proof -
  let ?cs = "\<lambda>d. map (\<lambda>(c, ps). (c, JObj ps)) (doc_classes d)" and ?ps = "doc_parameters"
  have json: "json_value (JObj (?cs d))" "json_value (JObj (?ps d))" "json_value (JObj (?cs d'))" "json_value (JObj (?ps d'))"
    using assms(1,2) by (simp_all only: json_doc_value)
  then have dist: "distinct (keys (?cs d))" "distinct (keys (?ps d))" "distinct (keys (?cs d'))" "distinct (keys (?ps d'))"
    by (simp_all only: json_obj_iff)
  have eq: "canon (JObj (?cs d)) = canon (JObj (?cs d'))" "canon (JObj (?ps d)) = canon (JObj (?ps d'))"
    "doc_environment d = doc_environment d'"
    using assms(3) unfolding doc_value_def canon_doc [OF dist(1,3,2,4)] by blast+
  have "canon (JObj (sortRecord (?cs d))) = canon (JObj (sortRecord (?cs d')))"
    "canon (JObj (sortRecord (?ps d))) = canon (JObj (sortRecord (?ps d')))"
    using canon_sort_value [OF json(1,3) eq(1)] canon_sort_value [OF json(2,4) eq(2)] by (simp_all only: sort_value_obj)
  with eq(3) show ?thesis
    unfolding enc_payload_def by (subst canon_doc) (simp_all only: sortRecord_distinct simp_thms)
qed

lemma render_Inr_iff:
  assumes "json_value (doc_value d)" "\<forall>s v. parse s = Inr v \<longrightarrow> json_value v"
  shows "renderEncDocument stringify parse sha256 d = Inr r \<longleftrightarrow>
     list_all PUPPET_CLASS_NAME (keys (doc_classes d)) \<and>
     re_yaml r = enc_header @ stringify (enc_payload d) \<and>
     re_contentHash r = sha256 (re_yaml r) \<and>
     (\<exists>v. parse (re_yaml r) = Inr v \<and> canon v = canon (enc_payload d))"
proof -
  have eq: "deepEquals v (enc_payload d) = (canon v = canon (enc_payload d))" if "parse s = Inr v" for s v
    using that assms json_payload deepEquals_canon by blast
  show ?thesis
    by (cases r; cases "find_invalid_class (keys (doc_classes d))";
        cases "parse (enc_header @ stringify (enc_payload d))")
      (auto simp: renderEncDocument_def assertValidClassNames_def assertRoundTrips_def Let_def eq
        find_invalid_class_None [symmetric])
qed

lemma only_common_member:
  assumes "\<And>c. c \<in> A \<and> P c \<longleftrightarrow> c = k" "\<forall>g \<in> S. \<forall>c \<in> f g. P c"
  shows "(\<exists>g \<in> S. \<exists>c \<in> f g. c \<in> A) \<longleftrightarrow> (\<exists>g \<in> S. k \<in> f g)"
proof -
  have "k \<in> A" using assms(1) [of k] by simp
  moreover have "c = k" if "c \<in> A" "P c" for c using assms(1) [of c] that by simp
  ultimately show ?thesis using assms(2) by metis
qed

section \<open>Properties\<close>

text \<open>
  C28. What \<open>renderEncDocument\<close> guarantees of a document it returns, and when it returns one:
  exactly when every class name is a valid Puppet class name and the text parses back to the
  payload (key order aside). The text is the header and the rendered payload, the hash is the
  hash of that text; and for a document without a \<open>__proto__\<close> key, what a reader parses back
  is the document itself.
\<close>

theorem renderEncDocument_ok:
  assumes "json_value (doc_value d)" "\<forall>s v. parse s = Inr v \<longrightarrow> json_value v"
  shows "(renderEncDocument stringify parse sha256 d = Inr r \<longleftrightarrow>
       list_all PUPPET_CLASS_NAME (keys (doc_classes d)) \<and>
       re_yaml r = enc_header @ stringify (enc_payload d) \<and>
       re_contentHash r = sha256 (re_yaml r) \<and>
       (\<exists>v. parse (re_yaml r) = Inr v \<and> canon v = canon (enc_payload d)))
    \<and> (renderEncDocument stringify parse sha256 d = Inr r \<and> no_proto_key (doc_value d) \<longrightarrow>
       (\<exists>v. parse (re_yaml r) = Inr v \<and> canon v = canon (doc_value d)))"
  using render_Inr_iff [OF assms] canon_payload [OF assms(1)] by auto

definition demo_doc :: enc_document where
  "demo_doc =
     \<lparr> doc_classes = [(''profile::web'', [(''port'', JNum 80), (''host'', JStr ''a'')])],
       doc_parameters = [(''role'', JStr ''web'')], doc_environment = Some ''production'' \<rparr>"

theorem renderEncDocument_ok_witness:
  "\<exists>v. Inr (enc_payload demo_doc) = (Inr v :: string + jsval) \<and> canon v = canon (doc_value demo_doc)"
proof -
  have json: "json_value (doc_value demo_doc)" "no_proto_key (doc_value demo_doc)"
    by (simp_all add: demo_doc_def doc_value_def)
  have "json_value (enc_payload demo_doc)" using json(1) by (rule json_payload)
  then have parse: "\<forall>s v. (\<lambda>_. Inr (enc_payload demo_doc) :: string + jsval) s = Inr v \<longrightarrow> json_value v" by auto
  have names: "list_all PUPPET_CLASS_NAME (keys (doc_classes demo_doc))" by code_simp
  let ?r = "\<lparr> re_yaml = enc_header @ js_string (enc_payload demo_doc),
              re_contentHash = enc_header @ js_string (enc_payload demo_doc) \<rparr>"
  from renderEncDocument_ok [OF json(1) parse, of js_string "\<lambda>t. t" ?r] names json(2)
  show ?thesis by simp
qed

text \<open>
  Rendering is deterministic: two documents that differ only in the order of keys, at any
  depth, give the same bytes and the same hash, or both fail. What this needs of the \<open>yaml\<close>
  package is its \<open>sortMapEntries\<close> option: the text does not depend on key order.
\<close>

theorem render_deterministic:
  assumes "json_value (doc_value d)" "json_value (doc_value d')"
    and "canon (doc_value d) = canon (doc_value d')"
    and "\<forall>s v. parse s = Inr v \<longrightarrow> json_value v"
    and "\<forall>a b. canon a = canon b \<longrightarrow> stringify a = stringify b"
  shows "renderEncDocument stringify parse sha256 d = Inr r \<longleftrightarrow>
         renderEncDocument stringify parse sha256 d' = Inr r"
proof -
  have payload: "canon (enc_payload d) = canon (enc_payload d')"
    using assms(1-3) by (rule canon_payload_cong)
  then have "stringify (enc_payload d) = stringify (enc_payload d')" using assms(5) by blast
  moreover have "fst ` set (doc_classes d) = fst ` set (doc_classes d')"
  proof -
    have dist: "distinct (keys (map (\<lambda>(c, ps). (c, JObj ps)) (doc_classes d)))"
      "distinct (keys (map (\<lambda>(c, ps). (c, JObj ps)) (doc_classes d')))"
      "distinct (keys (doc_parameters d))" "distinct (keys (doc_parameters d'))"
      using assms(1,2) by (simp_all only: json_doc_value json_obj_iff)
    have "canon (JObj (map (\<lambda>(c, ps). (c, JObj ps)) (doc_classes d))) =
        canon (JObj (map (\<lambda>(c, ps). (c, JObj ps)) (doc_classes d')))"
      using assms(3) unfolding doc_value_def canon_doc [OF dist(1-4)] by blast
    then have "map_option canon (oget (map (\<lambda>(c, ps). (c, JObj ps)) (doc_classes d)) k) =
        map_option canon (oget (map (\<lambda>(c, ps). (c, JObj ps)) (doc_classes d')) k)" for k
      by (simp only: canon_obj_eq_iff [OF dist(1,2)])
    then have "oget (map (\<lambda>(c, ps). (c, JObj ps)) (doc_classes d)) k = None \<longleftrightarrow>
        oget (map (\<lambda>(c, ps). (c, JObj ps)) (doc_classes d')) k = None" for k
      by (metis option.map_disc_iff)
    then show ?thesis
      by (simp add: map_of_eq_None_iff set_eq_iff image_image case_prod_unfold)
  qed
  then have "list_all PUPPET_CLASS_NAME (keys (doc_classes d)) = list_all PUPPET_CLASS_NAME (keys (doc_classes d'))"
    by (metis (no_types) list_all_iff set_map)
  ultimately show ?thesis
    using payload by (simp only: render_Inr_iff [OF assms(1,4)] render_Inr_iff [OF assms(2,4)])
qed

definition demo_doc_reordered :: enc_document where
  "demo_doc_reordered =
     \<lparr> doc_classes = [(''profile::web'', [(''host'', JStr ''a''), (''port'', JNum 80)])],
       doc_parameters = [(''role'', JStr ''web'')], doc_environment = Some ''production'' \<rparr>"

theorem render_deterministic_witness:
  "\<forall>r. (renderEncDocument (\<lambda>v. js_string (canon v)) (\<lambda>_. Inr (enc_payload demo_doc)) (\<lambda>t. t) demo_doc = Inr r) =
   (renderEncDocument (\<lambda>v. js_string (canon v)) (\<lambda>_. Inr (enc_payload demo_doc)) (\<lambda>t. t) demo_doc_reordered = Inr r)"
proof -
  have json: "json_value (doc_value demo_doc)" "json_value (doc_value demo_doc_reordered)"
    by (simp_all add: demo_doc_def demo_doc_reordered_def doc_value_def)
  have "canon (doc_value demo_doc) = canon (doc_value demo_doc_reordered)" by code_simp
  from render_deterministic [OF json this, of "\<lambda>_. Inr (enc_payload demo_doc)" "\<lambda>v. js_string (canon v)" "\<lambda>t. t"]
  show ?thesis using json_payload [OF json(1)] by auto
qed

text \<open>
  On groups whose class names are all valid Puppet class names, \<open>mergeGroups\<close> fails exactly
  when one of them names the class \<open>constructor\<close>, the one valid name that every JavaScript
  object inherits.
\<close>

theorem mergeGroups_constructor_class:
  assumes "\<forall>g \<in> set groups. \<forall>c \<in> fst ` set (mg_classes g). PUPPET_CLASS_NAME c"
  shows "(\<exists>e. mergeGroups groups = Inl e) \<longleftrightarrow>
     (\<exists>g \<in> set groups. ''constructor'' \<in> fst ` set (mg_classes g))"
proof -
  have "list_all (\<lambda>c. PUPPET_CLASS_NAME c \<longrightarrow> c = ''constructor'') inherited_names" by code_simp
  moreover have "''constructor'' \<in> set inherited_names" by (simp add: inherited_names_def)
  moreover have "PUPPET_CLASS_NAME ''constructor''" by code_simp
  ultimately have "c \<in> set inherited_names \<and> PUPPET_CLASS_NAME c \<longleftrightarrow> c = ''constructor''" for c
    unfolding list_all_iff by blast
  then have "(\<exists>g \<in> set groups. \<exists>c \<in> fst ` set (mg_classes g). c \<in> set inherited_names) \<longleftrightarrow>
     (\<exists>g \<in> set groups. ''constructor'' \<in> fst ` set (mg_classes g))"
    using assms by (rule only_common_member)
  then show ?thesis by (simp only: mergeGroups_throws_iff)
qed

theorem mergeGroups_constructor_class_witness:
  "\<exists>e. mergeGroups [\<lparr> mg_id = ''g'', mg_name = ''g'', mg_environment = None,
      mg_classes = [(''constructor'', [])], mg_parameters = [] \<rparr>] = Inl e"
  by (subst mergeGroups_constructor_class) (simp_all add: PUPPET_CLASS_NAME_def is_lower_def)

end
