(* ===== verification/Database.thy ===== *)
theory Database
  imports RuleEvaluator EncRenderer
begin

text \<open>
  The tables of \<open>apps/api/prisma/schema.prisma\<close> the classification side of the program reads and
  writes, each as the list of its rows, and the Prisma operations the code uses on them
  (\<open>findUnique\<close>, \<open>upsert\<close>, \<open>deleteMany\<close>) with the lemmas every service shares. Times are
  milliseconds. \<open>runtime\<close> bundles the parts of the JavaScript runtime and of third-party
  packages that the classification pipeline calls.
\<close>

section \<open>Table operations\<close>

definition find_unique :: "('r \<Rightarrow> bool) \<Rightarrow> 'r list \<Rightarrow> 'r option" where
  "find_unique p rows = List.find p rows"

definition upsert :: "('r \<Rightarrow> bool) \<Rightarrow> 'r \<Rightarrow> ('r \<Rightarrow> 'r) \<Rightarrow> 'r list \<Rightarrow> 'r list" where
  "upsert p new upd rows =
     (if list_ex p rows then map (\<lambda>r. if p r then upd r else r) rows else rows @ [new])"

definition delete_many :: "('r \<Rightarrow> bool) \<Rightarrow> 'r list \<Rightarrow> 'r list" where
  "delete_many p rows = filter (\<lambda>r. \<not> p r) rows"

definition update_many :: "('r \<Rightarrow> bool) \<Rightarrow> ('r \<Rightarrow> 'r) \<Rightarrow> 'r list \<Rightarrow> 'r list" where
  "update_many p upd rows = map (\<lambda>r. if p r then upd r else r) rows"

named_theorems table_simps "facts about table operations"

lemma find_unique_simps [simp]:
  "find_unique p [] = None"
  "find_unique p (x # xs) = (if p x then Some x else find_unique p xs)"
  by (simp_all add: find_unique_def)

lemma find_unique_append:
  "find_unique p (xs @ ys) = (case find_unique p xs of None \<Rightarrow> find_unique p ys | Some x \<Rightarrow> Some x)"
  by (induction xs) auto

lemma find_unique_Some: "find_unique p rows = Some r \<Longrightarrow> r \<in> set rows \<and> p r"
  unfolding find_unique_def find_Some_iff by (metis nth_mem)

lemma find_unique_None [table_simps]: "find_unique p rows = None \<longleftrightarrow> (\<forall>r \<in> set rows. \<not> p r)"
  by (auto simp: find_unique_def find_None_iff)

lemma find_unique_key:
  "distinct (map key rows) \<Longrightarrow> r \<in> set rows \<Longrightarrow> find_unique (\<lambda>x. key x = key r) rows = Some r"
proof (induction rows)
  case Nil
  then show ?case by simp
next
  case (Cons x xs)
  then show ?case by (cases "x = r") (auto simp: image_iff)
qed

lemma set_delete_many [simp]: "set (delete_many p rows) = {r \<in> set rows. \<not> p r}"
  by (simp add: delete_many_def)

lemma set_update_many [simp]: "set (update_many p upd rows) = (\<lambda>r. if p r then upd r else r) ` set rows"
  by (simp add: update_many_def)

lemma set_upsert:
  "set (upsert p new upd rows) =
     (if \<exists>r \<in> set rows. p r then (\<lambda>r. if p r then upd r else r) ` set rows else insert new (set rows))"
  by (auto simp: upsert_def list_ex_iff)

lemma upsert_keys:
  assumes "distinct (map key rows)" "\<And>r. key (upd r) = key r"
  shows "distinct (map key (upsert (\<lambda>r. key r = key new) new upd rows))"
proof -
  have "map key (map (\<lambda>r. if key r = key new then upd r else r) rows) = map key rows"
    using assms(2) by auto
  with assms(1) show ?thesis by (auto simp: upsert_def list_ex_iff simp del: map_map)
qed

lemma delete_many_keys: "distinct (map key rows) \<Longrightarrow> distinct (map key (delete_many p rows))"
  by (simp add: delete_many_def distinct_map_filter)

lemma update_many_keys:
  assumes "distinct (map key rows)" "\<And>r. key (upd r) = key r"
  shows "distinct (map key (update_many p upd rows))"
proof -
  have "map key (update_many p upd rows) = map key rows" using assms(2) by (auto simp: update_many_def)
  with assms(1) show ?thesis by simp
qed

section \<open>Rows\<close>

record group_row =
  g_id :: string
  g_name :: string
  g_description :: "string option"
  g_rank :: int
  g_strategy :: match_strategy
  g_environment :: "string option"
  g_isEnabled :: bool
  g_parentId :: "string option"

record rule_row =
  ru_groupId :: string
  ru_factPath :: string
  ru_operator :: rule_operator
  ru_value :: jsval

record class_row =
  cl_groupId :: string
  cl_className :: string
  cl_params :: "jsval obj"

record parameter_row =
  pa_groupId :: string
  pa_key :: string
  pa_value :: jsval

record pin_row =
  pin_groupId :: string
  pin_certname :: string

record node_row =
  n_certname :: string
  n_environment :: "string option"
  n_facts :: "jsval obj"
  n_latestReportStatus :: "string option"
  n_reportTimestamp :: "int option"
  n_factsTimestamp :: "int option"
  n_expired :: bool
  n_deactivated :: bool
  n_projectedAt :: int

record materialization_row =
  em_certname :: string
  em_contentHash :: string
  em_revision :: nat
  em_relativePath :: string
  em_appliedGroupIds :: "string list"
  em_conflicts :: "classification_conflict list"
  em_attribution :: "merge_attribution option"
  em_matchReasons :: "group_match_explanation list"
  em_writtenAt :: int

datatype job_kind = MATERIALIZE | DELETE

datatype job_status = PENDING | IN_PROGRESS | DONE | FAILED

record job_row =
  j_id :: nat
  j_certname :: "string option"
  j_kind :: job_kind
  j_dedupeKey :: string
  j_reason :: string
  j_status :: job_status
  j_attempts :: nat
  j_lastError :: "string option"
  j_nextAttemptAt :: int
  j_cursor :: "string option"
  j_createdAt :: int

record audit_row =
  a_actorUserId :: "string option"
  a_actorEmail :: "string option"
  a_action :: string
  a_entityType :: string
  a_entityId :: "string option"

record db =
  db_groups :: "group_row list"
  db_rules :: "rule_row list"
  db_classes :: "class_row list"
  db_parameters :: "parameter_row list"
  db_pins :: "pin_row list"
  db_nodes :: "node_row list"
  db_materializations :: "materialization_row list"
  db_jobs :: "job_row list"
  db_nextJobId :: nat
  db_audit :: "audit_row list"

section \<open>The runtime\<close>

record runtime =
  rt_regexp :: regexp
  rt_localeCompare :: "string \<Rightarrow> string \<Rightarrow> int"
  rt_stringify :: "jsval \<Rightarrow> string"
  rt_parse :: "string \<Rightarrow> string + jsval"
  rt_sha256 :: "string \<Rightarrow> string"

text \<open>What a thrown error carries, as far as the program reads it.\<close>

record failure =
  f_name :: string
  f_message :: string

definition merge_failure :: "merge_error \<Rightarrow> failure" where
  "merge_failure e = (case e of TypeError msg \<Rightarrow> \<lparr> f_name = ''TypeError'', f_message = msg \<rparr>)"

definition quote :: string where
  "quote = [char_of (34 :: nat)]"

definition enc_document_failure :: "invalid_enc_document \<Rightarrow> failure" where
  "enc_document_failure e =
     \<lparr> f_name = ''InvalidEncDocumentError'',
       f_message = (case e of
          InvalidClassName c \<Rightarrow> quote @ c @ quote @ '' is not a valid Puppet class name (expected e.g. profile::base)''
        | ParseBackFailed msg \<Rightarrow> ''Rendered YAML could not be parsed back: '' @ msg
        | RoundTripFailed \<Rightarrow> ''Rendered YAML did not survive a round trip; refusing to write.'') \<rparr>"

text \<open>\<open>mergeGroups\<close> followed by \<open>renderEncDocument\<close>, the steps every caller takes in this order.\<close>

definition merge_and_render ::
  "runtime \<Rightarrow> mergeable_group list \<Rightarrow> failure + (merge_result \<times> rendered_enc)" where
  "merge_and_render rt groups =
     (case mergeGroups groups of
        Inl e \<Rightarrow> Inl (merge_failure e)
      | Inr merged \<Rightarrow>
          (case renderEncDocument (rt_stringify rt) (rt_parse rt) (rt_sha256 rt) (mr_document merged) of
             Inl e \<Rightarrow> Inl (enc_document_failure e)
           | Inr rendered \<Rightarrow> Inr (merged, rendered)))"

end
