(* ===== verification/EncStorage.thy ===== *)
theory EncStorage
  imports Database
begin

text \<open>
  \<open>apps/api/src/materialization/posix-enc-storage.ts\<close> and \<open>enc-document-reader.ts\<close>: the only
  writer of the ENC tree, and its reader. The state is the set of files below the ENC root, by
  path. Every system call can fail: the parameter \<open>io\<close> says with which error code a call on a
  path fails, if it does, for any reason but a missing file or directory (\<open>ENOENT\<close>), which the
  state itself decides. \<open>atomicWrite\<close> returns the list of the states a concurrent reader can
  observe, the last being the state it leaves.
  The contract of \<open>IEncFileWriter\<close> (\<open>packages/contracts/src/enc.ts\<close>) is the locale
  \<open>enc_storage\<close>.
\<close>

section \<open>Paths\<close>

definition is_alnum :: "char \<Rightarrow> bool" where
  "is_alnum c \<longleftrightarrow> is_lower c \<or> is_digit c \<or> 65 \<le> (of_char c :: nat) \<and> (of_char c :: nat) \<le> 90"

definition safe_middle :: "char \<Rightarrow> bool" where
  "safe_middle c \<longleftrightarrow> is_alnum c \<or> c = CHR ''.'' \<or> c = CHR ''_'' \<or> c = CHR ''-''"

text \<open>\<open>SAFE_CERTNAME\<close>: \<open>/^[A-Za-z0-9](?:[A-Za-z0-9._-]{0,252}[A-Za-z0-9])?$/\<close>.\<close>

definition SAFE_CERTNAME :: "string \<Rightarrow> bool" where
  "SAFE_CERTNAME s \<longleftrightarrow>
     s \<noteq> [] \<and> is_alnum (hd s) \<and>
     (length s = 1 \<or> length s \<le> 254 \<and> is_alnum (last s) \<and> list_all safe_middle (butlast (tl s)))"

definition assertSafeCertname :: "string \<Rightarrow> failure + unit" where
  "assertSafeCertname certname =
     (if \<not> SAFE_CERTNAME certname \<or> str_includes certname ''..''
      then Inl \<lparr> f_name = ''EncPathError'',
                 f_message = ''Refusing to build a filesystem path from certname '' @ quote @ certname @ quote @ ''.'' \<rparr>
      else Inr ())"

definition nodesDir :: "string \<Rightarrow> string" where
  "nodesDir dir0 = dir0 @ ''/nodes''"

definition nodeFile :: "string \<Rightarrow> string \<Rightarrow> string" where
  "nodeFile dir0 certname = nodesDir dir0 @ ''/'' @ certname @ ''.yaml''"

definition defaultFile :: "string \<Rightarrow> string" where
  "defaultFile dir0 = dir0 @ ''/default.yaml''"

definition revisionFile :: "string \<Rightarrow> string" where
  "revisionFile dir0 = dir0 @ ''/.revision''"

section \<open>The file system\<close>

type_synonym files = "string obj"

datatype sys_call = ReadFile | WriteFile | Sync | Rename | Remove | ReadDir | MkDir

type_synonym io_faults = "sys_call \<Rightarrow> string \<Rightarrow> string option"

definition io_failure :: "string \<Rightarrow> failure" where
  "io_failure code = \<lparr> f_name = ''Error'', f_message = code \<rparr>"

definition enc_write_failure :: "string \<Rightarrow> string \<Rightarrow> failure" where
  "enc_write_failure target code =
     \<lparr> f_name = ''EncWriteError'',
       f_message = ''Failed to write '' @ target @ '': '' @ code @ ''. ''
         @ ''Classification is unchanged on disk; Puppet runs continue against the previous state.'' \<rparr>"

definition put_file :: "string \<Rightarrow> string \<Rightarrow> files \<Rightarrow> files" where
  "put_file path contents fs = (path, contents) # filter (\<lambda>(p, _). p \<noteq> path) fs"

definition drop_file :: "string \<Rightarrow> files \<Rightarrow> files" where
  "drop_file path fs = filter (\<lambda>(p, _). p \<noteq> path) fs"

definition tmpFile :: "string \<Rightarrow> string \<Rightarrow> string" where
  "tmpFile dir uuid = dir @ ''/.'' @ uuid @ ''.tmp''"

text \<open>
  \<open>rm(tmp, { force: true }).catch(() => undefined)\<close>: the removal itself may fail, which is
  ignored.
\<close>

definition cleanup_tmp :: "io_faults \<Rightarrow> string \<Rightarrow> files \<Rightarrow> files" where
  "cleanup_tmp io tmp fs = (if io Remove tmp = None then drop_file tmp fs else fs)"

text \<open>
  \<open>written\<close> is how much of the contents has reached the temporary file when \<open>writeFile\<close> fails.
\<close>

definition atomicWrite ::
  "io_faults \<Rightarrow> string \<Rightarrow> nat \<Rightarrow> string \<Rightarrow> string \<Rightarrow> string \<Rightarrow> files \<Rightarrow> (failure + unit) \<times> files list" where
  "atomicWrite io uuid written dir target contents fs =
     (let tmp = tmpFile dir uuid
      in case io MkDir dir of
        Some code \<Rightarrow> (Inl (io_failure code), [fs])
      | None \<Rightarrow>
          (case io WriteFile tmp of
             Some code \<Rightarrow>
               (let partial = put_file tmp (take written contents) fs
                in (Inl (enc_write_failure target code), [fs, partial, cleanup_tmp io tmp partial]))
           | None \<Rightarrow>
               let partial = put_file tmp (take written contents) fs;
                   full = put_file tmp contents fs
               in (case io Sync tmp of
                     Some code \<Rightarrow>
                       (Inl (enc_write_failure target code), [fs, partial, full, cleanup_tmp io tmp full])
                   | None \<Rightarrow>
                       (case io Rename target of
                          Some code \<Rightarrow>
                            (Inl (enc_write_failure target code), [fs, partial, full, cleanup_tmp io tmp full])
                        | None \<Rightarrow>
                            (Inr (), [fs, partial, full, put_file target contents (drop_file tmp full)])))))"

section \<open>Operations\<close>

definition matchesOnDisk ::
  "io_faults \<Rightarrow> (string \<Rightarrow> string) \<Rightarrow> string \<Rightarrow> string \<Rightarrow> files \<Rightarrow> failure + bool" where
  "matchesOnDisk io sha256 target contentHash fs =
     (case oget fs target of
        None \<Rightarrow> Inr False
      | Some existing \<Rightarrow>
          (case io ReadFile target of
             Some code \<Rightarrow> Inl (io_failure code)
           | None \<Rightarrow> Inr (sha256 existing = contentHash)))"

definition writeNode ::
  "io_faults \<Rightarrow> string \<Rightarrow> nat \<Rightarrow> (string \<Rightarrow> string) \<Rightarrow> string \<Rightarrow> string \<Rightarrow> string \<Rightarrow> string \<Rightarrow> files
   \<Rightarrow> (failure + bool) \<times> files list" where
  "writeNode io uuid written sha256 dir0 certname yaml contentHash fs =
     (case assertSafeCertname certname of
        Inl e \<Rightarrow> (Inl e, [fs])
      | Inr _ \<Rightarrow>
          let target = nodeFile dir0 certname
          in (case matchesOnDisk io sha256 target contentHash fs of
                Inl e \<Rightarrow> (Inl e, [fs])
              | Inr True \<Rightarrow> (Inr False, [fs])
              | Inr False \<Rightarrow>
                  (case atomicWrite io uuid written (nodesDir dir0) target yaml fs of
                     (Inl e, states) \<Rightarrow> (Inl e, states)
                   | (Inr _, states) \<Rightarrow> (Inr True, states))))"

definition removeNode :: "io_faults \<Rightarrow> string \<Rightarrow> string \<Rightarrow> files \<Rightarrow> (failure + unit) \<times> files" where
  "removeNode io dir0 certname fs =
     (case assertSafeCertname certname of
        Inl e \<Rightarrow> (Inl e, fs)
      | Inr _ \<Rightarrow>
          (case io Remove (nodeFile dir0 certname) of
             Some code \<Rightarrow> (Inl (io_failure code), fs)
           | None \<Rightarrow> (Inr (), drop_file (nodeFile dir0 certname) fs)))"

definition writeDefault ::
  "io_faults \<Rightarrow> string \<Rightarrow> nat \<Rightarrow> string \<Rightarrow> string \<Rightarrow> files \<Rightarrow> (failure + unit) \<times> files list" where
  "writeDefault io uuid written dir0 yaml fs = atomicWrite io uuid written dir0 (defaultFile dir0) yaml fs"

definition writeRevision ::
  "io_faults \<Rightarrow> string \<Rightarrow> nat \<Rightarrow> string \<Rightarrow> string \<Rightarrow> files \<Rightarrow> (failure + unit) \<times> files list" where
  "writeRevision io uuid written dir0 revision fs =
     atomicWrite io uuid written dir0 (revisionFile dir0) (revision @ newline) fs"

text \<open>The names directly below a directory.\<close>

definition entries_of :: "string \<Rightarrow> files \<Rightarrow> string list" where
  "entries_of dir fs =
     map (\<lambda>(p, _). drop (length dir + 1) p)
       (filter (\<lambda>(p, _). starts_with p (dir @ ''/'') \<and> CHR ''/'' \<notin> set (drop (length dir + 1) p)) fs)"

definition listMaterializedCertnames :: "io_faults \<Rightarrow> string \<Rightarrow> files \<Rightarrow> failure + string list" where
  "listMaterializedCertnames io dir0 fs =
     (case io ReadDir (nodesDir dir0) of
        Some code \<Rightarrow> Inl (io_failure code)
      | None \<Rightarrow> Inr (map (\<lambda>e. take (length e - length ''.yaml'') e)
                      (filter (\<lambda>e. ends_with e ''.yaml'') (entries_of (nodesDir dir0) fs))))"

text \<open>\<open>EncDocumentReader\<close>.\<close>

definition readIfPresent :: "io_faults \<Rightarrow> string \<Rightarrow> files \<Rightarrow> failure + string option" where
  "readIfPresent io path fs =
     (case oget fs path of
        None \<Rightarrow> Inr None
      | Some contents \<Rightarrow>
          (case io ReadFile path of Some code \<Rightarrow> Inl (io_failure code) | None \<Rightarrow> Inr (Some contents)))"

definition readNode :: "io_faults \<Rightarrow> string \<Rightarrow> string \<Rightarrow> files \<Rightarrow> failure + string option" where
  "readNode io dir0 certname fs =
     (case assertSafeCertname certname of
        Inl _ \<Rightarrow> Inr None
      | Inr _ \<Rightarrow> readIfPresent io (nodeFile dir0 certname) fs)"

definition readDefault :: "io_faults \<Rightarrow> string \<Rightarrow> files \<Rightarrow> failure + string option" where
  "readDefault io dir0 fs = readIfPresent io (defaultFile dir0) fs"

definition readRevision :: "io_faults \<Rightarrow> string \<Rightarrow> files \<Rightarrow> failure + string option" where
  "readRevision io dir0 fs =
     (case readIfPresent io (revisionFile dir0) fs of
        Inl e \<Rightarrow> Inl e
      | Inr None \<Rightarrow> Inr None
      | Inr (Some raw) \<Rightarrow> if js_trim raw = [] then Inr None else Inr (Some (js_trim raw)))"

section \<open>The contract\<close>

text \<open>The operations of \<open>IEncFileWriter\<close> the materializer calls, over any state.\<close>

record 'fs enc_writer =
  w_writeNode :: "string \<Rightarrow> string \<Rightarrow> string \<Rightarrow> 'fs \<Rightarrow> (failure + bool) \<times> 'fs"
  w_removeNode :: "string \<Rightarrow> 'fs \<Rightarrow> (failure + unit) \<times> 'fs"
  w_list :: "'fs \<Rightarrow> failure + string list"

text \<open>
  What an implementation promises, in terms of the document \<open>served\<close> to a node: a write that
  reports a change serves the new text; one that reports none leaves the state alone and serves a
  text with the given hash; a failed call serves what was served before; no call touches another
  node; a removed node is served nothing of its own; every node that is served is listed.
\<close>

locale enc_storage =
  fixes W :: "'fs enc_writer"
    and served :: "'fs \<Rightarrow> string \<Rightarrow> string option"
    and sha256 :: "string \<Rightarrow> string"
  assumes write_changed: "w_writeNode W c y h fs = (Inr True, fs') \<Longrightarrow> served fs' c = Some y"
    and write_same: "w_writeNode W c y h fs = (Inr False, fs') \<Longrightarrow>
      fs' = fs \<and> (\<exists>y'. served fs c = Some y' \<and> sha256 y' = h)"
    and write_failed: "w_writeNode W c y h fs = (Inl e, fs') \<Longrightarrow> served fs' c' = served fs c'"
    and write_frame: "w_writeNode W c y h fs = (r, fs') \<Longrightarrow> c' \<noteq> c \<Longrightarrow> served fs' c' = served fs c'"
    and remove_ok: "w_removeNode W c fs = (Inr u, fs') \<Longrightarrow> served fs' c = None"
    and remove_failed: "w_removeNode W c fs = (Inl e, fs') \<Longrightarrow> fs' = fs"
    and remove_frame: "w_removeNode W c fs = (q, fs') \<Longrightarrow> c' \<noteq> c \<Longrightarrow> served fs' c' = served fs c'"
    and list_complete: "w_list W fs = Inr cs \<Longrightarrow> served fs c \<noteq> None \<Longrightarrow> c \<in> set cs"
begin

text \<open>After a successful write the node is served a text with the hash it was written under.\<close>

lemma write_ok_hash:
  assumes "w_writeNode W c y (sha256 y) fs = (Inr ch, fs')"
  shows "\<exists>y'. served fs' c = Some y' \<and> sha256 y' = sha256 y"
proof (cases ch)
  case True
  with assms have "w_writeNode W c y (sha256 y) fs = (Inr True, fs')" by simp
  from write_changed [OF this] show ?thesis by blast
next
  case False
  with assms have "w_writeNode W c y (sha256 y) fs = (Inr False, fs')" by simp
  from write_same [OF this] show ?thesis by blast
qed

lemma write_ok_text:
  assumes "w_writeNode W c y (sha256 y) fs = (Inr ch, fs')" "\<forall>y'. sha256 y' = sha256 y \<longrightarrow> y' = y"
  shows "served fs' c = Some y"
  using write_ok_hash [OF assms(1)] assms(2) by blast

end

definition posix_writer ::
  "io_faults \<Rightarrow> string \<Rightarrow> nat \<Rightarrow> (string \<Rightarrow> string) \<Rightarrow> string \<Rightarrow> files enc_writer" where
  "posix_writer io uuid written sha256 dir0 =
     \<lparr> w_writeNode = (\<lambda>c y h fs. case writeNode io uuid written sha256 dir0 c y h fs of
                        (r, states) \<Rightarrow> (r, last states)),
       w_removeNode = removeNode io dir0,
       w_list = listMaterializedCertnames io dir0 \<rparr>"

definition posix_served :: "string \<Rightarrow> files \<Rightarrow> string \<Rightarrow> string option" where
  "posix_served dir0 fs certname =
     (case assertSafeCertname certname of Inl _ \<Rightarrow> None | Inr _ \<Rightarrow> oget fs (nodeFile dir0 certname))"

lemma nodeFile_inj [simp]: "nodeFile dir0 a = nodeFile dir0 b \<longleftrightarrow> a = b"
  by (simp add: nodeFile_def)

lemma tmp_not_yaml [simp]:
  "tmpFile dir uuid \<noteq> nodeFile dir0 c" "nodeFile dir0 c \<noteq> tmpFile dir uuid"
proof -
  have "last (tmpFile dir uuid) \<noteq> last (nodeFile dir0 c)"
    by (simp add: tmpFile_def nodeFile_def)
  then show "tmpFile dir uuid \<noteq> nodeFile dir0 c" "nodeFile dir0 c \<noteq> tmpFile dir uuid" by auto
qed

lemma oget_drop_file [simp]: "oget (drop_file p fs) q = (if q = p then None else oget fs q)"
  by (induction fs) (auto simp: drop_file_def)

lemma oget_put_file [simp]: "oget (put_file p contents fs) q = (if q = p then Some contents else oget fs q)"
  using oget_drop_file [of p fs q] by (simp add: put_file_def drop_file_def)

lemma atomicWrite_ok:
  assumes "atomicWrite io uuid written dir target contents fs = (Inr u, states)" "target \<noteq> tmpFile dir uuid"
  shows "oget (last states) q = (if q = target then Some contents else if q = tmpFile dir uuid then None else oget fs q)"
  using assms by (auto simp: atomicWrite_def Let_def split: option.splits)

lemma atomicWrite_failed:
  assumes "atomicWrite io uuid written dir target contents fs = (Inl e, states)" "q \<noteq> tmpFile dir uuid"
  shows "oget (last states) q = oget fs q"
  using assms by (auto simp: atomicWrite_def Let_def cleanup_tmp_def split: option.splits)

lemma atomicWrite_states:
  assumes "atomicWrite io uuid written dir target contents fs = (r, states)" "s \<in> set states" "q \<noteq> tmpFile dir uuid"
  shows "oget s q = oget fs q \<or> q = target \<and> oget s q = Some contents"
  using assms by (auto simp: atomicWrite_def Let_def cleanup_tmp_def split: option.splits if_splits)

lemma assertSafe_cases: "assertSafeCertname c = Inr u \<or> (\<exists>e. assertSafeCertname c = Inl e)"
  by (cases "assertSafeCertname c") auto

lemma writeNode_True:
  assumes "writeNode io uuid written sha256 dir0 c y h fs = (Inr True, states)"
  shows "posix_served dir0 (last states) c = Some y"
  using assms
  by (auto simp: writeNode_def posix_served_def Let_def atomicWrite_ok split: sum.splits bool.splits prod.splits)

lemma writeNode_False:
  assumes "writeNode io uuid written sha256 dir0 c y h fs = (Inr False, states)"
  shows "states = [fs] \<and> (\<exists>y'. posix_served dir0 fs c = Some y' \<and> sha256 y' = h)"
  using assms
  by (auto simp: writeNode_def posix_served_def Let_def matchesOnDisk_def
      split: sum.splits bool.splits prod.splits option.splits)

lemma writeNode_states:
  assumes "writeNode io uuid written sha256 dir0 c y h fs = (r, states)" "s \<in> set states"
  shows "posix_served dir0 s c' = posix_served dir0 fs c' \<or> c' = c \<and> posix_served dir0 s c' = Some y"
  using assms atomicWrite_states [of io uuid written "nodesDir dir0" "nodeFile dir0 c" y fs _ states s "nodeFile dir0 c'"]
  by (auto simp: writeNode_def posix_served_def Let_def split: sum.splits bool.splits prod.splits)

lemma writeNode_nonempty: "writeNode io uuid written sha256 dir0 c y h fs = (r, states) \<Longrightarrow> states \<noteq> []"
  by (auto simp: writeNode_def atomicWrite_def Let_def split: sum.splits bool.splits prod.splits option.splits)

lemma writeNode_failed:
  assumes "writeNode io uuid written sha256 dir0 c y h fs = (Inl e, states)"
  shows "posix_served dir0 (last states) c' = posix_served dir0 fs c'"
  using assms atomicWrite_failed [of io uuid written "nodesDir dir0" "nodeFile dir0 c" y fs e states "nodeFile dir0 c'"]
  by (auto simp: writeNode_def posix_served_def Let_def split: sum.splits bool.splits prod.splits)

lemma safe_no_slash: "assertSafeCertname c = Inr u \<Longrightarrow> CHR ''/'' \<notin> set c"
proof -
  assume "assertSafeCertname c = Inr u"
  then have safe: "SAFE_CERTNAME c" by (auto simp: assertSafeCertname_def split: if_splits)
  have alnum: "is_alnum x \<Longrightarrow> x \<noteq> CHR ''/''" for x
    by (auto simp: is_alnum_def is_lower_def is_digit_def)
  have middle: "safe_middle x \<Longrightarrow> x \<noteq> CHR ''/''" for x
    using alnum by (auto simp: safe_middle_def)
  obtain a r where c: "c = a # r" using safe by (cases c) (auto simp: SAFE_CERTNAME_def)
  show ?thesis
  proof (cases "r = []")
    case True
    with safe c alnum show ?thesis by (auto simp: SAFE_CERTNAME_def)
  next
    case False
    then obtain m z where r: "r = m @ [z]" by (cases r rule: rev_cases) auto
    from safe c r have "is_alnum a" "is_alnum z" "list_all safe_middle m"
      by (auto simp: SAFE_CERTNAME_def)
    with c r alnum middle show ?thesis by (auto simp: list_all_iff)
  qed
qed

lemma list_has_node:
  assumes "listMaterializedCertnames io dir0 fs = Inr cs" "posix_served dir0 fs c \<noteq> None"
  shows "c \<in> set cs"
proof -
  from assms(2) obtain u y where safe: "assertSafeCertname c = Inr u" and y: "(nodeFile dir0 c, y) \<in> set fs"
    by (auto simp: posix_served_def split: sum.splits dest: map_of_SomeD)
  let ?e = "c @ ''.yaml''"
  have "drop (length (nodesDir dir0) + 1) (nodeFile dir0 c) = ?e" by (simp add: nodeFile_def)
  moreover have "starts_with (nodeFile dir0 c) (nodesDir dir0 @ ''/'')" by (simp add: starts_with_def nodeFile_def)
  ultimately have "?e \<in> set (entries_of (nodesDir dir0) fs)"
    using y safe_no_slash [OF safe] by (force simp: entries_of_def)
  moreover have "ends_with ?e ''.yaml''" by (simp add: ends_with_def)
  ultimately have "take (length ?e - length ''.yaml'') ?e \<in>
      set (map (\<lambda>e. take (length e - length ''.yaml'') e) (filter (\<lambda>e. ends_with e ''.yaml'') (entries_of (nodesDir dir0) fs)))"
    unfolding set_map set_filter by blast
  moreover have "take (length ?e - length ''.yaml'') ?e = c" by simp
  moreover have "cs = map (\<lambda>e. take (length e - length ''.yaml'') e)
      (filter (\<lambda>e. ends_with e ''.yaml'') (entries_of (nodesDir dir0) fs))"
    using assms(1) unfolding listMaterializedCertnames_def by (simp split: option.splits)
  ultimately show ?thesis by metis
qed

interpretation posix: enc_storage "posix_writer io uuid written sha256 dir0" "posix_served dir0" sha256
  for io uuid written sha256 dir0
proof
  fix c y h fs fs' e c' u cs and r :: "failure + bool" and q :: "failure + unit"
  show "w_writeNode (posix_writer io uuid written sha256 dir0) c y h fs = (Inr True, fs') \<Longrightarrow> posix_served dir0 fs' c = Some y"
    by (auto simp: posix_writer_def dest: writeNode_True split: prod.splits)
  show "w_writeNode (posix_writer io uuid written sha256 dir0) c y h fs = (Inr False, fs') \<Longrightarrow>
      fs' = fs \<and> (\<exists>y'. posix_served dir0 fs c = Some y' \<and> sha256 y' = h)"
    by (auto simp: posix_writer_def dest: writeNode_False split: prod.splits)
  show "w_writeNode (posix_writer io uuid written sha256 dir0) c y h fs = (Inl e, fs') \<Longrightarrow>
      posix_served dir0 fs' c' = posix_served dir0 fs c'"
    by (auto simp: posix_writer_def dest: writeNode_failed split: prod.splits)
  show "posix_served dir0 fs' c' = posix_served dir0 fs c'"
    if w: "w_writeNode (posix_writer io uuid written sha256 dir0) c y h fs = (r, fs')" and "c' \<noteq> c"
  proof -
    from w obtain states where "writeNode io uuid written sha256 dir0 c y h fs = (r, states)" "fs' = last states"
      by (auto simp: posix_writer_def split: prod.splits)
    with writeNode_states [OF this(1), of fs' c'] writeNode_nonempty [OF this(1)] that(2) show ?thesis by auto
  qed
  show "w_removeNode (posix_writer io uuid written sha256 dir0) c fs = (Inr u, fs') \<Longrightarrow> posix_served dir0 fs' c = None"
    by (auto simp: posix_writer_def removeNode_def posix_served_def split: sum.splits option.splits)
  show "w_removeNode (posix_writer io uuid written sha256 dir0) c fs = (Inl e, fs') \<Longrightarrow> fs' = fs"
    by (auto simp: posix_writer_def removeNode_def split: sum.splits option.splits)
  show "w_removeNode (posix_writer io uuid written sha256 dir0) c fs = (q, fs') \<Longrightarrow> c' \<noteq> c \<Longrightarrow>
      posix_served dir0 fs' c' = posix_served dir0 fs c'"
    by (auto simp: posix_writer_def removeNode_def posix_served_def split: sum.splits option.splits)
  show "w_list (posix_writer io uuid written sha256 dir0) fs = Inr cs \<Longrightarrow> posix_served dir0 fs c \<noteq> None \<Longrightarrow> c \<in> set cs"
    by (auto simp: posix_writer_def intro: list_has_node)
qed

section \<open>Properties\<close>

lemma tmp_other [simp]: "tmpFile dir uuid \<noteq> dir0 @ ''/default.yaml''" "tmpFile dir uuid \<noteq> dir0 @ ''/.revision''"
proof -
  have "last (tmpFile dir uuid) = CHR ''p''" "last (dir0 @ ''/default.yaml'') = CHR ''l''"
    "last (dir0 @ ''/.revision'') = CHR ''n''"
    by (simp_all add: tmpFile_def)
  then show "tmpFile dir uuid \<noteq> dir0 @ ''/default.yaml''" "tmpFile dir uuid \<noteq> dir0 @ ''/.revision''"
    by auto
qed

text \<open>
  C27. Writes to the ENC tree are atomic for every concurrent reader. In each state a reader can
  observe during \<open>writeNode\<close>, every node is served either the document it had or, for the node
  being written, the complete new one; whatever system call fails, the state left behind serves
  what was served before; a certname that is not safe touches nothing.
\<close>

theorem writeNode_atomic:
  assumes "writeNode io uuid written sha256 dir0 c y h fs = (r, states)" "s \<in> set states"
  shows "(posix_served dir0 s c' = posix_served dir0 fs c' \<or> c' = c \<and> posix_served dir0 s c' = Some y)
    \<and> (r = Inl e \<longrightarrow> posix_served dir0 (last states) c' = posix_served dir0 fs c')
    \<and> (assertSafeCertname c = Inl e \<longrightarrow> r = Inl e \<and> s = fs)"
proof (intro conjI impI)
  show "posix_served dir0 s c' = posix_served dir0 fs c' \<or> c' = c \<and> posix_served dir0 s c' = Some y"
    using assms by (rule writeNode_states)
  show "posix_served dir0 (last states) c' = posix_served dir0 fs c'" if "r = Inl e"
    using assms(1) that writeNode_failed by blast
  show "r = Inl e" "s = fs" if "assertSafeCertname c = Inl e"
    using assms that by (auto simp: writeNode_def)
qed

definition demo_faults :: io_faults where
  "demo_faults call path = (if call = Rename then Some ''ENOSPC'' else None)"

theorem writeNode_atomic_witness:
  "posix_served ''/enc'' (last (snd (writeNode demo_faults ''u'' 3 (\<lambda>t. t) ''/enc'' ''web01'' ''new'' ''new''
      [(''/enc/nodes/web01.yaml'', ''old'')]))) ''web01'' = Some ''old''"
proof -
  let ?fs = "[(''/enc/nodes/web01.yaml'', ''old'')]"
  let ?w = "writeNode demo_faults ''u'' 3 (\<lambda>t. t) ''/enc'' ''web01'' ''new'' ''new'' ?fs"
  obtain e states where w: "?w = (Inl e, states)" and "last states \<in> set states"
  proof -
    have "isl (fst ?w)" "snd ?w \<noteq> []" by code_simp+
    then show ?thesis by (intro that [of "projl (fst ?w)" "snd ?w"]) (auto simp: prod_eq_iff)
  qed
  from writeNode_atomic [OF this, of "''web01''" e]
  have "posix_served ''/enc'' (last states) ''web01'' = posix_served ''/enc'' ?fs ''web01''" by simp
  moreover have "posix_served ''/enc'' ?fs ''web01'' = Some ''old''" by code_simp
  ultimately show ?thesis by (simp only: w snd_conv)
qed

text \<open>
  A successful \<open>writeNode\<close> under the hash of its text is what the reader then returns, when
  no other text has that hash; it reports a change exactly when the node was served something
  else before, and no other node's document moves.
\<close>

theorem writeNode_read_back:
  assumes "writeNode io uuid written sha256 dir0 c y (sha256 y) fs = (Inr changed, states)"
    and "\<forall>y'. sha256 y' = sha256 y \<longrightarrow> y' = y"
    and "\<forall>p. io ReadFile p = None"
  shows "readNode io dir0 c (last states) = Inr (Some y)
    \<and> changed = (posix_served dir0 fs c \<noteq> Some y)
    \<and> (c' \<noteq> c \<longrightarrow> posix_served dir0 (last states) c' = posix_served dir0 fs c')"
proof (intro conjI impI)
  have w: "w_writeNode (posix_writer io uuid written sha256 dir0) c y (sha256 y) fs = (Inr changed, last states)"
    using assms(1) by (simp add: posix_writer_def)
  have served: "posix_served dir0 (last states) c = Some y"
    using posix.write_ok_text [OF w assms(2)] .
  have read: "readNode io dir0 c fs' = Inr (posix_served dir0 fs' c)" for fs'
    using assms(3) by (auto simp: readNode_def posix_served_def readIfPresent_def split: sum.splits option.splits)
  show "readNode io dir0 c (last states) = Inr (Some y)" by (simp only: read served)
  show "changed = (posix_served dir0 fs c \<noteq> Some y)"
  proof (cases changed)
    case False
    then show ?thesis using writeNode_False [of io uuid written sha256 dir0 c y "sha256 y" fs states] assms served by auto
  next
    case True
    have "posix_served dir0 fs c \<noteq> Some y"
    proof
      assume "posix_served dir0 fs c = Some y"
      then have "assertSafeCertname c = Inr ()" "oget fs (nodeFile dir0 c) = Some y"
        by (auto simp: posix_served_def split: sum.splits)
      then have "writeNode io uuid written sha256 dir0 c y (sha256 y) fs = (Inr False, [fs])"
        using assms(3) by (simp add: writeNode_def matchesOnDisk_def Let_def)
      with assms(1) True show False by simp
    qed
    with True show ?thesis by simp
  qed
  show "posix_served dir0 (last states) c' = posix_served dir0 fs c'" if "c' \<noteq> c"
    using posix.write_frame [OF w that] .
qed

theorem writeNode_read_back_witness:
  "readNode (\<lambda>_ _. None) ''/enc'' ''web01''
     (last (snd (writeNode (\<lambda>_ _. None) ''u'' 0 (\<lambda>t. t) ''/enc'' ''web01'' ''new'' ''new''
        [(''/enc/nodes/web01.yaml'', ''old'')]))) = Inr (Some ''new'')"
proof -
  let ?w = "writeNode (\<lambda>_ _. None) ''u'' 0 (\<lambda>t. t) ''/enc'' ''web01'' ''new'' ''new'' [(''/enc/nodes/web01.yaml'', ''old'')]"
  have "fst ?w = Inr True" by code_simp
  then have w: "?w = (Inr True, snd ?w)" by (simp add: prod_eq_iff)
  from writeNode_read_back [OF w] show ?thesis by simp
qed

end
