(* ===== verification/Materialization.thy ===== *)
theory Materialization
  imports EncStorage
begin

text \<open>
  \<open>apps/api/src/materialization/materialization.service.ts\<close> (the outbox),
  \<open>materializer.service.ts\<close> (its drain) and the sweep of \<open>reconciler.service.ts\<close>.
  The state is the database and the ENC tree. A method that throws returns \<open>Inl\<close> with the error
  and the state it leaves behind. The tree is written through the \<open>IEncFileWriter\<close> contract
  (\<open>enc_writer\<close>); what is proved about it rests on the locale \<open>enc_storage\<close>. \<open>now\<close> is the value
  of \<open>Date.now()\<close> and of the database clock during one call.
\<close>

section \<open>Enqueueing\<close>

definition upsert_job :: "string \<Rightarrow> (nat \<Rightarrow> job_row) \<Rightarrow> (job_row \<Rightarrow> job_row) \<Rightarrow> db \<Rightarrow> db" where
  "upsert_job dedupeKey new upd db =
     db \<lparr> db_jobs := upsert (\<lambda>j. j_dedupeKey j = dedupeKey) (new (db_nextJobId db)) upd (db_jobs db),
          db_nextJobId := Suc (db_nextJobId db) \<rparr>"

text \<open>A created row has the defaults of the schema for every column the code does not set.\<close>

definition default_job :: "int \<Rightarrow> string \<Rightarrow> string option \<Rightarrow> string \<Rightarrow> nat \<Rightarrow> job_row" where
  "default_job now dedupeKey certname reason i =
     \<lparr> j_id = i, j_certname = certname, j_kind = MATERIALIZE, j_dedupeKey = dedupeKey, j_reason = reason,
       j_status = PENDING, j_attempts = 0, j_lastError = None, j_nextAttemptAt = now, j_cursor = None,
       j_createdAt = now \<rparr>"

definition requeue :: "int \<Rightarrow> string \<Rightarrow> job_row \<Rightarrow> job_row" where
  "requeue now reason j = j \<lparr> j_status := PENDING, j_nextAttemptAt := now, j_reason := reason \<rparr>"

definition node_key :: "string \<Rightarrow> string" where
  "node_key certname = ''node:'' @ certname"

definition delete_key :: "string \<Rightarrow> string" where
  "delete_key certname = ''delete:'' @ certname"

definition full_key :: string where
  "full_key = ''full-reconcile''"

definition enqueueNode :: "int \<Rightarrow> string \<Rightarrow> string \<Rightarrow> db \<Rightarrow> db" where
  "enqueueNode now certname reason db =
     upsert_job (node_key certname) (default_job now (node_key certname) (Some certname) reason)
       (requeue now reason) db"

definition enqueueNodeDeletion :: "int \<Rightarrow> string \<Rightarrow> string \<Rightarrow> db \<Rightarrow> db" where
  "enqueueNodeDeletion now certname reason db =
     upsert_job (delete_key certname)
       (\<lambda>i. (default_job now (delete_key certname) (Some certname) reason i) \<lparr> j_kind := DELETE \<rparr>)
       (requeue now reason) db"

definition enqueueNodeDeletions :: "int \<Rightarrow> string list \<Rightarrow> string \<Rightarrow> db \<Rightarrow> db" where
  "enqueueNodeDeletions now certnames reason db =
     foldl (\<lambda>db certname. enqueueNodeDeletion now certname reason db) db certnames"

definition enqueueNodes :: "int \<Rightarrow> string list \<Rightarrow> string \<Rightarrow> db \<Rightarrow> db" where
  "enqueueNodes now certnames reason db =
     foldl (\<lambda>db certname. enqueueNode now certname reason db) db certnames"

definition enqueueFullReconcile :: "int \<Rightarrow> string \<Rightarrow> db \<Rightarrow> db" where
  "enqueueFullReconcile now reason db =
     upsert_job full_key (default_job now full_key None reason) (requeue now reason) db"

definition enqueueForGroup :: "int \<Rightarrow> string \<Rightarrow> string \<Rightarrow> db \<Rightarrow> db" where
  "enqueueForGroup now groupId reason db =
     (let pins = filter (\<lambda>p. pin_groupId p = groupId) (db_pins db);
          materialized = filter (\<lambda>m. groupId \<in> set (em_appliedGroupIds m)) (db_materializations db);
          affected = uniq (map pin_certname pins @ map em_certname materialized)
      in case find_unique (\<lambda>g. g_id g = groupId) (db_groups db) of
           Some g \<Rightarrow> if g_strategy g \<noteq> PINNED then enqueueFullReconcile now reason db
                     else enqueueNodes now affected reason db
         | None \<Rightarrow> enqueueNodes now affected reason db)"

section \<open>Loading the classification\<close>

record group_set =
  gs_evaluable :: "evaluable_group list"
  gs_mergeableById :: "(string \<times> mergeable_group) list"

definition to_evaluable :: "db \<Rightarrow> group_row \<Rightarrow> evaluable_group" where
  "to_evaluable db g =
     \<lparr> eg_id = g_id g, eg_name = g_name g, eg_rank = g_rank g, eg_strategy = g_strategy g,
       eg_isEnabled = g_isEnabled g,
       eg_rules = map (\<lambda>r. \<lparr> factPath = ru_factPath r, operator = ru_operator r,
                             rule_value = (if ru_value r = JNull then None else Some (ru_value r)) \<rparr>)
                    (filter (\<lambda>r. ru_groupId r = g_id g) (db_rules db)),
       eg_pinnedCertnames = map pin_certname (filter (\<lambda>p. pin_groupId p = g_id g) (db_pins db)) \<rparr>"

definition to_mergeable :: "db \<Rightarrow> group_row \<Rightarrow> mergeable_group" where
  "to_mergeable db g =
     \<lparr> mg_id = g_id g, mg_name = g_name g, mg_environment = g_environment g,
       mg_classes = from_entries (map (\<lambda>c. (cl_className c, cl_params c))
                      (filter (\<lambda>c. cl_groupId c = g_id g) (db_classes db))),
       mg_parameters = from_entries (map (\<lambda>p. (pa_key p, pa_value p))
                      (filter (\<lambda>p. pa_groupId p = g_id g) (db_parameters db))) \<rparr>"

definition loadGroups :: "bool \<Rightarrow> db \<Rightarrow> group_set" where
  "loadGroups includeDisabled db =
     (let rows = (if includeDisabled then db_groups db else filter g_isEnabled (db_groups db))
      in \<lparr> gs_evaluable = map (to_evaluable db) rows,
           gs_mergeableById = map (\<lambda>g. (g_id g, to_mergeable db g)) rows \<rparr>)"

section \<open>Materializing\<close>

record mat_config =
  mc_runtime :: runtime
  mc_maxAttempts :: nat
  mc_defaultEnvironment :: string
  mc_batchSize :: nat
  mc_reconcileChunkSize :: nat

record materialization_outcome =
  mo_certname :: string
  mo_changed :: bool
  mo_contentHash :: string
  mo_conflicts :: "classification_conflict list"
  mo_appliedGroupIds :: "string list"

definition node_facts :: "db \<Rightarrow> string \<Rightarrow> jsval obj" where
  "node_facts db certname =
     (case find_unique (\<lambda>n. n_certname n = certname) (db_nodes db) of None \<Rightarrow> [] | Some n \<Rightarrow> n_facts n)"

definition mergeables :: "group_set \<Rightarrow> evaluable_group list \<Rightarrow> mergeable_group list" where
  "mergeables groups matched =
     map the (filter (\<lambda>m. m \<noteq> None) (map (\<lambda>g. map_of (gs_mergeableById groups) (eg_id g)) matched))"

definition record_materialization ::
  "int \<Rightarrow> string \<Rightarrow> bool \<Rightarrow> rendered_enc \<Rightarrow> merge_result \<Rightarrow> group_match_explanation list \<Rightarrow> db \<Rightarrow> db" where
  "record_materialization now certname changed rendered merged reasons db =
     (let existing = find_unique (\<lambda>m. em_certname m = certname) (db_materializations db);
          revision = (case existing of None \<Rightarrow> 1
                      | Some e \<Rightarrow> if changed then em_revision e + 1 else em_revision e)
      in if find_unique (\<lambda>n. n_certname n = certname) (db_nodes db) = None then db
         else db \<lparr> db_materializations := upsert (\<lambda>m. em_certname m = certname)
                \<lparr> em_certname = certname, em_contentHash = re_contentHash rendered, em_revision = revision,
                  em_relativePath = ''nodes/'' @ certname @ ''.yaml'',
                  em_appliedGroupIds = mr_appliedGroupIds merged, em_conflicts = mr_conflicts merged,
                  em_attribution = Some (mr_attribution merged), em_matchReasons = reasons,
                  em_writtenAt = now \<rparr>
                (\<lambda>m. m \<lparr> em_contentHash := re_contentHash rendered, em_revision := revision,
                         em_appliedGroupIds := mr_appliedGroupIds merged,
                         em_conflicts := mr_conflicts merged,
                         em_attribution := Some (mr_attribution merged), em_matchReasons := reasons,
                         em_writtenAt := (if changed then now else em_writtenAt m) \<rparr>)
                (db_materializations db) \<rparr>)"

definition materializeNode ::
  "mat_config \<Rightarrow> 'fs enc_writer \<Rightarrow> int \<Rightarrow> group_set \<Rightarrow> string \<Rightarrow> db \<times> 'fs
   \<Rightarrow> (failure + materialization_outcome) \<times> db \<times> 'fs" where
  "materializeNode cfg W now groups certname w =
     (let (db, fs) = w; rt = mc_runtime cfg;
          node = \<lparr> en_certname = certname, en_facts = node_facts db certname \<rparr>;
          matched = matchGroups (rt_regexp rt) (rt_localeCompare rt) node (gs_evaluable groups);
          matchReasons = map (explainMatch (rt_regexp rt) node) matched
      in case merge_and_render rt (mergeables groups matched) of
           Inl e \<Rightarrow> (Inl e, db, fs)
         | Inr (merged, rendered) \<Rightarrow>
             (case w_writeNode W certname (re_yaml rendered) (re_contentHash rendered) fs of
                (Inl e, fs') \<Rightarrow> (Inl e, db, fs')
              | (Inr changed, fs') \<Rightarrow>
                  (Inr \<lparr> mo_certname = certname, mo_changed = changed,
                         mo_contentHash = re_contentHash rendered, mo_conflicts = mr_conflicts merged,
                         mo_appliedGroupIds = mr_appliedGroupIds merged \<rparr>,
                   record_materialization now certname changed rendered merged matchReasons db, fs')))"

definition deleteNode ::
  "'fs enc_writer \<Rightarrow> string \<Rightarrow> db \<times> 'fs \<Rightarrow> (failure + materialization_outcome) \<times> db \<times> 'fs" where
  "deleteNode W certname w =
     (let (db, fs) = w
      in case w_removeNode W certname fs of
           (Inl e, fs') \<Rightarrow> (Inl e, db, fs')
         | (Inr _, fs') \<Rightarrow>
             (Inr \<lparr> mo_certname = certname, mo_changed = True, mo_contentHash = [], mo_conflicts = [],
                    mo_appliedGroupIds = [] \<rparr>,
              db \<lparr> db_materializations := delete_many (\<lambda>m. em_certname m = certname) (db_materializations db) \<rparr>,
              fs'))"

text \<open>The loop of a chunk; the first node that throws ends it.\<close>

fun materialize_each ::
  "mat_config \<Rightarrow> 'fs enc_writer \<Rightarrow> int \<Rightarrow> group_set \<Rightarrow> string list \<Rightarrow> db \<times> 'fs
   \<Rightarrow> (failure + materialization_outcome list) \<times> db \<times> 'fs" where
  "materialize_each cfg W now groups [] w = (Inr [], w)"
| "materialize_each cfg W now groups (c # cs) w =
     (case materializeNode cfg W now groups c w of
        (Inl e, w') \<Rightarrow> (Inl e, w')
      | (Inr out, w') \<Rightarrow>
          (case materialize_each cfg W now groups cs w' of
             (Inl e, w'') \<Rightarrow> (Inl e, w'')
           | (Inr outs, w'') \<Rightarrow> (Inr (out # outs), w'')))"

definition chunk_nodes :: "nat \<Rightarrow> string option \<Rightarrow> node_row list \<Rightarrow> string list" where
  "chunk_nodes sz cursor nodes =
     take sz (sort (filter (\<lambda>c. case cursor of None \<Rightarrow> True | Some k \<Rightarrow> k < c) (map n_certname nodes)))"

definition materializeChunk ::
  "mat_config \<Rightarrow> 'fs enc_writer \<Rightarrow> int \<Rightarrow> group_set \<Rightarrow> job_row \<Rightarrow> db \<times> 'fs
   \<Rightarrow> (failure + materialization_outcome list) \<times> db \<times> 'fs" where
  "materializeChunk cfg W now groups job w =
     (let nodes = chunk_nodes (mc_reconcileChunkSize cfg) (j_cursor job) (db_nodes (fst w))
      in case materialize_each cfg W now groups nodes w of
           (Inl e, w') \<Rightarrow> (Inl e, w')
         | (Inr outcomes, db, fs) \<Rightarrow>
             if length nodes = mc_reconcileChunkSize cfg \<and> nodes \<noteq> []
             then (Inr outcomes,
                   upsert_job (j_dedupeKey job)
                     (\<lambda>i. (default_job now (j_dedupeKey job) None (j_reason job) i)
                            \<lparr> j_cursor := Some (last nodes) \<rparr>)
                     (\<lambda>j. j) db, fs)
             else (Inr outcomes, db, fs))"

definition backoffMs :: "nat \<Rightarrow> int" where
  "backoffMs attempts = min (2000 * 2 ^ (attempts - 1)) 300000"

definition recordFailure ::
  "mat_config \<Rightarrow> int \<Rightarrow> string \<Rightarrow> string option \<Rightarrow> string \<Rightarrow> nat \<Rightarrow> failure \<Rightarrow> db \<Rightarrow> db" where
  "recordFailure cfg now dedupeKey certname reason previousAttempts error db =
     (let attempts = previousAttempts + 1;
          message = f_name error @ '': '' @ f_message error;
          exhausted = attempts \<ge> mc_maxAttempts cfg
      in upsert_job dedupeKey
           (\<lambda>i. (default_job now dedupeKey certname reason i)
                  \<lparr> j_attempts := attempts, j_lastError := Some message,
                    j_status := (if exhausted then FAILED else PENDING),
                    j_nextAttemptAt := now + backoffMs attempts \<rparr>)
           (\<lambda>j. j) db)"

section \<open>Draining\<close>

record drain_result =
  dr_claimed :: nat
  dr_succeeded :: nat
  dr_failed :: nat
  dr_filesChanged :: nat
  dr_ranHere :: bool

definition claimable :: "nat \<Rightarrow> int \<Rightarrow> job_row list \<Rightarrow> job_row list" where
  "claimable sz now jobs =
     take sz (js_sort (\<lambda>a b. j_createdAt a - j_createdAt b)
       (filter (\<lambda>j. j_status j = PENDING \<and> j_nextAttemptAt j \<le> now) jobs))"

definition run_job ::
  "mat_config \<Rightarrow> 'fs enc_writer \<Rightarrow> int \<Rightarrow> group_set \<Rightarrow> job_row \<Rightarrow> db \<times> 'fs
   \<Rightarrow> (failure + materialization_outcome list) \<times> db \<times> 'fs" where
  "run_job cfg W now groups job w =
     (let single = (\<lambda>(r, w'). (case r of Inl e \<Rightarrow> (Inl e, w') | Inr out \<Rightarrow> (Inr [out], w')))
      in case j_certname job of
           None \<Rightarrow> materializeChunk cfg W now groups job w
         | Some certname \<Rightarrow>
             if j_kind job = DELETE then single (deleteNode W certname w)
             else single (materializeNode cfg W now groups certname w))"

definition drain_job ::
  "mat_config \<Rightarrow> 'fs enc_writer \<Rightarrow> int \<Rightarrow> group_set \<Rightarrow> drain_result \<times> db \<times> 'fs \<Rightarrow> job_row
   \<Rightarrow> drain_result \<times> db \<times> 'fs" where
  "drain_job cfg W now groups st job =
     (let (totals, w) = st
      in case run_job cfg W now groups job w of
           (Inr outcomes, w') \<Rightarrow>
             (totals \<lparr> dr_filesChanged := dr_filesChanged totals + length (filter mo_changed outcomes),
                       dr_succeeded := dr_succeeded totals + 1 \<rparr>, w')
         | (Inl e, db, fs) \<Rightarrow>
             (totals \<lparr> dr_failed := dr_failed totals + 1 \<rparr>,
              recordFailure cfg now (j_dedupeKey job) (j_certname job) (j_reason job) (j_attempts job) e db, fs))"

definition drainLocked ::
  "mat_config \<Rightarrow> 'fs enc_writer \<Rightarrow> int \<Rightarrow> db \<times> 'fs \<Rightarrow> drain_result \<times> db \<times> 'fs" where
  "drainLocked cfg W now w =
     (let (db, fs) = w; jobs = claimable (mc_batchSize cfg) now (db_jobs db);
          none = \<lparr> dr_claimed = 0, dr_succeeded = 0, dr_failed = 0, dr_filesChanged = 0, dr_ranHere = True \<rparr>
      in if jobs = [] then (none, db, fs)
         else
           let claimed = db \<lparr> db_jobs := delete_many (\<lambda>j. j_id j \<in> set (map j_id jobs)) (db_jobs db) \<rparr>;
               (totals, w') = foldl (drain_job cfg W now (loadGroups False claimed)) (none, claimed, fs) jobs
           in (totals \<lparr> dr_claimed := length jobs \<rparr>, w'))"

text \<open>
  \<open>drain\<close>: one lock per batch. \<open>clock i\<close> is the time at the start of iteration \<open>i\<close>, \<open>free i\<close>
  whether the advisory lock is free then. The loop of the source has no bound of its own; the
  model has fuel, and \<^const>\<open>None\<close> when it runs out.
\<close>

fun drain_loop ::
  "mat_config \<Rightarrow> 'fs enc_writer \<Rightarrow> (nat \<Rightarrow> int) \<Rightarrow> (nat \<Rightarrow> bool) \<Rightarrow> int \<Rightarrow> nat \<Rightarrow> nat
   \<Rightarrow> drain_result \<times> db \<times> 'fs \<Rightarrow> (drain_result \<times> db \<times> 'fs) option" where
  "drain_loop cfg W clock free deadline 0 i st = None"
| "drain_loop cfg W clock free deadline (Suc fuel) i (totals, w) =
     (if clock i \<ge> deadline then Some (totals, w)
      else if \<not> free i then Some (totals, w)
      else (case drainLocked cfg W (clock i) w of
              (batch, w') \<Rightarrow>
                let totals' = totals \<lparr> dr_ranHere := True,
                      dr_claimed := dr_claimed totals + dr_claimed batch,
                      dr_succeeded := dr_succeeded totals + dr_succeeded batch,
                      dr_failed := dr_failed totals + dr_failed batch,
                      dr_filesChanged := dr_filesChanged totals + dr_filesChanged batch \<rparr>
                in if dr_claimed batch = 0 then Some (totals', w')
                   else drain_loop cfg W clock free deadline fuel (Suc i) (totals', w')))"

definition drain ::
  "mat_config \<Rightarrow> 'fs enc_writer \<Rightarrow> (nat \<Rightarrow> int) \<Rightarrow> (nat \<Rightarrow> bool) \<Rightarrow> int \<Rightarrow> nat \<Rightarrow> db \<times> 'fs
   \<Rightarrow> (drain_result \<times> db \<times> 'fs) option" where
  "drain cfg W clock free maxDrainMs fuel w =
     drain_loop cfg W clock free (clock 0 + maxDrainMs) fuel 0
       (\<lparr> dr_claimed = 0, dr_succeeded = 0, dr_failed = 0, dr_filesChanged = 0, dr_ranHere = False \<rparr>, w)"

section \<open>The reconciler\<close>

text \<open>The loop of \<open>removeOrphans\<close>: a file that cannot be removed is skipped.\<close>

fun remove_each :: "'fs enc_writer \<Rightarrow> string set \<Rightarrow> string list \<Rightarrow> nat \<Rightarrow> db \<times> 'fs \<Rightarrow> nat \<times> db \<times> 'fs" where
  "remove_each W known [] n w = (n, w)"
| "remove_each W known (c # cs) n (db, fs) =
     (if c \<in> known then remove_each W known cs n (db, fs)
      else (case w_removeNode W c fs of
              (Inl e, fs') \<Rightarrow> remove_each W known cs n (db, fs')
            | (Inr u, fs') \<Rightarrow>
                remove_each W known cs (Suc n)
                  (db \<lparr> db_materializations := delete_many (\<lambda>m. em_certname m = c) (db_materializations db) \<rparr>, fs')))"

definition removeOrphans :: "'fs enc_writer \<Rightarrow> db \<times> 'fs \<Rightarrow> (failure + nat) \<times> db \<times> 'fs" where
  "removeOrphans W w =
     (let (db, fs) = w; known = set (map n_certname (db_nodes db))
      in case w_list W fs of
           Inl e \<Rightarrow> (Inl e, db, fs)
         | Inr onDisk \<Rightarrow>
             (case remove_each W known onDisk 0 (db, fs) of (n, w') \<Rightarrow> (Inr n, w')))"

definition reconcile :: "'fs enc_writer \<Rightarrow> int \<Rightarrow> bool \<Rightarrow> string \<Rightarrow> db \<times> 'fs \<Rightarrow> (failure + nat) \<times> db \<times> 'fs" where
  "reconcile W now free reason w =
     (let (db, fs) = w
      in if \<not> free then (Inr 0, db, fs)
         else removeOrphans W
           (upsert_job full_key (default_job now full_key None (''reconcile:'' @ reason))
              (requeue now (''reconcile:'' @ reason)) db, fs))"

section \<open>Lemmas: the outbox\<close>

lemma upsert_job_sel [simp]:
  "db_nodes (upsert_job k new upd db) = db_nodes db"
  "db_materializations (upsert_job k new upd db) = db_materializations db"
  "db_groups (upsert_job k new upd db) = db_groups db"
  by (simp_all add: upsert_job_def)

lemma upsert_job_rows:
  "set (db_jobs (upsert_job k new upd db)) =
     (if \<exists>j \<in> set (db_jobs db). j_dedupeKey j = k
      then (\<lambda>j. if j_dedupeKey j = k then upd j else j) ` set (db_jobs db)
      else insert (new (db_nextJobId db)) (set (db_jobs db)))"
  by (simp add: upsert_job_def set_upsert)

lemma upsert_job_keeps:
  "set (db_jobs db) \<subseteq> set (db_jobs (upsert_job k new (\<lambda>j. j) db))"
  by (auto simp: upsert_job_rows)

lemma upsert_job_new_keys:
  "(\<And>i. j_dedupeKey (new i) = k) \<Longrightarrow>
     j_dedupeKey ` set (db_jobs (upsert_job k new (\<lambda>j. j) db)) = insert k (j_dedupeKey ` set (db_jobs db))"
  by (auto simp: upsert_job_rows image_iff)

lemma upsert_job_hit:
  "j \<in> set (db_jobs db) \<Longrightarrow> j_dedupeKey j = k \<Longrightarrow> upd j \<in> set (db_jobs (upsert_job k new upd db))"
  by (subst upsert_job_rows) auto

lemma upsert_job_other:
  "j \<in> set (db_jobs db) \<Longrightarrow> j_dedupeKey j \<noteq> k \<Longrightarrow> j \<in> set (db_jobs (upsert_job k new upd db))"
  by (subst upsert_job_rows) (auto simp: image_iff)

lemma upsert_job_miss:
  "\<forall>j \<in> set (db_jobs db). j_dedupeKey j \<noteq> k \<Longrightarrow>
     new (db_nextJobId db) \<in> set (db_jobs (upsert_job k new upd db))"
  by (subst upsert_job_rows) auto

lemma upsert_job_present:
  assumes "\<And>i. P (new i)" "\<And>j. j_dedupeKey j = k \<Longrightarrow> P (upd j)"
  shows "\<exists>j \<in> set (db_jobs (upsert_job k new upd db)). P j"
proof (cases "\<exists>j \<in> set (db_jobs db). j_dedupeKey j = k")
  case True
  with upsert_job_hit assms(2) show ?thesis by metis
next
  case False
  with upsert_job_miss [of db k new upd] assms(1) show ?thesis by blast
qed

lemma default_job_sel [simp]:
  "j_dedupeKey (default_job now k c r i) = k" "j_certname (default_job now k c r i) = c"
  "j_kind (default_job now k c r i) = MATERIALIZE" "j_status (default_job now k c r i) = PENDING"
  "j_nextAttemptAt (default_job now k c r i) = now" "j_cursor (default_job now k c r i) = None"
  "j_attempts (default_job now k c r i) = 0" "j_reason (default_job now k c r i) = r"
  "j_createdAt (default_job now k c r i) = now"
  by (simp_all add: default_job_def)

lemma requeue_sel [simp]:
  "j_dedupeKey (requeue now r j) = j_dedupeKey j" "j_status (requeue now r j) = PENDING"
  "j_nextAttemptAt (requeue now r j) = now" "j_certname (requeue now r j) = j_certname j"
  "j_kind (requeue now r j) = j_kind j" "j_cursor (requeue now r j) = j_cursor j"
  "j_attempts (requeue now r j) = j_attempts j" "j_createdAt (requeue now r j) = j_createdAt j"
  by (simp_all add: requeue_def)

text \<open>Enqueueing the same key twice leaves one row, eligible at once.\<close>

lemma enqueueNode_due:
  "\<exists>j \<in> set (db_jobs (enqueueNode now c reason db)).
     j_dedupeKey j = node_key c \<and> j_status j = PENDING \<and> j_nextAttemptAt j = now"
  unfolding enqueueNode_def by (rule upsert_job_present) simp_all

definition due :: "int \<Rightarrow> string \<Rightarrow> db \<Rightarrow> bool" where
  "due now key db \<longleftrightarrow>
     (\<exists>j \<in> set (db_jobs db). j_dedupeKey j = key \<and> j_status j = PENDING \<and> j_nextAttemptAt j \<le> now)"

lemma due_enqueueNode [simp]: "due now (node_key c) (enqueueNode now c reason db)"
  using enqueueNode_due [of now c reason db] by (force simp: due_def)

lemma due_enqueueNode_mono:
  assumes "due now key db"
  shows "due now key (enqueueNode now c reason db)"
proof (cases "key = node_key c")
  case True
  then show ?thesis by simp
next
  case False
  with assms show ?thesis unfolding due_def enqueueNode_def by (metis upsert_job_other)
qed

lemma due_enqueueNodes:
  "c \<in> set cs \<or> due now (node_key c) db \<Longrightarrow> due now (node_key c) (enqueueNodes now cs reason db)"
  unfolding enqueueNodes_def
  by (induction cs arbitrary: db) (auto simp: due_enqueueNode_mono)

lemma due_enqueueFullReconcile [simp]: "due now full_key (enqueueFullReconcile now reason db)"
  unfolding due_def enqueueFullReconcile_def by (rule upsert_job_present) simp_all

lemma enqueueNode_sel [simp]:
  "db_nodes (enqueueNode now c reason db) = db_nodes db"
  "db_materializations (enqueueNode now c reason db) = db_materializations db"
  "db_groups (enqueueNode now c reason db) = db_groups db"
  by (simp_all add: enqueueNode_def)

lemma recordFailure_rows:
  "set (db_jobs (recordFailure cfg now k c reason n e db)) =
     (if \<exists>j \<in> set (db_jobs db). j_dedupeKey j = k then set (db_jobs db)
      else insert ((default_job now k c reason (db_nextJobId db))
             \<lparr> j_attempts := Suc n, j_lastError := Some (f_name e @ '': '' @ f_message e),
               j_status := (if Suc n \<ge> mc_maxAttempts cfg then FAILED else PENDING),
               j_nextAttemptAt := now + backoffMs (Suc n) \<rparr>) (set (db_jobs db)))"
  by (simp add: recordFailure_def Let_def upsert_job_rows)

lemma recordFailure_sel [simp]:
  "db_nodes (recordFailure cfg now k c reason n e db) = db_nodes db"
  by (simp add: recordFailure_def Let_def)

lemma backoffMs_bounds: "2000 \<le> backoffMs n \<and> backoffMs n \<le> 300000"
  by (simp add: backoffMs_def)

lemma backoffMs_mono: "m \<le> n \<Longrightarrow> backoffMs m \<le> backoffMs n"
proof -
  assume "m \<le> n"
  then have "(2 :: int) ^ (m - 1) \<le> 2 ^ (n - 1)" by (intro power_increasing) auto
  then have "2000 * (2 :: int) ^ (m - 1) \<le> 2000 * 2 ^ (n - 1)" by simp
  then show ?thesis unfolding backoffMs_def by (rule min.mono) simp
qed

section \<open>Lemmas: materializing\<close>

lemma record_materialization_sel [simp]:
  "db_nodes (record_materialization now c ch rend mer rs db) = db_nodes db"
  "db_jobs (record_materialization now c ch rend mer rs db) = db_jobs db"
  "db_nextJobId (record_materialization now c ch rend mer rs db) = db_nextJobId db"
  by (simp_all add: record_materialization_def Let_def)

lemma materializeNode_frame:
  assumes "materializeNode cfg W now groups c (db, fs) = (r, db', fs')"
  shows "db_nodes db' = db_nodes db \<and> db_jobs db' = db_jobs db \<and> db_nextJobId db' = db_nextJobId db"
  using assms by (auto simp: materializeNode_def Let_def split: sum.splits prod.splits)

lemma deleteNode_frame:
  assumes "deleteNode W c (db, fs) = (r, db', fs')"
  shows "db_nodes db' = db_nodes db \<and> db_jobs db' = db_jobs db \<and> db_nextJobId db' = db_nextJobId db"
  using assms by (auto simp: deleteNode_def split: sum.splits prod.splits)

lemma materializeNode_certname:
  "materializeNode cfg W now groups c (db, fs) = (Inr out, w') \<Longrightarrow> mo_certname out = c"
  by (auto simp: materializeNode_def Let_def split: sum.splits prod.splits)

lemma materialize_each_frame:
  assumes "materialize_each cfg W now groups cs (db, fs) = (r, db', fs')"
  shows "db_nodes db' = db_nodes db \<and> db_jobs db' = db_jobs db \<and> db_nextJobId db' = db_nextJobId db"
  using assms
proof (induction cs arbitrary: db fs r)
  case Nil
  then show ?case by simp
next
  case (Cons c cs)
  obtain r1 db1 fs1 where one: "materializeNode cfg W now groups c (db, fs) = (r1, db1, fs1)"
    by (metis prod.exhaust)
  note frame = materializeNode_frame [OF one]
  show ?case
  proof (cases r1)
    case (Inl e)
    with Cons.prems one frame show ?thesis by simp
  next
    case (Inr out)
    obtain r2 where two: "materialize_each cfg W now groups cs (db1, fs1) = (r2, db', fs')"
      using Cons.prems one Inr by (auto split: prod.splits sum.splits)
    from Cons.IH [OF two] frame show ?thesis by simp
  qed
qed

lemma materialize_each_certnames:
  assumes "materialize_each cfg W now groups cs w = (Inr outs, w')"
  shows "map mo_certname outs = cs"
  using assms
proof (induction cs arbitrary: w outs)
  case Nil
  then show ?case by simp
next
  case (Cons c cs)
  obtain db fs where w: "w = (db, fs)" by (cases w)
  from Cons.prems obtain out w1 outs' where one: "materializeNode cfg W now groups c (db, fs) = (Inr out, w1)"
    and two: "materialize_each cfg W now groups cs w1 = (Inr outs', w')" and outs: "outs = out # outs'"
    by (auto simp: w split: prod.splits sum.splits)
  from materializeNode_certname [OF one] Cons.IH [OF two] show ?case by (simp add: outs)
qed

section \<open>Lemmas: the drain\<close>

text \<open>
  What a step of the drain may do to the outbox: it keeps every row, and every row it adds has
  the key of the job it ran.
\<close>

definition adds_only :: "string \<Rightarrow> db \<Rightarrow> db \<Rightarrow> bool" where
  "adds_only key db db' \<longleftrightarrow>
     set (db_jobs db) \<subseteq> set (db_jobs db') \<and>
     (\<forall>j \<in> set (db_jobs db'). j \<in> set (db_jobs db) \<or> j_dedupeKey j = key) \<and>
     db_nodes db' = db_nodes db"

lemma adds_only_upsert:
  assumes "\<And>i. j_dedupeKey (new i) = key"
  shows "adds_only key db (upsert_job key new (\<lambda>j. j) db)"
  using assms by (auto simp: adds_only_def upsert_job_rows)

lemma adds_only_same: "db_jobs db' = db_jobs db \<Longrightarrow> db_nodes db' = db_nodes db \<Longrightarrow> adds_only key db db'"
  by (simp add: adds_only_def)

lemma adds_only_trans: "adds_only key a b \<Longrightarrow> adds_only key b c \<Longrightarrow> adds_only key a c"
  by (auto simp: adds_only_def)

lemma materializeChunk_adds:
  assumes "materializeChunk cfg W now groups job (db, fs) = (r, db', fs')"
  shows "adds_only (j_dedupeKey job) db db'"
proof -
  obtain r1 db1 fs1 where each: "materialize_each cfg W now groups
      (chunk_nodes (mc_reconcileChunkSize cfg) (j_cursor job) (db_nodes db)) (db, fs) = (r1, db1, fs1)"
    by (metis prod.exhaust)
  have "adds_only (j_dedupeKey job) db db1"
    using materialize_each_frame [OF each] by (intro adds_only_same) auto
  moreover have "adds_only (j_dedupeKey job) db1 db'"
    using assms each by (auto simp: materializeChunk_def Let_def adds_only_same adds_only_upsert split: sum.splits if_splits)
  ultimately show ?thesis by (rule adds_only_trans)
qed

lemma run_job_single:
  assumes "j_certname job = Some c" "run_job cfg W now groups job (db, fs) = (r, db', fs')"
  shows "(\<exists>r. deleteNode W c (db, fs) = (r, db', fs')) \<or> (\<exists>r. materializeNode cfg W now groups c (db, fs) = (r, db', fs'))"
proof (cases "j_kind job = DELETE")
  case True
  obtain r1 w1 where "deleteNode W c (db, fs) = (r1, w1)" by (cases "deleteNode W c (db, fs)")
  with assms True show ?thesis by (cases r1) (simp_all add: run_job_def)
next
  case False
  obtain r1 w1 where "materializeNode cfg W now groups c (db, fs) = (r1, w1)"
    by (cases "materializeNode cfg W now groups c (db, fs)")
  with assms False show ?thesis by (cases r1) (simp_all add: run_job_def)
qed

lemma run_job_adds:
  assumes "run_job cfg W now groups job (db, fs) = (r, db', fs')"
  shows "adds_only (j_dedupeKey job) db db'"
proof (cases "j_certname job")
  case None
  with assms show ?thesis by (simp add: run_job_def materializeChunk_adds)
next
  case (Some c)
  from run_job_single [OF Some assms]
  have "(\<exists>r. deleteNode W c (db, fs) = (r, db', fs')) \<or> (\<exists>r. materializeNode cfg W now groups c (db, fs) = (r, db', fs'))" .
  then show ?thesis using deleteNode_frame materializeNode_frame by (metis adds_only_same)
qed

lemma recordFailure_adds: "adds_only key db (recordFailure cfg now key c reason n e db)"
  by (simp add: recordFailure_def Let_def adds_only_upsert)

lemma drain_job_adds:
  assumes "drain_job cfg W now groups (totals, db, fs) job = (totals', db', fs')"
  shows "adds_only (j_dedupeKey job) db db'"
proof -
  obtain r db1 fs1 where run: "run_job cfg W now groups job (db, fs) = (r, db1, fs1)" by (metis prod.exhaust)
  note adds = run_job_adds [OF run]
  show ?thesis
  proof (cases r)
    case (Inl e)
    with assms run have "db' = recordFailure cfg now (j_dedupeKey job) (j_certname job) (j_reason job) (j_attempts job) e db1"
      by (simp add: drain_job_def)
    with adds recordFailure_adds adds_only_trans show ?thesis by metis
  next
    case (Inr outs)
    with assms run adds show ?thesis by (simp add: drain_job_def)
  qed
qed

text \<open>The row a failed job leaves in the outbox.\<close>

definition retry_row :: "mat_config \<Rightarrow> int \<Rightarrow> job_row \<Rightarrow> failure \<Rightarrow> job_row \<Rightarrow> bool" where
  "retry_row cfg now job e r \<longleftrightarrow>
     j_dedupeKey r = j_dedupeKey job \<and> j_certname r = j_certname job \<and> j_reason r = j_reason job \<and>
     j_attempts r = Suc (j_attempts job) \<and>
     j_status r = (if Suc (j_attempts job) \<ge> mc_maxAttempts cfg then FAILED else PENDING) \<and>
     j_nextAttemptAt r = now + backoffMs (Suc (j_attempts job)) \<and>
     j_lastError r = Some (f_name e @ '': '' @ f_message e) \<and>
     j_kind r = MATERIALIZE \<and> j_cursor r = None"

text \<open>The results of the jobs of a batch, each run in the state the ones before it left.\<close>

fun batch_results ::
  "mat_config \<Rightarrow> 'fs enc_writer \<Rightarrow> int \<Rightarrow> group_set \<Rightarrow> job_row list \<Rightarrow> drain_result \<times> db \<times> 'fs
   \<Rightarrow> (failure + materialization_outcome list) list" where
  "batch_results cfg W now groups [] st = []"
| "batch_results cfg W now groups (j # js) st =
     fst (run_job cfg W now groups j (snd st)) # batch_results cfg W now groups js (drain_job cfg W now groups st j)"

lemma run_job_failed_jobs:
  assumes "run_job cfg W now groups job (db, fs) = (Inl e, db', fs')"
  shows "db_jobs db' = db_jobs db"
proof (cases "j_certname job")
  case None
  with assms show ?thesis
    by (auto simp: run_job_def materializeChunk_def Let_def dest: materialize_each_frame split: prod.splits sum.splits if_splits)
next
  case (Some c)
  from run_job_single [OF this assms] deleteNode_frame materializeNode_frame show ?thesis by metis
qed

lemma drain_job_failed:
  assumes run: "run_job cfg W now groups job (db, fs) = (Inl e, db1, fs1)"
    and step: "drain_job cfg W now groups (totals, db, fs) job = (totals', db', fs')"
    and fresh: "j_dedupeKey job \<notin> j_dedupeKey ` set (db_jobs db)"
  shows "\<exists>r \<in> set (db_jobs db'). retry_row cfg now job e r"
proof -
  have "db' = recordFailure cfg now (j_dedupeKey job) (j_certname job) (j_reason job) (j_attempts job) e db1"
    using step run by (simp add: drain_job_def)
  moreover have "db_jobs db1 = db_jobs db" using run by (rule run_job_failed_jobs)
  ultimately show ?thesis using fresh by (auto simp: recordFailure_rows retry_row_def image_iff)
qed

lemma drain_job_totals:
  assumes "run_job cfg W now groups job (db, fs) = (r, w1)"
    and "drain_job cfg W now groups (totals, db, fs) job = (totals', w')"
  shows "dr_succeeded totals' = dr_succeeded totals + (if isl r then 0 else 1)
    \<and> dr_failed totals' = dr_failed totals + (if isl r then 1 else 0)"
  using assms by (cases r) (auto simp: drain_job_def split: prod.splits)

lemma adds_only_mono: "adds_only key db db' \<Longrightarrow> r \<in> set (db_jobs db) \<Longrightarrow> r \<in> set (db_jobs db')"
  by (auto simp: adds_only_def)

lemma adds_only_fresh:
  assumes "adds_only key db db'" "k \<noteq> key" "k \<notin> j_dedupeKey ` set (db_jobs db)"
  shows "k \<notin> j_dedupeKey ` set (db_jobs db')"
  using assms by (auto simp: adds_only_def)

lemma drain_fold:
  assumes "foldl (drain_job cfg W now groups) (totals, db, fs) jobs = (totals', db', fs')"
    and "distinct (map j_dedupeKey jobs)"
    and "\<forall>j \<in> set jobs. j_dedupeKey j \<notin> j_dedupeKey ` set (db_jobs db)"
    and "results = batch_results cfg W now groups jobs (totals, db, fs)"
  shows "set (db_jobs db) \<subseteq> set (db_jobs db') \<and> db_nodes db' = db_nodes db
    \<and> dr_succeeded totals' = dr_succeeded totals + length (filter (\<lambda>r. \<not> isl r) results)
    \<and> dr_failed totals' = dr_failed totals + length (filter isl results)
    \<and> length results = length jobs
    \<and> (\<forall>(j, r) \<in> set (zip jobs results). \<forall>e. r = Inl e \<longrightarrow> (\<exists>row \<in> set (db_jobs db'). retry_row cfg now j e row))"
  using assms
proof (induction jobs arbitrary: totals db fs results)
  case Nil
  then show ?case by simp
next
  case (Cons j jobs)
  obtain t1 db1 fs1 where step: "drain_job cfg W now groups (totals, db, fs) j = (t1, db1, fs1)"
    by (metis prod.exhaust)
  obtain r dbr fsr where run: "run_job cfg W now groups j (db, fs) = (r, dbr, fsr)" by (metis prod.exhaust)
  define rest where "rest = batch_results cfg W now groups jobs (t1, db1, fs1)"
  note adds = drain_job_adds [OF step]
  have results: "results = r # rest" using Cons.prems(4) by (simp add: step run rest_def)
  have fresh: "\<forall>j' \<in> set jobs. j_dedupeKey j' \<notin> j_dedupeKey ` set (db_jobs db1)"
  proof
    fix j'
    assume j': "j' \<in> set jobs"
    have "j_dedupeKey j' \<in> j_dedupeKey ` set jobs" using j' by (rule imageI)
    then have "j_dedupeKey j' \<noteq> j_dedupeKey j" using Cons.prems(2) by auto
    moreover have "j_dedupeKey j' \<notin> j_dedupeKey ` set (db_jobs db)" using Cons.prems(3) j' by simp
    ultimately show "j_dedupeKey j' \<notin> j_dedupeKey ` set (db_jobs db1)" by (rule adds_only_fresh [OF adds])
  qed
  have fold: "foldl (drain_job cfg W now groups) (t1, db1, fs1) jobs = (totals', db', fs')"
    using Cons.prems(1) step by simp
  have dist: "distinct (map j_dedupeKey jobs)" using Cons.prems(2) by simp
  note IH = Cons.IH [OF fold dist fresh rest_def]
  have "\<exists>row \<in> set (db_jobs db'). retry_row cfg now j e row" if "r = Inl e" for e
    using drain_job_failed [OF run [unfolded that] step] Cons.prems(3) IH by auto
  moreover have "set (db_jobs db) \<subseteq> set (db_jobs db1)" "db_nodes db1 = db_nodes db"
    using adds by (simp_all add: adds_only_def)
  ultimately show ?case
    using IH drain_job_totals [OF run step] by (simp add: results) blast
qed

lemma claimable_subset: "set (claimable sz now jobs) \<subseteq> set jobs"
  unfolding claimable_def by (auto dest: in_set_takeD)

lemma claimable_distinct:
  "distinct (map f jobs) \<Longrightarrow> distinct (map f (claimable sz now jobs))"
  unfolding claimable_def take_map [symmetric]
  by (rule distinct_take) (simp only: distinct_map_js_sort distinct_map_filter)

lemma drainLocked_unfold:
  assumes "drainLocked cfg W now (db, fs) = (res, db', fs')"
    and "jobs = claimable (mc_batchSize cfg) now (db_jobs db)"
    and "claimed = db \<lparr> db_jobs := delete_many (\<lambda>j. j_id j \<in> set (map j_id jobs)) (db_jobs db) \<rparr>"
    and "none = \<lparr> dr_claimed = 0, dr_succeeded = 0, dr_failed = 0, dr_filesChanged = 0, dr_ranHere = True \<rparr>"
  obtains totals where "foldl (drain_job cfg W now (loadGroups False claimed)) (none, claimed, fs) jobs = (totals, db', fs')"
    and "res = totals \<lparr> dr_claimed := length jobs \<rparr>"
proof (cases "jobs = []")
  case True
  with assms have "db' = db" "fs' = fs" "res = none" by (simp_all add: drainLocked_def)
  moreover from True assms(3) have "claimed = db" by (simp add: delete_many_def)
  moreover have "none = none \<lparr> dr_claimed := 0 \<rparr>" using assms(4) by simp
  ultimately show ?thesis using that [of none] True by simp
next
  case False
  obtain totals w where fold: "foldl (drain_job cfg W now (loadGroups False claimed)) (none, claimed, fs) jobs = (totals, w)"
    by (metis prod.exhaust)
  with assms False have "res = totals \<lparr> dr_claimed := length jobs \<rparr>" "w = (db', fs')"
    by (simp_all add: drainLocked_def Let_def)
  with fold show ?thesis by (intro that) auto
qed

section \<open>Properties\<close>

definition empty_db :: db where
  "empty_db =
     \<lparr> db_groups = [], db_rules = [], db_classes = [], db_parameters = [], db_pins = [], db_nodes = [],
       db_materializations = [], db_jobs = [], db_nextJobId = 0, db_audit = [] \<rparr>"

definition demo_runtime :: runtime where
  "demo_runtime =
     \<lparr> rt_regexp = (\<lambda>_. None), rt_localeCompare = cmp_str, rt_stringify = js_string,
       rt_parse = (\<lambda>_. Inr (JObj [(''classes'', JObj []), (''parameters'', JObj [])])), rt_sha256 = (\<lambda>t. t) \<rparr>"

definition demo_config :: mat_config where
  "demo_config =
     \<lparr> mc_runtime = demo_runtime, mc_maxAttempts = 3, mc_defaultEnvironment = ''production'',
       mc_batchSize = 50, mc_reconcileChunkSize = 2 \<rparr>"

text \<open>A tree that is the function from certnames to documents; \<open>broken\<close> certnames cannot be touched.\<close>

definition demo_writer :: "string list \<Rightarrow> (string obj) enc_writer" where
  "demo_writer broken =
     \<lparr> w_writeNode = (\<lambda>c y h fs. if c \<in> set broken then (Inl (io_failure ''EIO''), fs)
          else if oget fs c = Some h then (Inr False, fs) else (Inr True, put_file c y fs)),
       w_removeNode = (\<lambda>c fs. if c \<in> set broken then (Inl (io_failure ''EIO''), fs) else (Inr (), drop_file c fs)),
       w_list = (\<lambda>fs. Inr (map fst fs)) \<rparr>"

interpretation demo_tree: enc_storage "demo_writer broken" "\<lambda>fs c. oget fs c" "\<lambda>t. t" for broken
  by unfold_locales (force simp: demo_writer_def split: if_splits dest: map_of_SomeD)+

text \<open>
  C22. What becomes of the claimed jobs. A batch claims only due jobs, leaves every other row of the outbox
  alone, accounts for each claimed job as succeeded or failed, and every job that failed leaves a row in the outbox under its key,
  one attempt later, with its error and its backoff, \<open>FAILED\<close> exactly when its attempts are used up. That row is a write of the node,
  whatever the job was, and without a cursor: so a failed write is back as it was, while a failed removal is not: it is
  replaced by a write of the node whose document was to be removed, and a full reconcile that fails part-way starts again from
  the first node. (Keys and ids of jobs are unique.)
\<close>

theorem drainLocked_accounts_jobs:
  assumes "drainLocked cfg W now (db, fs) = (res, db', fs')"
    and "distinct (map j_dedupeKey (db_jobs db))" "distinct (map j_id (db_jobs db))"
    and "jobs = claimable (mc_batchSize cfg) now (db_jobs db)"
    and "claimed = db \<lparr> db_jobs := delete_many (\<lambda>j. j_id j \<in> set (map j_id jobs)) (db_jobs db) \<rparr>"
    and "none = \<lparr> dr_claimed = 0, dr_succeeded = 0, dr_failed = 0, dr_filesChanged = 0, dr_ranHere = True \<rparr>"
    and "results = batch_results cfg W now (loadGroups False claimed) jobs (none, claimed, fs)"
  shows "(\<forall>j \<in> set jobs. j \<in> set (db_jobs db) \<and> j_status j = PENDING \<and> j_nextAttemptAt j \<le> now)
    \<and> (\<forall>j \<in> set (db_jobs db). j \<notin> set jobs \<longrightarrow> j \<in> set (db_jobs db'))
    \<and> dr_claimed res = length jobs \<and> length results = length jobs
    \<and> dr_succeeded res = length (filter (\<lambda>r. \<not> isl r) results) \<and> dr_failed res = length (filter isl results)
    \<and> (\<forall>(j, r) \<in> set (zip jobs results). \<forall>e. r = Inl e \<longrightarrow> (\<exists>row \<in> set (db_jobs db'). retry_row cfg now j e row
           \<and> (j_kind row = j_kind j \<longleftrightarrow> j_kind j \<noteq> DELETE) \<and> (j_cursor row = j_cursor j \<longleftrightarrow> j_cursor j = None)))"
proof -
  have kinds: "(j_kind row = j_kind j \<longleftrightarrow> j_kind j \<noteq> DELETE) \<and> (j_cursor row = j_cursor j \<longleftrightarrow> j_cursor j = None)"
    if "retry_row cfg now j e row" for j e row
    using that by (cases "j_kind j") (auto simp: retry_row_def)
  from assms(1,4-6) obtain totals
    where fold: "foldl (drain_job cfg W now (loadGroups False claimed)) (none, claimed, fs) jobs = (totals, db', fs')"
      and res: "res = totals \<lparr> dr_claimed := length jobs \<rparr>"
    by (rule drainLocked_unfold)
  have sub: "set jobs \<subseteq> set (db_jobs db)" using claimable_subset assms(4) by blast
  have keys: "distinct (map j_dedupeKey jobs)" using claimable_distinct assms(2,4) by blast
  have same: "a = b" if "j_dedupeKey a = j_dedupeKey b" "a \<in> set (db_jobs db)" "b \<in> set (db_jobs db)" for a b
    using that assms(2) by (simp add: distinct_map inj_on_def)
  have fresh: "\<forall>j \<in> set jobs. j_dedupeKey j \<notin> j_dedupeKey ` set (db_jobs claimed)"
  proof
    fix j
    assume j: "j \<in> set jobs"
    show "j_dedupeKey j \<notin> j_dedupeKey ` set (db_jobs claimed)"
    proof
      assume "j_dedupeKey j \<in> j_dedupeKey ` set (db_jobs claimed)"
      then obtain j' where j': "j_dedupeKey j = j_dedupeKey j'" "j' \<in> set (db_jobs db)" "j_id j' \<notin> j_id ` set jobs"
        using assms(5) by auto
      with same [of j j'] sub j have "j = j'" by auto
      with j j'(3) show False by auto
    qed
  qed
  have unclaimed: "j \<in> set (db_jobs claimed)" if "j \<in> set (db_jobs db)" "j \<notin> set jobs" for j
  proof -
    have "j_id j \<notin> j_id ` set jobs"
      using that sub assms(3) by (auto simp: distinct_map inj_on_def)
    with that(1) assms(5) show ?thesis by auto
  qed
  note facts = drain_fold [OF fold keys fresh assms(7)]
  have "\<forall>j \<in> set jobs. j \<in> set (db_jobs db) \<and> j_status j = PENDING \<and> j_nextAttemptAt j \<le> now"
    using sub assms(4) by (auto simp: claimable_def dest!: in_set_takeD)
  moreover have "\<exists>row \<in> set (db_jobs db'). retry_row cfg now j e row
      \<and> (j_kind row = j_kind j \<longleftrightarrow> j_kind j \<noteq> DELETE) \<and> (j_cursor row = j_cursor j \<longleftrightarrow> j_cursor j = None)"
    if "(j, r) \<in> set (zip jobs results)" "r = Inl e" for j r e
    using facts that kinds by blast
  ultimately show ?thesis using facts res unclaimed assms(6) by auto
qed

definition demo_job :: "nat \<Rightarrow> string \<Rightarrow> job_kind \<Rightarrow> job_row" where
  "demo_job i c kind = (default_job 0 (if kind = DELETE then delete_key c else node_key c) (Some c) ''test'' i) \<lparr> j_kind := kind \<rparr>"

definition demo_db :: db where
  "demo_db = empty_db \<lparr> db_jobs := [demo_job 0 ''a'' DELETE, demo_job 1 ''b'' DELETE], db_nextJobId := 2 \<rparr>"

theorem drainLocked_accounts_jobs_witness:
  "\<exists>row \<in> set (db_jobs (fst (snd (drainLocked demo_config (demo_writer [''a'']) 5 (demo_db, [(''b'', ''doc'')]))))).
     retry_row demo_config 5 (demo_job 0 ''a'' DELETE) (io_failure ''EIO'') row \<and> j_kind row \<noteq> DELETE"
proof -
  let ?jobs = "claimable (mc_batchSize demo_config) 5 (db_jobs demo_db)"
  let ?claimed = "demo_db \<lparr> db_jobs := delete_many (\<lambda>j. j_id j \<in> set (map j_id ?jobs)) (db_jobs demo_db) \<rparr>"
  let ?none = "\<lparr> dr_claimed = 0, dr_succeeded = 0, dr_failed = 0, dr_filesChanged = 0, dr_ranHere = True \<rparr>"
  let ?results = "batch_results demo_config (demo_writer [''a'']) 5 (loadGroups False ?claimed) ?jobs (?none, ?claimed, [(''b'', ''doc'')])"
  obtain res db' fs' where d: "drainLocked demo_config (demo_writer [''a'']) 5 (demo_db, [(''b'', ''doc'')]) = (res, db', fs')"
    by (metis prod.exhaust)
  have jobs: "?jobs = [demo_job 0 ''a'' DELETE, demo_job 1 ''b'' DELETE]"
    by (simp add: claimable_def demo_db_def empty_db_def demo_config_def demo_job_def default_job_def)
  have "\<exists>r rs. ?results = r # rs \<and> r = Inl (io_failure ''EIO'')"
    unfolding jobs by (simp add: run_job_def demo_job_def default_job_def deleteNode_def demo_writer_def demo_db_def)
  then have "(demo_job 0 ''a'' DELETE, Inl (io_failure ''EIO'')) \<in> set (zip ?jobs ?results)"
    unfolding jobs by auto
  moreover have "distinct (map j_dedupeKey (db_jobs demo_db))" "distinct (map j_id (db_jobs demo_db))"
    by (simp_all add: demo_db_def empty_db_def demo_job_def default_job_def delete_key_def)
  ultimately show ?thesis
    using drainLocked_accounts_jobs [OF d _ _ refl refl refl refl] by (fastforce simp: d demo_job_def)
qed

text \<open>
  \<open>recordFailure\<close> never disturbs a newer request. When a row with the job's key exists again,
  the outbox is unchanged; otherwise exactly one row is added. Its delay is 2 s after the first
  failure, doubles with each further one and never exceeds 300 s.
\<close>

theorem recordFailure_backoff:
  "(\<exists>j \<in> set (db_jobs db). j_dedupeKey j = k) \<and> db_jobs (recordFailure cfg now k c reason n e db) = db_jobs db
   \<or> (\<exists>row. db_jobs (recordFailure cfg now k c reason n e db) = db_jobs db @ [row]
        \<and> j_dedupeKey row = k \<and> j_attempts row = Suc n
        \<and> (j_status row = FAILED \<longleftrightarrow> Suc n \<ge> mc_maxAttempts cfg)
        \<and> j_nextAttemptAt row - now = min (2000 * 2 ^ n) 300000
        \<and> 2000 \<le> j_nextAttemptAt row - now \<and> j_nextAttemptAt row - now \<le> 300000)"
proof (cases "list_ex (\<lambda>j. j_dedupeKey j = k) (db_jobs db)")
  case True
  then show ?thesis
    by (simp add: recordFailure_def Let_def upsert_job_def upsert_def list_ex_iff)
next
  case False
  then show ?thesis
    using backoffMs_bounds [of "Suc n"]
    by (simp add: recordFailure_def Let_def upsert_job_def upsert_def backoffMs_def)
qed

lemma materializeNode_correct_aux:
  assumes "enc_storage W served (rt_sha256 (mc_runtime cfg))"
    and "materializeNode cfg W now groups c (db, fs) = (Inr out, db', fs')"
  shows "\<exists>y. served fs' c = Some y"
proof -
  from assms(2) obtain merged rendered ch where
    mr: "merge_and_render (mc_runtime cfg) (mergeables groups (matchGroups (rt_regexp (mc_runtime cfg))
        (rt_localeCompare (mc_runtime cfg)) \<lparr> en_certname = c, en_facts = node_facts db c \<rparr> (gs_evaluable groups))) = Inr (merged, rendered)"
    and w: "w_writeNode W c (re_yaml rendered) (re_contentHash rendered) fs = (Inr ch, fs')"
    by (auto simp: materializeNode_def Let_def split: sum.splits prod.splits)
  have "re_contentHash rendered = rt_sha256 (mc_runtime cfg) (re_yaml rendered)"
    using mr by (auto simp: merge_and_render_def renderEncDocument_def bind_err_Inr Let_def split: sum.splits)
  with w enc_storage.write_ok_hash [OF assms(1)] show ?thesis by metis
qed

text \<open>
  \<open>materializeNode\<close> serves a node exactly the document its matched groups merge and render to.
  When it succeeds, the node is served a text with the hash of that document, no other node's
  document changes, the outcome says whether the text changed, and a node that has a
  \<open>ManagedNode\<close> row gets a materialization record with that hash whose revision moves exactly when
  the text changed; when it fails, nothing that is served and nothing in the database changes.
\<close>

theorem materializeNode_correct:
  assumes "enc_storage W served (rt_sha256 (mc_runtime cfg))"
    and "materializeNode cfg W now groups c (db, fs) = (r, db', fs')"
    and "node = \<lparr> en_certname = c, en_facts = node_facts db c \<rparr>"
    and "matched = matchGroups (rt_regexp (mc_runtime cfg)) (rt_localeCompare (mc_runtime cfg)) node (gs_evaluable groups)"
  shows "case r of
      Inl e \<Rightarrow> db' = db \<and> (\<forall>c'. served fs' c' = served fs c')
    | Inr out \<Rightarrow>
        \<exists>merged rendered. merge_and_render (mc_runtime cfg) (mergeables groups matched) = Inr (merged, rendered)
          \<and> mo_contentHash out = re_contentHash rendered
          \<and> (\<exists>y. served fs' c = Some y \<and> rt_sha256 (mc_runtime cfg) y = re_contentHash rendered)
          \<and> (\<forall>c'. c' \<noteq> c \<longrightarrow> served fs' c' = served fs c')
          \<and> (mo_changed out \<longrightarrow> served fs' c = Some (re_yaml rendered))
          \<and> (\<not> mo_changed out \<longrightarrow> fs' = fs)
          \<and> db' = record_materialization now c (mo_changed out) rendered merged
              (map (explainMatch (rt_regexp (mc_runtime cfg)) node) matched) db"
proof (cases "merge_and_render (mc_runtime cfg) (mergeables groups matched)")
  case (Inl e)
  then show ?thesis using assms by (auto simp: materializeNode_def Let_def)
next
  case (Inr mr)
  obtain merged rendered where mr: "mr = (merged, rendered)" by (cases mr)
  obtain wr fs1 where w: "w_writeNode W c (re_yaml rendered) (re_contentHash rendered) fs = (wr, fs1)"
    by (metis prod.exhaust)
  have hash: "re_contentHash rendered = rt_sha256 (mc_runtime cfg) (re_yaml rendered)"
    using Inr mr by (auto simp: merge_and_render_def renderEncDocument_def bind_err_Inr Let_def split: sum.splits)
  show ?thesis
  proof (cases wr)
    case (Inl e)
    with assms Inr mr w have "r = Inl e" "db' = db" "fs' = fs1" by (simp_all add: materializeNode_def Let_def)
    with enc_storage.write_failed [OF assms(1) w [unfolded Inl]] show ?thesis by simp
  next
    case (Inr changed)
    note ok = w [unfolded Inr]
    from assms \<open>merge_and_render _ _ = Inr mr\<close> mr w Inr
    have r: "r = Inr \<lparr> mo_certname = c, mo_changed = changed, mo_contentHash = re_contentHash rendered,
        mo_conflicts = mr_conflicts merged, mo_appliedGroupIds = mr_appliedGroupIds merged \<rparr>"
      and db': "db' = record_materialization now c changed rendered merged
        (map (explainMatch (rt_regexp (mc_runtime cfg)) node) matched) db" and fs': "fs' = fs1"
      by (simp_all add: materializeNode_def Let_def)
    have "\<exists>y. served fs1 c = Some y \<and> rt_sha256 (mc_runtime cfg) y = re_contentHash rendered"
      using enc_storage.write_ok_hash [OF assms(1) ok [unfolded hash]] hash by simp
    moreover have "changed \<longrightarrow> served fs1 c = Some (re_yaml rendered)"
      using enc_storage.write_changed [OF assms(1)] ok by (cases changed) auto
    moreover have "\<not> changed \<longrightarrow> fs1 = fs"
      using enc_storage.write_same [OF assms(1)] ok by (cases changed) auto
    ultimately show ?thesis
      using \<open>merge_and_render _ _ = Inr mr\<close> mr r db' fs' enc_storage.write_frame [OF assms(1) ok] by auto
  qed
qed

theorem materializeNode_correct_witness:
  "\<exists>y. oget (snd (snd (materializeNode demo_config (demo_writer []) 5 (loadGroups False empty_db) ''web01'' (empty_db, [(''db01'', ''x'')])))) ''web01'' = Some y"
proof -
  let ?m = "materializeNode demo_config (demo_writer []) 5 (loadGroups False empty_db) ''web01'' (empty_db, [(''db01'', ''x'')])"
  obtain r db' fs' where m: "?m = (r, db', fs')" by (metis prod.exhaust)
  have "\<not> isl (fst ?m)" by code_simp
  then obtain out where "r = Inr out" using m by (cases r) auto
  moreover have "rt_sha256 (mc_runtime demo_config) = (\<lambda>t. t)" by (simp add: demo_config_def demo_runtime_def)
  ultimately show ?thesis
    using materializeNode_correct [where cfg = demo_config, OF _ m refl refl, of "\<lambda>fs c. oget fs c"] demo_tree.enc_storage_axioms
    by (auto simp: m)
qed

section \<open>The walk of a full reconcile\<close>

text \<open>
  A full reconcile from its first row to the last: \<open>materializeChunk\<close> on the row, then on the row
  it left under the same key, claimed in turn. \<^const>\<open>None\<close> when the fuel runs out, \<open>Inl\<close> with the
  first error, otherwise the certnames written, in order.
\<close>

fun reconcile_walk ::
  "nat \<Rightarrow> mat_config \<Rightarrow> 'fs enc_writer \<Rightarrow> int \<Rightarrow> group_set \<Rightarrow> job_row \<Rightarrow> db \<times> 'fs \<Rightarrow> (failure + string list) option" where
  "reconcile_walk 0 cfg W now groups job w = None"
| "reconcile_walk (Suc fuel) cfg W now groups job w =
     (case materializeChunk cfg W now groups job w of
        (Inl e, _) \<Rightarrow> Some (Inl e)
      | (Inr outs, db, fs) \<Rightarrow>
          (case find_unique (\<lambda>j. j_dedupeKey j = j_dedupeKey job) (db_jobs db) of
             None \<Rightarrow> Some (Inr (map mo_certname outs))
           | Some next_job \<Rightarrow>
               (case reconcile_walk fuel cfg W now groups next_job
                       (db \<lparr> db_jobs := delete_many (\<lambda>j. j_id j = j_id next_job) (db_jobs db) \<rparr>, fs) of
                  None \<Rightarrow> None
                | Some (Inl e) \<Rightarrow> Some (Inl e)
                | Some (Inr cs) \<Rightarrow> Some (Inr (map mo_certname outs @ cs)))))"

definition after_cursor :: "string option \<Rightarrow> string list \<Rightarrow> string list" where
  "after_cursor cursor certs = sort (filter (\<lambda>c. case cursor of None \<Rightarrow> True | Some k \<Rightarrow> k < c) certs)"

lemma chunk_nodes_take: "chunk_nodes sz cursor nodes = take sz (after_cursor cursor (map n_certname nodes))"
  by (simp add: chunk_nodes_def after_cursor_def)

lemma sorted_le_last: "sorted xs \<Longrightarrow> x \<in> set xs \<Longrightarrow> x \<le> last xs"
  by (induction xs) auto

lemma after_cursor_last:
  assumes "distinct certs" "take sz (after_cursor cursor certs) \<noteq> []"
  shows "after_cursor (Some (last (take sz (after_cursor cursor certs)))) certs = drop sz (after_cursor cursor certs)"
proof -
  let ?xs = "after_cursor cursor certs" and ?P = "\<lambda>c. case cursor of None \<Rightarrow> True | Some k \<Rightarrow> k < c"
  define k where "k = last (take sz ?xs)"
  have sorted: "sorted ?xs" and dist: "distinct ?xs" using assms(1) by (simp_all add: after_cursor_def)
  have "k \<in> set ?xs" using assms(2) unfolding k_def by (metis in_set_takeD last_in_set)
  then have "filter (\<lambda>c. k < c) certs = filter (\<lambda>c. k < c) (filter ?P certs)"
    by (auto simp: after_cursor_def intro!: filter_cong split: option.splits)
  then have "after_cursor (Some k) certs = filter (\<lambda>c. k < c) ?xs"
    by (simp add: after_cursor_def filter_sort)
  also have "\<dots> = filter (\<lambda>c. k < c) (take sz ?xs) @ filter (\<lambda>c. k < c) (drop sz ?xs)"
    by (metis append_take_drop_id filter_append)
  also have "filter (\<lambda>c. k < c) (take sz ?xs) = []"
  proof -
    have "x \<le> k" if "x \<in> set (take sz ?xs)" for x
      using that sorted_le_last [OF sorted_wrt_take [OF sorted] that] by (simp add: k_def)
    then show ?thesis by (auto simp: filter_empty_conv not_less)
  qed
  also have "filter (\<lambda>c. k < c) (drop sz ?xs) = drop sz ?xs"
  proof -
    have "k < x" if "x \<in> set (drop sz ?xs)" for x
    proof -
      have "sorted (take sz ?xs @ drop sz ?xs)" "distinct (take sz ?xs @ drop sz ?xs)"
        using sorted dist by simp_all
      then have "k \<le> x" "k \<noteq> x"
        using that assms(2) unfolding k_def by (auto simp only: sorted_append distinct_append) (meson last_in_set disjoint_iff)+
      then show ?thesis by simp
    qed
    then show ?thesis by (simp add: filter_id_conv)
  qed
  finally show ?thesis by (simp add: k_def)
qed

lemma materializeChunk_Inr:
  assumes "materializeChunk cfg W now groups job (db, fs) = (Inr outs, db', fs')"
    and "\<forall>j \<in> set (db_jobs db). j_dedupeKey j \<noteq> j_dedupeKey job"
    and "nodes = chunk_nodes (mc_reconcileChunkSize cfg) (j_cursor job) (db_nodes db)"
  shows "map mo_certname outs = nodes \<and> db_nodes db' = db_nodes db
    \<and> (if length nodes = mc_reconcileChunkSize cfg \<and> nodes \<noteq> []
       then \<exists>row. db_jobs db' = db_jobs db @ [row] \<and> j_dedupeKey row = j_dedupeKey job \<and> j_cursor row = Some (last nodes)
       else db_jobs db' = db_jobs db)"
proof -
  obtain r1 db1 fs1 where each: "materialize_each cfg W now groups nodes (db, fs) = (r1, db1, fs1)"
    by (metis prod.exhaust)
  then have r1: "r1 = Inr outs" using assms(1,3) by (auto simp: materializeChunk_def Let_def split: sum.splits if_splits)
  note frame = materialize_each_frame [OF each] and certs = materialize_each_certnames [OF each [unfolded r1]]
  have no: "\<not> list_ex (\<lambda>j. j_dedupeKey j = j_dedupeKey job) (db_jobs db)" using assms(2) by (simp add: list_ex_iff)
  show ?thesis
    using assms(1,3) each r1 frame certs no
    by (auto simp: materializeChunk_def Let_def upsert_job_def upsert_def split: if_splits)
qed

lemma reconcile_walk_complete:
  assumes "0 < mc_reconcileChunkSize cfg" "distinct (map n_certname (db_nodes db))"
    and "\<forall>j \<in> set (db_jobs db). j_dedupeKey j \<noteq> j_dedupeKey job"
    and "length (after_cursor (j_cursor job) (map n_certname (db_nodes db))) < fuel"
  shows "\<exists>r. reconcile_walk fuel cfg W now groups job (db, fs) = Some r
    \<and> (\<forall>cs. r = Inr cs \<longrightarrow> cs = after_cursor (j_cursor job) (map n_certname (db_nodes db)))"
  using assms
proof (induction fuel arbitrary: job db fs)
  case 0
  then show ?case by simp
next
  case (Suc fuel)
  let ?certs = "map n_certname (db_nodes db)" and ?sz = "mc_reconcileChunkSize cfg"
  define nodes where "nodes = chunk_nodes ?sz (j_cursor job) (db_nodes db)"
  obtain r1 db1 fs1 where chunk: "materializeChunk cfg W now groups job (db, fs) = (r1, db1, fs1)"
    by (metis prod.exhaust)
  show ?case
  proof (cases r1)
    case (Inl e)
    with chunk show ?thesis by simp
  next
    case (Inr outs)
    note facts = materializeChunk_Inr [OF chunk [unfolded Inr] Suc.prems(3) nodes_def]
    have take: "nodes = take ?sz (after_cursor (j_cursor job) ?certs)" by (simp add: nodes_def chunk_nodes_take)
    show ?thesis
    proof (cases "length nodes = ?sz \<and> nodes \<noteq> []")
      case False
      with facts have jobs: "db_jobs db1 = db_jobs db" by auto
      have "find_unique (\<lambda>j. j_dedupeKey j = j_dedupeKey job) (db_jobs db1) = None"
        using Suc.prems(3) by (simp add: jobs find_unique_None)
      moreover have "nodes = after_cursor (j_cursor job) ?certs"
        using False take Suc.prems(1) by auto
      ultimately show ?thesis using chunk Inr facts by simp
    next
      case True
      with facts obtain row where row: "db_jobs db1 = db_jobs db @ [row]" "j_dedupeKey row = j_dedupeKey job"
        "j_cursor row = Some (last nodes)" by auto
      have find: "find_unique (\<lambda>j. j_dedupeKey j = j_dedupeKey job) (db_jobs db1) = Some row"
      proof -
        have "find_unique (\<lambda>j. j_dedupeKey j = j_dedupeKey job) (db_jobs db) = None"
          using Suc.prems(3) by (simp add: find_unique_None)
        then show ?thesis using row by (simp add: find_unique_append)
      qed
      define db2 where "db2 = db1 \<lparr> db_jobs := delete_many (\<lambda>j. j_id j = j_id row) (db_jobs db1) \<rparr>"
      have nodes2: "db_nodes db2 = db_nodes db" using facts by (simp add: db2_def)
      have rest: "after_cursor (j_cursor row) ?certs = drop ?sz (after_cursor (j_cursor job) ?certs)"
        using after_cursor_last [of ?certs ?sz "j_cursor job"] True take Suc.prems(2) row(3) by simp
      have "\<exists>r. reconcile_walk fuel cfg W now groups row (db2, fs1) = Some r
          \<and> (\<forall>cs. r = Inr cs \<longrightarrow> cs = after_cursor (j_cursor row) (map n_certname (db_nodes db2)))"
      proof (rule Suc.IH)
        show "0 < ?sz" by (rule Suc.prems(1))
        show "distinct (map n_certname (db_nodes db2))" using Suc.prems(2) nodes2 by simp
        show "\<forall>j \<in> set (db_jobs db2). j_dedupeKey j \<noteq> j_dedupeKey row"
          using Suc.prems(3) row by (auto simp: db2_def)
        show "length (after_cursor (j_cursor row) (map n_certname (db_nodes db2))) < fuel"
        proof -
          have "length (after_cursor (j_cursor job) ?certs) \<noteq> 0" using True take by auto
          then have "length (after_cursor (j_cursor job) ?certs) - ?sz < fuel"
            using Suc.prems(1,4) by linarith
          then show ?thesis by (simp add: nodes2 rest)
        qed
      qed
      then obtain r where r: "reconcile_walk fuel cfg W now groups row (db2, fs1) = Some r"
        and cs: "\<forall>cs. r = Inr cs \<longrightarrow> cs = drop ?sz (after_cursor (j_cursor job) ?certs)"
        by (auto simp: nodes2 rest)
      show ?thesis
      proof (cases r)
        case (Inl e)
        with chunk \<open>r1 = Inr outs\<close> find r show ?thesis by (simp add: db2_def)
      next
        case (Inr rs)
        have "nodes @ rs = after_cursor (j_cursor job) ?certs" using cs Inr take by simp
        with chunk \<open>r1 = Inr outs\<close> find r Inr facts show ?thesis by (simp add: db2_def)
      qed
    qed
  qed
qed

text \<open>
  C23. A full reconcile terminates and covers the estate exactly once: from its first row, with
  fuel for one chunk per node, the walk ends; unless some node throws, the certnames it writes
  are those of every node, each once, in ascending order, whatever the size of a chunk.
\<close>

theorem full_reconcile_covers_estate:
  assumes "0 < mc_reconcileChunkSize cfg" "distinct (map n_certname (db_nodes db))"
    and "\<forall>j \<in> set (db_jobs db). j_dedupeKey j \<noteq> full_key"
    and "length (db_nodes db) < fuel"
  shows "\<exists>r. reconcile_walk fuel cfg W now groups (default_job now full_key None reason i) (db, fs) = Some r
    \<and> (\<forall>cs. r = Inr cs \<longrightarrow> cs = sort (map n_certname (db_nodes db)) \<and> distinct cs)"
proof -
  have "after_cursor None (map n_certname (db_nodes db)) = sort (map n_certname (db_nodes db))"
    by (simp add: after_cursor_def)
  with reconcile_walk_complete [of cfg db "default_job now full_key None reason i" fuel W now groups fs] assms
  show ?thesis by auto
qed

definition demo_node_row :: "string \<Rightarrow> node_row" where
  "demo_node_row c =
     \<lparr> n_certname = c, n_environment = None, n_facts = [], n_latestReportStatus = None, n_reportTimestamp = None,
       n_factsTimestamp = None, n_expired = False, n_deactivated = False, n_projectedAt = 0 \<rparr>"

theorem full_reconcile_covers_estate_witness:
  "reconcile_walk 5 demo_config (demo_writer []) 0 (loadGroups False empty_db) (default_job 0 full_key None ''test'' 0)
      (empty_db \<lparr> db_nodes := map demo_node_row [''c'', ''a'', ''b''] \<rparr>, []) = Some (Inr [''a'', ''b'', ''c''])"
proof -
  let ?w = "reconcile_walk 5 demo_config (demo_writer []) 0 (loadGroups False empty_db) (default_job 0 full_key None ''test'' 0)
      (empty_db \<lparr> db_nodes := map demo_node_row [''c'', ''a'', ''b''] \<rparr>, [])"
  have "0 < mc_reconcileChunkSize demo_config" by (simp add: demo_config_def)
  from full_reconcile_covers_estate [OF this, of "empty_db \<lparr> db_nodes := map demo_node_row [''c'', ''a'', ''b''] \<rparr>" 5
      "demo_writer []" 0 "loadGroups False empty_db" "''test''" 0 "[]"]
  obtain r where r: "?w = Some r" "\<forall>cs. r = Inr cs \<longrightarrow> cs = sort [''c'', ''a'', ''b'']"
    by (auto simp: empty_db_def demo_node_row_def)
  have "list_ex (\<lambda>x. x \<noteq> None \<and> \<not> isl (the x)) [?w]" by code_simp
  with r(1) have "\<not> isl r" by simp
  then obtain cs where "r = Inr cs" by (cases r) auto
  moreover have "sort [''c'', ''a'', ''b''] = [''a'', ''b'', ''c'']" by code_simp
  ultimately show ?thesis using r by simp
qed

text \<open>
  A full reconcile that is requested again while one is part-way through does not start from
  the beginning: the request leaves the cursor of the queued row as it is, so the walk that
  follows skips every node up to it.
\<close>

theorem full_reconcile_request_keeps_cursor:
  assumes "db_jobs db = [row]" "j_dedupeKey row = full_key" "j_cursor row = Some k"
    and "0 < mc_reconcileChunkSize cfg" "distinct (map n_certname (db_nodes db))" "length (db_nodes db) < fuel"
  shows "\<exists>row'. db_jobs (enqueueFullReconcile now reason db) = [row'] \<and> j_cursor row' = Some k
    \<and> (\<exists>r. reconcile_walk fuel cfg W now groups row' (db \<lparr> db_jobs := [] \<rparr>, fs) = Some r
         \<and> (\<forall>cs. r = Inr cs \<longrightarrow> (\<forall>c \<in> set cs. k < c)))"
proof -
  let ?row = "requeue now reason row"
  have "db_jobs (enqueueFullReconcile now reason db) = [?row]"
    using assms by (simp add: enqueueFullReconcile_def upsert_job_def upsert_def)
  moreover have "\<exists>r. reconcile_walk fuel cfg W now groups ?row (db \<lparr> db_jobs := [] \<rparr>, fs) = Some r
      \<and> (\<forall>cs. r = Inr cs \<longrightarrow> cs = after_cursor (j_cursor ?row) (map n_certname (db_nodes db)))"
    using reconcile_walk_complete [of cfg "db \<lparr> db_jobs := [] \<rparr>" ?row fuel W now groups fs] assms
    by (simp add: after_cursor_def le_less_trans [OF length_filter_le])
  moreover have "\<forall>c \<in> set (after_cursor (Some k) (map n_certname (db_nodes db))). k < c"
    by (auto simp: after_cursor_def)
  ultimately show ?thesis using assms(3) by (intro exI [of _ ?row]) auto
qed

theorem full_reconcile_request_keeps_cursor_witness:
  "\<exists>row'. db_jobs (enqueueFullReconcile 9 ''again''
       (empty_db \<lparr> db_jobs := [(default_job 0 full_key None ''first'' 0) \<lparr> j_cursor := Some ''m'' \<rparr>] \<rparr>)) = [row']
     \<and> j_cursor row' = Some ''m''"
  using full_reconcile_request_keeps_cursor [of "empty_db \<lparr> db_jobs := [(default_job 0 full_key None ''first'' 0) \<lparr> j_cursor := Some ''m'' \<rparr>] \<rparr>"
      "(default_job 0 full_key None ''first'' 0) \<lparr> j_cursor := Some ''m'' \<rparr>" "''m''" demo_config 1 9 "''again''" "demo_writer []"
      "loadGroups False empty_db" "[]"]
  by (auto simp: empty_db_def demo_config_def)

text \<open>
  A removal that fails once is not retried as a removal: the row it leaves is a
  \<open>MATERIALIZE\<close> row for the purged node, and when that row runs the node is served a document
  again.
\<close>

theorem failed_delete_is_retried_as_write:
  assumes "enc_storage W served (rt_sha256 (mc_runtime cfg))"
    and "j_kind job = DELETE" "j_certname job = Some c"
    and "w_removeNode W c fs = (Inl e, fs1)"
    and "j_dedupeKey job \<notin> j_dedupeKey ` set (db_jobs db)"
  shows "\<exists>row. db_jobs (fst (snd (drain_job cfg W now groups (totals, db, fs) job))) = db_jobs db @ [row]
    \<and> j_kind row = MATERIALIZE \<and> j_certname row = Some c
    \<and> (\<forall>now' groups' outs db2 fs2. run_job cfg W now' groups' row (db, fs) = (Inr outs, db2, fs2)
         \<longrightarrow> served fs2 c \<noteq> None)"
proof -
  let ?row = "(default_job now (j_dedupeKey job) (Some c) (j_reason job) (db_nextJobId db))
     \<lparr> j_attempts := Suc (j_attempts job), j_lastError := Some (f_name e @ '': '' @ f_message e),
       j_status := (if Suc (j_attempts job) \<ge> mc_maxAttempts cfg then FAILED else PENDING),
       j_nextAttemptAt := now + backoffMs (Suc (j_attempts job)) \<rparr>"
  have "\<not> list_ex (\<lambda>j. j_dedupeKey j = j_dedupeKey job) (db_jobs db)"
    using assms(5) unfolding list_ex_iff by (metis image_eqI)
  then have "db_jobs (fst (snd (drain_job cfg W now groups (totals, db, fs) job))) = db_jobs db @ [?row]"
    using assms(2-4)
    by (simp add: drain_job_def run_job_def deleteNode_def recordFailure_def Let_def upsert_job_def upsert_def)
  moreover have "served fs2 c \<noteq> None" if "run_job cfg W now' groups' ?row (db, fs) = (Inr outs, db2, fs2)"
    for now' groups' outs db2 fs2
  proof -
    from that obtain out where "materializeNode cfg W now' groups' c (db, fs) = (Inr out, db2, fs2)"
      by (auto simp: run_job_def split: prod.splits sum.splits)
    from materializeNode_correct_aux [OF assms(1) this] show ?thesis by auto
  qed
  ultimately show ?thesis by (intro exI [of _ ?row]) simp
qed

theorem failed_delete_is_retried_as_write_witness:
  "\<exists>row. db_jobs (fst (snd (drain_job demo_config (demo_writer [''a'']) 5 (loadGroups False empty_db)
      (\<lparr> dr_claimed = 0, dr_succeeded = 0, dr_failed = 0, dr_filesChanged = 0, dr_ranHere = True \<rparr>, empty_db, [(''a'', ''doc'')])
      (demo_job 0 ''a'' DELETE)))) = [row] \<and> j_kind row = MATERIALIZE"
proof -
  have "enc_storage (demo_writer [''a'']) (\<lambda>fs c. oget fs c) (rt_sha256 (mc_runtime demo_config))"
    using demo_tree.enc_storage_axioms by (simp add: demo_config_def demo_runtime_def)
  note retried = failed_delete_is_retried_as_write [OF this]
  have "j_kind (demo_job 0 ''a'' DELETE) = DELETE" "j_certname (demo_job 0 ''a'' DELETE) = Some ''a''"
    by (simp_all add: demo_job_def)
  moreover have "w_removeNode (demo_writer [''a'']) ''a'' [(''a'', ''doc'')] = (Inl (io_failure ''EIO''), [(''a'', ''doc'')])"
    by (simp add: demo_writer_def)
  moreover have "j_dedupeKey (demo_job 0 ''a'' DELETE) \<notin> j_dedupeKey ` set (db_jobs empty_db)" "db_jobs empty_db = []"
    by (simp_all add: empty_db_def)
  ultimately show ?thesis
    using retried [where job = "demo_job 0 ''a'' DELETE" and c = "''a''" and db = empty_db and groups = "loadGroups False empty_db"
        and fs = "[(''a'', ''doc'')]" and now = 5]
    by (metis append_Nil)
qed

definition returned_db :: "string \<Rightarrow> int \<Rightarrow> int \<Rightarrow> int \<Rightarrow> db" where
  "returned_db c t1 t2 t3 =
     enqueueNode t3 c ''returned'' (enqueueNodeDeletion t2 c ''purged'' (enqueueNode t1 c ''edited''
       (empty_db \<lparr> db_nodes := [demo_node_row c] \<rparr>)))"

text \<open>
  The documented order of a deletion and a later rewrite can be reversed. A node with an
  older write still queued that is purged and then returns is written first and deleted last: the
  outbox drained after that serves it nothing of its own, although its \<open>ManagedNode\<close> row exists.
\<close>

theorem returned_node_is_deleted_last:
  assumes "t1 < t2" "t2 \<le> t3" "2 \<le> mc_batchSize cfg"
    and "enc_storage W served (rt_sha256 (mc_runtime cfg))"
    and "drainLocked cfg W t3 (returned_db c t1 t2 t3, fs) = (res, db', fs')"
    and "dr_failed res = 0"
  shows "map j_dedupeKey (claimable (mc_batchSize cfg) t3 (db_jobs (returned_db c t1 t2 t3))) = [node_key c, delete_key c]
    \<and> served fs' c = None \<and> c \<in> n_certname ` set (db_nodes db')"
proof -
  let ?n = "requeue t3 ''returned'' (default_job t1 (node_key c) (Some c) ''edited'' 0)"
  let ?d = "(default_job t2 (delete_key c) (Some c) ''purged'' 1) \<lparr> j_kind := DELETE \<rparr>"
  have keys: "node_key c \<noteq> delete_key c" by (simp add: node_key_def delete_key_def)
  have rows: "db_jobs (returned_db c t1 t2 t3) = [?n, ?d]"
    using keys by (auto simp: returned_db_def enqueueNode_def enqueueNodeDeletion_def upsert_job_def upsert_def empty_db_def)
  have nodes: "db_nodes (returned_db c t1 t2 t3) = [demo_node_row c]"
    by (simp add: returned_db_def enqueueNodeDeletion_def)
  obtain b where b: "mc_batchSize cfg = Suc (Suc b)" using assms(3) by (metis add_2_eq_Suc le_Suc_ex)
  have claim: "claimable (mc_batchSize cfg) t3 [?n, ?d] = [?n, ?d]"
    using assms(1,2) by (simp add: claimable_def b)
  define claimed where "claimed = (returned_db c t1 t2 t3) \<lparr> db_jobs := delete_many (\<lambda>j. j_id j \<in> set (map j_id [?n, ?d])) [?n, ?d] \<rparr>"
  let ?none = "\<lparr> dr_claimed = 0, dr_succeeded = 0, dr_failed = 0, dr_filesChanged = 0, dr_ranHere = True \<rparr>"
  have claimed_jobs: "db_jobs claimed = []" by (simp add: claimed_def delete_many_def)
  obtain totals where fold: "foldl (drain_job cfg W t3 (loadGroups False claimed)) (?none, claimed, fs) [?n, ?d] = (totals, db', fs')"
    and res: "res = totals \<lparr> dr_claimed := length [?n, ?d] \<rparr>"
    by (rule drainLocked_unfold [OF assms(5), of "[?n, ?d]" claimed ?none])
      (use claim rows in \<open>simp_all add: claimed_def\<close>)
  obtain tt db1 fs1 where one: "drain_job cfg W t3 (loadGroups False claimed) (?none, claimed, fs) ?n = (tt, db1, fs1)"
    by (metis prod.exhaust)
  then have two: "drain_job cfg W t3 (loadGroups False claimed) (tt, db1, fs1) ?d = (totals, db', fs')" using fold by simp
  have "\<exists>u. w_removeNode W c fs1 = (Inr u, fs')"
  proof (cases "w_removeNode W c fs1")
    case (Pair r fs2)
    show ?thesis
    proof (cases r)
      case (Inl e)
      with two Pair have "dr_failed totals = Suc (dr_failed tt)" by (auto simp: drain_job_def run_job_def deleteNode_def)
      with res assms(6) show ?thesis by simp
    next
      case (Inr u)
      with two Pair show ?thesis by (auto simp: drain_job_def run_job_def deleteNode_def)
    qed
  qed
  then have "served fs' c = None" using enc_storage.remove_ok [OF assms(4)] by blast
  moreover have "db_nodes db' = [demo_node_row c]"
    using drain_job_adds [OF one] drain_job_adds [OF two] nodes by (simp add: adds_only_def claimed_def)
  ultimately show ?thesis using claim rows by (simp add: demo_node_row_def)
qed

theorem returned_node_is_deleted_last_witness:
  "oget (snd (snd (drainLocked demo_config (demo_writer []) 3 (returned_db ''a'' 1 2 3, [(''a'', ''doc'')])))) ''a'' = None"
proof -
  let ?d = "drainLocked demo_config (demo_writer []) 3 (returned_db ''a'' 1 2 3, [(''a'', ''doc'')])"
  obtain res db' fs' where d: "?d = (res, db', fs')" by (metis prod.exhaust)
  have "dr_failed (fst ?d) = 0" by code_simp
  then have "dr_failed res = 0" by (simp add: d)
  moreover have "enc_storage (demo_writer []) (\<lambda>fs c. oget fs c) (rt_sha256 (mc_runtime demo_config))"
    using demo_tree.enc_storage_axioms by (simp add: demo_config_def demo_runtime_def)
  ultimately have "oget fs' ''a'' = None"
    using returned_node_is_deleted_last [OF _ _ _ _ d] by (simp add: demo_config_def)
  then show ?thesis by (simp add: d)
qed

section \<open>Termination of the drain\<close>

lemma drain_job_counts:
  "dr_succeeded (fst (drain_job cfg W now groups st j)) + dr_failed (fst (drain_job cfg W now groups st j))
     = Suc (dr_succeeded (fst st) + dr_failed (fst st))"
  by (cases st) (auto simp: drain_job_def split: sum.splits prod.splits)

lemma drain_fold_counts:
  "dr_succeeded (fst (foldl (drain_job cfg W now groups) st jobs)) + dr_failed (fst (foldl (drain_job cfg W now groups) st jobs))
     = dr_succeeded (fst st) + dr_failed (fst st) + length jobs"
  by (induction jobs arbitrary: st) (simp_all add: drain_job_counts)

definition counted :: "drain_result \<Rightarrow> bool" where
  "counted t \<longleftrightarrow> dr_claimed t = dr_succeeded t + dr_failed t \<and> (dr_claimed t > 0 \<longrightarrow> dr_ranHere t)"

lemma drainLocked_counts: "dr_claimed (fst (drainLocked cfg W now w)) =
    dr_succeeded (fst (drainLocked cfg W now w)) + dr_failed (fst (drainLocked cfg W now w))"
proof -
  obtain db fs where w: "w = (db, fs)" by (cases w)
  obtain res db' fs' where run: "drainLocked cfg W now (db, fs) = (res, db', fs')" by (metis prod.exhaust)
  obtain totals where fold: "foldl (drain_job cfg W now (loadGroups False
        (db \<lparr> db_jobs := delete_many (\<lambda>j. j_id j \<in> set (map j_id (claimable (mc_batchSize cfg) now (db_jobs db)))) (db_jobs db) \<rparr>)))
        (\<lparr> dr_claimed = 0, dr_succeeded = 0, dr_failed = 0, dr_filesChanged = 0, dr_ranHere = True \<rparr>,
         db \<lparr> db_jobs := delete_many (\<lambda>j. j_id j \<in> set (map j_id (claimable (mc_batchSize cfg) now (db_jobs db)))) (db_jobs db) \<rparr>, fs)
        (claimable (mc_batchSize cfg) now (db_jobs db)) = (totals, db', fs')"
    and "res = totals \<lparr> dr_claimed := length (claimable (mc_batchSize cfg) now (db_jobs db)) \<rparr>"
    using drainLocked_unfold [OF run refl refl refl] by blast
  then show ?thesis using arg_cong [OF fold, of "\<lambda>x. dr_succeeded (fst x) + dr_failed (fst x)"]
    unfolding drain_fold_counts by (simp add: w run)
qed

text \<open>
  A drain ends. However many jobs keep arriving, the loop stops at the first iteration whose
  clock has reached the deadline, so that many iterations of fuel give its result; the totals it
  returns account for every job it claimed.
\<close>

theorem drain_terminates:
  assumes "clock 0 + maxDrainMs \<le> clock n"
  shows "\<exists>totals w'. drain cfg W clock free maxDrainMs (Suc n) w = Some (totals, w')
    \<and> dr_claimed totals = dr_succeeded totals + dr_failed totals \<and> (dr_claimed totals > 0 \<longrightarrow> dr_ranHere totals)"
proof -
  have "\<exists>totals' w'. drain_loop cfg W clock free deadline fuel i (totals, w) = Some (totals', w')
      \<and> counted totals'"
    if "deadline \<le> clock (i + m)" "m < fuel" "counted totals" for deadline fuel i m totals w
    using that
  proof (induction fuel arbitrary: i m totals w)
    case 0
    then show ?case by simp
  next
    case (Suc fuel)
    show ?case
    proof (cases "clock i \<ge> deadline \<or> \<not> free i")
      case True
      with Suc.prems(3) show ?thesis by auto
    next
      case False
      then have "m \<noteq> 0" using Suc.prems(1) by (cases m) auto
      then obtain m' where m: "m = Suc m'" by (cases m) auto
      obtain batch w1 where batch: "drainLocked cfg W (clock i) w = (batch, w1)" by (metis prod.exhaust)
      show ?thesis
      proof (cases "dr_claimed batch = 0")
        case True
        with False batch Suc.prems(3) drainLocked_counts [of cfg W "clock i" w] show ?thesis
          by (simp add: Let_def counted_def)
      next
        case claimed: False
        have "deadline \<le> clock (Suc i + m')" "m' < fuel" using Suc.prems(1,2) m by simp_all
        from Suc.IH [OF this] False batch claimed Suc.prems(3) drainLocked_counts [of cfg W "clock i" w]
        show ?thesis by (simp add: Let_def counted_def)
      qed
    qed
  qed
  from this [of "clock 0 + maxDrainMs" 0 n "Suc n"] assms show ?thesis by (simp add: drain_def counted_def)
qed

theorem drain_terminates_witness:
  "\<exists>totals w'. drain demo_config (demo_writer []) (\<lambda>i. int i * 100) (\<lambda>_. True) 300 4
     (returned_db ''a'' 1 2 3, [(''a'', ''doc'')]) = Some (totals, w')"
  using drain_terminates [of "\<lambda>i. int i * 100" 300 3 demo_config "demo_writer []" "\<lambda>_. True" "(returned_db ''a'' 1 2 3, [(''a'', ''doc'')])"]
  by (auto simp: eval_nat_numeral)

section \<open>The orphan sweep\<close>

lemma remove_each_served:
  assumes "enc_storage W served sha256"
    and "remove_each W known cs n (db, fs) = (n', db', fs')"
  shows "(c \<in> known \<longrightarrow> served fs' c = served fs c) \<and> (served fs' c = None \<or> served fs' c = served fs c)
    \<and> db_nodes db' = db_nodes db \<and> n \<le> n' \<and> n' \<le> n + length (filter (\<lambda>c. c \<notin> known) cs)
    \<and> (n' = n + length (filter (\<lambda>c. c \<notin> known) cs) \<and> c \<in> set cs \<and> c \<notin> known \<longrightarrow> served fs' c = None)"
  using assms(2)
proof (induction cs arbitrary: n db fs)
  case Nil
  then show ?case by simp
next
  case (Cons d cs)
  show ?case
  proof (cases "d \<in> known")
    case True
    with Cons.prems have "remove_each W known cs n (db, fs) = (n', db', fs')" by simp
    from Cons.IH [OF this] True show ?thesis by auto
  next
    case False
    obtain r fs1 where rm: "w_removeNode W d fs = (r, fs1)" by (metis prod.exhaust)
    show ?thesis
    proof (cases r)
      case (Inl e)
      with Cons.prems False rm have rest: "remove_each W known cs n (db, fs1) = (n', db', fs')" by simp
      have "fs1 = fs" using enc_storage.remove_failed [OF assms(1)] rm Inl by blast
      with Cons.IH [OF rest] False show ?thesis by auto
    next
      case (Inr u)
      let ?db = "db \<lparr> db_materializations := delete_many (\<lambda>m. em_certname m = d) (db_materializations db) \<rparr>"
      from Cons.prems False rm Inr have rest: "remove_each W known cs (Suc n) (?db, fs1) = (n', db', fs')" by simp
      have gone: "served fs1 d = None" using enc_storage.remove_ok [OF assms(1)] rm Inr by blast
      have frame: "c \<noteq> d \<Longrightarrow> served fs1 c = served fs c" using enc_storage.remove_frame [OF assms(1) rm] by simp
      from Cons.IH [OF rest] False gone frame show ?thesis by (cases "c = d") auto
    qed
  qed
qed

text \<open>
  The orphan sweep removes the documents of unknown nodes and nothing else. No node with a
  \<open>ManagedNode\<close> row loses its document, whatever fails; and when the number of files removed is
  the number of unknown files listed, no node without a row is served a document of its own any
  more. A node that is pinned but has never reported is such a node: the file
  \<open>materializeNode\<close> wrote for it does not survive the sweep.
\<close>

theorem removeOrphans_correct:
  assumes "enc_storage W served sha256"
    and "removeOrphans W (db, fs) = (Inr n, db', fs')"
    and "w_list W fs = Inr onDisk"
    and "known = set (map n_certname (db_nodes db))"
  shows "(c \<in> known \<longrightarrow> served fs' c = served fs c)
    \<and> (n = length (filter (\<lambda>c. c \<notin> known) onDisk) \<longrightarrow> c \<notin> known \<longrightarrow> served fs' c = None)
    \<and> n \<le> length (filter (\<lambda>c. c \<notin> known) onDisk)"
proof -
  from assms(2-4) have sweep: "remove_each W known onDisk 0 (db, fs) = (n, db', fs')"
    by (simp add: removeOrphans_def Let_def split: prod.splits)
  have "served fs c = None" if "c \<notin> set onDisk"
    using enc_storage.list_complete [OF assms(1,3)] that by blast
  with remove_each_served [OF assms(1) sweep, of c] show ?thesis by (cases "c \<in> set onDisk") auto
qed

theorem removeOrphans_correct_witness:
  "oget (snd (snd (removeOrphans (demo_writer []) (empty_db, [(''a'', ''doc'')])))) ''a'' = None"
proof -
  let ?r = "removeOrphans (demo_writer []) (empty_db, [(''a'', ''doc'')])"
  have r: "?r = (Inr 1, snd ?r)" by (simp add: removeOrphans_def demo_writer_def empty_db_def)
  have list: "w_list (demo_writer []) [(''a'', ''doc'')] = Inr [''a'']" by (simp add: demo_writer_def)
  obtain db' fs' where s: "snd ?r = (db', fs')" by (metis prod.exhaust)
  from removeOrphans_correct [OF demo_tree.enc_storage_axioms r [unfolded s] list refl, of "''a''"]
  have "oget fs' ''a'' = None" by (simp add: empty_db_def)
  then show ?thesis unfolding s by simp
qed

end
