(* ===== verification/Planner.thy ===== *)
theory Planner
  imports Materialization
begin

text \<open>
  \<open>apps/api/src/classification/plan/apply-operation.ts\<close>,
  \<open>classification-planner.service.ts\<close>, \<open>pure/strategy-warnings.ts\<close> and the plan types of
  \<open>packages/contracts/src/plan.ts\<close>: what a change of the classification would do, computed
  without doing it.
\<close>

section \<open>Requests\<close>

datatype plan_request =
    ReplaceRules string "node_rule list"
  | AssignClass string string "jsval obj"
  | RemoveClass string string
  | SetParameter string string jsval
  | RemoveParameter string string
  | UpdateGroup string "int option" "string option option" "bool option" "match_strategy option"
  | DeleteGroup string
  | Pin string "string list"
  | Unpin string "string list"

fun request_groupId :: "plan_request \<Rightarrow> string" where
  "request_groupId (ReplaceRules g _) = g"
| "request_groupId (AssignClass g _ _) = g"
| "request_groupId (RemoveClass g _) = g"
| "request_groupId (SetParameter g _ _) = g"
| "request_groupId (RemoveParameter g _) = g"
| "request_groupId (UpdateGroup g _ _ _ _) = g"
| "request_groupId (DeleteGroup g) = g"
| "request_groupId (Pin g _) = g"
| "request_groupId (Unpin g _) = g"

section \<open>Applying an operation\<close>

text \<open>
  The \<open>find\<close> of the source yields the first group with the id, and the assignments to its
  fields change that one; \<open>Map.get\<close> and the assignments change the entry of the id. Values are
  immutable in the model, so the copy the source takes first is the value itself.
\<close>

fun update_first :: "string \<Rightarrow> (evaluable_group \<Rightarrow> evaluable_group) \<Rightarrow> evaluable_group list \<Rightarrow> evaluable_group list" where
  "update_first i f [] = []"
| "update_first i f (g # gs) = (if eg_id g = i then f g # gs else g # update_first i f gs)"

definition update_entry :: "string \<Rightarrow> (mergeable_group \<Rightarrow> mergeable_group) \<Rightarrow> (string \<times> mergeable_group) list
    \<Rightarrow> (string \<times> mergeable_group) list" where
  "update_entry i f ms = map (\<lambda>(k, m). (k, if k = i then f m else m)) ms"

datatype plan_error = UnknownGroupError string

definition set_option :: "'a option \<Rightarrow> 'a \<Rightarrow> 'a" where
  "set_option new old = (case new of None \<Rightarrow> old | Some v \<Rightarrow> v)"

definition apply_to ::
  "(evaluable_group \<Rightarrow> evaluable_group) \<Rightarrow> (mergeable_group \<Rightarrow> mergeable_group) \<Rightarrow> string \<Rightarrow> group_set \<Rightarrow> group_set" where
  "apply_to f h i groups =
     \<lparr> gs_evaluable = update_first i f (gs_evaluable groups),
       gs_mergeableById = update_entry i h (gs_mergeableById groups) \<rparr>"

definition on_classes :: "((jsval obj) obj \<Rightarrow> (jsval obj) obj) \<Rightarrow> mergeable_group \<Rightarrow> mergeable_group" where
  "on_classes f m = m \<lparr> mg_classes := f (mg_classes m) \<rparr>"

definition on_parameters :: "(jsval obj \<Rightarrow> jsval obj) \<Rightarrow> mergeable_group \<Rightarrow> mergeable_group" where
  "on_parameters f m = m \<lparr> mg_parameters := f (mg_parameters m) \<rparr>"

fun apply_request :: "plan_request \<Rightarrow> group_set \<Rightarrow> group_set" where
  "apply_request (ReplaceRules i rules) groups =
     apply_to (\<lambda>g. g \<lparr> eg_rules := rules \<rparr>) (\<lambda>m. m) i groups"
| "apply_request (AssignClass i c params) groups =
     apply_to (\<lambda>g. g) (on_classes (assign c params)) i groups"
| "apply_request (RemoveClass i c) groups = apply_to (\<lambda>g. g) (on_classes (odel c)) i groups"
| "apply_request (SetParameter i k v) groups = apply_to (\<lambda>g. g) (on_parameters (assign k v)) i groups"
| "apply_request (RemoveParameter i k) groups = apply_to (\<lambda>g. g) (on_parameters (odel k)) i groups"
| "apply_request (UpdateGroup i rank env enabled strategy) groups =
     apply_to (\<lambda>g. g \<lparr> eg_rank := set_option rank (eg_rank g),
                       eg_isEnabled := set_option enabled (eg_isEnabled g),
                       eg_strategy := set_option strategy (eg_strategy g) \<rparr>)
              (\<lambda>m. m \<lparr> mg_environment := set_option env (mg_environment m) \<rparr>) i groups"
| "apply_request (DeleteGroup i) groups =
     \<lparr> gs_evaluable = filter (\<lambda>g. eg_id g \<noteq> i) (gs_evaluable groups),
       gs_mergeableById = filter (\<lambda>(k, _). k \<noteq> i) (gs_mergeableById groups) \<rparr>"
| "apply_request (Pin i certnames) groups =
     apply_to (\<lambda>g. g \<lparr> eg_pinnedCertnames := uniq (eg_pinnedCertnames g @ certnames) \<rparr>) (\<lambda>m. m) i groups"
| "apply_request (Unpin i certnames) groups =
     apply_to (\<lambda>g. g \<lparr> eg_pinnedCertnames := filter (\<lambda>c. c \<notin> set certnames) (eg_pinnedCertnames g) \<rparr>)
       (\<lambda>m. m) i groups"

definition applyOperation :: "group_set \<Rightarrow> plan_request \<Rightarrow> plan_error + group_set" where
  "applyOperation groups request =
     (let i = request_groupId request
      in if List.find (\<lambda>g. eg_id g = i) (gs_evaluable groups) = None \<or> map_of (gs_mergeableById groups) i = None
         then Inl (UnknownGroupError (''No node group '' @ i))
         else Inr (apply_request request groups))"

fun changesMembership :: "plan_request \<Rightarrow> bool" where
  "changesMembership (AssignClass _ _ _) = False"
| "changesMembership (RemoveClass _ _) = False"
| "changesMembership (SetParameter _ _ _) = False"
| "changesMembership (RemoveParameter _ _) = False"
| "changesMembership (UpdateGroup _ _ _ enabled strategy) = (enabled \<noteq> None \<or> strategy \<noteq> None)"
| "changesMembership _ = True"

section \<open>Warnings\<close>

record group_shape =
  sh_strategy :: match_strategy
  sh_ruleCount :: nat
  sh_pinCount :: nat

definition plural :: "nat \<Rightarrow> string \<Rightarrow> string" where
  "plural n word = nat_str n @ '' '' @ word @ (if n = 1 then [] else ''s'')"

definition decide :: "nat \<Rightarrow> string" where
  "decide n = (if n = 1 then ''decides'' else ''decide'')"

definition them :: "nat \<Rightarrow> string" where
  "them n = (if n = 1 then ''it'' else ''them'')"

definition strategy_name :: "match_strategy \<Rightarrow> string" where
  "strategy_name s = (case s of ALL_RULES \<Rightarrow> ''ALL_RULES'' | ANY_RULE \<Rightarrow> ''ANY_RULE'' | PINNED \<Rightarrow> ''PINNED'')"

definition apostrophe :: string where
  "apostrophe = [char_of (39 :: nat)]"

definition strategyWarnings :: "group_shape \<Rightarrow> string list" where
  "strategyWarnings g =
     (if sh_strategy g = PINNED
      then (if sh_ruleCount g > 0
            then [''This group'' @ apostrophe @ ''s strategy is PINNED, so its '' @ plural (sh_ruleCount g) ''rule''
                  @ '' currently '' @ decide (sh_ruleCount g) @ '' nothing. Change the strategy to ALL_RULES ''
                  @ ''or ANY_RULE to use '' @ them (sh_ruleCount g) @ ''.'']
            else [])
      else
        (if sh_pinCount g > 0
         then [''This group'' @ apostrophe @ ''s strategy is '' @ strategy_name (sh_strategy g) @ '', so its ''
               @ plural (sh_pinCount g) ''pinned node'' @ '' currently '' @ decide (sh_pinCount g)
               @ '' nothing. Change the strategy to PINNED to use '' @ them (sh_pinCount g) @ ''.'']
         else [])
        @ (if sh_ruleCount g = 0 then [''A rule-based group with no rules matches no nodes.''] else []))"

section \<open>Planning\<close>

record merged_document =
  md_classes :: "(jsval obj) obj"
  md_parameters :: "jsval obj"
  md_environment :: "string option"
  md_conflicts :: "classification_conflict list"

record node_outcome =
  no_certname :: string
  no_beforeGroups :: "string list"
  no_beforeHash :: string
  no_afterHash :: string
  no_beforeDoc :: merged_document
  no_afterDoc :: merged_document

definition documentFor ::
  "runtime \<Rightarrow> string \<Rightarrow> jsval obj \<Rightarrow> group_set \<Rightarrow> failure + (string \<times> merged_document \<times> string list)" where
  "documentFor rt certname facts groups =
     (let matched = matchGroups (rt_regexp rt) (rt_localeCompare rt)
                      \<lparr> en_certname = certname, en_facts = facts \<rparr> (gs_evaluable groups)
      in case merge_and_render rt (mergeables groups matched) of
           Inl e \<Rightarrow> Inl e
         | Inr (merged, rendered) \<Rightarrow>
             Inr (re_contentHash rendered,
                  \<lparr> md_classes = doc_classes (mr_document merged),
                    md_parameters = doc_parameters (mr_document merged),
                    md_environment = doc_environment (mr_document merged),
                    md_conflicts = mr_conflicts merged \<rparr>,
                  map eg_name matched))"

definition candidateNodes :: "nat \<Rightarrow> plan_request \<Rightarrow> db \<Rightarrow> node_row list" where
  "candidateNodes maxNodes request db =
     (let members = take maxNodes
            (filter (\<lambda>m. request_groupId request \<in> set (em_appliedGroupIds m)) (db_materializations db))
      in if \<not> changesMembership request \<and> length members > 0
         then filter (\<lambda>n. n_certname n \<in> set (map em_certname members)) (db_nodes db)
         else take maxNodes (js_sort (\<lambda>a b. cmp_str (n_certname a) (n_certname b)) (db_nodes db)))"

definition outcome_for :: "runtime \<Rightarrow> group_set \<Rightarrow> group_set \<Rightarrow> node_row \<Rightarrow> failure + node_outcome" where
  "outcome_for rt current proposed node =
     bind_err (documentFor rt (n_certname node) (n_facts node) current) (\<lambda>(bh, bd, bg).
     bind_err (documentFor rt (n_certname node) (n_facts node) proposed) (\<lambda>(ah, ad, _).
       Inr \<lparr> no_certname = n_certname node, no_beforeGroups = bg, no_beforeHash = bh, no_afterHash = ah,
             no_beforeDoc = bd, no_afterDoc = ad \<rparr>))"

record plan_counts =
  pc_total :: nat
  pc_added :: nat
  pc_removed :: nat
  pc_changed :: nat
  pc_unchanged :: nat

datatype shape_kind = Added | Removed | Changed

definition outcome_kind :: "node_outcome \<Rightarrow> shape_kind" where
  "outcome_kind out =
     (let hadClasses = md_classes (no_beforeDoc out) \<noteq> []; hasClasses = md_classes (no_afterDoc out) \<noteq> []
      in if \<not> hadClasses \<and> hasClasses then Added else if hadClasses \<and> \<not> hasClasses then Removed else Changed)"

definition countsFor :: "node_outcome list \<Rightarrow> node_outcome list \<Rightarrow> plan_counts" where
  "countsFor all changed =
     (let step = (\<lambda>(a, r, m) out. case outcome_kind out of
                     Added \<Rightarrow> (Suc a, r, m) | Removed \<Rightarrow> (a, Suc r, m) | Changed \<Rightarrow> (a, r, Suc m));
          (added, removed, modified) = foldl step (0, 0, 0) changed
      in \<lparr> pc_total = length changed, pc_added = added, pc_removed = removed, pc_changed = modified,
           pc_unchanged = length all - length changed \<rparr>)"

record plan_field_change =
  fc_className :: "string option"
  fc_key :: string
  fc_before :: jsval
  fc_after :: jsval

record plan_diff =
  pd_classesAdded :: "string list"
  pd_classesRemoved :: "string list"
  pd_classParameters :: "plan_field_change list"
  pd_parameters :: "plan_field_change list"
  pd_environmentBefore :: "string option"
  pd_environmentAfter :: "string option"

section \<open>The semantic difference\<close>

text \<open>
  \<open>Object.keys\<close> of a value that is an object but not an array. The values compared are reached
  by property reads, so a key one side does not have reads what every object inherits.
\<close>

fun obj_keys :: "jsval \<Rightarrow> string list" where
  "obj_keys (JObj o1) = keys o1"
| "obj_keys _ = []"

lemma vsize_pos: "0 < vsize v"
  by (cases v) auto

lemma vsize_js_get_le: "\<not> is_array a \<Longrightarrow> js_get a k = Some x \<Longrightarrow> vsize x \<le> vsize a"
proof (cases a)
  case (JObj o1)
  assume get: "js_get a k = Some x"
  show ?thesis
  proof (cases "oget o1 k")
    case None
    then have "vsize x = 1" using get JObj by (auto simp: object_proto_get_def native_def split: if_splits)
    then show ?thesis using vsize_pos [of a] by simp
  next
    case (Some v)
    with get JObj have "oget o1 k = Some x" by simp
    then show ?thesis using vsize_oget JObj less_imp_le by blast
  qed
qed (auto simp: object_proto_get_def array_proto_get_def native_def split: if_splits)

lemma vsize_js_get_own: "k \<in> set (obj_keys a) \<Longrightarrow> js_get a k = Some x \<Longrightarrow> vsize x < vsize a"
proof (cases a)
  case (JObj o1)
  assume "k \<in> set (obj_keys a)" "js_get a k = Some x"
  then have "oget o1 k = Some x" using JObj by (cases "oget o1 k") (auto simp: map_of_eq_None_iff)
  then show ?thesis using vsize_oget JObj by blast
qed auto

function same :: "jsval option \<Rightarrow> jsval option \<Rightarrow> bool" where
  "same u v =
     (case (u, v) of
        (Some a, Some b) \<Rightarrow>
          if a = JNull \<or> b = JNull then a = b
          else if is_array a \<or> is_array b
          then (case (a, b) of
                  (JArr xs, JArr ys) \<Rightarrow>
                    length xs = length ys \<and> list_all (\<lambda>(x, y). same (Some x) (Some y)) (zip xs ys)
                | _ \<Rightarrow> False)
          else if is_object a \<and> is_object b
          then list_all (\<lambda>k. same (js_get a k) (js_get b k)) (uniq (obj_keys a @ obj_keys b))
          else a = b
      | _ \<Rightarrow> u = v)"
  by auto
termination
proof (relation "measure (\<lambda>(u, v). case_option 0 vsize u + case_option 0 vsize v)", goal_cases)
  case 1
  then show ?case by simp
next
  case (2 u v x y a b a' b' xs ys p xe ye)
  then have mem: "xe \<in> set xs" "ye \<in> set ys" by (auto dest: set_zip_leftD set_zip_rightD)
  have "u = Some (JArr xs)" "v = Some (JArr ys)" using 2 by auto
  with mem vsize_arr [of xe xs] vsize_arr [of ye ys] show ?case by (simp del: vsize.simps)
next
  case (3 u v x y a b k)
  have le: "case_option 0 vsize (js_get a k) \<le> vsize a" "case_option 0 vsize (js_get b k) \<le> vsize b"
    using 3 vsize_js_get_le [of a k] vsize_js_get_le [of b k] by (auto split: option.splits)
  have "k \<in> set (obj_keys a) \<or> k \<in> set (obj_keys b)" using 3 by simp
  then have "case_option 0 vsize (js_get a k) < vsize a \<or> case_option 0 vsize (js_get b k) < vsize b"
    using vsize_js_get_own vsize_pos by (auto split: option.splits)
  with le 3 show ?case by auto
qed

declare same.simps [simp del]

definition or_null :: "jsval option \<Rightarrow> jsval" where
  "or_null v = (case v of None \<Rightarrow> JNull | Some w \<Rightarrow> w)"

definition field_changes :: "string option \<Rightarrow> jsval obj \<Rightarrow> jsval obj \<Rightarrow> plan_field_change list" where
  "field_changes className b a =
     map (\<lambda>key. \<lparr> fc_className = className, fc_key = key, fc_before = or_null (js_get (JObj b) key),
                  fc_after = or_null (js_get (JObj a) key) \<rparr>)
       (filter (\<lambda>key. \<not> same (js_get (JObj b) key) (js_get (JObj a) key)) (uniq (keys b @ keys a)))"

definition class_of :: "(jsval obj) obj \<Rightarrow> string \<Rightarrow> jsval obj" where
  "class_of classes c = (case oget classes c of None \<Rightarrow> [] | Some ps \<Rightarrow> ps)"

definition diffDocuments :: "merged_document \<Rightarrow> merged_document \<Rightarrow> plan_diff" where
  "diffDocuments before after =
     (let beforeClasses = keys (md_classes before); afterClasses = keys (md_classes after)
      in \<lparr> pd_classesAdded = sort (filter (\<lambda>c. c \<notin> set beforeClasses) afterClasses),
           pd_classesRemoved = sort (filter (\<lambda>c. c \<notin> set afterClasses) beforeClasses),
           pd_classParameters =
             concat (map (\<lambda>c. field_changes (Some c) (class_of (md_classes before) c) (class_of (md_classes after) c))
               (filter (\<lambda>c. c \<in> set beforeClasses) afterClasses)),
           pd_parameters = field_changes None (md_parameters before) (md_parameters after),
           pd_environmentBefore = md_environment before,
           pd_environmentAfter = md_environment after \<rparr>)"

section \<open>The plan\<close>

record plan_shape =
  ps_count :: nat
  ps_exemplar :: string
  ps_certnames :: "string list"
  ps_kind :: shape_kind
  ps_diff :: plan_diff
  ps_currentGroups :: "string list"

text \<open>The map from keys to buckets, in insertion order.\<close>

fun add_to_bucket :: "string \<Rightarrow> node_outcome \<Rightarrow> (string \<times> node_outcome list) list
    \<Rightarrow> (string \<times> node_outcome list) list" where
  "add_to_bucket key out [] = [(key, [out])]"
| "add_to_bucket key out ((k, bucket) # rest) =
     (if k = key then (k, bucket @ [out]) # rest else (k, bucket) # add_to_bucket key out rest)"

definition outcome_key :: "node_outcome \<Rightarrow> string" where
  "outcome_key out = no_beforeHash out @ ''->'' @ no_afterHash out"

definition buckets :: "node_outcome list \<Rightarrow> (string \<times> node_outcome list) list" where
  "buckets changed = foldl (\<lambda>m out. add_to_bucket (outcome_key out) out m) [] changed"

definition shape_of :: "nat \<Rightarrow> node_outcome list \<Rightarrow> plan_shape" where
  "shape_of maxCertnames bucket =
     (let first = hd bucket
      in \<lparr> ps_count = length bucket, ps_exemplar = no_certname first,
           ps_certnames = map no_certname (take maxCertnames bucket),
           ps_kind = outcome_kind first,
           ps_diff = diffDocuments (no_beforeDoc first) (no_afterDoc first),
           ps_currentGroups = no_beforeGroups first \<rparr>)"

definition shapesFor :: "nat \<Rightarrow> node_outcome list \<Rightarrow> plan_shape list" where
  "shapesFor maxCertnames changed =
     map (shape_of maxCertnames)
       (js_sort (\<lambda>a b. int (length b) - int (length a)) (map snd (buckets changed)))"

definition kind_name :: "conflict_kind \<Rightarrow> string" where
  "kind_name k = (case k of CLASS_PARAMETER \<Rightarrow> ''CLASS_PARAMETER'' | TOP_SCOPE_PARAMETER \<Rightarrow> ''TOP_SCOPE_PARAMETER''
                  | ENVIRONMENT \<Rightarrow> ''ENVIRONMENT'')"

definition conflictKey :: "classification_conflict \<Rightarrow> string" where
  "conflictKey c = kind_name (cc_kind c) @ '':'' @ cc_key c @ '':'' @ winningGroupId c @ '':'' @ losingGroupId c"

definition introduce ::
  "string set \<Rightarrow> (string \<times> classification_conflict) list \<Rightarrow> classification_conflict
   \<Rightarrow> (string \<times> classification_conflict) list" where
  "introduce before introduced c =
     (let key = conflictKey c
      in if key \<notin> before \<and> key \<notin> set (map fst introduced) then introduced @ [(key, c)] else introduced)"

definition newConflicts :: "node_outcome list \<Rightarrow> classification_conflict list" where
  "newConflicts changed =
     map snd (foldl (\<lambda>introduced out.
        foldl (introduce (set (map conflictKey (md_conflicts (no_beforeDoc out))))) introduced
          (md_conflicts (no_afterDoc out))) [] changed)"

definition warningsFor :: "plan_request \<Rightarrow> group_set \<Rightarrow> nat \<Rightarrow> nat \<Rightarrow> string list" where
  "warningsFor request proposed evaluated estateSize =
     (if evaluated < estateSize
      then [''This estate has '' @ nat_str estateSize @ '' nodes and this plan evaluated '' @ nat_str evaluated
            @ ''. '' @ ''The real change may affect nodes not shown here.'']
      else [])
     @ (case List.find (\<lambda>g. eg_id g = request_groupId request) (gs_evaluable proposed) of
          None \<Rightarrow> []
        | Some g \<Rightarrow> strategyWarnings \<lparr> sh_strategy = eg_strategy g, sh_ruleCount = length (eg_rules g),
                                        sh_pinCount = length (eg_pinnedCertnames g) \<rparr>)"

record plan_response =
  pr_counts :: plan_counts
  pr_shapes :: "plan_shape list"
  pr_conflictsIntroduced :: "classification_conflict list"
  pr_warnings :: "string list"
  pr_truncated :: bool
  pr_evaluated :: nat
  pr_estateSize :: nat

datatype plan_failure = UnknownGroup plan_error | PipelineFailure failure

record planner_pacing =
  pp_maxNodes :: nat
  pp_maxCertnamesPerShape :: nat

definition DEFAULT_PLANNER_PACING :: planner_pacing where
  "DEFAULT_PLANNER_PACING = \<lparr> pp_maxNodes = 2000, pp_maxCertnamesPerShape = 50 \<rparr>"

fun collect_outcomes :: "(node_row \<Rightarrow> failure + node_outcome) \<Rightarrow> node_row list \<Rightarrow> failure + node_outcome list" where
  "collect_outcomes f [] = Inr []"
| "collect_outcomes f (n # ns) =
     bind_err (f n) (\<lambda>out. bind_err (collect_outcomes f ns) (\<lambda>outs. Inr (out # outs)))"

definition plan :: "runtime \<Rightarrow> planner_pacing \<Rightarrow> plan_request \<Rightarrow> db \<Rightarrow> plan_failure + plan_response" where
  "plan rt pacing request db =
     (let current = loadGroups True db
      in case applyOperation current request of
           Inl e \<Rightarrow> Inl (UnknownGroup e)
         | Inr proposed \<Rightarrow>
             let estateSize = length (db_nodes db);
                 nodes = candidateNodes (pp_maxNodes pacing) request db
             in case collect_outcomes (outcome_for rt current proposed) nodes of
                  Inl e \<Rightarrow> Inl (PipelineFailure e)
                | Inr outcomes \<Rightarrow>
                    let changed = filter (\<lambda>out. no_beforeHash out \<noteq> no_afterHash out) outcomes
                    in Inr \<lparr> pr_counts = countsFor outcomes changed,
                             pr_shapes = shapesFor (pp_maxCertnamesPerShape pacing) changed,
                             pr_conflictsIntroduced = newConflicts changed,
                             pr_warnings = warningsFor request proposed (length nodes) estateSize,
                             pr_truncated = (length nodes < estateSize),
                             pr_evaluated = length nodes,
                             pr_estateSize = estateSize \<rparr>)"

section \<open>Lemmas: membership\<close>

text \<open>The transformations that leave alone everything \<open>groupMatches\<close> reads.\<close>

definition keeps_matching :: "(evaluable_group \<Rightarrow> evaluable_group) \<Rightarrow> bool" where
  "keeps_matching f \<longleftrightarrow>
     (\<forall>g. eg_id (f g) = eg_id g \<and> eg_name (f g) = eg_name g \<and> eg_isEnabled (f g) = eg_isEnabled g \<and>
          eg_strategy (f g) = eg_strategy g \<and> eg_rules (f g) = eg_rules g \<and>
          eg_pinnedCertnames (f g) = eg_pinnedCertnames g)"

lemma keeps_matching_groupMatches: "keeps_matching f \<Longrightarrow> groupMatches re node (f g) = groupMatches re node g"
  by (simp add: keeps_matching_def groupMatches_def split: match_strategy.split)

lemma apply_request_keeps:
  assumes "\<not> changesMembership request"
  obtains f h where "apply_request request groups = apply_to f h (request_groupId request) groups" "keeps_matching f"
proof (cases request)
  case (AssignClass i c ps)
  then show ?thesis by (intro that [of "\<lambda>g. g" "on_classes (assign c ps)"]) (simp_all add: keeps_matching_def)
next
  case (RemoveClass i c)
  then show ?thesis by (intro that [of "\<lambda>g. g" "on_classes (odel c)"]) (simp_all add: keeps_matching_def)
next
  case (SetParameter i k v)
  then show ?thesis by (intro that [of "\<lambda>g. g" "on_parameters (assign k v)"]) (simp_all add: keeps_matching_def)
next
  case (RemoveParameter i k)
  then show ?thesis by (intro that [of "\<lambda>g. g" "on_parameters (odel k)"]) (simp_all add: keeps_matching_def)
next
  case (UpdateGroup i rank env enabled strategy)
  with assms have "enabled = None" "strategy = None" by simp_all
  with UpdateGroup show ?thesis
    by (intro that [of "\<lambda>g. g \<lparr> eg_rank := set_option rank (eg_rank g),
                       eg_isEnabled := set_option enabled (eg_isEnabled g),
                       eg_strategy := set_option strategy (eg_strategy g) \<rparr>"
                "\<lambda>m. m \<lparr> mg_environment := set_option env (mg_environment m) \<rparr>"])
      (simp_all add: keeps_matching_def set_option_def)
qed (use assms in simp_all)

lemma update_first_map:
  assumes "distinct (map eg_id gs)"
  shows "update_first i f gs = map (\<lambda>g. if eg_id g = i then f g else g) gs"
  using assms
proof (induction gs)
  case Nil
  then show ?case by simp
next
  case (Cons g gs)
  have "map (\<lambda>g. if eg_id g = i then f g else g) gs = gs" if "eg_id g = i"
  proof -
    have "i \<notin> eg_id ` set gs" using Cons.prems that by simp
    then show ?thesis by (intro map_idI) (metis image_eqI)
  qed
  with Cons show ?case by auto
qed

lemma filter_update_other:
  assumes "distinct (map eg_id gs)" "keeps_matching f"
    and "\<forall>g \<in> set gs. eg_id g = i \<longrightarrow> \<not> groupMatches re node g"
  shows "filter (groupMatches re node) (update_first i f gs) = filter (groupMatches re node) gs"
  using assms(3) unfolding update_first_map [OF assms(1)]
  by (induction gs) (auto simp: keeps_matching_groupMatches [OF assms(2)])

lemma map_of_update_entry: "map_of (update_entry i h ms) k = map_option (if k = i then h else id) (map_of ms k)"
  by (induction ms) (auto simp: update_entry_def)

lemma mergeables_other:
  assumes "\<forall>g \<in> set matched. eg_id g \<noteq> i"
  shows "mergeables (apply_to f h i groups) matched = mergeables groups matched"
proof -
  have "map (\<lambda>g. map_of (gs_mergeableById (apply_to f h i groups)) (eg_id g)) matched =
      map (\<lambda>g. map_of (gs_mergeableById groups) (eg_id g)) matched"
    using assms by (auto simp: apply_to_def map_of_update_entry option.map_id)
  then show ?thesis by (simp only: mergeables_def)
qed

section \<open>Lemmas: the difference\<close>

text \<open>JSON values without a \<open>__proto__\<close> key anywhere.\<close>

fun plain :: "jsval \<Rightarrow> bool" where
  "plain (JArr vs) = list_all plain vs"
| "plain (JObj o1) = (distinct (keys o1) \<and> list_all (\<lambda>(k, v). k \<noteq> ''__proto__'' \<and> plain v) o1)"
| "plain (JNative _) = False"
| "plain (JProto _) = False"
| "plain _ = True"

definition plain_obj :: "jsval obj \<Rightarrow> bool" where
  "plain_obj o1 \<longleftrightarrow> plain (JObj o1)"

lemma plain_obj_get:
  assumes "plain_obj o1" "k \<noteq> ''__proto__''"
  shows "js_get (JObj o1) k = (case oget o1 k of Some v \<Rightarrow> Some v | None \<Rightarrow> object_proto_get k)"
  using assms by (simp split: option.splits)

lemma plain_obj_keys: "plain_obj o1 \<Longrightarrow> k \<in> fst ` set o1 \<Longrightarrow> k \<noteq> ''__proto__''"
  by (auto simp: plain_obj_def list_all_iff)

lemma plain_obj_oget: "plain_obj o1 \<Longrightarrow> oget o1 k = Some v \<Longrightarrow> plain v"
  by (auto simp: plain_obj_def list_all_iff dest: map_of_SomeD)

lemma plain_obj_distinct: "plain_obj o1 \<Longrightarrow> distinct (keys o1)"
  by (simp add: plain_obj_def)

lemma same_inherited:
  assumes "plain v"
  shows "\<not> same (object_proto_get k) (Some v)" "\<not> same (Some v) (object_proto_get k)"
  using assms
  by (cases v; auto simp: same.simps object_proto_get_def native_def)+

lemma same_field:
  assumes "plain_obj a" "plain_obj b" "k \<in> fst ` set a \<union> fst ` set b"
    and "\<And>x y. oget a k = Some x \<Longrightarrow> oget b k = Some y \<Longrightarrow> same (Some x) (Some y) = (canon x = canon y)"
  shows "same (js_get (JObj a) k) (js_get (JObj b) k) = (map_option canon (oget a k) = map_option canon (oget b k))"
proof -
  have k: "k \<noteq> ''__proto__''" using assms(1-3) plain_obj_keys by blast
  have some: "oget a k \<noteq> None \<or> oget b k \<noteq> None" using assms(3) by (auto simp: map_of_eq_None_iff)
  show ?thesis
  proof (cases "oget a k")
    case None
    with some obtain y where y: "oget b k = Some y" by auto
    then have "plain y" using assms(2) plain_obj_oget by blast
    with None y show ?thesis
      by (simp only: plain_obj_get [OF assms(1) k] plain_obj_get [OF assms(2) k]) (simp add: same_inherited)
  next
    case (Some x)
    then have px: "plain x" using assms(1) plain_obj_oget by blast
    show ?thesis
    proof (cases "oget b k")
      case None
      with Some px show ?thesis
        by (simp only: plain_obj_get [OF assms(1) k] plain_obj_get [OF assms(2) k]) (simp add: same_inherited)
    next
      case (Some y)
      with \<open>oget a k = Some x\<close> assms(4) show ?thesis
        by (simp only: plain_obj_get [OF assms(1) k] plain_obj_get [OF assms(2) k]) simp
    qed
  qed
qed

lemma same_obj:
  assumes "plain_obj a" "plain_obj b"
    and "\<And>k x y. oget a k = Some x \<Longrightarrow> oget b k = Some y \<Longrightarrow> same (Some x) (Some y) = (canon x = canon y)"
  shows "list_all (\<lambda>k. same (js_get (JObj a) k) (js_get (JObj b) k)) (uniq (keys a @ keys b)) =
    (canon (JObj a) = canon (JObj b))"
proof -
  have "list_all (\<lambda>k. same (js_get (JObj a) k) (js_get (JObj b) k)) (uniq (keys a @ keys b)) =
      (\<forall>k \<in> fst ` set a \<union> fst ` set b. map_option canon (oget a k) = map_option canon (oget b k))"
    using same_field [OF assms(1,2) _ assms(3)] by (auto simp: list_all_iff simp del: js_get.simps)
  also have "\<dots> = (\<forall>k. map_option canon (oget a k) = map_option canon (oget b k))"
  proof -
    have "oget a k = None \<and> oget b k = None" if "k \<notin> fst ` set a \<union> fst ` set b" for k
      using that by (simp add: map_of_eq_None_iff)
    then show ?thesis by (metis option.map(1))
  qed
  finally show ?thesis
    by (simp only: canon_obj_eq_iff [OF plain_obj_distinct [OF assms(1)] plain_obj_distinct [OF assms(2)]])
qed

lemma same_canon: "plain a \<Longrightarrow> plain b \<Longrightarrow> same (Some a) (Some b) = (canon a = canon b)"
proof (induction a arbitrary: b rule: measure_induct_rule [of vsize])
  case (less a)
  consider (arr) xs ys where "a = JArr xs" "b = JArr ys" | (obj) xs ys where "a = JObj xs" "b = JObj ys"
    | (other) "\<nexists>xs ys. a = JArr xs \<and> b = JArr ys" "\<nexists>xs ys. a = JObj xs \<and> b = JObj ys" by blast
  then show ?case
  proof cases
    case arr
    have "same (Some x) (Some y) = (canon x = canon y)" if "x \<in> set xs" "y \<in> set ys" for x y
    proof (rule less.IH)
      show "vsize x < vsize a" using that(1) arr(1) vsize_arr by blast
      show "plain x" "plain y" using less.prems that arr by (simp_all add: list_all_iff)
    qed
    then have "list_all (\<lambda>(x, y). same (Some x) (Some y)) (zip xs ys) = list_all (\<lambda>(x, y). canon x = canon y) (zip xs ys)"
      by (intro list.pred_cong refl) (auto dest: set_zip_leftD set_zip_rightD)
    then show ?thesis
      by (subst same.simps) (auto simp: arr list_all_length list_eq_iff_nth_eq)
  next
    case obj
    have objs: "plain_obj xs" "plain_obj ys" using less.prems obj by (simp_all add: plain_obj_def)
    have "same (Some x) (Some y) = (canon x = canon y)" if "oget xs k = Some x" "oget ys k = Some y" for k x y
    proof (rule less.IH)
      show "vsize x < vsize a" using that(1) obj(1) vsize_oget by blast
      show "plain x" "plain y" using that objs plain_obj_oget by blast+
    qed
    from same_obj [OF objs this] show ?thesis
      by (subst same.simps) (simp add: obj del: canon.simps js_get.simps)
  next
    case other
    then show ?thesis using less.prems by (subst same.simps) (cases a; cases b; simp)
  qed
qed

lemma field_changes_empty:
  assumes "plain_obj a" "plain_obj b"
  shows "field_changes c a b = [] \<longleftrightarrow> canon (JObj a) = canon (JObj b)"
proof -
  have "field_changes c a b = [] \<longleftrightarrow>
      list_all (\<lambda>k. same (js_get (JObj a) k) (js_get (JObj b) k)) (uniq (keys a @ keys b))"
    by (simp add: field_changes_def filter_empty_conv list_all_iff del: js_get.simps)
  also have "\<dots> = (canon (JObj a) = canon (JObj b))"
    by (rule same_obj [OF assms]) (use assms same_canon plain_obj_oget in blast)
  finally show ?thesis .
qed

section \<open>Lemmas: the counts\<close>

lemma countsFor_fold:
  "foldl (\<lambda>(a, r, m) out. case outcome_kind out of
            Added \<Rightarrow> (Suc a, r, m) | Removed \<Rightarrow> (a, Suc r, m) | Changed \<Rightarrow> (a, r, Suc m)) (a0, r0, m0) xs =
   (a0 + length (filter (\<lambda>x. outcome_kind x = Added) xs), r0 + length (filter (\<lambda>x. outcome_kind x = Removed) xs),
    m0 + length (filter (\<lambda>x. outcome_kind x = Changed) xs))"
  by (induction xs arbitrary: a0 r0 m0) (auto split: shape_kind.split)

lemma countsFor_eq:
  "countsFor all changed =
     \<lparr> pc_total = length changed, pc_added = length (filter (\<lambda>x. outcome_kind x = Added) changed),
       pc_removed = length (filter (\<lambda>x. outcome_kind x = Removed) changed),
       pc_changed = length (filter (\<lambda>x. outcome_kind x = Changed) changed),
       pc_unchanged = length all - length changed \<rparr>"
  unfolding countsFor_def Let_def by (subst countsFor_fold) simp

lemma shape_kind_partition:
  "length (filter (\<lambda>x. f x = Added) xs) + length (filter (\<lambda>x. f x = Removed) xs)
     + length (filter (\<lambda>x. f x = Changed) xs) = length xs"
proof (induction xs)
  case Nil
  then show ?case by simp
next
  case (Cons x xs)
  then show ?case by (cases "f x") simp_all
qed

lemma mset_add_to_bucket:
  "mset (concat (map snd (add_to_bucket key out m))) = add_mset out (mset (concat (map snd m)))"
  by (induction m) auto

lemma mset_buckets: "mset (concat (map snd (buckets changed))) = mset changed"
proof -
  have "mset (concat (map snd (foldl (\<lambda>m out. add_to_bucket (outcome_key out) out m) m0 xs))) =
      mset (concat (map snd m0)) + mset xs" for m0 xs
    by (induction xs arbitrary: m0) (simp_all add: mset_add_to_bucket)
  from this [of "[]" changed] show ?thesis by (simp add: buckets_def)
qed

definition bucket_inv :: "(string \<times> node_outcome list) list \<Rightarrow> bool" where
  "bucket_inv m \<longleftrightarrow> distinct (map fst m) \<and> (\<forall>(k, b) \<in> set m. b \<noteq> [] \<and> (\<forall>out \<in> set b. outcome_key out = k))"

lemma add_to_bucket_keys: "fst ` set (add_to_bucket key out m) = insert key (fst ` set m)"
proof (induction m)
  case Nil
  then show ?case by simp
next
  case (Cons e m)
  obtain k b where "e = (k, b)" by (cases e)
  with Cons show ?case by (cases "k = key") (simp_all add: insert_commute)
qed

lemma bucket_inv_add: "bucket_inv m \<Longrightarrow> bucket_inv (add_to_bucket (outcome_key out) out m)"
proof (induction m)
  case Nil
  then show ?case by (simp add: bucket_inv_def)
next
  case (Cons e m)
  obtain k b where e: "e = (k, b)" by (cases e)
  show ?case
  proof (cases "k = outcome_key out")
    case True
    with Cons.prems e show ?thesis by (auto simp: bucket_inv_def)
  next
    case False
    have "bucket_inv m" using Cons.prems by (auto simp: bucket_inv_def)
    note IH = Cons.IH [OF this]
    have "k \<notin> fst ` set (add_to_bucket (outcome_key out) out m)"
      using Cons.prems False e by (simp add: add_to_bucket_keys bucket_inv_def)
    with IH Cons.prems False e show ?thesis by (auto simp: bucket_inv_def)
  qed
qed

lemma bucket_inv_buckets: "bucket_inv (buckets changed)"
proof -
  have "bucket_inv m0 \<Longrightarrow> bucket_inv (foldl (\<lambda>m out. add_to_bucket (outcome_key out) out m) m0 xs)" for m0 xs
    by (induction xs arbitrary: m0) (simp_all add: bucket_inv_add)
  from this [of "[]" changed] show ?thesis by (simp add: buckets_def bucket_inv_def)
qed

lemma shapes_total: "sum_list (map ps_count (shapesFor n changed)) = length changed"
proof -
  have "map ps_count (shapesFor n changed) = map length (js_sort (\<lambda>a b. int (length b) - int (length a)) (map snd (buckets changed)))"
    by (simp add: shapesFor_def shape_of_def Let_def)
  moreover have "sum_list (map length (js_sort c bs)) = sum_list (map length bs)"
    for c and bs :: "node_outcome list list"
    by (metis mset_js_sort mset_map sum_mset_sum_list)
  moreover have "sum_list (map length (map snd (buckets changed))) = length (concat (map snd (buckets changed)))"
    by (simp add: length_concat)
  moreover have "length (concat (map snd (buckets changed))) = length changed"
    using mset_buckets by (metis size_mset)
  ultimately show ?thesis by simp
qed

lemma collect_outcomes_map:
  "collect_outcomes f ns = Inr outs \<Longrightarrow> length outs = length ns \<and> (\<forall>i < length ns. f (ns ! i) = Inr (outs ! i))"
proof (induction ns arbitrary: outs)
  case Nil
  then show ?case by simp
next
  case (Cons n ns)
  then obtain out outs' where "f n = Inr out" "collect_outcomes f ns = Inr outs'" "outs = out # outs'"
    by (auto simp: bind_err_Inr)
  with Cons.IH show ?case by (auto simp: nth_Cons split: nat.split)
qed

lemma candidateNodes_length: "length (candidateNodes n request db) \<le> length (db_nodes db)"
  by (simp add: candidateNodes_def Let_def)

section \<open>Properties\<close>

text \<open>
  C7. The shortcut of \<open>candidateNodes\<close> is sound. A request that \<open>changesMembership\<close> says cannot
  move the membership boundary leaves every node in exactly the groups it was in, and a node that
  does not match the group of the request gets the very same document and hash before and after.
\<close>

theorem membership_shortcut_sound:
  assumes "applyOperation groups request = Inr groups'" "\<not> changesMembership request"
    and "distinct (map eg_id (gs_evaluable groups))"
  shows "eg_id ` set (matchGroups re lc node (gs_evaluable groups')) = eg_id ` set (matchGroups re lc node (gs_evaluable groups))
    \<and> (request_groupId request \<notin> eg_id ` set (matchGroups (rt_regexp rt) (rt_localeCompare rt)
          \<lparr> en_certname = certname, en_facts = facts \<rparr> (gs_evaluable groups))
       \<longrightarrow> documentFor rt certname facts groups' = documentFor rt certname facts groups)"
proof -
  obtain f h where fh: "apply_request request groups = apply_to f h (request_groupId request) groups"
    and keeps: "keeps_matching f"
    using apply_request_keeps [OF assms(2)] by blast
  have groups': "groups' = apply_to f h (request_groupId request) groups"
    using assms(1) fh by (auto simp: applyOperation_def Let_def split: if_splits)
  have ids: "eg_id ` set (matchGroups re lc node (gs_evaluable groups')) = eg_id ` set (matchGroups re lc node (gs_evaluable groups))"
  proof -
    have "set (matchGroups re lc node (gs_evaluable groups')) =
        (\<lambda>g. if eg_id g = request_groupId request then f g else g) ` set (matchGroups re lc node (gs_evaluable groups))"
      by (auto simp: groups' apply_to_def update_first_map [OF assms(3)] keeps_matching_groupMatches [OF keeps])
    moreover have "eg_id (if eg_id g = request_groupId request then f g else g) = eg_id g" for g
      using keeps by (simp add: keeps_matching_def)
    ultimately show ?thesis by (simp only: image_image)
  qed
  let ?n = "\<lparr> en_certname = certname, en_facts = facts \<rparr>"
  let ?matched = "matchGroups (rt_regexp rt) (rt_localeCompare rt) ?n (gs_evaluable groups)"
  have "documentFor rt certname facts groups' = documentFor rt certname facts groups"
    if other: "request_groupId request \<notin> eg_id ` set ?matched"
  proof -
    have "\<forall>g \<in> set (gs_evaluable groups). eg_id g = request_groupId request \<longrightarrow> \<not> groupMatches (rt_regexp rt) ?n g"
      using other by (auto simp: image_iff)
    then have matched: "matchGroups (rt_regexp rt) (rt_localeCompare rt) ?n (gs_evaluable groups') = ?matched"
      by (simp add: matchGroups_def groups' apply_to_def filter_update_other [OF assms(3) keeps])
    have "\<forall>g \<in> set ?matched. eg_id g \<noteq> request_groupId request" using other by (metis image_eqI)
    then have "mergeables groups' ?matched = mergeables groups ?matched"
      unfolding groups' by (rule mergeables_other)
    then show ?thesis by (simp only: documentFor_def Let_def matched)
  qed
  with ids show ?thesis by blast
qed

definition demo_set :: group_set where
  "demo_set =
     \<lparr> gs_evaluable = [demo_group ''a'' 1, (demo_group ''b'' 2) \<lparr> eg_rules := [] \<rparr>],
       gs_mergeableById = [(''a'', demo_mergeable ''a'' None 80), (''b'', demo_mergeable ''b'' None 81)] \<rparr>"

theorem membership_shortcut_sound_witness:
  "documentFor demo_runtime ''web01'' (en_facts demo_node) (apply_request (RemoveClass ''b'' ''profile::web'') demo_set) =
   documentFor demo_runtime ''web01'' (en_facts demo_node) demo_set"
proof -
  have op: "applyOperation demo_set (RemoveClass ''b'' ''profile::web'') = Inr (apply_request (RemoveClass ''b'' ''profile::web'') demo_set)"
    by (simp add: applyOperation_def Let_def demo_set_def demo_group_def)
  have "distinct (map eg_id (gs_evaluable demo_set))" by (simp add: demo_set_def demo_group_def)
  note sound = membership_shortcut_sound [OF op _ this, where certname = "''web01''" and rt = demo_runtime and facts = "en_facts demo_node"]
  have "\<not> list_ex (\<lambda>g. eg_id g = ''b'') (matchGroups (rt_regexp demo_runtime) (rt_localeCompare demo_runtime)
      \<lparr> en_certname = ''web01'', en_facts = en_facts demo_node \<rparr> (gs_evaluable demo_set))"
    by code_simp
  then have "''b'' \<notin> eg_id ` set (matchGroups (rt_regexp demo_runtime) (rt_localeCompare demo_runtime)
      \<lparr> en_certname = ''web01'', en_facts = en_facts demo_node \<rparr> (gs_evaluable demo_set))"
    by (rule list_ex_not_image)
  with sound show ?thesis by (simp only: changesMembership.simps request_groupId.simps not_False_eq_True simp_thms)
qed

text \<open>
  The numbers of a plan add up. Every evaluated node is counted once, as added, removed,
  changed or unchanged; the shapes partition the changed nodes; a plan is truncated exactly when
  it evaluated fewer nodes than the estate has; and it fails as unknown exactly when no group has
  the id of the request.
\<close>

theorem plan_accounts_for_every_node:
  "(case plan rt pacing request db of
      Inr r \<Rightarrow>
        pc_added (pr_counts r) + pc_removed (pr_counts r) + pc_changed (pr_counts r) = pc_total (pr_counts r)
        \<and> pc_total (pr_counts r) + pc_unchanged (pr_counts r) = pr_evaluated r
        \<and> sum_list (map ps_count (pr_shapes r)) = pc_total (pr_counts r)
        \<and> (pr_truncated r \<longleftrightarrow> pr_evaluated r < pr_estateSize r) \<and> pr_evaluated r \<le> pr_estateSize r
    | Inl (UnknownGroup e) \<Rightarrow> request_groupId request \<notin> g_id ` set (db_groups db)
    | Inl (PipelineFailure e) \<Rightarrow> True)
   \<and> (plan rt pacing request db = Inl (UnknownGroup (UnknownGroupError (''No node group '' @ request_groupId request)))
      \<longleftrightarrow> request_groupId request \<notin> g_id ` set (db_groups db))"
proof -
  let ?i = "request_groupId request" and ?cur = "loadGroups True db"
  have known: "(List.find (\<lambda>g. eg_id g = ?i) (gs_evaluable ?cur) = None \<or> map_of (gs_mergeableById ?cur) ?i = None) =
      (?i \<notin> g_id ` set (db_groups db))"
    by (auto simp: loadGroups_def Let_def find_None_iff map_of_eq_None_iff to_evaluable_def image_image)
  show ?thesis
  proof (cases "?i \<in> g_id ` set (db_groups db)")
    case False
    then have "applyOperation ?cur request = Inl (UnknownGroupError (''No node group '' @ ?i))"
      using known by (simp add: applyOperation_def Let_def)
    with False show ?thesis by (simp add: plan_def Let_def)
  next
    case True
    then have op: "applyOperation ?cur request = Inr (apply_request request ?cur)"
      using known by (simp add: applyOperation_def Let_def)
    let ?nodes = "candidateNodes (pp_maxNodes pacing) request db"
    show ?thesis
    proof (cases "collect_outcomes (outcome_for rt ?cur (apply_request request ?cur)) ?nodes")
      case (Inl e)
      with op True show ?thesis by (simp add: plan_def Let_def)
    next
      case (Inr outs)
      have len: "length outs = length ?nodes" using collect_outcomes_map [OF Inr] by simp
      have "length (filter (\<lambda>out. no_beforeHash out \<noteq> no_afterHash out) outs) \<le> length outs"
        by (rule length_filter_le)
      with Inr op True len candidateNodes_length [of "pp_maxNodes pacing" request db] show ?thesis
        by (simp add: plan_def Let_def countsFor_eq shapes_total shape_kind_partition del: filter_filter)
    qed
  qed
qed

definition md_value :: "merged_document \<Rightarrow> jsval" where
  "md_value d =
     doc_value \<lparr> doc_classes = md_classes d, doc_parameters = md_parameters d, doc_environment = md_environment d \<rparr>"

definition md_plain :: "merged_document \<Rightarrow> bool" where
  "md_plain d \<longleftrightarrow> distinct (keys (md_classes d)) \<and> (\<forall>c ps. (c, ps) \<in> set (md_classes d) \<longrightarrow> plain_obj ps)
     \<and> plain_obj (md_parameters d)"

lemma md_plain_value:
  assumes "md_plain d"
  shows "distinct (keys (map (\<lambda>(c, ps). (c, JObj ps)) (md_classes d)))" "distinct (keys (md_parameters d))"
    "plain_obj (class_of (md_classes d) c)"
proof -
  show "distinct (keys (map (\<lambda>(c, ps). (c, JObj ps)) (md_classes d)))" "distinct (keys (md_parameters d))"
    using assms by (simp_all add: md_plain_def plain_obj_distinct del: map_map)
  show "plain_obj (class_of (md_classes d) c)"
    using assms by (auto simp: md_plain_def class_of_def plain_obj_def split: option.splits dest!: map_of_SomeD)
qed

text \<open>
  The semantic difference of two documents is empty exactly when they are the same document up
  to the order of keys: no change is missed, and no phantom change is reported for a different key
  order.
\<close>

theorem diffDocuments_empty_iff_same:
  assumes "md_plain before" "md_plain after"
  shows "pd_classesAdded (diffDocuments before after) = [] \<and> pd_classesRemoved (diffDocuments before after) = []
      \<and> pd_classParameters (diffDocuments before after) = [] \<and> pd_parameters (diffDocuments before after) = []
      \<and> pd_environmentBefore (diffDocuments before after) = pd_environmentAfter (diffDocuments before after)
    \<longleftrightarrow> canon (md_value before) = canon (md_value after)"
proof -
  let ?cs = "\<lambda>d. map (\<lambda>(c, ps). (c, JObj ps)) (md_classes d)"
  note wf = md_plain_value [OF assms(1)] md_plain_value [OF assms(2)]
  have params: "pd_parameters (diffDocuments before after) = [] \<longleftrightarrow>
      canon (JObj (md_parameters before)) = canon (JObj (md_parameters after))"
    using assms by (simp add: diffDocuments_def Let_def field_changes_empty md_plain_def del: canon.simps)
  have lookup: "oget (?cs d) c = map_option JObj (oget (md_classes d) c)" for d c
    by (simp add: map_of_map_snd)
  have "pd_classesAdded (diffDocuments before after) = [] \<and> pd_classesRemoved (diffDocuments before after) = []
      \<longleftrightarrow> fst ` set (md_classes before) = fst ` set (md_classes after)"
    by (auto simp: diffDocuments_def Let_def filter_empty_conv simp flip: set_empty)
  moreover have "pd_classParameters (diffDocuments before after) = [] \<longleftrightarrow>
      (\<forall>c \<in> fst ` set (md_classes before) \<inter> fst ` set (md_classes after).
         canon (JObj (class_of (md_classes before) c)) = canon (JObj (class_of (md_classes after) c)))"
    by (auto simp: diffDocuments_def Let_def field_changes_empty [OF wf(3) wf(6)] simp del: canon.simps)
  moreover have "canon (JObj (?cs before)) = canon (JObj (?cs after)) \<longleftrightarrow>
      fst ` set (md_classes before) = fst ` set (md_classes after) \<and>
      (\<forall>c \<in> fst ` set (md_classes before) \<inter> fst ` set (md_classes after).
         canon (JObj (class_of (md_classes before) c)) = canon (JObj (class_of (md_classes after) c)))"
    (is "?l \<longleftrightarrow> ?r")
  proof
    assume ?l
    then have eq: "map_option canon (oget (?cs before) c) = map_option canon (oget (?cs after) c)" for c
      by (simp only: canon_obj_eq_iff [OF wf(1) wf(4)])
    have "oget (md_classes before) c = None \<longleftrightarrow> oget (md_classes after) c = None" for c
      using eq [of c] unfolding lookup by (metis option.map_disc_iff)
    then have "fst ` set (md_classes before) = fst ` set (md_classes after)"
      by (simp add: map_of_eq_None_iff set_eq_iff)
    moreover have "canon (JObj (class_of (md_classes before) c)) = canon (JObj (class_of (md_classes after) c))"
      if "c \<in> fst ` set (md_classes before) \<inter> fst ` set (md_classes after)" for c
      using eq [of c] that unfolding lookup class_of_def
      by (auto split: option.splits simp: map_of_eq_None_iff simp del: canon.simps)
    ultimately show ?r by blast
  next
    assume r: ?r
    have "map_option canon (oget (?cs before) c) = map_option canon (oget (?cs after) c)" for c
    proof (cases "c \<in> fst ` set (md_classes before)")
      case True
      with r have "c \<in> fst ` set (md_classes after)" by simp
      with True r have "canon (JObj (class_of (md_classes before) c)) = canon (JObj (class_of (md_classes after) c))" by blast
      moreover obtain x y where "oget (md_classes before) c = Some x" "oget (md_classes after) c = Some y"
        using True \<open>c \<in> fst ` set (md_classes after)\<close> by (metis map_of_eq_None_iff not_None_eq)
      ultimately show ?thesis unfolding lookup class_of_def by (simp del: canon.simps)
    next
      case False
      with r have "oget (md_classes before) c = None" "oget (md_classes after) c = None"
        by (simp_all add: map_of_eq_None_iff)
      then show ?thesis unfolding lookup by simp
    qed
    then show ?l by (simp only: canon_obj_eq_iff [OF wf(1) wf(4)] simp_thms)
  qed
  ultimately show ?thesis
    unfolding md_value_def doc_value_def enc_document.simps canon_doc [OF wf(1) wf(4) wf(2) wf(5)] params
    by (auto simp: diffDocuments_def Let_def)
qed

theorem diffDocuments_empty_iff_same_witness:
  "pd_parameters (diffDocuments
      \<lparr> md_classes = [], md_parameters = [(''a'', JNum 1), (''b'', JNull)], md_environment = None, md_conflicts = [] \<rparr>
      \<lparr> md_classes = [], md_parameters = [(''b'', JNull), (''a'', JNum 1)], md_environment = None, md_conflicts = [] \<rparr>) = []"
proof -
  let ?b = "\<lparr> md_classes = [], md_parameters = [(''a'', JNum 1), (''b'', JNull)], md_environment = None, md_conflicts = [] \<rparr>"
  let ?a = "\<lparr> md_classes = [], md_parameters = [(''b'', JNull), (''a'', JNum 1)], md_environment = None, md_conflicts = [] \<rparr>"
  have "md_plain ?b" "md_plain ?a" by (simp_all add: md_plain_def plain_obj_def)
  moreover have "canon (md_value ?b) = canon (md_value ?a)" by code_simp
  ultimately show ?thesis using diffDocuments_empty_iff_same [of ?b ?a] by blast
qed

end
