(* ===== verification/Classification.thy ===== *)
theory Classification
  imports Planner
begin

text \<open>
  The writes of \<open>apps/api/src/classification/classification.service.ts\<close>. Every operation is one
  transaction: it yields the new database with the answer, or an error, and then nothing is
  written. The properties tie the writes to the planner (what it predicts is what is written) and
  to the outbox (what a write leaves stale is queued).
\<close>

section \<open>Inputs, answers, errors\<close>

datatype http_error =
    NotFoundException string
  | ConflictException string
  | BadRequestException string

record service =
  sv_now :: int
  sv_actorUserId :: string
  sv_actorEmail :: string
  sv_projectedFacts :: "string list"

record create_node_group =
  ci_name :: string
  ci_description :: "string option"
  ci_rank :: int
  ci_strategy :: match_strategy
  ci_environment :: "string option"
  ci_isEnabled :: bool
  ci_parentId :: "string option"

text \<open>\<^const>\<open>None\<close> is an absent field; \<open>Some None\<close> is an explicit \<open>null\<close>.\<close>

record update_node_group =
  ui_name :: "string option"
  ui_description :: "string option"
  ui_rank :: "int option"
  ui_strategy :: "match_strategy option"
  ui_environment :: "string option option"
  ui_isEnabled :: "bool option"
  ui_parentId :: "string option option"

record group_with_relations =
  gw_row :: group_row
  gw_rules :: "rule_row list"
  gw_classes :: "class_row list"
  gw_parameters :: "parameter_row list"
  gw_pins :: "pin_row list"

record node_group_detail =
  nd_row :: group_row
  nd_ruleCount :: nat
  nd_classCount :: nat
  nd_pinCount :: nat
  nd_rules :: "node_rule list"
  nd_classes :: "(string \<times> jsval obj) list"
  nd_parameters :: "(string \<times> jsval) list"
  nd_pinnedCertnames :: "string list"

datatype queue_scope = Nodes "string list" | FullReconcile

record classification_write_result =
  wr_group :: node_group_detail
  wr_queued :: queue_scope
  wr_warnings :: "string list"

definition unique :: "string list \<Rightarrow> string list" where
  "unique values = js_sort cmp_str (uniq values)"

definition rule_of :: "rule_row \<Rightarrow> node_rule" where
  "rule_of r = \<lparr> factPath = ru_factPath r, operator = ru_operator r,
                 rule_value = (if ru_value r = JNull then None else Some (ru_value r)) \<rparr>"

definition toDetail :: "group_with_relations \<Rightarrow> node_group_detail" where
  "toDetail row =
     \<lparr> nd_row = gw_row row,
       nd_ruleCount = length (gw_rules row),
       nd_classCount = length (gw_classes row),
       nd_pinCount = length (gw_pins row),
       nd_rules = map rule_of (gw_rules row),
       nd_classes = map (\<lambda>c. (cl_className c, cl_params c)) (gw_classes row),
       nd_parameters = map (\<lambda>p. (pa_key p, pa_value p)) (gw_parameters row),
       nd_pinnedCertnames = js_sort cmp_str (map pin_certname (gw_pins row)) \<rparr>"

definition shapeOf :: "group_with_relations \<Rightarrow> group_shape" where
  "shapeOf g = \<lparr> sh_strategy = g_strategy (gw_row g), sh_ruleCount = length (gw_rules g),
                 sh_pinCount = length (gw_pins g) \<rparr>"

definition with_relations :: "db \<Rightarrow> group_row \<Rightarrow> group_with_relations" where
  "with_relations db g =
     \<lparr> gw_row = g,
       gw_rules = filter (\<lambda>r. ru_groupId r = g_id g) (db_rules db),
       gw_classes = filter (\<lambda>c. cl_groupId c = g_id g) (db_classes db),
       gw_parameters = filter (\<lambda>p. pa_groupId p = g_id g) (db_parameters db),
       gw_pins = filter (\<lambda>p. pin_groupId p = g_id g) (db_pins db) \<rparr>"

section \<open>Checks\<close>

definition loadOrThrow :: "string \<Rightarrow> db \<Rightarrow> http_error + group_with_relations" where
  "loadOrThrow i db =
     (case find_unique (\<lambda>g. g_id g = i) (db_groups db) of
        None \<Rightarrow> Inl (NotFoundException (''No such node group: '' @ i))
      | Some g \<Rightarrow> Inr (with_relations db g))"

definition assertNameAvailable :: "db \<Rightarrow> string \<Rightarrow> string option \<Rightarrow> http_error + unit" where
  "assertNameAvailable db name exceptId =
     (case find_unique (\<lambda>g. g_name g = name) (db_groups db) of
        None \<Rightarrow> Inr ()
      | Some existing \<Rightarrow>
          if Some (g_id existing) \<noteq> exceptId
          then Inl (ConflictException (''A node group named '' @ quote @ name @ quote @ '' already exists.''))
          else Inr ())"

definition assertParentExists :: "db \<Rightarrow> string \<Rightarrow> http_error + unit" where
  "assertParentExists db parentId =
     (case find_unique (\<lambda>g. g_id g = parentId) (db_groups db) of
        None \<Rightarrow> Inl (BadRequestException (''Parent group '' @ parentId @ '' does not exist.''))
      | Some _ \<Rightarrow> Inr ())"

definition parent_of :: "db \<Rightarrow> string \<Rightarrow> string option" where
  "parent_of db i =
     (case find_unique (\<lambda>g. g_id g = i) (db_groups db) of None \<Rightarrow> None | Some g \<Rightarrow> g_parentId g)"

text \<open>
  The walk up the hierarchy. It ends because a group is entered once only, and a cursor that
  names no group has no parent.
\<close>

function no_cycle_walk :: "db \<Rightarrow> string list \<Rightarrow> string option \<Rightarrow> http_error + unit" where
  "no_cycle_walk db seen cursor =
     (case cursor of
        None \<Rightarrow> Inr ()
      | Some c \<Rightarrow>
          if c \<in> set seen
          then Inl (BadRequestException ''That parent would create a cycle in the node group hierarchy.'')
          else no_cycle_walk db (c # seen) (parent_of db c))"
  by pat_completeness auto

lemma walk_measure:
  fixes ids :: "string set"
  assumes "finite ids" "c \<notin> seen" "c \<notin> ids \<longrightarrow> p = None"
  shows "2 * card (ids - insert c seen) + (if p = None then 0 else 1) < 2 * card (ids - seen) + (1 :: nat)"
proof (cases "c \<in> ids")
  case True
  with assms have "ids - insert c seen = (ids - seen) - {c}" "c \<in> ids - seen" by auto
  with assms(1) have "card (ids - insert c seen) < card (ids - seen)" by (metis card_Diff1_less finite_Diff)
  then show ?thesis by auto
next
  case False
  with assms have "ids - insert c seen = ids - seen" "p = None" by auto
  then show ?thesis by simp
qed

lemma parent_of_unknown: "c \<notin> g_id ` set (db_groups db) \<Longrightarrow> parent_of db c = None"
  by (auto simp: parent_of_def dest: find_unique_Some split: option.split)

termination no_cycle_walk
proof (relation "measure (\<lambda>(db, seen, cursor). 2 * card (g_id ` set (db_groups db) - set seen) + (if cursor = None then 0 else 1))",
    goal_cases)
  case 1
  then show ?case by simp
next
  case (2 db seen cursor c)
  then show ?case using walk_measure [of "g_id ` set (db_groups db)" c "set seen" "parent_of db c"] parent_of_unknown [of c db]
    by simp
qed

declare no_cycle_walk.simps [simp del]

lemma no_cycle_walk_None [simp]: "no_cycle_walk db seen None = Inr ()"
  by (subst no_cycle_walk.simps) simp

lemma no_cycle_walk_Some: "c \<notin> set seen \<Longrightarrow> no_cycle_walk db seen (Some c) = no_cycle_walk db (c # seen) (parent_of db c)"
  by (subst no_cycle_walk.simps) simp

lemma no_cycle_walk_seen: "no_cycle_walk db seen (Some c) = Inr () \<Longrightarrow> c \<notin> set seen"
  by (subst (asm) no_cycle_walk.simps) (auto split: if_splits)

definition assertNoCycle :: "db \<Rightarrow> string \<Rightarrow> string \<Rightarrow> http_error + unit" where
  "assertNoCycle db groupId proposedParentId =
     (if groupId = proposedParentId
      then Inl (BadRequestException ''A node group cannot be its own parent.'')
      else no_cycle_walk db [groupId] (Some proposedParentId))"

definition fact_root :: "string \<Rightarrow> string" where
  "fact_root path = hd (split_on CHR ''.'' path)"

definition warnUnprojectedFacts :: "string list \<Rightarrow> node_rule list \<Rightarrow> string list" where
  "warnUnprojectedFacts projected rules =
     (if projected = [] then []
      else map (\<lambda>r. ''Fact '' @ quote @ factPath r @ quote @ '' is not in PUPPETDB_PROJECTED_FACTS, so this rule can never match. ''
                    @ ''Add '' @ quote @ fact_root (factPath r) @ quote @ '' to the projected facts and re-run the projection.'')
             (filter (\<lambda>r. fact_root (factPath r) \<noteq> [] \<and> fact_root (factPath r) \<notin> set projected) rules))"

text \<open>The one character outside ASCII, as the bytes of its UTF-8 encoding.\<close>

definition ellipsis :: string where
  "ellipsis = map char_of [226 :: nat, 128, 166]"

definition warnUnknownNodes :: "db \<Rightarrow> string list \<Rightarrow> string list" where
  "warnUnknownNodes db certnames =
     (let known = map n_certname (filter (\<lambda>n. n_certname n \<in> set certnames) (db_nodes db));
          unknown = filter (\<lambda>c. c \<notin> set known) certnames
      in if length unknown = 0 then []
         else [nat_str (length unknown) @ '' pinned node(s) have not reported to PuppetDB yet and will not be ''
               @ ''materialized until they do: '' @ join '', '' (take 5 unknown)
               @ (if length unknown > 5 then ellipsis else [])])"

definition affectedCertnames :: "db \<Rightarrow> string \<Rightarrow> string list" where
  "affectedCertnames db groupId =
     (let materialized = filter (\<lambda>m. groupId \<in> set (em_appliedGroupIds m)) (db_materializations db);
          pins = filter (\<lambda>p. pin_groupId p = groupId) (db_pins db)
      in unique (map em_certname materialized @ map pin_certname pins))"

definition recordAudit :: "service \<Rightarrow> string \<Rightarrow> string option \<Rightarrow> db \<Rightarrow> db" where
  "recordAudit sv action entityId db =
     db \<lparr> db_audit := db_audit db @
       [\<lparr> a_actorUserId = Some (sv_actorUserId sv), a_actorEmail = Some (sv_actorEmail sv), a_action = action,
          a_entityType = ''NodeGroup'', a_entityId = entityId \<rparr>] \<rparr>"

definition write_result :: "group_with_relations \<Rightarrow> queue_scope \<Rightarrow> string list \<Rightarrow> classification_write_result" where
  "write_result g queued warnings = \<lparr> wr_group = toDetail g, wr_queued = queued, wr_warnings = warnings \<rparr>"


section \<open>Writes\<close>

definition created_row :: "string \<Rightarrow> create_node_group \<Rightarrow> group_row" where
  "created_row newId input =
     \<lparr> g_id = newId, g_name = ci_name input, g_description = ci_description input,
       g_rank = ci_rank input, g_strategy = ci_strategy input, g_environment = ci_environment input,
       g_isEnabled = ci_isEnabled input, g_parentId = ci_parentId input \<rparr>"

definition create :: "service \<Rightarrow> string \<Rightarrow> create_node_group \<Rightarrow> db \<Rightarrow> http_error + classification_write_result \<times> db" where
  "create sv newId input db =
     bind_err (assertNameAvailable db (ci_name input) None) (\<lambda>_.
     bind_err (case ci_parentId input of None \<Rightarrow> Inr () | Some p \<Rightarrow> assertParentExists db p) (\<lambda>_.
       let created = created_row newId input;
           db1 = db \<lparr> db_groups := db_groups db @ [created] \<rparr>
       in Inr (write_result (with_relations db1 created) (Nodes []) [],
               recordAudit sv ''node-group.create'' (Some newId) db1)))"

definition updated_row :: "update_node_group \<Rightarrow> group_row \<Rightarrow> group_row" where
  "updated_row input g =
     g \<lparr> g_name := set_option (ui_name input) (g_name g),
         g_description := set_option (map_option Some (ui_description input)) (g_description g),
         g_rank := set_option (ui_rank input) (g_rank g),
         g_strategy := set_option (ui_strategy input) (g_strategy g),
         g_environment := set_option (ui_environment input) (g_environment g),
         g_isEnabled := set_option (ui_isEnabled input) (g_isEnabled g),
         g_parentId := set_option (ui_parentId input) (g_parentId g) \<rparr>"

definition write_group :: "string \<Rightarrow> update_node_group \<Rightarrow> db \<Rightarrow> db" where
  "write_group i input db = db \<lparr> db_groups := update_many (\<lambda>g. g_id g = i) (updated_row input) (db_groups db) \<rparr>"

definition check_update :: "string \<Rightarrow> update_node_group \<Rightarrow> db \<Rightarrow> http_error + unit" where
  "check_update i input db =
     bind_err (loadOrThrow i db) (\<lambda>_.
     bind_err (case ui_name input of None \<Rightarrow> Inr () | Some n \<Rightarrow> assertNameAvailable db n (Some i)) (\<lambda>_.
     (case ui_parentId input of
        Some (Some p) \<Rightarrow> bind_err (assertParentExists db p) (\<lambda>_. assertNoCycle db i p)
      | _ \<Rightarrow> Inr ())))"

definition affectsMatching :: "update_node_group \<Rightarrow> bool" where
  "affectsMatching input \<longleftrightarrow>
     ui_rank input \<noteq> None \<or> ui_strategy input \<noteq> None \<or> ui_isEnabled input \<noteq> None \<or>
     ui_parentId input \<noteq> None \<or> ui_environment input \<noteq> None"

definition update_group :: "service \<Rightarrow> string \<Rightarrow> update_node_group \<Rightarrow> db \<Rightarrow> http_error + classification_write_result \<times> db" where
  "update_group sv i input db =
     bind_err (check_update i input db) (\<lambda>_.
       let db1 = write_group i input db
       in bind_err (loadOrThrow i db1) (\<lambda>updated.
            let db2 = recordAudit sv ''node-group.update'' (Some i) db1;
                warnings = (if ui_strategy input = None then [] else strategyWarnings (shapeOf updated))
            in if affectsMatching input
               then Inr (write_result updated FullReconcile warnings,
                         enqueueFullReconcile (sv_now sv) (''node-group.update:'' @ i) db2)
               else Inr (write_result updated (Nodes []) warnings, db2)))"

text \<open>\<open>nodeGroup.delete\<close> with the cascades of the schema.\<close>

definition delete_group :: "string \<Rightarrow> db \<Rightarrow> db" where
  "delete_group i db =
     db \<lparr> db_groups := delete_many (\<lambda>g. g_id g = i) (db_groups db),
          db_rules := delete_many (\<lambda>r. ru_groupId r = i) (db_rules db),
          db_classes := delete_many (\<lambda>c. cl_groupId c = i) (db_classes db),
          db_parameters := delete_many (\<lambda>p. pa_groupId p = i) (db_parameters db),
          db_pins := delete_many (\<lambda>p. pin_groupId p = i) (db_pins db) \<rparr>"

definition remove_group :: "service \<Rightarrow> string \<Rightarrow> db \<Rightarrow> http_error + string list \<times> db" where
  "remove_group sv i db =
     bind_err (loadOrThrow i db) (\<lambda>_.
       let children = length (filter (\<lambda>g. g_parentId g = Some i) (db_groups db))
       in if children > 0
          then Inl (ConflictException (''Node group has '' @ nat_str children
                     @ '' child group(s). Remove or re-parent them first.''))
          else
            let affected = affectedCertnames db i;
                db1 = recordAudit sv ''node-group.delete'' (Some i) (delete_group i db)
            in Inr (affected, enqueueNodes (sv_now sv) affected (''node-group.delete:'' @ i) db1))"

definition rule_row_of :: "string \<Rightarrow> node_rule \<Rightarrow> rule_row" where
  "rule_row_of i r = \<lparr> ru_groupId = i, ru_factPath = factPath r, ru_operator = operator r,
                       ru_value = (case rule_value r of None \<Rightarrow> JNull | Some v \<Rightarrow> v) \<rparr>"

definition replaceRules :: "service \<Rightarrow> string \<Rightarrow> node_rule list \<Rightarrow> db \<Rightarrow> http_error + classification_write_result \<times> db" where
  "replaceRules sv i rules db =
     bind_err (loadOrThrow i db) (\<lambda>_.
       let db1 = db \<lparr> db_rules := delete_many (\<lambda>r. ru_groupId r = i) (db_rules db) @ map (rule_row_of i) rules \<rparr>
       in bind_err (loadOrThrow i db1) (\<lambda>after.
            let db2 = recordAudit sv ''node-group.rules.replace'' (Some i) db1
            in Inr (write_result after FullReconcile
                      (warnUnprojectedFacts (sv_projectedFacts sv) rules @ strategyWarnings (shapeOf after)),
                    enqueueFullReconcile (sv_now sv) (''node-group.rules:'' @ i) db2)))"

text \<open>
  The writes that leave the membership alone end in the same way: read the group back, audit,
  queue the nodes the group classifies now.
\<close>

definition finish_members ::
  "service \<Rightarrow> string \<Rightarrow> string \<Rightarrow> string \<Rightarrow> db \<Rightarrow> http_error + classification_write_result \<times> db" where
  "finish_members sv i action reason db1 =
     bind_err (loadOrThrow i db1) (\<lambda>after.
       let db2 = recordAudit sv action (Some i) db1;
           affected = affectedCertnames db2 i
       in Inr (write_result after (Nodes affected) [], enqueueNodes (sv_now sv) affected (reason @ i) db2))"

definition assignClass ::
  "service \<Rightarrow> string \<Rightarrow> string \<Rightarrow> jsval obj \<Rightarrow> db \<Rightarrow> http_error + classification_write_result \<times> db" where
  "assignClass sv i className params db =
     bind_err (loadOrThrow i db) (\<lambda>_.
       finish_members sv i ''node-group.class.assign'' ''node-group.class:''
         (db \<lparr> db_classes := upsert (\<lambda>c. cl_groupId c = i \<and> cl_className c = className)
                 \<lparr> cl_groupId = i, cl_className = className, cl_params = params \<rparr>
                 (\<lambda>c. c \<lparr> cl_params := params \<rparr>) (db_classes db) \<rparr>))"

definition removeClass ::
  "service \<Rightarrow> string \<Rightarrow> string \<Rightarrow> db \<Rightarrow> http_error + classification_write_result \<times> db" where
  "removeClass sv i className db =
     bind_err (loadOrThrow i db) (\<lambda>_.
       if \<not> list_ex (\<lambda>c. cl_groupId c = i \<and> cl_className c = className) (db_classes db)
       then Inl (NotFoundException (''Group does not assign class '' @ className @ ''.''))
       else finish_members sv i ''node-group.class.remove'' ''node-group.class.remove:''
              (db \<lparr> db_classes := delete_many (\<lambda>c. cl_groupId c = i \<and> cl_className c = className) (db_classes db) \<rparr>))"

definition setParameter ::
  "service \<Rightarrow> string \<Rightarrow> string \<Rightarrow> jsval \<Rightarrow> db \<Rightarrow> http_error + classification_write_result \<times> db" where
  "setParameter sv i key v db =
     bind_err (loadOrThrow i db) (\<lambda>_.
       finish_members sv i ''node-group.parameter.set'' ''node-group.parameter:''
         (db \<lparr> db_parameters := upsert (\<lambda>p. pa_groupId p = i \<and> pa_key p = key)
                 \<lparr> pa_groupId = i, pa_key = key, pa_value = v \<rparr>
                 (\<lambda>p. p \<lparr> pa_value := v \<rparr>) (db_parameters db) \<rparr>))"

definition removeParameter ::
  "service \<Rightarrow> string \<Rightarrow> string \<Rightarrow> db \<Rightarrow> http_error + classification_write_result \<times> db" where
  "removeParameter sv i key db =
     bind_err (loadOrThrow i db) (\<lambda>_.
       if \<not> list_ex (\<lambda>p. pa_groupId p = i \<and> pa_key p = key) (db_parameters db)
       then Inl (NotFoundException (''Group does not set parameter '' @ key @ ''.''))
       else finish_members sv i ''node-group.parameter.remove'' ''node-group.parameter.remove:''
              (db \<lparr> db_parameters := delete_many (\<lambda>p. pa_groupId p = i \<and> pa_key p = key) (db_parameters db) \<rparr>))"

definition upsert_pin :: "string \<Rightarrow> pin_row list \<Rightarrow> string \<Rightarrow> pin_row list" where
  "upsert_pin i pins certname =
     upsert (\<lambda>p. pin_groupId p = i \<and> pin_certname p = certname)
       \<lparr> pin_groupId = i, pin_certname = certname \<rparr> (\<lambda>p. p) pins"

definition addPins ::
  "service \<Rightarrow> string \<Rightarrow> string list \<Rightarrow> db \<Rightarrow> http_error + classification_write_result \<times> db" where
  "addPins sv i certnames db =
     bind_err (loadOrThrow i db) (\<lambda>_.
       let db1 = db \<lparr> db_pins := foldl (upsert_pin i) (db_pins db) certnames \<rparr>
       in bind_err (loadOrThrow i db1) (\<lambda>after.
            let db2 = recordAudit sv ''node-group.pin.add'' (Some i) db1;
                affected = unique (certnames @ affectedCertnames db2 i)
            in Inr (write_result after (Nodes affected) (warnUnknownNodes db2 certnames @ strategyWarnings (shapeOf after)),
                    enqueueNodes (sv_now sv) affected (''node-group.pin:'' @ i) db2)))"

definition removePin ::
  "service \<Rightarrow> string \<Rightarrow> string \<Rightarrow> db \<Rightarrow> http_error + classification_write_result \<times> db" where
  "removePin sv i certname db =
     bind_err (loadOrThrow i db) (\<lambda>_.
       if \<not> list_ex (\<lambda>p. pin_groupId p = i \<and> pin_certname p = certname) (db_pins db)
       then Inl (NotFoundException (certname @ '' is not pinned to this group.''))
       else
         let db1 = db \<lparr> db_pins := delete_many (\<lambda>p. pin_groupId p = i \<and> pin_certname p = certname) (db_pins db) \<rparr>
         in bind_err (loadOrThrow i db1) (\<lambda>after.
              let db2 = recordAudit sv ''node-group.pin.remove'' (Some i) db1;
                  affected = unique (certname # affectedCertnames db2 i)
              in Inr (write_result after (Nodes affected) [],
                      enqueueNodes (sv_now sv) affected (''node-group.pin.remove:'' @ i) db2)))"

definition forceReconcile :: "service \<Rightarrow> db \<Rightarrow> db" where
  "forceReconcile sv db =
     enqueueFullReconcile (sv_now sv) (''manual:'' @ sv_actorEmail sv)
       (recordAudit sv ''materialization.reconcile'' None db)"

text \<open>
  \<open>updateNodeGroupSchema = createNodeGroupSchema.partial()\<close>: every field becomes optional, the ones
  with a \<open>default\<close> included. What an absent optional field parses to is the schema library's choice:
  \<open>fills\<close> says whether it takes the default of the schema inside, as the library documents since its
  version 4 (the one \<open>package.json\<close> asks for), or stays absent, as before.
\<close>

definition updateNodeGroupSchema :: "bool \<Rightarrow> update_node_group \<Rightarrow> update_node_group" where
  "updateNodeGroupSchema fills body =
     (if fills
      then body \<lparr> ui_rank := Some (set_option (ui_rank body) 100),
                  ui_strategy := Some (set_option (ui_strategy body) ALL_RULES),
                  ui_environment := Some (set_option (ui_environment body) None),
                  ui_isEnabled := Some (set_option (ui_isEnabled body) True),
                  ui_parentId := Some (set_option (ui_parentId body) None) \<rparr>
      else body)"

text \<open>
  The write endpoint that a previewed request stands for. \<open>update-group\<close> is a \<open>PATCH\<close> with the
  fields of the request, parsed by its schema; \<open>unpin\<close> takes several certnames where the endpoint takes one.
\<close>

definition patch_of ::
  "int option \<Rightarrow> string option option \<Rightarrow> bool option \<Rightarrow> match_strategy option \<Rightarrow> update_node_group" where
  "patch_of rank env enabled strategy =
     \<lparr> ui_name = None, ui_description = None, ui_rank = rank, ui_strategy = strategy, ui_environment = env,
       ui_isEnabled = enabled, ui_parentId = None \<rparr>"

definition db_of :: "http_error + 'a \<times> db \<Rightarrow> http_error + db" where
  "db_of r = bind_err r (\<lambda>(_, db'). Inr db')"

fun perform :: "bool \<Rightarrow> service \<Rightarrow> plan_request \<Rightarrow> db \<Rightarrow> http_error + db" where
  "perform fills sv (ReplaceRules i rules) db = db_of (replaceRules sv i rules db)"
| "perform fills sv (AssignClass i c params) db = db_of (assignClass sv i c params db)"
| "perform fills sv (RemoveClass i c) db = db_of (removeClass sv i c db)"
| "perform fills sv (SetParameter i k v) db = db_of (setParameter sv i k v db)"
| "perform fills sv (RemoveParameter i k) db = db_of (removeParameter sv i k db)"
| "perform fills sv (UpdateGroup i rank env enabled strategy) db =
     db_of (update_group sv i (updateNodeGroupSchema fills (patch_of rank env enabled strategy)) db)"
| "perform fills sv (DeleteGroup i) db = db_of (remove_group sv i db)"
| "perform fills sv (Pin i certnames) db = db_of (addPins sv i certnames db)"
| "perform fills sv (Unpin i certnames) db = fold_err (\<lambda>db c. db_of (removePin sv i c db)) db certnames"


section \<open>Lemmas: frames\<close>

named_theorems frame_simps "what a step leaves alone"

lemma upsert_job_tables [simp, frame_simps]:
  "db_rules (upsert_job k new upd db) = db_rules db"
  "db_classes (upsert_job k new upd db) = db_classes db"
  "db_parameters (upsert_job k new upd db) = db_parameters db"
  "db_pins (upsert_job k new upd db) = db_pins db"
  by (simp_all add: upsert_job_def)

lemma enqueueNodes_tables [simp, frame_simps]:
  "db_groups (enqueueNodes now cs reason db) = db_groups db"
  "db_rules (enqueueNodes now cs reason db) = db_rules db"
  "db_classes (enqueueNodes now cs reason db) = db_classes db"
  "db_parameters (enqueueNodes now cs reason db) = db_parameters db"
  "db_pins (enqueueNodes now cs reason db) = db_pins db"
  "db_nodes (enqueueNodes now cs reason db) = db_nodes db"
  "db_materializations (enqueueNodes now cs reason db) = db_materializations db"
  unfolding enqueueNodes_def by (induction cs arbitrary: db) (simp_all add: enqueueNode_def)

lemma enqueueFullReconcile_tables [simp, frame_simps]:
  "db_groups (enqueueFullReconcile now reason db) = db_groups db"
  "db_rules (enqueueFullReconcile now reason db) = db_rules db"
  "db_classes (enqueueFullReconcile now reason db) = db_classes db"
  "db_parameters (enqueueFullReconcile now reason db) = db_parameters db"
  "db_pins (enqueueFullReconcile now reason db) = db_pins db"
  "db_nodes (enqueueFullReconcile now reason db) = db_nodes db"
  "db_materializations (enqueueFullReconcile now reason db) = db_materializations db"
  by (simp_all add: enqueueFullReconcile_def)

lemma recordAudit_tables [simp, frame_simps]:
  "db_groups (recordAudit sv action i db) = db_groups db"
  "db_rules (recordAudit sv action i db) = db_rules db"
  "db_classes (recordAudit sv action i db) = db_classes db"
  "db_parameters (recordAudit sv action i db) = db_parameters db"
  "db_pins (recordAudit sv action i db) = db_pins db"
  "db_nodes (recordAudit sv action i db) = db_nodes db"
  "db_materializations (recordAudit sv action i db) = db_materializations db"
  "db_jobs (recordAudit sv action i db) = db_jobs db"
  by (simp_all add: recordAudit_def)

definition same_classification :: "db \<Rightarrow> db \<Rightarrow> bool" where
  "same_classification a b \<longleftrightarrow>
     db_groups a = db_groups b \<and> db_rules a = db_rules b \<and> db_classes a = db_classes b \<and>
     db_parameters a = db_parameters b \<and> db_pins a = db_pins b"

lemma loadGroups_same: "same_classification a b \<Longrightarrow> loadGroups all a = loadGroups all b"
  by (simp add: same_classification_def loadGroups_def to_evaluable_def to_mergeable_def cong: map_cong)

lemma same_classification_steps [simp]:
  "same_classification (enqueueNodes now cs reason a) b \<longleftrightarrow> same_classification a b"
  "same_classification (enqueueFullReconcile now reason a) b \<longleftrightarrow> same_classification a b"
  "same_classification (recordAudit sv action i a) b \<longleftrightarrow> same_classification a b"
  by (simp_all add: same_classification_def)

lemma same_classification_refl [simp]: "same_classification a a"
  by (simp add: same_classification_def)

lemma filter_delete_many:
  "filter P (delete_many Q xs) = filter (\<lambda>x. P x \<and> \<not> Q x) xs"
  by (simp add: delete_many_def conj_commute)

lemma filter_update_many:
  assumes "\<And>r. P (upd r) = P r"
  shows "filter P (update_many Q upd rows) = map (\<lambda>r. if Q r then upd r else r) (filter P rows)"
  using assms by (induction rows) (auto simp: update_many_def)

section \<open>Lemmas: a write is the operation the planner applies\<close>

definition db_wf :: "db \<Rightarrow> bool" where
  "db_wf db \<longleftrightarrow>
     distinct (map g_id (db_groups db)) \<and>
     distinct (map (\<lambda>c. (cl_groupId c, cl_className c)) (db_classes db)) \<and>
     distinct (map (\<lambda>p. (pa_groupId p, pa_key p)) (db_parameters db)) \<and>
     distinct (map (\<lambda>p. (pin_groupId p, pin_certname p)) (db_pins db))"

lemma apply_to_loadGroups:
  assumes "distinct (map g_id (db_groups db))"
  shows "apply_to f h i (loadGroups True db) =
     \<lparr> gs_evaluable = map (\<lambda>g. if g_id g = i then f (to_evaluable db g) else to_evaluable db g) (db_groups db),
       gs_mergeableById = map (\<lambda>g. (g_id g, if g_id g = i then h (to_mergeable db g) else to_mergeable db g)) (db_groups db) \<rparr>"
proof -
  have "map eg_id (map (to_evaluable db) (db_groups db)) = map g_id (db_groups db)"
    by (simp add: to_evaluable_def)
  with assms have "distinct (map eg_id (map (to_evaluable db) (db_groups db)))" by (simp only:)
  from update_first_map [OF this, of i f] show ?thesis
    by (simp add: apply_to_def loadGroups_def update_entry_def Let_def o_def) (simp add: to_evaluable_def)
qed

lemma loadGroups_row_change:
  assumes "distinct (map g_id (db_groups db))" "db_groups db' = db_groups db"
    and "\<And>g. g_id g \<noteq> i \<Longrightarrow> to_evaluable db' g = to_evaluable db g \<and> to_mergeable db' g = to_mergeable db g"
    and "\<And>g. g_id g = i \<Longrightarrow> to_evaluable db' g = f (to_evaluable db g) \<and> to_mergeable db' g = h (to_mergeable db g)"
  shows "loadGroups True db' = apply_to f h i (loadGroups True db)"
proof -
  have "to_evaluable db' = (\<lambda>g. if g_id g = i then f (to_evaluable db g) else to_evaluable db g)"
    and "to_mergeable db' = (\<lambda>g. if g_id g = i then h (to_mergeable db g) else to_mergeable db g)"
    using assms(3,4) by auto
  then show ?thesis unfolding apply_to_loadGroups [OF assms(1)] by (simp add: loadGroups_def assms(2) Let_def)
qed

lemma rule_of_rule_row:
  "rule_value r \<noteq> Some JNull \<Longrightarrow>
   \<lparr> factPath = ru_factPath (rule_row_of i r), operator = ru_operator (rule_row_of i r),
     rule_value = (if ru_value (rule_row_of i r) = JNull then None else Some (ru_value (rule_row_of i r))) \<rparr> = r"
  by (cases r) (auto simp: rule_row_of_def split: option.split)


lemma to_evaluable_rules:
  assumes "list_all (\<lambda>r. rule_value r \<noteq> Some JNull) rules"
    and "db' = db \<lparr> db_rules := delete_many (\<lambda>r. ru_groupId r = i) (db_rules db) @ map (rule_row_of i) rules \<rparr>"
  shows "to_evaluable db' g = (if g_id g = i then (to_evaluable db g) \<lparr> eg_rules := rules \<rparr> else to_evaluable db g)"
proof -
  have "map rule_of (map (rule_row_of i) rules) = rules"
    using assms(1) by (auto simp: rule_of_def list_all_iff rule_of_rule_row intro!: map_idI)
  moreover have "filter (\<lambda>r. ru_groupId r = i) (map (rule_row_of i) rules) = map (rule_row_of i) rules"
    by (simp add: filter_map o_def rule_row_of_def)
  moreover have "g_id g \<noteq> i \<Longrightarrow> filter (\<lambda>r. ru_groupId r = g_id g) (map (rule_row_of i) rules) = []"
    by (simp add: filter_map o_def rule_row_of_def)
  moreover have "g_id g \<noteq> i \<Longrightarrow> filter (\<lambda>r. ru_groupId r = g_id g \<and> ru_groupId r \<noteq> i) (db_rules db) =
      filter (\<lambda>r. ru_groupId r = g_id g) (db_rules db)"
    by (auto intro!: filter_cong)
  ultimately show ?thesis
    by (simp add: assms(2) to_evaluable_def filter_delete_many rule_of_def [symmetric] del: map_map)
qed

lemma upsert_entries:
  assumes "distinct (map key rows)" "key new = (i, c)" "part new = v"
    and "\<And>r. key (upd r) = key r" "\<And>r. part (upd r) = v"
  shows "from_entries (map (\<lambda>r. (snd (key r), part r)) (filter (\<lambda>r. fst (key r) = j) (upsert (\<lambda>r. key r = (i, c)) new upd rows)))
     = (let old = from_entries (map (\<lambda>r. (snd (key r), part r)) (filter (\<lambda>r. fst (key r) = j) rows))
        in if j = i then oset c v old else old)"
proof -
  define rs where "rs = filter (\<lambda>r. fst (key r) = j) rows"
  define es where "es = map (\<lambda>r. (snd (key r), part r)) rs"
  show ?thesis
  proof (cases "list_ex (\<lambda>r. key r = (i, c)) rows")
    case True
    have "filter (\<lambda>r. fst (key r) = j) (map (\<lambda>r. if key r = (i, c) then upd r else r) rows) =
        map (\<lambda>r. if key r = (i, c) then upd r else r) rs"
      unfolding rs_def using filter_update_many [where P = "\<lambda>r. fst (key r) = j" and upd = upd and Q = "\<lambda>r. key r = (i, c)"]
        assms(4) by (simp add: update_many_def)
    moreover have "map (\<lambda>r. (snd (key r), part r)) (map (\<lambda>r. if key r = (i, c) then upd r else r) rs) =
        (if j = i then map (\<lambda>(k, w). (k, if k = c then v else w)) es else es)"
      unfolding es_def rs_def by (auto simp: assms(4,5))
    moreover have "j = i \<Longrightarrow> c \<in> fst ` set es"
      using True by (force simp: es_def rs_def list_ex_iff image_iff)
    ultimately show ?thesis
      using True by (auto simp: upsert_def Let_def from_entries_update simp flip: es_def rs_def)
  next
    case False
    then show ?thesis
      by (simp add: upsert_def Let_def assms(2,3) from_entries_snoc)
  qed
qed


lemma delete_entries:
  "from_entries (map (\<lambda>r. (snd (key r), part r)) (filter (\<lambda>r. fst (key r) = j) (delete_many (\<lambda>r. key r = (i, c)) rows)))
     = (let old = from_entries (map (\<lambda>r. (snd (key r), part r)) (filter (\<lambda>r. fst (key r) = j) rows))
        in if j = i then odel c old else old)"
proof (cases "j = i")
  case True
  have "map (\<lambda>r. (snd (key r), part r)) (filter (\<lambda>r. fst (key r) = j) (delete_many (\<lambda>r. key r = (i, c)) rows)) =
      filter (\<lambda>(k, _). k \<noteq> c) (map (\<lambda>r. (snd (key r), part r)) (filter (\<lambda>r. fst (key r) = j) rows))"
    using True by (auto simp: delete_many_def filter_map o_def prod_eq_iff intro!: arg_cong [where f = "map _"] filter_cong)
  with True show ?thesis by (simp only: from_entries_filter Let_def simp_thms if_True)
next
  case False
  then have "filter (\<lambda>r. fst (key r) = j) (delete_many (\<lambda>r. key r = (i, c)) rows) = filter (\<lambda>r. fst (key r) = j) rows"
    by (auto simp: delete_many_def intro!: filter_cong)
  with False show ?thesis by (simp only: Let_def if_False)
qed

lemma uniq_append: "uniq (xs @ ys) = uniq xs @ filter (\<lambda>y. y \<notin> set xs) (uniq ys)"
proof (induction xs)
  case (Cons x xs)
  have "filter (\<lambda>y. y \<noteq> x) (filter (\<lambda>y. y \<notin> set xs) (uniq ys)) = filter (\<lambda>y. y \<notin> set (x # xs)) (uniq ys)"
    unfolding filter_filter by (auto intro!: filter_cong)
  with Cons show ?case by simp
qed simp

definition pins_of :: "string \<Rightarrow> pin_row list \<Rightarrow> string list" where
  "pins_of j pins = map pin_certname (filter (\<lambda>p. pin_groupId p = j) pins)"

lemma set_pins_of: "c \<in> set (pins_of j pins) \<longleftrightarrow> (\<exists>p \<in> set pins. pin_groupId p = j \<and> pin_certname p = c)"
  by (auto simp: pins_of_def)

lemma pins_of_upsert_pin:
  "pins_of j (upsert_pin i pins c) = (if j = i \<and> c \<notin> set (pins_of i pins) then pins_of i pins @ [c] else pins_of j pins)"
  by (auto simp: upsert_pin_def upsert_def list_ex_iff set_pins_of) (auto simp: pins_of_def)

lemma pins_of_foldl:
  "distinct (pins_of j pins) \<Longrightarrow>
     pins_of j (foldl (upsert_pin i) pins cs) = (if j = i then uniq (pins_of i pins @ cs) else pins_of j pins)"
proof (induction cs arbitrary: pins)
  case Nil
  then show ?case by (cases "j = i") (simp_all add: uniq_id)
next
  case (Cons c cs)
  have "distinct (pins_of j (upsert_pin i pins c))" using Cons.prems by (auto simp: pins_of_upsert_pin)
  note IH = Cons.IH [OF this]
  show ?case
  proof (cases "j = i")
    case True
    have "uniq (pins_of i (upsert_pin i pins c) @ cs) = uniq (pins_of i pins @ c # cs)"
      using Cons.prems True
      by (auto simp: pins_of_upsert_pin uniq_append uniq_id intro!: filter_cong)
    with IH True show ?thesis by simp
  next
    case False
    with IH show ?thesis by (simp add: pins_of_upsert_pin)
  qed
qed

lemma pins_of_simps [simp]:
  "pins_of j [] = []"
  "pins_of j (p # pins) = (if pin_groupId p = j then pin_certname p # pins_of j pins else pins_of j pins)"
  by (simp_all add: pins_of_def)

lemma pins_distinct:
  "distinct (map (\<lambda>p. (pin_groupId p, pin_certname p)) pins) \<Longrightarrow> distinct (pins_of j pins)"
  by (induction pins) (auto simp: set_pins_of image_iff)

lemma pins_of_delete:
  "pins_of j (delete_many (\<lambda>p. pin_groupId p = i \<and> pin_certname p = c) pins) =
     (if j = i then filter (\<lambda>x. x \<noteq> c) (pins_of i pins) else pins_of j pins)"
  by (induction pins) (auto simp: pins_of_def delete_many_def)


text \<open>The classification of one group, row by row, in the terms the writes change it in.\<close>

lemma to_evaluable_pins: "eg_pinnedCertnames (to_evaluable db g) = pins_of (g_id g) (db_pins db)"
  by (simp add: to_evaluable_def pins_of_def)

definition class_entries :: "db \<Rightarrow> string \<Rightarrow> (jsval obj) obj" where
  "class_entries db j =
     from_entries (map (\<lambda>c. (snd (cl_groupId c, cl_className c), cl_params c))
       (filter (\<lambda>c. fst (cl_groupId c, cl_className c) = j) (db_classes db)))"

definition parameter_entries :: "db \<Rightarrow> string \<Rightarrow> jsval obj" where
  "parameter_entries db j =
     from_entries (map (\<lambda>p. (snd (pa_groupId p, pa_key p), pa_value p))
       (filter (\<lambda>p. fst (pa_groupId p, pa_key p) = j) (db_parameters db)))"

lemma to_mergeable_entries:
  "to_mergeable db g = \<lparr> mg_id = g_id g, mg_name = g_name g, mg_environment = g_environment g,
     mg_classes = class_entries db (g_id g), mg_parameters = parameter_entries db (g_id g) \<rparr>"
  by (simp add: to_mergeable_def class_entries_def parameter_entries_def)

lemma class_entries_assign:
  assumes "distinct (map (\<lambda>c. (cl_groupId c, cl_className c)) (db_classes db))"
  shows "class_entries (db \<lparr> db_classes := upsert (\<lambda>x. cl_groupId x = i \<and> cl_className x = c)
      \<lparr> cl_groupId = i, cl_className = c, cl_params = ps \<rparr> (\<lambda>x. x \<lparr> cl_params := ps \<rparr>) (db_classes db) \<rparr>) j =
     (if j = i then oset c ps (class_entries db j) else class_entries db j)"
  using upsert_entries [OF assms, where i = i and c = c and part = cl_params and v = ps and j = j
      and new = "\<lparr> cl_groupId = i, cl_className = c, cl_params = ps \<rparr>" and upd = "\<lambda>x. x \<lparr> cl_params := ps \<rparr>"]
  by (simp add: class_entries_def Let_def)

lemma class_entries_remove:
  "class_entries (db \<lparr> db_classes := delete_many (\<lambda>x. cl_groupId x = i \<and> cl_className x = c) (db_classes db) \<rparr>) j =
     (if j = i then odel c (class_entries db j) else class_entries db j)"
  using delete_entries [where key = "\<lambda>x. (cl_groupId x, cl_className x)" and part = cl_params and i = i and c = c
      and rows = "db_classes db" and j = j]
  by (simp add: class_entries_def Let_def)

lemma parameter_entries_set:
  assumes "distinct (map (\<lambda>p. (pa_groupId p, pa_key p)) (db_parameters db))"
  shows "parameter_entries (db \<lparr> db_parameters := upsert (\<lambda>x. pa_groupId x = i \<and> pa_key x = k)
      \<lparr> pa_groupId = i, pa_key = k, pa_value = v \<rparr> (\<lambda>x. x \<lparr> pa_value := v \<rparr>) (db_parameters db) \<rparr>) j =
     (if j = i then oset k v (parameter_entries db j) else parameter_entries db j)"
  using upsert_entries [OF assms, where i = i and c = k and part = pa_value and v = v and j = j
      and new = "\<lparr> pa_groupId = i, pa_key = k, pa_value = v \<rparr>" and upd = "\<lambda>x. x \<lparr> pa_value := v \<rparr>"]
  by (simp add: parameter_entries_def Let_def)

lemma parameter_entries_remove:
  "parameter_entries (db \<lparr> db_parameters := delete_many (\<lambda>x. pa_groupId x = i \<and> pa_key x = k) (db_parameters db) \<rparr>) j =
     (if j = i then odel k (parameter_entries db j) else parameter_entries db j)"
  using delete_entries [where key = "\<lambda>x. (pa_groupId x, pa_key x)" and part = pa_value and i = i and c = k
      and rows = "db_parameters db" and j = j]
  by (simp add: parameter_entries_def Let_def)

lemma entries_frame [simp]:
  "class_entries (db \<lparr> db_parameters := ps \<rparr>) j = class_entries db j"
  "class_entries (db \<lparr> db_pins := pins \<rparr>) j = class_entries db j"
  "class_entries (db \<lparr> db_rules := rules \<rparr>) j = class_entries db j"
  "class_entries (db \<lparr> db_groups := gs \<rparr>) j = class_entries db j"
  "parameter_entries (db \<lparr> db_classes := cs \<rparr>) j = parameter_entries db j"
  "parameter_entries (db \<lparr> db_pins := pins \<rparr>) j = parameter_entries db j"
  "parameter_entries (db \<lparr> db_rules := rules \<rparr>) j = parameter_entries db j"
  "parameter_entries (db \<lparr> db_groups := gs \<rparr>) j = parameter_entries db j"
  by (simp_all add: class_entries_def parameter_entries_def)

lemma to_evaluable_frame [simp]:
  "to_evaluable (db \<lparr> db_parameters := ps \<rparr>) g = to_evaluable db g"
  "to_evaluable (db \<lparr> db_classes := cs \<rparr>) g = to_evaluable db g"
  "to_evaluable (db \<lparr> db_groups := gs \<rparr>) g = to_evaluable db g"
  "to_evaluable (db \<lparr> db_pins := pins \<rparr>) g = (to_evaluable db g) \<lparr> eg_pinnedCertnames := pins_of (g_id g) pins \<rparr>"
  by (simp_all add: to_evaluable_def pins_of_def)


text \<open>What each successful write leaves in the five tables of the classification.\<close>

lemma loadOrThrow_Inr: "loadOrThrow i db = Inr r \<Longrightarrow> i \<in> g_id ` set (db_groups db)"
  by (auto simp: loadOrThrow_def dest!: find_unique_Some split: option.splits)

lemma finish_members_db:
  "finish_members sv i action reason db1 = Inr (w, db') \<Longrightarrow> same_classification db' db1"
  by (auto simp: finish_members_def bind_err_Inr Let_def)

lemma write_db:
  "replaceRules sv i rules db = Inr (w, db') \<Longrightarrow> same_classification db'
     (db \<lparr> db_rules := delete_many (\<lambda>r. ru_groupId r = i) (db_rules db) @ map (rule_row_of i) rules \<rparr>)"
  "assignClass sv i c ps db = Inr (w, db') \<Longrightarrow> same_classification db'
     (db \<lparr> db_classes := upsert (\<lambda>x. cl_groupId x = i \<and> cl_className x = c)
        \<lparr> cl_groupId = i, cl_className = c, cl_params = ps \<rparr> (\<lambda>x. x \<lparr> cl_params := ps \<rparr>) (db_classes db) \<rparr>)"
  "removeClass sv i c db = Inr (w, db') \<Longrightarrow> same_classification db'
     (db \<lparr> db_classes := delete_many (\<lambda>x. cl_groupId x = i \<and> cl_className x = c) (db_classes db) \<rparr>)"
  "setParameter sv i k v db = Inr (w, db') \<Longrightarrow> same_classification db'
     (db \<lparr> db_parameters := upsert (\<lambda>x. pa_groupId x = i \<and> pa_key x = k)
        \<lparr> pa_groupId = i, pa_key = k, pa_value = v \<rparr> (\<lambda>x. x \<lparr> pa_value := v \<rparr>) (db_parameters db) \<rparr>)"
  "removeParameter sv i k db = Inr (w, db') \<Longrightarrow> same_classification db'
     (db \<lparr> db_parameters := delete_many (\<lambda>x. pa_groupId x = i \<and> pa_key x = k) (db_parameters db) \<rparr>)"
  "addPins sv i cs db = Inr (w, db') \<Longrightarrow> same_classification db'
     (db \<lparr> db_pins := foldl (upsert_pin i) (db_pins db) cs \<rparr>)"
  "removePin sv i c2 db = Inr (w, db') \<Longrightarrow> same_classification db'
     (db \<lparr> db_pins := delete_many (\<lambda>p. pin_groupId p = i \<and> pin_certname p = c2) (db_pins db) \<rparr>)"
  "update_group sv i input db = Inr (w, db') \<Longrightarrow> same_classification db' (write_group i input db)"
  "remove_group sv i db = Inr (w2, db') \<Longrightarrow> same_classification db' (delete_group i db)"
  by (auto simp: replaceRules_def assignClass_def removeClass_def setParameter_def removeParameter_def
      addPins_def removePin_def update_group_def remove_group_def bind_err_Inr Let_def
      intro: finish_members_db split: if_splits)

lemma write_known:
  "replaceRules sv i rules db = Inr (w, db') \<Longrightarrow> i \<in> g_id ` set (db_groups db)"
  "assignClass sv i c ps db = Inr (w, db') \<Longrightarrow> i \<in> g_id ` set (db_groups db)"
  "removeClass sv i c db = Inr (w, db') \<Longrightarrow> i \<in> g_id ` set (db_groups db)"
  "setParameter sv i k v db = Inr (w, db') \<Longrightarrow> i \<in> g_id ` set (db_groups db)"
  "removeParameter sv i k db = Inr (w, db') \<Longrightarrow> i \<in> g_id ` set (db_groups db)"
  "addPins sv i cs db = Inr (w, db') \<Longrightarrow> i \<in> g_id ` set (db_groups db)"
  "removePin sv i c2 db = Inr (w, db') \<Longrightarrow> i \<in> g_id ` set (db_groups db)"
  "update_group sv i input db = Inr (w, db') \<Longrightarrow> i \<in> g_id ` set (db_groups db)"
  "remove_group sv i db = Inr (w2, db') \<Longrightarrow> i \<in> g_id ` set (db_groups db)"
  by (auto simp: replaceRules_def assignClass_def removeClass_def setParameter_def removeParameter_def
      addPins_def removePin_def update_group_def remove_group_def check_update_def bind_err_Inr Let_def
      dest: loadOrThrow_Inr split: if_splits)

lemma loadGroups_update:
  assumes "distinct (map g_id (db_groups db))"
    and input: "ui_rank input = rank" "ui_environment input = env" "ui_isEnabled input = enabled" "ui_strategy input = strategy" "ui_name input = None"
  shows "loadGroups True (write_group i input db) =
     apply_request (UpdateGroup i rank env enabled strategy) (loadGroups True db)"
proof -
  let ?upd = "\<lambda>g. if g_id g = i then updated_row input g else g"
  have ev: "to_evaluable (write_group i input db) (?upd g) = (if g_id g = i then (to_evaluable db g)
      \<lparr> eg_rank := set_option rank (eg_rank (to_evaluable db g)),
        eg_isEnabled := set_option enabled (eg_isEnabled (to_evaluable db g)),
        eg_strategy := set_option strategy (eg_strategy (to_evaluable db g)) \<rparr> else to_evaluable db g)" for g
    by (simp add: input write_group_def updated_row_def to_evaluable_def set_option_def)
  have me: "to_mergeable (write_group i input db) (?upd g) = (if g_id g = i then (to_mergeable db g)
      \<lparr> mg_environment := set_option env (mg_environment (to_mergeable db g)) \<rparr> else to_mergeable db g)" for g
    by (simp add: input write_group_def updated_row_def to_mergeable_entries set_option_def)
  have gs: "db_groups (write_group i input db) = map ?upd (db_groups db)"
    by (simp add: write_group_def update_many_def)
  have id: "g_id (?upd g) = g_id g" for g by (simp add: updated_row_def)
  show ?thesis
    unfolding apply_request.simps apply_to_loadGroups [OF assms(1)]
    by (simp only: loadGroups_def Let_def if_True gs map_map o_def ev me id)
qed

lemma filter_delete_other:
  "j \<noteq> i \<Longrightarrow> filter (\<lambda>x. f x = j) (delete_many (\<lambda>x. f x = i) xs) = filter (\<lambda>x. f x = j) xs"
  by (auto simp: delete_many_def intro!: filter_cong)

lemma loadGroups_delete:
  "loadGroups True (delete_group i db) = apply_request (DeleteGroup i) (loadGroups True db)"
proof -
  have "to_evaluable (delete_group i db) g = to_evaluable db g \<and> to_mergeable (delete_group i db) g = to_mergeable db g"
    if "g_id g \<noteq> i" for g
    by (simp add: delete_group_def to_evaluable_def to_mergeable_def filter_delete_other [OF that])
  moreover have "eg_id (to_evaluable db g) = g_id g" for g by (simp add: to_evaluable_def)
  ultimately show ?thesis
    by (auto simp: loadGroups_def Let_def delete_group_def delete_many_def filter_map o_def)
qed

text \<open>A request both sides read alike: no rule with a \<open>null\<close> value, no key \<open>__proto__\<close>, and an unpin that names a node.\<close>

definition plannable :: "plan_request \<Rightarrow> bool" where
  "plannable request =
     (case request of
        ReplaceRules _ rules \<Rightarrow> list_all (\<lambda>r. rule_value r \<noteq> Some JNull) rules
      | AssignClass _ c _ \<Rightarrow> c \<noteq> ''__proto__''
      | SetParameter _ k _ \<Rightarrow> k \<noteq> ''__proto__''
      | Unpin _ certnames \<Rightarrow> certnames \<noteq> []
      | _ \<Rightarrow> True)"

text \<open>The request as the write endpoint parses it, and the groups in which that changes nothing.\<close>

definition as_parsed :: "bool \<Rightarrow> plan_request \<Rightarrow> plan_request" where
  "as_parsed fills request =
     (case request of
        UpdateGroup i rank env enabled strategy \<Rightarrow>
          if fills then UpdateGroup i (Some (set_option rank 100)) (Some (set_option env None)) (Some (set_option enabled True))
                          (Some (set_option strategy ALL_RULES))
          else request
      | _ \<Rightarrow> request)"

definition leaves_out_defaults :: "plan_request \<Rightarrow> db \<Rightarrow> bool" where
  "leaves_out_defaults request db \<longleftrightarrow>
     (case request of
        UpdateGroup i rank env enabled strategy \<Rightarrow>
          (\<forall>g \<in> set (db_groups db). g_id g = i \<longrightarrow>
             (rank = None \<longrightarrow> g_rank g = 100) \<and> (env = None \<longrightarrow> g_environment g = None)
             \<and> (enabled = None \<longrightarrow> g_isEnabled g) \<and> (strategy = None \<longrightarrow> g_strategy g = ALL_RULES))
      | _ \<Rightarrow> True)"

lemma update_same:
  assumes "distinct (map g_id (db_groups db))"
  shows "apply_request (UpdateGroup i (Some (set_option rank 100)) (Some (set_option env None)) (Some (set_option enabled True))
           (Some (set_option strategy ALL_RULES))) (loadGroups True db)
         = apply_request (UpdateGroup i rank env enabled strategy) (loadGroups True db)
      \<longleftrightarrow> leaves_out_defaults (UpdateGroup i rank env enabled strategy) db"
proof -
  have "(to_evaluable db g) \<lparr> eg_rank := set_option rank 100, eg_isEnabled := set_option enabled True,
        eg_strategy := set_option strategy ALL_RULES \<rparr>
      = (to_evaluable db g) \<lparr> eg_rank := set_option rank (eg_rank (to_evaluable db g)),
        eg_isEnabled := set_option enabled (eg_isEnabled (to_evaluable db g)),
        eg_strategy := set_option strategy (eg_strategy (to_evaluable db g)) \<rparr>
    \<longleftrightarrow> (rank = None \<longrightarrow> g_rank g = 100) \<and> (enabled = None \<longrightarrow> g_isEnabled g) \<and> (strategy = None \<longrightarrow> g_strategy g = ALL_RULES)" for g
    by (cases rank; cases enabled; cases strategy) (auto simp: to_evaluable_def set_option_def)
  moreover have "(to_mergeable db g) \<lparr> mg_environment := set_option env None \<rparr>
      = (to_mergeable db g) \<lparr> mg_environment := set_option env (mg_environment (to_mergeable db g)) \<rparr>
    \<longleftrightarrow> (env = None \<longrightarrow> g_environment g = None)" for g
    by (cases env) (auto simp: to_mergeable_def set_option_def)
  ultimately show ?thesis
    unfolding apply_request.simps apply_to_loadGroups [OF assms]
    by (auto simp: leaves_out_defaults_def set_option_def)
qed

lemma loadGroups_rules:
  assumes "db_wf db" "list_all (\<lambda>r. rule_value r \<noteq> Some JNull) rules"
  shows "loadGroups True (db \<lparr> db_rules := delete_many (\<lambda>r. ru_groupId r = i) (db_rules db) @ map (rule_row_of i) rules \<rparr>) =
     apply_request (ReplaceRules i rules) (loadGroups True db)"
  unfolding apply_request.simps using assms(1)
  by (intro loadGroups_row_change) (simp_all add: db_wf_def to_evaluable_rules [OF assms(2) refl] to_mergeable_entries)

lemma assign_plain: "k \<noteq> ''__proto__'' \<Longrightarrow> assign k v = oset k v"
  by (simp add: assign_def fun_eq_iff)

lemma loadGroups_classes:
  assumes "db_wf db"
  shows "loadGroups True (db \<lparr> db_classes := upsert (\<lambda>x. cl_groupId x = i \<and> cl_className x = c)
        \<lparr> cl_groupId = i, cl_className = c, cl_params = ps \<rparr> (\<lambda>x. x \<lparr> cl_params := ps \<rparr>) (db_classes db) \<rparr>) =
     apply_to (\<lambda>g. g) (on_classes (oset c ps)) i (loadGroups True db)"
    and "loadGroups True (db \<lparr> db_classes := delete_many (\<lambda>x. cl_groupId x = i \<and> cl_className x = c) (db_classes db) \<rparr>) =
     apply_request (RemoveClass i c) (loadGroups True db)"
  unfolding apply_request.simps using assms
  by (intro loadGroups_row_change; simp add: db_wf_def to_mergeable_entries class_entries_assign class_entries_remove
      on_classes_def assign_def)+

lemma loadGroups_parameters:
  assumes "db_wf db"
  shows "loadGroups True (db \<lparr> db_parameters := upsert (\<lambda>x. pa_groupId x = i \<and> pa_key x = k)
        \<lparr> pa_groupId = i, pa_key = k, pa_value = v \<rparr> (\<lambda>x. x \<lparr> pa_value := v \<rparr>) (db_parameters db) \<rparr>) =
     apply_to (\<lambda>g. g) (on_parameters (oset k v)) i (loadGroups True db)"
    and "loadGroups True (db \<lparr> db_parameters := delete_many (\<lambda>x. pa_groupId x = i \<and> pa_key x = k) (db_parameters db) \<rparr>) =
     apply_request (RemoveParameter i k) (loadGroups True db)"
  unfolding apply_request.simps using assms
  by (intro loadGroups_row_change; simp add: db_wf_def to_mergeable_entries parameter_entries_set parameter_entries_remove
      on_parameters_def assign_def)+

lemma loadGroups_pins:
  assumes "db_wf db"
  shows "loadGroups True (db \<lparr> db_pins := foldl (upsert_pin i) (db_pins db) cs \<rparr>) =
     apply_request (Pin i cs) (loadGroups True db)"
    and "loadGroups True (db \<lparr> db_pins := delete_many (\<lambda>p. pin_groupId p = i \<and> pin_certname p = c) (db_pins db) \<rparr>) =
     apply_request (Unpin i [c]) (loadGroups True db)"
proof -
  have d: "distinct (pins_of j (db_pins db))" for j using assms by (simp add: db_wf_def pins_distinct)
  have same: "(to_evaluable db g) \<lparr> eg_pinnedCertnames := pins_of (g_id g) (db_pins db) \<rparr> = to_evaluable db g" for g
    by (simp add: to_evaluable_pins [symmetric])
  show "loadGroups True (db \<lparr> db_pins := foldl (upsert_pin i) (db_pins db) cs \<rparr>) =
     apply_request (Pin i cs) (loadGroups True db)"
    unfolding apply_request.simps using assms same
    by (intro loadGroups_row_change; simp add: db_wf_def to_mergeable_entries pins_of_foldl [OF d] to_evaluable_pins)
  show "loadGroups True (db \<lparr> db_pins := delete_many (\<lambda>p. pin_groupId p = i \<and> pin_certname p = c) (db_pins db) \<rparr>) =
     apply_request (Unpin i [c]) (loadGroups True db)"
    unfolding apply_request.simps using assms same
    by (intro loadGroups_row_change; simp add: db_wf_def to_mergeable_entries pins_of_delete to_evaluable_pins)
qed


lemma applyOperation_known:
  assumes "request_groupId request \<in> g_id ` set (db_groups db)"
  shows "applyOperation (loadGroups True db) request = Inr (apply_request request (loadGroups True db))"
proof -
  obtain g where g: "g \<in> set (db_groups db)" "g_id g = request_groupId request" using assms by auto
  then have "List.find (\<lambda>g. eg_id g = request_groupId request) (gs_evaluable (loadGroups True db)) \<noteq> None"
    by (auto simp: find_None_iff loadGroups_def Let_def to_evaluable_def)
  moreover have "map_of (gs_mergeableById (loadGroups True db)) (request_groupId request) \<noteq> None"
    using assms by (simp add: map_of_eq_None_iff loadGroups_def Let_def image_image)
  ultimately show ?thesis by (simp add: applyOperation_def Let_def)
qed

lemma apply_to_compose:
  assumes "\<And>g. eg_id (f g) = eg_id g"
  shows "apply_to f' h' i (apply_to f h i groups) = apply_to (f' \<circ> f) (h' \<circ> h) i groups"
proof -
  have "update_first i f' (update_first i f gs) = update_first i (f' \<circ> f) gs" for gs
    by (induction gs) (auto simp: assms)
  then show ?thesis by (auto simp: apply_to_def update_entry_def)
qed

lemma unpin_step:
  "apply_request (Unpin i cs) (apply_request (Unpin i [c]) groups) = apply_request (Unpin i (c # cs)) groups"
proof -
  have "filter (\<lambda>x. x \<notin> set cs) (filter (\<lambda>x. x \<noteq> c) xs) = filter (\<lambda>x. x \<noteq> c \<and> x \<notin> set cs) xs" for xs :: "string list"
    by (auto intro!: filter_cong)
  then show ?thesis by (simp add: apply_to_compose o_def)
qed

lemma removePin_wf:
  assumes "removePin sv i c db = Inr (w, db')" "db_wf db"
  shows "db_wf db'"
  using write_db(7) [OF assms(1)] assms(2) by (simp add: db_wf_def same_classification_def delete_many_keys)

lemma removePin_loadGroups:
  assumes "removePin sv i c db = Inr (w, db')" "db_wf db"
  shows "loadGroups True db' = apply_request (Unpin i [c]) (loadGroups True db)"
  using loadGroups_same [OF write_db(7) [OF assms(1)]] loadGroups_pins(2) [OF assms(2)] by simp

lemma unpin_loadGroups:
  "fold_err (\<lambda>db c. db_of (removePin sv i c db)) db cs = Inr db' \<Longrightarrow> db_wf db \<Longrightarrow> cs \<noteq> [] \<Longrightarrow>
     loadGroups True db' = apply_request (Unpin i cs) (loadGroups True db) \<and> i \<in> g_id ` set (db_groups db)"
proof (induction cs arbitrary: db)
  case Nil
  then show ?case by simp
next
  case (Cons c cs)
  from Cons.prems obtain w db1 where step: "removePin sv i c db = Inr (w, db1)"
    and rest: "fold_err (\<lambda>db c. db_of (removePin sv i c db)) db1 cs = Inr db'"
    by (auto simp: db_of_def bind_err_Inr split: sum.splits)
  note one = removePin_loadGroups [OF step Cons.prems(2)] write_known(7) [OF step]
  show ?case
  proof (cases "cs = []")
    case True
    with rest one show ?thesis by simp
  next
    case False
    from Cons.IH [OF rest removePin_wf [OF step Cons.prems(2)] False] one show ?thesis
      by (simp only: unpin_step simp_thms)
  qed
qed

lemma perform_loadGroups:
  assumes "db_wf db" "perform fills sv request db = Inr db'" "plannable request"
  shows "loadGroups True db' = apply_request (as_parsed fills request) (loadGroups True db)
    \<and> request_groupId request \<in> g_id ` set (db_groups db)"
proof (cases request)
  case (ReplaceRules i rules)
  with assms obtain w where w: "replaceRules sv i rules db = Inr (w, db')" by (auto simp: db_of_def bind_err_Inr)
  from loadGroups_same [OF write_db(1) [OF w]] write_known(1) [OF w] loadGroups_rules [OF assms(1)] assms(3) ReplaceRules
  show ?thesis by (simp add: plannable_def as_parsed_def)
next
  case (AssignClass i c ps)
  with assms obtain w where w: "assignClass sv i c ps db = Inr (w, db')" by (auto simp: db_of_def bind_err_Inr)
  from loadGroups_same [OF write_db(2) [OF w]] write_known(2) [OF w] loadGroups_classes(1) [OF assms(1)] assms(3) AssignClass
  show ?thesis by (simp add: plannable_def assign_plain as_parsed_def)
next
  case (RemoveClass i c)
  with assms obtain w where w: "removeClass sv i c db = Inr (w, db')" by (auto simp: db_of_def bind_err_Inr)
  from loadGroups_same [OF write_db(3) [OF w]] write_known(3) [OF w] loadGroups_classes(2) [OF assms(1)] RemoveClass
  show ?thesis by (simp add: as_parsed_def)
next
  case (SetParameter i k v)
  with assms obtain w where w: "setParameter sv i k v db = Inr (w, db')" by (auto simp: db_of_def bind_err_Inr)
  from loadGroups_same [OF write_db(4) [OF w]] write_known(4) [OF w] loadGroups_parameters(1) [OF assms(1)] assms(3) SetParameter
  show ?thesis by (simp add: plannable_def assign_plain as_parsed_def)
next
  case (RemoveParameter i k)
  with assms obtain w where w: "removeParameter sv i k db = Inr (w, db')" by (auto simp: db_of_def bind_err_Inr)
  from loadGroups_same [OF write_db(5) [OF w]] write_known(5) [OF w] loadGroups_parameters(2) [OF assms(1)] RemoveParameter
  show ?thesis by (simp add: as_parsed_def)
next
  case (UpdateGroup i rank env enabled strategy)
  let ?body = "updateNodeGroupSchema fills (patch_of rank env enabled strategy)"
  from assms UpdateGroup obtain w where w: "update_group sv i ?body db = Inr (w, db')" by (auto simp: db_of_def bind_err_Inr)
  have "distinct (map g_id (db_groups db))" using assms(1) by (simp add: db_wf_def)
  then have stored: "loadGroups True (write_group i ?body db)
      = apply_request (UpdateGroup i (ui_rank ?body) (ui_environment ?body) (ui_isEnabled ?body) (ui_strategy ?body)) (loadGroups True db)"
    by (rule loadGroups_update) (simp_all add: updateNodeGroupSchema_def patch_of_def)
  from loadGroups_same [OF write_db(8) [OF w]] write_known(8) [OF w] stored UpdateGroup
  show ?thesis by (cases fills) (simp_all add: as_parsed_def updateNodeGroupSchema_def patch_of_def)
next
  case (DeleteGroup i)
  with assms obtain w where w: "remove_group sv i db = Inr (w, db')" by (auto simp: db_of_def bind_err_Inr)
  from loadGroups_same [OF write_db(9) [OF w]] write_known(9) [OF w] loadGroups_delete DeleteGroup
  show ?thesis by (simp add: as_parsed_def)
next
  case (Pin i cs)
  with assms obtain w where w: "addPins sv i cs db = Inr (w, db')" by (auto simp: db_of_def bind_err_Inr)
  from loadGroups_same [OF write_db(6) [OF w]] write_known(6) [OF w] loadGroups_pins(1) [OF assms(1)] Pin
  show ?thesis by (simp add: as_parsed_def)
next
  case (Unpin i cs)
  with assms unpin_loadGroups [of sv i db cs db'] show ?thesis by (simp add: plannable_def as_parsed_def)
qed

section \<open>Properties: the plan predicts the write\<close>

text \<open>
  C9. The plan predicts the write. When the write a previewed request stands for succeeds, the
  classification it leaves in the database, loaded again, is exactly the one the planner evaluates
  for the request as the write endpoint parses it. That is the previewed request itself, except where the schema library fills
  the defaults of a partial schema into the fields a \<open>PATCH\<close> leaves out (\<open>fills\<close>): then the preview is right exactly when the group
  already has the default in every field left out. The request must be one both sides read
  alike: no \<open>__proto__\<close> key, no rule with a \<open>null\<close> value, and an unpin that names a node.
\<close>

theorem plan_predicts_write:
  assumes "db_wf db" "perform fills sv request db = Inr db'" "plannable request"
  shows "applyOperation (loadGroups True db) (as_parsed fills request) = Inr (loadGroups True db')
    \<and> (applyOperation (loadGroups True db) request = Inr (loadGroups True db') \<longleftrightarrow> \<not> fills \<or> leaves_out_defaults request db)"
proof -
  note written = perform_loadGroups [OF assms]
  have same_id: "request_groupId (as_parsed fills request) = request_groupId request"
    by (simp add: as_parsed_def split: plan_request.split)
  have "distinct (map g_id (db_groups db))" using assms(1) by (simp add: db_wf_def)
  then have "apply_request (as_parsed fills request) (loadGroups True db) = apply_request request (loadGroups True db)
      \<longleftrightarrow> \<not> fills \<or> leaves_out_defaults request db"
    by (cases request) (auto simp: as_parsed_def update_same simp del: apply_request.simps, auto simp: leaves_out_defaults_def)
  then show ?thesis using written applyOperation_known [of request] applyOperation_known [of "as_parsed fills request"] same_id by auto
qed

text \<open>A small estate: one group that pins one node.\<close>

definition demo_service :: service where
  "demo_service = \<lparr> sv_now = 7, sv_actorUserId = ''u1'', sv_actorEmail = ''ops@example.com'', sv_projectedFacts = [''os''] \<rparr>"

definition demo_group_row :: "string \<Rightarrow> string option \<Rightarrow> group_row" where
  "demo_group_row i parent =
     \<lparr> g_id = i, g_name = ''group '' @ i, g_description = None, g_rank = 5, g_strategy = PINNED,
       g_environment = None, g_isEnabled = True, g_parentId = parent \<rparr>"

definition pinned_db :: db where
  "pinned_db = empty_db \<lparr> db_groups := [demo_group_row ''a'' None],
     db_pins := [\<lparr> pin_groupId = ''a'', pin_certname = ''web01'' \<rparr>] \<rparr>"

lemma Inr_projr: "\<not> isl r \<Longrightarrow> r = Inr (fst (projr r), snd (projr r))"
  by (cases r) auto

theorem plan_predicts_write_witness:
  "applyOperation (loadGroups True pinned_db) (SetParameter ''a'' ''role'' (JStr ''web'')) =
     Inr (loadGroups True (snd (projr (setParameter demo_service ''a'' ''role'' (JStr ''web'') pinned_db))))
   \<and> applyOperation (loadGroups True pinned_db) (UpdateGroup ''a'' None None (Some True) None) \<noteq>
     Inr (loadGroups True (projr (perform True demo_service (UpdateGroup ''a'' None None (Some True) None) pinned_db)))"
proof
  have wf: "db_wf pinned_db" by (simp add: db_wf_def pinned_db_def empty_db_def)
  have "\<not> isl (setParameter demo_service ''a'' ''role'' (JStr ''web'') pinned_db)" by code_simp
  from Inr_projr [OF this]
  have "perform False demo_service (SetParameter ''a'' ''role'' (JStr ''web'')) pinned_db =
      Inr (snd (projr (setParameter demo_service ''a'' ''role'' (JStr ''web'') pinned_db)))"
    unfolding perform.simps db_of_def by (metis bind_err_simps(2) case_prod_conv)
  from plan_predicts_write [OF wf this] show "applyOperation (loadGroups True pinned_db) (SetParameter ''a'' ''role'' (JStr ''web'')) =
     Inr (loadGroups True (snd (projr (setParameter demo_service ''a'' ''role'' (JStr ''web'') pinned_db))))"
    by (simp add: plannable_def)
  let ?r = "UpdateGroup ''a'' None None (Some True) None"
  have "\<not> isl (perform True demo_service ?r pinned_db)" by code_simp
  then have "perform True demo_service ?r pinned_db = Inr (projr (perform True demo_service ?r pinned_db))" by simp
  from plan_predicts_write [OF wf this] show "applyOperation (loadGroups True pinned_db) ?r \<noteq>
     Inr (loadGroups True (projr (perform True demo_service ?r pinned_db)))"
    by (simp add: plannable_def leaves_out_defaults_def pinned_db_def demo_group_row_def)
qed

end
