(* ===== verification/Coverage.thy ===== *)
theory Coverage
  imports Classification
begin

text \<open>
  The promise of \<open>classification.service.ts\<close> that no committed change silently fails to reach
  disk: every node is current or queued after every write.
\<close>

section \<open>What is served to a node, and when it is out of date\<close>

definition node_of :: "string \<Rightarrow> jsval obj \<Rightarrow> evaluable_node" where
  "node_of c facts = \<lparr> en_certname = c, en_facts = facts \<rparr>"

definition matched_in :: "runtime \<Rightarrow> group_set \<Rightarrow> evaluable_node \<Rightarrow> evaluable_group list" where
  "matched_in rt gs node = matchGroups (rt_regexp rt) (rt_localeCompare rt) node (gs_evaluable gs)"

text \<open>The groups applied to a node and the hash of its document, or that it has none.\<close>

definition served_key :: "runtime \<Rightarrow> group_set \<Rightarrow> evaluable_node \<Rightarrow> (string list \<times> string) option" where
  "served_key rt gs node =
     (case merge_and_render rt (mergeables gs (matched_in rt gs node)) of
        Inl _ \<Rightarrow> None
      | Inr (merged, rendered) \<Rightarrow> Some (mr_appliedGroupIds merged, re_contentHash rendered))"

definition current_record :: "runtime \<Rightarrow> db \<Rightarrow> string \<Rightarrow> bool" where
  "current_record rt db c \<longleftrightarrow>
     (\<exists>row. find_unique (\<lambda>m. em_certname m = c) (db_materializations db) = Some row \<and>
        served_key rt (loadGroups False db) (node_of c (node_facts db c)) =
          Some (em_appliedGroupIds row, em_contentHash row))"

definition queued :: "db \<Rightarrow> string \<Rightarrow> bool" where
  "queued db c \<longleftrightarrow>
     (\<exists>j \<in> set (db_jobs db). j_status j = PENDING \<and>
        (j_dedupeKey j = node_key c \<or>
         j_dedupeKey j = full_key \<and> (case j_cursor j of None \<Rightarrow> True | Some k \<Rightarrow> k < c)))"

lemma current_record_code [code]:
  "current_record rt db c =
     (case find_unique (\<lambda>m. em_certname m = c) (db_materializations db) of
        None \<Rightarrow> False
      | Some row \<Rightarrow> served_key rt (loadGroups False db) (node_of c (node_facts db c)) =
          Some (em_appliedGroupIds row, em_contentHash row))"
  by (auto simp: current_record_def split: option.split)

lemma served_key_cong:
  assumes "matched_in rt gs' node = matched_in rt gs node"
    and "\<And>g. g \<in> set (matched_in rt gs node) \<Longrightarrow>
      map_of (gs_mergeableById gs') (eg_id g) = map_of (gs_mergeableById gs) (eg_id g)"
  shows "served_key rt gs' node = served_key rt gs node"
proof -
  have "map (\<lambda>g. map_of (gs_mergeableById gs') (eg_id g)) (matched_in rt gs node) =
      map (\<lambda>g. map_of (gs_mergeableById gs) (eg_id g)) (matched_in rt gs node)"
    using assms(2) by simp
  then show ?thesis by (simp only: served_key_def mergeables_def assms(1))
qed

lemma to_evaluable_sel [simp]:
  "eg_id (to_evaluable db g) = g_id g"
  "eg_rank (to_evaluable db g) = g_rank g"
  "eg_strategy (to_evaluable db g) = g_strategy g"
  "eg_isEnabled (to_evaluable db g) = g_isEnabled g"
  by (simp_all add: to_evaluable_def)

lemma map_of_rows:
  "distinct (map g_id rows) \<Longrightarrow> row \<in> set rows \<Longrightarrow> map_of (map (\<lambda>g. (g_id g, m g)) rows) (g_id row) = Some (m row)"
  by (induction rows) (auto simp: image_iff)

text \<open>Disabled groups match nothing, so loading them changes nothing.\<close>

lemma served_key_enabled:
  assumes "distinct (map g_id (db_groups db))"
  shows "served_key rt (loadGroups False db) node = served_key rt (loadGroups True db) node"
proof (rule served_key_cong)
  have "filter (groupMatches (rt_regexp rt) node) (map (to_evaluable db) (filter g_isEnabled gs)) =
      filter (groupMatches (rt_regexp rt) node) (map (to_evaluable db) gs)" for gs
    by (induction gs) simp_all
  then show "matched_in rt (loadGroups False db) node = matched_in rt (loadGroups True db) node"
    by (simp add: matched_in_def matchGroups_def loadGroups_def Let_def)
next
  fix g
  assume "g \<in> set (matched_in rt (loadGroups True db) node)"
  then obtain row where row: "row \<in> set (db_groups db)" "g = to_evaluable db row"
    and "groupMatches (rt_regexp rt) node (to_evaluable db row)"
    by (auto simp: matched_in_def loadGroups_def Let_def)
  then have enabled: "g_isEnabled row" by (metis groupMatches_disabled to_evaluable_sel(4))
  have "distinct (map g_id (filter g_isEnabled (db_groups db)))" using assms by (simp add: distinct_map_filter)
  from map_of_rows [OF this, of row "to_mergeable db"] map_of_rows [OF assms, of row "to_mergeable db"] row enabled
  show "map_of (gs_mergeableById (loadGroups False db)) (eg_id g) = map_of (gs_mergeableById (loadGroups True db)) (eg_id g)"
    by (simp add: loadGroups_def Let_def)
qed

lemma mergeables_ids:
  "\<forall>g \<in> set matched. \<exists>m. map_of (gs_mergeableById gs) (eg_id g) = Some m \<and> mg_id m = eg_id g \<Longrightarrow>
     map mg_id (mergeables gs matched) = map eg_id matched"
  by (induction matched) (auto simp: mergeables_def)

lemma served_key_ids:
  assumes "distinct (map g_id (db_groups db))"
    and "served_key rt (loadGroups True db) node = Some (ids, h)"
  shows "ids = map eg_id (matched_in rt (loadGroups True db) node)"
proof -
  have "\<exists>m. map_of (gs_mergeableById (loadGroups True db)) (eg_id g) = Some m \<and> mg_id m = eg_id g"
    if member: "g \<in> set (matched_in rt (loadGroups True db) node)" for g
  proof -
    from member obtain row where row: "row \<in> set (db_groups db)" "g = to_evaluable db row"
      by (auto simp: matched_in_def loadGroups_def Let_def)
    with map_of_rows [OF assms(1) row(1), of "to_mergeable db"] show ?thesis
      by (simp add: loadGroups_def Let_def to_mergeable_def)
  qed
  then have "map mg_id (mergeables (loadGroups True db) (matched_in rt (loadGroups True db) node)) =
      map eg_id (matched_in rt (loadGroups True db) node)"
    by (intro mergeables_ids) blast
  moreover have "ids = map mg_id (mergeables (loadGroups True db) (matched_in rt (loadGroups True db) node))"
    using assms(2) by (auto simp: served_key_def merge_and_render_def mergeGroups_def bind_err_def split: sum.splits prod.splits)
  ultimately show ?thesis by simp
qed

text \<open>An operation on a group a node does not match, before or after, serves the node as before.\<close>

lemma filter_row_change:
  "\<forall>g \<in> set gs. eg_id g = i \<longrightarrow> \<not> P g \<and> \<not> P (f g) \<Longrightarrow>
     filter P (map (\<lambda>g. if eg_id g = i then f g else g) gs) = filter P gs"
  by (induction gs) auto

lemma served_key_unmatched:
  assumes "distinct (map eg_id (gs_evaluable gs))"
    and "\<forall>g \<in> set (gs_evaluable gs). eg_id g = i \<longrightarrow>
      \<not> groupMatches (rt_regexp rt) node g \<and> \<not> groupMatches (rt_regexp rt) node (f g)"
  shows "served_key rt (apply_to f h i gs) node = served_key rt gs node"
proof (rule served_key_cong)
  show "matched_in rt (apply_to f h i gs) node = matched_in rt gs node"
    by (simp add: matched_in_def matchGroups_def apply_to_def update_first_map [OF assms(1)] filter_row_change [OF assms(2)])
next
  fix g
  assume "g \<in> set (matched_in rt gs node)"
  then have "eg_id g \<noteq> i" using assms(2) by (auto simp: matched_in_def)
  then show "map_of (gs_mergeableById (apply_to f h i gs)) (eg_id g) = map_of (gs_mergeableById gs) (eg_id g)"
    by (simp add: apply_to_def map_of_update_entry option.map_id)
qed

lemma served_key_deleted:
  assumes "\<forall>g \<in> set (gs_evaluable gs). eg_id g = i \<longrightarrow> \<not> groupMatches (rt_regexp rt) node g"
  shows "served_key rt (apply_request (DeleteGroup i) gs) node = served_key rt gs node"
proof (rule served_key_cong)
  have "filter P (filter (\<lambda>g. eg_id g \<noteq> i) xs) = filter P xs" if "\<forall>g \<in> set xs. eg_id g = i \<longrightarrow> \<not> P g" for P and xs :: "evaluable_group list"
    using that by (induction xs) auto
  from this [OF assms] show "matched_in rt (apply_request (DeleteGroup i) gs) node = matched_in rt gs node"
    by (simp add: matched_in_def matchGroups_def)
next
  fix g
  assume "g \<in> set (matched_in rt gs node)"
  then have "eg_id g \<noteq> i" using assms by (auto simp: matched_in_def)
  then have "map_of (filter (\<lambda>(k, _). k \<noteq> i) ms) (eg_id g) = map_of ms (eg_id g)" for ms :: "(string \<times> mergeable_group) list"
    by (induction ms) auto
  then show "map_of (gs_mergeableById (apply_request (DeleteGroup i) gs)) (eg_id g) = map_of (gs_mergeableById gs) (eg_id g)"
    by simp
qed


text \<open>The document of a merge depends on what the groups contribute, not on their names or ids.\<close>

definition core :: "merge_state \<Rightarrow> (jsval obj) obj \<times> jsval obj \<times> string option" where
  "core st = (ms_classes st, ms_parameters st, ms_environment st)"

definition same_core :: "merge_error + merge_state \<Rightarrow> merge_error + merge_state \<Rightarrow> bool" where
  "same_core r r' \<longleftrightarrow> map_sum id core r = map_sum id core r'"

lemma same_core_simps [simp]:
  "same_core (Inl e) r \<longleftrightarrow> r = Inl e"
  "same_core (Inr s) (Inr s') \<longleftrightarrow> core s = core s'"
  "same_core (Inr s) (Inl e) \<longleftrightarrow> False"
  by (cases r; auto simp: same_core_def)+

lemma core_class_param:
  "core s = core s' \<Longrightarrow> core (merge_class_param g c s kv) = core (merge_class_param g' c s' kv)"
  by (cases kv) (simp add: core_def merge_class_param_def Let_def)

lemma core_class_params:
  "core s = core s' \<Longrightarrow> core (foldl (merge_class_param g c) s kvs) = core (foldl (merge_class_param g' c) s' kvs)"
proof (induction kvs arbitrary: s s')
  case (Cons kv kvs)
  from Cons.IH [OF core_class_param [OF Cons.prems]] show ?case by simp
qed simp

lemma core_class:
  assumes "core s = core s'"
  shows "same_core (merge_class g s kv) (merge_class g' s' kv)"
proof -
  obtain c ps where kv: "kv = (c, ps)" by (cases kv)
  have cl: "ms_classes s' = ms_classes s" using assms by (simp add: core_def)
  have rest: "ms_parameters s' = ms_parameters s" "ms_environment s' = ms_environment s"
    using assms by (simp_all add: core_def)
  have "core (foldl (merge_class_param g c) t ps) = core (foldl (merge_class_param g' c) t' ps)"
    if "ms_classes t = ms_classes t'" "ms_parameters t = ms_parameters t'" "ms_environment t = ms_environment t'" for t t'
    by (rule core_class_params) (use that in \<open>simp add: core_def\<close>)
  then show ?thesis unfolding kv merge_class_def Let_def prod.case cl
    by (cases "c \<in> set inherited_names \<and> oget (ms_classes s) c = None") (simp_all add: rest cl)
qed

lemma core_classes:
  "core s = core s' \<Longrightarrow> same_core (fold_err (merge_class g) s kvs) (fold_err (merge_class g') s' kvs)"
proof (induction kvs arbitrary: s s')
  case (Cons kv kvs)
  from core_class [OF Cons.prems, of g kv g'] show ?case
    by (cases "merge_class g s kv"; cases "merge_class g' s' kv") (auto intro: Cons.IH)
qed simp

lemma core_params:
  "core s = core s' \<Longrightarrow> core (foldl (merge_param g) s kvs) = core (foldl (merge_param g') s' kvs)"
proof (induction kvs arbitrary: s s')
  case (Cons kv kvs)
  have "core (merge_param g s kv) = core (merge_param g' s' kv)"
    using Cons.prems by (cases kv) (simp add: core_def merge_param_def Let_def)
  from Cons.IH [OF this] show ?case by simp
qed simp

definition contribution :: "mergeable_group \<Rightarrow> string option \<times> (jsval obj) obj \<times> jsval obj" where
  "contribution g = (mg_environment g, mg_classes g, mg_parameters g)"

lemma core_group:
  assumes "core s = core s'" "contribution g = contribution g'"
  shows "same_core (merge_group s g) (merge_group s' g')"
proof -
  have same: "mg_environment g' = mg_environment g" "mg_classes g' = mg_classes g" "mg_parameters g' = mg_parameters g"
    using assms(2) by (simp_all add: contribution_def)
  have env: "core (merge_environment g t) = core (merge_environment g' t')" if "core t = core t'" for t t'
    using that by (auto simp: core_def merge_environment_def Let_def same(1) split: option.split)
  from core_classes [OF assms(1), of g "mg_classes g" g'] show ?thesis
    by (cases "fold_err (merge_class g) s (mg_classes g)"; cases "fold_err (merge_class g') s' (mg_classes g)")
      (auto simp: merge_group_def same(2,3) intro!: env core_params)
qed

lemma core_groups:
  "list_all2 (\<lambda>g g'. contribution g = contribution g') gs gs' \<Longrightarrow> core s = core s' \<Longrightarrow>
     same_core (fold_err merge_group s gs) (fold_err merge_group s' gs')"
proof (induction gs gs' arbitrary: s s' rule: list_all2_induct)
  case (Cons g gs g' gs')
  from core_group [OF Cons.prems Cons.hyps(1)] show ?case
    by (cases "merge_group s g"; cases "merge_group s' g'") (auto intro: Cons.IH)
qed simp

lemma merge_and_render_contributions:
  assumes "list_all2 (\<lambda>g g'. contribution g = contribution g') gs gs'" "map mg_id gs = map mg_id gs'"
  shows "(case merge_and_render rt gs of Inl e \<Rightarrow> None | Inr (m, r) \<Rightarrow> Some (mr_appliedGroupIds m, re_contentHash r)) =
    (case merge_and_render rt gs' of Inl e \<Rightarrow> None | Inr (m, r) \<Rightarrow> Some (mr_appliedGroupIds m, re_contentHash r))"
  using core_groups [OF assms(1) refl, of merge_init] assms(2)
  by (cases "fold_err merge_group merge_init gs"; cases "fold_err merge_group merge_init gs'")
    (auto simp: merge_and_render_def mergeGroups_def core_def split: sum.splits)


section \<open>The outbox keeps what is queued\<close>

definition jobs_kept :: "db \<Rightarrow> db \<Rightarrow> bool" where
  "jobs_kept db db' \<longleftrightarrow>
     (\<forall>j \<in> set (db_jobs db). \<exists>j' \<in> set (db_jobs db').
        j_dedupeKey j' = j_dedupeKey j \<and> j_cursor j' = j_cursor j \<and> (j_status j = PENDING \<longrightarrow> j_status j' = PENDING))"

lemma jobs_kept_queued: "jobs_kept db db' \<Longrightarrow> queued db c \<Longrightarrow> queued db' c"
  unfolding jobs_kept_def queued_def by metis

lemma jobs_kept_same: "db_jobs db' = db_jobs db \<Longrightarrow> jobs_kept db db'"
  unfolding jobs_kept_def by metis

lemma jobs_kept_trans: "jobs_kept a b \<Longrightarrow> jobs_kept b c \<Longrightarrow> jobs_kept a c"
  unfolding jobs_kept_def by metis

lemma jobs_kept_upsert: "jobs_kept db (upsert_job k new (requeue now reason) db)"
  unfolding jobs_kept_def
proof
  fix j
  assume j: "j \<in> set (db_jobs db)"
  show "\<exists>j' \<in> set (db_jobs (upsert_job k new (requeue now reason) db)).
      j_dedupeKey j' = j_dedupeKey j \<and> j_cursor j' = j_cursor j \<and> (j_status j = PENDING \<longrightarrow> j_status j' = PENDING)"
  proof (cases "j_dedupeKey j = k")
    case True
    from upsert_job_hit [OF j True, of "requeue now reason" new] show ?thesis
      by (intro bexI [of _ "requeue now reason j"]) (simp_all add: requeue_def)
  next
    case False
    from upsert_job_other [OF j False] show ?thesis by blast
  qed
qed

lemma jobs_kept_enqueueNodes: "jobs_kept db (enqueueNodes now cs reason db)"
  unfolding enqueueNodes_def
proof (induction cs arbitrary: db)
  case (Cons c cs)
  have "jobs_kept db (enqueueNode now c reason db)" unfolding enqueueNode_def by (rule jobs_kept_upsert)
  from jobs_kept_trans [OF this Cons.IH] show ?case by simp
qed (simp add: jobs_kept_same)

lemma queued_enqueueNodes: "c \<in> set cs \<Longrightarrow> queued (enqueueNodes now cs reason db) c"
  using due_enqueueNodes [of c cs now db reason] unfolding due_def queued_def by blast

text \<open>No full reconcile is part-way through the estate.\<close>

definition no_partial_walk :: "db \<Rightarrow> bool" where
  "no_partial_walk db \<longleftrightarrow> (\<forall>j \<in> set (db_jobs db). j_dedupeKey j = full_key \<longrightarrow> j_cursor j = None)"

lemma no_partial_walk_upsert:
  assumes "\<And>i. j_cursor (new i) = None" "no_partial_walk db"
  shows "no_partial_walk (upsert_job k new (requeue now reason) db)"
  using assms by (auto simp: no_partial_walk_def upsert_job_rows requeue_def split: if_splits)

lemma no_partial_walk_enqueueNodes: "no_partial_walk db \<Longrightarrow> no_partial_walk (enqueueNodes now cs reason db)"
  unfolding enqueueNodes_def
proof (induction cs arbitrary: db)
  case (Cons c cs)
  have "no_partial_walk (enqueueNode now c reason db)"
    unfolding enqueueNode_def using Cons.prems by (intro no_partial_walk_upsert) (simp add: default_job_def)
  from Cons.IH [OF this] show ?case by simp
qed simp

lemma no_partial_walk_full: "no_partial_walk db \<Longrightarrow> no_partial_walk (enqueueFullReconcile now reason db)"
  unfolding enqueueFullReconcile_def by (intro no_partial_walk_upsert) (simp_all add: default_job_def)

lemma queued_full:
  assumes "no_partial_walk db"
  shows "queued (enqueueFullReconcile now reason db) c"
proof -
  have "due now full_key (enqueueFullReconcile now reason db)" by simp
  then obtain j where j: "j \<in> set (db_jobs (enqueueFullReconcile now reason db))" "j_dedupeKey j = full_key" "j_status j = PENDING"
    by (auto simp: due_def)
  moreover from j no_partial_walk_full [OF assms] have "j_cursor j = None" by (auto simp: no_partial_walk_def)
  ultimately show ?thesis unfolding queued_def by (metis option.simps(4))
qed


section \<open>Every write leaves each node current or queued\<close>

inductive write_step :: "service \<Rightarrow> db \<Rightarrow> db \<Rightarrow> bool" for sv where
  create: "create sv newId ci db = Inr (w, db') \<Longrightarrow> newId \<notin> g_id ` set (db_groups db) \<Longrightarrow> write_step sv db db'"
| update: "update_group sv i ui db = Inr (w, db') \<Longrightarrow> write_step sv db db'"
| remove: "remove_group sv i db = Inr (certnames, db') \<Longrightarrow> write_step sv db db'"
| replace_rules: "replaceRules sv i rules db = Inr (w, db') \<Longrightarrow> write_step sv db db'"
| assign_class: "assignClass sv i c params db = Inr (w, db') \<Longrightarrow> write_step sv db db'"
| remove_class: "removeClass sv i c db = Inr (w, db') \<Longrightarrow> write_step sv db db'"
| set_parameter: "setParameter sv i k v db = Inr (w, db') \<Longrightarrow> write_step sv db db'"
| remove_parameter: "removeParameter sv i k db = Inr (w, db') \<Longrightarrow> write_step sv db db'"
| add_pins: "addPins sv i certnames db = Inr (w, db') \<Longrightarrow> write_step sv db db'"
| remove_pin: "removePin sv i c db = Inr (w, db') \<Longrightarrow> write_step sv db db'"
| force_reconcile: "write_step sv db (forceReconcile sv db)"

definition foreign_keys :: "db \<Rightarrow> bool" where
  "foreign_keys db \<longleftrightarrow>
     ru_groupId ` set (db_rules db) \<union> cl_groupId ` set (db_classes db) \<union> pa_groupId ` set (db_parameters db)
       \<union> pin_groupId ` set (db_pins db) \<subseteq> g_id ` set (db_groups db)"

definition covered :: "runtime \<Rightarrow> db \<Rightarrow> string \<Rightarrow> bool" where
  "covered rt db c \<longleftrightarrow> current_record rt db c \<or> queued db c"

text \<open>
  What a write does, as far as the queue is concerned: it walks the estate, or it serves every
  node it does not queue as before.
\<close>

definition write_effect :: "runtime \<Rightarrow> db \<Rightarrow> db \<Rightarrow> bool" where
  "write_effect rt db db' \<longleftrightarrow>
     db_nodes db' = db_nodes db \<and> db_materializations db' = db_materializations db \<and> jobs_kept db db' \<and>
     (\<forall>c. current_record rt db c \<longrightarrow> covered rt db' c)"

lemma write_effect_covered:
  "write_effect rt db db' \<Longrightarrow> covered rt db c \<Longrightarrow> covered rt db' c"
  unfolding write_effect_def covered_def using jobs_kept_queued by blast

lemma current_record_True:
  assumes "distinct (map g_id (db_groups db))"
  shows "current_record rt db c \<longleftrightarrow>
     (\<exists>row. find_unique (\<lambda>m. em_certname m = c) (db_materializations db) = Some row \<and>
        served_key rt (loadGroups True db) (node_of c (node_facts db c)) =
          Some (em_appliedGroupIds row, em_contentHash row))"
  by (simp only: current_record_def served_key_enabled [OF assms])

lemma current_record_frame:
  assumes "distinct (map g_id (db_groups db))" "distinct (map g_id (db_groups db'))"
    and "db_nodes db' = db_nodes db" "db_materializations db' = db_materializations db"
    and "served_key rt (loadGroups True db') (node_of c (node_facts db c)) =
      served_key rt (loadGroups True db) (node_of c (node_facts db c))"
    and "current_record rt db c"
  shows "current_record rt db' c"
proof -
  have "node_facts db' c = node_facts db c" by (simp only: node_facts_def assms(3))
  with assms(6) show ?thesis
    by (simp only: current_record_True [OF assms(1)] current_record_True [OF assms(2)] assms(4,5))
qed

text \<open>A node whose record is current and does not name a group does not match the group.\<close>

lemma unmatched_if_unrecorded:
  assumes "distinct (map g_id (db_groups db))" "current_record rt db c"
    and "c \<notin> em_certname ` {m \<in> set (db_materializations db). i \<in> set (em_appliedGroupIds m)}"
  shows "\<forall>g \<in> set (gs_evaluable (loadGroups True db)). eg_id g = i \<longrightarrow>
    \<not> groupMatches (rt_regexp rt) (node_of c (node_facts db c)) g"
proof (intro ballI impI notI)
  fix g
  assume g: "g \<in> set (gs_evaluable (loadGroups True db))" "eg_id g = i"
    and "groupMatches (rt_regexp rt) (node_of c (node_facts db c)) g"
  then have matched: "i \<in> eg_id ` set (matched_in rt (loadGroups True db) (node_of c (node_facts db c)))"
    by (auto simp: matched_in_def)
  obtain row where row: "find_unique (\<lambda>m. em_certname m = c) (db_materializations db) = Some row"
    and "served_key rt (loadGroups True db) (node_of c (node_facts db c)) = Some (em_appliedGroupIds row, em_contentHash row)"
    using assms(2) unfolding current_record_True [OF assms(1)] by blast
  with served_key_ids [OF assms(1)] matched have "i \<in> set (em_appliedGroupIds row)" by force
  with find_unique_Some [OF row] assms(3) show False by force
qed

lemma affected_recorded:
  "c \<notin> set (affectedCertnames db i) \<Longrightarrow>
     c \<notin> em_certname ` {m \<in> set (db_materializations db). i \<in> set (em_appliedGroupIds m)}"
  by (auto simp: affectedCertnames_def Let_def unique_def)


lemma gs_ids: "map eg_id (gs_evaluable (loadGroups True db)) = map g_id (db_groups db)"
  by (simp add: loadGroups_def Let_def)

lemma members_effect:
  assumes "distinct (map g_id (db_groups db))" "distinct (map g_id (db_groups db'))"
    and "db_nodes db' = db_nodes db" "db_materializations db' = db_materializations db" "jobs_kept db db'"
    and "loadGroups True db' = apply_to f h i (loadGroups True db)"
    and "\<And>c. c \<in> set affected \<Longrightarrow> queued db' c"
    and "em_certname ` {m \<in> set (db_materializations db). i \<in> set (em_appliedGroupIds m)} \<subseteq> set affected"
    and "\<And>c facts g. c \<notin> set affected \<Longrightarrow>
      groupMatches (rt_regexp rt) (node_of c facts) (f g) = groupMatches (rt_regexp rt) (node_of c facts) g"
  shows "write_effect rt db db'"
proof -
  have "covered rt db' c" if current: "current_record rt db c" for c
  proof (cases "c \<in> set affected")
    case True
    with assms(7) show ?thesis by (simp add: covered_def)
  next
    case False
    then have "c \<notin> em_certname ` {m \<in> set (db_materializations db). i \<in> set (em_appliedGroupIds m)}"
      using assms(8) by blast
    from unmatched_if_unrecorded [OF assms(1) current this] assms(9) [OF False]
    have "\<forall>g \<in> set (gs_evaluable (loadGroups True db)). eg_id g = i \<longrightarrow>
        \<not> groupMatches (rt_regexp rt) (node_of c (node_facts db c)) g
        \<and> \<not> groupMatches (rt_regexp rt) (node_of c (node_facts db c)) (f g)" by simp
    moreover have "distinct (map eg_id (gs_evaluable (loadGroups True db)))" using assms(1) by (simp only: gs_ids)
    ultimately have "served_key rt (loadGroups True db') (node_of c (node_facts db c)) =
        served_key rt (loadGroups True db) (node_of c (node_facts db c))"
      using served_key_unmatched assms(6) by simp
    from current_record_frame [OF assms(1-4) this current] show ?thesis by (simp add: covered_def)
  qed
  with assms(3-5) show ?thesis by (simp add: write_effect_def)
qed

lemma full_effect:
  assumes "no_partial_walk db1" "jobs_kept db db1"
    and "db_nodes db1 = db_nodes db" "db_materializations db1 = db_materializations db"
  shows "write_effect rt db (enqueueFullReconcile now reason db1)"
proof -
  have "jobs_kept db1 (enqueueFullReconcile now reason db1)" unfolding enqueueFullReconcile_def by (rule jobs_kept_upsert)
  with assms(2) have "jobs_kept db (enqueueFullReconcile now reason db1)" by (rule jobs_kept_trans)
  with assms queued_full [OF assms(1)] show ?thesis by (simp add: write_effect_def covered_def)
qed

text \<open>Both shapes of a write that queues members: the row it changes, audit, queue.\<close>

lemma finish_members_Inr:
  "finish_members sv i action reason db1 = Inr (w, db') \<Longrightarrow>
     db' = enqueueNodes (sv_now sv) (affectedCertnames (recordAudit sv action (Some i) db1) i) (reason @ i)
       (recordAudit sv action (Some i) db1)"
  by (auto simp: finish_members_def bind_err_Inr Let_def)

lemma queue_effect:
  assumes "distinct (map g_id (db_groups db))" "db_groups db1 = db_groups db"
    and "db_nodes db1 = db_nodes db" "db_materializations db1 = db_materializations db" "db_jobs db1 = db_jobs db"
    and "loadGroups True db1 = apply_to f h i (loadGroups True db)"
    and "db' = enqueueNodes now affected reason (recordAudit sv action (Some i) db1)"
    and "set (affectedCertnames db1 i) \<subseteq> set affected"
    and "\<And>c facts g. c \<notin> set affected \<Longrightarrow>
      groupMatches (rt_regexp rt) (node_of c facts) (f g) = groupMatches (rt_regexp rt) (node_of c facts) g"
  shows "write_effect rt db db'"
proof (rule members_effect [where affected = affected])
  have "jobs_kept db (recordAudit sv action (Some i) db1)" by (rule jobs_kept_same) (simp add: assms(5))
  from jobs_kept_trans [OF this jobs_kept_enqueueNodes] show "jobs_kept db db'" by (simp only: assms(7))
  show "loadGroups True db' = apply_to f h i (loadGroups True db)"
    using loadGroups_same [of db' db1 True] assms(6) by (simp add: assms(7))
  show "em_certname ` {m \<in> set (db_materializations db). i \<in> set (em_appliedGroupIds m)} \<subseteq> set affected"
  proof
    fix x
    assume "x \<in> em_certname ` {m \<in> set (db_materializations db). i \<in> set (em_appliedGroupIds m)}"
    with affected_recorded [of x db1 i] assms(4,8) show "x \<in> set affected" by auto
  qed
  show "distinct (map g_id (db_groups db'))" by (simp add: assms(1,2,7))
  show "db_nodes db' = db_nodes db" "db_materializations db' = db_materializations db" by (simp_all add: assms(3,4,7))
  show "queued db' c" if "c \<in> set affected" for c unfolding assms(7) using that by (rule queued_enqueueNodes)
qed (fact assms(1,9))+

text \<open>Creating, renaming and deleting.\<close>

lemma created_row_unmatched:
  assumes "foreign_keys db" "g_id g \<notin> g_id ` set (db_groups db)"
  shows "\<not> groupMatches re node (to_evaluable db g)"
proof -
  have "filter (\<lambda>r. ru_groupId r = g_id g) (db_rules db) = []" "filter (\<lambda>p. pin_groupId p = g_id g) (db_pins db) = []"
    using assms unfolding foreign_keys_def filter_empty_conv le_sup_iff image_subset_iff by metis+
  then have "eg_rules (to_evaluable db g) = []" "eg_pinnedCertnames (to_evaluable db g) = []"
    by (simp_all add: to_evaluable_def)
  then show ?thesis by (simp add: groupMatches_def split: match_strategy.split)
qed

lemma served_key_created:
  assumes "foreign_keys db" "g_id g \<notin> g_id ` set (db_groups db)"
  shows "served_key rt (loadGroups True (db \<lparr> db_groups := db_groups db @ [g] \<rparr>)) node = served_key rt (loadGroups True db) node"
proof (rule served_key_cong)
  let ?db = "db \<lparr> db_groups := db_groups db @ [g] \<rparr>"
  have me: "to_mergeable ?db = to_mergeable db" by (rule ext) (simp add: to_mergeable_def)
  have ev: "to_evaluable ?db = to_evaluable db" by (rule ext) simp
  show "matched_in rt (loadGroups True ?db) node = matched_in rt (loadGroups True db) node"
    by (simp add: matched_in_def matchGroups_def loadGroups_def Let_def ev created_row_unmatched [OF assms])
  fix x
  assume "x \<in> set (matched_in rt (loadGroups True db) node)"
  then obtain y where "y \<in> set (db_groups db)" "x = to_evaluable db y" by (auto simp: matched_in_def loadGroups_def Let_def)
  with assms(2) have "eg_id x \<noteq> g_id g" by (metis image_eqI to_evaluable_sel(1))
  then show "map_of (gs_mergeableById (loadGroups True ?db)) (eg_id x) = map_of (gs_mergeableById (loadGroups True db)) (eg_id x)"
    by (simp add: loadGroups_def Let_def me map_add_def split: option.split)
qed

text \<open>A row whose matching columns stay the same: a name or a description.\<close>

lemma served_key_renamed:
  assumes "distinct (map g_id (db_groups db))"
    and "\<And>g. g_id (u g) = g_id g \<and> g_rank (u g) = g_rank g \<and> g_strategy (u g) = g_strategy g \<and>
      g_isEnabled (u g) = g_isEnabled g \<and> g_environment (u g) = g_environment g"
  shows "served_key rt (loadGroups True (db \<lparr> db_groups := map u (db_groups db) \<rparr>)) node = served_key rt (loadGroups True db) node"
proof -
  let ?db = "db \<lparr> db_groups := map u (db_groups db) \<rparr>"
  define P where "P = groupMatches (rt_regexp rt) node"
  define rows where "rows = js_sort (\<lambda>a b. mergeOrder (rt_localeCompare rt) (to_evaluable db a) (to_evaluable db b))
      (filter (\<lambda>g. P (to_evaluable db g)) (db_groups db))"
  have P: "P (to_evaluable db (u g)) = P (to_evaluable db g)" for g
  proof -
    have "eg_rules (to_evaluable db (u g)) = eg_rules (to_evaluable db g)"
      "eg_pinnedCertnames (to_evaluable db (u g)) = eg_pinnedCertnames (to_evaluable db g)"
      using assms(2) [of g] by (simp_all add: to_evaluable_def)
    then show ?thesis using assms(2) [of g] by (simp add: P_def groupMatches_def split: match_strategy.split)
  qed
  have ev: "to_evaluable ?db = to_evaluable db" by (rule ext) simp
  have me: "to_mergeable ?db = to_mergeable db" by (rule ext) (simp add: to_mergeable_def)
  have order: "mergeOrder lc (to_evaluable db (u a)) (to_evaluable db (u b)) = mergeOrder lc (to_evaluable db a) (to_evaluable db b)" for lc a b
    using assms(2) [of a] assms(2) [of b] by (simp add: mergeOrder_def)
  have old: "matched_in rt (loadGroups True db) node = map (to_evaluable db) rows"
    by (simp add: matched_in_def matchGroups_def loadGroups_def Let_def filter_map o_def js_sort_map rows_def P_def [symmetric])
  have new: "matched_in rt (loadGroups True ?db) node = map (\<lambda>g. to_evaluable db (u g)) rows"
    by (simp add: matched_in_def matchGroups_def loadGroups_def Let_def filter_map o_def js_sort_map rows_def P_def [symmetric] ev P order)
  have sub: "set rows \<subseteq> set (db_groups db)" by (auto simp: rows_def)
  have "distinct (map g_id (map u (db_groups db)))" using assms by (simp add: o_def)
  note look' = map_of_rows [OF this, where m = "to_mergeable db"] and look = map_of_rows [OF assms(1), where m = "to_mergeable db"]
  have m_old: "mergeables (loadGroups True db) (map (to_evaluable db) rows) = map (to_mergeable db) rows"
    using sub look by (induction rows) (auto simp: mergeables_def loadGroups_def Let_def)
  have m_new: "mergeables (loadGroups True ?db) (map (\<lambda>g. to_evaluable db (u g)) rows) = map (\<lambda>g. to_mergeable db (u g)) rows"
    using sub look' by (induction rows) (auto simp: mergeables_def loadGroups_def Let_def me)
  have "list_all2 (\<lambda>g g'. contribution g = contribution g') (map (\<lambda>g. to_mergeable db (u g)) rows) (map (to_mergeable db) rows)"
    using assms(2) by (simp add: list_all2_conv_all_nth contribution_def to_mergeable_def)
  moreover have "map mg_id (map (\<lambda>g. to_mergeable db (u g)) rows) = map mg_id (map (to_mergeable db) rows)"
    using assms(2) by (simp add: to_mergeable_def)
  ultimately show ?thesis
    unfolding served_key_def old new m_old m_new by (rule merge_and_render_contributions)
qed


text \<open>The database a successful write yields, in full.\<close>

lemma create_Inr:
  "create sv newId ci db = Inr (w, db') \<Longrightarrow> \<exists>g. g_id g = newId
     \<and> db' = recordAudit sv ''node-group.create'' (Some newId) (db \<lparr> db_groups := db_groups db @ [g] \<rparr>)"
  by (auto simp: create_def bind_err_Inr Let_def intro!: exI [where x = "created_row newId ci"]) (simp add: created_row_def)

lemma update_group_Inr:
  assumes "update_group sv i ui db = Inr (w, db')"
  shows "if affectsMatching ui
     then db' = enqueueFullReconcile (sv_now sv) (''node-group.update:'' @ i)
       (recordAudit sv ''node-group.update'' (Some i) (write_group i ui db))
     else db' = recordAudit sv ''node-group.update'' (Some i) (write_group i ui db)"
  using assms by (auto simp: update_group_def bind_err_Inr Let_def split: if_splits)

lemma replaceRules_Inr:
  "replaceRules sv i rules db = Inr (w, db') \<Longrightarrow>
     db' = enqueueFullReconcile (sv_now sv) (''node-group.rules:'' @ i) (recordAudit sv ''node-group.rules.replace'' (Some i)
       (db \<lparr> db_rules := delete_many (\<lambda>r. ru_groupId r = i) (db_rules db) @ map (rule_row_of i) rules \<rparr>))"
  by (auto simp: replaceRules_def bind_err_Inr Let_def)

lemma remove_group_Inr:
  "remove_group sv i db = Inr (affected, db') \<Longrightarrow> affected = affectedCertnames db i \<and>
     db' = enqueueNodes (sv_now sv) affected (''node-group.delete:'' @ i)
       (recordAudit sv ''node-group.delete'' (Some i) (delete_group i db))"
  by (auto simp: remove_group_def bind_err_Inr Let_def split: if_splits)

lemma addPins_Inr:
  "addPins sv i cs db = Inr (w, db') \<Longrightarrow>
     db' = enqueueNodes (sv_now sv)
       (unique (cs @ affectedCertnames (recordAudit sv ''node-group.pin.add'' (Some i)
          (db \<lparr> db_pins := foldl (upsert_pin i) (db_pins db) cs \<rparr>)) i)) (''node-group.pin:'' @ i)
       (recordAudit sv ''node-group.pin.add'' (Some i) (db \<lparr> db_pins := foldl (upsert_pin i) (db_pins db) cs \<rparr>))"
  by (auto simp: addPins_def bind_err_Inr Let_def)

lemma removePin_Inr:
  "removePin sv i c db = Inr (w, db') \<Longrightarrow>
     db' = enqueueNodes (sv_now sv)
       (unique (c # affectedCertnames (recordAudit sv ''node-group.pin.remove'' (Some i)
          (db \<lparr> db_pins := delete_many (\<lambda>p. pin_groupId p = i \<and> pin_certname p = c) (db_pins db) \<rparr>)) i))
       (''node-group.pin.remove:'' @ i) (recordAudit sv ''node-group.pin.remove'' (Some i)
         (db \<lparr> db_pins := delete_many (\<lambda>p. pin_groupId p = i \<and> pin_certname p = c) (db_pins db) \<rparr>))"
  by (auto simp: removePin_def bind_err_Inr Let_def split: if_splits)

lemma members_Inr:
  "assignClass sv i c ps db = Inr (w, db') \<Longrightarrow> finish_members sv i ''node-group.class.assign'' ''node-group.class:''
     (db \<lparr> db_classes := upsert (\<lambda>x. cl_groupId x = i \<and> cl_className x = c)
        \<lparr> cl_groupId = i, cl_className = c, cl_params = ps \<rparr> (\<lambda>x. x \<lparr> cl_params := ps \<rparr>) (db_classes db) \<rparr>) = Inr (w, db')"
  "removeClass sv i c db = Inr (w, db') \<Longrightarrow> finish_members sv i ''node-group.class.remove'' ''node-group.class.remove:''
     (db \<lparr> db_classes := delete_many (\<lambda>x. cl_groupId x = i \<and> cl_className x = c) (db_classes db) \<rparr>) = Inr (w, db')"
  "setParameter sv i k v db = Inr (w, db') \<Longrightarrow> finish_members sv i ''node-group.parameter.set'' ''node-group.parameter:''
     (db \<lparr> db_parameters := upsert (\<lambda>x. pa_groupId x = i \<and> pa_key x = k)
        \<lparr> pa_groupId = i, pa_key = k, pa_value = v \<rparr> (\<lambda>x. x \<lparr> pa_value := v \<rparr>) (db_parameters db) \<rparr>) = Inr (w, db')"
  "removeParameter sv i k db = Inr (w, db') \<Longrightarrow> finish_members sv i ''node-group.parameter.remove'' ''node-group.parameter.remove:''
     (db \<lparr> db_parameters := delete_many (\<lambda>x. pa_groupId x = i \<and> pa_key x = k) (db_parameters db) \<rparr>) = Inr (w, db')"
  by (auto simp: assignClass_def removeClass_def setParameter_def removeParameter_def bind_err_Inr split: if_splits)

lemma members_step_effect:
  assumes "distinct (map g_id (db_groups db))" "db_groups db1 = db_groups db"
    and "db_nodes db1 = db_nodes db" "db_materializations db1 = db_materializations db" "db_jobs db1 = db_jobs db"
    and "loadGroups True db1 = apply_to (\<lambda>g. g) h i (loadGroups True db)"
    and "finish_members sv i action reason db1 = Inr (w, db')"
  shows "write_effect rt db db'"
  using queue_effect [OF assms(1-6) finish_members_Inr [OF assms(7)]]
  by (simp add: affectedCertnames_def recordAudit_def)

lemma pins_effect:
  assumes "distinct (map g_id (db_groups db))" "db_groups db1 = db_groups db"
    and "db_nodes db1 = db_nodes db" "db_materializations db1 = db_materializations db" "db_jobs db1 = db_jobs db"
    and "loadGroups True db1 = apply_to (\<lambda>g. g \<lparr> eg_pinnedCertnames := p (eg_pinnedCertnames g) \<rparr>) (\<lambda>m. m) i (loadGroups True db)"
    and "db' = enqueueNodes now (unique (cs @ affectedCertnames (recordAudit sv action (Some i) db1) i)) reason
      (recordAudit sv action (Some i) db1)"
    and "\<And>c pins. c \<notin> set cs \<Longrightarrow> c \<in> set (p pins) \<longleftrightarrow> c \<in> set pins"
  shows "write_effect rt db db'"
proof (rule queue_effect [OF assms(1-7)])
  show "set (affectedCertnames db1 i) \<subseteq> set (unique (cs @ affectedCertnames (recordAudit sv action (Some i) db1) i))"
    by (auto simp: affectedCertnames_def unique_def recordAudit_def)
  fix c facts g
  assume "c \<notin> set (unique (cs @ affectedCertnames (recordAudit sv action (Some i) db1) i))"
  then have "c \<notin> set cs" by (simp add: unique_def)
  from assms(8) [OF this]
  show "groupMatches (rt_regexp rt) (node_of c facts) (g \<lparr> eg_pinnedCertnames := p (eg_pinnedCertnames g) \<rparr>) =
      groupMatches (rt_regexp rt) (node_of c facts) g"
    by (simp add: groupMatches_def node_of_def split: match_strategy.split)
qed


lemma create_effect:
  assumes "db_wf db" "foreign_keys db" "newId \<notin> g_id ` set (db_groups db)" "create sv newId ci db = Inr (w, db')"
  shows "write_effect rt db db'"
proof -
  from create_Inr [OF assms(4)] obtain g where g: "g_id g = newId"
    and db': "db' = recordAudit sv ''node-group.create'' (Some newId) (db \<lparr> db_groups := db_groups db @ [g] \<rparr>)" by blast
  have ids: "distinct (map g_id (db_groups db))" using assms(1) by (simp add: db_wf_def)
  have ids': "distinct (map g_id (db_groups db'))" using ids assms(3) g by (simp add: db')
  have "loadGroups True db' = loadGroups True (db \<lparr> db_groups := db_groups db @ [g] \<rparr>)"
    by (rule loadGroups_same) (simp add: db')
  with served_key_created [OF assms(2)] assms(3) g
  have "served_key rt (loadGroups True db') node = served_key rt (loadGroups True db) node" for node by simp
  then have "current_record rt db' c" if "current_record rt db c" for c
    using current_record_frame [OF ids ids' _ _ _ that] by (simp add: db')
  moreover have "jobs_kept db db'" by (rule jobs_kept_same) (simp add: db')
  ultimately show ?thesis by (simp add: write_effect_def covered_def db')
qed

lemma update_effect:
  assumes "db_wf db" "no_partial_walk db" "update_group sv i ui db = Inr (w, db')"
  shows "write_effect rt db db'"
proof (cases "affectsMatching ui")
  case True
  let ?db1 = "recordAudit sv ''node-group.update'' (Some i) (write_group i ui db)"
  have "db_jobs ?db1 = db_jobs db" by (simp add: write_group_def)
  with assms(2) have "no_partial_walk ?db1" "jobs_kept db ?db1"
    by (simp add: no_partial_walk_def) (rule jobs_kept_same, simp add: write_group_def)
  from full_effect [OF this] update_group_Inr [OF assms(3)] True show ?thesis by (simp add: write_group_def)
next
  case False
  with update_group_Inr [OF assms(3)] have db': "db' = recordAudit sv ''node-group.update'' (Some i) (write_group i ui db)" by simp
  let ?u = "\<lambda>g. if g_id g = i then updated_row ui g else g"
  have ids: "distinct (map g_id (db_groups db))" using assms(1) by (simp add: db_wf_def)
  have same: "g_id (?u g) = g_id g \<and> g_rank (?u g) = g_rank g \<and> g_strategy (?u g) = g_strategy g \<and>
      g_isEnabled (?u g) = g_isEnabled g \<and> g_environment (?u g) = g_environment g" for g
    using False by (simp add: affectsMatching_def updated_row_def set_option_def)
  have row: "write_group i ui db = db \<lparr> db_groups := map ?u (db_groups db) \<rparr>"
    by (simp add: write_group_def update_many_def)
  have "map g_id (map ?u (db_groups db)) = map g_id (db_groups db)" using same by simp
  with ids have "distinct (map g_id (map ?u (db_groups db)))" by (simp only:)
  moreover have "db_groups db' = map ?u (db_groups db)" by (simp add: db' row)
  ultimately have ids': "distinct (map g_id (db_groups db'))" by (simp only:)
  have "loadGroups True db' = loadGroups True (db \<lparr> db_groups := map ?u (db_groups db) \<rparr>)"
    by (rule loadGroups_same) (simp add: db' row)
  with served_key_renamed [OF ids same]
  have "served_key rt (loadGroups True db') node = served_key rt (loadGroups True db) node" for node by simp
  then have "current_record rt db' c" if "current_record rt db c" for c
    using current_record_frame [OF ids ids' _ _ _ that] by (simp add: db' row)
  moreover have "jobs_kept db db'" by (rule jobs_kept_same) (simp add: db' row)
  ultimately show ?thesis by (simp add: write_effect_def covered_def db' row)
qed

lemma remove_effect:
  assumes "db_wf db" "remove_group sv i db = Inr (affected, db')"
  shows "write_effect rt db db'"
proof -
  from remove_group_Inr [OF assms(2)] have affected: "affected = affectedCertnames db i"
    and db': "db' = enqueueNodes (sv_now sv) affected (''node-group.delete:'' @ i)
       (recordAudit sv ''node-group.delete'' (Some i) (delete_group i db))" by simp_all
  have ids: "distinct (map g_id (db_groups db))" using assms(1) by (simp add: db_wf_def)
  then have ids': "distinct (map g_id (db_groups db'))" by (simp add: db' delete_group_def delete_many_keys)
  have gs: "loadGroups True db' = apply_request (DeleteGroup i) (loadGroups True db)"
    using loadGroups_same [of db' "delete_group i db" True] loadGroups_delete by (simp add: db')
  have "jobs_kept db (recordAudit sv ''node-group.delete'' (Some i) (delete_group i db))"
    by (rule jobs_kept_same) (simp add: delete_group_def)
  from jobs_kept_trans [OF this jobs_kept_enqueueNodes] have jobs: "jobs_kept db db'" unfolding db' .
  have "covered rt db' c" if current: "current_record rt db c" for c
  proof (cases "c \<in> set affected")
    case True
    then show ?thesis unfolding db' covered_def by (intro disjI2 queued_enqueueNodes)
  next
    case False
    from unmatched_if_unrecorded [OF ids current affected_recorded [OF False [unfolded affected]]]
    have "served_key rt (loadGroups True db') (node_of c (node_facts db c)) =
        served_key rt (loadGroups True db) (node_of c (node_facts db c))"
      unfolding gs by (rule served_key_deleted)
    from current_record_frame [OF ids ids' _ _ this current] show ?thesis
      by (simp add: covered_def db' delete_group_def)
  qed
  with jobs show ?thesis by (simp add: write_effect_def db' delete_group_def)
qed

lemma replaceRules_effect:
  assumes "no_partial_walk db" "replaceRules sv i rules db = Inr (w, db')"
  shows "write_effect rt db db'"
proof -
  let ?db1 = "recordAudit sv ''node-group.rules.replace'' (Some i)
      (db \<lparr> db_rules := delete_many (\<lambda>r. ru_groupId r = i) (db_rules db) @ map (rule_row_of i) rules \<rparr>)"
  have "no_partial_walk ?db1" "jobs_kept db ?db1"
    using assms(1) by (simp add: no_partial_walk_def) (rule jobs_kept_same, simp)
  from full_effect [OF this] replaceRules_Inr [OF assms(2)] show ?thesis by simp
qed

lemma write_step_effect:
  assumes "write_step sv db db'" "db_wf db" "foreign_keys db" "no_partial_walk db"
  shows "write_effect rt db db'"
  using assms(1)
proof cases
  case (create newId ci w)
  then show ?thesis using create_effect assms(2,3) by blast
next
  case (update i ui w)
  then show ?thesis using update_effect assms(2,4) by blast
next
  case (remove i certnames)
  then show ?thesis using remove_effect assms(2) by blast
next
  case (replace_rules i rules w)
  then show ?thesis using replaceRules_effect assms(4) by blast
next
  case (assign_class i c params w)
  from members_step_effect [OF _ _ _ _ _ loadGroups_classes(1) [OF assms(2)] members_Inr(1) [OF assign_class]] assms(2)
  show ?thesis by (simp add: db_wf_def)
next
  case (remove_class i c w)
  from members_step_effect [OF _ _ _ _ _ loadGroups_classes(2) [OF assms(2), unfolded apply_request.simps] members_Inr(2) [OF remove_class]] assms(2)
  show ?thesis by (simp add: db_wf_def)
next
  case (set_parameter i k v w)
  from members_step_effect [OF _ _ _ _ _ loadGroups_parameters(1) [OF assms(2)] members_Inr(3) [OF set_parameter]] assms(2)
  show ?thesis by (simp add: db_wf_def)
next
  case (remove_parameter i k w)
  from members_step_effect [OF _ _ _ _ _ loadGroups_parameters(2) [OF assms(2), unfolded apply_request.simps] members_Inr(4) [OF remove_parameter]] assms(2)
  show ?thesis by (simp add: db_wf_def)
next
  case (add_pins i certnames w)
  from pins_effect [OF _ _ _ _ _ loadGroups_pins(1) [OF assms(2), unfolded apply_request.simps] addPins_Inr [OF add_pins]] assms(2)
  show ?thesis by (simp add: db_wf_def)
next
  case (remove_pin i c w)
  from pins_effect [OF _ _ _ _ _ loadGroups_pins(2) [OF assms(2), unfolded apply_request.simps], where cs = "[c]", simplified,
      OF _ removePin_Inr [OF remove_pin]] assms(2)
  show ?thesis by (simp add: db_wf_def)
next
  case force_reconcile
  have "no_partial_walk (recordAudit sv ''materialization.reconcile'' None db)"
    "jobs_kept db (recordAudit sv ''materialization.reconcile'' None db)"
    using assms(4) by (simp add: no_partial_walk_def) (rule jobs_kept_same, simp)
  from full_effect [OF this] force_reconcile show ?thesis by (simp add: forceReconcile_def)
qed


lemma write_group_ids: "map g_id (db_groups (write_group i ui db)) = map g_id (db_groups db)"
  by (simp add: write_group_def update_many_def updated_row_def)

text \<open>The constraints of the schema hold after every write.\<close>

definition tables_ok :: "db \<Rightarrow> bool" where
  "tables_ok db \<longleftrightarrow> db_wf db \<and> foreign_keys db"

lemma tables_ok_same: "same_classification a b \<Longrightarrow> tables_ok a = tables_ok b"
  by (simp add: tables_ok_def db_wf_def foreign_keys_def same_classification_def)

lemma subset_insert_trans: "A \<subseteq> insert i B \<Longrightarrow> B \<subseteq> insert i C \<Longrightarrow> A \<subseteq> insert i C"
  by blast

lemma foldl_upsert_pin:
  "distinct (map (\<lambda>p. (pin_groupId p, pin_certname p)) pins) \<Longrightarrow>
     distinct (map (\<lambda>p. (pin_groupId p, pin_certname p)) (foldl (upsert_pin i) pins cs))
     \<and> pin_groupId ` set (foldl (upsert_pin i) pins cs) \<subseteq> insert i (pin_groupId ` set pins)"
proof (induction cs arbitrary: pins)
  case (Cons c cs)
  have "distinct (map (\<lambda>p. (pin_groupId p, pin_certname p)) (upsert_pin i pins c))"
    using upsert_keys [OF Cons.prems, where new = "\<lparr> pin_groupId = i, pin_certname = c \<rparr>" and upd = "\<lambda>p. p"]
    by (simp add: upsert_pin_def)
  moreover have "pin_groupId ` set (upsert_pin i pins c) \<subseteq> insert i (pin_groupId ` set pins)"
    by (auto simp: upsert_pin_def upsert_def)
  ultimately show ?case
    using Cons.IH [of "upsert_pin i pins c"] subset_insert_trans unfolding foldl_Cons by metis
qed auto

lemma upsert_fk:
  assumes "f ` set rows \<subseteq> A" "f new \<in> A" "\<And>r. f (upd r) = f r"
  shows "f ` set (upsert p new upd rows) \<subseteq> A"
  using assms by (auto simp: upsert_def)

lemma write_step_tables:
  assumes "write_step sv db db'" "tables_ok db"
  shows "tables_ok db'"
  using assms(1)
proof cases
  case (create newId ci w)
  from create_Inr [OF create(1)] obtain g where "g_id g = newId"
    "db' = recordAudit sv ''node-group.create'' (Some newId) (db \<lparr> db_groups := db_groups db @ [g] \<rparr>)" by blast
  with create(2) assms(2) show ?thesis by (auto simp: tables_ok_def db_wf_def foreign_keys_def)
next
  case (update i ui w)
  have "distinct (map g_id (db_groups (write_group i ui db))) = distinct (map g_id (db_groups db))"
    "g_id ` set (db_groups (write_group i ui db)) = g_id ` set (db_groups db)"
    by (simp_all only: set_map [symmetric] write_group_ids)
  with assms(2) have "tables_ok (write_group i ui db)"
    by (simp add: tables_ok_def db_wf_def foreign_keys_def write_group_def)
  with tables_ok_same [OF write_db(8) [OF update]] show ?thesis by simp
next
  case (remove i certnames)
  have "tables_ok (delete_group i db)"
    using assms(2) unfolding tables_ok_def db_wf_def foreign_keys_def delete_group_def
    by (auto simp: delete_many_keys)
  with tables_ok_same [OF write_db(9) [OF remove]] show ?thesis by simp
next
  case (replace_rules i rules w)
  have "ru_groupId ` set (map (rule_row_of i) rules) \<subseteq> {i}" by (auto simp: rule_row_of_def)
  with write_known(1) [OF replace_rules] assms(2)
  have "tables_ok (db \<lparr> db_rules := delete_many (\<lambda>r. ru_groupId r = i) (db_rules db) @ map (rule_row_of i) rules \<rparr>)"
    by (auto simp: tables_ok_def db_wf_def foreign_keys_def)
  with tables_ok_same [OF write_db(1) [OF replace_rules]] show ?thesis by simp
next
  case (assign_class i c params w)
  have "tables_ok (db \<lparr> db_classes := upsert (\<lambda>x. cl_groupId x = i \<and> cl_className x = c)
        \<lparr> cl_groupId = i, cl_className = c, cl_params = params \<rparr> (\<lambda>x. x \<lparr> cl_params := params \<rparr>) (db_classes db) \<rparr>)"
    using assms(2) write_known(2) [OF assign_class]
      upsert_keys [where key = "\<lambda>c. (cl_groupId c, cl_className c)" and rows = "db_classes db"
        and new = "\<lparr> cl_groupId = i, cl_className = c, cl_params = params \<rparr>" and upd = "\<lambda>x. x \<lparr> cl_params := params \<rparr>"]
    by (simp add: tables_ok_def db_wf_def foreign_keys_def upsert_fk)
  with tables_ok_same [OF write_db(2) [OF assign_class]] show ?thesis by simp
next
  case (remove_class i c w)
  have "tables_ok (db \<lparr> db_classes := delete_many (\<lambda>x. cl_groupId x = i \<and> cl_className x = c) (db_classes db) \<rparr>)"
    using assms(2) by (auto simp: tables_ok_def db_wf_def foreign_keys_def delete_many_keys)
  with tables_ok_same [OF write_db(3) [OF remove_class]] show ?thesis by simp
next
  case (set_parameter i k v w)
  have "tables_ok (db \<lparr> db_parameters := upsert (\<lambda>x. pa_groupId x = i \<and> pa_key x = k)
        \<lparr> pa_groupId = i, pa_key = k, pa_value = v \<rparr> (\<lambda>x. x \<lparr> pa_value := v \<rparr>) (db_parameters db) \<rparr>)"
    using assms(2) write_known(4) [OF set_parameter]
      upsert_keys [where key = "\<lambda>p. (pa_groupId p, pa_key p)" and rows = "db_parameters db"
        and new = "\<lparr> pa_groupId = i, pa_key = k, pa_value = v \<rparr>" and upd = "\<lambda>x. x \<lparr> pa_value := v \<rparr>"]
    by (simp add: tables_ok_def db_wf_def foreign_keys_def upsert_fk)
  with tables_ok_same [OF write_db(4) [OF set_parameter]] show ?thesis by simp
next
  case (remove_parameter i k w)
  have "tables_ok (db \<lparr> db_parameters := delete_many (\<lambda>x. pa_groupId x = i \<and> pa_key x = k) (db_parameters db) \<rparr>)"
    using assms(2) by (auto simp: tables_ok_def db_wf_def foreign_keys_def delete_many_keys)
  with tables_ok_same [OF write_db(5) [OF remove_parameter]] show ?thesis by simp
next
  case (add_pins i certnames w)
  have "tables_ok (db \<lparr> db_pins := foldl (upsert_pin i) (db_pins db) certnames \<rparr>)"
  proof -
    have "distinct (map (\<lambda>p. (pin_groupId p, pin_certname p)) (db_pins db))"
      and fk: "pin_groupId ` set (db_pins db) \<subseteq> g_id ` set (db_groups db)"
      using assms(2) by (simp_all add: tables_ok_def db_wf_def foreign_keys_def)
    note new = foldl_upsert_pin [OF this(1), of i certnames]
    have "insert i (pin_groupId ` set (db_pins db)) \<subseteq> g_id ` set (db_groups db)"
      using fk write_known(6) [OF add_pins] by simp
    with new have "pin_groupId ` set (foldl (upsert_pin i) (db_pins db) certnames) \<subseteq> g_id ` set (db_groups db)"
      by (meson order_trans)
    with new assms(2) show ?thesis by (simp add: tables_ok_def db_wf_def foreign_keys_def)
  qed
  with tables_ok_same [OF write_db(6) [OF add_pins]] show ?thesis by simp
next
  case (remove_pin i c w)
  have "tables_ok (db \<lparr> db_pins := delete_many (\<lambda>p. pin_groupId p = i \<and> pin_certname p = c) (db_pins db) \<rparr>)"
    using assms(2) by (auto simp: tables_ok_def db_wf_def foreign_keys_def delete_many_keys)
  with tables_ok_same [OF write_db(7) [OF remove_pin]] show ?thesis by simp
next
  case force_reconcile
  have "same_classification db' db" by (simp add: force_reconcile forceReconcile_def)
  with tables_ok_same assms(2) show ?thesis by simp
qed


lemma no_partial_walk_same: "db_jobs a = db_jobs b \<Longrightarrow> no_partial_walk a = no_partial_walk b"
  by (simp add: no_partial_walk_def)

lemma write_step_walk:
  assumes "write_step sv db db'" "no_partial_walk db"
  shows "no_partial_walk db'"
proof -
  have nodes: "no_partial_walk (enqueueNodes now cs reason (recordAudit sv action i db1))"
    if "db_jobs db1 = db_jobs db" for now cs reason action i db1
    using no_partial_walk_same [of "recordAudit sv action i db1" db] that assms(2)
    by (intro no_partial_walk_enqueueNodes) simp
  have full: "no_partial_walk (enqueueFullReconcile now reason (recordAudit sv action i db1))"
    if "db_jobs db1 = db_jobs db" for now reason action i db1
    using no_partial_walk_same [of "recordAudit sv action i db1" db] that assms(2)
    by (intro no_partial_walk_full) simp
  from assms(1) show ?thesis
  proof cases
    case (create newId ci w)
    from create_Inr [OF create(1)] assms(2) show ?thesis by (auto simp: no_partial_walk_def)
  next
    case (update i ui w)
    from update_group_Inr [OF update] full [of "write_group i ui db"] assms(2) show ?thesis
      by (auto simp: write_group_def no_partial_walk_def split: if_splits)
  next
    case (remove i certnames)
    from remove_group_Inr [OF remove] show ?thesis by (auto intro!: nodes simp: delete_group_def)
  next
    case (replace_rules i rules w)
    from replaceRules_Inr [OF replace_rules] show ?thesis by (auto intro!: full)
  next
    case (assign_class i c params w)
    show ?thesis unfolding finish_members_Inr [OF members_Inr(1) [OF assign_class]] by (rule nodes) simp
  next
    case (remove_class i c w)
    show ?thesis unfolding finish_members_Inr [OF members_Inr(2) [OF remove_class]] by (rule nodes) simp
  next
    case (set_parameter i k v w)
    show ?thesis unfolding finish_members_Inr [OF members_Inr(3) [OF set_parameter]] by (rule nodes) simp
  next
    case (remove_parameter i k w)
    show ?thesis unfolding finish_members_Inr [OF members_Inr(4) [OF remove_parameter]] by (rule nodes) simp
  next
    case (add_pins i certnames w)
    show ?thesis unfolding addPins_Inr [OF add_pins] by (rule nodes) simp
  next
    case (remove_pin i c w)
    show ?thesis unfolding removePin_Inr [OF remove_pin] by (rule nodes) simp
  next
    case force_reconcile
    show ?thesis unfolding force_reconcile forceReconcile_def by (rule full) simp
  qed
qed

text \<open>
  No write leaves a node behind. Start from a database where every node either has a
  materialization record that agrees with what it should be served now, or has a job in the outbox
  that will rewrite it; then the same holds after any sequence of classification writes, and the
  constraints of the schema with it. The one thing this needs is that no full reconcile is part-way
  through the estate.
\<close>

theorem writes_keep_estate_covered:
  assumes "(write_step sv)\<^sup>*\<^sup>* db db'"
    and "tables_ok db" "no_partial_walk db" "\<forall>n \<in> set (db_nodes db). covered rt db (n_certname n)"
  shows "tables_ok db' \<and> no_partial_walk db' \<and> db_nodes db' = db_nodes db
    \<and> (\<forall>n \<in> set (db_nodes db'). covered rt db' (n_certname n))"
  using assms(1)
proof (induction rule: rtranclp_induct)
  case base
  with assms show ?case by simp
next
  case (step db1 db2)
  then have "tables_ok db1" "no_partial_walk db1" and nodes: "db_nodes db1 = db_nodes db"
    and covered: "\<forall>n \<in> set (db_nodes db1). covered rt db1 (n_certname n)" by simp_all
  with step(2) have "tables_ok db2" "no_partial_walk db2" and effect: "write_effect rt db1 db2"
    using write_step_tables write_step_walk write_step_effect unfolding tables_ok_def by blast+
  moreover from effect nodes have "db_nodes db2 = db_nodes db" by (simp add: write_effect_def)
  moreover from covered effect have "\<forall>n \<in> set (db_nodes db2). covered rt db2 (n_certname n)"
    by (metis write_effect_covered write_effect_def)
  ultimately show ?case by blast
qed


text \<open>The small estate with two nodes, one outside the group, and both records current.\<close>

definition demo_record :: "string \<Rightarrow> string list \<Rightarrow> string \<Rightarrow> materialization_row" where
  "demo_record c ids h =
     \<lparr> em_certname = c, em_contentHash = h, em_revision = 1, em_relativePath = ''nodes/'' @ c @ ''.yaml'',
       em_appliedGroupIds = ids, em_conflicts = [], em_attribution = None, em_matchReasons = [], em_writtenAt = 0 \<rparr>"

definition demo_estate :: db where
  "demo_estate =
     (let db = empty_db \<lparr> db_groups := [demo_group_row ''a'' None],
                           db_pins := [\<lparr> pin_groupId = ''a'', pin_certname = ''web01'' \<rparr>],
                           db_nodes := map demo_node_row [''db01'', ''web01''] \<rparr>;
          served = (\<lambda>c. the (served_key demo_runtime (loadGroups False db) (node_of c [])))
      in db \<lparr> db_materializations := map (\<lambda>c. demo_record c (fst (served c)) (snd (served c))) [''db01'', ''web01''] \<rparr>)"

definition demo_write :: "http_error + classification_write_result \<times> db" where
  "demo_write = setParameter demo_service ''a'' ''role'' (JStr ''web'') demo_estate"

lemma demo_estate_ok:
  "tables_ok demo_estate \<and> no_partial_walk demo_estate
   \<and> (\<forall>n \<in> set (db_nodes demo_estate). covered demo_runtime demo_estate (n_certname n))"
proof -
  have "\<forall>n \<in> set (db_nodes demo_estate). current_record demo_runtime demo_estate (n_certname n)" by code_simp
  moreover have "tables_ok demo_estate \<and> no_partial_walk demo_estate" by code_simp
  ultimately show ?thesis by (simp only: covered_def) blast
qed

lemma demo_write_ok: obtains w db' where "demo_write = Inr (w, db')"
proof -
  have "\<not> isl demo_write" by code_simp
  from Inr_projr [OF this] show ?thesis by (rule that)
qed

theorem writes_keep_estate_covered_witness:
  "list_all (\<lambda>n. covered demo_runtime (snd (projr demo_write)) (n_certname n)) (db_nodes demo_estate)"
proof -
  obtain w db' where w: "demo_write = Inr (w, db')" by (rule demo_write_ok)
  then have "(write_step demo_service)\<^sup>*\<^sup>* demo_estate db'"
    unfolding demo_write_def by (intro r_into_rtranclp write_step.set_parameter)
  from writes_keep_estate_covered [OF this, of demo_runtime] demo_estate_ok
  have "db_nodes db' = db_nodes demo_estate \<and> (\<forall>n \<in> set (db_nodes db'). covered demo_runtime db' (n_certname n))" by blast
  then have "\<forall>n \<in> set (db_nodes demo_estate). covered demo_runtime db' (n_certname n)" by (elim conjE) (simp only:)
  then show ?thesis by (simp only: list_all_iff w sum.sel snd_conv)
qed

text \<open>
  C36. A rule change that arrives while a full reconcile is part-way through strands nodes. The
  request collapses into the queued row and leaves its cursor, so a node the walk has passed, with
  no job of its own, is not queued after \<open>replaceRules\<close>: it is covered only if its record happens
  to be current under the new rules.
\<close>

theorem rule_change_during_walk_strands_nodes:
  assumes "replaceRules sv i rules db = Inr (w, db')"
    and "distinct (map j_dedupeKey (db_jobs db))" "j \<in> set (db_jobs db)" "j_dedupeKey j = full_key"
    and "j_cursor j = Some k" "\<not> k < c" "node_key c \<notin> j_dedupeKey ` set (db_jobs db)"
  shows "\<not> queued db' c \<and> covered rt db' c = current_record rt db' c"
proof -
  have jobs: "set (db_jobs db') = (\<lambda>r. if j_dedupeKey r = full_key
      then requeue (sv_now sv) (''node-group.rules:'' @ i) r else r) ` set (db_jobs db)"
    using assms(3,4) by (auto simp: replaceRules_Inr [OF assms(1)] enqueueFullReconcile_def upsert_job_rows)
  have one: "r = j" if "r \<in> set (db_jobs db)" "j_dedupeKey r = full_key" for r
    using that assms(2-4) by (simp add: distinct_map inj_on_def)
  have "\<not> queued db' c"
  proof
    assume "queued db' c"
    then obtain r where r: "r \<in> set (db_jobs db)"
      and hit: "j_dedupeKey r = node_key c \<or> j_dedupeKey r = full_key \<and> (case j_cursor r of None \<Rightarrow> True | Some k \<Rightarrow> k < c)"
      unfolding queued_def jobs by (auto simp: requeue_def split: if_splits)
    from hit show False
    proof
      assume "j_dedupeKey r = node_key c"
      with r assms(7) show False by (metis image_eqI)
    next
      assume "j_dedupeKey r = full_key \<and> (case j_cursor r of None \<Rightarrow> True | Some k \<Rightarrow> k < c)"
      with one [OF r] assms(5,6) show False by simp
    qed
  qed
  then show ?thesis by (simp add: covered_def)
qed


definition walked_estate :: db where
  "walked_estate = demo_estate \<lparr>
     db_groups := [(demo_group_row ''a'' None) \<lparr> g_strategy := ALL_RULES \<rparr>],
     db_materializations := [demo_record ''db01'' [] (snd (the (served_key demo_runtime (loadGroups False demo_estate) (node_of ''db01'' []))))],
     db_jobs := [(default_job 0 full_key None ''test'' 0) \<lparr> j_cursor := Some ''m'' \<rparr>] \<rparr>"

definition everywhere :: node_rule where
  "everywhere = \<lparr> factPath = ''retired'', operator = NOT_EXISTS, rule_value = None \<rparr>"

theorem rule_change_during_walk_strands_nodes_witness:
  "current_record demo_runtime walked_estate ''db01''
   \<and> \<not> covered demo_runtime (snd (projr (replaceRules demo_service ''a'' [everywhere] walked_estate))) ''db01''"
proof -
  let ?r = "replaceRules demo_service ''a'' [everywhere] walked_estate"
  let ?j = "(default_job 0 full_key None ''test'' 0) \<lparr> j_cursor := Some ''m'' \<rparr>"
  have "\<not> isl ?r" by code_simp
  note r = Inr_projr [OF this]
  have jobs: "db_jobs walked_estate = [?j]" by (simp add: walked_estate_def)
  have k: "\<not> ''m'' < ''db01''" by code_simp
  have n: "node_key ''db01'' \<noteq> full_key" by code_simp
  from rule_change_during_walk_strands_nodes [OF r, of ?j "''m''" "''db01''" demo_runtime] k n
  have "covered demo_runtime (snd (projr ?r)) ''db01'' = current_record demo_runtime (snd (projr ?r)) ''db01''"
    unfolding jobs by simp
  moreover have "\<not> current_record demo_runtime (snd (projr ?r)) ''db01''" by code_simp
  moreover have "current_record demo_runtime walked_estate ''db01''" by code_simp
  ultimately show ?thesis by simp
qed

end
