(* ===== verification/Hierarchy.thy ===== *)
theory Hierarchy
  imports Coverage
begin

text \<open>
  The group hierarchy of \<open>classification.service.ts\<close>: the check before a re-parent, what every
  write keeps of it, two overlapping re-parents, and what a partial update parses to.
\<close>

section \<open>The hierarchy\<close>

text \<open>
  \<open>parent_rel db\<close> relates a group to its parent. The check before a re-parent is a walk up from the
  proposed parent; it accepts exactly the parents that keep the hierarchy free of cycles.
\<close>

definition parent_rel :: "db \<Rightarrow> (string \<times> string) set" where
  "parent_rel db = {(i, p). parent_of db i = Some p}"

lemma parent_rel_unique: "(i, p) \<in> parent_rel db \<Longrightarrow> (i, q) \<in> parent_rel db \<Longrightarrow> p = q"
  by (simp add: parent_rel_def)

lemma walk_sound:
  assumes "no_cycle_walk db seen cursor = Inr ()" "cursor = Some c"
  shows "\<forall>x. (c, x) \<in> (parent_rel db)\<^sup>* \<longrightarrow> x \<notin> set seen"
  using assms
proof (induction db seen cursor arbitrary: c rule: no_cycle_walk.induct)
  case (1 db seen cursor)
  from 1(2,3) have c: "c \<notin> set seen" and rest: "no_cycle_walk db (c # seen) (parent_of db c) = Inr ()"
    using no_cycle_walk_seen [of db seen c] no_cycle_walk_Some [of c seen db] by simp_all
  show ?case
  proof (intro allI impI)
    fix x
    assume "(c, x) \<in> (parent_rel db)\<^sup>*"
    then show "x \<notin> set seen"
    proof (cases rule: converse_rtranclE)
      case base
      with c show ?thesis by simp
    next
      case (step p)
      then have p: "parent_of db c = Some p" by (simp add: parent_rel_def)
      from 1(1) [OF 1(3) c rest p] step(2) show ?thesis by simp
    qed
  qed
qed

lemma walk_complete:
  assumes "acyclic (parent_rel db)" "\<forall>x. (c, x) \<in> (parent_rel db)\<^sup>* \<longrightarrow> x \<notin> set seen" "cursor = Some c"
  shows "no_cycle_walk db seen cursor = Inr ()"
  using assms
proof (induction db seen cursor arbitrary: c rule: no_cycle_walk.induct)
  case (1 db seen cursor)
  have c: "c \<notin> set seen" using 1(3) by blast
  show ?case
  proof (cases "parent_of db c")
    case None
    with 1(4) no_cycle_walk_Some [OF c, of db] show ?thesis by simp
  next
    case (Some p)
    have "(p, x) \<in> (parent_rel db)\<^sup>* \<longrightarrow> x \<notin> set (c # seen)" for x
    proof
      assume x: "(p, x) \<in> (parent_rel db)\<^sup>*"
      have cp: "(c, p) \<in> parent_rel db" using Some by (simp add: parent_rel_def)
      from this x have cx: "(c, x) \<in> (parent_rel db)\<^sup>+" by (rule rtrancl_into_trancl2)
      with 1(2) have "x \<noteq> c" by (auto simp: acyclic_def)
      moreover have "x \<notin> set seen" using 1(3) trancl_into_rtrancl [OF cx] by (elim allE impE)
      ultimately show "x \<notin> set (c # seen)" by simp
    qed
    then have "no_cycle_walk db (c # seen) (parent_of db c) = Inr ()"
      using 1(1) [OF 1(4) c 1(2) _ Some] by blast
    with 1(4) no_cycle_walk_Some [OF c, of db] show ?thesis by simp
  qed
qed

lemma assertNoCycle_iff:
  assumes "acyclic (parent_rel db)"
  shows "assertNoCycle db i p = Inr () \<longleftrightarrow> (p, i) \<notin> (parent_rel db)\<^sup>*"
proof
  assume ok: "assertNoCycle db i p = Inr ()"
  then have "no_cycle_walk db [i] (Some p) = Inr ()" by (simp add: assertNoCycle_def split: if_splits)
  from walk_sound [OF this refl] show "(p, i) \<notin> (parent_rel db)\<^sup>*" by auto
next
  assume "(p, i) \<notin> (parent_rel db)\<^sup>*"
  then have "\<forall>x. (p, x) \<in> (parent_rel db)\<^sup>* \<longrightarrow> x \<notin> set [i]" "i \<noteq> p" by auto
  with walk_complete [OF assms this(1) refl] show "assertNoCycle db i p = Inr ()" by (simp add: assertNoCycle_def)
qed


text \<open>The parents of all groups exist, and no group is its own ancestor.\<close>

definition hierarchy_ok :: "db \<Rightarrow> bool" where
  "hierarchy_ok db \<longleftrightarrow> acyclic (parent_rel db) \<and>
     (\<forall>g \<in> set (db_groups db). \<forall>p. g_parentId g = Some p \<longrightarrow> p \<in> g_id ` set (db_groups db))"

lemma parent_rel_known: "(i, p) \<in> parent_rel db \<Longrightarrow> \<exists>g \<in> set (db_groups db). g_id g = i \<and> g_parentId g = Some p"
  by (auto simp: parent_rel_def parent_of_def dest!: find_unique_Some split: option.splits)

lemma find_unique_map:
  assumes "\<And>g. g_id (u g) = g_id g"
  shows "find_unique (\<lambda>g. g_id g = j) (map u gs) = map_option u (find_unique (\<lambda>g. g_id g = j) gs)"
  using assms by (induction gs) simp_all

lemma parent_of_write_group:
  "parent_of (write_group i ui db) j =
     (if j = i then (case find_unique (\<lambda>g. g_id g = i) (db_groups db) of None \<Rightarrow> None | Some g \<Rightarrow> set_option (ui_parentId ui) (g_parentId g))
      else parent_of db j)"
proof -
  have "find_unique (\<lambda>g. g_id g = j) (map (\<lambda>g. if g_id g = i then updated_row ui g else g) (db_groups db)) =
      map_option (\<lambda>g. if g_id g = i then updated_row ui g else g) (find_unique (\<lambda>g. g_id g = j) (db_groups db))"
    by (rule find_unique_map) (simp add: updated_row_def)
  then show ?thesis
    by (auto simp: parent_of_def write_group_def update_many_def updated_row_def dest: find_unique_Some split: option.split)
qed

lemma parent_rel_write_group:
  "parent_rel (write_group i ui db) \<subseteq>
     (case ui_parentId ui of Some (Some p) \<Rightarrow> insert (i, p) (parent_rel db) | _ \<Rightarrow> parent_rel db)"
proof (rule subrelI)
  fix j q
  assume "(j, q) \<in> parent_rel (write_group i ui db)"
  then have "(if j = i then (case find_unique (\<lambda>g. g_id g = i) (db_groups db) of None \<Rightarrow> None
      | Some g \<Rightarrow> set_option (ui_parentId ui) (g_parentId g)) else parent_of db j) = Some q"
    by (simp add: parent_rel_def parent_of_write_group)
  then show "(j, q) \<in> (case ui_parentId ui of Some (Some p) \<Rightarrow> insert (i, p) (parent_rel db) | _ \<Rightarrow> parent_rel db)"
    by (auto simp: parent_rel_def parent_of_def set_option_def split: if_splits option.splits)
qed

lemma check_update_parent:
  assumes "check_update i ui db = Inr ()" "ui_parentId ui = Some (Some p)"
  shows "p \<in> g_id ` set (db_groups db) \<and> assertNoCycle db i p = Inr ()"
  using assms
  by (auto simp: check_update_def bind_err_Inr assertParentExists_def dest!: find_unique_Some split: option.splits)

lemma update_hierarchy:
  assumes "update_group sv i ui db = Inr (w, db')" "hierarchy_ok db"
  shows "hierarchy_ok db'"
proof -
  have groups: "db_groups db' = db_groups (write_group i ui db)"
    using write_db(8) [OF assms(1)] by (simp add: same_classification_def)
  then have rel: "parent_rel db' = parent_rel (write_group i ui db)" by (simp add: parent_rel_def parent_of_def)
  have check: "check_update i ui db = Inr ()" using assms(1) by (auto simp: update_group_def bind_err_Inr)
  have "acyclic (parent_rel db')"
  proof (cases "ui_parentId ui")
    case (Some v)
    show ?thesis
    proof (cases v)
      case (Some p)
      with \<open>ui_parentId ui = Some v\<close> have ui: "ui_parentId ui = Some (Some p)" by simp
      have "acyclic (insert (i, p) (parent_rel db))"
        using check_update_parent [OF check ui] assertNoCycle_iff [of db i p] assms(2) by (simp add: hierarchy_ok_def)
      moreover have "parent_rel db' \<subseteq> insert (i, p) (parent_rel db)"
        using parent_rel_write_group [of i ui db] by (simp add: rel ui)
      ultimately show ?thesis by (rule acyclic_subset)
    next
      case None
      with \<open>ui_parentId ui = Some v\<close> parent_rel_write_group [of i ui db] assms(2) show ?thesis
        by (auto simp: rel hierarchy_ok_def intro: acyclic_subset)
    qed
  next
    case None
    with parent_rel_write_group [of i ui db] assms(2) show ?thesis
      by (auto simp: rel hierarchy_ok_def intro: acyclic_subset)
  qed
  moreover have "p \<in> g_id ` set (db_groups db')" if g': "g' \<in> set (db_groups db')" "g_parentId g' = Some p" for g' p
  proof -
    have ids: "g_id ` set (db_groups db') = g_id ` set (db_groups db)"
      unfolding groups set_map [symmetric] write_group_ids ..
    from g' obtain g where g: "g \<in> set (db_groups db)" "g' = (if g_id g = i then updated_row ui g else g)"
      by (auto simp: groups write_group_def)
    show ?thesis
    proof (cases "g_id g = i \<and> ui_parentId ui \<noteq> None")
      case True
      with g g'(2) have "ui_parentId ui = Some (Some p)" by (auto simp: updated_row_def set_option_def)
      from check_update_parent [OF check this] ids show ?thesis by simp
    next
      case False
      with g g'(2) have "g_parentId g = Some p" by (auto simp: updated_row_def set_option_def split: if_splits)
      with g(1) assms(2) ids show ?thesis by (auto simp: hierarchy_ok_def)
    qed
  qed
  ultimately show ?thesis by (simp add: hierarchy_ok_def)
qed


lemma parent_rel_groups: "db_groups a = db_groups b \<Longrightarrow> parent_rel a = parent_rel b"
  by (simp add: parent_rel_def parent_of_def)

lemma hierarchy_ok_groups: "db_groups a = db_groups b \<Longrightarrow> hierarchy_ok a = hierarchy_ok b"
  using parent_rel_groups [of a b] by (simp add: hierarchy_ok_def)

lemma create_hierarchy:
  assumes "create sv newId ci db = Inr (w, db')" "newId \<notin> g_id ` set (db_groups db)" "hierarchy_ok db"
  shows "hierarchy_ok db'"
proof -
  define g where "g = created_row newId ci"
  have g: "g_id g = newId" "db_groups db' = db_groups db @ [g]"
    using assms(1) by (auto simp: g_def create_def bind_err_Inr Let_def) (simp add: created_row_def)
  have parent: "\<forall>p. g_parentId g = Some p \<longrightarrow> p \<in> g_id ` set (db_groups db)"
    using assms(1) by (auto simp: g_def created_row_def create_def bind_err_Inr assertParentExists_def
        dest!: find_unique_Some split: option.splits)
  have rel: "parent_rel db' = parent_rel db \<union> (case g_parentId g of None \<Rightarrow> {} | Some p \<Rightarrow> {(newId, p)})"
  proof -
    have "parent_of db' j = (if j = newId then g_parentId g else parent_of db j)" for j
    proof (cases "j = newId")
      case True
      have "find_unique (\<lambda>g. g_id g = newId) (db_groups db) = None" using assms(2) by (auto simp: table_simps)
      with True g show ?thesis by (simp add: parent_of_def find_unique_append)
    next
      case False
      with g show ?thesis by (simp add: parent_of_def find_unique_append split: option.split)
    qed
    moreover have "parent_of db newId = None" using parent_of_unknown [OF assms(2)] .
    ultimately show ?thesis by (auto simp: parent_rel_def split: option.split if_splits)
  qed
  have "acyclic (parent_rel db')"
  proof (cases "g_parentId g")
    case None
    with rel assms(3) show ?thesis by (simp add: hierarchy_ok_def)
  next
    case (Some p)
    have "(p, newId) \<notin> (parent_rel db)\<^sup>*"
    proof
      assume "(p, newId) \<in> (parent_rel db)\<^sup>*"
      then show False
      proof (cases rule: rtranclE)
        case base
        with parent Some assms(2) show False by simp
      next
        case (step y)
        from parent_rel_known [OF step(2)] assms(2,3) show False by (auto simp: hierarchy_ok_def)
      qed
    qed
    with assms(3) rel Some show ?thesis by (simp add: hierarchy_ok_def)
  qed
  moreover have "\<forall>g \<in> set (db_groups db'). \<forall>p. g_parentId g = Some p \<longrightarrow> p \<in> g_id ` set (db_groups db')"
    using assms(3) parent g(2) by (auto simp: hierarchy_ok_def)
  ultimately show ?thesis by (simp add: hierarchy_ok_def)
qed

lemma remove_hierarchy:
  assumes "remove_group sv i db = Inr (w, db')" "hierarchy_ok db"
  shows "hierarchy_ok db'"
proof -
  have groups: "db_groups db' = delete_many (\<lambda>g. g_id g = i) (db_groups db)"
    using write_db(9) [OF assms(1)] by (simp add: same_classification_def delete_group_def)
  have childless: "\<forall>g \<in> set (db_groups db). g_parentId g \<noteq> Some i"
    using assms(1) by (auto simp: remove_group_def bind_err_Inr Let_def filter_empty_conv split: if_splits)
  have find: "find_unique (\<lambda>g. g_id g = j) (delete_many (\<lambda>g. g_id g = i) gs) =
      (if j = i then None else find_unique (\<lambda>g. g_id g = j) gs)" for j gs
    by (induction gs) (auto simp: delete_many_def)
  have "parent_rel db' \<subseteq> parent_rel db"
    by (auto simp: parent_rel_def parent_of_def groups find split: if_splits)
  moreover have "\<forall>g \<in> set (db_groups db'). \<forall>p. g_parentId g = Some p \<longrightarrow> p \<in> g_id ` set (db_groups db')"
  proof (intro ballI allI impI)
    fix g p
    assume "g \<in> set (db_groups db')" and gp: "g_parentId g = Some p"
    then have g: "g \<in> set (db_groups db)" by (simp add: groups)
    with assms(2) gp obtain q where "q \<in> set (db_groups db)" "g_id q = p" by (auto simp: hierarchy_ok_def)
    moreover from this childless g gp have "g_id q \<noteq> i" by auto
    ultimately show "p \<in> g_id ` set (db_groups db')" by (auto simp: groups)
  qed
  ultimately show ?thesis using assms(2) by (auto simp: hierarchy_ok_def intro: acyclic_subset)
qed

text \<open>
  C3. The hierarchy stays free of cycles. Every classification write, create and re-parent
  included, keeps every parent an existing group and no group its own ancestor; and the check loses
  nothing: \<open>assertNoCycle\<close> accepts a parent exactly when the group is not among its ancestors.
\<close>

theorem hierarchy_stays_acyclic:
  assumes "hierarchy_ok db"
  shows "(write_step sv db db' \<longrightarrow> hierarchy_ok db')
    \<and> (assertNoCycle db i p = Inr () \<longleftrightarrow> (p, i) \<notin> (parent_rel db)\<^sup>*)"
proof -
  have "hierarchy_ok db'" if step: "write_step sv db db'"
    using step
  proof cases
    case (create newId ci w)
    with create_hierarchy assms show ?thesis by blast
  next
    case (update i ui w)
    with update_hierarchy assms show ?thesis by blast
  next
    case (remove i certnames)
    with remove_hierarchy assms show ?thesis by blast
  next
    case (replace_rules i rules w)
    from write_db(1) [OF this] assms show ?thesis by (simp add: same_classification_def hierarchy_ok_groups [of db' db])
  next
    case (assign_class i c params w)
    from write_db(2) [OF this] assms show ?thesis by (simp add: same_classification_def hierarchy_ok_groups [of db' db])
  next
    case (remove_class i c w)
    from write_db(3) [OF this] assms show ?thesis by (simp add: same_classification_def hierarchy_ok_groups [of db' db])
  next
    case (set_parameter i k v w)
    from write_db(4) [OF this] assms show ?thesis by (simp add: same_classification_def hierarchy_ok_groups [of db' db])
  next
    case (remove_parameter i k w)
    from write_db(5) [OF this] assms show ?thesis by (simp add: same_classification_def hierarchy_ok_groups [of db' db])
  next
    case (add_pins i certnames w)
    from write_db(6) [OF this] assms show ?thesis by (simp add: same_classification_def hierarchy_ok_groups [of db' db])
  next
    case (remove_pin i c w)
    from write_db(7) [OF this] assms show ?thesis by (simp add: same_classification_def hierarchy_ok_groups [of db' db])
  next
    case force_reconcile
    then have "db_groups db' = db_groups db" by (simp add: forceReconcile_def)
    from hierarchy_ok_groups [OF this] assms show ?thesis by simp
  qed
  with assertNoCycle_iff [of db i p] assms show ?thesis by (simp add: hierarchy_ok_def)
qed


definition family_db :: db where
  "family_db = empty_db \<lparr> db_groups := [demo_group_row ''a'' None, demo_group_row ''b'' (Some ''a'')] \<rparr>"

theorem hierarchy_stays_acyclic_witness:
  "assertNoCycle family_db ''b'' ''a'' = Inr () \<and> assertNoCycle family_db ''a'' ''b'' \<noteq> Inr ()"
proof -
  have rel: "parent_rel family_db = {(''b'', ''a'')}"
    by (auto simp: parent_rel_def parent_of_def family_db_def demo_group_row_def empty_db_def split: if_splits)
  have "acyclic {(''b'' :: string, ''a'')}" by (simp add: acyclic_insert) (simp add: acyclic_def)
  then have "hierarchy_ok family_db"
    by (simp add: hierarchy_ok_def rel) (simp add: family_db_def demo_group_row_def empty_db_def)
  note iff = hierarchy_stays_acyclic [OF this, THEN conjunct2]
  have "(''a'', ''b'') \<notin> (parent_rel family_db)\<^sup>*"
    unfolding rel by (auto elim: converse_rtranclE)
  moreover have "(''b'', ''a'') \<in> (parent_rel family_db)\<^sup>*" unfolding rel by blast
  ultimately show ?thesis using iff [of "''b''" "''a''"] iff [of "''a''" "''b''"] by blast
qed

text \<open>
  Two re-parents in two transactions. Neither sees the rows the other has not committed, so both
  checks read the database as it was, and both writes land.
\<close>

definition reparent :: "string \<Rightarrow> update_node_group" where
  "reparent p =
     \<lparr> ui_name = None, ui_description = None, ui_rank = None, ui_strategy = None, ui_environment = None,
       ui_isEnabled = None, ui_parentId = Some (Some p) \<rparr>"

definition concurrent_updates ::
  "string \<times> update_node_group \<Rightarrow> string \<times> update_node_group \<Rightarrow> db \<Rightarrow> http_error + db" where
  "concurrent_updates first second db =
     bind_err (check_update (fst first) (snd first) db) (\<lambda>_.
     bind_err (check_update (fst second) (snd second) db) (\<lambda>_.
       Inr (write_group (fst second) (snd second) (write_group (fst first) (snd first) db))))"

text \<open>
  The check inside the transaction does not stop two concurrent re-parents. For any two groups
  without a parent, moving each under the other passes both checks when the transactions overlap,
  and leaves a cycle; one after the other, the second is refused.
\<close>

theorem concurrent_reparents_form_cycle:
  assumes "a \<noteq> b" "{a, b} \<subseteq> g_id ` set (db_groups db)" "parent_of db a = None" "parent_of db b = None"
  shows "(\<exists>db'. concurrent_updates (a, reparent b) (b, reparent a) db = Inr db' \<and> \<not> acyclic (parent_rel db'))
    \<and> check_update b (reparent a) (write_group a (reparent b) db) \<noteq> Inr ()"
proof -
  have known: "\<exists>g. find_unique (\<lambda>g. g_id g = i) (db_groups db) = Some g" if "i \<in> {a, b}" for i
    using that assms(2) by (cases "find_unique (\<lambda>g. g_id g = i) (db_groups db)") (auto simp: table_simps)
  have walk: "assertNoCycle db i p = Inr ()" if "i \<noteq> p" "parent_of db p = None" for i p
    using that by (simp add: assertNoCycle_def no_cycle_walk_Some)
  have "check_update a (reparent b) db = Inr ()" "check_update b (reparent a) db = Inr ()"
    using known [of a] known [of b] walk [of a b] walk [of b a] assms
    by (auto simp: check_update_def reparent_def loadOrThrow_def assertParentExists_def)
  then have run: "concurrent_updates (a, reparent b) (b, reparent a) db =
      Inr (write_group b (reparent a) (write_group a (reparent b) db))"
    by (simp add: concurrent_updates_def)
  have one: "parent_of (write_group i (reparent p) db1) j = (if j = i then Some p else parent_of db1 j)"
    if "i \<in> g_id ` set (db_groups db1)" for i p j db1
    using that by (cases "find_unique (\<lambda>g. g_id g = i) (db_groups db1)")
      (auto simp: parent_of_write_group reparent_def set_option_def table_simps)
  have ids: "g_id ` set (db_groups (write_group a (reparent b) db)) = g_id ` set (db_groups db)"
    unfolding set_map [symmetric] write_group_ids ..
  have "(a, b) \<in> parent_rel (write_group b (reparent a) (write_group a (reparent b) db))"
    "(b, a) \<in> parent_rel (write_group b (reparent a) (write_group a (reparent b) db))"
    using assms(1,2) ids by (simp_all add: parent_rel_def one)
  then have "(a, a) \<in> (parent_rel (write_group b (reparent a) (write_group a (reparent b) db)))\<^sup>+"
    by (rule trancl_into_trancl2 [OF _ r_into_trancl])
  then have "\<not> acyclic (parent_rel (write_group b (reparent a) (write_group a (reparent b) db)))"
    by (auto simp: acyclic_def)
  moreover have "check_update b (reparent a) (write_group a (reparent b) db) \<noteq> Inr ()"
  proof
    assume "check_update b (reparent a) (write_group a (reparent b) db) = Inr ()"
    from check_update_parent [OF this] have "assertNoCycle (write_group a (reparent b) db) b a = Inr ()"
      by (simp add: reparent_def)
    then have "no_cycle_walk (write_group a (reparent b) db) [a, b] (Some b) = Inr ()"
      using assms(1,2) one [of a db b a] by (simp add: assertNoCycle_def no_cycle_walk_Some)
    from no_cycle_walk_seen [OF this] show False by simp
  qed
  ultimately show ?thesis using run by blast
qed

theorem concurrent_reparents_form_cycle_witness:
  "\<exists>db'. concurrent_updates (''a'', reparent ''c'') (''c'', reparent ''a'')
     (empty_db \<lparr> db_groups := [demo_group_row ''a'' None, demo_group_row ''c'' None] \<rparr>) = Inr db'
     \<and> \<not> acyclic (parent_rel db')"
  by (rule concurrent_reparents_form_cycle [THEN conjunct1])
    (simp_all add: parent_of_def demo_group_row_def empty_db_def)


section \<open>What a partial update parses to\<close>

definition rename :: "string \<Rightarrow> update_node_group" where
  "rename n =
     \<lparr> ui_name = Some n, ui_description = None, ui_rank = None, ui_strategy = None, ui_environment = None,
       ui_isEnabled = None, ui_parentId = None \<rparr>"

text \<open>
  What a \<open>PATCH\<close> with nothing but a name does. If absent fields stay absent, the row keeps
  everything but its name and no job is queued. If the schema library fills defaults in, the same
  request also resets the rank to 100, the strategy to \<open>ALL_RULES\<close>, clears the environment and the
  parent, enables the group, and requests a full reconcile.
\<close>

theorem rename_writes:
  assumes "update_group sv i (updateNodeGroupSchema fills (rename n)) db = Inr (w, db')"
    and "distinct (map g_id (db_groups db))" "g \<in> set (db_groups db)" "g_id g = i"
  shows "find_unique (\<lambda>g. g_id g = i) (db_groups db') = Some (if fills
      then g \<lparr> g_name := n, g_rank := 100, g_strategy := ALL_RULES, g_environment := None, g_isEnabled := True,
               g_parentId := None \<rparr>
      else g \<lparr> g_name := n \<rparr>)
    \<and> (if fills then due (sv_now sv) full_key db' else db_jobs db' = db_jobs db)"
proof -
  let ?ui = "updateNodeGroupSchema fills (rename n)"
  have "find_unique (\<lambda>g. g_id g = i) (db_groups db) = Some g"
    using find_unique_key [OF assms(2,3)] assms(4) by simp
  moreover have "find_unique (\<lambda>g. g_id g = i) (map (\<lambda>g. if g_id g = i then updated_row ?ui g else g) (db_groups db)) =
      map_option (\<lambda>g. if g_id g = i then updated_row ?ui g else g) (find_unique (\<lambda>g. g_id g = i) (db_groups db))"
    by (rule find_unique_map) (simp add: updated_row_def)
  moreover have "db_groups db' = map (\<lambda>g. if g_id g = i then updated_row ?ui g else g) (db_groups db)"
    using write_db(8) [OF assms(1)] by (simp add: same_classification_def write_group_def update_many_def)
  moreover have "updated_row ?ui g = (if fills
      then g \<lparr> g_name := n, g_rank := 100, g_strategy := ALL_RULES, g_environment := None, g_isEnabled := True,
               g_parentId := None \<rparr>
      else g \<lparr> g_name := n \<rparr>)"
    by (simp add: updated_row_def updateNodeGroupSchema_def rename_def set_option_def)
  moreover have "affectsMatching ?ui = fills"
    by (simp add: affectsMatching_def updateNodeGroupSchema_def rename_def)
  ultimately show ?thesis
    using update_group_Inr [OF assms(1)] assms(4) by (simp add: write_group_def)
qed

theorem rename_writes_witness:
  "\<exists>g. find_unique (\<lambda>g. g_id g = ''a'')
        (db_groups (snd (projr (update_group demo_service ''a'' (updateNodeGroupSchema True (rename ''base'')) pinned_db)))) = Some g
     \<and> g_strategy g = ALL_RULES \<and> g_rank g = 100"
proof -
  let ?r = "update_group demo_service ''a'' (updateNodeGroupSchema True (rename ''base'')) pinned_db"
  have "\<not> isl ?r" by code_simp
  note r = Inr_projr [OF this]
  have gs: "db_groups pinned_db = [demo_group_row ''a'' None]" by (simp add: pinned_db_def)
  have i: "g_id (demo_group_row ''a'' None) = ''a''" by (simp add: demo_group_row_def)
  from rename_writes [OF r, of "demo_group_row ''a'' None"] show ?thesis unfolding gs by (simp add: i)
qed

end
