(* ===== verification/Receipts.thy ===== *)
theory Receipts
  imports Database
begin

text \<open>
  \<open>apps/api/src/replication/compile-receipts.service.ts\<close> and
  \<open>classification/pure/compile-currency.ts\<close>: what the Puppet servers report having compiled, and how
  that compares with the revision the origin carries.
\<close>

section \<open>Parsing a batch\<close>

record receipt_line =
  rl_revision :: string
  rl_certname :: string

definition is_hex :: "char \<Rightarrow> bool" where
  "is_hex c \<longleftrightarrow> is_digit c \<or> c \<in> set ''abcdef''"

text \<open>The expression \<open>RECEIPT_LINE\<close>: up to 64 hex digits, a space, up to 255 characters without white space.\<close>

definition RECEIPT_LINE :: "string \<Rightarrow> receipt_line option" where
  "RECEIPT_LINE raw =
     (let revision = takeWhile is_hex raw
      in case dropWhile is_hex raw of
           [] \<Rightarrow> None
         | sep # certname \<Rightarrow>
             if 1 \<le> length revision \<and> length revision \<le> 64 \<and> sep = CHR '' '' \<and>
                1 \<le> length certname \<and> length certname \<le> 255 \<and> list_all (\<lambda>c. \<not> is_js_space c) certname
             then Some \<lparr> rl_revision = revision, rl_certname = certname \<rparr> else None)"

definition newline :: char where
  "newline = char_of (10 :: nat)"

fun parse_lines :: "string list \<Rightarrow> receipt_line list \<times> nat" where
  "parse_lines [] = ([], 0)"
| "parse_lines (raw # rest) =
     (let (lines, malformed) = parse_lines rest
      in if raw = [] then (lines, malformed)
         else case RECEIPT_LINE raw of
                None \<Rightarrow> (lines, Suc malformed)
              | Some l \<Rightarrow> (l # lines, malformed))"

definition parse :: "string \<Rightarrow> receipt_line list \<times> nat" where
  "parse body = parse_lines (split_on newline body)"

definition MAX_RECEIPTS_PER_BATCH :: nat where
  "MAX_RECEIPTS_PER_BATCH = 20000"

definition truncate_lines :: "receipt_line list \<Rightarrow> receipt_line list \<times> nat" where
  "truncate_lines lines =
     (if length lines \<le> MAX_RECEIPTS_PER_BATCH then (lines, 0)
      else (drop (length lines - MAX_RECEIPTS_PER_BATCH) lines, length lines - MAX_RECEIPTS_PER_BATCH))"

section \<open>Storing\<close>

record receipt_row =
  cr_peerCertname :: string
  cr_certname :: string
  cr_revision :: string
  cr_reportedAt :: int
  cr_matchedAtIngest :: bool

record ingest_result =
  ir_stored :: nat
  ir_malformed :: nat
  ir_discarded :: nat

text \<open>\<open>Map.set\<close>: a new key goes to the end, a known one keeps its place.\<close>

definition map_set :: "'k \<Rightarrow> 'v \<Rightarrow> ('k \<times> 'v) list \<Rightarrow> ('k \<times> 'v) list" where
  "map_set k v m = upsert (\<lambda>e. fst e = k) (k, v) (\<lambda>_. (k, v)) m"

definition latest_of :: "receipt_line list \<Rightarrow> (string \<times> string) list" where
  "latest_of kept = foldl (\<lambda>m l. map_set (rl_certname l) (rl_revision l) m) [] kept"

definition store_one :: "int \<Rightarrow> string set \<Rightarrow> string \<Rightarrow> receipt_row list \<Rightarrow> string \<times> string \<Rightarrow> receipt_row list" where
  "store_one now known peer rows = (\<lambda>(certname, revision).
     upsert (\<lambda>r. cr_peerCertname r = peer \<and> cr_certname r = certname)
       \<lparr> cr_peerCertname = peer, cr_certname = certname, cr_revision = revision, cr_reportedAt = now,
          cr_matchedAtIngest = (certname \<in> known) \<rparr>
       (\<lambda>r. r \<lparr> cr_revision := revision, cr_reportedAt := now, cr_matchedAtIngest := (certname \<in> known) \<rparr>) rows)"

definition store ::
  "int \<Rightarrow> node_row list \<Rightarrow> string \<Rightarrow> (string \<times> string) list \<Rightarrow> receipt_row list \<Rightarrow> nat \<times> receipt_row list" where
  "store now nodes peer latest rows =
     (if length latest = 0 then (0, rows)
      else
        let certnames = map fst latest;
            known = set (map n_certname (filter (\<lambda>n. n_certname n \<in> set certnames) nodes))
        in (length certnames, foldl (store_one now known peer) rows latest))"

definition ingest ::
  "int \<Rightarrow> node_row list \<Rightarrow> string \<Rightarrow> string \<Rightarrow> receipt_row list \<Rightarrow> ingest_result \<times> receipt_row list" where
  "ingest now nodes peer body rows =
     (let (lines, malformed) = parse body;
          (kept, discarded) = truncate_lines lines;
          (stored, rows') = store now nodes peer (latest_of kept) rows
      in (\<lparr> ir_stored = stored, ir_malformed = malformed, ir_discarded = discarded \<rparr>, rows'))"

definition forNode :: "receipt_row list \<Rightarrow> string \<Rightarrow> receipt_row list" where
  "forNode rows certname =
     js_sort (\<lambda>a b. cr_reportedAt b - cr_reportedAt a) (filter (\<lambda>r. cr_certname r = certname) rows)"

definition sweepOrphans :: "string set \<Rightarrow> receipt_row list \<Rightarrow> nat \<times> receipt_row list" where
  "sweepOrphans known rows =
     (let candidates = filter cr_matchedAtIngest rows;
          orphaned = filter (\<lambda>r. cr_certname r \<notin> known) candidates;
          hit = (\<lambda>r. \<exists>q \<in> set orphaned. cr_peerCertname q = cr_peerCertname r \<and> cr_certname q = cr_certname r)
      in if length orphaned = 0 then (0, rows) else (length (filter hit rows), delete_many hit rows))"

section \<open>How a receipt compares with the origin\<close>

datatype compile_currency = CURRENT | PULLER_BEHIND | AGENT_BEHIND | BOTH_BEHIND | BEHIND

definition compileCurrency :: "string \<Rightarrow> string option \<Rightarrow> string option \<Rightarrow> compile_currency" where
  "compileCurrency reported origin peer =
     (if origin = None then BEHIND
      else if Some reported = origin then CURRENT
      else if peer = None then BEHIND
      else let peerCurrent = (peer = origin); nodeMatchesPeer = (Some reported = peer)
           in if nodeMatchesPeer \<and> \<not> peerCurrent then PULLER_BEHIND
              else if peerCurrent then AGENT_BEHIND
              else BOTH_BEHIND)"

section \<open>Lemmas\<close>

lemma map_set_lookup: "map_of (map_set k v m) = (map_of m)(k \<mapsto> v)"
proof (cases "list_ex (\<lambda>e. fst e = k) m")
  case True
  have "map_of (map (\<lambda>e. if fst e = k then (k, v) else e) m) = (\<lambda>x. if x = k \<and> k \<in> fst ` set m then Some v else map_of m x)" for m
    by (induction m) (auto simp: fun_eq_iff)
  with True show ?thesis by (auto simp: map_set_def upsert_def fun_eq_iff list_ex_iff)
next
  case False
  then have "map_of m k = None" by (auto simp: map_of_eq_None_iff list_ex_iff)
  with False show ?thesis by (auto simp: map_set_def upsert_def fun_eq_iff map_add_def split: option.split)
qed

lemma map_set_keys: "fst ` set (map_set k v m) = insert k (fst ` set m)"
  by (simp flip: dom_map_of_conv_image_fst add: map_set_lookup)

lemma map_set_distinct: "distinct (map fst m) \<Longrightarrow> distinct (map fst (map_set k v m))"
  unfolding map_set_def using upsert_keys [where key = fst and new = "(k, v)" and upd = "\<lambda>_. (k, v)"]
  by (auto simp: upsert_def list_ex_iff image_iff distinct_map inj_on_def)

text \<open>The revision of the last line that names a certname.\<close>

definition last_revision :: "string \<Rightarrow> receipt_line list \<Rightarrow> string option" where
  "last_revision c lines = map_of (map (\<lambda>l. (rl_certname l, rl_revision l)) (rev lines)) c"

lemma latest_of_snoc: "latest_of (ls @ [l]) = map_set (rl_certname l) (rl_revision l) (latest_of ls)"
  by (simp add: latest_of_def)

lemma latest_of_lookup: "map_of (latest_of lines) c = last_revision c lines"
proof (induction lines rule: rev_induct)
  case Nil
  then show ?case by (simp add: latest_of_def last_revision_def)
next
  case (snoc l lines)
  then show ?case by (simp add: latest_of_snoc map_set_lookup last_revision_def)
qed

lemma latest_of_distinct: "distinct (map fst (latest_of lines))"
  by (induction lines rule: rev_induct) (simp_all add: latest_of_snoc map_set_distinct latest_of_def [of "[]"])

lemma latest_of_keys: "fst ` set (latest_of lines) = rl_certname ` set lines"
  by (induction lines rule: rev_induct) (simp_all add: latest_of_snoc map_set_keys latest_of_def [of "[]"])

definition receipt_at :: "receipt_row list \<Rightarrow> string \<Rightarrow> string \<Rightarrow> receipt_row option" where
  "receipt_at rows peer c = find_unique (\<lambda>r. cr_peerCertname r = peer \<and> cr_certname r = c) rows"


lemma find_unique_upsert:
  assumes "\<And>r. key (upd r) = key r" "key new = k"
  shows "find_unique (\<lambda>r. key r = k') (upsert (\<lambda>r. key r = k) new upd rows) =
     (if k' = k then Some (case find_unique (\<lambda>r. key r = k) rows of None \<Rightarrow> new | Some r \<Rightarrow> upd r)
      else find_unique (\<lambda>r. key r = k') rows)"
proof (cases "list_ex (\<lambda>r. key r = k) rows")
  case True
  then have "find_unique (\<lambda>r. key r = k) rows \<noteq> None" by (auto simp: table_simps list_ex_iff)
  moreover have "find_unique (\<lambda>r. key r = k') (map (\<lambda>r. if key r = k then upd r else r) rows) =
      map_option (\<lambda>r. if key r = k then upd r else r) (find_unique (\<lambda>r. key r = k') rows)"
    using assms(1) by (induction rows) auto
  ultimately show ?thesis using True
    by (cases "find_unique (\<lambda>r. key r = k') rows") (auto simp: upsert_def dest: find_unique_Some split: option.split)
next
  case False
  then have "find_unique (\<lambda>r. key r = k) rows = None" by (auto simp: table_simps list_ex_iff)
  with False assms(2) show ?thesis by (auto simp: upsert_def find_unique_append split: option.split)
qed

definition fresh_receipt :: "int \<Rightarrow> string set \<Rightarrow> string \<Rightarrow> string \<Rightarrow> string \<Rightarrow> receipt_row" where
  "fresh_receipt now known peer c revision =
     \<lparr> cr_peerCertname = peer, cr_certname = c, cr_revision = revision, cr_reportedAt = now,
       cr_matchedAtIngest = (c \<in> known) \<rparr>"

lemma receipt_at_store_one:
  "receipt_at (store_one now known peer rows (c, revision)) p c' =
     (if p = peer \<and> c' = c then Some (fresh_receipt now known peer c revision) else receipt_at rows p c')"
proof -
  let ?upd = "\<lambda>r. r \<lparr> cr_revision := revision, cr_reportedAt := now, cr_matchedAtIngest := (c \<in> known) \<rparr>"
  have "?upd r = fresh_receipt now known peer c revision"
    if "find_unique (\<lambda>r. cr_peerCertname r = peer \<and> cr_certname r = c) rows = Some r" for r
    using find_unique_Some [OF that] by (cases r) (simp add: fresh_receipt_def)
  with find_unique_upsert [where key = "\<lambda>r. (cr_peerCertname r, cr_certname r)" and upd = ?upd
      and new = "fresh_receipt now known peer c revision" and k = "(peer, c)" and k' = "(p, c')" and rows = rows]
  show ?thesis by (auto simp: receipt_at_def store_one_def fresh_receipt_def split: option.splits)
qed

lemma receipt_at_store:
  "distinct (map fst latest) \<Longrightarrow>
     receipt_at (foldl (store_one now known peer) rows latest) p c =
       (if p = peer then (case map_of latest c of Some revision \<Rightarrow> Some (fresh_receipt now known peer c revision)
                          | None \<Rightarrow> receipt_at rows p c)
        else receipt_at rows p c)"
proof (induction latest arbitrary: rows)
  case Nil
  then show ?case by simp
next
  case (Cons e latest)
  obtain c0 r0 where e: "e = (c0, r0)" by (cases e)
  with Cons.prems have "c0 \<notin> fst ` set latest" by simp
  then have "map_of latest c0 = None" by (simp add: map_of_eq_None_iff)
  with Cons e show ?case by (auto simp: receipt_at_store_one split: option.split)
qed

lemma image_filter_member: "c \<in> K \<Longrightarrow> (c \<in> set (map f (filter (\<lambda>n. f n \<in> K) xs))) = (c \<in> f ` set xs)"
  by auto

lemma parse_lines_count:
  "length (fst (parse_lines raws)) + snd (parse_lines raws) = length (filter (\<lambda>r. r \<noteq> []) raws)"
  by (induction raws) (auto split: prod.splits option.split)

lemma truncate_lines_parts:
  "length (fst (truncate_lines lines)) + snd (truncate_lines lines) = length lines
   \<and> length (fst (truncate_lines lines)) \<le> MAX_RECEIPTS_PER_BATCH
   \<and> (\<exists>old. lines = old @ fst (truncate_lines lines) \<and> length old = snd (truncate_lines lines))"
proof (cases "length lines \<le> MAX_RECEIPTS_PER_BATCH")
  case False
  then show ?thesis
    by (auto simp: truncate_lines_def intro!: exI [where x = "take (length lines - MAX_RECEIPTS_PER_BATCH) lines"])
qed (simp add: truncate_lines_def)

section \<open>Properties\<close>

text \<open>
  A batch of receipts accounts for every line and the last report wins. Every non-empty line is
  kept, malformed or discarded; at most the cap is kept, and what is discarded is the oldest; after
  the batch the receipt of each node the kept lines name carries the revision of its last line, with
  the time of the batch and whether the node is known; every other receipt, of this peer or another,
  is as it was; and replaying the batch leaves the same receipts.
\<close>

theorem ingest_last_report_wins:
  assumes "ingest now nodes peer body rows = (res, rows')"
    and "parse body = (lines, malformed)" "truncate_lines lines = (kept, discarded)"
  shows "length kept + ir_malformed res + ir_discarded res = length (filter (\<lambda>r. r \<noteq> []) (split_on newline body))
    \<and> length kept \<le> MAX_RECEIPTS_PER_BATCH \<and> (\<exists>old. lines = old @ kept \<and> length old = ir_discarded res)
    \<and> ir_stored res = card (rl_certname ` set kept)
    \<and> (\<forall>p c. receipt_at rows' p c =
        (if p = peer \<and> c \<in> rl_certname ` set kept
         then Some (fresh_receipt now (n_certname ` set nodes) peer c (the (last_revision c kept)))
         else receipt_at rows p c))
    \<and> (\<forall>p c. receipt_at (snd (ingest now nodes peer body rows')) p c = receipt_at rows' p c)"
proof -
  let ?known = "set (map n_certname (filter (\<lambda>n. n_certname n \<in> set (map fst (latest_of kept))) nodes))"
  have known: "(c \<in> ?known) = (c \<in> n_certname ` set nodes)" if "c \<in> rl_certname ` set kept" for c
  proof -
    have "c \<in> set (map fst (latest_of kept))" using that latest_of_keys by simp
    then show ?thesis by (rule image_filter_member)
  qed
  have fresh: "fresh_receipt now ?known peer c v = fresh_receipt now (n_certname ` set nodes) peer c v"
    if "c \<in> rl_certname ` set kept" for c v
    using known [OF that] by (simp add: fresh_receipt_def)
  have after: "receipt_at (snd (ingest now nodes peer body base)) p c =
      (if p = peer \<and> c \<in> rl_certname ` set kept
       then Some (fresh_receipt now (n_certname ` set nodes) peer c (the (last_revision c kept)))
       else receipt_at base p c)" for base p c
  proof -
    have none: "map_of (latest_of kept) c = None \<longleftrightarrow> c \<notin> rl_certname ` set kept"
      by (simp add: map_of_eq_None_iff latest_of_keys)
    have "receipt_at (snd (ingest now nodes peer body base)) p c =
        receipt_at (foldl (store_one now ?known peer) base (latest_of kept)) p c"
      by (simp add: ingest_def assms(2,3) store_def Let_def split: prod.split)
    also have "\<dots> = (if p = peer then (case map_of (latest_of kept) c of
          Some revision \<Rightarrow> Some (fresh_receipt now ?known peer c revision) | None \<Rightarrow> receipt_at base p c)
        else receipt_at base p c)"
      by (rule receipt_at_store [OF latest_of_distinct])
    finally show ?thesis using none fresh [of c] latest_of_lookup [of kept c] by (auto split: option.splits)
  qed
  have rows': "rows' = snd (ingest now nodes peer body rows)" using assms(1) by simp
  have res: "ir_malformed res = malformed" "ir_discarded res = discarded" "ir_stored res = length (latest_of kept)"
    using assms by (auto simp: ingest_def store_def Let_def split: prod.splits if_splits)
  have "length (latest_of kept) = card (rl_certname ` set kept)"
    using distinct_card [OF latest_of_distinct, of kept] latest_of_keys [of kept] by simp
  moreover have "length lines + malformed = length (filter (\<lambda>r. r \<noteq> []) (split_on newline body))"
    using parse_lines_count [of "split_on newline body"] assms(2) by (simp add: parse_def)
  moreover note truncate_lines_parts [of lines]
  ultimately show ?thesis using assms(3) res after by (simp add: rows')
qed

theorem ingest_last_report_wins_witness:
  "receipt_at (snd (ingest 9 [] ''puppet1'' (''aa web01'' @ [newline] @ ''bb web01'' @ [newline]) [])) ''puppet1'' ''web01''
     = Some (fresh_receipt 9 {} ''puppet1'' ''web01'' ''bb'')"
proof -
  let ?body = "''aa web01'' @ [newline] @ ''bb web01'' @ [newline]"
  obtain res rows' where r: "ingest 9 [] ''puppet1'' ?body [] = (res, rows')" by (metis prod.exhaust)
  let ?ls = "[\<lparr> rl_revision = ''aa'', rl_certname = ''web01'' \<rparr>, \<lparr> rl_revision = ''bb'', rl_certname = ''web01'' \<rparr>]"
  have p: "parse ?body = (?ls, 0)" by code_simp
  have t: "truncate_lines ?ls = (?ls, 0)" by (simp add: truncate_lines_def MAX_RECEIPTS_PER_BATCH_def)
  from ingest_last_report_wins [OF r p t] have "receipt_at rows' ''puppet1'' ''web01'' =
      Some (fresh_receipt 9 (n_certname ` set []) ''puppet1'' ''web01'' (the (last_revision ''web01'' ?ls)))" by simp
  then show ?thesis unfolding r snd_conv by (simp add: last_revision_def)
qed

end
