(* ===== verification/ClassificationReads.thy ===== *)
theory ClassificationReads
  imports Classification Receipts
begin

text \<open>
  The reads of \<open>apps/api/src/classification/classification.service.ts\<close> (\<open>list\<close>, \<open>get\<close>, \<open>explain\<close>,
  \<open>listFactPaths\<close>), the estate-wide conflict report (\<open>conflict-report.service.ts\<close>,
  \<open>pure/aggregate-conflicts.ts\<close>), and what ties them to the writes and to the rule evaluator.
\<close>

section \<open>Groups\<close>

definition list_groups :: "(string \<Rightarrow> string \<Rightarrow> int) \<Rightarrow> db \<Rightarrow> node_group_detail list" where
  "list_groups collate db =
     map (\<lambda>g. toDetail (with_relations db g))
       (js_sort (\<lambda>a b. if g_rank a \<noteq> g_rank b then g_rank a - g_rank b else collate (g_name a) (g_name b)) (db_groups db))"

definition get_group :: "string \<Rightarrow> db \<Rightarrow> http_error + node_group_detail" where
  "get_group i db = bind_err (loadOrThrow i db) (\<lambda>row. Inr (toDetail row))"

section \<open>Why a node is classified the way it is\<close>

record peer_row =
  rp_certname :: string
  rp_lastEtag :: string
  rp_lastChangedAt :: "int option"

record compile_receipt_view =
  cv_peerCertname :: string
  cv_revision :: string
  cv_reportedAt :: int
  cv_peerRevision :: "string option"
  cv_currency :: compile_currency

record node_explanation =
  ne_certname :: string
  ne_appliedGroups :: "(string \<times> string \<times> int) list"
  ne_document :: "string option"
  ne_usesDefault :: bool
  ne_conflicts :: "classification_conflict list"
  ne_attribution :: "merge_attribution option"
  ne_matchReasons :: "group_match_explanation list option"
  ne_compileReceipts :: "compile_receipt_view list option"
  ne_materialization :: "(string \<times> nat \<times> string \<times> int) option"
  ne_factsAsOf :: "int option"
  ne_pending :: bool

text \<open>A call whose failure the source swallows.\<close>

definition or_nothing :: "failure + 'a option \<Rightarrow> 'a option" where
  "or_nothing r = (case r of Inl _ \<Rightarrow> None | Inr v \<Rightarrow> v)"

text \<open>\<open>receipts\<close> is absent in a deployment assembled without the service.\<close>

definition explainReceipts ::
  "receipt_row list option \<Rightarrow> peer_row list \<Rightarrow> failure + string option \<Rightarrow> string \<Rightarrow> compile_receipt_view list" where
  "explainReceipts receipts peers revision certname =
     (case receipts of
        None \<Rightarrow> []
      | Some table \<Rightarrow>
          let rows = forNode table certname
          in if length rows = 0 then []
             else
               let origin = or_nothing revision;
                   known = filter (\<lambda>p. rp_certname p \<in> set (map cr_peerCertname rows)) peers;
                   peerRevision = map (\<lambda>p. (rp_certname p, rp_lastEtag p)) (filter (\<lambda>p. rp_lastChangedAt p \<noteq> None) known)
               in map (\<lambda>row.
                    let peer = map_of (rev peerRevision) (cr_peerCertname row)
                    in \<lparr> cv_peerCertname = cr_peerCertname row, cv_revision = cr_revision row,
                         cv_reportedAt = cr_reportedAt row, cv_peerRevision = peer,
                         cv_currency = compileCurrency (cr_revision row) origin peer \<rparr>) rows)"

definition explain ::
  "io_faults \<Rightarrow> string \<Rightarrow> receipt_row list option \<Rightarrow> peer_row list \<Rightarrow> string \<Rightarrow> db \<times> files \<Rightarrow> node_explanation" where
  "explain io dir0 receipts peers certname w =
     (let (db, fs) = w;
          materialization = find_unique (\<lambda>m. em_certname m = certname) (db_materializations db);
          node = find_unique (\<lambda>n. n_certname n = certname) (db_nodes db);
          queued = length (filter (\<lambda>j. (j_certname j = Some certname \<or> j_certname j = None) \<and> j_status j = PENDING) (db_jobs db));
          document = or_nothing (readNode io dir0 certname fs);
          compileReceipts = explainReceipts receipts peers (readRevision io dir0 fs) certname;
          appliedGroupIds = (case materialization of None \<Rightarrow> [] | Some m \<Rightarrow> em_appliedGroupIds m);
          groups = (if length appliedGroupIds = 0 then [] else filter (\<lambda>g. g_id g \<in> set appliedGroupIds) (db_groups db));
          byId = map (\<lambda>g. (g_id g, g)) groups;
          applied = map (\<lambda>g. (g_id g, g_name g, g_rank g))
                      (map the (filter (\<lambda>g. g \<noteq> None) (map (map_of (rev byId)) appliedGroupIds)));
          matchReasons = (case materialization of None \<Rightarrow> [] | Some m \<Rightarrow> em_matchReasons m)
      in \<lparr> ne_certname = certname, ne_appliedGroups = applied, ne_document = document,
           ne_usesDefault = (document = None),
           ne_conflicts = (case materialization of None \<Rightarrow> [] | Some m \<Rightarrow> em_conflicts m),
           ne_attribution = (case materialization of None \<Rightarrow> None | Some m \<Rightarrow> em_attribution m),
           ne_matchReasons = (if length matchReasons > 0 then Some matchReasons else None),
           ne_compileReceipts = (if length compileReceipts > 0 then Some compileReceipts else None),
           ne_materialization = map_option (\<lambda>m. (em_contentHash m, em_revision m, em_relativePath m, em_writtenAt m)) materialization,
           ne_factsAsOf = map_option n_projectedAt node,
           ne_pending = (queued > 0) \<rparr>)"

section \<open>Fact paths\<close>

definition is_container :: "jsval \<Rightarrow> bool" where
  "is_container v \<longleftrightarrow> v \<noteq> JNull \<and> is_object v \<and> \<not> is_array v"

definition sub_path :: "string \<Rightarrow> string \<Rightarrow> string" where
  "sub_path prefix key = (if prefix = [] then key else prefix @ ''.'' @ key)"

text \<open>
  Facts are JSON, so an object is a \<^const>\<open>JObj\<close>. The list the source pushes to is the list returned.
\<close>

fun flattenFacts :: "jsval \<Rightarrow> string \<Rightarrow> (string \<times> jsval) list" where
  "flattenFacts (JObj o1) prefix =
     concat (map (\<lambda>(key, nested).
       flattenFacts nested (sub_path prefix key) @
       (if is_container nested then [(sub_path prefix key, nested)] else [])) o1)"
| "flattenFacts v prefix = (if prefix \<noteq> [] then [(prefix, v)] else [])"

definition MAX_NODES_FOR_FACT_INDEX :: nat where
  "MAX_NODES_FOR_FACT_INDEX = 2000"

definition MAX_DISTINCT_VALUES :: nat where
  "MAX_DISTINCT_VALUES = 25"

text \<open>
  \<open>values\<close> holds the values themselves in the order they were first seen; two values are one entry
  when their JSON texts are equal (\<open>text\<close> stands for \<open>JSON.stringify\<close>, which \<open>JSON.parse\<close> inverts).
\<close>

record fact_entry =
  fe_count :: nat
  fe_values :: "jsval list"
  fe_sample :: jsval

definition index_fact ::
  "(jsval \<Rightarrow> string) \<Rightarrow> (string \<times> fact_entry) list \<Rightarrow> string \<times> jsval \<Rightarrow> (string \<times> fact_entry) list" where
  "index_fact text index = (\<lambda>(path, v).
     (let entry = (case map_of index path of
                     Some e \<Rightarrow> e | None \<Rightarrow> \<lparr> fe_count = 0, fe_values = [], fe_sample = v \<rparr>);
          counted = entry \<lparr> fe_count := fe_count entry + 1 \<rparr>;
          entry' = (if \<not> is_container v \<and> length (fe_values counted) \<le> MAX_DISTINCT_VALUES \<and>
                       text v \<notin> set (map text (fe_values counted))
                    then counted \<lparr> fe_values := fe_values counted @ [v] \<rparr> else counted)
      in map_set path entry' index))"

definition index_node ::
  "(jsval \<Rightarrow> string) \<Rightarrow> (string \<times> fact_entry) list \<Rightarrow> node_row \<Rightarrow> (string \<times> fact_entry) list" where
  "index_node text index node = foldl (index_fact text) index (flattenFacts (JObj (n_facts node)) [])"

record fact_path_suggestion =
  fp_path :: string
  fp_nodeCount :: nat
  fp_sampleValue :: jsval
  fp_values :: "jsval list option"

definition suggestion :: "(string \<Rightarrow> string \<Rightarrow> int) \<Rightarrow> string \<times> fact_entry \<Rightarrow> fact_path_suggestion" where
  "suggestion collate = (\<lambda>(path, entry).
     \<lparr> fp_path = path, fp_nodeCount = fe_count entry, fp_sampleValue = fe_sample entry,
       fp_values = (if length (fe_values entry) > 0 \<and> length (fe_values entry) \<le> MAX_DISTINCT_VALUES
                    then Some (js_sort (\<lambda>a b. collate (js_string a) (js_string b)) (fe_values entry)) else None) \<rparr>)"

definition listFactPaths ::
  "(jsval \<Rightarrow> string) \<Rightarrow> (string \<Rightarrow> string \<Rightarrow> int) \<Rightarrow> db \<Rightarrow> fact_path_suggestion list \<times> nat" where
  "listFactPaths text collate db =
     (let nodes = take MAX_NODES_FOR_FACT_INDEX (db_nodes db);
          index = foldl (index_node text) [] nodes
      in (map (suggestion collate) (js_sort (key_cmp fst cmp_str) index), length nodes))"

section \<open>Conflicts across the estate\<close>

record aggregated_conflict =
  ag_kind :: conflict_kind
  ag_key :: string
  ag_winningGroupId :: string
  ag_winningGroupName :: string
  ag_losingGroupId :: string
  ag_losingGroupName :: string
  ag_nodeCount :: nat
  ag_exampleCertnames :: "string list"

definition MAX_EXAMPLES :: nat where
  "MAX_EXAMPLES = 5"

text \<open>The parts are joined by the character with code 0, which no text column can hold.\<close>

definition nul :: char where
  "nul = char_of (0 :: nat)"

definition identity :: "classification_conflict \<Rightarrow> string" where
  "identity c = join [nul] [kind_name (cc_kind c), cc_key c, winningGroupId c, losingGroupId c]"

definition first_report :: "string \<Rightarrow> classification_conflict \<Rightarrow> aggregated_conflict" where
  "first_report certname c =
     \<lparr> ag_kind = cc_kind c, ag_key = cc_key c, ag_winningGroupId = winningGroupId c,
       ag_winningGroupName = winningGroupName c, ag_losingGroupId = losingGroupId c,
       ag_losingGroupName = losingGroupName c, ag_nodeCount = 1, ag_exampleCertnames = [certname] \<rparr>"

definition another_node :: "string \<Rightarrow> aggregated_conflict \<Rightarrow> aggregated_conflict" where
  "another_node certname e =
     e \<lparr> ag_nodeCount := ag_nodeCount e + 1,
         ag_exampleCertnames := (if length (ag_exampleCertnames e) < MAX_EXAMPLES
                                 then ag_exampleCertnames e @ [certname] else ag_exampleCertnames e) \<rparr>"

definition add_conflict ::
  "string \<Rightarrow> string set \<times> (string \<times> aggregated_conflict) list \<Rightarrow> classification_conflict
   \<Rightarrow> string set \<times> (string \<times> aggregated_conflict) list" where
  "add_conflict certname st conflict =
     (let (seen, byOverride) = st; i = identity conflict
      in if i \<in> seen then st
         else (insert i seen,
               case map_of byOverride i of
                 None \<Rightarrow> map_set i (first_report certname conflict) byOverride
               | Some existing \<Rightarrow> map_set i (another_node certname existing) byOverride))"

definition add_row ::
  "(string \<times> aggregated_conflict) list \<Rightarrow> string \<times> classification_conflict list \<Rightarrow> (string \<times> aggregated_conflict) list" where
  "add_row byOverride row = snd (foldl (add_conflict (fst row)) ({}, byOverride) (snd row))"

definition severity :: "aggregated_conflict \<Rightarrow> int" where
  "severity c = (if ag_kind c = ENVIRONMENT then 0 else 1)"

definition compare_conflicts :: "(string \<Rightarrow> string \<Rightarrow> int) \<Rightarrow> aggregated_conflict \<Rightarrow> aggregated_conflict \<Rightarrow> int" where
  "compare_conflicts lc a b =
     (if severity a \<noteq> severity b then severity a - severity b
      else if ag_nodeCount a \<noteq> ag_nodeCount b then int (ag_nodeCount b) - int (ag_nodeCount a)
      else if ag_key a \<noteq> ag_key b then lc (ag_key a) (ag_key b)
      else lc (ag_winningGroupName a) (ag_winningGroupName b))"

definition aggregateConflicts ::
  "(string \<Rightarrow> string \<Rightarrow> int) \<Rightarrow> (string \<times> classification_conflict list) list \<Rightarrow> aggregated_conflict list" where
  "aggregateConflicts lc rows = js_sort (compare_conflicts lc) (map snd (foldl add_row [] rows))"

definition REPORT_CHUNK :: nat where
  "REPORT_CHUNK = 500"

definition beyond :: "string option \<Rightarrow> materialization_row \<Rightarrow> bool" where
  "beyond cursor r = (case cursor of None \<Rightarrow> True | Some k \<Rightarrow> k < em_certname r)"

text \<open>
  One page of \<open>findMany\<close>: the rows whose conflicts are not the empty list, in the order of the
  primary key, after the cursor row.
\<close>

definition report_page :: "materialization_row list \<Rightarrow> string option \<Rightarrow> materialization_row list" where
  "report_page rows cursor =
     take REPORT_CHUNK (sort_key em_certname (filter (\<lambda>r. em_conflicts r \<noteq> [] \<and> beyond cursor r) rows))"

function report_pages :: "materialization_row list \<Rightarrow> string option \<Rightarrow> materialization_row list" where
  "report_pages rows cursor =
     (let page = report_page rows cursor
      in if length page = 0 then []
         else if length page < REPORT_CHUNK then page
         else page @ report_pages rows (Some (em_certname (last page))))"
  by auto
termination
proof (relation "measure (\<lambda>(rows, cursor). length (filter (beyond cursor) rows))")
  fix rows cursor page
  assume "page = report_page rows cursor" "\<not> length page = 0"
  then have "last page \<in> set page" by simp
  then have "last page \<in> set (filter (\<lambda>r. em_conflicts r \<noteq> [] \<and> beyond cursor r) rows)"
    unfolding \<open>page = report_page rows cursor\<close> report_page_def by (auto dest: in_set_takeD)
  then have l: "beyond cursor (last page)" "last page \<in> set rows" by auto
  let ?next = "Some (em_certname (last page))"
  have "filter (beyond ?next) rows = filter (beyond ?next) (filter (beyond cursor) rows)"
    using l(1) by (auto simp: beyond_def intro!: filter_cong split: option.splits)
  moreover have "\<not> beyond ?next (last page)" by (simp add: beyond_def)
  moreover have "length (filter (beyond ?next) (filter (beyond cursor) rows)) < length (filter (beyond cursor) rows)"
    using l \<open>\<not> beyond ?next (last page)\<close> by (intro length_filter_less [where x = "last page"]) auto
  ultimately show "((rows, ?next), rows, cursor) \<in> measure (\<lambda>(rows, cursor). length (filter (beyond cursor) rows))"
    by (simp del: filter_filter)
qed simp

declare report_pages.simps [simp del]

record conflict_report =
  rep_conflicts :: "aggregated_conflict list"
  rep_nodesAffected :: nat
  rep_nodesMaterialized :: nat

definition report :: "(string \<Rightarrow> string \<Rightarrow> int) \<Rightarrow> db \<Rightarrow> conflict_report" where
  "report lc db =
     (let nodesMaterialized = length (db_materializations db);
          rows = map (\<lambda>r. (em_certname r, em_conflicts r)) (report_pages (db_materializations db) None)
      in \<lparr> rep_conflicts = aggregateConflicts lc rows,
           rep_nodesAffected = length (filter (\<lambda>r. length (snd r) > 0) rows),
           rep_nodesMaterialized = nodesMaterialized \<rparr>)"

section \<open>Paging by key\<close>

lemma keyset_next:
  assumes "sorted (map key S)" "distinct (map key S)" "take n S \<noteq> []"
  shows "filter (\<lambda>r. key (last (take n S)) < key r) S = drop n S"
proof -
  let ?k = "key (last (take n S))"
  have "sorted (map key (take n S @ drop n S))" "distinct (map key (take n S @ drop n S))" using assms(1,2) by simp_all
  then have parts: "sorted (map key (take n S))"
    "\<forall>x \<in> set (map key (take n S)). \<forall>y \<in> set (map key (drop n S)). x \<le> y \<and> x \<noteq> y"
    by (auto simp only: map_append sorted_append distinct_append)
  have lst: "last (take n S) \<in> set (take n S)" using assms(3) by simp
  have "key r \<le> ?k" if "r \<in> set (take n S)" for r
    using sorted_le_last [OF parts(1), of "key r"] that assms(3) by (simp add: last_map)
  then have "filter (\<lambda>r. ?k < key r) (take n S) = []" by (auto simp: filter_empty_conv not_less)
  moreover have "?k < key r" if "r \<in> set (drop n S)" for r
    using parts(2) lst that by (metis image_eqI less_le set_map)
  then have "filter (\<lambda>r. ?k < key r) (drop n S) = drop n S" by (simp add: filter_id_conv)
  ultimately show ?thesis by (metis append_Nil append_take_drop_id filter_append)
qed

lemma distinct_map_sort_key: "distinct (map f (sort_key key xs)) = distinct (map f xs)"
  by (metis mset_sort mset_map mset_eq_imp_distinct_iff)

definition report_rest :: "materialization_row list \<Rightarrow> string option \<Rightarrow> materialization_row list" where
  "report_rest rows cursor = sort_key em_certname (filter (\<lambda>r. em_conflicts r \<noteq> [] \<and> beyond cursor r) rows)"

lemma report_rest_next:
  assumes "distinct (map em_certname rows)" "take n (report_rest rows cursor) \<noteq> []"
  shows "report_rest rows (Some (em_certname (last (take n (report_rest rows cursor))))) = drop n (report_rest rows cursor)"
proof -
  let ?S = "report_rest rows cursor" and ?l = "last (take n (report_rest rows cursor))"
  have "?l \<in> set ?S" using assms(2) by (metis in_set_takeD last_in_set)
  then have "beyond cursor ?l" by (simp add: report_rest_def)
  then have "filter (\<lambda>r. em_conflicts r \<noteq> [] \<and> beyond (Some (em_certname ?l)) r) rows =
      filter (\<lambda>r. em_certname ?l < em_certname r) (filter (\<lambda>r. em_conflicts r \<noteq> [] \<and> beyond cursor r) rows)"
    by (auto simp: beyond_def intro!: filter_cong split: option.splits)
  then have "report_rest rows (Some (em_certname ?l)) = filter (\<lambda>r. em_certname ?l < em_certname r) ?S"
    by (simp add: report_rest_def filter_sort)
  also have "\<dots> = drop n ?S"
    using assms by (intro keyset_next) (simp_all add: report_rest_def distinct_map_sort_key distinct_map_filter)
  finally show ?thesis .
qed

lemma report_pages_rest:
  assumes "distinct (map em_certname rows)"
  shows "report_pages rows cursor = report_rest rows cursor"
  using assms
proof (induction rows cursor rule: report_pages.induct)
  case (1 rows cursor)
  let ?page = "report_page rows cursor" and ?rest = "report_rest rows cursor"
  have page: "?page = take REPORT_CHUNK ?rest" by (simp add: report_page_def report_rest_def)
  have pos: "0 < REPORT_CHUNK" by (simp add: REPORT_CHUNK_def)
  show ?case
  proof (cases "length ?page = 0 \<or> length ?page < REPORT_CHUNK")
    case True
    with page pos have "?page = ?rest" by (cases "length ?rest < REPORT_CHUNK") auto
    with True show ?thesis by (subst report_pages.simps) (auto simp: Let_def)
  next
    case False
    then have "take REPORT_CHUNK ?rest \<noteq> []" using page by auto
    with "1.prems" have "?page @ report_rest rows (Some (em_certname (last ?page))) = ?rest"
      unfolding page by (simp add: report_rest_next)
    with "1.IH" False "1.prems" show ?thesis by (subst report_pages.simps) (simp add: Let_def)
  qed
qed

section \<open>Folding conflicts\<close>

text \<open>What makes two conflicts the same override, apart from its encoding as one string.\<close>

datatype override = Override conflict_kind string string string

definition override_of :: "classification_conflict \<Rightarrow> override" where
  "override_of c = Override (cc_kind c) (cc_key c) (winningGroupId c) (losingGroupId c)"

definition ag_override :: "aggregated_conflict \<Rightarrow> override" where
  "ag_override e = Override (ag_kind e) (ag_key e) (ag_winningGroupId e) (ag_losingGroupId e)"

fun override_text :: "override \<Rightarrow> string" where
  "override_text (Override k key w l) = join [nul] [kind_name k, key, w, l]"

fun storable :: "override \<Rightarrow> bool" where
  "storable (Override k key w l) \<longleftrightarrow> nul \<notin> set key \<and> nul \<notin> set w \<and> nul \<notin> set l"

lemma identity_override: "identity c = override_text (override_of c)"
  by (simp add: identity_def override_of_def)

lemma kind_name_nul: "nul \<notin> set (kind_name k)"
proof -
  have "\<forall>k \<in> set [CLASS_PARAMETER, TOP_SCOPE_PARAMETER, ENVIRONMENT]. nul \<notin> set (kind_name k)" by code_simp
  then show ?thesis by (cases k) auto
qed

lemma kind_name_inj: "kind_name a = kind_name b \<Longrightarrow> a = b"
  by (cases a; cases b) (simp_all add: kind_name_def)

lemma override_text_split: "storable (Override k x w l) \<Longrightarrow> split_on nul (override_text (Override k x w l)) = [kind_name k, x, w, l]"
  by (simp add: split_on_append split_on_single kind_name_nul)

lemma override_text_inj: "storable a \<Longrightarrow> storable b \<Longrightarrow> override_text a = override_text b \<Longrightarrow> a = b"
  using override_text_split kind_name_inj by (cases a; cases b) (metis list.inject)

declare override_text.simps [simp del] storable.simps [simp del]

text \<open>The entry of an override, given the nodes that report it.\<close>

definition tally :: "override \<Rightarrow> string list \<Rightarrow> aggregated_conflict \<Rightarrow> bool" where
  "tally i certs e \<longleftrightarrow> certs \<noteq> [] \<and> ag_override e = i \<and> ag_nodeCount e = length certs \<and>
     ag_exampleCertnames e = take MAX_EXAMPLES certs"

lemma tally_first: "tally (override_of c) [cert] (first_report cert c)"
  by (simp add: tally_def first_report_def ag_override_def override_of_def MAX_EXAMPLES_def)

lemma tally_another: "tally i certs e \<Longrightarrow> tally i (certs @ [cert]) (another_node cert e)"
  by (auto simp: tally_def another_node_def ag_override_def min_def)

definition tallied :: "(override \<Rightarrow> string list) \<Rightarrow> (string \<times> aggregated_conflict) list \<Rightarrow> bool" where
  "tallied hits acc \<longleftrightarrow> distinct (map fst acc) \<and> (\<forall>i. storable i \<longrightarrow>
     (case map_of acc (override_text i) of None \<Rightarrow> hits i = [] | Some e \<Rightarrow> tally i (hits i) e))
     \<and> (\<forall>x \<in> fst ` set acc. \<exists>i. storable i \<and> x = override_text i)"

text \<open>The nodes among \<open>rows\<close> that report the override.\<close>

definition reporting :: "(string \<times> classification_conflict list) list \<Rightarrow> override \<Rightarrow> string list" where
  "reporting rows i = map fst (filter (\<lambda>r. i \<in> override_of ` set (snd r)) rows)"

lemma tallied_step:
  assumes "tallied hits acc" "storable (override_of c)"
    and "acc' = (case map_of acc (identity c) of None \<Rightarrow> map_set (identity c) (first_report cert c) acc
                 | Some e \<Rightarrow> map_set (identity c) (another_node cert e) acc)"
  shows "tallied (hits(override_of c := hits (override_of c) @ [cert])) acc'"
proof -
  let ?i = "override_of c"
  have at: "case map_of acc (override_text ?i) of None \<Rightarrow> hits ?i = [] | Some e \<Rightarrow> tally ?i (hits ?i) e"
    using assms(1,2) unfolding tallied_def by blast
  obtain e' where e': "acc' = map_set (override_text ?i) e' acc" "tally ?i (hits ?i @ [cert]) e'"
    using at assms(3) tally_first tally_another by (cases "map_of acc (override_text ?i)") (auto simp: identity_override)
  have "override_text i = override_text ?i \<longleftrightarrow> i = ?i" if "storable i" for i
    using override_text_inj [OF that assms(2)] by auto
  with e' assms(1,2) show ?thesis
    by (auto simp: tallied_def map_set_lookup map_set_keys map_set_distinct split: option.split)
qed

lemma add_conflict_pair:
  "add_conflict cert (seen, acc) c =
     (if identity c \<in> seen then (seen, acc)
      else (insert (identity c) seen,
            case map_of acc (identity c) of
              None \<Rightarrow> map_set (identity c) (first_report cert c) acc
            | Some e \<Rightarrow> map_set (identity c) (another_node cert e) acc))"
  by (simp add: add_conflict_def Let_def)

lemma tallied_row:
  assumes "tallied hits acc" "\<forall>c \<in> set cs. storable (override_of c)"
    and "foldl (add_conflict cert) (override_text ` S, acc) cs = (seen, acc')" "\<forall>i \<in> S. storable i"
  shows "tallied (\<lambda>i. if i \<in> override_of ` set cs - S then hits i @ [cert] else hits i) acc'"
  using assms
proof (induction cs arbitrary: hits acc S)
  case Nil
  then show ?case by simp
next
  case (Cons c cs)
  let ?i = "override_of c"
  have mem: "identity c \<in> override_text ` S \<longleftrightarrow> ?i \<in> S"
    using Cons.prems(2,4) override_text_inj [of ?i] by (auto simp: identity_override)
  show ?case
  proof (cases "?i \<in> S")
    case True
    then have "foldl (add_conflict cert) (override_text ` S, acc) cs = (seen, acc')"
      using Cons.prems(3) mem by (simp add: add_conflict_pair)
    with Cons True have "tallied (\<lambda>i. if i \<in> override_of ` set cs - S then hits i @ [cert] else hits i) acc'" by simp
    moreover have "override_of ` set (c # cs) - S = override_of ` set cs - S" using True by auto
    ultimately show ?thesis by simp
  next
    case False
    define acc1 where "acc1 = (case map_of acc (identity c) of None \<Rightarrow> map_set (identity c) (first_report cert c) acc
                 | Some e \<Rightarrow> map_set (identity c) (another_node cert e) acc)"
    have t1: "tallied (hits(?i := hits ?i @ [cert])) acc1"
      using Cons.prems(1,2) by (intro tallied_step [OF _ _ acc1_def]) auto
    have "add_conflict cert (override_text ` S, acc) c = (override_text ` insert ?i S, acc1)"
      using False mem by (simp add: add_conflict_pair acc1_def identity_override)
    with Cons.prems(3) have rest: "foldl (add_conflict cert) (override_text ` insert ?i S, acc1) cs = (seen, acc')" by simp
    from Cons.IH [OF t1 _ rest] Cons.prems(2,4)
    have "tallied (\<lambda>i. if i \<in> override_of ` set cs - insert ?i S then (hits(?i := hits ?i @ [cert])) i @ [cert]
             else (hits(?i := hits ?i @ [cert])) i) acc'" by simp
    moreover have "(\<lambda>i. if i \<in> override_of ` set cs - insert ?i S then (hits(?i := hits ?i @ [cert])) i @ [cert]
             else (hits(?i := hits ?i @ [cert])) i) = (\<lambda>i. if i \<in> override_of ` set (c # cs) - S then hits i @ [cert] else hits i)"
      using False by (auto simp: fun_eq_iff)
    ultimately show ?thesis by simp
  qed
qed

lemma tallied_rows:
  assumes "\<forall>r \<in> set rows. \<forall>c \<in> set (snd r). storable (override_of c)"
  shows "tallied (reporting rows) (foldl add_row [] rows)"
  using assms
proof (induction rows rule: rev_induct)
  case Nil
  then show ?case by (simp add: tallied_def reporting_def)
next
  case (snoc r rows)
  obtain seen acc' where f: "foldl (add_conflict (fst r)) (override_text ` {}, foldl add_row [] rows) (snd r) = (seen, acc')"
    by (metis prod.exhaust)
  have "tallied (\<lambda>i. if i \<in> override_of ` set (snd r) - {} then reporting rows i @ [fst r] else reporting rows i) acc'"
    using snoc by (intro tallied_row [OF _ _ f]) auto
  moreover have "(\<lambda>i. if i \<in> override_of ` set (snd r) - {} then reporting rows i @ [fst r] else reporting rows i) = reporting (rows @ [r])"
    by (auto simp: reporting_def fun_eq_iff)
  moreover have "add_row (foldl add_row [] rows) r = acc'" using f by (subst add_row_def) simp
  ultimately show ?case by simp
qed

lemma comparator_conflicts:
  assumes "comparator lc" "\<And>a b. lc a b = 0 \<Longrightarrow> a = b"
  shows "comparator (compare_conflicts lc)"
proof -
  have "compare_conflicts lc = lex_cmp (key_cmp severity cmp_int) (lex_cmp (key_cmp (\<lambda>c. - int (ag_nodeCount c)) cmp_int)
      (lex_cmp (key_cmp ag_key lc) (key_cmp ag_winningGroupName lc)))"
    using assms(2) comparator.cmp_refl [OF assms(1)]
    by (auto simp: fun_eq_iff compare_conflicts_def lex_cmp_def key_cmp_def cmp_int_def)
  then show ?thesis
    using assms(1) cmp_int.comparator_axioms by (simp add: comparator_lex comparator_key)
qed

lemma map_key_sort_key: "map key (sort_key key xs) = sort (map key xs)"
  by (rule properties_for_sort [symmetric]) simp_all

lemma tallied_values:
  assumes "tallied hits acc"
  shows "distinct (map ag_override (map snd acc))"
    and "e \<in> set (map snd acc) \<Longrightarrow> storable (ag_override e) \<and> tally (ag_override e) (hits (ag_override e)) e"
    and "storable i \<Longrightarrow> hits i \<noteq> [] \<Longrightarrow> i \<in> ag_override ` set (map snd acc)"
proof -
  have entry: "x = override_text (ag_override e) \<and> storable (ag_override e) \<and> tally (ag_override e) (hits (ag_override e)) e"
    if m: "(x, e) \<in> set acc" for x e
  proof -
    have "map_of acc x = Some e" using assms m by (simp add: tallied_def)
    moreover obtain i where "storable i" "x = override_text i" using assms m by (force simp: tallied_def)
    ultimately show ?thesis using assms by (force simp: tallied_def tally_def split: option.splits)
  qed
  then have "map fst acc = map override_text (map ag_override (map snd acc))" by auto
  then show "distinct (map ag_override (map snd acc))" using assms by (metis distinct_map tallied_def)
  show "e \<in> set (map snd acc) \<Longrightarrow> storable (ag_override e) \<and> tally (ag_override e) (hits (ag_override e)) e"
    using entry by auto
  assume "storable i" "hits i \<noteq> []"
  with assms obtain e where e: "map_of acc (override_text i) = Some e" "tally i (hits i) e"
    by (force simp: tallied_def split: option.splits)
  then show "i \<in> ag_override ` set (map snd acc)" by (force simp: tally_def dest: map_of_SomeD)
qed

section \<open>Paths through facts\<close>

abbreviation dotted :: "string list \<Rightarrow> string" where
  "dotted segs \<equiv> join ''.'' segs"

text \<open>The value at a path that reads own properties of objects only.\<close>

fun own_at :: "jsval \<Rightarrow> string list \<Rightarrow> jsval option" where
  "own_at v [] = Some v"
| "own_at (JObj o1) (k # ks) = Option.bind (oget o1 k) (\<lambda>v. own_at v ks)"
| "own_at _ (k # ks) = None"

text \<open>Facts as Facter reports them: no key is empty or has a dot in it.\<close>

fun plain_facts :: "jsval \<Rightarrow> bool" where
  "plain_facts (JObj o1) \<longleftrightarrow> distinct (keys o1) \<and> list_all (\<lambda>(k, v). k \<noteq> [] \<and> CHR ''.'' \<notin> set k \<and> plain_facts v) o1"
| "plain_facts (JNative _) = False"
| "plain_facts (JProto _) = False"
| "plain_facts _ = True"

text \<open>\<^const>\<open>flattenFacts\<close> with the path as its list of keys.\<close>

fun walks :: "jsval \<Rightarrow> (string list \<times> jsval) list" where
  "walks (JObj o1) = concat (map (\<lambda>(k, n). map (\<lambda>(s, w). (k # s, w)) (walks n) @
     (if is_container n then [([k], n)] else [])) o1)"
| "walks v = [([], v)]"

lemma is_container_simps [simp]:
  "is_container (JObj o1)" "\<not> is_container JNull" "\<not> is_container (JBool b)" "\<not> is_container (JNum n)"
  "\<not> is_container (JStr s)" "\<not> is_container (JArr vs)" "\<not> is_container (JNative f)"
  by (simp_all add: is_container_def)

lemma join_snoc: "ss \<noteq> [] \<Longrightarrow> join sep (ss @ [k]) = join sep ss @ sep @ k"
proof (induction ss)
  case (Cons s ss)
  then show ?case by (cases ss) auto
qed simp

lemma dotted_nonempty: "segs \<noteq> [] \<Longrightarrow> \<forall>s \<in> set segs. s \<noteq> [] \<Longrightarrow> dotted segs \<noteq> []"
  by (cases segs rule: list.exhaust; cases "tl segs") auto

lemma sub_path_dotted: "\<forall>s \<in> set pre. s \<noteq> [] \<Longrightarrow> sub_path (dotted pre) k = dotted (pre @ [k])"
  using dotted_nonempty [of pre] by (cases "pre = []") (simp_all add: sub_path_def join_snoc)

lemma flattenFacts_walks:
  "plain_facts v \<Longrightarrow> \<forall>s \<in> set pre. s \<noteq> [] \<Longrightarrow> pre \<noteq> [] \<or> is_container v \<Longrightarrow>
     flattenFacts v (dotted pre) = map (\<lambda>(segs, w). (dotted (pre @ segs), w)) (walks v)"
proof (induction v arbitrary: pre rule: walks.induct)
  case (1 o1)
  have "flattenFacts n (sub_path (dotted pre) k) @ (if is_container n then [(sub_path (dotted pre) k, n)] else []) =
      map (\<lambda>(segs, w). (dotted (pre @ segs), w)) (map (\<lambda>(s, w). (k # s, w)) (walks n) @ (if is_container n then [([k], n)] else []))"
    if m: "(k, n) \<in> set o1" for k n
  proof -
    have "plain_facts n" "k \<noteq> []" using 1(2) m by (auto simp: list_all_iff)
    with 1(1) [OF m refl, of "pre @ [k]"] 1(3) show ?thesis
      by (auto simp: sub_path_dotted)
  qed
  then show ?case by (auto simp: map_concat o_def intro!: arg_cong [where f = concat] map_cong)
qed (use dotted_nonempty in auto)

lemma plain_entry: "plain_facts (JObj o1) \<Longrightarrow> (k, n) \<in> set o1 \<Longrightarrow> plain_facts n"
  by (auto simp: list_all_iff)

lemma own_at_leaf: "\<not> is_container v \<Longrightarrow> own_at v segs = Some w \<longleftrightarrow> segs = [] \<and> w = v"
  by (cases segs; cases v) auto

lemma walks_iff:
  "plain_facts v \<Longrightarrow> (segs, w) \<in> set (walks v) \<longleftrightarrow> own_at v segs = Some w \<and> (is_container v \<longrightarrow> segs \<noteq> [])"
proof (induction v arbitrary: segs rule: walks.induct)
  case (1 o1)
  show ?case
  proof (cases segs)
    case (Cons k ks)
    have d: "(k, n) \<in> set o1 \<longleftrightarrow> oget o1 k = Some n" for n using "1.prems" by (simp add: eq_commute)
    have "(segs, w) \<in> set (walks (JObj o1)) \<longleftrightarrow>
        (\<exists>n. (k, n) \<in> set o1 \<and> ((ks, w) \<in> set (walks n) \<or> is_container n \<and> ks = [] \<and> w = n))"
      by (force simp: Cons)
    also have "\<dots> \<longleftrightarrow> (\<exists>n. (k, n) \<in> set o1 \<and> own_at n ks = Some w)"
      using "1.IH" [OF _ refl] plain_entry [OF "1.prems"] by (metis own_at.simps(1) option.inject)
    also have "\<dots> \<longleftrightarrow> own_at (JObj o1) segs = Some w"
      unfolding d by (auto simp: Cons split: Option.bind_splits)
    finally show ?thesis by (simp add: Cons)
  qed force
qed (auto simp: own_at_leaf)

lemma distinct_concat_heads:
  assumes "\<And>e. e \<in> set ps \<Longrightarrow> distinct (f e)" "\<And>e x. e \<in> set ps \<Longrightarrow> x \<in> set (f e) \<Longrightarrow> hd x = fst e"
    and "distinct (map fst ps)"
  shows "distinct (concat (map f ps))"
  using assms
proof (induction ps)
  case (Cons e ps)
  have "set (f e) \<inter> set (concat (map f ps)) = {}"
  proof (rule equals0I)
    fix x assume "x \<in> set (f e) \<inter> set (concat (map f ps))"
    then obtain d where "d \<in> set ps" "x \<in> set (f d)" "x \<in> set (f e)" by auto
    then have "fst d = fst e" using Cons.prems(2) [of d x] Cons.prems(2) [of e x] by simp
    then show False using Cons.prems(3) \<open>d \<in> set ps\<close> by (metis distinct.simps(2) imageI list.simps(9) set_map)
  qed
  moreover have "distinct (concat (map f ps))" using Cons by simp
  ultimately show ?case using Cons.prems(1) [of e] by simp
qed simp

lemma walks_distinct: "plain_facts v \<Longrightarrow> distinct (map fst (walks v))"
proof (induction v rule: walks.induct)
  case (1 o1)
  let ?f = "\<lambda>(k, n). map fst (map (\<lambda>(s, w). (k # s, w)) (walks n) @ (if is_container n then [([k], n)] else []))"
  have "distinct (concat (map ?f o1))"
  proof (rule distinct_concat_heads)
    fix e assume "e \<in> set o1"
    then obtain k n where e: "e = (k, n)" and m: "(k, n) \<in> set o1" by (metis prod.exhaust)
    have "[] \<notin> fst ` set (walks n)" if "is_container n"
      using that walks_iff [OF plain_entry [OF "1.prems" m]] by force
    moreover have "map fst (map (\<lambda>(s, w). (k # s, w)) (walks n)) = map ((#) k) (map fst (walks n))" by auto
    ultimately show "distinct (?f e)"
      using "1.IH" [OF m refl plain_entry [OF "1.prems" m]] e by (auto simp: distinct_map inj_on_def)
  qed (use "1.prems" in \<open>auto split: if_splits\<close>)
  then show ?case by (simp add: map_concat o_def case_prod_unfold)
qed simp_all

lemma own_at_keys:
  "plain_facts v \<Longrightarrow> own_at v segs = Some w \<Longrightarrow> \<forall>s \<in> set segs. s \<noteq> [] \<and> CHR ''.'' \<notin> set s"
proof (induction v segs rule: own_at.induct)
  case (2 o1 k ks)
  then obtain n where n: "oget o1 k = Some n" "own_at n ks = Some w" by (auto split: Option.bind_splits)
  then have "(k, n) \<in> set o1" by (simp add: map_of_SomeD)
  with "2.prems"(1) have "plain_facts n" "k \<noteq> [] \<and> CHR ''.'' \<notin> set k" by (auto simp: list_all_iff)
  with "2.IH" [OF n(1) _ n(2)] show ?case by simp
qed simp_all

text \<open>What the facts of a node hold at a dotted path.\<close>

definition fact_at :: "node_row \<Rightarrow> string \<Rightarrow> jsval option" where
  "fact_at n path = own_at (JObj (n_facts n)) (split_on CHR ''.'' path)"

lemma fact_at_resolves:
  assumes "plain_facts (JObj (n_facts n))" "fact_at n path = Some w"
  shows "resolveFactPath (n_facts n) path = Some w"
proof -
  have own: "own_at v segs = Some w \<Longrightarrow> resolve_segments v segs = Some w" for v segs
  proof (induction v segs rule: own_at.induct)
    case (2 o1 k ks)
    then show ?case by (auto split: Option.bind_splits option.splits)
  qed simp_all
  have "path \<noteq> []" using own_at_keys [OF assms(1) assms(2) [unfolded fact_at_def]] by auto
  then show ?thesis using assms(2) own by (simp add: resolveFactPath_def fact_at_def)
qed

lemma filter_key: "distinct (map fst xs) \<Longrightarrow> map snd (filter (\<lambda>e. fst e = k) xs) = (case map_of xs k of None \<Rightarrow> [] | Some v \<Rightarrow> [v])"
proof (induction xs)
  case (Cons e xs)
  have "map_of xs k = None" if "fst e = k" using Cons.prems that by (auto simp: map_of_eq_None_iff)
  with Cons show ?case by (cases e) auto
qed simp

lemma flattenFacts_at:
  assumes "plain_facts (JObj (n_facts n))"
  shows "map snd (filter (\<lambda>e. fst e = path) (flattenFacts (JObj (n_facts n)) [])) =
    (case fact_at n path of None \<Rightarrow> [] | Some w \<Rightarrow> [w])"
proof -
  let ?v = "JObj (n_facts n)" and ?segs = "split_on CHR ''.'' path"
  have flat: "flattenFacts ?v [] = map (\<lambda>(segs, w). (dotted segs, w)) (walks ?v)"
    using flattenFacts_walks [OF assms, of "[]"] by simp
  have same: "dotted segs = path \<longleftrightarrow> segs = ?segs" if "(segs, w) \<in> set (walks ?v)" for segs w
  proof -
    have "own_at ?v segs = Some w" "segs \<noteq> []" using walks_iff [OF assms] that by auto
    then have "split_on CHR ''.'' (dotted segs) = segs" using own_at_keys [OF assms] by (intro split_on_join) auto
    then show ?thesis by (metis join_split_on)
  qed
  have "map snd (filter (\<lambda>e. fst e = path) (flattenFacts ?v [])) =
      map snd (filter (\<lambda>e. dotted (fst e) = path) (walks ?v))"
    unfolding flat by (simp add: filter_map o_def case_prod_unfold)
  also have "\<dots> = map snd (filter (\<lambda>e. fst e = ?segs) (walks ?v))"
  proof -
    have "filter (\<lambda>e. dotted (fst e) = path) (walks ?v) = filter (\<lambda>e. fst e = ?segs) (walks ?v)"
      by (rule filter_cong [OF refl]) (metis same prod.collapse)
    then show ?thesis by simp
  qed
  also have "\<dots> = (case map_of (walks ?v) ?segs of None \<Rightarrow> [] | Some w \<Rightarrow> [w])"
    by (rule filter_key [OF walks_distinct [OF assms]])
  also have "map_of (walks ?v) ?segs = fact_at n path"
  proof -
    have "map_of (walks ?v) ?segs = Some w \<longleftrightarrow> fact_at n path = Some w" for w
      using walks_iff [OF assms, of ?segs w] walks_distinct [OF assms] by (simp add: fact_at_def)
    then show ?thesis by (metis not_Some_eq)
  qed
  finally show ?thesis .
qed

section \<open>The index of fact paths\<close>

definition entry_after :: "(jsval \<Rightarrow> string) \<Rightarrow> fact_entry option \<Rightarrow> jsval \<Rightarrow> fact_entry" where
  "entry_after text known v =
     (let entry = (case known of Some e \<Rightarrow> e | None \<Rightarrow> \<lparr> fe_count = 0, fe_values = [], fe_sample = v \<rparr>);
          counted = entry \<lparr> fe_count := fe_count entry + 1 \<rparr>
      in if \<not> is_container v \<and> length (fe_values counted) \<le> MAX_DISTINCT_VALUES \<and> text v \<notin> set (map text (fe_values counted))
         then counted \<lparr> fe_values := fe_values counted @ [v] \<rparr> else counted)"

lemma index_fact_map_set: "index_fact text index (path, v) = map_set path (entry_after text (map_of index path) v) index"
  by (simp add: index_fact_def entry_after_def Let_def)

definition gather :: "(jsval \<Rightarrow> string) \<Rightarrow> fact_entry option \<Rightarrow> jsval list \<Rightarrow> fact_entry option" where
  "gather text known vs = foldl (\<lambda>known v. Some (entry_after text known v)) known vs"

lemma index_lookup:
  "map_of (foldl (index_fact text) index ps) q = gather text (map_of index q) (map snd (filter (\<lambda>e. fst e = q) ps))"
proof (induction ps arbitrary: index)
  case (Cons e ps)
  then show ?case by (cases e) (simp add: index_fact_map_set map_set_lookup gather_def)
qed (simp add: gather_def)

lemma index_distinct: "distinct (map fst index) \<Longrightarrow> distinct (map fst (foldl (index_fact text) index ps))"
proof (induction ps arbitrary: index)
  case (Cons e ps)
  then show ?case by (cases e) (simp add: index_fact_map_set map_set_distinct)
qed simp

lemma index_nodes:
  "foldl (index_node text) index nodes = foldl (index_fact text) index (concat (map (\<lambda>n. flattenFacts (JObj (n_facts n)) []) nodes))"
  by (induction nodes arbitrary: index) (simp_all add: index_node_def)

lemma gather_entry:
  assumes "vs \<noteq> []"
  shows "\<exists>e. gather text None vs = Some e \<and> fe_count e = length vs \<and> fe_sample e = hd vs
    \<and> distinct (map text (fe_values e)) \<and> set (fe_values e) \<subseteq> {v \<in> set vs. \<not> is_container v}
    \<and> (length (fe_values e) \<le> MAX_DISTINCT_VALUES \<longrightarrow> text ` set (fe_values e) = text ` {v \<in> set vs. \<not> is_container v})"
  using assms
proof (induction vs rule: rev_nonempty_induct)
  case (single v)
  show ?case by (auto simp: gather_def entry_after_def Let_def)
next
  case (snoc v vs)
  then obtain e where e: "gather text None vs = Some e" "fe_count e = length vs" "fe_sample e = hd vs"
    "distinct (map text (fe_values e))" "set (fe_values e) \<subseteq> {v \<in> set vs. \<not> is_container v}"
    "length (fe_values e) \<le> MAX_DISTINCT_VALUES \<longrightarrow> text ` set (fe_values e) = text ` {v \<in> set vs. \<not> is_container v}"
    by blast
  have step: "gather text None (vs @ [v]) = Some (entry_after text (Some e) v)" using e(1) by (simp add: gather_def)
  have split: "{x \<in> set (vs @ [v]). \<not> is_container x} = {x \<in> set vs. \<not> is_container x} \<union> (if is_container v then {} else {v})" by auto
  show ?case
    unfolding step split
    using e(2-) snoc.hyps by (auto simp: entry_after_def Let_def hd_append image_Un)
qed

text \<open>The values the nodes hold at a path.\<close>

definition values_at :: "node_row list \<Rightarrow> string \<Rightarrow> jsval list" where
  "values_at nodes path = map the (filter (\<lambda>w. w \<noteq> None) (map (\<lambda>n. fact_at n path) nodes))"

lemma index_values:
  assumes "\<forall>n \<in> set nodes. plain_facts (JObj (n_facts n))"
  shows "map_of (foldl (index_node text) [] nodes) path = gather text None (values_at nodes path)"
proof -
  have "map snd (filter (\<lambda>e. fst e = path) (concat (map (\<lambda>n. flattenFacts (JObj (n_facts n)) []) nodes))) = values_at nodes path"
    using assms
  proof (induction nodes)
    case (Cons n nodes)
    then show ?case using flattenFacts_at [of n path] by (auto simp: values_at_def simp del: flattenFacts.simps split: option.splits)
  qed (simp add: values_at_def)
  then show ?thesis by (simp add: index_nodes index_lookup)
qed

lemma suggestion_correct:
  assumes g: "gather text None (values_at nodes p) = Some e" and e: "s = suggestion collate (p, e)"
  shows "fp_nodeCount s = length (filter (\<lambda>n. fact_at n (fp_path s) \<noteq> None) nodes)
    \<and> (\<exists>n \<in> set nodes. fact_at n (fp_path s) = Some (fp_sampleValue s))
    \<and> (\<forall>vs. fp_values s = Some vs \<longrightarrow> vs \<noteq> [] \<and> length vs \<le> MAX_DISTINCT_VALUES \<and> distinct (map text vs)
         \<and> text ` set vs = text ` {v. \<exists>n \<in> set nodes. fact_at n (fp_path s) = Some v \<and> \<not> is_container v})"
proof -
  have ne: "values_at nodes p \<noteq> []" using g by (auto simp: gather_def)
  let ?vs = "values_at nodes p"
  have vals: "set ?vs = {v. \<exists>n \<in> set nodes. fact_at n p = Some v}" by (force simp: values_at_def)
  have cnt: "length ?vs = length (filter (\<lambda>n. fact_at n p \<noteq> None) nodes)" by (simp add: values_at_def filter_map o_def)
  have E: "fe_count e = length ?vs" "fe_sample e = hd ?vs" "distinct (map text (fe_values e))"
    "length (fe_values e) \<le> MAX_DISTINCT_VALUES \<longrightarrow> text ` set (fe_values e) = text ` {v \<in> set ?vs. \<not> is_container v}"
    using gather_entry [OF ne, of "text"] g by auto
  have hd: "hd ?vs \<in> set ?vs" using ne by simp
  have own: "{v \<in> set ?vs. \<not> is_container v} = {v. \<exists>n \<in> set nodes. fact_at n p = Some v \<and> \<not> is_container v}"
    using vals by blast
  have fields: "fp_path s = p" "fp_nodeCount s = fe_count e" "fp_sampleValue s = fe_sample e"
    "fp_values s = (if length (fe_values e) > 0 \<and> length (fe_values e) \<le> MAX_DISTINCT_VALUES
       then Some (js_sort (\<lambda>a b. collate (js_string a) (js_string b)) (fe_values e)) else None)"
    unfolding e by (simp_all add: suggestion_def)
  have sample: "\<exists>n \<in> set nodes. fact_at n (fp_path s) = Some (fp_sampleValue s)"
    using hd vals unfolding fields(1,3) E(2) by simp
  have count: "fp_nodeCount s = length (filter (\<lambda>n. fact_at n (fp_path s) \<noteq> None) nodes)"
    unfolding fields(1,2) E(1) by (rule cnt)
  have listed: "vs \<noteq> [] \<and> length vs \<le> MAX_DISTINCT_VALUES \<and> distinct (map text vs) \<and> text ` set vs = text ` {v. \<exists>n \<in> set nodes. fact_at n (fp_path s) = Some v \<and> \<not> is_container v}"
    if "fp_values s = Some vs" for vs
  proof -
    have vs: "vs = js_sort (\<lambda>a b. collate (js_string a) (js_string b)) (fe_values e)"
      "0 < length (fe_values e)" "length (fe_values e) \<le> MAX_DISTINCT_VALUES"
      using that unfolding fields(4) by (simp_all split: if_splits)
    then have "length vs = length (fe_values e)" by simp
    with vs(2) have "vs \<noteq> []" by auto
    then show ?thesis using E(3,4) vs(3) \<open>length vs = length (fe_values e)\<close> unfolding fields(1) own [symmetric] vs(1) by simp
  qed
  show ?thesis by (intro conjI allI impI count sample; use listed in blast)
qed

section \<open>Properties\<close>

text \<open>
  The conflict report reads every materialized node once and counts nodes, not occurrences. Each
  override that some node records has exactly one entry; its count is the number of nodes that
  record it, its examples are the first five of them in certname order; disagreements about the
  environment come first whatever their count, and within a severity wider ones come first. The
  scan in pages ends and misses no row.
\<close>

theorem report_counts_nodes:
  assumes "comparator lc" "\<And>a b. lc a b = 0 \<Longrightarrow> a = b" "distinct (map em_certname (db_materializations db))"
    and "\<forall>r \<in> set (db_materializations db). \<forall>c \<in> set (em_conflicts r). storable (override_of c)"
    and "hits = (\<lambda>i. sort (map em_certname (filter (\<lambda>r. i \<in> override_of ` set (em_conflicts r)) (db_materializations db))))"
  shows "distinct (map ag_override (rep_conflicts (report lc db)))
    \<and> ag_override ` set (rep_conflicts (report lc db)) = {i. hits i \<noteq> [] \<and> storable i}
    \<and> (\<forall>e \<in> set (rep_conflicts (report lc db)).
         ag_nodeCount e = length (hits (ag_override e)) \<and> ag_exampleCertnames e = take 5 (hits (ag_override e)))
    \<and> sorted_wrt (\<lambda>a b. severity a < severity b \<or> severity a = severity b \<and> ag_nodeCount b \<le> ag_nodeCount a)
        (rep_conflicts (report lc db))
    \<and> rep_nodesAffected (report lc db) = length (filter (\<lambda>r. em_conflicts r \<noteq> []) (db_materializations db))"
proof -
  let ?M = "db_materializations db"
  define R where "R = sort_key em_certname (filter (\<lambda>r. em_conflicts r \<noteq> []) ?M)"
  define rows where "rows = map (\<lambda>r. (em_certname r, em_conflicts r)) R"
  define acc where "acc = foldl add_row [] rows"
  have pages: "report_pages ?M None = R"
    using report_pages_rest [OF assms(3)] by (simp add: report_rest_def beyond_def R_def)
  have rep: "rep_conflicts (report lc db) = js_sort (compare_conflicts lc) (map snd acc)"
    "rep_nodesAffected (report lc db) = length (filter (\<lambda>r. length (snd r) > 0) rows)"
    by (simp_all add: report_def Let_def pages rows_def acc_def aggregateConflicts_def)
  have "filter (\<lambda>r. length (snd r) > 0) rows = rows" by (auto simp: rows_def R_def filter_id_conv)
  then have affected: "rep_nodesAffected (report lc db) = length (filter (\<lambda>r. em_conflicts r \<noteq> []) ?M)"
    unfolding rep(2) by (simp add: rows_def R_def)
  have hits: "reporting rows = hits"
  proof
    fix i
    have "reporting rows i = map em_certname (filter (\<lambda>r. i \<in> override_of ` set (em_conflicts r)) R)"
      by (simp add: reporting_def rows_def filter_map o_def)
    also have "filter (\<lambda>r. i \<in> override_of ` set (em_conflicts r)) R =
        sort_key em_certname (filter (\<lambda>r. i \<in> override_of ` set (em_conflicts r)) ?M)"
    proof -
      have "filter (\<lambda>r. i \<in> override_of ` set (em_conflicts r)) (filter (\<lambda>r. em_conflicts r \<noteq> []) ?M) =
          filter (\<lambda>r. i \<in> override_of ` set (em_conflicts r)) ?M"
        by (auto intro!: filter_cong)
      then show ?thesis by (simp only: R_def filter_sort)
    qed
    finally show "reporting rows i = hits i" by (simp add: assms(5) map_key_sort_key)
  qed
  have "\<forall>r \<in> set rows. \<forall>c \<in> set (snd r). storable (override_of c)" using assms(4) by (auto simp: rows_def R_def)
  from tallied_rows [OF this] have t: "tallied hits acc" by (simp add: hits acc_def)
  note vals = tallied_values [OF t]
  have "distinct (map ag_override (rep_conflicts (report lc db)))" unfolding rep(1) using vals(1) by simp
  moreover have "ag_override ` set (rep_conflicts (report lc db)) = {i. hits i \<noteq> [] \<and> storable i}"
    unfolding rep(1) set_js_sort using vals(2,3) by (auto simp: tally_def)
  moreover have "\<forall>e \<in> set (rep_conflicts (report lc db)).
      ag_nodeCount e = length (hits (ag_override e)) \<and> ag_exampleCertnames e = take 5 (hits (ag_override e))"
    unfolding rep(1) set_js_sort using vals(2) by (simp add: tally_def MAX_EXAMPLES_def)
  moreover have "sorted_wrt (\<lambda>a b. severity a < severity b \<or> severity a = severity b \<and> ag_nodeCount b \<le> ag_nodeCount a)
        (rep_conflicts (report lc db))"
    unfolding rep(1)
    by (rule sorted_wrt_mono_rel [OF _ comparator.sorted_js_sort [OF comparator_conflicts [OF assms(1,2)]]])
      (auto simp: compare_conflicts_def split: if_splits)
  ultimately show ?thesis using affected by simp
qed

definition conflicted_row :: "string \<Rightarrow> string \<Rightarrow> materialization_row" where
  "conflicted_row c k =
     \<lparr> em_certname = c, em_contentHash = [], em_revision = 1, em_relativePath = c, em_appliedGroupIds = [],
       em_conflicts = [\<lparr> cc_kind = TOP_SCOPE_PARAMETER, cc_key = k, winningGroupId = ''g1'', winningGroupName = ''web'',
          winningValue = JNull, losingGroupId = ''g2'', losingGroupName = ''base'', losingValue = JNull \<rparr>],
       em_attribution = None, em_matchReasons = [], em_writtenAt = 0 \<rparr>"

theorem report_counts_nodes_witness:
  "list_all (\<lambda>e. ag_nodeCount e = 2 \<and> ag_exampleCertnames e = [''a'', ''b''])
     (rep_conflicts (report cmp_str (empty_db \<lparr> db_materializations := [conflicted_row ''b'' ''ntp'', conflicted_row ''a'' ''ntp''] \<rparr>)))"
proof -
  let ?db = "empty_db \<lparr> db_materializations := [conflicted_row ''b'' ''ntp'', conflicted_row ''a'' ''ntp''] \<rparr>"
  define hits where "hits = (\<lambda>i. sort (map em_certname (filter (\<lambda>r. i \<in> override_of ` set (em_conflicts r)) (db_materializations ?db))))"
  have "\<forall>r \<in> set (db_materializations ?db). \<forall>c \<in> set (em_conflicts r). storable (override_of c)" by code_simp
  from report_counts_nodes [OF cmp_str.comparator_axioms _ _ this hits_def]
  have r: "ag_override ` set (rep_conflicts (report cmp_str ?db)) = {i. hits i \<noteq> [] \<and> storable i}"
    "\<forall>e \<in> set (rep_conflicts (report cmp_str ?db)).
       ag_nodeCount e = length (hits (ag_override e)) \<and> ag_exampleCertnames e = take 5 (hits (ag_override e))"
    by (simp_all add: conflicted_row_def)
  have two: "hits i \<noteq> [] \<Longrightarrow> hits i = [''a'', ''b'']" for i
    by (auto simp: hits_def conflicted_row_def split: if_splits)
  show ?thesis unfolding list_all_iff
  proof
    fix e assume e: "e \<in> set (rep_conflicts (report cmp_str ?db))"
    with r(1) have "hits (ag_override e) \<noteq> []" by blast
    from two [OF this] r(2) e show "ag_nodeCount e = 2 \<and> ag_exampleCertnames e = [''a'', ''b'']" by simp
  qed
qed

text \<open>
  The fact paths offered for rules are the ones rules can match. For facts without empty or
  dotted keys: each path that a scanned node holds is listed exactly once, in ascending order; its
  count is the number of nodes that hold it; on each of them the rule evaluator reads the value that
  was indexed; and when a list of values is offered it has every value the nodes hold there, each once.
\<close>

theorem listFactPaths_complete:
  assumes "listFactPaths text collate db = (paths, scanned)"
    and "nodes = take MAX_NODES_FOR_FACT_INDEX (db_nodes db)" "\<forall>n \<in> set nodes. plain_facts (JObj (n_facts n))"
  shows "scanned = length nodes \<and> sorted_wrt (<) (map fp_path paths)
    \<and> fp_path ` set paths = {p. \<exists>n \<in> set nodes. fact_at n p \<noteq> None}
    \<and> (\<forall>n \<in> set nodes. \<forall>p w. fact_at n p = Some w \<longrightarrow> resolveFactPath (n_facts n) p = Some w)
    \<and> (\<forall>s \<in> set paths. fp_nodeCount s = length (filter (\<lambda>n. fact_at n (fp_path s) \<noteq> None) nodes)
         \<and> (\<exists>n \<in> set nodes. fact_at n (fp_path s) = Some (fp_sampleValue s))
         \<and> (\<forall>vs. fp_values s = Some vs \<longrightarrow> vs \<noteq> [] \<and> length vs \<le> MAX_DISTINCT_VALUES \<and> distinct (map text vs)
              \<and> text ` set vs = text ` {v. \<exists>n \<in> set nodes. fact_at n (fp_path s) = Some v \<and> \<not> is_container v}))"
proof -
  define index where "index = foldl (index_node text) [] nodes"
  have paths: "paths = map (suggestion collate) (js_sort (key_cmp fst cmp_str) index)" and scanned: "scanned = length nodes"
    using assms(1,2) by (simp_all add: listFactPaths_def Let_def index_def)
  have look: "map_of index p = gather text None (values_at nodes p)" for p
    unfolding index_def by (rule index_values [OF assms(3)])
  have dist: "distinct (map fst index)" unfolding index_def index_nodes by (rule index_distinct) simp
  have listed: "values_at nodes p \<noteq> [] \<longleftrightarrow> (\<exists>n \<in> set nodes. fact_at n p \<noteq> None)" for p
    by (auto simp: values_at_def filter_empty_conv)
  have fp: "fp_path (suggestion collate e) = fst e" for e by (simp add: suggestion_def split: prod.split)
  have fps: "map fp_path paths = map fst (js_sort (key_cmp fst cmp_str) index)" by (simp add: paths fp)
  have "sorted_wrt (\<lambda>a b. fst a \<le> fst b) (js_sort (key_cmp fst cmp_str) index)"
    by (rule sorted_wrt_mono_rel [OF _ comparator.sorted_js_sort [OF comparator_key [OF cmp_str.comparator_axioms]]])
      (auto simp: key_cmp_def cmp_str_def split: if_splits)
  then have "sorted (map fp_path paths)" "distinct (map fp_path paths)"
    unfolding fps using dist by (simp_all add: sorted_wrt_map)
  then have order: "sorted_wrt (<) (map fp_path paths)" by (simp add: strict_sorted_iff)
  have "p \<in> fp_path ` set paths \<longleftrightarrow> map_of index p \<noteq> None" for p
    by (simp add: map_of_eq_None_iff paths image_image fp)
  moreover have "map_of index p \<noteq> None \<longleftrightarrow> values_at nodes p \<noteq> []" for p
    unfolding look using gather_entry [of "values_at nodes p" "text"] by (auto simp: gather_def)
  ultimately have all: "fp_path ` set paths = {p. \<exists>n \<in> set nodes. fact_at n p \<noteq> None}" using listed by blast
  have each: "fp_nodeCount s = length (filter (\<lambda>n. fact_at n (fp_path s) \<noteq> None) nodes)
      \<and> (\<exists>n \<in> set nodes. fact_at n (fp_path s) = Some (fp_sampleValue s))
      \<and> (\<forall>vs. fp_values s = Some vs \<longrightarrow> vs \<noteq> [] \<and> length vs \<le> MAX_DISTINCT_VALUES \<and> distinct (map text vs)
           \<and> text ` set vs = text ` {v. \<exists>n \<in> set nodes. fact_at n (fp_path s) = Some v \<and> \<not> is_container v})"
    if s: "s \<in> set paths" for s
  proof -
    obtain p e where e: "(p, e) \<in> set index" "s = suggestion collate (p, e)" using s by (auto simp: paths)
    then have "gather text None (values_at nodes p) = Some e" using look dist by (metis map_of_is_SomeI)
    from suggestion_correct [OF this e(2)] show ?thesis .
  qed
  have reads: "\<forall>n \<in> set nodes. \<forall>p w. fact_at n p = Some w \<longrightarrow> resolveFactPath (n_facts n) p = Some w"
    using fact_at_resolves assms(3) by blast
  show ?thesis by (intro conjI scanned order all reads ballI) (use each in simp_all)
qed

definition facts_row :: "string \<Rightarrow> jsval obj \<Rightarrow> node_row" where
  "facts_row c facts = (demo_node_row c) \<lparr> n_facts := facts \<rparr>"

theorem listFactPaths_complete_witness:
  "list_all (\<lambda>s. fp_nodeCount s = 1)
     (fst (listFactPaths js_string cmp_str (empty_db \<lparr> db_nodes := [facts_row ''a'' [(''os'', JObj [(''name'', JStr ''Debian'')])]] \<rparr>)))"
proof -
  let ?db = "empty_db \<lparr> db_nodes := [facts_row ''a'' [(''os'', JObj [(''name'', JStr ''Debian'')])]] \<rparr>"
  obtain paths scanned where l: "listFactPaths js_string cmp_str ?db = (paths, scanned)" by (metis prod.exhaust)
  have n: "take MAX_NODES_FOR_FACT_INDEX (db_nodes ?db) = db_nodes ?db" by (simp add: MAX_NODES_FOR_FACT_INDEX_def)
  have "\<forall>n \<in> set (take MAX_NODES_FOR_FACT_INDEX (db_nodes ?db)). plain_facts (JObj (n_facts n))"
    unfolding n by (simp add: facts_row_def)
  note L = listFactPaths_complete [OF l refl this, unfolded n]
  show ?thesis unfolding list_all_iff
  proof
    fix s assume "s \<in> set (fst (listFactPaths js_string cmp_str ?db))"
    then have "s \<in> set paths" by (simp add: l)
    with L have c: "fp_nodeCount s = length (filter (\<lambda>n. fact_at n (fp_path s) \<noteq> None) (db_nodes ?db))"
      "\<exists>n \<in> set (db_nodes ?db). fact_at n (fp_path s) = Some (fp_sampleValue s)" by blast+
    then show "fp_nodeCount s = 1" by (auto split: if_splits)
  qed
qed

text \<open>
  Where the listing and the evaluator differ. An element of an array answers to a rule on
  \<open>key.index\<close>, and no such path is listed. A top-level fact whose own name has a dot in it is
  listed, and no rule on the listed path reads it.
\<close>

theorem fact_path_listing_gaps:
  assumes "plain_facts (JObj o1)" "(k, JArr vs) \<in> set o1" "array_index j = Some i" "i < length vs"
    and "CHR ''.'' \<notin> set a" "js_get (JObj o1) a = None" "\<not> is_container v" "o2 = o1 @ [(a @ CHR ''.'' # b, v)]"
  shows "resolveFactPath o1 (k @ CHR ''.'' # j) = Some (vs ! i)
    \<and> k @ CHR ''.'' # j \<notin> fst ` set (flattenFacts (JObj o1) [])
    \<and> (a @ CHR ''.'' # b, v) \<in> set (flattenFacts (JObj o2) [])
    \<and> resolveFactPath o2 (a @ CHR ''.'' # b) = None"
proof (intro conjI)
  have k: "k \<noteq> []" "CHR ''.'' \<notin> set k" "oget o1 k = Some (JArr vs)" using assms(1,2) by (auto simp: list_all_iff)
  have "list_all is_digit j" using assms(3) by (simp add: array_index_def split: if_splits)
  then have j: "CHR ''.'' \<notin> set j" "j \<noteq> ''length''" "j \<noteq> ''__proto__''"
    by (auto simp: list_all_iff is_digit_def)
  have split: "split_on CHR ''.'' (k @ CHR ''.'' # j) = [k, j]" using k j by (simp add: split_on_append split_on_single)
  show "resolveFactPath o1 (k @ CHR ''.'' # j) = Some (vs ! i)"
    using split k(3) j assms(3,4) by (simp add: resolveFactPath_def)
  let ?n = "(demo_node_row []) \<lparr> n_facts := o1 \<rparr>"
  have "fact_at ?n (k @ CHR ''.'' # j) = None" using split k(3) by (simp add: fact_at_def)
  moreover have "map snd (filter (\<lambda>e. fst e = k @ CHR ''.'' # j) (flattenFacts (JObj o1) [])) =
      (case fact_at ?n (k @ CHR ''.'' # j) of None \<Rightarrow> [] | Some w \<Rightarrow> [w])"
    using flattenFacts_at [of ?n "k @ CHR ''.'' # j"] assms(1) by (simp del: flattenFacts.simps)
  ultimately show "k @ CHR ''.'' # j \<notin> fst ` set (flattenFacts (JObj o1) [])"
    by (auto simp: filter_empty_conv simp del: flattenFacts.simps)
  have "flattenFacts v (a @ CHR ''.'' # b) = [(a @ CHR ''.'' # b, v)]" using assms(7) by (cases v) auto
  then show "(a @ CHR ''.'' # b, v) \<in> set (flattenFacts (JObj o2) [])" by (simp add: assms(8) sub_path_def)
  have "a \<noteq> a @ CHR ''.'' # b" by simp
  then have "js_get (JObj o2) a = None" using assms(6) by (auto simp: assms(8) map_add_def split: option.splits)
  then show "resolveFactPath o2 (a @ CHR ''.'' # b) = None"
    using assms(5) by (simp add: resolveFactPath_def split_on_append)
qed

theorem fact_path_listing_gaps_witness:
  "resolveFactPath [(''ips'', JArr [JStr ''10.0.0.1''])] ''ips.0'' = Some (JStr ''10.0.0.1'')
   \<and> (''app.role'', JStr ''web'') \<in> set (flattenFacts (JObj [(''ips'', JArr [JStr ''10.0.0.1'']), (''app.role'', JStr ''web'')]) [])
   \<and> resolveFactPath [(''ips'', JArr [JStr ''10.0.0.1'']), (''app.role'', JStr ''web'')] ''app.role'' = None"
proof -
  have "plain_facts (JObj [(''ips'', JArr [JStr ''10.0.0.1''])])" "array_index ''0'' = Some 0"
    "js_get (JObj [(''ips'', JArr [JStr ''10.0.0.1''])]) ''app'' = None" by code_simp+
  from fact_path_listing_gaps [OF this(1) _ this(2) _ _ this(3), of "''ips''" "[JStr ''10.0.0.1'']" "JStr ''web''" _ "''role''"]
  show ?thesis by simp
qed

end
