(* ===== verification/Base64.thy ===== *)
theory Base64
  imports JsPrelude
begin

text \<open>
  \<open>Buffer.toString('base64')\<close> and \<open>Buffer.from(text, 'base64')\<close> of the Node runtime, and the two
  functions of \<open>apps/api/src/auth/jwt.ts\<close> built on them. A buffer is the string of its bytes, one
  character each. The decoder takes both alphabets and passes over every other character.
\<close>

definition b64_alphabet :: string where
  "b64_alphabet = ''ABCDEFGHIJKLMNOPQRSTUVWXYZabcdefghijklmnopqrstuvwxyz0123456789+/''"

definition b64_char :: "nat \<Rightarrow> char" where
  "b64_char n = b64_alphabet ! n"

definition b64_val :: "char \<Rightarrow> nat option" where
  "b64_val c = map_of (zip (b64_alphabet @ ''-_'') ([0..<64] @ [62, 63])) c"

definition byte :: "char \<Rightarrow> nat" where
  "byte c = of_char c"

fun base64 :: "string \<Rightarrow> string" where
  "base64 [] = []"
| "base64 [a] = [b64_char (byte a div 4), b64_char (byte a mod 4 * 16)] @ ''==''"
| "base64 [a, b] =
     [b64_char (byte a div 4), b64_char (byte a mod 4 * 16 + byte b div 16), b64_char (byte b mod 16 * 4)] @ ''=''"
| "base64 (a # b # c # rest) =
     [b64_char (byte a div 4), b64_char (byte a mod 4 * 16 + byte b div 16),
      b64_char (byte b mod 16 * 4 + byte c div 64), b64_char (byte c mod 64)] @ base64 rest"

fun b64_bytes :: "nat list \<Rightarrow> string" where
  "b64_bytes (a # b # c # d # rest) =
     [char_of (a * 4 + b div 16), char_of (b mod 16 * 16 + c div 4), char_of (c mod 4 * 64 + d)] @ b64_bytes rest"
| "b64_bytes [a, b, c] = [char_of (a * 4 + b div 16), char_of (b mod 16 * 16 + c div 4)]"
| "b64_bytes [a, b] = [char_of (a * 4 + b div 16)]"
| "b64_bytes _ = []"

definition base64_bytes :: "string \<Rightarrow> string" where
  "base64_bytes s = b64_bytes (map the (filter (\<lambda>v. v \<noteq> None) (map b64_val s)))"

text \<open>\<open>replace(/=+$/, '')\<close>.\<close>

definition strip_padding :: "string \<Rightarrow> string" where
  "strip_padding s = rev (dropWhile (\<lambda>c. c = CHR ''='') (rev s))"

definition base64UrlEncode :: "string \<Rightarrow> string" where
  "base64UrlEncode buffer =
     strip_padding (map (\<lambda>c. if c = CHR ''/'' then CHR ''_'' else c)
       (map (\<lambda>c. if c = CHR ''+'' then CHR ''-'' else c) (base64 buffer)))"

definition base64UrlDecode :: "string \<Rightarrow> string" where
  "base64UrlDecode s =
     base64_bytes (map (\<lambda>c. if c = CHR ''_'' then CHR ''/'' else c) (map (\<lambda>c. if c = CHR ''-'' then CHR ''+'' else c) s))"

section \<open>Round trips\<close>

text \<open>The value of each character of the alphabet, and none for padding.\<close>

lemma b64_val_char [simp]: "n < 64 \<Longrightarrow> b64_val (b64_char n) = Some n"
proof -
  have "\<forall>n \<in> set [0..<64]. b64_val (b64_char n) = Some n" by code_simp
  then show "n < 64 \<Longrightarrow> b64_val (b64_char n) = Some n" by simp
qed

lemma b64_val_padding [simp]: "b64_val CHR ''='' = None"
  by code_simp

definition url_char :: "char \<Rightarrow> char" where
  "url_char c = (if c = CHR ''/'' then CHR ''_'' else if c = CHR ''+'' then CHR ''-'' else c)"

definition std_char :: "char \<Rightarrow> char" where
  "std_char c = (if c = CHR ''_'' then CHR ''/'' else if c = CHR ''-'' then CHR ''+'' else c)"

lemma url_char_facts:
  "n < 64 \<Longrightarrow> std_char (url_char (b64_char n)) = b64_char n \<and> url_char (b64_char n) \<notin> set ''.=+/;, ''"
proof -
  have "\<forall>n \<in> set [0..<64]. std_char (url_char (b64_char n)) = b64_char n \<and> url_char (b64_char n) \<notin> set ''.=+/;, ''"
    by code_simp
  then show "n < 64 \<Longrightarrow> std_char (url_char (b64_char n)) = b64_char n \<and> url_char (b64_char n) \<notin> set ''.=+/;, ''" by simp
qed

lemma byte_less [simp]: "byte c < 256"
  by (simp add: byte_def)

lemma char_of_byte [simp]: "char_of (byte c) = c"
  by (simp add: byte_def)

text \<open>The values a buffer is spelled with, and what they spell.\<close>

fun b64_digits :: "string \<Rightarrow> nat list" where
  "b64_digits [] = []"
| "b64_digits [a] = [byte a div 4, byte a mod 4 * 16]"
| "b64_digits [a, b] = [byte a div 4, byte a mod 4 * 16 + byte b div 16, byte b mod 16 * 4]"
| "b64_digits (a # b # c # rest) =
     [byte a div 4, byte a mod 4 * 16 + byte b div 16, byte b mod 16 * 4 + byte c div 64, byte c mod 64] @ b64_digits rest"

lemma digit_bounds: "x < 256 \<Longrightarrow> y < 256 \<Longrightarrow> x div 4 < (64 :: nat) \<and> x mod 4 * 16 + y div 16 < 64 \<and> x mod 16 * 4 + y div 64 < 64
    \<and> x mod 4 * 16 < 64 \<and> x mod 16 * 4 < 64 \<and> x mod 64 < 64"
proof -
  assume "x < 256" "y < 256"
  then have "x div 4 < 64" "y div 16 < 16" "y div 64 < 4" by simp_all
  moreover have "x mod 4 < 4" "x mod 16 < 16" "x mod 64 < 64" by simp_all
  ultimately show ?thesis by linarith
qed

lemma b64_digits_less: "n \<in> set (b64_digits s) \<Longrightarrow> n < 64"
proof (induction s rule: b64_digits.induct)
  case (2 a)
  then show ?case using digit_bounds [of "byte a" 0] by auto
next
  case (3 a b)
  then show ?case using digit_bounds [of "byte a" "byte b"] digit_bounds [of "byte b" 0] by auto
next
  case (4 a b c rest)
  then show ?case
    using digit_bounds [of "byte a" "byte b"] digit_bounds [of "byte b" "byte c"] digit_bounds [of "byte c" 0] by auto
qed simp

lemma bytes_of_digits:
  "x < 256 \<Longrightarrow> y < 256 \<Longrightarrow> z < 256 \<Longrightarrow>
     x div 4 * 4 + (x mod 4 * 16 + y div 16) div 16 = (x :: nat)
     \<and> (x mod 4 * 16 + y div 16) mod 16 * 16 + (y mod 16 * 4 + z div 64) div 4 = y
     \<and> (y mod 16 * 4 + z div 64) mod 4 * 64 + z mod 64 = z"
proof -
  assume "x < 256" "y < 256" "z < 256"
  have low: "(m * b + q) div b = m \<and> (m * b + q) mod b = q" if "q < b" for m q b :: nat using that by simp
  have "y div 16 < 16" "z div 64 < 4" using \<open>y < 256\<close> \<open>z < 256\<close> by simp_all
  then have "(x mod 4 * 16 + y div 16) div 16 = x mod 4" "(x mod 4 * 16 + y div 16) mod 16 = y div 16"
    "(y mod 16 * 4 + z div 64) div 4 = y mod 16" "(y mod 16 * 4 + z div 64) mod 4 = z div 64"
    using low by blast+
  then show ?thesis by (simp add: mult.commute)
qed

lemma b64_bytes_digits: "b64_bytes (b64_digits s) = s"
proof (induction s rule: b64_digits.induct)
  case (2 a)
  then show ?case using bytes_of_digits [of "byte a" 0 0] by simp
next
  case (3 a b)
  then show ?case using bytes_of_digits [of "byte a" "byte b" 0] by simp
next
  case (4 a b c rest)
  then show ?case using bytes_of_digits [of "byte a" "byte b" "byte c"] by simp
qed simp

lemma base64_digits: "\<exists>n. base64 s = map b64_char (b64_digits s) @ replicate n CHR ''=''"
proof (induction s rule: base64.induct)
  case (2 a)
  show ?case by (rule exI [where x = 2]) (simp add: numeral_2_eq_2)
next
  case (3 a b)
  show ?case by (rule exI [where x = 1]) simp
qed auto

lemma b64_values: "\<forall>n \<in> set ds. n < 64 \<Longrightarrow> filter (\<lambda>v. v \<noteq> None) (map b64_val (map b64_char ds)) = map Some ds"
  by (induction ds) auto

lemma base64_bytes_padded:
  assumes "\<forall>n \<in> set ds. n < 64"
  shows "base64_bytes (map b64_char ds @ replicate n CHR ''='') = b64_bytes ds"
proof -
  have "filter (\<lambda>v. v \<noteq> None) (map b64_val (replicate n CHR ''='')) = []" by (simp add: filter_empty_conv)
  then have "filter (\<lambda>v. v \<noteq> None) (map b64_val (map b64_char ds @ replicate n CHR ''='')) = map Some ds"
    using b64_values [OF assms] by (simp del: map_map)
  then show ?thesis unfolding base64_bytes_def by simp
qed

theorem base64_roundtrip: "base64_bytes (base64 s) = s"
proof -
  obtain n where "base64 s = map b64_char (b64_digits s) @ replicate n CHR ''=''" using base64_digits by blast
  then show ?thesis using base64_bytes_padded [of "b64_digits s" n] b64_digits_less by (simp add: b64_bytes_digits)
qed

lemma base64UrlEncode_digits: "base64UrlEncode s = map (\<lambda>n. url_char (b64_char n)) (b64_digits s)"
proof -
  obtain n where n: "base64 s = map b64_char (b64_digits s) @ replicate n CHR ''=''" using base64_digits by blast
  have "(\<lambda>c. if c = CHR ''/'' then CHR ''_'' else c) \<circ> (\<lambda>c. if c = CHR ''+'' then CHR ''-'' else c) = url_char"
    by (auto simp: url_char_def fun_eq_iff)
  then have "base64UrlEncode s = strip_padding (map url_char (map b64_char (b64_digits s) @ replicate n CHR ''=''))"
    unfolding base64UrlEncode_def n map_map by simp
  then have "base64UrlEncode s = strip_padding (map (\<lambda>n. url_char (b64_char n)) (b64_digits s) @ replicate n CHR ''='')"
    by (simp add: o_def url_char_def [of "CHR ''=''"])
  moreover have "strip_padding (t @ replicate n CHR ''='') = t" if "CHR ''='' \<notin> set t" for t
  proof -
    have "dropWhile (\<lambda>c. c = CHR ''='') (replicate n CHR ''='' @ rev t) = rev t"
      using that by (induction n) (auto simp: dropWhile_eq_self_iff hd_rev, metis last_in_set)
    then show ?thesis by (simp add: strip_padding_def)
  qed
  moreover have "CHR ''='' \<notin> set (map (\<lambda>n. url_char (b64_char n)) (b64_digits s))"
    using b64_digits_less url_char_facts by fastforce
  ultimately show ?thesis by simp
qed

lemma base64Url_roundtrip [simp]: "base64UrlDecode (base64UrlEncode s) = s"
proof -
  have "base64UrlDecode t = base64_bytes (map std_char t)" for t
  proof -
    have "(\<lambda>c. if c = CHR ''_'' then CHR ''/'' else c) \<circ> (\<lambda>c. if c = CHR ''-'' then CHR ''+'' else c) = std_char"
      by (auto simp: std_char_def fun_eq_iff)
    then show ?thesis by (simp add: base64UrlDecode_def)
  qed
  moreover have "map std_char (base64UrlEncode s) = map b64_char (b64_digits s)"
    using b64_digits_less url_char_facts by (simp add: base64UrlEncode_digits)
  ultimately show ?thesis using base64_bytes_padded [of "b64_digits s" 0] b64_digits_less by (simp add: b64_bytes_digits)
qed

lemma base64Url_no_dot [simp]: "CHR ''.'' \<notin> set (base64UrlEncode s)"
  using b64_digits_less url_char_facts by (fastforce simp: base64UrlEncode_digits)

end
