(* ===== verification/Jwt.thy ===== *)
theory Jwt
  imports Base64 Database
begin

text \<open>
  \<open>apps/api/src/auth/jwt.ts\<close>: signing and verifying a session token, and the two ends of it in
  \<open>token.service.ts\<close>, the claims \<open>mint\<close> puts into an access token and the principal
  \<open>verifyAccessToken\<close> reads back. HMAC-SHA-256 is the parameter \<open>hmac\<close> (key, text), and
  \<open>JSON.stringify\<close> and \<open>JSON.parse\<close> are those of \<^typ>\<open>runtime\<close>. Times are milliseconds.
\<close>

section \<open>Tokens\<close>

datatype jwt_failure = MALFORMED | BAD_ALGORITHM | BAD_SIGNATURE | EXPIRED | NOT_YET_VALID
  | BAD_ISSUER | BAD_AUDIENCE | MISSING_EXPIRY

text \<open>A read of a property of \<open>null\<close> throws \<open>TypeError\<close>, which is no \<open>JwtError\<close>.\<close>

datatype jwt_error = JwtError jwt_failure | JwtTypeError

record crypto =
  cy_runtime :: runtime
  cy_hmac :: "string \<Rightarrow> string \<Rightarrow> string"

definition ALGORITHM :: string where
  "ALGORITHM = ''HS256''"

definition HEADER :: "crypto \<Rightarrow> string" where
  "HEADER cy = base64UrlEncode (rt_stringify (cy_runtime cy) (JObj [(''alg'', JStr ALGORITHM), (''typ'', JStr ''JWT'')]))"

definition sign :: "crypto \<Rightarrow> string \<Rightarrow> string \<Rightarrow> string" where
  "sign cy body secret = base64UrlEncode (cy_hmac cy secret body)"

definition seconds :: "int \<Rightarrow> int" where
  "seconds ms = ms div 1000"

record sign_options =
  so_secret :: string
  so_subject :: string
  so_expiresInSeconds :: int
  so_issuer :: "string option"
  so_audience :: "string option"
  so_now :: int
  so_claims :: "jsval obj"

definition opt_field :: "string \<Rightarrow> string option \<Rightarrow> (string \<times> jsval) list" where
  "opt_field k v = (case v of None \<Rightarrow> [] | Some s \<Rightarrow> [(k, JStr s)])"

definition spread :: "jsval obj \<Rightarrow> (string \<times> jsval) list \<Rightarrow> jsval obj" where
  "spread o1 entries = foldl (\<lambda>acc (k, v). oset k v acc) o1 entries"

definition jwt_payload :: "sign_options \<Rightarrow> jsval obj" where
  "jwt_payload opts =
     (let issuedAt = seconds (so_now opts)
      in spread (so_claims opts)
           ([(''sub'', JStr (so_subject opts)), (''iat'', JNum (of_int issuedAt)),
             (''exp'', JNum (of_int (issuedAt + so_expiresInSeconds opts)))]
            @ opt_field ''iss'' (so_issuer opts) @ opt_field ''aud'' (so_audience opts)))"

definition signJwt :: "crypto \<Rightarrow> sign_options \<Rightarrow> string" where
  "signJwt cy opts =
     (let body = HEADER cy @ ''.'' @ base64UrlEncode (rt_stringify (cy_runtime cy) (JObj (jwt_payload opts)))
      in body @ ''.'' @ sign cy body (so_secret opts))"

record verify_options =
  vo_secret :: string
  vo_issuer :: "string option"
  vo_audience :: "string option"
  vo_now :: int
  vo_tolerance :: int

text \<open>\<open>claims.x !== expected\<close>, for a configured expectation.\<close>

definition claim_differs :: "jsval \<Rightarrow> string \<Rightarrow> string option \<Rightarrow> bool" where
  "claim_differs claims k expected =
     (case expected of None \<Rightarrow> False | Some s \<Rightarrow> js_get claims k \<noteq> Some (JStr s))"

definition check_claims :: "verify_options \<Rightarrow> jsval \<Rightarrow> jwt_error + jsval" where
  "check_claims opts claims =
     (let now = seconds (vo_now opts); tolerance = vo_tolerance opts
      in if claims = JNull then Inl JwtTypeError
         else case js_get claims ''exp'' of
           Some (JNum e) \<Rightarrow>
             if of_int now > e + of_int tolerance then Inl (JwtError EXPIRED)
             else if (case js_get claims ''nbf'' of Some (JNum n) \<Rightarrow> of_int (now + tolerance) < n | _ \<Rightarrow> False)
                  then Inl (JwtError NOT_YET_VALID)
             else if claim_differs claims ''iss'' (vo_issuer opts) then Inl (JwtError BAD_ISSUER)
             else if claim_differs claims ''aud'' (vo_audience opts) then Inl (JwtError BAD_AUDIENCE)
             else (case js_get claims ''sub'' of
                     Some (JStr s) \<Rightarrow> if s = [] then Inl (JwtError MALFORMED) else Inr claims
                   | _ \<Rightarrow> Inl (JwtError MALFORMED))
         | _ \<Rightarrow> Inl (JwtError MISSING_EXPIRY))"

definition verifyJwt :: "crypto \<Rightarrow> string \<Rightarrow> verify_options \<Rightarrow> jwt_error + jsval" where
  "verifyJwt cy token opts =
     (case split_on CHR ''.'' token of
        [encodedHeader, encodedPayload, signature] \<Rightarrow>
          (case rt_parse (cy_runtime cy) (base64UrlDecode encodedHeader) of
             Inl e \<Rightarrow> Inl (JwtError MALFORMED)
           | Inr header \<Rightarrow>
               if header = JNull then Inl JwtTypeError
               else if js_get header ''alg'' \<noteq> Some (JStr ALGORITHM) then Inl (JwtError BAD_ALGORITHM)
               else if signature \<noteq> sign cy (encodedHeader @ ''.'' @ encodedPayload) (vo_secret opts)
                    then Inl (JwtError BAD_SIGNATURE)
               else (case rt_parse (cy_runtime cy) (base64UrlDecode encodedPayload) of
                       Inl e \<Rightarrow> Inl (JwtError MALFORMED)
                     | Inr claims \<Rightarrow> check_claims opts claims))
      | _ \<Rightarrow> Inl (JwtError MALFORMED))"

text \<open>\<open>parseDuration\<close>: digits, white space, one of the letters, between white space.\<close>

definition parseDuration :: "string \<Rightarrow> int option" where
  "parseDuration v =
     (let s = js_trim v; ds = takeWhile is_digit s; unit = dropWhile is_js_space (dropWhile is_digit s)
      in if ds = [] then None
         else case unit of
           [u] \<Rightarrow> map_option (\<lambda>m. digits_val ds * m)
                    (map_of [(CHR ''s'', 1), (CHR ''m'', 60), (CHR ''h'', 3600), (CHR ''d'', 86400)] u)
         | _ \<Rightarrow> None)"

section \<open>Access tokens\<close>

record principal =
  pr_userId :: string
  pr_email :: string
  pr_displayName :: string
  pr_role :: string
  pr_roles :: "string list option"
  pr_authSource :: string
  pr_scopedGroupIds :: "string list option"
  pr_scopedEnvironments :: "string list option"

record token_options =
  to_secret :: string
  to_accessTtl :: int
  to_refreshTtl :: int
  to_issuer :: "string option"
  to_audience :: "string option"

definition opt_list :: "string \<Rightarrow> string list option \<Rightarrow> (string \<times> jsval) list" where
  "opt_list k v = (case v of None \<Rightarrow> [] | Some xs \<Rightarrow> [(k, JArr (map JStr xs))])"

definition principal_claims :: "principal \<Rightarrow> jsval obj" where
  "principal_claims p =
     [(''email'', JStr (pr_email p)), (''name'', JStr (pr_displayName p)), (''role'', JStr (pr_role p)),
      (''src'', JStr (pr_authSource p))]
     @ opt_list ''sgi'' (pr_scopedGroupIds p) @ opt_list ''sev'' (pr_scopedEnvironments p)"

definition access_options :: "token_options \<Rightarrow> int \<Rightarrow> principal \<Rightarrow> sign_options" where
  "access_options opts now p =
     \<lparr> so_secret = to_secret opts, so_subject = pr_userId p, so_expiresInSeconds = to_accessTtl opts,
       so_issuer = to_issuer opts, so_audience = to_audience opts, so_now = now, so_claims = principal_claims p \<rparr>"

text \<open>The elements of an array claim, taken to be strings as the source's cast does.\<close>

fun str_items :: "jsval list \<Rightarrow> string list" where
  "str_items [] = []"
| "str_items (v # vs) = js_string v # str_items vs"

definition list_claim :: "jsval option \<Rightarrow> string list option" where
  "list_claim v = (case v of Some (JArr vs) \<Rightarrow> Some (str_items vs) | _ \<Rightarrow> None)"

definition string_claim :: "jsval option \<Rightarrow> string option" where
  "string_claim v = (case v of Some (JStr s) \<Rightarrow> Some s | _ \<Rightarrow> None)"

definition verifyAccessToken :: "crypto \<Rightarrow> token_options \<Rightarrow> int \<Rightarrow> string \<Rightarrow> jwt_error + principal" where
  "verifyAccessToken cy opts now token =
     bind_err (verifyJwt cy token \<lparr> vo_secret = to_secret opts, vo_issuer = to_issuer opts,
                 vo_audience = to_audience opts, vo_now = now, vo_tolerance = 30 \<rparr>)
       (\<lambda>claims.
          case (string_claim (js_get claims ''role''), string_claim (js_get claims ''email'')) of
            (Some role, Some email) \<Rightarrow>
              Inr \<lparr> pr_userId = js_string (the (js_get claims ''sub'')), pr_email = email,
                    pr_displayName = (case string_claim (js_get claims ''name'') of Some n \<Rightarrow> n | None \<Rightarrow> email),
                    pr_role = role, pr_roles = None,
                    pr_authSource = (case string_claim (js_get claims ''src'') of Some s \<Rightarrow> s | None \<Rightarrow> ''unknown''),
                    pr_scopedGroupIds = list_claim (js_get claims ''sgi''),
                    pr_scopedEnvironments = list_claim (js_get claims ''sev'') \<rparr>
          | _ \<Rightarrow> Inl (JwtError MALFORMED))"

section \<open>Lemmas\<close>

lemma split_three:
  "(split_on c t = [a, b, d]) \<longleftrightarrow> t = a @ c # b @ c # d \<and> c \<notin> set a \<and> c \<notin> set b \<and> c \<notin> set d"
proof
  assume s: "split_on c t = [a, b, d]"
  then have "t = join [c] [a, b, d]" using join_split_on [of c t] by simp
  with s show "t = a @ c # b @ c # d \<and> c \<notin> set a \<and> c \<notin> set b \<and> c \<notin> set d"
    using split_on_pieces [of _ c t] by auto
qed (simp add: split_on_append split_on_single)

lemma sign_no_dot [simp]: "CHR ''.'' \<notin> set (sign cy body secret)"
  by (simp add: sign_def)

lemma verifyJwt_parts:
  assumes "CHR ''.'' \<notin> set h" "CHR ''.'' \<notin> set p" "CHR ''.'' \<notin> set s"
  shows "verifyJwt cy (h @ CHR ''.'' # p @ CHR ''.'' # s) opts =
    (case rt_parse (cy_runtime cy) (base64UrlDecode h) of
       Inl e \<Rightarrow> Inl (JwtError MALFORMED)
     | Inr header \<Rightarrow>
         if header = JNull then Inl JwtTypeError
         else if js_get header ''alg'' \<noteq> Some (JStr ALGORITHM) then Inl (JwtError BAD_ALGORITHM)
         else if s \<noteq> sign cy (h @ ''.'' @ p) (vo_secret opts) then Inl (JwtError BAD_SIGNATURE)
         else (case rt_parse (cy_runtime cy) (base64UrlDecode p) of
                 Inl e \<Rightarrow> Inl (JwtError MALFORMED)
               | Inr claims \<Rightarrow> check_claims opts claims))"
proof -
  have "split_on CHR ''.'' (h @ CHR ''.'' # p @ CHR ''.'' # s) = [h, p, s]" using assms by (simp add: split_three)
  then show ?thesis by (simp add: verifyJwt_def)
qed

lemma verifyJwt_shape:
  assumes "verifyJwt cy token opts = Inr claims"
  shows "\<exists>h p s. token = h @ CHR ''.'' # p @ CHR ''.'' # s \<and> CHR ''.'' \<notin> set h \<and> CHR ''.'' \<notin> set p \<and> CHR ''.'' \<notin> set s"
proof -
  obtain h p s where "split_on CHR ''.'' token = [h, p, s]"
    using assms by (auto simp: verifyJwt_def split: list.splits)
  then show ?thesis by (auto simp: split_three)
qed

lemma check_claims_Inr:
  "check_claims opts claims = Inr c \<longleftrightarrow> c = claims \<and> claims \<noteq> JNull
     \<and> (\<exists>e. js_get claims ''exp'' = Some (JNum e) \<and> of_int (seconds (vo_now opts)) \<le> e + of_int (vo_tolerance opts))
     \<and> (\<nexists>n. js_get claims ''nbf'' = Some (JNum n) \<and> of_int (seconds (vo_now opts) + vo_tolerance opts) < n)
     \<and> \<not> claim_differs claims ''iss'' (vo_issuer opts) \<and> \<not> claim_differs claims ''aud'' (vo_audience opts)
     \<and> (\<exists>s. js_get claims ''sub'' = Some (JStr s) \<and> s \<noteq> [])"
proof -
  have nbf: "(case js_get claims ''nbf'' of Some (JNum n) \<Rightarrow> of_int (now + tol) < n | _ \<Rightarrow> False) \<longleftrightarrow>
      (\<exists>n. js_get claims ''nbf'' = Some (JNum n) \<and> of_int (now + tol) < n)" for now tol :: int
    by (auto split: option.splits jsval.splits)
  show ?thesis unfolding check_claims_def Let_def nbf
    by (auto simp: not_le split: option.splits jsval.splits)
qed

lemma oget_payload:
  "oget (jwt_payload opts) k =
     (if k = ''aud'' \<and> so_audience opts \<noteq> None then map_option JStr (so_audience opts)
      else if k = ''iss'' \<and> so_issuer opts \<noteq> None then map_option JStr (so_issuer opts)
      else if k = ''exp'' then Some (JNum (of_int (seconds (so_now opts) + so_expiresInSeconds opts)))
      else if k = ''iat'' then Some (JNum (of_int (seconds (so_now opts))))
      else if k = ''sub'' then Some (JStr (so_subject opts))
      else oget (so_claims opts) k)"
  by (cases "so_issuer opts"; cases "so_audience opts")
    (simp_all add: jwt_payload_def spread_def foldl_oset_lookup opt_field_def Let_def map_add_def)

text \<open>A value the JSON codec gives back.\<close>

definition json_ok :: "crypto \<Rightarrow> jsval \<Rightarrow> bool" where
  "json_ok cy v \<longleftrightarrow> rt_parse (cy_runtime cy) (rt_stringify (cy_runtime cy) v) = Inr v"

definition jwt_header :: jsval where
  "jwt_header = JObj [(''alg'', JStr ALGORITHM), (''typ'', JStr ''JWT'')]"

lemma verify_signed:
  assumes "json_ok cy jwt_header" "json_ok cy (JObj (jwt_payload opts))" "vo_secret v = so_secret opts"
  shows "verifyJwt cy (signJwt cy opts) v = check_claims v (JObj (jwt_payload opts))"
proof -
  let ?h = "HEADER cy" and ?p = "base64UrlEncode (rt_stringify (cy_runtime cy) (JObj (jwt_payload opts)))"
  have nodot: "CHR ''.'' \<notin> set ?h" by (simp add: HEADER_def)
  have token: "signJwt cy opts = ?h @ CHR ''.'' # ?p @ CHR ''.'' # sign cy (?h @ ''.'' @ ?p) (so_secret opts)"
    by (simp add: signJwt_def Let_def)
  have "rt_parse (cy_runtime cy) (base64UrlDecode ?h) = Inr jwt_header"
    using assms(1) by (simp add: HEADER_def json_ok_def jwt_header_def)
  moreover have "js_get jwt_header ''alg'' = Some (JStr ALGORITHM)" "jwt_header \<noteq> JNull" by (simp_all add: jwt_header_def)
  ultimately show ?thesis
    unfolding token using verifyJwt_parts [OF nodot base64Url_no_dot sign_no_dot] assms(2,3) by (simp add: json_ok_def)
qed

lemma verifyJwt_iff:
  "verifyJwt cy token opts = Inr claims \<longleftrightarrow>
     (\<exists>h p header. token = h @ CHR ''.'' # p @ CHR ''.'' # sign cy (h @ ''.'' @ p) (vo_secret opts)
        \<and> CHR ''.'' \<notin> set h \<and> CHR ''.'' \<notin> set p
        \<and> rt_parse (cy_runtime cy) (base64UrlDecode h) = Inr header \<and> js_get header ''alg'' = Some (JStr ALGORITHM)
        \<and> rt_parse (cy_runtime cy) (base64UrlDecode p) = Inr claims \<and> check_claims opts claims = Inr claims)"
  (is "_ = ?R")
proof
  assume ok: "verifyJwt cy token opts = Inr claims"
  obtain h p s where t: "token = h @ CHR ''.'' # p @ CHR ''.'' # s" "CHR ''.'' \<notin> set h" "CHR ''.'' \<notin> set p" "CHR ''.'' \<notin> set s"
    using verifyJwt_shape [OF ok] by blast
  show ?R using ok t(2,3)
    unfolding t(1) verifyJwt_parts [OF t(2-4)] by (auto simp: check_claims_Inr split: sum.splits if_splits)
next
  assume ?R
  then obtain h p header where t: "token = h @ CHR ''.'' # p @ CHR ''.'' # sign cy (h @ ''.'' @ p) (vo_secret opts)"
      "CHR ''.'' \<notin> set h" "CHR ''.'' \<notin> set p"
    and hd: "rt_parse (cy_runtime cy) (base64UrlDecode h) = Inr header" "js_get header ''alg'' = Some (JStr ALGORITHM)"
    and cl: "rt_parse (cy_runtime cy) (base64UrlDecode p) = Inr claims" "check_claims opts claims = Inr claims"
    by blast
  have "header \<noteq> JNull" using hd(2) by auto
  with hd cl show "verifyJwt cy token opts = Inr claims"
    unfolding t(1) verifyJwt_parts [OF t(2,3) sign_no_dot] by simp
qed

lemma str_items_JStr: "str_items (map JStr xs) = xs"
  by (induction xs) simp_all

lemma session_principal:
  assumes "json_ok cy jwt_header" "json_ok cy (JObj (jwt_payload (access_options opts issued p)))"
    and "pr_userId p \<noteq> []" "seconds now \<le> seconds issued + to_accessTtl opts + 30"
  shows "verifyAccessToken cy opts now (signJwt cy (access_options opts issued p)) = Inr (p \<lparr> pr_roles := None \<rparr>)"
proof -
  let ?o = "access_options opts issued p" and ?claims = "JObj (jwt_payload (access_options opts issued p))"
  let ?v = "\<lparr> vo_secret = to_secret opts, vo_issuer = to_issuer opts, vo_audience = to_audience opts, vo_now = now, vo_tolerance = 30 \<rparr>"
  have get: "js_get ?claims ''email'' = Some (JStr (pr_email p))" "js_get ?claims ''name'' = Some (JStr (pr_displayName p))"
    "js_get ?claims ''role'' = Some (JStr (pr_role p))" "js_get ?claims ''src'' = Some (JStr (pr_authSource p))"
    "js_get ?claims ''sub'' = Some (JStr (pr_userId p))"
    "js_get ?claims ''exp'' = Some (JNum (of_int (seconds issued + to_accessTtl opts)))"
    by (simp_all add: oget_payload access_options_def principal_claims_def)
  have none: "object_proto_get ''sgi'' = None" "object_proto_get ''sev'' = None" "object_proto_get ''nbf'' = None" by code_simp+
  have lists: "list_claim (js_get ?claims ''sgi'') = pr_scopedGroupIds p" "list_claim (js_get ?claims ''sev'') = pr_scopedEnvironments p"
    by (auto simp: oget_payload access_options_def principal_claims_def opt_list_def list_claim_def none str_items_JStr
        split: option.splits)
  have nbf: "js_get ?claims ''nbf'' = None"
    by (simp add: oget_payload access_options_def principal_claims_def opt_list_def none split: option.splits)
  have iss: "claim_differs ?claims ''iss'' (to_issuer opts) = False" "claim_differs ?claims ''aud'' (to_audience opts) = False"
    by (auto simp: claim_differs_def oget_payload access_options_def split: option.splits)
  have "of_int (seconds now) \<le> (of_int (seconds issued + to_accessTtl opts) + of_int 30 :: rat)"
    using assms(4) by (metis of_int_add of_int_le_iff)
  then have "check_claims ?v ?claims = Inr ?claims"
    unfolding check_claims_Inr using assms(3) get nbf iss by simp
  then have "verifyJwt cy (signJwt cy ?o) ?v = Inr ?claims"
    using verify_signed [OF assms(1,2), of ?v] by (simp add: access_options_def)
  then show ?thesis using get lists by (simp add: verifyAccessToken_def string_claim_def)
qed

section \<open>Properties\<close>

text \<open>
  C31. What a token must be to be accepted. \<open>verifyJwt\<close> returns claims exactly for the texts that are
  three parts whose third is the signature of the first two under the configured secret, whose header
  names HS256, whose payload parses to those claims, which have an expiry that has not passed, no
  later start, the configured issuer and audience, and a subject. A text whose signature is wrong gets
  an answer that does not depend on its payload.
\<close>

theorem verifyJwt_accepts_iff:
  "(verifyJwt cy token opts = Inr claims \<longleftrightarrow>
      (\<exists>h p header e s. token = h @ CHR ''.'' # p @ CHR ''.'' # sign cy (h @ ''.'' @ p) (vo_secret opts)
         \<and> CHR ''.'' \<notin> set h \<and> CHR ''.'' \<notin> set p
         \<and> rt_parse (cy_runtime cy) (base64UrlDecode h) = Inr header \<and> js_get header ''alg'' = Some (JStr ALGORITHM)
         \<and> rt_parse (cy_runtime cy) (base64UrlDecode p) = Inr claims
         \<and> js_get claims ''exp'' = Some (JNum e) \<and> of_int (seconds (vo_now opts)) \<le> e + of_int (vo_tolerance opts)
         \<and> (\<nexists>n. js_get claims ''nbf'' = Some (JNum n) \<and> of_int (seconds (vo_now opts) + vo_tolerance opts) < n)
         \<and> \<not> claim_differs claims ''iss'' (vo_issuer opts) \<and> \<not> claim_differs claims ''aud'' (vo_audience opts)
         \<and> js_get claims ''sub'' = Some (JStr s) \<and> s \<noteq> []))
   \<and> (\<nexists>h p q s t. CHR ''.'' \<notin> set (h @ p @ q @ s @ t)
         \<and> s \<noteq> sign cy (h @ ''.'' @ p) (vo_secret opts) \<and> t \<noteq> sign cy (h @ ''.'' @ q) (vo_secret opts)
         \<and> verifyJwt cy (h @ CHR ''.'' # p @ CHR ''.'' # s) opts \<noteq> verifyJwt cy (h @ CHR ''.'' # q @ CHR ''.'' # t) opts)"
proof
  have "claims \<noteq> JNull" if "js_get claims k = Some v" for k v using that by auto
  then show "verifyJwt cy token opts = Inr claims \<longleftrightarrow>
      (\<exists>h p header e s. token = h @ CHR ''.'' # p @ CHR ''.'' # sign cy (h @ ''.'' @ p) (vo_secret opts)
         \<and> CHR ''.'' \<notin> set h \<and> CHR ''.'' \<notin> set p
         \<and> rt_parse (cy_runtime cy) (base64UrlDecode h) = Inr header \<and> js_get header ''alg'' = Some (JStr ALGORITHM)
         \<and> rt_parse (cy_runtime cy) (base64UrlDecode p) = Inr claims
         \<and> js_get claims ''exp'' = Some (JNum e) \<and> of_int (seconds (vo_now opts)) \<le> e + of_int (vo_tolerance opts)
         \<and> (\<nexists>n. js_get claims ''nbf'' = Some (JNum n) \<and> of_int (seconds (vo_now opts) + vo_tolerance opts) < n)
         \<and> \<not> claim_differs claims ''iss'' (vo_issuer opts) \<and> \<not> claim_differs claims ''aud'' (vo_audience opts)
         \<and> js_get claims ''sub'' = Some (JStr s) \<and> s \<noteq> [])"
    unfolding verifyJwt_iff check_claims_Inr by blast
  show "\<nexists>h p q s t. CHR ''.'' \<notin> set (h @ p @ q @ s @ t)
         \<and> s \<noteq> sign cy (h @ ''.'' @ p) (vo_secret opts) \<and> t \<noteq> sign cy (h @ ''.'' @ q) (vo_secret opts)
         \<and> verifyJwt cy (h @ CHR ''.'' # p @ CHR ''.'' # s) opts \<noteq> verifyJwt cy (h @ CHR ''.'' # q @ CHR ''.'' # t) opts"
    by (auto simp: verifyJwt_parts split: sum.splits if_splits)
qed

text \<open>
  C32. A session carries its principal. The principal read back from an access token until its
  lifetime and the 30 seconds of tolerance are over is the one it was minted for, except that its
  list of roles is gone: whatever roles a directory granted, the session holds the primary one.
\<close>

theorem access_token_keeps_principal:
  assumes "json_ok cy jwt_header" "json_ok cy (JObj (jwt_payload (access_options opts issued p)))"
    and "pr_userId p \<noteq> []" "seconds now \<le> seconds issued + to_accessTtl opts + 30"
  shows "verifyAccessToken cy opts now (signJwt cy (access_options opts issued p)) = Inr (p \<lparr> pr_roles := None \<rparr>)"
  by (rule session_principal [OF assms])

definition demo_principal :: principal where
  "demo_principal =
     \<lparr> pr_userId = ''u1'', pr_email = ''ops@example.com'', pr_displayName = ''Ops'', pr_role = ''VIEWER'',
       pr_roles = Some [''VIEWER'', ''patching''], pr_authSource = ''ldap'', pr_scopedGroupIds = None, pr_scopedEnvironments = None \<rparr>"

definition demo_token_options :: token_options where
  "demo_token_options = \<lparr> to_secret = ''key'', to_accessTtl = 900, to_refreshTtl = 86400, to_issuer = None, to_audience = None \<rparr>"

text \<open>A codec that knows the two values a session token is made of.\<close>

definition demo_crypto :: crypto where
  "demo_crypto =
     (let header = jwt_header; claims = JObj (jwt_payload (access_options demo_token_options 0 demo_principal))
      in \<lparr> cy_runtime = \<lparr> rt_regexp = (\<lambda>_. None), rt_localeCompare = cmp_str,
             rt_stringify = (\<lambda>v. if v = header then ''h'' else if v = claims then ''c'' else []),
             rt_parse = (\<lambda>t. if t = ''h'' then Inr header else if t = ''c'' then Inr claims else Inl ''error''),
             rt_sha256 = (\<lambda>t. t) \<rparr>, cy_hmac = (\<lambda>k t. k @ t) \<rparr>)"

theorem access_token_keeps_principal_witness:
  "verifyAccessToken demo_crypto demo_token_options 600000 (signJwt demo_crypto (access_options demo_token_options 0 demo_principal))
     = Inr (demo_principal \<lparr> pr_roles := None \<rparr>)"
proof (rule access_token_keeps_principal)
  show "json_ok demo_crypto jwt_header" by (simp add: json_ok_def demo_crypto_def Let_def)
  show "json_ok demo_crypto (JObj (jwt_payload (access_options demo_token_options 0 demo_principal)))" by code_simp
  show "pr_userId demo_principal \<noteq> []" by (simp add: demo_principal_def)
  show "seconds 600000 \<le> seconds 0 + to_accessTtl demo_token_options + 30" by (simp add: seconds_def demo_token_options_def)
qed

end
