(* ===== verification/Accounts.thy ===== *)
theory Accounts
  imports Jwt
begin

text \<open>
  Local accounts: \<open>apps/api/src/auth/password.ts\<close> (the self-describing scrypt hash),
  \<open>local-auth.provider.ts\<close> (login, lockout, resolving a principal) and the login throttle of
  \<open>core-capabilities.ts\<close>. scrypt and Unicode normalisation are parameters; a \<^const>\<open>None\<close> of
  \<open>kdf_scrypt\<close> is the failure it throws. Times are milliseconds; text is ASCII where it is lower-cased.
\<close>

section \<open>Password hashes\<close>

record kdf =
  kdf_scrypt :: "string \<Rightarrow> string \<Rightarrow> nat \<Rightarrow> int \<times> int \<times> int \<Rightarrow> string option"
  kdf_normalize :: "string \<Rightarrow> string"

definition scrypt_N :: int where "scrypt_N = 32768"
definition scrypt_r :: int where "scrypt_r = 8"
definition scrypt_p :: int where "scrypt_p = 1"
definition keyLength :: nat where "keyLength = 64"

definition PREFIX :: string where "PREFIX = ''scrypt''"

datatype password_error = PasswordFormatError string | KdfError

definition hashPassword :: "kdf \<Rightarrow> string \<Rightarrow> string \<Rightarrow> password_error + string" where
  "hashPassword k salt plaintext =
     (if length plaintext = 0 then Inl (PasswordFormatError ''Refusing to hash an empty password.'')
      else case kdf_scrypt k (kdf_normalize k plaintext) salt keyLength (scrypt_N, scrypt_r, scrypt_p) of
        None \<Rightarrow> Inl KdfError
      | Some derived \<Rightarrow>
          Inr (join ''$'' [PREFIX, int_dec scrypt_N, int_dec scrypt_r, int_dec scrypt_p, base64 salt, base64 derived]))"

record parsed_hash =
  ph_N :: int
  ph_r :: int
  ph_p :: int
  ph_salt :: string
  ph_hash :: string

text \<open>\<open>Number(part)\<close> when it is a positive integer.\<close>

definition positive_integer :: "string \<Rightarrow> int option" where
  "positive_integer s =
     (case parse_number s of None \<Rightarrow> None
      | Some q \<Rightarrow> if of_int \<lfloor>q\<rfloor> = q \<and> \<lfloor>q\<rfloor> > 0 then Some \<lfloor>q\<rfloor> else None)"

definition parseHash :: "string \<Rightarrow> password_error + parsed_hash" where
  "parseHash stored =
     (case split_on CHR ''$'' stored of
        [prefix, n, r, p, salt, hash] \<Rightarrow>
          if prefix \<noteq> PREFIX then Inl (PasswordFormatError ''Unrecognised password hash format.'')
          else (case (positive_integer n, positive_integer r, positive_integer p) of
             (Some n, Some r, Some p) \<Rightarrow>
               if n > 1048576 \<or> r > 32 \<or> p > 16
               then Inl (PasswordFormatError ''Password hash names implausible scrypt parameters.'')
               else if length (base64_bytes salt) = 0 \<or> length (base64_bytes hash) = 0
               then Inl (PasswordFormatError ''Password hash has an empty salt or digest.'')
               else Inr \<lparr> ph_N = n, ph_r = r, ph_p = p, ph_salt = base64_bytes salt, ph_hash = base64_bytes hash \<rparr>
           | _ \<Rightarrow> Inl (PasswordFormatError ''Password hash has invalid scrypt parameters.''))
      | _ \<Rightarrow> Inl (PasswordFormatError ''Unrecognised password hash format.''))"

definition verifyPassword :: "kdf \<Rightarrow> string \<Rightarrow> string \<Rightarrow> bool" where
  "verifyPassword k plaintext stored =
     (case parseHash stored of
        Inl e \<Rightarrow> False
      | Inr parsed \<Rightarrow>
          (case kdf_scrypt k (kdf_normalize k plaintext) (ph_salt parsed) (length (ph_hash parsed))
                  (ph_N parsed, ph_r parsed, ph_p parsed) of
             None \<Rightarrow> False
           | Some derived \<Rightarrow> length derived = length (ph_hash parsed) \<and> derived = ph_hash parsed))"

definition needsRehash :: "string \<Rightarrow> bool" where
  "needsRehash stored =
     (case parseHash stored of
        Inl e \<Rightarrow> True
      | Inr parsed \<Rightarrow> ph_N parsed < scrypt_N \<or> ph_r parsed < scrypt_r \<or> ph_p parsed < scrypt_p)"

section \<open>Accounts\<close>

record user_row =
  us_id :: string
  us_email :: string
  us_displayName :: string
  us_passwordHash :: "string option"
  us_role :: string
  us_roleId :: string
  us_isActive :: bool
  us_authSource :: string
  us_directoryId :: "string option"
  us_lastLoginAt :: "int option"
  us_failedLoginAttempts :: nat
  us_lockedUntil :: "int option"

record lockout_policy =
  lp_maxFailedAttempts :: nat
  lp_lockoutMinutes :: int

datatype auth_failure = INVALID_CREDENTIALS | ACCOUNT_DISABLED | PROVIDER_ERROR

definition normalizeEmail :: "string \<Rightarrow> string" where
  "normalizeEmail email = to_lower (js_trim email)"

definition toPrincipal :: "user_row \<Rightarrow> principal" where
  "toPrincipal user =
     \<lparr> pr_userId = us_id user, pr_email = us_email user, pr_displayName = us_displayName user,
       pr_role = us_role user, pr_roles = None, pr_authSource = us_authSource user,
       pr_scopedGroupIds = None, pr_scopedEnvironments = None \<rparr>"

definition isLocked :: "user_row \<Rightarrow> int \<Rightarrow> bool" where
  "isLocked user now = (case us_lockedUntil user of None \<Rightarrow> False | Some t \<Rightarrow> t > now)"

definition nextAttemptCount :: "int \<Rightarrow> user_row \<Rightarrow> nat" where
  "nextAttemptCount now user =
     (let lockExpired = (case us_lockedUntil user of None \<Rightarrow> False | Some t \<Rightarrow> t \<le> now)
      in if lockExpired then 1 else us_failedLoginAttempts user + 1)"

definition update_user :: "string \<Rightarrow> (user_row \<Rightarrow> user_row) \<Rightarrow> user_row list \<Rightarrow> user_row list" where
  "update_user i f users = map (\<lambda>u. if us_id u = i then f u else u) users"

definition recordLoginFailure :: "lockout_policy \<Rightarrow> int \<Rightarrow> user_row \<Rightarrow> user_row list \<Rightarrow> user_row list" where
  "recordLoginFailure lp now user users =
     (if lp_maxFailedAttempts lp = 0 then users
      else
        let attempts = (if isLocked user now then us_failedLoginAttempts user + 1 else nextAttemptCount now user);
            locked = (attempts \<ge> lp_maxFailedAttempts lp)
        in update_user (us_id user)
             (\<lambda>u. u \<lparr> us_failedLoginAttempts := (if locked then 0 else attempts),
                      us_lockedUntil := (if locked then Some (now + lp_lockoutMinutes lp * 60000) else us_lockedUntil user) \<rparr>) users)"

text \<open>\<open>salt\<close> is what the random source yields should the hash be upgraded.\<close>

definition authenticate ::
  "kdf \<Rightarrow> lockout_policy \<Rightarrow> int \<Rightarrow> string \<Rightarrow> string \<Rightarrow> string \<Rightarrow> user_row list
   \<Rightarrow> (auth_failure + principal) \<times> user_row list" where
  "authenticate k lp now salt email0 password users =
     (case find_unique (\<lambda>u. us_email u = normalizeEmail email0) users of
        None \<Rightarrow> (Inl INVALID_CREDENTIALS, users)
      | Some user \<Rightarrow>
          (case us_passwordHash user of
             None \<Rightarrow> (Inl INVALID_CREDENTIALS, users)
           | Some hash \<Rightarrow>
               if isLocked user now then (Inl INVALID_CREDENTIALS, users)
               else if \<not> verifyPassword k password hash
                    then (Inl INVALID_CREDENTIALS, recordLoginFailure lp now user users)
               else if \<not> us_isActive user then (Inl ACCOUNT_DISABLED, users)
               else
                 let rehashed = (if needsRehash hash
                       then (case hashPassword k salt password of
                               Inl e \<Rightarrow> users
                             | Inr upgraded \<Rightarrow> update_user (us_id user) (\<lambda>u. u \<lparr> us_passwordHash := Some upgraded \<rparr>) users)
                       else users)
                 in (Inr (toPrincipal user),
                     update_user (us_id user)
                       (\<lambda>u. u \<lparr> us_lastLoginAt := Some now, us_failedLoginAttempts := 0, us_lockedUntil := None \<rparr>) rehashed)))"

definition resolve_local :: "user_row list \<Rightarrow> string \<Rightarrow> principal option" where
  "resolve_local users i =
     (case find_unique (\<lambda>u. us_id u = i) users of
        None \<Rightarrow> None
      | Some user \<Rightarrow> if us_isActive user then Some (toPrincipal user) else None)"

section \<open>The login throttle\<close>

record limiter_entry =
  le_count :: nat
  le_resetAt :: int

record limiter =
  li_maxAttempts :: nat
  li_windowMs :: int
  li_attempts :: "(string \<times> limiter_entry) list"

definition sweep :: "int \<Rightarrow> limiter \<Rightarrow> limiter" where
  "sweep now l =
     (if length (li_attempts l) < 10000 then l
      else l \<lparr> li_attempts := filter (\<lambda>(_, e). \<not> now \<ge> le_resetAt e) (li_attempts l) \<rparr>)"

definition consume :: "string \<Rightarrow> int \<Rightarrow> limiter \<Rightarrow> bool \<times> limiter" where
  "consume key now l0 =
     (let l = sweep now l0;
          set_entry = (\<lambda>e. l \<lparr> li_attempts :=
             upsert (\<lambda>x. fst x = key) (key, e) (\<lambda>_. (key, e)) (li_attempts l) \<rparr>);
          fresh = (True, set_entry \<lparr> le_count = 1, le_resetAt = now + li_windowMs l \<rparr>)
      in case map_of (li_attempts l) key of
           None \<Rightarrow> fresh
         | Some e \<Rightarrow>
             if now \<ge> le_resetAt e then fresh
             else if le_count e \<ge> li_maxAttempts l then (False, l)
             else (True, set_entry (e \<lparr> le_count := le_count e + 1 \<rparr>)))"

definition reset :: "string \<Rightarrow> limiter \<Rightarrow> limiter" where
  "reset key l = l \<lparr> li_attempts := filter (\<lambda>x. fst x \<noteq> key) (li_attempts l) \<rparr>"

section \<open>Lemmas\<close>

lemma base64_no_dollar: "CHR ''$'' \<notin> set (base64 s)"
proof -
  obtain n where "base64 s = map b64_char (b64_digits s) @ replicate n CHR ''=''" using base64_digits by blast
  moreover have "\<forall>n \<in> set [0..<64]. b64_char n \<noteq> CHR ''$''" by code_simp
  ultimately show ?thesis using b64_digits_less by fastforce
qed

text \<open>Reading back the three cost parameters.\<close>

lemma to_double_exact:
  assumes "rat_log 2 pow2 x = e" "0 < x" "pow2 (e - 52) * of_int m = x" "- 1074 < e - 52" "x < 2 ^ 1000"
  shows "to_double x = Some x"
proof -
  have "pow2 (e - 52) > 0" by (simp add: pow2_def)
  then have q: "x / pow2 (e - 52) = of_int m" using assms(3) by (simp add: field_simps)
  have "round_half_even (of_int m) = m" by (simp add: round_half_even_def Let_def)
  moreover have "(2 :: rat) ^ 1000 < 2 ^ 1024" by (rule power_strict_increasing) simp_all
  then have "x < 2 ^ 1024" using assms(5) by linarith
  moreover have "max (e - 52) (- 1074) = e - 52" using assms(4) by simp
  ultimately show ?thesis
    using assms q by (simp add: to_double_def Let_def mult.commute)
qed

lemma param_logs: "rat_log 2 pow2 32768 = 15" "rat_log 2 pow2 8 = 3" "rat_log 2 pow2 1 = 0"
  by code_simp+

lemma param_mantissas:
  "pow2 (15 - 52) * of_int (2 ^ 52) = 32768" "pow2 (3 - 52) * of_int (2 ^ 52) = 8" "pow2 (0 - 52) * of_int (2 ^ 52) = 1"
  by (simp_all add: pow2_def)

lemma param_doubles: "to_double 32768 = Some 32768" "to_double 8 = Some 8" "to_double 1 = Some 1"
  using to_double_exact [OF param_logs(1) _ param_mantissas(1)] to_double_exact [OF param_logs(2) _ param_mantissas(2)]
    to_double_exact [OF param_logs(3) _ param_mantissas(3)] by simp_all

lemma param_texts:
  "int_dec scrypt_N = ''32768''" "int_dec scrypt_r = ''8''" "int_dec scrypt_p = ''1''"
  "js_trim ''32768'' = ''32768''" "js_trim ''8'' = ''8''" "js_trim ''1'' = ''1''"
  "parse_unsigned ''32768'' = Some 32768" "parse_unsigned ''8'' = Some 8" "parse_unsigned ''1'' = Some 1"
  by code_simp+

lemma scrypt_params_text:
  "positive_integer (int_dec scrypt_N) = Some scrypt_N" "positive_integer (int_dec scrypt_r) = Some scrypt_r"
  "positive_integer (int_dec scrypt_p) = Some scrypt_p"
  "CHR ''$'' \<notin> set (PREFIX @ int_dec scrypt_N @ int_dec scrypt_r @ int_dec scrypt_p)"
  unfolding param_texts(1-3) unfolding PREFIX_def scrypt_N_def scrypt_r_def scrypt_p_def
  by (simp_all add: positive_integer_def parse_number_def param_texts(4-) param_doubles)

lemma parseHash_hashPassword:
  assumes "hashPassword k salt plaintext = Inr stored" "salt \<noteq> []"
    and "kdf_scrypt k (kdf_normalize k plaintext) salt keyLength (scrypt_N, scrypt_r, scrypt_p) = Some derived" "derived \<noteq> []"
  shows "parseHash stored = Inr \<lparr> ph_N = scrypt_N, ph_r = scrypt_r, ph_p = scrypt_p, ph_salt = salt, ph_hash = derived \<rparr>"
proof -
  have stored: "stored = join [CHR ''$''] [PREFIX, int_dec scrypt_N, int_dec scrypt_r, int_dec scrypt_p, base64 salt, base64 derived]"
    using assms(1,3) by (simp add: hashPassword_def split: if_splits)
  have "split_on CHR ''$'' stored = [PREFIX, int_dec scrypt_N, int_dec scrypt_r, int_dec scrypt_p, base64 salt, base64 derived]"
    unfolding stored using scrypt_params_text(4) base64_no_dollar by (intro split_on_join) auto
  moreover have "\<not> (scrypt_N > 1048576 \<or> scrypt_r > 32 \<or> scrypt_p > 16)" by (simp add: scrypt_N_def scrypt_r_def scrypt_p_def)
  ultimately show ?thesis using assms(2,4) by (simp add: parseHash_def scrypt_params_text base64_roundtrip)
qed

lemma find_unique_map_keeps:
  "(\<And>x. P (g x) = P x) \<Longrightarrow> find_unique P (map g xs) = map_option g (find_unique P xs)"
  by (induction xs) auto

lemma find_update_user:
  assumes "\<And>u. us_email (f u) = us_email u" "find_unique (\<lambda>u. us_email u = e) users = Some u" "us_id u = i"
  shows "find_unique (\<lambda>u. us_email u = e) (update_user i f users) = Some (f u)"
  using assms find_unique_map_keeps [of "\<lambda>u. us_email u = e" "\<lambda>u. if us_id u = i then f u else u" users]
  by (simp add: update_user_def)

text \<open>The account after one more wrong password.\<close>

definition failed_row :: "lockout_policy \<Rightarrow> int \<Rightarrow> user_row \<Rightarrow> user_row" where
  "failed_row lp now u =
     (let n = (case us_lockedUntil u of None \<Rightarrow> us_failedLoginAttempts u + 1 | Some t \<Rightarrow> 1)
      in if n \<ge> lp_maxFailedAttempts lp
         then u \<lparr> us_failedLoginAttempts := 0, us_lockedUntil := Some (now + lp_lockoutMinutes lp * 60000) \<rparr>
         else u \<lparr> us_failedLoginAttempts := n \<rparr>)"

definition account :: "string \<Rightarrow> user_row list \<Rightarrow> user_row option" where
  "account email0 users = find_unique (\<lambda>u. us_email u = normalizeEmail email0) users"

lemma wrong_password:
  assumes "account e users = Some u" "us_passwordHash u = Some hash" "\<not> verifyPassword k pw hash"
    and "\<not> isLocked u now" "lp_maxFailedAttempts lp > 0"
  shows "fst (authenticate k lp now salt e pw users) = Inl INVALID_CREDENTIALS
    \<and> account e (snd (authenticate k lp now salt e pw users)) = Some (failed_row lp now u)"
proof -
  have attempts: "(if isLocked u now then us_failedLoginAttempts u + 1 else nextAttemptCount now u) =
      (case us_lockedUntil u of None \<Rightarrow> us_failedLoginAttempts u + 1 | Some t \<Rightarrow> 1)"
    using assms(4) by (auto simp: isLocked_def nextAttemptCount_def Let_def split: option.splits)
  let ?f = "\<lambda>v. v \<lparr> us_failedLoginAttempts := us_failedLoginAttempts (failed_row lp now u),
      us_lockedUntil := us_lockedUntil (failed_row lp now u) \<rparr>"
  have "snd (authenticate k lp now salt e pw users) = update_user (us_id u) ?f users"
    using assms attempts by (auto simp: authenticate_def account_def recordLoginFailure_def failed_row_def Let_def)
  moreover have "?f u = failed_row lp now u" by (simp add: failed_row_def Let_def)
  ultimately show ?thesis
    using assms find_update_user [of ?f "normalizeEmail e" users u] by (simp add: authenticate_def account_def)
qed

text \<open>Wrong passwords one after the other, each at its time.\<close>

definition fail_attempts ::
  "kdf \<Rightarrow> lockout_policy \<Rightarrow> string \<Rightarrow> string \<Rightarrow> (int \<times> string) list \<Rightarrow> user_row list \<Rightarrow> user_row list" where
  "fail_attempts k lp salt e attempts users =
     foldl (\<lambda>users (now, pw). snd (authenticate k lp now salt e pw users)) users attempts"

lemma failed_row_sel [simp]:
  "us_passwordHash (failed_row lp now u) = us_passwordHash u" "us_isActive (failed_row lp now u) = us_isActive u"
  by (simp_all add: failed_row_def Let_def)

lemma attempts_below_limit:
  assumes "account e users = Some u" "us_passwordHash u = Some hash" "\<forall>(now, pw) \<in> set attempts. \<not> verifyPassword k pw hash"
    and "us_lockedUntil u = None" "us_failedLoginAttempts u + length attempts < lp_maxFailedAttempts lp"
  shows "account e (fail_attempts k lp salt e attempts users) =
    Some (u \<lparr> us_failedLoginAttempts := us_failedLoginAttempts u + length attempts \<rparr>)"
  using assms
proof (induction attempts arbitrary: users u)
  case Nil
  then show ?case by (simp add: fail_attempts_def)
next
  case (Cons a attempts)
  obtain now pw where a: "a = (now, pw)" by (cases a)
  let ?users = "snd (authenticate k lp now salt e pw users)" and ?u = "u \<lparr> us_failedLoginAttempts := us_failedLoginAttempts u + 1 \<rparr>"
  have row: "failed_row lp now u = ?u" using Cons.prems(4,5) by (simp add: failed_row_def)
  have "\<not> isLocked u now" "lp_maxFailedAttempts lp > 0" using Cons.prems(4,5) by (simp_all add: isLocked_def)
  with wrong_password [OF Cons.prems(1,2), of k pw now lp salt] Cons.prems(3) a row
  have "account e ?users = Some ?u" by simp
  with Cons.IH [of ?users ?u] Cons.prems a show ?case by (simp add: fail_attempts_def)
qed

lemma locked_refuses:
  assumes "account e users = Some u" "isLocked u now"
  shows "authenticate k lp now salt e pw users = (Inl INVALID_CREDENTIALS, users)"
  using assms by (simp add: authenticate_def account_def split: option.split)

section \<open>Properties\<close>

text \<open>
  A password verifies against its own hash, with the parameters the hash names, and no other
  password does unless scrypt maps it to the same key; a fresh hash needs no upgrade. The empty
  password is never hashed.
\<close>

theorem password_roundtrip:
  assumes "plaintext \<noteq> []" "salt \<noteq> []"
    and "kdf_scrypt k (kdf_normalize k plaintext) salt keyLength (scrypt_N, scrypt_r, scrypt_p) = Some derived"
    and "length derived = keyLength"
  shows "hashPassword k salt [] = Inl (PasswordFormatError ''Refusing to hash an empty password.'')
    \<and> (\<exists>stored. hashPassword k salt plaintext = Inr stored \<and> verifyPassword k plaintext stored \<and> \<not> needsRehash stored
        \<and> (\<forall>pw. verifyPassword k pw stored \<longleftrightarrow>
              kdf_scrypt k (kdf_normalize k pw) salt keyLength (scrypt_N, scrypt_r, scrypt_p) = Some derived))"
proof -
  obtain stored where h: "hashPassword k salt plaintext = Inr stored"
    using assms(1,3) by (simp add: hashPassword_def)
  have "derived \<noteq> []" using assms(4) by (auto simp: keyLength_def)
  note parsed = parseHash_hashPassword [OF h assms(2,3) this]
  have "\<forall>pw. verifyPassword k pw stored \<longleftrightarrow>
      kdf_scrypt k (kdf_normalize k pw) salt keyLength (scrypt_N, scrypt_r, scrypt_p) = Some derived"
    using assms(4) by (auto simp: verifyPassword_def parsed split: option.split)
  with assms(3) h show ?thesis by (simp add: needsRehash_def parsed hashPassword_def [of k salt "[]"])
qed

text \<open>
  C30. Lockout bites. Starting from a clean account, fewer wrong passwords in a row than the limit
  leave it open and counted; the one that reaches the limit locks it until the configured time after
  it, and before that time every login is refused, the right password included, and changes nothing.
\<close>

theorem lockout_after_limit:
  assumes "account e users = Some u" "us_passwordHash u = Some hash"
    and "us_lockedUntil u = None" "us_failedLoginAttempts u = 0"
    and "\<forall>(now, pw) \<in> set (attempts @ [(t, last_pw)]). \<not> verifyPassword k pw hash"
    and "lp_maxFailedAttempts lp = Suc (length attempts)"
    and "before = fail_attempts k lp salt e attempts users" "after = fail_attempts k lp salt e (attempts @ [(t, last_pw)]) users"
  shows "account e before = Some (u \<lparr> us_failedLoginAttempts := length attempts \<rparr>)
    \<and> account e after = Some (u \<lparr> us_lockedUntil := Some (t + lp_lockoutMinutes lp * 60000) \<rparr>)
    \<and> (\<forall>now < t + lp_lockoutMinutes lp * 60000. \<forall>pw.
         authenticate k lp now salt e pw after = (Inl INVALID_CREDENTIALS, after))"
proof -
  let ?u = "u \<lparr> us_failedLoginAttempts := length attempts \<rparr>" and ?until = "t + lp_lockoutMinutes lp * 60000"
  have before: "account e before = Some ?u"
    using attempts_below_limit [OF assms(1,2) _ assms(3), of attempts k lp salt] assms(4-7) by auto
  have "after = snd (authenticate k lp t salt e last_pw before)"
    by (simp add: assms(7,8) fail_attempts_def)
  moreover have "\<not> isLocked ?u t" "us_passwordHash ?u = Some hash" "\<not> verifyPassword k last_pw hash" "lp_maxFailedAttempts lp > 0"
    using assms by (simp_all add: isLocked_def)
  ultimately have "account e after = Some (failed_row lp t ?u)"
    using wrong_password [OF before, of hash k last_pw t lp salt] by simp
  also have "failed_row lp t ?u = u \<lparr> us_lockedUntil := Some ?until \<rparr>"
    using assms(3,4,6) by (cases u) (simp add: failed_row_def)
  finally have after: "account e after = Some (u \<lparr> us_lockedUntil := Some ?until \<rparr>)" .
  moreover have "authenticate k lp now salt e pw after = (Inl INVALID_CREDENTIALS, after)" if "now < ?until" for now pw
    by (rule locked_refuses [OF after]) (use that in \<open>simp add: isLocked_def\<close>)
  ultimately show ?thesis using before by blast
qed

text \<open>
  Lockout bites once. After a lock has run out and before the next successful login, no number of
  wrong passwords locks the account again when the limit is two or more: the expired lock stays on
  the row, so every failure counts as the first, and a right password is accepted after any number.
\<close>

theorem lockout_not_rearmed:
  assumes "account e users = Some u" "us_passwordHash u = Some hash" "us_lockedUntil u = Some t"
    and "2 \<le> lp_maxFailedAttempts lp" "\<forall>(now, pw) \<in> set attempts. t \<le> now \<and> \<not> verifyPassword k pw hash"
  shows "\<exists>v. account e (fail_attempts k lp salt e attempts users) = Some v
    \<and> us_passwordHash v = Some hash \<and> us_isActive v = us_isActive u \<and> us_lockedUntil v = Some t
    \<and> us_failedLoginAttempts v \<le> max 1 (us_failedLoginAttempts u)
    \<and> (\<forall>now \<ge> t. \<not> isLocked v now)"
  using assms
proof (induction attempts arbitrary: users u)
  case Nil
  then show ?case by (auto simp: fail_attempts_def isLocked_def)
next
  case (Cons a attempts)
  obtain now pw where a: "a = (now, pw)" by (cases a)
  let ?users = "snd (authenticate k lp now salt e pw users)"
  have row: "failed_row lp now u = u \<lparr> us_failedLoginAttempts := 1 \<rparr>"
    using Cons.prems(3,4) by (simp add: failed_row_def)
  have "\<not> isLocked u now" "lp_maxFailedAttempts lp > 0" using Cons.prems(3-5) a by (auto simp: isLocked_def)
  with wrong_password [OF Cons.prems(1,2), of k pw now lp salt] Cons.prems(5) a row
  have "account e ?users = Some (u \<lparr> us_failedLoginAttempts := 1 \<rparr>)" by simp
  from Cons.IH [OF this] Cons.prems(2-5) a show ?case by (force simp: fail_attempts_def)
qed

section \<open>Witnesses\<close>

text \<open>A key derivation for demonstration: the key repeats the password's first letter.\<close>

definition demo_kdf :: kdf where
  "demo_kdf = \<lparr> kdf_scrypt = (\<lambda>pw salt len _. Some (replicate len (hd pw))), kdf_normalize = (\<lambda>pw. pw) \<rparr>"

theorem password_roundtrip_witness:
  "\<exists>stored. hashPassword demo_kdf ''salt'' ''secret'' = Inr stored \<and> verifyPassword demo_kdf ''secret'' stored"
proof -
  have "kdf_scrypt demo_kdf (kdf_normalize demo_kdf ''secret'') ''salt'' keyLength (scrypt_N, scrypt_r, scrypt_p) = Some (replicate keyLength CHR ''s'')"
    by (simp add: demo_kdf_def)
  from password_roundtrip [OF _ _ this] show ?thesis by auto
qed

definition demo_user :: "int option \<Rightarrow> user_row" where
  "demo_user lock =
     \<lparr> us_id = ''u1'', us_email = ''ops@example.com'', us_displayName = ''Ops'', us_passwordHash = Some ''none'',
       us_role = ''ADMIN'', us_roleId = ''r1'', us_isActive = True, us_authSource = ''local'', us_directoryId = None,
       us_lastLoginAt = None, us_failedLoginAttempts = 0, us_lockedUntil = lock \<rparr>"

definition demo_lockout :: lockout_policy where
  "demo_lockout = \<lparr> lp_maxFailedAttempts = 2, lp_lockoutMinutes = 15 \<rparr>"

lemma demo_account: "account ''Ops@Example.com '' [demo_user lock] = Some (demo_user lock)"
proof -
  have "normalizeEmail ''Ops@Example.com '' = ''ops@example.com''" by code_simp
  then show ?thesis by (simp add: account_def demo_user_def)
qed

lemma demo_unverifiable: "\<not> verifyPassword demo_kdf pw ''none''"
proof -
  have "parseHash ''none'' = Inl (PasswordFormatError ''Unrecognised password hash format.'')"
    by (simp add: parseHash_def)
  then show ?thesis by (simp add: verifyPassword_def)
qed

theorem lockout_after_limit_witness:
  "authenticate demo_kdf demo_lockout 5000 ''salt'' ''Ops@Example.com '' ''c''
       (fail_attempts demo_kdf demo_lockout ''salt'' ''Ops@Example.com '' ([(1, ''a'')] @ [(2, ''b'')]) [demo_user None])
     = (Inl INVALID_CREDENTIALS, fail_attempts demo_kdf demo_lockout ''salt'' ''Ops@Example.com '' ([(1, ''a'')] @ [(2, ''b'')]) [demo_user None])"
proof -
  have "us_passwordHash (demo_user None) = Some ''none''" "us_lockedUntil (demo_user None) = None" "us_failedLoginAttempts (demo_user None) = 0"
    by (simp_all add: demo_user_def)
  moreover have "\<forall>(now, pw) \<in> set ([(1 :: int, ''a'')] @ [(2, ''b'')]). \<not> verifyPassword demo_kdf pw ''none''"
    using demo_unverifiable by simp
  moreover have "lp_maxFailedAttempts demo_lockout = Suc (length [(1 :: int, ''a'')])" by (simp add: demo_lockout_def)
  ultimately show ?thesis
    using lockout_after_limit [OF demo_account, of None "''none''" "[(1, ''a'')]" 2 "''b''" demo_kdf demo_lockout _ "''salt''"]
    by (simp add: demo_lockout_def)
qed

theorem lockout_not_rearmed_witness:
  "\<exists>v. account ''Ops@Example.com '' (fail_attempts demo_kdf demo_lockout ''salt'' ''Ops@Example.com ''
        [(10, ''a''), (11, ''b''), (12, ''c''), (13, ''d'')] [demo_user (Some 9)]) = Some v \<and> \<not> isLocked v 14"
proof -
  have u: "us_passwordHash (demo_user (Some 9)) = Some ''none''" "us_lockedUntil (demo_user (Some 9)) = Some 9"
    "2 \<le> lp_maxFailedAttempts demo_lockout" by (simp_all add: demo_user_def demo_lockout_def)
  have "\<forall>(now, pw) \<in> set [(10 :: int, ''a''), (11, ''b''), (12, ''c''), (13, ''d'')]. 9 \<le> now \<and> \<not> verifyPassword demo_kdf pw ''none''"
    using demo_unverifiable by simp
  note still_open = lockout_not_rearmed [OF demo_account u this, of "''salt''"]
  have open_at: "(\<exists>v. A v \<and> B v \<and> C v \<and> D v \<and> E v \<and> (\<forall>now \<ge> (9 :: int). L v now)) \<Longrightarrow> \<exists>v. A v \<and> L v 14" for A B C D E L
    by force
  show ?thesis by (rule open_at [OF still_open])
qed

end
