(* ===== verification/Sessions.thy ===== *)
theory Sessions
  imports Accounts
begin

text \<open>
  \<open>apps/api/src/auth/token.service.ts\<close>: refresh tokens, their rotation families and the end of a
  session. The table is the list of its rows. What the random source yields for a new row (its key and
  the opaque token) is a \<open>draw\<close>; SHA-256 is \<open>rt_sha256\<close> of the runtime. A rotation reads the record and
  resolves its account before it opens its transaction; the two halves are \<open>rotate_read\<close> and
  \<open>rotate_commit\<close>. Who an account is comes from \<open>resolve\<close>, whose contract is the locale
  \<open>principal_source\<close>; the local provider meets it.
\<close>

section \<open>Rows\<close>

record refresh_row =
  rf_id :: string
  rf_userId :: string
  rf_tokenHash :: string
  rf_familyId :: string
  rf_expiresAt :: int
  rf_consumedAt :: "int option"
  rf_revokedAt :: "int option"
  rf_userAgent :: "string option"
  rf_ipAddress :: "string option"

record session_context =
  sc_ipAddress :: "string option"
  sc_userAgent :: "string option"

record draw =
  dw_rowId :: string
  dw_refreshToken :: string

record session_tokens =
  st_accessToken :: string
  st_refreshToken :: string
  st_accessExpiresAt :: int
  st_refreshExpiresAt :: int

datatype refresh_reason = UNKNOWN | REFRESH_EXPIRED | REVOKED | REUSED | PRINCIPAL_GONE

text \<open>A write to a row that is gone fails the request.\<close>

datatype refresh_failure = RefreshTokenError refresh_reason | RecordNotFound

definition hashToken :: "crypto \<Rightarrow> string \<Rightarrow> string" where
  "hashToken cy token = rt_sha256 (cy_runtime cy) token"

definition find_token :: "crypto \<Rightarrow> string \<Rightarrow> refresh_row list \<Rightarrow> refresh_row option" where
  "find_token cy presented rows = find_unique (\<lambda>r. rf_tokenHash r = hashToken cy presented) rows"

section \<open>Operations\<close>

definition mint ::
  "crypto \<Rightarrow> token_options \<Rightarrow> int \<Rightarrow> principal \<Rightarrow> string \<Rightarrow> session_context \<Rightarrow> draw \<Rightarrow> refresh_row list
   \<Rightarrow> session_tokens \<times> refresh_row list" where
  "mint cy opts now p familyId ctx d rows =
     (let accessToken = signJwt cy (access_options opts now p);
          refreshToken = dw_refreshToken d;
          refreshExpiresAt = now + to_refreshTtl opts * 1000;
          row = \<lparr> rf_id = dw_rowId d, rf_userId = pr_userId p, rf_tokenHash = hashToken cy refreshToken,
                  rf_familyId = familyId, rf_expiresAt = refreshExpiresAt, rf_consumedAt = None, rf_revokedAt = None,
                  rf_userAgent = sc_userAgent ctx, rf_ipAddress = sc_ipAddress ctx \<rparr>
      in (\<lparr> st_accessToken = accessToken, st_refreshToken = refreshToken,
            st_accessExpiresAt = now + to_accessTtl opts * 1000, st_refreshExpiresAt = refreshExpiresAt \<rparr>,
          rows @ [row]))"

definition issue ::
  "crypto \<Rightarrow> token_options \<Rightarrow> int \<Rightarrow> principal \<Rightarrow> string \<Rightarrow> session_context \<Rightarrow> draw \<Rightarrow> refresh_row list
   \<Rightarrow> session_tokens \<times> refresh_row list" where
  "issue cy opts now p uuid ctx d rows = mint cy opts now p uuid ctx d rows"

definition revokeFamily :: "int \<Rightarrow> string \<Rightarrow> refresh_row list \<Rightarrow> refresh_row list" where
  "revokeFamily now familyId rows =
     update_many (\<lambda>r. rf_familyId r = familyId \<and> rf_revokedAt r = None) (\<lambda>r. r \<lparr> rf_revokedAt := Some now \<rparr>) rows"

definition revoke :: "crypto \<Rightarrow> int \<Rightarrow> string \<Rightarrow> refresh_row list \<Rightarrow> refresh_row list" where
  "revoke cy now presented rows =
     update_many (\<lambda>r. rf_tokenHash r = hashToken cy presented \<and> rf_revokedAt r = None)
       (\<lambda>r. r \<lparr> rf_revokedAt := Some now \<rparr>) rows"

definition revokeAllForUser :: "crypto \<Rightarrow> int \<Rightarrow> string \<Rightarrow> string option \<Rightarrow> refresh_row list \<Rightarrow> refresh_row list" where
  "revokeAllForUser cy now userId exceptRefreshToken rows =
     (let keepFamilyId =
            (case exceptRefreshToken of
               None \<Rightarrow> None
             | Some t \<Rightarrow>
                 if t = [] then None
                 else (case find_token cy t rows of
                         None \<Rightarrow> None
                       | Some current \<Rightarrow> if rf_userId current = userId then Some (rf_familyId current) else None))
      in update_many
           (\<lambda>r. rf_userId r = userId \<and> rf_revokedAt r = None \<and> (keepFamilyId = None \<or> Some (rf_familyId r) \<noteq> keepFamilyId))
           (\<lambda>r. r \<lparr> rf_revokedAt := Some now \<rparr>) rows)"

definition pruneExpired :: "int \<Rightarrow> refresh_row list \<Rightarrow> nat \<times> refresh_row list" where
  "pruneExpired olderThan rows =
     (length (filter (\<lambda>r. rf_expiresAt r < olderThan) rows), delete_many (\<lambda>r. rf_expiresAt r < olderThan) rows)"

definition rotate_read ::
  "crypto \<Rightarrow> int \<Rightarrow> (string \<Rightarrow> principal option) \<Rightarrow> string \<Rightarrow> refresh_row list
   \<Rightarrow> (refresh_reason \<times> refresh_row list) + (refresh_row \<times> principal)" where
  "rotate_read cy now resolve presented rows =
     (case find_token cy presented rows of
        None \<Rightarrow> Inl (UNKNOWN, rows)
      | Some record \<Rightarrow>
          if rf_revokedAt record \<noteq> None then Inl (REVOKED, rows)
          else if rf_consumedAt record \<noteq> None then Inl (REUSED, revokeFamily now (rf_familyId record) rows)
          else if rf_expiresAt record \<le> now then Inl (REFRESH_EXPIRED, rows)
          else (case resolve (rf_userId record) of
                  None \<Rightarrow> Inl (PRINCIPAL_GONE, revokeFamily now (rf_familyId record) rows)
                | Some p \<Rightarrow> Inr (record, p)))"

definition rotate_commit ::
  "crypto \<Rightarrow> token_options \<Rightarrow> int \<Rightarrow> refresh_row \<times> principal \<Rightarrow> session_context \<Rightarrow> draw \<Rightarrow> refresh_row list
   \<Rightarrow> (refresh_failure + session_tokens) \<times> refresh_row list" where
  "rotate_commit cy opts now found ctx d rows =
     (let (record, p) = found
      in if \<not> list_ex (\<lambda>r. rf_id r = rf_id record) rows then (Inl RecordNotFound, rows)
         else let (tokens, rows') = mint cy opts now p (rf_familyId record) ctx d
                     (update_many (\<lambda>r. rf_id r = rf_id record) (\<lambda>r. r \<lparr> rf_consumedAt := Some now \<rparr>) rows)
              in (Inr tokens, rows'))"

definition rotate ::
  "crypto \<Rightarrow> token_options \<Rightarrow> int \<Rightarrow> (string \<Rightarrow> principal option) \<Rightarrow> string \<Rightarrow> session_context \<Rightarrow> draw
   \<Rightarrow> refresh_row list \<Rightarrow> (refresh_failure + session_tokens) \<times> refresh_row list" where
  "rotate cy opts now resolve presented ctx d rows =
     (case rotate_read cy now resolve presented rows of
        Inl (e, rows') \<Rightarrow> (Inl (RefreshTokenError e), rows')
      | Inr found \<Rightarrow> rotate_commit cy opts now found ctx d rows)"

section \<open>What sessions rely on of an account source\<close>

definition live :: "refresh_row \<Rightarrow> bool" where
  "live r \<longleftrightarrow> rf_consumedAt r = None \<and> rf_revokedAt r = None"

text \<open>
  Keys and hashes are unique, a family is one account's, and it has at most one live token.
\<close>

definition siblings_ok :: "refresh_row \<Rightarrow> refresh_row \<Rightarrow> bool" where
  "siblings_ok r q \<longleftrightarrow> rf_familyId r \<noteq> rf_familyId q \<or> rf_userId r = rf_userId q \<and> (r = q \<or> \<not> live r \<or> \<not> live q)"

definition sessions_ok :: "refresh_row list \<Rightarrow> bool" where
  "sessions_ok rows \<longleftrightarrow> distinct (map rf_id rows) \<and> distinct (map rf_tokenHash rows)
     \<and> (\<forall>r \<in> set rows. \<forall>q \<in> set rows. siblings_ok r q)"

definition dead :: "string \<Rightarrow> refresh_row list \<Rightarrow> bool" where
  "dead familyId rows \<longleftrightarrow> (\<forall>r \<in> set rows. rf_familyId r = familyId \<longrightarrow> rf_revokedAt r \<noteq> None)"

definition fresh_draw :: "crypto \<Rightarrow> draw \<Rightarrow> refresh_row list \<Rightarrow> bool" where
  "fresh_draw cy d rows \<longleftrightarrow> dw_rowId d \<notin> rf_id ` set rows \<and> hashToken cy (dw_refreshToken d) \<notin> rf_tokenHash ` set rows"

definition minted :: "crypto \<Rightarrow> token_options \<Rightarrow> int \<Rightarrow> principal \<Rightarrow> string \<Rightarrow> session_context \<Rightarrow> draw \<Rightarrow> refresh_row" where
  "minted cy opts now p familyId ctx d =
     \<lparr> rf_id = dw_rowId d, rf_userId = pr_userId p, rf_tokenHash = hashToken cy (dw_refreshToken d),
       rf_familyId = familyId, rf_expiresAt = now + to_refreshTtl opts * 1000, rf_consumedAt = None, rf_revokedAt = None,
       rf_userAgent = sc_userAgent ctx, rf_ipAddress = sc_ipAddress ctx \<rparr>"

definition issued :: "crypto \<Rightarrow> token_options \<Rightarrow> int \<Rightarrow> principal \<Rightarrow> draw \<Rightarrow> session_tokens" where
  "issued cy opts now p d =
     \<lparr> st_accessToken = signJwt cy (access_options opts now p), st_refreshToken = dw_refreshToken d,
       st_accessExpiresAt = now + to_accessTtl opts * 1000, st_refreshExpiresAt = now + to_refreshTtl opts * 1000 \<rparr>"

lemma mint_parts: "mint cy opts now p familyId ctx d rows = (issued cy opts now p d, rows @ [minted cy opts now p familyId ctx d])"
  by (simp add: mint_def minted_def issued_def Let_def)

text \<open>Updates that keep what a row is and can only end it.\<close>

definition ends_only :: "(refresh_row \<Rightarrow> refresh_row) \<Rightarrow> bool" where
  "ends_only f \<longleftrightarrow> (\<forall>r. rf_id (f r) = rf_id r \<and> rf_userId (f r) = rf_userId r \<and> rf_tokenHash (f r) = rf_tokenHash r
     \<and> rf_familyId (f r) = rf_familyId r \<and> rf_expiresAt (f r) = rf_expiresAt r
     \<and> (live (f r) \<longrightarrow> live r) \<and> (rf_revokedAt r \<noteq> None \<longrightarrow> rf_revokedAt (f r) \<noteq> None))"

lemma ends_only_update:
  "ends_only (\<lambda>r. if p r then r \<lparr> rf_revokedAt := Some now \<rparr> else r)"
  "ends_only (\<lambda>r. if p r then r \<lparr> rf_consumedAt := Some now \<rparr> else r)"
  by (simp_all add: ends_only_def live_def)

lemma sessions_ok_ends:
  assumes "sessions_ok rows" "ends_only f"
  shows "sessions_ok (map f rows)"
proof -
  have "map rf_id (map f rows) = map rf_id rows" "map rf_tokenHash (map f rows) = map rf_tokenHash rows"
    using assms(2) by (auto simp: ends_only_def)
  moreover have "siblings_ok (f r) (f q)" if "siblings_ok r q" for r q
    using that assms(2) unfolding siblings_ok_def ends_only_def by metis
  ultimately show ?thesis using assms(1) by (simp add: sessions_ok_def del: map_map)
qed

lemma sessions_ok_mint:
  assumes "sessions_ok rows" "fresh_draw cy d rows"
    and "\<forall>r \<in> set rows. rf_familyId r = familyId \<longrightarrow> rf_userId r = pr_userId p \<and> \<not> live r"
  shows "sessions_ok (rows @ [minted cy opts now p familyId ctx d])"
proof -
  let ?m = "minted cy opts now p familyId ctx d"
  have "siblings_ok r ?m \<and> siblings_ok ?m r" if "r \<in> set rows" for r
    using assms(3) that by (auto simp: siblings_ok_def minted_def)
  moreover have "siblings_ok ?m ?m" by (simp add: siblings_ok_def)
  moreover have "rf_id ?m \<notin> rf_id ` set rows" "rf_tokenHash ?m \<notin> rf_tokenHash ` set rows"
    using assms(2) by (simp_all add: fresh_draw_def minted_def)
  ultimately show ?thesis using assms(1) by (simp add: sessions_ok_def)
qed

lemma sessions_ok_delete: "sessions_ok rows \<Longrightarrow> sessions_ok (delete_many q rows)"
  by (auto simp: sessions_ok_def delete_many_keys)

lemma find_token_Some: "find_token cy t rows = Some r \<Longrightarrow> r \<in> set rows \<and> rf_tokenHash r = hashToken cy t"
  unfolding find_token_def by (rule find_unique_Some)

lemma rotate_read_Inr:
  assumes "rotate_read cy now resolve t rows = Inr (r, p)"
  shows "find_token cy t rows = Some r \<and> live r \<and> now < rf_expiresAt r \<and> resolve (rf_userId r) = Some p"
  using assms by (auto simp: rotate_read_def live_def split: option.splits if_splits)

lemma rotate_read_rows:
  "rotate_read cy now resolve t rows = Inl (e, rows') \<Longrightarrow> rows' = rows \<or> (\<exists>f. rows' = revokeFamily now f rows)"
  by (auto simp: rotate_read_def split: option.splits if_splits)

lemma rotate_commit_present:
  assumes "r \<in> set rows"
  shows "rotate_commit cy opts now (r, p) ctx d rows =
    (Inr (issued cy opts now p d),
     map (\<lambda>q. if rf_id q = rf_id r then q \<lparr> rf_consumedAt := Some now \<rparr> else q) rows @ [minted cy opts now p (rf_familyId r) ctx d])"
proof -
  have "list_ex (\<lambda>q. rf_id q = rf_id r) rows" using assms by (auto simp: list_ex_iff)
  then show ?thesis by (simp only: rotate_commit_def Let_def prod.case not_True_eq_False if_False mint_parts update_many_def)
qed

text \<open>
  The interface between sessions and the accounts behind them: a resolved principal is the account's
  own.
\<close>

locale principal_source =
  fixes resolve :: "string \<Rightarrow> principal option"
  assumes resolve_own: "resolve u = Some p \<Longrightarrow> pr_userId p = u"
begin

lemma rotated_rows:
  assumes "sessions_ok rows" "rotate_read cy now resolve t rows = Inr (r, p)" "fresh_draw cy d rows"
  shows "sessions_ok (map (\<lambda>q. if rf_id q = rf_id r then q \<lparr> rf_consumedAt := Some now \<rparr> else q) rows
    @ [minted cy opts now p (rf_familyId r) ctx d])"
proof (rule sessions_ok_mint)
  let ?f = "\<lambda>q. if rf_id q = rf_id r then q \<lparr> rf_consumedAt := Some now \<rparr> else q"
  note R = rotate_read_Inr [OF assms(2)]
  have r: "r \<in> set rows" using R find_token_Some by blast
  show "sessions_ok (map ?f rows)" by (rule sessions_ok_ends [OF assms(1) ends_only_update(2)])
  show "fresh_draw cy d (map ?f rows)" using assms(3) by (auto simp: fresh_draw_def image_iff split: if_splits)
  show "\<forall>q \<in> set (map ?f rows). rf_familyId q = rf_familyId r \<longrightarrow> rf_userId q = pr_userId p \<and> \<not> live q"
  proof (intro ballI impI)
    fix q assume "q \<in> set (map ?f rows)" "rf_familyId q = rf_familyId r"
    then obtain q0 where q0: "q0 \<in> set rows" "q = ?f q0" "rf_familyId q0 = rf_familyId r" by (auto split: if_splits)
    have "siblings_ok q0 r" using assms(1) r q0(1) by (simp add: sessions_ok_def)
    with R q0(3) have same: "rf_userId q0 = rf_userId r" "q0 = r \<or> \<not> live q0" by (auto simp: siblings_ok_def)
    have "rf_userId q = rf_userId r" using q0(2) same(1) by simp
    moreover have "pr_userId p = rf_userId r" using R by (blast intro: resolve_own)
    ultimately have "rf_userId q = pr_userId p" by simp
    moreover have "\<not> live q" using same(2) q0(2) by (auto simp: live_def)
    ultimately show "rf_userId q = pr_userId p \<and> \<not> live q" ..
  qed
qed

lemma rotate_ok:
  assumes "sessions_ok rows" "fresh_draw cy d rows"
  shows "sessions_ok (snd (rotate cy opts now resolve t ctx d rows))"
proof (cases "rotate_read cy now resolve t rows")
  case (Inl x)
  obtain e rows' where x: "x = (e, rows')" by (cases x)
  have "sessions_ok (revokeFamily now f rows)" for f
    unfolding revokeFamily_def update_many_def by (rule sessions_ok_ends [OF assms(1) ends_only_update(1)])
  then show ?thesis using rotate_read_rows [OF Inl [unfolded x]] assms(1) Inl x by (auto simp: rotate_def)
next
  case (Inr x)
  obtain r p where x: "x = (r, p)" by (cases x)
  have "r \<in> set rows" using rotate_read_Inr [OF Inr [unfolded x]] find_token_Some by blast
  then show ?thesis
    using rotated_rows [OF assms(1) Inr [unfolded x] assms(2)] by (simp add: rotate_def Inr x rotate_commit_present)
qed

end

interpretation local_accounts: principal_source "resolve_local users" for users
  by unfold_locales (auto simp: resolve_local_def toPrincipal_def split: option.splits if_splits dest: find_unique_Some)

section \<open>Any order of operations\<close>

datatype session_op = Issue principal string session_context draw | Rotate string session_context draw
  | Revoke string | RevokeFamily string | RevokeAllForUser string "string option" | Prune int

fun session_step ::
  "crypto \<Rightarrow> token_options \<Rightarrow> int \<Rightarrow> user_row list \<Rightarrow> session_op \<Rightarrow> refresh_row list \<Rightarrow> refresh_row list" where
  "session_step cy opts now users (Issue p uuid ctx d) rows = snd (issue cy opts now p uuid ctx d rows)"
| "session_step cy opts now users (Rotate t ctx d) rows = snd (rotate cy opts now (resolve_local users) t ctx d rows)"
| "session_step cy opts now users (Revoke t) rows = revoke cy now t rows"
| "session_step cy opts now users (RevokeFamily f) rows = revokeFamily now f rows"
| "session_step cy opts now users (RevokeAllForUser u keep) rows = revokeAllForUser cy now u keep rows"
| "session_step cy opts now users (Prune t) rows = snd (pruneExpired t rows)"

text \<open>
  What the random sources owe: a new row's key and token hash are new, and so is a new session's family,
  also with respect to the families \<open>F\<close> handed out before.
\<close>

fun fresh_op :: "crypto \<Rightarrow> string set \<Rightarrow> session_op \<Rightarrow> refresh_row list \<Rightarrow> bool" where
  "fresh_op cy F (Issue p uuid ctx d) rows \<longleftrightarrow> fresh_draw cy d rows \<and> uuid \<notin> rf_familyId ` set rows \<and> uuid \<notin> F"
| "fresh_op cy F (Rotate t ctx d) rows \<longleftrightarrow> fresh_draw cy d rows"
| "fresh_op cy F _ rows \<longleftrightarrow> True"

inductive session_run :: "crypto \<Rightarrow> token_options \<Rightarrow> string set \<Rightarrow> refresh_row list \<Rightarrow> refresh_row list \<Rightarrow> bool"
  for cy opts F rows where
  Start: "session_run cy opts F rows rows"
| Step: "session_run cy opts F rows rows1 \<Longrightarrow> fresh_op cy F op rows1 \<Longrightarrow>
    session_run cy opts F rows (session_step cy opts now users op rows1)"

text \<open>Nothing but an end of some of the tokens.\<close>

definition ended :: "refresh_row list \<Rightarrow> refresh_row list \<Rightarrow> bool" where
  "ended rows rows' \<longleftrightarrow> (\<exists>g. rows' = map g rows \<and> ends_only g)"

lemma ended_refl: "ended rows rows"
  by (auto simp: ended_def ends_only_def intro!: exI [where x = "\<lambda>r. r"])

lemma ended_update: "ended rows (update_many q (\<lambda>r. r \<lparr> rf_revokedAt := Some now \<rparr>) rows)"
  unfolding ended_def update_many_def by (intro exI conjI, rule refl, rule ends_only_update(1))

lemma revocations_end:
  "ended rows (revoke cy now t rows)" "ended rows (revokeFamily now fam rows)" "ended rows (revokeAllForUser cy now u keep rows)"
  unfolding revoke_def revokeFamily_def revokeAllForUser_def Let_def by (rule ended_update)+

lemma sessions_ok_ended: "ended rows rows' \<Longrightarrow> sessions_ok rows \<Longrightarrow> sessions_ok rows'"
  by (auto simp: ended_def sessions_ok_ends)

lemma dead_ended: "ended rows rows' \<Longrightarrow> dead f rows \<Longrightarrow> dead f rows'"
  by (auto simp: ended_def dead_def ends_only_def)

lemma step_keeps_ok:
  assumes "sessions_ok rows" "fresh_op cy F op rows"
  shows "sessions_ok (session_step cy opts now users op rows)"
proof (cases op)
  case (Issue p uuid ctx d)
  with assms show ?thesis by (auto simp: issue_def mint_parts image_iff intro!: sessions_ok_mint)
next
  case (Rotate t ctx d)
  with assms show ?thesis by (simp add: local_accounts.rotate_ok)
next
  case (Prune t)
  with assms show ?thesis by (simp add: pruneExpired_def sessions_ok_delete)
qed (simp_all add: sessions_ok_ended [OF revocations_end(1) assms(1)] sessions_ok_ended [OF revocations_end(2) assms(1)]
  sessions_ok_ended [OF revocations_end(3) assms(1)])

lemma rotate_family:
  assumes "rotate cy opts now resolve t ctx d rows = (res, rows')"
  shows "ended rows rows'
    \<or> (\<exists>r p rows1. find_token cy t rows = Some r \<and> live r \<and> ended rows rows1 \<and> rows' = rows1 @ [minted cy opts now p (rf_familyId r) ctx d])"
proof (cases "rotate_read cy now resolve t rows")
  case (Inl x)
  obtain e rows1 where x: "x = (e, rows1)" by (cases x)
  have "rows' = rows1" using assms Inl x by (simp add: rotate_def)
  then show ?thesis using rotate_read_rows [OF Inl [unfolded x]] revocations_end(2) ended_refl by metis
next
  case (Inr x)
  obtain r p where x: "x = (r, p)" by (cases x)
  note R = rotate_read_Inr [OF Inr [unfolded x]]
  then have r: "r \<in> set rows" using find_token_Some by blast
  let ?rows1 = "map (\<lambda>q. if rf_id q = rf_id r then q \<lparr> rf_consumedAt := Some now \<rparr> else q) rows"
  have "ended rows ?rows1" unfolding ended_def by (intro exI conjI, rule refl, rule ends_only_update(2))
  moreover have "rows' = ?rows1 @ [minted cy opts now p (rf_familyId r) ctx d]"
    using assms r by (simp add: rotate_def Inr x rotate_commit_present)
  ultimately show ?thesis using R by blast
qed

lemma step_keeps_dead:
  assumes "dead f rows" "fresh_op cy F op rows" "f \<in> F"
  shows "dead f (session_step cy opts now users op rows)"
proof (cases op)
  case (Issue p uuid ctx d)
  with assms show ?thesis by (auto simp: issue_def mint_parts dead_def minted_def)
next
  case (Rotate t ctx d)
  obtain res rows' where r: "rotate cy opts now (resolve_local users) t ctx d rows = (res, rows')" by (metis prod.exhaust)
  from rotate_family [OF this] have "dead f rows'"
  proof (elim disjE exE conjE)
    fix q p rows1
    assume a: "find_token cy t rows = Some q" "live q" "ended rows rows1" "rows' = rows1 @ [minted cy opts now p (rf_familyId q) ctx d]"
    have "rf_familyId q \<noteq> f" using a(1,2) assms(1) find_token_Some [OF a(1)] by (auto simp: dead_def live_def)
    then show ?thesis using dead_ended [OF a(3) assms(1)] a(4) by (simp add: dead_def minted_def)
  qed (rule dead_ended [OF _ assms(1)])
  then show ?thesis by (simp add: Rotate r)
next
  case (Prune t)
  with assms show ?thesis by (simp add: pruneExpired_def dead_def)
qed (simp_all add: dead_ended [OF revocations_end(1) assms(1)] dead_ended [OF revocations_end(2) assms(1)]
  dead_ended [OF revocations_end(3) assms(1)])

section \<open>Properties\<close>

text \<open>
  C25. One live token per session. Whatever sequence of logins, refreshes, logouts, revocations and
  clean-ups runs one after the other, keys and hashes stay unique, a rotation family stays with one
  account, and it never has two tokens that are neither consumed nor revoked.
\<close>

theorem sessions_stay_ok:
  assumes "session_run cy opts F rows rows'" "sessions_ok rows"
  shows "sessions_ok rows'"
  using assms by (induction rule: session_run.induct) (simp_all add: step_keeps_ok)

theorem sessions_stay_ok_witness:
  "sessions_ok (session_step demo_crypto demo_token_options 1000 [] (Revoke ''t0'')
     (session_step demo_crypto demo_token_options 0 [] (Issue demo_principal ''f1'' \<lparr> sc_ipAddress = None, sc_userAgent = None \<rparr> \<lparr> dw_rowId = ''1'', dw_refreshToken = ''t0'' \<rparr>) []))"
proof (rule sessions_stay_ok)
  let ?op = "Issue demo_principal ''f1'' \<lparr> sc_ipAddress = None, sc_userAgent = None \<rparr> \<lparr> dw_rowId = ''1'', dw_refreshToken = ''t0'' \<rparr>"
  have "fresh_op demo_crypto {} ?op []" by (simp add: fresh_draw_def)
  from session_run.Step [OF session_run.Start this, of demo_token_options 0 "[]"]
  show "session_run demo_crypto demo_token_options {} [] (session_step demo_crypto demo_token_options 1000 [] (Revoke ''t0'')
     (session_step demo_crypto demo_token_options 0 [] ?op []))"
    by (rule session_run.Step) simp
  show "sessions_ok []" by (simp add: sessions_ok_def)
qed

text \<open>
  C24. Replaying a spent refresh token ends its whole session for good. The replay is refused as reused
  and revokes every row of the family and nothing else; and after any further operations, as long as
  no new login is given the same family, no token of that family is ever exchanged again: each attempt
  is refused as revoked, or as unknown once the row is cleaned up.
\<close>

theorem reuse_ends_session:
  assumes "find_token cy t rows = Some r" "rf_consumedAt r \<noteq> None" "rf_revokedAt r = None"
    and "rotate cy opts now resolve t ctx d rows = (res, rows1)" "rf_familyId r \<in> F"
    and "session_run cy opts F rows1 rows2" "find_token cy t' rows2 = Some q" "rf_familyId q = rf_familyId r"
  shows "res = Inl (RefreshTokenError REUSED)
    \<and> rows1 = map (\<lambda>x. if rf_familyId x = rf_familyId r \<and> rf_revokedAt x = None then x \<lparr> rf_revokedAt := Some now \<rparr> else x) rows
    \<and> dead (rf_familyId r) rows2
    \<and> rotate cy opts now' resolve' t' ctx' d' rows2 = (Inl (RefreshTokenError REVOKED), rows2)"
proof -
  have read: "rotate_read cy now resolve t rows = Inl (REUSED, revokeFamily now (rf_familyId r) rows)"
    using assms(1-3) by (simp add: rotate_read_def)
  then have res: "res = Inl (RefreshTokenError REUSED)" "rows1 = revokeFamily now (rf_familyId r) rows"
    using assms(4) by (simp_all add: rotate_def)
  have "dead (rf_familyId r) rows1" unfolding res(2) by (auto simp: dead_def revokeFamily_def)
  with assms(6) have dead: "dead (rf_familyId r) rows2"
    by (induction rule: session_run.induct) (simp_all add: step_keeps_dead assms(5))
  then have "rf_revokedAt q \<noteq> None" using find_token_Some [OF assms(7)] assms(8) by (auto simp: dead_def)
  then have "rotate cy opts now' resolve' t' ctx' d' rows2 = (Inl (RefreshTokenError REVOKED), rows2)"
    using assms(7) by (simp add: rotate_def rotate_read_def)
  with res dead show ?thesis by (simp add: revokeFamily_def update_many_def)
qed

text \<open>
  A refresh spends the token it is given. When it succeeds, its account is active, the presented
  row is now consumed, exactly one row is added, in the same family and for the same account with a
  fresh expiry, the new token can be found, and presenting the old one again is refused as reused.
\<close>

theorem refresh_spends_token:
  assumes "fresh_draw cy d rows" "rotate cy opts now (resolve_local users) t ctx d rows = (Inr tokens, rows')"
  shows "\<exists>r p. find_token cy t rows = Some r \<and> live r \<and> now < rf_expiresAt r \<and> resolve_local users (rf_userId r) = Some p
    \<and> tokens = issued cy opts now p d
    \<and> rows' = map (\<lambda>q. if rf_id q = rf_id r then q \<lparr> rf_consumedAt := Some now \<rparr> else q) rows @ [minted cy opts now p (rf_familyId r) ctx d]
    \<and> find_token cy (st_refreshToken tokens) rows' = Some (minted cy opts now p (rf_familyId r) ctx d)
    \<and> fst (rotate cy opts later resolve t ctx' d' rows') = Inl (RefreshTokenError REUSED)"
proof -
  obtain r p where read: "rotate_read cy now (resolve_local users) t rows = Inr (r, p)"
    using assms(2) by (auto simp: rotate_def split: sum.splits prod.splits)
  note R = rotate_read_Inr [OF read]
  then have r: "r \<in> set rows" "rf_tokenHash r = hashToken cy t" using find_token_Some by blast+
  let ?f = "\<lambda>q. if rf_id q = rf_id r then q \<lparr> rf_consumedAt := Some now \<rparr> else q"
  let ?m = "minted cy opts now p (rf_familyId r) ctx d"
  have out: "tokens = issued cy opts now p d" "rows' = map ?f rows @ [?m]"
    using assms(2) r(1) by (simp_all add: rotate_def read rotate_commit_present)
  have old: "find_token cy t rows' = Some (r \<lparr> rf_consumedAt := Some now \<rparr>)"
    using R unfolding out(2) find_token_def by (simp add: find_unique_append find_unique_map_keeps)
  have "find_unique (\<lambda>x. rf_tokenHash x = hashToken cy (dw_refreshToken d)) (map ?f rows) = None"
    using assms(1) by (auto simp: find_unique_None fresh_draw_def) (metis image_eqI)+
  then have "find_token cy (st_refreshToken tokens) rows' = Some ?m"
    unfolding out find_token_def by (simp add: find_unique_append issued_def minted_def)
  moreover have "fst (rotate cy opts later resolve t ctx' d' rows') = Inl (RefreshTokenError REUSED)"
    using R by (simp add: rotate_def rotate_read_def old live_def)
  ultimately show ?thesis using R out by blast
qed

lemma find_token_new:
  assumes "hashToken cy (dw_refreshToken d) \<notin> rf_tokenHash ` set rows"
  shows "find_token cy (dw_refreshToken d) (rows @ minted cy opts now p fam ctx d # rest) = Some (minted cy opts now p fam ctx d)"
proof -
  have "find_unique (\<lambda>x. rf_tokenHash x = hashToken cy (dw_refreshToken d)) rows = None"
    using assms by (auto simp: find_unique_None) (metis image_eqI)
  then show ?thesis by (simp add: find_token_def find_unique_append minted_def)
qed

lemma new_token_exchangeable:
  assumes "find_token cy (dw_refreshToken d) rows = Some (minted cy opts now p fam ctx d)"
    and "resolve (pr_userId p) = Some p'" "later < now + to_refreshTtl opts * 1000"
  shows "rotate_read cy later resolve (dw_refreshToken d) rows = Inr (minted cy opts now p fam ctx d, p')"
  using assms by (simp add: rotate_read_def minted_def)

text \<open>
  Overlapping requests. When two refreshes of one token have both read its row before either
  writes, both succeed and the family has two different live tokens, each of which can be exchanged:
  no reuse is detected. When every session of an account is revoked, as after a password change, while
  a refresh has read its row and not yet written, the token it then issues is live and can be exchanged.
\<close>

theorem overlapping_refreshes:
  assumes "rotate_read cy now (resolve_local users) t rows = Inr (r, p)"
    and "fresh_draw cy d1 rows" "fresh_draw cy d2 rows" "hashToken cy (dw_refreshToken d1) \<noteq> hashToken cy (dw_refreshToken d2)"
    and "rotate_commit cy opts now (r, p) ctx d1 rows = (res1, rows1)" "rotate_commit cy opts now (r, p) ctx d2 rows1 = (res2, rows2)"
    and "rotate_commit cy opts now (r, p) ctx d1 (revokeAllForUser cy now (rf_userId r) None rows) = (res3, rows3)"
    and "later < now + to_refreshTtl opts * 1000"
  shows "res1 = Inr (issued cy opts now p d1) \<and> res2 = Inr (issued cy opts now p d2)
    \<and> rotate_read cy later (resolve_local users) (dw_refreshToken d1) rows2 = Inr (minted cy opts now p (rf_familyId r) ctx d1, p)
    \<and> rotate_read cy later (resolve_local users) (dw_refreshToken d2) rows2 = Inr (minted cy opts now p (rf_familyId r) ctx d2, p)
    \<and> \<not> sessions_ok rows2
    \<and> rotate_read cy later (resolve_local users) (dw_refreshToken d1) rows3 = Inr (minted cy opts now p (rf_familyId r) ctx d1, p)"
proof -
  let ?m = "minted cy opts now p (rf_familyId r) ctx" and ?h = "\<lambda>d. hashToken cy (dw_refreshToken d)"
  let ?f = "\<lambda>q. if rf_id q = rf_id r then q \<lparr> rf_consumedAt := Some now \<rparr> else q"
  let ?g = "\<lambda>q. if rf_userId q = rf_userId r \<and> rf_revokedAt q = None then q \<lparr> rf_revokedAt := Some now \<rparr> else q"
  note R = rotate_read_Inr [OF assms(1)]
  have r: "r \<in> set rows" using R find_token_Some by blast
  have own: "resolve_local users (pr_userId p) = Some p" using R local_accounts.resolve_own by metis
  have out1: "res1 = Inr (issued cy opts now p d1)" "rows1 = map ?f rows @ [?m d1]"
    using assms(5) r by (simp_all add: rotate_commit_present)
  have "?f r \<in> set rows1" unfolding out1(2) using r by auto
  then have "list_ex (\<lambda>q. rf_id q = rf_id r) rows1" by (auto simp: list_ex_iff intro!: bexI [where x = "?f r"])
  then have out2: "res2 = Inr (issued cy opts now p d2)" "rows2 = map ?f rows1 @ [?m d2]"
    using assms(6) by (simp_all add: rotate_commit_def mint_parts update_many_def)
  have revoked: "revokeAllForUser cy now (rf_userId r) None rows = map ?g rows"
    by (simp add: revokeAllForUser_def update_many_def)
  have "?g r \<in> set (map ?g rows)" "rf_id (?g r) = rf_id r" using r by simp_all
  then have "list_ex (\<lambda>q. rf_id q = rf_id r) (map ?g rows)" unfolding list_ex_iff by blast
  then have out3: "rows3 = map ?f (map ?g rows) @ [?m d1]"
    using assms(7) unfolding revoked by (simp add: rotate_commit_def mint_parts update_many_def)
  have hashes: "rf_tokenHash ` set (map ?f xs) = rf_tokenHash ` set xs" "rf_tokenHash ` set (map ?g xs) = rf_tokenHash ` set xs" for xs
  proof -
    have "map rf_tokenHash (map ?f xs) = map rf_tokenHash xs" "map rf_tokenHash (map ?g xs) = map rf_tokenHash xs" by auto
    then show "rf_tokenHash ` set (map ?f xs) = rf_tokenHash ` set xs" "rf_tokenHash ` set (map ?g xs) = rf_tokenHash ` set xs"
      by (metis set_map)+
  qed
  have other: "rf_id (?m d1) \<noteq> rf_id r" using assms(2) r by (auto simp: fresh_draw_def minted_def)
  have rows2: "rows2 = map ?f (map ?f rows) @ ?m d1 # [?m d2]" "rows2 = (map ?f (map ?f rows) @ [?m d1]) @ ?m d2 # []"
    unfolding out2(2) out1(2) using other by auto
  have new1: "find_token cy (dw_refreshToken d1) rows2 = Some (?m d1)"
    unfolding rows2(1) by (rule find_token_new, unfold hashes) (use assms(2) in \<open>simp add: fresh_draw_def\<close>)
  have new2: "find_token cy (dw_refreshToken d2) rows2 = Some (?m d2)"
    unfolding rows2(2) by (rule find_token_new, unfold set_append image_Un hashes)
      (use assms(3,4) in \<open>simp add: fresh_draw_def minted_def\<close>)
  have new3: "find_token cy (dw_refreshToken d1) rows3 = Some (?m d1)"
    unfolding out3 by (rule find_token_new, unfold hashes) (use assms(2) in \<open>simp add: fresh_draw_def\<close>)
  have "\<not> siblings_ok (?m d1) (?m d2)" using assms(4) by (auto simp: siblings_ok_def minted_def live_def)
  moreover have "?m d1 \<in> set rows2" "?m d2 \<in> set rows2" unfolding rows2(1) by simp_all
  ultimately have "\<not> sessions_ok rows2" by (auto simp: sessions_ok_def)
  moreover note exchange = new_token_exchangeable [where resolve = "resolve_local users", OF _ own assms(8)]
  note exchange [OF new1] exchange [OF new2] exchange [OF new3]
  ultimately show ?thesis using out1(1) out2(1) by blast
qed

definition demo_context :: session_context where
  "demo_context = \<lparr> sc_ipAddress = None, sc_userAgent = None \<rparr>"

definition demo_session :: "int option \<Rightarrow> refresh_row" where
  "demo_session consumed =
     \<lparr> rf_id = ''1'', rf_userId = ''u1'', rf_tokenHash = ''t0'', rf_familyId = ''f1'', rf_expiresAt = 1000,
       rf_consumedAt = consumed, rf_revokedAt = None, rf_userAgent = None, rf_ipAddress = None \<rparr>"

lemma demo_hash [simp]: "hashToken demo_crypto t = t"
  by (simp add: hashToken_def demo_crypto_def Let_def)

theorem reuse_ends_session_witness:
  "fst (rotate demo_crypto demo_token_options 6 (resolve_local []) ''t0'' demo_context \<lparr> dw_rowId = ''3'', dw_refreshToken = ''t2'' \<rparr>
     (snd (rotate demo_crypto demo_token_options 5 (resolve_local []) ''t0'' demo_context \<lparr> dw_rowId = ''2'', dw_refreshToken = ''t1'' \<rparr> [demo_session (Some 1)])))
   = Inl (RefreshTokenError REVOKED)"
proof -
  let ?d = "\<lparr> dw_rowId = ''2'', dw_refreshToken = ''t1'' \<rparr>"
  let ?r = "demo_session (Some 1)"
  let ?rows1 = "[?r \<lparr> rf_revokedAt := Some 5 \<rparr>]"
  have find: "find_token demo_crypto ''t0'' [?r] = Some ?r" "find_token demo_crypto ''t0'' ?rows1 = Some (?r \<lparr> rf_revokedAt := Some 5 \<rparr>)"
    by (simp_all add: find_token_def demo_session_def)
  have state: "rf_consumedAt ?r \<noteq> None" "rf_revokedAt ?r = None" "rf_familyId ?r \<in> {''f1''}"
    "rf_familyId (?r \<lparr> rf_revokedAt := Some 5 \<rparr>) = rf_familyId ?r" by (simp_all add: demo_session_def)
  have rot: "rotate demo_crypto demo_token_options 5 (resolve_local []) ''t0'' demo_context ?d [?r] = (Inl (RefreshTokenError REUSED), ?rows1)"
    using find state by (simp add: rotate_def rotate_read_def revokeFamily_def update_many_def)
  from reuse_ends_session [OF find(1) state(1,2) rot state(3) session_run.Start find(2) state(4)]
  show ?thesis unfolding rot snd_conv by (metis fst_conv)
qed

lemma demo_read:
  "rotate_read demo_crypto 5 (resolve_local [demo_user None]) ''t0'' [demo_session None] = Inr (demo_session None, toPrincipal (demo_user None))"
  by (simp add: rotate_read_def find_token_def demo_session_def resolve_local_def demo_user_def)

theorem refresh_spends_token_witness:
  "fst (rotate demo_crypto demo_token_options 6 (resolve_local []) ''t0'' demo_context \<lparr> dw_rowId = ''3'', dw_refreshToken = ''t2'' \<rparr>
     (snd (rotate demo_crypto demo_token_options 5 (resolve_local [demo_user None]) ''t0'' demo_context \<lparr> dw_rowId = ''2'', dw_refreshToken = ''t1'' \<rparr> [demo_session None])))
   = Inl (RefreshTokenError REUSED)"
proof -
  let ?d = "\<lparr> dw_rowId = ''2'', dw_refreshToken = ''t1'' \<rparr>"
  have fresh: "fresh_draw demo_crypto ?d [demo_session None]" by (simp add: fresh_draw_def demo_session_def)
  have m: "demo_session None \<in> set [demo_session None]" by simp
  obtain tokens rows' where rot: "rotate demo_crypto demo_token_options 5 (resolve_local [demo_user None]) ''t0'' demo_context ?d [demo_session None]
      = (Inr tokens, rows')"
    by (simp only: rotate_def demo_read sum.case rotate_commit_present [OF m])
  from refresh_spends_token [OF fresh rot] show ?thesis unfolding rot snd_conv by metis
qed

theorem overlapping_refreshes_witness:
  "\<exists>r1 r2. rotate_read demo_crypto 9 (resolve_local [demo_user None]) ''t1'' (snd (rotate_commit demo_crypto demo_token_options 5
        (demo_session None, toPrincipal (demo_user None)) demo_context \<lparr> dw_rowId = ''3'', dw_refreshToken = ''t2'' \<rparr>
        (snd (rotate_commit demo_crypto demo_token_options 5 (demo_session None, toPrincipal (demo_user None)) demo_context
           \<lparr> dw_rowId = ''2'', dw_refreshToken = ''t1'' \<rparr> [demo_session None])))) = Inr r1
    \<and> rotate_read demo_crypto 9 (resolve_local [demo_user None]) ''t2'' (snd (rotate_commit demo_crypto demo_token_options 5
        (demo_session None, toPrincipal (demo_user None)) demo_context \<lparr> dw_rowId = ''3'', dw_refreshToken = ''t2'' \<rparr>
        (snd (rotate_commit demo_crypto demo_token_options 5 (demo_session None, toPrincipal (demo_user None)) demo_context
           \<lparr> dw_rowId = ''2'', dw_refreshToken = ''t1'' \<rparr> [demo_session None])))) = Inr r2"
proof -
  let ?found = "(demo_session None, toPrincipal (demo_user None))"
  let ?d1 = "\<lparr> dw_rowId = ''2'', dw_refreshToken = ''t1'' \<rparr>" and ?d2 = "\<lparr> dw_rowId = ''3'', dw_refreshToken = ''t2'' \<rparr>"
  let ?c = "rotate_commit demo_crypto demo_token_options 5 ?found demo_context"
  have fresh: "fresh_draw demo_crypto ?d1 [demo_session None]" "fresh_draw demo_crypto ?d2 [demo_session None]"
    "hashToken demo_crypto (dw_refreshToken ?d1) \<noteq> hashToken demo_crypto (dw_refreshToken ?d2)"
    by (simp_all add: fresh_draw_def demo_session_def)
  have late: "9 < 5 + to_refreshTtl demo_token_options * 1000" by (simp add: demo_token_options_def)
  obtain res1 rows1 where c1: "?c ?d1 [demo_session None] = (res1, rows1)" by (metis prod.exhaust)
  obtain res2 rows2 where c2: "?c ?d2 rows1 = (res2, rows2)" by (metis prod.exhaust)
  obtain res3 rows3 where c3: "?c ?d1 (revokeAllForUser demo_crypto 5 (rf_userId (demo_session None)) None [demo_session None]) = (res3, rows3)"
    by (metis prod.exhaust)
  from overlapping_refreshes [OF demo_read fresh c1 c2 c3 late] show ?thesis
    unfolding c1 snd_conv c2 by (auto simp only: draw.select_convs)
qed

end
