(* ===== verification/Access.thy ===== *)
theory Access
  imports Sessions Receipts
begin

text \<open>
  Authorization: the roles table in memory (\<open>auth/role-registry.ts\<close>), the policy
  (\<open>auth/rbac.policy.ts\<close>) and the guard in front of every route with its cookie parsing
  (\<open>auth/auth.guard.ts\<close>). \<open>decodeURIComponent\<close> is the parameter \<open>uri\<close>, \<^const>\<open>None\<close> where it throws.
\<close>

section \<open>Roles in memory\<close>

record role_row =
  ro_id :: string
  ro_name :: string
  ro_description :: "string option"
  ro_permissions :: "string list"
  ro_builtIn :: bool

definition permissionSchema :: "string list" where
  "permissionSchema =
     [''inventory:read'', ''resources:read'', ''reports:read'', ''classification:read'', ''classification:write'',
      ''materialization:trigger'', ''users:manage'', ''settings:manage'', ''pql:raw'']"

type_synonym registry = "(string \<times> string list) list"

definition load :: "role_row list \<Rightarrow> string + registry" where
  "load rows =
     (let next = foldl (\<lambda>m row. map_set (ro_name row) (uniq (filter (\<lambda>v. v \<in> set permissionSchema) (ro_permissions row))) m) [] rows
      in if length next = 0 then Inl ''The roles table is empty.'' else Inr next)"

text \<open>A refresh that fails keeps the previous snapshot; \<open>rows\<close> is \<^const>\<open>None\<close> when the query fails.\<close>

definition refresh :: "registry \<Rightarrow> role_row list option \<Rightarrow> registry" where
  "refresh byName rows =
     (case rows of None \<Rightarrow> byName | Some rs \<Rightarrow> (case load rs of Inl e \<Rightarrow> byName | Inr next \<Rightarrow> next))"

definition registry_permissions :: "registry \<Rightarrow> string \<Rightarrow> string list option" where
  "registry_permissions byName role = map_of byName role"

definition knownRoles :: "registry \<Rightarrow> string list" where
  "knownRoles byName = js_sort cmp_str (map fst byName)"

section \<open>The policy\<close>

record target =
  ta_groupId :: "string option"
  ta_environment :: "string option"
  ta_certname :: "string option"

text \<open>A scope that is absent or empty restricts nothing.\<close>

definition scope_admits :: "string list option \<Rightarrow> string option \<Rightarrow> bool" where
  "scope_admits scope v =
     (case scope of
        None \<Rightarrow> True
      | Some xs \<Rightarrow> if length xs > 0 then (case v of None \<Rightarrow> True | Some s \<Rightarrow> s \<in> set xs) else True)"

definition withinScope :: "principal \<Rightarrow> target option \<Rightarrow> bool" where
  "withinScope p tgt =
     (case tgt of
        None \<Rightarrow> True
      | Some t \<Rightarrow>
          if \<not> scope_admits (pr_scopedGroupIds p) (ta_groupId t) then False
          else scope_admits (pr_scopedEnvironments p) (ta_environment t))"

definition held_roles :: "principal \<Rightarrow> string list" where
  "held_roles p = (case pr_roles p of Some rs \<Rightarrow> rs | None \<Rightarrow> [pr_role p])"

definition can :: "registry \<Rightarrow> principal \<Rightarrow> string \<Rightarrow> target option \<Rightarrow> bool" where
  "can byName p permission tgt =
     (let granted = list_ex (\<lambda>name. case registry_permissions byName name of
                                      None \<Rightarrow> False | Some ps \<Rightarrow> permission \<in> set ps) (held_roles p)
      in if \<not> granted then False else withinScope p tgt)"

definition permissionsFor :: "registry \<Rightarrow> principal \<Rightarrow> string list" where
  "permissionsFor byName p =
     js_sort cmp_str (uniq (concat (map (\<lambda>name. case registry_permissions byName name of None \<Rightarrow> [] | Some ps \<Rightarrow> ps) (held_roles p))))"

section \<open>The guard\<close>

definition ACCESS_COOKIE :: string where
  "ACCESS_COOKIE = ''nexuspuppet_access''"

text \<open>
  One \<open>name=value\<close> part. \<open>out\<close> is a plain object: assigning a string to \<open>__proto__\<close> leaves it as it is.
\<close>

definition parse_cookie :: "(string \<Rightarrow> string option) \<Rightarrow> (string \<times> string) list \<Rightarrow> string \<Rightarrow> (string \<times> string) list" where
  "parse_cookie uri out part =
     (let raw = takeWhile (\<lambda>c. c \<noteq> CHR ''='') part; rest = dropWhile (\<lambda>c. c \<noteq> CHR ''='') part
      in if rest = [] \<or> raw = [] then out
         else let name = js_trim raw; v = js_trim (tl rest)
              in if name = [] \<or> name \<in> fst ` set out then out
                 else if name = ''__proto__'' then out
                 else out @ [(name, case uri v of Some t \<Rightarrow> t | None \<Rightarrow> v)])"

definition parseCookies :: "(string \<Rightarrow> string option) \<Rightarrow> string option \<Rightarrow> (string \<times> string) list" where
  "parseCookies uri header =
     (case header of None \<Rightarrow> [] | Some h \<Rightarrow> foldl (parse_cookie uri) [] (split_on CHR '';'' h))"

record request =
  rq_cookie :: "string option"
  rq_authorization :: "string option"
  rq_params :: "(string \<times> string) list"
  rq_query :: "(string \<times> jsval) list"

definition str_starts_with :: "string \<Rightarrow> string \<Rightarrow> bool" where
  "str_starts_with prefix s \<longleftrightarrow> take (length prefix) s = prefix"

definition extractToken :: "(string \<Rightarrow> string option) \<Rightarrow> request \<Rightarrow> string option" where
  "extractToken uri rq =
     (case map_of (parseCookies uri (rq_cookie rq)) ACCESS_COOKIE of
        Some c \<Rightarrow> if c \<noteq> [] then Some c else
          (case rq_authorization rq of
             Some h \<Rightarrow> if str_starts_with ''Bearer '' h \<and> js_trim (drop 7 h) \<noteq> [] then Some (js_trim (drop 7 h)) else None
           | None \<Rightarrow> None)
      | None \<Rightarrow>
          (case rq_authorization rq of
             Some h \<Rightarrow> if str_starts_with ''Bearer '' h \<and> js_trim (drop 7 h) \<noteq> [] then Some (js_trim (drop 7 h)) else None
           | None \<Rightarrow> None))"

definition targetFrom :: "request \<Rightarrow> target option" where
  "targetFrom rq =
     (let groupId = (case map_of (rq_params rq) ''groupId'' of Some g \<Rightarrow> Some g | None \<Rightarrow> map_of (rq_params rq) ''id'');
          certname = map_of (rq_params rq) ''certname'';
          environment = string_claim (map_of (rq_query rq) ''environment'')
      in if groupId = None \<and> certname = None \<and> environment = None then None
         else Some \<lparr> ta_groupId = groupId, ta_environment = environment, ta_certname = certname \<rparr>)"

record route =
  rt_isPublic :: bool
  rt_permission :: "string option"
  rt_anyOf :: "string list option"

datatype guard_error = AuthenticationRequired | TokenExpired | InvalidAccessToken | NoDeclaredPermission
  | InsufficientPermission

text \<open>The principal the guard attaches to the request, none on a public route.\<close>

definition canActivate ::
  "crypto \<Rightarrow> token_options \<Rightarrow> int \<Rightarrow> (string \<Rightarrow> string option) \<Rightarrow> registry \<Rightarrow> route \<Rightarrow> request
   \<Rightarrow> guard_error + principal option" where
  "canActivate cy opts now uri byName rt rq =
     (if rt_isPublic rt then Inr None
      else case extractToken uri rq of
        None \<Rightarrow> Inl AuthenticationRequired
      | Some token \<Rightarrow>
          (case verifyAccessToken cy opts now token of
             Inl e \<Rightarrow> Inl (if e = JwtError EXPIRED then TokenExpired else InvalidAccessToken)
           | Inr p \<Rightarrow>
               (case (rt_permission rt, rt_anyOf rt) of
                  (None, None) \<Rightarrow> Inl NoDeclaredPermission
                | (None, Some ps) \<Rightarrow>
                    if \<not> list_ex (\<lambda>q. can byName p q (targetFrom rq)) ps then Inl InsufficientPermission else Inr (Some p)
                | (Some q, _) \<Rightarrow>
                    if \<not> can byName p q (targetFrom rq) then Inl InsufficientPermission else Inr (Some p))))"

section \<open>Properties\<close>

definition required_permissions :: "route \<Rightarrow> string list" where
  "required_permissions rt = (case rt_permission rt of Some q \<Rightarrow> [q] | None \<Rightarrow> (case rt_anyOf rt of None \<Rightarrow> [] | Some qs \<Rightarrow> qs))"

text \<open>
  C26. The guard fails closed. A request passes exactly when its route is public, or it carries a token
  the service accepts whose principal the policy grants one of the permissions the route declares; a
  route that declares none admits nobody, and a role the table does not have grants nothing.
\<close>

theorem guard_fails_closed:
  "(canActivate cy opts now uri byName rt rq = Inr res \<longleftrightarrow>
      rt_isPublic rt \<and> res = None
      \<or> \<not> rt_isPublic rt \<and> (\<exists>token p. extractToken uri rq = Some token \<and> verifyAccessToken cy opts now token = Inr p \<and> res = Some p
           \<and> list_ex (\<lambda>q. can byName p q (targetFrom rq)) (required_permissions rt)))
   \<and> (can byName p q tgt \<longleftrightarrow> withinScope p tgt \<and> (\<exists>name ps. name \<in> set (held_roles p) \<and> map_of byName name = Some ps \<and> q \<in> set ps))"
proof
  show "canActivate cy opts now uri byName rt rq = Inr res \<longleftrightarrow>
      rt_isPublic rt \<and> res = None
      \<or> \<not> rt_isPublic rt \<and> (\<exists>token p. extractToken uri rq = Some token \<and> verifyAccessToken cy opts now token = Inr p \<and> res = Some p
           \<and> list_ex (\<lambda>q. can byName p q (targetFrom rq)) (required_permissions rt))"
    by (auto simp: canActivate_def required_permissions_def split: option.splits sum.splits)
  show "can byName p q tgt \<longleftrightarrow> withinScope p tgt \<and> (\<exists>name ps. name \<in> set (held_roles p) \<and> map_of byName name = Some ps \<and> q \<in> set ps)"
    by (auto simp: can_def Let_def list_ex_iff registry_permissions_def split: option.splits)
qed

text \<open>
  The console and the API agree. What \<open>permissionsFor\<close> tells the console a principal may do is,
  permission by permission, what the policy grants it for a request that names no target, listed once
  and in order.
\<close>

theorem permissions_shown_are_granted:
  "(q \<in> set (permissionsFor byName p) \<longleftrightarrow> can byName p q None) \<and> sorted_wrt (<) (permissionsFor byName p)"
proof
  show "q \<in> set (permissionsFor byName p) \<longleftrightarrow> can byName p q None"
    by (force simp: permissionsFor_def can_def Let_def list_ex_iff withinScope_def split: option.splits)
  have "sorted_wrt (\<lambda>a b. a \<le> b) (permissionsFor byName p)"
    unfolding permissionsFor_def
    by (rule sorted_wrt_mono_rel [OF _ comparator.sorted_js_sort [OF cmp_str.comparator_axioms]])
      (auto simp: cmp_str_def split: if_splits)
  moreover have "distinct (permissionsFor byName p)" by (simp add: permissionsFor_def distinct_uniq)
  ultimately show "sorted_wrt (<) (permissionsFor byName p)" by (simp add: strict_sorted_iff)
qed

text \<open>
  A directory user's extra roles do not reach the session. Let a principal hold several roles and
  a permission come from one of them and not from its primary role. At login the console is told the
  permission is held and the policy grants it; every request made with the session issued at that
  login is refused for lack of it.
\<close>

theorem directory_roles_lost_in_session:
  assumes "json_ok cy jwt_header" "json_ok cy (JObj (jwt_payload (access_options opts issuedAt p)))"
    and "pr_userId p \<noteq> []" "seconds now \<le> seconds issuedAt + to_accessTtl opts + 30"
    and "pr_roles p = Some rs" "r \<in> set rs" "map_of byName r = Some ps" "q \<in> set ps"
    and "\<forall>qs. map_of byName (pr_role p) = Some qs \<longrightarrow> q \<notin> set qs"
    and "\<not> rt_isPublic rt" "rt_permission rt = Some q" "extractToken uri rq = Some (signJwt cy (access_options opts issuedAt p))"
  shows "q \<in> set (permissionsFor byName p) \<and> can byName p q None
    \<and> canActivate cy opts now uri byName rt rq = Inl InsufficientPermission"
proof -
  have session: "verifyAccessToken cy opts now (signJwt cy (access_options opts issuedAt p)) = Inr (p \<lparr> pr_roles := None \<rparr>)"
    by (rule session_principal [OF assms(1-4)])
  have "can byName p q None"
    using assms(5-8) by (auto simp: can_def Let_def list_ex_iff withinScope_def held_roles_def registry_permissions_def intro!: bexI [where x = r])
  moreover have "q \<in> set (permissionsFor byName p)"
    using assms(5-8) by (auto simp: permissionsFor_def held_roles_def registry_permissions_def intro!: bexI [where x = r])
  moreover have "\<not> can byName (p \<lparr> pr_roles := None \<rparr>) q tgt" for tgt
    using assms(9) by (auto simp: can_def Let_def held_roles_def registry_permissions_def split: option.splits)
  then have "canActivate cy opts now uri byName rt rq = Inl InsufficientPermission"
    using assms(10-12) session by (simp add: canActivate_def)
  ultimately show ?thesis by blast
qed

definition demo_request :: request where
  "demo_request = \<lparr> rq_cookie = None, rq_authorization = Some (''Bearer '' @ signJwt demo_crypto (access_options demo_token_options 0 demo_principal)),
     rq_params = [], rq_query = [] \<rparr>"

theorem directory_roles_lost_in_session_witness:
  "canActivate demo_crypto demo_token_options 600000 Some [(''VIEWER'', [''inventory:read'']), (''patching'', [''materialization:trigger''])]
     \<lparr> rt_isPublic = False, rt_permission = Some ''materialization:trigger'', rt_anyOf = None \<rparr> demo_request = Inl InsufficientPermission"
proof -
  let ?reg = "[(''VIEWER'', [''inventory:read'']), (''patching'', [''materialization:trigger''])]"
  let ?rt = "\<lparr> rt_isPublic = False, rt_permission = Some ''materialization:trigger'', rt_anyOf = None \<rparr>"
  have json: "json_ok demo_crypto jwt_header" "json_ok demo_crypto (JObj (jwt_payload (access_options demo_token_options 0 demo_principal)))"
    by code_simp+
  have "extractToken Some demo_request = Some (signJwt demo_crypto (access_options demo_token_options 0 demo_principal))" by code_simp
  moreover have "pr_userId demo_principal \<noteq> []" "pr_roles demo_principal = Some [''VIEWER'', ''patching'']"
    "seconds 600000 \<le> seconds 0 + to_accessTtl demo_token_options + 30"
    "\<forall>qs. map_of ?reg (pr_role demo_principal) = Some qs \<longrightarrow> ''materialization:trigger'' \<notin> set qs"
    by (simp_all add: demo_principal_def demo_token_options_def seconds_def)
  ultimately show ?thesis
    using directory_roles_lost_in_session [OF json, of 600000 "[''VIEWER'', ''patching'']" "''patching''" ?reg "[''materialization:trigger'']"
        "''materialization:trigger''" ?rt Some demo_request] by simp
qed

text \<open>
  A snapshot of the roles table: never empty, each role once, and only permissions the schema has.
\<close>

definition well_typed :: "registry \<Rightarrow> bool" where
  "well_typed byName \<longleftrightarrow> byName \<noteq> [] \<and> distinct (map fst byName)
     \<and> list_all (\<lambda>(_, ps). distinct ps \<and> set ps \<subseteq> set permissionSchema) byName"

definition granted_by :: "role_row \<Rightarrow> string list" where
  "granted_by row = uniq (filter (\<lambda>v. v \<in> set permissionSchema) (ro_permissions row))"

lemma load_lookup:
  "map_of (foldl (\<lambda>m row. map_set (ro_name row) (granted_by row) m) m rows) name =
     (case map_of (map (\<lambda>r. (ro_name r, granted_by r)) (rev rows)) name of Some ps \<Rightarrow> Some ps | None \<Rightarrow> map_of m name)"
proof (induction rows arbitrary: m)
  case (Cons r rows)
  then show ?case by (auto simp: map_set_lookup map_add_def split: option.splits)
qed simp

lemma load_distinct: "distinct (map fst m) \<Longrightarrow> distinct (map fst (foldl (\<lambda>m row. map_set (ro_name row) (granted_by row) m) m rows))"
  by (induction rows arbitrary: m) (simp_all add: map_set_distinct)

text \<open>
  C37. The roles in memory are always a well-formed reading of the table. Loading keeps, for each role,
  exactly its permissions the schema knows, each once; an empty table, or one that cannot be read,
  leaves the previous snapshot; so a snapshot that was well formed stays so and is never empty.
\<close>

theorem registry_well_typed:
  assumes "well_typed byName" "distinct (map ro_name rows)"
  shows "well_typed (refresh byName (Some rows)) \<and> refresh byName None = byName \<and> refresh byName (Some []) = byName
    \<and> (rows \<noteq> [] \<longrightarrow> map_of (refresh byName (Some rows)) name =
         map_option (\<lambda>r. uniq (filter (\<lambda>v. v \<in> set permissionSchema) (ro_permissions r))) (find_unique (\<lambda>r. ro_name r = name) rows))"
proof (cases "rows = []")
  case True
  with assms(1) show ?thesis by (simp add: refresh_def load_def)
next
  case False
  let ?next = "foldl (\<lambda>m row. map_set (ro_name row) (granted_by row) m) [] rows"
  have "map_of ?next name = map_of (map (\<lambda>r. (ro_name r, granted_by r)) (rev rows)) name" for name
    unfolding load_lookup by (simp split: option.split)
  also have "map_of (map (\<lambda>r. (ro_name r, granted_by r)) (rev rows)) = map_of (map (\<lambda>r. (ro_name r, granted_by r)) rows)"
    using assms(2) by (simp add: rev_map [symmetric] map_of_rev_distinct o_def)
  finally have look: "map_of ?next name = map_of (map (\<lambda>r. (ro_name r, granted_by r)) rows) name" for name .
  also have "map_of (map (\<lambda>r. (ro_name r, granted_by r)) rs) name = map_option granted_by (find_unique (\<lambda>r. ro_name r = name) rs)" for rs name
    by (induction rs) auto
  finally have found: "map_of ?next name = map_option granted_by (find_unique (\<lambda>r. ro_name r = name) rows)" for name .
  obtain r where "r \<in> set rows" using False by (cases rows) auto
  then have "map_of ?next (ro_name r) \<noteq> None" unfolding found by (auto simp: find_unique_None)
  then have ne: "?next \<noteq> []" by auto
  then have eq: "refresh byName (Some rows) = ?next" by (simp add: refresh_def load_def granted_by_def)
  have "list_all (\<lambda>(_, ps). distinct ps \<and> set ps \<subseteq> set permissionSchema) ?next"
  proof (clarsimp simp only: list_all_iff)
    fix name ps assume "(name, ps) \<in> set ?next"
    then have "map_of ?next name = Some ps" using load_distinct [of "[]" rows] by simp
    then obtain r where "ps = granted_by r" unfolding found by auto
    then show "distinct ps \<and> set ps \<subseteq> set permissionSchema" by (auto simp: granted_by_def distinct_uniq)
  qed
  then have "well_typed ?next" using ne load_distinct [of "[]" rows] by (simp add: well_typed_def)
  moreover have "(\<lambda>r. uniq (filter (\<lambda>v. v \<in> set permissionSchema) (ro_permissions r))) = granted_by"
    by (simp add: fun_eq_iff granted_by_def)
  moreover have "refresh byName None = byName" "refresh byName (Some []) = byName" by (simp_all add: refresh_def load_def)
  ultimately show ?thesis using found unfolding eq by simp
qed

theorem registry_well_typed_witness:
  "map_of (refresh [(''VIEWER'', [''inventory:read''])] (Some [\<lparr> ro_id = ''1'', ro_name = ''VIEWER'', ro_description = None,
      ro_permissions = [''reports:read'', ''reports:raed''], ro_builtIn = True \<rparr>])) ''VIEWER'' = Some [''reports:read'']"
proof -
  let ?rows = "[\<lparr> ro_id = ''1'', ro_name = ''VIEWER'', ro_description = None, ro_permissions = [''reports:read'', ''reports:raed''], ro_builtIn = True \<rparr>]"
  have "well_typed [(''VIEWER'', [''inventory:read''])]" by (simp add: well_typed_def permissionSchema_def)
  moreover have "distinct (map ro_name ?rows)" by simp
  ultimately have "map_of (refresh [(''VIEWER'', [''inventory:read''])] (Some ?rows)) ''VIEWER'' =
      map_option (\<lambda>r. uniq (filter (\<lambda>v. v \<in> set permissionSchema) (ro_permissions r))) (find_unique (\<lambda>r. ro_name r = ''VIEWER'') ?rows)"
    using registry_well_typed by blast
  also have "\<dots> = Some [''reports:read'']" by code_simp
  finally show ?thesis .
qed

end
