(* ===== verification/UserAdmin.thy ===== *)
theory UserAdmin
  imports Access
begin

text \<open>
  Administering accounts and roles: \<open>apps/api/src/auth/users.service.ts\<close> and \<open>roles.service.ts\<close> over
  the users, roles, refresh tokens, saved queries and audit rows they write. A transaction either
  returns its new state or refuses and leaves the old one. The registered sources, the directory
  mappings and the values of the random sources are arguments. A message's em dash is written as a hyphen.
\<close>

section \<open>State\<close>

record saved_query =
  sq_id :: string
  sq_userId :: "string option"
  sq_isShared :: bool

record admin_state =
  ad_users :: "user_row list"
  ad_roles :: "role_row list"
  ad_tokens :: "refresh_row list"
  ad_queries :: "saved_query list"
  ad_audit :: "audit_row list"
  ad_registry :: registry

text \<open>One row of the directories' role mappings, as the configured sources list them.\<close>

record role_mapping =
  rm_role :: string
  rm_groupDn :: string
  rm_source :: string
  rm_provider :: "string option"

text \<open>The two structured conflicts carry their payload; their prose is left out.\<close>

datatype refusal = NotFound string | Conflict string | Forbidden string | BadRequest string | InternalError string
  | RoleIsBuiltIn string | RoleReferencedByMapping string "role_mapping list"

definition record_audit :: "principal \<Rightarrow> string \<Rightarrow> string \<Rightarrow> string \<Rightarrow> admin_state \<Rightarrow> admin_state" where
  "record_audit actor action entityType entityId st =
     st \<lparr> ad_audit := ad_audit st @
       [\<lparr> a_actorUserId = Some (pr_userId actor), a_actorEmail = Some (pr_email actor), a_action = action,
          a_entityType = entityType, a_entityId = Some entityId \<rparr>] \<rparr>"

definition find_user :: "string \<Rightarrow> admin_state \<Rightarrow> user_row option" where
  "find_user i st = find_unique (\<lambda>u. us_id u = i) (ad_users st)"

definition role_ref :: "admin_state \<Rightarrow> user_row \<Rightarrow> role_row option" where
  "role_ref st u = find_unique (\<lambda>r. ro_id r = us_roleId u) (ad_roles st)"

definition role_grants :: "admin_state \<Rightarrow> string \<Rightarrow> user_row \<Rightarrow> bool" where
  "role_grants st permission u =
     (case role_ref st u of None \<Rightarrow> False | Some r \<Rightarrow> permission \<in> set (ro_permissions r))"

definition ADMINISTRATIVE :: "string list" where
  "ADMINISTRATIVE = [''users:manage'', ''settings:manage'']"

definition assignableRoleId :: "admin_state \<Rightarrow> string \<Rightarrow> refusal + string" where
  "assignableRoleId st name =
     (case find_unique (\<lambda>r. ro_name r = name) (ad_roles st) of
        Some row \<Rightarrow> Inr (ro_id row)
      | None \<Rightarrow> Inl (BadRequest (''No role named '' @ quote @ name @ quote @ '' exists. This deployment has: '' @
                  join '', '' (js_sort cmp_str (map ro_name (ad_roles st))) @ ''.'')))"

section \<open>Accounts\<close>

record new_account =
  na_email :: string
  na_displayName :: string
  na_role :: string
  na_password :: "string option"
  na_authSource :: string

definition hash_or_fail :: "kdf \<Rightarrow> string \<Rightarrow> string \<Rightarrow> refusal + string" where
  "hash_or_fail k salt pw =
     (case hashPassword k salt pw of Inl e \<Rightarrow> Inl (InternalError ''hashPassword'') | Inr h \<Rightarrow> Inr h)"

definition hash_if_given :: "kdf \<Rightarrow> string \<Rightarrow> string option \<Rightarrow> refusal + string option" where
  "hash_if_given k salt pw =
     (case pw of None \<Rightarrow> Inr None | Some p \<Rightarrow> bind_err (hash_or_fail k salt p) (\<lambda>h. Inr (Some h)))"

definition users_create ::
  "kdf \<Rightarrow> string list \<Rightarrow> string \<Rightarrow> string \<Rightarrow> new_account \<Rightarrow> principal \<Rightarrow> admin_state \<Rightarrow> refusal + admin_state" where
  "users_create k sources uuid salt input actor st =
     (let email = normalizeEmail (na_email input); authSource = na_authSource input
      in if authSource \<noteq> ''local'' \<and> authSource \<notin> set sources
         then Inl (BadRequest (''No configured provider authenticates '' @ quote @ authSource @ quote @ ''. This deployment has: '' @ join '', '' sources @
                ''. Use one of those, or '' @ quote @ ''local'' @ quote @ '' for a password account.''))
         else bind_err (hash_if_given k salt (na_password input)) (\<lambda>passwordHash.
           if find_unique (\<lambda>u. us_email u = email) (ad_users st) \<noteq> None
           then Inl (Conflict (''A user with the email '' @ email @ '' already exists.''))
           else bind_err (assignableRoleId st (na_role input)) (\<lambda>roleId.
             Inr (record_audit actor ''user.create'' ''User'' uuid
               (st \<lparr> ad_users := ad_users st @
                  [\<lparr> us_id = uuid, us_email = email, us_displayName = na_displayName input, us_passwordHash = passwordHash,
                     us_role = na_role input, us_roleId = roleId, us_isActive = True, us_authSource = authSource,
                     us_directoryId = None, us_lastLoginAt = None, us_failedLoginAttempts = 0, us_lockedUntil = None \<rparr>] \<rparr>)))))"

record account_patch =
  ap_displayName :: "string option"
  ap_role :: "string option"
  ap_isActive :: "bool option"

definition remaining :: "admin_state \<Rightarrow> string \<Rightarrow> string \<Rightarrow> nat" where
  "remaining st i permission =
     length (filter (\<lambda>u. us_isActive u \<and> us_id u \<noteq> i \<and> role_grants st permission u) (ad_users st))"

text \<open>The loop over the two permissions: the first one nobody else holds is the refusal.\<close>

definition last_administrator :: "admin_state \<Rightarrow> string \<Rightarrow> refusal option" where
  "last_administrator st i =
     map_option (\<lambda>q. Conflict (''This is the last active user whose role grants '' @ quote @ q @ quote @ ''. Give another account a role that grants it first, or nobody will be able to administer this deployment.''))
       (List.find (\<lambda>q. remaining st i q = 0) ADMINISTRATIVE)"

definition couldLoseAdministration :: "account_patch \<Rightarrow> user_row \<Rightarrow> bool" where
  "couldLoseAdministration input before =
     (ap_role input \<noteq> None \<and> ap_role input \<noteq> Some (us_role before) \<or> ap_isActive input = Some False)"

text \<open>Everything \<open>update\<close> checks before it writes; the role key it will write, if any.\<close>

definition check_account_patch :: "string \<Rightarrow> account_patch \<Rightarrow> principal \<Rightarrow> admin_state \<Rightarrow> refusal + string option" where
  "check_account_patch i input actor st =
     (case find_user i st of
        None \<Rightarrow> Inl (NotFound ''No such user.'')
      | Some before \<Rightarrow>
          (case (if couldLoseAdministration input before then last_administrator st i else None) of
             Some e \<Rightarrow> Inl e
           | None \<Rightarrow>
               let role_changes = (ap_role input \<noteq> None \<and> ap_role input \<noteq> Some (us_role before))
               in if i = pr_userId actor \<and> ap_isActive input = Some False
                  then Inl (Forbidden ''You cannot deactivate your own account.'')
                  else if i = pr_userId actor \<and> role_changes then Inl (Forbidden ''You cannot change your own role.'')
                  else if role_changes \<and> us_authSource before \<noteq> ''local''
                  then Inl (Conflict (us_email before @ '' is authenticated by '' @ quote @ us_authSource before @ quote @
                    '', which recomputes their role from directory group membership at every sign-in. Change their groups in the directory, or the role mapping in settings - a role set here would be overwritten at their next sign-in.''))
                  else (case ap_role input of
                          None \<Rightarrow> Inr None
                        | Some name \<Rightarrow> bind_err (assignableRoleId st name) (\<lambda>roleId. Inr (Some roleId)))))"

definition or_else :: "'a option \<Rightarrow> 'a \<Rightarrow> 'a" where
  "or_else v old = (case v of None \<Rightarrow> old | Some x \<Rightarrow> x)"

definition patched :: "account_patch \<Rightarrow> string option \<Rightarrow> user_row \<Rightarrow> user_row" where
  "patched input roleId u = u
     \<lparr> us_displayName := or_else (ap_displayName input) (us_displayName u), us_role := or_else (ap_role input) (us_role u),
        us_roleId := or_else roleId (us_roleId u), us_isActive := or_else (ap_isActive input) (us_isActive u) \<rparr>"

definition write_account_patch :: "string \<Rightarrow> account_patch \<Rightarrow> string option \<Rightarrow> principal \<Rightarrow> admin_state \<Rightarrow> admin_state" where
  "write_account_patch i input roleId actor st =
     record_audit actor ''user.update'' ''User'' i
       (st \<lparr> ad_users := update_user i (patched input roleId) (ad_users st) \<rparr>)"

definition users_update :: "string \<Rightarrow> account_patch \<Rightarrow> principal \<Rightarrow> admin_state \<Rightarrow> refusal + admin_state" where
  "users_update i input actor st =
     bind_err (check_account_patch i input actor st) (\<lambda>roleId. Inr (write_account_patch i input roleId actor st))"

definition deactivation :: account_patch where
  "deactivation = \<lparr> ap_displayName = None, ap_role = None, ap_isActive = Some False \<rparr>"

definition users_deactivate :: "crypto \<Rightarrow> int \<Rightarrow> string \<Rightarrow> principal \<Rightarrow> admin_state \<Rightarrow> refusal + admin_state" where
  "users_deactivate cy now i actor st =
     bind_err (users_update i deactivation actor st) (\<lambda>st'.
       Inr (st' \<lparr> ad_tokens := revokeAllForUser cy now i None (ad_tokens st') \<rparr>))"

definition activeSessions :: "int \<Rightarrow> string \<Rightarrow> admin_state \<Rightarrow> nat" where
  "activeSessions now i st =
     length (filter (\<lambda>t. rf_userId t = i \<and> rf_revokedAt t = None \<and> rf_expiresAt t > now) (ad_tokens st))"

text \<open>Deleting the row takes its refresh tokens along; saved queries and audit rows lose their key.\<close>

definition users_remove :: "string \<Rightarrow> principal \<Rightarrow> admin_state \<Rightarrow> refusal + admin_state" where
  "users_remove i actor st =
     (case find_user i st of
        None \<Rightarrow> Inl (NotFound ''No such user.'')
      | Some user \<Rightarrow>
          if i = pr_userId actor then Inl (Forbidden ''You cannot delete your own account.'')
          else (case last_administrator st i of
             Some e \<Rightarrow> Inl e
           | None \<Rightarrow>
               let kept = delete_many (\<lambda>q. sq_userId q = Some i \<and> \<not> sq_isShared q) (ad_queries st);
                   audited = record_audit actor ''user.delete'' ''User'' i (st \<lparr> ad_queries := kept \<rparr>)
               in Inr (audited
                    \<lparr> ad_users := delete_many (\<lambda>u. us_id u = i) (ad_users audited),
                       ad_tokens := delete_many (\<lambda>t. rf_userId t = i) (ad_tokens audited),
                       ad_queries := map (\<lambda>q. if sq_userId q = Some i then q \<lparr> sq_userId := None \<rparr> else q) (ad_queries audited),
                       ad_audit := map (\<lambda>a. if a_actorUserId a = Some i then a \<lparr> a_actorUserId := None \<rparr> else a) (ad_audit audited) \<rparr>)))"

definition set_password :: "string \<Rightarrow> string option \<Rightarrow> admin_state \<Rightarrow> admin_state" where
  "set_password i hash st = st \<lparr> ad_users := update_user i (\<lambda>u. u \<lparr> us_passwordHash := hash \<rparr>) (ad_users st) \<rparr>"

definition changeOwnPassword ::
  "kdf \<Rightarrow> crypto \<Rightarrow> int \<Rightarrow> string \<Rightarrow> principal \<Rightarrow> string \<Rightarrow> string \<Rightarrow> string option \<Rightarrow> admin_state \<Rightarrow> refusal + admin_state" where
  "changeOwnPassword k cy now salt actor currentPassword newPassword currentRefreshToken st =
     (case Option.bind (find_user (pr_userId actor) st) us_passwordHash of
        None \<Rightarrow> Inl (BadRequest ''This account does not use a local password.'')
      | Some hash \<Rightarrow>
          if \<not> verifyPassword k currentPassword hash then Inl (Forbidden ''Current password is incorrect.'')
          else bind_err (hash_or_fail k salt newPassword) (\<lambda>passwordHash.
            let st' = record_audit actor ''user.password.change'' ''User'' (pr_userId actor) (set_password (pr_userId actor) (Some passwordHash) st)
            in Inr (st' \<lparr> ad_tokens := revokeAllForUser cy now (pr_userId actor) currentRefreshToken (ad_tokens st') \<rparr>)))"

definition resetPassword ::
  "kdf \<Rightarrow> crypto \<Rightarrow> int \<Rightarrow> string \<Rightarrow> string \<Rightarrow> string \<Rightarrow> principal \<Rightarrow> admin_state \<Rightarrow> refusal + admin_state" where
  "resetPassword k cy now salt i newPassword actor st =
     (case find_user i st of
        None \<Rightarrow> Inl (NotFound ''No such user.'')
      | Some user \<Rightarrow>
          if us_authSource user \<noteq> ''local''
          then Inl (BadRequest (us_email user @ '' is authenticated by '' @ quote @ us_authSource user @ quote @
                 '', not by a local password. Reset it in that directory instead.''))
          else bind_err (hash_or_fail k salt newPassword) (\<lambda>passwordHash.
            let st' = record_audit actor ''user.password.reset'' ''User'' i (set_password i (Some passwordHash) st)
            in Inr (st' \<lparr> ad_tokens := revokeAllForUser cy now i None (ad_tokens st') \<rparr>)))"

definition moveAuthSource ::
  "kdf \<Rightarrow> crypto \<Rightarrow> int \<Rightarrow> string list \<Rightarrow> string \<Rightarrow> string \<Rightarrow> string \<Rightarrow> string option \<Rightarrow> principal \<Rightarrow> admin_state \<Rightarrow> refusal + admin_state" where
  "moveAuthSource k cy now sources salt i authSource password actor st =
     (let tgt = to_lower (js_trim authSource)
      in case find_user i st of
        None \<Rightarrow> Inl (NotFound ''No such user.'')
      | Some before \<Rightarrow>
          if us_authSource before = tgt then Inl (Conflict (us_email before @ '' is already authenticated by '' @ quote @ tgt @ quote @ ''.''))
          else if i = pr_userId actor then Inl (Forbidden ''You cannot change your own authentication source. Ask another administrator.'')
          else if tgt \<notin> set sources then Inl (BadRequest (''This deployment cannot authenticate against '' @ quote @ tgt @ quote @ ''. Configured sources: '' @ join '', '' sources @ ''.''))
          else if tgt = ''local'' \<and> password = None then Inl (BadRequest (''Moving '' @ us_email before @ '' to local authentication needs a password. An account with neither a password nor a directory cannot sign in at all.''))
          else if tgt \<noteq> ''local'' \<and> password \<noteq> None
          then Inl (BadRequest (''A password cannot be set for an account authenticated by '' @ quote @ tgt @ quote @ ''. The directory holds the credential.''))
          else bind_err (if tgt = ''local'' then bind_err (hash_or_fail k salt (or_else password [])) (\<lambda>h. Inr (Some h)) else Inr None) (\<lambda>passwordHash.
            let st' = record_audit actor ''user.auth-source.move'' ''User'' i
                  (st \<lparr> ad_users := update_user i (\<lambda>u. u \<lparr> us_authSource := tgt, us_passwordHash := passwordHash, us_directoryId := None \<rparr>) (ad_users st) \<rparr>)
            in Inr (st' \<lparr> ad_tokens := revokeAllForUser cy now i None (ad_tokens st') \<rparr>)))"

text \<open>
  The reads: every account by address, and one account with the state that explains it. The stored hash
  never leaves; only whether there is one.
\<close>

definition users_list :: "admin_state \<Rightarrow> user_row list" where
  "users_list st = js_sort (\<lambda>a b. cmp_str (us_email a) (us_email b)) (ad_users st)"

record user_detail =
  ud_user :: user_row
  ud_activeSessions :: nat
  ud_hasLocalPassword :: bool

definition users_findOne :: "int \<Rightarrow> string \<Rightarrow> admin_state \<Rightarrow> refusal + user_detail" where
  "users_findOne now i st =
     (case find_user i st of
        None \<Rightarrow> Inl (NotFound ''No such user.'')
      | Some user \<Rightarrow>
          Inr \<lparr> ud_user = user \<lparr> us_passwordHash := None \<rparr>, ud_activeSessions = activeSessions now i st,
                ud_hasLocalPassword = (us_passwordHash user \<noteq> None) \<rparr>)"

section \<open>Roles\<close>

text \<open>\<open>rp_description\<close> distinguishes a missing field from an explicit \<open>null\<close>.\<close>

record role_patch =
  rp_description :: "string option option"
  rp_permissions :: "string list option"

definition permissionsChanged :: "role_row \<Rightarrow> role_patch \<Rightarrow> bool" where
  "permissionsChanged before input =
     (case rp_permissions input of
        None \<Rightarrow> False
      | Some ps \<Rightarrow> length ps \<noteq> length (ro_permissions before) \<or>
          join '' '' (js_sort cmp_str ps) \<noteq> join '' '' (js_sort cmp_str (ro_permissions before)))"

definition descriptionChanged :: "role_row \<Rightarrow> role_patch \<Rightarrow> bool" where
  "descriptionChanged before input =
     (case rp_description input of None \<Rightarrow> False | Some d \<Rightarrow> d \<noteq> ro_description before)"

definition assertBuiltInUnchanged :: "role_row \<Rightarrow> role_patch \<Rightarrow> refusal option" where
  "assertBuiltInUnchanged before input =
     (if \<not> ro_builtIn before then None
      else if \<not> permissionsChanged before input \<and> \<not> descriptionChanged before input then None
      else Some (RoleIsBuiltIn (ro_name before)))"

definition held_elsewhere :: "admin_state \<Rightarrow> string \<Rightarrow> string \<Rightarrow> nat" where
  "held_elsewhere st roleName permission =
     length (filter (\<lambda>u. us_isActive u \<and>
        (case role_ref st u of None \<Rightarrow> False | Some r \<Rightarrow> ro_name r \<noteq> roleName \<and> permission \<in> set (ro_permissions r))) (ad_users st))"

definition assertAdministrationSurvives :: "admin_state \<Rightarrow> string \<Rightarrow> string list \<Rightarrow> refusal option" where
  "assertAdministrationSurvives st roleName next =
     map_option (\<lambda>q. Conflict (''Removing '' @ quote @ q @ quote @ '' from '' @ quote @ roleName @ quote @
         '' would leave nobody able to administer this deployment. Grant it to another role, and give somebody that role, first.''))
       (List.find (\<lambda>q. q \<notin> set next \<and> held_elsewhere st roleName q = 0) ADMINISTRATIVE)"

definition assertAdministrationSurvivesDeletion :: "admin_state \<Rightarrow> string \<Rightarrow> refusal option" where
  "assertAdministrationSurvivesDeletion st roleName =
     map_option (\<lambda>q. Conflict (''Deleting '' @ quote @ roleName @ quote @
         '' would leave nobody able to administer this deployment - no other role held by an active user grants '' @ quote @ q @ quote @ ''.''))
       (List.find (\<lambda>q. held_elsewhere st roleName q = 0) ADMINISTRATIVE)"

definition blockingMappings :: "role_mapping list \<Rightarrow> string \<Rightarrow> role_mapping list" where
  "blockingMappings all roleName = filter (\<lambda>m. rm_role m = roleName) all"

definition record_role_audit :: "principal option \<Rightarrow> string \<Rightarrow> string \<Rightarrow> admin_state \<Rightarrow> admin_state" where
  "record_role_audit actor action entityId st =
     st \<lparr> ad_audit := ad_audit st @
       [\<lparr> a_actorUserId = map_option pr_userId actor, a_actorEmail = map_option pr_email actor, a_action = action,
          a_entityType = ''Role'', a_entityId = Some entityId \<rparr>] \<rparr>"

text \<open>\<open>registry.invalidate()\<close> reads the table again; its failure is the caller's, the write stays.\<close>

definition invalidate :: "admin_state \<Rightarrow> (refusal + unit) \<times> admin_state" where
  "invalidate st =
     (case load (ad_roles st) of
        Inl e \<Rightarrow> (Inl (InternalError e), st)
      | Inr next \<Rightarrow> (Inr (), st \<lparr> ad_registry := next \<rparr>))"

definition roles_list :: "admin_state \<Rightarrow> (role_row \<times> nat) list" where
  "roles_list st =
     map (\<lambda>r. (r, length (filter (\<lambda>u. us_isActive u \<and> us_roleId u = ro_id r) (ad_users st))))
       (js_sort (\<lambda>a b. if ro_builtIn a \<noteq> ro_builtIn b then (if ro_builtIn a then - 1 else 1) else cmp_str (ro_name a) (ro_name b)) (ad_roles st))"

record new_role =
  nr_name :: string
  nr_description :: "string option"
  nr_permissions :: "string list"

text \<open>No transaction here: a role operation's result comes with the state whatever it is.\<close>

definition roles_create :: "string \<Rightarrow> new_role \<Rightarrow> principal option \<Rightarrow> admin_state \<Rightarrow> (refusal + unit) \<times> admin_state" where
  "roles_create uuid input actor st =
     (if find_unique (\<lambda>r. ro_name r = nr_name input) (ad_roles st) \<noteq> None
      then (Inl (Conflict (''A role named '' @ quote @ nr_name input @ quote @ '' already exists.'')), st)
      else invalidate (record_role_audit actor ''role.create'' uuid
        (st \<lparr> ad_roles := ad_roles st @
           [\<lparr> ro_id = uuid, ro_name = nr_name input, ro_description = nr_description input,
              ro_permissions = nr_permissions input, ro_builtIn = False \<rparr>] \<rparr>)))"

definition write_role_patch :: "string \<Rightarrow> role_patch \<Rightarrow> admin_state \<Rightarrow> admin_state" where
  "write_role_patch i input st =
     st \<lparr> ad_roles := update_many (\<lambda>r. ro_id r = i)
       (\<lambda>r. r \<lparr> ro_description := or_else (rp_description input) (ro_description r),
               ro_permissions := or_else (rp_permissions input) (ro_permissions r) \<rparr>) (ad_roles st) \<rparr>"

definition roles_update :: "string \<Rightarrow> role_patch \<Rightarrow> principal option \<Rightarrow> admin_state \<Rightarrow> (refusal + unit) \<times> admin_state" where
  "roles_update i input actor st =
     (case find_unique (\<lambda>r. ro_id r = i) (ad_roles st) of
        None \<Rightarrow> (Inl (NotFound ''No such role.''), st)
      | Some before \<Rightarrow>
          (case assertBuiltInUnchanged before input of
             Some e \<Rightarrow> (Inl e, st)
           | None \<Rightarrow>
               (case Option.bind (rp_permissions input) (assertAdministrationSurvives st (ro_name before)) of
                  Some e \<Rightarrow> (Inl e, st)
                | None \<Rightarrow> invalidate (record_role_audit actor ''role.update'' i (write_role_patch i input st)))))"

definition roles_remove :: "role_mapping list \<Rightarrow> string \<Rightarrow> principal option \<Rightarrow> admin_state \<Rightarrow> (refusal + unit) \<times> admin_state" where
  "roles_remove all i actor st =
     (case find_unique (\<lambda>r. ro_id r = i) (ad_roles st) of
        None \<Rightarrow> (Inl (NotFound ''No such role.''), st)
      | Some role \<Rightarrow>
          let holders = length (filter (\<lambda>u. us_roleId u = i) (ad_users st)); blocking = blockingMappings all (ro_name role)
          in if ro_builtIn role
             then (Inl (Conflict (quote @ ro_name role @ quote @ '' is a built-in role and cannot be deleted. Its name appears in directory mappings, in audit history, and in other people's runbooks.'')), st)
             else if holders > 0
             then (Inl (Conflict (int_dec (int holders) @ '' user(s) still hold '' @ quote @ ro_name role @ quote @ ''. Move them to another role first - deleting it would leave accounts that authenticate and are then denied everything.'')), st)
             else if length blocking > 0 then (Inl (RoleReferencedByMapping (ro_name role) blocking), st)
             else (case assertAdministrationSurvivesDeletion st (ro_name role) of
                Some e \<Rightarrow> (Inl e, st)
              | None \<Rightarrow> invalidate (record_role_audit actor ''role.delete'' i
                    (st \<lparr> ad_roles := delete_many (\<lambda>r. ro_id r = i) (ad_roles st) \<rparr>))))"

section \<open>Sequences of operations\<close>

datatype admin_op =
    CreateUser string string new_account principal
  | UpdateUser string account_patch principal
  | DeactivateUser int string principal
  | RemoveUser string principal
  | ChangeOwnPassword int string principal string string "string option"
  | ResetPassword int string string string principal
  | MoveAuthSource int string string string "string option" principal
  | CreateRole string new_role "principal option"
  | UpdateRole string role_patch "principal option"
  | RemoveRole "role_mapping list" string "principal option"

definition committed :: "admin_state \<Rightarrow> refusal + admin_state \<Rightarrow> admin_state" where
  "committed st res = (case res of Inl e \<Rightarrow> st | Inr st' \<Rightarrow> st')"

fun admin_step :: "kdf \<Rightarrow> crypto \<Rightarrow> string list \<Rightarrow> admin_op \<Rightarrow> admin_state \<Rightarrow> admin_state" where
  "admin_step k cy sources (CreateUser uuid salt input actor) st = committed st (users_create k sources uuid salt input actor st)"
| "admin_step k cy sources (UpdateUser i input actor) st = committed st (users_update i input actor st)"
| "admin_step k cy sources (DeactivateUser now i actor) st = committed st (users_deactivate cy now i actor st)"
| "admin_step k cy sources (RemoveUser i actor) st = committed st (users_remove i actor st)"
| "admin_step k cy sources (ChangeOwnPassword now salt actor old new tok) st =
     committed st (changeOwnPassword k cy now salt actor old new tok st)"
| "admin_step k cy sources (ResetPassword now salt i new actor) st = committed st (resetPassword k cy now salt i new actor st)"
| "admin_step k cy sources (MoveAuthSource now salt i source pw actor) st =
     committed st (moveAuthSource k cy now sources salt i source pw actor st)"
| "admin_step k cy sources (CreateRole uuid input actor) st = snd (roles_create uuid input actor st)"
| "admin_step k cy sources (UpdateRole i input actor) st = snd (roles_update i input actor st)"
| "admin_step k cy sources (RemoveRole all i actor) st = snd (roles_remove all i actor st)"

text \<open>What the database's key generator owes: a new row's key is new.\<close>

fun fresh_key :: "admin_op \<Rightarrow> admin_state \<Rightarrow> bool" where
  "fresh_key (CreateUser uuid salt input actor) st \<longleftrightarrow> uuid \<notin> us_id ` set (ad_users st)"
| "fresh_key (CreateRole uuid input actor) st \<longleftrightarrow> uuid \<notin> ro_id ` set (ad_roles st)"
| "fresh_key _ st \<longleftrightarrow> True"

inductive admin_run :: "kdf \<Rightarrow> crypto \<Rightarrow> string list \<Rightarrow> admin_state \<Rightarrow> admin_state \<Rightarrow> bool" for k cy sources where
  Start: "admin_run k cy sources st st"
| Step: "admin_run k cy sources st st' \<Longrightarrow> fresh_key op st' \<Longrightarrow> admin_run k cy sources st (admin_step k cy sources op st')"

text \<open>Keys are unique, and a user's \<open>role\<close> and \<open>roleId\<close> name one row of the roles table.\<close>

definition accounts_ok :: "admin_state \<Rightarrow> bool" where
  "accounts_ok st \<longleftrightarrow>
     distinct (map us_id (ad_users st)) \<and> distinct (map ro_id (ad_roles st)) \<and> distinct (map ro_name (ad_roles st))
     \<and> (\<forall>u \<in> set (ad_users st). \<exists>r \<in> set (ad_roles st). ro_id r = us_roleId u \<and> ro_name r = us_role u)"

definition administered_by :: "string \<Rightarrow> admin_state \<Rightarrow> bool" where
  "administered_by permission st \<longleftrightarrow> (\<exists>u \<in> set (ad_users st). us_isActive u \<and> role_grants st permission u)"

definition administered :: "admin_state \<Rightarrow> bool" where
  "administered st \<longleftrightarrow> administered_by ''users:manage'' st \<and> administered_by ''settings:manage'' st"

lemma administered_iff: "administered st \<longleftrightarrow> (\<forall>q \<in> set ADMINISTRATIVE. administered_by q st)"
  by (simp add: administered_def ADMINISTRATIVE_def)

subsection \<open>Lookups by key\<close>

lemma find_key_iff:
  "distinct (map f xs) \<Longrightarrow> find_unique (\<lambda>x. f x = v) xs = Some x \<longleftrightarrow> x \<in> set xs \<and> f x = v"
  by (induction xs) (auto simp: image_iff)

lemma find_unique_member: "find_unique P xs = Some x \<Longrightarrow> x \<in> set xs \<and> P x"
  by (rule find_unique_Some)

lemma role_grants_iff:
  assumes "accounts_ok st"
  shows "role_grants st q u \<longleftrightarrow> (\<exists>r \<in> set (ad_roles st). ro_id r = us_roleId u \<and> q \<in> set (ro_permissions r))"
proof -
  have d: "distinct (map ro_id (ad_roles st))" using assms by (simp add: accounts_ok_def)
  show ?thesis
  proof (cases "role_ref st u")
    case None
    then have "\<forall>r \<in> set (ad_roles st). ro_id r \<noteq> us_roleId u"
      unfolding role_ref_def find_unique_def find_None_iff by auto
    with None show ?thesis by (auto simp: role_grants_def)
  next
    case (Some r)
    then have r: "r \<in> set (ad_roles st)" "ro_id r = us_roleId u" by (auto simp: role_ref_def dest: find_unique_member)
    have "r' = r" if "r' \<in> set (ad_roles st)" "ro_id r' = us_roleId u" for r'
      using find_key_iff [OF d, of "us_roleId u" r'] that Some by (simp add: role_ref_def)
    with r show ?thesis unfolding role_grants_def Some option.case by blast
  qed
qed

lemma assignable_row:
  assumes "assignableRoleId st name = Inr i"
  shows "\<exists>r \<in> set (ad_roles st). ro_id r = i \<and> ro_name r = name"
  using assms by (auto simp: assignableRoleId_def split: option.splits dest!: find_unique_member)

text \<open>Operations that leave roles alone and keep every account's key, role and activity.\<close>

definition account_view :: "user_row \<Rightarrow> string \<times> string \<times> string \<times> bool" where
  "account_view u = (us_id u, us_role u, us_roleId u, us_isActive u)"

lemma account_view_eq:
  "account_view u = account_view v \<longleftrightarrow>
     us_id u = us_id v \<and> us_role u = us_role v \<and> us_roleId u = us_roleId v \<and> us_isActive u = us_isActive v"
  by (simp add: account_view_def)

lemma map_update_user: "(\<And>u. g (f u) = g u) \<Longrightarrow> map g (update_user i f users) = map g users"
  by (simp add: update_user_def)

lemma view_keeps:
  assumes view: "map account_view (ad_users st') = map account_view (ad_users st)" and roles: "ad_roles st' = ad_roles st"
  shows "accounts_ok st \<longleftrightarrow> accounts_ok st'" "administered_by q st \<longleftrightarrow> administered_by q st'"
proof -
  have ids: "map us_id (ad_users st') = map us_id (ad_users st)"
    using arg_cong [OF view, of "map fst"] by (simp add: account_view_def comp_def)
  have eq: "account_view ` set (ad_users st') = account_view ` set (ad_users st)" using arg_cong [OF view, of set] by simp
  have im: "(\<exists>u \<in> set users. P (account_view u)) = (\<exists>v \<in> account_view ` set users. P v)" for P users by simp
  have P: "(\<exists>u \<in> set (ad_users st'). P (account_view u)) = (\<exists>u \<in> set (ad_users st). P (account_view u))" for P
    unfolding im eq ..
  have grants: "role_grants st' q u = role_grants st q u" for u by (simp add: role_grants_def role_ref_def roles)
  have g: "us_isActive u \<and> role_grants st q u \<longleftrightarrow> (case account_view u of (_, _, rid, a) \<Rightarrow> a \<and>
      (case find_unique (\<lambda>r. ro_id r = rid) (ad_roles st) of None \<Rightarrow> False | Some r \<Rightarrow> q \<in> set (ro_permissions r)))" for u
    by (simp add: account_view_def role_grants_def role_ref_def)
  show "administered_by q st \<longleftrightarrow> administered_by q st'" unfolding administered_by_def grants g P ..
  have o: "\<not> (\<exists>r \<in> set (ad_roles st). ro_id r = us_roleId u \<and> ro_name r = us_role u) \<longleftrightarrow>
      (case account_view u of (_, nm, rid, _) \<Rightarrow> \<not> (\<exists>r \<in> set (ad_roles st). ro_id r = rid \<and> ro_name r = nm))" for u
    by (simp add: account_view_def)
  have "(\<exists>u \<in> set (ad_users st'). \<not> (\<exists>r \<in> set (ad_roles st). ro_id r = us_roleId u \<and> ro_name r = us_role u))
    = (\<exists>u \<in> set (ad_users st). \<not> (\<exists>r \<in> set (ad_roles st). ro_id r = us_roleId u \<and> ro_name r = us_role u))"
    unfolding o P ..
  then show "accounts_ok st \<longleftrightarrow> accounts_ok st'" unfolding accounts_ok_def ids roles by blast
qed

subsection \<open>Every operation keeps the keys and an administrator\<close>

definition administrable :: "admin_state \<Rightarrow> bool" where
  "administrable st \<longleftrightarrow> accounts_ok st \<and> administered st"

lemma administrable_view:
  assumes "map account_view (ad_users st') = map account_view (ad_users st)" "ad_roles st' = ad_roles st" "administrable st"
  shows "administrable st'"
  using assms(3) view_keeps [OF assms(1,2)] unfolding administrable_def administered_def by blast

lemma administered_byI:
  assumes "accounts_ok st" "u \<in> set (ad_users st)" "us_isActive u" "r \<in> set (ad_roles st)" "ro_id r = us_roleId u" "q \<in> set (ro_permissions r)"
  shows "administered_by q st"
  unfolding administered_by_def using assms role_grants_iff [OF assms(1), of q u] by blast

lemma administered_byE:
  assumes "accounts_ok st" "administered_by q st"
  obtains u r where "u \<in> set (ad_users st)" "us_isActive u" "r \<in> set (ad_roles st)" "ro_id r = us_roleId u" "q \<in> set (ro_permissions r)"
  using assms(2) role_grants_iff [OF assms(1)] unfolding administered_by_def by blast

lemma update_user_member:
  "v \<in> set (update_user i f users) \<longleftrightarrow> (\<exists>u \<in> set users. v = (if us_id u = i then f u else u))"
  unfolding update_user_def set_map by blast

lemma length_positive: "length (filter P xs) \<noteq> 0 \<longleftrightarrow> (\<exists>x \<in> set xs. P x)"
  by (simp add: filter_empty_conv)

lemma last_administrator_None:
  assumes "last_administrator st i = None" "q \<in> set ADMINISTRATIVE"
  shows "\<exists>u \<in> set (ad_users st). us_isActive u \<and> us_id u \<noteq> i \<and> role_grants st q u"
proof -
  have "remaining st i q \<noteq> 0" using assms by (auto simp: last_administrator_def find_None_iff)
  then show ?thesis unfolding remaining_def length_positive .
qed

lemma users_create_keeps:
  assumes "administrable st" "uuid \<notin> us_id ` set (ad_users st)" "users_create k sources uuid salt input actor st = Inr st'"
  shows "administrable st'"
proof -
  obtain roleId u where role: "assignableRoleId st (na_role input) = Inr roleId" and us: "ad_users st' = ad_users st @ [u]"
    and u: "us_id u = uuid" "us_roleId u = roleId" "us_role u = na_role input" and ro: "ad_roles st' = ad_roles st"
    using assms(3) by (auto simp: users_create_def Let_def record_audit_def bind_err_def split: sum.splits if_splits)
  have ok: "accounts_ok st" using assms(1) by (simp add: administrable_def)
  have ok': "accounts_ok st'"
    using ok assms(2) assignable_row [OF role] u unfolding accounts_ok_def us ro by simp
  have "administered_by q st'" if "administered_by q st" for q
    using that unfolding administered_by_def us role_grants_iff [OF ok] role_grants_iff [OF ok'] ro by auto
  then show ?thesis using assms(1) ok' unfolding administrable_def administered_def by blast
qed

lemma users_update_write:
  assumes "users_update i input actor st = Inr st'"
  obtains before roleId where "find_user i st = Some before" "st' = write_account_patch i input roleId actor st"
    and "couldLoseAdministration input before \<Longrightarrow> last_administrator st i = None"
    and "ap_role input = None \<Longrightarrow> roleId = None"
    and "\<And>name. ap_role input = Some name \<Longrightarrow> \<exists>rid. roleId = Some rid \<and> assignableRoleId st name = Inr rid"
proof -
  obtain roleId where c: "check_account_patch i input actor st = Inr roleId" and w: "st' = write_account_patch i input roleId actor st"
    using assms by (auto simp: users_update_def bind_err_def split: sum.splits)
  obtain before where b: "find_user i st = Some before"
    using c by (auto simp: check_account_patch_def split: option.splits)
  show thesis
  proof (rule that [OF b w])
    show "last_administrator st i = None" if "couldLoseAdministration input before"
      using c b that by (auto simp: check_account_patch_def split: option.splits)
    show "roleId = None" if "ap_role input = None"
      using c b that by (auto simp: check_account_patch_def Let_def split: option.splits if_splits)
    show "\<exists>rid. roleId = Some rid \<and> assignableRoleId st name = Inr rid" if "ap_role input = Some name" for name
      using c b that by (auto simp: check_account_patch_def Let_def bind_err_def split: option.splits if_splits sum.splits)
  qed
qed

lemma write_account_patch_rows:
  "ad_users (write_account_patch i input roleId actor st) = update_user i (patched input roleId) (ad_users st)"
  "ad_roles (write_account_patch i input roleId actor st) = ad_roles st"
  by (simp_all add: write_account_patch_def record_audit_def)

lemma patched_sel [simp]:
  "us_id (patched input roleId u) = us_id u" "us_roleId (patched input roleId u) = or_else roleId (us_roleId u)"
  "us_role (patched input roleId u) = or_else (ap_role input) (us_role u)"
  "us_isActive (patched input roleId u) = or_else (ap_isActive input) (us_isActive u)"
  by (simp_all add: patched_def)

lemma or_else_simps [simp]: "or_else None d = d" "or_else (Some x) d = x"
  by (simp_all add: or_else_def)

lemma distinct_key_eq: "distinct (map f xs) \<Longrightarrow> x \<in> set xs \<Longrightarrow> y \<in> set xs \<Longrightarrow> f x = f y \<Longrightarrow> x = y"
  by (simp add: distinct_map inj_on_def)

lemma users_update_keeps:
  assumes "administrable st" "users_update i input actor st = Inr st'"
  shows "administrable st'"
proof -
  obtain before roleId where b: "find_user i st = Some before" and w: "st' = write_account_patch i input roleId actor st"
    and guard: "couldLoseAdministration input before \<Longrightarrow> last_administrator st i = None"
    and none: "ap_role input = None \<Longrightarrow> roleId = None"
    and some: "\<And>name. ap_role input = Some name \<Longrightarrow> \<exists>rid. roleId = Some rid \<and> assignableRoleId st name = Inr rid"
    using users_update_write [OF assms(2)] by metis
  have ok: "accounts_ok st" using assms(1) by (simp add: administrable_def)
  note rows = write_account_patch_rows [of i input roleId actor st, folded w]
  have ids: "map us_id (ad_users st') = map us_id (ad_users st)" unfolding rows by (rule map_update_user) simp
  have fk: "\<exists>r \<in> set (ad_roles st). ro_id r = us_roleId (patched input roleId u) \<and> ro_name r = us_role (patched input roleId u)"
    if "u \<in> set (ad_users st)" for u
  proof (cases "ap_role input")
    case None then show ?thesis using ok that none by (simp add: accounts_ok_def)
  next
    case (Some name) then show ?thesis using some [OF Some] assignable_row by fastforce
  qed
  have "\<exists>r \<in> set (ad_roles st). ro_id r = us_roleId v \<and> ro_name r = us_role v" if "v \<in> set (ad_users st')" for v
    using that fk ok unfolding rows update_user_member accounts_ok_def by (metis (full_types))
  then have ok': "accounts_ok st'" using ok unfolding accounts_ok_def ids rows(2) by blast
  have "administered_by q st'" if q: "q \<in> set ADMINISTRATIVE" for q
  proof (cases "couldLoseAdministration input before")
    case True
    from last_administrator_None [OF guard [OF True] q] obtain u r where "u \<in> set (ad_users st)" "us_isActive u" "us_id u \<noteq> i"
      "r \<in> set (ad_roles st)" "ro_id r = us_roleId u" "q \<in> set (ro_permissions r)" using role_grants_iff [OF ok] by blast
    then show ?thesis by (intro administered_byI [OF ok', of u r]) (auto simp: rows update_user_member)
  next
    case False
    have "administered_by q st" using assms(1) q by (simp add: administrable_def administered_iff)
    then obtain u r where u: "u \<in> set (ad_users st)" "us_isActive u" "r \<in> set (ad_roles st)" "ro_id r = us_roleId u" "q \<in> set (ro_permissions r)"
      by (rule administered_byE [OF ok])
    let ?v = "if us_id u = i then patched input roleId u else u"
    have "us_isActive ?v" using u(2) False by (cases "ap_isActive input") (auto simp: couldLoseAdministration_def)
    moreover have "us_roleId ?v = us_roleId u"
    proof (cases "us_id u = i \<and> ap_role input \<noteq> None")
      case True
      have before: "before \<in> set (ad_users st)" "us_id before = i" using b find_unique_member unfolding find_user_def by fastforce+
      then have "u = before" using distinct_key_eq [of us_id "ad_users st" u before] ok u(1) True by (simp add: accounts_ok_def)
      moreover have "ap_role input = Some (us_role before)" using True False by (auto simp: couldLoseAdministration_def)
      moreover obtain r' where r': "r' \<in> set (ad_roles st)" "ro_id r' = us_roleId before" "ro_name r' = us_role before"
        using ok before(1) by (auto simp: accounts_ok_def)
      ultimately obtain rid r2 where "roleId = Some rid" "r2 \<in> set (ad_roles st)" "ro_id r2 = rid" "ro_name r2 = us_role before"
        using some assignable_row by metis
      moreover have "r2 = r'" using distinct_key_eq [of ro_name "ad_roles st" r2 r'] ok calculation r' by (simp add: accounts_ok_def)
      ultimately show ?thesis using r' True \<open>u = before\<close> by simp
    next
      case False then show ?thesis using none by auto
    qed
    ultimately show ?thesis using u by (intro administered_byI [OF ok', of ?v r]) (auto simp: rows update_user_member)
  qed
  then show ?thesis using ok' by (simp add: administrable_def administered_iff)
qed

lemma users_remove_keeps:
  assumes "administrable st" "users_remove i actor st = Inr st'"
  shows "administrable st'"
proof -
  have last: "last_administrator st i = None" and us: "ad_users st' = filter (\<lambda>u. us_id u \<noteq> i) (ad_users st)" and ro: "ad_roles st' = ad_roles st"
    using assms(2) by (auto simp: users_remove_def Let_def record_audit_def delete_many_def split: option.splits if_splits)
  have ok: "accounts_ok st" using assms(1) by (simp add: administrable_def)
  then have ok': "accounts_ok st'" unfolding accounts_ok_def us ro by (simp add: distinct_map_filter)
  have "administered_by q st'" if q: "q \<in> set ADMINISTRATIVE" for q
  proof -
    obtain u where u: "u \<in> set (ad_users st)" "us_isActive u" "us_id u \<noteq> i" "role_grants st q u"
      using last_administrator_None [OF last q] by blast
    then show ?thesis unfolding administered_by_def role_grants_iff [OF ok'] role_grants_iff [OF ok] us ro by auto
  qed
  then show ?thesis using ok' by (simp add: administrable_def administered_iff)
qed

lemma invalidate_rows [simp]:
  "ad_users (snd (invalidate st)) = ad_users st" "ad_roles (snd (invalidate st)) = ad_roles st"
  by (simp_all add: invalidate_def split: sum.split)

lemma role_audit_rows [simp]:
  "ad_users (record_role_audit actor action i st) = ad_users st" "ad_roles (record_role_audit actor action i st) = ad_roles st"
  by (simp_all add: record_role_audit_def)

lemma roles_create_keeps:
  assumes "administrable st" "uuid \<notin> ro_id ` set (ad_roles st)"
  shows "administrable (snd (roles_create uuid input actor st))"
proof (cases "find_unique (\<lambda>r. ro_name r = nr_name input) (ad_roles st)")
  case (Some r) then show ?thesis using assms(1) by (simp add: roles_create_def)
next
  case None
  let ?st = "snd (roles_create uuid input actor st)"
  obtain r where us: "ad_users ?st = ad_users st" and ro: "ad_roles ?st = ad_roles st @ [r]" and r: "ro_id r = uuid" "ro_name r = nr_name input"
    using None by (simp add: roles_create_def)
  have new: "nr_name input \<notin> ro_name ` set (ad_roles st)" using None unfolding find_unique_def find_None_iff by auto
  have ok: "accounts_ok st" using assms(1) by (simp add: administrable_def)
  then have ok': "accounts_ok ?st" using assms(2) new r unfolding accounts_ok_def us ro by auto
  have "administered_by q ?st" if "administered_by q st" for q
    using that unfolding administered_by_def us role_grants_iff [OF ok] role_grants_iff [OF ok'] ro by auto
  then show ?thesis using assms(1) ok' unfolding administrable_def administered_def by blast
qed

lemma bex_map: "(\<exists>x \<in> set (map g xs). P x) = (\<exists>x \<in> set xs. P (g x))"
  by simp

lemma held_elsewhere_grants:
  assumes "accounts_ok st" "held_elsewhere st name q \<noteq> 0"
  shows "\<exists>u \<in> set (ad_users st). us_isActive u \<and>
    (\<exists>r \<in> set (ad_roles st). ro_id r = us_roleId u \<and> ro_name r \<noteq> name \<and> q \<in> set (ro_permissions r))"
proof -
  have "\<exists>u \<in> set (ad_users st). us_isActive u \<and>
      (case role_ref st u of None \<Rightarrow> False | Some r \<Rightarrow> ro_name r \<noteq> name \<and> q \<in> set (ro_permissions r))"
    using assms(2) unfolding held_elsewhere_def length_positive .
  then obtain u where u: "u \<in> set (ad_users st)" "us_isActive u"
    and c: "case role_ref st u of None \<Rightarrow> False | Some r \<Rightarrow> ro_name r \<noteq> name \<and> q \<in> set (ro_permissions r)" by blast
  show ?thesis
  proof (cases "role_ref st u")
    case None then show ?thesis using c by simp
  next
    case (Some r)
    then have "r \<in> set (ad_roles st) \<and> ro_id r = us_roleId u" unfolding role_ref_def by (rule find_unique_member)
    with u c Some show ?thesis by (intro bexI [of _ u]) auto
  qed
qed

lemma roles_update_keeps:
  assumes "administrable st"
  shows "administrable (snd (roles_update i input actor st))"
proof (cases "snd (roles_update i input actor st) = st")
  case True then show ?thesis using assms by simp
next
  case False
  let ?st = "snd (roles_update i input actor st)"
  let ?g = "\<lambda>r. if ro_id r = i then r \<lparr> ro_description := or_else (rp_description input) (ro_description r),
      ro_permissions := or_else (rp_permissions input) (ro_permissions r) \<rparr> else r"
  obtain before where b: "before \<in> set (ad_roles st)" "ro_id before = i"
    and survives: "Option.bind (rp_permissions input) (assertAdministrationSurvives st (ro_name before)) = None"
    and us: "ad_users ?st = ad_users st" and ro: "ad_roles ?st = map ?g (ad_roles st)"
    using False by (auto simp: roles_update_def write_role_patch_def update_many_def dest: find_unique_member split: option.splits)
  have g: "ro_id (?g r) = ro_id r" "ro_name (?g r) = ro_name r" for r by simp_all
  have ok: "accounts_ok st" using assms by (simp add: administrable_def)
  have m: "map ro_id (map ?g (ad_roles st)) = map ro_id (ad_roles st)" "map ro_name (map ?g (ad_roles st)) = map ro_name (ad_roles st)"
    by (simp_all add: comp_def)
  have e: "(\<exists>r \<in> set (map ?g (ad_roles st)). ro_id r = a \<and> ro_name r = nm) = (\<exists>r \<in> set (ad_roles st). ro_id r = a \<and> ro_name r = nm)" for a nm
    unfolding bex_map g ..
  have ok': "accounts_ok ?st" using ok unfolding accounts_ok_def us ro m e .
  have "administered_by q ?st" if q: "q \<in> set ADMINISTRATIVE" for q
  proof -
    have same: "administered_by q ?st" if "u \<in> set (ad_users st)" "us_isActive u" "r \<in> set (ad_roles st)" "ro_id r = us_roleId u"
      "q \<in> set (ro_permissions (?g r))" for u r
      using that by (intro administered_byI [OF ok', of u "?g r"]) (auto simp: us ro)
    have "administered_by q st" using assms q by (simp add: administrable_def administered_iff)
    then obtain u r where u: "u \<in> set (ad_users st)" "us_isActive u" "r \<in> set (ad_roles st)" "ro_id r = us_roleId u" "q \<in> set (ro_permissions r)"
      by (rule administered_byE [OF ok])
    show ?thesis
    proof (cases "rp_permissions input")
      case None then show ?thesis using same [OF u(1-4)] u(5) by simp
    next
      case (Some ps)
      then have none: "q \<in> set ps \<or> held_elsewhere st (ro_name before) q \<noteq> 0"
        using survives q by (auto simp: assertAdministrationSurvives_def find_None_iff)
      then show ?thesis
      proof
        assume "q \<in> set ps" then show ?thesis using same [OF u(1-4)] Some u(5) by simp
      next
        assume "held_elsewhere st (ro_name before) q \<noteq> 0"
        from held_elsewhere_grants [OF ok this] obtain u' r' where u': "u' \<in> set (ad_users st)" "us_isActive u'" "r' \<in> set (ad_roles st)"
          "ro_id r' = us_roleId u'" "ro_name r' \<noteq> ro_name before" "q \<in> set (ro_permissions r')" by blast
        moreover have "ro_id r' \<noteq> i" using distinct_key_eq [of ro_id "ad_roles st" r' before] ok u' b by (auto simp: accounts_ok_def)
        ultimately show ?thesis using same [OF u'(1-4)] by simp
      qed
    qed
  qed
  then show ?thesis using ok' by (simp add: administrable_def administered_iff)
qed

lemma roles_remove_keeps:
  assumes "administrable st"
  shows "administrable (snd (roles_remove all i actor st))"
proof (cases "snd (roles_remove all i actor st) = st")
  case True then show ?thesis using assms by simp
next
  case False
  let ?st = "snd (roles_remove all i actor st)"
  have unused: "\<forall>u \<in> set (ad_users st). us_roleId u \<noteq> i"
    and us: "ad_users ?st = ad_users st" and ro: "ad_roles ?st = filter (\<lambda>r. ro_id r \<noteq> i) (ad_roles st)"
    using False by (auto simp: roles_remove_def Let_def delete_many_def filter_empty_conv split: option.splits if_splits)
  have ok: "accounts_ok st" using assms by (simp add: administrable_def)
  then have ok': "accounts_ok ?st" using unused unfolding accounts_ok_def us ro by (fastforce simp: distinct_map_filter)
  have "administered_by q ?st" if "administered_by q st" for q
  proof -
    from that obtain u r where "u \<in> set (ad_users st)" "us_isActive u" "r \<in> set (ad_roles st)" "ro_id r = us_roleId u" "q \<in> set (ro_permissions r)"
      by (rule administered_byE [OF ok])
    then show ?thesis using unused by (intro administered_byI [OF ok', of u r]) (simp_all add: us ro)
  qed
  then show ?thesis using assms ok' unfolding administrable_def administered_def by blast
qed

lemma set_password_view: "map account_view (ad_users (set_password i h st)) = map account_view (ad_users st)" "ad_roles (set_password i h st) = ad_roles st"
  by (simp_all add: set_password_def map_update_user account_view_def)

lemma record_audit_rows [simp]:
  "ad_users (record_audit actor action kind i st) = ad_users st" "ad_roles (record_audit actor action kind i st) = ad_roles st"
  "ad_tokens (record_audit actor action kind i st) = ad_tokens st"
  by (simp_all add: record_audit_def)

lemma password_ops_keep:
  assumes "administrable st"
  shows "changeOwnPassword k cy now salt actor old new tok st = Inr st' \<Longrightarrow> administrable st'"
    and "resetPassword k cy now salt i new actor st = Inr st' \<Longrightarrow> administrable st'"
    and "moveAuthSource k cy now sources salt i source pw actor st = Inr st' \<Longrightarrow> administrable st'"
proof -
  show "administrable st'" if "changeOwnPassword k cy now salt actor old new tok st = Inr st'"
    by (rule administrable_view [OF _ _ assms])
      (use that set_password_view in \<open>auto simp: changeOwnPassword_def Let_def bind_err_def split: option.splits if_splits sum.splits\<close>)
  show "administrable st'" if "resetPassword k cy now salt i new actor st = Inr st'"
    by (rule administrable_view [OF _ _ assms])
      (use that set_password_view in \<open>auto simp: resetPassword_def Let_def bind_err_def split: option.splits if_splits sum.splits\<close>)
  show "administrable st'" if "moveAuthSource k cy now sources salt i source pw actor st = Inr st'"
    by (rule administrable_view [OF _ _ assms])
      (use that in \<open>auto simp: moveAuthSource_def Let_def bind_err_def account_view_def comp_def update_user_def split: option.splits if_splits sum.splits\<close>)
qed

lemma users_deactivate_keeps:
  assumes "administrable st" "users_deactivate cy now i actor st = Inr st'"
  shows "administrable st'"
proof -
  obtain st1 where u: "users_update i deactivation actor st = Inr st1"
    and st': "st' = st1 \<lparr> ad_tokens := revokeAllForUser cy now i None (ad_tokens st1) \<rparr>"
    using assms(2) by (auto simp: users_deactivate_def bind_err_def split: sum.splits)
  show ?thesis by (rule administrable_view [OF _ _ users_update_keeps [OF assms(1) u]]) (simp_all add: st')
qed

lemma committed_keeps: "P st \<Longrightarrow> (\<And>st'. res = Inr st' \<Longrightarrow> P st') \<Longrightarrow> P (committed st res)"
  by (simp add: committed_def split: sum.split)

lemma admin_step_keeps:
  assumes "administrable st" "fresh_key op st"
  shows "administrable (admin_step k cy sources op st)"
proof -
  note keep = committed_keeps [of administrable, OF assms(1)]
  show ?thesis
  proof (cases op)
    case (CreateUser uuid salt input actor)
    have "uuid \<notin> us_id ` set (ad_users st)" using assms(2) unfolding CreateUser by simp
    then show ?thesis unfolding CreateUser admin_step.simps by (rule keep [OF users_create_keeps [OF assms(1)]])
  next
    case (CreateRole uuid input actor)
    then show ?thesis using roles_create_keeps [OF assms(1)] assms(2) by simp
  next
    case (UpdateUser i input actor)
    show ?thesis unfolding UpdateUser admin_step.simps by (rule keep [OF users_update_keeps [OF assms(1)]])
  next
    case (DeactivateUser now i actor)
    show ?thesis unfolding DeactivateUser admin_step.simps by (rule keep [OF users_deactivate_keeps [OF assms(1)]])
  next
    case (RemoveUser i actor)
    show ?thesis unfolding RemoveUser admin_step.simps by (rule keep [OF users_remove_keeps [OF assms(1)]])
  next
    case (ChangeOwnPassword now salt actor old new tok)
    show ?thesis unfolding ChangeOwnPassword admin_step.simps by (rule keep [OF password_ops_keep(1) [OF assms(1)]])
  next
    case (ResetPassword now salt i new actor)
    show ?thesis unfolding ResetPassword admin_step.simps by (rule keep [OF password_ops_keep(2) [OF assms(1)]])
  next
    case (MoveAuthSource now salt i source pw actor)
    show ?thesis unfolding MoveAuthSource admin_step.simps by (rule keep [OF password_ops_keep(3) [OF assms(1)]])
  qed (simp_all add: roles_update_keeps roles_remove_keeps assms(1))
qed

lemma hashPassword_verifies:
  assumes "hashPassword k salt plaintext = Inr stored" "salt \<noteq> []"
    and "\<And>pw s n ps d. kdf_scrypt k pw s n ps = Some d \<Longrightarrow> length d = n"
  shows "verifyPassword k plaintext stored"
proof -
  obtain derived where d: "kdf_scrypt k (kdf_normalize k plaintext) salt keyLength (scrypt_N, scrypt_r, scrypt_p) = Some derived"
    using assms(1) by (auto simp: hashPassword_def split: if_splits option.splits)
  then have l: "length derived = keyLength" by (rule assms(3))
  then have "derived \<noteq> []" by (auto simp: keyLength_def)
  from parseHash_hashPassword [OF assms(1,2) d this] d l show ?thesis by (simp add: verifyPassword_def)
qed

section \<open>Properties\<close>

text \<open>
  C8. The deployment can always be administered. Whatever sequence of account and role operations runs,
  one after the other and each refused or committed as the code decides, from a state in which some
  active user's role grants \<open>users:manage\<close> and some active user's role grants \<open>settings:manage\<close>, both are
  still so at the end; keys stay unique and every account's \<open>role\<close> and \<open>roleId\<close> name one existing role.
\<close>

theorem administration_survives:
  assumes "admin_run k cy sources st st'" "accounts_ok st" "administered st"
  shows "accounts_ok st' \<and> administered st'"
proof -
  from assms(1) have "administrable st \<Longrightarrow> administrable st'"
    by (induction rule: admin_run.induct) (simp_all add: admin_step_keeps)
  then show ?thesis using assms(2,3) by (simp add: administrable_def)
qed

lemma revoked_all:
  assumes "x \<in> set (revokeAllForUser cy now i None rows)" "rf_userId x = i"
  shows "rf_revokedAt x \<noteq> None"
proof -
  have "set (revokeAllForUser cy now i None rows)
      = (\<lambda>r. if rf_userId r = i \<and> rf_revokedAt r = None then r \<lparr> rf_revokedAt := Some now \<rparr> else r) ` set rows"
    by (simp add: revokeAllForUser_def update_many_def)
  with assms(1) obtain r where "x = (if rf_userId r = i \<and> rf_revokedAt r = None then r \<lparr> rf_revokedAt := Some now \<rparr> else r)"
    by blast
  with assms(2) show ?thesis by (cases "rf_userId r = i \<and> rf_revokedAt r = None") auto
qed

lemma revoked_others:
  "filter (\<lambda>x. rf_userId x \<noteq> i) (revokeAllForUser cy now i None rows) = filter (\<lambda>x. rf_userId x \<noteq> i) rows"
  by (induction rows) (simp_all add: revokeAllForUser_def update_many_def)

lemma deactivated_member:
  assumes "v \<in> set (update_user i (patched deactivation None) users)" "us_isActive v"
  shows "v \<in> set users \<and> us_id v \<noteq> i"
proof -
  obtain u where u: "u \<in> set users" "v = (if us_id u = i then patched deactivation None u else u)"
    using assms(1) unfolding update_user_member by blast
  show ?thesis
  proof (cases "us_id u = i")
    case True
    then have "us_isActive v = False" using u(2) by (simp add: deactivation_def)
    then show ?thesis using assms(2) by simp
  next
    case False then show ?thesis using u by simp
  qed
qed

text \<open>
  C38. Two administrators can lock everybody out together. When the only two active holders of
  \<open>users:manage\<close> deactivate each other, each transaction's checks pass on the state both of them read; once
  both have written, nobody can administer the deployment. Run one after the other, the second is refused.
\<close>

theorem concurrent_deactivations_lose_administration:
  assumes "find_user a st = Some ua" "find_user b st = Some ub" "a \<noteq> b"
    and "\<forall>q \<in> set ADMINISTRATIVE. us_isActive ua \<and> role_grants st q ua \<and> us_isActive ub \<and> role_grants st q ub"
    and "\<forall>u \<in> set (ad_users st). us_isActive u \<and> role_grants st ''users:manage'' u \<longrightarrow> us_id u = a \<or> us_id u = b"
    and "pr_userId pa = a" "pr_userId pb = b"
  shows "check_account_patch b deactivation pa st = Inr None \<and> check_account_patch a deactivation pb st = Inr None
    \<and> \<not> administered (write_account_patch a deactivation None pb (write_account_patch b deactivation None pa st))
    \<and> (\<exists>e. users_update a deactivation pb (write_account_patch b deactivation None pa st) = Inl (Conflict e))"
proof -
  have row: "ua \<in> set (ad_users st)" "us_id ua = a" "ub \<in> set (ad_users st)" "us_id ub = b"
    using assms(1,2) find_unique_member unfolding find_user_def by fastforce+
  have lone: "last_administrator st' i = None"
    if "v \<in> set (ad_users st')" "us_id v \<noteq> i" "\<forall>q \<in> set ADMINISTRATIVE. us_isActive v \<and> role_grants st' q v" for st' v i
    using that by (auto simp: last_administrator_def find_None_iff remaining_def filter_empty_conv)
  have "check_account_patch b deactivation pa st = Inr None"
    using lone [OF row(1), of b] assms row by (simp add: check_account_patch_def deactivation_def)
  moreover have "check_account_patch a deactivation pb st = Inr None"
    using lone [OF row(3), of a] assms row by (simp add: check_account_patch_def deactivation_def)
  moreover
  let ?st1 = "write_account_patch b deactivation None pa st"
  have grants: "role_grants (write_account_patch i deactivation None p s) q u = role_grants s q u" for i p s q u
    by (simp add: role_grants_def role_ref_def write_account_patch_rows)
  have only: "us_id v = a" if "v \<in> set (ad_users ?st1)" "us_isActive v" "role_grants st ''users:manage'' v" for v
    using that assms(5) deactivated_member unfolding write_account_patch_rows by blast
  have "\<not> administered_by ''users:manage'' (write_account_patch a deactivation None pb ?st1)"
  proof
    assume "administered_by ''users:manage'' (write_account_patch a deactivation None pb ?st1)"
    then obtain v where "v \<in> set (update_user a (patched deactivation None) (ad_users ?st1))" "us_isActive v"
      "role_grants st ''users:manage'' v" unfolding administered_by_def grants write_account_patch_rows(1) [of a] by blast
    with deactivated_member only show False by blast
  qed
  then have "\<not> administered (write_account_patch a deactivation None pb ?st1)" by (simp add: administered_def)
  moreover have "\<exists>e. users_update a deactivation pb ?st1 = Inl (Conflict e)"
  proof -
    have "remaining ?st1 a ''users:manage'' = 0"
      unfolding remaining_def grants length_0_conv filter_empty_conv using only by blast
    then have "\<exists>e. last_administrator ?st1 a = Some (Conflict e)" by (simp add: last_administrator_def ADMINISTRATIVE_def)
    moreover have "find_user a ?st1 = Some ua"
      using assms(1,3) row unfolding find_user_def write_account_patch_rows update_user_def
      by (subst find_unique_map_keeps) (auto simp: row)
    ultimately show ?thesis
      by (auto simp: users_update_def check_account_patch_def couldLoseAdministration_def deactivation_def bind_err_def)
  qed
  ultimately show ?thesis by blast
qed

text \<open>
  C29. A password reset takes the account back. Afterwards the account's stored hash accepts the new
  password, none of its sessions counts as active, and each of its refresh tokens is refused as revoked;
  the tokens of other accounts are as they were.
\<close>

theorem password_reset_ends_sessions:
  assumes "resetPassword k cy now salt i new actor st = Inr st'" "salt \<noteq> []"
    and "\<And>pw s n ps d. kdf_scrypt k pw s n ps = Some d \<Longrightarrow> length d = n"
    and "find_token cy t (ad_tokens st') = Some r" "rf_userId r = i"
  shows "(\<exists>u h. find_user i st' = Some u \<and> us_passwordHash u = Some h \<and> verifyPassword k new h)
    \<and> activeSessions later i st' = 0
    \<and> rotate cy opts later resolve t ctx d (ad_tokens st') = (Inl (RefreshTokenError REVOKED), ad_tokens st')
    \<and> filter (\<lambda>x. rf_userId x \<noteq> i) (ad_tokens st') = filter (\<lambda>x. rf_userId x \<noteq> i) (ad_tokens st)"
proof -
  obtain u h where u: "find_user i st = Some u" and h: "hashPassword k salt new = Inr h"
    and st': "st' = (let s = record_audit actor ''user.password.reset'' ''User'' i (set_password i (Some h) st)
        in s \<lparr> ad_tokens := revokeAllForUser cy now i None (ad_tokens s) \<rparr>)"
    using assms(1) by (auto simp: resetPassword_def hash_or_fail_def bind_err_def split: option.splits if_splits sum.splits)
  have users: "ad_users st' = update_user i (\<lambda>u. u \<lparr> us_passwordHash := Some h \<rparr>) (ad_users st)"
    and tokens: "ad_tokens st' = revokeAllForUser cy now i None (ad_tokens st)"
    by (simp_all add: st' Let_def set_password_def)
  have "us_id u = i" using u find_unique_member unfolding find_user_def by fastforce
  then have "find_user i st' = Some (u \<lparr> us_passwordHash := Some h \<rparr>)"
    using u unfolding find_user_def users update_user_def by (subst find_unique_map_keeps) auto
  moreover have "verifyPassword k new h" using hashPassword_verifies [OF h assms(2,3)] .
  moreover note dead = revoked_all [of _ cy now i "ad_tokens st", folded tokens]
  have "activeSessions later i st' = 0" using dead by (auto simp: activeSessions_def filter_empty_conv)
  moreover have "rotate cy opts later resolve t ctx d (ad_tokens st') = (Inl (RefreshTokenError REVOKED), ad_tokens st')"
    using dead [of r] find_token_Some [OF assms(4)] assms(4,5) by (auto simp: rotate_def rotate_read_def)
  moreover have "filter (\<lambda>x. rf_userId x \<noteq> i) (ad_tokens st') = filter (\<lambda>x. rf_userId x \<noteq> i) (ad_tokens st)"
    unfolding tokens by (rule revoked_others)
  ultimately show ?thesis by auto
qed

section \<open>Witnesses\<close>

text \<open>One role grants both permissions; two active users hold it.\<close>

definition demo_role :: role_row where
  "demo_role = \<lparr> ro_id = ''r1'', ro_name = ''ADMIN'', ro_description = None,
     ro_permissions = [''users:manage'', ''settings:manage''], ro_builtIn = True \<rparr>"

definition demo_admin :: "string \<Rightarrow> user_row" where
  "demo_admin i = \<lparr> us_id = i, us_email = i, us_displayName = i, us_passwordHash = None, us_role = ''ADMIN'', us_roleId = ''r1'',
     us_isActive = True, us_authSource = ''local'', us_directoryId = None, us_lastLoginAt = None,
     us_failedLoginAttempts = 0, us_lockedUntil = None \<rparr>"

definition demo_token :: refresh_row where
  "demo_token = \<lparr> rf_id = ''t1'', rf_userId = ''b'', rf_tokenHash = hashToken demo_crypto ''tok'', rf_familyId = ''f1'', rf_expiresAt = 99,
     rf_consumedAt = None, rf_revokedAt = None, rf_userAgent = None, rf_ipAddress = None \<rparr>"

definition demo_state :: admin_state where
  "demo_state = \<lparr> ad_users = [demo_admin ''a'', demo_admin ''b''], ad_roles = [demo_role], ad_tokens = [demo_token],
     ad_queries = [], ad_audit = [], ad_registry = [] \<rparr>"

lemmas demo_state_defs = demo_state_def demo_admin_def demo_role_def demo_token_def

lemma demo_state_grants:
  "q \<in> set ADMINISTRATIVE \<Longrightarrow> role_grants demo_state q (demo_admin i)"
  by (auto simp: role_grants_def role_ref_def demo_state_defs ADMINISTRATIVE_def)

lemma demo_state_ok: "accounts_ok demo_state" "administered demo_state"
proof -
  show "accounts_ok demo_state" by (simp add: accounts_ok_def demo_state_defs)
  show "administered demo_state" by (simp add: administered_def administered_by_def role_grants_def role_ref_def demo_state_defs)
qed

theorem administration_survives_witness:
  "accounts_ok (admin_step demo_kdf demo_crypto [] (DeactivateUser 5 ''b'' demo_principal) demo_state)
   \<and> administered (admin_step demo_kdf demo_crypto [] (DeactivateUser 5 ''b'' demo_principal) demo_state)"
proof (rule administration_survives)
  show "admin_run demo_kdf demo_crypto [] demo_state (admin_step demo_kdf demo_crypto [] (DeactivateUser 5 ''b'' demo_principal) demo_state)"
    by (rule admin_run.Step [OF admin_run.Start]) simp
qed (fact demo_state_ok)+

theorem concurrent_deactivations_witness:
  "\<not> administered (write_account_patch ''a'' deactivation None (demo_principal \<lparr> pr_userId := ''b'' \<rparr>)
      (write_account_patch ''b'' deactivation None (demo_principal \<lparr> pr_userId := ''a'' \<rparr>) demo_state))"
proof -
  have "find_user ''a'' demo_state = Some (demo_admin ''a'')" "find_user ''b'' demo_state = Some (demo_admin ''b'')"
    by (simp_all add: find_user_def demo_state_defs)
  moreover have "\<forall>u \<in> set (ad_users demo_state). us_isActive u \<and> role_grants demo_state ''users:manage'' u \<longrightarrow> us_id u = ''a'' \<or> us_id u = ''b''"
    by (simp add: demo_state_defs)
  moreover have "us_isActive (demo_admin i)" for i by (simp add: demo_admin_def)
  ultimately show ?thesis
    using concurrent_deactivations_lose_administration [of "''a''" demo_state "demo_admin ''a''" "''b''" "demo_admin ''b''"
      "demo_principal \<lparr> pr_userId := ''a'' \<rparr>" "demo_principal \<lparr> pr_userId := ''b'' \<rparr>"] demo_state_grants by simp
qed

definition demo_reset :: admin_state where
  "demo_reset = committed demo_state (resetPassword demo_kdf demo_crypto 5 ''salt'' ''b'' ''secret'' demo_principal demo_state)"

theorem password_reset_ends_sessions_witness:
  "activeSessions 6 ''b'' demo_reset = 0"
proof -
  obtain h where h: "hashPassword demo_kdf ''salt'' ''secret'' = Inr h" by (simp add: hashPassword_def demo_kdf_def)
  then have r: "resetPassword demo_kdf demo_crypto 5 ''salt'' ''b'' ''secret'' demo_principal demo_state = Inr demo_reset"
    by (simp add: resetPassword_def demo_reset_def committed_def find_user_def hash_or_fail_def bind_err_def Let_def demo_state_defs)
  have l: "kdf_scrypt demo_kdf pw s n ps = Some d \<Longrightarrow> length d = n" for pw s n ps d by (auto simp: demo_kdf_def)
  have "ad_tokens demo_reset = [demo_token \<lparr> rf_revokedAt := Some 5 \<rparr>]"
    using h by (simp add: demo_reset_def committed_def resetPassword_def find_user_def hash_or_fail_def bind_err_def Let_def
        set_password_def revokeAllForUser_def update_many_def demo_state_defs)
  then have t: "find_token demo_crypto ''tok'' (ad_tokens demo_reset) = Some (demo_token \<lparr> rf_revokedAt := Some 5 \<rparr>)"
    by (simp add: find_token_def demo_token_def)
  show ?thesis using password_reset_ends_sessions [where later = 6, OF r _ l t] by (simp add: demo_token_def)
qed

end
