(* ===== verification/StableText.thy ===== *)
theory StableText
  imports RuleEvaluator
begin

text \<open>
  How the projection compares facts (\<open>stableEquals\<close>, \<open>stableStringify\<close> of
  \<open>apps/api/src/puppetdb/node-projection.service.ts\<close>): as text that does not depend on the order of
  keys. Equal texts come from equal values up to that order, and values equal up to that order are
  the same to the rule evaluator.
\<close>

section \<open>The text\<close>

text \<open>\<open>JSON.stringify\<close> of a string.\<close>

definition hex_digit :: "nat \<Rightarrow> char" where
  "hex_digit n = (if n < 10 then char_of (48 + n) else char_of (87 + n))"

definition json_escape :: "char \<Rightarrow> string" where
  "json_escape c =
     (if c = CHR 0x22 then [CHR 0x5C, CHR 0x22]
      else if c = CHR 0x5C then [CHR 0x5C, CHR 0x5C]
      else if c = CHR 0x08 then [CHR 0x5C, CHR ''b'']
      else if c = CHR 0x09 then [CHR 0x5C, CHR ''t'']
      else if c = CHR 0x0A then [CHR 0x5C, CHR ''n'']
      else if c = CHR 0x0C then [CHR 0x5C, CHR ''f'']
      else if c = CHR 0x0D then [CHR 0x5C, CHR ''r'']
      else if (of_char c :: nat) < 32
      then [CHR 0x5C, CHR ''u'', CHR ''0'', CHR ''0'', hex_digit (of_char c div 16), hex_digit (of_char c mod 16)]
      else [c])"

definition json_quote :: "string \<Rightarrow> string" where
  "json_quote s = CHR 0x22 # concat (map json_escape s) @ [CHR 0x22]"

definition entry_order :: "string \<times> 'a \<Rightarrow> string \<times> 'a \<Rightarrow> int" where
  "entry_order x y = cmp_str (fst x) (fst y)"

definition entry_text :: "string \<times> string \<Rightarrow> string" where
  "entry_text e = json_quote (fst e) @ CHR '':'' # snd e"

text \<open>
  The keys are sorted after the values have been turned into text, which changes nothing: the order looks
  at the keys only. \<open>JSON.stringify(value) ?? 'null'\<close> of a function is \<open>null\<close>.
\<close>

fun stableStringify :: "jsval \<Rightarrow> string" where
  "stableStringify JNull = ''null''"
| "stableStringify (JBool b) = (if b then ''true'' else ''false'')"
| "stableStringify (JNum n) = num_str n"
| "stableStringify (JStr s) = json_quote s"
| "stableStringify (JArr vs) = CHR ''['' # join '','' (map stableStringify vs) @ '']''"
| "stableStringify (JObj o1) =
     CHR ''{'' # join '','' (map entry_text (js_sort entry_order (map (\<lambda>(k, v). (k, stableStringify v)) o1))) @ ''}''"
| "stableStringify (JNative src) = ''null''"
| "stableStringify (JProto p) = (if p = ''Array'' then ''[]'' else ''{}'')"

definition stableEquals :: "jsval \<Rightarrow> jsval \<Rightarrow> bool" where
  "stableEquals a b \<longleftrightarrow> stableStringify a = stableStringify b"

section \<open>Reading the text back\<close>

text \<open>What follows a value inside a larger text.\<close>

definition delimiters :: "char set" where
  "delimiters = {CHR '','', CHR '']'', CHR ''}''}"

definition delimited :: "string \<Rightarrow> bool" where
  "delimited r \<longleftrightarrow> r = [] \<or> hd r \<in> delimiters"

subsection \<open>Strings\<close>

lemma plain_escape: "json_escape c = [c] \<or> (\<exists>d. json_escape c = [CHR 0x5C, d] \<and> d \<noteq> CHR ''u'') \<or>
    (\<exists>h l. json_escape c = [CHR 0x5C, CHR ''u'', CHR ''0'', CHR ''0'', h, l])"
  by (simp add: json_escape_def)

definition escaped_chars :: "char list" where
  "escaped_chars = CHR 0x22 # CHR 0x5C # map char_of [0..<32::nat]"

lemma escaped_chars_iff: "c \<in> set escaped_chars \<longleftrightarrow> json_escape c \<noteq> [c]"
proof -
  have "(of_char c :: nat) < 32 \<longleftrightarrow> c \<in> char_of ` {0..<32::nat}"
  proof
    assume "(of_char c :: nat) < 32"
    then show "c \<in> char_of ` {0..<32::nat}" by (intro image_eqI [of _ _ "of_char c"]) simp_all
  qed auto
  moreover have "json_escape c \<noteq> [c] \<longleftrightarrow> c = CHR 0x22 \<or> c = CHR 0x5C \<or> (of_char c :: nat) < 32"
    by (auto simp: json_escape_def)
  ultimately show ?thesis by (simp add: escaped_chars_def)
qed

lemma escapes_distinct: "distinct (map json_escape escaped_chars)"
  by code_simp


lemma json_escape_inj:
  assumes "json_escape c @ x = json_escape d @ y"
  shows "c = d \<and> x = y"
proof -
  have special: "c = d" if "json_escape c \<noteq> [c]" "json_escape d \<noteq> [d]" "json_escape c = json_escape d"
  proof -
    have "c \<in> set escaped_chars" "d \<in> set escaped_chars" using that by (simp_all only: escaped_chars_iff not_False_eq_True)
    with that(3) escapes_distinct show ?thesis unfolding distinct_map inj_on_def by blast
  qed
  have slash: "json_escape (CHR 0x5C) \<noteq> [CHR 0x5C]" by (simp add: json_escape_def)
  show ?thesis
  proof (cases "json_escape c = [c] \<or> json_escape d = [d]")
    case True
    then show ?thesis
    proof
      assume c: "json_escape c = [c]"
      with plain_escape [of d] assms slash show ?thesis by auto
    next
      assume d: "json_escape d = [d]"
      with plain_escape [of c] assms slash show ?thesis by auto
    qed
  next
    case False
    with plain_escape [of c] plain_escape [of d] assms have "json_escape c = json_escape d \<and> x = y" by auto
    with False special show ?thesis by blast
  qed
qed

lemma json_escape_head: "json_escape c \<noteq> [] \<and> hd (json_escape c) \<noteq> CHR 0x22"
  by (simp add: json_escape_def)

lemma escaped_text_inj:
  "concat (map json_escape s) @ CHR 0x22 # r = concat (map json_escape t) @ CHR 0x22 # r' \<Longrightarrow> s = t \<and> r = r'"
proof (induction s arbitrary: t)
  case Nil
  show ?case
  proof (cases t)
    case Nil
    with \<open>concat (map json_escape []) @ CHR 0x22 # r = _\<close> show ?thesis by simp
  next
    case (Cons d u)
    with Nil json_escape_head [of d] show ?thesis by (cases "json_escape d") auto
  qed
next
  case (Cons c s)
  show ?case
  proof (cases t)
    case Nil
    with Cons.prems json_escape_head [of c] show ?thesis by (cases "json_escape c") auto
  next
    case (Cons d u)
    with Cons.prems have "json_escape c @ (concat (map json_escape s) @ CHR 0x22 # r) = json_escape d @ (concat (map json_escape u) @ CHR 0x22 # r')"
      by simp
    from json_escape_inj [OF this] Cons.IH Cons show ?thesis by blast
  qed
qed

lemma json_quote_inj: "json_quote s @ r = json_quote t @ r' \<Longrightarrow> s = t \<and> r = r'"
  using escaped_text_inj [of s r t r'] by (simp add: json_quote_def)

subsection \<open>Numbers\<close>

definition number_chars :: "char set" where
  "number_chars = set ''0123456789-+.e''"

lemma digit_char_number: "n < 10 \<Longrightarrow> digit_char n \<in> number_chars - {CHR ''-''}"
proof -
  have "list_all (\<lambda>n. digit_char n \<in> number_chars - {CHR ''-''}) [0..<10]" by code_simp
  then show "n < 10 \<Longrightarrow> digit_char n \<in> number_chars - {CHR ''-''}" by (simp add: list_all_iff)
qed

lemma int_dec_chars: "0 \<le> n \<Longrightarrow> set (int_dec n) \<subseteq> number_chars \<and> int_dec n \<noteq> []"
proof (induction n rule: int_dec.induct)
  case (1 n)
  have d: "digit_char (nat (n mod 10)) \<in> number_chars" using digit_char_number [of "nat (n mod 10)"] by auto
  show ?case
  proof (cases "n < 10")
    case True
    then show ?thesis using digit_char_number [of "nat n"] 1 by (simp add: int_dec.simps [of n])
  next
    case False
    then show ?thesis using 1 d by (simp add: int_dec.simps [of n])
  qed
qed

lemma decimal_candidates_pos:
  assumes "(s, n) \<in> set (decimal_candidates x k)" "0 < x"
  shows "0 \<le> s"
proof -
  have "0 \<le> x * pow10 (int k - (rat_log 10 pow10 x + 1))" using assms(2) by (simp add: pow10_def)
  then have "0 \<le> \<lfloor>x * pow10 (int k - (rat_log 10 pow10 x + 1))\<rfloor>" by simp
  then show ?thesis using assms(1) by (auto simp: decimal_candidates_def Let_def split: if_splits)
qed

lemma shortest_from_pos: "0 < x \<Longrightarrow> shortest_from fuel x k = (s, k', n) \<Longrightarrow> 0 \<le> s"
proof (induction fuel x k rule: shortest_from.induct)
  case (2 fuel x k)
  show ?case
  proof (cases "decimal_candidates x k")
    case Nil
    with 2 show ?thesis by simp
  next
    case (Cons e es)
    obtain s0 n0 where e: "e = (s0, n0)" by (cases e)
    from Cons e 2(3) have "s = s0" by simp
    moreover have "(s0, n0) \<in> set (decimal_candidates x k)" using Cons e by simp
    ultimately show ?thesis using decimal_candidates_pos 2(2) by blast
  qed
qed simp

lemma format_decimal_chars:
  assumes "0 \<le> s"
  shows "set (format_decimal s k n) \<subseteq> number_chars \<and> format_decimal s k n \<noteq> []"
proof -
  note ds = int_dec_chars [OF assms]
  have lits: "CHR ''e'' \<in> number_chars" "CHR ''+'' \<in> number_chars" "CHR ''-'' \<in> number_chars"
    "CHR ''.'' \<in> number_chars" "CHR ''0'' \<in> number_chars"
    by (simp_all add: number_chars_def)
  have nat: "set (nat_str m) \<subseteq> number_chars" for m using int_dec_chars [of "int m"] by (simp add: nat_str_def)
  have part: "set (take m (int_dec s)) \<subseteq> number_chars" "set (drop m (int_dec s)) \<subseteq> number_chars" for m
    by (rule subset_trans [OF set_take_subset conjunct1 [OF ds]], rule subset_trans [OF set_drop_subset conjunct1 [OF ds]])
  have zeros: "set (replicate m CHR ''0'') \<subseteq> number_chars" for m using lits(5) by auto
  show ?thesis by (simp add: format_decimal_def Let_def ds lits nat part zeros)
qed

lemma num_str_chars: "set (num_str x) \<subseteq> number_chars \<and> num_str x \<noteq> []"
proof (cases "x = 0")
  case True
  then show ?thesis by (simp add: num_str_def number_chars_def)
next
  case False
  obtain s k n where r: "shortest_from 17 \<bar>x\<bar> 1 = (s, k, n)" by (metis prod_cases3)
  have "0 \<le> s" using shortest_from_pos [OF _ r] False by simp
  note f = format_decimal_chars [OF this, of k n]
  have "num_str x = (if x < 0 then CHR ''-'' # format_decimal s k n else format_decimal s k n)"
    unfolding num_str_def r Let_def prod.case using False by (rule if_not_P)
  moreover have "CHR ''-'' \<in> number_chars" by (simp add: number_chars_def)
  ultimately show ?thesis using f by simp
qed

lemma number_ends:
  assumes "set s \<subseteq> number_chars" "set t \<subseteq> number_chars" "delimited r" "delimited r'" "s @ r = t @ r'"
  shows "s = t \<and> r = r'"
proof -
  have stop: "takeWhile (\<lambda>c. c \<in> number_chars) (s @ r) = s" if "set s \<subseteq> number_chars" "delimited r" for s r
  proof -
    have "hd r \<notin> number_chars" if "r \<noteq> []"
      using that \<open>delimited r\<close> by (auto simp: delimited_def delimiters_def number_chars_def)
    then have "takeWhile (\<lambda>c. c \<in> number_chars) r = []" by (cases r) auto
    then show ?thesis using that by (simp add: takeWhile_append2 subset_iff)
  qed
  from stop [OF assms(1,3)] stop [OF assms(2,4)] assms(5) have "s = t" by metis
  with assms(5) show ?thesis by simp
qed

subsection \<open>Values\<close>

fun numbers_in :: "jsval \<Rightarrow> rat list" where
  "numbers_in (JNum n) = [n]"
| "numbers_in (JArr vs) = concat (map numbers_in vs)"
| "numbers_in (JObj o1) = concat (map (\<lambda>(k, v). numbers_in v) o1)"
| "numbers_in _ = []"

text \<open>
  \<open>Number::toString\<close> prints different numbers differently; here, of the numbers of two values.
\<close>

definition numbers_apart :: "jsval \<Rightarrow> jsval \<Rightarrow> bool" where
  "numbers_apart a b \<longleftrightarrow> list_all (\<lambda>m. list_all (\<lambda>n. num_str m = num_str n \<longrightarrow> m = n) (numbers_in b)) (numbers_in a)"

definition reads :: "('a \<Rightarrow> string) \<Rightarrow> ('b \<Rightarrow> string) \<Rightarrow> ('a \<Rightarrow> 'b \<Rightarrow> bool) \<Rightarrow> 'a \<Rightarrow> 'b \<Rightarrow> bool" where
  "reads f g P x y \<longleftrightarrow> (\<forall>r r'. delimited r \<longrightarrow> delimited r' \<longrightarrow> f x @ r = g y @ r' \<longrightarrow> P x y \<and> r = r')"

definition starts_value :: "string \<Rightarrow> bool" where
  "starts_value t \<longleftrightarrow> t \<noteq> [] \<and> hd t \<notin> delimiters"

lemma join_comma: "join '','' (t # ts) = t @ (if ts = [] then [] else CHR '','' # join '','' ts)"
  by (cases ts) simp_all

lemma delimited_simps [simp]: "delimited (c # r) \<longleftrightarrow> c \<in> delimiters"
  by (simp add: delimited_def)

lemma reads_sequence:
  assumes "\<And>x y. x \<in> set xs \<Longrightarrow> y \<in> set ys \<Longrightarrow> reads f g P x y"
    and "\<And>x. x \<in> set xs \<Longrightarrow> starts_value (f x)" "\<And>y. y \<in> set ys \<Longrightarrow> starts_value (g y)"
    and "z \<in> {CHR '']'', CHR ''}''}"
    and "join '','' (map f xs) @ z # r = join '','' (map g ys) @ z # r'"
  shows "list_all2 P xs ys \<and> r = r'"
  using assms
proof (induction xs arbitrary: ys)
  case Nil
  show ?case
  proof (cases ys)
    case (Cons y us)
    with Nil.prems(3) [of y] Nil.prems(4,5) show ?thesis
      by (cases "g y") (auto simp: join_comma starts_value_def delimiters_def)
  qed (use Nil.prems(5) in simp)
next
  case (Cons x xs)
  have z: "z \<in> delimiters" "z \<noteq> CHR '',''" using Cons.prems(4) by (auto simp: delimiters_def)
  show ?case
  proof (cases ys)
    case Nil
    with Cons.prems(2) [of x] Cons.prems(5) z show ?thesis
      by (cases "f x") (auto simp: join_comma starts_value_def)
  next
    case (Cons y us)
    define rest where "rest = (if xs = [] then [] else CHR '','' # join '','' (map f xs)) @ z # r"
    define rest' where "rest' = (if us = [] then [] else CHR '','' # join '','' (map g us)) @ z # r'"
    have "delimited rest" "delimited rest'" using z by (simp_all add: rest_def rest'_def delimiters_def)
    moreover have "f x @ rest = g y @ rest'"
      using Cons.prems(5) by (simp add: Cons join_comma rest_def rest'_def)
    ultimately have P: "P x y" and rest: "rest = rest'"
      using Cons.prems(1) [of x y] Cons by (auto simp: reads_def)
    show ?thesis
    proof (cases "xs = [] \<or> us = []")
      case True
      with rest z P show ?thesis by (auto simp: rest_def rest'_def Cons split: if_splits)
    next
      case False
      with rest have "join '','' (map f xs) @ z # r = join '','' (map g us) @ z # r'" by (simp add: rest_def rest'_def)
      from Cons.IH [OF _ _ _ Cons.prems(4) this] Cons.prems(1-3) P show ?thesis by (auto simp: Cons)
    qed
  qed
qed

lemma sorted_entries:
  "js_sort entry_order (map (\<lambda>(k, v). (k, f v)) o1) = map (\<lambda>(k, v). (k, f v)) (js_sort entry_order o1)"
proof -
  have "(\<lambda>a b. entry_order ((\<lambda>(k, v). (k, f v)) a) ((\<lambda>(k, v). (k, f v)) b)) = entry_order"
    by (simp add: fun_eq_iff entry_order_def split_def)
  then show ?thesis by (simp add: js_sort_map)
qed

lemma map_of_js_sort: "distinct (keys o1) \<Longrightarrow> map_of (js_sort entry_order o1) = map_of o1"
  by (subst map_of_inject_set) (simp_all add: distinct_map_js_sort)

lemma list_all2_map_of:
  "list_all2 (\<lambda>(k, v) (k', v'). k = k' \<and> f v = f v') xs ys \<Longrightarrow> map_option f (map_of xs k) = map_option f (map_of ys k)"
  by (induction rule: list_all2_induct) auto

fun value_tag :: "jsval \<Rightarrow> nat" where
  "value_tag (JBool b) = 1"
| "value_tag (JNum n) = 2"
| "value_tag (JStr s) = 3"
| "value_tag (JArr vs) = 4"
| "value_tag (JObj o1) = 5"
| "value_tag _ = 0"

definition char_tag :: "char \<Rightarrow> nat" where
  "char_tag c =
     (if c = CHR ''t'' \<or> c = CHR ''f'' then 1 else if c \<in> number_chars then 2 else if c = CHR 0x22 then 3
      else if c = CHR ''['' then 4 else if c = CHR ''{'' then 5 else 0)"

lemma text_head:
  assumes "json_value v"
  shows "stableStringify v \<noteq> [] \<and> char_tag (hd (stableStringify v)) = value_tag v"
proof (cases v)
  case (JNum n)
  have "hd (num_str n) \<in> number_chars" using num_str_chars [of n] by (metis hd_in_set subsetD)
  moreover have "CHR ''t'' \<notin> number_chars" "CHR ''f'' \<notin> number_chars" by (simp_all add: number_chars_def)
  ultimately have "char_tag (hd (num_str n)) = 2" by (auto simp: char_tag_def)
  then show ?thesis using num_str_chars [of n] JNum by simp
qed (use assms in \<open>simp_all add: char_tag_def number_chars_def json_quote_def\<close>)

lemma text_starts: "json_value v \<Longrightarrow> starts_value (stableStringify v)"
proof -
  assume "json_value v"
  note h = text_head [OF this]
  have d: "char_tag c = 0 \<or> c \<notin> delimiters" "c \<in> delimiters \<Longrightarrow> c \<noteq> CHR ''n''" for c
    by (auto simp: delimiters_def char_tag_def number_chars_def)
  have "hd (stableStringify v) \<notin> delimiters"
  proof (cases "v = JNull")
    case False
    with \<open>json_value v\<close> have "value_tag v \<noteq> 0" by (cases v) auto
    with h d(1) show ?thesis by metis
  qed (simp add: delimiters_def)
  with h show ?thesis by (simp add: starts_value_def)
qed

lemma tags_agree:
  assumes "json_value a" "json_value b" "stableStringify a @ r = stableStringify b @ r'"
  shows "value_tag a = value_tag b"
proof -
  have "hd (stableStringify a @ r) = hd (stableStringify b @ r')" using assms(3) by simp
  with text_head [OF assms(1)] text_head [OF assms(2)] show ?thesis by (metis hd_append2)
qed

lemma numbers_apart_sub:
  "numbers_apart a b \<Longrightarrow> set (numbers_in a') \<subseteq> set (numbers_in a) \<Longrightarrow> set (numbers_in b') \<subseteq> set (numbers_in b) \<Longrightarrow> numbers_apart a' b'"
  by (auto simp: numbers_apart_def list_all_iff)

lemma entry_reads:
  assumes "reads stableStringify stableStringify (\<lambda>a b. canon a = canon b) v w"
  shows "reads (\<lambda>(k, v). entry_text (k, stableStringify v)) (\<lambda>(k, v). entry_text (k, stableStringify v))
    (\<lambda>(k, v) (k', v'). k = k' \<and> canon v = canon v') (k, v) (k', w)"
  unfolding reads_def
proof (intro allI impI)
  fix r r'
  assume e: "delimited r" "delimited r'"
    and eq: "(case (k, v) of (k, v) \<Rightarrow> entry_text (k, stableStringify v)) @ r = (case (k', w) of (k, v) \<Rightarrow> entry_text (k, stableStringify v)) @ r'"
  then have "json_quote k @ (CHR '':'' # stableStringify v @ r) = json_quote k' @ (CHR '':'' # stableStringify w @ r')"
    by (simp add: entry_text_def)
  from json_quote_inj [OF this] have "k = k'" "stableStringify v @ r = stableStringify w @ r'" by simp_all
  with assms e show "(case (k, v) of (k, v) \<Rightarrow> \<lambda>(k', v'). k = k' \<and> canon v = canon v') (k', w) \<and> r = r'"
    by (simp add: reads_def)
qed

lemma entry_starts: "starts_value (entry_text e)"
  by (simp add: starts_value_def entry_text_def json_quote_def delimiters_def)

lemma stableStringify_reads:
  "json_value a \<Longrightarrow> json_value b \<Longrightarrow> numbers_apart a b \<Longrightarrow>
     reads stableStringify stableStringify (\<lambda>a b. canon a = canon b) a b"
proof (induction "vsize a" arbitrary: a b rule: less_induct)
  case less
  show ?case
    unfolding reads_def
  proof (intro allI impI)
    fix r r'
    assume e: "delimited r" "delimited r'" and eq: "stableStringify a @ r = stableStringify b @ r'"
    from tags_agree [OF less.prems(1,2) eq] have tag: "value_tag a = value_tag b" .
    show "canon a = canon b \<and> r = r'"
    proof (cases a)
      case JNull
      with tag less.prems(2) have "b = JNull" by (cases b) auto
      with JNull eq show ?thesis by simp
    next
      case (JBool x)
      with tag obtain y where "b = JBool y" by (cases b) auto
      with JBool eq show ?thesis by (cases x; cases y) auto
    next
      case (JNum m)
      with tag obtain n where b: "b = JNum n" by (cases b) auto
      from number_ends [OF conjunct1 [OF num_str_chars] conjunct1 [OF num_str_chars] e, of m n] eq JNum b
      have "num_str m = num_str n" "r = r'" by simp_all
      with less.prems(3) JNum b show ?thesis by (simp add: numbers_apart_def)
    next
      case (JStr s)
      with tag obtain t where b: "b = JStr t" by (cases b) auto
      from eq have "json_quote s @ r = json_quote t @ r'" unfolding JStr b stableStringify.simps .
      from json_quote_inj [OF this] JStr b show ?thesis by simp
    next
      case (JArr vs)
      with tag obtain ws where b: "b = JArr ws" by (cases b) auto
      have "list_all2 (\<lambda>a b. canon a = canon b) vs ws \<and> r = r'"
      proof (rule reads_sequence)
        fix v w
        assume m: "v \<in> set vs" "w \<in> set ws"
        have "numbers_apart v w" by (rule numbers_apart_sub [OF less.prems(3)]) (use m JArr b in auto)
        moreover have "json_value v" "json_value w" using less.prems(1,2) m JArr b by (auto simp: list_all_iff)
        ultimately show "reads stableStringify stableStringify (\<lambda>a b. canon a = canon b) v w"
          using less.hyps vsize_arr [OF m(1)] JArr by blast
      qed (use less.prems(1,2) JArr b eq in \<open>auto simp: list_all_iff intro: text_starts\<close>)
      then show ?thesis by (simp add: JArr b list.rel_eq [symmetric] list.rel_map)
    next
      case (JObj xs)
      with tag obtain ys where b: "b = JObj ys" by (cases b) auto
      have dist: "distinct (keys xs)" "distinct (keys ys)" using less.prems(1,2) JObj b by simp_all
      let ?t = "\<lambda>(k, v). entry_text (k, stableStringify v)"
      have rendered: "map entry_text (js_sort entry_order (map (\<lambda>(k, v). (k, stableStringify v)) es)) = map ?t (js_sort entry_order es)" for es
        unfolding sorted_entries by (simp add: split_def)
      have "list_all2 (\<lambda>(k, v) (k', v'). k = k' \<and> canon v = canon v') (js_sort entry_order xs) (js_sort entry_order ys) \<and> r = r'"
      proof (rule reads_sequence)
        fix x y
        assume "x \<in> set (js_sort entry_order xs)" "y \<in> set (js_sort entry_order ys)"
        then have x: "x \<in> set xs" and y: "y \<in> set ys" by (simp_all only: set_js_sort)
        obtain k v k' w where xy: "x = (k, v)" "y = (k', w)" by (cases x; cases y) blast
        with x y have m: "(k, v) \<in> set xs" "(k', w) \<in> set ys" by simp_all
        have "numbers_apart v w" by (rule numbers_apart_sub [OF less.prems(3)]) (use m JObj b in auto)
        moreover have "json_value v" "json_value w" using less.prems(1,2) m JObj b by (auto simp: list_all_iff)
        ultimately have "reads stableStringify stableStringify (\<lambda>a b. canon a = canon b) v w"
          using less.hyps vsize_obj [OF m(1)] JObj by blast
        then show "reads ?t ?t (\<lambda>(k, v) (k', v'). k = k' \<and> canon v = canon v') x y" unfolding xy by (rule entry_reads)
      next
        show "join '','' (map ?t (js_sort entry_order xs)) @ CHR ''}'' # r = join '','' (map ?t (js_sort entry_order ys)) @ CHR ''}'' # r'"
          using eq unfolding JObj b stableStringify.simps rendered by simp
      qed (auto simp: entry_starts)
      then have "map_option canon (oget xs k) = map_option canon (oget ys k)" "r = r'" for k
        using list_all2_map_of [of canon "js_sort entry_order xs" "js_sort entry_order ys" k]
          map_of_js_sort [OF dist(1)] map_of_js_sort [OF dist(2)] by auto
      then show ?thesis unfolding JObj b canon_obj_eq_iff [OF dist] by blast
    qed (use less.prems(1) in auto)
  qed
qed

lemma stableEquals_canon:
  assumes "json_value a" "json_value b" "numbers_apart a b" "stableEquals a b"
  shows "canon a = canon b"
proof -
  have "delimited []" by (simp add: delimited_def)
  with stableStringify_reads [OF assms(1-3)] assms(4) show ?thesis by (auto simp: reads_def stableEquals_def)
qed

lemma entry_order_key: "entry_order = key_cmp fst cmp_str"
  by (simp add: fun_eq_iff entry_order_def key_cmp_def)

interpretation entry_cmp: comparator entry_order
  unfolding entry_order_key by (rule comparator_key [OF cmp_str.comparator_axioms])

lemma sort_by_lookup:
  assumes "distinct (map fst xs)" "distinct (map fst ys)" "map_of xs = map_of ys"
  shows "js_sort entry_order xs = js_sort entry_order ys"
proof (rule entry_cmp.js_sort_order_free)
  have "set xs = set ys" using map_of_inject_set [OF assms(1,2)] assms(3) by blast
  moreover have "distinct xs" "distinct ys" using assms(1,2) by (simp_all add: distinct_map)
  ultimately show "mset xs = mset ys" by (simp add: set_eq_iff_mset_eq_distinct)
  show "\<forall>x \<in> set xs. \<forall>y \<in> set xs. entry_order x y = 0 \<longrightarrow> x = y"
  proof (intro ballI impI)
    fix x y
    assume m: "x \<in> set xs" "y \<in> set xs" and "entry_order x y = 0"
    then have "fst x = fst y" by (simp add: entry_order_def)
    with m assms(1) show "x = y" unfolding distinct_map inj_on_def by blast
  qed
qed

lemma canon_stableStringify:
  "json_value a \<Longrightarrow> json_value b \<Longrightarrow> canon a = canon b \<Longrightarrow> stableStringify a = stableStringify b"
proof (induction "vsize a" arbitrary: a b rule: less_induct)
  case less
  show ?case
  proof (cases a)
    case (JArr vs)
    with canon_eq_shape [OF less.prems(3)] obtain ws where b: "b = JArr ws" and eq: "map canon vs = map canon ws" by auto
    have "map stableStringify vs = map stableStringify ws"
    proof (rule nth_equalityI)
      show len: "length (map stableStringify vs) = length (map stableStringify ws)" using map_eq_imp_length_eq [OF eq] by simp
      fix i
      assume "i < length (map stableStringify vs)"
      then have i: "i < length vs" "i < length ws" using len by simp_all
      moreover from i eq have "canon (vs ! i) = canon (ws ! i)" by (metis nth_map)
      moreover have "vsize (vs ! i) < vsize a" unfolding JArr using i by (intro vsize_arr) simp
      ultimately have "stableStringify (vs ! i) = stableStringify (ws ! i)"
        using less.hyps [of "vs ! i" "ws ! i"] less.prems(1,2) JArr b by (simp add: list_all_length)
      with i show "map stableStringify vs ! i = map stableStringify ws ! i" by simp
    qed
    with JArr b show ?thesis by simp
  next
    case (JObj xs)
    with canon_eq_shape [OF less.prems(3)] obtain ys where b: "b = JObj ys" by auto
    have dist: "distinct (keys xs)" "distinct (keys ys)" using less.prems(1,2) JObj b by simp_all
    have eq: "map_option canon (oget xs k) = map_option canon (oget ys k)" for k
      using less.prems(3) by (simp only: JObj b canon_obj_eq_iff [OF dist])
    let ?xs = "map (\<lambda>(k, v). (k, stableStringify v)) xs" and ?ys = "map (\<lambda>(k, v). (k, stableStringify v)) ys"
    have "map_option stableStringify (oget xs k) = map_option stableStringify (oget ys k)" for k
    proof (cases "oget xs k")
      case None
      with eq [of k] show ?thesis by simp
    next
      case (Some v)
      with eq [of k] obtain w where w: "oget ys k = Some w" "canon v = canon w" by (cases "oget ys k") auto
      have "vsize v < vsize a" unfolding JObj using Some by (rule vsize_oget)
      moreover have "json_value v" "json_value w"
        using json_value_oget [of xs k v] json_value_oget [of ys k w] less.prems(1,2) JObj b Some w by blast+
      ultimately have "stableStringify v = stableStringify w" using less.hyps w(2) by blast
      with Some w show ?thesis by simp
    qed
    then have "map_of ?xs = map_of ?ys" by (simp add: fun_eq_iff map_of_map_snd del: map_map)
    moreover have d: "distinct (map fst ?xs)" "distinct (map fst ?ys)" unfolding keys_canon using dist .
    ultimately have "js_sort entry_order ?xs = js_sort entry_order ?ys" by (intro sort_by_lookup)
    then show ?thesis unfolding JObj b stableStringify.simps by simp
  qed (use canon_eq_shape [OF less.prems(3)] in \<open>simp_all\<close>)
qed

lemma stableEquals_iff:
  assumes "json_value a" "json_value b" "numbers_apart a b"
  shows "stableEquals a b \<longleftrightarrow> canon a = canon b"
  using stableEquals_canon [OF assms] canon_stableStringify [OF assms(1,2)] by (auto simp: stableEquals_def)

section \<open>Rules do not see the order of keys\<close>

text \<open>Two values a rule cannot tell apart: JSON values equal up to the order of keys, or the same value.\<close>

definition alike :: "jsval \<Rightarrow> jsval \<Rightarrow> bool" where
  "alike a b \<longleftrightarrow> a = b \<or> json_value a \<and> json_value b \<and> canon a = canon b"

lemma alike_refl [simp]: "alike a a"
  by (simp add: alike_def)

lemma js_get_alike:
  assumes "alike a b"
  shows "rel_option alike (js_get a k) (js_get b k)"
proof (cases "a = b")
  case True
  then show ?thesis by (simp add: option.rel_refl)
next
  case False
  with assms have j: "json_value a" "json_value b" and eq: "canon a = canon b" by (auto simp: alike_def)
  show ?thesis
  proof (cases a)
    case (JArr vs)
    with canon_eq_shape [OF eq] obtain ws where b: "b = JArr ws" and ws: "map canon vs = map canon ws" by auto
    then have len: "length vs = length ws" by (metis length_map)
    have "alike (vs ! i) (ws ! i)" if "i < length ws" for i
      using that len ws j JArr b by (auto simp: alike_def list_all_length dest: arg_cong [where f = "\<lambda>xs. xs ! i"])
    then show ?thesis unfolding JArr b by (simp add: len option.rel_refl split: option.split)
  next
    case (JObj xs)
    with canon_eq_shape [OF eq] obtain ys where b: "b = JObj ys" by auto
    have dist: "distinct (keys xs)" "distinct (keys ys)" using j JObj b by simp_all
    have m: "map_option canon (oget xs k) = map_option canon (oget ys k)"
      using eq by (simp only: JObj b canon_obj_eq_iff [OF dist])
    show ?thesis
    proof (cases "oget xs k")
      case None
      with m JObj b show ?thesis by (simp add: option.rel_refl)
    next
      case (Some v)
      with m obtain w where w: "oget ys k = Some w" "canon v = canon w" by (cases "oget ys k") auto
      have "json_value v" "json_value w"
        using json_value_oget [of xs k v] json_value_oget [of ys k w] j JObj b Some w by blast+
      with w have "alike v w" by (simp add: alike_def)
      with JObj b Some w show ?thesis by simp
    qed
  qed (use canon_eq_shape [OF eq] False in auto)
qed

lemma alike_scalar:
  assumes "alike a b"
  shows "is_object a = is_object b" "\<not> is_object a \<Longrightarrow> a = b" "a = JNull \<longleftrightarrow> b = JNull"
  using assms by (cases a; cases b; simp add: alike_def)+

lemma resolve_segments_alike:
  "alike a b \<Longrightarrow> rel_option alike (resolve_segments a ss) (resolve_segments b ss)"
proof (induction ss arbitrary: a b)
  case (Cons s ss)
  show ?case
  proof (cases "js_get a s")
    case None
    with js_get_alike [OF Cons.prems, of s] alike_scalar [OF Cons.prems] show ?thesis by auto
  next
    case (Some v)
    with js_get_alike [OF Cons.prems, of s] obtain w where "js_get b s = Some w" "alike v w" by (auto simp: option_rel_Some1)
    with Some Cons.IH alike_scalar [OF Cons.prems] show ?thesis by auto
  qed
qed simp

lemma toNumber_alike: "alike a b \<Longrightarrow> toNumber (Some a) = toNumber (Some b)"
  by (cases a; cases b) (auto simp: alike_def toNumber_def)

lemma applyOperator_alike:
  assumes "rel_option alike x y"
  shows "applyOperator re op x e = applyOperator re op y e"
proof (cases x)
  case None
  with assms show ?thesis by simp
next
  case (Some a)
  with assms obtain b where y: "y = Some b" and ab: "alike a b" by (auto simp: option_rel_Some1)
  note s = alike_scalar [OF ab]
  have loose: "looseScalarEquals (Some a) e = looseScalarEquals (Some b) e" for e
    using s by (auto simp: looseScalarEquals_def split: option.split)
  have regex: "matchesRegex re (Some a) e = matchesRegex re (Some b) e"
    using s by (auto simp: matchesRegex_def split: option.split jsval.split)
  show ?thesis unfolding Some y
    by (cases op) (simp_all add: loose regex compareNumeric_def toNumber_alike [OF ab])
qed

lemma groupMatches_alike:
  assumes "alike (JObj f) (JObj g)"
  shows "groupMatches re \<lparr> en_certname = c, en_facts = f \<rparr> grp = groupMatches re \<lparr> en_certname = c, en_facts = g \<rparr> grp"
proof -
  have "evaluateRule re f rule = evaluateRule re g rule" for rule
    unfolding evaluateRule_def resolveFactPath_def
    by (rule applyOperator_alike) (simp add: resolve_segments_alike [OF assms])
  then have "evaluateRule re f = evaluateRule re g" by (simp add: fun_eq_iff)
  then show ?thesis by (simp add: groupMatches_def split: match_strategy.split)
qed

lemma matchGroups_alike:
  assumes "alike (JObj f) (JObj g)"
  shows "matchGroups re lc \<lparr> en_certname = c, en_facts = f \<rparr> groups = matchGroups re lc \<lparr> en_certname = c, en_facts = g \<rparr> groups"
proof -
  have "groupMatches re \<lparr> en_certname = c, en_facts = f \<rparr> = groupMatches re \<lparr> en_certname = c, en_facts = g \<rparr>"
    by (rule ext) (rule groupMatches_alike [OF assms])
  then show ?thesis by (simp only: matchGroups_def)
qed

end
