(* ===== verification/PuppetDb.thy ===== *)
theory PuppetDb
  imports Database StableText
begin

text \<open>
  Reading PuppetDB: the queries (\<open>puppetdb/pql-builder.ts\<close>), the shape of the answers
  (\<open>puppetdb/puppetdb.mapper.ts\<close>) and the client that joins them (\<open>puppetdb/puppetdb.client.ts\<close>). The
  service itself is a parameter: what it answers to an endpoint, a query and the paging parameters, or
  the failure it ends with. A query is the JSON array the code builds.
\<close>

section \<open>Queries\<close>

abbreviation ast :: "jsval list \<Rightarrow> jsval" where
  "ast \<equiv> JArr"

abbreviation op2 :: "string \<Rightarrow> string \<Rightarrow> jsval \<Rightarrow> jsval" where
  "op2 f field v \<equiv> JArr [JStr f, JStr field, v]"

datatype fact_operator = FC_EQUALS | FC_NOT_EQUALS | FC_MATCHES_REGEX | FC_IN | FC_EXISTS | FC_NOT_EXISTS

text \<open>The schema gives \<open>IN\<close> a list of strings, the two existence tests no value and the others one scalar.\<close>

record fact_filter =
  ff_path :: string
  ff_operator :: fact_operator
  ff_value :: "jsval option"

record node_filter =
  nf_facts :: "fact_filter list option"
  nf_certnameContains :: "string option"
  nf_environments :: "string list option"
  nf_statuses :: "string list option"
  nf_staleBefore :: "string option"
  nf_factsChangedSince :: "string option"
  nf_includeInactive :: bool

record resource_filter =
  rs_type :: string
  rs_title :: "string option"
  rs_titleContains :: "string option"
  rs_environments :: "string list option"
  rs_facts :: "fact_filter list option"
  rs_parameters :: "fact_filter list option"
  rs_exported :: "bool option"

record page_request =
  pg_limit :: nat
  pg_offset :: nat
  pg_orderBy :: "string option"
  pg_order :: string

definition regex_metachars :: string where
  "regex_metachars = ''.*+?^${}()|[]'' @ [CHR 0x5C]"

definition escapeRegex :: "string \<Rightarrow> string" where
  "escapeRegex literal = concat (map (\<lambda>c. if c \<in> set regex_metachars then [CHR 0x5C, c] else [c]) literal)"

definition SORTABLE :: "string list" where
  "SORTABLE = [''certname'', ''report_timestamp'', ''facts_timestamp'', ''catalog_timestamp'', ''latest_report_status'',
     ''receive_time'', ''start_time'', ''end_time'']"

definition SORTABLE_ALIASES :: "jsval obj" where
  "SORTABLE_ALIASES = [(''reportTimestamp'', JStr ''report_timestamp''), (''factsTimestamp'', JStr ''facts_timestamp''),
     (''catalogTimestamp'', JStr ''catalog_timestamp''), (''latestReportStatus'', JStr ''latest_report_status'')]"

text \<open>The table is a plain object, so a name it inherits resolves to what is inherited.\<close>

definition resolveOrderBy :: "string option \<Rightarrow> string" where
  "resolveOrderBy field =
     (case field of
        None \<Rightarrow> ''certname''
      | Some f \<Rightarrow>
          (case (case js_get (JObj SORTABLE_ALIASES) f of None \<Rightarrow> JStr f | Some v \<Rightarrow> v) of
             JStr resolved \<Rightarrow> if resolved \<in> set SORTABLE then resolved else ''certname''
           | _ \<Rightarrow> ''certname''))"

definition condition_values :: "fact_filter \<Rightarrow> jsval list" where
  "condition_values f = (case ff_value f of Some (JArr vs) \<Rightarrow> vs | _ \<Rightarrow> [])"

definition condition_value :: "fact_filter \<Rightarrow> jsval" where
  "condition_value f = (case ff_value f of None \<Rightarrow> JNull | Some v \<Rightarrow> v)"

definition condition_clause :: "string \<Rightarrow> fact_filter \<Rightarrow> jsval" where
  "condition_clause field f =
     (case ff_operator f of
        FC_EQUALS \<Rightarrow> op2 ''='' field (condition_value f)
      | FC_NOT_EQUALS \<Rightarrow> ast [JStr ''and'', op2 ''~'' field (JStr ''.*''), ast [JStr ''not'', op2 ''='' field (condition_value f)]]
      | FC_MATCHES_REGEX \<Rightarrow> op2 ''~'' field (JStr (js_string (condition_value f)))
      | FC_IN \<Rightarrow> ast (JStr ''or'' # map (op2 ''='' field) (condition_values f))
      | FC_EXISTS \<Rightarrow> op2 ''~'' field (JStr ''.*'')
      | FC_NOT_EXISTS \<Rightarrow> ast [JStr ''not'', op2 ''~'' field (JStr ''.*'')])"

definition factClauses :: "fact_filter list \<Rightarrow> jsval list" where
  "factClauses facts =
     map (\<lambda>f. ast [JStr ''in'', JStr ''certname'',
                 ast [JStr ''from'', JStr ''inventory'',
                   ast [JStr ''extract'', JStr ''certname'', condition_clause (''facts.'' @ ff_path f) f]]]) facts"

definition parameterClauses :: "fact_filter list \<Rightarrow> jsval list" where
  "parameterClauses parameters = map (\<lambda>f. condition_clause (''parameters.'' @ ff_path f) f) parameters"

text \<open>Optional clauses: absent, or given but empty, adds none.\<close>

definition given_list :: "'a list option \<Rightarrow> ('a list \<Rightarrow> jsval list) \<Rightarrow> jsval list" where
  "given_list v f = (case v of None \<Rightarrow> [] | Some xs \<Rightarrow> if length xs > 0 then f xs else [])"

definition given_text :: "string option \<Rightarrow> (string \<Rightarrow> jsval list) \<Rightarrow> jsval list" where
  "given_text v f = (case v of None \<Rightarrow> [] | Some s \<Rightarrow> if s \<noteq> [] then f s else [])"

definition environment_clauses :: "string \<Rightarrow> jsval list" where
  "environment_clauses env =
     [op2 ''='' ''report_environment'' (JStr env), op2 ''='' ''facts_environment'' (JStr env),
      op2 ''='' ''catalog_environment'' (JStr env)]"

definition status_clause :: "string \<Rightarrow> jsval" where
  "status_clause status =
     (if status = ''unknown'' then op2 ''null?'' ''latest_report_status'' (JBool True)
      else op2 ''='' ''latest_report_status'' (JStr status))"

definition node_clauses :: "node_filter \<Rightarrow> jsval list" where
  "node_clauses f =
     given_list (nf_facts f) factClauses
     @ given_text (nf_certnameContains f) (\<lambda>s. [op2 ''~'' ''certname'' (JStr (escapeRegex s))])
     @ given_list (nf_environments f) (\<lambda>es. [ast (JStr ''or'' # concat (map environment_clauses es))])
     @ given_list (nf_statuses f) (\<lambda>ss. [ast (JStr ''or'' # map status_clause ss)])
     @ given_text (nf_staleBefore f) (\<lambda>t. [ast [JStr ''or'', op2 ''<'' ''report_timestamp'' (JStr t),
                                              op2 ''null?'' ''report_timestamp'' (JBool True)]])
     @ given_text (nf_factsChangedSince f) (\<lambda>t. [op2 ''>'' ''facts_timestamp'' (JStr t)])
     @ (if nf_includeInactive f then []
        else [op2 ''null?'' ''deactivated'' (JBool True), op2 ''null?'' ''expired'' (JBool True)])"

definition buildNodeQuery :: "node_filter \<Rightarrow> jsval option" where
  "buildNodeQuery f =
     (let clauses = node_clauses f
      in if length clauses = 0 then None
         else if length clauses = 1 then Some (hd clauses) else Some (ast (JStr ''and'' # clauses)))"

definition buildReportQuery :: "string \<Rightarrow> jsval" where
  "buildReportQuery certname = op2 ''='' ''certname'' (JStr certname)"

definition buildReportByHashQuery :: "string \<Rightarrow> jsval" where
  "buildReportByHashQuery hash = op2 ''='' ''hash'' (JStr hash)"

definition buildFactsQuery :: "string list \<Rightarrow> jsval option" where
  "buildFactsQuery factNames =
     (if length factNames = 0 then None
      else Some (ast (JStr ''or'' # map (\<lambda>name. op2 ''='' ''name'' (JStr name)) factNames)))"

definition buildEventsQuery :: "string \<Rightarrow> jsval" where
  "buildEventsQuery reportHash = op2 ''='' ''report'' (JStr reportHash)"

definition RESOURCE_LIST_FIELDS :: "string list" where
  "RESOURCE_LIST_FIELDS = [''certname'', ''type'', ''title'', ''file'', ''line'', ''environment'', ''resource'', ''exported'', ''tags'']"

definition resource_clauses :: "resource_filter \<Rightarrow> jsval list" where
  "resource_clauses f =
     [op2 ''='' ''type'' (JStr (rs_type f))]
     @ given_text (rs_title f) (\<lambda>t. [op2 ''='' ''title'' (JStr t)])
     @ given_text (rs_titleContains f) (\<lambda>t. [op2 ''~'' ''title'' (JStr (escapeRegex t))])
     @ given_list (rs_environments f) (\<lambda>es. [ast (JStr ''or'' # map (\<lambda>env. op2 ''='' ''environment'' (JStr env)) es)])
     @ (case rs_exported f of None \<Rightarrow> [] | Some b \<Rightarrow> [op2 ''='' ''exported'' (JBool b)])
     @ given_list (rs_parameters f) parameterClauses
     @ given_list (rs_facts f) factClauses"

definition buildResourceQuery :: "resource_filter \<Rightarrow> jsval" where
  "buildResourceQuery f =
     (let clauses = resource_clauses f in if length clauses = 1 then hd clauses else ast (JStr ''and'' # clauses))"

definition buildResourceParametersQuery :: "string \<Rightarrow> string \<Rightarrow> string list \<Rightarrow> jsval option" where
  "buildResourceParametersQuery kind title certnames =
     (if length certnames = 0 then None
      else Some (ast [JStr ''and'', op2 ''='' ''type'' (JStr kind), op2 ''='' ''title'' (JStr title),
                   ast (JStr ''or'' # map (\<lambda>c. op2 ''='' ''certname'' (JStr c)) certnames)]))"

definition buildResourceListQuery :: "resource_filter \<Rightarrow> jsval" where
  "buildResourceListQuery f = ast [JStr ''extract'', JArr (map JStr RESOURCE_LIST_FIELDS), buildResourceQuery f]"

definition buildCountQuery :: "jsval option \<Rightarrow> jsval" where
  "buildCountQuery query =
     (let extract = [JStr ''extract'', JArr [JArr [JStr ''function'', JStr ''count'']]]
      in case query of None \<Rightarrow> ast extract | Some q \<Rightarrow> ast (extract @ [q]))"

text \<open>The \<open>order_by\<close> parameter is kept as its list of fields with their direction, before it is turned into JSON.\<close>

record pagination =
  pn_limit :: nat
  pn_offset :: nat
  pn_order_by :: "(string \<times> string) list"

definition buildPagination :: "page_request \<Rightarrow> pagination" where
  "buildPagination p =
     \<lparr> pn_limit = pg_limit p, pn_offset = pg_offset p, pn_order_by = [(resolveOrderBy (pg_orderBy p), pg_order p)] \<rparr>"

section \<open>Answers\<close>

definition str :: "jsval option \<Rightarrow> string option" where
  "str v = (case v of Some (JStr s) \<Rightarrow> if s \<noteq> [] then Some s else None | _ \<Rightarrow> None)"

definition is_true :: "jsval option \<Rightarrow> bool" where
  "is_true v \<longleftrightarrow> v = Some (JBool True)"

definition num :: "jsval option \<Rightarrow> rat option" where
  "num v = (case v of Some (JNum n) \<Rightarrow> Some n | _ \<Rightarrow> None)"

text \<open>\<open>String(raw[k] ?? '')\<close>.\<close>

definition string_or_empty :: "jsval option \<Rightarrow> string" where
  "string_or_empty v = (case v of None \<Rightarrow> [] | Some x \<Rightarrow> if x = JNull then [] else js_string x)"

definition first_of :: "'a option \<Rightarrow> 'a option \<Rightarrow> 'a option" where
  "first_of a b = (case a of None \<Rightarrow> b | Some x \<Rightarrow> Some x)"

definition REPORT_STATUSES :: "string list" where
  "REPORT_STATUSES = [''changed'', ''unchanged'', ''failed'']"

definition toNodeStatus :: "jsval option \<Rightarrow> string" where
  "toNodeStatus v =
     (case v of
        Some (JStr s) \<Rightarrow> if s \<in> set REPORT_STATUSES then s else if s = ''success'' then ''unchanged'' else ''unknown''
      | _ \<Rightarrow> ''unknown'')"

record puppet_node =
  pn_certname :: string
  pn_environment :: "string option"
  pn_reportEnvironment :: "string option"
  pn_factsEnvironment :: "string option"
  pn_catalogEnvironment :: "string option"
  pn_reportTimestamp :: "string option"
  pn_factsTimestamp :: "string option"
  pn_catalogTimestamp :: "string option"
  pn_latestReportStatus :: string
  pn_latestReportHash :: "string option"
  pn_latestReportNoop :: bool
  pn_deactivated :: "string option"
  pn_expired :: "string option"
  pn_isActive :: bool

definition mapNode :: "jsval obj \<Rightarrow> puppet_node" where
  "mapNode raw =
     (let reportEnvironment = str (oget raw ''report_environment''); factsEnvironment = str (oget raw ''facts_environment'');
          catalogEnvironment = str (oget raw ''catalog_environment'');
          deactivated = str (oget raw ''deactivated''); expired = str (oget raw ''expired'')
      in \<lparr> pn_certname = string_or_empty (oget raw ''certname''),
           pn_environment = first_of reportEnvironment (first_of factsEnvironment catalogEnvironment),
           pn_reportEnvironment = reportEnvironment, pn_factsEnvironment = factsEnvironment,
           pn_catalogEnvironment = catalogEnvironment,
           pn_reportTimestamp = str (oget raw ''report_timestamp''), pn_factsTimestamp = str (oget raw ''facts_timestamp''),
           pn_catalogTimestamp = str (oget raw ''catalog_timestamp''),
           pn_latestReportStatus = toNodeStatus (oget raw ''latest_report_status''),
           pn_latestReportHash = str (oget raw ''latest_report_hash''),
           pn_latestReportNoop = is_true (oget raw ''latest_report_noop''),
           pn_deactivated = deactivated, pn_expired = expired, pn_isActive = (deactivated = None \<and> expired = None) \<rparr>)"

text \<open>
  A fact set: a list of entries with a name and a value. \<^const>\<open>None\<close> is the \<open>TypeError\<close> of reading a field of
  \<open>null\<close>. Assigning to \<open>__proto__\<close> makes no property of the object's own. (An entry without a value would be
  \<open>undefined\<close>, here \<open>null\<close>; PuppetDB sends none.)
\<close>

definition set_fact :: "string \<Rightarrow> jsval \<Rightarrow> jsval obj \<Rightarrow> jsval obj" where
  "set_fact name v out = (if name = ''__proto__'' then out else oset name v out)"

fun add_entry :: "jsval obj option \<Rightarrow> jsval \<Rightarrow> jsval obj option" where
  "add_entry None entry = None"
| "add_entry (Some out) JNull = None"
| "add_entry (Some out) (JObj e) =
     (case oget e ''name'' of
        Some (JStr name) \<Rightarrow> Some (set_fact name (case oget e ''value'' of None \<Rightarrow> JNull | Some v \<Rightarrow> v) out)
      | _ \<Rightarrow> Some out)"
| "add_entry (Some out) entry = Some out"

definition mapFactsetToFacts :: "jsval obj \<Rightarrow> jsval obj option" where
  "mapFactsetToFacts raw =
     (case oget raw ''facts'' of
        Some (JObj facts) \<Rightarrow> (case oget facts ''data'' of Some (JArr data) \<Rightarrow> foldl add_entry (Some []) data | _ \<Rightarrow> Some [])
      | _ \<Rightarrow> Some [])"

definition projectFacts :: "jsval obj \<Rightarrow> string list \<Rightarrow> jsval obj" where
  "projectFacts facts allowList =
     foldl (\<lambda>out key. case oget facts key of None \<Rightarrow> out | Some v \<Rightarrow> oset key v out) [] allowList"

record resource_summary =
  su_certname :: string
  su_type :: string
  su_title :: string
  su_file :: "string option"
  su_line :: "rat option"
  su_environment :: string
  su_resourceHash :: string
  su_exported :: bool
  su_tags :: "string list"

definition strings_of :: "jsval option \<Rightarrow> string list" where
  "strings_of v = (case v of Some (JArr vs) \<Rightarrow> map js_string vs | _ \<Rightarrow> [])"

definition mapResourceSummary :: "jsval obj \<Rightarrow> resource_summary" where
  "mapResourceSummary raw =
     \<lparr> su_certname = string_or_empty (oget raw ''certname''), su_type = string_or_empty (oget raw ''type''),
       su_title = string_or_empty (oget raw ''title''), su_file = str (oget raw ''file''), su_line = num (oget raw ''line''),
       su_environment = string_or_empty (oget raw ''environment''), su_resourceHash = string_or_empty (oget raw ''resource''),
       su_exported = is_true (oget raw ''exported''), su_tags = strings_of (oget raw ''tags'') \<rparr>"

text \<open>Reports. \<open>dp\<close> is \<open>Date.parse\<close> in milliseconds, \<^const>\<open>None\<close> where it yields NaN.\<close>

record puppet_report =
  re_hash :: string
  re_certname :: string
  re_environment :: "string option"
  re_status :: string
  re_noop :: bool
  re_noopPending :: bool
  re_puppetVersion :: "string option"
  re_configurationVersion :: "string option"
  re_transactionUuid :: "string option"
  re_catalogUuid :: "string option"
  re_cachedCatalogStatus :: "string option"
  re_startTime :: "string option"
  re_endTime :: "string option"
  re_receiveTime :: "string option"
  re_durationSeconds :: "rat option"

text \<open>Milliseconds divided by 1000 have three decimals, so \<open>toFixed(3)\<close> and back is the same double.\<close>

definition durationBetween :: "(string \<Rightarrow> int option) \<Rightarrow> string option \<Rightarrow> string option \<Rightarrow> rat option" where
  "durationBetween dp startTime endTime =
     (case (Option.bind startTime dp, Option.bind endTime dp) of
        (Some s, Some e) \<Rightarrow> if e - s \<ge> 0 then to_double (of_int (e - s) / 1000) else None
      | _ \<Rightarrow> None)"

definition mapReport :: "(string \<Rightarrow> int option) \<Rightarrow> jsval obj \<Rightarrow> puppet_report" where
  "mapReport dp raw =
     (let startTime = str (oget raw ''start_time''); endTime = str (oget raw ''end_time'')
      in \<lparr> re_hash = string_or_empty (oget raw ''hash''), re_certname = string_or_empty (oget raw ''certname''),
           re_environment = str (oget raw ''environment''), re_status = toNodeStatus (oget raw ''status''),
           re_noop = is_true (oget raw ''noop''), re_noopPending = is_true (oget raw ''noop_pending''),
           re_puppetVersion = str (oget raw ''puppet_version''),
           re_configurationVersion =
             (case oget raw ''configuration_version'' of
                None \<Rightarrow> None | Some v \<Rightarrow> if v = JNull then None else Some (js_string v)),
           re_transactionUuid = str (oget raw ''transaction_uuid''), re_catalogUuid = str (oget raw ''catalog_uuid''),
           re_cachedCatalogStatus = str (oget raw ''cached_catalog_status''),
           re_startTime = startTime, re_endTime = endTime, re_receiveTime = str (oget raw ''receive_time''),
           re_durationSeconds = durationBetween dp startTime endTime \<rparr>)"

record resource_event =
  ev_status :: string
  ev_timestamp :: "string option"
  ev_resourceType :: string
  ev_resourceTitle :: string
  ev_property :: "string option"
  ev_oldValue :: jsval
  ev_newValue :: jsval
  ev_message :: "string option"
  ev_file :: "string option"
  ev_line :: "rat option"
  ev_containmentPath :: "string list"
  ev_containingClass :: "string option"
  ev_correctiveChange :: "bool option"

definition value_or_null :: "jsval option \<Rightarrow> jsval" where
  "value_or_null v = (case v of None \<Rightarrow> JNull | Some x \<Rightarrow> x)"

definition mapResourceEvent :: "jsval obj \<Rightarrow> resource_event" where
  "mapResourceEvent raw =
     \<lparr> ev_status = (case oget raw ''status'' of
          Some (JStr s) \<Rightarrow> if s \<in> {''success'', ''failure'', ''noop'', ''skipped''} then s else ''skipped''
        | _ \<Rightarrow> ''skipped''),
       ev_timestamp = str (oget raw ''timestamp''), ev_resourceType = string_or_empty (oget raw ''resource_type''),
       ev_resourceTitle = string_or_empty (oget raw ''resource_title''), ev_property = str (oget raw ''property''),
       ev_oldValue = value_or_null (oget raw ''old_value''), ev_newValue = value_or_null (oget raw ''new_value''),
       ev_message = str (oget raw ''message''), ev_file = str (oget raw ''file''), ev_line = num (oget raw ''line''),
       ev_containmentPath = strings_of (oget raw ''containment_path''), ev_containingClass = str (oget raw ''containing_class''),
       ev_correctiveChange = (case oget raw ''corrective_change'' of Some (JBool b) \<Rightarrow> Some b | _ \<Rightarrow> None) \<rparr>"

record report_summary =
  rp_resourcesTotal :: "rat option"
  rp_resourcesChanged :: "rat option"
  rp_resourcesFailed :: "rat option"
  rp_resourcesSkipped :: "rat option"
  rp_eventsTotal :: "rat option"
  rp_timeTotalSeconds :: "rat option"

text \<open>
  The first metric of a category and name. The search stops at it, so a \<open>null\<close> among the metrics throws
  (\<^const>\<open>None\<close>) only before it.
\<close>

fun find_metric :: "string \<Rightarrow> string \<Rightarrow> jsval list \<Rightarrow> rat option option" where
  "find_metric category name [] = Some None"
| "find_metric category name (JNull # ms) = None"
| "find_metric category name (JObj m # ms) =
     (if oget m ''category'' = Some (JStr category) \<and> oget m ''name'' = Some (JStr name)
      then Some (num (oget m ''value'')) else find_metric category name ms)"
| "find_metric category name (m # ms) = find_metric category name ms"

definition mapReportSummary :: "jsval option \<Rightarrow> report_summary option" where
  "mapReportSummary metrics =
     (let list = (case metrics of Some (JArr ms) \<Rightarrow> ms | _ \<Rightarrow> [])
      in case (find_metric ''resources'' ''total'' list, find_metric ''resources'' ''changed'' list,
               find_metric ''resources'' ''failed'' list, find_metric ''resources'' ''skipped'' list,
               find_metric ''events'' ''total'' list, find_metric ''time'' ''total'' list) of
           (Some t, Some c, Some f, Some s, Some e, Some tt) \<Rightarrow>
             Some \<lparr> rp_resourcesTotal = t, rp_resourcesChanged = c, rp_resourcesFailed = f, rp_resourcesSkipped = s,
                    rp_eventsTotal = e, rp_timeTotalSeconds = tt \<rparr>
         | _ \<Rightarrow> None)"

section \<open>The client\<close>

type_synonym pdb_service = "string \<Rightarrow> jsval option \<Rightarrow> pagination option \<Rightarrow> failure + jsval obj list"

record 'i page =
  items :: "'i list"
  total :: rat
  page_limit :: nat
  page_offset :: nat

definition count_rows :: "pdb_service \<Rightarrow> string \<Rightarrow> jsval option \<Rightarrow> failure + rat" where
  "count_rows srv endpoint query =
     bind_err (srv endpoint (Some (buildCountQuery query)) None) (\<lambda>rows.
       Inr (case rows of [] \<Rightarrow> 0 | row # _ \<Rightarrow> (case oget row ''count'' of Some (JNum n) \<Rightarrow> n | _ \<Rightarrow> 0)))"

definition page_of :: "page_request \<Rightarrow> ('r \<Rightarrow> 'i) \<Rightarrow> failure + 'r list \<Rightarrow> failure + rat \<Rightarrow> failure + 'i page" where
  "page_of p f rows n =
     bind_err rows (\<lambda>rs. bind_err n (\<lambda>t. Inr \<lparr> items = map f rs, total = t, page_limit = pg_limit p, page_offset = pg_offset p \<rparr>))"

definition type_error :: failure where
  "type_error = \<lparr> f_name = ''TypeError'', f_message = ''Cannot read properties of null'' \<rparr>"

definition listNodes :: "pdb_service \<Rightarrow> node_filter \<Rightarrow> page_request \<Rightarrow> failure + puppet_node page" where
  "listNodes srv f p =
     (let query = buildNodeQuery f
      in page_of p mapNode (srv ''/nodes'' query (Some (buildPagination p))) (count_rows srv ''/nodes'' query))"

definition getNode :: "pdb_service \<Rightarrow> string \<Rightarrow> failure + puppet_node option" where
  "getNode srv certname =
     bind_err (srv ''/nodes'' (Some (op2 ''='' ''certname'' (JStr certname))) None) (\<lambda>rows.
       Inr (case rows of [] \<Rightarrow> None | row # _ \<Rightarrow> Some (mapNode row)))"

definition getFacts :: "pdb_service \<Rightarrow> string \<Rightarrow> failure + jsval obj" where
  "getFacts srv certname =
     bind_err (srv ''/factsets'' (Some (op2 ''='' ''certname'' (JStr certname))) None) (\<lambda>rows.
       case rows of [] \<Rightarrow> Inr []
       | row # _ \<Rightarrow> (case mapFactsetToFacts row of None \<Rightarrow> Inl type_error | Some facts \<Rightarrow> Inr facts))"

record fact_row =
  fr_certname :: string
  fr_name :: string
  fr_value :: jsval

definition to_fact_row :: "jsval obj \<Rightarrow> fact_row" where
  "to_fact_row row =
     \<lparr> fr_certname = string_or_empty (oget row ''certname''), fr_name = string_or_empty (oget row ''name''),
       fr_value = value_or_null (oget row ''value'') \<rparr>"

definition by_certname :: "page_request \<Rightarrow> pagination" where
  "by_certname p = (buildPagination (p \<lparr> pg_orderBy := Some ''certname'' \<rparr>)) \<lparr> pn_order_by := [(''certname'', ''asc'')] \<rparr>"

definition listFacts :: "pdb_service \<Rightarrow> string list \<Rightarrow> page_request \<Rightarrow> failure + fact_row page" where
  "listFacts srv factNames p =
     (case buildFactsQuery factNames of
        None \<Rightarrow> Inr \<lparr> items = [], total = 0, page_limit = pg_limit p, page_offset = pg_offset p \<rparr>
      | Some query \<Rightarrow>
          page_of p to_fact_row (srv ''/facts'' (Some query) (Some (by_certname p))) (count_rows srv ''/facts'' (Some query)))"

definition listReports :: "pdb_service \<Rightarrow> (string \<Rightarrow> int option) \<Rightarrow> string \<Rightarrow> page_request \<Rightarrow> failure + puppet_report page" where
  "listReports srv dp certname p =
     (let query = Some (buildReportQuery certname);
          pagination = buildPagination (p \<lparr> pg_orderBy := Some (case pg_orderBy p of None \<Rightarrow> ''receive_time'' | Some f \<Rightarrow> f),
                                           pg_order := (if pg_orderBy p = None then ''desc'' else pg_order p) \<rparr>)
      in page_of p (mapReport dp) (srv ''/reports'' query (Some pagination)) (count_rows srv ''/reports'' query))"

definition getReport :: "pdb_service \<Rightarrow> (string \<Rightarrow> int option) \<Rightarrow> string \<Rightarrow> failure + puppet_report option" where
  "getReport srv dp hash =
     bind_err (srv ''/reports'' (Some (buildReportByHashQuery hash)) None) (\<lambda>rows.
       Inr (case rows of [] \<Rightarrow> None | row # _ \<Rightarrow> Some (mapReport dp row)))"

definition getReportEvents :: "pdb_service \<Rightarrow> string \<Rightarrow> failure + resource_event list" where
  "getReportEvents srv hash =
     bind_err (srv ''/events'' (Some (buildEventsQuery hash)) None) (\<lambda>rows. Inr (map mapResourceEvent rows))"

definition getReportSummary :: "pdb_service \<Rightarrow> string \<Rightarrow> failure + report_summary option" where
  "getReportSummary srv hash =
     bind_err (srv ''/reports'' (Some (buildReportByHashQuery hash)) None) (\<lambda>rows.
       case rows of [] \<Rightarrow> Inr None
       | row # _ \<Rightarrow>
           (let data = (case oget row ''metrics'' of Some (JObj m) \<Rightarrow> oget m ''data'' | _ \<Rightarrow> None)
            in case mapReportSummary data of None \<Rightarrow> Inl type_error | Some s \<Rightarrow> Inr (Some s)))"

definition listEnvironments :: "pdb_service \<Rightarrow> failure + string list" where
  "listEnvironments srv =
     bind_err (srv ''/environments'' None None) (\<lambda>rows.
       Inr (js_sort cmp_str (map the (filter (\<lambda>n. n \<noteq> None)
         (map (\<lambda>r. case oget r ''name'' of Some (JStr s) \<Rightarrow> Some s | _ \<Rightarrow> None) rows)))))"

definition countResources :: "pdb_service \<Rightarrow> resource_filter \<Rightarrow> failure + rat" where
  "countResources srv f = count_rows srv ''/resources'' (Some (buildResourceQuery f))"

record resource_parameters =
  rv_certname :: string
  rv_resourceHash :: string
  rv_parameters :: "jsval obj"

definition to_parameters :: "jsval obj \<Rightarrow> resource_parameters" where
  "to_parameters row =
     \<lparr> rv_certname = string_or_empty (oget row ''certname''), rv_resourceHash = string_or_empty (oget row ''resource''),
       rv_parameters = (case oget row ''parameters'' of Some (JObj ps) \<Rightarrow> ps | _ \<Rightarrow> []) \<rparr>"

definition getResourceParameters :: "pdb_service \<Rightarrow> string \<Rightarrow> string \<Rightarrow> string list \<Rightarrow> failure + resource_parameters list" where
  "getResourceParameters srv kind title certnames =
     (case buildResourceParametersQuery kind title certnames of
        None \<Rightarrow> Inr []
      | Some query \<Rightarrow>
          bind_err (srv ''/resources'' (Some query)
              (Some \<lparr> pn_limit = length certnames, pn_offset = 0, pn_order_by = [(''certname'', ''asc'')] \<rparr>))
            (\<lambda>rows. Inr (map to_parameters rows)))"

definition searchResources :: "pdb_service \<Rightarrow> resource_filter \<Rightarrow> page_request \<Rightarrow> failure + resource_summary page" where
  "searchResources srv f p =
     page_of p mapResourceSummary
       (srv ''/resources'' (Some (buildResourceListQuery f))
         (Some ((by_certname p) \<lparr> pn_order_by := [(''title'', ''asc''), (''certname'', ''asc'')] \<rparr>)))
       (countResources srv f)"

section \<open>Properties\<close>

text \<open>The literal a pattern stands for, when it is made of plain and escaped characters only.\<close>

fun literal_pattern :: "string \<Rightarrow> string option" where
  "literal_pattern [] = Some []"
| "literal_pattern (c # cs) =
     (if c = CHR 0x5C
      then (case cs of [] \<Rightarrow> None | d # ds \<Rightarrow> if d \<in> set regex_metachars then map_option ((#) d) (literal_pattern ds) else None)
      else if c \<in> set regex_metachars then None else map_option ((#) c) (literal_pattern cs))"

lemma escapeRegex_simps [simp]:
  "escapeRegex [] = []"
  "escapeRegex (c # cs) = (if c \<in> set regex_metachars then [CHR 0x5C, c] else [c]) @ escapeRegex cs"
  by (simp_all add: escapeRegex_def)

lemma backslash_meta: "CHR 0x5C \<in> set regex_metachars"
  by (simp add: regex_metachars_def)

lemma literal_escapeRegex: "literal_pattern (escapeRegex s) = Some s"
proof (induction s)
  case (Cons c s)
  then show ?case using backslash_meta by (cases "c \<in> set regex_metachars") auto
qed simp

lemma SORTABLE_resolved: "resolveOrderBy field \<in> set SORTABLE"
proof -
  have "''certname'' \<in> set SORTABLE" by (simp add: SORTABLE_def)
  then show ?thesis by (auto simp: resolveOrderBy_def split: option.split jsval.split)
qed

text \<open>An empty list for \<open>IN\<close> passes the schema and builds an \<open>or\<close> of nothing.\<close>

lemma empty_IN_builds_empty_or:
  "ff_operator f = FC_IN \<Longrightarrow> ff_value f = Some (JArr []) \<Longrightarrow> condition_clause field f = ast [JStr ''or'']"
  by (simp add: condition_clause_def condition_values_def)

text \<open>A \<open>null\<close> among the entries of a fact set or the metrics of a report makes the mapper throw.\<close>

lemma null_entry_throws:
  "mapFactsetToFacts [(''facts'', JObj [(''data'', JArr [JNull])])] = None"
  "mapReportSummary (Some (JArr [JNull])) = None"
  by (simp_all add: mapFactsetToFacts_def mapReportSummary_def)

end
