(* ===== verification/PqlMeaning.thy ===== *)
theory PqlMeaning
  imports PuppetDb EncStorage
begin

text \<open>
  What the queries of \<open>puppetdb/pql-builder.ts\<close> ask for: the checks the schemas make of a filter
  (\<open>packages/contracts/src/puppetdb.ts\<close>), the documented meaning of PuppetDB's query arrays, and what a filter is
  meant to select. A row is what an entity holds under a field, \<^const>\<open>None\<close> where that is null or absent. Arguments are the
  rows of the inventory, PuppetDB's regular expressions and its comparison of timestamps.
\<close>

section \<open>The schema of a fact condition\<close>

definition path_char :: "char \<Rightarrow> bool" where
  "path_char c \<longleftrightarrow> is_alnum c \<or> c = CHR ''_''"

text \<open>\<open>/^[a-zA-Z0-9_]+(\.[a-zA-Z0-9_]+)*$/\<close>.\<close>

definition dotted_path :: "string \<Rightarrow> bool" where
  "dotted_path p \<longleftrightarrow> list_all (\<lambda>part. part \<noteq> [] \<and> list_all path_char part) (split_on CHR ''.'' p)"

definition is_scalar :: "jsval \<Rightarrow> bool" where
  "is_scalar v \<longleftrightarrow> (case v of JStr _ \<Rightarrow> True | JNum _ \<Rightarrow> True | JBool _ \<Rightarrow> True | _ \<Rightarrow> False)"



section \<open>What a query means\<close>

type_synonym row = "string \<Rightarrow> jsval option"

record pdb_data =
  pd_inventory :: "row list"
  pd_regex :: "string \<Rightarrow> jsval \<Rightarrow> bool"
  pd_before :: "jsval \<Rightarrow> jsval \<Rightarrow> bool"

definition compares :: "pdb_data \<Rightarrow> string \<Rightarrow> jsval option \<Rightarrow> jsval \<Rightarrow> bool" where
  "compares D f stored v \<longleftrightarrow>
     (case stored of
        None \<Rightarrow> False
      | Some x \<Rightarrow>
          if f = ''='' then x = v
          else if f = ''~'' then (case v of JStr pattern \<Rightarrow> pd_regex D pattern x | _ \<Rightarrow> False)
          else if f = ''<'' then pd_before D x v else pd_before D v x)"

definition inventory_field :: "string \<Rightarrow> bool" where
  "inventory_field g \<longleftrightarrow> g = ''certname'' \<or> starts_with g ''facts.'' \<and> dotted_path (drop 6 g)"

text \<open>
  The answer for a row of the entity with the fields \<open>F\<close>; \<^const>\<open>None\<close> is a query PuppetDB does not take: an operator,
  field or operand that is none, or a junction of nothing.
\<close>

fun sem :: "(string \<Rightarrow> bool) \<Rightarrow> pdb_data \<Rightarrow> jsval \<Rightarrow> row \<Rightarrow> bool option" where
  "sem F D (JArr (JStr f # args)) row =
     (if f = ''and'' \<or> f = ''or'' then
        (let rs = map (\<lambda>q. sem F D q row) args
         in if args = [] \<or> None \<in> set rs then None
            else Some (if f = ''and'' then list_all (\<lambda>r. r = Some True) rs else list_ex (\<lambda>r. r = Some True) rs))
      else if f = ''not'' then (case args of [q] \<Rightarrow> map_option Not (sem F D q row) | _ \<Rightarrow> None)
      else if f = ''null?'' then
        (case args of [JStr field, JBool b] \<Rightarrow> if F field then Some ((row field = None) = b) else None | _ \<Rightarrow> None)
      else if f = ''='' \<or> f = ''~'' \<or> f = ''<'' \<or> f = ''>'' then
        (case args of [JStr field, v] \<Rightarrow> if F field \<and> is_scalar v then Some (compares D f (row field) v) else None | _ \<Rightarrow> None)
      else if f = ''in'' then
        (case args of
           [JStr field, JArr [JStr from, JStr entity, JArr [JStr extract, JStr column, q]]] \<Rightarrow>
             if F field \<and> from = ''from'' \<and> entity = ''inventory'' \<and> extract = ''extract'' \<and> inventory_field column
                \<and> sem inventory_field D q (\<lambda>_. None) \<noteq> None
             then Some (list_ex (\<lambda>r. row field \<noteq> None \<and> r column = row field \<and> sem inventory_field D q r = Some True) (pd_inventory D))
             else None
         | _ \<Rightarrow> None)
      else None)"
| "sem F D _ row = None"

declare sem.simps [simp del]

named_theorems sem_simps

lemma sem_not [sem_simps]: "sem F D (ast [JStr ''not'', q]) row = map_option Not (sem F D q row)"
  by (simp add: sem.simps)

lemma sem_null [sem_simps]: "F field \<Longrightarrow> sem F D (op2 ''null?'' field (JBool True)) row = Some (row field = None)"
  by (simp add: sem.simps)







section \<open>What a filter selects\<close>











text \<open>The fields of the nodes and of the resources, and an \<open>IN\<close> with an empty list, which the schema takes.\<close>

definition node_field :: "string \<Rightarrow> bool" where
  "node_field g \<longleftrightarrow> g \<in> {''certname'', ''report_environment'', ''facts_environment'', ''catalog_environment'', ''report_timestamp'',
     ''facts_timestamp'', ''latest_report_status'', ''deactivated'', ''expired''}"






section \<open>Clauses\<close>






lemma scalar_string [sem_simps]: "is_scalar (JStr s)" "is_scalar (JBool b)"
  by (simp_all add: is_scalar_def)

lemma compares_simps [simp]:
  "compares D ''='' stored v \<longleftrightarrow> stored = Some v"
  "compares D ''~'' stored (JStr p) \<longleftrightarrow> (\<exists>x. stored = Some x \<and> pd_regex D p x)"
  "compares D ''<'' stored v \<longleftrightarrow> (\<exists>x. stored = Some x \<and> pd_before D x v)"
  "compares D ''>'' stored v \<longleftrightarrow> (\<exists>x. stored = Some x \<and> pd_before D v x)"
  by (auto simp: compares_def split: option.splits)













lemma node_fields [simp]:
  "node_field ''certname''" "node_field ''report_environment''" "node_field ''facts_environment''" "node_field ''catalog_environment''"
  "node_field ''report_timestamp''" "node_field ''facts_timestamp''" "node_field ''latest_report_status''" "node_field ''deactivated''"
  "node_field ''expired''"
  by (simp_all add: node_field_def)








section \<open>Properties\<close>









end
