(* ===== verification/Projection.thy ===== *)
theory Projection
  imports Coverage PuppetDb Receipts
begin

text \<open>
  \<open>apps/api/src/puppetdb/node-projection.service.ts\<close>: PuppetDB copied into the \<open>ManagedNode\<close> table
  that rules are matched against. The client is a parameter, asked again at every call: its answers
  may change between the calls of one pass. \<open>dp\<close> is \<open>Date.parse\<close>; \<open>now\<close> is the clock of one pass.
\<close>

section \<open>The state of the projector\<close>

record projection_result =
  pj_ranHere :: bool
  pj_nodesSeen :: nat
  pj_nodesUpserted :: nat
  pj_nodesChanged :: nat
  pj_nodesPruned :: nat
  pj_pruneSkippedReason :: "string option"
  pj_error :: "string option"

record projector =
  pr_running :: bool
  pr_stopping :: bool
  pr_lastResult :: "projection_result option"
  pr_warnedAbsentFacts :: bool
  pr_absentFacts :: "string list"

record projection_config =
  pc_projectedFacts :: "string list"
  pc_pollOverlapMs :: int

text \<open>The calls of a pass are numbered.\<close>

record node_source =
  ns_listNodes :: "nat \<Rightarrow> node_filter \<Rightarrow> page_request \<Rightarrow> failure + puppet_node page"
  ns_listFacts :: "nat \<Rightarrow> string list \<Rightarrow> page_request \<Rightarrow> failure + fact_row page"
  ns_getFacts :: "nat \<Rightarrow> string \<Rightarrow> failure + jsval obj"

definition PAGE_SIZE :: nat where
  "PAGE_SIZE = 500"

definition POLL_MAX_NODES :: nat where
  "POLL_MAX_NODES = 500"

definition MAX_SAFE_SHRINK_RATIO :: rat where
  "MAX_SAFE_SHRINK_RATIO = 1 / 2"

section \<open>Fetching\<close>

text \<open>
  The loop of both fetches: \<open>ask k offset\<close> is the answer to call \<open>k\<close>. It ends with an empty page or when as
  many items as the page's total have arrived; a server can keep it from ending.
\<close>

partial_function (option) fetch_pages ::
  "(nat \<Rightarrow> nat \<Rightarrow> failure + 'i page) \<Rightarrow> nat \<Rightarrow> 'i list \<Rightarrow> (failure + 'i list) option" where
  "fetch_pages ask k found =
     (case ask k (length found) of
        Inl e \<Rightarrow> Some (Inl e)
      | Inr p \<Rightarrow>
          let found' = found @ items p
          in if length (items p) = 0 \<or> of_nat (length found') \<ge> total p then Some (Inr found')
             else fetch_pages ask (Suc k) found')"

declare fetch_pages.simps [code]

definition all_nodes :: node_filter where
  "all_nodes = \<lparr> nf_facts = None, nf_certnameContains = None, nf_environments = None, nf_statuses = None,
     nf_staleBefore = None, nf_factsChangedSince = None, nf_includeInactive = True \<rparr>"

definition page_at :: "string option \<Rightarrow> nat \<Rightarrow> page_request" where
  "page_at orderBy offset = \<lparr> pg_limit = PAGE_SIZE, pg_offset = offset, pg_orderBy = orderBy, pg_order = ''asc'' \<rparr>"

definition fetchAllNodes :: "node_source \<Rightarrow> (failure + puppet_node list) option" where
  "fetchAllNodes src = fetch_pages (\<lambda>k offset. ns_listNodes src k all_nodes (page_at (Some ''certname'') offset)) 0 []"

definition add_fact :: "(string \<times> jsval obj) list \<Rightarrow> fact_row \<Rightarrow> (string \<times> jsval obj) list" where
  "add_fact byNode row =
     (let existing = (case map_of byNode (fr_certname row) of None \<Rightarrow> [] | Some o1 \<Rightarrow> o1)
      in map_set (fr_certname row) (set_fact (fr_name row) (fr_value row) existing) byNode)"

definition fetchAllFacts :: "node_source \<Rightarrow> string list \<Rightarrow> (failure + (string \<times> jsval obj) list) option" where
  "fetchAllFacts src projectedFacts =
     (if length projectedFacts = 0 then Some (Inr [])
      else map_option (\<lambda>r. bind_err r (\<lambda>rows. Inr (foldl add_fact [] rows)))
             (fetch_pages (\<lambda>k offset. ns_listFacts src k projectedFacts (page_at None offset)) 0 []))"

section \<open>One node\<close>

definition pick :: "jsval obj \<Rightarrow> string list \<Rightarrow> jsval obj" where
  "pick facts allowList =
     foldl (\<lambda>out key. case oget facts key of None \<Rightarrow> out | Some v \<Rightarrow> oset key v out) [] allowList"

definition toDate :: "(string \<Rightarrow> int option) \<Rightarrow> string option \<Rightarrow> int option" where
  "toDate dp stamp = Option.bind stamp dp"

definition facts_changed :: "node_row option \<Rightarrow> puppet_node \<Rightarrow> jsval obj \<Rightarrow> bool" where
  "facts_changed existing node projected =
     (case existing of
        None \<Rightarrow> True
      | Some row \<Rightarrow> n_environment row \<noteq> pn_environment node \<or> \<not> stableEquals (JObj (n_facts row)) (JObj projected))"

definition projected_row :: "(string \<Rightarrow> int option) \<Rightarrow> int \<Rightarrow> puppet_node \<Rightarrow> jsval obj \<Rightarrow> node_row" where
  "projected_row dp now node projected =
     \<lparr> n_certname = pn_certname node, n_environment = pn_environment node, n_facts = projected,
       n_latestReportStatus = Some (pn_latestReportStatus node), n_reportTimestamp = toDate dp (pn_reportTimestamp node),
       n_factsTimestamp = toDate dp (pn_factsTimestamp node), n_expired = (pn_expired node \<noteq> None),
       n_deactivated = False, n_projectedAt = now \<rparr>"

definition upsertNode ::
  "(string \<Rightarrow> int option) \<Rightarrow> int \<Rightarrow> puppet_node \<Rightarrow> jsval obj \<Rightarrow> db \<Rightarrow> bool \<times> db" where
  "upsertNode dp now node projected db =
     (let c = pn_certname node;
          changed = facts_changed (find_unique (\<lambda>n. n_certname n = c) (db_nodes db)) node projected;
          written = db \<lparr> db_nodes := upsert (\<lambda>n. n_certname n = c) (projected_row dp now node projected)
                                     (\<lambda>_. projected_row dp now node projected) (db_nodes db) \<rparr>
      in (changed, if changed then enqueueNode now c ''facts-changed'' written else written))"

definition markDeactivated :: "int \<Rightarrow> string \<Rightarrow> db \<Rightarrow> bool \<times> db" where
  "markDeactivated now certname db =
     (list_ex (\<lambda>n. n_certname n = certname) (db_nodes db),
      db \<lparr> db_nodes := update_many (\<lambda>n. n_certname n = certname) (\<lambda>n. n \<lparr> n_deactivated := True, n_projectedAt := now \<rparr>)
                        (db_nodes db) \<rparr>)"

section \<open>Pruning\<close>

definition shouldPrune :: "nat \<Rightarrow> db \<Rightarrow> bool \<times> string option" where
  "shouldPrune activeCount db =
     (let known = length (db_nodes db);
          shrink = (rat_of_nat known - rat_of_nat activeCount) / rat_of_nat known
      in if known = 0 then (False, None)
         else if activeCount = 0
         then (False, Some (''PuppetDB reported 0 active nodes while '' @ int_dec (int known) @
                 '' are cached. Treating this as a failed query rather than an emptied estate.''))
         else if shrink > MAX_SAFE_SHRINK_RATIO
         then (False, Some (''PuppetDB reported '' @ int_dec (int activeCount) @ '' active nodes, down from '' @
                 int_dec (int known) @ '' cached ('' @ int_dec (\<lfloor>shrink * 100 + 1 / 2\<rfloor>) @
                 ''% drop). Refusing to prune automatically - run a manual reconcile if the decommission is genuine.''))
         else (True, None))"

text \<open>Deleting a node takes its materialization record along.\<close>

definition prune :: "int \<Rightarrow> string list \<Rightarrow> db \<Rightarrow> nat \<times> db" where
  "prune now knownCertnames db =
     (let certnames = map n_certname (filter (\<lambda>n. n_certname n \<notin> set knownCertnames) (db_nodes db))
      in if length certnames = 0 then (0, db)
         else (length certnames,
               enqueueNodeDeletions now certnames ''node-purged''
                 (db \<lparr> db_nodes := delete_many (\<lambda>n. n_certname n \<in> set certnames) (db_nodes db),
                       db_materializations := delete_many (\<lambda>m. em_certname m \<in> set certnames) (db_materializations db) \<rparr>)))"

section \<open>The full pass\<close>

definition warnAbsentFacts :: "string list \<Rightarrow> string list \<Rightarrow> nat \<Rightarrow> projector \<Rightarrow> projector" where
  "warnAbsentFacts projectedFacts observed nodeCount pr =
     (if nodeCount = 0 \<or> length projectedFacts = 0 then pr
      else let absent = filter (\<lambda>name. name \<notin> set observed) projectedFacts;
               pr' = pr \<lparr> pr_absentFacts := absent \<rparr>
           in if length absent = 0 then pr'
              else if pr_warnedAbsentFacts pr' then pr' else pr' \<lparr> pr_warnedAbsentFacts := True \<rparr>)"

record pass =
  pa_db :: db
  pa_upserted :: nat
  pa_changed :: nat
  pa_observed :: "string list"

definition project_node ::
  "(string \<Rightarrow> int option) \<Rightarrow> int \<Rightarrow> string list \<Rightarrow> (string \<times> jsval obj) list \<Rightarrow> pass \<Rightarrow> puppet_node \<Rightarrow> pass" where
  "project_node dp now projectedFacts facts st node =
     (if \<not> pn_isActive node
      then let (touched, db) = markDeactivated now (pn_certname node) (pa_db st)
           in st \<lparr> pa_db := db, pa_upserted := (if touched then pa_upserted st + 1 else pa_upserted st) \<rparr>
      else
        let projected = pick (case map_of facts (pn_certname node) of None \<Rightarrow> [] | Some fs \<Rightarrow> fs) projectedFacts;
            (didChange, db) = upsertNode dp now node projected (pa_db st)
        in \<lparr> pa_db = db, pa_upserted = pa_upserted st + 1,
             pa_changed = (if didChange then pa_changed st + 1 else pa_changed st),
             pa_observed = pa_observed st @ keys projected \<rparr>)"

definition project_nodes ::
  "(string \<Rightarrow> int option) \<Rightarrow> int \<Rightarrow> string list \<Rightarrow> (string \<times> jsval obj) list \<Rightarrow> puppet_node list \<Rightarrow> db \<Rightarrow> pass" where
  "project_nodes dp now projectedFacts facts nodes db =
     foldl (project_node dp now projectedFacts facts) \<lparr> pa_db = db, pa_upserted = 0, pa_changed = 0, pa_observed = [] \<rparr> nodes"

definition base_result :: projection_result where
  "base_result = \<lparr> pj_ranHere = True, pj_nodesSeen = 0, pj_nodesUpserted = 0, pj_nodesChanged = 0, pj_nodesPruned = 0,
     pj_pruneSkippedReason = None, pj_error = None \<rparr>"

definition project_fetched ::
  "(string \<Rightarrow> int option) \<Rightarrow> projection_config \<Rightarrow> int \<Rightarrow> puppet_node list \<Rightarrow> (string \<times> jsval obj) list
   \<Rightarrow> projector \<times> db \<Rightarrow> projection_result \<times> projector \<times> db" where
  "project_fetched dp cfg now nodes facts w =
     (let (pr, db) = w;
          st = project_nodes dp now (pc_projectedFacts cfg) facts nodes db;
          pr' = warnAbsentFacts (pc_projectedFacts cfg) (pa_observed st) (length nodes) pr;
          (safe, reason) = shouldPrune (length nodes) (pa_db st);
          (pruned, db') = (if safe then prune now (map pn_certname nodes) (pa_db st) else (0, pa_db st))
      in (base_result \<lparr> pj_nodesSeen := length nodes, pj_nodesUpserted := pa_upserted st, pj_nodesChanged := pa_changed st,
                        pj_nodesPruned := pruned, pj_pruneSkippedReason := reason \<rparr>, pr', db'))"

text \<open>\<^const>\<open>None\<close> is a fetch that never ends.\<close>

definition projectLocked ::
  "(string \<Rightarrow> int option) \<Rightarrow> projection_config \<Rightarrow> int \<Rightarrow> node_source \<Rightarrow> projector \<times> db
   \<Rightarrow> (projection_result \<times> projector \<times> db) option" where
  "projectLocked dp cfg now src w =
     Option.bind (fetchAllNodes src) (\<lambda>fetched.
       case fetched of
         Inl e \<Rightarrow> Some (base_result \<lparr> pj_error := Some (f_message e) \<rparr>, w)
       | Inr nodes \<Rightarrow>
           map_option (\<lambda>answer. case answer of
               Inl e \<Rightarrow> (base_result \<lparr> pj_error := Some (f_message e) \<rparr>, w)
             | Inr facts \<Rightarrow> project_fetched dp cfg now nodes facts w)
             (fetchAllFacts src (pc_projectedFacts cfg)))"

text \<open>\<open>locked\<close>: whether the advisory lock was free. Only a run that happened here replaces the last result.\<close>

definition project ::
  "(string \<Rightarrow> int option) \<Rightarrow> projection_config \<Rightarrow> int \<Rightarrow> node_source \<Rightarrow> bool \<Rightarrow> projector \<times> db
   \<Rightarrow> (projection_result \<times> projector \<times> db) option" where
  "project dp cfg now src locked w =
     (if \<not> locked then Some (base_result \<lparr> pj_ranHere := False \<rparr>, w)
      else map_option (\<lambda>(res, pr, db). (res, if pj_ranHere res then pr \<lparr> pr_lastResult := Some res \<rparr> else pr, db))
             (projectLocked dp cfg now src w))"

definition tick ::
  "(string \<Rightarrow> int option) \<Rightarrow> projection_config \<Rightarrow> int \<Rightarrow> node_source \<Rightarrow> bool \<Rightarrow> projector \<times> db \<Rightarrow> (projector \<times> db) option" where
  "tick dp cfg now src locked w =
     (if pr_running (fst w) \<or> pr_stopping (fst w) then Some w
      else map_option (\<lambda>(res, pr, db). (pr \<lparr> pr_running := False \<rparr>, db))
             (project dp cfg now src locked (fst w \<lparr> pr_running := True \<rparr>, snd w)))"

section \<open>The poll for changed facts\<close>

definition newest :: "db \<Rightarrow> int option" where
  "newest db = (case map the (filter (\<lambda>t. t \<noteq> None) (map n_factsTimestamp (db_nodes db))) of
      [] \<Rightarrow> None | t # ts \<Rightarrow> Some (foldl max t ts))"

text \<open>The point in time the poll resumes from, before it is printed by \<open>toISOString\<close>.\<close>

definition watermark :: "projection_config \<Rightarrow> int \<Rightarrow> db \<Rightarrow> int option" where
  "watermark cfg now db = map_option (\<lambda>latest. min latest now - pc_pollOverlapMs cfg) (newest db)"

record poll_result =
  po_scanned :: nat
  po_refreshed :: nat
  po_since :: "string option"

text \<open>
  The loop over the changed nodes: node \<open>k\<close> is skipped with the rest once \<open>stop k\<close> (the service is stopping);
  a fetch that fails ends the poll, and what was written stays.
\<close>

fun refresh_nodes ::
  "(string \<Rightarrow> int option) \<Rightarrow> projection_config \<Rightarrow> int \<Rightarrow> node_source \<Rightarrow> (nat \<Rightarrow> bool) \<Rightarrow> nat \<Rightarrow> puppet_node list
   \<Rightarrow> nat \<times> db \<Rightarrow> (failure + nat) \<times> db" where
  "refresh_nodes dp cfg now src stop k [] (refreshed, db) = (Inr refreshed, db)"
| "refresh_nodes dp cfg now src stop k (node # nodes) (refreshed, db) =
     (if stop k then (Inr refreshed, db)
      else case ns_getFacts src k (pn_certname node) of
        Inl e \<Rightarrow> (Inl e, db)
      | Inr facts \<Rightarrow>
          (let (changed, db') = upsertNode dp now node (pick facts (pc_projectedFacts cfg)) db
           in refresh_nodes dp cfg now src stop (Suc k) nodes (if changed then refreshed + 1 else refreshed, db')))"

definition pollChangedFacts ::
  "(string \<Rightarrow> int option) \<Rightarrow> (int \<Rightarrow> string) \<Rightarrow> projection_config \<Rightarrow> int \<Rightarrow> node_source \<Rightarrow> (nat \<Rightarrow> bool) \<Rightarrow> projector \<Rightarrow> db
   \<Rightarrow> (failure + poll_result) \<times> db" where
  "pollChangedFacts dp to_iso cfg now src stop pr db =
     (let none = \<lparr> po_scanned = 0, po_refreshed = 0, po_since = None \<rparr>
      in if pr_running pr \<or> length (pc_projectedFacts cfg) = 0 then (Inr none, db)
         else case watermark cfg now db of
           None \<Rightarrow> (Inr none, db)
         | Some t \<Rightarrow>
             (let since = to_iso t
              in case ns_listNodes src 0 (all_nodes \<lparr> nf_factsChangedSince := Some since, nf_includeInactive := False \<rparr>)
                        \<lparr> pg_limit = POLL_MAX_NODES, pg_offset = 0, pg_orderBy = Some ''facts_timestamp'', pg_order = ''asc'' \<rparr> of
                   Inl e \<Rightarrow> (Inl e, db)
                 | Inr changed \<Rightarrow>
                     if length (items changed) = 0 then (Inr (none \<lparr> po_since := Some since \<rparr>), db)
                     else (case refresh_nodes dp cfg now src stop 0 (items changed) (0, db) of
                             (Inl e, db') \<Rightarrow> (Inl e, db')
                           | (Inr refreshed, db') \<Rightarrow>
                               (Inr \<lparr> po_scanned = length (items changed), po_refreshed = refreshed, po_since = Some since \<rparr>, db'))))"

definition pollTick ::
  "(string \<Rightarrow> int option) \<Rightarrow> (int \<Rightarrow> string) \<Rightarrow> projection_config \<Rightarrow> int \<Rightarrow> node_source \<Rightarrow> (nat \<Rightarrow> bool) \<Rightarrow> projector \<Rightarrow> db \<Rightarrow> db" where
  "pollTick dp to_iso cfg now src stop pr db =
     (if pr_running pr \<or> pr_stopping pr then db else snd (pollChangedFacts dp to_iso cfg now src stop pr db))"


section \<open>Fetching ends and reads what is there\<close>

lemma fetch_pages_ends:
  assumes "\<And>k off p. ask k off = Inr p \<Longrightarrow> total p \<le> rat_of_nat B"
  shows "\<exists>r. fetch_pages ask k found = Some r"
proof (induction "B - length found" arbitrary: k found rule: less_induct)
  case less
  show ?case
  proof (cases "ask k (length found)")
    case (Inl e)
    then show ?thesis by (simp add: fetch_pages.simps [of ask k found])
  next
    case (Inr p)
    let ?more = "found @ items p"
    show ?thesis
    proof (cases "items p = [] \<or> total p \<le> rat_of_nat (length ?more)")
      case True
      with Inr show ?thesis by (auto simp: fetch_pages.simps [of ask k found] Let_def)
    next
      case False
      then have "rat_of_nat (length ?more) < rat_of_nat B" using assms [OF Inr] by linarith
      then have "length ?more < B" by (simp only: of_nat_less_iff)
      moreover have "0 < length (items p)" using False by simp
      ultimately have "B - length ?more < B - length found" unfolding length_append by linarith
      from less.hyps [OF this] False Inr show ?thesis
        by (simp add: fetch_pages.simps [of ask k found] Let_def)
    qed
  qed
qed

text \<open>A server that answers every call from one list.\<close>

definition serves :: "'i list \<Rightarrow> (nat \<Rightarrow> nat \<Rightarrow> failure + 'i page) \<Rightarrow> bool" where
  "serves xs ask \<longleftrightarrow> (\<forall>k off. \<exists>p. ask k off = Inr p \<and> items p = take PAGE_SIZE (drop off xs) \<and> total p = rat_of_nat (length xs))"

lemma fetch_pages_slices:
  assumes "serves xs ask"
  shows "n \<le> length xs \<Longrightarrow> fetch_pages ask k (take n xs) = Some (Inr xs)"
proof (induction "length xs - n" arbitrary: k n rule: less_induct)
  case less
  from assms obtain p where p: "ask k n = Inr p" "items p = take PAGE_SIZE (drop n xs)" "total p = rat_of_nat (length xs)"
    unfolding serves_def by blast
  have len: "length (take n xs) = n" using less.prems by simp
  have more: "take n xs @ items p = take (n + PAGE_SIZE) xs" by (simp add: p(2) take_add)
  show ?case
  proof (cases "length xs \<le> n + PAGE_SIZE")
    case True
    then show ?thesis
      by (subst fetch_pages.simps) (simp only: len p(1,3) more Let_def sum.case take_all if_True simp_thms order_refl)
  next
    case False
    then have step: "length xs - (n + PAGE_SIZE) < length xs - n" "n + PAGE_SIZE \<le> length xs" by (simp_all add: PAGE_SIZE_def)
    have short: "\<not> (length (items p) = 0 \<or> total p \<le> rat_of_nat (length (take (n + PAGE_SIZE) xs)))"
      using False by (simp add: p(2,3) PAGE_SIZE_def)
    from less.hyps [OF step] short show ?thesis
      by (subst fetch_pages.simps) (simp only: len p(1) more Let_def sum.case if_False)
  qed
qed

lemma fetch_pages_exact: "serves xs ask \<Longrightarrow> fetch_pages ask 0 [] = Some (Inr xs)"
  using fetch_pages_slices [of xs ask 0 0] by simp


section \<open>What a pass leaves for each node\<close>

abbreviation node_row_of :: "string \<Rightarrow> db \<Rightarrow> node_row option" where
  "node_row_of c db \<equiv> find_unique (\<lambda>n. n_certname n = c) (db_nodes db)"

lemma find_upserted:
  "key new = d \<Longrightarrow> find_unique (\<lambda>r. key r = c) (upsert (\<lambda>r. key r = d) new (\<lambda>_. new) rows) =
     (if c = d then Some new else find_unique (\<lambda>r. key r = c) rows)"
proof (cases "list_ex (\<lambda>r. key r = d) rows")
  case True
  assume "key new = d"
  then have "c \<noteq> d \<Longrightarrow> find_unique (\<lambda>r. key r = c) (map (\<lambda>r. if key r = d then new else r) rows) = find_unique (\<lambda>r. key r = c) rows"
    by (induction rows) auto
  moreover have "find_unique (\<lambda>r. key r = d) (map (\<lambda>r. if key r = d then new else r) rows) = Some new"
    using True \<open>key new = d\<close> by (induction rows) auto
  ultimately have "find_unique (\<lambda>r. key r = c) (map (\<lambda>r. if key r = d then new else r) rows) =
      (if c = d then Some new else find_unique (\<lambda>r. key r = c) rows)"
    by simp
  with True show ?thesis by (simp add: upsert_def)
next
  case False
  assume "key new = d"
  moreover have "find_unique (\<lambda>r. key r = d) rows = None" using False by (simp add: find_unique_None list_ex_iff)
  ultimately show ?thesis using False by (simp add: upsert_def find_unique_append split: option.split)
qed

lemma find_updated:
  "(\<And>r. key (f r) = key r) \<Longrightarrow>
     find_unique (\<lambda>r. key r = c) (update_many (\<lambda>r. key r = d) f rows) =
       (if c = d then map_option f (find_unique (\<lambda>r. key r = c) rows) else find_unique (\<lambda>r. key r = c) rows)"
  by (induction rows) (auto simp: update_many_def)

lemma find_deleted:
  "find_unique (\<lambda>r. key r = c) (delete_many (\<lambda>r. key r \<in> S) rows) =
     (if c \<in> S then None else find_unique (\<lambda>r. key r = c) rows)"
  by (induction rows) (auto simp: delete_many_def)

lemma upsertNode_row:
  "node_row_of c (snd (upsertNode dp now node projected db)) =
     (if c = pn_certname node then Some (projected_row dp now node projected) else node_row_of c db)"
  by (simp add: upsertNode_def Let_def find_upserted [where key = n_certname] projected_row_def)

lemma markDeactivated_row:
  "node_row_of c (snd (markDeactivated now d db)) =
     (if c = d then map_option (\<lambda>n. n \<lparr> n_deactivated := True, n_projectedAt := now \<rparr>) (node_row_of c db) else node_row_of c db)"
  by (simp add: markDeactivated_def find_updated [where key = n_certname])

definition known_facts :: "(string \<times> jsval obj) list \<Rightarrow> string \<Rightarrow> jsval obj" where
  "known_facts facts c = (case map_of facts c of None \<Rightarrow> [] | Some fs \<Rightarrow> fs)"

text \<open>The row a pass leaves for a node PuppetDB lists.\<close>

definition after_listing ::
  "(string \<Rightarrow> int option) \<Rightarrow> int \<Rightarrow> string list \<Rightarrow> (string \<times> jsval obj) list \<Rightarrow> puppet_node \<Rightarrow> node_row option \<Rightarrow> node_row option" where
  "after_listing dp now projectedFacts facts node old =
     (if pn_isActive node then Some (projected_row dp now node (pick (known_facts facts (pn_certname node)) projectedFacts))
      else map_option (\<lambda>n. n \<lparr> n_deactivated := True, n_projectedAt := now \<rparr>) old)"

lemma project_node_db:
  "pa_db (project_node dp now names facts st node) =
     (if pn_isActive node
      then snd (upsertNode dp now node (pick (known_facts facts (pn_certname node)) names) (pa_db st))
      else snd (markDeactivated now (pn_certname node) (pa_db st)))"
  by (simp add: project_node_def known_facts_def split_def Let_def)

lemma project_node_row:
  "node_row_of c (pa_db (project_node dp now names facts st node)) =
     (if c = pn_certname node then after_listing dp now names facts node (node_row_of c (pa_db st)) else node_row_of c (pa_db st))"
  by (simp add: project_node_db upsertNode_row markDeactivated_row after_listing_def)

lemma find_listed: "List.find (\<lambda>n. pn_certname n = c) nodes = None \<longleftrightarrow> c \<notin> pn_certname ` set nodes"
  by (auto simp: find_None_iff image_iff)

lemma project_fold_row:
  "distinct (map pn_certname nodes) \<Longrightarrow>
   node_row_of c (pa_db (foldl (project_node dp now names facts) st nodes)) =
     (case List.find (\<lambda>n. pn_certname n = c) nodes of
        None \<Rightarrow> node_row_of c (pa_db st)
      | Some node \<Rightarrow> after_listing dp now names facts node (node_row_of c (pa_db st)))"
proof (induction nodes arbitrary: st)
  case (Cons node nodes)
  have rest: "List.find (\<lambda>n. pn_certname n = pn_certname node) nodes = None"
    using Cons.prems by (simp add: find_listed)
  from Cons.prems have "distinct (map pn_certname nodes)" by simp
  note IH = Cons.IH [OF this, of "project_node dp now names facts st node"]
  show ?case
  proof (cases "pn_certname node = c")
    case True
    with IH rest show ?thesis by (simp add: project_node_row)
  next
    case False
    then have "node_row_of c (pa_db (project_node dp now names facts st node)) = node_row_of c (pa_db st)"
      by (simp add: project_node_row)
    with IH False show ?thesis by (simp split: option.split)
  qed
qed simp

lemma project_nodes_row:
  "distinct (map pn_certname nodes) \<Longrightarrow>
   node_row_of c (pa_db (project_nodes dp now names facts nodes db)) =
     (case List.find (\<lambda>n. pn_certname n = c) nodes of
        None \<Rightarrow> node_row_of c db
      | Some node \<Rightarrow> after_listing dp now names facts node (node_row_of c db))"
  by (simp add: project_nodes_def project_fold_row split: option.split)

lemma enqueueNodeDeletions_sel [simp]:
  "db_nodes (enqueueNodeDeletions now cs reason db) = db_nodes db"
  "db_materializations (enqueueNodeDeletions now cs reason db) = db_materializations db"
  "db_groups (enqueueNodeDeletions now cs reason db) = db_groups db"
  unfolding enqueueNodeDeletions_def
  by (induction cs arbitrary: db) (simp_all add: enqueueNodeDeletion_def)

lemma prune_row:
  "node_row_of c (snd (prune now known db)) = (if c \<in> set known then node_row_of c db else None)"
proof (cases "\<exists>n \<in> set (db_nodes db). n_certname n \<notin> set known")
  case True
  then show ?thesis
    by (auto simp: prune_def Let_def find_deleted [where key = n_certname] filter_empty_conv find_unique_None)
next
  case False
  then show ?thesis by (auto simp: prune_def Let_def filter_empty_conv find_unique_None)
qed

definition pruning :: "(string \<Rightarrow> int option) \<Rightarrow> projection_config \<Rightarrow> int \<Rightarrow> puppet_node list \<Rightarrow> (string \<times> jsval obj) list \<Rightarrow> db \<Rightarrow> bool" where
  "pruning dp cfg now nodes facts db =
     fst (shouldPrune (length nodes) (pa_db (project_nodes dp now (pc_projectedFacts cfg) facts nodes db)))"

lemma project_fetched_db:
  "snd (snd (project_fetched dp cfg now nodes facts (pr, db))) =
     (let db1 = pa_db (project_nodes dp now (pc_projectedFacts cfg) facts nodes db)
      in if pruning dp cfg now nodes facts db then snd (prune now (map pn_certname nodes) db1) else db1)"
  by (simp add: project_fetched_def pruning_def Let_def split_def)


text \<open>
  C10. A pass, node by node. A listed node that is active gets the row PuppetDB's answer makes, whatever was
  stored; a listed node that is not keeps the row it had, flagged, and gets none if it had none; a node that
  is not listed loses its row if the guard lets the pass prune, and keeps it untouched otherwise.
\<close>

theorem projection_per_node:
  assumes "distinct (map pn_certname nodes)"
    and "project_fetched dp cfg now nodes facts (pr, db) = (res, pr', db')"
  shows "node_row_of c db' =
    (case List.find (\<lambda>n. pn_certname n = c) nodes of
       Some node \<Rightarrow>
         if pn_isActive node
         then Some (projected_row dp now node
           (pick (case map_of facts c of None \<Rightarrow> [] | Some fs \<Rightarrow> fs) (pc_projectedFacts cfg)))
         else map_option (\<lambda>n. n \<lparr> n_deactivated := True, n_projectedAt := now \<rparr>) (node_row_of c db)
     | None \<Rightarrow>
         if fst (shouldPrune (length nodes) (pa_db (project_nodes dp now (pc_projectedFacts cfg) facts nodes db)))
         then None else node_row_of c db)"
proof -
  have db': "db' = snd (snd (project_fetched dp cfg now nodes facts (pr, db)))" by (simp add: assms(2))
  show ?thesis
  proof (cases "List.find (\<lambda>n. pn_certname n = c) nodes")
    case None
    then have "c \<notin> set (map pn_certname nodes)" by (simp add: find_listed)
    with None assms(1) show ?thesis
      by (simp add: db' project_fetched_db Let_def prune_row project_nodes_row pruning_def)
  next
    case (Some node)
    then have "c \<in> set (map pn_certname nodes)" "pn_certname node = c"
      using find_listed [of c nodes] by (auto simp: find_Some_iff)
    with Some assms(1) show ?thesis
      by (simp add: db' project_fetched_db Let_def prune_row project_nodes_row pruning_def after_listing_def known_facts_def)
  qed
qed

section \<open>What a pass may delete\<close>

lemma named_row: "c \<in> n_certname ` set (db_nodes db) \<longleftrightarrow> node_row_of c db \<noteq> None"
  by (auto simp: find_unique_None)

lemma upsertNode_names:
  "n_certname ` set (db_nodes (snd (upsertNode dp now node projected db))) = insert (pn_certname node) (n_certname ` set (db_nodes db))"
  by (rule set_eqI) (simp only: named_row upsertNode_row insert_iff, simp)

lemma markDeactivated_names:
  "n_certname ` set (db_nodes (snd (markDeactivated now c db))) = n_certname ` set (db_nodes db)"
  by (rule set_eqI) (simp only: named_row markDeactivated_row, simp)

lemma project_fold_names:
  "n_certname ` set (db_nodes (pa_db st)) \<subseteq> n_certname ` set (db_nodes (pa_db (foldl (project_node dp now names facts) st nodes)))"
proof (induction nodes arbitrary: st)
  case (Cons node nodes)
  have "n_certname ` set (db_nodes (pa_db st)) \<subseteq> n_certname ` set (db_nodes (pa_db (project_node dp now names facts st node)))"
    by (simp add: project_node_db upsertNode_names markDeactivated_names subset_insertI)
  from order.trans [OF this Cons.IH] show ?case by simp
qed simp

lemma project_nodes_names:
  "n_certname ` set (db_nodes db) \<subseteq> n_certname ` set (db_nodes (pa_db (project_nodes dp now names facts nodes db)))"
  using project_fold_names [of "\<lparr> pa_db = db, pa_upserted = 0, pa_changed = 0, pa_observed = [] \<rparr>"]
  by (simp add: project_nodes_def)

lemma shouldPrune_bound:
  "fst (shouldPrune n db) \<Longrightarrow> 0 < n \<and> length (db_nodes db) \<le> 2 * n"
proof -
  assume safe: "fst (shouldPrune n db)"
  then have pos: "0 < length (db_nodes db)" "0 < n"
    and "\<not> (rat_of_nat (length (db_nodes db)) - rat_of_nat n) / rat_of_nat (length (db_nodes db)) > 1 / 2"
    by (auto simp: shouldPrune_def Let_def MAX_SAFE_SHRINK_RATIO_def split: if_splits)
  then have "rat_of_nat (length (db_nodes db)) \<le> 2 * rat_of_nat n" by (simp add: field_simps)
  then have "rat_of_nat (length (db_nodes db)) \<le> rat_of_nat (2 * n)" by simp
  with pos show ?thesis by (simp only: of_nat_le_iff)
qed

lemma queued_deletion:
  "c \<in> set cs \<Longrightarrow> \<exists>j \<in> set (db_jobs (enqueueNodeDeletions now cs reason db)). j_dedupeKey j = delete_key c \<and> j_status j = PENDING"
proof -
  let ?there = "\<lambda>db. \<exists>j \<in> set (db_jobs db). j_dedupeKey j = delete_key c \<and> j_status j = PENDING"
  have hit: "?there (enqueueNodeDeletion now c reason db)" for db
    unfolding enqueueNodeDeletion_def by (rule upsert_job_present) (simp_all add: default_job_def requeue_def)
  have keep: "?there (enqueueNodeDeletion now d reason db)" if there: "?there db" for d db
  proof (cases "d = c")
    case True
    with hit show ?thesis by simp
  next
    case False
    then have "delete_key c \<noteq> delete_key d" by (simp add: delete_key_def)
    with there show ?thesis unfolding enqueueNodeDeletion_def by (metis upsert_job_other)
  qed
  show "c \<in> set cs \<Longrightarrow> ?there (enqueueNodeDeletions now cs reason db)"
    unfolding enqueueNodeDeletions_def
  proof (induction cs rule: rev_induct)
    case (snoc d cs)
    then show ?case using hit keep by (cases "d = c") simp_all
  qed simp
qed


lemma upsert_length: "length rows \<le> length (upsert p new upd rows)"
  by (simp add: upsert_def)

lemma project_fold_length:
  "length (db_nodes (pa_db st)) \<le> length (db_nodes (pa_db (foldl (project_node dp now names facts) st nodes)))"
proof (induction nodes arbitrary: st)
  case (Cons node nodes)
  have "length (db_nodes (pa_db st)) \<le> length (db_nodes (pa_db (project_node dp now names facts st node)))"
    by (simp add: project_node_db upsertNode_def markDeactivated_def update_many_def Let_def upsert_length)
  from order.trans [OF this Cons.IH] show ?case by simp
qed simp

lemma upsert_grows: "length (upsert p new upd rows) \<le> Suc (length rows)"
  by (simp add: upsert_def)

lemma project_fold_grows:
  "length (db_nodes (pa_db (foldl (project_node dp now names facts) st nodes))) \<le> length (db_nodes (pa_db st)) + length nodes"
proof (induction nodes arbitrary: st)
  case (Cons node nodes)
  have "length (db_nodes (pa_db (project_node dp now names facts st node))) \<le> Suc (length (db_nodes (pa_db st)))"
    by (simp add: project_node_db upsertNode_def markDeactivated_def update_many_def Let_def upsert_grows)
  with Cons.IH [of "project_node dp now names facts st node"] show ?case by simp
qed simp

lemma shouldPrune_safe: "0 < n \<Longrightarrow> db_nodes db \<noteq> [] \<Longrightarrow> length (db_nodes db) \<le> 2 * n \<Longrightarrow> fst (shouldPrune n db)"
proof -
  assume n: "0 < n" "db_nodes db \<noteq> []" "length (db_nodes db) \<le> 2 * n"
  then have "rat_of_nat (length (db_nodes db)) \<le> rat_of_nat (2 * n)" by (simp only: of_nat_le_iff)
  with n show ?thesis by (simp add: shouldPrune_def Let_def MAX_SAFE_SHRINK_RATIO_def field_simps)
qed

lemma project_cases:
  assumes "project dp cfg now src locked (pr, db) = Some (res, pr', db')"
  shows "db' = db \<or> (\<exists>nodes facts. fetchAllNodes src = Some (Inr nodes) \<and>
      fetchAllFacts src (pc_projectedFacts cfg) = Some (Inr facts) \<and>
      db' = snd (snd (project_fetched dp cfg now nodes facts (pr, db))))"
proof (cases "locked")
  case True
  then obtain pr1 where run: "projectLocked dp cfg now src (pr, db) = Some (res, pr1, db')"
    using assms by (auto simp: project_def)
  show ?thesis
  proof (cases "fetchAllNodes src")
    case None
    with run show ?thesis by (simp add: projectLocked_def)
  next
    case nodes: (Some fetched)
    show ?thesis
    proof (cases fetched)
      case (Inl e)
      with run nodes show ?thesis by (simp add: projectLocked_def)
    next
      case (Inr ns)
      with run nodes show ?thesis
        by (cases "fetchAllFacts src (pc_projectedFacts cfg)"; cases "the (fetchAllFacts src (pc_projectedFacts cfg))")
          (auto simp: projectLocked_def)
    qed
  qed
qed (use assms in \<open>simp add: project_def\<close>)

text \<open>
  C2. What a pass may delete. A node's row goes only if the whole node list was fetched, the list is not empty and
  does not name the node, and it has at least half as many nodes as are cached; the job that removes its
  document is queued in the same transaction. A failed fetch, a busy lock and a refused prune delete nothing.
\<close>

theorem nodes_deleted_only_when_absent:
  assumes "project dp cfg now src locked (pr, db) = Some (res, pr', db')"
    and "row \<in> set (db_nodes db)" "n_certname row \<notin> n_certname ` set (db_nodes db')"
  shows "locked \<and> (\<exists>nodes. fetchAllNodes src = Some (Inr nodes) \<and> n_certname row \<notin> pn_certname ` set nodes
      \<and> nodes \<noteq> [] \<and> length (db_nodes db) \<le> 2 * length nodes)
    \<and> (\<exists>j \<in> set (db_jobs db'). j_dedupeKey j = delete_key (n_certname row) \<and> j_status j = PENDING)"
proof -
  have gone: "db' \<noteq> db" using assms(2,3) by auto
  then have locked: "locked" using assms(1) by (auto simp: project_def split: if_splits)
  from project_cases [OF assms(1)] gone obtain nodes facts
    where nodes: "fetchAllNodes src = Some (Inr nodes)"
      and db': "db' = snd (snd (project_fetched dp cfg now nodes facts (pr, db)))" by blast
  let ?db1 = "pa_db (project_nodes dp now (pc_projectedFacts cfg) facts nodes db)"
  have kept: "n_certname row \<in> n_certname ` set (db_nodes ?db1)"
    using project_nodes_names [of db] assms(2) by blast
  with assms(3) db' have safe: "fst (shouldPrune (length nodes) ?db1)"
    and pruned: "db' = snd (prune now (map pn_certname nodes) ?db1)"
    by (auto simp: project_fetched_db Let_def pruning_def split: if_splits)
  have absent: "n_certname row \<notin> set (map pn_certname nodes)"
  proof
    assume "n_certname row \<in> set (map pn_certname nodes)"
    with kept have "n_certname row \<in> n_certname ` set (db_nodes db')"
      unfolding pruned named_row by (simp only: prune_row if_True not_False_eq_True)
    with assms(3) show False by simp
  qed
  let ?doomed = "map n_certname (filter (\<lambda>n. n_certname n \<notin> set (map pn_certname nodes)) (db_nodes ?db1))"
  have doomed: "n_certname row \<in> set ?doomed" using kept absent by auto
  then have "length ?doomed \<noteq> 0" by (metis length_0_conv list.set(1) empty_iff)
  then have "db' = enqueueNodeDeletions now ?doomed ''node-purged''
      (?db1 \<lparr> db_nodes := delete_many (\<lambda>n. n_certname n \<in> set ?doomed) (db_nodes ?db1),
             db_materializations := delete_many (\<lambda>m. em_certname m \<in> set ?doomed) (db_materializations ?db1) \<rparr>)"
    by (simp only: pruned prune_def Let_def if_False snd_conv)
  with queued_deletion [OF doomed]
  have job: "\<exists>j \<in> set (db_jobs db'). j_dedupeKey j = delete_key (n_certname row) \<and> j_status j = PENDING" by simp
  have "length (db_nodes db) \<le> length (db_nodes ?db1)"
    using project_fold_length [of "\<lparr> pa_db = db, pa_upserted = 0, pa_changed = 0, pa_observed = [] \<rparr>"]
    by (simp add: project_nodes_def)
  with shouldPrune_bound [OF safe] have "nodes \<noteq> [] \<and> length (db_nodes db) \<le> 2 * length nodes" by auto
  with locked nodes absent job show ?thesis by auto
qed

text \<open>
  The guard counts every listed node, deactivated ones that were never cached included, though it and
  its message speak of active nodes. A listing of nothing but such strangers, half as many as are cached,
  passes it, and the pass deletes every row.
\<close>

theorem strangers_empty_the_estate:
  assumes "\<forall>n \<in> set nodes. \<not> pn_isActive n \<and> pn_certname n \<notin> n_certname ` set (db_nodes db)"
    and "db_nodes db \<noteq> []" "length (db_nodes db) \<le> 2 * length nodes"
    and "project_fetched dp cfg now nodes facts (pr, db) = (res, pr', db')"
  shows "db_nodes db' = [] \<and> pj_nodesPruned res = length (db_nodes db) \<and> pj_pruneSkippedReason res = None
    \<and> pj_nodesUpserted res = 0"
proof -
  have idle: "foldl (project_node dp now names facts) st ns = st"
    if "\<forall>n \<in> set ns. \<not> pn_isActive n \<and> pn_certname n \<notin> n_certname ` set (db_nodes (pa_db st))" for ns names st
    using that
  proof (induction ns)
    case (Cons n ns)
    then have "\<not> list_ex (\<lambda>m. n_certname m = pn_certname n) (db_nodes (pa_db st))"
      "update_many (\<lambda>m. n_certname m = pn_certname n) f (db_nodes (pa_db st)) = db_nodes (pa_db st)" for f
      by (auto simp: list_ex_iff update_many_def image_iff intro!: map_idI)
    then have "project_node dp now names facts st n = st" using Cons.prems by (simp add: project_node_def markDeactivated_def)
    with Cons show ?case by simp
  qed simp
  have st: "project_nodes dp now names facts nodes db = \<lparr> pa_db = db, pa_upserted = 0, pa_changed = 0, pa_observed = [] \<rparr>" for names
    unfolding project_nodes_def by (rule idle) (use assms(1) in simp)
  let ?k = "length (db_nodes db)"
  have k: "0 < ?k" "0 < length nodes" using assms(2,3) by auto
  have "rat_of_nat ?k \<le> rat_of_nat (2 * length nodes)" using assms(3) by (simp only: of_nat_le_iff)
  then have "\<not> (rat_of_nat ?k - rat_of_nat (length nodes)) / rat_of_nat ?k > 1 / 2" using k by (simp add: field_simps)
  then have safe: "shouldPrune (length nodes) db = (True, None)"
    using k by (simp add: shouldPrune_def Let_def MAX_SAFE_SHRINK_RATIO_def)
  have all: "filter (\<lambda>n. n_certname n \<notin> set (map pn_certname nodes)) (db_nodes db) = db_nodes db"
    using assms(1) by (intro filter_True) (force simp: image_iff)
  have "prune now (map pn_certname nodes) db = (?k, enqueueNodeDeletions now (map n_certname (db_nodes db)) ''node-purged''
      (db \<lparr> db_nodes := [], db_materializations := delete_many (\<lambda>m. em_certname m \<in> set (map n_certname (db_nodes db))) (db_materializations db) \<rparr>))"
    using k unfolding prune_def Let_def all by (auto simp: delete_many_def filter_empty_conv)
  with assms(4) safe st show ?thesis by (auto simp: project_fetched_def Let_def base_result_def)
qed


section \<open>Facts\<close>

lemma known_add_fact:
  "known_facts (add_fact m row) c =
     (if c = fr_certname row then set_fact (fr_name row) (fr_value row) (known_facts m c) else known_facts m c)"
  by (simp add: known_facts_def add_fact_def Let_def map_set_lookup)

text \<open>The facts of one node among the rows; a later row of the same name wins.\<close>

definition facts_in :: "fact_row list \<Rightarrow> string \<Rightarrow> string \<Rightarrow> jsval option" where
  "facts_in rows c name = map_of (rev (map (\<lambda>r. (fr_name r, fr_value r)) (filter (\<lambda>r. fr_certname r = c) rows))) name"

lemma known_facts_rows:
  "name \<noteq> ''__proto__'' \<Longrightarrow> oget (known_facts (foldl add_fact [] rows) c) name = facts_in rows c name"
proof (induction rows rule: rev_induct)
  case Nil
  show ?case by (simp add: known_facts_def facts_in_def)
next
  case (snoc row rows)
  then show ?case by (cases "c = fr_certname row") (auto simp: known_add_fact set_fact_def facts_in_def)
qed

lemma pick_row: "oget (pick facts names) k = (if k \<in> set names then oget facts k else None)"
proof -
  have "oget (foldl (\<lambda>out key. case oget facts key of None \<Rightarrow> out | Some v \<Rightarrow> oset key v out) out names) k =
      (if k \<in> set names \<and> oget facts k \<noteq> None then oget facts k else oget out k)" for out
    by (induction names arbitrary: out) (auto split: option.split)
  from this [of "[]"] show ?thesis by (auto simp: pick_def)
qed

text \<open>
  C39. When PuppetDB's data stays fixed while a pass reads it, so that every page is the asked slice of one list
  of nodes and one list of facts, a pass projects exactly those nodes, with exactly those facts. The name
  \<open>__proto__\<close> is the exception: a fact of that name is dropped.
\<close>

theorem pass_reads_whole_estate:
  assumes "serves nodes (\<lambda>k off. ns_listNodes src k all_nodes (page_at (Some ''certname'') off))"
    and "serves rows (\<lambda>k off. ns_listFacts src k (pc_projectedFacts cfg) (page_at None off))"
    and "pc_projectedFacts cfg \<noteq> []"
  shows "\<exists>facts. projectLocked dp cfg now src w = Some (project_fetched dp cfg now nodes facts w)
    \<and> (\<forall>c name. name \<noteq> ''__proto__'' \<longrightarrow>
        oget (pick (case map_of facts c of None \<Rightarrow> [] | Some fs \<Rightarrow> fs) (pc_projectedFacts cfg)) name =
          (if name \<in> set (pc_projectedFacts cfg)
           then map_of (rev (map (\<lambda>r. (fr_name r, fr_value r)) (filter (\<lambda>r. fr_certname r = c) rows))) name else None))"
proof (intro exI conjI allI impI)
  let ?facts = "foldl add_fact [] rows"
  have "fetchAllNodes src = Some (Inr nodes)" unfolding fetchAllNodes_def by (rule fetch_pages_exact [OF assms(1)])
  moreover have "fetchAllFacts src (pc_projectedFacts cfg) = Some (Inr ?facts)"
    using fetch_pages_exact [OF assms(2)] assms(3) by (simp add: fetchAllFacts_def bind_err_def)
  ultimately show "projectLocked dp cfg now src w = Some (project_fetched dp cfg now nodes ?facts w)"
    by (simp add: projectLocked_def)
  fix c name :: string
  assume "name \<noteq> ''__proto__''"
  from known_facts_rows [OF this, of rows c]
  show "oget (pick (case map_of ?facts c of None \<Rightarrow> [] | Some fs \<Rightarrow> fs) (pc_projectedFacts cfg)) name =
      (if name \<in> set (pc_projectedFacts cfg)
       then map_of (rev (map (\<lambda>r. (fr_name r, fr_value r)) (filter (\<lambda>r. fr_certname r = c) rows))) name else None)"
    by (simp add: pick_row known_facts_def facts_in_def)
qed

text \<open>
  A pass ends whatever PuppetDB answers, as long as the totals it reports are bounded: each page either is empty,
  and the last, or brings the count nearer to the total.
\<close>

theorem pass_ends:
  assumes "\<And>k off p. ns_listNodes src k all_nodes (page_at (Some ''certname'') off) = Inr p \<Longrightarrow> total p \<le> rat_of_nat B"
    and "\<And>k off p. ns_listFacts src k (pc_projectedFacts cfg) (page_at None off) = Inr p \<Longrightarrow> total p \<le> rat_of_nat B"
  shows "\<exists>res w'. project dp cfg now src locked w = Some (res, w')"
proof -
  have "\<exists>r. fetchAllNodes src = Some r" unfolding fetchAllNodes_def by (rule fetch_pages_ends) (rule assms(1))
  moreover have "\<exists>r. fetchAllFacts src (pc_projectedFacts cfg) = Some r"
    using fetch_pages_ends [of "\<lambda>k off. ns_listFacts src k (pc_projectedFacts cfg) (page_at None off)" B 0 "[]"] assms(2)
    by (auto simp: fetchAllFacts_def)
  ultimately have "projectLocked dp cfg now src w \<noteq> None" for w
    by (auto simp: projectLocked_def split: sum.split) (metis prod_cases3)
  then obtain res w' where "projectLocked dp cfg now src w = Some (res, w')"
    by (metis not_Some_eq prod.exhaust)
  then show ?thesis by (cases w') (simp add: project_def)
qed

section \<open>What can go missing between two pages\<close>

lemma two_pages:
  assumes "ask 0 0 = Inr p" "items p = first" "0 < length first" "\<not> total p \<le> rat_of_nat (length first)"
    and "ask 1 (length first) = Inr q" "items q = rest" "rest = [] \<or> total q \<le> rat_of_nat (length first + length rest)"
  shows "fetch_pages ask 0 [] = Some (Inr (first @ rest))"
proof -
  have "fetch_pages ask 1 first = Some (Inr (first @ rest))"
    using assms(5-7) by (subst fetch_pages.simps) (auto simp: Let_def)
  then show ?thesis using assms(1-4) by (subst fetch_pages.simps) (simp add: Let_def)
qed

text \<open>
  The facts are paged in the order of the certname alone, which is the same for all facts of a node. If PuppetDB
  returns two facts of one node in one order for the first page and in the other for the second, both answers
  are slices of all facts, ordered as asked, and the pass never sees one of them: it projects the node without.
\<close>

theorem fact_lost_between_pages:
  fixes a b :: fact_row
  assumes "length pre = 499" "fr_certname a = fr_certname b" "fr_name a \<noteq> fr_name b" "fr_name b \<noteq> ''__proto__''"
    and "\<forall>r \<in> set pre. fr_certname r = fr_certname b \<longrightarrow> fr_name r \<noteq> fr_name b"
    and "ns_listFacts src 0 names (page_at None 0) = Inr p" "items p = take PAGE_SIZE (pre @ [a, b])" "total p = 501"
    and "ns_listFacts src 1 names (page_at None 500) = Inr q" "items q = take PAGE_SIZE (drop 500 (pre @ [b, a]))" "total q = 501"
    and "names \<noteq> []"
  shows "map fr_certname (pre @ [a, b]) = map fr_certname (pre @ [b, a])
    \<and> (\<exists>facts. fetchAllFacts src names = Some (Inr facts)
        \<and> oget (pick (case map_of facts (fr_certname b) of None \<Rightarrow> [] | Some fs \<Rightarrow> fs) names) (fr_name b) = None)"
proof -
  have first: "items p = pre @ [a]" and rest: "items q = [a]" using assms(1,7,10) by (simp_all add: PAGE_SIZE_def)
  let ?rows = "(pre @ [a]) @ [a]"
  have "fetch_pages (\<lambda>k off. ns_listFacts src k names (page_at None off)) 0 [] = Some (Inr ?rows)"
    using two_pages [where ask = "\<lambda>k off. ns_listFacts src k names (page_at None off)", OF assms(6) first]
      assms(1,8,9,11) rest by simp
  then have "fetchAllFacts src names = Some (Inr (foldl add_fact [] ?rows))"
    using assms(12) by (simp add: fetchAllFacts_def bind_err_def)
  moreover have "facts_in ?rows (fr_certname b) (fr_name b) = None"
    using assms(2,3,5) by (auto simp: facts_in_def map_of_eq_None_iff)
  ultimately show ?thesis
    using assms(2) known_facts_rows [OF assms(4), of ?rows "fr_certname b"]
    by (auto simp: pick_row known_facts_def simp del: foldl_append)
qed

text \<open>
  Nor is the node list one snapshot. If a node of the first page is purged before the second is asked for, the
  list moves up by one and the node at the boundary is in neither page: a live node, whose row the pass deletes
  if the guard lets it prune, although PuppetDB listed the node throughout.
\<close>

theorem node_lost_between_pages:
  assumes "length mid = 499" "length post \<le> 500" "pn_certname n \<notin> pn_certname ` set (g # mid @ post)"
    and "ns_listNodes src 0 all_nodes (page_at (Some ''certname'') 0) = Inr p"
    and "items p = take PAGE_SIZE (g # mid @ n # post)" "total p = rat_of_nat (length (g # mid @ n # post))"
    and "ns_listNodes src 1 all_nodes (page_at (Some ''certname'') 500) = Inr q"
    and "items q = take PAGE_SIZE (drop 500 (mid @ n # post))" "total q = rat_of_nat (length (mid @ n # post))"
    and "fst (shouldPrune (length (g # mid @ post))
      (pa_db (project_nodes dp now (pc_projectedFacts cfg) facts (g # mid @ post) db)))"
  shows "fetchAllNodes src = Some (Inr (g # mid @ post))
    \<and> node_row_of (pn_certname n) (snd (snd (project_fetched dp cfg now (g # mid @ post) facts (pr, db)))) = None"
proof
  have first: "items p = g # mid" and rest: "items q = post" using assms(1,2,5,8) by (simp_all add: PAGE_SIZE_def)
  have "fetchAllNodes src = Some (Inr ((g # mid) @ post))" unfolding fetchAllNodes_def
    using two_pages [where ask = "\<lambda>k off. ns_listNodes src k all_nodes (page_at (Some ''certname'') off)", OF assms(4) first]
      assms(1,6,7,9) rest by simp
  then show "fetchAllNodes src = Some (Inr (g # mid @ post))" by simp
  have "pn_certname n \<notin> set (map pn_certname (g # mid @ post))" using assms(3) by (simp only: set_map not_False_eq_True)
  with assms(10) show "node_row_of (pn_certname n) (snd (snd (project_fetched dp cfg now (g # mid @ post) facts (pr, db)))) = None"
    by (simp add: project_fetched_db pruning_def Let_def prune_row del: set_map)
qed


section \<open>The poll\<close>

definition only_refreshes :: "db \<Rightarrow> db \<Rightarrow> bool" where
  "only_refreshes db db' \<longleftrightarrow>
     db_materializations db' = db_materializations db \<and>
     (\<forall>c row. node_row_of c db = Some row \<longrightarrow> (\<exists>row'. node_row_of c db' = Some row' \<and> (row' = row \<or> \<not> n_deactivated row')))"

lemma only_refreshes_refl: "only_refreshes db db"
  by (simp add: only_refreshes_def)

lemma only_refreshes_trans:
  assumes "only_refreshes a b" "only_refreshes b c"
  shows "only_refreshes a c"
  unfolding only_refreshes_def
proof (intro conjI allI impI)
  show "db_materializations c = db_materializations a" using assms by (simp add: only_refreshes_def)
  fix d row
  assume "node_row_of d a = Some row"
  then obtain row' where b: "node_row_of d b = Some row'" "row' = row \<or> \<not> n_deactivated row'"
    using assms(1) unfolding only_refreshes_def by blast
  then obtain row'' where "node_row_of d c = Some row''" "row'' = row' \<or> \<not> n_deactivated row''"
    using assms(2) unfolding only_refreshes_def by blast
  with b show "\<exists>row'. node_row_of d c = Some row' \<and> (row' = row \<or> \<not> n_deactivated row')" by blast
qed

lemma upsertNode_materializations [simp]:
  "db_materializations (snd (upsertNode dp now node projected db)) = db_materializations db"
  by (simp add: upsertNode_def Let_def)

lemma upsertNode_refreshes: "only_refreshes db (snd (upsertNode dp now node projected db))"
  unfolding only_refreshes_def by (simp only: upsertNode_row upsertNode_materializations) (simp add: projected_row_def)

lemma refresh_step:
  "refresh_nodes dp cfg now src stop k (node # nodes) (n, db) = (r, db') \<Longrightarrow>
     db' = db \<or> (\<exists>facts m. ns_getFacts src k (pn_certname node) = Inr facts \<and>
       refresh_nodes dp cfg now src stop (Suc k) nodes (m, snd (upsertNode dp now node (pick facts (pc_projectedFacts cfg)) db)) = (r, db'))"
  by (auto simp: split_def Let_def split: if_splits sum.splits)

lemma refresh_nodes_refreshes:
  "refresh_nodes dp cfg now src stop k nodes (n, db) = (r, db') \<Longrightarrow> only_refreshes db db'"
proof (induction nodes arbitrary: k n db)
  case (Cons node nodes)
  from refresh_step [OF Cons.prems] show ?case
    using Cons.IH only_refreshes_trans [OF upsertNode_refreshes] only_refreshes_refl by metis
qed (simp add: only_refreshes_refl)

lemma poll_cases:
  assumes "pollChangedFacts dp to_iso cfg now src stop pr db = (r, db')"
  shows "db' = db \<or> (\<exists>nodes r'. refresh_nodes dp cfg now src stop 0 nodes (0, db) = (r', db'))"
  using assms by (auto simp: pollChangedFacts_def Let_def split: if_splits option.splits sum.splits prod.splits)

text \<open>
  The poll sees part of the estate and draws no conclusion from absence: whatever it is answered, and wherever
  it fails or is stopped, no node loses its row or its materialization record, and no node is newly flagged as
  deactivated.
\<close>

theorem poll_only_refreshes:
  assumes "pollChangedFacts dp to_iso cfg now src stop pr db = (r, db')"
  shows "db_materializations db' = db_materializations db
    \<and> (\<forall>c row. node_row_of c db = Some row \<longrightarrow>
        (\<exists>row'. node_row_of c db' = Some row' \<and> (row' = row \<or> \<not> n_deactivated row')))"
  using poll_cases [OF assms] refresh_nodes_refreshes only_refreshes_refl unfolding only_refreshes_def by blast


section \<open>Examples\<close>

definition slice_page :: "'i list \<Rightarrow> page_request \<Rightarrow> failure + 'i page" where
  "slice_page xs p = Inr \<lparr> items = take (pg_limit p) (drop (pg_offset p) xs), total = rat_of_nat (length xs),
     page_limit = pg_limit p, page_offset = pg_offset p \<rparr>"

definition fixed_source :: "puppet_node list \<Rightarrow> fact_row list \<Rightarrow> node_source" where
  "fixed_source nodes rows = \<lparr> ns_listNodes = (\<lambda>k f p. slice_page nodes p), ns_listFacts = (\<lambda>k names p. slice_page rows p),
     ns_getFacts = (\<lambda>k c. Inr [(''role'', JStr ''web'')]) \<rparr>"

lemma fixed_source_serves:
  "serves nodes (\<lambda>k off. ns_listNodes (fixed_source nodes rows) k f (page_at by off))"
  "serves rows (\<lambda>k off. ns_listFacts (fixed_source nodes rows) k names (page_at by off))"
  by (simp_all add: serves_def fixed_source_def slice_page_def page_at_def)

definition demo_puppet_node :: "string \<Rightarrow> bool \<Rightarrow> puppet_node" where
  "demo_puppet_node c active =
     \<lparr> pn_certname = c, pn_environment = None, pn_reportEnvironment = None, pn_factsEnvironment = None,
       pn_catalogEnvironment = None, pn_reportTimestamp = None, pn_factsTimestamp = None, pn_catalogTimestamp = None,
       pn_latestReportStatus = ''unchanged'', pn_latestReportHash = None, pn_latestReportNoop = False,
       pn_deactivated = (if active then None else Some ''2024-01-01''), pn_expired = None, pn_isActive = active \<rparr>"

definition demo_projector :: projector where
  "demo_projector = \<lparr> pr_running = False, pr_stopping = False, pr_lastResult = None, pr_warnedAbsentFacts = False, pr_absentFacts = [] \<rparr>"

definition demo_projection :: projection_config where
  "demo_projection = \<lparr> pc_projectedFacts = [''role''], pc_pollOverlapMs = 60000 \<rparr>"

definition demo_listing :: "puppet_node list" where
  "demo_listing = [demo_puppet_node ''db01'' False, demo_puppet_node ''web01'' True]"

definition demo_cached :: db where
  "demo_cached = empty_db \<lparr> db_nodes := map demo_node_row [''db01'', ''old01'', ''web01''] \<rparr>"

definition demo_fact :: "string \<Rightarrow> string \<Rightarrow> fact_row" where
  "demo_fact c name = \<lparr> fr_certname = c, fr_name = name, fr_value = JStr ''web'' \<rparr>"

definition demo_pass :: "projection_result \<times> projector \<times> db" where
  "demo_pass = project_fetched (\<lambda>_. None) demo_projection 5 demo_listing [(''web01'', [(''role'', JStr ''web'')])] (demo_projector, demo_cached)"

theorem projection_per_node_witness:
  "node_row_of ''old01'' (snd (snd demo_pass)) = None
   \<and> node_row_of ''db01'' (snd (snd demo_pass)) = Some ((demo_node_row ''db01'') \<lparr> n_deactivated := True, n_projectedAt := 5 \<rparr>)
   \<and> map_option n_facts (node_row_of ''web01'' (snd (snd demo_pass))) = Some [(''role'', JStr ''web'')]"
proof -
  have d: "distinct (map pn_certname demo_listing)" by code_simp
  have run: "project_fetched (\<lambda>_. None) demo_projection 5 demo_listing [(''web01'', [(''role'', JStr ''web'')])] (demo_projector, demo_cached)
      = (fst demo_pass, fst (snd demo_pass), snd (snd demo_pass))" by (simp add: demo_pass_def)
  note row = projection_per_node [OF d run]
  have "fst (shouldPrune (length demo_listing) (pa_db (project_nodes (\<lambda>_. None) 5 (pc_projectedFacts demo_projection)
      [(''web01'', [(''role'', JStr ''web'')])] demo_listing demo_cached)))" by code_simp
  moreover have "List.find (\<lambda>n. pn_certname n = ''old01'') demo_listing = None"
    "List.find (\<lambda>n. pn_certname n = ''db01'') demo_listing = Some (demo_puppet_node ''db01'' False)"
    "List.find (\<lambda>n. pn_certname n = ''web01'') demo_listing = Some (demo_puppet_node ''web01'' True)"
    "node_row_of ''db01'' demo_cached = Some (demo_node_row ''db01'')"
    by code_simp+
  moreover have "n_facts (projected_row (\<lambda>_. None) 5 (demo_puppet_node ''web01'' True)
      (pick [(''role'', JStr ''web'')] (pc_projectedFacts demo_projection))) = [(''role'', JStr ''web'')]" by code_simp
  moreover have "map_of [(''web01'', [(''role'', JStr ''web'')])] ''web01'' = Some [(''role'', JStr ''web'')]" by simp
  ultimately show ?thesis by (simp add: row demo_puppet_node_def)
qed

definition demo_run :: "(projection_result \<times> projector \<times> db) option" where
  "demo_run = project (\<lambda>_. None) demo_projection 5 (fixed_source demo_listing [demo_fact ''web01'' ''role'']) True (demo_projector, demo_cached)"

theorem nodes_deleted_only_when_absent_witness:
  "\<exists>j \<in> set (db_jobs (snd (snd (the demo_run)))). j_dedupeKey j = delete_key ''old01'' \<and> j_status j = PENDING"
proof -
  have "demo_run \<noteq> None" by code_simp
  then have run: "project (\<lambda>_. None) demo_projection 5 (fixed_source demo_listing [demo_fact ''web01'' ''role'']) True (demo_projector, demo_cached)
      = Some (fst (the demo_run), fst (snd (the demo_run)), snd (snd (the demo_run)))" by (simp add: demo_run_def)
  have row: "demo_node_row ''old01'' \<in> set (db_nodes demo_cached)" by code_simp
  have gone: "n_certname (demo_node_row ''old01'') \<notin> n_certname ` set (db_nodes (snd (snd (the demo_run))))" by code_simp
  from nodes_deleted_only_when_absent [OF run row gone]
  have "\<exists>j \<in> set (db_jobs (snd (snd (the demo_run)))). j_dedupeKey j = delete_key (n_certname (demo_node_row ''old01'')) \<and> j_status j = PENDING"
    by (elim conjE) assumption
  then show ?thesis by (simp add: demo_node_row_def)
qed

theorem strangers_empty_the_estate_witness:
  "db_nodes (snd (snd (project_fetched (\<lambda>_. None) demo_projection 5 [demo_puppet_node ''x1'' False, demo_puppet_node ''x2'' False] []
     (demo_projector, demo_cached)))) = []"
proof -
  let ?r = "project_fetched (\<lambda>_. None) demo_projection 5 [demo_puppet_node ''x1'' False, demo_puppet_node ''x2'' False] [] (demo_projector, demo_cached)"
  have "?r = (fst ?r, fst (snd ?r), snd (snd ?r))" by simp
  from strangers_empty_the_estate [OF _ _ _ this] show ?thesis
    by (simp add: demo_cached_def demo_puppet_node_def demo_node_row_def)
qed

theorem pass_reads_whole_estate_witness:
  "\<exists>facts. oget (pick (case map_of facts ''web01'' of None \<Rightarrow> [] | Some fs \<Rightarrow> fs) [''role'']) ''role'' = Some (JStr ''web'')
    \<and> projectLocked (\<lambda>_. None) demo_projection 5 (fixed_source demo_listing [demo_fact ''web01'' ''role'']) (demo_projector, demo_cached)
        = Some (project_fetched (\<lambda>_. None) demo_projection 5 demo_listing facts (demo_projector, demo_cached))"
proof -
  let ?rows = "[demo_fact ''web01'' ''role'']"
  have names: "pc_projectedFacts demo_projection = [''role'']" by (simp add: demo_projection_def)
  then have some: "pc_projectedFacts demo_projection \<noteq> []" by simp
  obtain facts where run: "projectLocked (\<lambda>_. None) demo_projection 5 (fixed_source demo_listing ?rows) (demo_projector, demo_cached)
        = Some (project_fetched (\<lambda>_. None) demo_projection 5 demo_listing facts (demo_projector, demo_cached))"
    and value_of: "\<forall>c name. name \<noteq> ''__proto__'' \<longrightarrow>
        oget (pick (case map_of facts c of None \<Rightarrow> [] | Some fs \<Rightarrow> fs) (pc_projectedFacts demo_projection)) name =
          (if name \<in> set (pc_projectedFacts demo_projection)
           then map_of (rev (map (\<lambda>r. (fr_name r, fr_value r)) (filter (\<lambda>r. fr_certname r = c) ?rows))) name else None)"
    using pass_reads_whole_estate [OF fixed_source_serves(1) fixed_source_serves(2) some] by blast
  have "map_of (rev (map (\<lambda>r. (fr_name r, fr_value r)) (filter (\<lambda>r. fr_certname r = ''web01'') ?rows))) ''role'' = Some (JStr ''web'')"
    by code_simp
  with value_of [rule_format, of "''role''" "''web01''"] names
  have "oget (pick (case map_of facts ''web01'' of None \<Rightarrow> [] | Some fs \<Rightarrow> fs) [''role'']) ''role'' = Some (JStr ''web'')" by simp
  with run show ?thesis by blast
qed

theorem pass_ends_witness:
  "\<exists>res w'. project (\<lambda>_. None) demo_projection 5 (fixed_source demo_listing []) True (demo_projector, demo_cached) = Some (res, w')"
  by (rule pass_ends [of _ 2]) (auto simp: fixed_source_def slice_page_def demo_listing_def)

definition demo_polled :: db where
  "demo_polled = demo_cached \<lparr> db_nodes := map (\<lambda>n. n \<lparr> n_factsTimestamp := Some 3 \<rparr>) (db_nodes demo_cached) \<rparr>"

theorem poll_only_refreshes_witness:
  "\<exists>row. node_row_of ''old01'' (snd (pollChangedFacts (\<lambda>_. None) (\<lambda>_. ''t'') demo_projection 5 (fixed_source demo_listing []) (\<lambda>_. False)
      demo_projector demo_polled)) = Some row"
proof -
  let ?r = "pollChangedFacts (\<lambda>_. None) (\<lambda>_. ''t'') demo_projection 5 (fixed_source demo_listing []) (\<lambda>_. False) demo_projector demo_polled"
  have "?r = (fst ?r, snd ?r)" by simp
  from poll_only_refreshes [OF this]
  have "\<forall>c row. node_row_of c demo_polled = Some row \<longrightarrow> (\<exists>row'. node_row_of c (snd ?r) = Some row')" by blast
  moreover have "node_row_of ''old01'' demo_polled = Some ((demo_node_row ''old01'') \<lparr> n_factsTimestamp := Some 3 \<rparr>)" by code_simp
  ultimately show ?thesis by blast
qed


lemma replicate_head: "replicate i x = y # ys \<Longrightarrow> y = x" "y # ys = replicate i x \<Longrightarrow> y = x"
  by (cases i; simp)+

definition crowd :: "fact_row list" where
  "crowd = map (\<lambda>i. demo_fact (replicate i CHR ''a'') ''role'') [0..<499]"

definition torn_facts :: "(nat \<Rightarrow> fact_row list) \<Rightarrow> node_source" where
  "torn_facts rows = (fixed_source [] []) \<lparr> ns_listFacts := (\<lambda>k names p. slice_page (rows k) p) \<rparr>"

theorem fact_lost_between_pages_witness:
  "\<exists>facts. fetchAllFacts (torn_facts (\<lambda>k. crowd @ (if k = 0 then [demo_fact ''z'' ''os'', demo_fact ''z'' ''role'']
       else [demo_fact ''z'' ''role'', demo_fact ''z'' ''os'']))) [''os'', ''role''] = Some (Inr facts)
     \<and> oget (pick (case map_of facts ''z'' of None \<Rightarrow> [] | Some fs \<Rightarrow> fs) [''os'', ''role'']) ''role'' = None"
proof -
  let ?rows = "\<lambda>k. crowd @ (if k = (0 :: nat) then [demo_fact ''z'' ''os'', demo_fact ''z'' ''role'']
       else [demo_fact ''z'' ''role'', demo_fact ''z'' ''os''])"
  have len: "length crowd = 499" by (simp add: crowd_def)
  have other: "\<forall>r \<in> set crowd. fr_certname r = ''z'' \<longrightarrow> fr_name r \<noteq> ''role''"
    by (auto simp: crowd_def demo_fact_def dest!: replicate_head)
  show ?thesis
    using fact_lost_between_pages [where pre = crowd and a = "demo_fact ''z'' ''os''" and b = "demo_fact ''z'' ''role''"
        and src = "torn_facts ?rows" and names = "[''os'', ''role'']"] len other
    by (simp add: torn_facts_def slice_page_def page_at_def PAGE_SIZE_def demo_fact_def)
qed

definition fleet :: "puppet_node list" where
  "fleet = map (\<lambda>i. demo_puppet_node (replicate i CHR ''a'') True) [0..<499]"

definition torn_nodes :: "(nat \<Rightarrow> puppet_node list) \<Rightarrow> node_source" where
  "torn_nodes nodes = (fixed_source [] []) \<lparr> ns_listNodes := (\<lambda>k f p. slice_page (nodes k) p) \<rparr>"

theorem node_lost_between_pages_witness:
  "node_row_of ''web01'' (snd (snd (project_fetched (\<lambda>_. None) demo_projection 5 (demo_puppet_node ''A'' True # fleet) []
     (demo_projector, demo_cached)))) = None"
proof -
  let ?src = "torn_nodes (\<lambda>k. if k = 0 then demo_puppet_node ''A'' True # fleet @ [demo_puppet_node ''web01'' True]
    else fleet @ [demo_puppet_node ''web01'' True])"
  let ?st = "project_nodes (\<lambda>_. None) 5 (pc_projectedFacts demo_projection) [] (demo_puppet_node ''A'' True # fleet) demo_cached"
  have len: "length fleet = 499" by (simp add: fleet_def)
  have other: "pn_certname (demo_puppet_node ''web01'' True) \<notin> pn_certname ` set (demo_puppet_node ''A'' True # fleet @ [])"
    by (auto simp: fleet_def demo_puppet_node_def dest!: replicate_head)
  have "length (db_nodes (pa_db ?st)) \<le> length (db_nodes demo_cached) + 500"
    using project_fold_grows [of "\<lambda>_. None" 5 _ _ "\<lparr> pa_db = demo_cached, pa_upserted = 0, pa_changed = 0, pa_observed = [] \<rparr>"
      "demo_puppet_node ''A'' True # fleet"] len by (simp add: project_nodes_def)
  then have "length (db_nodes (pa_db ?st)) \<le> 503" by (simp add: demo_cached_def)
  moreover have "db_nodes (pa_db ?st) \<noteq> []"
    using project_nodes_names [of demo_cached "\<lambda>_. None" 5 "pc_projectedFacts demo_projection" "[]"
      "demo_puppet_node ''A'' True # fleet"] by (auto simp: demo_cached_def)
  ultimately have "fst (shouldPrune 500 (pa_db ?st))" by (intro shouldPrune_safe) simp_all
  then show ?thesis
    using node_lost_between_pages [where g = "demo_puppet_node ''A'' True" and mid = fleet and post = "[]"
        and n = "demo_puppet_node ''web01'' True" and src = ?src and cfg = demo_projection and dp = "\<lambda>_. None" and now = 5
        and facts = "[]" and db = demo_cached and pr = demo_projector] len other
    by (simp add: torn_nodes_def slice_page_def page_at_def PAGE_SIZE_def demo_puppet_node_def)
qed

end
