(* ===== verification/Estate.thy ===== *)
theory Estate
  imports Projection
begin

text \<open>
  Projection, classification writes and the outbox together: which nodes of the estate are served
  what their facts and the groups call for. A fact change, like a classification change, leaves every node
  current or queued.
\<close>

section \<open>Facts that can be compared as text\<close>

text \<open>
  JSON values whose numbers are in \<open>N\<close>. Doubles print differently, so \<^const>\<open>num_str\<close> is injective on them;
  the model's rationals are more, so the set is named.
\<close>

definition plain_json :: "rat set \<Rightarrow> jsval \<Rightarrow> bool" where
  "plain_json N v \<longleftrightarrow> json_value v \<and> set (numbers_in v) \<subseteq> N"

lemma plain_object:
  "plain_json N (JObj o1) \<longleftrightarrow> distinct (keys o1) \<and> (\<forall>k v. oget o1 k = Some v \<longrightarrow> plain_json N v)"
proof -
  have "plain_json N (JObj o1) \<longleftrightarrow> distinct (keys o1) \<and> (\<forall>e \<in> set o1. plain_json N (snd e))"
    by (auto simp: plain_json_def list_all_iff split_def)
  moreover have "(\<forall>k v. oget o1 k = Some v \<longrightarrow> plain_json N v) \<longleftrightarrow> (\<forall>e \<in> set o1. plain_json N (snd e))" if "distinct (keys o1)"
    using that by (metis map_of_SomeD map_of_is_SomeI prod.collapse snd_conv)
  ultimately show ?thesis by blast
qed

lemma plain_oset: "plain_json N (JObj o1) \<Longrightarrow> plain_json N v \<Longrightarrow> plain_json N (JObj (oset k v o1))"
  unfolding plain_object by simp

lemma plain_set_fact: "plain_json N (JObj o1) \<Longrightarrow> plain_json N v \<Longrightarrow> plain_json N (JObj (set_fact k v o1))"
  by (simp add: set_fact_def plain_oset)

lemma plain_empty [simp]: "plain_json N (JObj [])"
  by (simp add: plain_json_def)

lemma plain_pick:
  assumes "plain_json N (JObj facts)"
  shows "plain_json N (JObj (pick facts names))"
proof -
  have "plain_json N (JObj (foldl (\<lambda>out key. case oget facts key of None \<Rightarrow> out | Some v \<Rightarrow> oset key v out) out names))"
    if "plain_json N (JObj out)" for out
    using that
  proof (induction names arbitrary: out)
    case (Cons key names)
    have "plain_json N v" if "oget facts key = Some v" for v using assms that unfolding plain_object by blast
    then show ?case using Cons by (cases "oget facts key") (simp_all add: plain_oset)
  qed simp
  then show ?thesis by (simp add: pick_def)
qed

lemma plain_known_facts:
  "\<forall>r \<in> set rows. plain_json N (fr_value r) \<Longrightarrow> plain_json N (JObj (known_facts (foldl add_fact [] rows) c))"
proof (induction rows rule: rev_induct)
  case Nil
  show ?case by (simp add: known_facts_def)
next
  case (snoc row rows)
  then show ?case by (auto simp: known_add_fact intro!: plain_set_fact)
qed

lemma plain_stable:
  assumes "inj_on num_str N" "plain_json N a" "plain_json N b" "stableEquals a b"
  shows "alike a b"
proof -
  have "numbers_apart a b" using assms(1-3) by (auto simp: numbers_apart_def plain_json_def list_all_iff inj_on_def)
  with assms(2-4) stableEquals_iff show ?thesis by (auto simp: alike_def plain_json_def)
qed

definition plain_estate :: "rat set \<Rightarrow> db \<Rightarrow> bool" where
  "plain_estate N db \<longleftrightarrow> (\<forall>c row. node_row_of c db = Some row \<longrightarrow> plain_json N (JObj (n_facts row)))"

definition plain_source :: "rat set \<Rightarrow> node_source \<Rightarrow> bool" where
  "plain_source N src \<longleftrightarrow>
     (\<forall>k names p q r. ns_listFacts src k names p = Inr q \<longrightarrow> r \<in> set (items q) \<longrightarrow> plain_json N (fr_value r)) \<and>
     (\<forall>k c facts. ns_getFacts src k c = Inr facts \<longrightarrow> plain_json N (JObj facts))"

lemma fetch_pages_items:
  assumes "fetch_pages ask k found = Some r"
  shows "\<forall>xs. r = Inr xs \<longrightarrow> (\<forall>x \<in> set xs. x \<in> set found \<or> (\<exists>k off p. ask k off = Inr p \<and> x \<in> set (items p)))"
proof (rule fetch_pages.raw_induct [where P = "\<lambda>ask k found r. \<forall>xs. r = Inr xs \<longrightarrow>
    (\<forall>x \<in> set xs. x \<in> set found \<or> (\<exists>k off p. ask k off = Inr p \<and> x \<in> set (items p)))", OF _ assms])
  fix fetch :: "(nat \<Rightarrow> nat \<Rightarrow> failure + 'a page) \<Rightarrow> nat \<Rightarrow> 'a list \<Rightarrow> (failure + 'a list) option"
    and ask k found r
  assume IH: "\<And>ask k found r. fetch ask k found = Some r \<Longrightarrow> \<forall>xs. r = Inr xs \<longrightarrow>
      (\<forall>x \<in> set xs. x \<in> set found \<or> (\<exists>k off p. ask k off = Inr p \<and> x \<in> set (items p)))"
    and run: "(case ask k (length found) of Inl e \<Rightarrow> Some (Inl e)
        | Inr p \<Rightarrow> let found' = found @ items p
            in if length (items p) = 0 \<or> of_nat (length found') \<ge> total p then Some (Inr found')
               else fetch ask (Suc k) found') = Some r"
  show "\<forall>xs. r = Inr xs \<longrightarrow> (\<forall>x \<in> set xs. x \<in> set found \<or> (\<exists>k off p. ask k off = Inr p \<and> x \<in> set (items p)))"
  proof (cases "ask k (length found)")
    case (Inl e)
    with run show ?thesis by auto
  next
    case (Inr p)
    show ?thesis
    proof (cases "length (items p) = 0 \<or> of_nat (length (found @ items p)) \<ge> total p")
      case True
      with run Inr show ?thesis by (auto simp: Let_def)
    next
      case False
      with run Inr have "fetch ask (Suc k) (found @ items p) = Some r" by (simp add: Let_def)
      from IH [OF this] Inr show ?thesis by (metis Un_iff set_append)
    qed
  qed
qed

lemma plain_fetched:
  assumes "plain_source N src" "fetchAllFacts src names = Some (Inr facts)"
  shows "plain_json N (JObj (known_facts facts c))"
proof (cases "names = []")
  case True
  with assms(2) show ?thesis by (simp add: fetchAllFacts_def known_facts_def)
next
  case False
  let ?ask = "\<lambda>k off. ns_listFacts src k names (page_at None off)"
  from assms(2) False obtain rows where rows: "fetch_pages ?ask 0 [] = Some (Inr rows)" "facts = foldl add_fact [] rows"
    by (cases "fetch_pages ?ask 0 []"; cases "the (fetch_pages ?ask 0 [])") (auto simp: fetchAllFacts_def bind_err_def)
  have "\<forall>r \<in> set rows. plain_json N (fr_value r)"
    using fetch_pages_items [OF rows(1)] assms(1) unfolding plain_source_def by fastforce
  from plain_known_facts [OF this] rows(2) show ?thesis by simp
qed


section \<open>A fact change leaves the node current or queued\<close>

text \<open>What a step of the projection does, as far as the queue is concerned.\<close>

definition node_effect :: "runtime \<Rightarrow> rat set \<Rightarrow> db \<Rightarrow> db \<Rightarrow> bool" where
  "node_effect rt N db db' \<longleftrightarrow>
     same_classification db db' \<and> plain_estate N db' \<and> jobs_kept db db' \<and> (no_partial_walk db \<longrightarrow> no_partial_walk db') \<and>
     (\<forall>c. c \<in> n_certname ` set (db_nodes db') \<longrightarrow>
        (c \<in> n_certname ` set (db_nodes db) \<longrightarrow> covered rt db c) \<longrightarrow> covered rt db' c)"

lemma same_classification_trans: "same_classification a b \<Longrightarrow> same_classification b c \<Longrightarrow> same_classification a c"
  by (simp add: same_classification_def)

lemma node_effect_trans:
  assumes "node_effect rt N a b" "node_effect rt N b c"
  shows "node_effect rt N a c"
  using assms jobs_kept_trans [of a b c] unfolding node_effect_def same_classification_def by (auto 4 3)

lemma node_effect_refl: "plain_estate N db \<Longrightarrow> node_effect rt N db db"
  by (simp add: node_effect_def jobs_kept_same)

lemma node_facts_row: "node_facts db c = (case node_row_of c db of None \<Rightarrow> [] | Some n \<Rightarrow> n_facts n)"
  by (simp add: node_facts_def)

lemma current_record_same:
  assumes "same_classification db db'" "served_key rt (loadGroups False db) (node_of c (node_facts db' c)) =
      served_key rt (loadGroups False db) (node_of c (node_facts db c))"
    and "find_unique (\<lambda>m. em_certname m = c) (db_materializations db') = find_unique (\<lambda>m. em_certname m = c) (db_materializations db)"
  shows "current_record rt db' c = current_record rt db c"
  by (simp only: current_record_def loadGroups_same [OF assms(1), symmetric] assms(2,3))

lemma served_key_alike:
  "alike (JObj f) (JObj g) \<Longrightarrow> served_key rt gs (node_of c f) = served_key rt gs (node_of c g)"
  by (simp add: served_key_def matched_in_def node_of_def matchGroups_alike [of f g])

lemma upsertNode_frame:
  "same_classification db (snd (upsertNode dp now node projected db))"
  "jobs_kept db (snd (upsertNode dp now node projected db))"
  "no_partial_walk db \<Longrightarrow> no_partial_walk (snd (upsertNode dp now node projected db))"
proof -
  let ?c = "pn_certname node"
  let ?w = "db \<lparr> db_nodes := upsert (\<lambda>n. n_certname n = ?c) (projected_row dp now node projected)
      (\<lambda>_. projected_row dp now node projected) (db_nodes db) \<rparr>"
  have out: "snd (upsertNode dp now node projected db) \<in> {?w, enqueueNodes now [?c] ''facts-changed'' ?w}"
    by (simp add: upsertNode_def Let_def enqueueNodes_def)
  have w: "same_classification db ?w" "jobs_kept db ?w" "no_partial_walk db \<Longrightarrow> no_partial_walk ?w"
    by (simp_all add: same_classification_def jobs_kept_same no_partial_walk_same [of ?w db])
  from out w show "same_classification db (snd (upsertNode dp now node projected db))" by (auto simp: same_classification_def)
  from out w show "jobs_kept db (snd (upsertNode dp now node projected db))"
    using jobs_kept_trans [OF w(2) jobs_kept_enqueueNodes] by auto
  from out w show "no_partial_walk db \<Longrightarrow> no_partial_walk (snd (upsertNode dp now node projected db))"
    using no_partial_walk_enqueueNodes by auto
qed

lemma upsertNode_effect:
  assumes "inj_on num_str N" "plain_estate N db" "plain_json N (JObj projected)"
  shows "node_effect rt N db (snd (upsertNode dp now node projected db))"
proof -
  let ?c = "pn_certname node"
  let ?db' = "snd (upsertNode dp now node projected db)"
  note frame = upsertNode_frame [of db dp now node projected]
  have plain: "plain_estate N ?db'"
    using assms(2,3) by (auto simp: plain_estate_def upsertNode_row projected_row_def)
  have kept: "current_record rt ?db' c" if "current_record rt db c" "c \<noteq> ?c" for c
    using that current_record_same [OF frame(1), of rt c]
    by (simp add: node_facts_row upsertNode_row)
  have same: "covered rt ?db' ?c" if "?c \<in> n_certname ` set (db_nodes db) \<longrightarrow> covered rt db ?c"
  proof (cases "facts_changed (node_row_of ?c db) node projected")
    case True
    then have "?db' = enqueueNodes now [?c] ''facts-changed'' (db \<lparr> db_nodes := upsert (\<lambda>n. n_certname n = ?c)
        (projected_row dp now node projected) (\<lambda>_. projected_row dp now node projected) (db_nodes db) \<rparr>)"
      by (simp add: upsertNode_def Let_def enqueueNodes_def)
    then show ?thesis unfolding covered_def by (simp only: queued_enqueueNodes list.set_intros simp_thms)
  next
    case False
    then obtain row where row: "node_row_of ?c db = Some row" and eq: "stableEquals (JObj (n_facts row)) (JObj projected)"
      by (auto simp: facts_changed_def split: option.splits)
    from assms(2) row have "plain_json N (JObj (n_facts row))" unfolding plain_estate_def by blast
    from plain_stable [OF assms(1) this assms(3) eq] have alike: "alike (JObj (n_facts row)) (JObj projected)" .
    have "?c \<in> n_certname ` set (db_nodes db)" using row by (simp add: named_row)
    with that have "covered rt db ?c" by blast
    moreover have "current_record rt ?db' ?c = current_record rt db ?c"
      using current_record_same [OF frame(1), of rt ?c] served_key_alike [OF alike, of rt "loadGroups False db" ?c] row
      by (simp add: node_facts_row upsertNode_row projected_row_def)
    ultimately show ?thesis using jobs_kept_queued [OF frame(2)] unfolding covered_def by blast
  qed
  have "covered rt ?db' c"
    if "c \<in> n_certname ` set (db_nodes ?db')" "c \<in> n_certname ` set (db_nodes db) \<longrightarrow> covered rt db c" for c
  proof (cases "c = ?c")
    case True
    with same that(2) show ?thesis by simp
  next
    case False
    with that have "covered rt db c" by (simp add: upsertNode_names)
    with kept [OF _ False] jobs_kept_queued [OF frame(2)] show ?thesis unfolding covered_def by blast
  qed
  with frame plain show ?thesis unfolding node_effect_def by blast
qed

lemma markDeactivated_effect:
  assumes "plain_estate N db"
  shows "node_effect rt N db (snd (markDeactivated now d db))"
proof -
  let ?db' = "snd (markDeactivated now d db)"
  have frame: "same_classification db ?db'" "db_jobs ?db' = db_jobs db" "db_materializations ?db' = db_materializations db"
    by (simp_all add: markDeactivated_def same_classification_def)
  have "plain_estate N ?db'" using assms by (auto simp: plain_estate_def markDeactivated_row split: if_splits)
  moreover have "node_facts ?db' c = node_facts db c" for c
    by (simp add: node_facts_row markDeactivated_row split: option.split)
  then have "current_record rt ?db' c = current_record rt db c" for c
    using current_record_same [OF frame(1), of rt c] frame(3) by simp
  then have "covered rt ?db' c = covered rt db c" for c by (simp add: covered_def queued_def frame(2))
  ultimately show ?thesis
    using frame by (simp add: node_effect_def jobs_kept_same no_partial_walk_same [of ?db' db] markDeactivated_names)
qed

lemma enqueueNodeDeletions_frame:
  "same_classification db (enqueueNodeDeletions now cs reason db) \<and> jobs_kept db (enqueueNodeDeletions now cs reason db)
   \<and> (no_partial_walk db \<longrightarrow> no_partial_walk (enqueueNodeDeletions now cs reason db))"
  unfolding enqueueNodeDeletions_def
proof (induction cs arbitrary: db)
  case (Cons c cs)
  let ?d = "enqueueNodeDeletion now c reason db"
  have d: "same_classification db ?d" "jobs_kept db ?d" "no_partial_walk db \<longrightarrow> no_partial_walk ?d"
    by (simp_all add: enqueueNodeDeletion_def same_classification_def jobs_kept_upsert no_partial_walk_upsert default_job_def)
  with Cons.IH [of ?d] jobs_kept_trans [OF d(2)] show ?case by (auto simp: same_classification_def)
qed (simp add: jobs_kept_same)

lemma prune_effect:
  assumes "plain_estate N db"
  shows "node_effect rt N db (snd (prune now known db))"
proof -
  let ?db' = "snd (prune now known db)"
  let ?doomed = "map n_certname (filter (\<lambda>n. n_certname n \<notin> set known) (db_nodes db))"
  let ?left = "db \<lparr> db_nodes := delete_many (\<lambda>n. n_certname n \<in> set ?doomed) (db_nodes db),
     db_materializations := delete_many (\<lambda>m. em_certname m \<in> set ?doomed) (db_materializations db) \<rparr>"
  have out: "?db' = db \<or> ?db' = enqueueNodeDeletions now ?doomed ''node-purged'' ?left"
    by (simp only: prune_def Let_def snd_conv if_distrib [of snd] split: if_split) simp
  have frame: "same_classification db ?db' \<and> jobs_kept db ?db' \<and> (no_partial_walk db \<longrightarrow> no_partial_walk ?db')"
  proof -
    let ?purged = "enqueueNodeDeletions now ?doomed ''node-purged'' ?left"
    have left: "same_classification db ?left" "jobs_kept db ?left" "no_partial_walk ?left = no_partial_walk db"
      by (simp_all add: same_classification_def jobs_kept_same no_partial_walk_def)
    note d = enqueueNodeDeletions_frame [of ?left now ?doomed "''node-purged''"]
    have "same_classification db ?purged" by (rule same_classification_trans [OF left(1) conjunct1 [OF d]])
    moreover have "jobs_kept db ?purged" by (rule jobs_kept_trans [OF left(2) conjunct1 [OF conjunct2 [OF d]]])
    moreover have "no_partial_walk db \<longrightarrow> no_partial_walk ?purged" using conjunct2 [OF conjunct2 [OF d]] unfolding left(3) .
    moreover have "same_classification db db" "jobs_kept db db" by (simp_all add: jobs_kept_same)
    ultimately show ?thesis using out by (elim disjE) (simp_all only: simp_thms)
  qed
  have plain: "plain_estate N ?db'" using assms by (auto simp: plain_estate_def prune_row split: if_splits)
  have record_same: "find_unique (\<lambda>m. em_certname m = c) (db_materializations ?db') =
      find_unique (\<lambda>m. em_certname m = c) (db_materializations db)" if "c \<in> set known" for c
  proof -
    have "c \<notin> set ?doomed" using that by auto
    with out show ?thesis by (auto simp: find_deleted [where key = em_certname] simp del: set_map)
  qed
  have "covered rt ?db' c"
    if "c \<in> n_certname ` set (db_nodes ?db')" "c \<in> n_certname ` set (db_nodes db) \<longrightarrow> covered rt db c" for c
  proof -
    from that(1) have known: "c \<in> set known" "c \<in> n_certname ` set (db_nodes db)"
      unfolding named_row by (simp_all add: prune_row split: if_splits)
    have "current_record rt ?db' c = current_record rt db c"
      using frame record_same [OF known(1)] known(1) by (intro current_record_same) (simp_all add: node_facts_row prune_row)
    with that(2) known(2) frame jobs_kept_queued show ?thesis unfolding covered_def by blast
  qed
  with frame plain show ?thesis unfolding node_effect_def by blast
qed


lemma project_node_effect:
  assumes "inj_on num_str N" "plain_estate N (pa_db st)" "plain_json N (JObj (known_facts facts (pn_certname node)))"
  shows "node_effect rt N (pa_db st) (pa_db (project_node dp now names facts st node))"
  using upsertNode_effect [OF assms(1,2) plain_pick [OF assms(3)]] markDeactivated_effect [OF assms(2)]
  by (simp add: project_node_db)

lemma project_fold_effect:
  assumes "inj_on num_str N" "\<And>c. plain_json N (JObj (known_facts facts c))"
  shows "plain_estate N (pa_db st) \<Longrightarrow> node_effect rt N (pa_db st) (pa_db (foldl (project_node dp now names facts) st nodes))"
proof (induction nodes arbitrary: st)
  case (Cons node nodes)
  have "node_effect rt N (pa_db st) (pa_db (project_node dp now names facts st node))"
    by (rule project_node_effect [OF assms(1) Cons.prems assms(2)])
  from node_effect_trans [OF this Cons.IH] this show ?case by (simp add: node_effect_def)
qed (simp add: node_effect_refl)

lemma project_fetched_effect:
  assumes "inj_on num_str N" "\<And>c. plain_json N (JObj (known_facts facts c))" "plain_estate N db"
  shows "node_effect rt N db (snd (snd (project_fetched dp cfg now nodes facts (pr, db))))"
proof -
  let ?db1 = "pa_db (project_nodes dp now (pc_projectedFacts cfg) facts nodes db)"
  have first: "node_effect rt N db ?db1"
    using project_fold_effect [OF assms(1,2), of "\<lparr> pa_db = db, pa_upserted = 0, pa_changed = 0, pa_observed = [] \<rparr>"] assms(3)
    by (simp add: project_nodes_def)
  then have "plain_estate N ?db1" by (simp add: node_effect_def)
  from node_effect_trans [OF first prune_effect [OF this]] first show ?thesis
    by (simp add: project_fetched_db Let_def)
qed

lemma refresh_nodes_effect:
  assumes "inj_on num_str N" "plain_source N src"
  shows "refresh_nodes dp cfg now src stop k nodes (n, db) = (r, db') \<Longrightarrow> plain_estate N db \<Longrightarrow> node_effect rt N db db'"
proof (induction nodes arbitrary: k n db)
  case (Cons node nodes)
  from refresh_step [OF Cons.prems(1)] show ?case
  proof
    assume "db' = db"
    with Cons.prems(2) show ?thesis by (simp add: node_effect_refl)
  next
    assume "\<exists>facts m. ns_getFacts src k (pn_certname node) = Inr facts \<and>
       refresh_nodes dp cfg now src stop (Suc k) nodes (m, snd (upsertNode dp now node (pick facts (pc_projectedFacts cfg)) db)) = (r, db')"
    then obtain facts m where got: "ns_getFacts src k (pn_certname node) = Inr facts"
      and rest: "refresh_nodes dp cfg now src stop (Suc k) nodes
        (m, snd (upsertNode dp now node (pick facts (pc_projectedFacts cfg)) db)) = (r, db')" by blast
    from got assms(2) have "plain_json N (JObj facts)" unfolding plain_source_def by blast
    from upsertNode_effect [OF assms(1) Cons.prems(2) plain_pick [OF this]]
    have step: "node_effect rt N db (snd (upsertNode dp now node (pick facts (pc_projectedFacts cfg)) db))" .
    then have "plain_estate N (snd (upsertNode dp now node (pick facts (pc_projectedFacts cfg)) db))" by (simp add: node_effect_def)
    from node_effect_trans [OF step Cons.IH [OF rest this]] show ?thesis .
  qed
qed (simp add: node_effect_refl)

section \<open>Writes and projection together\<close>

text \<open>
  One change of the database by the service: a classification write, a pass of the projection with whatever it is
  answered, or a poll. \<open>N\<close> bounds the numbers PuppetDB's facts may contain.
\<close>

inductive estate_step :: "service \<Rightarrow> (string \<Rightarrow> int option) \<Rightarrow> (int \<Rightarrow> string) \<Rightarrow> projection_config \<Rightarrow> rat set \<Rightarrow> db \<Rightarrow> db \<Rightarrow> bool"
  for sv dp to_iso cfg N where
  edited: "write_step sv db db' \<Longrightarrow> estate_step sv dp to_iso cfg N db db'"
| pass: "project dp cfg now src locked (pr, db) = Some (res, pr', db') \<Longrightarrow> plain_source N src \<Longrightarrow>
     estate_step sv dp to_iso cfg N db db'"
| poll: "pollChangedFacts dp to_iso cfg now src stop pr db = (r, db') \<Longrightarrow> plain_source N src \<Longrightarrow>
     estate_step sv dp to_iso cfg N db db'"

lemma estate_step_node_effect:
  assumes "inj_on num_str N" "plain_estate N db" "estate_step sv dp to_iso cfg N db db'" "\<not> write_step sv db db'"
  shows "node_effect rt N db db'"
  using assms(3)
proof cases
  case edited
  with assms(4) show ?thesis by simp
next
  case (pass now src locked pr res pr')
  from project_cases [OF pass(1)] show ?thesis
  proof (elim disjE exE conjE)
    fix nodes facts
    assume "fetchAllFacts src (pc_projectedFacts cfg) = Some (Inr facts)"
      and db': "db' = snd (snd (project_fetched dp cfg now nodes facts (pr, db)))"
    from project_fetched_effect [OF assms(1) plain_fetched [OF pass(2) this(1)] assms(2)] show ?thesis by (simp only: db')
  qed (simp add: node_effect_refl [OF assms(2)])
next
  case (poll now src stop pr r)
  from poll_cases [OF poll(1)] show ?thesis
    using refresh_nodes_effect [OF assms(1) poll(2) _ assms(2)] node_effect_refl [OF assms(2)] by blast
qed

definition estate_ok :: "runtime \<Rightarrow> rat set \<Rightarrow> db \<Rightarrow> bool" where
  "estate_ok rt N db \<longleftrightarrow>
     tables_ok db \<and> no_partial_walk db \<and> plain_estate N db \<and> (\<forall>n \<in> set (db_nodes db). covered rt db (n_certname n))"

lemma estate_step_ok:
  assumes "inj_on num_str N" "estate_step sv dp to_iso cfg N db db'" "estate_ok rt N db"
  shows "estate_ok rt N db'"
proof (cases "write_step sv db db'")
  case True
  have effect: "write_effect rt db db'"
    using write_step_effect [OF True] assms(3) by (simp add: estate_ok_def tables_ok_def)
  then have nodes: "db_nodes db' = db_nodes db" by (simp add: write_effect_def)
  then have "plain_estate N db'" using assms(3) by (simp add: estate_ok_def plain_estate_def)
  moreover have "tables_ok db'" "no_partial_walk db'"
    using write_step_tables [OF True] write_step_walk [OF True] assms(3) by (simp_all add: estate_ok_def)
  moreover have "\<forall>n \<in> set (db_nodes db'). covered rt db' (n_certname n)"
    using assms(3) write_effect_covered [OF effect] by (simp add: nodes estate_ok_def)
  ultimately show ?thesis by (simp add: estate_ok_def)
next
  case False
  with assms have effect: "node_effect rt N db db'" by (intro estate_step_node_effect) (simp_all add: estate_ok_def)
  then have "tables_ok db'" using tables_ok_same assms(3) unfolding node_effect_def estate_ok_def by blast
  moreover have "\<forall>n \<in> set (db_nodes db'). covered rt db' (n_certname n)"
  proof
    fix n
    assume "n \<in> set (db_nodes db')"
    then have "n_certname n \<in> n_certname ` set (db_nodes db')" by simp
    moreover have "n_certname n \<in> n_certname ` set (db_nodes db) \<longrightarrow> covered rt db (n_certname n)"
      using assms(3) unfolding estate_ok_def by auto
    ultimately show "covered rt db' (n_certname n)" using effect unfolding node_effect_def by blast
  qed
  ultimately show ?thesis using effect assms(3) by (simp add: node_effect_def estate_ok_def)
qed

text \<open>
  C1. No change of the estate leaves a node behind, whichever component makes it. If every node's document
  is current, or its node is queued, then after any sequence of classification writes, projection passes
  and polls, in any order, answered by PuppetDB in any way, failing anywhere, the same holds of every node then known:
  nodes that appeared, nodes whose facts or environment changed, and nodes whose facts read the same in another order of
  keys, which are not queued and need not be. It takes JSON facts whose numbers print apart, and that no
  full reconcile is part-way.
\<close>

theorem changes_keep_estate_covered:
  assumes "inj_on num_str N" "(estate_step sv dp to_iso cfg N)\<^sup>*\<^sup>* db db'"
    and "tables_ok db" "no_partial_walk db" "\<forall>c row. node_row_of c db = Some row \<longrightarrow> plain_json N (JObj (n_facts row))"
    and "\<forall>n \<in> set (db_nodes db). covered rt db (n_certname n)"
  shows "tables_ok db' \<and> no_partial_walk db' \<and> (\<forall>n \<in> set (db_nodes db'). covered rt db' (n_certname n))"
proof -
  have "estate_ok rt N db" using assms(3-6) by (simp add: estate_ok_def plain_estate_def)
  with assms(2) have "estate_ok rt N db'"
    by (induction rule: rtranclp_induct) (auto intro: estate_step_ok [OF assms(1)])
  then show ?thesis by (simp add: estate_ok_def)
qed

definition demo_services :: "db \<times> db" where
  "demo_services =
     (let db1 = snd (projr demo_write)
      in (db1, snd (snd (the (project (\<lambda>_. None) demo_projection 5 (fixed_source demo_listing [demo_fact ''web01'' ''role'']) True
           (demo_projector, db1))))))"

theorem changes_keep_estate_covered_witness:
  "list_all (\<lambda>n. covered demo_runtime (snd demo_services) (n_certname n)) (db_nodes (snd demo_services))"
proof -
  let ?src = "fixed_source demo_listing [demo_fact ''web01'' ''role'']"
  obtain w where w: "demo_write = Inr (w, fst demo_services)"
    by (rule demo_write_ok) (metis demo_services_def fst_conv snd_conv sum.sel(2))
  then have "estate_step demo_service (\<lambda>_. None) (\<lambda>_. []) demo_projection {} demo_estate (fst demo_services)"
    unfolding demo_write_def by (intro estate_step.edited write_step.set_parameter)
  moreover have "plain_source {} ?src"
    by (auto simp: plain_source_def fixed_source_def slice_page_def demo_fact_def plain_json_def
        dest!: in_set_takeD in_set_dropD)
  have "project (\<lambda>_. None) demo_projection 5 ?src True (demo_projector, fst demo_services) \<noteq> None" by code_simp
  then obtain res pr' db' where "project (\<lambda>_. None) demo_projection 5 ?src True (demo_projector, fst demo_services) = Some (res, pr', db')"
    by (metis not_Some_eq prod.exhaust)
  moreover from this have "snd demo_services = db'" by (simp add: demo_services_def Let_def)
  ultimately have "(estate_step demo_service (\<lambda>_. None) (\<lambda>_. []) demo_projection {})\<^sup>*\<^sup>* demo_estate (snd demo_services)"
    using estate_step.pass \<open>plain_source {} ?src\<close> by (metis (no_types, lifting) r_into_rtranclp rtranclp.rtrancl_into_rtrancl)
  from changes_keep_estate_covered [OF _ this, of demo_runtime] demo_estate_ok show ?thesis
    by (auto simp: list_all_iff demo_estate_def Let_def demo_node_row_def split: if_splits)
qed

end
