(* ===== verification/LdapText.thy ===== *)
theory LdapText
  imports StableText "HOL-Library.Word"
begin

text \<open>
  The texts sent to an LDAP directory, and the ones read back: bind identities
  (\<open>directory/ldap/dn.ts\<close>), search filters (\<open>filter.ts\<close>), entry ids (\<open>directory-id.ts\<close>), the two
  dialects (\<open>dialect.ts\<close>). What a person typed becomes part of the first two; how a directory reads them back
  (RFC 4514, RFC 4515) is defined here as well, and the theorems say that what was typed stays a value.
\<close>

section \<open>Texts split at a text\<close>

text \<open>\<open>s.split(sep)\<close> for a separator that is not empty.\<close>

function split_str :: "string \<Rightarrow> string \<Rightarrow> string list" where
  "split_str sep s =
     (if sep \<noteq> [] \<and> starts_with s sep then [] # split_str sep (drop (length sep) s)
      else case s of [] \<Rightarrow> [[]]
           | c # cs \<Rightarrow> (case split_str sep cs of [] \<Rightarrow> [[c]] | p # ps \<Rightarrow> (c # p) # ps))"
  by pat_completeness auto
termination
proof (relation "measure (\<lambda>(sep, s). length s)")
  fix sep s :: string
  assume "sep \<noteq> [] \<and> starts_with s sep"
  then have "s \<noteq> []" "sep \<noteq> []" by (auto simp: starts_with_def)
  then show "((sep, drop (length sep) s), sep, s) \<in> measure (\<lambda>(sep, s). length s)" by simp
qed simp_all

declare split_str.simps [simp del]

text \<open>\<open>s.replace(sep, () => x)\<close>: the first occurrence.\<close>

definition replace_first :: "string \<Rightarrow> string \<Rightarrow> string \<Rightarrow> string" where
  "replace_first sep x s = (case split_str sep s of p # q # ps \<Rightarrow> p @ x @ join sep (q # ps) | _ \<Rightarrow> s)"

definition occurrences :: "string \<Rightarrow> string \<Rightarrow> nat" where
  "occurrences sep s = length (split_str sep s) - 1"

lemma split_str_not_Nil [simp]: "split_str sep s \<noteq> []"
  by (subst split_str.simps) (simp split: list.splits)

lemma join_split_str [simp]: "join sep (split_str sep s) = s"
proof (induction sep s rule: split_str.induct)
  case (1 sep s)
  show ?case
  proof (cases "sep \<noteq> [] \<and> starts_with s sep")
    case True
    then have "s = sep @ drop (length sep) s" by (metis append_take_drop_id starts_with_def)
    with True 1(1) show ?thesis
      by (subst split_str.simps) (cases "split_str sep (drop (length sep) s)", simp_all)
  next
    case False
    show ?thesis
    proof (cases s)
      case Nil
      with False show ?thesis by (subst split_str.simps) (simp only: if_False list.case join.simps)
    next
      case (Cons c cs)
      have "join sep (case ps of [] \<Rightarrow> [[c]] | p # ps \<Rightarrow> (c # p) # ps) = c # join sep ps" if "ps \<noteq> []" for ps
        using that by (cases ps; cases "tl ps") auto
      with Cons False 1(2) show ?thesis by (subst split_str.simps) (simp only: if_False list.case split_str_not_Nil not_False_eq_True)
    qed
  qed
qed

section \<open>Bind identities\<close>

datatype bind_error = UnusablePattern string | InvalidUsername string

definition LDAP_USERNAME_PLACEHOLDER :: string where
  "LDAP_USERNAME_PLACEHOLDER = ''{username}''"

definition LDAP_EMAIL_PLACEHOLDER :: string where
  "LDAP_EMAIL_PLACEHOLDER = ''{email}''"

definition control_char :: "char \<Rightarrow> bool" where
  "control_char c \<longleftrightarrow> (of_char c :: nat) < 32 \<or> (of_char c :: nat) = 127"

definition hasControlCharacter :: "string \<Rightarrow> bool" where
  "hasControlCharacter value \<longleftrightarrow> list_ex control_char value"

text \<open>The regular expressions of \<open>userDnPatternProblem\<close>.\<close>

definition whole_value_at :: "string \<Rightarrow> bool" where
  "whole_value_at s \<longleftrightarrow>
     list_ex (\<lambda>p. starts_with s (CHR ''='' # p) \<and>
        (case drop (Suc (length p)) s of [] \<Rightarrow> True | c # _ \<Rightarrow> c = CHR '','' \<or> c = CHR ''+''))
       [LDAP_USERNAME_PLACEHOLDER, LDAP_EMAIL_PLACEHOLDER]"

fun has_whole_value :: "string \<Rightarrow> bool" where
  "has_whole_value [] = False"
| "has_whole_value (c # s) = (whole_value_at (c # s) \<or> has_whole_value s)"

definition backslash :: char where
  "backslash = CHR 0x5C"

definition double_quote :: char where
  "double_quote = CHR 0x22"

definition domain_char :: "char \<Rightarrow> bool" where
  "domain_char c \<longleftrightarrow> \<not> is_js_space c \<and> c \<notin> set (''{},;=+<>@'' @ [backslash, double_quote])"

definition upn_pattern :: "string \<Rightarrow> bool" where
  "upn_pattern pattern \<longleftrightarrow>
     starts_with pattern (LDAP_USERNAME_PLACEHOLDER @ ''@'') \<and>
     (let domain = drop (Suc (length LDAP_USERNAME_PLACEHOLDER)) pattern in domain \<noteq> [] \<and> list_all domain_char domain)"

definition userDnPatternProblem :: "string \<Rightarrow> string option" where
  "userDnPatternProblem pattern =
     (let count = occurrences LDAP_USERNAME_PLACEHOLDER pattern + occurrences LDAP_EMAIL_PLACEHOLDER pattern
      in if count \<noteq> 1 then Some ''Must contain exactly one of {email} or {username}, where the sign-in address goes.''
         else if hasControlCharacter pattern then Some ''Contains a control character.''
         else if CHR ''='' \<in> set pattern then
           (if \<not> has_whole_value pattern
            then Some ''Put {username} or {email} as a whole attribute value, as in uid={username},ou=people,dc=example,dc=com.''
            else None)
         else if pattern = LDAP_EMAIL_PLACEHOLDER then None
         else if \<not> upn_pattern pattern
         then Some (''Use {email} for Active Directory (the address people sign in with), a DN such as '' @
                    ''uid={username},ou=people,dc=example,dc=com, or a UPN such as {username}@corp.example.'')
         else None)"

definition DN_SPECIALS :: "char list" where
  "DN_SPECIALS = '',+<>;='' @ [double_quote, backslash]"

definition escape_dn_char :: "nat \<Rightarrow> nat \<Rightarrow> char \<Rightarrow> string" where
  "escape_dn_char final index char =
     (if char \<in> set DN_SPECIALS then [backslash, char]
      else if index = 0 \<and> (char = CHR '' '' \<or> char = CHR ''#'') then [backslash, char]
      else if index = final \<and> char = CHR '' '' then [backslash, CHR '' '']
      else [char])"

definition escapeDnValue :: "string \<Rightarrow> bind_error + string" where
  "escapeDnValue value =
     (if hasControlCharacter value then Inl (InvalidUsername ''The username contains a control character.'')
      else Inr (concat (map (\<lambda>(index, char). escape_dn_char (length value - 1) index char) (zip [0..<length value] value))))"

definition UPN_FORBIDDEN :: "char \<Rightarrow> bool" where
  "UPN_FORBIDDEN c \<longleftrightarrow> is_js_space c \<or> c \<in> set (''@,;=+<>()*/[]:|?'' @ [backslash, double_quote])"

definition before_last_at :: "string \<Rightarrow> string option" where
  "before_last_at s =
     (if CHR ''@'' \<in> set s then Some (rev (tl (dropWhile (\<lambda>c. c \<noteq> CHR ''@'') (rev s)))) else None)"

text \<open>The address and its local part.\<close>

definition signInParts :: "string \<Rightarrow> string \<times> string" where
  "signInParts address = (address, case before_last_at address of None \<Rightarrow> address | Some username \<Rightarrow> username)"

definition isDnPattern :: "string \<Rightarrow> bool" where
  "isDnPattern pattern \<longleftrightarrow> CHR ''='' \<in> set pattern"

definition plain_part :: "string \<Rightarrow> bool" where
  "plain_part part \<longleftrightarrow> part \<noteq> [] \<and> \<not> hasControlCharacter part \<and> \<not> list_ex UPN_FORBIDDEN part"

text \<open>\<open>indexOf\<close> of \<open>@\<close>: the parts before and after it.\<close>

definition around_at :: "string \<Rightarrow> (string \<times> string) option" where
  "around_at s = (case split_on CHR ''@'' s of [_] \<Rightarrow> None | p # ps \<Rightarrow> Some (p, join ''@'' ps) | [] \<Rightarrow> None)"

definition plain_address :: "string \<Rightarrow> bool" where
  "plain_address email =
     (case around_at email of None \<Rightarrow> False
      | Some (name, domain) \<Rightarrow> name \<noteq> [] \<and> CHR ''@'' \<notin> set domain \<and> plain_part name \<and> plain_part domain)"

definition buildBindIdentity :: "string \<Rightarrow> string \<Rightarrow> bind_error + string" where
  "buildBindIdentity pattern address =
     (case userDnPatternProblem pattern of
        Some problem \<Rightarrow> Inl (UnusablePattern (''Unusable User DN pattern: '' @ problem))
      | None \<Rightarrow>
          if address = [] then Inl (InvalidUsername ''The sign-in address is empty.'')
          else let usesEmail = str_includes pattern LDAP_EMAIL_PLACEHOLDER;
                   placeholder = (if usesEmail then LDAP_EMAIL_PLACEHOLDER else LDAP_USERNAME_PLACEHOLDER);
                   (email, username) = signInParts address;
                   typed = (if usesEmail then email else username)
               in if typed = [] then Inl (InvalidUsername ''The sign-in name is empty.'')
                  else if isDnPattern pattern
                  then bind_err (escapeDnValue typed) (\<lambda>escaped. Inr (replace_first placeholder escaped pattern))
                  else if usesEmail
                  then (if \<not> plain_address email then Inl (InvalidUsername ''The sign-in address is not a plain user@domain.'')
                        else Inr email)
                  else if \<not> plain_part username
                  then Inl (InvalidUsername ''The username contains a character a UPN cannot hold.'')
                  else Inr (replace_first placeholder username pattern))"

section \<open>Search filters\<close>

definition PLACEHOLDER :: string where
  "PLACEHOLDER = ''{{input}}''"

definition hex_pair :: "nat \<Rightarrow> string" where
  "hex_pair n = [hex_digit (n div 16), hex_digit (n mod 16)]"

definition escape_filter_char :: "char \<Rightarrow> string" where
  "escape_filter_char c =
     (if c = backslash then backslash # ''5c''
      else if c = CHR ''*'' then backslash # ''2a''
      else if c = CHR ''('' then backslash # ''28''
      else if c = CHR '')'' then backslash # ''29''
      else if c = CHR 0x00 then backslash # ''00''
      else if control_char c then backslash # hex_pair (of_char c)
      else [c])"

definition escapeFilterValue :: "string \<Rightarrow> string" where
  "escapeFilterValue value = concat (map escape_filter_char value)"

definition filter_template_failure :: string where
  "filter_template_failure = ''LDAP search filter template must contain '' @ PLACEHOLDER @
     ''; refusing to run a filter that ignores the supplied identifier.''"

definition buildFilter :: "string \<Rightarrow> string \<Rightarrow> string + string" where
  "buildFilter template input =
     (if \<not> str_includes template PLACEHOLDER then Inl filter_template_failure
      else Inr (join (escapeFilterValue input) (split_str PLACEHOLDER template)))"


section \<open>How a directory reads them\<close>

text \<open>
  Both grammars escape with a backslash: two hexadecimal digits give the code of a character, and in a DN any other
  character stands for itself. A character that is not escaped may be syntax.
\<close>

datatype token = Bare char | Escaped char | Coded char char

definition hex_nat :: "char \<Rightarrow> nat option" where
  "hex_nat c =
     (let n = (of_char c :: nat)
      in if 48 \<le> n \<and> n \<le> 57 then Some (n - 48) else if 97 \<le> n \<and> n \<le> 102 then Some (n - 87)
         else if 65 \<le> n \<and> n \<le> 70 then Some (n - 55) else None)"

definition hex_char :: "char \<Rightarrow> bool" where
  "hex_char c \<longleftrightarrow> hex_nat c \<noteq> None"

fun tokens :: "string \<Rightarrow> token list" where
  "tokens [] = []"
| "tokens (c # s) =
     (if c = backslash then
        (case s of [] \<Rightarrow> [Bare c]
         | a # s' \<Rightarrow>
             (if hex_char a then (case s' of [] \<Rightarrow> [Escaped a]
                | b # s'' \<Rightarrow> if hex_char b then Coded a b # tokens s'' else Escaped a # tokens s')
              else Escaped a # tokens s'))
      else Bare c # tokens s)"

fun token_value :: "token \<Rightarrow> char" where
  "token_value (Bare c) = c"
| "token_value (Escaped c) = c"
| "token_value (Coded a b) = char_of (16 * the (hex_nat a) + the (hex_nat b))"

fun bare_in :: "char set \<Rightarrow> token \<Rightarrow> bool" where
  "bare_in S (Bare c) = (c \<in> S)"
| "bare_in S _ = False"

text \<open>The text does not stop inside an escape.\<close>

fun whole :: "string \<Rightarrow> bool" where
  "whole [] = True"
| "whole (c # s) =
     (if c = backslash then
        (case s of [] \<Rightarrow> False
         | a # s' \<Rightarrow>
             (if hex_char a then (case s' of [] \<Rightarrow> False | b # s'' \<Rightarrow> if hex_char b then whole s'' else whole s')
              else whole s'))
      else whole s)"

lemma tokens_simps:
  "c \<noteq> backslash \<Longrightarrow> tokens (c # s) = Bare c # tokens s"
  "tokens [backslash] = [Bare backslash]"
  "\<not> hex_char a \<Longrightarrow> tokens (backslash # a # s) = Escaped a # tokens s"
  "hex_char a \<Longrightarrow> tokens [backslash, a] = [Escaped a]"
  "hex_char a \<Longrightarrow> hex_char b \<Longrightarrow> tokens (backslash # a # b # s) = Coded a b # tokens s"
  "hex_char a \<Longrightarrow> \<not> hex_char b \<Longrightarrow> tokens (backslash # a # b # s) = Escaped a # tokens (b # s)"
  by simp_all

lemma whole_simps:
  "c \<noteq> backslash \<Longrightarrow> whole (c # s) = whole s"
  "whole [backslash] = False"
  "\<not> hex_char a \<Longrightarrow> whole (backslash # a # s) = whole s"
  "hex_char a \<Longrightarrow> whole [backslash, a] = False"
  "hex_char a \<Longrightarrow> hex_char b \<Longrightarrow> whole (backslash # a # b # s) = whole s"
  "hex_char a \<Longrightarrow> \<not> hex_char b \<Longrightarrow> whole (backslash # a # b # s) = whole (b # s)"
  by simp_all

declare tokens.simps(2) [simp del] whole.simps(2) [simp del]
declare tokens_simps [simp] whole_simps [simp]

lemma token_induct [case_names Nil bare final escaped half coded twice]:
  assumes "P []" "\<And>c s. c \<noteq> backslash \<Longrightarrow> P s \<Longrightarrow> P (c # s)" "P [backslash]"
    "\<And>a s. \<not> hex_char a \<Longrightarrow> P s \<Longrightarrow> P (backslash # a # s)" "\<And>a. hex_char a \<Longrightarrow> P [backslash, a]"
    "\<And>a b s. hex_char a \<Longrightarrow> hex_char b \<Longrightarrow> P s \<Longrightarrow> P (backslash # a # b # s)"
    "\<And>a b s. hex_char a \<Longrightarrow> \<not> hex_char b \<Longrightarrow> P (b # s) \<Longrightarrow> P (backslash # a # b # s)"
  shows "P (s :: string)"
proof (induction s rule: length_induct)
  case (1 s)
  then have IH: "\<And>t. length t < length s \<Longrightarrow> P t" by blast
  show ?case
  proof (cases s)
    case Nil
    with assms(1) show ?thesis by simp
  next
    case c: (Cons c s1)
    show ?thesis
    proof (cases "c = backslash")
      case False
      with assms(2) IH [of s1] show ?thesis by (simp add: c)
    next
      case True
      show ?thesis
      proof (cases s1)
        case Nil
        with True assms(3) show ?thesis by (simp add: c)
      next
        case a: (Cons a s2)
        show ?thesis
        proof (cases "hex_char a")
          case False
          with True assms(4) IH [of s2] show ?thesis by (simp add: c a)
        next
          case hex: True
          show ?thesis
          proof (cases s2)
            case Nil
            with True hex assms(5) show ?thesis by (simp add: c a)
          next
            case (Cons b s3)
            with True hex assms(6,7) IH [of s3] IH [of "b # s3"] show ?thesis by (cases "hex_char b") (simp_all add: c a)
          qed
        qed
      qed
    qed
  qed
qed

lemma tokens_append: "whole s \<Longrightarrow> tokens (s @ r) = tokens s @ tokens r"
  by (induction s rule: token_induct) simp_all

lemma whole_until: "\<not> hex_char c \<Longrightarrow> c \<noteq> backslash \<Longrightarrow> whole (s @ [c])"
  by (induction s rule: token_induct) simp_all

subsection \<open>Escaped values\<close>

lemma hex_chars [simp]:
  "hex_char (hex_digit n)" if "n < 16"
  using that by (auto simp: hex_char_def hex_nat_def hex_digit_def Let_def)

lemma hex_nat_digit: "n < 16 \<Longrightarrow> hex_nat (hex_digit n) = Some n"
  by (auto simp: hex_nat_def hex_digit_def Let_def)

definition dn_token :: "nat \<Rightarrow> nat \<times> char \<Rightarrow> token" where
  "dn_token final e = (if escape_dn_char final (fst e) (snd e) = [snd e] then Bare (snd e) else Escaped (snd e))"

lemma dn_escapes:
  "escape_dn_char final i c = (if c \<in> set DN_SPECIALS \<or> i = 0 \<and> c \<in> {CHR '' '', CHR ''#''} \<or> i = final \<and> c = CHR '' ''
     then [backslash, c] else [c])"
  by (auto simp: escape_dn_char_def)

lemma specials_not_hex: "c \<in> set DN_SPECIALS \<or> c \<in> {CHR '' '', CHR ''#''} \<Longrightarrow> \<not> hex_char c"
  by (auto simp: DN_SPECIALS_def double_quote_def backslash_def hex_char_def hex_nat_def)

lemma tokens_dn_values:
  "tokens (concat (map (\<lambda>(i, c). escape_dn_char final i c) es) @ r) = map (dn_token final) es @ tokens r"
proof (induction es)
  case (Cons e es)
  obtain i c where e: "e = (i, c)" by (cases e)
  show ?case
  proof (cases "escape_dn_char final i c = [c]")
    case True
    then have "c \<noteq> backslash" by (auto simp: escape_dn_char_def DN_SPECIALS_def split: if_splits)
    with True Cons.IH show ?thesis by (simp add: e dn_token_def)
  next
    case False
    then have "escape_dn_char final i c = [backslash, c]" "\<not> hex_char c"
      by (auto simp: dn_escapes specials_not_hex split: if_splits)
    with False Cons.IH show ?thesis by (simp add: e dn_token_def)
  qed
qed simp

lemma dn_token_value [simp]: "token_value (dn_token final e) = snd e"
  by (simp add: dn_token_def)

lemma dn_token_bare: "\<not> bare_in (set DN_SPECIALS) (dn_token final e)"
  by (auto simp: dn_token_def dn_escapes split: if_splits)

lemma dn_token_first: "\<not> bare_in {CHR '' '', CHR ''#''} (dn_token final (0, c))"
  by (auto simp: dn_token_def dn_escapes split: if_splits)

lemma dn_token_final: "\<not> bare_in {CHR '' ''} (dn_token final (final, c))"
  by (auto simp: dn_token_def dn_escapes split: if_splits)

text \<open>
  \<open>value\<close> as the tokens that stand for it: none is DN syntax, the first is no bare space or \<open>#\<close>, the last no bare space.
\<close>

definition reads_as_value :: "token list \<Rightarrow> string \<Rightarrow> bool" where
  "reads_as_value ts v \<longleftrightarrow>
     map token_value ts = v \<and> \<not> list_ex (bare_in (set DN_SPECIALS)) ts \<and>
     (ts \<noteq> [] \<longrightarrow> \<not> bare_in {CHR '' '', CHR ''#''} (hd ts) \<and> \<not> bare_in {CHR '' ''} (last ts))"

lemma escaped_dn_value:
  assumes "escapeDnValue v = Inr t"
  shows "\<exists>ts. reads_as_value ts v \<and> (\<forall>r. tokens (t @ r) = ts @ tokens r)"
proof (intro exI conjI allI)
  let ?es = "zip [0..<length v] v"
  let ?ts = "map (dn_token (length v - 1)) ?es"
  have t: "t = concat (map (\<lambda>(i, c). escape_dn_char (length v - 1) i c) ?es)"
    using assms by (auto simp: escapeDnValue_def split: if_splits)
  show "tokens (t @ r) = ?ts @ tokens r" for r unfolding t by (rule tokens_dn_values)
  have "hd ?ts = dn_token (length v - 1) (0, hd v)" "last ?ts = dn_token (length v - 1) (length v - 1, last v)" if "v \<noteq> []"
    using that by (simp_all add: hd_map hd_zip last_map last_zip hd_upt)
  moreover have "map token_value ?ts = v" by (simp add: comp_def)
  moreover have "\<not> list_ex (bare_in (set DN_SPECIALS)) ?ts" by (simp add: list_ex_iff dn_token_bare)
  ultimately show "reads_as_value ?ts v" unfolding reads_as_value_def by (auto simp: dn_token_first dn_token_final)
qed

subsection \<open>The placeholder of a pattern\<close>

lemma starts_with_append [simp]: "starts_with (sep @ r) sep"
  by (simp add: starts_with_def)

lemma split_str_at:
  assumes "sep \<noteq> []" "hd sep \<notin> set (tl sep)"
  shows "split_str sep (u @ sep @ v) = split_str sep u @ split_str sep v"
  using assms
proof (induction sep u rule: split_str.induct)
  case (1 sep u)
  show ?case
  proof (cases "starts_with u sep")
    case True
    then have u: "u = sep @ drop (length sep) u" by (metis append_take_drop_id starts_with_def)
    have "split_str sep (u @ sep @ v) = [] # split_str sep (drop (length sep) u @ sep @ v)"
      using 1(3) u by (subst split_str.simps) (metis append.assoc append_eq_conv_conj starts_with_append)
    also have "\<dots> = ([] # split_str sep (drop (length sep) u)) @ split_str sep v"
      using 1(1) [OF _ 1(3,4)] True 1(3) by simp
    also have "[] # split_str sep (drop (length sep) u) = split_str sep u"
      using True 1(3) by (subst (2) split_str.simps) simp
    finally show ?thesis .
  next
    case False
    show ?thesis
    proof (cases u)
      case Nil
      have "split_str sep [] = [[]]" using 1(3) by (subst split_str.simps) (simp add: starts_with_def)
      moreover have "split_str sep (sep @ v) = [] # split_str sep v" using 1(3) by (subst split_str.simps) simp
      ultimately show ?thesis by (simp add: Nil)
    next
      case (Cons c cs)
      have "\<not> starts_with (u @ sep @ v) sep"
      proof
        assume s: "starts_with (u @ sep @ v) sep"
        have short: "length u < length sep"
        proof (rule ccontr)
          assume "\<not> length u < length sep"
          with s False show False by (simp add: starts_with_def)
        qed
        have "sep ! length u = (u @ sep @ v) ! length u" using s short by (metis nth_take starts_with_def)
        also have "\<dots> = hd sep" using 1(3) by (simp add: nth_append hd_conv_nth)
        finally have "hd sep = tl sep ! (length u - 1)" using Cons short by (simp add: nth_tl)
        moreover have "length u - 1 < length (tl sep)" using Cons short by simp
        ultimately show False using 1(4) by (metis nth_mem)
      qed
      with Cons 1(2) [OF _ Cons 1(3,4)] False show ?thesis
        by (subst (1 2) split_str.simps) (cases "split_str sep cs"; simp)
    qed
  qed
qed


lemma split_str_none: "split_str sep u = [w] \<Longrightarrow> w = u"
  by (metis join.simps(2) join_split_str)

lemma occurrences_at:
  assumes "sep \<noteq> []" "hd sep \<notin> set (tl sep)"
  shows "occurrences sep (u @ sep @ v) = Suc (occurrences sep u + occurrences sep v)"
proof -
  have "length (split_str sep w) > 0" for w by simp
  then have "length (split_str sep u) > 0" "length (split_str sep v) > 0" by blast+
  then show ?thesis unfolding occurrences_def split_str_at [OF assms] length_append by linarith
qed

lemma occurrences_none:
  assumes "occurrences sep u = 0"
  shows "split_str sep u = [u]"
proof -
  from assms obtain w where "split_str sep u = [w]"
    unfolding occurrences_def by (cases "split_str sep u"; cases "tl (split_str sep u)") auto
  with split_str_none show ?thesis by blast
qed

lemma replace_only:
  assumes "sep \<noteq> []" "hd sep \<notin> set (tl sep)" "occurrences sep u = 0" "occurrences sep v = 0"
  shows "replace_first sep x (u @ sep @ v) = u @ x @ v"
  by (simp add: replace_first_def split_str_at [OF assms(1,2)] occurrences_none [OF assms(3)] occurrences_none [OF assms(4)])

lemma str_includes_iff: "str_includes s p \<longleftrightarrow> (\<exists>u v. s = u @ p @ v)"
proof
  assume "str_includes s p"
  then obtain i where "take (length p) (drop i s) = p" by (auto simp: str_includes_def)
  then have "s = take i s @ p @ drop (length p) (drop i s)" by (metis append_take_drop_id)
  then show "\<exists>u v. s = u @ p @ v" by blast
next
  assume "\<exists>u v. s = u @ p @ v"
  then obtain u v where "s = u @ p @ v" by blast
  then have "length u \<in> set [0..<Suc (length s)] \<and> take (length p) (drop (length u) s) = p" by auto
  then show "str_includes s p" unfolding str_includes_def by blast
qed

lemma placeholders:
  "LDAP_USERNAME_PLACEHOLDER \<noteq> []" "hd LDAP_USERNAME_PLACEHOLDER \<notin> set (tl LDAP_USERNAME_PLACEHOLDER)"
  "LDAP_EMAIL_PLACEHOLDER \<noteq> []" "hd LDAP_EMAIL_PLACEHOLDER \<notin> set (tl LDAP_EMAIL_PLACEHOLDER)"
  by (simp_all add: LDAP_USERNAME_PLACEHOLDER_def LDAP_EMAIL_PLACEHOLDER_def)

lemma whole_value_split:
  "has_whole_value s \<Longrightarrow> \<exists>pre p post. p \<in> {LDAP_USERNAME_PLACEHOLDER, LDAP_EMAIL_PLACEHOLDER} \<and>
     s = (pre @ ''='') @ p @ post \<and> (post = [] \<or> hd post \<in> {CHR '','', CHR ''+''})"
proof (induction s)
  case (Cons c s)
  show ?case
  proof (cases "whole_value_at (c # s)")
    case True
    then obtain p where p: "p \<in> {LDAP_USERNAME_PLACEHOLDER, LDAP_EMAIL_PLACEHOLDER}" "starts_with (c # s) (CHR ''='' # p)"
      and after: "case drop (Suc (length p)) (c # s) of [] \<Rightarrow> True | c # _ \<Rightarrow> c = CHR '','' \<or> c = CHR ''+''"
      by (auto simp: whole_value_at_def)
    from p(2) have "c # s = ([] @ ''='') @ p @ drop (length p) s"
      by (auto simp: starts_with_def) (metis append_take_drop_id)
    with p(1) after show ?thesis by (intro exI [of _ "[]"] exI [of _ p] exI [of _ "drop (length p) s"]) (auto split: list.splits)
  next
    case False
    with Cons obtain pre p post where "p \<in> {LDAP_USERNAME_PLACEHOLDER, LDAP_EMAIL_PLACEHOLDER}"
      "s = (pre @ ''='') @ p @ post" "post = [] \<or> hd post \<in> {CHR '','', CHR ''+''}" by auto
    then show ?thesis by (intro exI [of _ "c # pre"] exI [of _ p] exI [of _ post]) simp
  qed
qed simp

text \<open>A usable DN pattern, taken apart at its placeholder.\<close>

lemma dn_pattern_parts:
  assumes "userDnPatternProblem pattern = None" "isDnPattern pattern"
  obtains pre p post where "pattern = (pre @ ''='') @ p @ post"
    "p = (if str_includes pattern LDAP_EMAIL_PLACEHOLDER then LDAP_EMAIL_PLACEHOLDER else LDAP_USERNAME_PLACEHOLDER)"
    "occurrences p (pre @ ''='') = 0" "occurrences p post = 0" "post = [] \<or> hd post \<in> {CHR '','', CHR ''+''}"
proof -
  let ?u = LDAP_USERNAME_PLACEHOLDER and ?e = LDAP_EMAIL_PLACEHOLDER
  have count: "occurrences ?u pattern + occurrences ?e pattern = 1" and shape: "has_whole_value pattern"
    using assms by (auto simp: userDnPatternProblem_def isDnPattern_def Let_def split: if_splits)
  from whole_value_split [OF shape] obtain pre p post where p: "p \<in> {?u, ?e}"
    and pattern: "pattern = (pre @ ''='') @ p @ post" and post: "post = [] \<or> hd post \<in> {CHR '','', CHR ''+''}" by blast
  have ok: "p \<noteq> []" "hd p \<notin> set (tl p)" using p placeholders by auto
  have parts: "occurrences p pattern = Suc (occurrences p (pre @ ''='') + occurrences p post)"
    unfolding pattern by (rule occurrences_at [OF ok])
  have none: "occurrences p (pre @ ''='') = 0" "occurrences p post = 0" using count p parts by auto
  have email: "str_includes pattern ?e \<longleftrightarrow> occurrences ?e pattern > 0"
  proof
    assume "str_includes pattern ?e"
    then obtain u v where "pattern = u @ ?e @ v" unfolding str_includes_iff by blast
    then show "occurrences ?e pattern > 0" using occurrences_at [OF placeholders(3,4)] by simp
  next
    assume "occurrences ?e pattern > 0"
    with count have "p = ?e" using parts p by auto
    then show "str_includes pattern ?e" unfolding str_includes_iff using pattern by blast
  qed
  have "p = (if str_includes pattern ?e then ?e else ?u)"
    using p parts count email by auto
  with that [OF pattern _ none post] show ?thesis by blast
qed

text \<open>
  C19. A sign-in name cannot change which entry a DN pattern names. The identity is the pattern with the placeholder
  replaced by a text that a directory reads as one attribute value, the address or its local part exactly as typed:
  the tokens before and after are the pattern's own, and among those of the name there is no separator, no
  quote and no leading or trailing space a directory would drop.
\<close>

theorem bind_dn_keeps_its_shape:
  assumes "buildBindIdentity pattern address = Inr dn" "isDnPattern pattern"
  shows "\<exists>pre post ts. pattern = pre @ (if str_includes pattern LDAP_EMAIL_PLACEHOLDER
        then LDAP_EMAIL_PLACEHOLDER else LDAP_USERNAME_PLACEHOLDER) @ post
    \<and> tokens dn = tokens pre @ ts @ tokens post
    \<and> map token_value ts = (if str_includes pattern LDAP_EMAIL_PLACEHOLDER then address else snd (signInParts address))
    \<and> \<not> list_ex (bare_in (set DN_SPECIALS)) ts
    \<and> ts \<noteq> [] \<and> \<not> bare_in {CHR '' '', CHR ''#''} (hd ts) \<and> \<not> bare_in {CHR '' ''} (last ts)"
proof -
  let ?p = "if str_includes pattern LDAP_EMAIL_PLACEHOLDER then LDAP_EMAIL_PLACEHOLDER else LDAP_USERNAME_PLACEHOLDER"
  let ?v = "if str_includes pattern LDAP_EMAIL_PLACEHOLDER then address else snd (signInParts address)"
  have ok: "userDnPatternProblem pattern = None" using assms(1) by (simp add: buildBindIdentity_def split: option.splits)
  have fst: "fst (signInParts address) = address" by (simp add: signInParts_def)
  obtain escaped where esc: "escapeDnValue ?v = Inr escaped" and dn: "dn = replace_first ?p escaped pattern" and some: "?v \<noteq> []"
    using assms ok fst by (auto simp: buildBindIdentity_def Let_def split_def bind_err_def split: if_splits sum.splits)
  obtain pre post where pattern: "pattern = (pre @ ''='') @ ?p @ post"
    and none: "occurrences ?p (pre @ ''='') = 0" "occurrences ?p post = 0"
  proof -
    obtain pre p post where parts: "pattern = (pre @ ''='') @ p @ post" "occurrences p (pre @ ''='') = 0" "occurrences p post = 0"
      and p: "p = ?p"
      by (rule dn_pattern_parts [OF ok assms(2)])
    show thesis by (rule that [of pre post]) (use parts in \<open>simp_all only: p\<close>)
  qed
  have sep: "?p \<noteq> []" "hd ?p \<notin> set (tl ?p)" using placeholders by auto
  have "replace_first ?p escaped ((pre @ ''='') @ ?p @ post) = (pre @ ''='') @ escaped @ post"
    by (rule replace_only [OF sep none])
  then have dn': "dn = (pre @ ''='') @ escaped @ post" unfolding dn by (simp only: pattern [symmetric])
  obtain ts where ts: "reads_as_value ts ?v" "\<And>r. tokens (escaped @ r) = ts @ tokens r"
    using escaped_dn_value [OF esc] by blast
  have "whole (pre @ ''='')" by (rule whole_until) (simp_all add: hex_char_def hex_nat_def backslash_def)
  then have "tokens dn = tokens (pre @ ''='') @ ts @ tokens post" unfolding dn' by (simp only: tokens_append ts(2))
  moreover have "ts \<noteq> []" using ts(1) some by (auto simp: reads_as_value_def)
  ultimately show ?thesis
    using pattern ts(1) unfolding reads_as_value_def by (intro exI [of _ "pre @ ''=''"] exI [of _ post] exI [of _ ts]) blast
qed


text \<open>
  A pattern that is no DN makes a UPN, and what is typed cannot move it to another domain or name two: the identity
  has exactly one \<open>@\<close>; with \<open>{email}\<close> it is the address typed, and otherwise its domain is the pattern's
  and its name the local part of the address. Anything a directory could read as more is refused.
\<close>

theorem bind_upn_stays_in_domain:
  assumes "buildBindIdentity pattern address = Inr upn" "\<not> isDnPattern pattern"
  shows "\<exists>name domain. upn = name @ CHR ''@'' # domain \<and> CHR ''@'' \<notin> set domain \<and> plain_part name \<and> domain \<noteq> []
    \<and> (if pattern = LDAP_EMAIL_PLACEHOLDER then upn = address
       else pattern = LDAP_USERNAME_PLACEHOLDER @ CHR ''@'' # domain \<and> name = snd (signInParts address))"
proof -
  have ok: "userDnPatternProblem pattern = None" using assms(1) by (simp add: buildBindIdentity_def split: option.splits)
  have fst: "fst (signInParts address) = address" by (simp add: signInParts_def)
  show ?thesis
  proof (cases "pattern = LDAP_EMAIL_PLACEHOLDER")
    case True
    have "str_includes pattern LDAP_EMAIL_PLACEHOLDER" unfolding str_includes_iff True by (metis append_Nil append_Nil2)
    then have "plain_address address" "upn = address"
      using assms ok fst by (auto simp: buildBindIdentity_def Let_def split_def split: if_splits)
    then obtain name domain where at: "around_at address = Some (name, domain)" "CHR ''@'' \<notin> set domain"
      "plain_part name" "plain_part domain"
      by (auto simp: plain_address_def split: option.splits)
    from at(1) obtain p ps where "split_on CHR ''@'' address = p # ps" "ps \<noteq> []" "name = p" "domain = join ''@'' ps"
      by (auto simp: around_at_def split: list.splits)
    with join_split_on [of "CHR ''@''" address] have "address = name @ CHR ''@'' # domain" by (cases ps) auto
    with True \<open>upn = address\<close> at(2-4) show ?thesis by (auto simp: plain_part_def)
  next
    case False
    then have upn: "upn_pattern pattern" and count: "occurrences LDAP_USERNAME_PLACEHOLDER pattern + occurrences LDAP_EMAIL_PLACEHOLDER pattern = 1"
      using ok assms(2) by (auto simp: userDnPatternProblem_def isDnPattern_def Let_def split: if_splits)
    let ?domain = "drop (Suc (length LDAP_USERNAME_PLACEHOLDER)) pattern"
    have pattern: "pattern = LDAP_USERNAME_PLACEHOLDER @ CHR ''@'' # ?domain" and domain: "?domain \<noteq> []" "list_all domain_char ?domain"
      using upn by (auto simp: upn_pattern_def starts_with_def Let_def) (metis append.assoc append_Cons append_Nil append_take_drop_id)
    have parts: "occurrences LDAP_USERNAME_PLACEHOLDER ([] @ LDAP_USERNAME_PLACEHOLDER @ CHR ''@'' # ?domain) =
        Suc (occurrences LDAP_USERNAME_PLACEHOLDER [] + occurrences LDAP_USERNAME_PLACEHOLDER (CHR ''@'' # ?domain))"
      by (rule occurrences_at [OF placeholders(1,2)])
    then have none: "occurrences LDAP_USERNAME_PLACEHOLDER [] = 0" "occurrences LDAP_USERNAME_PLACEHOLDER (CHR ''@'' # ?domain) = 0"
      "occurrences LDAP_EMAIL_PLACEHOLDER pattern = 0"
      using count unfolding append_Nil pattern [symmetric] by linarith+
    have "\<not> str_includes pattern LDAP_EMAIL_PLACEHOLDER"
    proof
      assume "str_includes pattern LDAP_EMAIL_PLACEHOLDER"
      then obtain u v where "pattern = u @ LDAP_EMAIL_PLACEHOLDER @ v" unfolding str_includes_iff by blast
      with occurrences_at [OF placeholders(3,4)] none(3) show False by simp
    qed
    then have name: "plain_part (snd (signInParts address))"
      and made: "upn = replace_first LDAP_USERNAME_PLACEHOLDER (snd (signInParts address)) pattern"
      using assms ok by (auto simp: buildBindIdentity_def Let_def split_def split: if_splits)
    have "replace_first LDAP_USERNAME_PLACEHOLDER (snd (signInParts address)) ([] @ LDAP_USERNAME_PLACEHOLDER @ CHR ''@'' # ?domain) =
        [] @ snd (signInParts address) @ CHR ''@'' # ?domain"
      by (rule replace_only [OF placeholders(1,2) none(1,2)])
    then have "upn = snd (signInParts address) @ CHR ''@'' # ?domain" unfolding made append_Nil pattern [symmetric] .
    moreover have "CHR ''@'' \<notin> set ?domain" using domain(2) by (auto simp: list_all_iff domain_char_def)
    ultimately show ?thesis using False name domain(1) pattern by auto
  qed
qed

subsection \<open>Filters\<close>

definition filter_syntax :: "char set" where
  "filter_syntax = set (''()*'' @ [CHR 0x00])"

text \<open>A token that stands for itself in a filter value: RFC 4515 knows no escape but two digits.\<close>

fun filter_value_token :: "token \<Rightarrow> bool" where
  "filter_value_token (Bare c) = (c \<notin> filter_syntax \<and> c \<noteq> backslash)"
| "filter_value_token (Escaped c) = False"
| "filter_value_token (Coded a b) = True"

definition filter_token :: "char \<Rightarrow> token" where
  "filter_token c = (if escape_filter_char c = [c] then Bare c
     else Coded (escape_filter_char c ! 1) (escape_filter_char c ! 2))"

lemma hex_literals: "hex_char CHR ''0''" "hex_char CHR ''2''" "hex_char CHR ''5''" "hex_char CHR ''8''" "hex_char CHR ''9''"
    "hex_char CHR ''a''" "hex_char CHR ''c''"
  by (simp_all add: hex_char_def hex_nat_def)

lemma filter_escape_cases:
  "escape_filter_char c = [c] \<and> c \<noteq> backslash \<and> c \<notin> filter_syntax \<or>
   (\<exists>a b. escape_filter_char c = [backslash, a, b] \<and> hex_char a \<and> hex_char b \<and> token_value (Coded a b) = c)"
proof -
  have coded: "hex_char (hex_digit (of_char c div 16)) \<and> hex_char (hex_digit (of_char c mod 16)) \<and>
      token_value (Coded (hex_digit (of_char c div 16)) (hex_digit (of_char c mod 16))) = c"
  proof -
    have "(of_char c :: nat) < 256" by (rule nat_of_char_less_256)
    then have "of_char c div 16 < (16 :: nat)" "of_char c mod 16 < (16 :: nat)" by presburger+
    then show ?thesis by (simp add: hex_nat_digit)
  qed
  show ?thesis
  proof (cases "c \<in> {backslash, CHR ''*'', CHR ''('', CHR '')'', CHR 0x00}")
    case True
    have "escape_filter_char backslash = [backslash, CHR ''5'', CHR ''c''] \<and> token_value (Coded CHR ''5'' CHR ''c'') = backslash"
      "escape_filter_char CHR ''*'' = [backslash, CHR ''2'', CHR ''a''] \<and> token_value (Coded CHR ''2'' CHR ''a'') = CHR ''*''"
      "escape_filter_char CHR ''('' = [backslash, CHR ''2'', CHR ''8''] \<and> token_value (Coded CHR ''2'' CHR ''8'') = CHR ''(''"
      "escape_filter_char CHR '')'' = [backslash, CHR ''2'', CHR ''9''] \<and> token_value (Coded CHR ''2'' CHR ''9'') = CHR '')''"
      "escape_filter_char CHR 0x00 = [backslash, CHR ''0'', CHR ''0''] \<and> token_value (Coded CHR ''0'' CHR ''0'') = CHR 0x00"
      by code_simp+
    with True hex_literals show ?thesis by blast
  next
    case False
    then show ?thesis
      using coded by (auto simp: escape_filter_char_def hex_pair_def filter_syntax_def)
  qed
qed

lemma escape_filter_ne: "escape_filter_char c = [backslash, a, b] \<Longrightarrow> escape_filter_char c \<noteq> [c]"
  by auto

lemma tokens_filter_value: "tokens (escapeFilterValue v @ r) = map filter_token v @ tokens r"
proof (induction v)
  case (Cons c v)
  from filter_escape_cases [of c] Cons.IH show ?case
    by (auto simp: escapeFilterValue_def filter_token_def)
qed (simp add: escapeFilterValue_def)

lemma filter_token_ok: "filter_value_token (filter_token c) \<and> token_value (filter_token c) = c"
  using filter_escape_cases [of c] by (auto simp: filter_token_def)

fun interleave :: "'a list \<Rightarrow> 'a list list \<Rightarrow> 'a list" where
  "interleave x [] = []"
| "interleave x [s] = s"
| "interleave x (s # t # ss) = s @ x @ interleave x (t # ss)"

lemma tokens_join:
  "list_all whole ps \<Longrightarrow> tokens (join (escapeFilterValue v) ps) = interleave (map filter_token v) (map tokens ps)"
  by (induction "escapeFilterValue v" ps rule: join.induct) (simp_all add: tokens_append tokens_filter_value)

text \<open>
  C18. What is typed stays a value of the search filter. A filter that is built is its template with each placeholder
  replaced by a text that a directory reads as exactly what was typed, without a bracket, a star or a NUL that is
  syntax; the rest of the filter is read as it is written in the template. It takes a template
  none of whose pieces stops inside an escape.
\<close>

theorem filter_keeps_its_shape:
  assumes "buildFilter template input = Inr f" "list_all whole (split_str PLACEHOLDER template)"
  shows "\<exists>ts. map token_value ts = input \<and> list_all filter_value_token ts
    \<and> tokens f = interleave ts (map tokens (split_str PLACEHOLDER template))"
proof (intro exI conjI)
  have f: "f = join (escapeFilterValue input) (split_str PLACEHOLDER template)"
    using assms(1) by (auto simp: buildFilter_def split: if_splits)
  show "map token_value (map filter_token input) = input" by (simp add: comp_def filter_token_ok)
  show "list_all filter_value_token (map filter_token input)" by (simp add: list_all_iff filter_token_ok)
  show "tokens f = interleave (map filter_token input) (map tokens (split_str PLACEHOLDER template))"
    unfolding f by (rule tokens_join [OF assms(2)])
qed


section \<open>The id of an entry\<close>

text \<open>An attribute of an entry, as the LDAP client returns it.\<close>

datatype attr_value = Missing | Text string | Buffer "8 word list" | Several "attr_value list"

definition hex_byte :: "8 word \<Rightarrow> string" where
  "hex_byte b = hex_pair (unat b)"

definition guidFromObjectGuid :: "8 word list \<Rightarrow> string option" where
  "guidFromObjectGuid bytes =
     (if length bytes \<noteq> 16 then None
      else let hex = (\<lambda>indices. concat (map (\<lambda>i. hex_byte (bytes ! i)) indices))
           in Some (join ''-'' [hex [3, 2, 1, 0], hex [5, 4], hex [7, 6], hex [8, 9], hex [10, 11, 12, 13, 14, 15]]))"

definition lower_hex :: "char \<Rightarrow> bool" where
  "lower_hex c \<longleftrightarrow> hex_char c \<and> \<not> (65 \<le> (of_char c :: nat) \<and> (of_char c :: nat) \<le> 70)"

text \<open>The regular expression \<open>UUID\<close>: groups of 8, 4, 4, 4 and 12 digits.\<close>

definition is_uuid :: "string \<Rightarrow> bool" where
  "is_uuid s \<longleftrightarrow>
     (let groups = split_on CHR ''-'' s
      in map length groups = [8, 4, 4, 4, 12] \<and> list_all (list_all lower_hex) groups)"

fun first_value :: "attr_value \<Rightarrow> attr_value" where
  "first_value (Several []) = Missing"
| "first_value (Several (v # _)) = v"
| "first_value v = v"

definition directoryIdFrom :: "attr_value \<Rightarrow> bool \<Rightarrow> string option" where
  "directoryIdFrom value0 binary =
     (if binary then (case first_value value0 of Buffer bytes \<Rightarrow> guidFromObjectGuid bytes | _ \<Rightarrow> None)
      else (case first_value value0 of
              Text s \<Rightarrow> (let text0 = to_lower (js_trim s) in if is_uuid text0 then Some text0 else None)
            | _ \<Rightarrow> None))"

lemma hex_pair_inj: "m < 256 \<Longrightarrow> n < 256 \<Longrightarrow> hex_pair m = hex_pair n \<Longrightarrow> m = n"
proof -
  assume "m < 256" "n < 256" and eq: "hex_pair m = hex_pair n"
  then have small: "m div 16 < 16" "n div 16 < 16" "m mod 16 < 16" "n mod 16 < 16" by simp_all
  from eq have "hex_digit (m div 16) = hex_digit (n div 16)" "hex_digit (m mod 16) = hex_digit (n mod 16)"
    by (simp_all add: hex_pair_def)
  with small have "m div 16 = n div 16" "m mod 16 = n mod 16" by (metis hex_nat_digit option.inject)+
  then show ?thesis by (metis div_mult_mod_eq)
qed

lemma byte_bound: "unat (b :: 8 word) < 256"
  using unsigned_less [of b, where ?'a = nat] by simp

lemma hex_byte_inj: "hex_byte a = hex_byte b \<longleftrightarrow> a = b"
proof
  assume "hex_byte a = hex_byte b"
  moreover have "unat a < 256" "unat b < 256" by (rule byte_bound)+
  ultimately show "a = b" using hex_pair_inj [of "unat a" "unat b"] by (simp add: hex_byte_def word_unat_eq_iff)
qed simp

lemma hex_byte_shape:
  "\<exists>x y. hex_byte b = [x, y] \<and> lower_hex x \<and> lower_hex y \<and> x \<noteq> CHR ''-'' \<and> y \<noteq> CHR ''-''"
proof -
  have ok: "lower_hex (hex_digit n) \<and> hex_digit n \<noteq> CHR ''-''" if "n < 16" for n
  proof -
    have code: "of_char (hex_digit n) = (if n < 10 then 48 + n else 87 + n)" using that by (simp add: hex_digit_def)
    then have "hex_digit n \<noteq> CHR ''-''" by (intro notI) (drule arg_cong [of _ _ "of_char :: char \<Rightarrow> nat"], simp split: if_splits)
    with code that show ?thesis by (simp add: lower_hex_def hex_char_def hex_nat_def Let_def)
  qed
  have "unat b < 256" by (rule byte_bound)
  then have "unat b div 16 < 16" "unat b mod 16 < 16" by presburger+
  with ok show ?thesis by (simp add: hex_byte_def hex_pair_def)
qed

lemma split_on_plain: "c \<notin> set s \<Longrightarrow> split_on c s = [s]"
  by (induction s) auto

lemma hex_byte_append: "hex_byte a @ x = hex_byte b @ y \<longleftrightarrow> a = b \<and> x = y"
proof -
  have "length (hex_byte a) = length (hex_byte b)" by (simp add: hex_byte_def hex_pair_def)
  then show ?thesis by (simp add: hex_byte_inj)
qed

definition guid_layout :: "nat list list" where
  "guid_layout = [[3, 2, 1, 0], [5, 4], [7, 6], [8, 9], [10, 11, 12, 13, 14, 15]]"

lemma guid_groups:
  assumes "guidFromObjectGuid bs = Some g"
  shows "split_on CHR ''-'' g = map (\<lambda>ix. concat (map (\<lambda>i. hex_byte (bs ! i)) ix)) guid_layout"
proof -
  have plain: "CHR ''-'' \<notin> set (hex_byte b)" for b using hex_byte_shape [of b] by auto
  have "g = join ''-'' (map (\<lambda>ix. concat (map (\<lambda>i. hex_byte (bs ! i)) ix)) guid_layout)"
    using assms by (auto simp: guidFromObjectGuid_def guid_layout_def Let_def split: if_splits)
  moreover have "\<forall>t \<in> set (map (\<lambda>ix. concat (map (\<lambda>i. hex_byte (bs ! i)) ix)) guid_layout). CHR ''-'' \<notin> set t"
    using plain by auto
  moreover have "map (\<lambda>ix. concat (map (\<lambda>i. hex_byte (bs ! i)) ix)) guid_layout \<noteq> []" by (simp add: guid_layout_def)
  ultimately show ?thesis using split_on_join by metis
qed

text \<open>
  The id an account is linked by is canonical, and with Active Directory it names one entry: every id
  \<open>directoryIdFrom\<close> returns is a lower-case UUID, and two values of \<open>objectGUID\<close> give the same id only if they are the same
  sixteen bytes.
\<close>

theorem directory_id_canonical:
  "(directoryIdFrom v binary = Some g \<longrightarrow> is_uuid g)
   \<and> (guidFromObjectGuid bs = Some g \<and> guidFromObjectGuid cs = Some g \<longrightarrow> bs = cs)"
proof (intro conjI impI)
  assume "directoryIdFrom v binary = Some g"
  then consider (text_id) "is_uuid g" | (guid) bytes where "guidFromObjectGuid bytes = Some g"
    by (auto simp: directoryIdFrom_def Let_def split: if_splits attr_value.splits)
  then show "is_uuid g"
  proof cases
    case guid
    have "length (hex_byte b) = 2 \<and> list_all lower_hex (hex_byte b)" for b using hex_byte_shape [of b] by auto
    then show ?thesis unfolding is_uuid_def Let_def guid_groups [OF guid] by (simp add: guid_layout_def)
  qed
next
  assume same: "guidFromObjectGuid bs = Some g \<and> guidFromObjectGuid cs = Some g"
  then have len: "length bs = 16" "length cs = 16" by (auto simp: guidFromObjectGuid_def split: if_splits)
  from same have "map (\<lambda>ix. concat (map (\<lambda>i. hex_byte (bs ! i)) ix)) guid_layout =
      map (\<lambda>ix. concat (map (\<lambda>i. hex_byte (cs ! i)) ix)) guid_layout"
    using guid_groups by metis
  then have "\<forall>i \<in> set [0, 1, 2, 3, 4, 5, 6, 7, 8, 9, 10, 11, 12, 13, 14, 15]. bs ! i = cs ! i"
    by (simp add: guid_layout_def hex_byte_append hex_byte_inj)
  moreover have "i \<in> set [0, 1, 2, 3, 4, 5, 6, 7, 8, 9, 10, 11, 12, 13, 14, 15]" if "i < 16" for i :: nat
    using that by (simp add: less_Suc_eq numeral_eq_Suc)
  ultimately show "bs = cs" using len by (intro nth_equalityI) auto
qed

theorem bind_dn_keeps_its_shape_witness:
  "\<exists>dn pre post ts. buildBindIdentity ''uid={username},ou=people'' ''eve,ou=admins@example.com'' = Inr dn
    \<and> ''uid={username},ou=people'' = pre @ LDAP_USERNAME_PLACEHOLDER @ post
    \<and> tokens dn = tokens pre @ ts @ tokens post \<and> map token_value ts = ''eve,ou=admins''"
proof -
  let ?p = "''uid={username},ou=people''" and ?a = "''eve,ou=admins@example.com''"
  have here: "isDnPattern ?p" "str_includes ?p LDAP_EMAIL_PLACEHOLDER = False" "snd (signInParts ?a) = ''eve,ou=admins''" by code_simp+
  have "case buildBindIdentity ?p ?a of Inr dn \<Rightarrow> True | Inl e \<Rightarrow> False" by code_simp
  then obtain dn where dn: "buildBindIdentity ?p ?a = Inr dn" by (auto split: sum.splits)
  from bind_dn_keeps_its_shape [OF dn here(1)] obtain pre post ts where ts:
    "?p = pre @ LDAP_USERNAME_PLACEHOLDER @ post" "tokens dn = tokens pre @ ts @ tokens post" "map token_value ts = ''eve,ou=admins''"
    unfolding here(2,3) if_False by (elim exE conjE)
  show ?thesis by (intro exI conjI) (rule dn ts)+
qed

theorem bind_upn_stays_in_domain_witness:
  "\<exists>name domain. ''eve@corp.example'' = name @ CHR ''@'' # domain \<and> plain_part name \<and> name = ''eve''"
proof -
  let ?p = "''{username}@corp.example''" and ?a = "''eve@elsewhere.example''"
  have "buildBindIdentity ?p ?a = Inr ''eve@corp.example''" "\<not> isDnPattern ?p" "?p \<noteq> LDAP_EMAIL_PLACEHOLDER"
    "snd (signInParts ?a) = ''eve''" by code_simp+
  with bind_upn_stays_in_domain [of ?p ?a "''eve@corp.example''"] show ?thesis by metis
qed

theorem filter_keeps_its_shape_witness:
  "\<exists>f ts. buildFilter ''(&(objectClass=person)(uid={{input}}))'' ''x)(|(uid=*'' = Inr f \<and> map token_value ts = ''x)(|(uid=*''
    \<and> tokens f = interleave ts [tokens ''(&(objectClass=person)(uid='', tokens ''))'']"
proof -
  let ?t = "''(&(objectClass=person)(uid={{input}}))''" and ?i = "''x)(|(uid=*''"
  have parts: "split_str PLACEHOLDER ?t = [''(&(objectClass=person)(uid='', ''))'']" by code_simp
  have ok: "list_all whole [''(&(objectClass=person)(uid='', ''))'']" by code_simp
  have "case buildFilter ?t ?i of Inr f \<Rightarrow> True | Inl e \<Rightarrow> False" by code_simp
  then obtain f where f: "buildFilter ?t ?i = Inr f" by (auto split: sum.splits)
  obtain ts where ts: "map token_value ts = ?i" "tokens f = interleave ts [tokens ''(&(objectClass=person)(uid='', tokens ''))'']"
    using filter_keeps_its_shape [OF f] ok unfolding parts list.map by (metis (no_types))
  show ?thesis by (intro exI conjI) (rule f ts)+
qed

theorem directory_id_canonical_witness:
  "\<exists>g. guidFromObjectGuid [51, 34, 17, 0, 85, 68, 119, 102, 136, 153, 170, 187, 204, 221, 238, 255] = Some g \<and> is_uuid g"
proof -
  let ?b = "[51, 34, 17, 0, 85, 68, 119, 102, 136, 153, 170, 187, 204, 221, 238, 255] :: 8 word list"
  obtain g where g: "guidFromObjectGuid ?b = Some g" by (simp add: guidFromObjectGuid_def Let_def)
  then have "directoryIdFrom (Buffer ?b) True = Some g" by (simp only: directoryIdFrom_def first_value.simps attr_value.case if_True)
  with directory_id_canonical [of "Buffer ?b" True g ?b ?b] g show ?thesis by blast
qed

end
