(* ===== verification/LdapConfig.thy ===== *)
theory LdapConfig
  imports LdapText "HOL-Library.Monad_Syntax"
begin

text \<open>
  What a directory is configured with (\<open>directory/ldap/config.ts\<close>, the LDAP part of \<open>contracts/auth.ts\<close>,
  \<open>dialect.ts\<close>) and which roles its groups give (\<open>role-mapping.ts\<close>). A raw configuration is the JavaScript value
  that was saved or built from the environment; \<open>ldapConfigSchema\<close> is the parse of it, \<^const>\<open>None\<close> when it is
  refused (the texts of the schema library are left out). Whether a PEM bundle parses, and whether a file exists,
  are arguments. A long dash in a message is written \<open>--\<close>.
\<close>

section \<open>Names\<close>

datatype ldap_protocol = LDAPS | STARTTLS | LDAP
datatype bind_type = REGULAR | SIMPLE | ANONYMOUS
datatype ldap_dialect = OPENLDAP | AD

definition protocols :: "(string \<times> ldap_protocol) list" where
  "protocols = [(''ldaps'', LDAPS), (''starttls'', STARTTLS), (''ldap'', LDAP)]"

definition LDAP_BIND_TYPES :: "(string \<times> bind_type) list" where
  "LDAP_BIND_TYPES = [(''regular'', REGULAR), (''simple'', SIMPLE), (''anonymous'', ANONYMOUS)]"

definition LDAP_DIALECTS :: "(string \<times> ldap_dialect) list" where
  "LDAP_DIALECTS = [(''openldap'', OPENLDAP), (''ad'', AD)]"

definition LDAP_DEFAULT_PORTS :: "ldap_protocol \<Rightarrow> int" where
  "LDAP_DEFAULT_PORTS p = (case p of LDAPS \<Rightarrow> 636 | STARTTLS \<Rightarrow> 389 | LDAP \<Rightarrow> 389)"

definition alnum :: "char \<Rightarrow> bool" where
  "alnum c \<longleftrightarrow> is_digit c \<or> (let n = (of_char (lower_char c) :: nat) in 97 \<le> n \<and> n \<le> 122)"

definition letter :: "char \<Rightarrow> bool" where
  "letter c \<longleftrightarrow> alnum c \<and> \<not> is_digit c"

text \<open>The regular expressions of \<open>ldapHostProblem\<close>.\<close>

definition has_scheme :: "string \<Rightarrow> bool" where
  "has_scheme host \<longleftrightarrow>
     (case host of [] \<Rightarrow> False
      | c # cs \<Rightarrow> letter c \<and> starts_with (dropWhile (\<lambda>d. alnum d \<or> d \<in> set ''+.-'') cs) ''://'')"

definition host_label :: "string \<Rightarrow> bool" where
  "host_label l \<longleftrightarrow> l \<noteq> [] \<and> alnum (hd l) \<and> alnum (last l) \<and> list_all (\<lambda>c. alnum c \<or> c = CHR ''-'') l"

definition host_name :: "string \<Rightarrow> bool" where
  "host_name host \<longleftrightarrow>
     (let labels = split_on CHR ''.'' host
      in list_all host_label (if length labels > 1 \<and> last labels = [] then butlast labels else labels))"

definition ldapHostProblem :: "string \<Rightarrow> string option" where
  "ldapHostProblem host =
     (if host = [] then Some ''Enter the server name or IP address.''
      else if has_scheme host
      then Some ''Enter the server name only -- choose LDAPS or STARTTLS under Protocol instead of typing ldaps://.''
      else if starts_with host ''['' then Some ''Enter an IPv6 address without the brackets.''
      else if list_ex (\<lambda>c. is_js_space c \<or> c \<in> set (backslash # ''/@?#'')) host
      then Some ''Enter a server name or IP address only, with no path, user or spaces.''
      else if CHR '':'' \<in> set host
      then (if list_all (\<lambda>c. hex_char c \<or> c = CHR '':'' \<or> c = CHR ''.'') host \<and> length (split_on CHR '':'' host) \<ge> 3
            then None else Some ''Put the port in the Port field, not after the server name.'')
      else if \<not> host_name host then Some ''Not a valid server name or IP address.''
      else None)"

definition ldapUrlOf :: "string \<Rightarrow> int \<Rightarrow> ldap_protocol \<Rightarrow> string" where
  "ldapUrlOf host port protocol =
     (let scheme = (if protocol = LDAPS then ''ldaps'' else ''ldap'');
          host = (if CHR '':'' \<in> set host then ''['' @ host @ '']'' else host)
      in scheme @ ''://'' @ host @ '':'' @ int_str port)"

text \<open>\<open>Number.isInteger\<close> of a number read from text.\<close>

definition integer_of :: "rat option \<Rightarrow> int option" where
  "integer_of q = (case q of None \<Rightarrow> None | Some q \<Rightarrow> if of_int \<lfloor>q\<rfloor> = q then Some \<lfloor>q\<rfloor> else None)"

definition url_scheme :: "string \<Rightarrow> (ldap_protocol \<times> string) option" where
  "url_scheme url =
     (let t = js_trim url
      in if starts_with (to_lower t) ''ldaps://'' then Some (LDAPS, drop 8 t)
         else if starts_with (to_lower t) ''ldap://'' then Some (LDAP, drop 7 t) else None)"

text \<open>The bracketed form, \<open>[::1]:389\<close>: the address, and the port if there is one.\<close>

definition bracketed :: "string \<Rightarrow> (string \<times> string option) option" where
  "bracketed authority =
     (case authority of [] \<Rightarrow> None
      | c # cs \<Rightarrow>
          (let inner = takeWhile (\<lambda>c. c \<noteq> CHR '']'') cs; rest = dropWhile (\<lambda>c. c \<noteq> CHR '']'') cs
           in if c = CHR ''['' \<and> inner \<noteq> [] \<and> list_all (\<lambda>c. hex_char c \<or> c = CHR '':'' \<or> c = CHR ''.'') inner
              then (case rest of [] \<Rightarrow> None
                    | _ # [] \<Rightarrow> Some (inner, None)
                    | _ # d # ds \<Rightarrow> if d = CHR '':'' \<and> ds \<noteq> [] \<and> list_all is_digit ds then Some (inner, Some ds) else None)
              else None))"

definition host_and_port :: "string \<Rightarrow> (string \<times> string option) option" where
  "host_and_port authority =
     (case bracketed authority of Some hp \<Rightarrow> Some hp
      | None \<Rightarrow> (case split_on CHR '':'' authority of
            [host] \<Rightarrow> Some (host, None)
          | [host, portText] \<Rightarrow> Some (host, Some portText)
          | _ \<Rightarrow> None))"

definition parseLegacyLdapUrl :: "string \<Rightarrow> (string \<times> int \<times> ldap_protocol) option" where
  "parseLegacyLdapUrl url =
     (case url_scheme url of None \<Rightarrow> None
      | Some (protocol, rest) \<Rightarrow>
          (let authority = takeWhile (\<lambda>c. c \<notin> set ''/?#'') rest;
               after = dropWhile (\<lambda>c. c \<notin> set ''/?#'') rest
           in if after \<noteq> [] \<and> after \<noteq> ''/'' then None
              else if authority = [] \<or> CHR ''@'' \<in> set authority then None
              else (case host_and_port authority of None \<Rightarrow> None
                    | Some (host, portText) \<Rightarrow>
                        (case (if portText = None \<or> portText = Some [] then Some (LDAP_DEFAULT_PORTS protocol)
                               else integer_of (parse_number (the portText))) of
                           None \<Rightarrow> None
                         | Some port \<Rightarrow>
                             if port < 1 \<or> port > 65535 then None
                             else if ldapHostProblem host \<noteq> None then None
                             else Some (host, port, protocol)))))"

section \<open>Dialects\<close>

definition AD_MATCHING_RULE_IN_CHAIN :: string where
  "AD_MATCHING_RULE_IN_CHAIN = ''1.2.840.113556.1.4.1941''"

definition AD_CAPABILITY_OID :: string where
  "AD_CAPABILITY_OID = ''1.2.840.113556.1.4.800''"

definition dialectFromRootDse :: "(string \<times> string list) list \<Rightarrow> ldap_dialect option" where
  "dialectFromRootDse attributes =
     (let capabilities = (case map_of attributes ''supportedCapabilities'' of Some vs \<Rightarrow> vs | None \<Rightarrow> [])
      in if AD_CAPABILITY_OID \<in> set capabilities then Some AD
         else if list_ex (\<lambda>(_, values). length values > 0) attributes then Some OPENLDAP else None)"

definition OPENLDAP_SEARCH_FILTER :: string where
  "OPENLDAP_SEARCH_FILTER = ''(&(objectClass=person)(|(uid={{input}})(mail={{input}})))''"

definition OPENLDAP_SEARCH_FILTER_MAIL_ONLY :: string where
  "OPENLDAP_SEARCH_FILTER_MAIL_ONLY = ''(&(objectClass=person)(mail={{input}}))''"

definition AD_SEARCH_FILTER :: string where
  "AD_SEARCH_FILTER = ''(&(objectClass=user)(objectCategory=person)'' @
     ''(|(sAMAccountName={{input}})(userPrincipalName={{input}})(mail={{input}})))''"

definition AD_SEARCH_FILTER_WITHOUT_MAIL :: string where
  "AD_SEARCH_FILTER_WITHOUT_MAIL = ''(&(objectClass=user)(objectCategory=person)'' @
     ''(|(sAMAccountName={{input}})(userPrincipalName={{input}})))''"

record ldap_attributes =
  at_email :: string
  at_displayName :: string
  at_memberOf :: string
  at_upn :: "string option"
  at_username :: string
  at_directoryId :: string

record dialect_defaults =
  dd_searchFilter :: string
  dd_attributes :: ldap_attributes
  dd_directoryIdIsBinary :: bool
  dd_identifierLabel :: string
  dd_supportsNestedGroups :: bool

definition dialectDefaults :: "ldap_dialect \<Rightarrow> dialect_defaults" where
  "dialectDefaults dialect =
     (case dialect of
        OPENLDAP \<Rightarrow>
          \<lparr> dd_searchFilter = OPENLDAP_SEARCH_FILTER,
            dd_attributes = \<lparr> at_email = ''mail'', at_displayName = ''displayName'', at_memberOf = ''memberOf'',
              at_upn = None, at_username = ''uid'', at_directoryId = ''entryUUID'' \<rparr>,
            dd_directoryIdIsBinary = False, dd_identifierLabel = ''Username or email'', dd_supportsNestedGroups = False \<rparr>
      | AD \<Rightarrow>
          \<lparr> dd_searchFilter = AD_SEARCH_FILTER,
            dd_attributes = \<lparr> at_email = ''mail'', at_displayName = ''displayName'', at_memberOf = ''memberOf'',
              at_upn = Some ''userPrincipalName'', at_username = ''sAMAccountName'', at_directoryId = ''objectGUID'' \<rparr>,
            dd_directoryIdIsBinary = True, dd_identifierLabel = ''Username or email'', dd_supportsNestedGroups = True \<rparr>)"

definition nestedGroupFilter :: "string \<Rightarrow> (string \<Rightarrow> string) \<Rightarrow> string" where
  "nestedGroupFilter userDn escape = ''(member:'' @ AD_MATCHING_RULE_IN_CHAIN @ '':='' @ escape userDn @ '')''"

section \<open>The parsed configuration\<close>

record group_mapping =
  gm_groupDn :: string
  gm_role :: string

record ldap_config =
  lc_host :: string
  lc_port :: int
  lc_protocol :: ldap_protocol
  lc_url :: string
  lc_bindType :: bind_type
  lc_bindDn :: "string option"
  lc_bindPassword :: "string option"
  lc_userDnPattern :: "string option"
  lc_dialect :: ldap_dialect
  lc_detectedDialect :: "ldap_dialect option"
  lc_searchBase :: string
  lc_groupSearchBase :: string
  lc_nestedGroups :: bool
  lc_autoCreateAccounts :: bool
  lc_searchFilter :: string
  lc_attributes :: ldap_attributes
  lc_directoryIdIsBinary :: bool
  lc_identifierLabel :: string
  lc_supportsNestedGroups :: bool
  lc_roleMappings :: "group_mapping list"
  lc_caPath :: "string option"
  lc_caPem :: "string option"
  lc_timeoutMs :: int
  lc_tlsRejectUnauthorized :: bool

section \<open>Saved configurations of earlier versions\<close>

fun string_in :: "jsval option \<Rightarrow> string option" where
  "string_in (Some (JStr s)) = Some s"
| "string_in _ = None"

definition nullish :: "jsval option \<Rightarrow> bool" where
  "nullish v \<longleftrightarrow> v = None \<or> v = Some JNull"

definition set_if_nullish :: "string \<Rightarrow> jsval \<Rightarrow> jsval obj \<Rightarrow> jsval obj" where
  "set_if_nullish k v input = (if nullish (oget input k) then oset k v input else input)"

definition protocol_value :: "ldap_protocol \<Rightarrow> jsval" where
  "protocol_value p = JStr (case p of LDAPS \<Rightarrow> ''ldaps'' | STARTTLS \<Rightarrow> ''starttls'' | LDAP \<Rightarrow> ''ldap'')"

definition upgrade_url :: "jsval obj \<Rightarrow> jsval obj" where
  "upgrade_url input =
     (case (oget input ''host'', string_in (oget input ''url'')) of
        (None, Some url) \<Rightarrow>
          (case parseLegacyLdapUrl url of
             None \<Rightarrow> input
           | Some (host, port, protocol) \<Rightarrow>
               set_if_nullish ''protocol'' (protocol_value protocol)
                 (set_if_nullish ''port'' (JNum (of_int port)) (oset ''host'' (JStr host) input)))
      | _ \<Rightarrow> input)"

definition upgrade_dialect :: "jsval obj \<Rightarrow> jsval obj" where
  "upgrade_dialect input =
     (case (oget input ''detectedDialect'', string_in (oget input ''dialect'')) of
        (None, Some dialect) \<Rightarrow> oset ''detectedDialect'' (JStr dialect) input
      | _ \<Rightarrow> input)"

definition upgrade_bind_type :: "bool option \<Rightarrow> jsval obj \<Rightarrow> jsval obj" where
  "upgrade_bind_type passwordHeld input =
     (if oget input ''bindType'' = None
      then (let held = (\<lambda>k. case string_in (oget input k) of None \<Rightarrow> False | Some s \<Rightarrow> s \<noteq> []);
                hasPassword = (case passwordHeld of Some b \<Rightarrow> b | None \<Rightarrow> held ''bindPassword'')
            in oset ''bindType'' (JStr (if held ''bindDn'' \<and> hasPassword then ''regular'' else ''anonymous'')) input)
      else input)"

definition upgrade_port :: "jsval obj \<Rightarrow> jsval obj" where
  "upgrade_port input =
     (if oget input ''port'' = None
      then (case Option.bind (string_in (oget input ''protocol'')) (map_of protocols) of
              None \<Rightarrow> input
            | Some p \<Rightarrow> oset ''port'' (JNum (of_int (LDAP_DEFAULT_PORTS p))) input)
      else input)"

definition upgradeLegacyLdapSettings :: "bool option \<Rightarrow> jsval \<Rightarrow> jsval" where
  "upgradeLegacyLdapSettings passwordHeld raw =
     (case raw of
        JObj input \<Rightarrow>
          JObj (upgrade_port (upgrade_bind_type passwordHeld (upgrade_dialect (odel ''url'' (upgrade_url input)))))
      | _ \<Rightarrow> raw)"

definition drop_filter :: "bool \<Rightarrow> string \<Rightarrow> jsval obj \<Rightarrow> jsval obj" where
  "drop_filter when0 default_before input =
     (if when0 \<and> oget input ''searchFilter'' = Some (JStr default_before) then odel ''searchFilter'' input else input)"

definition prepare :: "jsval \<Rightarrow> jsval" where
  "prepare raw =
     (case upgradeLegacyLdapSettings None raw of
        JObj input0 \<Rightarrow>
          (let input1 = (case (oget input0 ''dialect'', oget input0 ''detectedDialect'') of
                           (None, Some d) \<Rightarrow> oset ''dialect'' d input0
                         | _ \<Rightarrow> input0);
               dialect = oget input1 ''dialect'';
               input2 = drop_filter (dialect = Some (JStr ''ad'')) AD_SEARCH_FILTER_WITHOUT_MAIL input1
           in JObj (drop_filter (nullish dialect \<or> dialect = Some (JStr ''openldap'')) OPENLDAP_SEARCH_FILTER_MAIL_ONLY input2))
      | upgraded \<Rightarrow> upgraded)"

section \<open>The schema\<close>

text \<open>The fields of the schema: a text that is not empty, a number, a flag with its default, one of some names.\<close>

fun text_field :: "jsval option \<Rightarrow> string option" where
  "text_field (Some (JStr s)) = (if length s \<ge> 1 then Some s else None)"
| "text_field _ = None"

fun flag_field :: "bool \<Rightarrow> jsval option \<Rightarrow> bool option" where
  "flag_field d None = Some d"
| "flag_field d (Some (JBool b)) = Some b"
| "flag_field d _ = None"

fun int_field :: "jsval option \<Rightarrow> int option" where
  "int_field (Some (JNum q)) = integer_of (Some q)"
| "int_field _ = None"

definition in_range :: "int \<Rightarrow> int \<Rightarrow> int \<Rightarrow> int option" where
  "in_range lo hi n = (if lo \<le> n \<and> n \<le> hi then Some n else None)"

definition name_field :: "(string \<times> 'a) list \<Rightarrow> jsval option \<Rightarrow> 'a option" where
  "name_field names v = Option.bind (string_in v) (map_of names)"

definition optional_field :: "(jsval option \<Rightarrow> 'a option) \<Rightarrow> jsval option \<Rightarrow> 'a option option" where
  "optional_field f v = (if v = None then Some None else map_option Some (f v))"

definition mapping_field :: "jsval \<Rightarrow> group_mapping option" where
  "mapping_field v =
     (case v of
        JObj o1 \<Rightarrow> do { g \<leftarrow> text_field (oget o1 ''groupDn''); r \<leftarrow> text_field (oget o1 ''role'');
                       Some \<lparr> gm_groupDn = g, gm_role = r \<rparr> }
      | _ \<Rightarrow> None)"

fun all_fields :: "('a \<Rightarrow> 'b option) \<Rightarrow> 'a list \<Rightarrow> 'b list option" where
  "all_fields f [] = Some []"
| "all_fields f (x # xs) = do { y \<leftarrow> f x; ys \<leftarrow> all_fields f xs; Some (y # ys) }"

fun mappings_field :: "jsval option \<Rightarrow> group_mapping list option" where
  "mappings_field None = Some []"
| "mappings_field (Some (JArr vs)) = all_fields mapping_field vs"
| "mappings_field _ = None"

fun attributes_field :: "jsval option \<Rightarrow> jsval obj option" where
  "attributes_field None = Some []"
| "attributes_field (Some (JObj o1)) = Some o1"
| "attributes_field _ = None"

definition trimmed_field :: "(string \<Rightarrow> string option) \<Rightarrow> jsval option \<Rightarrow> string option" where
  "trimmed_field problem v =
     do { s \<leftarrow> string_in v; if problem (js_trim s) = None then Some (js_trim s) else None }"

text \<open>What \<open>baseLdapConfigSchema\<close> leaves of a configuration: the record with the fields of the raw one, and
  the attribute names and the search filter that were chosen.\<close>

record ldap_chosen =
  ch_searchFilter :: "string option"
  ch_groupSearchBase :: "string option"
  ch_email :: "string option"
  ch_displayName :: "string option"
  ch_memberOf :: "string option"

definition with_default :: "'a option \<Rightarrow> 'a \<Rightarrow> 'a" where
  "with_default v d = (case v of Some x \<Rightarrow> x | None \<Rightarrow> d)"

text \<open>\<open>superRefine\<close> of \<open>checkedLdapConfigSchema\<close>.\<close>

definition credentials_complete :: "bind_type \<Rightarrow> string option \<Rightarrow> string option \<Rightarrow> string option \<Rightarrow> bool" where
  "credentials_complete bindType bindDn bindPassword userDnPattern \<longleftrightarrow>
     (bindType = REGULAR \<longrightarrow> bindDn \<noteq> None \<and> bindPassword \<noteq> None) \<and>
     (bindType = SIMPLE \<longrightarrow> userDnPattern \<noteq> None)"

text \<open>\<open>transform\<close>: the dialect's values where none was chosen, and no credentials a bind type does not use.\<close>

definition transform :: "ldap_chosen \<Rightarrow> ldap_config \<Rightarrow> ldap_config" where
  "transform chosen input =
     (let defaults = dialectDefaults (lc_dialect input); attributes = dd_attributes defaults
      in input \<lparr>
           lc_url := ldapUrlOf (lc_host input) (lc_port input) (lc_protocol input),
           lc_searchFilter := with_default (ch_searchFilter chosen) (dd_searchFilter defaults),
           lc_identifierLabel :=
             (if lc_bindType input = SIMPLE \<and> str_includes (with_default (lc_userDnPattern input) []) LDAP_EMAIL_PLACEHOLDER
              then ''Email'' else dd_identifierLabel defaults),
           lc_supportsNestedGroups := dd_supportsNestedGroups defaults,
           lc_groupSearchBase := with_default (ch_groupSearchBase chosen) (lc_searchBase input),
           lc_attributes := attributes \<lparr>
             at_email := with_default (ch_email chosen) (at_email attributes),
             at_displayName := with_default (ch_displayName chosen) (at_displayName attributes),
             at_memberOf := with_default (ch_memberOf chosen) (at_memberOf attributes) \<rparr>,
           lc_directoryIdIsBinary := dd_directoryIdIsBinary defaults,
           lc_bindDn := (if lc_bindType input = REGULAR then lc_bindDn input else None),
           lc_bindPassword := (if lc_bindType input = REGULAR then lc_bindPassword input else None),
           lc_userDnPattern := (if lc_bindType input = SIMPLE then lc_userDnPattern input else None) \<rparr>)"

definition ldapConfigSchema :: "(string \<Rightarrow> bool) \<Rightarrow> jsval \<Rightarrow> ldap_config option" where
  "ldapConfigSchema ca_parses raw =
     (case prepare raw of
        JObj o1 \<Rightarrow>
          do { host \<leftarrow> trimmed_field ldapHostProblem (oget o1 ''host'');
               port \<leftarrow> Option.bind (int_field (oget o1 ''port'')) (in_range 1 65535);
               protocol \<leftarrow> name_field protocols (oget o1 ''protocol'');
               bindType \<leftarrow> name_field LDAP_BIND_TYPES (oget o1 ''bindType'');
               bindDn \<leftarrow> optional_field text_field (oget o1 ''bindDn'');
               bindPassword \<leftarrow> optional_field text_field (oget o1 ''bindPassword'');
               userDnPattern \<leftarrow> optional_field (trimmed_field userDnPatternProblem) (oget o1 ''userDnPattern'');
               dialect \<leftarrow> optional_field (name_field LDAP_DIALECTS) (oget o1 ''dialect'');
               detectedDialect \<leftarrow> optional_field (name_field LDAP_DIALECTS) (oget o1 ''detectedDialect'');
               searchBase \<leftarrow> text_field (oget o1 ''searchBase'');
               groupSearchBase \<leftarrow> optional_field text_field (oget o1 ''groupSearchBase'');
               nestedGroups \<leftarrow> flag_field False (oget o1 ''nestedGroups'');
               autoCreateAccounts \<leftarrow> flag_field False (oget o1 ''autoCreateAccounts'');
               searchFilter \<leftarrow> optional_field text_field (oget o1 ''searchFilter'');
               attributes \<leftarrow> attributes_field (oget o1 ''attributes'');
               email \<leftarrow> optional_field text_field (oget attributes ''email'');
               displayName \<leftarrow> optional_field text_field (oget attributes ''displayName'');
               memberOf \<leftarrow> optional_field text_field (oget attributes ''memberOf'');
               roleMappings \<leftarrow> mappings_field (oget o1 ''roleMappings'');
               caPath \<leftarrow> optional_field text_field (oget o1 ''caPath'');
               caPem \<leftarrow> optional_field (\<lambda>v. Option.bind (text_field v) (\<lambda>s. if ca_parses s then Some s else None)) (oget o1 ''caPem'');
               timeoutMs \<leftarrow> (if oget o1 ''timeoutMs'' = None then Some 10000
                             else Option.bind (int_field (oget o1 ''timeoutMs'')) (in_range 1 60000));
               tlsRejectUnauthorized \<leftarrow> flag_field True (oget o1 ''tlsRejectUnauthorized'');
               if credentials_complete bindType bindDn bindPassword userDnPattern
               then Some (transform
                 \<lparr> ch_searchFilter = searchFilter, ch_groupSearchBase = groupSearchBase,
                   ch_email = email, ch_displayName = displayName, ch_memberOf = memberOf \<rparr>
                 \<lparr> lc_host = host, lc_port = port, lc_protocol = protocol, lc_url = [], lc_bindType = bindType,
                   lc_bindDn = bindDn, lc_bindPassword = bindPassword, lc_userDnPattern = userDnPattern,
                   lc_dialect = with_default dialect OPENLDAP, lc_detectedDialect = detectedDialect,
                   lc_searchBase = searchBase, lc_groupSearchBase = searchBase, lc_nestedGroups = nestedGroups,
                   lc_autoCreateAccounts = autoCreateAccounts, lc_searchFilter = [],
                   lc_attributes = dd_attributes (dialectDefaults OPENLDAP), lc_directoryIdIsBinary = False,
                   lc_identifierLabel = [], lc_supportsNestedGroups = False, lc_roleMappings = roleMappings,
                   lc_caPath = caPath, lc_caPem = caPem, lc_timeoutMs = timeoutMs,
                   lc_tlsRejectUnauthorized = tlsRejectUnauthorized \<rparr>)
               else None }
      | _ \<Rightarrow> None)"

section \<open>The environment\<close>

text \<open>What the boot stops with: a mapping that cannot be read, the problems found in the variables (and whether
  the schema refused the rest), or one of the three checks made afterwards.\<close>

datatype env_failure =
    MalformedMapping string
  | InvalidConfiguration "string list" bool
  | NestedGroupsUnsupported
  | CaMissing string
  | CaIgnored

definition quoted :: "string \<Rightarrow> string" where
  "quoted s = double_quote # s @ [double_quote]"

definition after_last :: "char \<Rightarrow> string \<Rightarrow> (string \<times> string) option" where
  "after_last c s =
     (if c \<in> set s
      then Some (rev (tl (dropWhile (\<lambda>d. d \<noteq> c) (rev s))), rev (takeWhile (\<lambda>d. d \<noteq> c) (rev s)))
      else None)"

definition to_upper :: "string \<Rightarrow> string" where
  "to_upper = map (\<lambda>c. let n = (of_char c :: nat) in if 97 \<le> n \<and> n \<le> 122 then char_of (n - 32) else c)"

definition parse_mapping :: "string \<Rightarrow> env_failure + group_mapping" where
  "parse_mapping pair =
     (let malformed = (\<lambda>why. Inl (MalformedMapping (''Malformed LDAP_ROLE_MAPPINGS entry '' @ quoted pair @ why)))
      in case after_last CHR ''='' pair of
           None \<Rightarrow> malformed '' -- expected <groupDn>=<ROLE>''
         | Some (before, after) \<Rightarrow>
             (let groupDn = js_trim before; role = js_trim after
              in if CHR ''='' \<notin> set groupDn
                 then malformed ('' -- expected <groupDn>=<ROLE>, where the group is a DN such as '' @
                                 ''cn=admins,ou=groups,dc=example,dc=com'')
                 else if role = [] then malformed '' -- the role is empty''
                 else let folded = to_upper role
                      in Inr \<lparr> gm_groupDn = groupDn,
                               gm_role = (if folded \<in> set [''VIEWER'', ''OPERATOR'', ''ADMIN''] then folded else role) \<rparr>))"

definition parseRoleMappings :: "string \<Rightarrow> env_failure + group_mapping list" where
  "parseRoleMappings value =
     fold_err (\<lambda>done0 pair. bind_err (parse_mapping pair) (\<lambda>m. Inr (done0 @ [m]))) []
       (filter (\<lambda>pair. pair \<noteq> []) (map js_trim (split_on CHR '';'' value)))"

definition mapping_value :: "group_mapping \<Rightarrow> jsval" where
  "mapping_value m = JObj [(''groupDn'', JStr (gm_groupDn m)), (''role'', JStr (gm_role m))]"

text \<open>The problems that \<open>ldapConfigFromEnv\<close> reports by variable; each is named by the text it begins with.\<close>

definition env_problems :: "(string \<Rightarrow> string option) \<Rightarrow> (string \<times> int \<times> ldap_protocol) option \<Rightarrow> string list" where
  "env_problems env target =
     (let startTls = env ''LDAP_STARTTLS''; autoCreate = env ''LDAP_AUTO_CREATE_ACCOUNTS''; bindType = env ''LDAP_BIND_TYPE'';
          flag = (\<lambda>v. v = None \<or> v = Some ''true'' \<or> v = Some ''false'')
      in (if target \<noteq> None then [] else if env ''LDAP_URL'' = None then [''url: LDAP_URL is required'']
          else [''url: LDAP_URL must be ldap://host[:port] or ldaps://host[:port]'']) @
         (if flag startTls then [] else [''LDAP_STARTTLS: must be true or false, not '' @ quoted (the startTls)]) @
         (if startTls = Some ''true'' \<and> (case target of Some (_, _, p) \<Rightarrow> p = LDAPS | None \<Rightarrow> False)
          then [''LDAP_STARTTLS: STARTTLS upgrades an ldap:// connection.''] else []) @
         (if flag autoCreate then [] else [''LDAP_AUTO_CREATE_ACCOUNTS: must be true or false, not '' @ quoted (the autoCreate)]) @
         (if bindType = None \<or> the bindType \<in> set (map fst LDAP_BIND_TYPES) then []
          else [''LDAP_BIND_TYPE: must be one of regular, simple, anonymous, not '' @ quoted (the bindType)]) @
         (if env ''LDAP_USER_DN_PATTERN'' \<noteq> None \<and> bindType \<noteq> Some ''simple''
          then [''LDAP_USER_DN_PATTERN: only used with LDAP_BIND_TYPE=simple''] else []) @
         (if bindType = Some ''simple'' \<and> env ''LDAP_BIND_DN'' \<noteq> None
          then [''LDAP_BIND_DN: Simple bind has no service account''] else []) @
         (if bindType = Some ''anonymous'' \<and> env ''LDAP_BIND_DN'' \<noteq> None
          then [''LDAP_BIND_DN: set alongside LDAP_BIND_TYPE=anonymous''] else []) @
         (if env ''LDAP_BIND_DN'' \<noteq> None \<and> env ''LDAP_BIND_PASSWORD'' = None
          then [''LDAP_BIND_DN is set but LDAP_BIND_PASSWORD is not.''] else []))"

text \<open>The object handed to the schema. \<open>Number(LDAP_TIMEOUT_MS)\<close> that is no number is refused there, as
  \<^const>\<open>JNull\<close> is here.\<close>

definition env_raw :: "(string \<Rightarrow> string option) \<Rightarrow> (string \<times> int \<times> ldap_protocol) option \<Rightarrow> group_mapping list option \<Rightarrow> jsval" where
  "env_raw env target mappings =
     (let copy = (\<lambda>k v. case env v of None \<Rightarrow> [] | Some s \<Rightarrow> [(k, JStr s)])
      in JObj (
        (case target of None \<Rightarrow> []
         | Some (host, port, protocol) \<Rightarrow>
             [(''host'', JStr host), (''port'', JNum (of_int port)),
              (''protocol'', protocol_value (if protocol = LDAP \<and> env ''LDAP_STARTTLS'' = Some ''true'' then STARTTLS else protocol))]) @
        [(''bindType'', JStr (case env ''LDAP_BIND_TYPE'' of Some t \<Rightarrow> t
            | None \<Rightarrow> if env ''LDAP_BIND_DN'' = None then ''anonymous'' else ''regular''))] @
        copy ''bindDn'' ''LDAP_BIND_DN'' @ copy ''bindPassword'' ''LDAP_BIND_PASSWORD'' @
        copy ''userDnPattern'' ''LDAP_USER_DN_PATTERN'' @ copy ''searchBase'' ''LDAP_SEARCH_BASE'' @
        copy ''searchFilter'' ''LDAP_SEARCH_FILTER'' @
        (case mappings of None \<Rightarrow> [] | Some ms \<Rightarrow> [(''roleMappings'', JArr (map mapping_value ms))]) @
        copy ''dialect'' ''LDAP_DIALECT'' @ copy ''groupSearchBase'' ''LDAP_GROUP_SEARCH_BASE'' @
        (case env ''LDAP_NESTED_GROUPS'' of None \<Rightarrow> [] | Some s \<Rightarrow> [(''nestedGroups'', JBool (s = ''true''))]) @
        (if env ''LDAP_AUTO_CREATE_ACCOUNTS'' = Some ''true'' then [(''autoCreateAccounts'', JBool True)] else []) @
        copy ''caPath'' ''LDAP_CA_PATH'' @
        (case env ''LDAP_TIMEOUT_MS'' of None \<Rightarrow> []
         | Some s \<Rightarrow> [(''timeoutMs'', case parse_number s of None \<Rightarrow> JNull | Some q \<Rightarrow> JNum q)]) @
        (case env ''LDAP_TLS_REJECT_UNAUTHORIZED'' of None \<Rightarrow> []
         | Some s \<Rightarrow> [(''tlsRejectUnauthorized'', JBool (s \<noteq> ''false''))])))"

definition ldapConfigFromEnv ::
  "(string \<Rightarrow> bool) \<Rightarrow> (string \<Rightarrow> bool) \<Rightarrow> (string \<Rightarrow> string option) \<Rightarrow> env_failure + ldap_config" where
  "ldapConfigFromEnv existsSync ca_parses env =
     (let target = Option.bind (env ''LDAP_URL'') parseLegacyLdapUrl;
          problems = env_problems env target
      in bind_err (case env ''LDAP_ROLE_MAPPINGS'' of None \<Rightarrow> Inr None
                   | Some s \<Rightarrow> bind_err (parseRoleMappings s) (\<lambda>ms. Inr (Some ms)))
         (\<lambda>mappings.
            case ldapConfigSchema ca_parses (env_raw env target mappings) of
              None \<Rightarrow> Inl (InvalidConfiguration problems False)
            | Some parsed \<Rightarrow>
                if problems \<noteq> [] then Inl (InvalidConfiguration problems True)
                else if lc_nestedGroups parsed \<and> \<not> lc_supportsNestedGroups parsed then Inl NestedGroupsUnsupported
                else (case lc_caPath parsed of
                        None \<Rightarrow> Inr parsed
                      | Some path \<Rightarrow>
                          if \<not> existsSync path then Inl (CaMissing path)
                          else if \<not> lc_tlsRejectUnauthorized parsed then Inl CaIgnored else Inr parsed)))"

section \<open>From groups to roles\<close>

definition RANK :: "(string \<times> nat) list" where
  "RANK = [(''VIEWER'', 1), (''OPERATOR'', 2), (''ADMIN'', 3)]"

definition rank :: "string \<Rightarrow> nat" where
  "rank role = with_default (map_of RANK role) 0"

definition normalizeDn :: "string \<Rightarrow> string" where
  "normalizeDn dn = to_lower (join '','' (map js_trim (split_on CHR '','' dn)))"

definition isBuiltIn :: "string \<Rightarrow> bool" where
  "isBuiltIn name \<longleftrightarrow> map_of RANK name \<noteq> None"

record resolved_roles =
  rr_primary :: string
  rr_all :: "string list"

definition add_role :: "string set \<Rightarrow> string list \<Rightarrow> group_mapping \<Rightarrow> string list" where
  "add_role held matched mapping =
     (if normalizeDn (gm_groupDn mapping) \<notin> held then matched
      else if gm_role mapping \<in> set matched then matched else matched @ [gm_role mapping])"

definition higher :: "string \<Rightarrow> string \<Rightarrow> string" where
  "higher a b = (if rank b > rank a then b else a)"

definition highest :: "string list \<Rightarrow> string" where
  "highest roles = foldl higher (hd roles) (tl roles)"

definition resolveRoles :: "string list \<Rightarrow> ldap_config \<Rightarrow> resolved_roles option" where
  "resolveRoles groupDns config =
     (let held = set (map normalizeDn groupDns);
          matched = foldl (add_role held) [] (lc_roleMappings config)
      in if matched = [] then None
         else if list_all isBuiltIn matched
              then Some \<lparr> rr_primary = highest matched, rr_all = [highest matched] \<rparr>
         else let builtIns = filter isBuiltIn matched
              in Some \<lparr> rr_primary = (if length builtIns > 0 then highest builtIns else hd matched), rr_all = matched \<rparr>)"

section \<open>Lemmas\<close>

lemma foldl_add_role_set:
  "set (foldl (add_role held) acc ms) = set acc \<union> {gm_role m | m. m \<in> set ms \<and> normalizeDn (gm_groupDn m) \<in> held}"
  by (induction ms arbitrary: acc) (auto simp: add_role_def)

lemma highest_in: "roles \<noteq> [] \<Longrightarrow> highest roles \<in> set roles"
proof -
  have "foldl higher a bs \<in> set (a # bs)" for a bs
    by (induction bs arbitrary: a) (auto simp: higher_def)
  moreover assume "roles \<noteq> []"
  ultimately show ?thesis unfolding highest_def by (cases roles) (simp_all del: foldl_Cons)
qed

lemma highest_max: "r \<in> set roles \<Longrightarrow> rank r \<le> rank (highest roles)"
proof -
  have fold_max: "\<forall>r \<in> set (a # bs). rank r \<le> rank (foldl higher a bs)" for a bs
  proof (induction bs arbitrary: a)
    case (Cons b bs)
    have "rank a \<le> rank (higher a b)" "rank b \<le> rank (higher a b)" by (simp_all add: higher_def)
    with Cons.IH [of "higher a b"] show ?case by (auto intro: order_trans)
  qed simp
  assume "r \<in> set roles"
  then show ?thesis using fold_max [of "hd roles" "tl roles"] by (cases roles) (auto simp: highest_def)
qed

text \<open>The roles of the mappings of the groups held.\<close>

definition mapped :: "ldap_config \<Rightarrow> string list \<Rightarrow> string set" where
  "mapped config groupDns =
     {gm_role m | m. m \<in> set (lc_roleMappings config) \<and> normalizeDn (gm_groupDn m) \<in> normalizeDn ` set groupDns}"

lemma highest_built_in:
  fixes matched
  defines "best \<equiv> (if filter isBuiltIn matched \<noteq> [] then highest (filter isBuiltIn matched) else hd matched)"
  assumes "matched \<noteq> []"
  shows "best \<in> set matched \<and> ((\<exists>x \<in> set matched. isBuiltIn x) \<longrightarrow>
    isBuiltIn best \<and> (\<forall>x \<in> set matched. isBuiltIn x \<longrightarrow> rank x \<le> rank best))"
proof (cases "filter isBuiltIn matched = []")
  case True
  then have "\<not> (\<exists>x \<in> set matched. isBuiltIn x)" by (simp add: filter_empty_conv)
  then show ?thesis using True assms(2) by (simp add: best_def)
next
  case False
  then have "best \<in> set (filter isBuiltIn matched)" using highest_in [OF False] by (simp add: best_def)
  moreover have "\<forall>x \<in> set (filter isBuiltIn matched). rank x \<le> rank best"
    using highest_max False by (simp add: best_def)
  ultimately show ?thesis by simp
qed

text \<open>The roles that \<open>mapped\<close> gives a principal: the one stored, and all that are held.\<close>

definition best_of :: "string set \<Rightarrow> string \<Rightarrow> string set \<Rightarrow> bool" where
  "best_of roles primary held \<longleftrightarrow>
     primary \<in> roles
     \<and> held = (if \<exists>x \<in> roles. \<not> isBuiltIn x then roles else {primary})
     \<and> ((\<exists>x \<in> roles. isBuiltIn x) \<longrightarrow> isBuiltIn primary \<and> (\<forall>x \<in> roles. isBuiltIn x \<longrightarrow> rank x \<le> rank primary))"

lemma resolved_roles:
  "case resolveRoles groups config of
     None \<Rightarrow> mapped config groups = {}
   | Some r \<Rightarrow> best_of (mapped config groups) (rr_primary r) (set (rr_all r))
       \<and> ((\<exists>x \<in> mapped config groups. \<not> isBuiltIn x) \<or> rr_all r = [rr_primary r])"
proof -
  let ?matched = "foldl (add_role (normalizeDn ` set groups)) [] (lc_roleMappings config)"
  have m: "set ?matched = mapped config groups" by (simp only: foldl_add_role_set mapped_def set_simps Un_empty_left)
  have def: "resolveRoles groups config =
      (if ?matched = [] then None
       else if list_all isBuiltIn ?matched then Some \<lparr> rr_primary = highest ?matched, rr_all = [highest ?matched] \<rparr>
       else let builtIns = filter isBuiltIn ?matched
            in Some \<lparr> rr_primary = (if length builtIns > 0 then highest builtIns else hd ?matched), rr_all = ?matched \<rparr>)"
    by (simp add: resolveRoles_def Let_def)
  show ?thesis
  proof (cases "?matched = []")
    case True
    then show ?thesis using def m by auto
  next
    case False
    then have ne: "mapped config groups \<noteq> {}" using m by (metis set_empty)
    show ?thesis
    proof (cases "list_all isBuiltIn ?matched")
      case True
      then have built: "\<forall>x \<in> mapped config groups. isBuiltIn x" by (simp only: list_all_iff m)
      have "highest ?matched \<in> mapped config groups" using highest_in [OF False] m by simp
      moreover have "\<forall>x \<in> mapped config groups. rank x \<le> rank (highest ?matched)" using highest_max [of _ ?matched] m by simp
      ultimately show ?thesis using def False True built ne by (auto simp: best_of_def)
    next
      case custom: False
      then have some: "\<exists>x \<in> mapped config groups. \<not> isBuiltIn x" by (simp add: list_all_iff m)
      have r: "resolveRoles groups config = Some \<lparr> rr_primary = (if filter isBuiltIn ?matched \<noteq> []
          then highest (filter isBuiltIn ?matched) else hd ?matched), rr_all = ?matched \<rparr>"
        using def False custom by (simp add: Let_def)
      show ?thesis
        using highest_built_in [OF False] some ne m unfolding r option.simps resolved_roles.simps best_of_def by simp
    qed
  qed
qed

text \<open>
  C20. Which roles a directory user gets. None, and so no sign-in, exactly when no mapping names a group the user is in;
  never a default. If every mapped role is built in, the highest and only it; if one is not, all of them, the stored one
  being the highest built-in role if there is any. The spelling, the order and the repetition of the groups do not matter.
\<close>

theorem roles_of_groups:
  "(resolveRoles groups config = None \<longleftrightarrow> mapped config groups = {})
   \<and> (case resolveRoles groups config of
        None \<Rightarrow> True
      | Some r \<Rightarrow> rr_primary r \<in> mapped config groups
          \<and> (if \<exists>x \<in> mapped config groups. \<not> isBuiltIn x then set (rr_all r) = mapped config groups
             else rr_all r = [rr_primary r])
          \<and> ((\<exists>x \<in> mapped config groups. isBuiltIn x) \<longrightarrow>
               isBuiltIn (rr_primary r) \<and> (\<forall>x \<in> mapped config groups. isBuiltIn x \<longrightarrow> rank x \<le> rank (rr_primary r))))
   \<and> (normalizeDn ` set others = normalizeDn ` set groups \<longrightarrow> resolveRoles others config = resolveRoles groups config)"
proof -
  have "normalizeDn ` set others = normalizeDn ` set groups \<longrightarrow> resolveRoles others config = resolveRoles groups config"
    by (simp add: resolveRoles_def)
  then show ?thesis using resolved_roles [of config groups] by (auto simp: best_of_def split: option.splits)
qed

section \<open>What the schema lets through\<close>

text \<open>Every credential that the bind type needs, none that it does not, and the attributes of the dialect.\<close>

definition credentials_of :: "ldap_config \<Rightarrow> bool" where
  "credentials_of c \<longleftrightarrow>
     (case lc_bindType c of
        REGULAR \<Rightarrow> (case (lc_bindDn c, lc_bindPassword c) of
            (Some dn, Some pw) \<Rightarrow> dn \<noteq> [] \<and> pw \<noteq> [] \<and> lc_userDnPattern c = None | _ \<Rightarrow> False)
      | SIMPLE \<Rightarrow> lc_bindDn c = None \<and> lc_bindPassword c = None \<and>
          (case lc_userDnPattern c of Some p \<Rightarrow> userDnPatternProblem p = None | None \<Rightarrow> False)
      | ANONYMOUS \<Rightarrow> lc_bindDn c = None \<and> lc_bindPassword c = None \<and> lc_userDnPattern c = None)"

definition usable_config :: "ldap_config \<Rightarrow> bool" where
  "usable_config c \<longleftrightarrow>
     credentials_of c \<and> ldapHostProblem (lc_host c) = None \<and> 1 \<le> lc_port c \<and> lc_port c \<le> 65535
     \<and> lc_url c = ldapUrlOf (lc_host c) (lc_port c) (lc_protocol c) \<and> 1 \<le> lc_timeoutMs c \<and> lc_timeoutMs c \<le> 60000
     \<and> lc_searchFilter c \<noteq> [] \<and> lc_searchBase c \<noteq> [] \<and> lc_groupSearchBase c \<noteq> []
     \<and> list_all (\<lambda>m. gm_groupDn m \<noteq> [] \<and> gm_role m \<noteq> []) (lc_roleMappings c)
     \<and> lc_directoryIdIsBinary c = (lc_dialect c = AD) \<and> lc_supportsNestedGroups c = (lc_dialect c = AD)
     \<and> at_directoryId (lc_attributes c) = at_directoryId (dd_attributes (dialectDefaults (lc_dialect c)))"

lemma text_field_some: "text_field v = Some s \<longleftrightarrow> v = Some (JStr s) \<and> s \<noteq> []"
  by (cases v rule: text_field.cases) (auto simp: Suc_le_eq)

lemma optional_field_some: "optional_field f v = Some r \<Longrightarrow> r = None \<or> f v = r"
  by (auto simp: optional_field_def split: if_splits)

lemma trimmed_field_some: "trimmed_field problem v = Some s \<Longrightarrow> problem s = None"
  by (auto simp: trimmed_field_def bind_eq_Some_conv split: if_splits)

lemma optional_facts:
  "optional_field text_field v = Some y \<Longrightarrow> y = Some s \<Longrightarrow> s \<noteq> []"
  "optional_field (trimmed_field problem) v = Some y \<Longrightarrow> y = Some s \<Longrightarrow> problem s = None"
  by (drule optional_field_some, force simp: text_field_some trimmed_field_some)+

lemma in_range_some: "in_range lo hi n = Some m \<longleftrightarrow> m = n \<and> lo \<le> n \<and> n \<le> hi"
  by (auto simp: in_range_def)

lemma mapping_field_some: "mapping_field v = Some m \<Longrightarrow> gm_groupDn m \<noteq> [] \<and> gm_role m \<noteq> []"
  by (auto simp: mapping_field_def bind_eq_Some_conv text_field_some split: jsval.splits)

lemma all_mappings: "all_fields mapping_field vs = Some ms \<Longrightarrow> list_all (\<lambda>m. gm_groupDn m \<noteq> [] \<and> gm_role m \<noteq> []) ms"
  by (induction vs arbitrary: ms) (auto simp: bind_eq_Some_conv dest: mapping_field_some)

lemma mappings_field_some: "mappings_field v = Some ms \<Longrightarrow> list_all (\<lambda>m. gm_groupDn m \<noteq> [] \<and> gm_role m \<noteq> []) ms"
  by (cases v rule: mappings_field.cases) (auto dest: all_mappings)

lemma default_filters: "dd_searchFilter (dialectDefaults d) \<noteq> []"
  by (cases d) (simp_all add: dialectDefaults_def OPENLDAP_SEARCH_FILTER_def AD_SEARCH_FILTER_def)

lemma transform_usable:
  assumes "credentials_complete (lc_bindType i) (lc_bindDn i) (lc_bindPassword i) (lc_userDnPattern i)"
    and "\<And>s. lc_bindDn i = Some s \<Longrightarrow> s \<noteq> []" "\<And>s. lc_bindPassword i = Some s \<Longrightarrow> s \<noteq> []"
    and "\<And>s. lc_userDnPattern i = Some s \<Longrightarrow> userDnPatternProblem s = None"
    and "ldapHostProblem (lc_host i) = None" "1 \<le> lc_port i" "lc_port i \<le> 65535" "1 \<le> lc_timeoutMs i" "lc_timeoutMs i \<le> 60000"
    and "lc_searchBase i \<noteq> []" "\<And>s. ch_groupSearchBase ch = Some s \<Longrightarrow> s \<noteq> []" "\<And>s. ch_searchFilter ch = Some s \<Longrightarrow> s \<noteq> []"
    and "list_all (\<lambda>m. gm_groupDn m \<noteq> [] \<and> gm_role m \<noteq> []) (lc_roleMappings i)"
  shows "usable_config (transform ch i)"
proof -
  have "credentials_of (transform ch i)"
    using assms(1-4) by (cases "lc_bindType i") (auto simp: credentials_of_def transform_def Let_def credentials_complete_def)
  moreover have "with_default (ch_groupSearchBase ch) (lc_searchBase i) \<noteq> []" "with_default (ch_searchFilter ch) (dd_searchFilter (dialectDefaults (lc_dialect i))) \<noteq> []"
    using assms(10-12) default_filters by (auto simp: with_default_def split: option.split)
  ultimately show ?thesis
    using assms(5-10,13) by (cases "lc_dialect i") (simp_all add: usable_config_def transform_def Let_def dialectDefaults_def)
qed

lemma field_facts:
  "in_range lo hi n = Some m \<Longrightarrow> lo \<le> m" "in_range lo hi n = Some m \<Longrightarrow> m \<le> hi"
  "Option.bind x (in_range lo hi) = Some m \<Longrightarrow> lo \<le> m" "Option.bind x (in_range lo hi) = Some m \<Longrightarrow> m \<le> hi"
  "text_field v = Some s \<Longrightarrow> s \<noteq> []" "trimmed_field problem v = Some s \<Longrightarrow> problem s = None"
  "mappings_field v = Some ms \<Longrightarrow> list_all (\<lambda>m. gm_groupDn m \<noteq> [] \<and> gm_role m \<noteq> []) ms"
  by (auto simp: in_range_some text_field_some bind_eq_Some_conv dest: trimmed_field_some mappings_field_some)

lemma timeout_facts:
  assumes "(if v = None then Some 10000 else Option.bind (int_field v) (in_range 1 60000)) = Some m"
  shows "1 \<le> m \<and> m \<le> 60000"
  using assms by (auto simp: in_range_some bind_eq_Some_conv split: if_splits)

lemma transformed:
  assumes "(if credentials_complete ty dn pw pattern then Some (transform
      \<lparr> ch_searchFilter = f, ch_groupSearchBase = gb, ch_email = a, ch_displayName = b, ch_memberOf = m \<rparr>
      \<lparr> lc_host = host, lc_port = port, lc_protocol = proto, lc_url = u, lc_bindType = ty, lc_bindDn = dn,
        lc_bindPassword = pw, lc_userDnPattern = pattern, lc_dialect = d, lc_detectedDialect = dd, lc_searchBase = base,
        lc_groupSearchBase = base', lc_nestedGroups = n, lc_autoCreateAccounts = au, lc_searchFilter = f',
        lc_attributes = att, lc_directoryIdIsBinary = bin, lc_identifierLabel = l, lc_supportsNestedGroups = sn,
        lc_roleMappings = ms, lc_caPath = cp, lc_caPem = pem, lc_timeoutMs = t, lc_tlsRejectUnauthorized = tls \<rparr>) else None) = Some c"
    and "optional_field text_field v1 = Some dn" "optional_field text_field v2 = Some pw"
    and "optional_field (trimmed_field userDnPatternProblem) v3 = Some pattern" "trimmed_field ldapHostProblem v4 = Some host"
    and "in_range 1 65535 i = Some port" "(if v5 = None then Some 10000 else Option.bind (int_field v5) (in_range 1 60000)) = Some t"
    and "text_field v6 = Some base" "optional_field text_field v7 = Some gb" "optional_field text_field v8 = Some f"
    and "mappings_field v9 = Some ms"
  shows "usable_config c"
proof -
  have c: "credentials_complete ty dn pw pattern" using assms(1) by (simp split: if_splits)
  have facts: "ldapHostProblem host = None" "1 \<le> port" "port \<le> 65535" "1 \<le> t" "t \<le> 60000" "base \<noteq> []"
    "list_all (\<lambda>m. gm_groupDn m \<noteq> [] \<and> gm_role m \<noteq> []) ms"
    "\<And>s. dn = Some s \<Longrightarrow> s \<noteq> []" "\<And>s. pw = Some s \<Longrightarrow> s \<noteq> []" "\<And>s. pattern = Some s \<Longrightarrow> userDnPatternProblem s = None"
    "\<And>s. gb = Some s \<Longrightarrow> s \<noteq> []" "\<And>s. f = Some s \<Longrightarrow> s \<noteq> []"
    using trimmed_field_some [OF assms(5)] field_facts(1,2) [OF assms(6)] timeout_facts [OF assms(7)] field_facts(5) [OF assms(8)]
      mappings_field_some [OF assms(11)] optional_facts(1) [OF assms(2)] optional_facts(1) [OF assms(3)] optional_facts(2) [OF assms(4)]
      optional_facts(1) [OF assms(9)] optional_facts(1) [OF assms(10)] by blast+
  have eq: "transform (\<lparr> ch_searchFilter = f, ch_groupSearchBase = gb, ch_email = a, ch_displayName = b, ch_memberOf = m \<rparr>)
      (\<lparr> lc_host = host, lc_port = port, lc_protocol = proto, lc_url = u, lc_bindType = ty, lc_bindDn = dn,
        lc_bindPassword = pw, lc_userDnPattern = pattern, lc_dialect = d, lc_detectedDialect = dd, lc_searchBase = base,
        lc_groupSearchBase = base', lc_nestedGroups = n, lc_autoCreateAccounts = au, lc_searchFilter = f',
        lc_attributes = att, lc_directoryIdIsBinary = bin, lc_identifierLabel = l, lc_supportsNestedGroups = sn,
        lc_roleMappings = ms, lc_caPath = cp, lc_caPem = pem, lc_timeoutMs = t, lc_tlsRejectUnauthorized = tls \<rparr>) = c"
    using assms(1) unfolding if_P [OF c] option.inject .
  show ?thesis
    unfolding eq [symmetric] by (rule transform_usable; simp only: ldap_config.simps ldap_chosen.simps c facts not_False_eq_True)
qed

lemma schema_usable:
  assumes "ldapConfigSchema ca raw = Some c"
  shows "usable_config c"
proof -
  obtain o1 where o1: "prepare raw = JObj o1" using assms by (auto simp: ldapConfigSchema_def split: jsval.splits)
  show ?thesis
    using assms unfolding ldapConfigSchema_def o1 jsval.case bind_eq_Some_conv
    by (elim exE conjE) (rule transformed; assumption)
qed

text \<open>
  A mapping whose role was forgotten is read as one: the last part of the group's name becomes the role. The comment
  in \<open>parseRoleMappings\<close> says that the check on the group catches it.
\<close>

lemma forgotten_role_accepted:
  "parseRoleMappings ''cn=admins,ou=groups,dc=example,dc=com'' =
     Inr [\<lparr> gm_groupDn = ''cn=admins,ou=groups,dc=example,dc'', gm_role = ''com'' \<rparr>]"
  by code_simp

definition demo_raw :: "(string \<times> jsval) list" where
  "demo_raw = [(''host'', JStr ''ldap.example.com''), (''port'', JNum 636), (''protocol'', JStr ''ldaps''),
     (''bindType'', JStr ''anonymous''), (''searchBase'', JStr ''dc=example,dc=com'')]"

text \<open>
  The schema takes a search filter that has no place for what was typed; with it, every sign-in fails in
  \<open>buildFilter\<close>. The comment on the field says that it must have one.
\<close>

lemma filter_without_place_accepted:
  "\<exists>c. ldapConfigSchema (\<lambda>_. True) (JObj (demo_raw @ [(''searchFilter'', JStr ''(uid=admin)'')])) = Some c
     \<and> buildFilter (lc_searchFilter c) typed = Inl filter_template_failure"
proof -
  let ?raw = "JObj (demo_raw @ [(''searchFilter'', JStr ''(uid=admin)'')])"
  have "map_option lc_searchFilter (ldapConfigSchema (\<lambda>_. True) ?raw) = Some ''(uid=admin)''" by code_simp
  then obtain c where "ldapConfigSchema (\<lambda>_. True) ?raw = Some c" "lc_searchFilter c = ''(uid=admin)''" by auto
  moreover have "\<not> str_includes ''(uid=admin)'' PLACEHOLDER" by code_simp
  ultimately show ?thesis by (auto simp: buildFilter_def)
qed

text \<open>
  Nested groups are refused at boot where the dialect has no rule for them, and taken from the console.
\<close>

lemma nested_groups_taken_from_console:
  "\<exists>c. ldapConfigSchema (\<lambda>_. True) (JObj (demo_raw @ [(''nestedGroups'', JBool True)])) = Some c
     \<and> lc_nestedGroups c \<and> \<not> lc_supportsNestedGroups c"
proof -
  have "map_option (\<lambda>c. lc_nestedGroups c \<and> \<not> lc_supportsNestedGroups c)
      (ldapConfigSchema (\<lambda>_. True) (JObj (demo_raw @ [(''nestedGroups'', JBool True)]))) = Some True" by code_simp
  then show ?thesis by auto
qed

text \<open>
  A directory that boots, or that was saved and is read, is usable as it is: the bind type has exactly the
  credentials it needs, not empty, and no others; the host is a name or an address and the port one; and the entries are
  identified by the dialect's own attribute, whatever the other attributes were set to.
\<close>

theorem parsed_directory_usable:
  assumes "ldapConfigFromEnv existsSync ca env = Inr c \<or> ldapConfigSchema ca raw = Some c"
  shows "usable_config c"
  using assms schema_usable
  by (auto simp: ldapConfigFromEnv_def bind_err_def Let_def split: sum.splits option.splits if_splits)

definition demo_ldap :: "(string \<times> jsval) list" where
  "demo_ldap = demo_raw @ [(''detectedDialect'', JStr ''ad''), (''roleMappings'', JArr (map mapping_value
     [\<lparr> gm_groupDn = ''cn=ops,dc=corp'', gm_role = ''OPERATOR'' \<rparr>, \<lparr> gm_groupDn = ''cn=audit,dc=corp'', gm_role = ''auditor'' \<rparr>]))]"

lemma demo_ldap_parsed:
  "case ldapConfigSchema (\<lambda>_. False) (JObj demo_ldap) of
     None \<Rightarrow> False
   | Some c \<Rightarrow> lc_protocol c = LDAPS \<and> lc_url c = ''ldaps://ldap.example.com:636'' \<and> lc_bindType c = ANONYMOUS
       \<and> lc_searchFilter c = AD_SEARCH_FILTER \<and> lc_searchBase c = ''dc=example,dc=com''
       \<and> lc_roleMappings c = [\<lparr> gm_groupDn = ''cn=ops,dc=corp'', gm_role = ''OPERATOR'' \<rparr>, \<lparr> gm_groupDn = ''cn=audit,dc=corp'', gm_role = ''auditor'' \<rparr>]
       \<and> \<not> lc_nestedGroups c \<and> \<not> lc_autoCreateAccounts c \<and> lc_directoryIdIsBinary c"
  by code_simp

definition demo_ldap_config :: ldap_config where
  "demo_ldap_config = the (ldapConfigSchema (\<lambda>_. False) (JObj demo_ldap))"

lemma demo_ldap_config:
  "ldapConfigSchema (\<lambda>_. False) (JObj demo_ldap) = Some demo_ldap_config"
  "lc_protocol demo_ldap_config = LDAPS" "lc_url demo_ldap_config = ''ldaps://ldap.example.com:636''" "lc_bindType demo_ldap_config = ANONYMOUS"
  "lc_searchFilter demo_ldap_config = AD_SEARCH_FILTER" "lc_searchBase demo_ldap_config = ''dc=example,dc=com''"
  "lc_roleMappings demo_ldap_config = [\<lparr> gm_groupDn = ''cn=ops,dc=corp'', gm_role = ''OPERATOR'' \<rparr>, \<lparr> gm_groupDn = ''cn=audit,dc=corp'', gm_role = ''auditor'' \<rparr>]"
  "\<not> lc_nestedGroups demo_ldap_config" "\<not> lc_autoCreateAccounts demo_ldap_config" "lc_directoryIdIsBinary demo_ldap_config"
  using demo_ldap_parsed by (auto simp: demo_ldap_config_def split: option.splits)

theorem parsed_directory_usable_witness:
  "ldapConfigSchema (\<lambda>_. False) (JObj demo_ldap) = Some demo_ldap_config \<and> usable_config demo_ldap_config"
  using demo_ldap_config(1) parsed_directory_usable [of _ "\<lambda>_. False" _ demo_ldap_config "JObj demo_ldap"] by blast

text \<open>Roles of groups, at two groups spelt differently.\<close>

theorem roles_of_groups_witness:
  "resolveRoles [''CN=Audit, DC=corp'', ''cn=ops,dc=corp''] demo_ldap_config = resolveRoles [''cn=ops,dc=corp'', ''cn=audit,dc=corp''] demo_ldap_config
    \<and> ''auditor'' \<in> mapped demo_ldap_config [''cn=ops,dc=corp'', ''cn=audit,dc=corp'']
    \<and> resolveRoles [''cn=ops,dc=corp'', ''cn=audit,dc=corp''] demo_ldap_config \<noteq> None"
proof -
  let ?groups = "[''cn=ops,dc=corp'', ''cn=audit,dc=corp'']"
  have same: "normalizeDn ` set [''CN=Audit, DC=corp'', ''cn=ops,dc=corp''] = normalizeDn ` set ?groups" by code_simp
  have "''auditor'' \<in> mapped demo_ldap_config ?groups" 
    unfolding mapped_def demo_ldap_config(7)
    by (rule CollectI, rule exI [of _ "\<lparr> gm_groupDn = ''cn=audit,dc=corp'', gm_role = ''auditor'' \<rparr>"]) simp
  with roles_of_groups [of ?groups demo_ldap_config "[''CN=Audit, DC=corp'', ''cn=ops,dc=corp'']"] same show ?thesis by blast
qed

end
