(* ===== verification/LdapClient.thy ===== *)
theory LdapClient
  imports LdapConfig "HOL-Library.Sublist"
begin

text \<open>
  The directory client (\<open>directory/ldap/ldap-client.ts\<close>). The directory server is a parameter: what it answers
  to a connection, an upgrade, a bind or a search may depend on everything that happened on the wire so far,
  and it may drop the connection before any request; the client library connects when there is something to send, and again when the
  connection was lost. The wire is the list of what happened, in order. The theorems are about what is put on it, whatever
  the server does. Log lines are left out.
\<close>

section \<open>The wire\<close>

datatype error_code = NoCode | NumCode int | StrCode string

record client_error =
  er_name :: string
  er_message :: string
  er_code :: error_code

text \<open>What can be thrown: \<open>LdapUnavailableError\<close> with its message and detail, or any other error.\<close>

datatype ldap_exn = Unavailable string "string option" | Raised client_error

type_synonym raw_entry = "(string \<times> attr_value) list"

datatype search_scope = BaseScope | SubScope

record search_request =
  sr_base :: string
  sr_filter :: string
  sr_scope :: search_scope
  sr_sizeLimit :: "nat option"
  sr_attributes :: "string list"
  sr_buffers :: "string list"

record tls_options =
  tl_rejectUnauthorized :: bool
  tl_ca :: "string option"
  tl_host :: string
  tl_servername :: "string option"

text \<open>Connected, in TLS or not; the upgrade asked for; a bind sent and whether it was accepted; a search sent; closed.\<close>

datatype event =
    Connected string "tls_options option"
  | Upgraded tls_options bool
  | Bound string string bool
  | Searched search_request
  | Closed

type_synonym trace = "event list"

record ldap_server =
  sv_connect :: "trace \<Rightarrow> client_error option"
  sv_drops :: "trace \<Rightarrow> bool"
  sv_startTLS :: "trace \<Rightarrow> client_error option"
  sv_bind :: "trace \<Rightarrow> string \<Rightarrow> string \<Rightarrow> client_error option"
  sv_search :: "trace \<Rightarrow> search_request \<Rightarrow> client_error + raw_entry list"

text \<open>The client of one operation: what it was opened with, how often it connected, whether it is connected.\<close>

record ldap_client =
  cl_url :: string
  cl_tls :: "tls_options option"
  cl_onlyOnce :: bool
  cl_connections :: nat
  cl_connected :: bool

record wire =
  wi_trace :: trace
  wi_client :: ldap_client

text \<open>What runs on a state: a value or an exception, and the state it leaves.\<close>

type_synonym ('s, 'a) action = "'s \<Rightarrow> (ldap_exn + 'a) \<times> 's"
type_synonym 'a run = "(wire, 'a) action"

definition return :: "'a \<Rightarrow> ('s, 'a) action" where
  "return x = (\<lambda>w. (Inr x, w))"

definition throw :: "ldap_exn \<Rightarrow> ('s, 'a) action" where
  "throw e = (\<lambda>w. (Inl e, w))"

definition andThen :: "('s, 'a) action \<Rightarrow> ('a \<Rightarrow> ('s, 'b) action) \<Rightarrow> ('s, 'b) action" where
  "andThen m f = (\<lambda>w. case m w of (Inl e, w') \<Rightarrow> (Inl e, w') | (Inr x, w') \<Rightarrow> f x w')"

text \<open>\<open>try { m } catch (e) { handler e }\<close>.\<close>

definition catching :: "('s, 'a) action \<Rightarrow> (ldap_exn \<Rightarrow> ('s, 'a) action) \<Rightarrow> ('s, 'a) action" where
  "catching m handler = (\<lambda>w. case m w of (Inl e, w') \<Rightarrow> handler e w' | (Inr x, w') \<Rightarrow> (Inr x, w'))"

definition happened :: "event \<Rightarrow> wire \<Rightarrow> wire" where
  "happened e w = w \<lparr> wi_trace := wi_trace w @ [e] \<rparr>"

definition raised :: "client_error option \<Rightarrow> 'a \<Rightarrow> 'a run" where
  "raised e x = (case e of None \<Rightarrow> return x | Some e \<Rightarrow> throw (Raised e))"

section \<open>The client library\<close>

text \<open>The socket: one is opened when there is none or it was lost; a client made for STARTTLS may open one only.\<close>

definition STARTTLS_LOST :: string where
  "STARTTLS_LOST = ''The STARTTLS connection was lost, and reconnecting would not be encrypted. '' @
     ''Refused; nothing was sent.''"

definition ensure_connected :: "ldap_server \<Rightarrow> unit run" where
  "ensure_connected sv = (\<lambda>w.
     let c = wi_client w
     in if cl_connected c \<and> \<not> sv_drops sv (wi_trace w) then (Inr (), w)
        else let connections = cl_connections c + 1;
                 w = w \<lparr> wi_client := c \<lparr> cl_connections := connections, cl_connected := False \<rparr> \<rparr>
             in if cl_onlyOnce c \<and> connections > 1 then (Inl (Unavailable STARTTLS_LOST None), w)
                else (case sv_connect sv (wi_trace w) of
                        Some e \<Rightarrow> (Inl (Raised e), w)
                      | None \<Rightarrow> (Inr (), happened (Connected (cl_url c) (cl_tls c))
                                   (w \<lparr> wi_client := (wi_client w) \<lparr> cl_connected := True \<rparr> \<rparr>))))"

definition client_startTLS :: "ldap_server \<Rightarrow> tls_options \<Rightarrow> unit run" where
  "client_startTLS sv options =
     andThen (ensure_connected sv) (\<lambda>_ w.
       let e = sv_startTLS sv (wi_trace w) in raised e () (happened (Upgraded options (e = None)) w))"

definition client_bind :: "ldap_server \<Rightarrow> string \<Rightarrow> string \<Rightarrow> unit run" where
  "client_bind sv dn password =
     andThen (ensure_connected sv) (\<lambda>_ w.
       let e = sv_bind sv (wi_trace w) dn password in raised e () (happened (Bound dn password (e = None)) w))"

definition client_search :: "ldap_server \<Rightarrow> search_request \<Rightarrow> raw_entry list run" where
  "client_search sv q =
     andThen (ensure_connected sv) (\<lambda>_ w.
       case sv_search sv (wi_trace w) q of
         Inl e \<Rightarrow> (Inl (Raised e), happened (Searched q) w)
       | Inr entries \<Rightarrow> (Inr entries, happened (Searched q) w))"

text \<open>\<open>unbind\<close> closes the connection there is; what it throws is swallowed by every caller.\<close>

definition client_unbind :: "wire \<Rightarrow> wire" where
  "client_unbind w =
     (if cl_connected (wi_client w)
      then happened Closed (w \<lparr> wi_client := (wi_client w) \<lparr> cl_connected := False \<rparr> \<rparr>) else w)"

definition client_for :: "string \<Rightarrow> tls_options option \<Rightarrow> bool \<Rightarrow> wire \<Rightarrow> wire" where
  "client_for url tls onlyOnce w =
     w \<lparr> wi_client := \<lparr> cl_url = url, cl_tls = tls, cl_onlyOnce = onlyOnce, cl_connections = 0, cl_connected = False \<rparr> \<rparr>"

section \<open>Errors in words\<close>

definition codeOf :: "ldap_exn \<Rightarrow> error_code" where
  "codeOf e = (case e of Unavailable _ _ \<Rightarrow> NoCode | Raised e \<Rightarrow> er_code e)"

definition messageOf :: "ldap_exn \<Rightarrow> string" where
  "messageOf e = (case e of Unavailable m _ \<Rightarrow> m | Raised e \<Rightarrow> er_message e)"

definition describe :: "ldap_exn \<Rightarrow> string" where
  "describe e = (case e of Unavailable m _ \<Rightarrow> ''LdapUnavailableError: '' @ m | Raised e \<Rightarrow> er_name e @ '': '' @ er_message e)"

definition INVALID_CREDENTIALS_CODE :: int where "INVALID_CREDENTIALS_CODE = 49"
definition NO_SUCH_OBJECT_CODE :: int where "NO_SUCH_OBJECT_CODE = 32"
definition SIZE_LIMIT_EXCEEDED_CODE :: int where "SIZE_LIMIT_EXCEEDED_CODE = 4"

definition isInvalidCredentials :: "ldap_exn \<Rightarrow> bool" where
  "isInvalidCredentials e \<longleftrightarrow> codeOf e = NumCode INVALID_CREDENTIALS_CODE"

definition mentions :: "string \<Rightarrow> string \<Rightarrow> bool" where
  "mentions text0 phrase \<longleftrightarrow> str_includes (to_lower text0) (to_lower phrase)"

text \<open>\<open>/anonymous[^.]*(disallowed|not allowed|denied)/i\<close>.\<close>

fun refuses_anonymous :: "string \<Rightarrow> bool" where
  "refuses_anonymous [] = False"
| "refuses_anonymous (c # cs) =
     (starts_with (c # cs) ''anonymous'' \<and>
        (let rest = takeWhile (\<lambda>d. d \<noteq> CHR ''.'') (drop 9 (c # cs))
         in str_includes rest ''disallowed'' \<or> str_includes rest ''not allowed'' \<or> str_includes rest ''denied'')
      \<or> refuses_anonymous cs)"

definition isAnonymousRefusal :: "ldap_exn \<Rightarrow> bool" where
  "isAnonymousRefusal e \<longleftrightarrow>
     (let code = codeOf e; message = messageOf e
      in code = NumCode 1 \<and> (mentions message ''000004DC'' \<or> mentions message ''successful bind must be completed'')
         \<or> code = NumCode 53 \<and> mentions message ''authentication required''
         \<or> code = NumCode 50 \<or> code = NumCode 48
         \<or> refuses_anonymous (to_lower message))"

definition UNTRUSTED_CERTIFICATE :: "string list" where
  "UNTRUSTED_CERTIFICATE =
     [''UNABLE_TO_VERIFY_LEAF_SIGNATURE'', ''UNABLE_TO_GET_ISSUER_CERT'', ''UNABLE_TO_GET_ISSUER_CERT_LOCALLY'',
      ''SELF_SIGNED_CERT_IN_CHAIN'', ''DEPTH_ZERO_SELF_SIGNED_CERT'', ''CERT_UNTRUSTED'', ''CERT_SIGNATURE_FAILURE'']"

definition explainError :: "ldap_exn \<Rightarrow> ldap_config \<Rightarrow> string" where
  "explainError e config =
     (let code = codeOf e; raw = describe e; where0 = lc_host config @ '':'' @ int_str (lc_port config);
          own = '' ('' @ raw @ '')'';
          is_code = (\<lambda>names. case code of StrCode s \<Rightarrow> s \<in> set names | _ \<Rightarrow> False)
      in if is_code [''ERR_TLS_CERT_ALTNAME_INVALID'']
         then ''The server's certificate is not valid for the name '' @ quoted (lc_host config) @ ''. Use the server's '' @
              ''name exactly as it appears on its certificate.'' @ own
         else if is_code [''CERT_HAS_EXPIRED''] then ''The server's certificate has expired.'' @ own
         else if is_code UNTRUSTED_CERTIFICATE
         then ''The server's certificate is not trusted: the CA that signed it is not one this '' @
              ''console trusts. Paste that CA under CA certificate (PEM).'' @ own
         else if is_code [''ECONNREFUSED'']
         then ''Nothing is accepting connections on '' @ where0 @ ''. Check the server name and port.'' @ own
         else if is_code [''ENOTFOUND'', ''EAI_AGAIN'']
         then ''The server name '' @ quoted (lc_host config) @ '' does not resolve.'' @ own
         else if is_code [''ETIMEDOUT''] \<or> mentions raw ''timeout''
         then ''No answer from '' @ where0 @ '' within '' @ int_str (lc_timeoutMs config) @ ''ms.'' @ own
         else if lc_protocol config = LDAPS \<and>
                 (is_code [''ECONNRESET'', ''EPROTO''] \<or> mentions raw ''wrong version number'' \<or> mentions raw ''packet length'')
         then ''The TLS handshake with '' @ where0 @ '' failed. If this server expects STARTTLS on this port '' @
              ''rather than LDAPS, choose STARTTLS.'' @ own
         else raw)"

definition explainStartTlsFailure :: "ldap_exn \<Rightarrow> ldap_config \<Rightarrow> string" where
  "explainStartTlsFailure e config =
     (let safe = ''No credentials were sent.''
      in case codeOf e of
           NumCode _ \<Rightarrow> ''The server refused STARTTLS: '' @ describe e @ ''. It may have no certificate configured '' @
             ''for STARTTLS, or expect LDAPS on port 636. '' @ safe
         | _ \<Rightarrow> ''STARTTLS failed: '' @ explainError e config @ '' '' @ safe)"

section \<open>The directory\<close>

record ldap_entry =
  en_dn :: string
  en_email :: "string option"
  en_displayName :: "string option"
  en_groupDns :: "string list"
  en_upn :: "string option"
  en_username :: "string option"
  en_directoryId :: "string option"

datatype own_lookup = OwnDn string | OwnFilter string

datatype direct_bind_result =
    NotBound
  | BoundAs "ldap_entry option" "string list option" "string option"

datatype reader = AsAnonymous | AsServiceAccount

record dialect_detection =
  de_dialect :: "ldap_dialect option"
  de_readAs :: "reader option"

record ldap_directory =
  ld_config :: ldap_config
  ld_ca :: "string option"

text \<open>The constructor; \<open>readFile\<close> is the file system.\<close>

definition make_directory :: "(string \<Rightarrow> client_error + string) \<Rightarrow> ldap_config \<Rightarrow> ldap_exn + ldap_directory" where
  "make_directory readFile config =
     (case lc_caPem config of
        Some pem \<Rightarrow> Inr \<lparr> ld_config = config, ld_ca = Some pem \<rparr>
      | None \<Rightarrow>
          (case lc_caPath config of
             None \<Rightarrow> Inr \<lparr> ld_config = config, ld_ca = None \<rparr>
           | Some path \<Rightarrow>
               (case readFile path of
                  Inl e \<Rightarrow> Inl (Unavailable (''Could not read the LDAP CA bundle at '' @ path @ '': '' @ describe (Raised e)) None)
                | Inr ca \<Rightarrow> Inr \<lparr> ld_config = config, ld_ca = Some ca \<rparr>)))"

text \<open>What the client stands on: \<open>net.isIP\<close>, and the server.\<close>

record ldap_net =
  ne_isIP :: "string \<Rightarrow> bool"
  ne_server :: ldap_server

definition tlsOptions :: "ldap_net \<Rightarrow> ldap_directory \<Rightarrow> tls_options" where
  "tlsOptions net d =
     (let host = lc_host (ld_config d)
      in \<lparr> tl_rejectUnauthorized = lc_tlsRejectUnauthorized (ld_config d), tl_ca = ld_ca d, tl_host = host,
           tl_servername = (if ne_isIP net host then None else Some host) \<rparr>)"

definition open_client :: "ldap_net \<Rightarrow> ldap_directory \<Rightarrow> unit run" where
  "open_client net d =
     (let config = ld_config d; url = lc_url config; options = tlsOptions net d
      in case lc_protocol config of
           LDAPS \<Rightarrow> (\<lambda>w. (Inr (), client_for url (Some options) False w))
         | LDAP \<Rightarrow> (\<lambda>w. (Inr (), client_for url None False w))
         | STARTTLS \<Rightarrow> (\<lambda>w.
             catching (client_startTLS (ne_server net) options)
               (\<lambda>e w. (Inl (Unavailable (explainStartTlsFailure e config) None), client_unbind w))
               (client_for url None True w)))"

definition ANONYMOUS_REFUSED :: string where
  "ANONYMOUS_REFUSED = ''This directory does not allow anonymous searches. Use Regular with a service account '' @
     ''(User DN and Password).''"

definition BASE_HIDDEN :: string where
  "BASE_HIDDEN = ''The search base was not found -- or this directory hides it from anonymous readers. '' @
     ''Check Search base, or use Regular with a service account (User DN and Password).''"

definition AMBIGUOUS_SIGN_IN_NAME :: string where
  "AMBIGUOUS_SIGN_IN_NAME = ''More than one directory entry carries this sign-in name; refusing to guess which.''"

definition translated :: "ldap_config \<Rightarrow> string \<Rightarrow> ldap_exn \<Rightarrow> ldap_exn" where
  "translated config failure e =
     (case e of
        Unavailable _ _ \<Rightarrow> e
      | Raised _ \<Rightarrow>
          (let raw = failure @ '': '' @ describe e
           in if lc_bindType config = ANONYMOUS \<and> isAnonymousRefusal e then Unavailable ANONYMOUS_REFUSED (Some raw)
              else if lc_bindType config = ANONYMOUS \<and> codeOf e = NumCode NO_SUCH_OBJECT_CODE then Unavailable BASE_HIDDEN (Some raw)
              else Unavailable (failure @ '': '' @ explainError e config) None))"

text \<open>\<open>finally\<close>: the client is closed whatever came of it. When \<open>open\<close> fails there is no client to close here.\<close>

definition session :: "ldap_net \<Rightarrow> ldap_directory \<Rightarrow> string \<Rightarrow> 'a run \<Rightarrow> 'a run" where
  "session net d failure run0 = (\<lambda>w.
     case open_client net d w of
       (Inl e, w) \<Rightarrow> (Inl (translated (ld_config d) failure e), w)
     | (Inr _, w) \<Rightarrow>
         (case run0 w of (r, w) \<Rightarrow>
            ((case r of Inl e \<Rightarrow> Inl (translated (ld_config d) failure e) | Inr x \<Rightarrow> Inr x), client_unbind w)))"

definition bindServiceAccount :: "ldap_net \<Rightarrow> ldap_directory \<Rightarrow> unit run" where
  "bindServiceAccount net d =
     (let config = ld_config d
      in if lc_bindType config \<noteq> REGULAR then return ()
         else case (lc_bindDn config, lc_bindPassword config) of
                (Some bindDn, Some bindPassword) \<Rightarrow>
                  if bindPassword = [] then throw (Unavailable ''Regular bind is configured without a User DN and password.'' None)
                  else catching (client_bind (ne_server net) bindDn bindPassword)
                         (\<lambda>e. if isInvalidCredentials e
                               then throw (Unavailable (''The directory refused the User DN and password ('' @ bindDn @ ''): '' @ describe e) None)
                               else throw e)
              | _ \<Rightarrow> throw (Unavailable ''Regular bind is configured without a User DN and password.'' None))"

text \<open>The attribute of an entry, and its reading; the client library returns the \<open>dn\<close> as text.\<close>

definition entry_value :: "raw_entry \<Rightarrow> string \<Rightarrow> attr_value" where
  "entry_value entry name = with_default (map_of entry name) Missing"

fun single :: "attr_value \<Rightarrow> string option" where
  "single (Text s) = Some s"
| "single (Several (Text s # _)) = Some s"
| "single _ = None"

fun multiple :: "attr_value \<Rightarrow> string list" where
  "multiple (Text s) = [s]"
| "multiple (Several vs) = concat (map (\<lambda>v. case v of Text s \<Rightarrow> [s] | _ \<Rightarrow> []) vs)"
| "multiple _ = []"

fun text_or_empty :: "attr_value \<Rightarrow> string" where
  "text_or_empty (Text s) = s"
| "text_or_empty _ = []"

definition toEntry :: "ldap_directory \<Rightarrow> raw_entry \<Rightarrow> ldap_entry" where
  "toEntry d entry =
     (let attributes = lc_attributes (ld_config d); at0 = entry_value entry
      in \<lparr> en_dn = text_or_empty (at0 ''dn''), en_email = single (at0 (at_email attributes)),
           en_displayName = single (at0 (at_displayName attributes)), en_groupDns = multiple (at0 (at_memberOf attributes)),
           en_upn = (case at_upn attributes of None \<Rightarrow> None | Some upn \<Rightarrow> single (at0 upn)),
           en_username = single (at0 (at_username attributes)),
           en_directoryId = directoryIdFrom (at0 (at_directoryId attributes)) (lc_directoryIdIsBinary (ld_config d)) \<rparr>)"

definition entryAttributes :: "ldap_directory \<Rightarrow> string list" where
  "entryAttributes d =
     (let attributes = lc_attributes (ld_config d)
      in [at_email attributes, at_displayName attributes, at_memberOf attributes] @
         (case at_upn attributes of None \<Rightarrow> [] | Some upn \<Rightarrow> [upn]) @ [at_username attributes, at_directoryId attributes])"

definition bufferAttributes :: "ldap_directory \<Rightarrow> string list" where
  "bufferAttributes d = (if lc_directoryIdIsBinary (ld_config d) then [at_directoryId (lc_attributes (ld_config d))] else [])"

definition entry_search :: "ldap_directory \<Rightarrow> string \<Rightarrow> search_request" where
  "entry_search d f =
     \<lparr> sr_base = lc_searchBase (ld_config d), sr_filter = f, sr_scope = SubScope, sr_sizeLimit = Some 2,
       sr_attributes = entryAttributes d, sr_buffers = bufferAttributes d \<rparr>"

text \<open>More than one entry is refused; none is \<^const>\<open>None\<close>.\<close>

definition at_most_one :: "ldap_directory \<Rightarrow> raw_entry list \<Rightarrow> ldap_entry option run" where
  "at_most_one d entries =
     (if length entries > 1 then throw (Unavailable AMBIGUOUS_SIGN_IN_NAME None)
      else case entries of [] \<Rightarrow> return None | entry # _ \<Rightarrow> return (Some (toEntry d entry)))"

definition findEntry :: "ldap_net \<Rightarrow> ldap_directory \<Rightarrow> string \<Rightarrow> ldap_entry option run" where
  "findEntry net d f =
     session net d ''LDAP search failed''
       (andThen (bindServiceAccount net d) (\<lambda>_.
          andThen (catching (client_search (ne_server net) (entry_search d f))
                     (\<lambda>e. if codeOf e = NumCode SIZE_LIMIT_EXCEEDED_CODE then throw (Unavailable AMBIGUOUS_SIGN_IN_NAME None) else throw e))
            (at_most_one d)))"

definition group_dn :: "raw_entry \<Rightarrow> string" where
  "group_dn entry =
     (if entry_value entry ''dn'' \<noteq> Missing then text_or_empty (entry_value entry ''dn'')
      else text_or_empty (entry_value entry ''distinguishedName''))"

definition searchGroupsContaining :: "ldap_net \<Rightarrow> ldap_directory \<Rightarrow> string \<Rightarrow> string list run" where
  "searchGroupsContaining net d userDn =
     andThen (client_search (ne_server net)
       \<lparr> sr_base = lc_groupSearchBase (ld_config d), sr_filter = nestedGroupFilter userDn escapeFilterValue, sr_scope = SubScope,
         sr_sizeLimit = None, sr_attributes = [''distinguishedName''], sr_buffers = [] \<rparr>)
       (\<lambda>entries. return (filter (\<lambda>dn. dn \<noteq> []) (map group_dn entries)))"

definition findGroupsContaining :: "ldap_net \<Rightarrow> ldap_directory \<Rightarrow> string \<Rightarrow> string list run" where
  "findGroupsContaining net d userDn =
     session net d ''LDAP nested group search failed''
       (andThen (bindServiceAccount net d) (\<lambda>_. searchGroupsContaining net d userDn))"

definition verifyCredentials :: "ldap_net \<Rightarrow> ldap_directory \<Rightarrow> string \<Rightarrow> string \<Rightarrow> bool run" where
  "verifyCredentials net d dn password =
     (if password = [] then return False
      else session net d ''LDAP bind failed''
        (catching (andThen (client_bind (ne_server net) dn password) (\<lambda>_. return True))
           (\<lambda>e. if isInvalidCredentials e then return False else throw e)))"

definition readOwnEntry :: "ldap_net \<Rightarrow> ldap_directory \<Rightarrow> own_lookup \<Rightarrow> ldap_entry option run" where
  "readOwnEntry net d lookup =
     catching
       (andThen (client_search (ne_server net)
            (case lookup of
               OwnDn dn \<Rightarrow> \<lparr> sr_base = dn, sr_filter = ''(objectClass=*)'', sr_scope = BaseScope, sr_sizeLimit = None,
                            sr_attributes = entryAttributes d, sr_buffers = bufferAttributes d \<rparr>
             | OwnFilter f \<Rightarrow> entry_search d f))
          (at_most_one d))
       (\<lambda>e. if codeOf e = NumCode NO_SUCH_OBJECT_CODE then return None
            else if codeOf e = NumCode SIZE_LIMIT_EXCEEDED_CODE then throw (Unavailable AMBIGUOUS_SIGN_IN_NAME None)
            else throw e)"

definition bindAndRead ::
  "ldap_net \<Rightarrow> ldap_directory \<Rightarrow> string \<Rightarrow> string \<Rightarrow> own_lookup \<Rightarrow> bool \<Rightarrow> direct_bind_result run" where
  "bindAndRead net d identity password lookup nestedGroups =
     (if password = [] then return NotBound
      else session net d ''LDAP bind failed''
        (andThen (catching (andThen (client_bind (ne_server net) identity password) (\<lambda>_. return True))
                    (\<lambda>e. if isInvalidCredentials e then return False else throw e))
          (\<lambda>bound. if \<not> bound then return NotBound
             else andThen (readOwnEntry net d lookup) (\<lambda>entry.
               case entry of
                 None \<Rightarrow> return (BoundAs None None None)
               | Some e \<Rightarrow>
                   if \<not> nestedGroups then return (BoundAs entry None None)
                   else catching (andThen (searchGroupsContaining net d (en_dn e)) (\<lambda>groups. return (BoundAs entry (Some groups) None)))
                          (\<lambda>e. return (BoundAs entry None (Some (explainError e (ld_config d)))))))))"

definition ROOT_DSE_ATTRIBUTES :: "string list" where
  "ROOT_DSE_ATTRIBUTES = [''supportedCapabilities'', ''supportedLDAPVersion'', ''namingContexts'', ''defaultNamingContext'',
     ''vendorName'', ''vendorVersion'']"

definition readRootDse :: "ldap_net \<Rightarrow> ldap_dialect option run" where
  "readRootDse net =
     catching
       (andThen (client_search (ne_server net)
            \<lparr> sr_base = [], sr_filter = ''(objectClass=*)'', sr_scope = BaseScope, sr_sizeLimit = None,
              sr_attributes = ROOT_DSE_ATTRIBUTES, sr_buffers = [] \<rparr>)
          (\<lambda>entries. case entries of [] \<Rightarrow> return None
             | entry # _ \<Rightarrow> return (dialectFromRootDse (map (\<lambda>(name, value). (name, multiple value)) (filter (\<lambda>(name, _). name \<noteq> ''dn'') entry)))))
       (\<lambda>e. case codeOf e of NumCode _ \<Rightarrow> return None | _ \<Rightarrow> throw e)"

definition detectDialect :: "ldap_net \<Rightarrow> ldap_directory \<Rightarrow> dialect_detection run" where
  "detectDialect net d =
     session net d ''LDAP RootDSE read failed''
       (andThen (readRootDse net) (\<lambda>anonymous.
          if anonymous \<noteq> None then return \<lparr> de_dialect = anonymous, de_readAs = Some AsAnonymous \<rparr>
          else if lc_bindType (ld_config d) = REGULAR
          then andThen (bindServiceAccount net d) (\<lambda>_. andThen (readRootDse net) (\<lambda>bound.
                 if bound \<noteq> None then return \<lparr> de_dialect = bound, de_readAs = Some AsServiceAccount \<rparr>
                 else return \<lparr> de_dialect = None, de_readAs = None \<rparr>))
          else return \<lparr> de_dialect = None, de_readAs = None \<rparr>))"

section \<open>Running\<close>

text \<open>\<open>P\<close> before a run, \<open>P\<close> after it, whether it returns or throws.\<close>

definition keeps :: "('s \<Rightarrow> bool) \<Rightarrow> ('s, 'a) action \<Rightarrow> bool" where
  "keeps P m \<longleftrightarrow> (\<forall>w. P w \<longrightarrow> P (snd (m w)))"

lemma keepsD: "keeps P m \<Longrightarrow> m w = (r, w') \<Longrightarrow> P w \<Longrightarrow> P w'"
  unfolding keeps_def by (metis snd_conv)

named_theorems keeping

lemma keeps_return [keeping]: "keeps P (return x)" and keeps_throw [keeping]: "keeps P (throw e)"
  by (simp_all add: keeps_def return_def throw_def)

lemma keeps_andThen [keeping]: "keeps P m \<Longrightarrow> (\<And>x. keeps P (f x)) \<Longrightarrow> keeps P (andThen m f)"
  by (auto simp: keeps_def andThen_def split: prod.splits sum.splits)

lemma keeps_catching [keeping]: "keeps P m \<Longrightarrow> (\<And>e. keeps P (h e)) \<Longrightarrow> keeps P (catching m h)"
  by (auto simp: keeps_def catching_def split: prod.splits sum.splits)

lemma keeps_if [keeping]: "(b \<Longrightarrow> keeps P m) \<Longrightarrow> (\<not> b \<Longrightarrow> keeps P n) \<Longrightarrow> keeps P (if b then m else n)"
  by simp

lemma keeps_at_most_one [keeping]: "keeps P (at_most_one d entries)"
  by (auto simp: at_most_one_def keeping split: list.split)

text \<open>
  What every request keeps, the operations keep: \<open>P\<close> is kept by a search, by a bind that is \<open>allowed\<close>, and the service account
  is allowed.
\<close>

locale wire_policy =
  fixes P :: "wire \<Rightarrow> bool" and net :: ldap_net and d :: ldap_directory and allowed :: "string \<Rightarrow> string \<Rightarrow> bool"
  assumes search_kept: "keeps P (client_search (ne_server net) q)"
    and bind_kept: "allowed dn pw \<Longrightarrow> keeps P (client_bind (ne_server net) dn pw)"
    and service_allowed: "lc_bindType (ld_config d) = REGULAR \<Longrightarrow> lc_bindDn (ld_config d) = Some dn \<Longrightarrow>
      lc_bindPassword (ld_config d) = Some pw \<Longrightarrow> pw \<noteq> [] \<Longrightarrow> allowed dn pw"
begin

lemma service_account_kept: "keeps P (bindServiceAccount net d)"
  unfolding bindServiceAccount_def Let_def
  by (auto split: option.split intro!: keeping bind_kept service_allowed)

lemma groups_kept: "keeps P (searchGroupsContaining net d userDn)"
  unfolding searchGroupsContaining_def by (intro keeping search_kept)

lemma own_entry_kept: "keeps P (readOwnEntry net d lookup)"
  unfolding readOwnEntry_def by (intro keeping search_kept)

lemma root_dse_kept: "keeps P (readRootDse net)"
  unfolding readRootDse_def by (auto intro!: keeping search_kept split: list.split error_code.split)

lemma find_kept:
  "keeps P (andThen (bindServiceAccount net d) (\<lambda>_. andThen (catching (client_search (ne_server net) (entry_search d f))
       (\<lambda>e. if codeOf e = NumCode SIZE_LIMIT_EXCEEDED_CODE then throw (Unavailable AMBIGUOUS_SIGN_IN_NAME None) else throw e))
     (at_most_one d)))"
  by (intro keeping search_kept service_account_kept)

lemma verify_kept: "allowed dn pw \<Longrightarrow> keeps P (catching (andThen (client_bind (ne_server net) dn pw) (\<lambda>_. return True))
     (\<lambda>e. if isInvalidCredentials e then return False else throw e))"
  by (intro keeping bind_kept)

lemma read_kept:
  "keeps P (andThen (readOwnEntry net d lookup) (\<lambda>entry. case entry of None \<Rightarrow> return (BoundAs None None None)
     | Some e \<Rightarrow> if \<not> nested then return (BoundAs entry None None)
         else catching (andThen (searchGroupsContaining net d (en_dn e)) (\<lambda>groups. return (BoundAs entry (Some groups) None)))
                (\<lambda>e. return (BoundAs entry None (Some (explainError e (ld_config d)))))))"
  by (rule keeps_andThen [OF own_entry_kept]) (auto split: option.split intro!: keeping groups_kept)

end

text \<open>Whatever the provider asks of the directory.\<close>

datatype ldap_operation =
    FindEntry string
  | VerifyCredentials string string
  | FindGroupsContaining string
  | BindAndRead string string own_lookup bool
  | DetectDialect

fun ldap_perform :: "ldap_net \<Rightarrow> ldap_directory \<Rightarrow> wire \<Rightarrow> ldap_operation \<Rightarrow> wire" where
  "ldap_perform net d w (FindEntry f) = snd (findEntry net d f w)"
| "ldap_perform net d w (VerifyCredentials dn pw) = snd (verifyCredentials net d dn pw w)"
| "ldap_perform net d w (FindGroupsContaining dn) = snd (findGroupsContaining net d dn w)"
| "ldap_perform net d w (BindAndRead identity pw lookup nested) = snd (bindAndRead net d identity pw lookup nested w)"
| "ldap_perform net d w DetectDialect = snd (detectDialect net d w)"

fun credentials_given :: "ldap_operation \<Rightarrow> (string \<times> string) list" where
  "credentials_given (VerifyCredentials dn pw) = [(dn, pw)]"
| "credentials_given (BindAndRead identity pw lookup nested) = [(identity, pw)]"
| "credentials_given _ = []"

text \<open>And what each request keeps between the opening of a client and its closing keeps \<open>Q\<close> over whole sessions.\<close>

locale session_policy = wire_policy P net d allowed
  for P :: "wire \<Rightarrow> bool" and net :: ldap_net and d :: ldap_directory and allowed :: "string \<Rightarrow> string \<Rightarrow> bool" +
  fixes Q :: "wire \<Rightarrow> bool"
  assumes opened: "Q w \<Longrightarrow> open_client net d w = (Inr u, w') \<Longrightarrow> P w'"
    and refused: "Q w \<Longrightarrow> open_client net d w = (Inl e, w') \<Longrightarrow> Q w'"
    and closed_kept: "P w \<Longrightarrow> Q (client_unbind w)"
begin

lemma session_kept:
  assumes "keeps P m"
  shows "keeps Q (session net d failure m)"
  unfolding keeps_def
proof (intro allI impI)
  fix w assume "Q w"
  obtain r0 w0 where e: "open_client net d w = (r0, w0)" by (cases "open_client net d w") blast
  show "Q (snd (session net d failure m w))"
  proof (cases r0)
    case (Inl x)
    then show ?thesis using e refused \<open>Q w\<close> by (simp add: session_def)
  next
    case (Inr u)
    then have "P (snd (m w0))" using e opened \<open>Q w\<close> assms unfolding keeps_def by blast
    then have "Q (client_unbind (snd (m w0)))" by (rule closed_kept)
    then show ?thesis using e Inr by (simp add: session_def case_prod_unfold)
  qed
qed

lemma find_session: "keeps Q (findEntry net d f)"
  unfolding findEntry_def by (rule session_kept [OF find_kept])

lemma groups_session: "keeps Q (findGroupsContaining net d dn)"
  unfolding findGroupsContaining_def by (intro session_kept keeps_andThen service_account_kept groups_kept)

lemma verify_session: "(pw \<noteq> [] \<Longrightarrow> allowed dn pw) \<Longrightarrow> keeps Q (verifyCredentials net d dn pw)"
  unfolding verifyCredentials_def by (intro keeps_if keeps_return session_kept verify_kept)

lemma read_session: "(pw \<noteq> [] \<Longrightarrow> allowed identity pw) \<Longrightarrow> keeps Q (bindAndRead net d identity pw lookup nested)"
  unfolding bindAndRead_def by (intro keeps_if keeps_return session_kept keeps_andThen verify_kept read_kept)

lemma detect_session: "keeps Q (detectDialect net d)"
  unfolding detectDialect_def by (intro session_kept keeping root_dse_kept service_account_kept)

lemma performed:
  assumes "list_all (\<lambda>(dn, pw). pw \<noteq> [] \<longrightarrow> allowed dn pw) (credentials_given op)" "Q w"
  shows "Q (ldap_perform net d w op)"
  using assms keepsD [OF find_session] keepsD [OF groups_session] keepsD [OF verify_session] keepsD [OF read_session]
    keepsD [OF detect_session]
  by (cases op) (auto simp: prod_eq_iff intro: prod.collapse [symmetric])

lemma all_performed:
  "list_all (\<lambda>op. list_all (\<lambda>(dn, pw). pw \<noteq> [] \<longrightarrow> allowed dn pw) (credentials_given op)) ops \<Longrightarrow> Q w
    \<Longrightarrow> Q (foldl (ldap_perform net d) w ops)"
  by (induction ops arbitrary: w) (simp_all add: performed)

end

section \<open>In TLS\<close>

fun in_tls_after :: "bool \<Rightarrow> event \<Rightarrow> bool" where
  "in_tls_after b (Connected url tls) = (tls \<noteq> None)"
| "in_tls_after b (Upgraded options ok) = (b \<or> ok)"
| "in_tls_after b Closed = False"
| "in_tls_after b _ = b"

definition in_tls :: "trace \<Rightarrow> bool" where
  "in_tls tr = foldl in_tls_after False tr"

fun is_request :: "event \<Rightarrow> bool" where
  "is_request (Bound dn pw ok) = True"
| "is_request (Searched q) = True"
| "is_request _ = False"

text \<open>Every bind and every search went over a connection that was in TLS then.\<close>

fun requests_in_tls :: "bool \<Rightarrow> trace \<Rightarrow> bool" where
  "requests_in_tls b [] = True"
| "requests_in_tls b (e # tr) = ((is_request e \<longrightarrow> b) \<and> requests_in_tls (in_tls_after b e) tr)"

lemma requests_in_tls_snoc:
  "requests_in_tls b (tr @ [e]) \<longleftrightarrow> requests_in_tls b tr \<and> (is_request e \<longrightarrow> foldl in_tls_after b tr)"
  by (induction tr arbitrary: b) auto

lemma in_tls_snoc [simp]: "in_tls (tr @ [e]) = in_tls_after (in_tls tr) e"
  by (simp add: in_tls_def)

text \<open>The binds sent, with their passwords.\<close>

fun binds :: "trace \<Rightarrow> (string \<times> string) list" where
  "binds [] = []"
| "binds (Bound dn pw ok # tr) = (dn, pw) # binds tr"
| "binds (_ # tr) = binds tr"

lemma binds_append [simp]: "binds (a @ b) = binds a @ binds b"
  by (induction a rule: binds.induct) auto

definition wire_ok :: "(string \<Rightarrow> string \<Rightarrow> bool) \<Rightarrow> bool \<Rightarrow> wire \<Rightarrow> bool" where
  "wire_ok allowed tls w \<longleftrightarrow>
     list_all (\<lambda>(dn, pw). allowed dn pw) (binds (wi_trace w)) \<and> (tls \<longrightarrow> requests_in_tls False (wi_trace w))"

text \<open>Between the operations of one session: a socket that is open is in TLS, and one that would not be is never opened.\<close>

definition session_ok :: "(string \<Rightarrow> string \<Rightarrow> bool) \<Rightarrow> bool \<Rightarrow> wire \<Rightarrow> bool" where
  "session_ok allowed tls w \<longleftrightarrow>
     wire_ok allowed tls w \<and>
     (tls \<longrightarrow> (cl_connected (wi_client w) \<longrightarrow> in_tls (wi_trace w)) \<and>
        (cl_tls (wi_client w) \<noteq> None \<or> cl_onlyOnce (wi_client w) \<and> cl_connections (wi_client w) \<ge> 1))"

lemma ensure_connected_ok:
  assumes "session_ok allowed tls w" "ensure_connected sv w = (r, w')"
  shows "session_ok allowed tls w' \<and> (r = Inr () \<longrightarrow> cl_connected (wi_client w'))"
  using assms
  by (auto simp: ensure_connected_def session_ok_def wire_ok_def Let_def happened_def requests_in_tls_snoc in_tls_def [symmetric]
      split: if_splits option.splits)

lemma request_ok:
  assumes "session_ok allowed tls w" "cl_connected (wi_client w)" "\<And>dn pw ok. e = Bound dn pw ok \<Longrightarrow> allowed dn pw" "is_request e"
  shows "session_ok allowed tls (happened e w)"
  using assms
  by (cases e) (auto simp: session_ok_def wire_ok_def happened_def requests_in_tls_snoc in_tls_def [symmetric])

lemma search_kept: "keeps (session_ok allowed tls) (client_search sv q)"
  unfolding keeps_def
proof (intro allI impI)
  fix w assume w: "session_ok allowed tls w"
  obtain r w' where e: "ensure_connected sv w = (r, w')" by (cases "ensure_connected sv w") blast
  note ok = ensure_connected_ok [OF w e]
  show "session_ok allowed tls (snd (client_search sv q w))"
  proof (cases r)
    case (Inr u)
    then have "session_ok allowed tls (happened (Searched q) w')" using ok by (intro request_ok) simp_all
    then show ?thesis using Inr e by (simp add: client_search_def andThen_def split: sum.split)
  qed (use ok e in \<open>simp add: client_search_def andThen_def\<close>)
qed

lemma bind_kept: "allowed dn pw \<Longrightarrow> keeps (session_ok allowed tls) (client_bind sv dn pw)"
  unfolding keeps_def
proof (intro allI impI)
  fix w assume allowed: "allowed dn pw" and w: "session_ok allowed tls w"
  obtain r w' where e: "ensure_connected sv w = (r, w')" by (cases "ensure_connected sv w") blast
  note ok = ensure_connected_ok [OF w e]
  show "session_ok allowed tls (snd (client_bind sv dn pw w))"
  proof (cases r)
    case (Inr u)
    have "session_ok allowed tls (happened (Bound dn pw b) w')" for b using ok Inr allowed by (intro request_ok) simp_all
    then show ?thesis using Inr e
      by (simp add: client_bind_def andThen_def raised_def return_def throw_def Let_def split: option.split)
  qed (use ok e in \<open>simp add: client_bind_def andThen_def\<close>)
qed

lemma unbind_ok: "wire_ok allowed tls w \<Longrightarrow> wire_ok allowed tls (client_unbind w)"
  by (simp add: client_unbind_def wire_ok_def happened_def requests_in_tls_snoc)

lemma client_for_ok: "wire_ok allowed tls w \<Longrightarrow> wire_ok allowed tls (client_for url t once w)"
  by (simp add: client_for_def wire_ok_def)

lemma upgrade_ok:
  assumes "wire_ok allowed tls w" "cl_connected (wi_client w)" "cl_onlyOnce (wi_client w)" "cl_connections (wi_client w) \<ge> 1"
  shows "session_ok allowed tls (happened (Upgraded options True) w)" "wire_ok allowed tls (happened (Upgraded options b) w)"
  using assms by (simp_all add: session_ok_def wire_ok_def happened_def requests_in_tls_snoc)

lemma first_connection:
  assumes "wire_ok allowed tls w" "ensure_connected sv (client_for url None True w) = (r, w')"
  shows "wire_ok allowed tls w' \<and> (r = Inr () \<longrightarrow> cl_connected (wi_client w') \<and> cl_onlyOnce (wi_client w') \<and> cl_connections (wi_client w') \<ge> 1)"
  using assms
  by (auto simp: ensure_connected_def client_for_def Let_def happened_def wire_ok_def requests_in_tls_snoc split: option.splits)

lemma open_ok:
  assumes "wire_ok allowed tls w" "tls \<Longrightarrow> lc_protocol (ld_config d) \<noteq> LDAP" "open_client net d w = (r, w')"
  shows "wire_ok allowed tls w' \<and> (r = Inr () \<longrightarrow> session_ok allowed tls w')"
proof (cases "lc_protocol (ld_config d)")
  case STARTTLS
  let ?w = "client_for (lc_url (ld_config d)) None True w"
  obtain r0 w0 where e: "ensure_connected (ne_server net) ?w = (r0, w0)" by (cases "ensure_connected (ne_server net) ?w") blast
  note first = first_connection [OF assms(1) e]
  show ?thesis
  proof (cases r0)
    case (Inl x)
    then show ?thesis using assms(3) STARTTLS e first
      by (auto simp: open_client_def Let_def catching_def client_startTLS_def andThen_def unbind_ok)
  next
    case (Inr u)
    let ?b = "sv_startTLS (ne_server net) (wi_trace w0)"
    have ups: "wire_ok allowed tls (happened (Upgraded (tlsOptions net d) b) w0)" "session_ok allowed tls (happened (Upgraded (tlsOptions net d) True) w0)" for b
      using first Inr by (simp_all add: upgrade_ok)
    then show ?thesis using assms(3) STARTTLS e Inr
      by (cases ?b) (auto simp: open_client_def Let_def catching_def client_startTLS_def andThen_def raised_def return_def throw_def unbind_ok)
  qed
qed (use assms in \<open>auto simp: open_client_def Let_def client_for_ok session_ok_def client_for_def wire_ok_def\<close>)

definition service_account :: "ldap_config \<Rightarrow> string \<Rightarrow> string \<Rightarrow> bool" where
  "service_account c dn pw \<longleftrightarrow> lc_bindType c = REGULAR \<and> lc_bindDn c = Some dn \<and> lc_bindPassword c = Some pw"

text \<open>A bind as the service account, or with credentials that were given; never with an empty password.\<close>

definition may_bind :: "ldap_config \<Rightarrow> (string \<times> string) set \<Rightarrow> string \<Rightarrow> string \<Rightarrow> bool" where
  "may_bind c given dn pw \<longleftrightarrow> pw \<noteq> [] \<and> (service_account c dn pw \<or> (dn, pw) \<in> given)"

interpretation tls_policy:
  session_policy "session_ok (may_bind (ld_config d) given) (lc_protocol (ld_config d) \<noteq> LDAP)" net d "may_bind (ld_config d) given"
    "wire_ok (may_bind (ld_config d) given) (lc_protocol (ld_config d) \<noteq> LDAP)" for given net d
proof unfold_locales
  show "keeps (session_ok (may_bind (ld_config d) given) (lc_protocol (ld_config d) \<noteq> LDAP)) (client_search (ne_server net) q)" for q
    by (rule search_kept)
  show "may_bind (ld_config d) given dn pw \<Longrightarrow>
      keeps (session_ok (may_bind (ld_config d) given) (lc_protocol (ld_config d) \<noteq> LDAP)) (client_bind (ne_server net) dn pw)" for dn pw
    by (rule bind_kept)
  fix w w' e
  let ?W = "wire_ok (may_bind (ld_config d) given) (lc_protocol (ld_config d) \<noteq> LDAP)"
  show "?W w \<Longrightarrow> open_client net d w = (Inr u, w') \<Longrightarrow>
      session_ok (may_bind (ld_config d) given) (lc_protocol (ld_config d) \<noteq> LDAP) w'" for u
    using open_ok by simp
  show "?W w \<Longrightarrow> open_client net d w = (Inl e, w') \<Longrightarrow> ?W w'" using open_ok by simp
  show "session_ok (may_bind (ld_config d) given) (lc_protocol (ld_config d) \<noteq> LDAP) w \<Longrightarrow> ?W (client_unbind w)"
    by (simp add: session_ok_def unbind_ok)
qed (simp add: may_bind_def service_account_def)

section \<open>In clear\<close>

text \<open>A wire on which nothing is encrypted.\<close>

definition plain_trace :: "trace \<Rightarrow> bool" where
  "plain_trace tr \<longleftrightarrow> list_all (\<lambda>e. case e of Connected _ tls \<Rightarrow> tls = None | Upgraded _ _ \<Rightarrow> False | _ \<Rightarrow> True) tr"

lemma plain_not_tls: "plain_trace tr \<Longrightarrow> \<not> in_tls tr"
proof (induction tr rule: rev_induct)
  case (snoc e tr)
  then show ?case by (cases e) (simp_all add: plain_trace_def)
qed (simp add: in_tls_def)

definition plain :: "wire \<Rightarrow> bool" where
  "plain w \<longleftrightarrow> plain_trace (wi_trace w) \<and> cl_tls (wi_client w) = None"

lemma plain_connect: "keeps plain (ensure_connected sv)"
  by (auto simp: keeps_def ensure_connected_def Let_def plain_def plain_trace_def happened_def split: option.split)

lemma plain_search: "keeps plain (client_search sv q)"
  unfolding client_search_def
  by (rule keeps_andThen [OF plain_connect]) (auto simp: keeps_def plain_def plain_trace_def happened_def split: sum.split)

lemma plain_bind: "keeps plain (client_bind sv dn pw)"
  unfolding client_bind_def
  by (rule keeps_andThen [OF plain_connect])
    (auto simp: keeps_def raised_def return_def throw_def Let_def plain_def plain_trace_def happened_def split: option.split)

lemma plain_open: "open_client net d w = (r, w') \<Longrightarrow> lc_protocol (ld_config d) = LDAP \<Longrightarrow>
    w' = client_for (lc_url (ld_config d)) None False w \<and> r = Inr ()"
  by (simp add: open_client_def Let_def)

lemma plain_unbind: "plain w \<Longrightarrow> plain_trace (wi_trace (client_unbind w))"
  by (simp add: plain_def client_unbind_def happened_def plain_trace_def)

interpretation clear_policy:
  session_policy "\<lambda>w. lc_protocol (ld_config d) = LDAP \<longrightarrow> plain w" net d "\<lambda>dn pw. True"
    "\<lambda>w. lc_protocol (ld_config d) = LDAP \<longrightarrow> plain_trace (wi_trace w)" for net d
proof unfold_locales
  show "keeps (\<lambda>w. lc_protocol (ld_config d) = LDAP \<longrightarrow> plain w) (client_search (ne_server net) q)" for q
    using plain_search by (simp add: keeps_def)
  show "keeps (\<lambda>w. lc_protocol (ld_config d) = LDAP \<longrightarrow> plain w) (client_bind (ne_server net) dn pw)" for dn pw
    using plain_bind by (simp add: keeps_def)
qed (auto simp: plain_unbind plain_def client_for_def dest: plain_open)

lemma requests_split:
  "requests_in_tls b (before @ e # after) \<Longrightarrow> is_request e \<Longrightarrow> foldl in_tls_after b before"
  by (induction before arbitrary: b) auto

lemma binds_in: "Bound dn pw ok \<in> set tr \<Longrightarrow> (dn, pw) \<in> set (binds tr)"
  by (induction tr rule: binds.induct) auto

text \<open>
  C6. Whatever the server answers, and wherever it drops the connection, and whatever the provider asks, one operation
  after the other: a bind or a search is sent over a connection that is in TLS at that moment, from its first byte or after a
  completed upgrade, exactly when the directory is not configured for unencrypted LDAP; with that protocol, which the
  settings allow, it goes out in clear, passwords included. And every bind sent has a password, and is either the
  service account of a Regular bind or one of the identities and passwords the provider handed in.
\<close>

theorem sent_in_tls_unless_plain_ldap:
  assumes "wi_trace w = []" "wi_trace (foldl (ldap_perform net d) w ops) = before @ e # after" "is_request e"
  shows "(in_tls before \<longleftrightarrow> lc_protocol (ld_config d) \<noteq> LDAP)
    \<and> (case e of Bound dn pw ok \<Rightarrow> pw \<noteq> [] \<and>
          (service_account (ld_config d) dn pw \<or> (dn, pw) \<in> set (concat (map credentials_given ops)))
        | _ \<Rightarrow> True)"
proof -
  let ?given = "set (concat (map credentials_given ops))" and ?tls = "lc_protocol (ld_config d) \<noteq> LDAP"
  have "wire_ok (may_bind (ld_config d) ?given) ?tls (foldl (ldap_perform net d) w ops)"
    by (rule tls_policy.all_performed) (use assms(1) in \<open>auto simp: wire_ok_def list_all_iff may_bind_def\<close>)
  then have ok: "list_all (\<lambda>(dn, pw). may_bind (ld_config d) ?given dn pw) (binds (before @ e # after))"
    "?tls \<longrightarrow> requests_in_tls False (before @ e # after)"
    unfolding wire_ok_def assms(2) by blast+
  have "?tls \<longrightarrow> in_tls before" unfolding in_tls_def using ok(2) requests_split assms(3) by blast
  moreover have "\<not> ?tls \<longrightarrow> plain_trace (wi_trace (foldl (ldap_perform net d) w ops))"
    using clear_policy.all_performed [of ops d w net] assms(1) by (simp add: plain_trace_def list_all_iff case_prod_unfold)
  then have "\<not> ?tls \<longrightarrow> \<not> in_tls before" unfolding assms(2) using plain_not_tls by (simp add: plain_trace_def)
  moreover have "may_bind (ld_config d) ?given dn pw" if "e = Bound dn pw b" for dn pw b
    using ok(1) binds_in [of dn pw b "before @ e # after"] that by (auto simp: list_all_iff)
  ultimately show ?thesis by (auto simp: may_bind_def split: event.split)
qed

definition demo_server :: ldap_server where
  "demo_server = \<lparr> sv_connect = \<lambda>_. None, sv_drops = \<lambda>_. False, sv_startTLS = \<lambda>_. None, sv_bind = \<lambda>_ dn pw.
     if pw = ''right'' then None else Some \<lparr> er_name = ''InvalidCredentialsError'', er_message = [], er_code = NumCode 49 \<rparr>,
     sv_search = \<lambda>_ q. Inr [] \<rparr>"

definition demo_net :: ldap_net where
  "demo_net = \<lparr> ne_isIP = \<lambda>_. False, ne_server = demo_server \<rparr>"

definition demo_directory :: ldap_directory where
  "demo_directory = \<lparr> ld_config = demo_ldap_config \<lparr> lc_protocol := STARTTLS \<rparr>, ld_ca = None \<rparr>"

definition no_wire :: wire where
  "no_wire = \<lparr> wi_trace = [], wi_client = \<lparr> cl_url = [], cl_tls = None, cl_onlyOnce = False, cl_connections = 0, cl_connected = False \<rparr> \<rparr>"

theorem sent_in_tls_unless_plain_ldap_witness:
  "\<exists>before after. wi_trace (foldl (ldap_perform demo_net demo_directory) no_wire [VerifyCredentials ''cn=a'' ''right'']) =
      before @ Bound ''cn=a'' ''right'' True # after \<and> in_tls before"
proof -
  let ?before = "[Connected (lc_url demo_ldap_config) None, Upgraded (tlsOptions demo_net demo_directory) True]"
  have trace: "wi_trace (foldl (ldap_perform demo_net demo_directory) no_wire [VerifyCredentials ''cn=a'' ''right'']) =
      ?before @ Bound ''cn=a'' ''right'' True # [Closed]"
    by (simp add: verifyCredentials_def session_def open_client_def demo_directory_def client_for_def catching_def
        client_startTLS_def andThen_def ensure_connected_def no_wire_def demo_net_def demo_server_def happened_def raised_def
        return_def client_bind_def client_unbind_def Let_def)
  have "in_tls ?before"
    using sent_in_tls_unless_plain_ldap [OF _ trace] by (simp add: no_wire_def demo_directory_def)
  with trace show ?thesis by blast
qed

section \<open>What an answer stands for\<close>

text \<open>
  Two moments of the wire, an earlier and a later one: between them the server answered this search with exactly
  these entries; between them it accepted this bind.
\<close>

definition answered :: "ldap_net \<Rightarrow> trace \<Rightarrow> trace \<Rightarrow> search_request \<Rightarrow> raw_entry list \<Rightarrow> bool" where
  "answered net t t' q entries \<longleftrightarrow>
     (\<exists>pre. prefix t pre \<and> prefix (pre @ [Searched q]) t' \<and> sv_search (ne_server net) pre q = Inr entries)"

definition bound_as :: "trace \<Rightarrow> trace \<Rightarrow> string \<Rightarrow> string \<Rightarrow> bool" where
  "bound_as t t' dn pw \<longleftrightarrow> (\<exists>pre. prefix t pre \<and> prefix (pre @ [Bound dn pw True]) t')"

lemma answered_within: "answered net t t' q entries \<Longrightarrow> prefix s t \<Longrightarrow> prefix t' s' \<Longrightarrow> answered net s s' q entries"
  unfolding answered_def by (meson prefix_order.trans)

lemma bound_within: "bound_as t t' dn pw \<Longrightarrow> prefix s t \<Longrightarrow> prefix t' s' \<Longrightarrow> bound_as s s' dn pw"
  unfolding bound_as_def by (meson prefix_order.trans)

text \<open>The wire only grows.\<close>

definition since :: "trace \<Rightarrow> wire \<Rightarrow> bool" where
  "since t w \<longleftrightarrow> prefix t (wi_trace w)"

lemma since_now [simp]: "since (wi_trace w) w"
  by (simp add: since_def)

lemma since_happened: "since t w \<Longrightarrow> since t (happened e w)"
  by (auto simp: since_def happened_def intro: prefix_order.trans)

lemma since_client [simp]: "since t (w \<lparr> wi_client := c \<rparr>) = since t w"
  by (simp add: since_def)

lemma connect_grows: "keeps (since t) (ensure_connected sv)"
  by (auto simp: keeps_def ensure_connected_def Let_def intro: since_happened split: option.split)

lemma search_grows: "keeps (since t) (client_search sv q)"
  unfolding client_search_def
  by (rule keeps_andThen [OF connect_grows]) (auto simp: keeps_def intro: since_happened split: sum.split)

lemma bind_grows: "keeps (since t) (client_bind sv dn pw)"
  unfolding client_bind_def
  by (rule keeps_andThen [OF connect_grows])
    (auto simp: keeps_def raised_def return_def throw_def Let_def intro: since_happened split: option.split)

lemma unbind_grows: "since t w \<Longrightarrow> since t (client_unbind w)"
  by (auto simp: client_unbind_def intro: since_happened)

lemma client_for_grows: "since t w \<Longrightarrow> since t (client_for url tls once w)"
  by (simp add: client_for_def)

lemma upgrade_grows: "keeps (since t) (client_startTLS sv options)"
  unfolding client_startTLS_def
  by (rule keeps_andThen [OF connect_grows])
    (auto simp: keeps_def raised_def return_def throw_def Let_def intro: since_happened split: option.split)

lemma open_grows: "keeps (since t) (open_client net d)"
proof -
  have "keeps (since t) (catching (client_startTLS sv options) (\<lambda>e w. (Inl (f e), client_unbind w)))" for sv options f
    by (rule keeps_catching [OF upgrade_grows]) (simp add: keeps_def unbind_grows)
  then show ?thesis
    by (auto simp: keeps_def open_client_def Let_def client_for_grows split: ldap_protocol.split)
qed

interpretation growing: session_policy "since t" net d "\<lambda>dn pw. True" "since t" for t net d
  using keepsD [OF open_grows] by unfold_locales (auto intro: search_grows bind_grows unbind_grows)

lemma grown: "keeps (since (wi_trace w)) m \<Longrightarrow> m w = (r, w') \<Longrightarrow> prefix (wi_trace w) (wi_trace w')"
  using keepsD [of "since (wi_trace w)" m w r w'] by (simp add: since_def)

text \<open>What a value returned shows.\<close>

lemma session_result:
  assumes "session net d failure m w = (Inr x, w')"
  obtains w0 w1 where "m w0 = (Inr x, w1)" "prefix (wi_trace w) (wi_trace w0)" "prefix (wi_trace w1) (wi_trace w')"
proof -
  obtain u w0 w1 where run: "open_client net d w = (Inr u, w0)" "m w0 = (Inr x, w1)" "w' = client_unbind w1"
    using assms by (auto simp: session_def split: prod.splits sum.splits)
  have "prefix (wi_trace w1) (wi_trace w')" using unbind_grows [of "wi_trace w1" w1] run(3) by (simp add: since_def)
  then show thesis by (rule that [OF run(2) grown [OF open_grows run(1)]])
qed

lemma andThen_result:
  "andThen m f w = (Inr y, w') \<longleftrightarrow> (\<exists>x w1. m w = (Inr x, w1) \<and> f x w1 = (Inr y, w'))"
  by (auto simp: andThen_def split: prod.splits sum.splits)

lemma catching_result:
  "catching m h w = (Inr y, w') \<longleftrightarrow> m w = (Inr y, w') \<or> (\<exists>e w1. m w = (Inl e, w1) \<and> h e w1 = (Inr y, w'))"
  by (auto simp: catching_def split: prod.splits sum.splits)

lemma if_run: "(if b then m else n) w = (if b then m w else n w)"
  by simp

lemmas run_results = andThen_result catching_result if_run return_def throw_def

lemma client_bind_result: "client_bind (ne_server net) dn pw w = (Inr x, w') \<Longrightarrow> bound_as (wi_trace w) (wi_trace w') dn pw"
  by (auto simp: client_bind_def run_results raised_def Let_def bound_as_def happened_def
      intro: grown [OF connect_grows] split: option.splits)

lemma client_search_result:
  "client_search (ne_server net) q w = (Inr entries, w') \<Longrightarrow> answered net (wi_trace w) (wi_trace w') q entries"
  unfolding client_search_def andThen_result
  by (elim exE conjE) (auto simp: answered_def happened_def intro: grown [OF connect_grows] split: sum.splits)

lemma at_most_one_result:
  "at_most_one d entries w = (Inr (Some e), w') \<Longrightarrow> \<exists>raw. entries = [raw] \<and> e = toEntry d raw \<and> w' = w"
  by (auto simp: at_most_one_def run_results split: list.splits if_splits)

lemma bind_step_result:
  assumes "catching (andThen (client_bind (ne_server net) dn pw) (\<lambda>_. return True))
      (\<lambda>e. if isInvalidCredentials e then return False else throw e) w = (Inr True, w')"
  shows "bound_as (wi_trace w) (wi_trace w') dn pw"
  using assms by (auto simp: run_results split: if_splits dest: client_bind_result)

lemma verify_result:
  assumes "verifyCredentials net d dn pw w = (Inr True, w')"
  shows "pw \<noteq> [] \<and> bound_as (wi_trace w) (wi_trace w') dn pw"
proof -
  have pw: "pw \<noteq> []" using assms by (auto simp: verifyCredentials_def return_def)
  show ?thesis
    by (rule session_result [OF assms [unfolded verifyCredentials_def if_not_P [OF pw]]])
      (use pw bound_within [OF bind_step_result] in blast)
qed

lemma search_entries_result:
  assumes "catching (client_search (ne_server net) q)
      (\<lambda>e. if codeOf e = NumCode SIZE_LIMIT_EXCEEDED_CODE then throw (Unavailable AMBIGUOUS_SIGN_IN_NAME None) else throw e) w = (Inr entries, w')"
  shows "answered net (wi_trace w) (wi_trace w') q entries"
  using assms unfolding catching_result by (auto simp: throw_def split: if_splits dest: client_search_result)

lemma find_result:
  assumes "findEntry net d f w = (Inr (Some e), w')"
  shows "\<exists>raw. answered net (wi_trace w) (wi_trace w') (entry_search d f) [raw] \<and> e = toEntry d raw"
  using assms unfolding findEntry_def
proof (rule session_result)
  fix w0 w1
  assume run: "andThen (bindServiceAccount net d) (\<lambda>_. andThen (catching (client_search (ne_server net) (entry_search d f))
       (\<lambda>e. if codeOf e = NumCode SIZE_LIMIT_EXCEEDED_CODE then throw (Unavailable AMBIGUOUS_SIGN_IN_NAME None) else throw e))
     (at_most_one d)) w0 = (Inr (Some e), w1)"
    and within: "prefix (wi_trace w) (wi_trace w0)" "prefix (wi_trace w1) (wi_trace w')"
  from run obtain u w2 entries w3 where "bindServiceAccount net d w0 = (Inr u, w2)"
    and found: "catching (client_search (ne_server net) (entry_search d f))
       (\<lambda>e. if codeOf e = NumCode SIZE_LIMIT_EXCEEDED_CODE then throw (Unavailable AMBIGUOUS_SIGN_IN_NAME None) else throw e) w2 = (Inr entries, w3)"
    and one: "at_most_one d entries w3 = (Inr (Some e), w1)"
    unfolding andThen_result by blast
  then have "prefix (wi_trace w0) (wi_trace w2)" by (intro grown [OF growing.service_account_kept])
  then have "answered net (wi_trace w) (wi_trace w') (entry_search d f) entries"
    using answered_within [OF search_entries_result [OF found]] within at_most_one_result [OF one] prefix_order.trans by metis
  then show ?thesis using at_most_one_result [OF one] by blast
qed

text \<open>The search for the groups an entry is in, directly or through others, and what is read of the answer.\<close>

definition names_groups :: "ldap_net \<Rightarrow> ldap_directory \<Rightarrow> trace \<Rightarrow> trace \<Rightarrow> string \<Rightarrow> string list \<Rightarrow> bool" where
  "names_groups net d t t' dn groups \<longleftrightarrow>
     (\<exists>q entries. answered net t t' q entries \<and> sr_base q = lc_groupSearchBase (ld_config d) \<and> sr_scope q = SubScope
        \<and> sr_filter q = nestedGroupFilter dn escapeFilterValue \<and> groups = filter (\<lambda>g. g \<noteq> []) (map group_dn entries))"

lemma names_within: "names_groups net d t t' dn groups \<Longrightarrow> prefix s t \<Longrightarrow> prefix t' s' \<Longrightarrow> names_groups net d s s' dn groups"
  unfolding names_groups_def using answered_within by blast

lemma group_search_result:
  assumes "searchGroupsContaining net d dn w = (Inr groups, w')"
  shows "names_groups net d (wi_trace w) (wi_trace w') dn groups"
proof -
  let ?q = "\<lparr> sr_base = lc_groupSearchBase (ld_config d), sr_filter = nestedGroupFilter dn escapeFilterValue, sr_scope = SubScope,
         sr_sizeLimit = None, sr_attributes = [''distinguishedName''], sr_buffers = [] \<rparr>"
  obtain entries where "client_search (ne_server net) ?q w = (Inr entries, w')" "groups = filter (\<lambda>dn. dn \<noteq> []) (map group_dn entries)"
    using assms unfolding searchGroupsContaining_def andThen_result by (auto simp: return_def)
  then show ?thesis
    unfolding names_groups_def by (intro exI [of _ ?q] exI [of _ entries]) (simp add: client_search_result)
qed

lemma find_groups_result:
  assumes "findGroupsContaining net d dn w = (Inr groups, w')"
  shows "names_groups net d (wi_trace w) (wi_trace w') dn groups"
  using assms unfolding findGroupsContaining_def
proof (rule session_result)
  fix w0 w1
  assume "andThen (bindServiceAccount net d) (\<lambda>_. searchGroupsContaining net d dn) w0 = (Inr groups, w1)"
    and within: "prefix (wi_trace w) (wi_trace w0)" "prefix (wi_trace w1) (wi_trace w')"
  then obtain u w2 where run: "bindServiceAccount net d w0 = (Inr u, w2)" "searchGroupsContaining net d dn w2 = (Inr groups, w1)"
    unfolding andThen_result by blast
  have "prefix (wi_trace w) (wi_trace w2)"
    using grown [OF growing.service_account_kept run(1)] within(1) prefix_order.trans by blast
  then show ?thesis using names_within [OF group_search_result [OF run(2)]] within(2) by blast
qed

lemma own_entry_result:
  assumes "readOwnEntry net d lookup w = (Inr (Some e), w')"
  shows "\<exists>q raw. answered net (wi_trace w) (wi_trace w') q [raw] \<and> e = toEntry d raw
    \<and> (case lookup of OwnDn dn \<Rightarrow> sr_base q = dn \<and> sr_scope q = BaseScope
        | OwnFilter f \<Rightarrow> sr_base q = lc_searchBase (ld_config d) \<and> sr_scope q = SubScope \<and> sr_filter q = f)"
proof -
  let ?q = "case lookup of
      OwnDn dn \<Rightarrow> \<lparr> sr_base = dn, sr_filter = ''(objectClass=*)'', sr_scope = BaseScope, sr_sizeLimit = None,
                   sr_attributes = entryAttributes d, sr_buffers = bufferAttributes d \<rparr>
    | OwnFilter f \<Rightarrow> entry_search d f"
  have "andThen (client_search (ne_server net) ?q) (at_most_one d) w = (Inr (Some e), w')"
    using assms unfolding readOwnEntry_def catching_result by (auto simp: return_def throw_def split: if_splits)
  then obtain entries w1 where run: "client_search (ne_server net) ?q w = (Inr entries, w1)" "at_most_one d entries w1 = (Inr (Some e), w')"
    unfolding andThen_result by blast
  obtain raw where raw: "entries = [raw]" "e = toEntry d raw" "w' = w1" using at_most_one_result [OF run(2)] by blast
  show ?thesis
    by (rule exI [of _ ?q], rule exI [of _ raw])
      (use client_search_result [OF run(1)] raw in \<open>simp add: entry_search_def split: own_lookup.split\<close>)
qed

lemma read_own_result:
  assumes "bindAndRead net d identity pw lookup nested w = (Inr (BoundAs (Some entry) groups e), w')"
  shows "pw \<noteq> [] \<and> (\<exists>t1 t2 q raw. bound_as (wi_trace w) t1 identity pw \<and> answered net t1 t2 q [raw] \<and> entry = toEntry d raw
    \<and> (case lookup of OwnDn dn \<Rightarrow> sr_base q = dn \<and> sr_scope q = BaseScope
        | OwnFilter f \<Rightarrow> sr_base q = lc_searchBase (ld_config d) \<and> sr_scope q = SubScope \<and> sr_filter q = f)
    \<and> prefix (wi_trace w) t1 \<and> prefix t1 t2 \<and> prefix t2 (wi_trace w')
    \<and> (case groups of None \<Rightarrow> True | Some gs \<Rightarrow> nested \<and> names_groups net d t2 (wi_trace w') (en_dn entry) gs))"
proof -
  have pw: "pw \<noteq> []" using assms by (auto simp: bindAndRead_def return_def)
  let ?bind = "catching (andThen (client_bind (ne_server net) identity pw) (\<lambda>_. return True))
      (\<lambda>e. if isInvalidCredentials e then return False else throw e)"
  let ?groups = "\<lambda>e. if \<not> nested then return (BoundAs (Some e) None None)
      else catching (andThen (searchGroupsContaining net d (en_dn e)) (\<lambda>groups. return (BoundAs (Some e) (Some groups) None)))
             (\<lambda>x. return (BoundAs (Some e) None (Some (explainError x (ld_config d)))))"
  show ?thesis
  proof (rule session_result [OF assms [unfolded bindAndRead_def if_not_P [OF pw]]])
    fix w0 w1
    assume run: "andThen ?bind (\<lambda>bound. if \<not> bound then return NotBound
        else andThen (readOwnEntry net d lookup) (\<lambda>entry. case entry of None \<Rightarrow> return (BoundAs None None None)
          | Some e \<Rightarrow> if \<not> nested then return (BoundAs entry None None)
              else catching (andThen (searchGroupsContaining net d (en_dn e)) (\<lambda>groups. return (BoundAs entry (Some groups) None)))
                     (\<lambda>e. return (BoundAs entry None (Some (explainError e (ld_config d))))))) w0 = (Inr (BoundAs (Some entry) groups e), w1)"
      and within: "prefix (wi_trace w) (wi_trace w0)" "prefix (wi_trace w1) (wi_trace w')"
    then obtain w2 own w3 where bind: "?bind w0 = (Inr True, w2)" and own: "readOwnEntry net d lookup w2 = (Inr own, w3)"
      and rest: "(case own of None \<Rightarrow> return (BoundAs None None None) | Some e \<Rightarrow> if \<not> nested then return (BoundAs own None None)
              else catching (andThen (searchGroupsContaining net d (en_dn e)) (\<lambda>groups. return (BoundAs own (Some groups) None)))
                     (\<lambda>e. return (BoundAs own None (Some (explainError e (ld_config d)))))) w3 = (Inr (BoundAs (Some entry) groups e), w1)"
      by (auto simp: andThen_result return_def split: if_splits)
    have own_is: "own = Some entry" using rest by (cases own) (auto simp: run_results split: if_splits)
    note rest = rest [unfolded own_is option.case]
    have after: "prefix (wi_trace w2) (wi_trace w3)" by (rule grown [OF growing.own_entry_kept own])
    have last0: "prefix (wi_trace w3) (wi_trace w1)"
      by (rule grown [where m = "?groups entry", OF _ rest]) (intro keeping growing.groups_kept)
    have first: "prefix (wi_trace w0) (wi_trace w2)" by (rule grown [OF growing.verify_kept [OF TrueI] bind])
    have named: "case groups of None \<Rightarrow> True | Some gs \<Rightarrow> nested \<and> names_groups net d (wi_trace w3) (wi_trace w1) (en_dn entry) gs"
      using rest by (auto simp: run_results split: if_splits dest: group_search_result)
    obtain q raw where q: "answered net (wi_trace w2) (wi_trace w3) q [raw]" "entry = toEntry d raw"
      "case lookup of OwnDn dn \<Rightarrow> sr_base q = dn \<and> sr_scope q = BaseScope
        | OwnFilter f \<Rightarrow> sr_base q = lc_searchBase (ld_config d) \<and> sr_scope q = SubScope \<and> sr_filter q = f"
      using own_entry_result [OF own [unfolded own_is]] by blast
    have "bound_as (wi_trace w) (wi_trace w2) identity pw" using bound_within [OF bind_step_result [OF bind] within(1)] by simp
    moreover have "case groups of None \<Rightarrow> True | Some gs \<Rightarrow> nested \<and> names_groups net d (wi_trace w3) (wi_trace w') (en_dn entry) gs"
      using named names_within [OF _ prefix_order.refl within(2)] by (auto split: option.splits)
    moreover have "prefix (wi_trace w) (wi_trace w2)" "prefix (wi_trace w3) (wi_trace w')"
      using within first last0 prefix_order.trans by blast+
    ultimately show ?thesis using pw q after by blast
  qed
qed

end
