(* ===== verification/LdapSignIn.thy ===== *)
theory LdapSignIn
  imports LdapClient UserAdmin
begin

text \<open>
  Signing in through the directory: the provider (\<open>directory/ldap/ldap-auth.provider.ts\<close>), the accounts it may
  link or create (\<open>auth/directory-accounts.ts\<close>), what it caches of the directory (\<open>recordLogin\<close> in
  \<open>local-auth.provider.ts\<close>) and the dispatch of a login to its provider (\<open>auth/auth-provider.resolver.ts\<close>).
  The state is the wire to the directory and the tables of \<open>UserAdmin\<close>. Arguments: the network, the files, what the settings
  store answers, the clock, the identifier a new row gets, and which texts the schema library takes for an e-mail
  address. A client is built anew where the code keeps one for an unchanged configuration. Log lines and the padding of an answer's time are left
  out; a failing database ends a step and is not modelled.
\<close>

section \<open>Setting\<close>

record sign_env =
  se_net :: ldap_net
  se_readFile :: "string \<Rightarrow> client_error + string"
  se_ca_parses :: "string \<Rightarrow> bool"
  se_boot :: "ldap_config option"
  se_stored :: "client_error + jsval option"
  se_is_email :: "string \<Rightarrow> bool"
  se_now :: int
  se_uuid :: string

record sign_state =
  ss_wire :: wire
  ss_admin :: admin_state

record credentials =
  cr_email :: string
  cr_password :: string

definition on_wire :: "'a run \<Rightarrow> (sign_state, 'a) action" where
  "on_wire m = (\<lambda>st. case m (ss_wire st) of (r, w) \<Rightarrow> (r, st \<lparr> ss_wire := w \<rparr>))"

definition on_accounts :: "(admin_state \<Rightarrow> 'a \<times> admin_state) \<Rightarrow> (sign_state, 'a) action" where
  "on_accounts f = (\<lambda>st. case f (ss_admin st) of (x, a) \<Rightarrow> (Inr x, st \<lparr> ss_admin := a \<rparr>))"

definition source_ldap :: string where "source_ldap = ''ldap''"

definition ACCOUNT_DISPLAY_NAME_MAX :: nat where "ACCOUNT_DISPLAY_NAME_MAX = 128"

definition accountEmail :: "sign_env \<Rightarrow> string \<Rightarrow> bool" where
  "accountEmail env value \<longleftrightarrow> se_is_email env value \<and> length value \<le> 255"

section \<open>The configuration in force\<close>

definition inherit_ca :: "ldap_config option \<Rightarrow> jsval \<Rightarrow> jsval" where
  "inherit_ca boot stored =
     (case (stored, Option.bind boot lc_caPath) of
        (JObj o1, Some path) \<Rightarrow> if oget o1 ''caPath'' = None \<and> oget o1 ''caPem'' = None then JObj (oset ''caPath'' (JStr path) o1) else stored
      | _ \<Rightarrow> stored)"

definition SCHEMA_DIVERGED :: client_error where
  "SCHEMA_DIVERGED = \<lparr> er_name = ''Error'', er_message = ''The stored LDAP configuration does not match this build's schema.'', er_code = NoCode \<rparr>"

definition with_directory :: "sign_env \<Rightarrow> ldap_config \<Rightarrow> ldap_exn + (ldap_config \<times> ldap_directory) option" where
  "with_directory env config = bind_err (make_directory (se_readFile env) config) (\<lambda>d. Inr (Some (config, d)))"

definition effective :: "sign_env \<Rightarrow> ldap_exn + (ldap_config \<times> ldap_directory) option" where
  "effective env =
     (case se_stored env of
        Inl e \<Rightarrow> Inl (Raised e)
      | Inr stored0 \<Rightarrow>
          (case (if nullish stored0 then None else stored0) of
             None \<Rightarrow> (case se_boot env of None \<Rightarrow> Inr None | Some config \<Rightarrow> with_directory env config)
           | Some stored \<Rightarrow>
          (case ldapConfigSchema (se_ca_parses env) (inherit_ca (se_boot env) stored) of
             None \<Rightarrow> Inl (Raised SCHEMA_DIVERGED)
           | Some config \<Rightarrow> with_directory env config)))"

definition isConfigured :: "sign_env \<Rightarrow> bool" where
  "isConfigured env = (case effective env of Inl e \<Rightarrow> True | Inr r \<Rightarrow> r \<noteq> None)"

section \<open>Who it is\<close>

record directory_match =
  dm_entry :: ldap_entry
  dm_groupDns :: "string list"
  dm_vouched :: "string option"

definition raise_text :: "string \<Rightarrow> ('s, 'a) action" where
  "raise_text message = throw (Raised \<lparr> er_name = ''Error'', er_message = message, er_code = NoCode \<rparr>)"

definition built_filter :: "string \<Rightarrow> string \<Rightarrow> ('s, string) action" where
  "built_filter template input = (case buildFilter template input of Inl e \<Rightarrow> raise_text e | Inr f \<Rightarrow> return f)"

definition resolveNestedGroups :: "sign_env \<Rightarrow> ldap_directory \<Rightarrow> ldap_entry \<Rightarrow> string list run" where
  "resolveNestedGroups env d entry =
     catching (andThen (findGroupsContaining (se_net env) d (en_dn entry)) (\<lambda>nested. return (uniq (en_groupDns entry @ nested))))
       (\<lambda>e. return (en_groupDns entry))"

definition searchThenBind ::
  "sign_env \<Rightarrow> ldap_config \<Rightarrow> ldap_directory \<Rightarrow> string \<Rightarrow> string \<Rightarrow> directory_match option run" where
  "searchThenBind env config d identifier password =
     andThen (built_filter (lc_searchFilter config) identifier) (\<lambda>f.
     andThen (findEntry (se_net env) d f) (\<lambda>found.
       case found of
         None \<Rightarrow> return None
       | Some entry \<Rightarrow>
           if en_dn entry = [] then return None
           else andThen (verifyCredentials (se_net env) d (en_dn entry) password) (\<lambda>bound.
             if \<not> bound then return None
             else andThen (if lc_nestedGroups config then resolveNestedGroups env d entry else return (en_groupDns entry)) (\<lambda>groupDns.
               return (Some \<lparr> dm_entry = entry, dm_groupDns = groupDns, dm_vouched = Some identifier \<rparr>)))))"

definition lowered :: "string \<Rightarrow> string" where
  "lowered value = to_lower (js_trim value)"

definition own_addresses :: "ldap_entry \<Rightarrow> string list" where
  "own_addresses entry = map lowered (concat (map (case_option [] (\<lambda>a. [a])) [en_email entry, en_upn entry]))"

definition bindDirectly ::
  "sign_env \<Rightarrow> ldap_config \<Rightarrow> ldap_directory \<Rightarrow> string \<Rightarrow> string \<Rightarrow> directory_match option run" where
  "bindDirectly env config d identifier password =
     (let pattern = with_default (lc_userDnPattern config) []
      in case buildBindIdentity pattern identifier of
           Inl (InvalidUsername e) \<Rightarrow> return None
         | Inl (UnusablePattern e) \<Rightarrow> raise_text e
         | Inr identity \<Rightarrow>
             (let lookup = (if isDnPattern pattern then OwnDn identity
                            else OwnFilter (''(userPrincipalName='' @ escapeFilterValue identity @ '')''))
              in andThen (bindAndRead (se_net env) d identity password lookup (lc_nestedGroups config)) (\<lambda>result.
                case result of
                  NotBound \<Rightarrow> return None
                | BoundAs None _ _ \<Rightarrow> return None
                | BoundAs (Some entry) nestedGroups _ \<Rightarrow>
                    if en_dn entry = [] then return None
                    else
                      let typed = lowered identifier; usesEmail = str_includes pattern LDAP_EMAIL_PLACEHOLDER; own = own_addresses entry
                      in if \<not> usesEmail \<and> CHR ''@'' \<in> set typed \<and> length own > 0 \<and> typed \<notin> set own then return None
                         else return (Some
                           \<lparr> dm_entry = entry,
                             dm_groupDns = (case nestedGroups of None \<Rightarrow> en_groupDns entry | Some nested \<Rightarrow> uniq (en_groupDns entry @ nested)),
                             dm_vouched = (if usesEmail \<or> typed \<in> set own then Some typed else None) \<rparr>))))"

section \<open>Which acct\<close>

definition directoryActor :: "string \<Rightarrow> string" where
  "directoryActor source = ''directory:'' @ source"

definition audit_directory :: "string \<Rightarrow> string \<Rightarrow> string \<Rightarrow> admin_state \<Rightarrow> admin_state" where
  "audit_directory source action userId st =
     st \<lparr> ad_audit := ad_audit st @
       [\<lparr> a_actorUserId = None, a_actorEmail = Some (directoryActor source), a_action = action,
          a_entityType = ''User'', a_entityId = Some userId \<rparr>] \<rparr>"

definition by_directory_id :: "string \<Rightarrow> admin_state \<Rightarrow> user_row option" where
  "by_directory_id i st = find_unique (\<lambda>u. us_directoryId u = Some i) (ad_users st)"

definition by_email :: "string \<Rightarrow> admin_state \<Rightarrow> user_row option" where
  "by_email email st = find_unique (\<lambda>u. us_email u = email) (ad_users st)"

definition linkedTo :: "string \<Rightarrow> string \<Rightarrow> admin_state \<Rightarrow> user_row option" where
  "linkedTo source directoryId st =
     (case by_directory_id directoryId st of
        None \<Rightarrow> None
      | Some linked \<Rightarrow> if us_authSource linked \<noteq> source then None else Some linked)"

text \<open>The condition of the update; a row that matches while another holds the id is the unique violation.\<close>

definition linkable :: "string \<Rightarrow> string \<Rightarrow> user_row \<Rightarrow> bool" where
  "linkable source userId u \<longleftrightarrow> us_id u = userId \<and> us_authSource u = source \<and> us_directoryId u = None"

definition link :: "string \<Rightarrow> string \<Rightarrow> string \<Rightarrow> admin_state \<Rightarrow> user_row option \<times> admin_state" where
  "link source userId directoryId st =
     (if list_ex (linkable source userId) (ad_users st)
      then (if by_directory_id directoryId st \<noteq> None then (linkedTo source directoryId st, st)
            else let st' = audit_directory source ''user.directory.link'' userId
                       (st \<lparr> ad_users := map (\<lambda>u. if linkable source userId u then u \<lparr> us_directoryId := Some directoryId \<rparr> else u) (ad_users st) \<rparr>)
                 in (find_user userId st', st'))
      else (case find_user userId st of
              Some now \<Rightarrow> (if us_authSource now = source \<and> us_directoryId now = Some directoryId then Some now else None, st)
            | None \<Rightarrow> (None, st)))"

record first_account =
  fa_email :: string
  fa_displayName :: string
  fa_role :: string
  fa_directoryId :: string

definition create_account :: "string \<Rightarrow> string \<Rightarrow> first_account \<Rightarrow> admin_state \<Rightarrow> user_row option \<times> admin_state" where
  "create_account uuid source new st =
     (let email = normalizeEmail (fa_email new)
      in case find_unique (\<lambda>r. ro_name r = fa_role new) (ad_roles st) of
           None \<Rightarrow> (None, st)
         | Some role \<Rightarrow>
             if by_email email st \<noteq> None \<or> by_directory_id (fa_directoryId new) st \<noteq> None
             then (linkedTo source (fa_directoryId new) st, st)
             else let user = \<lparr> us_id = uuid, us_email = email, us_displayName = fa_displayName new, us_passwordHash = None,
                                us_role = fa_role new, us_roleId = ro_id role, us_isActive = True, us_authSource = source,
                                us_directoryId = Some (fa_directoryId new), us_lastLoginAt = None,
                                us_failedLoginAttempts = 0, us_lockedUntil = None \<rparr>
                  in (Some user, audit_directory source ''user.create'' uuid (st \<lparr> ad_users := ad_users st @ [user] \<rparr>)))"

definition namesOnly :: "sign_env \<Rightarrow> string \<Rightarrow> ldap_entry \<Rightarrow> ldap_config \<Rightarrow> ldap_directory \<Rightarrow> bool run" where
  "namesOnly env address entry config d =
     (if lc_bindType config = SIMPLE then return False
      else catching
        (andThen (built_filter (lc_searchFilter config) address) (\<lambda>f.
         andThen (findEntry (se_net env) d f) (\<lambda>found.
           return (case found of None \<Rightarrow> False | Some e \<Rightarrow> normalizeDn (en_dn e) = normalizeDn (en_dn entry)))))
        (\<lambda>e. return False))"

definition addresses_of :: "sign_env \<Rightarrow> directory_match \<Rightarrow> string list" where
  "addresses_of env found =
     uniq (filter (accountEmail env)
       (map lowered (concat (map (case_option [] (\<lambda>a. [a])) [dm_vouched found, en_email (dm_entry found), en_upn (dm_entry found)]))))"

definition firstSignInDisplayName :: "string option \<Rightarrow> string \<Rightarrow> string" where
  "firstSignInDisplayName fromDirectory email =
     (let name = js_trim (with_default fromDirectory []) in take ACCOUNT_DISPLAY_NAME_MAX (if name = [] then email else name))"

text \<open>The loop over the addresses: \<^const>\<open>None\<close> when no account was decided on, else the account to use, if any.\<close>

fun linkable_account ::
  "sign_env \<Rightarrow> directory_match \<Rightarrow> ldap_config \<Rightarrow> ldap_directory \<Rightarrow> bool \<Rightarrow> string list
   \<Rightarrow> (sign_state, user_row option option) action" where
  "linkable_account env found config d writer [] = return None"
| "linkable_account env found config d writer (address # rest) =
     (let directoryId = en_directoryId (dm_entry found); next = linkable_account env found config d writer rest
      in andThen (on_accounts (\<lambda>st. (by_email address st, st))) (\<lambda>acct.
        case acct of
          None \<Rightarrow> next
        | Some acct \<Rightarrow>
            if us_authSource acct \<noteq> source_ldap then next
            else andThen (if Some address \<noteq> dm_vouched found then on_wire (namesOnly env address (dm_entry found) config d) else return True) (\<lambda>named.
              if \<not> named then next
              else if us_directoryId acct \<noteq> None \<and> us_directoryId acct \<noteq> directoryId then next
              else (case directoryId of
                      None \<Rightarrow> return (Some (Some acct))
                    | Some i \<Rightarrow>
                        if \<not> writer \<or> \<not> us_isActive acct then return (Some (Some acct))
                        else andThen (on_accounts (link source_ldap (us_id acct) i)) (\<lambda>linked. return (Some linked))))))"

definition createdAccount ::
  "sign_env \<Rightarrow> directory_match \<Rightarrow> string \<Rightarrow> ldap_config \<Rightarrow> bool \<Rightarrow> (sign_state, user_row option) action" where
  "createdAccount env found role config writer =
     (let entry = dm_entry found
      in if writer \<and> lc_autoCreateAccounts config
         then (case en_directoryId entry of
                 None \<Rightarrow> return None
               | Some i \<Rightarrow>
                   (case List.find (accountEmail env) (map (\<lambda>v. lowered (with_default v [])) [en_email entry, en_upn entry, en_username entry]) of
                      None \<Rightarrow> return None
                    | Some email \<Rightarrow>
                        on_accounts (create_account (se_uuid env) source_ldap
                          \<lparr> fa_email = email, fa_displayName = firstSignInDisplayName (en_displayName entry) email,
                            fa_role = role, fa_directoryId = i \<rparr>)))
         else return None)"

definition accountFor ::
  "sign_env \<Rightarrow> directory_match \<Rightarrow> string \<Rightarrow> ldap_config \<Rightarrow> ldap_directory \<Rightarrow> bool \<Rightarrow> (sign_state, user_row option) action" where
  "accountFor env found role config d writer =
     andThen (on_accounts (\<lambda>st. (Option.bind (en_directoryId (dm_entry found)) (\<lambda>i. by_directory_id i st), st))) (\<lambda>linked.
       case linked of
         Some acct \<Rightarrow> return (if us_authSource acct = source_ldap then Some acct else None)
       | None \<Rightarrow>
           andThen (linkable_account env found config d writer (addresses_of env found)) (\<lambda>decided.
             case decided of Some r \<Rightarrow> return r | None \<Rightarrow> createdAccount env found role config writer))"

section \<open>The sign-in\<close>

definition recordLogin :: "int \<Rightarrow> string \<Rightarrow> string \<Rightarrow> string \<Rightarrow> admin_state \<Rightarrow> admin_state" where
  "recordLogin now userId role displayName st =
     (let row = find_unique (\<lambda>r. ro_name r = role) (ad_roles st)
      in st \<lparr> ad_users := update_user userId (\<lambda>u. u
           \<lparr> us_role := role, us_roleId := (case row of None \<Rightarrow> us_roleId u | Some r \<Rightarrow> ro_id r),
              us_displayName := displayName, us_lastLoginAt := Some now \<rparr>) (ad_users st) \<rparr>)"

definition accept :: "sign_env \<Rightarrow> directory_match \<Rightarrow> resolved_roles \<Rightarrow> user_row \<Rightarrow> (sign_state, auth_failure + principal) action" where
  "accept env found resolved identity =
     (let displayName = with_default (en_displayName (dm_entry found)) (us_displayName identity)
      in andThen (on_accounts (\<lambda>st. ((), recordLogin (se_now env) (us_id identity) (rr_primary resolved) displayName st))) (\<lambda>_.
        return (Inr \<lparr> pr_userId = us_id identity, pr_email = us_email identity, pr_displayName = displayName,
          pr_role = rr_primary resolved, pr_roles = (if length (rr_all resolved) > 1 then Some (rr_all resolved) else None),
          pr_authSource = source_ldap, pr_scopedGroupIds = None, pr_scopedEnvironments = None \<rparr>)))"

definition signIn :: "sign_env \<Rightarrow> bool \<Rightarrow> credentials \<Rightarrow> (sign_state, auth_failure + principal) action" where
  "signIn env writer cr =
     (if length (cr_password cr) = 0 then return (Inl INVALID_CREDENTIALS)
      else let identifier = lowered (cr_email cr)
      in catching
        (case effective env of
           Inl e \<Rightarrow> throw e
         | Inr None \<Rightarrow> return (Inl INVALID_CREDENTIALS)
         | Inr (Some (config, d)) \<Rightarrow>
             andThen (on_wire (if lc_bindType config = SIMPLE then bindDirectly env config d identifier (cr_password cr)
                               else searchThenBind env config d identifier (cr_password cr))) (\<lambda>found.
               case found of
                 None \<Rightarrow> return (Inl INVALID_CREDENTIALS)
               | Some found \<Rightarrow>
                   (case resolveRoles (dm_groupDns found) config of
                      None \<Rightarrow> return (Inl INVALID_CREDENTIALS)
                    | Some resolved \<Rightarrow>
                        andThen (accountFor env found (rr_primary resolved) config d writer) (\<lambda>identity.
                          case identity of
                            None \<Rightarrow> return (Inl INVALID_CREDENTIALS)
                          | Some identity \<Rightarrow>
                              if \<not> us_isActive identity then return (Inl ACCOUNT_DISABLED)
                              else accept env found resolved identity))))
        (\<lambda>e. return (Inl PROVIDER_ERROR)))"

text \<open>On refresh: the row, without asking the directory.\<close>

definition resolve_ldap :: "admin_state \<Rightarrow> string \<Rightarrow> principal option" where
  "resolve_ldap st userId =
     (case find_user userId st of
        None \<Rightarrow> None
      | Some identity \<Rightarrow>
          if \<not> us_isActive identity then None
          else Some \<lparr> pr_userId = us_id identity, pr_email = us_email identity, pr_displayName = us_displayName identity,
                      pr_role = us_role identity, pr_roles = None, pr_authSource = source_ldap,
                      pr_scopedGroupIds = None, pr_scopedEnvironments = None \<rparr>)"

section \<open>Dispatch\<close>

text \<open>The providers of a deployment beside the local one: whether LDAP is registered and the accounts of a directory
  sign-in may be written, and the others by their source, with whether each is configured.\<close>

record deployment =
  dp_kdf :: kdf
  dp_lockout :: lockout_policy
  dp_salt :: string
  dp_ldap :: "sign_env option"
  dp_writer :: bool
  dp_others :: "(string \<times> bool) list"

definition directoryFirst :: "deployment \<Rightarrow> sign_env option" where
  "directoryFirst dp =
     (if \<not> dp_writer dp then None
      else case dp_ldap dp of None \<Rightarrow> None | Some env \<Rightarrow> if isConfigured env then Some env else None)"

definition directorySignIn :: "sign_env \<Rightarrow> credentials \<Rightarrow> bool \<Rightarrow> (sign_state, auth_failure + principal) action" where
  "directorySignIn env cr identifierHasAccount =
     andThen (signIn env True cr) (\<lambda>result.
       return (case result of
                 Inr p \<Rightarrow> result
               | Inl _ \<Rightarrow> if identifierHasAccount then result else Inl INVALID_CREDENTIALS))"

text \<open>\<open>LocalAuthProvider.authenticate\<close> on the accounts table; the other providers sign in by redirect and refuse here.\<close>

definition local_sign_in :: "deployment \<Rightarrow> int \<Rightarrow> credentials \<Rightarrow> (sign_state, auth_failure + principal) action" where
  "local_sign_in dp now cr =
     on_accounts (\<lambda>st. case authenticate (dp_kdf dp) (dp_lockout dp) now (dp_salt dp) (cr_email cr) (cr_password cr) (ad_users st) of
       (r, users) \<Rightarrow> (r, st \<lparr> ad_users := users \<rparr>))"

definition provider_sign_in :: "deployment \<Rightarrow> int \<Rightarrow> string \<Rightarrow> credentials \<Rightarrow> (sign_state, auth_failure + principal) action" where
  "provider_sign_in dp now authSource cr =
     (if authSource = ''local'' then local_sign_in dp now cr
      else if authSource = source_ldap
      then (case dp_ldap dp of
              None \<Rightarrow> return (Inl INVALID_CREDENTIALS)
            | Some env \<Rightarrow> if isConfigured env then signIn env False cr else return (Inl INVALID_CREDENTIALS))
      else return (Inl INVALID_CREDENTIALS))"

definition dispatch :: "deployment \<Rightarrow> int \<Rightarrow> credentials \<Rightarrow> (sign_state, auth_failure + principal) action" where
  "dispatch dp now cr =
     andThen (on_accounts (\<lambda>st. (by_email (lowered (cr_email cr)) st, st))) (\<lambda>acct.
       let by_source = (case acct of
             None \<Rightarrow> return (Inl INVALID_CREDENTIALS)
           | Some acct \<Rightarrow> provider_sign_in dp now (us_authSource acct) cr)
       in if (case acct of None \<Rightarrow> True | Some acct \<Rightarrow> us_authSource acct = source_ldap)
          then (case directoryFirst dp of
                  Some env \<Rightarrow> directorySignIn env cr (acct \<noteq> None)
                | None \<Rightarrow> by_source)
          else by_source)"

definition registered :: "deployment \<Rightarrow> string \<Rightarrow> bool" where
  "registered dp source \<longleftrightarrow> source = ''local'' \<or> source = source_ldap \<and> dp_ldap dp \<noteq> None \<or> source \<in> set (map fst (dp_others dp))"

definition source_configured :: "deployment \<Rightarrow> string \<Rightarrow> bool" where
  "source_configured dp source =
     (if source = ''local'' then True
      else if source = source_ldap then (case dp_ldap dp of None \<Rightarrow> False | Some env \<Rightarrow> isConfigured env)
      else map_of (dp_others dp) source = Some True)"

text \<open>\<open>resolve\<close>, with what another provider answers for a user as an argument.\<close>

definition resolve_principal :: "deployment \<Rightarrow> (string \<Rightarrow> admin_state \<Rightarrow> string \<Rightarrow> principal option) \<Rightarrow> admin_state \<Rightarrow> string \<Rightarrow> principal option" where
  "resolve_principal dp other st userId =
     (case find_user userId st of
        None \<Rightarrow> None
      | Some acct \<Rightarrow>
          (let source = us_authSource acct
           in if \<not> registered dp source \<or> \<not> source_configured dp source then None
              else if source = ''local'' then resolve_local (ad_users st) userId
              else if source = source_ldap then resolve_ldap st userId
              else other source st userId))"

section \<open>What was typed\<close>

lemma lower_char_again: "lower_char (lower_char c) = lower_char c" and lower_char_space: "is_js_space (lower_char c) = is_js_space c"
  by (auto simp: lower_char_def is_js_space_def Let_def)

lemma dropWhile_head: "dropWhile P s = c # cs \<Longrightarrow> \<not> P c"
  by (simp add: dropWhile_eq_Cons_conv)

lemma dropWhile_start: "dropWhile P (rev (dropWhile P (rev (dropWhile P s)))) = rev (dropWhile P (rev (dropWhile P s)))"
proof (cases "rev (dropWhile P (rev (dropWhile P s)))")
  case (Cons c cs)
  have "dropWhile P s = rev (dropWhile P (rev (dropWhile P s))) @ rev (takeWhile P (rev (dropWhile P s)))"
    by (simp flip: rev_append)
  then have start: "dropWhile P s = c # cs @ rev (takeWhile P (rev (dropWhile P s)))" unfolding Cons by simp
  have "\<not> P c" by (rule dropWhile_head [OF start])
  then show ?thesis unfolding Cons by simp
next
  case Nil
  show ?thesis unfolding Nil by simp
qed

lemma js_trim_again: "js_trim (js_trim s) = js_trim s"
  unfolding js_trim_def dropWhile_start by simp

lemma js_trim_lower: "js_trim (to_lower s) = to_lower (js_trim s)"
  by (simp add: js_trim_def to_lower_def dropWhile_map comp_def lower_char_space rev_map)

lemma lowered_again [simp]: "lowered (lowered s) = lowered s"
  by (simp add: lowered_def js_trim_lower js_trim_again) (simp add: to_lower_def comp_def lower_char_again)

section \<open>Who was let in\<close>

text \<open>
  What stands for the person, on the wire between two moments. A bind with what was typed and a password that is not
  empty was accepted, and the entry is the one the server answered. For a Simple bind, the identity made of what was typed is what
  was bound, and then the entry is what the server answered for that very identity: the entry of that name, or the only entry with that
  principal name; and unless the identity is an address, an address typed is one of the entry's own, if it has any. Otherwise the entry
  is the only answer to the search for what was typed, and then the bind was made as that entry.
\<close>

definition proven_by_bind :: "sign_env \<Rightarrow> ldap_config \<Rightarrow> trace \<Rightarrow> trace \<Rightarrow> string \<Rightarrow> string \<Rightarrow> ldap_entry \<Rightarrow> bool" where
  "proven_by_bind env config t t' identifier password entry \<longleftrightarrow>
     (let pattern = with_default (lc_userDnPattern config) []; own = own_addresses entry; typed = lowered identifier
      in (str_includes pattern LDAP_EMAIL_PLACEHOLDER \<or> CHR ''@'' \<notin> set typed \<or> own = [] \<or> typed \<in> set own)
       \<and> (\<exists>identity t1 q d raw. buildBindIdentity pattern identifier = Inr identity
            \<and> prefix t t1 \<and> bound_as t t1 identity password \<and> answered (se_net env) t1 t' q [raw]
            \<and> ld_config d = config \<and> entry = toEntry d raw
            \<and> (if isDnPattern pattern then sr_base q = identity \<and> sr_scope q = BaseScope
               else sr_base q = lc_searchBase config \<and> sr_scope q = SubScope
                  \<and> sr_filter q = ''(userPrincipalName='' @ escapeFilterValue identity @ '')'')))"

definition proven_by_search :: "sign_env \<Rightarrow> ldap_config \<Rightarrow> trace \<Rightarrow> trace \<Rightarrow> string \<Rightarrow> string \<Rightarrow> ldap_entry \<Rightarrow> bool" where
  "proven_by_search env config t t' identifier password entry \<longleftrightarrow>
     (\<exists>f t1 q d raw. buildFilter (lc_searchFilter config) identifier = Inr f
        \<and> answered (se_net env) t t1 q [raw] \<and> sr_base q = lc_searchBase config \<and> sr_scope q = SubScope \<and> sr_filter q = f
        \<and> ld_config d = config \<and> entry = toEntry d raw
        \<and> prefix t t1 \<and> bound_as t1 t' (en_dn entry) password)"

definition proven :: "sign_env \<Rightarrow> ldap_config \<Rightarrow> trace \<Rightarrow> trace \<Rightarrow> string \<Rightarrow> string \<Rightarrow> ldap_entry \<Rightarrow> bool" where
  "proven env config t t' identifier password entry \<longleftrightarrow>
     password \<noteq> [] \<and> en_dn entry \<noteq> [] \<and>
     (if lc_bindType config = SIMPLE then proven_by_bind env config t t' identifier password entry
      else proven_by_search env config t t' identifier password entry)"

text \<open>The groups: the entry's own, and, when nested groups are asked for, those the server then named for that entry.\<close>

definition groups_of :: "sign_env \<Rightarrow> ldap_config \<Rightarrow> trace \<Rightarrow> trace \<Rightarrow> ldap_entry \<Rightarrow> string list \<Rightarrow> bool" where
  "groups_of env config t t' entry groups \<longleftrightarrow>
     groups = en_groupDns entry
     \<or> lc_nestedGroups config \<and>
       (\<exists>d nested. ld_config d = config \<and> names_groups (se_net env) d t t' (en_dn entry) nested \<and> groups = uniq (en_groupDns entry @ nested))"

text \<open>
  The address of an account the entry may be linked to: what was typed, if it was what the search was made with or is the entry's own;
  or another address of the entry, if a search for it finds this entry and no other.
\<close>

definition speaks_for :: "sign_env \<Rightarrow> ldap_config \<Rightarrow> trace \<Rightarrow> trace \<Rightarrow> string \<Rightarrow> ldap_entry \<Rightarrow> string \<Rightarrow> bool" where
  "speaks_for env config t t' identifier entry address \<longleftrightarrow>
     (if lc_bindType config = SIMPLE
      then address = lowered identifier
        \<and> (str_includes (with_default (lc_userDnPattern config) []) LDAP_EMAIL_PLACEHOLDER \<or> address \<in> set (own_addresses entry))
      else address = identifier \<or> address \<in> set (own_addresses entry)
        \<and> (\<exists>q d raw f. buildFilter (lc_searchFilter config) address = Inr f \<and> answered (se_net env) t t' q [raw]
             \<and> ld_config d = config \<and> sr_base q = lc_searchBase config \<and> sr_scope q = SubScope \<and> sr_filter q = f
             \<and> normalizeDn (en_dn (toEntry d raw)) = normalizeDn (en_dn entry)))"

lemma speaks_within:
  assumes "speaks_for env config t t' identifier entry address" "prefix s t" "prefix t' s'"
  shows "speaks_for env config s s' identifier entry address"
  using assms answered_within unfolding speaks_for_def by (metis (no_types, lifting))

lemma groups_within:
  assumes "groups_of env config t t' entry groups" "prefix s t" "prefix t' s'"
  shows "groups_of env config s s' entry groups"
  using assms names_within unfolding groups_of_def by blast

lemma proven_later:
  assumes "proven env config t t' identifier password entry" "prefix t' s'"
  shows "proven env config t s' identifier password entry"
proof -
  have "answered (se_net env) t1 t' q r \<Longrightarrow> answered (se_net env) t1 s' q r" for t1 q r by (rule answered_within [OF _ prefix_order.refl assms(2)])
  then have "proven_by_bind env config t t' identifier password entry \<Longrightarrow> proven_by_bind env config t s' identifier password entry"
    unfolding proven_by_bind_def Let_def by blast
  moreover have "bound_as t1 t' dn pw \<Longrightarrow> bound_as t1 s' dn pw" for t1 dn pw by (rule bound_within [OF _ prefix_order.refl assms(2)])
  then have "proven_by_search env config t t' identifier password entry \<Longrightarrow> proven_by_search env config t s' identifier password entry"
    unfolding proven_by_search_def by blast
  ultimately show ?thesis using assms(1) by (simp add: proven_def split: if_splits)
qed

text \<open>What the match says it found: the entry is proven, the groups are its own, and the address it vouches for is what was typed.\<close>

definition match_ok :: "sign_env \<Rightarrow> ldap_config \<Rightarrow> trace \<Rightarrow> trace \<Rightarrow> string \<Rightarrow> string \<Rightarrow> directory_match \<Rightarrow> bool" where
  "match_ok env config t t' identifier password m \<longleftrightarrow>
     proven env config t t' identifier password (dm_entry m)
     \<and> groups_of env config t t' (dm_entry m) (dm_groupDns m)
     \<and> (\<forall>address. dm_vouched m = Some address \<longrightarrow> speaks_for env config t t' identifier (dm_entry m) address)"

lemma built_filter_result: "built_filter t i w = (Inr f, w') \<Longrightarrow> buildFilter t i = Inr f \<and> w' = w"
  by (auto simp: built_filter_def raise_text_def run_results split: sum.splits)

lemma resolve_groups_result:
  assumes "resolveNestedGroups env d entry w = (Inr groups, w')" "ld_config d = config" "lc_nestedGroups config"
  shows "groups_of env config (wi_trace w) (wi_trace w') entry groups"
  using assms by (auto simp: resolveNestedGroups_def run_results groups_of_def dest: find_groups_result)

lemma resolve_groups_grow: "keeps (since t) (resolveNestedGroups env d entry)"
  unfolding resolveNestedGroups_def by (intro keeping growing.groups_session)

lemma search_ok:
  assumes "searchThenBind env config d identifier password w = (Inr (Some m), w')" "lc_bindType config \<noteq> SIMPLE" "ld_config d = config"
  shows "match_ok env config (wi_trace w) (wi_trace w') identifier password m"
proof -
  obtain f found w2 where f: "buildFilter (lc_searchFilter config) identifier = Inr f"
    and found: "findEntry (se_net env) d f w = (Inr found, w2)"
    and rest: "(case found of None \<Rightarrow> return None | Some entry \<Rightarrow> if en_dn entry = [] then return None
        else andThen (verifyCredentials (se_net env) d (en_dn entry) password) (\<lambda>bound.
             if \<not> bound then return None
             else andThen (if lc_nestedGroups config then resolveNestedGroups env d entry else return (en_groupDns entry)) (\<lambda>groupDns.
               return (Some \<lparr> dm_entry = entry, dm_groupDns = groupDns, dm_vouched = Some identifier \<rparr>)))) w2 = (Inr (Some m), w')"
    using assms(1) unfolding searchThenBind_def andThen_result by (elim exE conjE) (drule built_filter_result, rule that; simp)
  obtain entry where entry: "found = Some entry" using rest by (cases found) (simp_all add: return_def)
  have dn: "en_dn entry \<noteq> []" using rest by (auto simp: entry return_def)
  obtain w3 groups where verified: "verifyCredentials (se_net env) d (en_dn entry) password w2 = (Inr True, w3)"
    and groups: "(if lc_nestedGroups config then resolveNestedGroups env d entry else return (en_groupDns entry)) w3 = (Inr groups, w')"
    and m: "m = \<lparr> dm_entry = entry, dm_groupDns = groups, dm_vouched = Some identifier \<rparr>"
    using rest unfolding entry option.case if_not_P [OF dn] by (auto simp: andThen_result return_def split: if_splits)
  let ?t = "wi_trace w" and ?t2 = "wi_trace w2" and ?t3 = "wi_trace w3" and ?t' = "wi_trace w'"
  have order: "prefix ?t ?t2" "prefix ?t2 ?t3" "prefix ?t3 ?t'"
    using grown [OF growing.find_session found] grown [OF growing.verify_session [OF TrueI] verified]
      grown [OF keeps_if [OF resolve_groups_grow keeps_return] groups] by blast+
  have span: "prefix ?t ?t3" "prefix ?t2 ?t'" using order prefix_order.trans by blast+
  obtain raw where raw: "answered (se_net env) ?t ?t2 (entry_search d f) [raw]" "entry = toEntry d raw"
    using find_result [OF found [unfolded entry]] by blast
  have pw: "password \<noteq> []" "bound_as ?t2 ?t' (en_dn entry) password"
    using verify_result [OF verified] bound_within [OF _ prefix_order.refl order(3)] by blast+
  have "groups_of env config ?t3 ?t' entry groups"
    using groups resolve_groups_result [OF _ assms(3)] by (auto simp: groups_of_def return_def split: if_splits)
  then have "groups_of env config ?t ?t' entry groups" by (rule groups_within [OF _ span(1) prefix_order.refl])
  moreover have "proven_by_search env config ?t ?t' identifier password entry"
    unfolding proven_by_search_def
    by (rule exI [of _ f], rule exI [of _ ?t2], rule exI [of _ "entry_search d f"], rule exI [of _ d], rule exI [of _ raw])
      (use f raw pw(2) order(1) assms(3) in \<open>simp add: entry_search_def\<close>)
  then have "proven env config ?t ?t' identifier password entry" using pw(1) dn assms(2) by (simp add: proven_def)
  ultimately show ?thesis using assms(2) unfolding match_ok_def m directory_match.select_convs speaks_for_def by simp
qed

lemma bind_ok:
  assumes "bindDirectly env config d identifier password w = (Inr (Some m), w')" "lc_bindType config = SIMPLE" "ld_config d = config"
  shows "match_ok env config (wi_trace w) (wi_trace w') identifier password m"
proof -
  let ?pattern = "with_default (lc_userDnPattern config) []" and ?typed = "lowered identifier"
  let ?email = "str_includes ?pattern LDAP_EMAIL_PLACEHOLDER"
  let ?t = "wi_trace w" and ?t' = "wi_trace w'"
  obtain identity where identity: "buildBindIdentity ?pattern identifier = Inr identity"
    using assms(1) by (auto simp: bindDirectly_def Let_def raise_text_def throw_def return_def split: sum.splits bind_error.splits)
  let ?lookup = "if isDnPattern ?pattern then OwnDn identity else OwnFilter (''(userPrincipalName='' @ escapeFilterValue identity @ '')'')"
  obtain result w1 where result: "bindAndRead (se_net env) d identity password ?lookup (lc_nestedGroups config) w = (Inr result, w1)"
    and rest: "(case result of NotBound \<Rightarrow> return None | BoundAs None _ _ \<Rightarrow> return None
        | BoundAs (Some entry) nestedGroups _ \<Rightarrow>
            if en_dn entry = [] then return None
            else if \<not> ?email \<and> CHR ''@'' \<in> set ?typed \<and> length (own_addresses entry) > 0 \<and> ?typed \<notin> set (own_addresses entry) then return None
            else return (Some
              \<lparr> dm_entry = entry,
                dm_groupDns = (case nestedGroups of None \<Rightarrow> en_groupDns entry | Some nested \<Rightarrow> uniq (en_groupDns entry @ nested)),
                dm_vouched = (if ?email \<or> ?typed \<in> set (own_addresses entry) then Some ?typed else None) \<rparr>)) w1 = (Inr (Some m), w')"
    using assms(1) unfolding bindDirectly_def Let_def identity sum.case andThen_result by (elim exE conjE) (rule that)
  obtain entry groups e where r: "result = BoundAs (Some entry) groups e" "w1 = w'" "en_dn entry \<noteq> []"
    "?email \<or> CHR ''@'' \<notin> set ?typed \<or> own_addresses entry = [] \<or> ?typed \<in> set (own_addresses entry)"
    "m = \<lparr> dm_entry = entry, dm_groupDns = (case groups of None \<Rightarrow> en_groupDns entry | Some nested \<Rightarrow> uniq (en_groupDns entry @ nested)),
       dm_vouched = (if ?email \<or> ?typed \<in> set (own_addresses entry) then Some ?typed else None) \<rparr>"
    using rest by (auto simp: return_def split: direct_bind_result.splits option.splits if_splits)
  obtain t1 t2 q raw where read: "password \<noteq> []" "bound_as ?t t1 identity password" "answered (se_net env) t1 t2 q [raw]"
    "entry = toEntry d raw"
    "case ?lookup of OwnDn dn \<Rightarrow> sr_base q = dn \<and> sr_scope q = BaseScope
        | OwnFilter f \<Rightarrow> sr_base q = lc_searchBase (ld_config d) \<and> sr_scope q = SubScope \<and> sr_filter q = f"
    "prefix ?t t1" "prefix t1 t2" "prefix t2 ?t'"
    "case groups of None \<Rightarrow> True | Some gs \<Rightarrow> lc_nestedGroups config \<and> names_groups (se_net env) d t2 ?t' (en_dn entry) gs"
    using read_own_result [OF result [unfolded r(1,2)]] by blast
  have span: "prefix ?t t2" using read(6,7) prefix_order.trans by blast
  have "if isDnPattern ?pattern then sr_base q = identity \<and> sr_scope q = BaseScope
      else sr_base q = lc_searchBase config \<and> sr_scope q = SubScope \<and> sr_filter q = ''(userPrincipalName='' @ escapeFilterValue identity @ '')''"
    using read(5) assms(3) by (simp split: if_splits)
  then have "proven_by_bind env config ?t ?t' identifier password entry"
    using identity read(2,4,6) assms(3) answered_within [OF read(3) prefix_order.refl read(8)] r(4)
    unfolding proven_by_bind_def Let_def by blast
  then have "proven env config ?t ?t' identifier password entry" using read(1) r(3) assms(2) by (simp add: proven_def)
  moreover have "groups_of env config ?t ?t' entry (dm_groupDns m)"
  proof (cases groups)
    case (Some gs)
    then have "lc_nestedGroups config" "names_groups (se_net env) d ?t ?t' (en_dn entry) gs"
      using read(9) names_within [OF _ span prefix_order.refl] by simp_all
    then show ?thesis using assms(3) Some unfolding groups_of_def r(5) by auto
  qed (simp add: groups_of_def r(5))
  ultimately show ?thesis using assms(2) unfolding match_ok_def r(5) by (auto simp: speaks_for_def)
qed

text \<open>What no step of a sign-in takes back: what happened on the wire.\<close>

lemma keeps_wire [keeping]: "keeps (since t) m \<Longrightarrow> keeps (\<lambda>st. since t (ss_wire st)) (on_wire m)"
  by (auto simp: keeps_def on_wire_def case_prod_unfold)

lemma keeps_wire_accounts [keeping]: "keeps (\<lambda>st. since t (ss_wire st)) (on_accounts f)"
  by (auto simp: keeps_def on_accounts_def split: prod.split)

lemma search_grows_all: "keeps (\<lambda>st. since t (ss_wire st))
    (on_wire (if b then bindDirectly env config d i pw else searchThenBind env config d i pw))"
proof -
  have filter0: "keeps (since t) (built_filter template input)" for template input
    by (auto simp: built_filter_def raise_text_def intro: keeping split: sum.split)
  have "keeps (since t) (searchThenBind env config d i pw)"
    unfolding searchThenBind_def
    by (intro keeps_andThen filter0 growing.find_session)
      (auto intro!: keeping growing.verify_session resolve_groups_grow split: option.split)
  moreover have "keeps (since t) (bindDirectly env config d i pw)"
    unfolding bindDirectly_def Let_def
    by (auto simp: raise_text_def intro!: keeping growing.read_session split: sum.split bind_error.split direct_bind_result.split option.split)
  ultimately show ?thesis by (simp add: keeps_wire)
qed

lemma effective_config: "effective env = Inr (Some (config, d)) \<Longrightarrow> ld_config d = config"
  by (auto simp: effective_def with_directory_def bind_err_def make_directory_def split: sum.splits option.splits if_splits)

lemma names_only_grow: "keeps (since t) (namesOnly env address entry config d)"
proof -
  have "keeps (since t) (built_filter template input)" for template input
    by (auto simp: built_filter_def raise_text_def intro: keeping split: sum.split)
  then show ?thesis unfolding namesOnly_def by (intro keeping growing.find_session)
qed

lemma names_only_result:
  assumes "namesOnly env address entry config d w = (Inr True, w')" "ld_config d = config"
    "lc_bindType config \<noteq> SIMPLE \<Longrightarrow> address = identifier \<or> address \<in> set (own_addresses entry)"
  shows "speaks_for env config (wi_trace w) (wi_trace w') identifier entry address"
proof -
  have bind: "lc_bindType config \<noteq> SIMPLE" using assms(1) by (auto simp: namesOnly_def return_def)
  obtain f found where f: "buildFilter (lc_searchFilter config) address = Inr f"
    and found: "findEntry (se_net env) d f w = (Inr found, w')"
    and same: "case found of None \<Rightarrow> False | Some e \<Rightarrow> normalizeDn (en_dn e) = normalizeDn (en_dn entry)"
    using assms(1) bind unfolding namesOnly_def by (auto simp: run_results dest!: built_filter_result)
  obtain e where e: "found = Some e" "normalizeDn (en_dn e) = normalizeDn (en_dn entry)" using same by (cases found) auto
  obtain raw where "answered (se_net env) (wi_trace w) (wi_trace w') (entry_search d f) [raw]" "e = toEntry d raw"
    using find_result [OF found [unfolded e(1)]] by blast
  then have "\<exists>q d raw f. buildFilter (lc_searchFilter config) address = Inr f
      \<and> answered (se_net env) (wi_trace w) (wi_trace w') q [raw] \<and> ld_config d = config \<and> sr_base q = lc_searchBase config
      \<and> sr_scope q = SubScope \<and> sr_filter q = f \<and> normalizeDn (en_dn (toEntry d raw)) = normalizeDn (en_dn entry)"
    using f e(2) assms(2) by (intro exI [of _ "entry_search d f"] exI [of _ d] exI [of _ raw] exI [of _ f]) (simp add: entry_search_def)
  then show ?thesis using assms(3) bind unfolding speaks_for_def by auto
qed

section \<open>What happens to accounts\<close>

definition links :: "user_row list \<Rightarrow> string list" where
  "links users = concat (map (\<lambda>u. case us_directoryId u of None \<Rightarrow> [] | Some i \<Rightarrow> [i]) users)"

text \<open>The keys of the table: identifiers, addresses, and links to directory entries.\<close>

definition links_ok :: "admin_state \<Rightarrow> bool" where
  "links_ok st \<longleftrightarrow> distinct (map us_id (ad_users st)) \<and> distinct (map us_email (ad_users st)) \<and> distinct (links (ad_users st))"

text \<open>What no directory sign-in changes of an account: only a directory account's role, name and time of login, and a link it had not.\<close>

definition same_account :: "user_row \<Rightarrow> user_row \<Rightarrow> bool" where
  "same_account u v \<longleftrightarrow>
     us_id v = us_id u \<and> us_email v = us_email u \<and> us_authSource v = us_authSource u \<and> us_isActive v = us_isActive u
     \<and> us_passwordHash v = us_passwordHash u \<and> us_failedLoginAttempts v = us_failedLoginAttempts u \<and> us_lockedUntil v = us_lockedUntil u
     \<and> (us_directoryId u \<noteq> None \<longrightarrow> us_directoryId v = us_directoryId u)
     \<and> (us_authSource u = ''local'' \<longrightarrow> v = u)"

text \<open>Every account is still there, in its place; those added have a link and no password.\<close>

definition grows :: "user_row list \<Rightarrow> user_row list \<Rightarrow> bool" where
  "grows users users' \<longleftrightarrow>
     (\<exists>old new. users' = old @ new \<and> list_all2 same_account users old
        \<and> list_all (\<lambda>u. us_authSource u \<noteq> ''local'' \<and> us_passwordHash u = None \<and> us_directoryId u \<noteq> None) new)"

lemma same_account_refl [simp]: "same_account u u"
  by (simp add: same_account_def)

lemma same_account_trans: "same_account u v \<Longrightarrow> same_account v w \<Longrightarrow> same_account u w"
  by (auto simp: same_account_def)

lemma grows_refl [simp]: "grows users users"
  unfolding grows_def by (intro exI [of _ users] exI [of _ "[]"]) (simp add: list_all2_refl)

lemma grows_trans:
  assumes "grows a b" "grows b c"
  shows "grows a c"
proof -
  obtain b1 b2 where b: "b = b1 @ b2" "list_all2 same_account a b1"
    "list_all (\<lambda>u. us_authSource u \<noteq> ''local'' \<and> us_passwordHash u = None \<and> us_directoryId u \<noteq> None) b2"
    using assms(1) unfolding grows_def by blast
  obtain c0 c2 where c: "c = c0 @ c2" "list_all2 same_account b c0"
    "list_all (\<lambda>u. us_authSource u \<noteq> ''local'' \<and> us_passwordHash u = None \<and> us_directoryId u \<noteq> None) c2"
    using assms(2) unfolding grows_def by blast
  obtain c1 c12 where c0: "c0 = c1 @ c12" "list_all2 same_account b1 c1" "list_all2 same_account b2 c12"
    using c(2) unfolding b(1) list_all2_append1 by blast
  have "list_all2 same_account a c1" by (rule list_all2_trans [OF same_account_trans b(2) c0(2)])
  moreover have "list_all (\<lambda>u. us_authSource u \<noteq> ''local'' \<and> us_passwordHash u = None \<and> us_directoryId u \<noteq> None) c12"
    using c0(3) b(3) by (induction rule: list_all2_induct) (auto simp: same_account_def)
  ultimately show ?thesis unfolding grows_def c(1) c0(1)
    by (intro exI [of _ c1] exI [of _ "c12 @ c2"]) (use c(3) in simp)
qed

lemma grows_map:
  assumes "\<And>u. u \<in> set users \<Longrightarrow> same_account u (f u)"
  shows "grows users (map f users)"
  unfolding grows_def
  by (intro exI [of _ "map f users"] exI [of _ "[]"]) (use assms in \<open>auto simp: list_all2_conv_all_nth\<close>)

lemma links_in: "i \<in> set (links users) \<longleftrightarrow> (\<exists>u \<in> set users. us_directoryId u = Some i)"
  by (force simp: links_def split: option.splits)

lemma links_append [simp]: "links (a @ b) = links a @ links b"
  by (simp add: links_def)

lemma links_Nil_Cons [simp]:
  "links [] = []" "links (u # users) = (case us_directoryId u of None \<Rightarrow> [] | Some i \<Rightarrow> [i]) @ links users"
  by (simp_all add: links_def)

lemma by_directory_id_None: "by_directory_id i st = None \<longleftrightarrow> i \<notin> set (links (ad_users st))"
  by (auto simp: by_directory_id_def find_unique_def find_None_iff links_in)

lemma by_email_None: "by_email e st = None \<longleftrightarrow> e \<notin> us_email ` set (ad_users st)"
  by (auto simp: by_email_def find_unique_def find_None_iff)

lemma links_link:
  assumes "distinct (map us_id users)" "u \<in> set users" "linkable source (us_id u) u" "i \<notin> set (links users)" "distinct (links users)"
  shows "distinct (links (map (\<lambda>v. if linkable source (us_id u) v then v \<lparr> us_directoryId := Some i \<rparr> else v) users))"
  using assms
proof (induction users)
  case (Cons v users)
  let ?f = "\<lambda>v. if linkable source (us_id u) v then v \<lparr> us_directoryId := Some i \<rparr> else v"
  have rest: "set (links (map ?f users)) \<subseteq> insert i (set (links users))" by (auto simp: links_in split: if_splits)
  show ?case
  proof (cases "us_id v = us_id u")
    case True
    then have "v = u" using Cons.prems(1,2) by auto
    have "map ?f users = users"
    proof (rule map_idI)
      fix x assume "x \<in> set users"
      then have "us_id x \<in> us_id ` set users" by (rule imageI)
      then have "us_id x \<noteq> us_id u" using Cons.prems(1) True by auto
      then show "?f x = x" by (simp add: linkable_def)
    qed
    then show ?thesis using Cons.prems(3-5) \<open>v = u\<close> by (simp add: linkable_def)
  next
    case False
    then have "u \<in> set users" using Cons.prems(2) by auto
    then have "distinct (links (map ?f users))" using Cons by (auto split: option.splits)
    moreover have "us_directoryId v = Some j \<Longrightarrow> j \<noteq> i \<and> j \<notin> set (links users)" for j
      using Cons.prems(4,5) by (auto simp: links_in)
    ultimately show ?thesis using False rest by (auto simp: linkable_def split: option.splits)
  qed
qed simp

lemma links_ok_map:
  assumes "links_ok st" "ad_users st' = map f (ad_users st)" "\<And>u. us_id (f u) = us_id u" "\<And>u. us_email (f u) = us_email u"
    and "distinct (links (map f (ad_users st)))"
  shows "links_ok st' \<and> map us_id (ad_users st') = map us_id (ad_users st)"
proof -
  have "map us_id (map f (ad_users st)) = map us_id (ad_users st)" "map us_email (map f (ad_users st)) = map us_email (ad_users st)"
    unfolding map_map comp_def assms(3,4) by (rule refl)+
  then show ?thesis using assms(1,5) unfolding links_ok_def assms(2) by (simp only: simp_thms)
qed

lemma same_link: "linkable source i u \<Longrightarrow> source \<noteq> ''local'' \<Longrightarrow> same_account u (u \<lparr> us_directoryId := d \<rparr>)"
  by (simp add: same_account_def linkable_def)

lemma link_keeps:
  assumes "links_ok st" "source \<noteq> ''local''" "link source userId i st = (r, st')"
  shows "links_ok st' \<and> grows (ad_users st) (ad_users st') \<and> map us_id (ad_users st') = map us_id (ad_users st)"
proof (cases "list_ex (linkable source userId) (ad_users st) \<and> by_directory_id i st = None")
  case True
  let ?f = "\<lambda>u. if linkable source userId u then u \<lparr> us_directoryId := Some i \<rparr> else u"
  obtain u where u: "u \<in> set (ad_users st)" "linkable source userId u" "us_id u = userId"
    using True by (auto simp: list_ex_iff linkable_def)
  have users: "ad_users st' = map ?f (ad_users st)" using assms(3) True by (auto simp: link_def Let_def audit_directory_def)
  have "distinct (links (map ?f (ad_users st)))"
    using links_link [of "ad_users st" u source i] u assms(1) True by (simp add: links_ok_def by_directory_id_None)
  moreover have "grows (ad_users st) (map ?f (ad_users st))" using assms(2) by (intro grows_map) (auto intro: same_link)
  ultimately show ?thesis using links_ok_map [OF assms(1) users] unfolding users by simp
next
  case False
  then have "st' = st" using assms(3) by (auto simp: link_def Let_def split: if_splits option.splits)
  then show ?thesis using assms(1) by simp
qed

lemma link_account:
  assumes "links_ok st" "link source userId i st = (Some u, st')"
  shows "u \<in> set (ad_users st') \<and> us_authSource u = source \<and> us_directoryId u = Some i"
proof (cases "list_ex (linkable source userId) (ad_users st) \<and> by_directory_id i st = None")
  case True
  let ?f = "\<lambda>u. if linkable source userId u then u \<lparr> us_directoryId := Some i \<rparr> else u"
  have users: "ad_users st' = map ?f (ad_users st)" and u: "find_user userId st' = Some u"
    using assms(2) True by (auto simp: link_def Let_def audit_directory_def find_user_def)
  obtain v where v: "v \<in> set (ad_users st)" "linkable source userId v" using True by (auto simp: list_ex_iff)
  from u have member: "u \<in> set (map ?f (ad_users st))" "us_id u = userId" "u \<in> set (ad_users st')"
    unfolding find_user_def users by (auto dest: find_unique_Some simp del: set_map)
  then obtain w where w: "w \<in> set (ad_users st)" "u = ?f w" "us_id u = userId" "u \<in> set (ad_users st')" by auto
  have "us_id w = us_id v" using w(2,3) v(2) by (auto simp: linkable_def split: if_splits)
  then have "w = v" using assms(1) w(1) v(1) distinct_key_eq unfolding links_ok_def by metis
  then show ?thesis using w v by (auto simp: linkable_def)
next
  case False
  then show ?thesis using assms(2)
    by (auto simp: link_def Let_def linkedTo_def by_directory_id_def find_user_def split: if_splits option.splits dest: find_unique_Some)
qed

lemma create_keeps:
  assumes "links_ok st" "source \<noteq> ''local''" "uuid \<notin> us_id ` set (ad_users st)" "create_account uuid source new st = (r, st')"
  shows "links_ok st' \<and> grows (ad_users st) (ad_users st')"
proof (cases "ad_users st' = ad_users st")
  case True
  then show ?thesis using assms(1) by (simp add: links_ok_def)
next
  case False
  then obtain role u where free: "by_email (normalizeEmail (fa_email new)) st = None" "by_directory_id (fa_directoryId new) st = None"
    and users: "ad_users st' = ad_users st @ [u]" and u: "us_id u = uuid" "us_email u = normalizeEmail (fa_email new)"
      "us_authSource u = source" "us_passwordHash u = None" "us_directoryId u = Some (fa_directoryId new)"
    using assms(4) by (auto simp: create_account_def Let_def audit_directory_def split: option.splits if_splits)
  have "grows (ad_users st) (ad_users st @ [u])"
    unfolding grows_def by (intro exI [of _ "ad_users st"] exI [of _ "[u]"]) (use assms(2) u in \<open>simp add: list_all2_refl\<close>)
  then show ?thesis using assms(1,3) free u by (simp add: links_ok_def users by_email_None by_directory_id_None)
qed

lemma create_result:
  assumes "create_account uuid source new st = (Some u, st')"
  shows "u \<in> set (ad_users st') \<and> us_authSource u = source \<and> us_directoryId u = Some (fa_directoryId new)"
  using assms
  by (auto simp: create_account_def Let_def audit_directory_def linkedTo_def by_directory_id_def split: option.splits if_splits
      dest: find_unique_Some)

lemma record_keeps:
  assumes "links_ok st" "u \<in> set (ad_users st)" "us_authSource u \<noteq> ''local''"
  shows "links_ok (recordLogin now (us_id u) role name st)"
    "grows (ad_users st) (ad_users (recordLogin now (us_id u) role name st))"
proof -
  let ?row = "find_unique (\<lambda>r. ro_name r = role) (ad_roles st)"
  let ?g = "\<lambda>v. v \<lparr> us_role := role, us_roleId := (case ?row of None \<Rightarrow> us_roleId v | Some r \<Rightarrow> ro_id r),
      us_displayName := name, us_lastLoginAt := Some now \<rparr>"
  let ?f = "\<lambda>v. if us_id v = us_id u then ?g v else v"
  have users: "ad_users (recordLogin now (us_id u) role name st) = map ?f (ad_users st)"
    by (simp add: recordLogin_def Let_def update_user_def)
  have "links (map ?f (ad_users st)) = links (ad_users st)"
    unfolding links_def map_map by (intro arg_cong [of _ _ concat] map_cong) auto
  then show "links_ok (recordLogin now (us_id u) role name st)"
    using links_ok_map [OF assms(1) users] assms(1) by (simp add: links_ok_def)
  show "grows (ad_users st) (ad_users (recordLogin now (us_id u) role name st))" unfolding users
  proof (rule grows_map)
    fix v assume "v \<in> set (ad_users st)"
    then have "v = u" if "us_id v = us_id u" using that assms(1,2) distinct_key_eq unfolding links_ok_def by metis
    then show "same_account v (?f v)" using assms(3) by (auto simp: same_account_def)
  qed
qed

section \<open>The account of a sign-in\<close>

text \<open>The same accounts, some with a link they had not.\<close>

definition linked_only :: "admin_state \<Rightarrow> admin_state \<Rightarrow> bool" where
  "linked_only a b \<longleftrightarrow> links_ok b \<and> grows (ad_users a) (ad_users b) \<and> map us_id (ad_users b) = map us_id (ad_users a)"

lemma on_wire_result: "on_wire m st = (r, st') \<Longrightarrow> ss_admin st' = ss_admin st"
  by (auto simp: on_wire_def split: prod.splits)

lemma on_accounts_result: "on_accounts f st = (r, st') \<Longrightarrow> (\<exists>x. r = Inr x \<and> f (ss_admin st) = (x, ss_admin st'))"
  by (auto simp: on_accounts_def split: prod.splits)

lemma keeps_on_wire [keeping]: "keeps (\<lambda>st. Q (ss_admin st)) (on_wire m)"
  by (auto simp: keeps_def on_wire_def split: prod.split)

lemma keeps_on_accounts:
  assumes "\<And>a x a'. Q a \<Longrightarrow> f a = (x, a') \<Longrightarrow> Q a'"
  shows "keeps (\<lambda>st. Q (ss_admin st)) (on_accounts f)"
  using assms by (auto simp: keeps_def on_accounts_def split: prod.split)

lemma keeps_reading [keeping]: "keeps (\<lambda>st. Q (ss_admin st)) (on_accounts (\<lambda>a. (g a, a)))"
  by (rule keeps_on_accounts) simp

lemma linked_only_link:
  assumes "linked_only a b" "link source_ldap i d b = (x, b')"
  shows "linked_only a b'"
proof -
  have "links_ok b' \<and> grows (ad_users b) (ad_users b') \<and> map us_id (ad_users b') = map us_id (ad_users b)"
    using assms by (intro link_keeps) (auto simp: linked_only_def source_ldap_def)
  then show ?thesis using assms(1) grows_trans unfolding linked_only_def by metis
qed

lemma linkable_account_kept:
  "keeps (\<lambda>st. linked_only a (ss_admin st)) (linkable_account env found config d writer addresses)"
proof (induction addresses)
  case (Cons address rest)
  have link: "keeps (\<lambda>st. linked_only a (ss_admin st)) (on_accounts (link source_ldap i j))" for i j
    by (rule keeps_on_accounts) (rule linked_only_link)
  have chosen: "keeps (\<lambda>st. linked_only a (ss_admin st)) (case j of None \<Rightarrow> return (Some (Some x))
      | Some i \<Rightarrow> if b then return (Some (Some x)) else andThen (on_accounts (link source_ldap k i)) (\<lambda>linked. return (Some linked)))"
    for j x b k by (cases j; simp only: option.case; intro keeping link)
  show ?case
    unfolding linkable_account.simps Let_def
  proof (rule keeps_andThen [OF keeps_reading])
    fix acct
    show "keeps (\<lambda>st. linked_only a (ss_admin st)) (case acct of None \<Rightarrow> linkable_account env found config d writer rest
        | Some acct \<Rightarrow> if us_authSource acct \<noteq> source_ldap then linkable_account env found config d writer rest
        else andThen (if Some address \<noteq> dm_vouched found then on_wire (namesOnly env address (dm_entry found) config d) else return True) (\<lambda>named.
          if \<not> named then linkable_account env found config d writer rest
          else if us_directoryId acct \<noteq> None \<and> us_directoryId acct \<noteq> en_directoryId (dm_entry found)
          then linkable_account env found config d writer rest
          else (case en_directoryId (dm_entry found) of None \<Rightarrow> return (Some (Some acct))
                | Some i \<Rightarrow> if \<not> writer \<or> \<not> us_isActive acct then return (Some (Some acct))
                    else andThen (on_accounts (link source_ldap (us_id acct) i)) (\<lambda>linked. return (Some linked)))))"
      by (cases acct; simp only: option.case; intro keeping Cons.IH chosen)
  qed
qed (simp add: keeps_return)

text \<open>The account an address leads to: a directory account, linked to the entry if a link can be written.\<close>

definition signed_in_as :: "bool \<Rightarrow> ldap_entry \<Rightarrow> user_row \<Rightarrow> admin_state \<Rightarrow> bool" where
  "signed_in_as writer entry u a \<longleftrightarrow>
     u \<in> set (ad_users a) \<and> us_authSource u = source_ldap
     \<and> (us_directoryId u \<noteq> None \<longrightarrow> us_directoryId u = en_directoryId entry)
     \<and> (writer \<and> us_isActive u \<longrightarrow> us_directoryId u = en_directoryId entry)"

text \<open>
  Why it is the person's. It was linked to the entry before; or no account was, and it is a directory account without a link, under an
  address that speaks for the entry; or no account was, and it is new, under an address of the entry that no account had.
\<close>

definition unlinked :: "ldap_entry \<Rightarrow> admin_state \<Rightarrow> bool" where
  "unlinked entry a \<longleftrightarrow> (\<forall>v \<in> set (ad_users a). us_directoryId v \<noteq> None \<longrightarrow> us_directoryId v \<noteq> en_directoryId entry)"

definition found_account :: "sign_env \<Rightarrow> ldap_config \<Rightarrow> trace \<Rightarrow> trace \<Rightarrow> string \<Rightarrow> ldap_entry \<Rightarrow> admin_state \<Rightarrow> user_row \<Rightarrow> bool" where
  "found_account env config t t' identifier entry a u \<longleftrightarrow>
     (\<exists>v \<in> set (ad_users a). us_id v = us_id u \<and> us_email v = us_email u \<and> us_authSource v = source_ldap
        \<and> (us_directoryId v \<noteq> None \<and> us_directoryId v = en_directoryId entry
           \<or> unlinked entry a \<and> us_directoryId v = None \<and> speaks_for env config t t' identifier entry (us_email v)))"

definition new_account :: "sign_env \<Rightarrow> ldap_config \<Rightarrow> bool \<Rightarrow> ldap_entry \<Rightarrow> admin_state \<Rightarrow> user_row \<Rightarrow> bool" where
  "new_account env config writer entry a u \<longleftrightarrow>
     writer \<and> lc_autoCreateAccounts config \<and> unlinked entry a \<and> us_id u = se_uuid env
     \<and> us_email u \<in> lowered ` (\<lambda>v. with_default v []) ` {en_email entry, en_upn entry, en_username entry}
     \<and> us_email u \<notin> us_email ` set (ad_users a)"

lemma found_within:
  "found_account env config t t' identifier entry a u \<Longrightarrow> prefix s t \<Longrightarrow> prefix t' s' \<Longrightarrow> found_account env config s s' identifier entry a u"
  unfolding found_account_def using speaks_within by blast

lemma linkable_account_grow: "keeps (\<lambda>st. since t (ss_wire st)) (linkable_account env found config d writer addresses)"
proof (induction addresses)
  case (Cons address rest)
  have chosen: "keeps (\<lambda>st. since t (ss_wire st)) (case j of None \<Rightarrow> return (Some (Some x))
      | Some i \<Rightarrow> if b then return (Some (Some x)) else andThen (on_accounts (link source_ldap k i)) (\<lambda>linked. return (Some linked)))"
    for j x b k by (cases j; simp only: option.case; intro keeping)
  show ?case
    unfolding linkable_account.simps Let_def
  proof (rule keeps_andThen [OF keeps_wire_accounts])
    fix acct
    show "keeps (\<lambda>st. since t (ss_wire st)) (case acct of None \<Rightarrow> linkable_account env found config d writer rest
        | Some acct \<Rightarrow> if us_authSource acct \<noteq> source_ldap then linkable_account env found config d writer rest
        else andThen (if Some address \<noteq> dm_vouched found then on_wire (namesOnly env address (dm_entry found) config d) else return True) (\<lambda>named.
          if \<not> named then linkable_account env found config d writer rest
          else if us_directoryId acct \<noteq> None \<and> us_directoryId acct \<noteq> en_directoryId (dm_entry found)
          then linkable_account env found config d writer rest
          else (case en_directoryId (dm_entry found) of None \<Rightarrow> return (Some (Some acct))
                | Some i \<Rightarrow> if \<not> writer \<or> \<not> us_isActive acct then return (Some (Some acct))
                    else andThen (on_accounts (link source_ldap (us_id acct) i)) (\<lambda>linked. return (Some linked)))))"
      by (cases acct; simp only: option.case; intro keeping names_only_grow Cons.IH chosen)
  qed
qed (simp add: keeps_return)

lemma link_fresh:
  assumes "links_ok a" "link source userId i a = (Some u, a')" "by_directory_id i a = None"
  shows "\<exists>v \<in> set (ad_users a). us_id v = userId \<and> us_id u = userId \<and> us_email u = us_email v"
proof (cases "list_ex (linkable source userId) (ad_users a)")
  case True
  let ?f = "\<lambda>u. if linkable source userId u then u \<lparr> us_directoryId := Some i \<rparr> else u"
  have "find_user userId a' = Some u" and users: "ad_users a' = map ?f (ad_users a)"
    using assms(2,3) True by (auto simp: link_def Let_def audit_directory_def find_user_def)
  then have "u \<in> set (map ?f (ad_users a))" "us_id u = userId" unfolding find_user_def users by (auto dest: find_unique_Some simp del: set_map)
  then show ?thesis by (auto split: if_splits)
next
  case False
  then have "find_user userId a = Some u" using assms(2) by (auto simp: link_def split: option.splits if_splits)
  then show ?thesis unfolding find_user_def by (auto dest: find_unique_Some)
qed

lemma unlinked_id: "unlinked entry a \<Longrightarrow> en_directoryId entry = Some i \<Longrightarrow> by_directory_id i a = None"
  by (auto simp: unlinked_def by_directory_id_None links_in)

lemma linkable_account_result:
  assumes "linkable_account env found config d writer addresses st = (Inr (Some (Some u)), st')" "links_ok (ss_admin st)"
    and "unlinked (dm_entry found) (ss_admin st)" "ld_config d = config" "prefix t (wi_trace (ss_wire st))"
    and "\<And>address. dm_vouched found = Some address \<Longrightarrow> speaks_for env config t (wi_trace (ss_wire st)) identifier (dm_entry found) address"
    and "\<And>address. address \<in> set addresses \<Longrightarrow> lc_bindType config \<noteq> SIMPLE \<Longrightarrow> address = identifier \<or> address \<in> set (own_addresses (dm_entry found))"
  shows "signed_in_as writer (dm_entry found) u (ss_admin st')
    \<and> found_account env config t (wi_trace (ss_wire st')) identifier (dm_entry found) (ss_admin st) u"
  using assms
proof (induction addresses arbitrary: st)
  case (Cons address rest)
  let ?id = "en_directoryId (dm_entry found)"
  let ?next = "linkable_account env found config d writer rest"
  let ?t = "\<lambda>st. wi_trace (ss_wire st)"
  note prems = Cons.prems
  have next_ok: "signed_in_as writer (dm_entry found) u (ss_admin st')
      \<and> found_account env config t (?t st') identifier (dm_entry found) (ss_admin st) u"
    if "?next st1 = (Inr (Some (Some u)), st')" "ss_admin st1 = ss_admin st" "prefix (?t st) (?t st1)" for st1
  proof -
    have "prefix t (?t st1)" using that(3) prems(5) prefix_order.trans by blast
    moreover have "dm_vouched found = Some address \<Longrightarrow> speaks_for env config t (?t st1) identifier (dm_entry found) address" for address
      using speaks_within [OF prems(6) prefix_order.refl that(3)] .
    ultimately show ?thesis using Cons.IH [OF that(1)] prems that(2) by simp
  qed
  from prems(1) obtain acct where body: "(case acct of None \<Rightarrow> ?next | Some acct \<Rightarrow>
        if us_authSource acct \<noteq> source_ldap then ?next
        else andThen (if Some address \<noteq> dm_vouched found then on_wire (namesOnly env address (dm_entry found) config d) else return True) (\<lambda>named.
          if \<not> named then ?next
          else if us_directoryId acct \<noteq> None \<and> us_directoryId acct \<noteq> ?id then ?next
          else (case ?id of None \<Rightarrow> return (Some (Some acct))
                | Some i \<Rightarrow> if \<not> writer \<or> \<not> us_isActive acct then return (Some (Some acct))
                    else andThen (on_accounts (link source_ldap (us_id acct) i)) (\<lambda>linked. return (Some linked))))) st = (Inr (Some (Some u)), st')"
    and acct: "acct = by_email address (ss_admin st)"
    unfolding linkable_account.simps Let_def andThen_result by (auto simp: on_accounts_def)
  show ?case
  proof (cases "acct = None \<or> us_authSource (the acct) \<noteq> source_ldap")
    case True
    then have "?next st = (Inr (Some (Some u)), st')" using body by (cases acct) auto
    then show ?thesis by (rule next_ok) simp_all
  next
    case False
    then obtain x where x: "acct = Some x" "us_authSource x = source_ldap" by auto
    from body obtain named st1
      where named: "(if Some address \<noteq> dm_vouched found then on_wire (namesOnly env address (dm_entry found) config d) else return True) st = (Inr named, st1)"
      and rest: "(if \<not> named then ?next
          else if us_directoryId x \<noteq> None \<and> us_directoryId x \<noteq> ?id then ?next
          else (case ?id of None \<Rightarrow> return (Some (Some x))
                | Some i \<Rightarrow> if \<not> writer \<or> \<not> us_isActive x then return (Some (Some x))
                    else andThen (on_accounts (link source_ldap (us_id x) i)) (\<lambda>linked. return (Some linked)))) st1 = (Inr (Some (Some u)), st')"
      using x unfolding x(1) option.case if_not_P [OF not_not [THEN iffD2, OF x(2)]] andThen_result by blast
    have same: "ss_admin st1 = ss_admin st"
      using named by (auto simp: return_def dest: on_wire_result split: if_splits)
    have asked: "prefix (?t st) (?t st1)"
      using keepsD [OF keeps_if [OF keeps_wire [OF names_only_grow] keeps_return] named, of "?t st"] by (simp add: since_def)
    have member: "x \<in> set (ad_users (ss_admin st))" "us_email x = address"
      using find_unique_Some [OF acct [unfolded x(1) by_email_def, symmetric]] by blast+
    show ?thesis
    proof (cases "\<not> named \<or> us_directoryId x \<noteq> None \<and> us_directoryId x \<noteq> ?id")
      case True
      then have "?next st1 = (Inr (Some (Some u)), st')" using rest by (simp split: if_splits)
      then show ?thesis by (rule next_ok [OF _ same asked])
    next
      case use_it: False
      have none: "us_directoryId x = None" using use_it prems(3) member(1) unfolding unlinked_def by blast
      have speaks: "speaks_for env config t (?t st1) identifier (dm_entry found) address"
      proof (cases "Some address = dm_vouched found")
        case True
        then show ?thesis using speaks_within [OF prems(6) prefix_order.refl asked] by simp
      next
        case False
        then obtain w' where "namesOnly env address (dm_entry found) config d (ss_wire st) = (Inr True, w')" "ss_wire st1 = w'"
          using named use_it by (auto simp: on_wire_def split: prod.splits)
        then have "speaks_for env config (?t st) (?t st1) identifier (dm_entry found) address"
          using names_only_result [OF _ prems(4)] prems(7) [of address] by auto
        then show ?thesis by (rule speaks_within [OF _ prems(5) prefix_order.refl])
      qed
      have found_it: "found_account env config t (?t st1) identifier (dm_entry found) (ss_admin st) u"
        if "us_id u = us_id x" "us_email u = address"
        unfolding found_account_def using that member x(2) none prems(3) speaks by (intro bexI [of _ x]) auto
      show ?thesis
      proof (cases "?id = None \<or> \<not> writer \<or> \<not> us_isActive x")
        case True
        then have "u = x" "st' = st1" using rest use_it by (auto simp: return_def split: option.splits if_splits)
        then show ?thesis using True use_it x member same found_it by (auto simp: signed_in_as_def)
      next
        case False
        then obtain i where i: "?id = Some i" by auto
        then have "on_accounts (link source_ldap (us_id x) i) st1 = (Inr (Some u), st')"
          using rest use_it False by (auto simp: andThen_result return_def)
        then have l: "link source_ldap (us_id x) i (ss_admin st) = (Some u, ss_admin st')" "ss_wire st' = ss_wire st1"
          using same by (auto simp: on_accounts_def split: prod.splits)
        obtain v where v: "v \<in> set (ad_users (ss_admin st))" "us_id v = us_id x" "us_id u = us_id x" "us_email u = us_email v"
          using link_fresh [OF prems(2) l(1) unlinked_id [OF prems(3) i]] by blast
        have "v = x" using v(1,2) member(1) prems(2) distinct_key_eq unfolding links_ok_def by metis
        then show ?thesis using link_account [OF prems(2) l(1)] i v found_it member(2) l(2) by (auto simp: signed_in_as_def)
      qed
    qed
  qed
qed (simp add: return_def)

definition signs_in :: "admin_state \<Rightarrow> admin_state \<Rightarrow> bool" where
  "signs_in a b \<longleftrightarrow> links_ok b \<and> grows (ad_users a) (ad_users b)"

lemma linked_signs_in: "linked_only a b \<Longrightarrow> signs_in a b"
  by (simp add: linked_only_def signs_in_def)

lemma create_new:
  assumes "create_account uuid source new a = (Some u, a')" "by_directory_id (fa_directoryId new) a = None"
  shows "us_id u = uuid \<and> us_email u = normalizeEmail (fa_email new) \<and> us_email u \<notin> us_email ` set (ad_users a)"
  using assms by (auto simp: create_account_def Let_def linkedTo_def by_email_None split: option.splits if_splits)

lemma linkable_undecided:
  "linkable_account env found config d writer addresses st = (Inr None, st') \<Longrightarrow> ss_admin st' = ss_admin st"
proof (induction addresses arbitrary: st)
  case (Cons address rest)
  then show ?case
    unfolding linkable_account.simps Let_def andThen_result
    by (auto simp: on_accounts_def andThen_result return_def split: option.splits if_splits dest!: on_wire_result)
qed (simp add: return_def)

lemma created_account:
  assumes "createdAccount env found role config writer st = (r, st')" "links_ok a" "ss_admin st = a"
    and "se_uuid env \<notin> us_id ` set (ad_users a)" "unlinked (dm_entry found) a"
  shows "signs_in a (ss_admin st') \<and> ss_wire st' = ss_wire st
    \<and> (r = Inr (Some u) \<longrightarrow> signed_in_as writer (dm_entry found) u (ss_admin st') \<and> new_account env config writer (dm_entry found) a u)"
proof (cases "st' = st \<and> r = Inr None")
  case True
  then show ?thesis using assms(2,3) by (simp add: signs_in_def)
next
  case False
  let ?entry = "dm_entry found"
  obtain i new where new: "en_directoryId ?entry = Some i" "fa_directoryId new = i" "writer \<and> lc_autoCreateAccounts config"
      "fa_email new \<in> lowered ` (\<lambda>v. with_default v []) ` {en_email ?entry, en_upn ?entry, en_username ?entry}"
    and run: "on_accounts (create_account (se_uuid env) source_ldap new) st = (r, st')"
  proof -
    have on: "writer \<and> lc_autoCreateAccounts config" using assms(1) False by (auto simp: createdAccount_def Let_def return_def split: if_splits)
    obtain i where i: "en_directoryId ?entry = Some i"
      using assms(1) False on by (cases "en_directoryId ?entry") (auto simp: createdAccount_def return_def)
    note body = assms(1) [unfolded createdAccount_def Let_def if_P [OF on] i option.case]
    show thesis
    proof (cases "List.find (accountEmail env) (map (\<lambda>v. lowered (with_default v []))
        [en_email ?entry, en_upn ?entry, en_username ?entry])")
      case None
      then show thesis using body False by (simp add: return_def)
    next
      case (Some email)
      then have "email \<in> set (map (\<lambda>v. lowered (with_default v [])) [en_email ?entry, en_upn ?entry, en_username ?entry])"
        by (metis find_Some_iff nth_mem)
      then have "email \<in> lowered ` (\<lambda>v. with_default v []) ` {en_email ?entry, en_upn ?entry, en_username ?entry}" by auto
      then show thesis by (intro that [OF i _ on _ body [unfolded Some option.case]]) simp_all
    qed
  qed
  from on_accounts_result [OF run] obtain x where x: "r = Inr x" "create_account (se_uuid env) source_ldap new (ss_admin st) = (x, ss_admin st')"
    by blast
  have wire: "ss_wire st' = ss_wire st" using run by (auto simp: on_accounts_def split: prod.splits)
  have "links_ok (ss_admin st') \<and> grows (ad_users a) (ad_users (ss_admin st'))"
    using create_keeps [OF assms(2) _ _ x(2) [unfolded assms(3)]] assms(4) by (simp add: source_ldap_def)
  then have "signs_in a (ss_admin st')" by (simp add: signs_in_def)
  moreover have "signed_in_as writer ?entry u (ss_admin st') \<and> new_account env config writer ?entry a u" if "x = Some u"
  proof -
    have made: "create_account (se_uuid env) source_ldap new a = (Some u, ss_admin st')" using x(2) assms(3) that by simp
    have "by_directory_id (fa_directoryId new) a = None" using unlinked_id [OF assms(5) new(1)] new(2) by simp
    note create_new [OF made this] create_result [OF made]
    moreover have "normalizeEmail (fa_email new) = fa_email new"
      using new(4) by (auto simp: normalizeEmail_def lowered_def [symmetric])
    ultimately show ?thesis using new assms(5) by (auto simp: signed_in_as_def new_account_def)
  qed
  ultimately show ?thesis using x(1) wire by simp
qed

lemma account_for:
  assumes "accountFor env found role config d writer st = (r, st')" "links_ok (ss_admin st)"
    and "se_uuid env \<notin> us_id ` set (ad_users (ss_admin st))" "ld_config d = config"
    and "\<And>address. dm_vouched found = Some address \<Longrightarrow> speaks_for env config t (wi_trace (ss_wire st)) identifier (dm_entry found) address"
    and "prefix t (wi_trace (ss_wire st))" "lowered identifier = identifier"
  shows "signs_in (ss_admin st) (ss_admin st') \<and> prefix (wi_trace (ss_wire st)) (wi_trace (ss_wire st'))
    \<and> (r = Inr (Some u) \<longrightarrow> signed_in_as writer (dm_entry found) u (ss_admin st')
         \<and> (found_account env config t (wi_trace (ss_wire st')) identifier (dm_entry found) (ss_admin st) u
            \<or> new_account env config writer (dm_entry found) (ss_admin st) u))"
proof -
  let ?entry = "dm_entry found" and ?id = "en_directoryId (dm_entry found)" and ?a = "ss_admin st"
  let ?next = "\<lambda>decided. case decided of Some r \<Rightarrow> return r | None \<Rightarrow> createdAccount env found role config writer"
  have start: "linked_only ?a ?a" using assms(2) by (simp add: linked_only_def)
  show ?thesis
  proof (cases "Option.bind ?id (\<lambda>i. by_directory_id i ?a)")
    case (Some acct)
    then obtain i where i: "?id = Some i" "by_directory_id i ?a = Some acct" by (auto simp: bind_eq_Some_conv)
    then have acct: "acct \<in> set (ad_users ?a) \<and> us_directoryId acct = Some i" by (auto simp: by_directory_id_def dest: find_unique_Some)
    have "r = Inr (if us_authSource acct = source_ldap then Some acct else None)" "st' = st"
      using assms(1) Some by (auto simp: accountFor_def andThen_def on_accounts_def return_def)
    then show ?thesis using acct i linked_signs_in [OF start] by (auto simp: signed_in_as_def found_account_def)
  next
    case None
    then have free: "unlinked ?entry ?a"
      by (cases ?id) (auto simp: unlinked_def by_directory_id_None links_in)
    obtain r0 st0 where run: "linkable_account env found config d writer (addresses_of env found) st = (r0, st0)"
      by (cases "linkable_account env found config d writer (addresses_of env found) st") blast
    have kept: "linked_only ?a (ss_admin st0)"
      using linkable_account_kept [of ?a env found config d writer] run start unfolding keeps_def by (metis snd_conv)
    have grew: "prefix (wi_trace (ss_wire st)) (wi_trace (ss_wire st0))"
      using keepsD [OF linkable_account_grow run, of "wi_trace (ss_wire st)"] by (simp add: since_def)
    have rest: "(case r0 of Inl e \<Rightarrow> (Inl e, st0) | Inr decided \<Rightarrow> ?next decided st0) = (r, st')"
      using assms(1) None run by (simp add: accountFor_def andThen_def on_accounts_def)
    show ?thesis
    proof (cases "r0 = Inr None")
      case True
      then have "ss_admin st0 = ?a" using linkable_undecided run by simp
      then show ?thesis using rest created_account [OF _ assms(2) _ assms(3) free] grew True by simp
    next
      case False
      then have same: "st' = st0" "r = (case r0 of Inl e \<Rightarrow> Inl e | Inr decided \<Rightarrow> Inr (the decided))"
        using rest by (auto simp: return_def split: sum.splits option.splits)
      have decided: "r0 = Inr (Some (Some u))" if "r = Inr (Some u)" using that same(2) False by (auto split: sum.splits)
      have named: "address = identifier \<or> address \<in> set (own_addresses ?entry)"
        if "address \<in> set (addresses_of env found)" "lc_bindType config \<noteq> SIMPLE" for address
      proof -
        have "(\<exists>v. address = lowered v \<and> dm_vouched found = Some v) \<or> address \<in> set (own_addresses ?entry)"
          using that(1) by (auto simp: addresses_of_def own_addresses_def split: option.splits)
        moreover have "lowered v = v" if "v \<in> set (own_addresses ?entry)" for v
          using that by (auto simp: own_addresses_def)
        ultimately show ?thesis using assms(5,7) that(2) by (fastforce simp: speaks_for_def)
      qed
      have "signed_in_as writer ?entry u (ss_admin st0) \<and> found_account env config t (wi_trace (ss_wire st0)) identifier ?entry ?a u"
        if "r = Inr (Some u)"
        by (rule linkable_account_result [OF run [unfolded decided [OF that]] assms(2) free assms(4,6,5) named])
      then show ?thesis using same(1) linked_signs_in [OF kept] grew by blast
    qed
  qed
qed

lemma accepted_account:
  assumes "accept env found resolved u st = (r, st')" "links_ok (ss_admin st)" "u \<in> set (ad_users (ss_admin st))"
    "us_authSource u = source_ldap" "us_isActive u"
  shows "signs_in (ss_admin st) (ss_admin st') \<and>
    (r = Inr (Inr p) \<longrightarrow> pr_userId p = us_id u \<and> pr_role p = rr_primary resolved
      \<and> pr_roles p = (if length (rr_all resolved) > 1 then Some (rr_all resolved) else None) \<and> pr_authSource p = source_ldap
      \<and> resolve_ldap (ss_admin st') (us_id u) = Some (p \<lparr> pr_roles := None \<rparr>))
    \<and> (\<exists>v \<in> set (ad_users (ss_admin st')). us_id v = us_id u \<and> us_email v = us_email u
          \<and> us_authSource v = source_ldap \<and> us_directoryId v = us_directoryId u \<and> us_isActive v)
    \<and> ss_wire st' = ss_wire st"
proof -
  let ?name = "with_default (en_displayName (dm_entry found)) (us_displayName u)"
  have st': "ss_admin st' = recordLogin (se_now env) (us_id u) (rr_primary resolved) ?name (ss_admin st)"
    and r: "r = Inr (Inr \<lparr> pr_userId = us_id u, pr_email = us_email u, pr_displayName = ?name,
          pr_role = rr_primary resolved, pr_roles = (if length (rr_all resolved) > 1 then Some (rr_all resolved) else None),
          pr_authSource = source_ldap, pr_scopedGroupIds = None, pr_scopedEnvironments = None \<rparr>)"
    using assms(1) by (auto simp: accept_def Let_def andThen_def on_accounts_def return_def)
  have "us_authSource u \<noteq> ''local''" using assms(4) by (simp add: source_ldap_def)
  then have "signs_in (ss_admin st) (ss_admin st')"
    unfolding signs_in_def st' using record_keeps [OF assms(2,3)] by blast
  moreover have "find_user (us_id u) (ss_admin st) = Some u"
    using find_key_iff [of us_id "ad_users (ss_admin st)" "us_id u" u] assms(2,3) by (simp add: find_user_def links_ok_def)
  then have "resolve_ldap (ss_admin st') (us_id u) = Some (the (case r of Inr (Inr p) \<Rightarrow> Some p) \<lparr> pr_roles := None \<rparr>)"
    using assms(5) unfolding st' r
    by (simp add: resolve_ldap_def recordLogin_def Let_def find_user_def update_user_def find_unique_map_keeps)
  moreover have "\<exists>v \<in> set (ad_users (ss_admin st')). us_id v = us_id u \<and> us_email v = us_email u
      \<and> us_authSource v = source_ldap \<and> us_directoryId v = us_directoryId u \<and> us_isActive v"
  proof -
    let ?f = "\<lambda>v. if us_id v = us_id u then v \<lparr> us_role := rr_primary resolved,
      us_roleId := (case find_unique (\<lambda>r. ro_name r = rr_primary resolved) (ad_roles (ss_admin st)) of None \<Rightarrow> us_roleId v | Some r \<Rightarrow> ro_id r),
      us_displayName := ?name, us_lastLoginAt := Some (se_now env) \<rparr> else v"
    have "ad_users (ss_admin st') = map ?f (ad_users (ss_admin st))"
      unfolding st' by (simp add: recordLogin_def Let_def update_user_def)
    moreover have "?f u \<in> set (map ?f (ad_users (ss_admin st)))" using imageI [OF assms(3), of ?f] unfolding set_map .
    ultimately show ?thesis using assms(4,5) by (intro bexI [of _ "?f u"]) simp_all
  qed
  moreover have "ss_wire st' = ss_wire st"
    using assms(1) by (auto simp: accept_def Let_def andThen_def on_accounts_def return_def)
  ultimately show ?thesis using r by auto
qed

text \<open>What a successful sign-in rests on: the proof of who it is, the role of a group, and the account it opens.\<close>

definition let_in :: "sign_env \<Rightarrow> bool \<Rightarrow> credentials \<Rightarrow> sign_state \<Rightarrow> sign_state \<Rightarrow> principal \<Rightarrow> bool" where
  "let_in env writer cr st st' p \<longleftrightarrow>
     (let t = wi_trace (ss_wire st); t' = wi_trace (ss_wire st'); identifier = lowered (cr_email cr)
      in \<exists>config d entry groups.
        effective env = Inr (Some (config, d))
        \<and> proven env config t t' identifier (cr_password cr) entry
        \<and> groups_of env config t t' entry groups
        \<and> best_of (mapped config groups) (pr_role p) (set (pr_role p # with_default (pr_roles p) []))
        \<and> (\<exists>u \<in> set (ad_users (ss_admin st')). us_id u = pr_userId p \<and> us_authSource u = source_ldap \<and> us_isActive u
              \<and> (us_directoryId u \<noteq> None \<longrightarrow> us_directoryId u = en_directoryId entry)
              \<and> (writer \<longrightarrow> us_directoryId u = en_directoryId entry)
              \<and> (found_account env config t t' identifier entry (ss_admin st) u
                 \<or> new_account env config writer entry (ss_admin st) u))
        \<and> pr_authSource p = source_ldap
        \<and> resolve_ldap (ss_admin st') (pr_userId p) = Some (p \<lparr> pr_roles := None \<rparr>))"

lemma granted_roles:
  assumes "resolveRoles groups config = Some r"
  shows "best_of (mapped config groups) (rr_primary r)
    (set (rr_primary r # with_default (if length (rr_all r) > 1 then Some (rr_all r) else None) []))"
proof -
  let ?roles = "mapped config groups"
  have r: "best_of ?roles (rr_primary r) (set (rr_all r))" "(\<exists>x \<in> ?roles. \<not> isBuiltIn x) \<or> rr_all r = [rr_primary r]"
    using resolved_roles [of config groups] assms by simp_all
  have "set (rr_primary r # with_default (if length (rr_all r) > 1 then Some (rr_all r) else None) []) = set (rr_all r)"
  proof (cases "length (rr_all r) > 1")
    case True
    then show ?thesis using r by (auto simp: best_of_def with_default_def split: if_splits)
  next
    case False
    have member: "rr_primary r \<in> set (rr_all r)" using r by (auto simp: best_of_def split: if_splits)
    moreover have "rr_all r = [hd (rr_all r)]" using False member by (cases "rr_all r") (auto simp: Suc_le_eq)
    ultimately have "rr_all r = [rr_primary r]" by (metis empty_iff empty_set set_ConsD)
    then show ?thesis by (simp add: with_default_def)
  qed
  then show ?thesis using r(1) by simp
qed

lemma return_apply: "return x st = (Inr x, st)"
  by (simp add: return_def)

lemma sign_in_found:
  assumes "on_wire (if lc_bindType config = SIMPLE then bindDirectly env config d i pw else searchThenBind env config d i pw) st = (Inr (Some m), st')"
    "ld_config d = config"
  shows "match_ok env config (wi_trace (ss_wire st)) (wi_trace (ss_wire st')) i pw m"
  using assms search_ok bind_ok by (auto simp: on_wire_def split: prod.splits if_splits)

lemma sign_in_authorized:
  assumes body: "andThen (accountFor env found (rr_primary resolved) config d writer) (\<lambda>identity. case identity of
        None \<Rightarrow> return (Inl INVALID_CREDENTIALS)
      | Some identity \<Rightarrow> if \<not> us_isActive identity then return (Inl ACCOUNT_DISABLED) else accept env found resolved identity) st = (r, st')"
    and ok: "links_ok (ss_admin st)" "se_uuid env \<notin> us_id ` set (ad_users (ss_admin st))" "ld_config d = config"
    and vouched: "\<And>address. dm_vouched found = Some address \<Longrightarrow>
      speaks_for env config t (wi_trace (ss_wire st)) identifier (dm_entry found) address"
    and typed: "prefix t (wi_trace (ss_wire st))" "lowered identifier = identifier"
  shows "signs_in (ss_admin st) (ss_admin st') \<and> prefix (wi_trace (ss_wire st)) (wi_trace (ss_wire st'))
    \<and> (r = Inr (Inr p) \<longrightarrow>
      pr_role p = rr_primary resolved \<and> pr_roles p = (if length (rr_all resolved) > 1 then Some (rr_all resolved) else None)
      \<and> pr_authSource p = source_ldap
      \<and> resolve_ldap (ss_admin st') (pr_userId p) = Some (p \<lparr> pr_roles := None \<rparr>)
      \<and> (\<exists>u \<in> set (ad_users (ss_admin st')). us_id u = pr_userId p \<and> us_authSource u = source_ldap \<and> us_isActive u
           \<and> (us_directoryId u \<noteq> None \<longrightarrow> us_directoryId u = en_directoryId (dm_entry found))
           \<and> (writer \<longrightarrow> us_directoryId u = en_directoryId (dm_entry found))
           \<and> (found_account env config t (wi_trace (ss_wire st')) identifier (dm_entry found) (ss_admin st) u
              \<or> new_account env config writer (dm_entry found) (ss_admin st) u)))"
proof -
  obtain r1 st1 where run: "accountFor env found (rr_primary resolved) config d writer st = (r1, st1)"
    by (cases "accountFor env found (rr_primary resolved) config d writer st") blast
  note found = account_for [OF run ok vouched typed]
  show ?thesis
  proof (cases "\<exists>u. r1 = Inr (Some u) \<and> us_isActive u")
    case True
    then obtain u where u: "r1 = Inr (Some u)" "us_isActive u" by blast
    with body run have accepted: "accept env found resolved u st1 = (r, st')" by (simp add: andThen_def)
    have s1: "signs_in (ss_admin st) (ss_admin st1)" "signed_in_as writer (dm_entry found) u (ss_admin st1)"
      "prefix (wi_trace (ss_wire st)) (wi_trace (ss_wire st1))"
      "found_account env config t (wi_trace (ss_wire st1)) identifier (dm_entry found) (ss_admin st) u
        \<or> new_account env config writer (dm_entry found) (ss_admin st) u" using found u(1) by simp_all
    have member: "links_ok (ss_admin st1)" "u \<in> set (ad_users (ss_admin st1))" "us_authSource u = source_ldap"
      using s1(1,2) by (simp_all add: signs_in_def signed_in_as_def)
    note result = accepted_account [OF accepted member u(2)]
    have "signs_in (ss_admin st) (ss_admin st')" using result s1(1) grows_trans unfolding signs_in_def by blast
    moreover have "found_account env config t (wi_trace (ss_wire st')) identifier (dm_entry found) (ss_admin st) v
        \<or> new_account env config writer (dm_entry found) (ss_admin st) v" if "us_id v = us_id u" "us_email v = us_email u" for v
      using s1(4) result that by (simp add: found_account_def new_account_def)
    moreover have "prefix (wi_trace (ss_wire st)) (wi_trace (ss_wire st'))" using result s1(3) by simp
    moreover obtain v where "v \<in> set (ad_users (ss_admin st'))" "us_id v = us_id u" "us_email v = us_email u"
        "us_authSource v = source_ldap" "us_directoryId v = us_directoryId u" "us_isActive v"
      using result by blast
    ultimately show ?thesis
      using result [of p] s1(2) u(2) unfolding signed_in_as_def by (intro conjI impI bexI [of _ v]) simp_all
  next
    case False
    then have "st' = st1 \<and> r \<noteq> Inr (Inr p)"
      using body run by (auto simp: andThen_def return_def split: sum.splits option.splits if_splits)
    then show ?thesis using found by simp
  qed
qed

lemma sign_in_run:
  assumes "signIn env writer cr st = (r, st')" "links_ok (ss_admin st)" "se_uuid env \<notin> us_id ` set (ad_users (ss_admin st))"
  shows "(\<exists>x. r = Inr x) \<and> signs_in (ss_admin st) (ss_admin st') \<and> (r = Inr (Inr p) \<longrightarrow> let_in env writer cr st st' p)"
proof -
  have refl: "signs_in (ss_admin st) (ss_admin st)" using assms(2) by (simp add: signs_in_def)
  show ?thesis
  proof (cases "cr_password cr = []")
    case True
    then show ?thesis using assms(1) refl by (auto simp: signIn_def return_def)
  next
    case pw: False
    show ?thesis
    proof (cases "\<exists>config d. effective env = Inr (Some (config, d))")
      case False
      then show ?thesis using assms(1) pw refl
        by (auto simp: signIn_def Let_def catching_def throw_def return_def split: sum.splits option.splits)
    next
      case True
      then obtain config d where e: "effective env = Inr (Some (config, d))" by blast
      note config = effective_config [OF e]
      let ?i = "lowered (cr_email cr)"
      let ?find = "on_wire (if lc_bindType config = SIMPLE then bindDirectly env config d ?i (cr_password cr)
          else searchThenBind env config d ?i (cr_password cr))"
      obtain r1 st1 where run: "?find st = (r1, st1)" by (cases "?find st") blast
      then have same: "ss_admin st1 = ss_admin st" by (rule on_wire_result)
      show ?thesis
      proof (cases "\<exists>m resolved. r1 = Inr (Some m) \<and> resolveRoles (dm_groupDns m) config = Some resolved")
        case False
        then have "st' = st1 \<and> (\<exists>x. r = Inr (Inl x))" using assms(1) pw e run
          by (auto simp: signIn_def Let_def catching_def andThen_def return_def split: sum.splits option.splits)
        then show ?thesis using same refl by auto
      next
        case True
        then obtain m resolved where m: "r1 = Inr (Some m)" "resolveRoles (dm_groupDns m) config = Some resolved" by blast
        let ?body = "andThen (accountFor env m (rr_primary resolved) config d writer) (\<lambda>identity. case identity of
            None \<Rightarrow> return (Inl INVALID_CREDENTIALS)
          | Some identity \<Rightarrow> if \<not> us_isActive identity then return (Inl ACCOUNT_DISABLED) else accept env m resolved identity)"
        obtain r2 st2 where body: "?body st1 = (r2, st2)" by (cases "?body st1") blast
        have result: "st' = st2 \<and> r = (case r2 of Inl x \<Rightarrow> Inr (Inl PROVIDER_ERROR) | Inr x \<Rightarrow> Inr x)"
          using assms(1) pw e run m body
          by (cases r2) (auto simp: signIn_def Let_def catching_def andThen_def [of ?find] return_apply)
        let ?t = "wi_trace (ss_wire st)" and ?t1 = "wi_trace (ss_wire st1)" and ?t2 = "wi_trace (ss_wire st2)"
        have ok: "match_ok env config ?t ?t1 ?i (cr_password cr) m" by (rule sign_in_found [OF run [unfolded m(1)] config])
        have grew: "prefix ?t ?t1"
          using keepsD [of "\<lambda>st. since ?t (ss_wire st)" ?find, OF search_grows_all run] by (simp add: since_def)
        have vouched: "dm_vouched m = Some address \<Longrightarrow> speaks_for env config ?t ?t1 ?i (dm_entry m) address" for address
          using ok by (simp add: match_ok_def)
        note all = sign_in_authorized [OF body, unfolded same, OF assms(2,3) config vouched grew lowered_again, of p]
        have "let_in env writer cr st st2 p" if r2: "r2 = Inr (Inr p)"
        proof -
          have later: "prefix ?t1 ?t2" using all by blast
          have "proven env config ?t ?t2 ?i (cr_password cr) (dm_entry m)" "groups_of env config ?t ?t2 (dm_entry m) (dm_groupDns m)"
            using ok proven_later [OF _ later] groups_within [OF _ prefix_order.refl later] by (simp_all add: match_ok_def)
          moreover have "best_of (mapped config (dm_groupDns m)) (pr_role p) (set (pr_role p # with_default (pr_roles p) []))"
            using granted_roles [OF m(2)] all r2 by simp
          ultimately show ?thesis
            unfolding let_in_def Let_def using e all r2
            by (intro exI [of _ config] exI [of _ d] exI [of _ "dm_entry m"] exI [of _ "dm_groupDns m"]) simp
        qed
        then show ?thesis using result all by (auto split: sum.splits)
      qed
    qed
  qed
qed

lemma local_let_in:
  assumes "local_sign_in dp now cr st = (Inr (Inr p), st')"
  shows "ss_wire st' = ss_wire st \<and> (\<exists>u hash. by_email (lowered (cr_email cr)) (ss_admin st) = Some u \<and> us_passwordHash u = Some hash
    \<and> verifyPassword (dp_kdf dp) (cr_password cr) hash \<and> us_isActive u \<and> p = toPrincipal u)"
  using assms
  by (auto simp: local_sign_in_def on_accounts_def by_email_def lowered_def normalizeEmail_def authenticate_def Let_def
      split: prod.splits option.splits if_splits)

lemma directory_sign_in_cases:
  assumes "directorySignIn env cr b st = (r, st')"
  shows "(r = Inr (Inr p) \<longrightarrow> signIn env True cr st = (r, st')) \<and> (\<not> b \<and> r = Inr (Inl x) \<longrightarrow> x = INVALID_CREDENTIALS)"
proof -
  obtain r1 st1 where run: "signIn env True cr st = (r1, st1)" by (cases "signIn env True cr st") blast
  show ?thesis
  proof (cases r1)
    case (Inr y)
    then show ?thesis using assms run by (cases y) (auto simp: directorySignIn_def andThen_def return_def split: if_splits)
  qed (use assms run in \<open>auto simp: directorySignIn_def andThen_def\<close>)
qed

lemma dispatch_result:
  "dispatch dp now cr st =
     (let acct = by_email (lowered (cr_email cr)) (ss_admin st);
          by_source = (case acct of None \<Rightarrow> return (Inl INVALID_CREDENTIALS) | Some acct \<Rightarrow> provider_sign_in dp now (us_authSource acct) cr)
      in (if (case acct of None \<Rightarrow> True | Some acct \<Rightarrow> us_authSource acct = source_ldap)
          then (case directoryFirst dp of Some env \<Rightarrow> directorySignIn env cr (acct \<noteq> None) | None \<Rightarrow> by_source)
          else by_source) st)"
  by (simp add: dispatch_def andThen_def on_accounts_def Let_def)

lemma provider_let_in:
  assumes run: "provider_sign_in dp now (us_authSource u) cr st = (Inr (Inr p), st')"
    and u: "by_email (lowered (cr_email cr)) (ss_admin st) = Some u" and ok: "links_ok (ss_admin st)"
    and fresh: "\<And>env. dp_ldap dp = Some env \<Longrightarrow> se_uuid env \<notin> us_id ` set (ad_users (ss_admin st))"
    and no_directory: "us_authSource u = source_ldap \<Longrightarrow> directoryFirst dp = None"
  shows "(ss_wire st' = ss_wire st \<and> (\<exists>u hash. by_email (lowered (cr_email cr)) (ss_admin st) = Some u \<and> us_authSource u = ''local''
          \<and> us_passwordHash u = Some hash \<and> verifyPassword (dp_kdf dp) (cr_password cr) hash \<and> us_isActive u \<and> p = toPrincipal u))
      \<or> (\<exists>env. dp_ldap dp = Some env \<and> let_in env (dp_writer dp) cr st st' p)"
proof (cases "us_authSource u = ''local''")
  case True
  then have "local_sign_in dp now cr st = (Inr (Inr p), st')" using run by (simp add: provider_sign_in_def)
  then show ?thesis using local_let_in [of dp now cr st p st'] u True by auto
next
  case False
  then obtain env where env: "dp_ldap dp = Some env" "us_authSource u = source_ldap" "isConfigured env"
      "signIn env False cr st = (Inr (Inr p), st')"
    using run by (auto simp: provider_sign_in_def return_def split: if_splits option.splits)
  moreover have "dp_writer dp = False" using no_directory env(1-3) by (auto simp: directoryFirst_def split: if_splits)
  ultimately show ?thesis using sign_in_run [OF env(4) ok fresh [OF env(1)], of p] by auto
qed

text \<open>
  C4. Who gets in. A successful login is one of two. Either the address is a local account's, the password is that
  account's, it is active, and no directory was asked anything. Or the directory was asked, during this login: a
  password that is not empty was accepted, in a Simple bind for the identity made of what was typed, and then the entry is what the
  server answered for that identity; otherwise the entry is the only answer to the search for what was typed, and the bind accepted was
  that entry's. The groups are the entry's own and, where nested groups are on, those the server named for that entry; the roles,
  stored and held, are those the mappings give these groups. The account is an active directory account, never one of
  another source: it was linked to that entry before, or had no link and is found by an address that was typed or that a search leads from to this
  entry alone, or is new, under an address of the entry no account had; it is linked to that very entry if links are written, and
  refreshing the session finds the same principal. An identifier no account has is refused with one answer, whatever the reason.
\<close>

theorem sign_in_is_proven:
  assumes "dispatch dp now cr st = (r, st')" "links_ok (ss_admin st)"
    and "\<And>env. dp_ldap dp = Some env \<Longrightarrow> se_uuid env \<notin> us_id ` set (ad_users (ss_admin st))"
  shows "(r = Inr (Inr p) \<longrightarrow>
      (ss_wire st' = ss_wire st \<and> (\<exists>u hash. by_email (lowered (cr_email cr)) (ss_admin st) = Some u \<and> us_authSource u = ''local''
          \<and> us_passwordHash u = Some hash \<and> verifyPassword (dp_kdf dp) (cr_password cr) hash \<and> us_isActive u \<and> p = toPrincipal u))
      \<or> (\<exists>env. dp_ldap dp = Some env \<and> let_in env (dp_writer dp) cr st st' p))
    \<and> (by_email (lowered (cr_email cr)) (ss_admin st) = None \<and> r = Inr (Inl x) \<longrightarrow> x = INVALID_CREDENTIALS)"
proof -
  let ?acct = "by_email (lowered (cr_email cr)) (ss_admin st)"
  show ?thesis
  proof (cases "(?acct = None \<or> us_authSource (the ?acct) = source_ldap) \<and> directoryFirst dp \<noteq> None")
    case True
    then obtain env where env: "directoryFirst dp = Some env" "dp_ldap dp = Some env" "dp_writer dp"
      by (auto simp: directoryFirst_def split: if_splits option.splits)
    then have run: "directorySignIn env cr (?acct \<noteq> None) st = (r, st')"
      using assms(1) True by (auto simp: dispatch_result Let_def split: option.splits)
    have "let_in env True cr st st' p" if "r = Inr (Inr p)"
      using directory_sign_in_cases [OF run] sign_in_run [OF _ assms(2) assms(3) [OF env(2)]] that by blast
    then show ?thesis using directory_sign_in_cases [OF run] env(2,3) by simp
  next
    case False
    then have run: "(case ?acct of None \<Rightarrow> return (Inl INVALID_CREDENTIALS) | Some acct \<Rightarrow> provider_sign_in dp now (us_authSource acct) cr) st = (r, st')"
      using assms(1) by (auto simp: dispatch_result Let_def split: option.splits)
    show ?thesis
    proof (cases ?acct)
      case None
      then show ?thesis using run by (auto simp: return_def)
    next
      case (Some u)
      have "provider_sign_in dp now (us_authSource u) cr st = (r, st')" using run Some by simp
      then show ?thesis using provider_let_in [where now = now and p = p and st' = st', OF _ Some assms(2,3)] False Some
        by (cases "r = Inr (Inr p)") auto
    qed
  qed
qed

section \<open>Sign-ins and accounts over time\<close>

text \<open>
  What directory sign-ins do to the tables, one after the other and interleaved: whole sign-ins, and the two writes on
  their own, which is what a sign-in does that decided on an earlier state. The database gives a new row a new identifier.
\<close>

inductive directory_run :: "admin_state \<Rightarrow> admin_state \<Rightarrow> bool" where
  Begin: "directory_run a a"
| SignIn: "directory_run a (ss_admin st) \<Longrightarrow> se_uuid env \<notin> us_id ` set (ad_users (ss_admin st)) \<Longrightarrow>
    directory_run a (ss_admin (snd (signIn env writer cr st)))"
| Link: "directory_run a b \<Longrightarrow> source \<noteq> ''local'' \<Longrightarrow> directory_run a (snd (link source userId i b))"
| Create: "directory_run a b \<Longrightarrow> source \<noteq> ''local'' \<Longrightarrow> uuid \<notin> us_id ` set (ad_users b) \<Longrightarrow>
    directory_run a (snd (create_account uuid source new b))"

lemma directory_run_signs_in: "directory_run a b \<Longrightarrow> links_ok a \<Longrightarrow> signs_in a b"
proof (induction rule: directory_run.induct)
  case (SignIn a st env writer cr)
  obtain r st' where run: "signIn env writer cr st = (r, st')" by (cases "signIn env writer cr st") blast
  have "links_ok (ss_admin st)" using SignIn by (simp add: signs_in_def)
  then have "signs_in (ss_admin st) (ss_admin st')" using sign_in_run [OF run _ SignIn.hyps(2)] by blast
  then show ?case using SignIn.IH SignIn.prems grows_trans unfolding signs_in_def run snd_conv by blast
next
  case (Link a b source userId i)
  obtain r b' where run: "link source userId i b = (r, b')" by (cases "link source userId i b") blast
  then show ?case using link_keeps [OF _ Link.hyps(2) run] Link.IH Link.prems grows_trans unfolding signs_in_def run snd_conv by blast
next
  case (Create a b source uuid new)
  obtain r b' where run: "create_account uuid source new b = (r, b')" by (cases "create_account uuid source new b") blast
  then show ?case using create_keeps [OF _ Create.hyps(2,3) run] Create.IH Create.prems grows_trans unfolding signs_in_def run snd_conv by blast
qed (simp add: signs_in_def)

text \<open>
  C17. Directory sign-ins, in any number and however they interleave, leave one account per directory entry and
  per address. Every account keeps its address, its source, its password, its lock and whether it is active; a link
  that was set is never changed; a local account is not changed at all; and an account added is a directory account with a link
  and without a password.
\<close>

theorem sign_ins_keep_accounts:
  assumes "directory_run a b" "links_ok a"
  shows "links_ok b
    \<and> (\<forall>u \<in> set (ad_users a). \<exists>v \<in> set (ad_users b). same_account u v)
    \<and> (\<forall>v \<in> set (ad_users b). (\<exists>u \<in> set (ad_users a). same_account u v)
          \<or> us_authSource v \<noteq> ''local'' \<and> us_passwordHash v = None \<and> us_directoryId v \<noteq> None)"
proof -
  have ok: "links_ok b" "grows (ad_users a) (ad_users b)" using directory_run_signs_in [OF assms] by (simp_all add: signs_in_def)
  then obtain old new where b: "ad_users b = old @ new" "list_all2 same_account (ad_users a) old"
    "list_all (\<lambda>u. us_authSource u \<noteq> ''local'' \<and> us_passwordHash u = None \<and> us_directoryId u \<noteq> None) new"
    unfolding grows_def by blast
  have "(\<forall>u \<in> set (ad_users a). \<exists>v \<in> set old. same_account u v) \<and> (\<forall>v \<in> set old. \<exists>u \<in> set (ad_users a). same_account u v)"
    using b(2) by (induction rule: list_all2_induct) auto
  then show ?thesis using ok(1) b(3) unfolding b(1) set_append list_all_iff by blast
qed

text \<open>
  C40. An administrator on paper only. When the directory gives the last account that may do something a role this deployment
  does not define, the sign-in stores the role's name and keeps the key of the old one: the guards that keep
  an administrator count by the key and still see one, while no active account's own role grants it any more.
\<close>

theorem administrator_on_paper:
  assumes "accept env found resolved u st = (r, st')" "u \<in> set (ad_users (ss_admin st))" "us_isActive u"
    and "find_unique (\<lambda>r. ro_name r = rr_primary resolved) (ad_roles (ss_admin st)) = None"
    and "registry_permissions byName (rr_primary resolved) = None"
    and "role_grants (ss_admin st) q u"
    and "list_all (\<lambda>v. us_id v = us_id u \<or> \<not> us_isActive v \<or> \<not> can byName (toPrincipal v) q tgt) (ad_users (ss_admin st))"
  shows "administered_by q (ss_admin st') \<and> list_all (\<lambda>v. \<not> us_isActive v \<or> \<not> can byName (toPrincipal v) q tgt) (ad_users (ss_admin st'))"
proof -
  let ?name = "with_default (en_displayName (dm_entry found)) (us_displayName u)" and ?a = "ss_admin st"
  let ?g = "\<lambda>v. v \<lparr> us_role := rr_primary resolved, us_roleId := us_roleId v, us_displayName := ?name, us_lastLoginAt := Some (se_now env) \<rparr>"
  let ?f = "\<lambda>v. if us_id v = us_id u then ?g v else v"
  have a': "ss_admin st' = ?a \<lparr> ad_users := map ?f (ad_users ?a) \<rparr>"
    using assms(1,4) by (auto simp: accept_def Let_def andThen_def on_accounts_def return_def recordLogin_def update_user_def)
  have "role_grants (ss_admin st') q (?f u)" using assms(6) unfolding a' by (simp add: role_grants_def role_ref_def)
  moreover have "?f u \<in> set (ad_users (ss_admin st'))" using imageI [OF assms(2), of ?f] unfolding a' by simp
  ultimately have "administered_by q (ss_admin st')" using assms(3) unfolding administered_by_def by (intro bexI [of _ "?f u"]) simp_all
  moreover have "\<not> can byName (toPrincipal (?g v)) q tgt" for v
    using assms(5) by (simp add: can_def Let_def held_roles_def toPrincipal_def)
  then have "list_all (\<lambda>v. \<not> us_isActive v \<or> \<not> can byName (toPrincipal v) q tgt) (ad_users (ss_admin st'))"
    using assms(7) unfolding a' by (auto simp: list_all_iff)
  ultimately show ?thesis ..
qed

section \<open>Witnesses\<close>

text \<open>A directory with one person, and an account an administrator made for her address that nobody has used yet.\<close>

definition demo_person :: raw_entry where
  "demo_person = [(''dn'', Text ''uid=ann,dc=x''), (''mail'', Text ''Ann@x.org''), (''memberOf'', Several [Text ''CN=Ops, DC=x'']),
     (''entryUUID'', Text ''00112233-4455-6677-8899-AABBCCDDEEFF'')]"

definition demo_people :: ldap_net where
  "demo_people = demo_net \<lparr> ne_server := demo_server \<lparr> sv_search := \<lambda>_ q. Inr [demo_person] \<rparr> \<rparr>"

definition demo_sign_config :: ldap_config where
  "demo_sign_config = \<lparr> lc_host = ''d'', lc_port = 636, lc_protocol = LDAPS, lc_url = ''ldaps://d:636'', lc_bindType = ANONYMOUS,
     lc_bindDn = None, lc_bindPassword = None, lc_userDnPattern = None, lc_dialect = OPENLDAP, lc_detectedDialect = None,
     lc_searchBase = ''dc=x'', lc_groupSearchBase = ''dc=x'', lc_nestedGroups = False, lc_autoCreateAccounts = False,
     lc_searchFilter = ''(uid={{input}})'', lc_attributes = dd_attributes (dialectDefaults OPENLDAP), lc_directoryIdIsBinary = False,
     lc_identifierLabel = [], lc_supportsNestedGroups = False,
     lc_roleMappings = [\<lparr> gm_groupDn = ''cn=ops,dc=x'', gm_role = ''ADMIN'' \<rparr>], lc_caPath = None, lc_caPem = None,
     lc_timeoutMs = 1, lc_tlsRejectUnauthorized = True \<rparr>"

definition demo_sign_env :: sign_env where
  "demo_sign_env = \<lparr> se_net = demo_people, se_readFile = \<lambda>_. Inr [], se_ca_parses = \<lambda>_. False, se_boot = Some demo_sign_config,
     se_stored = Inr None, se_is_email = \<lambda>s. CHR ''@'' \<in> set s, se_now = 7, se_uuid = ''new'' \<rparr>"

definition demo_ann :: user_row where
  "demo_ann = (demo_admin ''a'') \<lparr> us_email := ''ann@x.org'', us_authSource := ''ldap'' \<rparr>"

definition demo_sign_state :: sign_state where
  "demo_sign_state = \<lparr> ss_wire = no_wire, ss_admin = demo_state \<lparr> ad_users := [demo_ann] \<rparr> \<rparr>"

definition demo_deployment :: deployment where
  "demo_deployment = \<lparr> dp_kdf = demo_kdf, dp_lockout = \<lparr> lp_maxFailedAttempts = 5, lp_lockoutMinutes = 15 \<rparr>, dp_salt = [],
     dp_ldap = Some demo_sign_env, dp_writer = True, dp_others = [] \<rparr>"

definition demo_cr :: credentials where
  "demo_cr = \<lparr> cr_email = '' Ann'', cr_password = ''right'' \<rparr>"

lemma demo_dispatch:
  "case dispatch demo_deployment 7 demo_cr demo_sign_state of
     (Inr (Inr p), st') \<Rightarrow> pr_userId p = ''a'' \<and> pr_role p = ''ADMIN''
       \<and> map us_directoryId (ad_users (ss_admin st')) = [Some ''00112233-4455-6677-8899-aabbccddeeff'']
   | _ \<Rightarrow> False"
  by code_simp

lemma demo_links: "links_ok (ss_admin demo_sign_state)" "''new'' \<notin> us_id ` set (ad_users (ss_admin demo_sign_state))"
  by code_simp+

theorem sign_in_is_proven_witness:
  "\<exists>p st'. dispatch demo_deployment 7 demo_cr demo_sign_state = (Inr (Inr p), st')
     \<and> let_in demo_sign_env True demo_cr demo_sign_state st' p"
proof -
  obtain p st' where run: "dispatch demo_deployment 7 demo_cr demo_sign_state = (Inr (Inr p), st')"
    using demo_dispatch by (auto split: prod.splits sum.splits)
  have "by_email (lowered (cr_email demo_cr)) (ss_admin demo_sign_state) = None" by code_simp
  with sign_in_is_proven [OF run demo_links(1), of p] demo_links(2) run show ?thesis
    by (auto simp: demo_deployment_def demo_sign_env_def)
qed

theorem sign_ins_keep_accounts_witness:
  "\<exists>v \<in> set (ad_users (ss_admin (snd (signIn demo_sign_env True demo_cr demo_sign_state)))). same_account demo_ann v"
proof -
  have "directory_run (ss_admin demo_sign_state) (ss_admin (snd (signIn demo_sign_env True demo_cr demo_sign_state)))"
    by (rule directory_run.SignIn [OF directory_run.Begin]) (use demo_links(2) in \<open>simp add: demo_sign_env_def\<close>)
  from sign_ins_keep_accounts [OF this demo_links(1)] show ?thesis
    by (simp add: demo_sign_state_def)
qed

definition demo_found :: directory_match where
  "demo_found = \<lparr> dm_entry = toEntry \<lparr> ld_config = demo_sign_config, ld_ca = None \<rparr> demo_person, dm_groupDns = [], dm_vouched = None \<rparr>"

theorem administrator_on_paper_witness:
  "administered_by ''users:manage'' (ss_admin (snd (accept demo_sign_env demo_found \<lparr> rr_primary = ''Admins'', rr_all = [''Admins''] \<rparr> demo_ann demo_sign_state)))"
proof -
  let ?r = "\<lparr> rr_primary = ''Admins'', rr_all = [''Admins''] \<rparr>"
  obtain r st' where run: "accept demo_sign_env demo_found ?r demo_ann demo_sign_state = (r, st')"
    by (cases "accept demo_sign_env demo_found ?r demo_ann demo_sign_state") blast
  have "registry_permissions [(''ADMIN'', [''users:manage''])] (rr_primary ?r) = None" by (simp add: registry_permissions_def)
  moreover have "find_unique (\<lambda>r. ro_name r = rr_primary ?r) (ad_roles (ss_admin demo_sign_state)) = None"
    "role_grants (ss_admin demo_sign_state) ''users:manage'' demo_ann" "us_isActive demo_ann"
    "demo_ann \<in> set (ad_users (ss_admin demo_sign_state))" "ad_users (ss_admin demo_sign_state) = [demo_ann]"
    by (simp_all add: demo_sign_state_def demo_state_defs demo_ann_def role_grants_def role_ref_def)
  ultimately show ?thesis
    using administrator_on_paper [OF run, where byName = "[(''ADMIN'', [''users:manage''])]" and q = "''users:manage''" and tgt = None] run by simp
qed

end
