(* ===== verification/AppSettings.thy ===== *)
theory AppSettings
  imports Database
begin

text \<open>
  The table \<open>AppSetting\<close>: one JSON value per key. Besides the settings an operator stores, the program keeps
  a few counters there (\<open>appSetting.upsert\<close>, \<open>appSetting.findUnique\<close>).
\<close>

type_synonym app_settings = "(string \<times> jsval) list"

definition put_setting :: "string \<Rightarrow> jsval \<Rightarrow> app_settings \<Rightarrow> app_settings" where
  "put_setting key v rows = upsert (\<lambda>(k, _). k = key) (key, v) (\<lambda>(k, _). (k, v)) rows"

text \<open>The number under \<open>total\<close> of a counter, if its value is an object that has one.\<close>

definition counter_total :: "string \<Rightarrow> app_settings \<Rightarrow> rat option" where
  "counter_total key rows =
     (case map_of rows key of
        Some (JObj o1) \<Rightarrow> (case oget o1 ''total'' of Some (JNum n) \<Rightarrow> Some n | _ \<Rightarrow> None)
      | _ \<Rightarrow> None)"

lemma map_of_put_setting [simp]: "map_of (put_setting key v rows) k = (if k = key then Some v else map_of rows k)"
proof -
  have upd: "map_of (map (\<lambda>r. if (case r of (k, _) \<Rightarrow> k = key) then (case r of (k, _) \<Rightarrow> (k, v)) else r) rows) k
      = (if k = key \<and> map_of rows k \<noteq> None then Some v else map_of rows k)"
    by (induction rows) auto
  show ?thesis
  proof (cases "list_ex (\<lambda>(k, _). k = key) rows")
    case True
    then have "key \<in> fst ` set rows" by (force simp: list_ex_iff)
    then have "map_of rows key \<noteq> None" by (simp add: map_of_eq_None_iff)
    with True show ?thesis by (simp add: put_setting_def upsert_def upd)
  next
    case False
    then have "map_of rows key = None" by (auto simp: list_ex_iff map_of_eq_None_iff)
    with False show ?thesis by (auto simp: put_setting_def upsert_def map_add_def split: option.split)
  qed
qed

lemma counter_total_put:
  "counter_total key (put_setting key (JObj ((''total'', JNum n) # rest)) rows) = Some n"
  "k \<noteq> key \<Longrightarrow> counter_total k (put_setting key v rows) = counter_total k rows"
  by (simp_all add: counter_total_def)

end
