(* ===== verification/Notifications.thy ===== *)
theory Notifications
  imports AppSettings
begin

text \<open>
  Operational notifications: when a condition opens and resolves
  (\<open>notifications/pure/condition-lifecycle.ts\<close>), which conditions there are
  (\<open>condition-catalogue.ts\<close>), the periodic evaluation that stores them and queues a delivery at each
  edge (\<open>notification-evaluator.service.ts\<close>) and the worker that delivers (\<open>notification-delivery.worker.ts\<close>).
  A dash of a message that is not in the character set is written as two hyphens.
\<close>

section \<open>The life of a condition\<close>

definition FAILURES_TO_OPEN :: nat where
  "FAILURES_TO_OPEN = 3"

record condition_state =
  co_consecutiveFailures :: nat
  co_openedAt :: "int option"
  co_resolvedAt :: "int option"

record evaluation =
  ev_failing :: bool
  ev_selfResolving :: bool

datatype transition = OPENED | RESOLVED

record decision =
  de_state :: condition_state
  de_transition :: "transition option"

definition isOpen :: "condition_state \<Rightarrow> bool" where
  "isOpen state \<longleftrightarrow> co_openedAt state \<noteq> None \<and> co_resolvedAt state = None"

definition decide_condition :: "condition_state option \<Rightarrow> evaluation \<Rightarrow> int \<Rightarrow> decision" where
  "decide_condition previous evaluation now =
     (let state = (case previous of
            None \<Rightarrow> \<lparr> co_consecutiveFailures = 0, co_openedAt = None, co_resolvedAt = None \<rparr>
          | Some state \<Rightarrow> state)
      in if \<not> ev_failing evaluation
         then if isOpen state
              then \<lparr> de_state = \<lparr> co_consecutiveFailures = 0, co_openedAt = co_openedAt state, co_resolvedAt = Some now \<rparr>,
                     de_transition = Some RESOLVED \<rparr>
              else \<lparr> de_state = state \<lparr> co_consecutiveFailures := 0 \<rparr>, de_transition = None \<rparr>
         else let consecutiveFailures = co_consecutiveFailures state + 1;
                  threshold = (if ev_selfResolving evaluation then 1 else FAILURES_TO_OPEN)
              in if isOpen state
                 then \<lparr> de_state = state \<lparr> co_consecutiveFailures := consecutiveFailures \<rparr>, de_transition = None \<rparr>
                 else if consecutiveFailures < threshold
                 then \<lparr> de_state = state \<lparr> co_consecutiveFailures := consecutiveFailures \<rparr>, de_transition = None \<rparr>
                 else \<lparr> de_state = \<lparr> co_consecutiveFailures = consecutiveFailures, co_openedAt = Some now, co_resolvedAt = None \<rparr>,
                        de_transition = Some OPENED \<rparr>)"

section \<open>The conditions\<close>

datatype condition_severity = CRITICAL | WARNING

record condition_reading =
  rd_key :: string
  rd_kind :: string
  rd_severity :: condition_severity
  rd_summary :: string
  rd_failing :: bool
  rd_selfResolving :: bool

text \<open>What the catalogue reads of the system status.\<close>

record peer_status =
  ps_certname :: string
  ps_lastChangedAt :: "string option"
  ps_behind :: bool
  ps_reportedCount :: int
  ps_secondsSinceChange :: "int option"

record replication_status =
  rs_enabled :: bool
  rs_allowedCertnames :: "string list"
  rs_peers :: "peer_status list"
  rs_reportingStrangers :: "string list option"

record system_status =
  ss_materializationFailed :: int
  ss_replication :: "replication_status option"
  ss_forwardingActive :: string
  ss_lastDeliveryOk :: "bool option"
  ss_undeliveredDropped :: int

record catalogue_input =
  ca_status :: system_status
  ca_puppetDbReachable :: bool
  ca_puppetDbLastSuccessAt :: "string option"
  ca_consoleCertDaysRemaining :: "int option"
  ca_announcedUndeliveredDrops :: rat
  ca_pruneSkippedReason :: "string option"

definition CERT_EXPIRY_WARNING_DAYS :: int where
  "CERT_EXPIRY_WARNING_DAYS = 30"

definition RECEIPT_GRACE_SECONDS :: int where
  "RECEIPT_GRACE_SECONDS = 4 * 30 * 60"

definition reading :: "string \<Rightarrow> string \<Rightarrow> condition_severity \<Rightarrow> string \<Rightarrow> bool \<Rightarrow> bool \<Rightarrow> condition_reading" where
  "reading key kind sev summary failing selfResolving =
     \<lparr> rd_key = key, rd_kind = kind, rd_severity = sev, rd_summary = summary, rd_failing = failing, rd_selfResolving = selfResolving \<rparr>"

definition stranded_reading :: "system_status \<Rightarrow> condition_reading" where
  "stranded_reading s =
     reading ''materialization.stranded'' ''materialization.stranded'' CRITICAL
       (if ss_materializationFailed s > 0
        then int_str (ss_materializationFailed s) @ '' classification job(s) failed and are not retried. Nodes keep their previous classification.''
        else ''Classification is reaching disk.'')
       (ss_materializationFailed s > 0) False"

definition no_peer_reading :: "replication_status \<Rightarrow> condition_reading" where
  "no_peer_reading r =
     reading ''replication.no-peer'' ''replication.no-peer'' CRITICAL
       (if length (rs_peers r) = 0
        then ''No Puppet server has ever fetched the classification tree'' @
             (if length (rs_allowedCertnames r) > 0 then '' (expecting '' @ join '', '' (rs_allowedCertnames r) @ '')'' else []) @ ''.''
        else ''A Puppet server is fetching the classification tree.'')
       (length (rs_peers r) = 0) False"

definition stranger_reading :: "string \<Rightarrow> condition_reading" where
  "stranger_reading certname =
     reading (''replication.unexpected-receipts:'' @ certname) ''replication.unexpected-receipts'' WARNING
       (certname @ '' is handing compile receipts to this deployment but has never '' @
        ''fetched a tree from it, so those receipts describe classification somebody '' @
        ''else served. Its collector is pointed here while its tree comes from '' @
        ''elsewhere -- the reports belong at the origin it fetches from.'')
       True False"

definition not_reporting :: "peer_status \<Rightarrow> bool" where
  "not_reporting p \<longleftrightarrow>
     (case ps_secondsSinceChange p of None \<Rightarrow> False | Some s \<Rightarrow> s > RECEIPT_GRACE_SECONDS) \<and> ps_reportedCount p = 0"

definition peer_readings :: "peer_status \<Rightarrow> condition_reading list" where
  "peer_readings p =
     [reading (''replication.not-reporting:'' @ ps_certname p) ''replication.not-reporting'' WARNING
        (if not_reporting p
         then ps_certname p @ '' has been fetching the tree for '' @
              int_str (case ps_secondsSinceChange p of None \<Rightarrow> 0 | Some s \<Rightarrow> s div 3600) @ ''h and has never reported a compile. '' @
              ''Its receipts collector is either pointed at a different origin or not running, '' @
              ''so this deployment cannot tell which nodes have applied the classification.''
         else ps_certname p @ '' is reporting compiles.'')
        (not_reporting p) False,
      reading (''replication.behind:'' @ ps_certname p) ''replication.behind'' CRITICAL
        (if ps_behind p
         then if ps_lastChangedAt p = None then ps_certname p @ '' has never received a classification tree.''
              else ps_certname p @ '' is serving classification older than this deployment has written.''
         else ps_certname p @ '' has the current classification.'')
        (ps_behind p) False]"

definition replication_readings :: "system_status \<Rightarrow> condition_reading list" where
  "replication_readings s =
     (case ss_replication s of
        None \<Rightarrow> []
      | Some r \<Rightarrow>
          if \<not> rs_enabled r then []
          else no_peer_reading r
               # map stranger_reading (case rs_reportingStrangers r of None \<Rightarrow> [] | Some l \<Rightarrow> l)
               @ concat (map peer_readings (rs_peers r)))"

definition unreachable_reading :: "catalogue_input \<Rightarrow> condition_reading" where
  "unreachable_reading c =
     reading ''puppetdb.unreachable'' ''puppetdb.unreachable'' WARNING
       (if ca_puppetDbReachable c then ''PuppetDB is answering.''
        else ''PuppetDB is not answering'' @
             (case ca_puppetDbLastSuccessAt c of None \<Rightarrow> '' and never has'' | Some seen \<Rightarrow> ''; last successful query '' @ seen) @
             ''. Inventory and rule evaluation are working from stale facts.'')
       (\<not> ca_puppetDbReachable c) False"

definition prune_reading :: "catalogue_input \<Rightarrow> condition_reading" where
  "prune_reading c =
     reading ''projection.prune-refused'' ''projection.prune-refused'' WARNING
       (case ca_pruneSkippedReason c of
          None \<Rightarrow> ''Node projection is pruning normally.''
        | Some why \<Rightarrow> ''Node projection refused to prune: '' @ why @ ''. Nothing was deleted.'')
       (ca_pruneSkippedReason c \<noteq> None) False"

definition delivery_readings :: "system_status \<Rightarrow> condition_reading list" where
  "delivery_readings s =
     (if ss_forwardingActive s = ''none'' then []
      else let failed = (ss_lastDeliveryOk s = Some False)
           in [reading ''audit.delivery-failing'' ''audit.delivery-failing'' WARNING
                 (if failed
                  then ''Audit records are not reaching the '' @ ss_forwardingActive s @ '' collector. They are queued, not lost.''
                  else ''Audit records are being delivered.'')
                 failed False])"

definition DROPS_KEY :: string where
  "DROPS_KEY = ''audit.records-dropped''"

definition drops_reading :: "catalogue_input \<Rightarrow> condition_reading" where
  "drops_reading c =
     (let dropped = of_int (ss_undeliveredDropped (ca_status c)); announced = ca_announcedUndeliveredDrops c
      in reading DROPS_KEY ''audit.records-dropped'' WARNING
           (if dropped > announced
            then ''Retention dropped '' @ num_str (dropped - announced) @ '' audit record(s) that had never been delivered.''
            else ''No audit records have been dropped undelivered.'')
           (dropped > announced) True)"

definition certificate_readings :: "catalogue_input \<Rightarrow> condition_reading list" where
  "certificate_readings c =
     (case ca_consoleCertDaysRemaining c of
        None \<Rightarrow> []
      | Some days \<Rightarrow>
          [reading ''console-cert.expiring'' ''console-cert.expiring'' (if days \<le> 0 then CRITICAL else WARNING)
             (if days \<le> CERT_EXPIRY_WARNING_DAYS
              then if days \<le> 0 then ''The console certificate has expired.''
                   else ''The console certificate expires in '' @ int_str days @ '' day(s).''
              else ''The console certificate is valid.'')
             (days \<le> CERT_EXPIRY_WARNING_DAYS) False])"

definition readConditions :: "catalogue_input \<Rightarrow> condition_reading list" where
  "readConditions c =
     stranded_reading (ca_status c) # replication_readings (ca_status c)
     @ [unreachable_reading c, prune_reading c] @ delivery_readings (ca_status c)
     @ drops_reading c # certificate_readings c"

section \<open>The evaluation\<close>

record condition_row =
  nc_key :: string
  nc_kind :: string
  nc_severity :: condition_severity
  nc_summary :: string
  nc_state :: condition_state
  nc_lastEvaluatedAt :: int

record notification_payload =
  np_transition :: transition
  np_key :: string
  np_kind :: string
  np_severity :: condition_severity
  np_summary :: string
  np_at :: string

record delivery_job =
  dj_id :: string
  dj_conditionKey :: string
  dj_transition :: transition
  dj_payload :: notification_payload
  dj_attempts :: nat
  dj_nextAttemptAt :: int
  dj_lastError :: "string option"
  dj_createdAt :: int

record notify_state =
  no_conditions :: "condition_row list"
  no_jobs :: "delivery_job list"
  no_settings :: app_settings

text \<open>What an evaluation looks at, besides its own tables.\<close>

record observation =
  ob_status :: system_status
  ob_reachable :: bool
  ob_lastSuccessAt :: "string option"
  ob_certDays :: "int option"
  ob_pruneSkippedReason :: "string option"

text \<open>The clock and the generator of row ids; an id is drawn for each reading that is an edge.\<close>

record moment =
  ti_now :: int
  ti_iso :: "int \<Rightarrow> string"
  ti_uuid :: "string \<Rightarrow> string"

definition ANNOUNCED_DROPS_KEY :: string where
  "ANNOUNCED_DROPS_KEY = ''notifications.announcedUndeliveredDrops''"

definition announcedDrops :: "notify_state \<Rightarrow> rat" where
  "announcedDrops st = (case counter_total ANNOUNCED_DROPS_KEY (no_settings st) of Some n \<Rightarrow> n | None \<Rightarrow> 0)"

definition recordAnnouncedDrops :: "int \<Rightarrow> notify_state \<Rightarrow> notify_state" where
  "recordAnnouncedDrops dropped st =
     st \<lparr> no_settings := put_setting ANNOUNCED_DROPS_KEY (JObj [(''total'', JNum (of_int dropped))]) (no_settings st) \<rparr>"

definition delivery_of :: "moment \<Rightarrow> condition_reading \<Rightarrow> transition \<Rightarrow> delivery_job" where
  "delivery_of t r e =
     \<lparr> dj_id = ti_uuid t (rd_key r), dj_conditionKey = rd_key r, dj_transition = e,
       dj_payload = \<lparr> np_transition = e, np_key = rd_key r, np_kind = rd_kind r, np_severity = rd_severity r,
                      np_summary = rd_summary r, np_at = ti_iso t (ti_now t) \<rparr>,
       dj_attempts = 0, dj_nextAttemptAt = ti_now t, dj_lastError = None, dj_createdAt = ti_now t \<rparr>"

definition applyReading :: "moment \<Rightarrow> condition_row list \<Rightarrow> notify_state \<Rightarrow> condition_reading \<Rightarrow> notify_state" where
  "applyReading t stored st r =
     (let previous = map_option nc_state (find_unique (\<lambda>c. nc_key c = rd_key r) stored);
          decision = decide_condition previous \<lparr> ev_failing = rd_failing r, ev_selfResolving = rd_selfResolving r \<rparr> (ti_now t);
          row = \<lparr> nc_key = rd_key r, nc_kind = rd_kind r, nc_severity = rd_severity r, nc_summary = rd_summary r,
                  nc_state = de_state decision, nc_lastEvaluatedAt = ti_now t \<rparr>
      in st \<lparr> no_conditions := upsert (\<lambda>c. nc_key c = rd_key r) row (\<lambda>_. row) (no_conditions st),
              no_jobs := no_jobs st @ (case de_transition decision of None \<Rightarrow> [] | Some e \<Rightarrow> [delivery_of t r e]) \<rparr>)"

definition resolve_vanished :: "int \<Rightarrow> string set \<Rightarrow> notify_state \<Rightarrow> condition_row \<Rightarrow> notify_state" where
  "resolve_vanished now produced st row =
     (if nc_key row \<in> produced then st
      else if \<not> isOpen (nc_state row) then st
      else st \<lparr> no_conditions := update_many (\<lambda>c. nc_key c = nc_key row)
             (\<lambda>c. c \<lparr> nc_state := (nc_state c) \<lparr> co_resolvedAt := Some now, co_consecutiveFailures := 0 \<rparr>,
                      nc_lastEvaluatedAt := now \<rparr>) (no_conditions st) \<rparr>)"

definition readings_of :: "observation \<Rightarrow> notify_state \<Rightarrow> condition_reading list" where
  "readings_of ob st =
     readConditions \<lparr> ca_status = ob_status ob, ca_puppetDbReachable = ob_reachable ob,
       ca_puppetDbLastSuccessAt = ob_lastSuccessAt ob, ca_consoleCertDaysRemaining = ob_certDays ob,
       ca_announcedUndeliveredDrops = announcedDrops st, ca_pruneSkippedReason = ob_pruneSkippedReason ob \<rparr>"

definition evaluate :: "moment \<Rightarrow> observation \<Rightarrow> notify_state \<Rightarrow> notify_state" where
  "evaluate t ob st =
     (let announced = announcedDrops st;
          readings = readings_of ob st;
          stored = no_conditions st;
          applied = foldl (applyReading t stored) st readings;
          resolved = foldl (resolve_vanished (ti_now t) (set (map rd_key readings))) applied stored;
          dropped = ss_undeliveredDropped (ob_status ob)
      in if of_int dropped > announced then recordAnnouncedDrops dropped resolved else resolved)"

definition openConditions :: "notify_state \<Rightarrow> condition_row list" where
  "openConditions st =
     js_sort (\<lambda>a b. the (co_openedAt (nc_state b)) - the (co_openedAt (nc_state a)))
       (filter (\<lambda>c. isOpen (nc_state c)) (no_conditions st))"

section \<open>The delivery worker\<close>

record delivery_pacing =
  dp_batchSize :: nat
  dp_baseBackoffMs :: int
  dp_maxBackoffMs :: int
  dp_maxAttempts :: nat

definition DEFAULT_DELIVERY_PACING :: delivery_pacing where
  "DEFAULT_DELIVERY_PACING = \<lparr> dp_batchSize = 20, dp_baseBackoffMs = 60000, dp_maxBackoffMs = 900000, dp_maxAttempts = 10 \<rparr>"

text \<open>
  A channel is what it answers for a job (by its id) in one drain: delivered, or why not. No channel where
  none is configured.
\<close>

type_synonym channel = "(string \<Rightarrow> notification_payload \<Rightarrow> string option + unit) option"

definition channel_error :: "string \<Rightarrow> channel \<Rightarrow> delivery_job \<Rightarrow> string list" where
  "channel_error name ch job =
     (case ch of
        None \<Rightarrow> []
      | Some answer \<Rightarrow> (case answer (dj_id job) (dj_payload job) of
            Inr () \<Rightarrow> []
          | Inl why \<Rightarrow> [name @ '': '' @ (case why of None \<Rightarrow> ''failed'' | Some e \<Rightarrow> e)]))"

definition deliverToAll :: "channel \<Rightarrow> channel \<Rightarrow> delivery_job \<Rightarrow> string option" where
  "deliverToAll webhook email job =
     (let errors = channel_error ''webhook'' webhook job @ channel_error ''email'' email job
      in if errors = [] then None else Some (join ''; '' errors))"

definition due_jobs :: "delivery_pacing \<Rightarrow> int \<Rightarrow> delivery_job list \<Rightarrow> delivery_job list" where
  "due_jobs pacing now jobs =
     take (dp_batchSize pacing) (js_sort (\<lambda>a b. dj_createdAt a - dj_createdAt b) (filter (\<lambda>j. dj_nextAttemptAt j \<le> now) jobs))"

definition deliver_job :: "delivery_pacing \<Rightarrow> int \<Rightarrow> channel \<Rightarrow> channel \<Rightarrow> delivery_job list \<Rightarrow> delivery_job \<Rightarrow> delivery_job list" where
  "deliver_job pacing now webhook email jobs job =
     (case deliverToAll webhook email job of
        None \<Rightarrow> delete_many (\<lambda>j. dj_id j = dj_id job) jobs
      | Some error \<Rightarrow>
          let attempts = dj_attempts job + 1
          in if attempts \<ge> dp_maxAttempts pacing then delete_many (\<lambda>j. dj_id j = dj_id job) jobs
             else let backoff = min (dp_baseBackoffMs pacing * 2 ^ (attempts - 1)) (dp_maxBackoffMs pacing)
                  in update_many (\<lambda>j. dj_id j = dj_id job)
                       (\<lambda>j. j \<lparr> dj_attempts := attempts, dj_lastError := Some error, dj_nextAttemptAt := now + backoff \<rparr>) jobs)"

definition drain_notifications :: "delivery_pacing \<Rightarrow> int \<Rightarrow> channel \<Rightarrow> channel \<Rightarrow> notify_state \<Rightarrow> notify_state" where
  "drain_notifications pacing now webhook email st =
     (if webhook = None \<and> email = None then st
      else st \<lparr> no_jobs := foldl (deliver_job pacing now webhook email) (no_jobs st) (due_jobs pacing now (no_jobs st)) \<rparr>)"

section \<open>What a history of evaluations does\<close>

definition threshold_of :: "bool \<Rightarrow> nat" where
  "threshold_of selfResolving = (if selfResolving then 1 else FAILURES_TO_OPEN)"

text \<open>The failing evaluations at the end of a history, and the edges it has: opened where the run reaches the threshold,
  resolved where a run of at least that many ends.\<close>

definition failing_run :: "bool list \<Rightarrow> nat" where
  "failing_run fs = length (takeWhile id (rev fs))"

definition edge_at :: "bool \<Rightarrow> bool list \<Rightarrow> bool \<Rightarrow> transition option" where
  "edge_at sr before failing =
     (if failing_run (before @ [failing]) = threshold_of sr then Some OPENED
      else if \<not> failing \<and> threshold_of sr \<le> failing_run before then Some RESOLVED else None)"

definition follows :: "bool \<Rightarrow> (bool \<times> int) list \<Rightarrow> condition_state option \<Rightarrow> bool" where
  "follows sr hs previous \<longleftrightarrow>
     (case previous of
        None \<Rightarrow> hs = []
      | Some s \<Rightarrow> let n = failing_run (map fst hs) in
          co_consecutiveFailures s = n \<and> (isOpen s \<longleftrightarrow> threshold_of sr \<le> n)
          \<and> (isOpen s \<longrightarrow> co_openedAt s = Some (snd (hs ! (length hs - n + threshold_of sr - 1)))))"

lemma failing_run_simps [simp]:
  "failing_run [] = 0" "failing_run (fs @ [True]) = Suc (failing_run fs)" "failing_run (fs @ [False]) = 0"
  by (simp_all add: failing_run_def)

lemma failing_run_le: "failing_run fs \<le> length fs"
  unfolding failing_run_def by (metis length_rev length_takeWhile_le)

lemma threshold_pos [simp]: "0 < threshold_of sr" "threshold_of sr \<noteq> 0"
  by (simp_all add: threshold_of_def FAILURES_TO_OPEN_def)

lemma decide_follows:
  fixes f now
  assumes "follows sr hs previous"
  defines "d \<equiv> decide_condition previous \<lparr> ev_failing = f, ev_selfResolving = sr \<rparr> now"
  shows "follows sr (hs @ [(f, now)]) (Some (de_state d)) \<and> de_transition d = edge_at sr (map fst hs) f"
proof -
  define s where "s = (case previous of None \<Rightarrow> \<lparr> co_consecutiveFailures = 0, co_openedAt = None, co_resolvedAt = None \<rparr> | Some s \<Rightarrow> s)"
  define n where "n = failing_run (map fst hs)"
  have s: "co_consecutiveFailures s = n" "isOpen s \<longleftrightarrow> threshold_of sr \<le> n"
    "isOpen s \<Longrightarrow> co_openedAt s = Some (snd (hs ! (length hs - n + threshold_of sr - 1)))"
    using assms(1) by (auto simp: follows_def s_def n_def isOpen_def Let_def split: option.splits)
  have d: "d = decide_condition (Some s) \<lparr> ev_failing = f, ev_selfResolving = sr \<rparr> now" by (simp add: d_def decide_condition_def s_def)
  have le: "n \<le> length hs" unfolding n_def using failing_run_le [of "map fst hs"] by simp
  show ?thesis
  proof (cases f)
    case False
    then show ?thesis using s
      by (auto simp: d decide_condition_def follows_def edge_at_def Let_def isOpen_def n_def [symmetric])
  next
    case True
    show ?thesis
    proof (cases "isOpen s")
      case open': True
      then have at: "de_state d = s \<lparr> co_consecutiveFailures := Suc n \<rparr>" "de_transition d = None"
        using True s(1) by (simp_all add: d decide_condition_def)
      let ?i = "length hs - n + threshold_of sr - 1"
      have i: "?i < length hs" "length (hs @ [(f, now)]) - Suc n + threshold_of sr - 1 = ?i"
        using s(2) open' le threshold_pos(1) [of sr] by (linarith, simp)
      have opened: "isOpen (de_state d)" "co_openedAt (de_state d) = Some (snd ((hs @ [(f, now)]) ! ?i))"
        using open' s(3) i(1) by (simp_all add: at isOpen_def nth_append)
      have "edge_at sr (map fst hs) f = None" using True open' s(2) by (simp add: edge_at_def n_def [symmetric])
      then show ?thesis using opened at i(2) True open' s(2) by (simp add: follows_def Let_def n_def [symmetric])
    next
      case closed: False
      then have n: "n < threshold_of sr" using s(2) by simp
      show ?thesis
      proof (cases "Suc n < threshold_of sr")
        case below: True
        then show ?thesis using True closed s(1) n
          by (auto simp: d decide_condition_def follows_def edge_at_def Let_def isOpen_def n_def [symmetric] threshold_of_def)
      next
        case False
        then have reached: "Suc n = threshold_of sr" using n by simp
        then have "length hs - n + threshold_of sr - 1 = length hs" using le by simp
        then show ?thesis using True closed s(1) reached
          by (auto simp: d decide_condition_def follows_def edge_at_def Let_def isOpen_def n_def [symmetric] threshold_of_def nth_append)
      qed
    qed
  qed
qed

section \<open>What an evaluation stores and queues\<close>

definition row_at :: "string \<Rightarrow> notify_state \<Rightarrow> condition_row option" where
  "row_at k st = find_unique (\<lambda>c. nc_key c = k) (no_conditions st)"

definition state_at :: "string \<Rightarrow> notify_state \<Rightarrow> condition_state option" where
  "state_at k st = map_option nc_state (row_at k st)"

definition decision_for :: "moment \<Rightarrow> notify_state \<Rightarrow> condition_reading \<Rightarrow> decision" where
  "decision_for t st r =
     decide_condition (state_at (rd_key r) st) \<lparr> ev_failing = rd_failing r, ev_selfResolving = rd_selfResolving r \<rparr> (ti_now t)"

definition new_row :: "moment \<Rightarrow> notify_state \<Rightarrow> condition_reading \<Rightarrow> condition_row" where
  "new_row t st r =
     \<lparr> nc_key = rd_key r, nc_kind = rd_kind r, nc_severity = rd_severity r, nc_summary = rd_summary r,
       nc_state = de_state (decision_for t st r), nc_lastEvaluatedAt = ti_now t \<rparr>"

definition new_jobs :: "moment \<Rightarrow> notify_state \<Rightarrow> condition_reading \<Rightarrow> delivery_job list" where
  "new_jobs t st r = (case de_transition (decision_for t st r) of None \<Rightarrow> [] | Some e \<Rightarrow> [delivery_of t r e])"

lemma find_row_map:
  assumes "\<And>c. nc_key (f c) = nc_key c"
  shows "find_unique (\<lambda>c. nc_key c = k) (map f rows) = map_option f (find_unique (\<lambda>c. nc_key c = k) rows)"
  by (induction rows) (auto simp: find_unique_def assms)

lemma find_row_key: "find_unique (\<lambda>c. nc_key c = k) rows = Some c \<Longrightarrow> nc_key c = k"
  by (auto dest: find_unique_Some)

lemma find_row_upsert:
  assumes "nc_key row = j"
  shows "find_unique (\<lambda>c. nc_key c = k) (upsert (\<lambda>c. nc_key c = j) row (\<lambda>_. row) rows)
    = (if k = j then Some row else find_unique (\<lambda>c. nc_key c = k) rows)"
proof (cases "list_ex (\<lambda>c. nc_key c = j) rows")
  case True
  have "find_unique (\<lambda>c. nc_key c = k) (map (\<lambda>c. if nc_key c = j then row else c) rows)
      = map_option (\<lambda>c. if nc_key c = j then row else c) (find_unique (\<lambda>c. nc_key c = k) rows)"
    by (rule find_row_map) (simp add: assms)
  moreover have "find_unique (\<lambda>c. nc_key c = j) rows \<noteq> None" using True by (auto simp: table_simps list_ex_iff)
  ultimately show ?thesis using True
    by (cases "find_unique (\<lambda>c. nc_key c = k) rows") (auto simp: upsert_def dest: find_row_key)
next
  case False
  then have "find_unique (\<lambda>c. nc_key c = j) rows = None" by (simp add: table_simps list_ex_iff)
  with False assms show ?thesis by (auto simp: upsert_def find_unique_append split: option.splits)
qed

lemma applyReading_result:
  "row_at k (applyReading t (no_conditions st0) st r) = (if k = rd_key r then Some (new_row t st0 r) else row_at k st)
   \<and> no_jobs (applyReading t (no_conditions st0) st r) = no_jobs st @ new_jobs t st0 r
   \<and> no_settings (applyReading t (no_conditions st0) st r) = no_settings st"
  by (simp add: applyReading_def Let_def row_at_def find_row_upsert new_row_def new_jobs_def decision_for_def state_at_def)

lemma readings_applied:
  assumes "distinct (map rd_key rs)"
  shows "row_at k (foldl (applyReading t (no_conditions st0)) st rs)
      = (case List.find (\<lambda>r. rd_key r = k) rs of Some r \<Rightarrow> Some (new_row t st0 r) | None \<Rightarrow> row_at k st)
    \<and> no_jobs (foldl (applyReading t (no_conditions st0)) st rs) = no_jobs st @ concat (map (new_jobs t st0) rs)
    \<and> no_settings (foldl (applyReading t (no_conditions st0)) st rs) = no_settings st"
  using assms
proof (induction rs arbitrary: st)
  case (Cons r rs)
  then have "rd_key r \<notin> rd_key ` set rs" by simp
  then have other: "List.find (\<lambda>x. rd_key x = rd_key r) rs = None" by (metis (mono_tags, lifting) find_None_iff image_eqI)
  show ?case using Cons.IH [of "applyReading t (no_conditions st0) st r"] Cons.prems other applyReading_result [of k t st0 st r]
    by (auto split: option.splits)
qed simp

lemma vanished_resolved:
  "row_at k (foldl (resolve_vanished now produced) st stored) = map_option (\<lambda>c.
      if k \<notin> produced \<and> list_ex (\<lambda>c. nc_key c = k \<and> isOpen (nc_state c)) stored
      then c \<lparr> nc_state := (nc_state c) \<lparr> co_resolvedAt := Some now, co_consecutiveFailures := 0 \<rparr>, nc_lastEvaluatedAt := now \<rparr>
      else c) (row_at k st)
   \<and> no_jobs (foldl (resolve_vanished now produced) st stored) = no_jobs st
   \<and> no_settings (foldl (resolve_vanished now produced) st stored) = no_settings st"
proof (induction stored arbitrary: st)
  case Nil
  then show ?case by (simp add: option.map_ident)
next
  case (Cons row stored)
  have one: "row_at k (resolve_vanished now produced st row) = map_option (\<lambda>c.
      if nc_key row = k \<and> k \<notin> produced \<and> isOpen (nc_state row)
      then c \<lparr> nc_state := (nc_state c) \<lparr> co_resolvedAt := Some now, co_consecutiveFailures := 0 \<rparr>, nc_lastEvaluatedAt := now \<rparr>
      else c) (row_at k st)"
    by (cases "row_at k st") (auto simp: resolve_vanished_def row_at_def update_many_def find_row_map dest: find_row_key)
  have rest: "no_jobs (resolve_vanished now produced st row) = no_jobs st"
    "no_settings (resolve_vanished now produced st row) = no_settings st"
    by (simp_all add: resolve_vanished_def)
  show ?case using Cons.IH [of "resolve_vanished now produced st row"] rest
    by (auto simp: one option.map_comp comp_def intro!: option.map_cong0)
qed

lemma evaluate_result:
  assumes "distinct (map rd_key (readings_of ob st))"
  shows "row_at k (evaluate t ob st) =
      (case List.find (\<lambda>r. rd_key r = k) (readings_of ob st) of
         Some r \<Rightarrow> Some (new_row t st r)
       | None \<Rightarrow> map_option (\<lambda>c. if list_ex (\<lambda>c. nc_key c = k \<and> isOpen (nc_state c)) (no_conditions st)
            then c \<lparr> nc_state := (nc_state c) \<lparr> co_resolvedAt := Some (ti_now t), co_consecutiveFailures := 0 \<rparr>,
                     nc_lastEvaluatedAt := ti_now t \<rparr>
            else c) (row_at k st))
    \<and> no_jobs (evaluate t ob st) = no_jobs st @ concat (map (new_jobs t st) (readings_of ob st))"
proof -
  let ?rs = "readings_of ob st"
  let ?applied = "foldl (applyReading t (no_conditions st)) st ?rs"
  let ?resolved = "foldl (resolve_vanished (ti_now t) (set (map rd_key ?rs))) ?applied (no_conditions st)"
  have same: "row_at k (evaluate t ob st) = row_at k ?resolved" "no_jobs (evaluate t ob st) = no_jobs ?resolved"
    by (simp_all add: evaluate_def Let_def row_at_def recordAnnouncedDrops_def)
  have produced: "k \<in> set (map rd_key ?rs) \<longleftrightarrow> List.find (\<lambda>r. rd_key r = k) ?rs \<noteq> None"
    by (auto simp: find_None_iff)
  show ?thesis unfolding same
    using readings_applied [OF assms, of k t st st] vanished_resolved [of k "ti_now t" "set (map rd_key ?rs)" ?applied "no_conditions st"]
      produced by (auto split: option.splits)
qed

section \<open>The catalogue\<close>

text \<open>What makes the instances of a condition distinct: peers and strangers are named once each.\<close>

definition names_once :: "system_status \<Rightarrow> bool" where
  "names_once s \<longleftrightarrow> (case ss_replication s of
      None \<Rightarrow> True
    | Some r \<Rightarrow> distinct (map ps_certname (rs_peers r)) \<and> distinct (case rs_reportingStrangers r of None \<Rightarrow> [] | Some l \<Rightarrow> l))"

definition fixed_keys :: "string set" where
  "fixed_keys = {''materialization.stranded'', ''puppetdb.unreachable'', ''projection.prune-refused'', ''audit.delivery-failing'',
     ''audit.records-dropped'', ''console-cert.expiring''}"

lemma reading_sel [simp]:
  "rd_key (reading k kind sev summary f sr) = k" "rd_failing (reading k kind sev summary f sr) = f"
  "rd_selfResolving (reading k kind sev summary f sr) = sr"
  by (simp_all add: reading_def)

lemma peer_keys:
  "map rd_key (peer_readings p) = [''replication.not-reporting:'' @ ps_certname p, ''replication.behind:'' @ ps_certname p]"
  by (simp add: peer_readings_def)

lemma peer_keys_distinct: "distinct (map ps_certname ps) \<Longrightarrow> distinct (map rd_key (concat (map peer_readings ps)))"
proof (induction ps)
  case (Cons p ps)
  have keys: "set (map rd_key (concat (map peer_readings ps))) =
      (\<lambda>c. ''replication.not-reporting:'' @ c) ` set (map ps_certname ps) \<union> (\<lambda>c. ''replication.behind:'' @ c) ` set (map ps_certname ps)"
    by (induction ps) (auto simp: peer_keys simp flip: set_map)
  have "distinct (map rd_key (concat (map peer_readings ps)))" using Cons by simp
  moreover have "set (map rd_key (peer_readings p)) \<inter> set (map rd_key (concat (map peer_readings ps))) = {}"
    unfolding keys peer_keys using Cons.prems by auto
  moreover have "distinct (map rd_key (peer_readings p))" unfolding peer_keys by simp
  ultimately show ?case by (simp del: set_map add: map_append set_map [symmetric])
qed simp

lemma replication_key_sets:
  "set (map rd_key (concat (map peer_readings ps))) =
     (\<lambda>c. ''replication.not-reporting:'' @ c) ` set (map ps_certname ps) \<union> (\<lambda>c. ''replication.behind:'' @ c) ` set (map ps_certname ps)"
  by (induction ps) (auto simp: peer_keys simp flip: set_map)

text \<open>The first fifteen characters tell the conditions apart.\<close>

definition tag_of :: "string \<Rightarrow> string" where
  "tag_of k = take 15 k"

lemma tags:
  "tag_of (''replication.unexpected-receipts:'' @ c) = ''replication.une''"
  "tag_of (''replication.not-reporting:'' @ c) = ''replication.not''"
  "tag_of (''replication.behind:'' @ c) = ''replication.beh''"
  "tag_of ''replication.no-peer'' = ''replication.no-''"
  by (simp_all add: tag_of_def)

lemma fixed_tags: "tag_of ` fixed_keys =
    {''materialization'', ''puppetdb.unreac'', ''projection.prun'', ''audit.delivery-'', ''audit.records-d'', ''console-cert.ex''}"
  by (simp add: tag_of_def fixed_keys_def)

lemma peer_tags: "k \<in> set (map rd_key (concat (map peer_readings ps))) \<Longrightarrow> tag_of k \<in> {''replication.not'', ''replication.beh''}"
  unfolding replication_key_sets using tags by blast

lemma apart_by_tag: "tag_of ` A \<subseteq> S \<Longrightarrow> tag_of ` B \<inter> S = {} \<Longrightarrow> A \<inter> B = {}"
  by blast

lemma replication_keys:
  assumes "names_once s"
  shows "distinct (map rd_key (replication_readings s)) \<and> set (map rd_key (replication_readings s)) \<inter> fixed_keys = {}"
proof (cases "ss_replication s")
  case None
  then show ?thesis by (simp add: replication_readings_def)
next
  case (Some r)
  define strangers where "strangers = map (\<lambda>c. ''replication.unexpected-receipts:'' @ c)
      (case rs_reportingStrangers r of None \<Rightarrow> [] | Some l \<Rightarrow> l)"
  define peers where "peers = map rd_key (concat (map peer_readings (rs_peers r)))"
  define all_keys where "all_keys = ''replication.no-peer'' # strangers @ peers"
  have d: "distinct strangers" "distinct peers"
    using assms Some peer_keys_distinct unfolding strangers_def peers_def
    by (auto simp: names_once_def distinct_map inj_on_def)
  have "rd_key (stranger_reading c) = ''replication.unexpected-receipts:'' @ c" for c
    by (simp add: stranger_reading_def)
  then have keys: "map rd_key (replication_readings s) = (if \<not> rs_enabled r then [] else all_keys)"
    by (simp add: replication_readings_def Some no_peer_reading_def comp_def strangers_def peers_def all_keys_def del: append_Cons append_Nil)
  have t: "tag_of ` set strangers \<subseteq> {''replication.une''}" "tag_of ` set peers \<subseteq> {''replication.not'', ''replication.beh''}"
    subgoal unfolding strangers_def set_map image_image tags(1) by blast
    subgoal using peer_tags unfolding peers_def by blast
    done
  have "set strangers \<inter> set peers = {}" using apart_by_tag [OF t(1), of "set peers"] t(2) by auto
  moreover have "''replication.no-peer'' \<notin> set strangers \<union> set peers" using t tags(4) by auto
  ultimately have "distinct all_keys" using d unfolding all_keys_def by auto
  moreover have "tag_of ` set all_keys \<subseteq> {''replication.une'', ''replication.not'', ''replication.beh'', ''replication.no-''}"
    using t tags(4) unfolding all_keys_def by auto
  then have "set all_keys \<inter> fixed_keys = {}" by (rule apart_by_tag) (simp add: fixed_tags)
  ultimately show ?thesis unfolding keys by simp
qed

lemma catalogue_keys_distinct:
  assumes "names_once (ca_status c)"
  shows "distinct (map rd_key (readConditions c))"
proof -
  let ?rep = "map rd_key (replication_readings (ca_status c))"
  have keys: "map rd_key (readConditions c) = ''materialization.stranded'' # ?rep @
      [''puppetdb.unreachable'', ''projection.prune-refused''] @ map rd_key (delivery_readings (ca_status c))
      @ ''audit.records-dropped'' # map rd_key (certificate_readings c)"
    by (simp add: readConditions_def stranded_reading_def unreachable_reading_def prune_reading_def drops_reading_def DROPS_KEY_def Let_def)
  let ?rest = "[''puppetdb.unreachable'', ''projection.prune-refused''] @ map rd_key (delivery_readings (ca_status c))
      @ ''audit.records-dropped'' # map rd_key (certificate_readings c)"
  have some: "map rd_key (delivery_readings (ca_status c)) \<in> {[], [''audit.delivery-failing'']}"
    "map rd_key (certificate_readings c) \<in> {[], [''console-cert.expiring'']}"
    by (simp_all add: delivery_readings_def certificate_readings_def Let_def split: option.split)
  have "distinct (map tag_of (''materialization.stranded'' # ?rest))"
    using some by (elim insertE emptyE) (simp_all only:, simp_all add: tag_of_def)
  then have fixed: "distinct (''materialization.stranded'' # ?rest)" by (simp only: distinct_map)
  have members: "''materialization.stranded'' \<in> fixed_keys" "''puppetdb.unreachable'' \<in> fixed_keys" "''projection.prune-refused'' \<in> fixed_keys"
    "''audit.records-dropped'' \<in> fixed_keys" "''audit.delivery-failing'' \<in> fixed_keys" "''console-cert.expiring'' \<in> fixed_keys"
    by (simp_all only: fixed_keys_def insert_iff simp_thms)
  have "set (map rd_key (delivery_readings (ca_status c))) \<subseteq> fixed_keys" "set (map rd_key (certificate_readings c)) \<subseteq> fixed_keys"
    using some members(5,6) by (auto simp del: set_map)
  then have inside: "set (''materialization.stranded'' # ?rest) \<subseteq> fixed_keys"
    using members(1-4) by (simp only: list.set set_append insert_subset Un_subset_iff empty_subsetI simp_thms)
  have "distinct (k # rep @ rest)"
    if "distinct (k # rest)" "distinct rep" "set (k # rest) \<subseteq> S" "set rep \<inter> S = {}" for k :: string and rep rest S
    using that by auto
  from this [OF fixed _ inside, of ?rep] show ?thesis unfolding keys using replication_keys [OF assms] by blast
qed

lemma readings_distinct: "names_once (ob_status ob) \<Longrightarrow> distinct (map rd_key (readings_of ob st))"
  by (simp add: readings_of_def catalogue_keys_distinct)

section \<open>Properties\<close>

lemma find_reading:
  assumes "distinct (map rd_key rs)" "r \<in> set rs"
  shows "List.find (\<lambda>x. rd_key x = rd_key r) rs = Some r"
  using assms by (induction rs) auto

lemma new_jobs_keys: "j \<in> set (new_jobs t st r) \<Longrightarrow> dj_conditionKey j = rd_key r"
  by (auto simp: new_jobs_def delivery_of_def split: option.splits)

lemma jobs_of_key:
  assumes "distinct (map rd_key rs)" "r \<in> set rs"
  shows "filter (\<lambda>j. dj_conditionKey j = rd_key r) (concat (map (new_jobs t st) rs)) = new_jobs t st r"
  using assms
proof (induction rs)
  case (Cons x rs)
  have own: "filter (\<lambda>j. dj_conditionKey j = rd_key x) (new_jobs t st x) = new_jobs t st x"
    by (simp add: filter_id_conv new_jobs_keys)
  show ?case
  proof (cases "r = x")
    case True
    then have "filter (\<lambda>j. dj_conditionKey j = rd_key x) (concat (map (new_jobs t st) rs)) = []"
      using Cons.prems(1) by (auto simp: filter_empty_conv dest!: new_jobs_keys)
    with True own show ?thesis by simp
  next
    case False
    then have "r \<in> set rs" "rd_key x \<notin> rd_key ` set rs" using Cons.prems by simp_all
    then have "rd_key r \<noteq> rd_key x" by (metis imageI)
    then have "filter (\<lambda>j. dj_conditionKey j = rd_key r) (new_jobs t st x) = []"
      by (auto simp: filter_empty_conv dest!: new_jobs_keys)
    with False Cons show ?thesis by simp
  qed
qed simp

lemma evaluated_key:
  assumes "names_once (ob_status ob)" "r \<in> set (readings_of ob st)"
  shows "state_at (rd_key r) (evaluate t ob st) = Some (de_state (decision_for t st r))
    \<and> filter (\<lambda>j. dj_conditionKey j = rd_key r) (drop (length (no_jobs st)) (no_jobs (evaluate t ob st))) = new_jobs t st r"
  using evaluate_result [OF readings_distinct [OF assms(1), of st], where k = "rd_key r" and t = t]
    find_reading [OF readings_distinct [OF assms(1)] assms(2)] jobs_of_key [OF readings_distinct [OF assms(1)] assms(2)]
  by (simp add: state_at_def new_row_def)

lemma find_unread: "k \<notin> set (map rd_key rs) \<Longrightarrow> List.find (\<lambda>r. rd_key r = k) rs = None"
  by (auto simp: find_None_iff)

lemma upsert_row_keys:
  assumes "distinct (map nc_key rows)"
  shows "distinct (map nc_key (upsert (\<lambda>c. nc_key c = nc_key row) row (\<lambda>_. row) rows))"
proof -
  have "map nc_key (map (\<lambda>c. if nc_key c = nc_key row then row else c) rows) = map nc_key rows" by auto
  with assms show ?thesis by (auto simp: upsert_def list_ex_iff simp del: map_map)
qed

lemma evaluate_keys:
  assumes "distinct (map nc_key (no_conditions st))"
  shows "distinct (map nc_key (no_conditions (evaluate t ob st)))"
proof -
  have applied: "distinct (map nc_key (no_conditions (foldl (applyReading t stored) st rs)))"
    if "distinct (map nc_key (no_conditions st))" for st stored rs
    using that
  proof (induction rs arbitrary: st)
    case (Cons r rs)
    obtain row where "no_conditions (applyReading t stored st r) = upsert (\<lambda>c. nc_key c = nc_key row) row (\<lambda>_. row) (no_conditions st)"
      by (rule that [where row = "new_row t (st \<lparr> no_conditions := stored \<rparr>) r"])
        (simp add: applyReading_def Let_def new_row_def decision_for_def state_at_def row_at_def)
    then show ?case using Cons.IH [of "applyReading t stored st r"] upsert_row_keys [OF Cons.prems, of row] by simp
  qed simp
  have vanish: "distinct (map nc_key (no_conditions (foldl (resolve_vanished now produced) st rows)))"
    if "distinct (map nc_key (no_conditions st))" for st now produced rows
    using that by (induction rows arbitrary: st) (simp_all add: resolve_vanished_def update_many_keys)
  show ?thesis using assms by (simp add: evaluate_def Let_def recordAnnouncedDrops_def applied vanish)
qed

lemma key_rows:
  assumes "distinct (map nc_key rows)" "c \<in> set rows"
  shows "find_unique (\<lambda>x. nc_key x = nc_key c) rows = Some c"
  using assms by (induction rows) (auto simp: find_unique_def)

lemma unread_row:
  assumes "names_once (ob_status ob)" "k \<notin> set (map rd_key (readings_of ob st))" "distinct (map nc_key (no_conditions st))"
  shows "row_at k (evaluate t ob st) = map_option (\<lambda>c. if isOpen (nc_state c)
      then c \<lparr> nc_state := (nc_state c) \<lparr> co_resolvedAt := Some (ti_now t), co_consecutiveFailures := 0 \<rparr>, nc_lastEvaluatedAt := ti_now t \<rparr>
      else c) (row_at k st)"
proof -
  have "list_ex (\<lambda>c. nc_key c = k \<and> isOpen (nc_state c)) (no_conditions st) \<longleftrightarrow> (\<exists>c. row_at k st = Some c \<and> isOpen (nc_state c))"
    using key_rows [OF assms(3)] by (auto simp: list_ex_iff row_at_def dest: find_unique_Some)
  then show ?thesis using evaluate_result [OF readings_distinct [OF assms(1), of st], where k = k and t = t] find_unread [OF assms(2)]
    by (cases "row_at k st") auto
qed

lemma unread_jobs:
  assumes "names_once (ob_status ob)" "k \<notin> set (map rd_key (readings_of ob st))"
  shows "filter (\<lambda>j. dj_conditionKey j = k) (no_jobs (evaluate t ob st)) = filter (\<lambda>j. dj_conditionKey j = k) (no_jobs st)"
  using evaluate_result [OF readings_distinct [OF assms(1), of st], where t = t] assms(2)
  by (auto simp: filter_empty_conv dest!: new_jobs_keys)

text \<open>
  What evaluations have seen of one condition: whether it failed, and when, or that it was not read. The history that counts
  (\<open>counted\<close>) leaves out an evaluation that did not read the condition, unless the condition is open: then it ends there, and
  nobody is told (\<open>told\<close> has an edge for what was read only).
\<close>

datatype sighting = Read bool int | NotRead int

fun counted :: "bool \<Rightarrow> (bool \<times> int) list \<Rightarrow> sighting list \<Rightarrow> (bool \<times> int) list" where
  "counted sr before [] = before"
| "counted sr before (Read f t # ss) = counted sr (before @ [(f, t)]) ss"
| "counted sr before (NotRead t # ss) =
     counted sr (if threshold_of sr \<le> failing_run (map fst before) then before @ [(False, t)] else before) ss"

fun told :: "bool \<Rightarrow> (bool \<times> int) list \<Rightarrow> sighting list \<Rightarrow> transition list" where
  "told sr before [] = []"
| "told sr before (Read f t # ss) =
     (case edge_at sr (map fst before) f of None \<Rightarrow> [] | Some e \<Rightarrow> [e]) @ told sr (before @ [(f, t)]) ss"
| "told sr before (NotRead t # ss) =
     told sr (if threshold_of sr \<le> failing_run (map fst before) then before @ [(False, t)] else before) ss"

text \<open>
  Evaluations, and drains between them with whatever answers, seen from one condition: what was seen of it, and the deliveries queued for it.
  Rows have unique keys, and \<open>sr\<close> is whether the condition goes away by itself.
\<close>

definition queued_for :: "string \<Rightarrow> notify_state \<Rightarrow> notify_state \<Rightarrow> transition list" where
  "queued_for k st st' = map dj_transition (filter (\<lambda>j. dj_conditionKey j = k) (drop (length (no_jobs st)) (no_jobs st')))"

inductive watched :: "string \<Rightarrow> bool \<Rightarrow> notify_state \<Rightarrow> sighting list \<Rightarrow> transition list \<Rightarrow> bool" for k sr where
  unseen: "row_at k st = None \<Longrightarrow> distinct (map nc_key (no_conditions st)) \<Longrightarrow> watched k sr st [] []"
| evaluated: "watched k sr st ss es \<Longrightarrow> names_once (ob_status ob) \<Longrightarrow> r \<in> set (readings_of ob st) \<Longrightarrow> rd_key r = k
    \<Longrightarrow> rd_selfResolving r = sr \<Longrightarrow>
    watched k sr (evaluate t ob st) (ss @ [Read (rd_failing r) (ti_now t)]) (es @ queued_for k st (evaluate t ob st))"
| unread: "watched k sr st ss es \<Longrightarrow> names_once (ob_status ob) \<Longrightarrow> k \<notin> set (map rd_key (readings_of ob st)) \<Longrightarrow>
    watched k sr (evaluate t ob st) (ss @ [NotRead (ti_now t)]) (es @ queued_for k st (evaluate t ob st))"
| drained: "watched k sr st ss es \<Longrightarrow> watched k sr (drain_notifications pacing now webhook email st) ss es"

lemma counted_snoc:
  "counted sr before (ss @ [Read f t]) = counted sr before ss @ [(f, t)]"
  "counted sr before (ss @ [NotRead t]) = (let hs = counted sr before ss
     in if threshold_of sr \<le> failing_run (map fst hs) then hs @ [(False, t)] else hs)"
  by (induction sr before ss rule: counted.induct) (simp_all add: Let_def)

lemma told_snoc:
  "told sr before (ss @ [Read f t]) = told sr before ss
     @ (case edge_at sr (map fst (counted sr before ss)) f of None \<Rightarrow> [] | Some e \<Rightarrow> [e])"
  "told sr before (ss @ [NotRead t]) = told sr before ss"
  by (induction sr before ss rule: told.induct) simp_all

lemma follows_unread:
  assumes "follows sr hs previous"
  shows "follows sr (if threshold_of sr \<le> failing_run (map fst hs) then hs @ [(False, t)] else hs)
     (map_option (\<lambda>s. if isOpen s then s \<lparr> co_resolvedAt := Some t, co_consecutiveFailures := 0 \<rparr> else s) previous)"
  using assms by (cases previous) (auto simp: follows_def isOpen_def Let_def)

lemma unread_state:
  assumes "names_once (ob_status ob)" "k \<notin> set (map rd_key (readings_of ob st))" "distinct (map nc_key (no_conditions st))"
  shows "state_at k (evaluate t ob st) =
      map_option (\<lambda>s. if isOpen s then s \<lparr> co_resolvedAt := Some (ti_now t), co_consecutiveFailures := 0 \<rparr> else s) (state_at k st)"
  unfolding state_at_def unread_row [OF assms] by (cases "row_at k st") simp_all

lemma unread_queues_nothing:
  assumes "names_once (ob_status ob)" "k \<notin> set (map rd_key (readings_of ob st))"
  shows "queued_for k st (evaluate t ob st) = []"
proof -
  have "filter (\<lambda>j. dj_conditionKey j = k) (concat (map (new_jobs t st) (readings_of ob st))) = []"
    using assms(2) by (auto simp: filter_empty_conv dest!: new_jobs_keys)
  moreover have "no_jobs (evaluate t ob st) = no_jobs st @ concat (map (new_jobs t st) (readings_of ob st))"
    using evaluate_result [OF readings_distinct [OF assms(1), of st]] by blast
  ultimately show ?thesis by (simp add: queued_for_def)
qed

text \<open>
  C11. A notification at each change, and what happens to a condition that is not read. Take any sequence of evaluations, each of which may or
  may not read a condition, with drains in between. The condition is open exactly when the last three evaluations
  that read it failed (the last one, for a fact that does not go away by itself) and no evaluation since it opened left it unread,
  since the time at which that became so. The deliveries queued for it are one at each evaluation that completes such a run and one at the
  first passing evaluation after it, in this order, whatever is delivered in between. An evaluation that does not read an open condition
  closes it without a delivery, and one that does not read a closed condition counts neither as passing nor as failing. (Peers are named once in a status, as the tables have them.)
\<close>

theorem conditions_follow_history:
  assumes "watched k sr st ss es"
  shows "follows sr (counted sr [] ss) (state_at k st) \<and> es = told sr [] ss"
proof -
  from assms have "follows sr (counted sr [] ss) (state_at k st) \<and> es = told sr [] ss \<and> distinct (map nc_key (no_conditions st))"
  proof induction
    case (unseen st)
    then show ?case by (simp add: follows_def state_at_def)
  next
    case (evaluated st ss es ob r t)
    let ?d = "decision_for t st r" and ?hs = "counted sr [] ss"
    have d: "follows sr (?hs @ [(rd_failing r, ti_now t)]) (Some (de_state ?d))" "de_transition ?d = edge_at sr (map fst ?hs) (rd_failing r)"
      using decide_follows [where f = "rd_failing r" and now = "ti_now t", of sr ?hs "state_at k st"] evaluated.IH evaluated.hyps
      by (simp_all add: decision_for_def)
    have "map dj_transition (new_jobs t st r) = (case de_transition ?d of None \<Rightarrow> [] | Some e \<Rightarrow> [e])"
      by (simp add: new_jobs_def delivery_of_def split: option.split)
    with d evaluated_key [OF evaluated.hyps(2,3), of t] evaluated.IH evaluated.hyps(4) evaluate_keys [of st t ob] show ?case
      by (simp add: counted_snoc told_snoc queued_for_def)
  next
    case (unread st ss es ob t)
    then show ?case using unread_state [OF unread.hyps(2,3), of t] unread_queues_nothing [OF unread.hyps(2,3), of t] follows_unread [of sr "counted sr [] ss" "state_at k st" "ti_now t"]
        evaluate_keys [of st t ob]
      by (simp add: counted_snoc told_snoc Let_def)
  next
    case (drained st ss es pacing now webhook email)
    then show ?case by (simp add: drain_notifications_def state_at_def row_at_def)
  qed
  then show ?thesis by simp
qed

text \<open>Evaluations none of which reads the condition.\<close>

fun without_reading :: "string \<Rightarrow> (moment \<times> observation) list \<Rightarrow> notify_state \<Rightarrow> bool" where
  "without_reading k [] st = True"
| "without_reading k ((t, ob) # obs) st \<longleftrightarrow> names_once (ob_status ob) \<and> k \<notin> set (map rd_key (readings_of ob st))
     \<and> without_reading k obs (evaluate t ob st)"

definition evaluate_all :: "(moment \<times> observation) list \<Rightarrow> notify_state \<Rightarrow> notify_state" where
  "evaluate_all obs st = foldl (\<lambda>st (t, ob). evaluate t ob st) st obs"

lemma closed_stays:
  assumes "without_reading k obs st" "distinct (map nc_key (no_conditions st))" "state_at k st = Some s" "\<not> isOpen s"
  shows "state_at k (evaluate_all obs st) = Some s \<and> distinct (map nc_key (no_conditions (evaluate_all obs st)))"
  using assms
proof (induction obs arbitrary: st)
  case Nil
  then show ?case by (simp add: evaluate_all_def)
next
  case (Cons x obs)
  obtain t ob where x: "x = (t, ob)" by (cases x)
  have "state_at k (evaluate t ob st) = Some s"
    using unread_row [of ob k st t] Cons.prems by (auto simp: x state_at_def)
  then show ?case using Cons.IH [of "evaluate t ob st"] Cons.prems evaluate_keys by (simp add: x evaluate_all_def)
qed

text \<open>
  A condition that is not read is not a condition that passes. The failures a condition had before it was last read keep counting:
  one that failed one time less than the threshold, was then absent from any number of evaluations and fails once, opens at that
  one failure. And one that is open and no longer read is resolved without a delivery, so whoever was told that it opened is not told
  that it ended. The readings of a server that reports without fetching exist only while it fails.
\<close>

theorem unread_is_not_passing:
  assumes "without_reading k obs st" "distinct (map nc_key (no_conditions st))" "state_at k st = Some s"
    and "let st' = evaluate_all obs st in names_once (ob_status ob) \<and> r \<in> set (readings_of ob st') \<and> rd_key r = k
           \<and> rd_failing r \<and> \<not> rd_selfResolving r"
  shows "(\<not> isOpen s \<and> co_consecutiveFailures s = FAILURES_TO_OPEN - 1 \<longrightarrow>
      (\<exists>s'. state_at k (evaluate t ob (evaluate_all obs st)) = Some s' \<and> isOpen s')
      \<and> delivery_of t r OPENED \<in> set (no_jobs (evaluate t ob (evaluate_all obs st))))
    \<and> (isOpen s \<and> obs \<noteq> [] \<longrightarrow>
      (\<exists>s'. state_at k (evaluate_all [hd obs] st) = Some s' \<and> \<not> isOpen s')
      \<and> filter (\<lambda>j. dj_conditionKey j = k) (no_jobs (evaluate_all [hd obs] st)) = filter (\<lambda>j. dj_conditionKey j = k) (no_jobs st))"
proof (intro conjI [where P = "_ \<longrightarrow> _"] impI)
  let ?st = "evaluate_all obs st"
  assume s: "\<not> isOpen s \<and> co_consecutiveFailures s = FAILURES_TO_OPEN - 1"
  have key: "state_at (rd_key r) ?st = Some s" using closed_stays [OF assms(1-3)] s assms(4) by (simp add: Let_def)
  have r: "names_once (ob_status ob)" "r \<in> set (readings_of ob ?st)" "rd_key r = k" "rd_failing r" "\<not> rd_selfResolving r"
    using assms(4) by (simp_all add: Let_def)
  have d: "de_transition (decision_for t ?st r) = Some OPENED" "isOpen (de_state (decision_for t ?st r))"
    using r(4,5) s by (simp_all add: decision_for_def key decide_condition_def isOpen_def FAILURES_TO_OPEN_def)
  have "delivery_of t r OPENED \<in> set (new_jobs t ?st r)" using d(1) by (simp add: new_jobs_def)
  then have "delivery_of t r OPENED \<in> set (no_jobs (evaluate t ob ?st))"
    using evaluate_result [OF readings_distinct [OF r(1), of ?st], where t = t] r(2) by auto
  then show "(\<exists>s'. state_at k (evaluate t ob ?st) = Some s' \<and> isOpen s') \<and> delivery_of t r OPENED \<in> set (no_jobs (evaluate t ob ?st))"
    using evaluated_key [OF r(1,2), of t] d(2) r(3) by simp
next
  assume s: "isOpen s \<and> obs \<noteq> []"
  then obtain t' ob' rest where obs: "obs = (t', ob') # rest" by (cases obs) auto
  have quiet: "names_once (ob_status ob')" "k \<notin> set (map rd_key (readings_of ob' st))" using assms(1) by (simp_all add: obs)
  have "state_at k (evaluate t' ob' st) = Some (s \<lparr> co_resolvedAt := Some (ti_now t'), co_consecutiveFailures := 0 \<rparr>)"
    using unread_row [OF quiet assms(2), of t'] assms(3) s by (auto simp: state_at_def)
  then show "(\<exists>s'. state_at k (evaluate_all [hd obs] st) = Some s' \<and> \<not> isOpen s')
      \<and> filter (\<lambda>j. dj_conditionKey j = k) (no_jobs (evaluate_all [hd obs] st)) = filter (\<lambda>j. dj_conditionKey j = k) (no_jobs st)"
    using unread_jobs [OF quiet] by (simp add: obs evaluate_all_def isOpen_def)
qed

lemma recorded_drops: "announcedDrops (recordAnnouncedDrops n st) = of_int n"
  by (simp add: announcedDrops_def recordAnnouncedDrops_def counter_total_put)

text \<open>
  Audit records dropped while their condition is still open are never announced: the total is recorded as announced, and no
  delivery is queued for them.
\<close>

theorem later_drops_unannounced:
  assumes "names_once (ob_status ob)" "state_at DROPS_KEY st = Some s" "isOpen s"
    and "of_int (ss_undeliveredDropped (ob_status ob)) > announcedDrops st"
  shows "announcedDrops (evaluate t ob st) = of_int (ss_undeliveredDropped (ob_status ob))
    \<and> filter (\<lambda>j. dj_conditionKey j = DROPS_KEY) (no_jobs (evaluate t ob st)) = filter (\<lambda>j. dj_conditionKey j = DROPS_KEY) (no_jobs st)"
proof -
  have drops: "\<exists>r \<in> set (readings_of ob st). rd_key r = DROPS_KEY \<and> rd_failing r \<and> rd_selfResolving r"
    using assms(4) by (auto simp: readings_of_def readConditions_def drops_reading_def Let_def)
  then obtain r where r: "r \<in> set (readings_of ob st)" "rd_key r = DROPS_KEY" "rd_failing r" by blast
  have "new_jobs t st r = []" using assms(2,3) r by (simp add: new_jobs_def decision_for_def decide_condition_def Let_def)
  then have "filter (\<lambda>j. dj_conditionKey j = DROPS_KEY) (no_jobs (evaluate t ob st)) = filter (\<lambda>j. dj_conditionKey j = DROPS_KEY) (no_jobs st)"
    using evaluate_result [OF readings_distinct [OF assms(1), of st], where t = t] jobs_of_key [OF readings_distinct [OF assms(1)] r(1), of t st] r(2)
    by simp
  moreover have "announcedDrops (evaluate t ob st) = of_int (ss_undeliveredDropped (ob_status ob))"
    using assms(4) by (simp add: evaluate_def Let_def recorded_drops)
  ultimately show ?thesis by simp
qed

definition retried :: "delivery_pacing \<Rightarrow> int \<Rightarrow> string \<Rightarrow> delivery_job \<Rightarrow> delivery_job" where
  "retried pacing now error j =
     j \<lparr> dj_attempts := dj_attempts j + 1, dj_lastError := Some error,
         dj_nextAttemptAt := now + min (dp_baseBackoffMs pacing * 2 ^ dj_attempts j) (dp_maxBackoffMs pacing) \<rparr>"

definition after_delivery :: "delivery_pacing \<Rightarrow> int \<Rightarrow> channel \<Rightarrow> channel \<Rightarrow> delivery_job \<Rightarrow> delivery_job set" where
  "after_delivery pacing now webhook email j =
     (case deliverToAll webhook email j of
        None \<Rightarrow> {}
      | Some error \<Rightarrow> if dj_attempts j + 1 \<ge> dp_maxAttempts pacing then {} else {retried pacing now error j})"

lemma delivered_jobs:
  assumes "distinct (map dj_id jobs)" "job \<in> set jobs"
  shows "set (deliver_job pacing now webhook email jobs job) = {j \<in> set jobs. dj_id j \<noteq> dj_id job} \<union> after_delivery pacing now webhook email job
    \<and> distinct (map dj_id (deliver_job pacing now webhook email jobs job))"
proof -
  have only: "set jobs \<inter> {j. dj_id j = dj_id job} = {job}"
    using assms by (auto simp: distinct_map inj_on_def)
  have others: "set jobs \<inter> {j. dj_id j \<noteq> dj_id job} = {j \<in> set jobs. dj_id j \<noteq> dj_id job}" by blast
  show ?thesis
  proof (cases "deliverToAll webhook email job")
    case None
    then show ?thesis using assms(1) by (simp add: deliver_job_def after_delivery_def delete_many_keys)
  next
    case (Some error)
    then show ?thesis using assms(1)
      by (simp add: deliver_job_def after_delivery_def Let_def update_many_keys delete_many_keys only others retried_def)
  qed
qed

lemma after_delivery_id: "j \<in> after_delivery pacing now webhook email job \<Longrightarrow> dj_id j = dj_id job"
  by (auto simp: after_delivery_def retried_def split: option.splits if_splits)

lemma delivered_batch:
  assumes "distinct (map dj_id jobs)" "distinct (map dj_id batch)" "set batch \<subseteq> set jobs"
  shows "set (foldl (deliver_job pacing now webhook email) jobs batch) =
      (set jobs - set batch) \<union> (\<Union>j \<in> set batch. after_delivery pacing now webhook email j)
    \<and> distinct (map dj_id (foldl (deliver_job pacing now webhook email) jobs batch))"
  using assms
proof (induction batch arbitrary: jobs)
  case (Cons job batch)
  let ?jobs = "deliver_job pacing now webhook email jobs job"
  have one: "set ?jobs = {j \<in> set jobs. dj_id j \<noteq> dj_id job} \<union> after_delivery pacing now webhook email job" "distinct (map dj_id ?jobs)"
    using delivered_jobs [of jobs job pacing now webhook email] Cons.prems by simp_all
  have only: "j \<in> set jobs \<Longrightarrow> dj_id j = dj_id job \<Longrightarrow> j = job" for j
    using Cons.prems(1,3) by (metis distinct_map inj_onD list.set_intros(1) subsetD)
  have other: "dj_id j \<noteq> dj_id job" if "j \<in> set batch" for j
    using that Cons.prems(2) by (metis distinct.simps(2) imageI list.set_map list.simps(9))
  have "set batch \<subseteq> set ?jobs" using one(1) other Cons.prems(3) by auto
  then have "set (foldl (deliver_job pacing now webhook email) ?jobs batch) =
      (set ?jobs - set batch) \<union> (\<Union>j \<in> set batch. after_delivery pacing now webhook email j)"
    "distinct (map dj_id (foldl (deliver_job pacing now webhook email) ?jobs batch))"
    using Cons.IH [OF one(2)] Cons.prems(2) by simp_all
  moreover have "set ?jobs - set batch = (set jobs - set (job # batch)) \<union> after_delivery pacing now webhook email job"
  proof -
    have "{j \<in> set jobs. dj_id j \<noteq> dj_id job} = set jobs - {job}" using only by blast
    moreover have "after_delivery pacing now webhook email job \<inter> set batch = {}"
      using other after_delivery_id [of _ pacing now webhook email job] by blast
    ultimately show ?thesis unfolding one(1) by auto
  qed
  ultimately show ?case by (simp add: Un_assoc)
qed simp

text \<open>
  What a round of the worker does with every queued delivery. With no channel configured, nothing. Otherwise the due ones, the oldest
  first and at most a batch of them, are sent to every channel there is: one that all of them took is done; one that some channel refused is kept
  with one attempt more and a later time, within the backoff's bounds, until its attempts are used up. All others stay
  as they are, and none is added or doubled.
\<close>

theorem delivery_round:
  assumes "distinct (map dj_id (no_jobs st))" "batch = due_jobs pacing now (no_jobs st)"
  shows "drain_notifications pacing now None None st = st
    \<and> (webhook \<noteq> None \<or> email \<noteq> None \<longrightarrow>
        set (no_jobs (drain_notifications pacing now webhook email st)) =
          (set (no_jobs st) - set batch) \<union> (\<Union>j \<in> set batch. after_delivery pacing now webhook email j))
    \<and> distinct (map dj_id (no_jobs (drain_notifications pacing now webhook email st)))
    \<and> (dp_baseBackoffMs pacing \<ge> 0 \<longrightarrow>
        now + min (dp_baseBackoffMs pacing) (dp_maxBackoffMs pacing) \<le> dj_nextAttemptAt (retried pacing now error j)
        \<and> dj_nextAttemptAt (retried pacing now error j) \<le> now + dp_maxBackoffMs pacing)"
proof -
  have "set batch \<subseteq> set (no_jobs st)" unfolding assms(2) due_jobs_def by (auto dest!: in_set_takeD)
  moreover have "distinct (map dj_id batch)"
    using assms(1) unfolding assms(2) due_jobs_def take_map [symmetric]
    by (intro distinct_take) (simp only: distinct_map_js_sort distinct_map_filter)
  ultimately have batch: "set batch \<subseteq> set (no_jobs st)" "distinct (map dj_id batch)" by simp_all
  have "dp_baseBackoffMs pacing * 1 \<le> dp_baseBackoffMs pacing * 2 ^ dj_attempts j" if "dp_baseBackoffMs pacing \<ge> 0"
    using that by (intro mult_left_mono) simp_all
  then show ?thesis using delivered_batch [OF assms(1) batch(2,1), of pacing now webhook email] assms(1)
    by (auto simp: drain_notifications_def retried_def assms(2) [symmetric])
qed

section \<open>Witnesses\<close>

definition demo_status :: system_status where
  "demo_status = \<lparr> ss_materializationFailed = 0, ss_replication = None, ss_forwardingActive = ''none'', ss_lastDeliveryOk = None,
     ss_undeliveredDropped = 0 \<rparr>"

definition demo_observation :: "system_status \<Rightarrow> observation" where
  "demo_observation s = \<lparr> ob_status = s, ob_reachable = True, ob_lastSuccessAt = None, ob_certDays = None, ob_pruneSkippedReason = None \<rparr>"

definition demo_moment :: "int \<Rightarrow> moment" where
  "demo_moment now = \<lparr> ti_now = now, ti_iso = int_str, ti_uuid = (\<lambda>k. k) \<rparr>"

definition with_stranger :: observation where
  "with_stranger = demo_observation (demo_status \<lparr> ss_replication :=
     Some \<lparr> rs_enabled = True, rs_allowedCertnames = [], rs_peers = [], rs_reportingStrangers = Some [''pe1''] \<rparr> \<rparr>)"

lemma watch_stranger:
  assumes "watched ''replication.unexpected-receipts:pe1'' False st ss es"
  shows "\<exists>es'. watched ''replication.unexpected-receipts:pe1'' False (evaluate (demo_moment now) with_stranger st) (ss @ [Read True now]) es'"
    and "\<exists>es'. watched ''replication.unexpected-receipts:pe1'' False (evaluate (demo_moment now) (demo_observation demo_status) st) (ss @ [NotRead now]) es'"
proof -
  have "stranger_reading ''pe1'' \<in> set (readings_of with_stranger st)" "names_once (ob_status with_stranger)"
    by (simp_all add: readings_of_def readConditions_def replication_readings_def with_stranger_def demo_observation_def names_once_def)
  from watched.evaluated [OF assms this(2,1), of "demo_moment now"]
  show "\<exists>es'. watched ''replication.unexpected-receipts:pe1'' False (evaluate (demo_moment now) with_stranger st) (ss @ [Read True now]) es'"
    by (auto simp: stranger_reading_def demo_moment_def)
  have "''replication.unexpected-receipts:pe1'' \<notin> set (map rd_key (readings_of (demo_observation demo_status) st))"
    by (simp add: readings_of_def readConditions_def replication_readings_def delivery_readings_def certificate_readings_def demo_observation_def
        demo_status_def stranded_reading_def unreachable_reading_def prune_reading_def drops_reading_def DROPS_KEY_def Let_def)
  from watched.unread [OF assms _ this, of "demo_moment now"]
  show "\<exists>es'. watched ''replication.unexpected-receipts:pe1'' False (evaluate (demo_moment now) (demo_observation demo_status) st) (ss @ [NotRead now]) es'"
    by (auto simp: names_once_def demo_observation_def demo_status_def demo_moment_def)
qed

theorem conditions_follow_history_witness:
  "\<exists>st es. watched ''replication.unexpected-receipts:pe1'' False st [Read True 1, NotRead 2, Read True 3, Read True 4, NotRead 5] es
     \<and> es = [OPENED] \<and> (\<exists>s. state_at ''replication.unexpected-receipts:pe1'' st = Some s \<and> \<not> isOpen s)"
proof -
  let ?k = "''replication.unexpected-receipts:pe1''"
  have "watched ?k False \<lparr> no_conditions = [], no_jobs = [], no_settings = [] \<rparr> [] []"
    by (rule watched.unseen) (simp_all add: row_at_def)
  from watch_stranger(1) [OF this, of 1] obtain es1 st1 where "watched ?k False st1 [Read True 1] es1" by auto
  from watch_stranger(2) [OF this, of 2] obtain es2 st2 where "watched ?k False st2 [Read True 1, NotRead 2] es2" by auto
  from watch_stranger(1) [OF this, of 3] obtain es3 st3 where "watched ?k False st3 [Read True 1, NotRead 2, Read True 3] es3" by auto
  from watch_stranger(1) [OF this, of 4] obtain es4 st4 where "watched ?k False st4 [Read True 1, NotRead 2, Read True 3, Read True 4] es4" by auto
  from watch_stranger(2) [OF this, of 5] obtain es st where w: "watched ?k False st [Read True 1, NotRead 2, Read True 3, Read True 4, NotRead 5] es" by auto
  have "told False [] [Read True 1, NotRead 2, Read True 3, Read True 4, NotRead 5] = [OPENED]" by code_simp
  moreover have "counted False [] [Read True 1, NotRead 2, Read True 3, Read True 4, NotRead 5] = [(True, 1), (True, 3), (True, 4), (False, 5)]"
    by code_simp
  moreover have "failing_run (map fst [(True, 1), (True, 3), (True, 4), (False, 5 :: int)]) = 0" by code_simp
  ultimately show ?thesis using w conditions_follow_history [OF w]
    by (intro exI [of _ st] exI [of _ es]) (auto simp: follows_def split: option.splits)
qed

definition one_condition :: "string \<Rightarrow> condition_state \<Rightarrow> notify_state" where
  "one_condition k s = \<lparr> no_conditions = [\<lparr> nc_key = k, nc_kind = ''kind'', nc_severity = WARNING, nc_summary = [], nc_state = s, nc_lastEvaluatedAt = 0 \<rparr>],
     no_jobs = [], no_settings = [] \<rparr>"

lemma one_state: "state_at k (one_condition k s) = Some s"
  by (simp add: state_at_def row_at_def one_condition_def)

theorem unread_is_not_passing_witness:
  "\<exists>s'. state_at ''replication.unexpected-receipts:pe1'' (evaluate (demo_moment 9) with_stranger
        (evaluate_all [(demo_moment 8, demo_observation demo_status)]
           (one_condition ''replication.unexpected-receipts:pe1'' \<lparr> co_consecutiveFailures = 2, co_openedAt = None, co_resolvedAt = None \<rparr>))) = Some s'
     \<and> isOpen s'"
proof -
  let ?k = "''replication.unexpected-receipts:pe1''" and ?s = "\<lparr> co_consecutiveFailures = 2, co_openedAt = None, co_resolvedAt = None \<rparr>"
  have unread: "without_reading ?k [(demo_moment 8, demo_observation demo_status)] (one_condition ?k ?s)" by code_simp
  have "rd_key (stranger_reading ''pe1'') = ?k" "rd_failing (stranger_reading ''pe1'')" "\<not> rd_selfResolving (stranger_reading ''pe1'')"
    by (simp_all add: stranger_reading_def)
  moreover have "stranger_reading ''pe1'' \<in> set (readings_of with_stranger st)" "names_once (ob_status with_stranger)" for st
    by (simp_all add: readings_of_def readConditions_def replication_readings_def with_stranger_def demo_observation_def names_once_def)
  ultimately show ?thesis
    using unread_is_not_passing [OF unread _ one_state, where ob = with_stranger and r = "stranger_reading ''pe1''" and t = "demo_moment 9"]
    by (simp add: one_condition_def isOpen_def FAILURES_TO_OPEN_def)
qed

theorem later_drops_unannounced_witness:
  "announcedDrops (evaluate (demo_moment 9) (demo_observation (demo_status \<lparr> ss_undeliveredDropped := 4 \<rparr>))
      (one_condition DROPS_KEY \<lparr> co_consecutiveFailures = 1, co_openedAt = Some 3, co_resolvedAt = None \<rparr>)) = 4"
proof -
  let ?ob = "demo_observation (demo_status \<lparr> ss_undeliveredDropped := 4 \<rparr>)"
  have "names_once (ob_status ?ob)" by (simp add: names_once_def demo_observation_def demo_status_def)
  from later_drops_unannounced [OF this one_state, of _ "demo_moment 9"] show ?thesis
    by (simp add: isOpen_def announcedDrops_def counter_total_def one_condition_def demo_observation_def)
qed

definition demo_delivery :: delivery_job where
  "demo_delivery = delivery_of (demo_moment 0) (stranger_reading ''pe1'') OPENED"

theorem delivery_round_witness:
  "set (no_jobs (drain_notifications DEFAULT_DELIVERY_PACING 0 (Some (\<lambda>_ _. Inl None)) None
      \<lparr> no_conditions = [], no_jobs = [demo_delivery], no_settings = [] \<rparr>)) = {retried DEFAULT_DELIVERY_PACING 0 ''webhook: failed'' demo_delivery}"
proof -
  let ?st = "\<lparr> no_conditions = [], no_jobs = [demo_delivery], no_settings = [] \<rparr>" and ?w = "Some (\<lambda>_ _. Inl None) :: channel"
  have batch: "[demo_delivery] = due_jobs DEFAULT_DELIVERY_PACING 0 (no_jobs ?st)"
    by (simp add: due_jobs_def DEFAULT_DELIVERY_PACING_def demo_delivery_def delivery_of_def demo_moment_def js_sort_def)
  have "after_delivery DEFAULT_DELIVERY_PACING 0 ?w None demo_delivery = {retried DEFAULT_DELIVERY_PACING 0 ''webhook: failed'' demo_delivery}"
    by (simp add: after_delivery_def deliverToAll_def channel_error_def DEFAULT_DELIVERY_PACING_def demo_delivery_def delivery_of_def)
  then show ?thesis using delivery_round [OF _ batch, where webhook = ?w and email = None] by simp
qed

end
