(* ===== verification/AuditTrail.thy ===== *)
theory AuditTrail
  imports AppSettings
begin

text \<open>
  The audit trail and its way out: what an audit row is called (\<open>auth/audit-label.ts\<close>), writing it
  (\<open>PrismaAuditSink\<close> of \<open>auth/core-capabilities.ts\<close>) and queueing it for forwarding
  (\<open>audit-forwarding/forwarding-audit-sink.ts\<close>, \<open>settings-transport.ts\<close>), the delivery outbox and its worker
  (\<open>auth/audit-delivery.outbox.ts\<close>, \<open>audit-delivery.worker.ts\<close>) and the sweeper that bounds the
  table (\<open>auth/audit-retention.sweeper.ts\<close>), and the two senders (\<open>syslog-sender.ts\<close>, \<open>webhook-transport.ts\<close>). What the
  network and the collector do with what is sent is a parameter.
\<close>

section \<open>The label of an entity\<close>

definition LABEL_FIELDS :: "string list" where
  "LABEL_FIELDS = [''name'', ''email'', ''certname'', ''className'', ''title'', ''key'']"

definition MAX_LABEL :: nat where
  "MAX_LABEL = 200"

fun string_label :: "jsval option \<Rightarrow> string option" where
  "string_label (Some (JStr s)) = (if js_trim s \<noteq> [] then Some (js_trim s) else None)"
| "string_label _ = None"

fun first_label :: "string list \<Rightarrow> jsval obj \<Rightarrow> string option" where
  "first_label [] payload = None"
| "first_label (field # others) payload =
     (case string_label (oget payload field) of Some l \<Rightarrow> Some l | None \<Rightarrow> first_label others payload)"

definition labelIn :: "jsval option \<Rightarrow> string option" where
  "labelIn payload = (case payload of Some (JObj o1) \<Rightarrow> first_label LABEL_FIELDS o1 | _ \<Rightarrow> None)"

text \<open>The ellipsis is one character.\<close>

definition ELLIPSIS :: char where
  "ELLIPSIS = CHR 0x85"

definition auditLabel :: "jsval option \<Rightarrow> jsval option \<Rightarrow> string option" where
  "auditLabel before after =
     (case (case labelIn after of Some l \<Rightarrow> Some l | None \<Rightarrow> labelIn before) of
        None \<Rightarrow> None
      | Some label \<Rightarrow> Some (if length label > MAX_LABEL then take (MAX_LABEL - 1) label @ [ELLIPSIS] else label))"

section \<open>Rows\<close>

record audit_entry =
  ae_actorUserId :: "string option"
  ae_actorEmail :: "string option"
  ae_action :: string
  ae_entityType :: string
  ae_entityId :: "string option"
  ae_before :: "jsval option"
  ae_after :: "jsval option"
  ae_ipAddress :: "string option"
  ae_userAgent :: "string option"
  ae_requestId :: "string option"
  ae_entityLabel :: "string option"

record audit_log =
  al_id :: string
  al_entry :: audit_entry
  al_createdAt :: int

record audit_delivery_job =
  aj_id :: string
  aj_auditLogId :: string
  aj_attempts :: nat
  aj_nextAttemptAt :: int
  aj_lastError :: "string option"
  aj_createdAt :: int

record audit_tables =
  au_logs :: "audit_log list"
  au_jobs :: "audit_delivery_job list"
  au_settings :: app_settings

text \<open>Deleting audit rows removes their delivery jobs: the foreign key cascades.\<close>

definition delete_logs :: "string list \<Rightarrow> audit_tables \<Rightarrow> audit_tables" where
  "delete_logs ids st =
     st \<lparr> au_logs := delete_many (\<lambda>l. al_id l \<in> set ids) (au_logs st),
          au_jobs := delete_many (\<lambda>j. aj_auditLogId j \<in> set ids) (au_jobs st) \<rparr>"

section \<open>Writing a record\<close>

text \<open>The id and the time of the row, and the request it is written in, if any.\<close>

record audit_context =
  ax_uuid :: string
  ax_jobUuid :: string
  ax_now :: int
  ax_currentRequestId :: "string option"

definition otherwise :: "'a option \<Rightarrow> 'a option \<Rightarrow> 'a option" where
  "otherwise given fallback = (case given of Some v \<Rightarrow> Some v | None \<Rightarrow> fallback)"

definition PrismaAuditSink_record :: "audit_context \<Rightarrow> audit_entry \<Rightarrow> audit_tables \<Rightarrow> string \<times> audit_tables" where
  "PrismaAuditSink_record cx entry st =
     (let row = \<lparr> al_id = ax_uuid cx,
                  al_entry = entry \<lparr> ae_requestId := otherwise (ae_requestId entry) (ax_currentRequestId cx),
                                     ae_entityLabel := otherwise (ae_entityLabel entry) (auditLabel (ae_before entry) (ae_after entry)) \<rparr>,
                  al_createdAt = ax_now cx \<rparr>
      in (al_id row, st \<lparr> au_logs := au_logs st @ [row] \<rparr>))"

definition enqueue_delivery :: "audit_context \<Rightarrow> string \<Rightarrow> audit_tables \<Rightarrow> audit_tables" where
  "enqueue_delivery cx auditLogId st =
     st \<lparr> au_jobs := upsert (\<lambda>j. aj_auditLogId j = auditLogId)
            \<lparr> aj_id = ax_jobUuid cx, aj_auditLogId = auditLogId, aj_attempts = 0, aj_nextAttemptAt = ax_now cx,
              aj_lastError = None, aj_createdAt = ax_now cx \<rparr>
            (\<lambda>j. j) (au_jobs st) \<rparr>"

text \<open>
  The stored forwarding state, with the settings of the chosen transport, and the environment's webhook; what they amount
  to is what sends, if anything does.
\<close>

datatype syslog_protocol = Tcp | Tls | Udp

record syslog_settings =
  sy_host :: string
  sy_port :: nat
  sy_protocol :: syslog_protocol
  sy_caCert :: "string option"
  sy_clientCert :: "string option"
  sy_clientKey :: "string option"
  sy_facility :: nat
  sy_appName :: string
  sy_timeoutMs :: nat
  sy_tlsRejectUnauthorized :: bool

record webhook_settings =
  wh_url :: string
  wh_token :: "string option"
  wh_timeoutMs :: nat

datatype forwarding_state = Unset | Off | Syslog syslog_settings | Webhook webhook_settings

record export_config =
  xc_url :: string
  xc_token :: "string option"
  xc_caPath :: "string option"
  xc_timeoutMs :: nat
  xc_entityTypes :: "string list"

datatype forwarding = SendSyslog syslog_settings | SendWebhook webhook_settings | SendEnvWebhook

definition forwarding_effective :: "export_config option \<Rightarrow> forwarding_state option \<Rightarrow> forwarding option" where
  "forwarding_effective envFallback state =
     (case state of
        None \<Rightarrow> (if envFallback = None then None else Some SendEnvWebhook)
      | Some Unset \<Rightarrow> (if envFallback = None then None else Some SendEnvWebhook)
      | Some Off \<Rightarrow> None
      | Some (Syslog c) \<Rightarrow> Some (SendSyslog c)
      | Some (Webhook c) \<Rightarrow> Some (SendWebhook c))"

definition shouldForward :: "export_config option \<Rightarrow> audit_entry \<Rightarrow> bool" where
  "shouldForward config entry =
     (case config of
        None \<Rightarrow> True
      | Some c \<Rightarrow> xc_entityTypes c = [] \<or> ae_entityType entry \<in> set (xc_entityTypes c))"

definition ForwardingAuditSink_record ::
  "export_config option \<Rightarrow> forwarding_state option \<Rightarrow> bool \<Rightarrow> audit_context \<Rightarrow> audit_entry \<Rightarrow> audit_tables \<Rightarrow> string \<times> audit_tables" where
  "ForwardingAuditSink_record config cached in_transaction cx entry st =
     (let (auditLogId, st) = PrismaAuditSink_record cx entry st
      in if forwarding_effective config cached = None then (auditLogId, st)
         else if \<not> shouldForward config entry then (auditLogId, st)
         else if \<not> in_transaction then (auditLogId, st)
         else (auditLogId, enqueue_delivery cx auditLogId st))"

section \<open>The outbox\<close>

record pending_delivery =
  pd_jobId :: string
  pd_auditLogId :: string
  pd_attempts :: nat
  pd_entry :: audit_entry
  pd_createdAt :: int

definition claimable_deliveries :: "nat \<Rightarrow> int \<Rightarrow> audit_delivery_job list \<Rightarrow> audit_delivery_job list" where
  "claimable_deliveries sz now jobs =
     take sz (js_sort (\<lambda>a b. aj_createdAt a - aj_createdAt b) (filter (\<lambda>j. aj_nextAttemptAt j \<le> now) jobs))"

definition pending_of :: "audit_log list \<Rightarrow> audit_delivery_job \<Rightarrow> pending_delivery list" where
  "pending_of logs j =
     (case find_unique (\<lambda>l. al_id l = aj_auditLogId j) logs of
        None \<Rightarrow> []
      | Some l \<Rightarrow> [\<lparr> pd_jobId = aj_id j, pd_auditLogId = aj_auditLogId j, pd_attempts = aj_attempts j,
                    pd_entry = al_entry l, pd_createdAt = al_createdAt l \<rparr>])"

definition claim_deliveries :: "nat \<Rightarrow> int \<Rightarrow> int \<Rightarrow> audit_tables \<Rightarrow> pending_delivery list \<times> audit_tables" where
  "claim_deliveries sz leaseMs now st =
     (let jobs = claimable_deliveries sz now (au_jobs st)
      in if length jobs = 0 then ([], st)
         else (concat (map (pending_of (au_logs st)) jobs),
               st \<lparr> au_jobs := update_many (\<lambda>j. aj_id j \<in> set (map aj_id jobs)) (\<lambda>j. j \<lparr> aj_nextAttemptAt := now + leaseMs \<rparr>) (au_jobs st) \<rparr>))"

definition complete_deliveries :: "string list \<Rightarrow> audit_tables \<Rightarrow> nat \<times> audit_tables" where
  "complete_deliveries auditLogIds st =
     (if length auditLogIds = 0 then (0, st)
      else (length (filter (\<lambda>j. aj_auditLogId j \<in> set auditLogIds) (au_jobs st)),
            st \<lparr> au_jobs := delete_many (\<lambda>j. aj_auditLogId j \<in> set auditLogIds) (au_jobs st) \<rparr>))"

text \<open>The update of a row that is gone throws, which is caught: nothing changes.\<close>

definition reschedule :: "int \<Rightarrow> string \<Rightarrow> int \<Rightarrow> pending_delivery \<Rightarrow> audit_tables \<Rightarrow> audit_tables" where
  "reschedule now error backoffMs delivery st =
     st \<lparr> au_jobs := update_many (\<lambda>j. aj_auditLogId j = pd_auditLogId delivery)
            (\<lambda>j. j \<lparr> aj_attempts := pd_attempts delivery + 1, aj_nextAttemptAt := now + backoffMs, aj_lastError := Some (take 1000 error) \<rparr>)
            (au_jobs st) \<rparr>"

section \<open>The delivery worker\<close>

record audit_pacing =
  ap_batchSize :: nat
  ap_leaseMs :: int
  ap_backoffMs :: int
  ap_maxBackoffMs :: int

definition DEFAULT_AUDIT_PACING :: audit_pacing where
  "DEFAULT_AUDIT_PACING = \<lparr> ap_batchSize = 100, ap_leaseMs = 120000, ap_backoffMs = 30000, ap_maxBackoffMs = 3600000 \<rparr>"

definition LAST_DELIVERY_KEY :: string where
  "LAST_DELIVERY_KEY = ''audit.delivery.lastOutcome''"

record delivery_entry =
  de_auditLogId :: string
  de_entry :: audit_entry
  de_createdAt :: string

definition toDeliveryEntry :: "(int \<Rightarrow> string) \<Rightarrow> pending_delivery \<Rightarrow> delivery_entry" where
  "toDeliveryEntry toISO p = \<lparr> de_auditLogId = pd_auditLogId p, de_entry = pd_entry p, de_createdAt = toISO (pd_createdAt p) \<rparr>"

definition recordOutcome :: "string \<Rightarrow> bool \<Rightarrow> nat \<Rightarrow> string option \<Rightarrow> audit_tables \<Rightarrow> audit_tables" where
  "recordOutcome at_time ok delivered error st =
     st \<lparr> au_settings := put_setting LAST_DELIVERY_KEY
            (JObj [(''at'', JStr at_time), (''ok'', JBool ok), (''delivered'', JNum (of_nat delivered)),
                   (''error'', (case error of None \<Rightarrow> JNull | Some e \<Rightarrow> JStr e))]) (au_settings st) \<rparr>"

definition rescheduleAll :: "audit_pacing \<Rightarrow> int \<Rightarrow> string \<Rightarrow> pending_delivery list \<Rightarrow> audit_tables \<Rightarrow> audit_tables" where
  "rescheduleAll pacing now error batch st =
     foldl (\<lambda>st d. reschedule now error (min (ap_backoffMs pacing * 2 ^ pd_attempts d) (ap_maxBackoffMs pacing)) d st) st batch"

record drain_outcome =
  dro_delivered :: nat
  dro_failed :: nat
  dro_ranHere :: bool

text \<open>
  \<open>drain\<close> in its two halves, with the call of the transport between them, outside every transaction. \<open>None\<close> of the first
  half ends the drain; the transport's answer is \<open>Some\<close> message when it threw.
\<close>

definition drain_begin :: "audit_pacing \<Rightarrow> bool \<Rightarrow> bool \<Rightarrow> int \<Rightarrow> audit_tables \<Rightarrow> (drain_outcome + pending_delivery list) \<times> audit_tables" where
  "drain_begin pacing configured lock_free now st =
     (if \<not> configured then (Inl \<lparr> dro_delivered = 0, dro_failed = 0, dro_ranHere = False \<rparr>, st)
      else if \<not> lock_free then (Inl \<lparr> dro_delivered = 0, dro_failed = 0, dro_ranHere = False \<rparr>, st)
      else let (claimed, st) = claim_deliveries (ap_batchSize pacing) (ap_leaseMs pacing) now st
           in if length claimed = 0 then (Inl \<lparr> dro_delivered = 0, dro_failed = 0, dro_ranHere = True \<rparr>, st)
              else (Inr claimed, st))"

definition drain_settle :: "audit_pacing \<Rightarrow> (int \<Rightarrow> string) \<Rightarrow> int \<Rightarrow> pending_delivery list \<Rightarrow> string option \<Rightarrow> audit_tables \<Rightarrow> drain_outcome \<times> audit_tables" where
  "drain_settle pacing toISO now claimed answer st =
     (case answer of
        Some message \<Rightarrow>
          (\<lparr> dro_delivered = 0, dro_failed = length claimed, dro_ranHere = True \<rparr>,
           recordOutcome (toISO now) False 0 (Some message) (rescheduleAll pacing now message claimed st))
      | None \<Rightarrow>
          let (removed, st) = complete_deliveries (map pd_auditLogId claimed) st
          in (\<lparr> dro_delivered = removed, dro_failed = 0, dro_ranHere = True \<rparr>, recordOutcome (toISO now) True removed None st))"

section \<open>The senders\<close>

text \<open>
  How an exchange with the collector ends: a connection that stalls, fails, or is closed with or without an error, after
  all that was to be written was; the kernel's answer to a datagram; the status and the start of the body of an HTTP answer.
  \<open>sn_json\<close> is \<open>JSON.stringify\<close>.
\<close>

datatype stream_end = Stalled | StreamError string | StreamClosed bool

record sender_net =
  sn_json :: "jsval \<Rightarrow> string"
  sn_hostname :: string
  sn_pid :: nat
  sn_stream :: "string \<Rightarrow> stream_end"
  sn_datagram :: "string \<Rightarrow> string option"
  sn_post :: "export_config \<Rightarrow> string \<Rightarrow> string + (nat option \<times> string)"

definition opt_string :: "string option \<Rightarrow> jsval" where
  "opt_string v = (case v of None \<Rightarrow> JNull | Some t \<Rightarrow> JStr t)"

definition opt_json :: "jsval option \<Rightarrow> jsval" where
  "opt_json v = (case v of None \<Rightarrow> JNull | Some t \<Rightarrow> t)"

definition entry_json :: "delivery_entry \<Rightarrow> jsval" where
  "entry_json e = (let r = de_entry e in JObj
     [(''auditLogId'', JStr (de_auditLogId e)), (''actorUserId'', opt_string (ae_actorUserId r)),
      (''actorEmail'', opt_string (ae_actorEmail r)), (''action'', JStr (ae_action r)), (''entityType'', JStr (ae_entityType r)),
      (''entityId'', opt_string (ae_entityId r)), (''entityLabel'', opt_string (ae_entityLabel r)),
      (''requestId'', opt_string (ae_requestId r)), (''before'', opt_json (ae_before r)), (''after'', opt_json (ae_after r)),
      (''ipAddress'', opt_string (ae_ipAddress r)), (''userAgent'', opt_string (ae_userAgent r)),
      (''createdAt'', JStr (de_createdAt e))])"

definition safeToken :: "string \<Rightarrow> string" where
  "safeToken value =
     (let cleaned = map (\<lambda>c. if 33 \<le> (of_char c :: nat) \<and> (of_char c :: nat) \<le> 126 then c else CHR ''_'') value
      in if length cleaned = 0 then ''-'' else cleaned)"

definition syslog_format :: "sender_net \<Rightarrow> syslog_settings \<Rightarrow> delivery_entry \<Rightarrow> string" where
  "syslog_format net config entry =
     (let pri = sy_facility config * 8 + 5;
          header = join '' '' [''<'' @ nat_str pri @ ''>1'', de_createdAt entry, safeToken (sn_hostname net), safeToken (sy_appName config),
                             nat_str (sn_pid net), take 32 (safeToken (ae_action (de_entry entry))), ''-'']
      in header @ '' '' @ sn_json net (entry_json entry))"

text \<open>\<open>Buffer.byteLength\<close> in UTF-8, of characters below 256.\<close>

definition byteLength :: "string \<Rightarrow> nat" where
  "byteLength s = sum_list (map (\<lambda>c. if (of_char c :: nat) < 128 then 1 else 2) s)"

definition frameOctetCounted :: "string \<Rightarrow> string" where
  "frameOctetCounted message = nat_str (byteLength message) @ '' '' @ message"

text \<open>\<open>None\<close> is a return, \<open>Some\<close> message a throw.\<close>

definition sendStream :: "sender_net \<Rightarrow> syslog_settings \<Rightarrow> string \<Rightarrow> string option" where
  "sendStream net config payload =
     (case sn_stream net payload of
        Stalled \<Rightarrow> Some (''syslog collector '' @ sy_host config @ '':'' @ nat_str (sy_port config) @ '' stalled for ''
                       @ nat_str (sy_timeoutMs config) @ ''ms - batch returned to the queue'')
      | StreamError message \<Rightarrow> Some (''syslog delivery failed: '' @ message)
      | StreamClosed hadError \<Rightarrow> if hadError then Some ''syslog connection closed with an error'' else None)"

fun sendUdp :: "sender_net \<Rightarrow> string list \<Rightarrow> string option" where
  "sendUdp net [] = None"
| "sendUdp net (message # messages) =
     (case sn_datagram net message of
        Some e \<Rightarrow> Some (''syslog datagram failed: '' @ e)
      | None \<Rightarrow> sendUdp net messages)"

definition syslog_payload :: "sender_net \<Rightarrow> syslog_settings \<Rightarrow> delivery_entry list \<Rightarrow> string" where
  "syslog_payload net config entries = concat (map frameOctetCounted (map (syslog_format net config) entries))"

definition syslog_send :: "sender_net \<Rightarrow> syslog_settings \<Rightarrow> delivery_entry list \<Rightarrow> string option" where
  "syslog_send net config entries =
     (if length entries = 0 then None
      else if sy_protocol config = Udp then sendUdp net (map (syslog_format net config) entries)
      else sendStream net config (syslog_payload net config entries))"

definition webhook_body :: "sender_net \<Rightarrow> delivery_entry list \<Rightarrow> string" where
  "webhook_body net entries = join newline (map (\<lambda>e. sn_json net (entry_json e)) entries)"

definition webhook_deliver :: "sender_net \<Rightarrow> export_config \<Rightarrow> delivery_entry list \<Rightarrow> string option" where
  "webhook_deliver net config entries =
     (if length entries = 0 then None
      else case sn_post net config (webhook_body net entries) of
        Inl message \<Rightarrow> Some message
      | Inr (status, received) \<Rightarrow>
          (let snippet = js_trim (take 300 received);
               complaint = (if length snippet > 0 then '': '' @ snippet else [])
           in case status of
                None \<Rightarrow> Some (''audit collector answered no status'' @ complaint)
              | Some statusCode \<Rightarrow>
                  if statusCode < 200 \<or> statusCode \<ge> 300 then Some (''audit collector answered '' @ nat_str statusCode @ complaint)
                  else None))"

definition webhookFor :: "webhook_settings \<Rightarrow> export_config" where
  "webhookFor config = \<lparr> xc_url = wh_url config, xc_token = wh_token config, xc_caPath = None, xc_timeoutMs = wh_timeoutMs config, xc_entityTypes = [] \<rparr>"

text \<open>\<open>SettingsAuditTransport.deliver\<close>, with the state read for this delivery.\<close>

definition deliver :: "sender_net \<Rightarrow> export_config option \<Rightarrow> forwarding_state \<Rightarrow> delivery_entry list \<Rightarrow> string option" where
  "deliver net envFallback state entries =
     (case forwarding_effective envFallback (Some state) of
        None \<Rightarrow> Some ''audit forwarding is switched off; the batch stays queued''
      | Some (SendSyslog config) \<Rightarrow> syslog_send net config entries
      | Some (SendWebhook config) \<Rightarrow> webhook_deliver net (webhookFor config) entries
      | Some SendEnvWebhook \<Rightarrow>
          (case envFallback of
             None \<Rightarrow> Some ''no environment webhook configuration''
           | Some config \<Rightarrow> webhook_deliver net config entries))"

section \<open>Retention\<close>

record retention_policy =
  rp_retentionDays :: int
  rp_maxRows :: "nat option"
  rp_batchSize :: nat
  rp_maxBatchesPerPass :: nat

record sweep_result =
  sw_agedDeleted :: nat
  sw_ceilingDeleted :: nat
  sw_undeliveredDropped :: nat
  sw_exhaustedBudget :: bool
  sw_ranHere :: bool

definition UNDELIVERED_DROPS_KEY :: string where
  "UNDELIVERED_DROPS_KEY = ''audit.retention.undeliveredDrops''"

definition has_job :: "audit_tables \<Rightarrow> audit_log \<Rightarrow> bool" where
  "has_job st l \<longleftrightarrow> list_ex (\<lambda>j. aj_auditLogId j = al_id l) (au_jobs st)"

definition oldest :: "nat \<Rightarrow> audit_log list \<Rightarrow> audit_log list" where
  "oldest n logs = take n (js_sort (\<lambda>a b. al_createdAt a - al_createdAt b) logs)"

definition ageBatch :: "retention_policy \<Rightarrow> int \<Rightarrow> audit_tables \<Rightarrow> nat \<times> audit_tables" where
  "ageBatch policy cutoff st =
     (let rows = oldest (rp_batchSize policy) (filter (\<lambda>l. al_createdAt l < cutoff \<and> \<not> has_job st l) (au_logs st))
      in if length rows = 0 then (0, st)
         else (length (filter (\<lambda>l. al_id l \<in> set (map al_id rows)) (au_logs st)), delete_logs (map al_id rows) st))"

definition recordDrops :: "(int \<Rightarrow> string) \<Rightarrow> nat \<Rightarrow> int \<Rightarrow> audit_tables \<Rightarrow> audit_tables" where
  "recordDrops toISO dropped now st =
     (let prior = (case counter_total UNDELIVERED_DROPS_KEY (au_settings st) of Some n \<Rightarrow> n | None \<Rightarrow> 0)
      in st \<lparr> au_settings := put_setting UNDELIVERED_DROPS_KEY
                (JObj [(''total'', JNum (prior + of_nat dropped)), (''lastDroppedAt'', JStr (toISO now))]) (au_settings st) \<rparr>)"

definition ceilingBatch :: "retention_policy \<Rightarrow> (int \<Rightarrow> string) \<Rightarrow> nat \<Rightarrow> int \<Rightarrow> audit_tables \<Rightarrow> (nat \<times> nat) \<times> audit_tables" where
  "ceilingBatch policy toISO maxRows now st =
     (let count = length (au_logs st)
      in if count \<le> maxRows then ((0, 0), st)
         else let excess = min (count - maxRows) (rp_batchSize policy);
                  rows = oldest excess (au_logs st)
              in if length rows = 0 then ((0, 0), st)
                 else let undelivered = length (filter (has_job st) rows);
                          deleted = length (filter (\<lambda>l. al_id l \<in> set (map al_id rows)) (au_logs st));
                          st = delete_logs (map al_id rows) st
                      in ((deleted, undelivered), if undelivered > 0 then recordDrops toISO undelivered now st else st))"

text \<open>The loops of a pass; \<open>free i\<close> is whether the lock is free for the batch with \<open>i\<close> batches of budget left.\<close>

fun age_loop :: "retention_policy \<Rightarrow> (nat \<Rightarrow> bool) \<Rightarrow> int \<Rightarrow> nat \<Rightarrow> sweep_result \<times> audit_tables \<Rightarrow> (sweep_result \<times> audit_tables) + nat \<times> sweep_result \<times> audit_tables" where
  "age_loop policy free cutoff 0 (result, st) = Inl (result \<lparr> sw_exhaustedBudget := True \<rparr>, st)"
| "age_loop policy free cutoff (Suc budget) (result, st) =
     (if \<not> free (Suc budget) then Inl (result \<lparr> sw_ranHere := False \<rparr>, st)
      else let (deleted, st) = ageBatch policy cutoff st;
               result = result \<lparr> sw_agedDeleted := sw_agedDeleted result + deleted \<rparr>
           in if deleted < rp_batchSize policy then Inr (budget, result, st)
              else age_loop policy free cutoff budget (result, st))"

fun ceiling_loop :: "retention_policy \<Rightarrow> (int \<Rightarrow> string) \<Rightarrow> (nat \<Rightarrow> bool) \<Rightarrow> nat \<Rightarrow> int \<Rightarrow> nat \<Rightarrow> sweep_result \<times> audit_tables \<Rightarrow> sweep_result \<times> audit_tables" where
  "ceiling_loop policy toISO free maxRows now 0 (result, st) = (result \<lparr> sw_exhaustedBudget := True \<rparr>, st)"
| "ceiling_loop policy toISO free maxRows now (Suc budget) (result, st) =
     (if \<not> free (Suc budget) then (result \<lparr> sw_ranHere := False \<rparr>, st)
      else let ((deleted, undelivered), st) = ceilingBatch policy toISO maxRows now st;
               result = result \<lparr> sw_ceilingDeleted := sw_ceilingDeleted result + deleted,
                                 sw_undeliveredDropped := sw_undeliveredDropped result + undelivered \<rparr>
           in if deleted < rp_batchSize policy then (result, st)
              else ceiling_loop policy toISO free maxRows now budget (result, st))"

definition sweep_audit :: "retention_policy \<Rightarrow> (int \<Rightarrow> string) \<Rightarrow> (nat \<Rightarrow> bool) \<Rightarrow> int \<Rightarrow> audit_tables \<Rightarrow> sweep_result \<times> audit_tables" where
  "sweep_audit policy toISO free now st =
     (let none = \<lparr> sw_agedDeleted = 0, sw_ceilingDeleted = 0, sw_undeliveredDropped = 0, sw_exhaustedBudget = False, sw_ranHere = True \<rparr>;
          cutoff = now - rp_retentionDays policy * 86400000
      in case age_loop policy free cutoff (rp_maxBatchesPerPass policy) (none, st) of
           Inl ended \<Rightarrow> ended
         | Inr (budget, result, st) \<Rightarrow>
             (case rp_maxRows policy of
                None \<Rightarrow> (result, st)
              | Some maxRows \<Rightarrow> if budget = 0 then (result \<lparr> sw_exhaustedBudget := True \<rparr>, st)
                               else ceiling_loop policy toISO free maxRows now budget (result, st)))"

section \<open>What one batch does\<close>

abbreviation log_ids :: "audit_tables \<Rightarrow> string set" where
  "log_ids st \<equiv> al_id ` set (au_logs st)"

abbreviation job_ids :: "audit_tables \<Rightarrow> string set" where
  "job_ids st \<equiv> aj_auditLogId ` set (au_jobs st)"

definition dropped_total :: "audit_tables \<Rightarrow> rat" where
  "dropped_total st = (case counter_total UNDELIVERED_DROPS_KEY (au_settings st) of Some n \<Rightarrow> n | None \<Rightarrow> 0)"

lemma has_job_ids: "has_job st l \<longleftrightarrow> al_id l \<in> job_ids st"
  unfolding has_job_def list_ex_iff image_iff by metis

lemma delete_logs_sel:
  "au_logs (delete_logs ids st) = filter (\<lambda>l. al_id l \<notin> set ids) (au_logs st)"
  "au_jobs (delete_logs ids st) = filter (\<lambda>j. aj_auditLogId j \<notin> set ids) (au_jobs st)"
  "au_settings (delete_logs ids st) = au_settings st"
  by (simp_all add: delete_logs_def delete_many_def)

interpretation by_time: comparator "\<lambda>a b. al_createdAt a - al_createdAt b"
  by unfold_locales (auto simp: sgn_if)

lemma sorted_by_time: "sorted_wrt (\<lambda>a b. al_createdAt a \<le> al_createdAt b) (js_sort (\<lambda>a b. al_createdAt a - al_createdAt b) logs)"
  using by_time.sorted_js_sort [of logs] by simp

lemma oldest_set: "set (oldest n logs) \<subseteq> set logs"
  unfolding oldest_def by (auto dest: in_set_takeD)

lemma oldest_length: "length (oldest n logs) = min (length logs) n"
  by (simp add: oldest_def)

lemma oldest_all: "length logs \<le> n \<Longrightarrow> set (oldest n logs) = set logs"
  by (simp add: oldest_def)

lemma oldest_first:
  assumes "x \<in> set (oldest n logs)" "l \<in> set logs" "l \<notin> set (oldest n logs)"
  shows "al_createdAt x \<le> al_createdAt l"
proof -
  let ?sorted = "js_sort (\<lambda>a b. al_createdAt a - al_createdAt b) logs"
  have "l \<in> set ?sorted" using assms(2) by simp
  then have "l \<in> set (drop n ?sorted)" using assms(3) unfolding oldest_def by (metis Un_iff append_take_drop_id set_append)
  moreover have "x \<in> set (take n ?sorted)" using assms(1) by (simp add: oldest_def)
  ultimately show ?thesis using sorted_by_time [of logs] by (metis append_take_drop_id sorted_wrt_append)
qed

lemma oldest_distinct: "distinct (map al_id logs) \<Longrightarrow> distinct (map al_id (oldest n logs))"
  unfolding oldest_def take_map [symmetric] by (rule distinct_take) (simp only: distinct_map_js_sort)

lemma deleted_count:
  assumes "distinct (map al_id logs)" "distinct (map al_id rows)" "set rows \<subseteq> set logs"
  shows "length (filter (\<lambda>l. al_id l \<in> set (map al_id rows)) logs) = length rows"
proof -
  have "set (filter (\<lambda>l. al_id l \<in> set (map al_id rows)) logs) = set rows"
    using assms by (auto simp: distinct_map inj_on_def)
  moreover have "distinct (filter (\<lambda>l. al_id l \<in> set (map al_id rows)) logs)" "distinct rows"
    using assms by (simp_all add: distinct_map)
  ultimately show ?thesis by (metis distinct_card)
qed

lemma delete_length:
  assumes "distinct (map al_id (au_logs st))" "distinct (map al_id rows)" "set rows \<subseteq> set (au_logs st)"
  shows "length (au_logs st) = length (au_logs (delete_logs (map al_id rows) st)) + length rows"
  using deleted_count [OF assms] sum_length_filter_compl [of "\<lambda>l. al_id l \<in> set (map al_id rows)" "au_logs st"]
  by (simp add: delete_logs_sel)

text \<open>Rows are removed, with their jobs; what stays keeps its job.\<close>

definition removes :: "audit_tables \<Rightarrow> audit_tables \<Rightarrow> bool" where
  "removes st st' \<longleftrightarrow> set (au_logs st') \<subseteq> set (au_logs st) \<and> (distinct (map al_id (au_logs st)) \<longrightarrow> distinct (map al_id (au_logs st')))
     \<and> (\<forall>l \<in> set (au_logs st'). has_job st' l \<longleftrightarrow> has_job st l)"

lemma removes_refl: "removes st st"
  by (simp add: removes_def)

lemma removes_trans: "removes a b \<Longrightarrow> removes b c \<Longrightarrow> removes a c"
  by (auto simp: removes_def)

lemma removes_delete: "removes st (delete_logs ids st)"
  by (auto simp: removes_def delete_logs_sel has_job_ids distinct_map_filter)

text \<open>What goes for its age: only what is past the cutoff and not queued, and nothing before an older record of that kind.\<close>

definition aged_out :: "int \<Rightarrow> audit_tables \<Rightarrow> audit_tables \<Rightarrow> bool" where
  "aged_out cutoff st st' \<longleftrightarrow> (\<forall>gone \<in> set (au_logs st) - set (au_logs st'). al_createdAt gone < cutoff \<and> \<not> has_job st gone
     \<and> (\<forall>l \<in> set (au_logs st'). has_job st l \<or> al_createdAt gone \<le> al_createdAt l))"

lemma aged_out_refl: "aged_out cutoff st st"
  by (simp add: aged_out_def)

lemma aged_out_trans: "aged_out cutoff a b \<Longrightarrow> removes a b \<Longrightarrow> aged_out cutoff b c \<Longrightarrow> removes b c \<Longrightarrow> aged_out cutoff a c"
  unfolding aged_out_def removes_def by blast

lemma ageBatch_result:
  assumes "ageBatch policy cutoff st = (n, st')" "distinct (map al_id (au_logs st))"
  shows "removes st st' \<and> length (au_logs st) = length (au_logs st') + n \<and> n \<le> rp_batchSize policy
    \<and> (\<forall>l \<in> set (au_logs st). has_job st l \<longrightarrow> l \<in> set (au_logs st'))
    \<and> au_jobs st' = au_jobs st \<and> au_settings st' = au_settings st
    \<and> aged_out cutoff st st'
    \<and> (n < rp_batchSize policy \<longrightarrow> (\<forall>l \<in> set (au_logs st'). has_job st' l \<or> cutoff \<le> al_createdAt l))"
proof -
  let ?due = "filter (\<lambda>l. al_createdAt l < cutoff \<and> \<not> has_job st l) (au_logs st)"
  define rows where "rows = oldest (rp_batchSize policy) ?due"
  have rows: "set rows \<subseteq> set ?due" "distinct (map al_id rows)" "length rows = min (length ?due) (rp_batchSize policy)"
    unfolding rows_def using assms(2) by (simp_all only: oldest_set oldest_length oldest_distinct distinct_map_filter)
  have st': "st' = delete_logs (map al_id rows) st" "n = length rows"
  proof -
    have "rows = [] \<Longrightarrow> delete_logs (map al_id rows) st = st" by (simp add: delete_logs_def delete_many_def)
    then show "st' = delete_logs (map al_id rows) st"
      using assms(1) by (auto simp: ageBatch_def Let_def rows_def [symmetric] split: if_splits)
    have "length (filter (\<lambda>l. al_id l \<in> set (map al_id rows)) (au_logs st)) = length rows"
      by (rule deleted_count [OF assms(2) rows(2)]) (use rows(1) in auto)
    then show "n = length rows" using assms(1) by (auto simp: ageBatch_def Let_def rows_def [symmetric] split: if_splits)
  qed
  have same: "l = r" if "l \<in> set (au_logs st)" "r \<in> set rows" "al_id l = al_id r" for l r
    using that rows(1) assms(2) by (auto simp: distinct_map inj_on_def)
  have logs: "set (au_logs st') = set (au_logs st) - set rows"
    using same rows(1) by (auto simp: st'(1) delete_logs_sel)
  have "aj_auditLogId j \<noteq> al_id r" if "j \<in> set (au_jobs st)" "r \<in> set rows" for j r
    using that rows(1) by (auto simp: has_job_def list_ex_iff)
  then have jobs: "au_jobs st' = au_jobs st" by (auto simp: st'(1) delete_logs_sel filter_id_conv)
  have "length (au_logs st) = length (au_logs st') + n"
    unfolding st' by (rule delete_length [OF assms(2) rows(2)]) (use rows(1) in auto)
  moreover have "set rows = set ?due" if "n < rp_batchSize policy"
    using that rows(3) unfolding rows_def st'(2) by (intro oldest_all) (simp add: oldest_length)
  moreover have "al_createdAt x < cutoff \<and> \<not> has_job st x \<and> (\<forall>l \<in> set (au_logs st'). has_job st l \<or> al_createdAt x \<le> al_createdAt l)"
    if "x \<in> set (au_logs st) - set (au_logs st')" for x
  proof -
    have x: "x \<in> set rows" using that logs by auto
    then have due: "al_createdAt x < cutoff \<and> \<not> has_job st x" using rows(1) by auto
    have "has_job st l \<or> al_createdAt x \<le> al_createdAt l" if l: "l \<in> set (au_logs st')" for l
    proof (cases "l \<in> set ?due")
      case True
      then show ?thesis using oldest_first [of x "rp_batchSize policy" ?due l] x l logs unfolding rows_def [symmetric] by blast
    next
      case False
      then show ?thesis using l logs due by auto
    qed
    with due show ?thesis by blast
  qed
  then have "aged_out cutoff st st'" unfolding aged_out_def by blast
  ultimately show ?thesis using removes_delete [of st "map al_id rows"] rows jobs logs
    by (auto simp: st' delete_logs_sel(3) has_job_def not_less)
qed

lemma recordDrops_sel:
  "au_logs (recordDrops toISO n now st) = au_logs st" "au_jobs (recordDrops toISO n now st) = au_jobs st"
  "dropped_total (recordDrops toISO n now st) = dropped_total st + of_nat n"
  by (simp_all add: recordDrops_def Let_def dropped_total_def counter_total_put)

lemma ceilingBatch_result:
  assumes "ceilingBatch policy toISO maxRows now st = ((n, u), st')" "distinct (map al_id (au_logs st))"
  shows "removes st st' \<and> length (au_logs st) = length (au_logs st') + n \<and> n \<le> rp_batchSize policy
    \<and> dropped_total st' = dropped_total st + of_nat u
    \<and> job_ids st' \<subseteq> job_ids st \<and> card (job_ids st - job_ids st') \<le> u \<and> u \<le> n
    \<and> (\<forall>gone \<in> set (au_logs st) - set (au_logs st'). \<forall>l \<in> set (au_logs st'). al_createdAt gone \<le> al_createdAt l)
    \<and> min maxRows (length (au_logs st)) \<le> length (au_logs st')
    \<and> (n < rp_batchSize policy \<longrightarrow> length (au_logs st') \<le> maxRows)"
proof (cases "length (au_logs st) \<le> maxRows")
  case True
  then have "n = 0" "u = 0" "st' = st" using assms(1) by (simp_all add: ceilingBatch_def)
  then show ?thesis using True by (simp add: removes_refl)
next
  case False
  define excess where "excess = min (length (au_logs st) - maxRows) (rp_batchSize policy)"
  define rows where "rows = oldest excess (au_logs st)"
  have rows: "set rows \<subseteq> set (au_logs st)" "distinct (map al_id rows)" "length rows = excess"
    unfolding rows_def using assms(2) by (simp_all add: oldest_set oldest_length oldest_distinct excess_def)
  define gone where "gone = filter (has_job st) rows"
  have n: "n = excess" "u = length gone"
    and same: "au_logs st' = au_logs (delete_logs (map al_id rows) st)" "au_jobs st' = au_jobs (delete_logs (map al_id rows) st)"
    "dropped_total st' = dropped_total st + of_nat u"
  proof -
    have none: "rows = [] \<Longrightarrow> delete_logs (map al_id rows) st = st" by (simp add: delete_logs_def delete_many_def)
    have count: "length (filter (\<lambda>l. al_id l \<in> set (map al_id rows)) (au_logs st)) = length rows"
      by (rule deleted_count [OF assms(2) rows(2,1)])
    have kept: "dropped_total (delete_logs (map al_id rows) st) = dropped_total st" by (simp add: dropped_total_def delete_logs_sel)
    show "n = excess" "u = length gone" "au_logs st' = au_logs (delete_logs (map al_id rows) st)"
      "au_jobs st' = au_jobs (delete_logs (map al_id rows) st)" "dropped_total st' = dropped_total st + of_nat u"
      using assms(1) False none count kept rows(3)
      by (auto simp: ceilingBatch_def Let_def excess_def [symmetric] rows_def [symmetric] gone_def recordDrops_sel split: if_splits)
  qed
  have "job_ids st - job_ids st' \<subseteq> al_id ` set gone"
  proof
    fix i assume i: "i \<in> job_ids st - job_ids st'"
    then have "i \<in> set (map al_id rows)" by (auto simp: same(2) delete_logs_sel)
    then obtain r where "r \<in> set rows" "i = al_id r" by auto
    with i show "i \<in> al_id ` set gone" by (auto simp: gone_def has_job_ids)
  qed
  then have "card (job_ids st - job_ids st') \<le> length gone"
    by (metis card_image_le card_length card_mono finite_imageI finite_set le_trans)
  then have few: "card (job_ids st - job_ids st') \<le> u" "u \<le> n" unfolding n gone_def using rows(3) length_filter_le by (metis, metis)
  have removal: "removes st st'" using removes_delete [of st "map al_id rows"] by (simp add: removes_def same(1,2) has_job_def)
  have len: "length (au_logs st) = length (au_logs st') + n"
    unfolding same(1) using delete_length [OF assms(2) rows(2,1)] rows(3) n(1) by simp
  have order: "al_createdAt x \<le> al_createdAt l" if "x \<in> set (au_logs st) - set (au_logs st')" "l \<in> set (au_logs st')" for x l
  proof -
    have "x \<in> set rows" using that(1) assms(2) rows(1) by (auto simp: same(1) delete_logs_sel distinct_map inj_on_def)
    moreover have "l \<in> set (au_logs st)" "l \<notin> set rows" using that(2) by (auto simp: same(1) delete_logs_sel)
    ultimately show ?thesis unfolding rows_def by (rule oldest_first)
  qed
  have "job_ids st' \<subseteq> job_ids st" by (auto simp: same(2) delete_logs_sel)
  moreover have "min maxRows (length (au_logs st)) \<le> length (au_logs st')" "n \<le> rp_batchSize policy"
    "n < rp_batchSize policy \<longrightarrow> length (au_logs st') \<le> maxRows"
    using len n(1) False unfolding excess_def by linarith+
  ultimately show ?thesis using n same(3) few removal len order by blast
qed

lemma over_ceiling_ids:
  assumes "ceilingBatch policy toISO maxRows now st = (counts, st')" "job_ids st \<subseteq> log_ids st"
  shows "job_ids st' \<subseteq> log_ids st'"
proof -
  have deleted: "job_ids (delete_logs ids st) \<subseteq> log_ids (delete_logs ids st)" for ids
  proof
    fix i assume "i \<in> job_ids (delete_logs ids st)"
    then have "i \<in> job_ids st" "i \<notin> set ids" by (auto simp: delete_logs_sel)
    then show "i \<in> log_ids (delete_logs ids st)" using assms(2) by (auto simp: delete_logs_sel)
  qed
  define ids where "ids = map al_id (oldest (min (length (au_logs st) - maxRows) (rp_batchSize policy)) (au_logs st))"
  have "au_logs st' = au_logs st \<and> au_jobs st' = au_jobs st
      \<or> au_logs st' = au_logs (delete_logs ids st) \<and> au_jobs st' = au_jobs (delete_logs ids st)"
    using assms(1) by (auto simp: ceilingBatch_def Let_def recordDrops_sel ids_def split: if_splits)
  then show ?thesis using deleted [of ids] assms(2) by (elim disjE conjE) (simp_all only:)
qed

section \<open>A pass\<close>

lemma age_loop_result:
  assumes "distinct (map al_id (au_logs st))"
  shows "case age_loop policy free cutoff budget (r, st) of
      Inl (r', st') \<Rightarrow> removes st st' \<and> aged_out cutoff st st' \<and> (\<forall>l \<in> set (au_logs st). has_job st l \<longrightarrow> l \<in> set (au_logs st'))
        \<and> length (au_logs st) + sw_agedDeleted r = length (au_logs st') + sw_agedDeleted r'
        \<and> sw_ceilingDeleted r' = sw_ceilingDeleted r \<and> (sw_exhaustedBudget r' \<or> \<not> sw_ranHere r')
        \<and> dropped_total st' = dropped_total st \<and> sw_undeliveredDropped r' = sw_undeliveredDropped r
    | Inr (budget', r', st') \<Rightarrow> removes st st' \<and> aged_out cutoff st st' \<and> (\<forall>l \<in> set (au_logs st). has_job st l \<longrightarrow> l \<in> set (au_logs st'))
        \<and> length (au_logs st) + sw_agedDeleted r = length (au_logs st') + sw_agedDeleted r'
        \<and> r' = r \<lparr> sw_agedDeleted := sw_agedDeleted r' \<rparr> \<and> dropped_total st' = dropped_total st
        \<and> (\<forall>l \<in> set (au_logs st'). has_job st' l \<or> cutoff \<le> al_createdAt l)"
  using assms
proof (induction budget arbitrary: r st)
  case 0
  then show ?case by (simp add: removes_refl aged_out_refl)
next
  case (Suc budget)
  obtain n st1 where batch: "ageBatch policy cutoff st = (n, st1)" by (cases "ageBatch policy cutoff st")
  note one = ageBatch_result [OF batch Suc.prems]
  have d: "distinct (map al_id (au_logs st1))" using one Suc.prems by (simp add: removes_def)
  have total: "dropped_total st1 = dropped_total st" using one by (simp add: dropped_total_def)
  show ?case
  proof (cases "free (Suc budget)")
    case False
    then show ?thesis by (simp add: removes_refl aged_out_refl)
  next
    case True
    note here = True
    show ?thesis
    proof (cases "n < rp_batchSize policy")
      case True
      then show ?thesis using one total here by (simp add: batch Let_def)
    next
      case False
      let ?r = "r \<lparr> sw_agedDeleted := sw_agedDeleted r + n \<rparr>"
      have kept: "has_job st1 l \<and> l \<in> set (au_logs st1)" if "l \<in> set (au_logs st)" "has_job st l" for l
        using one that by (simp add: has_job_def)
      have step: "age_loop policy free cutoff (Suc budget) (r, st) = age_loop policy free cutoff budget (?r, st1)"
        using False here by (simp add: batch)
      show ?thesis unfolding step using Suc.IH [OF d, of ?r] one total kept
        by (auto split: sum.splits prod.splits intro: removes_trans aged_out_trans)
    qed
  qed
qed

lemma ceiling_loop_result:
  assumes "distinct (map al_id (au_logs st))" "ceiling_loop policy toISO free maxRows now budget (r, st) = (r', st')"
  shows "removes st st' \<and> length (au_logs st) + sw_ceilingDeleted r = length (au_logs st') + sw_ceilingDeleted r'
    \<and> sw_agedDeleted r' = sw_agedDeleted r
    \<and> dropped_total st' + of_nat (sw_undeliveredDropped r) = dropped_total st + of_nat (sw_undeliveredDropped r')
    \<and> (\<forall>gone \<in> set (au_logs st) - set (au_logs st'). \<forall>l \<in> set (au_logs st'). al_createdAt gone \<le> al_createdAt l)
    \<and> min maxRows (length (au_logs st)) \<le> length (au_logs st')
    \<and> (sw_exhaustedBudget r' \<or> \<not> sw_ranHere r' \<or> length (au_logs st') \<le> maxRows)"
  using assms
proof (induction budget arbitrary: r st)
  case 0
  then show ?case by (auto simp: removes_refl)
next
  case (Suc budget)
  obtain n u st1 where batch: "ceilingBatch policy toISO maxRows now st = ((n, u), st1)"
    by (cases "ceilingBatch policy toISO maxRows now st") auto
  note one = ceilingBatch_result [OF batch Suc.prems(1)]
  have d: "distinct (map al_id (au_logs st1))" using one Suc.prems(1) by (simp add: removes_def)
  let ?r = "r \<lparr> sw_ceilingDeleted := sw_ceilingDeleted r + n, sw_undeliveredDropped := sw_undeliveredDropped r + u \<rparr>"
  show ?case
  proof (cases "free (Suc budget)")
    case False
    then show ?thesis using Suc.prems(2) by (auto simp: removes_refl)
  next
    case True
    note here = True
    show ?thesis
    proof (cases "n < rp_batchSize policy")
      case True
      then show ?thesis using Suc.prems(2) one here by (auto simp: batch)
    next
      case False
      then have "ceiling_loop policy toISO free maxRows now budget (?r, st1) = (r', st')"
        using Suc.prems(2) here by (simp add: batch)
      note rest = Suc.IH [OF d this]
      have sub: "set (au_logs st') \<subseteq> set (au_logs st1)" using rest by (simp add: removes_def)
      have "al_createdAt x \<le> al_createdAt l" if "x \<in> set (au_logs st) - set (au_logs st')" "l \<in> set (au_logs st')" for x l
        using that one rest sub by (cases "x \<in> set (au_logs st1)") auto
      then show ?thesis using one rest by (auto intro: removes_trans)
    qed
  qed
qed

text \<open>
  C34. What a retention pass leaves. It only removes, and its result counts what it removed. Whatever is removed, no row that stays is older,
  except rows still queued for delivery, which are never removed for their age: a row that was not queued is older than every row that stays
  and is not queued, and a queued row goes only under a row ceiling and is older than every row that stays. Without a ceiling only rows past the retention period go, and with one
  the ceiling's deletions never leave fewer rows than it allows. The total of undelivered drops grows by exactly those the pass reports. A pass that had the lock
  throughout and does not report its budget as exhausted has left no record that is too old and not queued, and no more rows than the ceiling.
  (Ids are unique.)
\<close>

theorem sweep_bounds_table:
  assumes "sweep_audit policy toISO free now st = (r, st')" "distinct (map al_id (au_logs st))"
  shows "removes st st'
    \<and> length (au_logs st) = length (au_logs st') + sw_agedDeleted r + sw_ceilingDeleted r
    \<and> dropped_total st' = dropped_total st + of_nat (sw_undeliveredDropped r)
    \<and> (\<forall>gone \<in> set (au_logs st) - set (au_logs st'). \<forall>l \<in> set (au_logs st').
         al_createdAt gone \<le> al_createdAt l \<or> \<not> has_job st gone \<and> has_job st l)
    \<and> (\<forall>gone \<in> set (au_logs st) - set (au_logs st'). rp_maxRows policy \<noteq> None
         \<or> \<not> has_job st gone \<and> al_createdAt gone < now - rp_retentionDays policy * 86400000)
    \<and> (case rp_maxRows policy of None \<Rightarrow> sw_ceilingDeleted r = 0
       | Some maxRows \<Rightarrow> sw_ceilingDeleted r = 0 \<or> maxRows \<le> length (au_logs st'))
    \<and> (sw_ranHere r \<and> \<not> sw_exhaustedBudget r \<longrightarrow>
         (\<forall>l \<in> set (au_logs st'). has_job st' l \<or> now - rp_retentionDays policy * 86400000 \<le> al_createdAt l)
         \<and> (case rp_maxRows policy of None \<Rightarrow> True | Some maxRows \<Rightarrow> length (au_logs st') \<le> maxRows))"
proof -
  define none where "none = \<lparr> sw_agedDeleted = 0, sw_ceilingDeleted = 0, sw_undeliveredDropped = 0, sw_exhaustedBudget = False, sw_ranHere = True \<rparr>"
  let ?cutoff = "now - rp_retentionDays policy * 86400000"
  note age = age_loop_result [OF assms(2), where policy = policy and free = free and cutoff = ?cutoff
      and budget = "rp_maxBatchesPerPass policy" and r = none]
  show ?thesis
  proof (cases "age_loop policy free ?cutoff (rp_maxBatchesPerPass policy) (none, st)")
    case (Inl ended)
    then have "ended = (r, st')" using assms(1) by (simp add: sweep_audit_def Let_def none_def)
    then show ?thesis using age Inl by (auto simp: none_def aged_out_def split: option.split)
  next
    case (Inr x)
    obtain budget r1 st1 where x: "x = (budget, r1, st1)" by (cases x) auto
    have one: "removes st st1" "\<forall>l \<in> set (au_logs st). has_job st l \<longrightarrow> l \<in> set (au_logs st1)"
      "length (au_logs st) = length (au_logs st1) + sw_agedDeleted r1" "r1 = none \<lparr> sw_agedDeleted := sw_agedDeleted r1 \<rparr>"
      "dropped_total st1 = dropped_total st" "\<forall>l \<in> set (au_logs st1). has_job st1 l \<or> ?cutoff \<le> al_createdAt l"
      and aged: "aged_out ?cutoff st st1"
      using age unfolding Inr x by (simp_all add: none_def)
    have zero: "sw_ceilingDeleted r1 = 0" "sw_undeliveredDropped r1 = 0" "\<not> sw_exhaustedBudget r1" "sw_ranHere r1"
      by (subst one(4), simp add: none_def)+
    have d: "distinct (map al_id (au_logs st1))" using one(1) assms(2) by (simp add: removes_def)
    show ?thesis
    proof (cases "rp_maxRows policy = None \<or> budget = 0")
      case True
      then have "st' = st1" "r = (if rp_maxRows policy = None then r1 else r1 \<lparr> sw_exhaustedBudget := True \<rparr>)"
        using assms(1) Inr x by (auto simp: sweep_audit_def Let_def none_def split: option.splits)
      then show ?thesis using one zero aged by (auto simp: aged_out_def split: option.splits)
    next
      case False
      then obtain maxRows where m: "rp_maxRows policy = Some maxRows" by auto
      then have loop: "ceiling_loop policy toISO free maxRows now budget (r1, st1) = (r, st')"
        using assms(1) Inr x False by (simp add: sweep_audit_def Let_def none_def)
      note rest = ceiling_loop_result [OF d loop]
      have still: "has_job st' l \<or> ?cutoff \<le> al_createdAt l" if "l \<in> set (au_logs st')" for l
        using rest one(6) that unfolding removes_def by blast
      have order: "al_createdAt gone \<le> al_createdAt l \<or> \<not> has_job st gone \<and> has_job st l"
        if "gone \<in> set (au_logs st) - set (au_logs st')" "l \<in> set (au_logs st')" for gone l
      proof (cases "gone \<in> set (au_logs st1)")
        case True
        then show ?thesis using rest that by blast
      next
        case False
        moreover have "l \<in> set (au_logs st1)" using rest that(2) by (auto simp: removes_def)
        ultimately show ?thesis using aged that(1) unfolding aged_out_def by blast
      qed
      have floor: "sw_ceilingDeleted r = 0 \<or> maxRows \<le> length (au_logs st')" using rest zero(1) by (auto simp: min_def split: if_splits)
      from order have "\<forall>gone \<in> set (au_logs st) - set (au_logs st'). \<forall>l \<in> set (au_logs st').
         al_createdAt gone \<le> al_createdAt l \<or> \<not> has_job st gone \<and> has_job st l" by blast
      moreover have "removes st st'" using one(1) rest by (blast intro: removes_trans)
      moreover have "length (au_logs st) = length (au_logs st') + sw_agedDeleted r + sw_ceilingDeleted r"
        "dropped_total st' = dropped_total st + of_nat (sw_undeliveredDropped r)" using one rest zero by simp_all
      ultimately show ?thesis using rest still floor m by auto
    qed
  qed
qed

section \<open>Nothing is lost unnoticed\<close>

text \<open>
  The tables together with what they do not hold: the records the collector has, those whose batch was last handed to the kernel as datagrams, and the
  records ever queued. One step is one transaction of the program, or something reaching the collector, in any order and from any number of workers; a worker that
  dies between two of its steps simply does not take the next. What a batch is settled with is the answer of \<open>deliver\<close>. What is relied on of the network
  is what ADR-0016 section 5 says confirms a delivery: a collector whose connection is closed without an error has what was written to it, and one that
  answers 2xx has the body. Of a datagram nothing is relied on.
\<close>

record audit_world =
  wo_tables :: audit_tables
  wo_received :: "string set"
  wo_datagrams :: "string set"
  wo_forwarded :: "string set"

definition confirms :: "sender_net \<Rightarrow> string set \<Rightarrow> bool" where
  "confirms net received \<longleftrightarrow>
     (\<forall>config entries. sn_stream net (syslog_payload net config entries) = StreamClosed False \<longrightarrow> de_auditLogId ` set entries \<subseteq> received)
     \<and> (\<forall>config entries status body. sn_post net config (webhook_body net entries) = Inr (Some status, body) \<and> 200 \<le> status \<and> status < 300
          \<longrightarrow> de_auditLogId ` set entries \<subseteq> received)"

text \<open>What the product calls unconfirmable delivery.\<close>

definition over_udp :: "forwarding_state \<Rightarrow> bool" where
  "over_udp state = (case state of Syslog config \<Rightarrow> sy_protocol config = Udp | _ \<Rightarrow> False)"

inductive audit_step :: "audit_world \<Rightarrow> audit_world \<Rightarrow> bool" where
  recorded: "ForwardingAuditSink_record config cached in_tx cx entry (wo_tables w) = (i, st')
    \<Longrightarrow> ax_uuid cx \<notin> log_ids (wo_tables w) \<Longrightarrow>
    audit_step w (w \<lparr> wo_tables := st', wo_forwarded := wo_forwarded w \<union> ({i} \<inter> job_ids st') \<rparr>)"
| begun: "drain_begin pacing configured lock_free now (wo_tables w) = (r, st') \<Longrightarrow> audit_step w (w \<lparr> wo_tables := st' \<rparr>)"
| arrived: "audit_step w (w \<lparr> wo_received := wo_received w \<union> ids \<rparr>)"
| settled: "confirms net (wo_received w)
    \<Longrightarrow> drain_settle pacing toISO now claimed (deliver net envFallback state (map (toDeliveryEntry toISO) claimed)) (wo_tables w) = (r, st')
    \<Longrightarrow> audit_step w (w \<lparr> wo_tables := st',
          wo_datagrams := wo_datagrams w \<union> (if over_udp state then set (map pd_auditLogId claimed) else {}) \<rparr>)"
| aged: "ageBatch policy cutoff (wo_tables w) = (n, st') \<Longrightarrow> audit_step w (w \<lparr> wo_tables := st' \<rparr>)"
| over_ceiling: "ceilingBatch policy toISO maxRows now (wo_tables w) = (counts, st') \<Longrightarrow> audit_step w (w \<lparr> wo_tables := st' \<rparr>)"

inductive audit_run :: "audit_world \<Rightarrow> audit_world \<Rightarrow> bool" where
  start: "audit_run w w"
| step: "audit_run a b \<Longrightarrow> audit_step b c \<Longrightarrow> audit_run a c"

definition lost :: "audit_world \<Rightarrow> string set" where
  "lost w = {i \<in> wo_forwarded w. i \<notin> wo_received w \<and> i \<notin> wo_datagrams w \<and> i \<notin> job_ids (wo_tables w)}"

definition world_ok :: "audit_world \<Rightarrow> bool" where
  "world_ok w \<longleftrightarrow> distinct (map al_id (au_logs (wo_tables w))) \<and> job_ids (wo_tables w) \<subseteq> log_ids (wo_tables w)
     \<and> finite (wo_forwarded w) \<and> of_nat (card (lost w)) \<le> dropped_total (wo_tables w)"

lemma update_job_ids:
  assumes "\<And>j. aj_auditLogId (f j) = aj_auditLogId j"
  shows "aj_auditLogId ` set (update_many p f jobs) = aj_auditLogId ` set jobs"
proof -
  have "map aj_auditLogId (update_many p f jobs) = map aj_auditLogId jobs" by (simp add: update_many_def assms)
  then show ?thesis by (metis set_map)
qed

lemma lost_mono:
  assumes "world_ok w" "wo_forwarded w' = wo_forwarded w" "wo_received w \<subseteq> wo_received w'" "wo_datagrams w \<subseteq> wo_datagrams w'"
    and "job_ids (wo_tables w) - wo_received w' - wo_datagrams w' \<subseteq> job_ids (wo_tables w')" "dropped_total (wo_tables w') = dropped_total (wo_tables w)"
    and "distinct (map al_id (au_logs (wo_tables w')))" "job_ids (wo_tables w') \<subseteq> log_ids (wo_tables w')"
  shows "world_ok w'"
proof -
  have "lost w' \<subseteq> lost w" using assms(2-5) by (auto simp: lost_def)
  then have "card (lost w') \<le> card (lost w)" using assms(1) by (intro card_mono) (auto simp: world_ok_def lost_def)
  with assms show ?thesis unfolding world_ok_def by (metis of_nat_le_iff order_trans)
qed

lemma claim_ids:
  assumes "drain_begin pacing configured lock_free now st = (r, st')"
  shows "job_ids st' = job_ids st \<and> au_logs st' = au_logs st \<and> au_settings st' = au_settings st"
proof -
  have claimed: "job_ids (snd (claim_deliveries sz leaseMs now st)) = job_ids st \<and> au_logs (snd (claim_deliveries sz leaseMs now st)) = au_logs st
      \<and> au_settings (snd (claim_deliveries sz leaseMs now st)) = au_settings st" for sz leaseMs
    by (simp add: claim_deliveries_def Let_def update_job_ids del: set_update_many)
  have "st' = st \<or> st' = snd (claim_deliveries (ap_batchSize pacing) (ap_leaseMs pacing) now st)"
    using assms by (auto simp: drain_begin_def Let_def split: if_splits prod.splits)
  then show ?thesis using claimed by metis
qed

lemma rescheduled_ids:
  "job_ids (rescheduleAll pacing now e batch st) = job_ids st \<and> au_logs (rescheduleAll pacing now e batch st) = au_logs st
   \<and> au_settings (rescheduleAll pacing now e batch st) = au_settings st"
proof (induction batch arbitrary: st)
  case (Cons d batch)
  have "job_ids (reschedule now e b d st) = job_ids st \<and> au_logs (reschedule now e b d st) = au_logs st
      \<and> au_settings (reschedule now e b d st) = au_settings st" for b
    by (simp add: reschedule_def update_job_ids del: set_update_many)
  then show ?case using Cons.IH by (simp add: rescheduleAll_def)
qed (simp add: rescheduleAll_def)

lemma settle_ids:
  assumes "drain_settle pacing toISO now claimed answer st = (r, st')"
  shows "au_logs st' = au_logs st \<and> dropped_total st' = dropped_total st
    \<and> job_ids st' = (if answer = None then job_ids st - set (map pd_auditLogId claimed) else job_ids st)"
proof -
  have key: "UNDELIVERED_DROPS_KEY \<noteq> LAST_DELIVERY_KEY" by (simp add: UNDELIVERED_DROPS_KEY_def LAST_DELIVERY_KEY_def)
  have outcome: "au_logs (recordOutcome t ok n e st) = au_logs st" "au_jobs (recordOutcome t ok n e st) = au_jobs st"
    "dropped_total (recordOutcome t ok n e st) = dropped_total st" for t ok n e st
    using key by (simp_all add: recordOutcome_def dropped_total_def counter_total_put)
  have total: "dropped_total a = dropped_total b" if "au_settings a = au_settings b" for a b using that by (simp add: dropped_total_def)
  show ?thesis
  proof (cases answer)
    case None
    let ?ids = "map pd_auditLogId claimed"
    have gone: "job_ids (snd (complete_deliveries ?ids st)) = job_ids st - set ?ids"
      "au_logs (snd (complete_deliveries ?ids st)) = au_logs st" "au_settings (snd (complete_deliveries ?ids st)) = au_settings st"
      by (auto simp: complete_deliveries_def)
    obtain t k where "st' = recordOutcome t True k None (snd (complete_deliveries ?ids st))"
      using assms None by (auto simp: drain_settle_def Let_def split: prod.splits)
    then show ?thesis using gone outcome total [of "snd (complete_deliveries ?ids st)" st] None by simp
  next
    case (Some e)
    then show ?thesis using assms outcome total [of "rescheduleAll pacing now e claimed st" st] rescheduled_ids [of pacing now e claimed st]
      by (auto simp: drain_settle_def)
  qed
qed

lemma recorded_tables:
  assumes "ForwardingAuditSink_record config cached in_tx cx entry st = (i, st')"
  shows "i = ax_uuid cx \<and> (\<exists>row. au_logs st' = au_logs st @ [row] \<and> al_id row = i) \<and> au_settings st' = au_settings st
    \<and> job_ids st \<subseteq> job_ids st' \<and> job_ids st' \<subseteq> insert i (job_ids st)"
  using assms by (auto simp: ForwardingAuditSink_record_def PrismaAuditSink_record_def enqueue_delivery_def Let_def set_upsert split: if_splits)

lemma webhook_returned:
  assumes "webhook_deliver net config entries = None"
  shows "entries = [] \<or> (\<exists>status body. sn_post net config (webhook_body net entries) = Inr (Some status, body) \<and> 200 \<le> status \<and> status < 300)"
  using assms by (auto simp: webhook_deliver_def Let_def split: if_splits sum.splits option.splits)

lemma syslog_returned:
  assumes "syslog_send net config entries = None" "sy_protocol config \<noteq> Udp"
  shows "entries = [] \<or> sn_stream net (syslog_payload net config entries) = StreamClosed False"
  using assms by (auto simp: syslog_send_def sendStream_def split: if_splits stream_end.splits)

text \<open>What a delivery that returned has reached.\<close>

lemma deliver_returned:
  assumes "deliver net envFallback state entries = None" "confirms net received" "\<not> over_udp state"
  shows "de_auditLogId ` set entries \<subseteq> received"
proof -
  consider (stream) config where "sy_protocol config \<noteq> Udp" "syslog_send net config entries = None"
    | (post) config where "webhook_deliver net config entries = None"
    using assms(1,3) by (auto simp: deliver_def forwarding_effective_def over_udp_def split: option.splits forwarding_state.splits if_splits)
  then show ?thesis
  proof cases
    case stream
    from syslog_returned [OF stream(2,1)] assms(2) show ?thesis unfolding confirms_def by auto
  next
    case post
    from webhook_returned [OF post] assms(2) show ?thesis unfolding confirms_def by (metis empty_subsetI image_empty empty_set)
  qed
qed

lemma audit_step_ok:
  assumes "audit_step w w'" "world_ok w"
  shows "world_ok w'"
  using assms
proof (cases rule: audit_step.cases)
  case (recorded config cached in_tx cx entry i st')
  let ?st = "wo_tables w"
  note t = recorded_tables [OF recorded(2)]
  then obtain row where row: "au_logs st' = au_logs ?st @ [row]" "al_id row = ax_uuid cx" by auto
  have ids: "job_ids ?st \<subseteq> job_ids st'" "job_ids st' \<subseteq> insert (ax_uuid cx) (job_ids ?st)" using t by auto
  have "lost w' \<subseteq> lost w" using ids(1) by (auto simp: recorded(1) lost_def)
  then have "card (lost w') \<le> card (lost w)" using assms(2) by (intro card_mono) (auto simp: world_ok_def lost_def)
  then have "rat_of_nat (card (lost w')) \<le> rat_of_nat (card (lost w))" by simp
  also have "\<dots> \<le> dropped_total ?st" using assms(2) by (simp add: world_ok_def)
  also have "dropped_total ?st = dropped_total st'" using t by (simp add: dropped_total_def)
  finally have total: "rat_of_nat (card (lost w')) \<le> dropped_total st'" .
  have fk: "job_ids ?st \<subseteq> insert (ax_uuid cx) (log_ids ?st)" using assms(2) unfolding world_ok_def by blast
  have "distinct (map al_id (au_logs ?st))" using assms(2) by (simp add: world_ok_def)
  then have d: "distinct (map al_id (au_logs st'))" using recorded(3) unfolding row map_append distinct_append by (simp add: row(2))
  have logs: "log_ids st' = insert (ax_uuid cx) (log_ids ?st)" unfolding row(1) row(2) [symmetric] by simp
  have jobs: "job_ids st' \<subseteq> log_ids st'" unfolding logs
    by (rule subset_trans [OF ids(2)]) (simp only: insert_subset fk insertI1 simp_thms)
  have "wo_tables w' = st'" "finite (wo_forwarded w')" using assms(2) by (simp_all add: recorded(1) world_ok_def)
  with total d jobs show ?thesis unfolding world_ok_def by simp
next
  case (begun pacing configured lock_free now r st')
  then show ?thesis using claim_ids [OF begun(2)] assms(2)
    by (intro lost_mono [OF assms(2)]) (auto simp: world_ok_def dropped_total_def)
next
  case (arrived ids)
  then show ?thesis using assms(2) by (intro lost_mono [OF assms(2)]) (auto simp: world_ok_def)
next
  case (settled net pacing toISO now claimed envFallback state r st')
  let ?entries = "map (toDeliveryEntry toISO) claimed"
  have ids: "de_auditLogId ` set ?entries = set (map pd_auditLogId claimed)" by (simp add: toDeliveryEntry_def image_image)
  have "set (map pd_auditLogId claimed) \<subseteq> wo_received w" if "deliver net envFallback state ?entries = None" "\<not> over_udp state"
    using deliver_returned [OF that(1) settled(2) that(2)] unfolding ids .
  then have "job_ids (wo_tables w) - wo_received w' - wo_datagrams w' \<subseteq> job_ids st'"
    using settle_ids [OF settled(3)] by (auto simp: settled(1) split: if_splits)
  then show ?thesis using settle_ids [OF settled(3)] assms(2)
    by (intro lost_mono [OF assms(2)]) (auto simp: settled(1) world_ok_def split: if_splits)
next
  case (aged policy cutoff n st')
  have d: "distinct (map al_id (au_logs (wo_tables w)))" using assms(2) by (simp add: world_ok_def)
  note one = ageBatch_result [OF aged(2) d]
  have "job_ids (wo_tables w) \<subseteq> log_ids st'"
  proof
    fix i assume i: "i \<in> job_ids (wo_tables w)"
    then obtain l where "l \<in> set (au_logs (wo_tables w))" "al_id l = i" using assms(2) by (auto simp: world_ok_def)
    then show "i \<in> log_ids st'" using one i has_job_ids by blast
  qed
  then show ?thesis using one assms(2) d
    by (intro lost_mono [OF assms(2)]) (auto simp: aged(1) dropped_total_def removes_def)
next
  case (over_ceiling policy toISO maxRows now counts st')
  obtain n u where counts: "counts = (n, u)" by (cases counts)
  have d: "distinct (map al_id (au_logs (wo_tables w)))" using assms(2) by (simp add: world_ok_def)
  note one = ceilingBatch_result [OF over_ceiling(2) [unfolded counts] d]
  have fin: "finite (lost w)" using assms(2) by (simp add: world_ok_def lost_def)
  have "lost w' \<subseteq> lost w \<union> (job_ids (wo_tables w) - job_ids st')" by (auto simp: over_ceiling(1) lost_def)
  then have "card (lost w') \<le> card (lost w) + card (job_ids (wo_tables w) - job_ids st')"
    using fin by (meson card_Un_le card_mono finite_Diff finite_Un finite_imageI finite_set le_trans)
  also have "\<dots> \<le> card (lost w) + u" using one by simp
  finally have "rat_of_nat (card (lost w')) \<le> rat_of_nat (card (lost w)) + rat_of_nat u" by (simp flip: of_nat_add)
  also have "\<dots> \<le> dropped_total (wo_tables w) + rat_of_nat u" using assms(2) by (simp add: world_ok_def)
  also have "\<dots> = dropped_total st'" using one by simp
  finally have "of_nat (card (lost w')) \<le> dropped_total st'" .
  moreover have "job_ids st' \<subseteq> log_ids st'"
    using over_ceiling_ids [OF over_ceiling(2)] assms(2) by (auto simp: world_ok_def)
  ultimately show ?thesis using one assms(2) d by (simp add: over_ceiling(1) world_ok_def removes_def)
qed

text \<open>
  C12. Where an audit record queued for the collector can be. However writers, workers, retention and crashes interleave, every record that was queued
  has reached the collector, or is still in the table and queued, or was in a batch given to the kernel as UDP datagrams (which
  nothing confirms), or was removed by the row ceiling; and the records so removed without any of the others are never more than the
  total of undelivered drops that is reported. This relies on what confirms a delivery over the other transports: a collector whose connection is closed without an error, or
  that answers 2xx, has the batch.
\<close>

theorem audit_records_accounted:
  assumes "audit_run w w'" "world_ok w"
  defines "unaccounted \<equiv> {i \<in> wo_forwarded w'. i \<notin> wo_received w' \<and> i \<notin> wo_datagrams w'
      \<and> \<not> (list_ex (\<lambda>j. aj_auditLogId j = i) (au_jobs (wo_tables w')) \<and> list_ex (\<lambda>l. al_id l = i) (au_logs (wo_tables w')))}"
  shows "finite unaccounted \<and> of_nat (card unaccounted) \<le> dropped_total (wo_tables w')"
proof -
  have ok: "world_ok w'" using assms(1,2) by (induction) (auto intro: audit_step_ok)
  then have "i \<in> log_ids (wo_tables w')" if "i \<in> job_ids (wo_tables w')" for i using that by (auto simp: world_ok_def)
  moreover have "list_ex (\<lambda>j. aj_auditLogId j = i) (au_jobs (wo_tables w')) \<longleftrightarrow> i \<in> job_ids (wo_tables w')"
    "list_ex (\<lambda>l. al_id l = i) (au_logs (wo_tables w')) \<longleftrightarrow> i \<in> log_ids (wo_tables w')" for i
    unfolding list_ex_iff image_iff by metis+
  ultimately have "unaccounted = lost w'" unfolding unaccounted_def lost_def by blast
  then show ?thesis using ok by (auto simp: world_ok_def lost_def)
qed

text \<open>
  Over UDP a batch is cleared once the kernel has taken it, whether or not it arrives: nothing is queued, nothing counted.
\<close>

lemma udp_clears_unconfirmed:
  assumes "sy_protocol config = Udp" "sn_datagram net = (\<lambda>_. None)"
    and "drain_settle pacing toISO now claimed (deliver net envFallback (Syslog config) (map (toDeliveryEntry toISO) claimed)) st = (r, st')"
  shows "job_ids st' = job_ids st - set (map pd_auditLogId claimed) \<and> dropped_total st' = dropped_total st"
proof -
  have "sendUdp net messages = None" for messages using assms(2) by (induction messages) simp_all
  then have "deliver net envFallback (Syslog config) (map (toDeliveryEntry toISO) claimed) = None"
    using assms(1) by (simp add: deliver_def forwarding_effective_def syslog_send_def)
  with settle_ids [OF assms(3)] show ?thesis by simp
qed

section \<open>Witnesses\<close>

definition demo_entry :: audit_entry where
  "demo_entry = \<lparr> ae_actorUserId = None, ae_actorEmail = None, ae_action = ''user.create'', ae_entityType = ''User'', ae_entityId = None,
     ae_before = None, ae_after = Some (JObj [(''email'', JStr ''ann@example.com'')]), ae_ipAddress = None, ae_userAgent = None,
     ae_requestId = None, ae_entityLabel = None \<rparr>"

definition demo_log :: "string \<Rightarrow> int \<Rightarrow> audit_log" where
  "demo_log i t = \<lparr> al_id = i, al_entry = demo_entry, al_createdAt = t \<rparr>"

definition demo_queued :: "string \<Rightarrow> audit_delivery_job" where
  "demo_queued i = \<lparr> aj_id = i, aj_auditLogId = i, aj_attempts = 0, aj_nextAttemptAt = 0, aj_lastError = None, aj_createdAt = 0 \<rparr>"

definition demo_policy :: retention_policy where
  "demo_policy = \<lparr> rp_retentionDays = 1, rp_maxRows = Some 1, rp_batchSize = 10, rp_maxBatchesPerPass = 5 \<rparr>"

definition demo_tables :: audit_tables where
  "demo_tables = \<lparr> au_logs = [demo_log ''a'' 1, demo_log ''b'' 2, demo_log ''c'' 3], au_jobs = [demo_queued ''b'', demo_queued ''c''], au_settings = [] \<rparr>"

lemma demo_ceiling: "ceilingBatch demo_policy (\<lambda>_. []) 1 9 demo_tables =
    ((2, 1), recordDrops (\<lambda>_. []) 1 9 (delete_logs [''a'', ''b''] demo_tables))"
  by (simp add: ceilingBatch_def demo_policy_def demo_tables_def demo_log_def demo_queued_def oldest_def js_sort_def has_job_def)

theorem sweep_bounds_table_witness:
  "length (au_logs demo_tables) =
     length (au_logs (snd (sweep_audit demo_policy (\<lambda>_. []) (\<lambda>_. True) 86400009 demo_tables)))
     + sw_agedDeleted (fst (sweep_audit demo_policy (\<lambda>_. []) (\<lambda>_. True) 86400009 demo_tables))
     + sw_ceilingDeleted (fst (sweep_audit demo_policy (\<lambda>_. []) (\<lambda>_. True) 86400009 demo_tables))"
  using sweep_bounds_table [of demo_policy "\<lambda>_. []" "\<lambda>_. True" 86400009 demo_tables, OF prod.collapse [symmetric]]
  by (simp add: demo_tables_def demo_log_def)

theorem audit_records_accounted_witness:
  "\<exists>w'. audit_run \<lparr> wo_tables = demo_tables, wo_received = {}, wo_datagrams = {}, wo_forwarded = {''b'', ''c''} \<rparr> w'
     \<and> wo_forwarded w' = {''b'', ''c''} \<and> map al_id (au_logs (wo_tables w')) = [''c'']
     \<and> of_nat (card {i \<in> wo_forwarded w'. i \<notin> wo_received w' \<and> i \<notin> wo_datagrams w'
          \<and> \<not> (list_ex (\<lambda>j. aj_auditLogId j = i) (au_jobs (wo_tables w')) \<and> list_ex (\<lambda>l. al_id l = i) (au_logs (wo_tables w')))})
        \<le> dropped_total (wo_tables w')"
proof -
  let ?w = "\<lparr> wo_tables = demo_tables, wo_received = {}, wo_datagrams = {}, wo_forwarded = {''b'', ''c''} \<rparr>"
  let ?w' = "?w \<lparr> wo_tables := recordDrops (\<lambda>_. []) 1 9 (delete_logs [''a'', ''b''] demo_tables) \<rparr>"
  have "ceilingBatch demo_policy (\<lambda>_. []) 1 9 (wo_tables ?w) = ((2, 1), recordDrops (\<lambda>_. []) 1 9 (delete_logs [''a'', ''b''] demo_tables))"
    using demo_ceiling by simp
  from audit_run.step [OF audit_run.start audit_step.over_ceiling [OF this]] have run: "audit_run ?w ?w'" .
  have "lost ?w = {}" by (auto simp: lost_def demo_tables_def demo_queued_def)
  then have ok: "world_ok ?w"
    by (simp add: world_ok_def dropped_total_def counter_total_def) (simp add: demo_tables_def demo_queued_def demo_log_def)
  have "map al_id (au_logs (wo_tables ?w')) = [''c'']" by (simp add: recordDrops_sel delete_logs_sel demo_tables_def demo_log_def)
  then show ?thesis using run audit_records_accounted [OF run ok] by (intro exI [of _ ?w']) simp
qed

text \<open>
  The sink asks the transport's remembered view. While that view is behind (nothing remembered yet after a start, or a transport
  just switched on), a record is written without being queued, and nothing queues it later.
\<close>

lemma stale_view_not_forwarded:
  assumes "forwarding_effective config cached = None"
  shows "au_jobs (snd (ForwardingAuditSink_record config cached in_tx cx entry st)) = au_jobs st"
  using assms by (simp add: ForwardingAuditSink_record_def PrismaAuditSink_record_def Let_def)

end
