(* ===== verification/OidcToken.thy ===== *)
theory OidcToken
  imports Jwt
begin

text \<open>
  What an OpenID provider publishes and asserts: the checks of an ID token (\<open>directory/oidc/id-token.ts\<close>) and the
  discovery document and signing keys with their caches (\<open>directory/oidc/discovery.ts\<close>). \<open>JSON.parse\<close>, the import of a
  JWK and the verification of a signature are parameters, and so is what the network answers. The clock is read once in an operation.
\<close>

section \<open>ID tokens\<close>

text \<open>How \<open>cryptoVerify\<close> is asked to use the key: as it is, with raw ECDSA signatures, or with the number of an RSA padding and
  a length of salt.\<close>

datatype key_use = PlainKey | IeeeP1363 | RsaPadding int int

text \<open>\<open>oc_verify\<close> is the verification by hash, key and signature; \<open>None\<close> where it throws.\<close>

record oidc_crypto =
  oc_parse :: "string \<Rightarrow> string + jsval"
  oc_import :: "jsval \<Rightarrow> bool"
  oc_verify :: "string \<Rightarrow> string \<Rightarrow> jsval \<Rightarrow> key_use \<Rightarrow> string \<Rightarrow> bool option"

datatype oidc_error =
    MalformedToken | MalformedHeader | UnsupportedAlgorithm string | KeyNotImported | BadTokenSignature
  | MalformedPayload | IssuerMismatch string | NotForThisClient | NoSubject | IdTokenExpired | IssuedInFuture | NonceMismatch
  | ThrownError string
  | RequestFailed string | NoField string | DiscoveryMismatch string | NoKeys | NoSigningKey "jsval option"

record id_options =
  io_issuer :: string
  io_audience :: string
  io_nonce :: string
  io_clockSkewSeconds :: int
  io_now :: int

definition ALGORITHMS :: "(string \<times> string) list" where
  "ALGORITHMS =
     [(''RS256'', ''sha256''), (''RS384'', ''sha384''), (''RS512'', ''sha512''),
      (''ES256'', ''sha256''), (''ES384'', ''sha384''), (''ES512'', ''sha512''),
      (''PS256'', ''sha256''), (''PS384'', ''sha384''), (''PS512'', ''sha512'')]"

definition decodeSegment :: "oidc_crypto \<Rightarrow> string \<Rightarrow> string + jsval" where
  "decodeSegment oc segment = oc_parse oc (base64UrlDecode segment)"

definition peekHeader :: "oidc_crypto \<Rightarrow> string \<Rightarrow> oidc_error + jsval" where
  "peekHeader oc token =
     (let parts = split_on CHR ''.'' token
      in if length parts \<noteq> 3 then Inl MalformedToken
         else case decodeSegment oc (parts ! 0) of
                Inl e \<Rightarrow> Inl MalformedHeader
              | Inr header \<Rightarrow> if \<not> is_object header \<or> header = JNull then Inl MalformedHeader else Inr header)"

text \<open>\<open>String(v)\<close> of a property that may be absent, and \<open>===\<close> of two values that JSON carries.\<close>

definition string_of :: "jsval option \<Rightarrow> string" where
  "string_of v = (case v of None \<Rightarrow> ''undefined'' | Some v \<Rightarrow> js_string v)"

fun primitive :: "jsval \<Rightarrow> bool" where
  "primitive (JArr _) = False"
| "primitive (JObj _) = False"
| "primitive _ = True"

definition strict_eq :: "jsval option \<Rightarrow> jsval option \<Rightarrow> bool" where
  "strict_eq a b \<longleftrightarrow> a = b \<and> (case a of None \<Rightarrow> True | Some v \<Rightarrow> primitive v)"

text \<open>The way the key is used, from the text of the algorithm; one that is no string has no \<open>startsWith\<close>.\<close>

definition use_of :: "string \<Rightarrow> key_use" where
  "use_of alg = (if starts_with alg ''ES'' then IeeeP1363 else if starts_with alg ''PS'' then RsaPadding 1 (-1) else PlainKey)"

definition signature_valid :: "oidc_crypto \<Rightarrow> jsval option \<Rightarrow> string \<Rightarrow> jsval \<Rightarrow> string \<Rightarrow> oidc_error + unit" where
  "signature_valid oc alg signingInput key signature =
     (case alg of
        None \<Rightarrow> Inl (UnsupportedAlgorithm (string_of None))
      | Some alg \<Rightarrow>
          (case map_of ALGORITHMS (js_string alg) of
             None \<Rightarrow> Inl (UnsupportedAlgorithm (js_string alg))
           | Some hash \<Rightarrow>
               if \<not> oc_import oc key then Inl KeyNotImported
               else (case alg of
                       JStr name \<Rightarrow>
                         (case oc_verify oc hash signingInput key (use_of name) signature of
                            None \<Rightarrow> Inl (ThrownError ''verify'')
                          | Some verified \<Rightarrow> if verified then Inr () else Inl BadTokenSignature)
                     | _ \<Rightarrow> Inl (ThrownError ''TypeError''))))"

definition audiences :: "jsval \<Rightarrow> jsval option list" where
  "audiences claims = (case js_get claims ''aud'' of Some (JArr vs) \<Rightarrow> map Some vs | aud \<Rightarrow> [aud])"

definition num_claim :: "jsval \<Rightarrow> string \<Rightarrow> rat option" where
  "num_claim claims k = (case js_get claims k of Some (JNum q) \<Rightarrow> Some q | _ \<Rightarrow> None)"

definition verifyClaims :: "jsval \<Rightarrow> id_options \<Rightarrow> oidc_error + jsval" where
  "verifyClaims claims opts =
     (let now = seconds (io_now opts); skew = io_clockSkewSeconds opts
      in if js_get claims ''iss'' \<noteq> Some (JStr (io_issuer opts)) then Inl (IssuerMismatch (string_of (js_get claims ''iss'')))
         else if Some (JStr (io_audience opts)) \<notin> set (audiences claims) then Inl NotForThisClient
         else if (case js_get claims ''sub'' of Some (JStr s) \<Rightarrow> s = [] | _ \<Rightarrow> True) then Inl NoSubject
         else if (case num_claim claims ''exp'' of None \<Rightarrow> True | Some e \<Rightarrow> of_int now > e + of_int skew) then Inl IdTokenExpired
         else if (case num_claim claims ''iat'' of None \<Rightarrow> True | Some i \<Rightarrow> i - of_int skew > of_int now) then Inl IssuedInFuture
         else if js_get claims ''nonce'' \<noteq> Some (JStr (io_nonce opts)) then Inl NonceMismatch
         else Inr claims)"

definition verifyIdToken :: "oidc_crypto \<Rightarrow> string \<Rightarrow> jsval \<Rightarrow> id_options \<Rightarrow> oidc_error + jsval" where
  "verifyIdToken oc token key opts =
     (let parts = split_on CHR ''.'' token
      in if length parts \<noteq> 3 then Inl MalformedToken
         else bind_err (peekHeader oc token) (\<lambda>header.
           bind_err (signature_valid oc (js_get header ''alg'') (parts ! 0 @ ''.'' @ parts ! 1) key (base64UrlDecode (parts ! 2))) (\<lambda>_.
             case decodeSegment oc (parts ! 1) of
               Inl e \<Rightarrow> Inl (ThrownError e)
             | Inr claims \<Rightarrow>
                 if \<not> is_object claims \<or> claims = JNull then Inl MalformedPayload
                 else verifyClaims claims opts)))"

text \<open>Where the provider sent the groups, when it did not send them.\<close>

definition UNNAMED_ENDPOINT :: string where
  "UNNAMED_ENDPOINT = ''an endpoint the provider did not name''"

definition object_at :: "jsval option \<Rightarrow> jsval option" where
  "object_at v = (case v of None \<Rightarrow> None | Some v \<Rightarrow> if is_object v \<and> v \<noteq> JNull then Some v else None)"

definition string_at :: "jsval option \<Rightarrow> string option" where
  "string_at v = (case v of Some (JStr s) \<Rightarrow> Some s | _ \<Rightarrow> None)"

definition groupOverageEndpoint :: "jsval \<Rightarrow> string \<Rightarrow> string option" where
  "groupOverageEndpoint claims groupsClaim =
     (case object_at (js_get claims ''_claim_names'') of
        None \<Rightarrow> None
      | Some names \<Rightarrow>
          (case string_at (js_get names groupsClaim) of
             None \<Rightarrow> None
           | Some source \<Rightarrow>
               (case object_at (js_get claims ''_claim_sources'') of
                  None \<Rightarrow> Some UNNAMED_ENDPOINT
                | Some sources \<Rightarrow>
                    (case object_at (js_get sources source) of
                       None \<Rightarrow> Some UNNAMED_ENDPOINT
                     | Some entry \<Rightarrow>
                         (case string_at (js_get entry ''endpoint'') of
                            None \<Rightarrow> Some UNNAMED_ENDPOINT
                          | Some endpoint \<Rightarrow> Some endpoint)))))"

text \<open>A text of groups is split at runs of commas and white space.\<close>

definition group_separator :: "char \<Rightarrow> bool" where
  "group_separator c \<longleftrightarrow> c = CHR '','' \<or> is_js_space c"

function split_runs :: "(char \<Rightarrow> bool) \<Rightarrow> string \<Rightarrow> string list" where
  "split_runs p s =
     (let rest = dropWhile (Not \<circ> p) s
      in if rest = [] then [s] else takeWhile (Not \<circ> p) s # split_runs p (dropWhile p rest))"
  by pat_completeness auto
termination
proof (relation "measure (\<lambda>(_, s). length s)")
  fix p :: "char \<Rightarrow> bool" and s rest :: string
  assume rest: "rest = dropWhile (Not \<circ> p) s" "rest \<noteq> []"
  then have "p (hd rest)" using hd_dropWhile [of "Not \<circ> p" s] rest by simp
  then obtain c cs where "rest = c # cs" "p c" using rest(2) by (cases rest) simp_all
  then have "length (dropWhile p rest) < length rest" by (simp add: length_dropWhile_le le_imp_less_Suc)
  also have "length rest \<le> length s" using rest(1) by (simp add: length_dropWhile_le)
  finally show "((p, dropWhile p rest), (p, s)) \<in> measure (\<lambda>(_, s). length s)" by simp
qed simp

declare split_runs.simps [simp del]

fun groupsFromClaim :: "jsval option \<Rightarrow> string list" where
  "groupsFromClaim (Some (JArr vs)) = concat (map (\<lambda>v. case v of JStr s \<Rightarrow> [s] | _ \<Rightarrow> []) vs)"
| "groupsFromClaim (Some (JStr s)) = filter (\<lambda>p. p \<noteq> []) (map js_trim (split_runs group_separator s))"
| "groupsFromClaim _ = []"

section \<open>Discovery and signing keys\<close>

text \<open>The well-known path is appended to the issuer without the slashes at its end.\<close>

definition discoveryUrl :: "string \<Rightarrow> string" where
  "discoveryUrl issuer = rev (dropWhile (\<lambda>c. c = CHR ''/'') (rev issuer)) @ ''/.well-known/openid-configuration''"

definition DISCOVERY_TTL_MS :: int where "DISCOVERY_TTL_MS = 60 * 60 * 1000"
definition JWKS_MIN_REFETCH_MS :: int where "JWKS_MIN_REFETCH_MS = 60 * 1000"

record oidc_document =
  dd_issuer :: string
  dd_authorization_endpoint :: string
  dd_token_endpoint :: string
  dd_jwks_uri :: string
  dd_end_session_endpoint :: "jsval option"

text \<open>The caches of one \<open>OidcDirectory\<close>, and a record of what it asked for: the key sets fetched, with the time.\<close>

record oidc_directory =
  od_issuer :: string
  od_discovery :: "(oidc_document \<times> int) option"
  od_jwks :: "(jsval list \<times> int) option"
  od_lastMissRefetchAt :: int
  od_fetches :: "int list"

definition new_directory :: "string \<Rightarrow> oidc_directory" where
  "new_directory issuer = \<lparr> od_issuer = issuer, od_discovery = None, od_jwks = None, od_lastMissRefetchAt = 0, od_fetches = [] \<rparr>"

type_synonym http = "string \<Rightarrow> string + jsval"

definition document_field :: "jsval \<Rightarrow> string \<Rightarrow> oidc_error + string" where
  "document_field raw name =
     (case js_get raw name of
        Some (JStr s) \<Rightarrow> if length s = 0 then Inl (NoField name) else Inr s
      | _ \<Rightarrow> Inl (NoField name))"

definition checked_document :: "string \<Rightarrow> jsval \<Rightarrow> oidc_error + oidc_document" where
  "checked_document issuer raw =
     bind_err (document_field raw ''issuer'') (\<lambda>i.
     bind_err (document_field raw ''authorization_endpoint'') (\<lambda>a.
     bind_err (document_field raw ''token_endpoint'') (\<lambda>t.
     bind_err (document_field raw ''jwks_uri'') (\<lambda>j.
       if i \<noteq> issuer then Inl (DiscoveryMismatch i)
       else Inr \<lparr> dd_issuer = i, dd_authorization_endpoint = a, dd_token_endpoint = t, dd_jwks_uri = j,
                  dd_end_session_endpoint = js_get raw ''end_session_endpoint'' \<rparr>))))"

definition get_json :: "http \<Rightarrow> string \<Rightarrow> oidc_error + jsval" where
  "get_json net url = (case net url of Inl e \<Rightarrow> Inl (RequestFailed e) | Inr v \<Rightarrow> Inr v)"

definition discovery_document :: "http \<Rightarrow> int \<Rightarrow> oidc_directory \<Rightarrow> (oidc_error + oidc_document) \<times> oidc_directory" where
  "discovery_document net now d =
     (let refetch =
            (case bind_err (get_json net (discoveryUrl (od_issuer d))) (checked_document (od_issuer d)) of
               Inl e \<Rightarrow> (Inl e, d)
             | Inr doc \<Rightarrow> (Inr doc, d \<lparr> od_discovery := Some (doc, now) \<rparr>))
      in case od_discovery d of
           Some (doc, fetchedAt) \<Rightarrow> if now - fetchedAt < DISCOVERY_TTL_MS then (Inr doc, d) else refetch
         | None \<Rightarrow> refetch)"

text \<open>The signature keys of a key set; reading \<open>use\<close> of \<open>null\<close> throws.\<close>

definition signature_key :: "jsval \<Rightarrow> bool" where
  "signature_key k \<longleftrightarrow> js_get k ''use'' = None \<or> js_get k ''use'' = Some (JStr ''sig'')"

definition signature_keys :: "jsval \<Rightarrow> oidc_error + jsval list" where
  "signature_keys raw =
     (case js_get raw ''keys'' of
        Some (JArr ks) \<Rightarrow> if JNull \<in> set ks then Inl (ThrownError ''TypeError'') else Inr (filter signature_key ks)
      | _ \<Rightarrow> Inl NoKeys)"

definition fetchJwks :: "http \<Rightarrow> int \<Rightarrow> oidc_directory \<Rightarrow> (oidc_error + jsval list) \<times> oidc_directory" where
  "fetchJwks net now d =
     (case discovery_document net now d of
        (Inl e, d1) \<Rightarrow> (Inl e, d1)
      | (Inr doc, d1) \<Rightarrow>
          (let d2 = d1 \<lparr> od_fetches := od_fetches d1 @ [now] \<rparr>
           in case bind_err (get_json net (dd_jwks_uri doc)) signature_keys of
                Inl e \<Rightarrow> (Inl e, d2)
              | Inr ks \<Rightarrow> (Inr ks, d2 \<lparr> od_jwks := Some (ks, now) \<rparr>)))"

definition findKey :: "jsval option \<Rightarrow> oidc_directory \<Rightarrow> jsval option" where
  "findKey kid d =
     (let ks = (case od_jwks d of None \<Rightarrow> [] | Some (ks, _) \<Rightarrow> ks)
      in if ks = [] then None
         else case kid of
           Some _ \<Rightarrow> List.find (\<lambda>k. strict_eq (js_get k ''kid'') kid) ks
         | None \<Rightarrow> if length ks = 1 then Some (hd ks) else None)"

definition signingKey :: "http \<Rightarrow> int \<Rightarrow> jsval option \<Rightarrow> oidc_directory \<Rightarrow> (oidc_error + jsval) \<times> oidc_directory" where
  "signingKey net now kid d =
     (case findKey kid d of
        Some key \<Rightarrow> (Inr key, d)
      | None \<Rightarrow>
          if od_lastMissRefetchAt d \<noteq> 0 \<and> now - od_lastMissRefetchAt d < JWKS_MIN_REFETCH_MS then (Inl (NoSigningKey kid), d)
          else case fetchJwks net now (d \<lparr> od_lastMissRefetchAt := now \<rparr>) of
                 (Inl e, d1) \<Rightarrow> (Inl e, d1)
               | (Inr _, d1) \<Rightarrow> (case findKey kid d1 of None \<Rightarrow> (Inl (NoSigningKey kid), d1) | Some key \<Rightarrow> (Inr key, d1)))"

definition signingKeyCount :: "http \<Rightarrow> int \<Rightarrow> oidc_directory \<Rightarrow> (oidc_error + nat) \<times> oidc_directory" where
  "signingKeyCount net now d =
     (case fetchJwks net now d of (Inl e, d1) \<Rightarrow> (Inl e, d1) | (Inr ks, d1) \<Rightarrow> (Inr (length ks), d1))"

section \<open>What is cached and how often keys are fetched\<close>

definition document_ok :: "string \<Rightarrow> oidc_document \<Rightarrow> bool" where
  "document_ok issuer doc \<longleftrightarrow> dd_issuer doc = issuer \<and> dd_token_endpoint doc \<noteq> [] \<and> dd_authorization_endpoint doc \<noteq> [] \<and> dd_jwks_uri doc \<noteq> []"

definition directory_ok :: "oidc_directory \<Rightarrow> bool" where
  "directory_ok d \<longleftrightarrow>
     (\<forall>doc at0. od_discovery d = Some (doc, at0) \<longrightarrow> document_ok (od_issuer d) doc)
     \<and> (\<forall>ks at0. od_jwks d = Some (ks, at0) \<longrightarrow> list_all signature_key ks)"

lemma document_field_some: "document_field raw name = Inr s \<Longrightarrow> s \<noteq> []"
  by (auto simp: document_field_def split: option.splits jsval.splits if_splits)

lemma checked_document_ok: "checked_document issuer raw = Inr doc \<Longrightarrow> document_ok issuer doc"
  by (auto simp: checked_document_def document_ok_def bind_err_Inr dest: document_field_some split: if_splits)

lemma signature_keys_sig: "signature_keys raw = Inr ks \<Longrightarrow> list_all signature_key ks"
  by (auto simp: signature_keys_def list_all_iff split: option.splits jsval.splits if_splits)

lemma discovery_document_ok:
  assumes "directory_ok d" "discovery_document net now d = (r, d')"
  shows "directory_ok d' \<and> od_issuer d' = od_issuer d \<and> od_jwks d' = od_jwks d \<and> od_lastMissRefetchAt d' = od_lastMissRefetchAt d
    \<and> od_fetches d' = od_fetches d \<and> (\<forall>doc. r = Inr doc \<longrightarrow> document_ok (od_issuer d) doc)"
proof (cases "bind_err (get_json net (discoveryUrl (od_issuer d))) (checked_document (od_issuer d))")
  case (Inl e)
  then show ?thesis using assms by (auto simp: discovery_document_def directory_ok_def Let_def split: option.splits if_splits)
next
  case (Inr doc)
  then have "document_ok (od_issuer d) doc" by (auto simp: bind_err_Inr dest: checked_document_ok)
  with Inr show ?thesis using assms by (auto simp: discovery_document_def directory_ok_def Let_def split: option.splits if_splits)
qed

lemma fetchJwks_ok:
  assumes "directory_ok d" "fetchJwks net now d = (r, d')"
  shows "directory_ok d' \<and> od_issuer d' = od_issuer d \<and> od_lastMissRefetchAt d' = od_lastMissRefetchAt d
    \<and> (od_fetches d' = od_fetches d \<or> od_fetches d' = od_fetches d @ [now])
    \<and> (\<forall>ks. r = Inr ks \<longrightarrow> od_jwks d' = Some (ks, now) \<and> list_all signature_key ks)"
proof -
  obtain r1 d1 where doc: "discovery_document net now d = (r1, d1)" by (cases "discovery_document net now d")
  note ok = discovery_document_ok [OF assms(1) doc]
  show ?thesis
  proof (cases r1)
    case (Inl e)
    then show ?thesis using ok assms(2) by (auto simp: fetchJwks_def doc)
  next
    case (Inr found)
    show ?thesis
    proof (cases "bind_err (get_json net (dd_jwks_uri found)) signature_keys")
      case (Inl e)
      then show ?thesis using ok Inr assms(2) by (auto simp: fetchJwks_def doc directory_ok_def)
    next
      case (Inr ks)
      then have "list_all signature_key ks" by (auto simp: bind_err_Inr dest: signature_keys_sig)
      then show ?thesis using ok Inr \<open>r1 = Inr found\<close> assms(2) by (auto simp: fetchJwks_def doc directory_ok_def)
    qed
  qed
qed

text \<open>The key that is found is the one key with the identifier, or the only one.\<close>

definition key_for :: "jsval option \<Rightarrow> jsval list \<Rightarrow> jsval \<Rightarrow> bool" where
  "key_for kid ks key \<longleftrightarrow> key \<in> set ks \<and> (if kid = None then ks = [key] else strict_eq (js_get key ''kid'') kid)"

lemma findKey_some: "findKey kid d = Some key \<Longrightarrow> \<exists>ks t. od_jwks d = Some (ks, t) \<and> key_for kid ks key"
  by (auto simp: findKey_def key_for_def Let_def find_Some_iff length_Suc_conv split: option.splits if_splits)

lemma signingKey_ok:
  assumes "directory_ok d" "signingKey net now kid d = (r, d')"
  shows "directory_ok d' \<and> od_issuer d' = od_issuer d
    \<and> (\<forall>key. r = Inr key \<longrightarrow> (\<exists>ks t. od_jwks d' = Some (ks, t) \<and> key_for kid ks key) \<and> signature_key key)"
proof -
  have ok: "directory_ok d' \<and> od_issuer d' = od_issuer d \<and> (\<forall>key. r = Inr key \<longrightarrow> findKey kid d' = Some key)"
  proof (cases "findKey kid d")
    case None
    let ?d = "d \<lparr> od_lastMissRefetchAt := now \<rparr>"
    have "directory_ok ?d" using assms(1) by (simp add: directory_ok_def)
    then show ?thesis
      using assms None fetchJwks_ok [of ?d net now]
      by (auto simp: signingKey_def split: if_splits prod.splits sum.splits option.splits)
  qed (use assms in \<open>auto simp: signingKey_def\<close>)
  moreover have "signature_key key" if "od_jwks d' = Some (ks, t)" "key_for kid ks key" for ks t key
    using ok that by (auto simp: directory_ok_def key_for_def list_all_iff)
  ultimately show ?thesis using findKey_some [of kid d'] by metis
qed

text \<open>The operations of sign-ins on one directory, at times that do not go back.\<close>

inductive sign_in_traffic :: "string \<Rightarrow> oidc_directory \<Rightarrow> int \<Rightarrow> bool" for issuer :: string where
  built: "t > 0 \<Longrightarrow> sign_in_traffic issuer (new_directory issuer) t"
| discovered: "sign_in_traffic issuer d t \<Longrightarrow> t \<le> now \<Longrightarrow> discovery_document net now d = (r, d') \<Longrightarrow> sign_in_traffic issuer d' now"
| key_wanted: "sign_in_traffic issuer d t \<Longrightarrow> t \<le> now \<Longrightarrow> signingKey net now kid d = (r, d') \<Longrightarrow> sign_in_traffic issuer d' now"

definition fetches_spaced :: "oidc_directory \<Rightarrow> int \<Rightarrow> bool" where
  "fetches_spaced d t \<longleftrightarrow>
     sorted_wrt (\<lambda>a b. a + JWKS_MIN_REFETCH_MS \<le> b) (od_fetches d) \<and> (\<forall>f \<in> set (od_fetches d). f \<le> od_lastMissRefetchAt d)
     \<and> od_lastMissRefetchAt d \<le> t \<and> 0 \<le> od_lastMissRefetchAt d \<and> t > 0 \<and> (od_fetches d \<noteq> [] \<longrightarrow> od_lastMissRefetchAt d > 0)"

lemma signingKey_spaced:
  assumes "fetches_spaced d t" "directory_ok d" "t \<le> now" "signingKey net now kid d = (r, d')"
  shows "fetches_spaced d' now"
proof (cases "findKey kid d = None \<and> \<not> (od_lastMissRefetchAt d \<noteq> 0 \<and> now - od_lastMissRefetchAt d < JWKS_MIN_REFETCH_MS)")
  case True
  let ?d = "d \<lparr> od_lastMissRefetchAt := now \<rparr>"
  obtain r1 d1 where fetch: "fetchJwks net now ?d = (r1, d1)" by (cases "fetchJwks net now ?d")
  have "directory_ok ?d" using assms(2) by (simp add: directory_ok_def)
  note f = fetchJwks_ok [OF this fetch]
  have "d' = d1" using True assms(4) fetch by (auto simp: signingKey_def split: sum.splits option.splits)
  moreover have "\<forall>f \<in> set (od_fetches d). f + JWKS_MIN_REFETCH_MS \<le> now \<and> f \<le> now"
    using True assms(1,3) by (fastforce simp: fetches_spaced_def JWKS_MIN_REFETCH_MS_def)
  ultimately show ?thesis using f assms(1,3) by (auto simp: fetches_spaced_def sorted_wrt_append)
next
  case False
  then have "d' = d" using assms(4) by (auto simp: signingKey_def split: option.splits if_splits)
  then show ?thesis using assms(1,3) by (auto simp: fetches_spaced_def)
qed

lemma traffic_ok: "sign_in_traffic issuer d t \<Longrightarrow> directory_ok d \<and> od_issuer d = issuer \<and> fetches_spaced d t"
proof (induction rule: sign_in_traffic.induct)
  case (built t)
  then show ?case by (simp add: new_directory_def directory_ok_def fetches_spaced_def)
next
  case (discovered d t now net r d')
  with discovery_document_ok [of d net now r d'] show ?case by (auto simp: fetches_spaced_def)
next
  case (key_wanted d t now net kid r d')
  with signingKey_ok [of d net now kid r d'] signingKey_spaced [of d t now net kid r d'] show ?case by auto
qed

text \<open>
  C35. Key rotation without a flood. Whatever the network answers and whatever identifiers tokens carry: the document kept is one
  that names the configured issuer, the keys kept are signature keys, and two fetches of the key set made for sign-ins are
  at least a minute apart.
\<close>

theorem key_fetches_spaced:
  assumes "sign_in_traffic issuer d t"
  shows "sorted_wrt (\<lambda>a b. a + 60000 \<le> b) (od_fetches d)
    \<and> (\<forall>doc at0. od_discovery d = Some (doc, at0) \<longrightarrow> dd_issuer doc = issuer)
    \<and> (\<forall>ks at0. od_jwks d = Some (ks, at0) \<longrightarrow> list_all signature_key ks)"
  using traffic_ok [OF assms]
  by (auto simp: fetches_spaced_def directory_ok_def document_ok_def JWKS_MIN_REFETCH_MS_def)

text \<open>
  The first fetch counts as one after a miss, so a key published within a minute of it is refused until the minute is over;
  and when that fetch failed, so is every key, although the provider answers again.
\<close>

lemma rotation_after_first_fetch_refused:
  assumes "signingKey net now kid (new_directory issuer) = (r, d)" "now > 0" "findKey kid2 d = None" "later - now < 60000"
  shows "signingKey net2 later kid2 d = (Inl (NoSigningKey kid2), d)"
proof -
  let ?d = "(new_directory issuer) \<lparr> od_lastMissRefetchAt := now \<rparr>"
  have new: "directory_ok ?d" "findKey kid (new_directory issuer) = None" by (simp_all add: directory_ok_def new_directory_def findKey_def)
  obtain r1 d1 where fetch: "fetchJwks net now ?d = (r1, d1)" by (cases "fetchJwks net now ?d")
  have "od_lastMissRefetchAt d1 = now" using fetchJwks_ok [OF new(1) fetch] by simp
  moreover have "d = d1" using assms(1) new(2) fetch by (auto simp: signingKey_def new_directory_def split: sum.splits option.splits)
  ultimately show ?thesis using assms(2-4) by (simp add: signingKey_def JWKS_MIN_REFETCH_MS_def)
qed

section \<open>Where documents and keys come from\<close>

text \<open>
  Given what the network answered at the moments of \<open>N\<close>: a document the issuer published, which is one that was answered under the
  well-known path of the issuer and names that very issuer; and a key the issuer published, which is one in the set answered under the
  address in such a document.
\<close>

definition published :: "http set \<Rightarrow> string \<Rightarrow> oidc_document \<Rightarrow> bool" where
  "published N issuer doc \<longleftrightarrow>
     (\<exists>net \<in> N. \<exists>stem n raw.
        issuer = stem @ replicate n (CHR ''/'') \<and> (stem = [] \<or> last stem \<noteq> CHR ''/'')
        \<and> net (stem @ ''/.well-known/openid-configuration'') = Inr raw
        \<and> js_get raw ''issuer'' = Some (JStr issuer)
        \<and> js_get raw ''jwks_uri'' = Some (JStr (dd_jwks_uri doc))
        \<and> js_get raw ''token_endpoint'' = Some (JStr (dd_token_endpoint doc)))"

definition published_key :: "http set \<Rightarrow> string \<Rightarrow> jsval \<Rightarrow> bool" where
  "published_key N issuer key \<longleftrightarrow>
     (\<exists>doc. published N issuer doc
        \<and> (\<exists>net \<in> N. \<exists>raw ks. net (dd_jwks_uri doc) = Inr raw \<and> js_get raw ''keys'' = Some (JArr ks) \<and> key \<in> set ks))"

definition directory_from :: "http set \<Rightarrow> oidc_directory \<Rightarrow> bool" where
  "directory_from N d \<longleftrightarrow>
     (\<forall>doc at0. od_discovery d = Some (doc, at0) \<longrightarrow> published N (od_issuer d) doc)
     \<and> (\<forall>ks at0. od_jwks d = Some (ks, at0) \<longrightarrow> list_all (published_key N (od_issuer d)) ks)"

lemma published_mono: "published N issuer doc \<Longrightarrow> N \<subseteq> M \<Longrightarrow> published M issuer doc"
  unfolding published_def by blast

lemma published_key_mono: "published_key N issuer key \<Longrightarrow> N \<subseteq> M \<Longrightarrow> published_key M issuer key"
  unfolding published_key_def by (meson published_mono subsetD)

lemma directory_from_mono: "directory_from N d \<Longrightarrow> N \<subseteq> M \<Longrightarrow> directory_from M d"
  using published_mono published_key_mono unfolding directory_from_def list_all_iff by blast

lemma trailing: "\<exists>n. xs = rev (dropWhile (\<lambda>x. x = c) (rev xs)) @ replicate n c"
proof -
  have "takeWhile (\<lambda>x. x = c) (rev xs) = replicate (length (takeWhile (\<lambda>x. x = c) (rev xs))) c"
    by (metis (mono_tags, lifting) replicate_length_same set_takeWhileD)
  then have "rev xs = replicate (length (takeWhile (\<lambda>x. x = c) (rev xs))) c @ dropWhile (\<lambda>x. x = c) (rev xs)"
    by (metis takeWhile_dropWhile_id)
  then have "xs = rev (dropWhile (\<lambda>x. x = c) (rev xs)) @ replicate (length (takeWhile (\<lambda>x. x = c) (rev xs))) c"
    by (metis rev_append rev_replicate rev_rev_ident)
  then show ?thesis by blast
qed

lemma trailing_last: "rev (dropWhile (\<lambda>x. x = c) (rev xs)) = [] \<or> last (rev (dropWhile (\<lambda>x. x = c) (rev xs))) \<noteq> c"
  using hd_dropWhile [of "\<lambda>x. x = c" "rev xs"] by (auto simp: last_rev)

lemma document_field_is: "document_field raw name = Inr v \<Longrightarrow> js_get raw name = Some (JStr v)"
  by (auto simp: document_field_def split: option.splits jsval.splits if_splits)

lemma fetched_document:
  assumes "get_json net (discoveryUrl issuer) = Inr raw" "checked_document issuer raw = Inr doc" "net \<in> N"
  shows "published N issuer doc"
proof -
  let ?stem = "rev (dropWhile (\<lambda>c. c = CHR ''/'') (rev issuer))"
  obtain n where n: "issuer = ?stem @ replicate n (CHR ''/'')" using trailing [of issuer "CHR ''/''"] by blast
  have "net (?stem @ ''/.well-known/openid-configuration'') = Inr raw"
    using assms(1) by (simp add: get_json_def discoveryUrl_def split: sum.splits)
  moreover have "js_get raw ''issuer'' = Some (JStr issuer)" "js_get raw ''jwks_uri'' = Some (JStr (dd_jwks_uri doc))"
    "js_get raw ''token_endpoint'' = Some (JStr (dd_token_endpoint doc))"
    using assms(2) by (auto simp: checked_document_def bind_err_Inr dest!: document_field_is split: if_splits)
  moreover have "?stem = [] \<or> last ?stem \<noteq> CHR ''/''" by (rule trailing_last)
  ultimately show ?thesis
    unfolding published_def by (intro bexI [OF _ assms(3)] exI [of _ ?stem] exI [of _ n] exI [of _ raw] conjI n)
qed

lemma discovery_from:
  assumes "directory_from N d" "net \<in> N" "discovery_document net now d = (r, d')"
  shows "directory_from N d' \<and> od_issuer d' = od_issuer d \<and> (\<forall>doc. r = Inr doc \<longrightarrow> published N (od_issuer d) doc)"
proof (cases "bind_err (get_json net (discoveryUrl (od_issuer d))) (checked_document (od_issuer d))")
  case (Inl e)
  then show ?thesis using assms by (auto simp: discovery_document_def directory_from_def Let_def split: option.splits if_splits)
next
  case (Inr doc)
  then have "published N (od_issuer d) doc" using fetched_document [OF _ _ assms(2)] by (auto simp: bind_err_Inr)
  with Inr show ?thesis using assms by (auto simp: discovery_document_def directory_from_def Let_def split: option.splits if_splits)
qed

lemma fetched_keys:
  assumes "bind_err (get_json net (dd_jwks_uri doc)) signature_keys = Inr ks" "published N issuer doc" "net \<in> N"
  shows "list_all (published_key N issuer) ks"
proof -
  obtain raw where raw: "net (dd_jwks_uri doc) = Inr raw" "signature_keys raw = Inr ks"
    using assms(1) by (auto simp: bind_err_Inr get_json_def split: sum.splits)
  then obtain all0 where "js_get raw ''keys'' = Some (JArr all0)" "set ks \<subseteq> set all0"
    by (auto simp: signature_keys_def split: option.splits jsval.splits if_splits)
  then show ?thesis unfolding list_all_iff published_key_def using raw(1) assms(2,3) by blast
qed

lemma keys_from:
  assumes "directory_from N d" "net \<in> N" "fetchJwks net now d = (r, d')"
  shows "directory_from N d' \<and> od_issuer d' = od_issuer d"
proof -
  obtain r1 d1 where doc: "discovery_document net now d = (r1, d1)" by (cases "discovery_document net now d")
  note ok = discovery_from [OF assms(1,2) doc]
  show ?thesis
  proof (cases r1)
    case (Inl e)
    then show ?thesis using ok assms(3) by (auto simp: fetchJwks_def doc)
  next
    case (Inr found)
    then have found: "published N (od_issuer d) found" using ok by blast
    show ?thesis
    proof (cases "bind_err (get_json net (dd_jwks_uri found)) signature_keys")
      case (Inl e)
      then show ?thesis using ok Inr assms(3) by (auto simp: fetchJwks_def doc directory_from_def)
    next
      case (Inr ks)
      then show ?thesis using ok \<open>r1 = Inr found\<close> assms(3) fetched_keys [OF Inr found assms(2)]
        by (auto simp: fetchJwks_def doc directory_from_def)
    qed
  qed
qed

lemma signing_from:
  assumes "directory_from N d" "net \<in> N" "signingKey net now kid d = (r, d')"
  shows "directory_from N d' \<and> od_issuer d' = od_issuer d \<and> (\<forall>key. r = Inr key \<longrightarrow> published_key N (od_issuer d) key)"
proof -
  have ok: "directory_from N d' \<and> od_issuer d' = od_issuer d \<and> (\<forall>key. r = Inr key \<longrightarrow> findKey kid d' = Some key)"
  proof (cases "findKey kid d")
    case None
    let ?d = "d \<lparr> od_lastMissRefetchAt := now \<rparr>"
    have "directory_from N ?d" using assms(1) by (simp add: directory_from_def)
    then show ?thesis
      using assms None keys_from [of N ?d net now]
      by (auto simp: signingKey_def split: if_splits prod.splits sum.splits option.splits)
  qed (use assms in \<open>auto simp: signingKey_def\<close>)
  moreover have "published_key N (od_issuer d') key" if "findKey kid d' = Some key" for key
    using ok findKey_some [OF that] by (auto simp: directory_from_def key_for_def list_all_iff)
  ultimately show ?thesis by auto
qed

section \<open>What an accepted token says\<close>

text \<open>
  The claims that sign a person in: a token of three parts, whose signature by an allowed algorithm the key verifies over the
  first two, from this issuer, for this client, about somebody, in its time, and made for the login with this nonce.
\<close>

definition id_token_proves :: "oidc_crypto \<Rightarrow> string \<Rightarrow> jsval \<Rightarrow> id_options \<Rightarrow> jsval \<Rightarrow> bool" where
  "id_token_proves oc token key opts claims \<longleftrightarrow>
     (\<exists>h p sg header name hash s e i.
        token = h @ ''.'' @ p @ ''.'' @ sg \<and> CHR ''.'' \<notin> set h \<and> CHR ''.'' \<notin> set p \<and> CHR ''.'' \<notin> set sg
        \<and> oc_parse oc (base64UrlDecode h) = Inr header \<and> js_get header ''alg'' = Some (JStr name) \<and> (name, hash) \<in> set ALGORITHMS
        \<and> oc_verify oc hash (h @ ''.'' @ p) key (use_of name) (base64UrlDecode sg) = Some True
        \<and> oc_parse oc (base64UrlDecode p) = Inr claims
        \<and> js_get claims ''iss'' = Some (JStr (io_issuer opts)) \<and> Some (JStr (io_audience opts)) \<in> set (audiences claims)
        \<and> js_get claims ''sub'' = Some (JStr s) \<and> s \<noteq> []
        \<and> js_get claims ''exp'' = Some (JNum e) \<and> of_int (seconds (io_now opts)) \<le> e + of_int (io_clockSkewSeconds opts)
        \<and> js_get claims ''iat'' = Some (JNum i) \<and> i \<le> of_int (seconds (io_now opts) + io_clockSkewSeconds opts)
        \<and> js_get claims ''nonce'' = Some (JStr (io_nonce opts)))"

lemma num_claim_some: "num_claim claims k = Some q \<longleftrightarrow> js_get claims k = Some (JNum q)"
  by (auto simp: num_claim_def split: option.splits jsval.splits)

lemma verifyClaims_ok:
  assumes "verifyClaims claims opts = Inr c"
  shows "c = claims \<and> js_get claims ''iss'' = Some (JStr (io_issuer opts)) \<and> Some (JStr (io_audience opts)) \<in> set (audiences claims)
    \<and> (\<exists>s. js_get claims ''sub'' = Some (JStr s) \<and> s \<noteq> [])
    \<and> (\<exists>e. js_get claims ''exp'' = Some (JNum e) \<and> of_int (seconds (io_now opts)) \<le> e + of_int (io_clockSkewSeconds opts))
    \<and> (\<exists>i. js_get claims ''iat'' = Some (JNum i) \<and> i \<le> of_int (seconds (io_now opts) + io_clockSkewSeconds opts))
    \<and> js_get claims ''nonce'' = Some (JStr (io_nonce opts))"
proof -
  have "(\<exists>s. js_get claims ''sub'' = Some (JStr s) \<and> s \<noteq> [])"
    using assms by (auto simp: verifyClaims_def Let_def split: if_splits option.splits jsval.splits)
  moreover have "\<exists>e. num_claim claims ''exp'' = Some e \<and> of_int (seconds (io_now opts)) \<le> e + of_int (io_clockSkewSeconds opts)"
    "\<exists>i. num_claim claims ''iat'' = Some i \<and> i \<le> of_int (seconds (io_now opts) + io_clockSkewSeconds opts)"
    using assms by (cases "num_claim claims ''exp''"; cases "num_claim claims ''iat''"; simp add: verifyClaims_def Let_def split: if_splits)+
  moreover have "c = claims \<and> js_get claims ''iss'' = Some (JStr (io_issuer opts)) \<and> Some (JStr (io_audience opts)) \<in> set (audiences claims)
    \<and> js_get claims ''nonce'' = Some (JStr (io_nonce opts))"
    using assms by (auto simp: verifyClaims_def Let_def split: if_splits)
  ultimately show ?thesis by (simp add: num_claim_some)
qed

lemma three_parts:
  assumes "length (split_on c t) = 3"
  obtains h p sg where "split_on c t = [h, p, sg]" "t = h @ c # p @ c # sg" "c \<notin> set h" "c \<notin> set p" "c \<notin> set sg"
proof -
  obtain h p sg where parts: "split_on c t = [h, p, sg]" using assms by (auto simp: length_Suc_conv numeral_3_eq_3)
  moreover have "t = h @ c # p @ c # sg" using join_split_on [of c t] by (simp add: parts)
  moreover have "c \<notin> set h" "c \<notin> set p" "c \<notin> set sg" using split_on_pieces [of _ c t] by (simp_all add: parts)
  ultimately show ?thesis by (rule that)
qed

lemma signature_valid_ok:
  assumes "signature_valid oc alg input key sg = Inr u"
  shows "\<exists>name hash. alg = Some (JStr name) \<and> (name, hash) \<in> set ALGORITHMS \<and> oc_verify oc hash input key (use_of name) sg = Some True"
proof -
  obtain v hash where v: "alg = Some v" "map_of ALGORITHMS (js_string v) = Some hash"
    using assms by (auto simp: signature_valid_def split: option.splits)
  then obtain name where "v = JStr name" "oc_verify oc hash input key (use_of name) sg = Some True"
    using assms by (cases v) (auto simp: signature_valid_def split: if_splits option.splits)
  with v show ?thesis by (auto dest: map_of_SomeD)
qed

lemma id_token_accepted:
  assumes "verifyIdToken oc token key opts = Inr claims"
  shows "id_token_proves oc token key opts claims"
proof -
  have three: "length (split_on CHR ''.'' token) = 3" using assms by (auto simp: verifyIdToken_def Let_def split: if_splits)
  obtain h p sg where parts: "split_on CHR ''.'' token = [h, p, sg]" and t: "token = h @ CHR ''.'' # p @ CHR ''.'' # sg"
    and dots: "CHR ''.'' \<notin> set h" "CHR ''.'' \<notin> set p" "CHR ''.'' \<notin> set sg" by (rule three_parts [OF three])
  obtain header u where header: "peekHeader oc token = Inr header"
    and sig: "signature_valid oc (js_get header ''alg'') (h @ ''.'' @ p) key (base64UrlDecode sg) = Inr u"
    and rest: "(case decodeSegment oc p of Inl e \<Rightarrow> Inl (ThrownError e)
       | Inr claims \<Rightarrow> if \<not> is_object claims \<or> claims = JNull then Inl MalformedPayload else verifyClaims claims opts) = Inr claims"
    using assms by (auto simp: verifyIdToken_def Let_def parts bind_err_Inr)
  have "oc_parse oc (base64UrlDecode h) = Inr header"
    using header by (auto simp: peekHeader_def Let_def parts decodeSegment_def split: sum.splits if_splits)
  moreover obtain payload where payload: "oc_parse oc (base64UrlDecode p) = Inr payload" "verifyClaims payload opts = Inr claims"
    using rest by (auto simp: decodeSegment_def split: sum.splits if_splits)
  ultimately show ?thesis
    using t dots signature_valid_ok [OF sig] verifyClaims_ok [OF payload(2)] unfolding id_token_proves_def by simp metis
qed

text \<open>The paddings of RSA signatures in OpenSSL. The one that is asked for with \<open>PS256\<close> to \<open>PS512\<close> is that of \<open>RS256\<close>.\<close>

definition RSA_PKCS1_PADDING :: int where "RSA_PKCS1_PADDING = 1"
definition RSA_PKCS1_PSS_PADDING :: int where "RSA_PKCS1_PSS_PADDING = 6"

lemma pss_tokens_refused:
  assumes "\<And>hash input key salt sg. oc_verify oc hash input key (RsaPadding RSA_PKCS1_PADDING salt) sg = Some True \<Longrightarrow> \<not> made_with_pss sg"
    and "made_with_pss (base64UrlDecode sg)" "CHR ''.'' \<notin> set sg"
    and "oc_parse oc (base64UrlDecode h) = Inr header" "js_get header ''alg'' = Some (JStr (CHR ''P'' # CHR ''S'' # bits))" "CHR ''.'' \<notin> set h" "CHR ''.'' \<notin> set p"
  shows "verifyIdToken oc (h @ ''.'' @ p @ ''.'' @ sg) key opts \<noteq> Inr claims"
proof
  assume "verifyIdToken oc (h @ ''.'' @ p @ ''.'' @ sg) key opts = Inr claims"
  from id_token_accepted [OF this] obtain h2 p2 sg2 header2 name hash where
    t: "h @ CHR ''.'' # p @ CHR ''.'' # sg = h2 @ CHR ''.'' # p2 @ CHR ''.'' # sg2"
      "CHR ''.'' \<notin> set h2" "CHR ''.'' \<notin> set p2" "CHR ''.'' \<notin> set sg2"
    and hd2: "oc_parse oc (base64UrlDecode h2) = Inr header2" "js_get header2 ''alg'' = Some (JStr name)"
    and v: "oc_verify oc hash (h2 @ ''.'' @ p2) key (use_of name) (base64UrlDecode sg2) = Some True"
    unfolding id_token_proves_def by auto
  have "h = h2 \<and> p @ CHR ''.'' # sg = p2 @ CHR ''.'' # sg2" by (rule append_sep_inj [OF assms(6) t(2) t(1)])
  moreover from this have "sg = sg2" using append_sep_inj [OF assms(7) t(3)] by blast
  ultimately show False using assms v hd2 by (auto simp: use_of_def starts_with_def RSA_PKCS1_PADDING_def)
qed

section \<open>A provider\<close>

definition demo_http :: http where
  "demo_http url =
     (if url = ''k'' then Inr (JObj [(''keys'', JArr [JObj [(''kid'', JStr ''1'')]])])
      else Inr (JObj [(''issuer'', JStr ''https://idp''), (''authorization_endpoint'', JStr ''a''), (''token_endpoint'', JStr ''t''), (''jwks_uri'', JStr ''k'')]))"

theorem key_fetches_spaced_witness:
  "\<exists>d. sign_in_traffic ''https://idp'' d 60001 \<and> od_fetches d = [1, 60001] \<and> sorted_wrt (\<lambda>a b. a + 60000 \<le> b) (od_fetches d)"
proof -
  let ?k = "Some (JStr ''unknown'')"
  let ?d1 = "snd (signingKey demo_http 1 ?k (new_directory ''https://idp''))"
  let ?d2 = "snd (signingKey demo_http 60001 ?k ?d1)"
  have "sign_in_traffic ''https://idp'' (new_directory ''https://idp'') 1" by (rule sign_in_traffic.built) simp
  then have "sign_in_traffic ''https://idp'' ?d1 1"
    by (rule sign_in_traffic.key_wanted [where net = demo_http and kid = ?k, OF _ _ prod.collapse [symmetric]]) simp
  then have t: "sign_in_traffic ''https://idp'' ?d2 60001"
    by (rule sign_in_traffic.key_wanted [where net = demo_http and kid = ?k, OF _ _ prod.collapse [symmetric]]) simp
  moreover have "od_fetches ?d2 = [1, 60001]" by code_simp
  ultimately show ?thesis using key_fetches_spaced [OF t] by blast
qed

end
