(* ===== verification/OidcSignIn.thy ===== *)
theory OidcSignIn
  imports OidcToken LdapSignIn
begin

text \<open>
  Signing in through an OpenID provider: the configuration and its role mapping (\<open>directory/oidc/config.ts\<close>), redeeming a code
  (\<open>HttpTokenExchange\<close> of \<open>directory/oidc/http.ts\<close>), the two legs of a login
  (\<open>directory/oidc/oidc-auth.provider.ts\<close>) and the routes that bind them to a browser
  (\<open>beginRedirect\<close> and \<open>completeRedirect\<close> of \<open>auth/auth.controller.ts\<close>). Arguments: what the settings store answers, the
  network, which texts are URLs, SHA-256, the random draws and the clock, read once in a leg. Clients are made as \<open>app.module.ts\<close>
  makes them; two configurations are the same when their JSON is. Log lines are left out, and so are failures of the database.
\<close>

section \<open>Configuration\<close>

record oidc_mapping =
  om_group :: string
  om_role :: string

record oidc_config =
  oi_issuer :: string
  oi_clientId :: string
  oi_clientSecret :: "string option"
  oi_redirectUri :: string
  oi_scopes :: "string list"
  oi_emailClaim :: string
  oi_displayNameClaim :: string
  oi_groupsClaim :: string
  oi_roleMappings :: "oidc_mapping list"
  oi_defaultRole :: "string option"
  oi_timeoutMs :: int
  oi_clockSkewSeconds :: int

definition BUILT_IN :: "string list" where
  "BUILT_IN = [''VIEWER'', ''OPERATOR'', ''ADMIN'']"

definition isBuiltInRole :: "string \<Rightarrow> bool" where
  "isBuiltInRole name \<longleftrightarrow> name \<in> set BUILT_IN"

definition role_name :: "string \<Rightarrow> bool" where
  "role_name s \<longleftrightarrow> 1 \<le> length s \<and> length s \<le> 64 \<and> list_all (\<lambda>c. alnum c \<or> c \<in> set ''._-'') s"

text \<open>\<open>Number(v)\<close> of a value, for \<open>z.coerce.number()\<close>.\<close>

fun coerce_number :: "jsval \<Rightarrow> rat option" where
  "coerce_number JNull = Some 0"
| "coerce_number (JBool b) = Some (if b then 1 else 0)"
| "coerce_number (JNum q) = Some q"
| "coerce_number (JStr s) = parse_number s"
| "coerce_number (JArr vs) = parse_number (js_string (JArr vs))"
| "coerce_number _ = None"

definition coerced_field :: "int \<Rightarrow> int \<Rightarrow> int \<Rightarrow> jsval option \<Rightarrow> int option" where
  "coerced_field lo hi d v =
     (case v of None \<Rightarrow> Some d | Some v \<Rightarrow> Option.bind (integer_of (coerce_number v)) (in_range lo hi))"

definition defaulted_text :: "string \<Rightarrow> jsval option \<Rightarrow> string option" where
  "defaulted_text d v = (if v = None then Some d else text_field v)"

definition url_field :: "(string \<Rightarrow> bool) \<Rightarrow> jsval option \<Rightarrow> string option" where
  "url_field is_url v = Option.bind (string_in v) (\<lambda>s. if is_url s then Some s else None)"

definition role_field :: "jsval option \<Rightarrow> string option" where
  "role_field v = Option.bind (string_in v) (\<lambda>s. if role_name s then Some s else None)"

definition oidc_mapping_field :: "jsval \<Rightarrow> oidc_mapping option" where
  "oidc_mapping_field v =
     (case v of
        JObj o1 \<Rightarrow> do { g \<leftarrow> text_field (oget o1 ''group''); r \<leftarrow> role_field (oget o1 ''role''); Some \<lparr> om_group = g, om_role = r \<rparr> }
      | _ \<Rightarrow> None)"

definition list_field :: "'a list \<Rightarrow> (jsval \<Rightarrow> 'a option) \<Rightarrow> jsval option \<Rightarrow> 'a list option" where
  "list_field d f v = (case v of None \<Rightarrow> Some d | Some (JArr vs) \<Rightarrow> all_fields f vs | _ \<Rightarrow> None)"

definition oidcConfigSchema :: "(string \<Rightarrow> bool) \<Rightarrow> jsval \<Rightarrow> oidc_config option" where
  "oidcConfigSchema is_url v =
     (case v of
        JObj o1 \<Rightarrow> do {
          issuer \<leftarrow> url_field is_url (oget o1 ''issuer'');
          clientId \<leftarrow> text_field (oget o1 ''clientId'');
          clientSecret \<leftarrow> optional_field text_field (oget o1 ''clientSecret'');
          redirectUri \<leftarrow> url_field is_url (oget o1 ''redirectUri'');
          scopes \<leftarrow> list_field [''profile'', ''email''] (\<lambda>s. text_field (Some s)) (oget o1 ''scopes'');
          emailClaim \<leftarrow> defaulted_text ''email'' (oget o1 ''emailClaim'');
          displayNameClaim \<leftarrow> defaulted_text ''name'' (oget o1 ''displayNameClaim'');
          groupsClaim \<leftarrow> defaulted_text ''groups'' (oget o1 ''groupsClaim'');
          roleMappings \<leftarrow> list_field [] oidc_mapping_field (oget o1 ''roleMappings'');
          defaultRole \<leftarrow> optional_field role_field (oget o1 ''defaultRole'');
          timeoutMs \<leftarrow> coerced_field 1000 60000 10000 (oget o1 ''timeoutMs'');
          clockSkewSeconds \<leftarrow> coerced_field 0 300 60 (oget o1 ''clockSkewSeconds'');
          Some \<lparr> oi_issuer = issuer, oi_clientId = clientId, oi_clientSecret = clientSecret, oi_redirectUri = redirectUri,
                 oi_scopes = scopes, oi_emailClaim = emailClaim, oi_displayNameClaim = displayNameClaim,
                 oi_groupsClaim = groupsClaim, oi_roleMappings = roleMappings, oi_defaultRole = defaultRole,
                 oi_timeoutMs = timeoutMs, oi_clockSkewSeconds = clockSkewSeconds \<rparr> }
      | _ \<Rightarrow> None)"

text \<open>\<open>OIDC_ROLE_MAPPINGS\<close>; a failure carries the pair and what is wrong with it.\<close>

definition foldRoleName :: "string \<Rightarrow> string" where
  "foldRoleName written = (if isBuiltInRole (to_upper written) then to_upper written else written)"

definition parse_oidc_mapping :: "string \<Rightarrow> string + oidc_mapping" where
  "parse_oidc_mapping pair =
     (let invalid = (\<lambda>why. Inl (''Invalid OIDC role mapping '' @ quoted pair @ '': '' @ why))
      in case after_last CHR ''='' pair of
           None \<Rightarrow> invalid ''expected group=ROLE.''
         | Some (before, after) \<Rightarrow>
             (let g = js_trim before; written = js_trim after; role = foldRoleName written
              in if length g = 0 then invalid ''the group is empty.''
                 else if length written = 0 then invalid ''the role is empty.''
                 else if \<not> role_name role
                 then invalid (quoted role @ '' is not a usable role name (letters, digits, dot, underscore and hyphen only).'')
                 else Inr \<lparr> om_group = g, om_role = role \<rparr>))"

definition parseOidcMappings :: "string \<Rightarrow> string + oidc_mapping list" where
  "parseOidcMappings raw =
     fold_err (\<lambda>ms pair. bind_err (parse_oidc_mapping pair) (\<lambda>m. Inr (ms @ [m]))) []
       (filter (\<lambda>pair. length pair > 0) (map js_trim (split_on CHR '';'' raw)))"

definition comma_list :: "string option \<Rightarrow> string list option" where
  "comma_list raw =
     (case raw of
        None \<Rightarrow> None
      | Some raw \<Rightarrow>
          (let items = filter (\<lambda>s. length s > 0) (map js_trim (split_on CHR '','' raw))
           in if length items > 0 then Some items else None))"

definition env_text :: "(string \<Rightarrow> string option) \<Rightarrow> string \<Rightarrow> string \<Rightarrow> (string \<times> jsval) list" where
  "env_text env var field0 = (case env var of None \<Rightarrow> [] | Some s \<Rightarrow> [(field0, JStr s)])"

definition oidc_mapping_value :: "oidc_mapping \<Rightarrow> jsval" where
  "oidc_mapping_value m = JObj [(''group'', JStr (om_group m)), (''role'', JStr (om_role m))]"

text \<open>A failure of the schema is the text its message begins with.\<close>

definition oidcConfigFromEnv :: "(string \<Rightarrow> bool) \<Rightarrow> (string \<Rightarrow> string option) \<Rightarrow> string + oidc_config option" where
  "oidcConfigFromEnv is_url env =
     (case env ''OIDC_ISSUER'' of
        None \<Rightarrow> Inr None
      | Some issuer \<Rightarrow>
          if js_trim issuer = [] then Inr None
          else bind_err (case env ''OIDC_ROLE_MAPPINGS'' of None \<Rightarrow> Inr None | Some raw \<Rightarrow> bind_err (parseOidcMappings raw) (\<lambda>ms. Inr (Some ms)))
            (\<lambda>mappings.
              let raw = [(''issuer'', JStr (js_trim issuer))]
                    @ env_text env ''OIDC_CLIENT_ID'' ''clientId'' @ env_text env ''OIDC_CLIENT_SECRET'' ''clientSecret''
                    @ env_text env ''OIDC_REDIRECT_URI'' ''redirectUri''
                    @ (case comma_list (env ''OIDC_SCOPES'') of None \<Rightarrow> [] | Some xs \<Rightarrow> [(''scopes'', JArr (map JStr xs))])
                    @ env_text env ''OIDC_EMAIL_CLAIM'' ''emailClaim'' @ env_text env ''OIDC_DISPLAY_NAME_CLAIM'' ''displayNameClaim''
                    @ env_text env ''OIDC_GROUPS_CLAIM'' ''groupsClaim''
                    @ (case mappings of None \<Rightarrow> [] | Some ms \<Rightarrow> [(''roleMappings'', JArr (map oidc_mapping_value ms))])
                    @ (case env ''OIDC_DEFAULT_ROLE'' of None \<Rightarrow> [] | Some r \<Rightarrow> [(''defaultRole'', JStr (foldRoleName (js_trim r)))])
                    @ env_text env ''OIDC_TIMEOUT_MS'' ''timeoutMs'' @ env_text env ''OIDC_CLOCK_SKEW_SECONDS'' ''clockSkewSeconds''
              in case oidcConfigSchema is_url (JObj raw) of
                   None \<Rightarrow> Inl ''Invalid OIDC configuration''
                 | Some config \<Rightarrow> Inr (Some config)))"

section \<open>Roles\<close>

definition add_oidc_role :: "string set \<Rightarrow> string list \<Rightarrow> oidc_mapping \<Rightarrow> string list" where
  "add_oidc_role held matched mapping =
     (if om_group mapping \<notin> held then matched
      else if om_role mapping \<in> set matched then matched else matched @ [om_role mapping])"

definition resolveOidcRole :: "string list \<Rightarrow> oidc_config \<Rightarrow> resolved_roles option" where
  "resolveOidcRole groups config =
     (let matched = foldl (add_oidc_role (set groups)) [] (oi_roleMappings config)
      in if length matched = 0
         then (case oi_defaultRole config of None \<Rightarrow> None | Some r \<Rightarrow> Some \<lparr> rr_primary = r, rr_all = [r] \<rparr>)
         else if list_all isBuiltInRole matched then Some \<lparr> rr_primary = matched ! 0, rr_all = [matched ! 0] \<rparr>
         else Some \<lparr> rr_primary = matched ! 0, rr_all = matched \<rparr>)"

section \<open>The clients of a configuration\<close>

record pending_login =
  pl_verifier :: string
  pl_nonce :: string
  pl_expiresAt :: int

definition PENDING_TTL_MS :: int where "PENDING_TTL_MS = 10 * 60 * 1000"
definition PENDING_MAX :: nat where "PENDING_MAX = 1000"

text \<open>A configuration with the directory built for it. Redeeming a code depends on the configuration only.\<close>

record issuer_clients =
  ic_config :: oidc_config
  ic_directory :: oidc_directory

record oidc_provider =
  op_pending :: "(string \<times> pending_login) list"
  op_effective :: "issuer_clients option"
  op_boot :: "issuer_clients option"
  op_current :: "oidc_config option"

record token_request =
  tr_endpoint :: string
  tr_form :: "(string \<times> string) list"
  tr_authorization :: "string option"

record oidc_env =
  oe_config :: "oidc_config option"
  oe_stored :: "string + jsval option"
  oe_is_url :: "string \<Rightarrow> bool"
  oe_net :: http
  oe_post :: "token_request \<Rightarrow> string + jsval"
  oe_crypto :: oidc_crypto
  oe_sha256 :: "string \<Rightarrow> string"
  oe_now :: int

definition source_oidc :: string where "source_oidc = ''oidc''"

definition new_provider :: "oidc_config option \<Rightarrow> oidc_provider" where
  "new_provider config = \<lparr> op_pending = [], op_effective = None, op_boot = None, op_current = config \<rparr>"

definition clients_for :: "oidc_config \<Rightarrow> issuer_clients" where
  "clients_for config = \<lparr> ic_config = config, ic_directory = new_directory (oi_issuer config) \<rparr>"

text \<open>Which of the two caches the clients came from.\<close>

datatype client_slot = BOOT_CLIENTS | STORED_CLIENTS

definition boot_clients :: "oidc_config \<Rightarrow> oidc_provider \<Rightarrow> issuer_clients \<times> oidc_provider" where
  "boot_clients config st =
     (case op_boot st of
        Some cl \<Rightarrow> (cl, st)
      | None \<Rightarrow> (clients_for config, st \<lparr> op_boot := Some (clients_for config) \<rparr>))"

text \<open>A saved configuration without a secret takes the one of the environment.\<close>

definition inherit_secret :: "oidc_config option \<Rightarrow> jsval \<Rightarrow> jsval" where
  "inherit_secret config stored =
     (case stored of
        JObj o1 \<Rightarrow>
          (case Option.bind config oi_clientSecret of
             Some secret \<Rightarrow> if oget o1 ''clientSecret'' = None then JObj (oset ''clientSecret'' (JStr secret) o1) else stored
           | None \<Rightarrow> stored)
      | _ \<Rightarrow> stored)"

definition OIDC_SCHEMA_DIVERGED :: string where
  "OIDC_SCHEMA_DIVERGED = ''The stored OIDC configuration does not match the schema of this build''"

definition oidc_effective :: "oidc_env \<Rightarrow> oidc_provider \<Rightarrow> (string + (client_slot \<times> issuer_clients) option) \<times> oidc_provider" where
  "oidc_effective env st =
     (case oe_stored env of
        Inl e \<Rightarrow> (Inl e, st)
      | Inr stored \<Rightarrow>
          if nullish stored
          then (let st1 = st \<lparr> op_current := oe_config env \<rparr>
                in case oe_config env of
                     None \<Rightarrow> (Inr None, st1)
                   | Some config \<Rightarrow> (case boot_clients config st1 of (cl, st2) \<Rightarrow> (Inr (Some (BOOT_CLIENTS, cl)), st2)))
          else (case oidcConfigSchema (oe_is_url env) (inherit_secret (oe_config env) (the stored)) of
                  None \<Rightarrow> (Inl OIDC_SCHEMA_DIVERGED, st)
                | Some next \<Rightarrow>
                    (let cl = (case op_effective st of
                                 Some cl \<Rightarrow> if ic_config cl = next then cl else clients_for next
                               | None \<Rightarrow> clients_for next)
                     in (Inr (Some (STORED_CLIENTS, cl)), st \<lparr> op_effective := Some cl, op_current := Some next \<rparr>))))"

definition put_directory :: "client_slot \<Rightarrow> issuer_clients \<Rightarrow> oidc_directory \<Rightarrow> oidc_provider \<Rightarrow> oidc_provider" where
  "put_directory slot cl d st =
     (case slot of
        BOOT_CLIENTS \<Rightarrow> st \<lparr> op_boot := Some (cl \<lparr> ic_directory := d \<rparr>) \<rparr>
      | STORED_CLIENTS \<Rightarrow> st \<lparr> op_effective := Some (cl \<lparr> ic_directory := d \<rparr>) \<rparr>)"

text \<open>\<open>isConfigured\<close>: a configuration that cannot be read counts as one.\<close>

definition oidc_isConfigured :: "oidc_env \<Rightarrow> oidc_provider \<Rightarrow> bool \<times> oidc_provider" where
  "oidc_isConfigured env st =
     (case oidc_effective env st of (Inl e, st1) \<Rightarrow> (True, st1) | (Inr cl, st1) \<Rightarrow> (cl \<noteq> None, st1))"

section \<open>Logins that have begun\<close>

definition sweep_pending :: "int \<Rightarrow> oidc_provider \<Rightarrow> oidc_provider" where
  "sweep_pending now st = st \<lparr> op_pending := filter (\<lambda>(_, login). pl_expiresAt login > now) (op_pending st) \<rparr>"

definition remember :: "int \<Rightarrow> string \<Rightarrow> pending_login \<Rightarrow> oidc_provider \<Rightarrow> oidc_provider" where
  "remember now state login st =
     (let swept = op_pending (sweep_pending now st);
          kept = (if length swept \<ge> PENDING_MAX then tl swept else swept)
      in st \<lparr> op_pending := upsert (\<lambda>(k, _). k = state) (state, login) (\<lambda>(k, _). (k, login)) kept \<rparr>)"

definition take_login :: "int \<Rightarrow> string \<Rightarrow> oidc_provider \<Rightarrow> pending_login option \<times> oidc_provider" where
  "take_login now state st =
     (let st1 = sweep_pending now st
      in case List.find (\<lambda>(k, _). k = state) (op_pending st1) of
           None \<Rightarrow> (None, st1)
         | Some (_, login) \<Rightarrow>
             (if pl_expiresAt login > now then Some login else None,
              st1 \<lparr> op_pending := filter (\<lambda>(k, _). k \<noteq> state) (op_pending st1) \<rparr>))"

section \<open>The first leg\<close>

text \<open>The random bytes of one login.\<close>

record login_draw =
  lg_state :: string
  lg_nonce :: string
  lg_verifier :: string

text \<open>The address to send the browser to: an endpoint with the query parameters that are set on it.\<close>

record redirect_challenge =
  rc_endpoint :: string
  rc_params :: "(string \<times> string) list"
  rc_state :: string

definition challenge_for :: "oidc_env \<Rightarrow> oidc_config \<Rightarrow> string \<Rightarrow> string \<Rightarrow> string \<Rightarrow> string \<Rightarrow> redirect_challenge" where
  "challenge_for env config endpoint state nonce verifier =
     \<lparr> rc_endpoint = endpoint,
       rc_params =
         [(''response_type'', ''code''), (''client_id'', oi_clientId config), (''redirect_uri'', oi_redirectUri config),
          (''scope'', join '' '' (''openid'' # oi_scopes config)), (''state'', state), (''nonce'', nonce),
          (''code_challenge'', base64UrlEncode (oe_sha256 env verifier)), (''code_challenge_method'', ''S256'')],
       rc_state = state \<rparr>"

definition oidc_beginRedirect :: "oidc_env \<Rightarrow> login_draw \<Rightarrow> oidc_provider \<Rightarrow> (string + redirect_challenge) \<times> oidc_provider" where
  "oidc_beginRedirect env draw st =
     (case oidc_effective env st of
        (Inl e, st1) \<Rightarrow> (Inl e, st1)
      | (Inr None, st1) \<Rightarrow> (Inl ''OIDC sign-in is not configured.'', st1)
      | (Inr (Some (slot, cl)), st1) \<Rightarrow>
          (case discovery_document (oe_net env) (oe_now env) (ic_directory cl) of
             (Inl e, d) \<Rightarrow> (Inl ''discovery'', put_directory slot cl d st1)
           | (Inr doc, d) \<Rightarrow>
               (let state = base64UrlEncode (lg_state draw); nonce = base64UrlEncode (lg_nonce draw); verifier = base64UrlEncode (lg_verifier draw);
                    st2 = remember (oe_now env) state
                            \<lparr> pl_verifier = verifier, pl_nonce = nonce, pl_expiresAt = oe_now env + PENDING_TTL_MS \<rparr> (put_directory slot cl d st1)
                in if \<not> oe_is_url env (dd_authorization_endpoint doc) then (Inl ''Invalid URL'', st2)
                   else (Inr (challenge_for env (ic_config cl) (dd_authorization_endpoint doc) state nonce verifier), st2))))"

section \<open>Redeeming the code\<close>

definition hex_upper :: "nat \<Rightarrow> char" where
  "hex_upper n = ''0123456789ABCDEF'' ! n"

definition uri_unreserved :: "char \<Rightarrow> bool" where
  "uri_unreserved c \<longleftrightarrow> alnum c \<or> c \<in> set (CHR 0x27 # ''-_.!~*()'')"

definition encodeURIComponent :: "string \<Rightarrow> string" where
  "encodeURIComponent s =
     concat (map (\<lambda>c. if uri_unreserved c then [c] else [CHR ''%'', hex_upper (byte c div 16), hex_upper (byte c mod 16)]) s)"

definition redeem_request :: "oidc_config \<Rightarrow> string \<Rightarrow> string \<Rightarrow> string \<Rightarrow> token_request" where
  "redeem_request config tokenEndpoint code verifier =
     \<lparr> tr_endpoint = tokenEndpoint,
       tr_form = [(''grant_type'', ''authorization_code''), (''code'', code), (''redirect_uri'', oi_redirectUri config),
                  (''client_id'', oi_clientId config), (''code_verifier'', verifier)],
       tr_authorization = map_option (\<lambda>secret.
         ''Basic '' @ base64 (encodeURIComponent (oi_clientId config) @ '':'' @ encodeURIComponent secret)) (oi_clientSecret config) \<rparr>"

definition redeem :: "oidc_env \<Rightarrow> oidc_config \<Rightarrow> string \<Rightarrow> string \<Rightarrow> string \<Rightarrow> oidc_error + jsval" where
  "redeem env config tokenEndpoint code verifier =
     (case oe_post env (redeem_request config tokenEndpoint code verifier) of
        Inl e \<Rightarrow> Inl (RequestFailed e)
      | Inr raw \<Rightarrow> Inr (if raw = JNull then JObj [] else raw))"

section \<open>The second leg\<close>

definition principalFor :: "int \<Rightarrow> oidc_config \<Rightarrow> jsval \<Rightarrow> admin_state \<Rightarrow> (auth_failure + principal) \<times> admin_state" where
  "principalFor now config claims ad =
     (case js_get claims (oi_emailClaim config) of
        Some (JStr email) \<Rightarrow>
          if length email = 0 then (Inl INVALID_CREDENTIALS, ad)
          else (case resolveOidcRole (groupsFromClaim (js_get claims (oi_groupsClaim config))) config of
            None \<Rightarrow> (Inl INVALID_CREDENTIALS, ad)
          | Some resolved \<Rightarrow>
              (case by_email (normalizeEmail email) ad of
                 None \<Rightarrow> (Inl INVALID_CREDENTIALS, ad)
               | Some identity \<Rightarrow>
                   if \<not> us_isActive identity then (Inl ACCOUNT_DISABLED, ad)
                   else (let displayName = with_default (string_at (js_get claims (oi_displayNameClaim config))) (us_displayName identity)
                         in (Inr \<lparr> pr_userId = us_id identity, pr_email = us_email identity, pr_displayName = displayName,
                               pr_role = rr_primary resolved, pr_roles = (if length (rr_all resolved) > 1 then Some (rr_all resolved) else None),
                               pr_authSource = source_oidc, pr_scopedGroupIds = None, pr_scopedEnvironments = None \<rparr>,
                             recordLogin now (us_id identity) (rr_primary resolved) displayName ad))))
      | _ \<Rightarrow> (Inl INVALID_CREDENTIALS, ad))"

text \<open>What the identity provider's answer to the code says, with the directory after it was asked.\<close>

definition claims_for :: "oidc_env \<Rightarrow> oidc_config \<Rightarrow> string \<Rightarrow> pending_login \<Rightarrow> oidc_directory \<Rightarrow> (oidc_error + jsval option) \<times> oidc_directory" where
  "claims_for env config code login d =
     (case discovery_document (oe_net env) (oe_now env) d of
        (Inl e, d1) \<Rightarrow> (Inl e, d1)
      | (Inr doc, d1) \<Rightarrow>
          (case redeem env config (dd_token_endpoint doc) code (pl_verifier login) of
             Inl e \<Rightarrow> (Inl e, d1)
           | Inr answer \<Rightarrow>
               (case string_at (js_get answer ''id_token'') of
                  None \<Rightarrow> (Inr None, d1)
                | Some idToken \<Rightarrow>
                    if length idToken = 0 then (Inr None, d1)
                    else (case peekHeader (oe_crypto env) idToken of
                      Inl e \<Rightarrow> (Inl e, d1)
                    | Inr header \<Rightarrow>
                        (case signingKey (oe_net env) (oe_now env) (js_get header ''kid'') d1 of
                           (Inl e, d2) \<Rightarrow> (Inl e, d2)
                         | (Inr key, d2) \<Rightarrow>
                             (case verifyIdToken (oe_crypto env) idToken key
                                     \<lparr> io_issuer = oi_issuer config, io_audience = oi_clientId config, io_nonce = pl_nonce login,
                                       io_clockSkewSeconds = oi_clockSkewSeconds config, io_now = oe_now env \<rparr> of
                                Inl e \<Rightarrow> (Inl e, d2)
                              | Inr claims \<Rightarrow> (Inr (Some claims), d2)))))))"

text \<open>The result is a thrown error, or the answer to the login.\<close>

definition oidc_completeRedirect ::
  "oidc_env \<Rightarrow> jsval obj \<Rightarrow> oidc_provider \<Rightarrow> admin_state \<Rightarrow> (string + (auth_failure + principal)) \<times> oidc_provider \<times> admin_state" where
  "oidc_completeRedirect env params st ad =
     (case oidc_effective env st of
        (Inl e, st1) \<Rightarrow> (Inl e, st1, ad)
      | (Inr None, st1) \<Rightarrow> (Inr (Inl INVALID_CREDENTIALS), st1, ad)
      | (Inr (Some (slot, cl)), st1) \<Rightarrow>
          if string_at (oget params ''error'') \<noteq> None then (Inr (Inl INVALID_CREDENTIALS), st1, ad)
          else case (string_at (oget params ''state''), string_at (oget params ''code'')) of
            (Some state, Some code) \<Rightarrow>
              (case take_login (oe_now env) state st1 of
                 (None, st2) \<Rightarrow> (Inr (Inl INVALID_CREDENTIALS), st2, ad)
               | (Some login, st2) \<Rightarrow>
                   (case claims_for env (ic_config cl) code login (ic_directory cl) of
                      (Inr (Some claims), d) \<Rightarrow>
                        (case principalFor (oe_now env) (ic_config cl) claims ad of
                           (r, ad1) \<Rightarrow> (Inr r, put_directory slot cl d st2, ad1))
                    | (_, d) \<Rightarrow> (Inr (Inl INVALID_CREDENTIALS), put_directory slot cl d st2, ad)))
          | _ \<Rightarrow> (Inr (Inl INVALID_CREDENTIALS), st1, ad))"

text \<open>On refresh: the row.\<close>

definition resolve_oidc :: "admin_state \<Rightarrow> string \<Rightarrow> principal option" where
  "resolve_oidc st userId =
     (case find_user userId st of
        None \<Rightarrow> None
      | Some identity \<Rightarrow>
          if \<not> us_isActive identity then None
          else Some \<lparr> pr_userId = us_id identity, pr_email = us_email identity, pr_displayName = us_displayName identity,
                      pr_role = us_role identity, pr_roles = None, pr_authSource = source_oidc,
                      pr_scopedGroupIds = None, pr_scopedEnvironments = None \<rparr>)"

section \<open>What an administrator is shown\<close>

definition describe_oidc :: "oidc_provider \<Rightarrow> oidc_mapping list \<times> bool \<times> (string \<times> string) list" where
  "describe_oidc st =
     (case op_current st of
        None \<Rightarrow> ([], True, [(''Status'', ''not configured'')])
      | Some config \<Rightarrow>
          (oi_roleMappings config, oi_defaultRole config = None,
           [(''Issuer'', oi_issuer config), (''Client ID'', oi_clientId config), (''Groups claim'', oi_groupsClaim config)]))"

text \<open>The configuration without its secret.\<close>

definition currentConfiguration :: "oidc_env \<Rightarrow> jsval obj option" where
  "currentConfiguration env =
     map_option (\<lambda>config.
       [(''issuer'', JStr (oi_issuer config)), (''clientId'', JStr (oi_clientId config)), (''redirectUri'', JStr (oi_redirectUri config)),
        (''scopes'', JArr (map JStr (oi_scopes config))), (''emailClaim'', JStr (oi_emailClaim config)),
        (''displayNameClaim'', JStr (oi_displayNameClaim config)), (''groupsClaim'', JStr (oi_groupsClaim config)),
        (''roleMappings'', JArr (map oidc_mapping_value (oi_roleMappings config)))]
       @ (case oi_defaultRole config of None \<Rightarrow> [] | Some r \<Rightarrow> [(''defaultRole'', JStr r)])
       @ [(''timeoutMs'', JNum (of_int (oi_timeoutMs config))), (''clockSkewSeconds'', JNum (of_int (oi_clockSkewSeconds config)))])
       (oe_config env)"

text \<open>Checking the provider: a candidate with clients of its own, or the configuration in force.\<close>

datatype oidc_check = CandidateUnusable | CheckFailed string | NothingToCheck | Consistent oidc_document nat | NotVerified oidc_error

definition check_directory :: "oidc_env \<Rightarrow> oidc_directory \<Rightarrow> oidc_check \<times> oidc_directory" where
  "check_directory env d =
     (case discovery_document (oe_net env) (oe_now env) d of
        (Inl e, d1) \<Rightarrow> (NotVerified e, d1)
      | (Inr doc, d1) \<Rightarrow>
          (case signingKeyCount (oe_net env) (oe_now env) d1 of
             (Inl e, d2) \<Rightarrow> (NotVerified e, d2)
           | (Inr n, d2) \<Rightarrow> (Consistent doc n, d2)))"

definition oidc_verifyConfiguration :: "oidc_env \<Rightarrow> jsval option \<Rightarrow> oidc_provider \<Rightarrow> oidc_check \<times> oidc_provider" where
  "oidc_verifyConfiguration env candidate st =
     (if \<not> nullish candidate
      then (case oidcConfigSchema (oe_is_url env) (the candidate) of
              None \<Rightarrow> (CandidateUnusable, st)
            | Some config \<Rightarrow> (fst (check_directory env (ic_directory (clients_for config))), st))
      else case oidc_effective env st of
             (Inl e, st1) \<Rightarrow> (CheckFailed e, st1)
           | (Inr None, st1) \<Rightarrow> (NothingToCheck, st1)
           | (Inr (Some (slot, cl)), st1) \<Rightarrow>
               (case check_directory env (ic_directory cl) of (r, d) \<Rightarrow> (r, put_directory slot cl d st1)))"

section \<open>The routes\<close>

definition sanitiseReturnTo :: "string option \<Rightarrow> string" where
  "sanitiseReturnTo raw =
     (case raw of
        None \<Rightarrow> ''/''
      | Some raw \<Rightarrow>
          if length raw = 0 then ''/''
          else if \<not> starts_with raw ''/'' then ''/''
          else if starts_with raw ''//'' then ''/''
          else if starts_with raw [CHR ''/'', backslash] then ''/''
          else if str_includes raw ''://'' then ''/''
          else raw)"

datatype route_answer =
    RedirectTo redirect_challenge
  | SignedIn principal string
  | NoRedirectProvider
  | Unauthorized string
  | ServerError string

text \<open>Both legs ask for a configured redirect provider first. The answer carries the cookie to set.\<close>

definition begin_route :: "oidc_env \<Rightarrow> login_draw \<Rightarrow> string option \<Rightarrow> oidc_provider \<Rightarrow> (route_answer \<times> string option) \<times> oidc_provider" where
  "begin_route env draw returnTo st =
     (case oidc_isConfigured env st of
        (False, st1) \<Rightarrow> ((NoRedirectProvider, None), st1)
      | (True, st1) \<Rightarrow>
          (case oidc_beginRedirect env draw st1 of
             (Inl e, st2) \<Rightarrow> ((ServerError e, None), st2)
           | (Inr challenge, st2) \<Rightarrow> ((RedirectTo challenge, Some (rc_state challenge @ ''|'' @ sanitiseReturnTo returnTo)), st2)))"

definition cookie_parts :: "string \<Rightarrow> string \<times> string" where
  "cookie_parts cookie =
     (if CHR ''|'' \<in> set cookie
      then (takeWhile (\<lambda>c. c \<noteq> CHR ''|'') cookie, sanitiseReturnTo (Some (tl (dropWhile (\<lambda>c. c \<noteq> CHR ''|'') cookie))))
      else (cookie, ''/''))"

definition EXPIRED_LOGIN :: string where
  "EXPIRED_LOGIN = ''Login session expired. Start again.''"

text \<open>The cookie is spent with the request, whatever comes of it, unless no provider is configured.\<close>

definition callback_route ::
  "oidc_env \<Rightarrow> jsval obj \<Rightarrow> string option \<Rightarrow> oidc_provider \<Rightarrow> admin_state \<Rightarrow> (route_answer \<times> bool) \<times> oidc_provider \<times> admin_state" where
  "callback_route env params cookie st ad =
     (case oidc_isConfigured env st of
        (False, st1) \<Rightarrow> ((NoRedirectProvider, False), st1, ad)
      | (True, st1) \<Rightarrow>
          (case cookie of
             None \<Rightarrow> ((Unauthorized EXPIRED_LOGIN, True), st1, ad)
           | Some cookie \<Rightarrow>
               if length cookie = 0 then ((Unauthorized EXPIRED_LOGIN, True), st1, ad)
               else (case cookie_parts cookie of
                 (expectedState, returnTo) \<Rightarrow>
                   if string_at (oget params ''state'') \<noteq> Some expectedState then ((Unauthorized EXPIRED_LOGIN, True), st1, ad)
                   else (case oidc_completeRedirect env params st1 ad of
                     (Inl e, st2, ad2) \<Rightarrow> ((ServerError e, True), st2, ad2)
                   | (Inr (Inl reason), st2, ad2) \<Rightarrow>
                       ((Unauthorized ''Sign-in was refused by the identity provider.'', True), st2, ad2)
                   | (Inr (Inr p), st2, ad2) \<Rightarrow> ((SignedIn p returnTo, True), st2, ad2)))))"

section \<open>Where a browser is sent\<close>

text \<open>
  A path of the same origin: it starts with one slash, what follows is neither a slash nor a backslash, so it names no other host, and
  it contains no scheme.
\<close>

definition same_origin_path :: "string \<Rightarrow> bool" where
  "same_origin_path s \<longleftrightarrow> (\<exists>r. s = CHR ''/'' # r \<and> (r = [] \<or> hd r \<noteq> CHR ''/'' \<and> hd r \<noteq> backslash)) \<and> \<not> str_includes s ''://''"

lemma sanitised_none: "sanitiseReturnTo None = ''/''"
  by (simp add: sanitiseReturnTo_def)

lemma sanitised_same_origin: "same_origin_path (sanitiseReturnTo raw)"
proof -
  have root: "same_origin_path ''/''" by (simp add: same_origin_path_def str_includes_def)
  show ?thesis
  proof (cases raw)
    case (Some s)
    show ?thesis
    proof (cases "sanitiseReturnTo raw = ''/''")
      case False
      then have s: "sanitiseReturnTo raw = s" "starts_with s ''/''" "\<not> starts_with s ''//''" "\<not> starts_with s [CHR ''/'', backslash]"
        "\<not> str_includes s ''://''"
        by (simp_all add: Some sanitiseReturnTo_def split: if_splits)
      then obtain r where "s = CHR ''/'' # r" by (cases s) (simp_all add: starts_with_def split: if_splits)
      then show ?thesis using s by (cases r) (auto simp: same_origin_path_def starts_with_def split: if_splits)
    qed (simp add: root)
  qed (simp add: sanitiseReturnTo_def root)
qed

section \<open>The state of the provider\<close>

text \<open>The configuration that governs a leg.\<close>

definition in_force :: "oidc_env \<Rightarrow> oidc_config option" where
  "in_force env =
     (case oe_stored env of
        Inl e \<Rightarrow> None
      | Inr stored \<Rightarrow>
          if nullish stored then oe_config env
          else oidcConfigSchema (oe_is_url env) (inherit_secret (oe_config env) (the stored)))"

definition clients_ok :: "http set \<Rightarrow> issuer_clients \<Rightarrow> bool" where
  "clients_ok N cl \<longleftrightarrow> directory_ok (ic_directory cl) \<and> directory_from N (ic_directory cl) \<and> od_issuer (ic_directory cl) = oi_issuer (ic_config cl)"

definition provider_ok :: "http set \<Rightarrow> oidc_config option \<Rightarrow> oidc_provider \<Rightarrow> bool" where
  "provider_ok N boot st \<longleftrightarrow>
     (\<forall>cl. op_boot st = Some cl \<longrightarrow> clients_ok N cl \<and> boot = Some (ic_config cl))
     \<and> (\<forall>cl. op_effective st = Some cl \<longrightarrow> clients_ok N cl)"

lemma clients_for_ok [simp]: "clients_ok N (clients_for config)" "ic_config (clients_for config) = config"
  by (simp_all add: clients_ok_def clients_for_def new_directory_def directory_ok_def directory_from_def)

lemma provider_ok_mono: "provider_ok N boot st \<Longrightarrow> N \<subseteq> M \<Longrightarrow> provider_ok M boot st"
  unfolding provider_ok_def clients_ok_def using directory_from_mono by blast

lemma effective_ok:
  assumes "provider_ok N boot st" "oe_config env = boot" "oidc_effective env st = (r, st1)"
  shows "provider_ok N boot st1 \<and> op_pending st1 = op_pending st
    \<and> (\<forall>slot cl. r = Inr (Some (slot, cl)) \<longrightarrow> clients_ok N cl \<and> in_force env = Some (ic_config cl)
         \<and> (if slot = BOOT_CLIENTS then op_boot st1 = Some cl else op_effective st1 = Some cl))"
proof (cases "oe_stored env")
  case (Inl e)
  then show ?thesis using assms by (auto simp: oidc_effective_def)
next
  case (Inr stored)
  show ?thesis
  proof (cases "nullish stored")
    case True
    then show ?thesis
      using assms Inr
      by (auto simp: oidc_effective_def in_force_def boot_clients_def provider_ok_def Let_def split: option.splits)
  next
    case False
    show ?thesis
    proof (cases "oidcConfigSchema (oe_is_url env) (inherit_secret (oe_config env) (the stored))")
      case None
      then show ?thesis using assms Inr False by (auto simp: oidc_effective_def)
    next
      case (Some config)
      let ?cl = "case op_effective st of Some cl \<Rightarrow> if ic_config cl = config then cl else clients_for config | None \<Rightarrow> clients_for config"
      have "clients_ok N ?cl" "ic_config ?cl = config" using assms(1) by (auto simp: provider_ok_def split: option.splits)
      then show ?thesis
        using assms Inr False Some by (auto simp: oidc_effective_def in_force_def provider_ok_def Let_def)
    qed
  qed
qed

lemma put_directory_ok:
  assumes "provider_ok N boot st" "clients_ok N cl" "directory_ok d" "directory_from N d" "od_issuer d = od_issuer (ic_directory cl)"
    and "if slot = BOOT_CLIENTS then op_boot st = Some cl else op_effective st = Some cl"
  shows "provider_ok N boot (put_directory slot cl d st) \<and> op_pending (put_directory slot cl d st) = op_pending st"
  using assms by (cases slot) (auto simp: put_directory_def provider_ok_def clients_ok_def)

lemma configured_ok:
  assumes "provider_ok N boot st" "oe_config env = boot" "oidc_isConfigured env st = (r, st1)"
  shows "provider_ok N boot st1 \<and> op_pending st1 = op_pending st"
  using assms effective_ok [OF assms(1,2)] by (auto simp: oidc_isConfigured_def split: prod.splits sum.splits)

section \<open>Logins in flight\<close>

lemma take_login_pending:
  assumes "take_login now state st = (r, st1)"
  shows "set (op_pending st1) \<subseteq> set (op_pending st) \<and> (r \<noteq> None \<longrightarrow> state \<notin> fst ` set (op_pending st1))
    \<and> (\<forall>login. r = Some login \<longrightarrow> (state, login) \<in> set (op_pending st) \<and> pl_expiresAt login > now)
    \<and> op_boot st1 = op_boot st \<and> op_effective st1 = op_effective st"
proof -
  let ?swept = "filter (\<lambda>(_, login). pl_expiresAt login > now) (op_pending st)"
  show ?thesis
  proof (cases "List.find (\<lambda>(k, _). k = state) ?swept")
    case None
    then show ?thesis using assms by (auto simp: take_login_def sweep_pending_def Let_def)
  next
    case (Some x)
    obtain k login where x: "x = (k, login)" by (cases x)
    have "(k, login) \<in> set ?swept" "k = state" using find_unique_Some [OF Some [folded find_unique_def]] by (auto simp: x)
    then have "(state, login) \<in> set (op_pending st)" "now < pl_expiresAt login" "x = (state, login)" by (auto simp: x)
    then show ?thesis using assms Some by (auto simp: take_login_def sweep_pending_def Let_def)
  qed
qed

definition kept_pending :: "int \<Rightarrow> oidc_provider \<Rightarrow> (string \<times> pending_login) list" where
  "kept_pending now st =
     (let swept = op_pending (sweep_pending now st) in if length swept \<ge> PENDING_MAX then tl swept else swept)"

lemma kept_pending: "set (kept_pending now st) \<subseteq> set (op_pending st)"
  "length (op_pending st) \<le> 1000 \<Longrightarrow> length (kept_pending now st) < 1000"
proof -
  let ?swept = "filter (\<lambda>(_, login). now < pl_expiresAt login) (op_pending st)"
  have k: "kept_pending now st = (if 1000 \<le> length ?swept then tl ?swept else ?swept)"
    by (simp add: kept_pending_def sweep_pending_def PENDING_MAX_def Let_def)
  have "set (tl ?swept) \<subseteq> set ?swept" by (cases ?swept) auto
  then show "set (kept_pending now st) \<subseteq> set (op_pending st)" unfolding k by auto
  show "length (op_pending st) \<le> 1000 \<Longrightarrow> length (kept_pending now st) < 1000"
    using length_filter_le [of "\<lambda>(_, login). now < pl_expiresAt login" "op_pending st"] unfolding k by (cases ?swept) auto
qed

lemma remember_kept:
  "op_pending (remember now state login st) = upsert (\<lambda>(k, _). k = state) (state, login) (\<lambda>(k, _). (k, login)) (kept_pending now st)"
  by (simp add: remember_def kept_pending_def Let_def)

lemma remember_pending:
  assumes "x \<in> set (op_pending (remember now state login st))"
  shows "x = (state, login) \<or> x \<in> set (op_pending st)"
  using assms kept_pending(1) [of now st] by (auto simp: remember_kept upsert_def split: if_splits)

lemma remember_sel [simp]:
  "op_boot (remember now state login st) = op_boot st" "op_effective (remember now state login st) = op_effective st"
  by (simp_all add: remember_def Let_def)

text \<open>Memory stays bounded however many logins are begun.\<close>

lemma remember_bounded: "length (op_pending st) \<le> 1000 \<Longrightarrow> length (op_pending (remember now state login st)) \<le> 1000"
  using kept_pending(2) [of st now] by (simp add: remember_kept upsert_def)

section \<open>Browsers, accounts and the provider\<close>

text \<open>
  What was begun in which browser, which states have signed somebody in, the cookies browsers hold, the tables, and how the network answered in
  each step. A browser of
  \<open>honest\<close> sends the cookie it was given; any other sends what it likes, and everything in a query is anybody's choice. Settings, network and
  clock are chosen anew in every step; random draws do not repeat.
\<close>

record begun_login =
  bg_browser :: string
  bg_state :: string
  bg_nonce :: string
  bg_verifier :: string
  bg_time :: int

record oidc_world =
  ow_provider :: oidc_provider
  ow_accounts :: admin_state
  ow_cookies :: "string \<Rightarrow> string option"
  ow_begun :: "begun_login list"
  ow_used :: "string set"
  ow_nets :: "http set"

definition start_world :: "oidc_config option \<Rightarrow> admin_state \<Rightarrow> oidc_world" where
  "start_world boot ad = \<lparr> ow_provider = new_provider boot, ow_accounts = ad, ow_cookies = (\<lambda>_. None), ow_begun = [], ow_used = {}, ow_nets = {} \<rparr>"

definition unseen_state :: "string \<Rightarrow> oidc_world \<Rightarrow> bool" where
  "unseen_state s w \<longleftrightarrow> s \<notin> bg_state ` set (ow_begun w) \<and> s \<notin> fst ` set (op_pending (ow_provider w)) \<and> s \<notin> ow_used w"

definition begun_now :: "oidc_env \<Rightarrow> login_draw \<Rightarrow> string \<Rightarrow> begun_login" where
  "begun_now env draw b =
     \<lparr> bg_browser = b, bg_state = base64UrlEncode (lg_state draw), bg_nonce = base64UrlEncode (lg_nonce draw),
       bg_verifier = base64UrlEncode (lg_verifier draw), bg_time = oe_now env \<rparr>"

definition is_signed_in :: "route_answer \<Rightarrow> bool" where
  "is_signed_in a \<longleftrightarrow> (\<exists>p r. a = SignedIn p r)"

inductive oidc_run :: "oidc_config option \<Rightarrow> string set \<Rightarrow> oidc_world \<Rightarrow> bool" for boot honest where
  start: "oidc_run boot honest (start_world boot ad)"
| begins: "oidc_run boot honest w \<Longrightarrow> oe_config env = boot \<Longrightarrow> unseen_state (base64UrlEncode (lg_state draw)) w \<Longrightarrow>
    begin_route env draw returnTo (ow_provider w) = ((RedirectTo challenge, Some cookie), pr) \<Longrightarrow>
    oidc_run boot honest (w \<lparr> ow_provider := pr, ow_cookies := (ow_cookies w)(b := Some cookie),
      ow_begun := ow_begun w @ [begun_now env draw b], ow_nets := insert (oe_net env) (ow_nets w) \<rparr>)"
| fails_to_begin: "oidc_run boot honest w \<Longrightarrow> oe_config env = boot \<Longrightarrow> unseen_state (base64UrlEncode (lg_state draw)) w \<Longrightarrow>
    begin_route env draw returnTo (ow_provider w) = ((a, None), pr) \<Longrightarrow>
    oidc_run boot honest (w \<lparr> ow_provider := pr, ow_nets := insert (oe_net env) (ow_nets w) \<rparr>)"
| comes_back: "oidc_run boot honest w \<Longrightarrow> oe_config env = boot \<Longrightarrow> (b \<in> honest \<longrightarrow> cookie = ow_cookies w b) \<Longrightarrow>
    callback_route env params cookie (ow_provider w) (ow_accounts w) = ((a, spent), pr, ad) \<Longrightarrow>
    oidc_run boot honest (w \<lparr> ow_provider := pr, ow_accounts := ad,
      ow_cookies := (if spent then (ow_cookies w)(b := None) else ow_cookies w),
      ow_used := (if is_signed_in a then insert (fst (cookie_parts (the cookie))) (ow_used w) else ow_used w),
      ow_nets := insert (oe_net env) (ow_nets w) \<rparr>)"
| checks: "oidc_run boot honest w \<Longrightarrow> oe_config env = boot \<Longrightarrow> oidc_verifyConfiguration env candidate (ow_provider w) = (r, pr) \<Longrightarrow>
    oidc_run boot honest (w \<lparr> ow_provider := pr, ow_nets := insert (oe_net env) (ow_nets w) \<rparr>)"
| accounts_change: "oidc_run boot honest w \<Longrightarrow> oidc_run boot honest (w \<lparr> ow_accounts := ad \<rparr>)"
| cookie_lost: "oidc_run boot honest w \<Longrightarrow> oidc_run boot honest (w \<lparr> ow_cookies := (ow_cookies w)(b := None) \<rparr>)"

text \<open>Who a set of claims lets in, as what.\<close>

definition admitted :: "oidc_config \<Rightarrow> jsval \<Rightarrow> principal \<Rightarrow> admin_state \<Rightarrow> bool" where
  "admitted config claims p ad \<longleftrightarrow>
     (\<exists>email u resolved.
        js_get claims (oi_emailClaim config) = Some (JStr email) \<and> email \<noteq> []
        \<and> u \<in> set (ad_users ad) \<and> us_email u = normalizeEmail email \<and> us_isActive u \<and> pr_userId p = us_id u
        \<and> resolveOidcRole (groupsFromClaim (js_get claims (oi_groupsClaim config))) config = Some resolved
        \<and> pr_role p = rr_primary resolved \<and> pr_roles p = (if length (rr_all resolved) > 1 then Some (rr_all resolved) else None))"

lemma principalFor_admitted:
  assumes "principalFor now config claims ad = (Inr p, ad')"
  shows "admitted config claims p ad"
proof -
  obtain email where email: "js_get claims (oi_emailClaim config) = Some (JStr email)" "email \<noteq> []"
    using assms by (auto simp: principalFor_def split: option.splits jsval.splits if_splits)
  obtain resolved where resolved: "resolveOidcRole (groupsFromClaim (js_get claims (oi_groupsClaim config))) config = Some resolved"
    using assms email by (auto simp: principalFor_def split: option.splits)
  obtain u where u: "by_email (normalizeEmail email) ad = Some u" "us_isActive u"
    using assms email resolved by (auto simp: principalFor_def split: option.splits if_splits)
  have "u \<in> set (ad_users ad) \<and> us_email u = normalizeEmail email" using find_unique_Some [OF u(1) [unfolded by_email_def]] .
  then show ?thesis
    using assms email resolved u unfolding admitted_def principalFor_def
    by (intro exI [of _ email] exI [of _ u] exI [of _ resolved]) (auto simp: Let_def)
qed

text \<open>The options an ID token is checked with in a login.\<close>

definition login_options :: "oidc_env \<Rightarrow> oidc_config \<Rightarrow> string \<Rightarrow> id_options" where
  "login_options env config nonce =
     \<lparr> io_issuer = oi_issuer config, io_audience = oi_clientId config, io_nonce = nonce,
       io_clockSkewSeconds = oi_clockSkewSeconds config, io_now = oe_now env \<rparr>"

text \<open>The ID token presented: the one the token endpoint of the issuer answered to the code of the request and the verifier of the login.\<close>

definition presented :: "http set \<Rightarrow> oidc_env \<Rightarrow> oidc_config \<Rightarrow> string \<Rightarrow> string \<Rightarrow> string \<Rightarrow> bool" where
  "presented N env config code verifier token \<longleftrightarrow>
     (\<exists>doc q answer. published N (oi_issuer config) doc \<and> tr_endpoint q = dd_token_endpoint doc
        \<and> {(''code'', code), (''code_verifier'', verifier), (''client_id'', oi_clientId config), (''redirect_uri'', oi_redirectUri config)}
            \<subseteq> set (tr_form q)
        \<and> oe_post env q = Inr answer \<and> js_get answer ''id_token'' = Some (JStr token))"

lemma string_at_some: "string_at v = Some x \<longleftrightarrow> v = Some (JStr x)"
  by (auto simp: string_at_def split: option.splits jsval.splits)

lemma redeem_presented:
  assumes "redeem env config (dd_token_endpoint doc) code verifier = Inr answer" "string_at (js_get answer ''id_token'') = Some token"
    and "published N (oi_issuer config) doc"
  shows "presented N env config code verifier token"
proof -
  let ?q = "redeem_request config (dd_token_endpoint doc) code verifier"
  obtain raw where raw: "oe_post env ?q = Inr raw" "answer = (if raw = JNull then JObj [] else raw)"
    using assms(1) by (auto simp: redeem_def split: sum.splits)
  have "object_proto_get ''id_token'' = None" by code_simp
  then have "raw \<noteq> JNull" using raw(2) assms(2) by (auto simp: string_at_some)
  then show ?thesis
    unfolding presented_def
    by (intro exI [of _ doc] exI [of _ ?q] exI [of _ raw]) (use raw assms(2,3) in \<open>simp add: redeem_request_def string_at_some\<close>)
qed

lemma claims_for_ok:
  assumes "directory_ok d" "directory_from N d" "od_issuer d = oi_issuer config" "claims_for env config code login d = (r, d')" "oe_net env \<in> N"
  shows "directory_ok d' \<and> directory_from N d' \<and> od_issuer d' = od_issuer d
    \<and> (\<forall>claims. r = Inr (Some claims) \<longrightarrow> (\<exists>token key. published_key N (oi_issuer config) key \<and> signature_key key
         \<and> presented N env config code (pl_verifier login) token
         \<and> id_token_proves (oe_crypto env) token key (login_options env config (pl_nonce login)) claims))"
proof -
  obtain r1 d1 where doc: "discovery_document (oe_net env) (oe_now env) d = (r1, d1)" by (cases "discovery_document (oe_net env) (oe_now env) d")
  note ok1 = discovery_document_ok [OF assms(1) doc] and from1 = discovery_from [OF assms(2,5) doc]
  have ok2: "directory_ok d2 \<and> directory_from N d2 \<and> od_issuer d2 = od_issuer d
      \<and> (\<forall>key. rk = Inr key \<longrightarrow> published_key N (oi_issuer config) key \<and> signature_key key)"
    if "signingKey (oe_net env) (oe_now env) kid d1 = (rk, d2)" for kid rk d2
    using signingKey_ok [OF _ that] ok1 signing_from [OF _ assms(5) that] from1 assms(3) by auto
  have "\<exists>token key. published_key N (oi_issuer config) key \<and> signature_key key
       \<and> presented N env config code (pl_verifier login) token
       \<and> id_token_proves (oe_crypto env) token key (login_options env config (pl_nonce login)) claims"
    if "r1 = Inr found" "redeem env config (dd_token_endpoint found) code (pl_verifier login) = Inr answer"
      "string_at (js_get answer ''id_token'') = Some token" "signingKey (oe_net env) (oe_now env) kid d1 = (Inr key, d2)"
      "verifyIdToken (oe_crypto env) token key (login_options env config (pl_nonce login)) = Inr claims" for found answer kid key d2 token claims
    using ok2 [OF that(4)] id_token_accepted [OF that(5)] redeem_presented [OF that(2,3)] from1 that(1) assms(3) by auto
  with assms(4) ok1 from1 ok2 show ?thesis
    unfolding claims_for_def doc login_options_def
    by (auto split: sum.splits option.splits if_splits prod.splits)
qed

section \<open>The two legs and the state\<close>

lemma base64Url_no_bar: "CHR ''|'' \<notin> set (base64UrlEncode s)"
proof -
  have "\<forall>n \<in> set [0..<64]. url_char (b64_char n) \<noteq> CHR ''|''" by code_simp
  then show ?thesis using b64_digits_less by (fastforce simp: base64UrlEncode_digits)
qed

lemma cookie_of_state: "fst (cookie_parts (base64UrlEncode s @ CHR ''|'' # r)) = base64UrlEncode s"
proof -
  have "takeWhile (\<lambda>c. c \<noteq> CHR ''|'') (base64UrlEncode s @ CHR ''|'' # r) = base64UrlEncode s"
    using base64Url_no_bar [of s] by (subst takeWhile_append2) auto
  then show ?thesis by (simp add: cookie_parts_def)
qed

lemma beginRedirect_ok:
  assumes "provider_ok N boot st" "oe_config env = boot" "oidc_beginRedirect env draw st = (r, st')"
    and net: "oe_net env \<in> N"
  shows "provider_ok N boot st'
    \<and> (\<forall>x \<in> set (op_pending st'). x \<in> set (op_pending st)
         \<or> fst x = base64UrlEncode (lg_state draw) \<and> pl_nonce (snd x) = base64UrlEncode (lg_nonce draw)
            \<and> pl_verifier (snd x) = base64UrlEncode (lg_verifier draw) \<and> pl_expiresAt (snd x) = oe_now env + 600000)
    \<and> (\<forall>c. r = Inr c \<longrightarrow> rc_state c = base64UrlEncode (lg_state draw))"
proof -
  obtain e st1 where eff: "oidc_effective env st = (e, st1)" by (cases "oidc_effective env st")
  note ok = effective_ok [OF assms(1,2) eff]
  show ?thesis
  proof (cases "\<exists>slot cl. e = Inr (Some (slot, cl))")
    case False
    then show ?thesis using ok assms(3) by (auto simp: oidc_beginRedirect_def eff split: sum.splits option.splits)
  next
    case True
    then obtain slot cl where e: "e = Inr (Some (slot, cl))" by blast
    obtain rd d where doc: "discovery_document (oe_net env) (oe_now env) (ic_directory cl) = (rd, d)"
      by (cases "discovery_document (oe_net env) (oe_now env) (ic_directory cl)")
    have "clients_ok N cl" using ok e by simp
    then have d: "directory_ok d" "directory_from N d" "od_issuer d = od_issuer (ic_directory cl)"
      using discovery_document_ok [OF _ doc] discovery_from [OF _ net doc] by (simp_all add: clients_ok_def)
    have put: "provider_ok N boot (put_directory slot cl d st1) \<and> op_pending (put_directory slot cl d st1) = op_pending st"
      using put_directory_ok [of N boot st1 cl d slot] ok d e by simp
    have rem: "provider_ok N boot (remember now s l (put_directory slot cl d st1))" for now s l
      using put by (simp add: provider_ok_def)
    show ?thesis
    proof (cases rd)
      case (Inl x)
      then show ?thesis using put assms(3) by (auto simp: oidc_beginRedirect_def eff e doc)
    next
      case (Inr found)
      then have "st' = remember (oe_now env) (base64UrlEncode (lg_state draw))
           \<lparr> pl_verifier = base64UrlEncode (lg_verifier draw), pl_nonce = base64UrlEncode (lg_nonce draw), pl_expiresAt = oe_now env + PENDING_TTL_MS \<rparr>
           (put_directory slot cl d st1)" "\<forall>c. r = Inr c \<longrightarrow> rc_state c = base64UrlEncode (lg_state draw)"
        using assms(3) by (auto simp: oidc_beginRedirect_def eff e doc Let_def challenge_for_def split: if_splits)
      then show ?thesis using rem put by (auto simp: PENDING_TTL_MS_def dest!: remember_pending)
    qed
  qed
qed

lemma begin_route_ok:
  assumes "provider_ok N boot st" "oe_config env = boot" "begin_route env draw returnTo st = ((a, c), st')"
    and net: "oe_net env \<in> N"
  shows "provider_ok N boot st'
    \<and> (\<forall>x \<in> set (op_pending st'). x \<in> set (op_pending st)
         \<or> fst x = base64UrlEncode (lg_state draw) \<and> pl_nonce (snd x) = base64UrlEncode (lg_nonce draw)
            \<and> pl_verifier (snd x) = base64UrlEncode (lg_verifier draw) \<and> pl_expiresAt (snd x) = oe_now env + 600000)
    \<and> (\<forall>cookie. c = Some cookie \<longrightarrow> fst (cookie_parts cookie) = base64UrlEncode (lg_state draw))"
proof -
  obtain b st1 where conf: "oidc_isConfigured env st = (b, st1)" by (cases "oidc_isConfigured env st")
  note ok = configured_ok [OF assms(1,2) conf]
  obtain r st2 where bg: "oidc_beginRedirect env draw st1 = (r, st2)" by (cases "oidc_beginRedirect env draw st1")
  note begun = beginRedirect_ok [OF conjunct1 [OF ok] assms(2) bg net]
  show ?thesis
  proof (cases b)
    case True
    then show ?thesis
      using assms(3) ok begun by (cases r) (auto simp: begin_route_def conf bg cookie_of_state)
  qed (use assms(3) ok in \<open>simp add: begin_route_def conf\<close>)
qed

text \<open>What stands behind a completed login.\<close>

definition login_proven :: "http set \<Rightarrow> oidc_env \<Rightarrow> jsval obj \<Rightarrow> string \<Rightarrow> string \<Rightarrow> oidc_config \<Rightarrow> principal \<Rightarrow> admin_state \<Rightarrow> bool" where
  "login_proven N env params nonce verifier config p ad \<longleftrightarrow>
     in_force env = Some config
     \<and> (\<exists>code token key claims.
          oget params ''code'' = Some (JStr code) \<and> presented N env config code verifier token
          \<and> published_key N (oi_issuer config) key \<and> signature_key key
          \<and> id_token_proves (oe_crypto env) token key (login_options env config nonce) claims
          \<and> admitted config claims p ad)"

lemma completeRedirect_ok:
  assumes "provider_ok N boot st" "oe_config env = boot" "oidc_completeRedirect env params st ad = (r, st', ad')"
    and net: "oe_net env \<in> N"
  shows "provider_ok N boot st' \<and> set (op_pending st') \<subseteq> set (op_pending st)
    \<and> (\<forall>p. r = Inr (Inr p) \<longrightarrow> (\<exists>state login config. string_at (oget params ''state'') = Some state
         \<and> (state, login) \<in> set (op_pending st) \<and> pl_expiresAt login > oe_now env \<and> state \<notin> fst ` set (op_pending st')
         \<and> login_proven N env params (pl_nonce login) (pl_verifier login) config p ad))"
proof -
  obtain e st1 where eff: "oidc_effective env st = (e, st1)" by (cases "oidc_effective env st")
  note ok = effective_ok [OF assms(1,2) eff]
  consider "\<exists>slot cl state code login. e = Inr (Some (slot, cl)) \<and> string_at (oget params ''error'') = None
      \<and> string_at (oget params ''state'') = Some state \<and> string_at (oget params ''code'') = Some code
      \<and> fst (take_login (oe_now env) state st1) = Some login"
    | "\<exists>state r0. take_login (oe_now env) state st1 = (r0, st') \<and> r = Inr (Inl INVALID_CREDENTIALS)"
    | "st' = st1 \<and> (\<forall>p. r \<noteq> Inr (Inr p))"
    using assms(3) unfolding oidc_completeRedirect_def eff
    by (auto split: sum.splits option.splits if_splits prod.splits)
  then show ?thesis
  proof cases
    case 1
    then obtain slot cl state code login where e: "e = Inr (Some (slot, cl))" and params: "string_at (oget params ''error'') = None"
      "string_at (oget params ''state'') = Some state" "string_at (oget params ''code'') = Some code"
      and taken: "fst (take_login (oe_now env) state st1) = Some login" by blast
    obtain st2 where take: "take_login (oe_now env) state st1 = (Some login, st2)" using taken by (cases "take_login (oe_now env) state st1") simp
    note pend = take_login_pending [OF take]
    obtain rc d where claims: "claims_for env (ic_config cl) code login (ic_directory cl) = (rc, d)"
      by (cases "claims_for env (ic_config cl) code login (ic_directory cl)")
    have cl: "clients_ok N cl" "in_force env = Some (ic_config cl)" using ok e by simp_all
    have "directory_ok (ic_directory cl)" "directory_from N (ic_directory cl)" "od_issuer (ic_directory cl) = oi_issuer (ic_config cl)"
      using cl(1) by (simp_all add: clients_ok_def)
    note d = claims_for_ok [OF this claims net]
    have "provider_ok N boot st2" using ok pend by (simp add: provider_ok_def)
    then have put: "provider_ok N boot (put_directory slot cl d st2) \<and> op_pending (put_directory slot cl d st2) = op_pending st2"
      using put_directory_ok [of N boot st2 cl d slot] cl d ok e pend by simp
    have st': "st' = put_directory slot cl d st2"
      using assms(3) by (auto simp: oidc_completeRedirect_def eff e params take claims split: sum.splits option.splits prod.splits)
    have "login_proven N env params (pl_nonce login) (pl_verifier login) (ic_config cl) p ad" if res: "r = Inr (Inr p)" for p
    proof -
      have "case rc of Inr (Some c) \<Rightarrow> r = Inr (fst (principalFor (oe_now env) (ic_config cl) c ad)) | _ \<Rightarrow> r = Inr (Inl INVALID_CREDENTIALS)"
        using assms(3) by (auto simp: oidc_completeRedirect_def eff e params take claims split: sum.splits option.splits prod.splits)
      then obtain c where c: "rc = Inr (Some c)" "fst (principalFor (oe_now env) (ic_config cl) c ad) = Inr p"
        using res by (auto split: sum.splits option.splits)
      then have "admitted (ic_config cl) c p ad"
        using principalFor_admitted by (cases "principalFor (oe_now env) (ic_config cl) c ad") auto
      moreover obtain token key where "published_key N (oi_issuer (ic_config cl)) key" "signature_key key"
        "presented N env (ic_config cl) code (pl_verifier login) token"
        "id_token_proves (oe_crypto env) token key (login_options env (ic_config cl) (pl_nonce login)) c" using d c(1) by blast
      moreover have "oget params ''code'' = Some (JStr code)" using params(3) by (simp add: string_at_some)
      ultimately show ?thesis
        using cl(2) unfolding login_proven_def
        by (intro conjI exI [of _ code] exI [of _ token] exI [of _ key] exI [of _ c])
    qed
    then show ?thesis using put st' pend params ok by auto
  next
    case 2
    then obtain state r0 where "take_login (oe_now env) state st1 = (r0, st')" "r = Inr (Inl INVALID_CREDENTIALS)" by blast
    then show ?thesis using ok take_login_pending [of "oe_now env" state st1 r0 st'] by (auto simp: provider_ok_def)
  next
    case 3
    then show ?thesis using ok by simp
  qed
qed

lemma callback_route_ok:
  assumes "provider_ok N boot st" "oe_config env = boot" "callback_route env params cookie st ad = ((a, spent), st', ad')"
    and net: "oe_net env \<in> N"
  shows "provider_ok N boot st' \<and> set (op_pending st') \<subseteq> set (op_pending st)
    \<and> (\<forall>p returnTo. a = SignedIn p returnTo \<longrightarrow> (\<exists>c login config. cookie = Some c
         \<and> (fst (cookie_parts c), login) \<in> set (op_pending st) \<and> pl_expiresAt login > oe_now env
         \<and> fst (cookie_parts c) \<notin> fst ` set (op_pending st') \<and> login_proven N env params (pl_nonce login) (pl_verifier login) config p ad \<and> same_origin_path returnTo))"
proof -
  obtain b st1 where conf: "oidc_isConfigured env st = (b, st1)" by (cases "oidc_isConfigured env st")
  note ok = configured_ok [OF assms(1,2) conf]
  obtain r st2 ad2 where compl: "oidc_completeRedirect env params st1 ad = (r, st2, ad2)" by (cases "oidc_completeRedirect env params st1 ad")
  note done1 = completeRedirect_ok [OF conjunct1 [OF ok] assms(2) compl net]
  have path: "same_origin_path (snd (cookie_parts c))" for c
    using sanitised_same_origin [of None] sanitised_same_origin by (simp add: cookie_parts_def sanitised_none)
  consider "b \<and> (\<exists>c. cookie = Some c \<and> string_at (oget params ''state'') = Some (fst (cookie_parts c)) \<and> st' = st2
      \<and> (\<forall>p returnTo. a = SignedIn p returnTo \<longrightarrow> r = Inr (Inr p) \<and> returnTo = snd (cookie_parts c)))"
    | "st' = st1 \<and> (\<forall>p returnTo. a \<noteq> SignedIn p returnTo)"
    using assms(3) unfolding callback_route_def conf compl
    by (cases b) (auto simp: conf compl split: option.splits if_splits prod.splits sum.splits)
  then show ?thesis
  proof cases
    case 1
    then show ?thesis using done1 ok path by auto
  next
    case 2
    then show ?thesis using ok by simp
  qed
qed

lemma check_directory_ok:
  assumes "directory_ok d" "directory_from N d" "check_directory env d = (r, d')" and net: "oe_net env \<in> N"
  shows "directory_ok d' \<and> directory_from N d' \<and> od_issuer d' = od_issuer d"
proof -
  obtain r1 d1 where doc: "discovery_document (oe_net env) (oe_now env) d = (r1, d1)" by (cases "discovery_document (oe_net env) (oe_now env) d")
  note ok1 = discovery_document_ok [OF assms(1) doc] and from1 = discovery_from [OF assms(2) net doc]
  obtain r2 d2 where keys: "fetchJwks (oe_net env) (oe_now env) d1 = (r2, d2)" by (cases "fetchJwks (oe_net env) (oe_now env) d1")
  have "directory_ok d2 \<and> directory_from N d2 \<and> od_issuer d2 = od_issuer d"
    using fetchJwks_ok [OF conjunct1 [OF ok1] keys] keys_from [OF conjunct1 [OF from1] net keys] ok1 by simp
  then show ?thesis using assms(3) ok1 from1 by (auto simp: check_directory_def doc signingKeyCount_def keys split: sum.splits)
qed

lemma verifyConfiguration_ok:
  assumes "provider_ok N boot st" "oe_config env = boot" "oidc_verifyConfiguration env candidate st = (r, st')"
    and net: "oe_net env \<in> N"
  shows "provider_ok N boot st' \<and> op_pending st' = op_pending st"
proof (cases "nullish candidate")
  case True
  obtain e st1 where eff: "oidc_effective env st = (e, st1)" by (cases "oidc_effective env st")
  note ok = effective_ok [OF assms(1,2) eff]
  show ?thesis
  proof (cases "\<exists>slot cl. e = Inr (Some (slot, cl))")
    case False
    then show ?thesis using ok assms(3) True by (auto simp: oidc_verifyConfiguration_def eff split: sum.splits option.splits)
  next
    case e: True
    then obtain slot cl where e: "e = Inr (Some (slot, cl))" by blast
    obtain r0 d where chk: "check_directory env (ic_directory cl) = (r0, d)" by (cases "check_directory env (ic_directory cl)")
    have "clients_ok N cl" using ok e by simp
    then have "directory_ok d \<and> directory_from N d \<and> od_issuer d = od_issuer (ic_directory cl)"
      using check_directory_ok [OF _ _ chk net] by (simp add: clients_ok_def)
    then show ?thesis
      using put_directory_ok [of N boot st1 cl d slot] ok e assms(3) True \<open>clients_ok N cl\<close>
      by (auto simp: oidc_verifyConfiguration_def eff chk)
  qed
next
  case False
  then show ?thesis using assms by (auto simp: oidc_verifyConfiguration_def split: option.splits)
qed

definition oidc_world_ok :: "oidc_config option \<Rightarrow> string set \<Rightarrow> oidc_world \<Rightarrow> bool" where
  "oidc_world_ok boot honest w \<longleftrightarrow>
     provider_ok (ow_nets w) boot (ow_provider w)
     \<and> (\<forall>b c. b \<in> honest \<longrightarrow> ow_cookies w b = Some c \<longrightarrow>
          (\<exists>g \<in> set (ow_begun w). bg_browser g = b \<and> bg_state g = fst (cookie_parts c)))
     \<and> (\<forall>x \<in> set (op_pending (ow_provider w)). fst x \<notin> ow_used w
          \<and> (\<forall>g \<in> set (ow_begun w). bg_state g = fst x \<longrightarrow> bg_nonce g = pl_nonce (snd x) \<and> bg_verifier g = pl_verifier (snd x) \<and> pl_expiresAt (snd x) = bg_time g + 600000))"

lemma pending_after_begin:
  assumes "oidc_world_ok boot honest w" "unseen_state s w"
    and "\<forall>x \<in> set ps. x \<in> set (op_pending (ow_provider w)) \<or> fst x = s \<and> Q x" "x \<in> set ps"
  shows "fst x \<notin> ow_used w \<and> (\<forall>g \<in> set (ow_begun w). bg_state g = fst x \<longrightarrow>
      bg_nonce g = pl_nonce (snd x) \<and> bg_verifier g = pl_verifier (snd x) \<and> pl_expiresAt (snd x) = bg_time g + 600000)"
proof (cases "x \<in> set (op_pending (ow_provider w))")
  case False
  then have "fst x = s" using assms(3,4) by blast
  then show ?thesis using assms(2) by (force simp: unseen_state_def)
qed (use assms(1) in \<open>simp add: oidc_world_ok_def\<close>)

lemma run_world_ok: "oidc_run boot honest w \<Longrightarrow> oidc_world_ok boot honest w"
proof (induction rule: oidc_run.induct)
  case (start ad)
  then show ?case by (simp add: oidc_world_ok_def start_world_def new_provider_def provider_ok_def)
next
  case (begins w env draw returnTo challenge cookie pr b)
  let ?N = "insert (oe_net env) (ow_nets w)"
  have "provider_ok ?N boot (ow_provider w)" using begins.IH provider_ok_mono [OF _ subset_insertI] by (simp add: oidc_world_ok_def)
  note ok = begin_route_ok [OF this begins.hyps(2,4) insertI1]
  have "\<exists>g \<in> set (ow_begun w @ [begun_now env draw b]). bg_browser g = b' \<and> bg_state g = fst (cookie_parts c)"
    if "b' \<in> honest" "((ow_cookies w)(b := Some cookie)) b' = Some c" for b' c
    using that ok begins.IH by (auto simp: oidc_world_ok_def begun_now_def split: if_splits)
  moreover have old: "fst x \<notin> ow_used w \<and> (\<forall>g \<in> set (ow_begun w). bg_state g = fst x \<longrightarrow>
      bg_nonce g = pl_nonce (snd x) \<and> bg_verifier g = pl_verifier (snd x) \<and> pl_expiresAt (snd x) = bg_time g + 600000)" if "x \<in> set (op_pending pr)" for x
    using pending_after_begin [OF begins.IH begins.hyps(3) _ that] ok by blast
  moreover have "bg_nonce g = pl_nonce (snd x) \<and> bg_verifier g = pl_verifier (snd x) \<and> pl_expiresAt (snd x) = bg_time g + 600000"
    if "x \<in> set (op_pending pr)" "g \<in> set (ow_begun w @ [begun_now env draw b])" "bg_state g = fst x" for x g
  proof (cases "g \<in> set (ow_begun w)")
    case False
    then have g: "g = begun_now env draw b" using that(2) by simp
    then have "x \<notin> set (op_pending (ow_provider w))" using begins.hyps(3) that(3) by (force simp: unseen_state_def begun_now_def)
    then show ?thesis using ok that(1) g by (auto simp: begun_now_def)
  qed (use old that in blast)
  ultimately show ?case using ok unfolding oidc_world_ok_def by simp
next
  case (fails_to_begin w env draw returnTo a pr)
  let ?N = "insert (oe_net env) (ow_nets w)"
  have "provider_ok ?N boot (ow_provider w)" using fails_to_begin.IH provider_ok_mono [OF _ subset_insertI] by (simp add: oidc_world_ok_def)
  note ok = begin_route_ok [OF this fails_to_begin.hyps(2,4) insertI1]
  have "fst x \<notin> ow_used w \<and> (\<forall>g \<in> set (ow_begun w). bg_state g = fst x \<longrightarrow>
      bg_nonce g = pl_nonce (snd x) \<and> bg_verifier g = pl_verifier (snd x) \<and> pl_expiresAt (snd x) = bg_time g + 600000)" if "x \<in> set (op_pending pr)" for x
    using pending_after_begin [OF fails_to_begin.IH fails_to_begin.hyps(3) _ that] ok by blast
  then show ?case using fails_to_begin.IH ok by (simp add: oidc_world_ok_def)
next
  case (comes_back w env b cookie params a spent pr ad)
  let ?N = "insert (oe_net env) (ow_nets w)"
  have "provider_ok ?N boot (ow_provider w)" using comes_back.IH provider_ok_mono [OF _ subset_insertI] by (simp add: oidc_world_ok_def)
  note ok = callback_route_ok [OF this comes_back.hyps(2,4) insertI1]
  have "\<forall>x \<in> set (op_pending pr). fst x \<noteq> fst (cookie_parts (the cookie))" if signed: "is_signed_in a"
  proof -
    obtain p returnTo where "a = SignedIn p returnTo" using signed by (auto simp: is_signed_in_def)
    with ok obtain c where "cookie = Some c" "fst (cookie_parts c) \<notin> fst ` set (op_pending pr)" by blast
    then show ?thesis by force
  qed
  then show ?case using ok comes_back.IH by (auto simp: oidc_world_ok_def split: if_splits)
next
  case (checks w env candidate r pr)
  let ?N = "insert (oe_net env) (ow_nets w)"
  have pr_ok: "provider_ok ?N boot (ow_provider w)" using checks.IH provider_ok_mono [OF _ subset_insertI] by (simp add: oidc_world_ok_def)
  have "provider_ok ?N boot pr \<and> op_pending pr = op_pending (ow_provider w)"
    by (rule verifyConfiguration_ok [OF pr_ok checks.hyps(2,3) insertI1])
  then show ?case using checks.IH by (auto simp: oidc_world_ok_def)
next
  case (accounts_change w ad)
  then show ?case by (simp add: oidc_world_ok_def)
next
  case (cookie_lost w b)
  then show ?case by (auto simp: oidc_world_ok_def)
qed

text \<open>
  C5. Who is signed in by an OpenID provider has proved it, in the browser that asked. Whatever is sent to the two routes by anybody, whatever
  the network answers and however the settings change: when a browser that sends the cookie it was given is signed in, the login
  was begun in that browser less than ten minutes ago and has signed nobody in before; the code of the request, with the
  verifier of that login, was redeemed at the token endpoint of the issuer configured now for an ID token; its signature verifies under a key that this
  issuer published, made for this client and this very login, in its time; and the principal is the active account with the e-mail
  it names, with the role its groups are mapped to. What the issuer published is what the network answered, in a step of this
  run, under the issuer's well-known path, if it named that issuer, and under the key set address given there. The browser is
  sent to a path of the same origin.
\<close>

theorem oidc_sign_in_is_proven:
  assumes "oidc_run boot honest w" "oe_config env = boot" "b \<in> honest"
    and "callback_route env params (ow_cookies w b) (ow_provider w) (ow_accounts w) = ((SignedIn p returnTo, spent), pr, ad)"
  shows "\<exists>g config. g \<in> set (ow_begun w) \<and> bg_browser g = b \<and> oe_now env < bg_time g + 600000 \<and> bg_state g \<notin> ow_used w
    \<and> login_proven (insert (oe_net env) (ow_nets w)) env params (bg_nonce g) (bg_verifier g) config p (ow_accounts w)
    \<and> same_origin_path returnTo"
proof -
  let ?N = "insert (oe_net env) (ow_nets w)"
  have inv: "oidc_world_ok boot honest w" by (rule run_world_ok [OF assms(1)])
  then have "provider_ok ?N boot (ow_provider w)" using provider_ok_mono [OF _ subset_insertI] by (simp add: oidc_world_ok_def)
  from callback_route_ok [OF this assms(2,4) insertI1] obtain c login config where c: "ow_cookies w b = Some c"
    "(fst (cookie_parts c), login) \<in> set (op_pending (ow_provider w))" "pl_expiresAt login > oe_now env"
    "login_proven ?N env params (pl_nonce login) (pl_verifier login) config p (ow_accounts w)" "same_origin_path returnTo" by blast
  obtain g where g: "g \<in> set (ow_begun w)" "bg_browser g = b" "bg_state g = fst (cookie_parts c)"
    using inv assms(3) c(1) by (auto simp: oidc_world_ok_def)
  have "bg_nonce g = pl_nonce login" "bg_verifier g = pl_verifier login" "pl_expiresAt login = bg_time g + 600000" "bg_state g \<notin> ow_used w"
    using inv c(2) g by (auto simp: oidc_world_ok_def dest!: bspec)
  then show ?thesis using g c(3-5) by (intro exI [of _ g] exI [of _ config]) simp
qed

section \<open>Roles of groups\<close>

lemma matched_roles:
  "distinct acc \<Longrightarrow> foldl (add_oidc_role held) acc ms
     = acc @ filter (\<lambda>r. r \<notin> set acc) (uniq (map om_role (filter (\<lambda>m. om_group m \<in> held) ms)))"
proof (induction ms arbitrary: acc)
  case (Cons m ms)
  show ?case
  proof (cases "om_group m \<in> held \<and> om_role m \<notin> set acc")
    case True
    then have "distinct (acc @ [om_role m])" using Cons.prems by simp
    from Cons.IH [OF this] True show ?thesis
      by (simp add: add_oidc_role_def filter_filter conj_commute)
  next
    case False
    then have "add_oidc_role held acc m = acc" by (auto simp: add_oidc_role_def)
    moreover have "(\<lambda>x. x \<noteq> om_role m \<and> x \<notin> set acc) = (\<lambda>r. r \<notin> set acc)" if "om_role m \<in> set acc" using that by auto
    ultimately show ?thesis using Cons False by (auto simp: filter_filter)
  qed
qed simp

text \<open>The roles of the mappings whose group is held, in the order of the mappings.\<close>

definition hits :: "oidc_config \<Rightarrow> string list \<Rightarrow> string list" where
  "hits config groups = map om_role (filter (\<lambda>m. om_group m \<in> set groups) (oi_roleMappings config))"

text \<open>
  C21. The roles a login gets from its groups. With no mapped group it gets the default role, or is refused where none is set; when only
  roles of the product are named, exactly the one of the first mapping that applies, whatever the order of the groups; and when a role of the deployment is
  among them, every role named, each once, with the first one as the one on record.
\<close>

theorem resolveOidcRole_roles:
  "resolveOidcRole groups config =
     (if hits config groups = [] then map_option (\<lambda>r. \<lparr> rr_primary = r, rr_all = [r] \<rparr>) (oi_defaultRole config)
      else if set (hits config groups) \<subseteq> {''VIEWER'', ''OPERATOR'', ''ADMIN''}
      then Some \<lparr> rr_primary = hd (hits config groups), rr_all = [hd (hits config groups)] \<rparr>
      else Some \<lparr> rr_primary = hd (hits config groups), rr_all = uniq (hits config groups) \<rparr>)"
proof -
  have m: "foldl (add_oidc_role (set groups)) [] (oi_roleMappings config) = uniq (hits config groups)"
    by (simp add: matched_roles hits_def)
  have "uniq rs ! 0 = hd rs" if "rs \<noteq> []" for rs :: "string list" using that by (cases rs) simp_all
  moreover have "list_all isBuiltInRole (uniq rs) \<longleftrightarrow> set rs \<subseteq> {''VIEWER'', ''OPERATOR'', ''ADMIN''}" for rs
    by (auto simp: list_all_iff isBuiltInRole_def BUILT_IN_def)
  ultimately show ?thesis
    by (auto simp: resolveOidcRole_def m Let_def split: option.splits)
qed

section \<open>Whose account\<close>

text \<open>
  C13. An account of any source is opened. The account with the e-mail of an accepted token is signed in whatever its source is: a local account is
  reached without its password, and the mapped role is written over the one an administrator gave it, so the only
  administrator becomes a viewer when the groups say so.
\<close>

theorem oidc_opens_local_account:
  assumes "js_get claims (oi_emailClaim config) = Some (JStr email)" "email \<noteq> []"
    and "by_email (normalizeEmail email) ad = Some u" "us_authSource u = ''local''" "us_isActive u"
    and "resolveOidcRole (groupsFromClaim (js_get claims (oi_groupsClaim config))) config = Some resolved"
  shows "\<exists>p v. fst (principalFor now config claims ad) = Inr p \<and> pr_userId p = us_id u
    \<and> v \<in> set (ad_users (snd (principalFor now config claims ad))) \<and> us_id v = us_id u \<and> us_authSource v = ''local''
    \<and> us_role v = rr_primary resolved \<and> us_passwordHash v = us_passwordHash u"
proof -
  let ?name = "with_default (string_at (js_get claims (oi_displayNameClaim config))) (us_displayName u)"
  let ?r = "find_unique (\<lambda>r. ro_name r = rr_primary resolved) (ad_roles ad)"
  let ?f = "\<lambda>w. w \<lparr> us_role := rr_primary resolved, us_roleId := (case ?r of None \<Rightarrow> us_roleId w | Some r \<Rightarrow> ro_id r),
     us_displayName := ?name, us_lastLoginAt := Some now \<rparr>"
  have u: "u \<in> set (ad_users ad)" using find_unique_Some [OF assms(3) [unfolded by_email_def]] by simp
  have "ad_users (recordLogin now (us_id u) (rr_primary resolved) ?name ad) = map (\<lambda>w. if us_id w = us_id u then ?f w else w) (ad_users ad)"
    by (simp add: recordLogin_def update_user_def)
  then have "?f u \<in> set (ad_users (recordLogin now (us_id u) (rr_primary resolved) ?name ad))"
    using u by (simp add: image_iff) (rule bexI [of _ u], simp_all)
  then show ?thesis
    using assms by (intro exI [of _ "the (case fst (principalFor now config claims ad) of Inr p \<Rightarrow> Some p | _ \<Rightarrow> None)"] exI [of _ "?f u"])
      (simp add: principalFor_def Let_def)
qed

section \<open>Witnesses\<close>

definition demo_oidc_config :: oidc_config where
  "demo_oidc_config = \<lparr> oi_issuer = ''https://idp'', oi_clientId = ''np'', oi_clientSecret = None, oi_redirectUri = ''https://np/auth/callback'',
     oi_scopes = [''email''], oi_emailClaim = ''email'', oi_displayNameClaim = ''name'', oi_groupsClaim = ''groups'',
     oi_roleMappings = [\<lparr> om_group = ''ops'', om_role = ''VIEWER'' \<rparr>], oi_defaultRole = None, oi_timeoutMs = 1000, oi_clockSkewSeconds = 60 \<rparr>"

definition demo_claims :: jsval where
  "demo_claims = JObj [(''iss'', JStr ''https://idp''), (''aud'', JStr ''np''), (''sub'', JStr ''x''), (''exp'', JNum 2000), (''iat'', JNum 0),
     (''nonce'', JStr (base64UrlEncode ''n'')), (''email'', JStr ''A''), (''groups'', JArr [JStr ''ops''])]"

definition demo_oidc_env :: oidc_env where
  "demo_oidc_env = \<lparr> oe_config = Some demo_oidc_config, oe_stored = Inr None, oe_is_url = \<lambda>_. True, oe_net = demo_http,
     oe_post = \<lambda>_. Inr (JObj [(''id_token'', JStr (base64UrlEncode ''h'' @ ''.'' @ base64UrlEncode ''p'' @ ''.'' @ base64UrlEncode ''s''))]),
     oe_crypto = \<lparr> oc_parse = \<lambda>s. Inr (if s = ''h'' then JObj [(''alg'', JStr ''RS256''), (''kid'', JStr ''1'')] else demo_claims),
                   oc_import = \<lambda>_. True, oc_verify = \<lambda>_ _ _ _ _. Some True \<rparr>,
     oe_sha256 = \<lambda>s. s, oe_now = 5000 \<rparr>"

definition demo_draw :: login_draw where
  "demo_draw = \<lparr> lg_state = ''s'', lg_nonce = ''n'', lg_verifier = ''v'' \<rparr>"

definition demo_params :: "jsval obj" where
  "demo_params = [(''state'', JStr (base64UrlEncode ''s'')), (''code'', JStr ''c'')]"

lemma demo_legs:
  "case begin_route demo_oidc_env demo_draw None (new_provider (Some demo_oidc_config)) of
     ((RedirectTo c, Some cookie), pr) \<Rightarrow>
       (case callback_route demo_oidc_env demo_params (Some cookie) pr demo_state of
          ((SignedIn p returnTo, spent), pr2, ad) \<Rightarrow> pr_userId p = ''a'' \<and> pr_role p = ''VIEWER'' \<and> returnTo = ''/''
        | _ \<Rightarrow> False)
   | _ \<Rightarrow> False"
  by code_simp

theorem oidc_sign_in_is_proven_witness:
  "\<exists>token key. id_token_proves (oe_crypto demo_oidc_env) token key (login_options demo_oidc_env demo_oidc_config (base64UrlEncode ''n'')) demo_claims
     \<and> signature_key key \<and> published_key {demo_http} ''https://idp'' key"
proof -
  let ?st = "new_provider (Some demo_oidc_config)" and ?w0 = "start_world (Some demo_oidc_config) demo_state"
  obtain a k pr where legs: "begin_route demo_oidc_env demo_draw None ?st = ((a, k), pr)"
    by (cases "begin_route demo_oidc_env demo_draw None ?st") auto
  obtain c cookie where ac: "a = RedirectTo c" "k = Some cookie"
    using demo_legs unfolding legs by (cases a; cases k) simp_all
  have leg1: "begin_route demo_oidc_env demo_draw None ?st = ((RedirectTo c, Some cookie), pr)" using legs ac by simp
  obtain a2 spent pr2 ad where returned: "callback_route demo_oidc_env demo_params (Some cookie) pr demo_state = ((a2, spent), pr2, ad)"
    by (cases "callback_route demo_oidc_env demo_params (Some cookie) pr demo_state") auto
  obtain p r where signed: "a2 = SignedIn p r" using demo_legs unfolding leg1 by (cases a2) (simp_all add: returned)
  have leg2: "callback_route demo_oidc_env demo_params (Some cookie) pr demo_state = ((SignedIn p r, spent), pr2, ad)" using returned signed by simp
  let ?w = "?w0 \<lparr> ow_provider := pr, ow_cookies := (ow_cookies ?w0)(''b'' := Some cookie),
     ow_begun := ow_begun ?w0 @ [begun_now demo_oidc_env demo_draw ''b''], ow_nets := insert (oe_net demo_oidc_env) (ow_nets ?w0) \<rparr>"
  have cfg: "oe_config demo_oidc_env = Some demo_oidc_config" by (simp add: demo_oidc_env_def)
  have run: "oidc_run (Some demo_oidc_config) {''b''} ?w"
    by (rule oidc_run.begins [OF oidc_run.start cfg]) (use leg1 in \<open>simp_all add: unseen_state_def start_world_def new_provider_def\<close>)
  have "callback_route demo_oidc_env demo_params (ow_cookies ?w ''b'') (ow_provider ?w) (ow_accounts ?w)
      = ((SignedIn p r, spent), pr2, ad)" using leg2 by (simp add: start_world_def)
  from oidc_sign_in_is_proven [OF run cfg _ this] obtain g config where g: "g \<in> set (ow_begun ?w)"
    and proven: "login_proven (insert (oe_net demo_oidc_env) (ow_nets ?w)) demo_oidc_env demo_params (bg_nonce g) (bg_verifier g) config p (ow_accounts ?w)"
    by blast
  then obtain key token claims where config: "in_force demo_oidc_env = Some config" and key: "signature_key key"
    and issued: "published_key {demo_http} (oi_issuer config) key"
    and proves: "id_token_proves (oe_crypto demo_oidc_env) token key (login_options demo_oidc_env config (bg_nonce g)) claims"
    unfolding login_proven_def by (auto simp: start_world_def demo_oidc_env_def)
  have "bg_nonce g = base64UrlEncode ''n''" using g by (simp add: start_world_def begun_now_def demo_draw_def)
  moreover have "config = demo_oidc_config" using config by (simp add: in_force_def demo_oidc_env_def nullish_def)
  moreover have "claims = demo_claims"
  proof -
    let ?header = "JObj [(''alg'', JStr ''RS256''), (''kid'', JStr ''1'')]"
    obtain part s where "oc_parse (oe_crypto demo_oidc_env) part = Inr claims" and iss: "js_get claims ''iss'' = Some (JStr s)"
      using proves unfolding id_token_proves_def by blast
    then have "claims = ?header \<or> claims = demo_claims" by (simp add: demo_oidc_env_def split: if_splits)
    moreover have "js_get ?header ''iss'' = None" by code_simp
    ultimately show ?thesis using iss by fastforce
  qed
  moreover have "oi_issuer demo_oidc_config = ''https://idp''" by (simp add: demo_oidc_config_def)
  ultimately show ?thesis using key issued proves by (intro exI [of _ token] exI [of _ key]) simp
qed

theorem oidc_opens_local_account_witness:
  "\<exists>p. fst (principalFor 0 demo_oidc_config demo_claims demo_state) = Inr p \<and> pr_userId p = ''a''"
proof -
  have c: "js_get demo_claims (oi_emailClaim demo_oidc_config) = Some (JStr ''A'')" by code_simp
  have u: "by_email (normalizeEmail ''A'') demo_state = Some (demo_admin ''a'')" by code_simp
  have l: "us_authSource (demo_admin ''a'') = ''local''" "us_isActive (demo_admin ''a'')" "us_id (demo_admin ''a'') = ''a''" by (simp_all add: demo_admin_def)
  have r: "resolveOidcRole (groupsFromClaim (js_get demo_claims (oi_groupsClaim demo_oidc_config))) demo_oidc_config
      = Some \<lparr> rr_primary = ''VIEWER'', rr_all = [''VIEWER''] \<rparr>" by code_simp
  from oidc_opens_local_account [OF c _ u l(1,2) r] l(3) show ?thesis by auto
qed

end
